(* ===== verification/Lyre_Prelude.thy ===== *)
theory Lyre_Prelude
  imports Main "HOL-Library.Word" "HOL-Library.Multiset"
begin

unbundle bit_operations_syntax

section \<open>Prelude: machine integers, faults and checked arrays\<close>

text \<open>
  What every theory of the development shares. The kernel's fixed-width integers are words of
  that width. Code that can stop the kernel (a failed assertion, an access outside an array, a
  store through a null pointer, a lock that is never released) returns a value of
  \<open>fault + 'a\<close>: \<open>Inl\<close> is the fault, \<open>Inr\<close> the result. \<open>rbind\<close> sequences
  such code, \<open>arr_get\<close> and \<open>arr_set\<close> are the checked accesses to a C array.
\<close>

subsection \<open>Types\<close>

type_synonym u8 = "8 word"
type_synonym u16 = "16 word"
type_synonym u32 = "32 word"
type_synonym u64 = "64 word"

text \<open>How a run of kernel code can stop instead of returning.\<close>

datatype fault =
    OutOfBounds
  | NullDeref
  | Deadlock
  | Panic string
  | UseAfterFree

type_synonym 'a result = "fault + 'a"

subsection \<open>Sequencing\<close>

definition rbind :: "'a result \<Rightarrow> ('a \<Rightarrow> 'b result) \<Rightarrow> 'b result" where
  "rbind m f = (case m of Inl e \<Rightarrow> Inl e | Inr x \<Rightarrow> f x)"

text \<open>The access \<open>xs[i]\<close> of a C array of \<open>length xs\<close> elements.\<close>

definition arr_get :: "'a list \<Rightarrow> nat \<Rightarrow> 'a result" where
  "arr_get xs i = (if i < length xs then Inr (xs ! i) else Inl OutOfBounds)"

definition arr_set :: "'a list \<Rightarrow> nat \<Rightarrow> 'a \<Rightarrow> 'a list result" where
  "arr_set xs i v = (if i < length xs then Inr (xs[i := v]) else Inl OutOfBounds)"

text \<open>Sequencing of runs that may not end, where \<open>None\<close> is a run that does not.\<close>

definition obind :: "'a result option \<Rightarrow> ('a \<Rightarrow> 'b result option) \<Rightarrow> 'b result option" where
  "obind m f = Option.bind m (\<lambda>r. case r of Inl e \<Rightarrow> Some (Inl e) | Inr x \<Rightarrow> f x)"

subsection \<open>Lemmas on results\<close>

named_theorems kresult \<open>rewriting and case analysis of fault-or-result code\<close>

lemma rbind_Inl [simp]: "rbind (Inl e) f = Inl e"
  by (simp add: rbind_def)

lemma rbind_Inr [simp]: "rbind (Inr x) f = f x"
  by (simp add: rbind_def)

lemma rbind_cong [fundef_cong]:
  "m = m' \<Longrightarrow> (\<And>x. m' = Inr x \<Longrightarrow> f x = g x) \<Longrightarrow> rbind m f = rbind m' g"
  by (simp add: rbind_def split: sum.split)

lemma rbind_eq_Inr [kresult]: "rbind m f = Inr y \<longleftrightarrow> (\<exists>x. m = Inr x \<and> f x = Inr y)"
  by (simp add: rbind_def split: sum.split)

lemma rbind_eq_Inl [kresult]:
  "rbind m f = Inl e \<longleftrightarrow> m = Inl e \<or> (\<exists>x. m = Inr x \<and> f x = Inl e)"
  by (simp add: rbind_def split: sum.split)

lemma rbind_assoc: "rbind (rbind m f) g = rbind m (\<lambda>x. rbind (f x) g)"
  by (simp add: rbind_def split: sum.split)

lemma obind_Inr: "obind m f = Some (Inr y) \<longleftrightarrow> (\<exists>x. m = Some (Inr x) \<and> f x = Some (Inr y))"
  by (auto simp: obind_def split: option.splits sum.splits bind_splits)

lemma obind_simps [simp]: "obind (Some (Inr x)) f = f x" "obind (Some (Inl e)) f = Some (Inl e)" "obind None f = None"
  by (simp_all add: obind_def)

lemma arr_get_Inr [kresult]: "arr_get xs i = Inr v \<longleftrightarrow> i < length xs \<and> v = xs ! i"
  by (auto simp: arr_get_def)

lemma arr_set_Inr [kresult]: "arr_set xs i v = Inr ys \<longleftrightarrow> i < length xs \<and> ys = xs[i := v]"
  by (auto simp: arr_set_def)

lemma arr_get_ok [simp]: "i < length xs \<Longrightarrow> arr_get xs i = Inr (xs ! i)"
  by (simp add: arr_get_def)

lemma arr_set_ok [simp]: "i < length xs \<Longrightarrow> arr_set xs i v = Inr (xs[i := v])"
  by (simp add: arr_set_def)

subsection \<open>Lemmas on words\<close>

named_theorems kword \<open>reading word arithmetic as arithmetic on natural numbers\<close>

lemma unat_add_small [kword]:
  fixes a b :: u64
  shows "unat a + unat b < 18446744073709551616 \<Longrightarrow> unat (a + b) = unat a + unat b"
  by (simp add: unat_word_ariths)

lemma unat_mult_small [kword]:
  fixes a b :: u64
  shows "unat a * unat b < 18446744073709551616 \<Longrightarrow> unat (a * b) = unat a * unat b"
  by (simp add: unat_word_ariths)

lemma unat_sub_small [kword]:
  fixes a b :: u64
  shows "unat b \<le> unat a \<Longrightarrow> unat (a - b) = unat a - unat b"
  by (simp add: unat_sub word_le_nat_alt)

lemma unat_lt_two_power_64 [simp]: "unat (x :: u64) < 18446744073709551616"
  using unsigned_less [of x] by simp

lemma of_nat_unat_u64: "of_nat (unat x) = (x :: u64)"
  by simp

lemma unat_of_nat_small [kword]:
  "n < 18446744073709551616 \<Longrightarrow> unat (of_nat n :: u64) = n"
  by (simp add: unat_of_nat)

lemma unat_eqI: "unat x = unat y \<Longrightarrow> x = (y :: u64)"
  by (simp add: word_unat_eq_iff)

lemma of_nat_eqI: "unat x = n \<Longrightarrow> of_nat n = (x :: u64)"
  by auto

lemma word_add_diff [simp]: "d + (a - d) = (a :: u64)"
  by simp

lemma of_nat_less_word: "i < unat n \<Longrightarrow> of_nat i < (n :: u64)"
proof -
  assume i: "i < unat n"
  then have "i < 18446744073709551616" using unat_lt_two_power_64 [of n] by linarith
  with i show ?thesis by (simp add: word_less_nat_alt unat_of_nat_small)
qed

lemma all_less_word: "(\<forall>k < n. P k) \<longleftrightarrow> (\<forall>i < unat n. P (of_nat i :: u64))"
proof safe
  fix k
  assume "\<forall>i < unat n. P (of_nat i)" and "k < n"
  then have "P (of_nat (unat k))" unfolding word_less_nat_alt by blast
  then show "P k" by simp
qed (simp add: of_nat_less_word)

lemma unat_Suc_less [kword]:
  fixes a b :: u64
  shows "a < b \<Longrightarrow> unat (a + 1) = Suc (unat a)"
proof -
  assume "a < b"
  then have "unat a < unat b" by (simp add: word_less_nat_alt)
  then have "unat a + 1 < 18446744073709551616" using unat_lt_two_power_64 [of b] by linarith
  then show ?thesis using unat_add_small [of a 1] by simp
qed

subsection \<open>Counting loops\<close>

text \<open>
  The counting loop \<open>for (i = a; i < n; i++) s = f(i, s)\<close> over an unsigned 64-bit counter,
  stopping at the first fault.
\<close>

function for_range :: "(u64 \<Rightarrow> 's \<Rightarrow> 's result) \<Rightarrow> u64 \<Rightarrow> u64 \<Rightarrow> 's \<Rightarrow> 's result" where
  "for_range f i n s = (if i < n then rbind (f i s) (for_range f (i + 1) n) else Inr s)"
  by pat_completeness auto
termination
  by (relation "measure (\<lambda>(f, i, n, s). unat n - unat i)")
    (auto simp: unat_Suc_less word_less_nat_alt)

declare for_range.simps [simp del]

lemma for_range_done [simp]: "\<not> i < n \<Longrightarrow> for_range f i n s = Inr s"
  by (simp add: for_range.simps)

lemma for_range_step: "i < n \<Longrightarrow> for_range f i n s = rbind (f i s) (for_range f (i + 1) n)"
  by (simp add: for_range.simps)

text \<open>
  The loop rule: an invariant that every turn establishes for the next counter value holds at the
  end, and the loop ends without a fault.
\<close>

lemma for_range_rule:
  assumes step: "\<And>k s. unat i \<le> unat k \<Longrightarrow> k < n \<Longrightarrow> I (unat k) s \<Longrightarrow> \<exists>s'. f k s = Inr s' \<and> I (Suc (unat k)) s'"
    and start: "I (unat i) s" and le: "i \<le> n"
  shows "\<exists>s'. for_range f i n s = Inr s' \<and> I (unat n) s'"
  using assms
proof (induction f i n s rule: for_range.induct)
  case (1 f i n s)
  show ?case
  proof (cases "i < n")
    case True
    then have i: "unat (i + 1) = Suc (unat i)" by (rule unat_Suc_less)
    from True "1.prems"(1) [of i s] "1.prems"(2) obtain s' where
      s': "f i s = Inr s'" "I (Suc (unat i)) s'" by auto
    have "i + 1 \<le> n"
      using True i by (simp add: word_le_nat_alt word_less_nat_alt)
    then have "\<exists>s''. for_range f (i + 1) n s' = Inr s'' \<and> I (unat n) s''"
      using "1.IH" [OF True] "1.prems"(1) i s' by simp
    with s' True show ?thesis by (simp add: for_range_step)
  next
    case False
    with "1.prems"(3) have "i = n" by simp
    with "1.prems"(2) show ?thesis by simp
  qed
qed

subsection \<open>Counting loops that cannot fault\<close>

function for_pure :: "(u64 \<Rightarrow> 's \<Rightarrow> 's) \<Rightarrow> u64 \<Rightarrow> u64 \<Rightarrow> 's \<Rightarrow> 's" where
  "for_pure f i n s = (if i < n then for_pure f (i + 1) n (f i s) else s)"
  by pat_completeness auto
termination
  by (relation "measure (\<lambda>(f, i, n, s). unat n - unat i)")
    (auto simp: unat_Suc_less word_less_nat_alt)

declare for_pure.simps [simp del]

lemma for_pure_done [simp]: "\<not> i < n \<Longrightarrow> for_pure f i n s = s"
  by (simp add: for_pure.simps)

lemma for_pure_step: "i < n \<Longrightarrow> for_pure f i n s = for_pure f (i + 1) n (f i s)"
  by (simp add: for_pure.simps)

lemma for_pure_rule:
  assumes step: "\<And>k s. i \<le> k \<Longrightarrow> k < n \<Longrightarrow> I k s \<Longrightarrow> I (k + 1) (f k s)"
    and start: "I i s" and le: "i \<le> n"
  shows "I n (for_pure f i n s)"
  using assms
proof (induction f i n s rule: for_pure.induct)
  case (1 f i n s)
  show ?case
  proof (cases "i < n")
    case True
    then have i: "unat (i + 1) = Suc (unat i)" by (rule unat_Suc_less)
    have "i + 1 \<le> n" using True i by (simp add: word_le_nat_alt word_less_nat_alt)
    moreover have "i \<le> i + 1" using i by (simp add: word_le_nat_alt)
    ultimately have "I n (for_pure f (i + 1) n (f i s))"
      using "1.IH" [OF True] "1.prems"(1,2) True by (meson order_refl order_trans)
    with True show ?thesis by (simp add: for_pure_step)
  next
    case False
    with "1.prems"(3) have "i = n" by simp
    with "1.prems"(2) show ?thesis by simp
  qed
qed

subsection \<open>Removing by swapping with the last element\<close>

lemma mset_swap_last:
  "i < length xs \<Longrightarrow> add_mset (xs ! i) (mset (butlast (xs[i := last xs]))) = mset xs"
proof (cases "xs = []")
  case False
  then obtain ys z where xs: "xs = ys @ [z]" by (metis rev_exhaust)
  assume "i < length xs"
  then show ?thesis
    by (cases "i = length ys") (auto simp: xs list_update_append nth_append mset_update)
qed simp

end
