(* ===== verification/Lyre_Lock.thy ===== *)
theory Lyre_Lock
  imports Lyre_Prelude
begin

section \<open>Spinlocks (lib/lock.k.h, lib/lock.c)\<close>

text \<open>
  The lock word and its last acquirer as a record, and the three operations on it. The other
  components run one at a time under their lock: there a lock that is already held is never
  released by anybody else while the caller spins, so acquiring it ends in the deadlock panic.
  The second half of the theory puts several CPUs on one lock and interleaves their accesses to
  the lock word; it shows that at most one of them is inside.
\<close>

subsection \<open>The lock and its operations\<close>

text \<open>
  The \<open>last_acquirer\<close> of the C struct is a return address; here it is the name of the
  function that acquired the lock, with the empty string for \<open>NULL\<close>.
\<close>

record spinlock =
  lock_word :: "32 word"
  last_acquirer :: string

definition SPINLOCK_INIT :: spinlock where
  "SPINLOCK_INIT = \<lparr>lock_word = 0, last_acquirer = ''''\<rparr>"

definition spinlock_test_and_acq :: "spinlock \<Rightarrow> bool \<times> spinlock" where
  "spinlock_test_and_acq l =
     (if lock_word l = 0 then (True, l\<lparr>lock_word := 1\<rparr>) else (False, l))"

text \<open>
  The loop of \<open>spinlock_acquire\<close> with what its compare-and-swap finds at each turn:
  \<open>seen\<close> lists the values other CPUs leave in the lock word between two attempts, and
  \<open>counter\<close> is the deadlock counter. The loop ends with the lock taken, or with the
  deadlock panic after \<open>100000000\<close> failed attempts; \<open>None\<close> says that \<open>seen\<close>
  ended before either.
\<close>

fun spin :: "u64 \<Rightarrow> spinlock \<Rightarrow> (32 word) list \<Rightarrow> spinlock result option" where
  "spin counter l [] = None"
| "spin counter l (v # seen) =
     (let (ok, l') = spinlock_test_and_acq (l\<lparr>lock_word := v\<rparr>)
      in if ok then Some (Inr l')
         else if counter + 1 \<ge> 100000000 then Some (Inl Deadlock)
         else spin (counter + 1) l' seen)"

text \<open>\<open>spinlock_acquire\<close> run by the only CPU that touches the lock.\<close>

definition spinlock_acquire :: "string \<Rightarrow> spinlock \<Rightarrow> spinlock result" where
  "spinlock_acquire caller l =
     (let (ok, l') = spinlock_test_and_acq l
      in if ok then Inr (l'\<lparr>last_acquirer := caller\<rparr>) else Inl Deadlock)"

definition spinlock_release :: "spinlock \<Rightarrow> spinlock" where
  "spinlock_release l = l\<lparr>last_acquirer := '''', lock_word := 0\<rparr>"

abbreviation unlocked :: "spinlock \<Rightarrow> bool" where
  "unlocked l \<equiv> lock_word l = 0"

subsection \<open>Several CPUs on one lock\<close>

datatype cpu_pc = Outside | Spinning | Acquired | Inside | Releasing

record lock_sys =
  the_lock :: spinlock
  cpu_pcs :: "nat \<Rightarrow> cpu_pc"

text \<open>
  The atomic accesses: the compare-and-swap that succeeds or fails, the store of the caller into
  \<open>last_acquirer\<close>, and on release the store of \<open>NULL\<close> followed by the store of zero
  into the lock word, which only the CPU that holds the lock runs.
\<close>

inductive lock_step :: "lock_sys \<Rightarrow> lock_sys \<Rightarrow> bool" where
  start: "cpu_pcs s c = Outside \<Longrightarrow>
     lock_step s (s\<lparr>cpu_pcs := (cpu_pcs s)(c := Spinning)\<rparr>)"
| cas: "cpu_pcs s c = Spinning \<Longrightarrow> spinlock_test_and_acq (the_lock s) = (ok, l') \<Longrightarrow>
     lock_step s (s\<lparr>the_lock := l', cpu_pcs := (cpu_pcs s)(c := (if ok then Acquired else Spinning))\<rparr>)"
| record_acquirer: "cpu_pcs s c = Acquired \<Longrightarrow>
     lock_step s (s\<lparr>the_lock := (the_lock s)\<lparr>last_acquirer := caller\<rparr>,
                    cpu_pcs := (cpu_pcs s)(c := Inside)\<rparr>)"
| clear_acquirer: "cpu_pcs s c = Inside \<Longrightarrow>
     lock_step s (s\<lparr>the_lock := (the_lock s)\<lparr>last_acquirer := ''''\<rparr>,
                    cpu_pcs := (cpu_pcs s)(c := Releasing)\<rparr>)"
| store_zero: "cpu_pcs s c = Releasing \<Longrightarrow>
     lock_step s (s\<lparr>the_lock := (the_lock s)\<lparr>lock_word := 0\<rparr>,
                    cpu_pcs := (cpu_pcs s)(c := Outside)\<rparr>)"

inductive lock_reachable :: "lock_sys \<Rightarrow> bool" where
  init: "lock_reachable \<lparr>the_lock = SPINLOCK_INIT, cpu_pcs = (\<lambda>_. Outside)\<rparr>"
| step: "lock_reachable s \<Longrightarrow> lock_step s t \<Longrightarrow> lock_reachable t"

definition holds_lock :: "lock_sys \<Rightarrow> nat \<Rightarrow> bool" where
  "holds_lock s c \<longleftrightarrow> cpu_pcs s c \<in> {Acquired, Inside, Releasing}"

definition lock_inv :: "lock_sys \<Rightarrow> bool" where
  "lock_inv s \<longleftrightarrow>
     (\<forall>c d. holds_lock s c \<and> holds_lock s d \<longrightarrow> c = d) \<and>
     (unlocked (the_lock s) \<longleftrightarrow> (\<forall>c. \<not> holds_lock s c))"

subsection \<open>Lemmas\<close>

named_theorems klock \<open>what acquiring and releasing a lock leaves behind\<close>

lemma unlocked_init [simp]: "unlocked SPINLOCK_INIT"
  by (simp add: SPINLOCK_INIT_def)

lemma unlocked_release [simp]: "unlocked (spinlock_release l)"
  by (simp add: spinlock_release_def)

lemma spinlock_acquire_unlocked [klock]:
  "unlocked l \<Longrightarrow> spinlock_acquire c l = Inr (l\<lparr>lock_word := 1, last_acquirer := c\<rparr>)"
  by (simp add: spinlock_acquire_def spinlock_test_and_acq_def)

lemma spinlock_acquire_locked [klock]:
  "\<not> unlocked l \<Longrightarrow> spinlock_acquire c l = Inl Deadlock"
  by (simp add: spinlock_acquire_def spinlock_test_and_acq_def)

lemma spinlock_acquire_Inr [klock]:
  "spinlock_acquire c l = Inr l' \<longleftrightarrow>
     unlocked l \<and> l' = l\<lparr>lock_word := 1, last_acquirer := c\<rparr>"
  by (auto simp: spinlock_acquire_def spinlock_test_and_acq_def)

text \<open>The deadlock panic comes only after a hundred million failed attempts.\<close>

lemma spin_not_early:
  "spin counter l seen = Some (Inl e) \<Longrightarrow> unat counter + length seen < 18446744073709551616 \<Longrightarrow>
   100000000 \<le> unat counter + length seen"
proof (induction counter l seen rule: spin.induct)
  case (1 counter l)
  then show ?case by simp
next
  case (2 counter l v seen)
  from "2.prems"(2) have c: "unat (counter + 1) = Suc (unat counter)"
    using unat_add_small [of counter 1] by simp
  show ?case
  proof (cases "v = 0 \<or> counter + 1 \<ge> 100000000")
    case True
    with "2.prems"(1) have "counter + 1 \<ge> 100000000"
      by (auto simp: spinlock_test_and_acq_def Let_def)
    then show ?thesis by (simp add: word_le_nat_alt c)
  next
    case False
    then have t: "spinlock_test_and_acq (l\<lparr>lock_word := v\<rparr>) = (False, l\<lparr>lock_word := v\<rparr>)"
      by (simp add: spinlock_test_and_acq_def)
    from False "2.prems" have "spin (counter + 1) (l\<lparr>lock_word := v\<rparr>) seen = Some (Inl e)"
      by (simp add: t)
    with "2.IH" [OF t [symmetric] refl] False "2.prems"(2) c show ?thesis by simp
  qed
qed

lemma holds_lock_upd [simp]:
  "holds_lock (s\<lparr>cpu_pcs := (cpu_pcs s)(c := p)\<rparr>) d \<longleftrightarrow>
     (if d = c then p \<in> {Acquired, Inside, Releasing} else holds_lock s d)"
  "holds_lock (s\<lparr>the_lock := l, cpu_pcs := (cpu_pcs s)(c := p)\<rparr>) d \<longleftrightarrow>
     (if d = c then p \<in> {Acquired, Inside, Releasing} else holds_lock s d)"
  by (simp_all add: holds_lock_def)

text \<open>A step of CPU \<open>c\<close> keeps the invariant if lock word and program counter change together.\<close>

lemma lock_inv_local:
  assumes inv: "lock_inv s"
    and others: "\<And>d. d \<noteq> c \<Longrightarrow> holds_lock t d = holds_lock s d"
    and enter: "holds_lock t c \<Longrightarrow> \<not> holds_lock s c \<Longrightarrow> unlocked (the_lock s)"
    and leave: "unlocked (the_lock t) \<longleftrightarrow> \<not> holds_lock t c \<and> (unlocked (the_lock s) \<or> holds_lock s c)"
  shows "lock_inv t"
proof -
  have one: "d = c" if "holds_lock t c" "holds_lock t d" for d
    using that inv others [of d] enter unfolding lock_inv_def by blast
  have two: "d = e" if "holds_lock t d" "holds_lock t e" for d e
    using that one [of d] one [of e] inv others [of d] others [of e] unfolding lock_inv_def by metis
  have three: "unlocked (the_lock t) \<longleftrightarrow> (\<forall>d. \<not> holds_lock t d)"
    using leave inv others unfolding lock_inv_def by metis
  show ?thesis using two three unfolding lock_inv_def by blast
qed

lemma lock_step_inv: "lock_step s t \<Longrightarrow> lock_inv s \<Longrightarrow> lock_inv t"
proof (induction rule: lock_step.induct)
  case (start s c)
  then show ?case
    by (auto intro!: lock_inv_local [where c = c and s = s] simp: holds_lock_def [of s c])
next
  case (cas s c ok l')
  then show ?case
    by (auto intro!: lock_inv_local [where c = c and s = s] simp: holds_lock_def [of s c]
        spinlock_test_and_acq_def split: if_splits)
next
  case (record_acquirer s c caller)
  then have "\<not> unlocked (the_lock s)" by (auto simp: lock_inv_def holds_lock_def)
  with record_acquirer show ?case
    by (auto intro!: lock_inv_local [where c = c and s = s] simp: holds_lock_def [of s c])
next
  case (clear_acquirer s c)
  then have "\<not> unlocked (the_lock s)" by (auto simp: lock_inv_def holds_lock_def)
  with clear_acquirer show ?case
    by (auto intro!: lock_inv_local [where c = c and s = s] simp: holds_lock_def [of s c])
next
  case (store_zero s c)
  then show ?case
    by (auto intro!: lock_inv_local [where c = c and s = s] simp: holds_lock_def [of s c])
qed

lemma lock_reachable_inv: "lock_reachable s \<Longrightarrow> lock_inv s"
proof (induction rule: lock_reachable.induct)
  case init
  show ?case by (simp add: lock_inv_def holds_lock_def)
next
  case (step s t)
  then show ?case by (blast intro: lock_step_inv)
qed

subsection \<open>Properties\<close>

text \<open>
  C11. Mutual exclusion: whatever the interleaving of the CPUs' compare-and-swaps and stores, at most
  one CPU is between its successful compare-and-swap and its final store, and the lock word is zero
  exactly when no CPU is.
\<close>

theorem spinlock_mutual_exclusion:
  assumes "lock_reachable s"
  shows "(holds_lock s c \<and> holds_lock s d \<longrightarrow> c = d) \<and>
    (lock_word (the_lock s) = 0 \<longleftrightarrow> (\<forall>c. \<not> holds_lock s c))"
  using lock_reachable_inv [OF assms] by (auto simp: lock_inv_def)

lemma lock_example_reachable:
  "lock_reachable \<lparr>the_lock = SPINLOCK_INIT\<lparr>lock_word := 1\<rparr>, cpu_pcs = (\<lambda>_. Outside)(0 := Acquired, 1 := Spinning)\<rparr>"
proof -
  let ?s = "\<lambda>l p. \<lparr>the_lock = l, cpu_pcs = p\<rparr> :: lock_sys"
  have "lock_reachable (?s SPINLOCK_INIT ((\<lambda>_. Outside)(0 := Spinning)))"
    using lock_reachable.step [OF lock_reachable.init lock_step.start [of _ 0]] by simp
  from lock_reachable.step [OF this lock_step.cas [of _ 0 True "SPINLOCK_INIT\<lparr>lock_word := 1\<rparr>"]]
  have "lock_reachable (?s (SPINLOCK_INIT\<lparr>lock_word := 1\<rparr>) ((\<lambda>_. Outside)(0 := Acquired)))"
    by (simp add: spinlock_test_and_acq_def)
  from lock_reachable.step [OF this lock_step.start [of _ 1]] show ?thesis by simp
qed

theorem spinlock_mutual_exclusion_witness:
  "\<not> holds_lock \<lparr>the_lock = SPINLOCK_INIT\<lparr>lock_word := 1\<rparr>, cpu_pcs = (\<lambda>_. Outside)(0 := Acquired, 1 := Spinning)\<rparr> 1"
  using spinlock_mutual_exclusion [OF lock_example_reachable, of 0 1] by (simp add: holds_lock_def)

end
