(* ===== verification/Lyre_Bitmap.thy ===== *)
theory Lyre_Bitmap
  imports Lyre_Prelude
begin

section \<open>Rounding macros and bitmaps (lib/misc.k.h, lib/bitmap.k.h)\<close>

text \<open>
  The rounding macros on 64-bit values, and the bit operations on a byte array. The locale
  \<open>bit_store\<close> is what the page allocator relies on: reading and writing a bit by its number,
  and leaving every other bit alone. It is interpreted on the byte array of the source.
\<close>

subsection \<open>Rounding\<close>

text \<open>The macros divide by \<open>d\<close>; every caller modelled here passes a nonzero constant.\<close>

definition MIN_u64 :: "u64 \<Rightarrow> u64 \<Rightarrow> u64" where
  "MIN_u64 a b = (if a < b then a else b)"

definition MAX_u64 :: "u64 \<Rightarrow> u64 \<Rightarrow> u64" where
  "MAX_u64 a b = (if a > b then a else b)"

definition DIV_ROUNDUP :: "u64 \<Rightarrow> u64 \<Rightarrow> u64" where
  "DIV_ROUNDUP v d = (v + (d - 1)) div d"

definition ALIGN_UP :: "u64 \<Rightarrow> u64 \<Rightarrow> u64" where
  "ALIGN_UP v a = DIV_ROUNDUP v a * a"

definition ALIGN_DOWN :: "u64 \<Rightarrow> u64 \<Rightarrow> u64" where
  "ALIGN_DOWN v a = (v div a) * a"

definition PAGE_SIZE :: u64 where
  "PAGE_SIZE = 4096"

subsection \<open>Bitmaps\<close>

definition bitmap_test :: "u8 list \<Rightarrow> u64 \<Rightarrow> bool result" where
  "bitmap_test bitmap n =
     rbind (arr_get bitmap (unat (n div 8))) (\<lambda>b. Inr (b AND push_bit (unat (n mod 8)) 1 \<noteq> 0))"

definition bitmap_set :: "u8 list \<Rightarrow> u64 \<Rightarrow> u8 list result" where
  "bitmap_set bitmap n =
     rbind (arr_get bitmap (unat (n div 8)))
       (\<lambda>b. arr_set bitmap (unat (n div 8)) (b OR push_bit (unat (n mod 8)) 1))"

definition bitmap_reset :: "u8 list \<Rightarrow> u64 \<Rightarrow> u8 list result" where
  "bitmap_reset bitmap n =
     rbind (arr_get bitmap (unat (n div 8)))
       (\<lambda>b. arr_set bitmap (unat (n div 8)) (b AND NOT (push_bit (unat (n mod 8)) 1)))"

text \<open>The bit with number \<open>n\<close>, and how many bits there are.\<close>

definition bm_bit :: "u8 list \<Rightarrow> nat \<Rightarrow> bool" where
  "bm_bit bitmap n = bit (bitmap ! (n div 8)) (n mod 8)"

definition bm_size :: "u8 list \<Rightarrow> nat" where
  "bm_size bitmap = 8 * length bitmap"

subsection \<open>Rounding up and down\<close>

lemma unat_DIV_ROUNDUP:
  assumes "0 < d" and "unat v + (unat d - 1) < 18446744073709551616"
  shows "unat (DIV_ROUNDUP v d) = (unat v + (unat d - 1)) div unat d"
proof -
  from assms(1) have "unat (d - 1) = unat d - 1"
    by (simp add: unat_sub_small word_less_nat_alt)
  with assms(2) show ?thesis
    by (simp add: DIV_ROUNDUP_def unat_div unat_add_small)
qed

lemma roundup_mult_bounds:
  fixes v d :: nat
  assumes "0 < d"
  shows "v \<le> (v + (d - 1)) div d * d" and "(v + (d - 1)) div d * d < v + d"
proof -
  have m: "(v + (d - 1)) mod d < d" using assms by simp
  have e: "(v + (d - 1)) div d * d + (v + (d - 1)) mod d = v + (d - 1)" by simp
  from m e assms show "v \<le> (v + (d - 1)) div d * d" by linarith
  from m e assms show "(v + (d - 1)) div d * d < v + d" by linarith
qed

lemma unat_ALIGN_UP:
  assumes "0 < a" and "unat v + unat a \<le> 18446744073709551616"
  shows "unat (ALIGN_UP v a) = (unat v + (unat a - 1)) div unat a * unat a"
proof -
  from assms(1) have a: "0 < unat a" by (simp add: word_less_nat_alt)
  with assms(2) have b: "unat v + (unat a - 1) < 18446744073709551616" by linarith
  have "(unat v + (unat a - 1)) div unat a * unat a < 18446744073709551616"
    using roundup_mult_bounds(2) [OF a, of "unat v"] assms(2) by linarith
  then show ?thesis
    by (simp add: ALIGN_UP_def unat_mult_small unat_DIV_ROUNDUP [OF assms(1) b])
qed

lemma unat_ALIGN_DOWN: "unat (ALIGN_DOWN v a) = unat v div unat a * unat a"
proof -
  have "unat v div unat a * unat a \<le> unat v" by simp
  also have "\<dots> < 18446744073709551616" by simp
  finally show ?thesis by (simp add: ALIGN_DOWN_def unat_mult_small unat_div)
qed

subsection \<open>The interface of a bit store\<close>

locale bit_store =
  fixes tst :: "'b \<Rightarrow> u64 \<Rightarrow> bool result"
    and st :: "'b \<Rightarrow> u64 \<Rightarrow> 'b result"
    and rst :: "'b \<Rightarrow> u64 \<Rightarrow> 'b result"
    and bits :: "'b \<Rightarrow> nat"
    and val :: "'b \<Rightarrow> nat \<Rightarrow> bool"
  assumes tst_ok: "unat i < bits b \<Longrightarrow> tst b i = Inr (val b (unat i))"
    and st_ok: "unat i < bits b \<Longrightarrow>
       \<exists>b'. st b i = Inr b' \<and> bits b' = bits b \<and> (\<forall>n < bits b. val b' n = (n = unat i \<or> val b n))"
    and rst_ok: "unat i < bits b \<Longrightarrow>
       \<exists>b'. rst b i = Inr b' \<and> bits b' = bits b \<and> (\<forall>n < bits b. val b' n = (n \<noteq> unat i \<and> val b n))"
    and tst_out: "\<not> unat i < bits b \<Longrightarrow> tst b i = Inl OutOfBounds"
begin

text \<open>The loops of the allocator: mark a range of bits, clear a range of bits.\<close>

lemma set_range:
  assumes "i \<le> n" and "unat n \<le> bits b"
  shows "\<exists>b'. for_range (\<lambda>k b. st b k) i n b = Inr b' \<and> bits b' = bits b \<and>
    (\<forall>m < bits b. val b' m = (unat i \<le> m \<and> m < unat n \<or> val b m))"
proof -
  let ?I = "\<lambda>j b'. bits b' = bits b \<and> (\<forall>m < bits b. val b' m = (unat i \<le> m \<and> m < j \<or> val b m))"
  have "\<exists>b'. for_range (\<lambda>k b. st b k) i n b = Inr b' \<and> ?I (unat n) b'"
  proof (rule for_range_rule)
    fix k b'
    assume k: "unat i \<le> unat k" "k < n" and I: "?I (unat k) b'"
    then have "unat k < bits b'" using assms(2) by (simp add: word_less_nat_alt)
    from st_ok [OF this] obtain b'' where "st b' k = Inr b''" "bits b'' = bits b'"
      "\<forall>m < bits b'. val b'' m = (m = unat k \<or> val b' m)" by blast
    with I k show "\<exists>b''. st b' k = Inr b'' \<and> ?I (Suc (unat k)) b''"
      by (intro exI [of _ b'']) (auto simp: less_Suc_eq)
  next
    show "?I (unat i) b" by auto
  qed (rule assms(1))
  then show ?thesis by blast
qed

lemma reset_range:
  assumes "i \<le> n" and "unat n \<le> bits b"
  shows "\<exists>b'. for_range (\<lambda>k b. rst b k) i n b = Inr b' \<and> bits b' = bits b \<and>
    (\<forall>m < bits b. val b' m = (\<not> (unat i \<le> m \<and> m < unat n) \<and> val b m))"
proof -
  let ?I = "\<lambda>j b'. bits b' = bits b \<and> (\<forall>m < bits b. val b' m = (\<not> (unat i \<le> m \<and> m < j) \<and> val b m))"
  have "\<exists>b'. for_range (\<lambda>k b. rst b k) i n b = Inr b' \<and> ?I (unat n) b'"
  proof (rule for_range_rule)
    fix k b'
    assume k: "unat i \<le> unat k" "k < n" and I: "?I (unat k) b'"
    then have "unat k < bits b'" using assms(2) by (simp add: word_less_nat_alt)
    from rst_ok [OF this] obtain b'' where "rst b' k = Inr b''" "bits b'' = bits b'"
      "\<forall>m < bits b'. val b'' m = (m \<noteq> unat k \<and> val b' m)" by blast
    with I k show "\<exists>b''. rst b' k = Inr b'' \<and> ?I (Suc (unat k)) b''"
      by (intro exI [of _ b'']) (auto simp: less_Suc_eq)
  next
    show "?I (unat i) b" by auto
  qed (rule assms(1))
  then show ?thesis by blast
qed

end

subsection \<open>The byte array is a bit store\<close>

lemma unat_div_8: "unat (n div 8) = unat (n :: u64) div 8"
  by (simp add: unat_div)

lemma unat_mod_8: "unat (n mod 8) = unat (n :: u64) mod 8"
  by (simp add: unat_mod)

lemma bit_mask_8:
  "bit (push_bit (k mod 8) (1 :: u8)) (n mod 8) \<longleftrightarrow> n mod 8 = k mod (8 :: nat)"
  by (auto simp: bit_exp_iff)

lemma div_mod_8_eq: "n = k \<longleftrightarrow> n div 8 = k div 8 \<and> n mod 8 = k mod (8 :: nat)"
  by (metis div_mult_mod_eq)

interpretation bitmap: bit_store bitmap_test bitmap_set bitmap_reset bm_size bm_bit
proof
  fix i :: u64 and b :: "u8 list"
  assume i: "unat i < bm_size b"
  then have len: "unat i div 8 < length b" by (auto simp: bm_size_def)
  show "bitmap_test b i = Inr (bm_bit b (unat i))"
    using len by (simp add: bitmap_test_def unat_div_8 unat_mod_8 bm_bit_def and_exp_eq_0_iff_not_bit
        push_bit_of_1)
  show "\<exists>b'. bitmap_set b i = Inr b' \<and> bm_size b' = bm_size b \<and>
      (\<forall>n < bm_size b. bm_bit b' n = (n = unat i \<or> bm_bit b n))"
    using len by (auto simp: bitmap_set_def unat_div_8 unat_mod_8 nth_list_update bm_size_def
        bit_or_iff bit_mask_8 div_mod_8_eq [of _ "unat i"] bm_bit_def simp del: push_bit_of_1)
  show "\<exists>b'. bitmap_reset b i = Inr b' \<and> bm_size b' = bm_size b \<and>
      (\<forall>n < bm_size b. bm_bit b' n = (n \<noteq> unat i \<and> bm_bit b n))"
    using len by (auto simp: bitmap_reset_def unat_div_8 unat_mod_8 nth_list_update bm_size_def
        bit_and_iff bit_not_iff bit_mask_8 div_mod_8_eq [of _ "unat i"] bm_bit_def simp del: push_bit_of_1)
next
  fix i :: u64 and b :: "u8 list"
  assume "\<not> unat i < bm_size b"
  then show "bitmap_test b i = Inl OutOfBounds"
    by (auto simp: bitmap_test_def arr_get_def bm_size_def unat_div_8)
qed

end
