(* ===== verification/Lyre_Libc.thy ===== *)
theory Lyre_Libc
  imports Lyre_Bitmap
begin

section \<open>Memory and string routines (lib/libc.c)\<close>

text \<open>
  The kernel's own memory and string routines over a flat byte memory. Loops with a bound are
  counting loops; loops that run to a terminating zero byte need not end and are option valued, with
  \<open>None\<close> for a loop that does not return. The specifications read a region of memory as a list
  of bytes and a zero-terminated string as the list of its characters. The second half gives the
  64-bit loads and stores the allocators use, and the interface \<open>word_memory\<close> they rely on.
\<close>

type_synonym mem = "u64 \<Rightarrow> u8"

subsection \<open>Definitions\<close>

definition toupper :: "int \<Rightarrow> int" where
  "toupper c = (if c \<ge> 97 \<and> c \<le> 122 then c - 0x20 else c)"

definition memcpy :: "mem \<Rightarrow> u64 \<Rightarrow> u64 \<Rightarrow> u64 \<Rightarrow> mem" where
  "memcpy m dest src n = for_pure (\<lambda>i m. m(dest + i := m (src + i))) 0 n m"

definition memset :: "mem \<Rightarrow> u64 \<Rightarrow> int \<Rightarrow> u64 \<Rightarrow> mem" where
  "memset m s c n = for_pure (\<lambda>i m. m(s + i := word_of_int c)) 0 n m"

text \<open>The downward loop of \<open>memmove\<close>.\<close>

function move_down :: "u64 \<Rightarrow> u64 \<Rightarrow> u64 \<Rightarrow> mem \<Rightarrow> mem" where
  "move_down dest src i m =
     (if i > 0 then move_down dest src (i - 1) (m(dest + (i - 1) := m (src + (i - 1)))) else m)"
  by pat_completeness auto
termination
  by (relation "measure (\<lambda>(dest, src, i, m). unat i)")
    (auto simp: unat_sub_small word_less_nat_alt)

declare move_down.simps [simp del]

definition memmove :: "mem \<Rightarrow> u64 \<Rightarrow> u64 \<Rightarrow> u64 \<Rightarrow> mem" where
  "memmove m dest src n =
     (if src > dest then for_pure (\<lambda>i m. m(dest + i := m (src + i))) 0 n m
      else if src < dest then move_down dest src n m
      else m)"

function memcmp_loop :: "mem \<Rightarrow> u64 \<Rightarrow> u64 \<Rightarrow> u64 \<Rightarrow> u64 \<Rightarrow> int" where
  "memcmp_loop m s1 s2 n i =
     (if i < n then
        if m (s1 + i) \<noteq> m (s2 + i) then (if m (s1 + i) < m (s2 + i) then -1 else 1)
        else memcmp_loop m s1 s2 n (i + 1)
      else 0)"
  by pat_completeness auto
termination
  by (relation "measure (\<lambda>(m, s1, s2, n, i). unat n - unat i)")
    (auto simp: unat_Suc_less word_less_nat_alt)

declare memcmp_loop.simps [simp del]

definition memcmp :: "mem \<Rightarrow> u64 \<Rightarrow> u64 \<Rightarrow> u64 \<Rightarrow> int" where
  "memcmp m s1 s2 n = memcmp_loop m s1 s2 n 0"

partial_function (option) strlen_loop :: "mem \<Rightarrow> u64 \<Rightarrow> u64 \<Rightarrow> u64 option" where
  "strlen_loop m str len = (if m (str + len) \<noteq> 0 then strlen_loop m str (len + 1) else Some len)"

definition strlen :: "mem \<Rightarrow> u64 \<Rightarrow> u64 option" where
  "strlen m str = strlen_loop m str 0"

partial_function (option) strcpy_loop :: "u64 \<Rightarrow> u64 \<Rightarrow> u64 \<Rightarrow> mem \<Rightarrow> mem option" where
  "strcpy_loop dest src i m =
     (if m (src + i) \<noteq> 0 then strcpy_loop dest src (i + 1) (m(dest + i := m (src + i)))
      else Some (m(dest + i := 0)))"

definition strcpy :: "mem \<Rightarrow> u64 \<Rightarrow> u64 \<Rightarrow> mem option" where
  "strcpy m dest src = strcpy_loop dest src 0 m"

text \<open>The two loops of \<open>strncpy\<close>: copy up to the zero byte, then fill with zeros.\<close>

function strncpy_loop :: "u64 \<Rightarrow> u64 \<Rightarrow> u64 \<Rightarrow> u64 \<Rightarrow> mem \<Rightarrow> mem" where
  "strncpy_loop dest src n i m =
     (if i < n \<and> m (src + i) \<noteq> 0 then strncpy_loop dest src n (i + 1) (m(dest + i := m (src + i)))
      else for_pure (\<lambda>i m. m(dest + i := 0)) i n m)"
  by pat_completeness auto
termination
  by (relation "measure (\<lambda>(dest, src, n, i, m). unat n - unat i)")
    (auto simp: unat_Suc_less word_less_nat_alt)

declare strncpy_loop.simps [simp del]

definition strncpy :: "mem \<Rightarrow> u64 \<Rightarrow> u64 \<Rightarrow> u64 \<Rightarrow> mem" where
  "strncpy m dest src n = strncpy_loop dest src n 0 m"

text \<open>A \<open>char\<close> is signed on this target: the difference is that of the signed bytes.\<close>

partial_function (option) strcmp_loop :: "mem \<Rightarrow> u64 \<Rightarrow> u64 \<Rightarrow> u64 \<Rightarrow> int option" where
  "strcmp_loop m s1 s2 i =
     (if m (s1 + i) \<noteq> m (s2 + i) then Some (sint (m (s1 + i)) - sint (m (s2 + i)))
      else if m (s1 + i) = 0 then Some 0
      else strcmp_loop m s1 s2 (i + 1))"

definition strcmp :: "mem \<Rightarrow> u64 \<Rightarrow> u64 \<Rightarrow> int option" where
  "strcmp m s1 s2 = strcmp_loop m s1 s2 0"

function strncmp_loop :: "mem \<Rightarrow> u64 \<Rightarrow> u64 \<Rightarrow> u64 \<Rightarrow> u64 \<Rightarrow> int" where
  "strncmp_loop m s1 s2 n i =
     (if i < n then
        if m (s1 + i) \<noteq> m (s2 + i) then sint (m (s1 + i)) - sint (m (s2 + i))
        else if m (s1 + i) = 0 then 0
        else strncmp_loop m s1 s2 n (i + 1)
      else 0)"
  by pat_completeness auto
termination
  by (relation "measure (\<lambda>(m, s1, s2, n, i). unat n - unat i)")
    (auto simp: unat_Suc_less word_less_nat_alt)

declare strncmp_loop.simps [simp del]

definition strncmp :: "mem \<Rightarrow> u64 \<Rightarrow> u64 \<Rightarrow> u64 \<Rightarrow> int" where
  "strncmp m s1 s2 n = strncmp_loop m s1 s2 n 0"

text \<open>
  \<open>strdup\<close> with the address that the allocator returned for its request, zero for \<open>NULL\<close>;
  \<open>None\<close> if \<open>strlen\<close> does not return.
\<close>

definition strdup :: "(u64 \<Rightarrow> u64) \<Rightarrow> mem \<Rightarrow> u64 \<Rightarrow> (u64 \<times> mem) option" where
  "strdup alloc m src =
     (case strlen m src of None \<Rightarrow> None
      | Some len \<Rightarrow>
          let ret = alloc (len + 1)
          in Some (if ret \<noteq> 0 then (ret, (memcpy m ret src len)(ret + len := 0)) else (ret, m)))"

subsection \<open>Regions\<close>

definition region :: "mem \<Rightarrow> u64 \<Rightarrow> nat \<Rightarrow> u8 list" where
  "region m a n = map (\<lambda>i. m (a + of_nat i)) [0..<n]"

text \<open>Memory with \<open>n\<close> bytes from \<open>src\<close> copied to \<open>dest\<close> all at once.\<close>

definition copied :: "mem \<Rightarrow> u64 \<Rightarrow> u64 \<Rightarrow> u64 \<Rightarrow> mem" where
  "copied m dest src n = (\<lambda>a. if a - dest < n then m (src + (a - dest)) else m a)"

text \<open>The characters of the zero-terminated string at \<open>a\<close> are \<open>cs\<close>.\<close>

definition cstring :: "mem \<Rightarrow> u64 \<Rightarrow> u8 list \<Rightarrow> bool" where
  "cstring m a cs \<longleftrightarrow> length cs < 18446744073709551616 \<and>
     (\<forall>i < length cs. m (a + of_nat i) = cs ! i \<and> cs ! i \<noteq> 0) \<and> m (a + of_nat (length cs)) = 0"

subsection \<open>Sixty-four bit loads and stores\<close>

text \<open>The machine is little endian.\<close>

definition load64 :: "mem \<Rightarrow> u64 \<Rightarrow> u64" where
  "load64 m a =
     ucast (m a) OR push_bit 8 (ucast (m (a + 1))) OR push_bit 16 (ucast (m (a + 2))) OR
     push_bit 24 (ucast (m (a + 3))) OR push_bit 32 (ucast (m (a + 4))) OR
     push_bit 40 (ucast (m (a + 5))) OR push_bit 48 (ucast (m (a + 6))) OR
     push_bit 56 (ucast (m (a + 7)))"

definition store64 :: "mem \<Rightarrow> u64 \<Rightarrow> u64 \<Rightarrow> mem" where
  "store64 m a v = (\<lambda>b. if b - a < 8 then ucast (drop_bit (8 * unat (b - a)) v) else m b)"

text \<open>What the allocators rely on: a load sees the last store to its address, and no other.\<close>

locale word_memory =
  fixes ld :: "'m \<Rightarrow> u64 \<Rightarrow> u64"
    and sto :: "'m \<Rightarrow> u64 \<Rightarrow> u64 \<Rightarrow> 'm"
  assumes ld_same: "ld (sto m a v) a = v"
    and ld_other: "8 \<le> b - a \<Longrightarrow> 8 \<le> a - b \<Longrightarrow> ld (sto m a v) b = ld m b"
begin

text \<open>A chain of link words from \<open>p\<close> to null through the addresses \<open>as\<close>.\<close>

primrec chain :: "'m \<Rightarrow> u64 \<Rightarrow> u64 list \<Rightarrow> bool" where
  "chain m p [] \<longleftrightarrow> p = 0"
| "chain m p (a # as) \<longleftrightarrow> p = a \<and> a \<noteq> 0 \<and> chain m (ld m a) as"

lemma chain_unique: "chain m p as \<Longrightarrow> chain m p bs \<Longrightarrow> as = bs"
proof (induction as arbitrary: p bs)
  case Nil
  then show ?case by (cases bs) auto
next
  case (Cons a as)
  then show ?case by (cases bs) auto
qed

lemma chain_frame:
  "(\<And>a. a \<in> set as \<Longrightarrow> ld m' a = ld m a) \<Longrightarrow> chain m' p as = chain m p as"
  by (induction as arbitrary: p) auto

lemma chain_store_other:
  "(\<And>b. b \<in> set as \<Longrightarrow> 8 \<le> b - a \<and> 8 \<le> a - b) \<Longrightarrow> chain (sto m a v) p as = chain m p as"
  by (rule chain_frame) (simp add: ld_other)

text \<open>Pushing a word in front of a chain.\<close>

lemma chain_push:
  assumes "chain m p as" and "a \<noteq> 0" and "\<And>b. b \<in> set as \<Longrightarrow> 8 \<le> b - a \<and> 8 \<le> a - b"
  shows "chain (sto m a p) a (a # as)"
  using assms chain_store_other [of as a m p p] by (simp add: ld_same)

lemma chain_append: "chain m p (as @ bs) \<Longrightarrow> \<exists>q. chain m q bs"
  by (induction as arbitrary: p) auto

end

subsection \<open>Copying\<close>

lemma less_Suc_word:
  fixes x k n :: u64
  assumes "k < n"
  shows "x < k + 1 \<longleftrightarrow> x < k \<or> x = k"
proof -
  have "unat (k + 1) = Suc (unat k)" by (rule unat_Suc_less [OF assms])
  then show ?thesis by (auto simp: word_less_nat_alt less_Suc_eq word_unat_eq_iff)
qed

lemma copied_zero [simp]: "copied m dest src 0 = m"
  by (simp add: copied_def)

lemma copied_step_up:
  assumes "k < n" and "\<And>i. i < k \<Longrightarrow> dest + i \<noteq> src + k"
  shows "(copied m dest src k)(dest + k := copied m dest src k (src + k)) = copied m dest src (k + 1)"
proof -
  have "\<not> src + k - dest < k"
    using assms(2) [of "src + k - dest"] by auto
  then have "copied m dest src k (src + k) = m (src + k)" by (simp add: copied_def)
  then show ?thesis
    by (auto simp: copied_def less_Suc_word [OF assms(1)] fun_eq_iff)
qed

lemma copy_up:
  assumes "\<And>i k. i < k \<Longrightarrow> k < n \<Longrightarrow> dest + i \<noteq> src + k"
  shows "for_pure (\<lambda>i m. m(dest + i := m (src + i))) 0 n m = copied m dest src n"
proof (rule for_pure_rule [where I = "\<lambda>k m'. m' = copied m dest src k"])
  fix k m'
  assume "k < n" and "m' = copied m dest src k"
  then show "m'(dest + k := m' (src + k)) = copied m dest src (k + 1)"
    using copied_step_up [of k n dest src m] assms by blast
qed simp_all

lemma copy_down:
  assumes "\<And>i k. i < k \<Longrightarrow> k < n \<Longrightarrow> dest + k \<noteq> src + i"
  shows "move_down dest src n m = copied m dest src n"
  using assms
proof (induction dest src n m rule: move_down.induct)
  case (1 dest src n m)
  show ?case
  proof (cases "0 < n")
    case False
    then have "n = 0" by (simp add: word_less_nat_alt word_unat_eq_iff)
    then show ?thesis by (simp add: move_down.simps [of dest src])
  next
    case True
    define k where "k = n - 1"
    have k: "k < n" using True by (simp add: k_def word_less_nat_alt unat_sub_small)
    have n: "n = k + 1" by (simp add: k_def)
    let ?m = "m(dest + k := m (src + k))"
    have "move_down dest src k ?m = copied ?m dest src k"
      using "1.IH" [OF True] "1.prems" k unfolding k_def by (meson order_less_trans)
    moreover have "copied ?m dest src k = copied m dest src (k + 1)"
    proof
      fix a
      have "src + (a - dest) \<noteq> dest + k" if "a - dest < k"
        using "1.prems" [OF that k] by metis
      then show "copied ?m dest src k a = copied m dest src (k + 1) a"
        by (auto simp: copied_def less_Suc_word [OF k])
    qed
    moreover have "move_down dest src n m = move_down dest src k ?m"
      using True unfolding k_def by (subst move_down.simps) simp
    ultimately show ?thesis by (simp flip: n)
  qed
qed

lemma nowrap_add:
  "i < n \<Longrightarrow> unat a + unat n \<le> 18446744073709551616 \<Longrightarrow> unat (a + i) = unat a + unat (i :: u64)"
  by (simp add: unat_add_small word_less_nat_alt)

lemma memmove_copied:
  assumes "unat dest + unat n \<le> 18446744073709551616" and "unat src + unat n \<le> 18446744073709551616"
  shows "memmove m dest src n = copied m dest src n"
proof -
  have d: "unat (dest + i) = unat dest + unat i" and s: "unat (src + i) = unat src + unat i"
    if "i < n" for i
    using that assms nowrap_add by blast+
  consider "dest < src" | "src < dest" | "src = dest" by (metis not_less_iff_gr_or_eq)
  then show ?thesis
  proof cases
    case 1
    have "dest + i \<noteq> src + k" if "i < k" "k < n" for i k
    proof -
      have "i < n" using that by simp
      then show ?thesis using 1 d [of i] s [OF that(2)] that(1)
        by (auto simp: word_unat_eq_iff word_less_nat_alt)
    qed
    with 1 show ?thesis by (simp add: memmove_def copy_up)
  next
    case 2
    have "dest + k \<noteq> src + i" if "i < k" "k < n" for i k
    proof -
      have "i < n" using that by simp
      then show ?thesis using 2 s [of i] d [OF that(2)] that(1)
        by (auto simp: word_unat_eq_iff word_less_nat_alt)
    qed
    then have "move_down dest src n m = copied m dest src n" by (rule copy_down)
    with 2 show ?thesis by (simp add: memmove_def order_less_not_sym)
  next
    case 3
    then show ?thesis by (simp add: memmove_def copied_def fun_eq_iff)
  qed
qed

lemma memcpy_copied:
  assumes "\<And>i k. i < n \<Longrightarrow> k < n \<Longrightarrow> dest + i \<noteq> src + k"
  shows "memcpy m dest src n = copied m dest src n"
  unfolding memcpy_def using assms by (intro copy_up) (meson order_less_trans)

lemma memset_spec: "memset m s c n = (\<lambda>a. if a - s < n then word_of_int c else m a)"
  unfolding memset_def
proof (rule for_pure_rule [where I = "\<lambda>k m'. m' = (\<lambda>a. if a - s < k then word_of_int c else m a)"])
  fix k m'
  assume "k < n" and "m' = (\<lambda>a. if a - s < k then word_of_int c else m a)"
  then show "m'(s + k := word_of_int c) = (\<lambda>a. if a - s < k + 1 then word_of_int c else m a)"
    by (auto simp: less_Suc_word fun_eq_iff)
qed simp_all

subsection \<open>Comparing and measuring\<close>

lemma region_eq_iff: "region m a n = region m b n \<longleftrightarrow> (\<forall>i < n. m (a + of_nat i) = m (b + of_nat i))"
  by (auto simp: region_def)

lemma memcmp_loop_zero:
  "memcmp_loop m s1 s2 n i = 0 \<longleftrightarrow> (\<forall>k. i \<le> k \<and> k < n \<longrightarrow> m (s1 + k) = m (s2 + k))"
proof (induction m s1 s2 n i rule: memcmp_loop.induct)
  case (1 m s1 s2 n i)
  show ?case
  proof (cases "i < n \<and> m (s1 + i) = m (s2 + i)")
    case True
    then have i: "unat (i + 1) = Suc (unat i)" using unat_Suc_less by blast
    have "i \<le> k \<longleftrightarrow> k = i \<or> i + 1 \<le> k" for k
      using i by (auto simp: word_le_nat_alt word_unat_eq_iff)
    with "1.IH" True show ?thesis
      by (subst memcmp_loop.simps) auto
  next
    case False
    then show ?thesis by (subst memcmp_loop.simps) auto
  qed
qed

lemma memcmp_zero: "memcmp m s1 s2 n = 0 \<longleftrightarrow> region m s1 (unat n) = region m s2 (unat n)"
  by (simp add: memcmp_def memcmp_loop_zero region_eq_iff
      all_less_word [of n "\<lambda>k. m (s1 + k) = m (s2 + k)"])

lemma strlen_loop_cstring:
  assumes "cstring m a cs" and "k \<le> length cs"
  shows "strlen_loop m a (of_nat k) = Some (of_nat (length cs))"
  using assms(2)
proof (induction "length cs - k" arbitrary: k)
  case 0
  then have "k = length cs" by simp
  with assms(1) show ?case by (simp add: strlen_loop.simps [of m a "of_nat (length cs)"] cstring_def)
next
  case (Suc d)
  then have k: "k < length cs" by simp
  from Suc.hyps(2) k have "strlen_loop m a (of_nat (Suc k)) = Some (of_nat (length cs))"
    by (intro Suc.hyps(1)) simp_all
  moreover have "m (a + of_nat k) \<noteq> 0" using assms(1) k by (simp add: cstring_def)
  ultimately show ?case by (simp add: strlen_loop.simps [of m a "of_nat k"] add.commute)
qed

lemma strlen_cstring: "cstring m a cs \<Longrightarrow> strlen m a = Some (of_nat (length cs))"
  using strlen_loop_cstring [of m a cs 0] by (simp add: strlen_def)

lemma strlen_loop_zero: "strlen_loop m a i = Some n \<Longrightarrow> m (a + n) = 0"
proof (rule strlen_loop.raw_induct [where P = "\<lambda>m a i n. m (a + n) = 0"])
  fix f :: "mem \<Rightarrow> u64 \<Rightarrow> u64 \<Rightarrow> u64 option" and m a i n
  assume "\<And>m a i n. f m a i = Some n \<Longrightarrow> m (a + n) = 0"
    and "(if m (a + i) \<noteq> 0 then f m a (i + 1) else Some i) = Some n"
  then show "m (a + n) = 0" by (auto split: if_splits)
qed

text \<open>A string ends somewhere: then its characters are those up to the first zero byte.\<close>

lemma cstring_exists:
  assumes "m (a + n) = 0"
  shows "\<exists>cs. cstring m a cs"
proof -
  let ?P = "\<lambda>k. m (a + of_nat k) = 0"
  define k where "k = (LEAST k. ?P k)"
  have P: "?P (unat n)" using assms by simp
  then have k: "?P k" unfolding k_def by (rule LeastI)
  have "k \<le> unat n" unfolding k_def using P by (rule Least_le)
  then have "k < 18446744073709551616" using unat_lt_two_power_64 [of n] by linarith
  moreover have "\<not> ?P i" if "i < k" for i
    using that unfolding k_def by (rule not_less_Least)
  ultimately have "cstring m a (region m a k)" using k by (simp add: cstring_def region_def)
  then show ?thesis ..
qed

lemma strcmp_loop_cstring:
  assumes xs: "cstring m a xs" and ys: "cstring m b ys"
    and "take k xs = take k ys" and "k \<le> length xs" and "k \<le> length ys"
  shows "\<exists>r. strcmp_loop m a b (of_nat k) = Some r \<and> (r = 0 \<longleftrightarrow> xs = ys)"
  using assms(3-5)
proof (induction "length xs - k" arbitrary: k rule: less_induct)
  case less
  let ?c = "m (a + of_nat k)" and ?d = "m (b + of_nat k)"
  have c: "?c = (if k < length xs then xs ! k else 0)" and d: "?d = (if k < length ys then ys ! k else 0)"
    using xs ys less.prems by (auto simp: cstring_def)
  show ?case
  proof (cases "?c = ?d")
    case False
    then have "xs \<noteq> ys" using c d by auto
    moreover from False have "sint ?c - sint ?d \<noteq> 0" by (metis eq_iff_diff_eq_0 signed_word_eqI)
    ultimately show ?thesis using False by (simp add: strcmp_loop.simps [of m a b "of_nat k"])
  next
    case eq: True
    show ?thesis
    proof (cases "?c = 0")
      case True
      then have "k = length xs" "k = length ys"
        using xs ys c d eq less.prems by (auto simp: cstring_def split: if_splits)
      with less.prems(1) have "xs = ys" by simp
      with True eq show ?thesis by (simp add: strcmp_loop.simps [of m a b "of_nat k"])
    next
      case False
      then have k: "k < length xs" "k < length ys" using c d eq by (auto split: if_splits)
      then have "take (Suc k) xs = take (Suc k) ys"
        using less.prems(1) c d eq by (simp add: take_Suc_conv_app_nth)
      with less.hyps [of "Suc k"] k obtain r where
        "strcmp_loop m a b (of_nat (Suc k)) = Some r" "r = 0 \<longleftrightarrow> xs = ys"
        by (metis Suc_leI diff_less_mono2 lessI)
      then show ?thesis using False eq by (simp add: strcmp_loop.simps [of m a b "of_nat k"] add.commute)
    qed
  qed
qed

lemma strcmp_cstring:
  "cstring m a xs \<Longrightarrow> cstring m b ys \<Longrightarrow> \<exists>r. strcmp m a b = Some r \<and> (r = 0 \<longleftrightarrow> xs = ys)"
  using strcmp_loop_cstring [of m a xs b ys 0] by (simp add: strcmp_def)

subsection \<open>Byte memory is a word memory\<close>

lemma bit_push_byte:
  fixes w :: u8
  assumes "i < 8"
  shows "bit (push_bit (8 * i) (ucast w) :: u64) n \<longleftrightarrow> n div 8 = i \<and> bit w (n mod 8)"
proof -
  have w: "k < 8" if "bit w k" for k using bit_imp_le_length [OF that] by simp
  have "bit (push_bit (8 * i) (ucast w) :: u64) n \<longleftrightarrow> 8 * i \<le> n \<and> n < 64 \<and> bit w (n - 8 * i)"
    by (auto simp: bit_push_bit_iff bit_ucast_iff)
  also have "\<dots> \<longleftrightarrow> n div 8 = i \<and> bit w (n mod 8)"
  proof
    assume h: "8 * i \<le> n \<and> n < 64 \<and> bit w (n - 8 * i)"
    with w have "n - 8 * i < 8" by blast
    moreover obtain k where "n = 8 * i + k" using h le_Suc_ex by blast
    ultimately show "n div 8 = i \<and> bit w (n mod 8)" using h by simp
  next
    assume h: "n div 8 = i \<and> bit w (n mod 8)"
    moreover have "n = 8 * (n div 8) + n mod 8" "n mod 8 < 8" by simp_all
    ultimately have "n - 8 * i = n mod 8" "8 * i \<le> n" "n < 64" using assms by linarith+
    with h show "8 * i \<le> n \<and> n < 64 \<and> bit w (n - 8 * i)" by simp
  qed
  finally show ?thesis .
qed

lemma bit_load64:
  "bit (load64 m a) n \<longleftrightarrow> n < 64 \<and> bit (m (a + of_nat (n div 8))) (n mod 8)"
proof (cases "n < 64")
  case True
  note bytes = bit_push_byte [of 0, simplified] bit_push_byte [of 1, simplified]
    bit_push_byte [of 2, simplified] bit_push_byte [of 3, simplified] bit_push_byte [of 4, simplified]
    bit_push_byte [of 5, simplified] bit_push_byte [of 6, simplified] bit_push_byte [of 7, simplified]
  have "n div 8 < 8" using True by simp
  then consider "n div 8 = 0" | "n div 8 = 1" | "n div 8 = 2" | "n div 8 = 3" | "n div 8 = 4"
    | "n div 8 = 5" | "n div 8 = 6" | "n div 8 = 7" by linarith
  then show ?thesis using True
    by cases (simp_all only: load64_def bit_or_iff bytes, simp_all)
next
  case False
  then show ?thesis using bit_imp_le_length [of "load64 m a" n] by auto
qed

text \<open>Two addresses at least eight apart either way: no byte of one word lies in the other.\<close>

lemma far_offset:
  fixes a b i e :: u64
  assumes "i < 8" and "e \<le> b - a" and "8 \<le> a - b"
  shows "\<not> b + i - a < e"
proof -
  have "a \<noteq> b" using assms(3) by auto
  then have neq: "unat a \<noteq> unat b" by (simp add: word_unat_eq_iff)
  have ab: "unat (a - b) = (if unat b \<le> unat a then unat a - unat b else unat a + 18446744073709551616 - unat b)"
    and ba: "unat (b - a) = (if unat a \<le> unat b then unat b - unat a else unat b + 18446744073709551616 - unat a)"
    using unat_sub_if' [of a b] unat_sub_if' [of b a] by simp_all
  have i: "unat i < 8" "unat e \<le> unat (b - a)" "8 \<le> unat (a - b)"
    using assms by (simp_all add: word_le_nat_alt word_less_nat_alt)
  have "unat (b - a) + unat i < 18446744073709551616"
    using ab ba i neq unat_lt_two_power_64 [of a] unat_lt_two_power_64 [of b]
    by (cases "unat b \<le> unat a"; cases "unat a \<le> unat b"; simp only: if_True if_False; linarith)
  with i(2) have "unat (b - a + i) \<ge> unat e" by (simp add: unat_add_small)
  moreover have "b + i - a = b - a + i" by simp
  ultimately have "unat e \<le> unat (b + i - a)" by (simp only:)
  then show ?thesis by (simp add: word_less_nat_alt)
qed

lemma load64_cong: "(\<And>i. i < 8 \<Longrightarrow> m' (b + i) = m (b + i)) \<Longrightarrow> load64 m' b = load64 m b"
proof -
  assume eq: "\<And>i. i < 8 \<Longrightarrow> m' (b + i) = m (b + i)"
  from eq [of 0] eq show ?thesis by (simp add: load64_def)
qed

lemma load64_memset_other:
  assumes "e \<le> b - a" and "8 \<le> a - b"
  shows "load64 (memset m a c e) b = load64 m b"
  by (rule load64_cong) (use assms far_offset in \<open>auto simp: memset_spec\<close>)

interpretation bytes: word_memory load64 store64
proof
  fix m a v
  show "load64 (store64 m a v) a = v"
  proof (rule bit_word_eqI)
    fix n
    assume "n < LENGTH(64)"
    then have n: "n < 64" by simp
    then have d: "n div 8 < 8" by simp
    then have u: "unat (of_nat (n div 8) :: u64) = n div 8" by (simp add: unat_of_nat_small)
    with d have "(of_nat (n div 8) :: u64) < 8" by (simp add: word_less_nat_alt)
    then show "bit (load64 (store64 m a v) a) n = bit v n"
      using n u by (simp add: bit_load64 store64_def bit_ucast_iff bit_drop_bit_eq)
  qed
next
  fix m a b v
  show "load64 (store64 m a v) b = load64 m b" if "8 \<le> b - a" "8 \<le> a - b"
  proof (rule bit_word_eqI)
    fix n
    assume "n < LENGTH(64)"
    then have "n div 8 < 8" by simp
    then have "(of_nat (n div 8) :: u64) < 8" by (simp add: word_less_nat_alt unat_of_nat_small)
    then have "\<not> b + of_nat (n div 8) - a < 8" using that by (rule far_offset)
    then show "bit (load64 (store64 m a v) b) n = bit (load64 m b) n"
      by (simp add: bit_load64 store64_def)
  qed
qed

subsection \<open>Properties\<close>

text \<open>
  \<open>memmove\<close> copies its source region as it was before the call, however the two regions
  overlap, and writes nothing else, provided that neither region wraps around the address space.
\<close>

theorem memmove_handles_overlap:
  assumes "unat dest + unat n \<le> 18446744073709551616" and "unat src + unat n \<le> 18446744073709551616"
  shows "memmove m dest src n a = (if a - dest < n then m (src + (a - dest)) else m a)"
  by (simp add: memmove_copied [OF assms] copied_def)

theorem memmove_handles_overlap_witness:
  "memmove (\<lambda>a. ucast a) 0x102 0x100 8 0x105 = 3 \<and> memmove (\<lambda>a. ucast a) 0x102 0x100 8 0x10a = 0x0a"
  using memmove_handles_overlap [of "0x102" 8 "0x100" "\<lambda>a. ucast a" "0x105"]
    memmove_handles_overlap [of "0x102" 8 "0x100" "\<lambda>a. ucast a" "0x10a"] by simp

text \<open>
  On zero-terminated strings \<open>strlen\<close> returns, and returns their length; \<open>strcmp\<close> returns,
  and returns zero exactly when the two strings are equal; \<open>memcmp\<close> returns zero exactly when the
  two regions hold the same bytes.
\<close>

theorem string_routines_correct:
  assumes "cstring m a xs" and "cstring m b ys"
  shows "strlen m a = Some (of_nat (length xs)) \<and>
    (\<exists>r. strcmp m a b = Some r \<and> (r = 0 \<longleftrightarrow> xs = ys)) \<and>
    (memcmp m a b n = 0 \<longleftrightarrow> region m a (unat n) = region m b (unat n))"
  using strlen_cstring [OF assms(1)] strcmp_cstring [OF assms] memcmp_zero by blast

theorem string_routines_correct_witness:
  "strlen ((\<lambda>_. 0)(16 := 0x2f, 17 := 0x64)) 16 = Some 2 \<and>
   (\<exists>r. strcmp ((\<lambda>_. 0)(16 := 0x2f, 17 := 0x64)) 16 32 = Some r \<and> r \<noteq> 0)"
proof -
  have h: "cstring ((\<lambda>_. 0)(16 := 0x2f, 17 := 0x64)) 16 [0x2f, 0x64]"
    "cstring ((\<lambda>_. 0)(16 := 0x2f, 17 := 0x64)) 32 []"
    by (simp_all add: cstring_def less_Suc_eq)
  from string_routines_correct [OF h] show ?thesis by auto
qed

end
