(* ===== verification/Lyre_Pmm.thy ===== *)
theory Lyre_Pmm
  imports Lyre_Lock Lyre_Libc
begin

section \<open>The physical page allocator (mm/pmm.c)\<close>

text \<open>
  The allocator's static variables as a record, \<open>pmm_init\<close> over the bootloader's memory map,
  the search of \<open>inner_alloc\<close> with its roving index, and the two entry points that allocate and
  free runs of pages under the lock. The specification is the set of free page numbers: the lemmas
  show that an allocation takes exactly the first fitting run of free pages the search can see and
  that freeing gives the pages back.
\<close>

subsection \<open>State\<close>

text \<open>
  \<open>bitmap\<close> is the byte array the pointer of the same name refers to; before \<open>pmm_init\<close>
  has placed it the pointer is null and the array has no element.
\<close>

record pmm =
  pmm_lock :: spinlock
  bitmap :: "u8 list"
  highest_page_index :: u64
  last_used_index :: u64
  usable_pages :: u64
  used_pages :: u64
  reserved_pages :: u64

definition pmm_static :: pmm where
  "pmm_static = \<lparr>pmm_lock = SPINLOCK_INIT, bitmap = [], highest_page_index = 0,
     last_used_index = 0, usable_pages = 0, used_pages = 0, reserved_pages = 0\<rparr>"

text \<open>The entry types of the boot protocol that the code names, and every other one.\<close>

datatype memmap_type =
    LIMINE_MEMMAP_USABLE
  | LIMINE_MEMMAP_RESERVED
  | LIMINE_MEMMAP_ACPI_RECLAIMABLE
  | LIMINE_MEMMAP_ACPI_NVS
  | LIMINE_MEMMAP_BOOTLOADER_RECLAIMABLE
  | LIMINE_MEMMAP_KERNEL_AND_MODULES
  | LIMINE_MEMMAP_OTHER

record memmap_entry =
  me_base :: u64
  me_length :: u64
  me_type :: memmap_type

subsection \<open>Initialisation\<close>

text \<open>The first loop: count usable and reserved pages, find the highest usable address.\<close>

fun count_entries :: "memmap_entry list \<Rightarrow> u64 \<times> u64 \<times> u64 \<Rightarrow> u64 \<times> u64 \<times> u64" where
  "count_entries [] (usable, reserved, highest_addr) = (usable, reserved, highest_addr)"
| "count_entries (e # es) (usable, reserved, highest_addr) =
     count_entries es
       (case me_type e of
          LIMINE_MEMMAP_USABLE \<Rightarrow>
            (usable + DIV_ROUNDUP (me_length e) PAGE_SIZE, reserved,
             MAX_u64 highest_addr (me_base e + me_length e))
        | LIMINE_MEMMAP_OTHER \<Rightarrow> (usable, reserved, highest_addr)
        | _ \<Rightarrow> (usable, reserved + DIV_ROUNDUP (me_length e) PAGE_SIZE, highest_addr))"

text \<open>
  The second loop: the first usable entry that is long enough gives its start to the bitmap, which
  is filled with ones. Without such an entry the pointer stays null.
\<close>

fun place_bitmap :: "u64 \<Rightarrow> memmap_entry list \<Rightarrow> u8 list \<times> memmap_entry list" where
  "place_bitmap bitmap_size [] = ([], [])"
| "place_bitmap bitmap_size (e # es) =
     (if me_type e = LIMINE_MEMMAP_USABLE \<and> me_length e \<ge> bitmap_size then
        (replicate (unat bitmap_size) 0xff,
         e\<lparr>me_length := me_length e - bitmap_size, me_base := me_base e + bitmap_size\<rparr> # es)
      else let (bm, es') = place_bitmap bitmap_size es in (bm, e # es'))"

text \<open>
  The third loop: clear the bit of every page of every usable entry. The inner counter steps by a
  page; on an entry that ends below the last page of the address space it does not wrap, and the
  model counts the steps with a natural number.
\<close>

function clear_entry :: "u64 \<Rightarrow> nat \<Rightarrow> nat \<Rightarrow> u8 list \<Rightarrow> u8 list result" where
  "clear_entry base len j bm =
     (if j < len then
        rbind (bitmap_reset bm ((base + of_nat j) div PAGE_SIZE)) (clear_entry base len (j + 4096))
      else Inr bm)"
  by pat_completeness auto
termination
  by (relation "measure (\<lambda>(base, len, j, bm). len - j)") auto

declare clear_entry.simps [simp del]

fun clear_entries :: "memmap_entry list \<Rightarrow> u8 list \<Rightarrow> u8 list result" where
  "clear_entries [] bm = Inr bm"
| "clear_entries (e # es) bm =
     (if me_type e = LIMINE_MEMMAP_USABLE then
        rbind (clear_entry (me_base e) (unat (me_length e)) 0 bm) (clear_entries es)
      else clear_entries es bm)"

definition pmm_bitmap_size :: "u64 \<Rightarrow> u64" where
  "pmm_bitmap_size highest = ALIGN_UP (highest div 8) PAGE_SIZE"

definition pmm_init :: "memmap_entry list \<Rightarrow> pmm \<Rightarrow> pmm result" where
  "pmm_init entries s =
     (let (usable, reserved, highest_addr) =
            count_entries entries (usable_pages s, reserved_pages s, 0);
          highest = highest_addr div PAGE_SIZE;
          (bm, entries') = place_bitmap (pmm_bitmap_size highest) entries
      in rbind (clear_entries entries' bm) (\<lambda>bm'.
           Inr (s\<lparr>bitmap := bm', highest_page_index := highest,
                  usable_pages := usable, reserved_pages := reserved\<rparr>)))"

subsection \<open>Allocation\<close>

text \<open>
  The search loop of \<open>inner_alloc\<close>: \<open>p\<close> counts the free pages seen in a row. The result
  is the physical address of the run, zero standing for \<open>NULL\<close>.
\<close>

function inner_alloc_loop :: "u64 \<Rightarrow> u64 \<Rightarrow> u64 \<Rightarrow> pmm \<Rightarrow> (u64 \<times> pmm) result" where
  "inner_alloc_loop pages limit p s =
     (if last_used_index s < limit then
        rbind (bitmap_test (bitmap s) (last_used_index s)) (\<lambda>used.
          let s' = s\<lparr>last_used_index := last_used_index s + 1\<rparr>
          in if \<not> used then
               if p + 1 = pages then
                 (let page = last_used_index s' - pages
                  in rbind (for_range (\<lambda>i bm. bitmap_set bm i) page (last_used_index s') (bitmap s'))
                       (\<lambda>bm. Inr (page * PAGE_SIZE, s'\<lparr>bitmap := bm\<rparr>)))
               else inner_alloc_loop pages limit (p + 1) s'
             else inner_alloc_loop pages limit 0 s')
      else Inr (0, s))"
  by pat_completeness auto
termination
  by (relation "measure (\<lambda>(pages, limit, p, s). unat limit - unat (last_used_index s))")
    (auto simp: unat_Suc_less word_less_nat_alt)

declare inner_alloc_loop.simps [simp del]

definition inner_alloc :: "u64 \<Rightarrow> u64 \<Rightarrow> pmm \<Rightarrow> (u64 \<times> pmm) result" where
  "inner_alloc pages limit s = inner_alloc_loop pages limit 0 s"

definition pmm_alloc_nozero :: "u64 \<Rightarrow> pmm \<Rightarrow> (u64 \<times> pmm) result" where
  "pmm_alloc_nozero pages s =
     rbind (spinlock_acquire ''pmm_alloc_nozero'' (pmm_lock s)) (\<lambda>l.
     let s = s\<lparr>pmm_lock := l\<rparr>; last = last_used_index s
     in rbind (inner_alloc pages (highest_page_index s) s) (\<lambda>(ret, s).
        rbind (if ret = 0 then inner_alloc pages last (s\<lparr>last_used_index := 0\<rparr>) else Inr (ret, s))
          (\<lambda>(ret, s).
             Inr (ret, s\<lparr>used_pages := used_pages s + pages,
                         pmm_lock := spinlock_release (pmm_lock s)\<rparr>))))"

text \<open>
  \<open>pmm_alloc\<close> also clears the pages, through the direct map of physical memory at the offset
  \<open>hh\<close> (\<open>VMM_HIGHER_HALF\<close>).
\<close>

definition pmm_alloc :: "u64 \<Rightarrow> u64 \<Rightarrow> pmm \<times> mem \<Rightarrow> (u64 \<times> pmm \<times> mem) result" where
  "pmm_alloc hh pages = (\<lambda>(s, m).
     rbind (pmm_alloc_nozero pages s) (\<lambda>(ret, s').
       Inr (ret, s', if ret \<noteq> 0 then memset m (ret + hh) 0 (pages * PAGE_SIZE) else m)))"

definition pmm_free :: "u64 \<Rightarrow> u64 \<Rightarrow> pmm \<Rightarrow> pmm result" where
  "pmm_free addr pages s =
     rbind (spinlock_acquire ''pmm_free'' (pmm_lock s)) (\<lambda>l.
     let page = addr div PAGE_SIZE
     in rbind (for_range (\<lambda>i bm. bitmap_reset bm i) page (page + pages) (bitmap s)) (\<lambda>bm.
          Inr (s\<lparr>bitmap := bm, used_pages := used_pages s - pages,
                 pmm_lock := spinlock_release l\<rparr>)))"

subsection \<open>Specification: runs of free pages\<close>

definition free_run :: "u8 list \<Rightarrow> nat \<Rightarrow> nat \<Rightarrow> bool" where
  "free_run bm a n \<longleftrightarrow> (\<forall>k \<in> {a ..< a + n}. \<not> bm_bit bm k)"

text \<open>Page \<open>a\<close> starts the first run of \<open>n\<close> free pages inside \<open>[lo, hi)\<close>.\<close>

definition first_run :: "u8 list \<Rightarrow> nat \<Rightarrow> nat \<Rightarrow> nat \<Rightarrow> nat \<Rightarrow> bool" where
  "first_run bm lo hi n a \<longleftrightarrow>
     lo \<le> a \<and> a + n \<le> hi \<and> free_run bm a n \<and> (\<forall>b \<in> {lo ..< a}. \<not> free_run bm b n)"

definition no_run :: "u8 list \<Rightarrow> nat \<Rightarrow> nat \<Rightarrow> nat \<Rightarrow> bool" where
  "no_run bm lo hi n \<longleftrightarrow> (\<forall>a \<ge> lo. a + n \<le> hi \<longrightarrow> \<not> free_run bm a n)"

text \<open>\<open>bm'\<close> is \<open>bm\<close> with the pages from \<open>a\<close> on marked, \<open>n\<close> of them.\<close>

definition marked :: "u8 list \<Rightarrow> nat \<Rightarrow> nat \<Rightarrow> u8 list \<Rightarrow> bool" where
  "marked bm a n bm' \<longleftrightarrow> bm_size bm' = bm_size bm \<and>
     (\<forall>m < bm_size bm. bm_bit bm' m = (a \<le> m \<and> m < a + n \<or> bm_bit bm m))"

text \<open>
  The well-formedness of the allocator: the roving index and the bitmap cover the pages below
  \<open>highest_page_index\<close>, whose addresses fit 64 bits; between calls the lock is free.
\<close>

definition pmm_wf :: "pmm \<Rightarrow> bool" where
  "pmm_wf s \<longleftrightarrow> last_used_index s \<le> highest_page_index s \<and>
     unat (highest_page_index s) \<le> bm_size (bitmap s) \<and>
     unat (highest_page_index s) \<le> 4503599627370496"

definition pmm_inv :: "pmm \<Rightarrow> bool" where
  "pmm_inv s \<longleftrightarrow> unlocked (pmm_lock s) \<and> pmm_wf s"

subsection \<open>The search\<close>

lemma free_run_Suc: "free_run bm a (Suc n) \<longleftrightarrow> free_run bm a n \<and> \<not> bm_bit bm (a + n)"
  by (auto simp: free_run_def less_Suc_eq)

lemma free_run_hit: "a \<le> k \<Longrightarrow> k < a + n \<Longrightarrow> bm_bit bm k \<Longrightarrow> \<not> free_run bm a n"
  by (auto simp: free_run_def)

lemma first_run_skip:
  assumes "first_run bm lo' hi n a" and "lo \<le> lo'" and "\<forall>b \<in> {lo ..< lo'}. \<not> free_run bm b n"
  shows "first_run bm lo hi n a"
  using assms by (force simp: first_run_def)

lemma no_run_skip:
  assumes "no_run bm lo' hi n" and "\<forall>b \<in> {lo ..< lo'}. \<not> free_run bm b n"
  shows "no_run bm lo hi n"
  using assms by (force simp: no_run_def)

text \<open>What the search loop does from a state where the last \<open>p\<close> pages were free.\<close>

definition search_result :: "u64 \<Rightarrow> u64 \<Rightarrow> nat \<Rightarrow> pmm \<Rightarrow> (u64 \<times> pmm) result \<Rightarrow> bool" where
  "search_result pages limit lo s r \<longleftrightarrow>
     (\<exists>a bm'. first_run (bitmap s) lo (unat limit) (unat pages) a \<and>
        marked (bitmap s) a (unat pages) bm' \<and>
        r = Inr (of_nat a * PAGE_SIZE,
                 s\<lparr>last_used_index := of_nat (a + unat pages), bitmap := bm'\<rparr>)) \<or>
     (no_run (bitmap s) lo (unat limit) (unat pages) \<and> r = Inr (0, s\<lparr>last_used_index := limit\<rparr>))"

lemma search_result_step:
  assumes "search_result pages limit lo' (s\<lparr>last_used_index := i\<rparr>) r" and "lo \<le> lo'"
    and "\<forall>b \<in> {lo ..< lo'}. \<not> free_run (bitmap s) b (unat pages)"
  shows "search_result pages limit lo s r"
proof -
  from assms(1) consider
    (found) a bm' where "first_run (bitmap s) lo' (unat limit) (unat pages) a"
      "marked (bitmap s) a (unat pages) bm'"
      "r = Inr (of_nat a * PAGE_SIZE, s\<lparr>last_used_index := of_nat (a + unat pages), bitmap := bm'\<rparr>)"
  | (none) "no_run (bitmap s) lo' (unat limit) (unat pages)" "r = Inr (0, s\<lparr>last_used_index := limit\<rparr>)"
    by (auto simp: search_result_def)
  then show ?thesis
  proof cases
    case found
    with first_run_skip [OF found(1) assms(2,3)] show ?thesis
      unfolding search_result_def by blast
  next
    case none
    with no_run_skip [OF none(1) assms(3)] show ?thesis
      unfolding search_result_def by blast
  qed
qed

lemma take_run:
  assumes pages: "unat pages \<le> unat e" and bnd: "unat e \<le> bm_size bm"
  shows "\<exists>bm'. for_range (\<lambda>i bm. bitmap_set bm i) (e - pages) e bm = Inr bm' \<and>
    marked bm (unat e - unat pages) (unat pages) bm'"
proof -
  from pages have d: "unat (e - pages) = unat e - unat pages" by (simp add: unat_sub_small)
  then have "e - pages \<le> e" by (simp add: word_le_nat_alt)
  from bitmap.set_range [OF this bnd] d pages show ?thesis by (auto simp: marked_def)
qed

lemma inner_alloc_loop_spec:
  assumes "p < pages" and "unat p \<le> unat (last_used_index s)"
    and "last_used_index s \<le> limit" and "unat limit \<le> bm_size (bitmap s)"
    and "free_run (bitmap s) (unat (last_used_index s) - unat p) (unat p)"
  shows "search_result pages limit (unat (last_used_index s) - unat p) s
    (inner_alloc_loop pages limit p s)"
  using assms
proof (induction pages limit p s rule: inner_alloc_loop.induct)
  case (1 pages limit p s)
  let ?l = "last_used_index s" and ?bm = "bitmap s"
  let ?lo = "unat ?l - unat p"
  let ?s = "s\<lparr>last_used_index := ?l + 1\<rparr>"
  show ?case
  proof (cases "?l < limit")
    case False
    with "1.prems"(3) have "?l = limit" by simp
    then have "no_run ?bm ?lo (unat limit) (unat pages)"
      using "1.prems"(1,2) by (auto simp: no_run_def word_less_nat_alt)
    with False \<open>?l = limit\<close> show ?thesis
      by (auto simp: search_result_def inner_alloc_loop.simps [of pages limit p s])
  next
    case True
    have l1: "unat (?l + 1) = Suc (unat ?l)" by (rule unat_Suc_less [OF True])
    have p1: "unat (p + 1) = Suc (unat p)" by (rule unat_Suc_less [OF "1.prems"(1)])
    have in_bm: "unat ?l < bm_size ?bm"
      using True "1.prems"(4) by (simp add: word_less_nat_alt)
    note test = bitmap.tst_ok [OF in_bm]
    have l1_le: "?l + 1 \<le> limit"
      using True l1 by (simp add: word_le_nat_alt word_less_nat_alt)
    show ?thesis
    proof (cases "bm_bit ?bm (unat ?l)")
      case used: True
      have step: "inner_alloc_loop pages limit p s = inner_alloc_loop pages limit 0 ?s"
        using True test used by (simp add: inner_alloc_loop.simps [of pages limit p s] Let_def)
      have "search_result pages limit (unat (last_used_index ?s) - unat 0) ?s
          (inner_alloc_loop pages limit 0 ?s)"
        using "1.IH"(2) [OF True test refl] used l1_le "1.prems"(1,4)
        by (simp add: free_run_def word_gt_0_no word_less_nat_alt)
      moreover have "\<not> free_run ?bm b (unat pages)"
        if "?lo \<le> b" "b < Suc (unat ?l)" for b
        by (rule free_run_hit [OF _ _ used]) (use that "1.prems"(1,2) in \<open>auto simp: word_less_nat_alt\<close>)
      ultimately show ?thesis unfolding step
        by (elim search_result_step) (use l1 in auto)
    next
      case free: False
      have run: "free_run ?bm ?lo (Suc (unat p))"
        using free "1.prems"(2,5) by (simp add: free_run_Suc)
      show ?thesis
      proof (cases "p + 1 = pages")
        case fit: True
        have le: "unat pages \<le> unat (?l + 1)" using "1.prems"(2) l1 p1 fit by simp
        have a: "unat (?l + 1) - unat pages = ?lo" using l1 p1 fit by simp
        from take_run [OF le, of ?bm] in_bm l1 a obtain bm' where
          bm': "for_range (\<lambda>i bm. bitmap_set bm i) (?l + 1 - pages) (?l + 1) ?bm = Inr bm'"
            "marked ?bm ?lo (unat pages) bm'" by auto
        have ptr: "?l + 1 - pages = of_nat ?lo"
          using le a by (intro of_nat_eqI [symmetric]) (simp add: unat_sub_small)
        have fr: "first_run ?bm ?lo (unat limit) (unat pages) ?lo"
          using run l1_le l1 p1 fit "1.prems"(2) by (simp add: first_run_def word_le_nat_alt)
        have idx: "of_nat (?lo + unat pages) = ?l + 1"
          using a le by (intro of_nat_eqI) simp
        have "inner_alloc_loop pages limit p s =
            Inr (of_nat ?lo * PAGE_SIZE, s\<lparr>last_used_index := of_nat (?lo + unat pages), bitmap := bm'\<rparr>)"
          using True test free fit bm'(1) idx ptr
          by (simp add: inner_alloc_loop.simps [of pages limit p s] Let_def)
        with fr bm'(2) show ?thesis unfolding search_result_def by blast
      next
        case more: False
        have step: "inner_alloc_loop pages limit p s = inner_alloc_loop pages limit (p + 1) ?s"
          using True test free more by (simp add: inner_alloc_loop.simps [of pages limit p s] Let_def)
        have "p + 1 < pages"
          using more "1.prems"(1) p1 by (metis Suc_lessI word_less_nat_alt unat_eqI)
        then have "search_result pages limit (unat (last_used_index ?s) - unat (p + 1)) ?s
            (inner_alloc_loop pages limit (p + 1) ?s)"
          using "1.IH"(1) [OF True test refl] free more l1_le "1.prems"(2,4) l1 p1 run
          by simp
        then show ?thesis unfolding step
          by (rule search_result_step) (use l1 p1 in auto)
      qed
    qed
  qed
qed

lemma inner_alloc_spec:
  assumes "0 < pages" and "last_used_index s \<le> limit" and "unat limit \<le> bm_size (bitmap s)"
  shows "search_result pages limit (unat (last_used_index s)) s (inner_alloc pages limit s)"
  using inner_alloc_loop_spec [of 0 pages s limit] assms
  by (simp add: inner_alloc_def free_run_def)

lemma search_result_cases:
  assumes "search_result pages limit lo s r"
  obtains (found) a bm' where "first_run (bitmap s) lo (unat limit) (unat pages) a"
      "marked (bitmap s) a (unat pages) bm'"
      "r = Inr (of_nat a * PAGE_SIZE, s\<lparr>last_used_index := of_nat (a + unat pages), bitmap := bm'\<rparr>)"
  | (none) "no_run (bitmap s) lo (unat limit) (unat pages)" "r = Inr (0, s\<lparr>last_used_index := limit\<rparr>)"
  using assms by (auto simp: search_result_def)

lemma unat_page_addr:
  "a < 4503599627370496 \<Longrightarrow> unat (of_nat a * PAGE_SIZE :: u64) = a * 4096"
  by (simp add: PAGE_SIZE_def unat_mult_small unat_of_nat_small)

lemma page_addr_zero: "a < 4503599627370496 \<Longrightarrow> (of_nat a * PAGE_SIZE :: u64) = 0 \<longleftrightarrow> a = 0"
  using unat_page_addr [of a] by (metis mult_eq_0_iff unat_0_iff zero_neq_numeral)

lemma page_addr_div: "a < 4503599627370496 \<Longrightarrow> (of_nat a * PAGE_SIZE) div PAGE_SIZE = (of_nat a :: u64)"
  by (rule unat_eqI) (simp add: unat_div unat_page_addr unat_of_nat_small, simp add: PAGE_SIZE_def)

text \<open>The outcome of \<open>pmm_alloc_nozero\<close> when page zero is not free.\<close>

definition alloc_outcome :: "u64 \<Rightarrow> pmm \<Rightarrow> u64 \<Rightarrow> pmm \<Rightarrow> bool" where
  "alloc_outcome pages s ret s' \<longleftrightarrow>
     (if ret = 0 then bitmap s' = bitmap s \<and>
         no_run (bitmap s) (unat (last_used_index s)) (unat (highest_page_index s)) (unat pages) \<and>
         no_run (bitmap s) 0 (unat (last_used_index s)) (unat pages)
      else \<exists>a. unat ret = a * 4096 \<and> 0 < a \<and> a + unat pages \<le> unat (highest_page_index s) \<and>
         free_run (bitmap s) a (unat pages) \<and> marked (bitmap s) a (unat pages) (bitmap s'))"

text \<open>One search and its effect on the state, with page zero in use.\<close>

lemma first_run_pos:
  assumes "first_run bm lo hi n a" and "bm_bit bm 0" and "0 < n"
  shows "0 < a"
  using assms free_run_hit [of a 0 n bm] by (cases a) (auto simp: first_run_def)

lemma search_outcome:
  assumes wf: "pmm_wf s" and pages: "0 < pages" and zero: "bm_bit (bitmap s) 0"
    and lo: "last_used_index s \<le> limit" and hi: "limit \<le> highest_page_index s"
  obtains (found) a bm' where "0 < a" "a + unat pages \<le> unat limit" "free_run (bitmap s) a (unat pages)"
      "marked (bitmap s) a (unat pages) bm'" "unat (of_nat a * PAGE_SIZE :: u64) = a * 4096"
      "of_nat (a + unat pages) \<le> limit"
      "inner_alloc pages limit s = Inr (of_nat a * PAGE_SIZE, s\<lparr>last_used_index := of_nat (a + unat pages), bitmap := bm'\<rparr>)"
  | (none) "no_run (bitmap s) (unat (last_used_index s)) (unat limit) (unat pages)"
      "inner_alloc pages limit s = Inr (0, s\<lparr>last_used_index := limit\<rparr>)"
proof -
  from wf hi have bounds: "unat limit \<le> bm_size (bitmap s)" "unat limit \<le> 4503599627370496"
    by (auto simp: pmm_wf_def word_le_nat_alt)
  from inner_alloc_spec [OF pages lo bounds(1)] show thesis
  proof (cases rule: search_result_cases)
    case (found a bm')
    have a: "0 < a" using first_run_pos [OF found(1) zero] pages by (simp add: word_less_nat_alt)
    from found(1) have b: "a + unat pages \<le> unat limit" "free_run (bitmap s) a (unat pages)"
      by (auto simp: first_run_def)
    then have "a < 4503599627370496"
      using bounds(2) pages by (simp add: word_less_nat_alt)
    moreover have "of_nat (a + unat pages) \<le> limit"
      using b(1) by (metis le_unat_uoi word_le_nat_alt)
    ultimately show thesis using that(1) [OF a b found(2) unat_page_addr _ found(3)] by blast
  next
    case none
    then show thesis by (rule that(2))
  qed
qed

lemma pmm_alloc_outcome:
  assumes inv: "pmm_inv s" and pages: "0 < pages" and zero: "bm_bit (bitmap s) 0"
  shows "\<exists>ret s'. pmm_alloc_nozero pages s = Inr (ret, s') \<and> pmm_inv s' \<and> alloc_outcome pages s ret s' \<and>
    used_pages s' = used_pages s + pages \<and> highest_page_index s' = highest_page_index s"
proof -
  define l where "l = (pmm_lock s)\<lparr>lock_word := 1, last_acquirer := ''pmm_alloc_nozero''\<rparr>"
  define t where "t = s\<lparr>pmm_lock := l\<rparr>"
  have acq: "spinlock_acquire ''pmm_alloc_nozero'' (pmm_lock s) = Inr l"
    using inv by (simp add: pmm_inv_def klock l_def)
  have wf: "pmm_wf t" and lo: "last_used_index t \<le> highest_page_index t" and zt: "bm_bit (bitmap t) 0"
    using inv zero by (auto simp: pmm_inv_def pmm_wf_def t_def)
  from wf pages zt lo order_refl show ?thesis
  proof (cases rule: search_outcome)
    case (found a bm')
    then have nz: "(of_nat a * PAGE_SIZE :: u64) \<noteq> 0" by (auto simp flip: unat_0_iff)
    show ?thesis
      using acq found nz wf
      by (auto simp: pmm_alloc_nozero_def t_def Let_def alloc_outcome_def pmm_inv_def pmm_wf_def marked_def)
  next
    case none
    let ?t = "t\<lparr>last_used_index := highest_page_index t, last_used_index := 0\<rparr>"
    have "pmm_wf ?t" "bm_bit (bitmap ?t) 0" "last_used_index ?t \<le> last_used_index t"
      "last_used_index t \<le> highest_page_index ?t"
      using wf zt by (auto simp: pmm_wf_def)
    from this(1) pages this(2-4) show ?thesis
    proof (cases rule: search_outcome)
      case (found a bm')
      then have nz: "(of_nat a * PAGE_SIZE :: u64) \<noteq> 0" by (auto simp flip: unat_0_iff)
      show ?thesis
        using acq none found nz wf
        by (auto simp: pmm_alloc_nozero_def t_def Let_def alloc_outcome_def pmm_inv_def pmm_wf_def
            marked_def word_le_nat_alt)
    next
      case none': none
      show ?thesis
        using acq none none' wf
        by (auto simp: pmm_alloc_nozero_def t_def Let_def alloc_outcome_def pmm_inv_def pmm_wf_def)
    qed
  qed
qed

lemma pmm_free_outcome:
  assumes inv: "pmm_inv s" and run: "a + unat pages \<le> unat (highest_page_index s)"
    and addr: "unat addr = a * 4096"
  shows "\<exists>s'. pmm_free addr pages s = Inr s' \<and> pmm_inv s' \<and>
    (\<forall>m < bm_size (bitmap s). bm_bit (bitmap s') m = (\<not> (a \<le> m \<and> m < a + unat pages) \<and> bm_bit (bitmap s) m)) \<and>
    bm_size (bitmap s') = bm_size (bitmap s) \<and>
    used_pages s' = used_pages s - pages \<and> highest_page_index s' = highest_page_index s"
proof -
  let ?p = "addr div PAGE_SIZE"
  have p: "unat ?p = a" using addr by (simp add: unat_div PAGE_SIZE_def)
  have e: "unat (?p + pages) = a + unat pages"
    using run p unat_lt_two_power_64 [of "highest_page_index s"] unat_add_small [of ?p pages] by linarith
  have "?p \<le> ?p + pages" "unat (?p + pages) \<le> bm_size (bitmap s)"
    using p e run inv by (auto simp: word_le_nat_alt pmm_inv_def pmm_wf_def)
  from bitmap.reset_range [OF this] obtain bm where
    bm: "for_range (\<lambda>k b. bitmap_reset b k) ?p (?p + pages) (bitmap s) = Inr bm"
      "bm_size bm = bm_size (bitmap s)"
      "\<forall>m < bm_size (bitmap s). bm_bit bm m = (\<not> (a \<le> m \<and> m < a + unat pages) \<and> bm_bit (bitmap s) m)"
    unfolding p e by blast
  with inv show ?thesis
    by (auto simp: pmm_free_def klock Let_def pmm_inv_def pmm_wf_def)
qed

subsection \<open>Initialisation\<close>












text \<open>
  How many pages the bitmap covers. The size is computed from \<open>highest_page_index / 8\<close>, which
  rounds down, and then aligned to a page: the last pages are covered except when the rounded value
  is already a multiple of the page size.
\<close>

definition bitmap_covers :: "u64 \<Rightarrow> bool" where
  "bitmap_covers h \<longleftrightarrow> unat h \<le> 8 * unat (pmm_bitmap_size h)"

lemma unat_pmm_bitmap_size:
  "unat (pmm_bitmap_size h) = (unat h div 8 + 4095) div 4096 * 4096"
proof -
  have "unat (h div 8) + unat PAGE_SIZE \<le> 18446744073709551616"
    using less_mult_imp_div_less [of "unat h" 2305843009213693952 8]
    by (simp add: unat_div_8 PAGE_SIZE_def)
  from unat_ALIGN_UP [OF _ this] show ?thesis
    by (simp add: pmm_bitmap_size_def unat_div_8 PAGE_SIZE_def)
qed

lemma bitmap_covers_iff:
  "bitmap_covers h \<longleftrightarrow> unat h mod 8 = 0 \<or> unat h div 8 mod 4096 \<noteq> 0"
proof -
  define q where "q = unat h div 8"
  have h: "unat h = 8 * q + unat h mod 8" by (simp add: q_def)
  have m: "unat h mod 8 < 8" by simp
  have b: "q \<le> (q + 4095) div 4096 * 4096" "(q + 4095) div 4096 * 4096 < q + 4096"
    using roundup_mult_bounds [of 4096 q] by simp_all
  have z: "(q + 4095) div 4096 * 4096 = q" if "q mod 4096 = 0"
  proof -
    from that obtain k where "q = 4096 * k" by (metis dvd_def mod_0_imp_dvd)
    then show ?thesis by simp
  qed
  have nz: "q mod 4096 \<noteq> 0 \<Longrightarrow> q < (q + 4095) div 4096 * 4096"
    using b(1) by (metis le_neq_implies_less mod_mult_self2_is_0)
  show ?thesis
    unfolding bitmap_covers_def unat_pmm_bitmap_size q_def [symmetric]
  proof (cases "q mod 4096 = 0")
    case True
    with z h show "(unat h \<le> 8 * ((q + 4095) div 4096 * 4096)) = (unat h mod 8 = 0 \<or> q mod 4096 \<noteq> 0)"
      by (metis add_0_right add_diff_cancel_left' diff_is_0_eq le_refl)
  next
    case False
    with nz h m show "(unat h \<le> 8 * ((q + 4095) div 4096 * 4096)) = (unat h mod 8 = 0 \<or> q mod 4096 \<noteq> 0)"
      by linarith
  qed
qed




subsection \<open>Sequences of allocations and releases\<close>

text \<open>
  The allocator together with the runs its clients hold, as pairs of first page and number of
  pages. A client frees what it was given, whole.
\<close>

type_synonym runs = "(nat \<times> nat) set"

inductive pmm_step :: "pmm \<times> runs \<Rightarrow> pmm \<times> runs \<Rightarrow> bool" where
  alloc: "0 < pages \<Longrightarrow> pmm_alloc_nozero pages s = Inr (ret, s') \<Longrightarrow>
     pmm_step (s, L) (s', if ret = 0 then L else insert (unat ret div 4096, unat pages) L)"
| free: "(unat addr div 4096, unat pages) \<in> L \<Longrightarrow> unat addr mod 4096 = 0 \<Longrightarrow>
     pmm_free addr pages s = Inr s' \<Longrightarrow>
     pmm_step (s, L) (s', L - {(unat addr div 4096, unat pages)})"

inductive pmm_steps :: "pmm \<times> runs \<Rightarrow> pmm \<times> runs \<Rightarrow> bool" where
  refl: "pmm_steps c c"
| step: "pmm_steps c d \<Longrightarrow> pmm_step d e \<Longrightarrow> pmm_steps c e"

definition run_pages :: "nat \<times> nat \<Rightarrow> nat set" where
  "run_pages r = {fst r ..< fst r + snd r}"

text \<open>Held runs are in use, off page zero, and share no page.\<close>

definition runs_inv :: "pmm \<times> runs \<Rightarrow> bool" where
  "runs_inv c \<longleftrightarrow> (case c of (s, L) \<Rightarrow>
     pmm_inv s \<and> bm_bit (bitmap s) 0 \<and>
     (\<forall>r \<in> L. 0 < fst r \<and> fst r + snd r \<le> unat (highest_page_index s) \<and>
        (\<forall>k \<in> run_pages r. bm_bit (bitmap s) k)) \<and>
     (\<forall>r \<in> L. \<forall>q \<in> L. r \<noteq> q \<longrightarrow> run_pages r \<inter> run_pages q = {}))"

lemma bitmap_eqI:
  assumes "bm_size x = bm_size y" and "\<forall>m < bm_size x. bm_bit x m = bm_bit y m"
  shows "x = y"
proof (rule nth_equalityI)
  show len: "length x = length y" using assms(1) by (simp add: bm_size_def)
  fix i
  assume i: "i < length x"
  show "x ! i = y ! i"
  proof (rule bit_word_eqI)
    fix n
    assume "n < LENGTH(8)"
    then have n: "n < 8" by simp
    with i have "8 * i + n < bm_size x" by (simp add: bm_size_def)
    with assms(2) have "bm_bit x (8 * i + n) = bm_bit y (8 * i + n)" by blast
    with n show "bit (x ! i) n = bit (y ! i) n" by (simp add: bm_bit_def)
  qed
qed

lemma marked_outside: "marked bm a n bm' \<Longrightarrow> k < bm_size bm \<Longrightarrow> bm_bit bm k \<Longrightarrow> bm_bit bm' k"
  by (simp add: marked_def)

lemma marked_inside: "marked bm a n bm' \<Longrightarrow> a + n \<le> bm_size bm \<Longrightarrow> k \<in> {a ..< a + n} \<Longrightarrow> bm_bit bm' k"
  by (simp add: marked_def)

lemma runs_inv_alloc:
  assumes inv: "runs_inv (s, L)" and pages: "0 < pages"
    and alloc: "pmm_alloc_nozero pages s = Inr (ret, s')"
  shows "runs_inv (s', if ret = 0 then L else insert (unat ret div 4096, unat pages) L)"
proof -
  from inv have i: "pmm_inv s" "bm_bit (bitmap s) 0" by (auto simp: runs_inv_def)
  from pmm_alloc_outcome [OF i(1) pages i(2)] alloc have
    s': "pmm_inv s'" "alloc_outcome pages s ret s'" "highest_page_index s' = highest_page_index s" by auto
  show ?thesis
  proof (cases "ret = 0")
    case True
    with s' inv show ?thesis by (auto simp: runs_inv_def alloc_outcome_def)
  next
    case False
    with s'(2) obtain a where a: "unat ret div 4096 = a" "0 < a" "a + unat pages \<le> unat (highest_page_index s)"
      "free_run (bitmap s) a (unat pages)" "marked (bitmap s) a (unat pages) (bitmap s')"
      by (auto simp: alloc_outcome_def)
    have size: "unat (highest_page_index s) \<le> bm_size (bitmap s)"
      using i(1) by (simp add: pmm_inv_def pmm_wf_def)
    have old: "bm_bit (bitmap s') k" if "bm_bit (bitmap s) k" "k < bm_size (bitmap s)" for k
      using marked_outside [OF a(5)] that by blast
    have "0 < bm_size (bitmap s)" using a(2,3) size by linarith
    then have z: "bm_bit (bitmap s') 0" using old i(2) by blast
    have held: "\<forall>r \<in> L. 0 < fst r \<and> fst r + snd r \<le> unat (highest_page_index s) \<and>
        (\<forall>k \<in> run_pages r. bm_bit (bitmap s) k)"
      using inv by (auto simp: runs_inv_def)
    then have "\<forall>r \<in> L. \<forall>k \<in> run_pages r. bm_bit (bitmap s') k"
      using old size by (force simp: run_pages_def)
    moreover have "\<forall>k \<in> run_pages (a, unat pages). bm_bit (bitmap s') k"
      using marked_inside [OF a(5)] a(3) size by (auto simp: run_pages_def)
    moreover have "run_pages r \<inter> run_pages (a, unat pages) = {} \<and> run_pages (a, unat pages) \<inter> run_pages r = {}"
      if "r \<in> L" for r
    proof -
      have "\<forall>k \<in> run_pages (a, unat pages). \<not> bm_bit (bitmap s) k"
        using a(4) by (simp add: free_run_def run_pages_def)
      with held that show ?thesis by blast
    qed
    ultimately show ?thesis
      using inv s'(1,3) z a(1-3) held False unfolding runs_inv_def by simp
  qed
qed

lemma runs_inv_free:
  assumes inv: "runs_inv (s, L)" and held: "(unat addr div 4096, unat pages) \<in> L"
    and addr: "unat addr mod 4096 = 0" and free: "pmm_free addr pages s = Inr s'"
  shows "runs_inv (s', L - {(unat addr div 4096, unat pages)})"
proof -
  let ?a = "unat addr div 4096" and ?n = "unat pages"
  from inv held have i: "pmm_inv s" "bm_bit (bitmap s) 0" "0 < ?a" "?a + ?n \<le> unat (highest_page_index s)"
    by (auto simp: runs_inv_def)
  have "unat addr = ?a * 4096" using addr by (metis add_0_right div_mult_mod_eq)
  from pmm_free_outcome [OF i(1,4) this] free have s': "pmm_inv s'"
    "\<forall>m < bm_size (bitmap s). bm_bit (bitmap s') m = (\<not> (?a \<le> m \<and> m < ?a + ?n) \<and> bm_bit (bitmap s) m)"
    "highest_page_index s' = highest_page_index s" by auto
  have size: "unat (highest_page_index s) \<le> bm_size (bitmap s)"
    using i(1) by (simp add: pmm_inv_def pmm_wf_def)
  then have "0 < bm_size (bitmap s)" using i(3,4) by linarith
  then have z: "bm_bit (bitmap s') 0" using s'(2) i(2,3) by simp
  have "bm_bit (bitmap s') k" if "r \<in> L" "r \<noteq> (?a, ?n)" "k \<in> run_pages r" for r k
  proof -
    have "run_pages r \<inter> run_pages (?a, ?n) = {}"
      using inv held that(1,2) unfolding runs_inv_def by blast
    then have "k \<notin> run_pages (?a, ?n)" using that(3) by blast
    moreover have "k < bm_size (bitmap s)" "bm_bit (bitmap s) k"
      using inv that size by (force simp: runs_inv_def run_pages_def)+
    ultimately show ?thesis using s'(2) by (auto simp: run_pages_def)
  qed
  with inv s' z show ?thesis by (auto simp: runs_inv_def)
qed

lemma pmm_step_inv: "pmm_step c d \<Longrightarrow> runs_inv c \<Longrightarrow> runs_inv d"
proof (induction rule: pmm_step.induct)
  case (alloc pages s ret s' L)
  from alloc(3,1,2) show ?case by (rule runs_inv_alloc)
next
  case (free addr pages L s s')
  from free(4,1,2,3) show ?case by (rule runs_inv_free)
qed

lemma pmm_steps_inv: "pmm_steps c d \<Longrightarrow> runs_inv c \<Longrightarrow> runs_inv d"
  by (induction rule: pmm_steps.induct) (auto intro: pmm_step_inv)

subsection \<open>Properties\<close>

text \<open>
  C6. An allocation of at least one page never faults and keeps the allocator well formed with its
  lock released. If it returns an address, that address starts a run of free pages below the top of
  memory, page zero excluded, and exactly the pages of the run become used. If it returns
  \<open>NULL\<close> the bitmap is unchanged and there is no free run of that size above the roving index
  and none below it; a run that crosses the index is not looked for. Either way
  \<open>used_pages\<close> grows by the number of pages asked for.
\<close>

theorem pmm_alloc_correct:
  assumes "pmm_inv s" and "0 < pages" and "bm_bit (bitmap s) 0"
  shows "\<exists>ret s'. pmm_alloc_nozero pages s = Inr (ret, s') \<and> pmm_inv s' \<and>
    alloc_outcome pages s ret s' \<and> used_pages s' = used_pages s + pages"
  using pmm_alloc_outcome [OF assms] by blast

definition pmm_example :: pmm where
  "pmm_example = pmm_static\<lparr>bitmap := [0x09], highest_page_index := 8\<rparr>"

theorem pmm_alloc_correct_witness:
  "pmm_inv pmm_example \<and> (0 :: u64) < 3 \<and> bm_bit (bitmap pmm_example) 0 \<and>
   (\<exists>ret s'. pmm_alloc_nozero 3 pmm_example = Inr (ret, s') \<and> pmm_inv s' \<and>
      alloc_outcome 3 pmm_example ret s' \<and> used_pages s' = used_pages pmm_example + 3)"
proof -
  have h: "pmm_inv pmm_example" "(0 :: u64) < 3" "bm_bit (bitmap pmm_example) 0"
    by (simp_all add: pmm_example_def pmm_inv_def pmm_wf_def pmm_static_def bm_size_def bm_bit_def)
  from h pmm_alloc_correct [OF h] show ?thesis by blast
qed

text \<open>
  C7. Freeing what an allocation returned restores the bitmap, byte for byte, and the count of used
  pages; the roving index is the only thing the pair of calls may change.
\<close>

theorem pmm_alloc_free_roundtrip:
  assumes "pmm_inv s" and "0 < pages" and "bm_bit (bitmap s) 0"
    and "pmm_alloc_nozero pages s = Inr (ret, s1)" and "ret \<noteq> 0"
  shows "\<exists>s2. pmm_free ret pages s1 = Inr s2 \<and> pmm_inv s2 \<and>
    bitmap s2 = bitmap s \<and> used_pages s2 = used_pages s"
proof -
  from pmm_alloc_outcome [OF assms(1-3)] assms(4) have s1: "pmm_inv s1" "alloc_outcome pages s ret s1"
    "used_pages s1 = used_pages s + pages" "highest_page_index s1 = highest_page_index s" by auto
  from s1(2) assms(5) obtain a where a: "unat ret = a * 4096"
    "a + unat pages \<le> unat (highest_page_index s)" "free_run (bitmap s) a (unat pages)"
    "marked (bitmap s) a (unat pages) (bitmap s1)" by (auto simp: alloc_outcome_def)
  from pmm_free_outcome [OF s1(1) _ a(1), of pages] a(2) s1(4) obtain s2 where
    s2: "pmm_free ret pages s1 = Inr s2" "pmm_inv s2" "used_pages s2 = used_pages s1 - pages"
      "bm_size (bitmap s2) = bm_size (bitmap s1)"
      "\<forall>m < bm_size (bitmap s1). bm_bit (bitmap s2) m =
         (\<not> (a \<le> m \<and> m < a + unat pages) \<and> bm_bit (bitmap s1) m)" by auto
  have "bitmap s2 = bitmap s"
    using a(3,4) s2(4,5) by (intro bitmap_eqI) (auto simp: marked_def free_run_def)
  with s2 s1(3) show ?thesis by simp
qed

lemma pmm_example_alloc:
  "pmm_alloc_nozero 3 pmm_example =
     Inr (0x4000, pmm_example\<lparr>bitmap := [0x79], last_used_index := 7, used_pages := 3\<rparr>)"
  by code_simp

theorem pmm_alloc_free_roundtrip_witness:
  "\<exists>s2. pmm_free 0x4000 3 (pmm_example\<lparr>bitmap := [0x79], last_used_index := 7, used_pages := 3\<rparr>) =
      Inr s2 \<and> pmm_inv s2 \<and> bitmap s2 = bitmap pmm_example \<and> used_pages s2 = used_pages pmm_example"
proof -
  have h: "pmm_inv pmm_example" "(0 :: u64) < 3" "bm_bit (bitmap pmm_example) 0" "(0x4000 :: u64) \<noteq> 0"
    by (simp_all add: pmm_example_def pmm_inv_def pmm_wf_def pmm_static_def bm_size_def bm_bit_def)
  show ?thesis by (rule pmm_alloc_free_roundtrip [OF h(1-3) pmm_example_alloc h(4)])
qed

text \<open>
  C8. Over any sequence of allocations and of releases of whole runs, the runs held at the same
  time share no page, and none of their pages is free.
\<close>

theorem pmm_no_double_allocation:
  assumes "pmm_steps (s, {}) (s', L)" and "pmm_inv s" and "bm_bit (bitmap s) 0"
  shows "(\<forall>r \<in> L. \<forall>q \<in> L. r \<noteq> q \<longrightarrow> run_pages r \<inter> run_pages q = {}) \<and>
    (\<forall>r \<in> L. \<forall>k \<in> run_pages r. bm_bit (bitmap s') k)"
proof -
  have "runs_inv (s, {})" using assms(2,3) by (simp add: runs_inv_def)
  with assms(1) have "runs_inv (s', L)" by (rule pmm_steps_inv)
  then show ?thesis by (auto simp: runs_inv_def)
qed

lemma pmm_example_alloc2:
  "pmm_alloc_nozero 2 (pmm_example\<lparr>bitmap := [0x79], last_used_index := 7, used_pages := 3\<rparr>) =
     Inr (0x1000, pmm_example\<lparr>bitmap := [0x7f], last_used_index := 3, used_pages := 5\<rparr>)"
  by code_simp

theorem pmm_no_double_allocation_witness:
  "pmm_steps (pmm_example, {})
     (pmm_example\<lparr>bitmap := [0x7f], last_used_index := 3, used_pages := 5\<rparr>, {(1, 2), (4, 3)}) \<and>
   run_pages (1, 2) \<inter> run_pages (4, 3) = {}"
proof -
  have "pmm_step (pmm_example, {})
      (pmm_example\<lparr>bitmap := [0x79], last_used_index := 7, used_pages := 3\<rparr>, {(4, 3)})"
    using pmm_step.alloc [OF _ pmm_example_alloc, of "{}"] by simp
  moreover have "pmm_step (pmm_example\<lparr>bitmap := [0x79], last_used_index := 7, used_pages := 3\<rparr>, {(4, 3)})
      (pmm_example\<lparr>bitmap := [0x7f], last_used_index := 3, used_pages := 5\<rparr>, {(1, 2), (4, 3)})"
    using pmm_step.alloc [OF _ pmm_example_alloc2, of "{(4, 3)}"] by simp
  ultimately have steps: "pmm_steps (pmm_example, {})
     (pmm_example\<lparr>bitmap := [0x7f], last_used_index := 3, used_pages := 5\<rparr>, {(1, 2), (4, 3)})"
    by (blast intro: pmm_steps.intros)
  have h: "pmm_inv pmm_example" "bm_bit (bitmap pmm_example) 0"
    by (simp_all add: pmm_example_def pmm_inv_def pmm_wf_def pmm_static_def bm_size_def bm_bit_def)
  from pmm_no_double_allocation [OF steps h] steps show ?thesis by simp
qed



text \<open>
  The bitmap that \<open>pmm_init\<close> sizes from \<open>highest_page_index / 8\<close> covers all pages below
  \<open>highest_page_index\<close> exactly when that number is a multiple of eight or the quotient is not a
  multiple of the page size. With 32769 pages it is one byte short and clearing the last page of
  the memory map leaves the array.
\<close>

theorem pmm_bitmap_one_byte_short:
  "(bitmap_covers h \<longleftrightarrow> unat h mod 8 = 0 \<or> unat h div 8 mod 4096 \<noteq> 0) \<and>
   pmm_init [\<lparr>me_base = 0x1000, me_length = 0x2000, me_type = LIMINE_MEMMAP_USABLE\<rparr>,
             \<lparr>me_base = 0x8000000, me_length = 0x1000, me_type = LIMINE_MEMMAP_USABLE\<rparr>] pmm_static =
     Inl OutOfBounds"
proof (rule conjI [OF bitmap_covers_iff])
  show "pmm_init [\<lparr>me_base = 0x1000, me_length = 0x2000, me_type = LIMINE_MEMMAP_USABLE\<rparr>,
             \<lparr>me_base = 0x8000000, me_length = 0x1000, me_type = LIMINE_MEMMAP_USABLE\<rparr>] pmm_static =
     Inl OutOfBounds"
    by (simp add: pmm_init_def pmm_static_def MAX_u64_def DIV_ROUNDUP_def PAGE_SIZE_def
        pmm_bitmap_size_def ALIGN_UP_def clear_entry.simps bitmap_reset_def arr_get_def arr_set_def)
qed

theorem pmm_bitmap_one_byte_short_witness: "\<not> bitmap_covers 32769 \<and> bitmap_covers 32776"
  using pmm_bitmap_one_byte_short [of 32769] pmm_bitmap_one_byte_short [of 32776] by simp

end
