(* ===== verification/Lyre_Slab.thy ===== *)
theory Lyre_Slab
  imports Lyre_Pmm
begin

section \<open>The slab allocator (mm/slab.c, lib/alloc.k.h)\<close>

text \<open>
  The kernel heap: ten slabs of fixed entry size, whose free entries form a linked list threaded
  through the entries themselves, and whole pages with a metadata page in front for anything
  larger. The state is the array of slabs, the memory and the page allocator underneath. Two
  addresses are fixed by the boot environment and the linker and are parameters: \<open>hh\<close>, the
  offset of the direct map, and \<open>sb\<close>, the address of the \<open>slabs\<close> array, whose elements are
  32 bytes long.
\<close>

subsection \<open>State\<close>

record slab =
  slab_lock :: spinlock
  first_free :: u64
  ent_size :: u64

record heap =
  slabs :: "slab list"
  hmem :: mem
  hpmm :: pmm

definition slab_zero :: slab where
  "slab_zero = \<lparr>slab_lock = SPINLOCK_INIT, first_free = 0, ent_size = 0\<rparr>"

text \<open>The address \<open>&slabs[i]\<close>, and the index of such an address.\<close>

definition slab_ptr :: "u64 \<Rightarrow> nat \<Rightarrow> u64" where
  "slab_ptr sb i = sb + 32 * of_nat i"

definition slab_index :: "u64 \<Rightarrow> u64 \<Rightarrow> nat" where
  "slab_index sb p = unat ((p - sb) div 32)"

definition put_slab :: "heap \<Rightarrow> nat \<Rightarrow> slab \<Rightarrow> heap" where
  "put_slab h i s = h\<lparr>slabs := (slabs h)[i := s]\<rparr>"

subsection \<open>Operations\<close>

fun slab_for_from :: "nat \<Rightarrow> slab list \<Rightarrow> u64 \<Rightarrow> nat option" where
  "slab_for_from i [] sz = None"
| "slab_for_from i (s # ss) sz = (if ent_size s \<ge> sz then Some i else slab_for_from (Suc i) ss sz)"

definition slab_for :: "heap \<Rightarrow> u64 \<Rightarrow> nat option" where
  "slab_for h sz = slab_for_from 0 (slabs h) sz"

definition header_offset :: "u64 \<Rightarrow> u64" where
  "header_offset esz = ALIGN_UP 8 esz"

text \<open>The loop that links the entries of a fresh page, \<open>arr\<close> being the first of them.\<close>

definition link_entries :: "u64 \<Rightarrow> u64 \<Rightarrow> u64 \<Rightarrow> mem \<Rightarrow> mem" where
  "link_entries arr mx fct m =
     (let m = for_pure (\<lambda>i m. store64 m (arr + 8 * (i * fct)) (arr + 8 * ((i + 1) * fct))) 0 mx m
      in store64 m (arr + 8 * (mx * fct)) 0)"

definition create_slab :: "u64 \<Rightarrow> u64 \<Rightarrow> nat \<Rightarrow> u64 \<Rightarrow> heap \<Rightarrow> heap result" where
  "create_slab hh sb i esz h =
     rbind (arr_get (slabs h) i) (\<lambda>s.
     rbind (pmm_alloc_nozero 1 (hpmm h)) (\<lambda>(ret, p).
       let page = ret + hh;
           offset = header_offset esz;
           available_size = PAGE_SIZE - offset;
           m = store64 (hmem h) page (slab_ptr sb i);
           arr = page + offset;
           mx = available_size div esz - 1;
           fct = esz div 8
       in Inr (put_slab (h\<lparr>hmem := link_entries arr mx fct m, hpmm := p\<rparr>) i
                 \<lparr>slab_lock = SPINLOCK_INIT, first_free = arr, ent_size = esz\<rparr>)))"

text \<open>
  The part of \<open>alloc_from_slab\<close> after the refill: unlink the first entry, clear it, release.
  \<open>create_slab\<close> also reinitialises the lock, which \<open>alloc_from_slab\<close> holds at that point:
  from there to the end of the function the lock is free.
\<close>

definition pop_free :: "nat \<Rightarrow> heap \<Rightarrow> (u64 \<times> heap) result" where
  "pop_free i h =
     rbind (arr_get (slabs h) i) (\<lambda>s.
       let old_free = first_free s;
           s = s\<lparr>first_free := load64 (hmem h) old_free\<rparr>;
           h = h\<lparr>hmem := memset (hmem h) old_free 0 (ent_size s)\<rparr>
       in Inr (old_free, put_slab h i (s\<lparr>slab_lock := spinlock_release (slab_lock s)\<rparr>)))"

definition alloc_from_slab :: "u64 \<Rightarrow> u64 \<Rightarrow> nat \<Rightarrow> heap \<Rightarrow> (u64 \<times> heap) result" where
  "alloc_from_slab hh sb i h =
     rbind (arr_get (slabs h) i) (\<lambda>s.
     rbind (spinlock_acquire ''alloc_from_slab'' (slab_lock s)) (\<lambda>l.
     let h = put_slab h i (s\<lparr>slab_lock := l\<rparr>)
     in rbind (if first_free s = 0 then create_slab hh sb i (ent_size s) h else Inr h) (pop_free i)))"

definition free_in_slab :: "nat \<Rightarrow> u64 \<Rightarrow> heap \<Rightarrow> heap result" where
  "free_in_slab i addr h =
     rbind (arr_get (slabs h) i) (\<lambda>s.
     rbind (spinlock_acquire ''free_in_slab'' (slab_lock s)) (\<lambda>l.
     let s = s\<lparr>slab_lock := l\<rparr>
     in if addr = 0 then Inr (put_slab h i (s\<lparr>slab_lock := spinlock_release l\<rparr>))
        else Inr (put_slab (h\<lparr>hmem := store64 (hmem h) addr (first_free s)\<rparr>) i
                    (s\<lparr>first_free := addr, slab_lock := spinlock_release l\<rparr>))))"

fun create_slabs :: "u64 \<Rightarrow> u64 \<Rightarrow> nat \<Rightarrow> u64 list \<Rightarrow> heap \<Rightarrow> heap result" where
  "create_slabs hh sb i [] h = Inr h"
| "create_slabs hh sb i (e # es) h = rbind (create_slab hh sb i e h) (create_slabs hh sb (Suc i) es)"

definition slab_sizes :: "u64 list" where
  "slab_sizes = [8, 16, 24, 32, 48, 64, 128, 256, 512, 1024]"

definition slab_init :: "u64 \<Rightarrow> u64 \<Rightarrow> heap \<Rightarrow> heap result" where
  "slab_init hh sb h = create_slabs hh sb 0 slab_sizes h"

text \<open>The metadata of a large allocation: \<open>pages\<close> in its first word, \<open>size\<close> in its second.\<close>

definition slab_alloc :: "u64 \<Rightarrow> u64 \<Rightarrow> u64 \<Rightarrow> heap \<Rightarrow> (u64 \<times> heap) result" where
  "slab_alloc hh sb sz h =
     (case slab_for h sz of
        Some i \<Rightarrow> alloc_from_slab hh sb i h
      | None \<Rightarrow>
          let page_count = DIV_ROUNDUP sz PAGE_SIZE
          in rbind (pmm_alloc hh (page_count + 1) (hpmm h, hmem h)) (\<lambda>(ret, p, m).
             let h = h\<lparr>hpmm := p, hmem := m\<rparr>
             in if ret = 0 then Inr (0, h)
                else let ret = ret + hh;
                         m = store64 m ret page_count;
                         m = store64 m (ret + 8) sz
                     in Inr (ret + PAGE_SIZE, h\<lparr>hmem := m\<rparr>)))"

definition slab_free :: "u64 \<Rightarrow> u64 \<Rightarrow> u64 \<Rightarrow> heap \<Rightarrow> heap result" where
  "slab_free hh sb addr h =
     (if addr = 0 then Inr h
      else if addr AND 0xfff = 0 then
        (let metadata = addr - PAGE_SIZE
         in rbind (pmm_free (metadata - hh) (load64 (hmem h) metadata + 1) (hpmm h)) (\<lambda>p.
              Inr (h\<lparr>hpmm := p\<rparr>)))
      else free_in_slab (slab_index sb (load64 (hmem h) (addr AND NOT 0xfff))) addr h)"

definition slab_realloc :: "u64 \<Rightarrow> u64 \<Rightarrow> u64 \<Rightarrow> u64 \<Rightarrow> heap \<Rightarrow> (u64 \<times> heap) result" where
  "slab_realloc hh sb addr new_size h =
     (if addr = 0 then slab_alloc hh sb new_size h
      else if addr AND 0xfff = 0 then
        (let metadata = addr - PAGE_SIZE;
             sz = load64 (hmem h) (metadata + 8)
         in if DIV_ROUNDUP sz PAGE_SIZE = DIV_ROUNDUP new_size PAGE_SIZE then
              Inr (addr, h\<lparr>hmem := store64 (hmem h) (metadata + 8) new_size\<rparr>)
            else
              rbind (slab_alloc hh sb new_size h) (\<lambda>(new_addr, h).
                if new_addr = 0 then Inr (0, h)
                else
                  (let sz = load64 (hmem h) (metadata + 8);
                       h = h\<lparr>hmem := memcpy (hmem h) new_addr addr (if sz > new_size then new_size else sz)\<rparr>
                   in rbind (slab_free hh sb addr h) (\<lambda>h. Inr (new_addr, h)))))
      else
        (let i = slab_index sb (load64 (hmem h) (addr AND NOT 0xfff))
         in rbind (arr_get (slabs h) i) (\<lambda>s.
            if new_size > ent_size s then
              rbind (slab_alloc hh sb new_size h) (\<lambda>(new_addr, h).
                if new_addr = 0 then Inr (0, h)
                else rbind (free_in_slab i addr (h\<lparr>hmem := memcpy (hmem h) new_addr addr (ent_size s)\<rparr>))
                       (\<lambda>h. Inr (new_addr, h)))
            else Inr (addr, h))))"

subsection \<open>Where entries lie\<close>

lemma put_slab_sel [simp]:
  "slabs (put_slab h i s) = (slabs h)[i := s]"
  "hmem (put_slab h i s) = hmem h"
  "hpmm (put_slab h i s) = hpmm h"
  by (simp_all add: put_slab_def)

text \<open>The offset of a heap address in the direct map.\<close>

definition off :: "u64 \<Rightarrow> u64 \<Rightarrow> nat" where
  "off hh a = unat (a - hh)"

text \<open>The entries of a slab page, from the first one on.\<close>

definition entries :: "u64 \<Rightarrow> u64 \<Rightarrow> nat \<Rightarrow> nat \<Rightarrow> u64 list" where
  "entries arr esz k n = map (\<lambda>j. arr + of_nat j * esz) [k..<n]"

definition entry_count :: "u64 \<Rightarrow> nat" where
  "entry_count esz = unat ((PAGE_SIZE - header_offset esz) div esz)"

lemma far_of_off:
  assumes "off hh a + unat e \<le> off hh b" and "off hh b + unat e \<le> 18446744073709551616"
  shows "e \<le> b - a \<and> e \<le> a - b"
proof -
  have ba: "b - a = (b - hh) - (a - hh)" and ab: "a - b = (a - hh) - (b - hh)" by simp_all
  have "unat (b - a) = off hh b - off hh a"
    using assms(1) unat_sub_small [of "a - hh" "b - hh"] unfolding ba off_def by linarith
  moreover have "unat (a - b) = (if off hh b \<le> off hh a then off hh a - off hh b
      else off hh a + 18446744073709551616 - off hh b)"
    unfolding ab off_def using unat_sub_if' [of "a - hh" "b - hh"] by simp
  ultimately show ?thesis
    using assms by (cases "off hh b \<le> off hh a") (auto simp: word_le_nat_alt)
qed

lemma off_add:
  "off hh a + unat x < 18446744073709551616 \<Longrightarrow> off hh (a + x) = off hh a + unat x"
proof -
  assume "off hh a + unat x < 18446744073709551616"
  moreover have "a + x - hh = (a - hh) + x" by simp
  ultimately show ?thesis by (simp only: off_def unat_add_small)
qed

lemma off_entry:
  assumes "off hh arr + n * unat esz \<le> 18446744073709551616" and "j < n" and "0 < unat esz"
  shows "off hh (arr + of_nat j * esz) = off hh arr + j * unat esz"
proof -
  have le: "Suc j * unat esz \<le> n * unat esz" using assms(2) by (intro mult_le_mono1) simp
  then have j: "j * unat esz < 18446744073709551616" using assms(1,3) by simp
  have "j * 1 \<le> j * unat esz" using assms(3) by (intro mult_le_mono2) simp
  with j have "unat (of_nat j :: u64) = j" by (intro unat_of_nat_small) linarith
  with j have "unat (of_nat j * esz) = j * unat esz" by (simp add: unat_mult_small)
  with le assms(1,3) show ?thesis by (simp add: off_add)
qed

subsection \<open>Linking a page\<close>

lemma entry_far:
  assumes bound: "off hh arr + n * unat esz \<le> 18446744073709551616" and esz: "8 \<le> unat esz"
    and "j < n" and "k < n" and "j \<noteq> k"
  shows "esz \<le> (arr + of_nat k * esz) - (arr + of_nat j * esz)"
proof -
  have pos: "0 < unat esz" using esz by simp
  note o = off_entry [OF bound \<open>j < n\<close> pos] off_entry [OF bound \<open>k < n\<close> pos]
  have m: "Suc i * unat esz \<le> n * unat esz" if "i < n" for i
    using that by (intro mult_le_mono1) simp
  show ?thesis
  proof (cases "j < k")
    case True
    then have "Suc j * unat esz \<le> k * unat esz" by (intro mult_le_mono1) simp
    then show ?thesis
      using far_of_off [of hh "arr + of_nat j * esz" esz "arr + of_nat k * esz"] o m [OF \<open>k < n\<close>] bound by simp
  next
    case False
    with \<open>j \<noteq> k\<close> have "Suc k * unat esz \<le> j * unat esz" by (intro mult_le_mono1) simp
    then show ?thesis
      using far_of_off [of hh "arr + of_nat k * esz" esz "arr + of_nat j * esz"] o m [OF \<open>j < n\<close>] bound by simp
  qed
qed

text \<open>After the linking loop every entry holds the address of the next and the last one null.\<close>

lemma link_entries_words:
  assumes bound: "off hh arr + n * unat esz \<le> 18446744073709551616"
    and esz: "8 \<le> unat esz" and fct: "8 * fct = esz" and n: "n = Suc (unat mx)"
  shows "k < unat mx \<Longrightarrow> load64 (link_entries arr mx fct m) (arr + of_nat k * esz) = arr + of_nat (Suc k) * esz"
    and "load64 (link_entries arr mx fct m) (arr + mx * esz) = 0"
proof -
  let ?e = "\<lambda>k. arr + of_nat k * esz"
  let ?m = "for_pure (\<lambda>i m. store64 m (arr + 8 * (i * fct)) (arr + 8 * ((i + 1) * fct))) 0 mx m"
  have idx: "8 * (i * fct) = i * esz" for i by (simp flip: fct)
  have far: "8 \<le> ?e k - ?e j" if "j < n" "k < n" "j \<noteq> k" for j k
    using entry_far [OF bound esz that] esz by (simp add: word_le_nat_alt)
  have loop: "\<forall>k < unat mx. load64 ?m (?e k) = ?e (Suc k)"
  proof (rule for_pure_rule [where I = "\<lambda>i m'. \<forall>k < unat i. load64 m' (?e k) = ?e (Suc k)"])
    fix i m'
    assume i: "i < mx" and I: "\<forall>k < unat i. load64 m' (?e k) = ?e (Suc k)"
    have i1: "unat (i + 1) = Suc (unat i)" by (rule unat_Suc_less [OF i])
    have un: "unat i < n" using i n by (simp add: word_less_nat_alt)
    have here: "arr + i * esz = ?e (unat i)" "arr + (i + 1) * esz = ?e (Suc (unat i))"
      by (simp_all add: add.commute)
    show "\<forall>k < unat (i + 1). load64 (store64 m' (arr + 8 * (i * fct)) (arr + 8 * ((i + 1) * fct))) (?e k) = ?e (Suc k)"
      unfolding idx here i1
    proof (intro allI impI)
      fix k
      assume "k < Suc (unat i)"
      then consider "k = unat i" | "k < unat i" by linarith
      then show "load64 (store64 m' (?e (unat i)) (?e (Suc (unat i)))) (?e k) = ?e (Suc k)"
      proof cases
        case 1
        then show ?thesis by (simp add: bytes.ld_same del: of_nat_unat of_nat_Suc)
      next
        case 2
        with un far [of "unat i" k] far [of k "unat i"] I show ?thesis
          by (simp add: bytes.ld_other del: of_nat_unat of_nat_Suc)
      qed
    qed
  qed simp_all
  have mx: "arr + mx * esz = ?e (unat mx)" by simp
  show "load64 (link_entries arr mx fct m) (arr + mx * esz) = 0"
    by (simp add: link_entries_def Let_def idx bytes.ld_same)
  assume k: "k < unat mx"
  have "8 \<le> ?e k - ?e (unat mx)" "8 \<le> ?e (unat mx) - ?e k"
    by (rule far; use n k in simp)+
  with loop k show "load64 (link_entries arr mx fct m) (?e k) = ?e (Suc k)"
    unfolding link_entries_def Let_def idx mx by (simp add: bytes.ld_other del: of_nat_unat of_nat_Suc)
qed

lemma link_entries_chain:
  assumes bound: "off hh arr + n * unat esz \<le> 18446744073709551616"
    and esz: "8 \<le> unat esz" and fct: "8 * fct = esz" and n: "n = Suc (unat mx)"
    and nz: "\<And>j. j < n \<Longrightarrow> arr + of_nat j * esz \<noteq> 0"
  shows "bytes.chain (link_entries arr mx fct m) arr (entries arr esz 0 n)"
proof -
  note w = link_entries_words [OF bound esz fct n, where m = m]
  have "bytes.chain (link_entries arr mx fct m) (arr + of_nat k * esz) (entries arr esz k n)"
    if "k \<le> unat mx" for k
    using that
  proof (induction "unat mx - k" arbitrary: k)
    case 0
    then have "k = unat mx" by simp
    then show ?case using w(2) nz [of k] n by (simp add: entries_def upt_rec [of k])
  next
    case (Suc d)
    then have k: "k < unat mx" by simp
    have "d = unat mx - Suc k" "Suc k \<le> unat mx" using Suc.hyps(2) by simp_all
    from Suc.hyps(1) [OF this] w(1) [OF k] nz [of k] k n show ?case
      by (simp add: entries_def upt_conv_Cons [of k] del: of_nat_Suc)
  qed
  from this [of 0] show ?thesis by simp
qed

text \<open>The writes of the linking loop stay inside the entries.\<close>

lemma store64_frame: "8 \<le> b - a \<Longrightarrow> store64 m a v b = m b"
  by (simp add: store64_def leD)

lemma link_entries_frame:
  assumes bound: "off hh arr + n * unat esz \<le> 18446744073709551616"
    and esz: "8 \<le> unat esz" and fct: "8 * fct = esz" and n: "n = Suc (unat mx)"
    and b: "off hh b < off hh arr \<or> off hh arr + n * unat esz \<le> off hh b"
  shows "link_entries arr mx fct m b = m b"
proof -
  have pos: "0 < unat esz" using esz by simp
  have far: "8 \<le> b - (arr + of_nat j * esz)" if "j < n" for j
  proof -
    have o: "off hh (arr + of_nat j * esz) = off hh arr + j * unat esz"
      using off_entry [OF bound that pos] .
    have m: "Suc j * unat esz \<le> n * unat esz" using that by (intro mult_le_mono1) simp
    have d: "b - (arr + of_nat j * esz) = (b - hh) - (arr + of_nat j * esz - hh)" by simp
    have "unat (b - (arr + of_nat j * esz)) =
        (if off hh arr + j * unat esz \<le> off hh b then off hh b - (off hh arr + j * unat esz)
         else off hh b + 18446744073709551616 - (off hh arr + j * unat esz))"
      unfolding d using unat_sub_if' [of "b - hh" "arr + of_nat j * esz - hh"] o by (simp add: off_def)
    then have "8 \<le> unat (b - (arr + of_nat j * esz))" using b m bound esz by (auto split: if_splits)
    then show ?thesis by (simp add: word_le_nat_alt)
  qed
  have idx: "8 * (i * fct) = i * esz" for i by (simp flip: fct)
  have "for_pure (\<lambda>i m. store64 m (arr + 8 * (i * fct)) (arr + 8 * ((i + 1) * fct))) 0 mx m b = m b"
  proof (rule for_pure_rule [where I = "\<lambda>i m'. m' b = m b"])
    fix i m'
    assume "i < mx" and "m' b = m b"
    then show "store64 m' (arr + 8 * (i * fct)) (arr + 8 * ((i + 1) * fct)) b = m b"
      using far [of "unat i"] n by (simp add: idx store64_frame word_less_nat_alt)
  qed simp_all
  with far [of "unat mx"] n show ?thesis by (simp add: link_entries_def idx store64_frame)
qed

subsection \<open>The sizes in use\<close>

text \<open>For each of the ten sizes: the entries are whole words, and they fill the page after the header.\<close>

lemma slab_size_facts:
  assumes "esz \<in> set slab_sizes"
  shows "8 \<le> unat esz" and "8 * (esz div 8) = esz"
    and "entry_count esz = Suc (unat ((PAGE_SIZE - header_offset esz) div esz - 1))"
    and "unat (header_offset esz) + entry_count esz * unat esz \<le> 4096"
    and "8 \<le> unat (header_offset esz)" and "0 < entry_count esz" and "unat (header_offset esz) < 4096"
  using assms by (auto simp: slab_sizes_def entry_count_def header_offset_def ALIGN_UP_def DIV_ROUNDUP_def PAGE_SIZE_def)

subsection \<open>Invariant of a slab\<close>

text \<open>
  An entry lies inside one page that the page allocator has marked as used, behind the start of the
  page. Two entries are apart when their bytes do not overlap.
\<close>

definition placed :: "u64 \<Rightarrow> pmm \<Rightarrow> u64 \<Rightarrow> u64 \<Rightarrow> bool" where
  "placed hh p esz a \<longleftrightarrow> (\<exists>k < unat (highest_page_index p). bm_bit (bitmap p) k \<and>
     k * 4096 < off hh a \<and> off hh a + unat esz \<le> (k + 1) * 4096)"

definition apart :: "u64 \<Rightarrow> u64 \<Rightarrow> u64 \<Rightarrow> u64 \<Rightarrow> bool" where
  "apart hh esz a b \<longleftrightarrow> off hh a + unat esz \<le> off hh b \<or> off hh b + unat esz \<le> off hh a"

text \<open>
  The slab with number \<open>i\<close> has the free list \<open>fl\<close>, and its clients hold the entries \<open>A\<close>.
\<close>

definition slab_wf :: "u64 \<Rightarrow> nat \<Rightarrow> heap \<Rightarrow> u64 list \<Rightarrow> u64 set \<Rightarrow> bool" where
  "slab_wf hh i h fl A \<longleftrightarrow> i < length (slabs h) \<and> ent_size (slabs h ! i) \<in> set slab_sizes \<and>
     bytes.chain (hmem h) (first_free (slabs h ! i)) fl \<and> distinct fl \<and> A \<inter> set fl = {} \<and>
     pmm_inv (hpmm h) \<and> bm_bit (bitmap (hpmm h)) 0 \<and>
     unat hh + unat (highest_page_index (hpmm h)) * 4096 \<le> 18446744073709551616 \<and>
     (\<forall>a \<in> A \<union> set fl. placed hh (hpmm h) (ent_size (slabs h ! i)) a) \<and>
     (\<forall>a \<in> A \<union> set fl. \<forall>b \<in> A \<union> set fl. a \<noteq> b \<longrightarrow> apart hh (ent_size (slabs h ! i)) a b)"

definition slab_inv :: "u64 \<Rightarrow> nat \<Rightarrow> heap \<Rightarrow> u64 list \<Rightarrow> u64 set \<Rightarrow> bool" where
  "slab_inv hh i h fl A \<longleftrightarrow> slab_wf hh i h fl A \<and> unlocked (slab_lock (slabs h ! i))"

lemma placed_bound:
  assumes "placed hh p esz a" and "pmm_inv p"
  shows "off hh a + unat esz \<le> 18446744073709551616"
proof -
  from assms(1) obtain k where k: "k < unat (highest_page_index p)" "off hh a + unat esz \<le> (k + 1) * 4096"
    by (auto simp: placed_def)
  have "(k + 1) * 4096 \<le> 4503599627370496 * 4096"
    using k(1) assms(2) by (intro mult_le_mono1) (simp add: pmm_inv_def pmm_wf_def)
  with k(2) show ?thesis by simp
qed

lemma apart_far:
  assumes "apart hh esz a b" and "placed hh p esz a" and "placed hh p esz b" and "pmm_inv p"
  shows "esz \<le> b - a" and "esz \<le> a - b"
  using assms(1) placed_bound [OF assms(2,4)] placed_bound [OF assms(3,4)]
    far_of_off [of hh a esz b] far_of_off [of hh b esz a] by (auto simp: apart_def)

lemma slab_wf_far:
  assumes "slab_wf hh i h fl A" and "a \<in> A \<union> set fl" and "b \<in> A \<union> set fl" and "a \<noteq> b"
  shows "ent_size (slabs h ! i) \<le> b - a" and "8 \<le> b - a"
proof -
  from assms have "apart hh (ent_size (slabs h ! i)) a b"
    "placed hh (hpmm h) (ent_size (slabs h ! i)) a" "placed hh (hpmm h) (ent_size (slabs h ! i)) b"
    "pmm_inv (hpmm h)" "ent_size (slabs h ! i) \<in> set slab_sizes" unfolding slab_wf_def by blast+
  then show e: "ent_size (slabs h ! i) \<le> b - a" using apart_far(1) by blast
  show "8 \<le> b - a"
    using slab_size_facts(1) [OF \<open>ent_size (slabs h ! i) \<in> set slab_sizes\<close>] e by (simp add: word_le_nat_alt)
qed

lemma chain_nonnull: "bytes.chain m p fl \<Longrightarrow> a \<in> set fl \<Longrightarrow> a \<noteq> 0"
  by (induction fl arbitrary: p) auto

lemma pop_free_spec:
  assumes "slab_wf hh i h (a # fl) A"
  shows "\<exists>h'. pop_free i h = Inr (a, h') \<and> slab_inv hh i h' fl (insert a A) \<and>
    hpmm h' = hpmm h \<and> ent_size (slabs h' ! i) = ent_size (slabs h ! i) \<and>
    hmem h' = memset (hmem h) a 0 (ent_size (slabs h ! i))"
proof -
  let ?s = "slabs h ! i" and ?e = "ent_size (slabs h ! i)"
  let ?m = "memset (hmem h) a 0 ?e"
  define h' where "h' = put_slab (h\<lparr>hmem := ?m\<rparr>) i
    (?s\<lparr>first_free := load64 (hmem h) a, slab_lock := spinlock_release (slab_lock ?s)\<rparr>)"
  from assms have wf: "i < length (slabs h)" "bytes.chain (hmem h) (first_free ?s) (a # fl)" "distinct (a # fl)"
    "A \<inter> set (a # fl) = {}" unfolding slab_wf_def by blast+
  have "load64 ?m b = load64 (hmem h) b" if "b \<in> set fl" for b
    by (rule load64_memset_other) (use slab_wf_far [OF assms, of a b] slab_wf_far [OF assms, of b a] that wf(3) in auto)
  then have ch: "bytes.chain ?m (load64 (hmem h) a) fl"
    using wf(2) bytes.chain_frame [of fl ?m "hmem h"] by simp
  have "slab_inv hh i h' fl (insert a A)"
    using assms ch wf(1,3) unfolding slab_inv_def slab_wf_def h'_def put_slab_def by auto
  moreover have "pop_free i h = Inr (a, h')"
    using wf(1,2) by (simp add: pop_free_def h'_def Let_def)
  ultimately show ?thesis using wf(1) by (auto simp: h'_def)
qed

lemma slab_wf_lock:
  "i < length (slabs h) \<Longrightarrow> slab_wf hh i (put_slab h i ((slabs h ! i)\<lparr>slab_lock := l\<rparr>)) fl A = slab_wf hh i h fl A"
  by (simp add: slab_wf_def put_slab_def)

lemma alloc_from_slab_take:
  assumes "slab_inv hh i h (a # fl) A"
  shows "\<exists>h'. alloc_from_slab hh sb i h = Inr (a, h') \<and> slab_inv hh i h' fl (insert a A) \<and>
    hpmm h' = hpmm h \<and> ent_size (slabs h' ! i) = ent_size (slabs h ! i) \<and>
    hmem h' = memset (hmem h) a 0 (ent_size (slabs h ! i))"
proof -
  let ?s = "slabs h ! i"
  from assms have len: "i < length (slabs h)" and u: "unlocked (slab_lock ?s)" and nz: "first_free ?s \<noteq> 0"
    by (auto simp: slab_inv_def slab_wf_def)
  let ?h = "put_slab h i (?s\<lparr>slab_lock := (slab_lock ?s)\<lparr>lock_word := 1, last_acquirer := ''alloc_from_slab''\<rparr>\<rparr>)"
  have "slab_wf hh i ?h (a # fl) A" using assms len slab_wf_lock by (simp add: slab_inv_def)
  from pop_free_spec [OF this] len u nz show ?thesis
    by (simp add: alloc_from_slab_def klock Let_def)
qed

lemma free_in_slab_spec:
  assumes inv: "slab_inv hh i h fl A" and a: "a \<in> A" "a \<noteq> 0"
  shows "\<exists>h'. free_in_slab i a h = Inr h' \<and> slab_inv hh i h' (a # fl) (A - {a}) \<and> hpmm h' = hpmm h"
proof -
  let ?s = "slabs h ! i"
  define h' where "h' = put_slab (h\<lparr>hmem := store64 (hmem h) a (first_free ?s)\<rparr>) i
    (?s\<lparr>first_free := a, slab_lock :=
        spinlock_release ((slab_lock ?s)\<lparr>lock_word := 1, last_acquirer := ''free_in_slab''\<rparr>)\<rparr>)"
  from inv have wf: "slab_wf hh i h fl A" and u: "unlocked (slab_lock ?s)" by (auto simp: slab_inv_def)
  then have w: "i < length (slabs h)" "bytes.chain (hmem h) (first_free ?s) fl" "A \<inter> set fl = {}" "distinct fl"
    unfolding slab_wf_def by blast+
  have "a \<notin> set fl" using w(3) a(1) by blast
  then have "8 \<le> b - a \<and> 8 \<le> a - b" if "b \<in> set fl" for b
    using slab_wf_far(2) [OF wf, of a b] slab_wf_far(2) [OF wf, of b a] a(1) that by blast
  from bytes.chain_push [OF w(2) a(2) this]
  have "bytes.chain (store64 (hmem h) a (first_free ?s)) a (a # fl)" .
  then have "slab_inv hh i h' (a # fl) (A - {a})"
    using wf w a \<open>a \<notin> set fl\<close> unfolding slab_inv_def slab_wf_def h'_def put_slab_def by auto
  moreover have "free_in_slab i a h = Inr h'"
    using w(1) u a(2) by (simp add: free_in_slab_def h'_def klock Let_def)
  ultimately show ?thesis by (auto simp: h'_def put_slab_def)
qed

subsection \<open>Refilling a slab\<close>

lemma off_direct: "off hh (x + hh) = unat x"
  by (simp add: off_def)

lemma addr_nonzero:
  assumes "0 < off hh x" and "unat hh + off hh x < 18446744073709551616"
  shows "x \<noteq> 0"
proof -
  have "unat (hh + (x - hh)) = unat hh + off hh x"
    using assms(2) unat_add_small [of hh "x - hh"] by (simp only: off_def)
  with assms(1) show ?thesis by auto
qed

text \<open>The entries of a freshly linked page \<open>k\<close>.\<close>

lemma fresh_page:
  assumes esz: "esz \<in> set slab_sizes" and arr: "off hh arr = k * 4096 + unat (header_offset esz)"
    and k: "k < 4503599627370496" and x: "x \<in> set (entries arr esz 0 (entry_count esz))"
  obtains j where "j < entry_count esz" "x = arr + of_nat j * esz"
    "off hh x = k * 4096 + unat (header_offset esz) + j * unat esz" "k * 4096 < off hh x"
    "off hh x + unat esz \<le> (k + 1) * 4096"
proof -
  note f = slab_size_facts [OF esz]
  from x obtain j where j: "j < entry_count esz" "x = arr + of_nat j * esz" by (auto simp: entries_def)
  have "k * 4096 + 4096 \<le> 18446744073709551616" using k by simp
  then have "off hh arr + entry_count esz * unat esz \<le> 18446744073709551616" using arr f(4) by linarith
  from off_entry [OF this j(1)] f(1) arr
  have o: "off hh x = k * 4096 + unat (header_offset esz) + j * unat esz" by (simp add: j(2))
  have "Suc j * unat esz \<le> entry_count esz * unat esz" using j(1) by (intro mult_le_mono1) simp
  with that [OF j o] o f(4,5) show thesis by simp
qed

lemma fresh_apart:
  assumes esz: "esz \<in> set slab_sizes" and arr: "off hh arr = k * 4096 + unat (header_offset esz)"
    and k: "k < 4503599627370496" and x: "x \<in> set (entries arr esz 0 (entry_count esz))"
    and y: "y \<in> set (entries arr esz 0 (entry_count esz))" and neq: "x \<noteq> y"
  shows "apart hh esz x y"
proof -
  obtain j where j: "x = arr + of_nat j * esz" "off hh x = k * 4096 + unat (header_offset esz) + j * unat esz"
    using fresh_page [OF esz arr k x] by metis
  obtain l where l: "y = arr + of_nat l * esz" "off hh y = k * 4096 + unat (header_offset esz) + l * unat esz"
    using fresh_page [OF esz arr k y] by metis
  from neq j(1) l(1) have "j \<noteq> l" by auto
  then consider "Suc j * unat esz \<le> l * unat esz" | "Suc l * unat esz \<le> j * unat esz"
    using mult_le_mono1 [of "Suc j" l "unat esz"] mult_le_mono1 [of "Suc l" j "unat esz"] by linarith
  then show ?thesis by cases (auto simp: apart_def j(2) l(2))
qed

lemma placed_marked:
  assumes "placed hh p esz a" and "marked (bitmap p) k n (bitmap q)" and "pmm_inv p"
    and "highest_page_index q = highest_page_index p"
  shows "placed hh q esz a"
  using assms unfolding placed_def pmm_inv_def pmm_wf_def marked_def by fastforce

lemma apart_pages:
  assumes "k * 4096 < off hh x" and "off hh x + unat esz \<le> (k + 1) * 4096"
    and "placed hh p esz y" and "\<not> bm_bit (bitmap p) k"
  shows "apart hh esz x y" and "apart hh esz y x" and "x \<noteq> y"
proof -
  from assms(3) obtain l where l: "bm_bit (bitmap p) l" "l * 4096 < off hh y" "off hh y + unat esz \<le> (l + 1) * 4096"
    by (auto simp: placed_def)
  have "k \<noteq> l" using assms(4) l(1) by auto
  then have "Suc k * 4096 \<le> l * 4096 \<or> Suc l * 4096 \<le> k * 4096" by (cases "k < l") auto
  with assms(1,2) l(2,3) show "apart hh esz x y" and "apart hh esz y x" and "x \<noteq> y"
    by (auto simp: apart_def)
qed

lemma distinct_entries:
  assumes esz: "esz \<in> set slab_sizes" and arr: "off hh arr = k * 4096 + unat (header_offset esz)"
    and k: "k < 4503599627370496"
  shows "distinct (entries arr esz 0 (entry_count esz))"
proof -
  note f = slab_size_facts [OF esz]
  have "k * 4096 + 4096 \<le> 18446744073709551616" using k by simp
  then have b: "off hh arr + entry_count esz * unat esz \<le> 18446744073709551616" using arr f(4) by linarith
  have "i = j" if "i < entry_count esz" "j < entry_count esz" "arr + of_nat i * esz = arr + of_nat j * esz" for i j
  proof -
    have pos: "0 < unat esz" using f(1) by linarith
    have "off hh arr + i * unat esz = off hh arr + j * unat esz"
      using off_entry [OF b that(1) pos] off_entry [OF b that(2) pos] that(3) by metis
    with pos show ?thesis by simp
  qed
  then show ?thesis by (auto simp: entries_def distinct_map inj_on_def)
qed

lemma create_slab_spec:
  assumes wf: "slab_wf hh i h [] A" and alloc: "pmm_alloc_nozero 1 (hpmm h) = Inr (ret, p)" and ret: "ret \<noteq> 0"
  defines "esz \<equiv> ent_size (slabs h ! i)"
  defines "arr \<equiv> ret + hh + header_offset esz"
  shows "\<exists>h'. create_slab hh sb i esz h = Inr h' \<and> slab_wf hh i h' (entries arr esz 0 (entry_count esz)) A \<and>
    unlocked (slab_lock (slabs h' ! i)) \<and> ent_size (slabs h' ! i) = esz \<and> hpmm h' = p \<and>
    load64 (hmem h') (ret + hh) = slab_ptr sb i"
proof -
  let ?p = "hpmm h" and ?es = "entries arr esz 0 (entry_count esz)"
  from wf have w: "i < length (slabs h)" "esz \<in> set slab_sizes" "pmm_inv ?p" "bm_bit (bitmap ?p) 0"
    "unat hh + unat (highest_page_index ?p) * 4096 \<le> 18446744073709551616"
    "\<forall>a \<in> A. placed hh ?p esz a" "\<forall>a \<in> A. \<forall>b \<in> A. a \<noteq> b \<longrightarrow> apart hh esz a b"
    unfolding slab_wf_def esz_def by simp_all
  note f = slab_size_facts [OF w(2)]
  from pmm_alloc_outcome [OF w(3) _ w(4), of 1] alloc have o: "pmm_inv p" "alloc_outcome 1 ?p ret p"
    "highest_page_index p = highest_page_index ?p" by auto
  from o(2) ret obtain k where k: "unat ret = k * 4096" "0 < k" "k + 1 \<le> unat (highest_page_index ?p)"
    "\<not> bm_bit (bitmap ?p) k" "marked (bitmap ?p) k 1 (bitmap p)" by (auto simp: alloc_outcome_def free_run_def)
  have top: "k < 4503599627370496" "unat (highest_page_index ?p) \<le> bm_size (bitmap ?p)"
    using k(3) w(3) by (auto simp: pmm_inv_def pmm_wf_def)
  have page: "off hh (ret + hh) = k * 4096" using k(1) by (simp add: off_direct)
  have arr: "off hh arr = k * 4096 + unat (header_offset esz)"
    unfolding arr_def using top(1) f(7) page off_add [of hh "ret + hh" "header_offset esz"] by linarith
  have "(k + 1) * 4096 \<le> unat (highest_page_index ?p) * 4096" using k(3) by (intro mult_le_mono1)
  then have hb: "unat hh + (k + 1) * 4096 \<le> 18446744073709551616" using w(5) by linarith
  have nz: "x \<noteq> 0" if "x \<in> set ?es" for x
  proof -
    from fresh_page [OF w(2) arr top(1) that] obtain j where "k * 4096 < off hh x" "off hh x + unat esz \<le> (k + 1) * 4096"
      by metis
    with hb f(1) show ?thesis by (intro addr_nonzero [of hh]) linarith+
  qed
  define m where "m = store64 (hmem h) (ret + hh) (slab_ptr sb i)"
  define m' where "m' = link_entries arr ((PAGE_SIZE - header_offset esz) div esz - 1) (esz div 8) m"
  have bound: "off hh arr + entry_count esz * unat esz \<le> 18446744073709551616"
    using arr f(4) top(1) by linarith
  have chain: "bytes.chain m' arr ?es" unfolding m'_def
    by (rule link_entries_chain [OF bound f(1,2,3)]) (rule nz, auto simp: entries_def)
  have "load64 m' (ret + hh) = load64 m (ret + hh)"
  proof (rule load64_cong)
    fix j :: u64
    assume "j < 8"
    then have "off hh (ret + hh + j) = k * 4096 + unat j" "unat j < 8"
      using page top(1) by (simp_all add: off_add word_less_nat_alt)
    then show "m' (ret + hh + j) = m (ret + hh + j)" unfolding m'_def
      by (intro link_entries_frame [OF bound f(1,2,3)]) (use arr f(5) in linarith)
  qed
  then have header: "load64 m' (ret + hh) = slab_ptr sb i" by (simp add: m_def bytes.ld_same)
  define h' where "h' = put_slab (h\<lparr>hmem := m', hpmm := p\<rparr>) i \<lparr>slab_lock = SPINLOCK_INIT, first_free = arr, ent_size = esz\<rparr>"
  have create: "create_slab hh sb i esz h = Inr h'"
    using w(1) alloc by (simp add: create_slab_def Let_def h'_def m'_def m_def arr_def add.assoc)
  have kmark: "bm_bit (bitmap p) k" "bm_bit (bitmap p) 0"
    using k(3,5) top(2) w(4) by (auto simp: marked_def)
  have pl: "placed hh p esz x" if "x \<in> set ?es" for x
    using fresh_page [OF w(2) arr top(1) that] kmark(1) k(3) o(3) unfolding placed_def
    by (metis Suc_eq_plus1 Suc_le_eq)
  have pages: "apart hh esz x y" "apart hh esz y x" "x \<noteq> y" if "x \<in> set ?es" "y \<in> A" for x y
    using fresh_page [OF w(2) arr top(1) that(1)] apart_pages [of k hh x esz ?p y] k(4) w(6) that(2) by metis+
  have A: "\<forall>a \<in> A. placed hh p esz a"
    using w(6) placed_marked [OF _ k(5) w(3) o(3)] by blast
  have disj: "A \<inter> set ?es = {}" using pages(3) by blast
  have "slab_wf hh i h' ?es A"
    unfolding slab_wf_def h'_def
    using w(1,2,5,7) chain distinct_entries [OF w(2) arr top(1)] disj o(1,3) kmark(2) pl A pages
      fresh_apart [OF w(2) arr top(1)] by auto
  with create header w(1) show ?thesis by (auto simp: h'_def)
qed

lemma alloc_from_slab_refill:
  assumes inv: "slab_inv hh i h [] A" and alloc: "pmm_alloc_nozero 1 (hpmm h) = Inr (ret, p)" and ret: "ret \<noteq> 0"
  shows "\<exists>h' a fl. alloc_from_slab hh sb i h = Inr (a, h') \<and> slab_inv hh i h' fl (insert a A) \<and>
    a \<notin> A \<and> length fl + 1 = entry_count (ent_size (slabs h ! i))"
proof -
  let ?s = "slabs h ! i" and ?e = "ent_size (slabs h ! i)"
  from inv have wf: "slab_wf hh i h [] A" and len: "i < length (slabs h)" and u: "unlocked (slab_lock ?s)"
    and nil: "first_free ?s = 0" and esz: "?e \<in> set slab_sizes"
    by (auto simp: slab_inv_def slab_wf_def)
  let ?h = "put_slab h i (?s\<lparr>slab_lock := (slab_lock ?s)\<lparr>lock_word := 1, last_acquirer := ''alloc_from_slab''\<rparr>\<rparr>)"
  have "slab_wf hh i ?h [] A" using wf len slab_wf_lock by simp
  moreover have "pmm_alloc_nozero 1 (hpmm ?h) = Inr (ret, p)" using alloc by simp
  ultimately have "\<exists>h1. create_slab hh sb i ?e ?h = Inr h1 \<and>
      slab_wf hh i h1 (entries (ret + hh + header_offset ?e) ?e 0 (entry_count ?e)) A"
    using create_slab_spec [of hh i ?h A ret p sb] ret len by auto
  then obtain h1 where
    h1: "create_slab hh sb i ?e ?h = Inr h1"
      "slab_wf hh i h1 (entries (ret + hh + header_offset ?e) ?e 0 (entry_count ?e)) A" by blast
  obtain a fl where es: "entries (ret + hh + header_offset ?e) ?e 0 (entry_count ?e) = a # fl"
    using slab_size_facts(6) [OF esz] by (cases "entries (ret + hh + header_offset ?e) ?e 0 (entry_count ?e)")
      (auto simp: entries_def)
  then have n: "length fl + 1 = entry_count ?e"
    by (metis (no_types, lifting) Suc_eq_plus1 diff_zero entries_def length_Cons length_map length_upt)
  from pop_free_spec [OF h1(2) [unfolded es]] obtain h' where
    h': "pop_free i h1 = Inr (a, h')" "slab_inv hh i h' fl (insert a A)" by blast
  have "a \<notin> A" using h1(2) unfolding es slab_wf_def by auto
  with h1(1) h' n len u nil show ?thesis
    by (auto simp: alloc_from_slab_def klock Let_def)
qed

subsection \<open>Sequences of allocations and releases on one slab\<close>

text \<open>
  The entries \<open>A\<close> a slab's clients hold. Allocation is followed only while the page allocator can
  supply the page a refill asks for: \<open>create_slab\<close> does not test the pointer it gets.
\<close>

inductive slab_step :: "u64 \<Rightarrow> u64 \<Rightarrow> nat \<Rightarrow> heap \<times> u64 set \<Rightarrow> heap \<times> u64 set \<Rightarrow> bool"
  for hh sb i where
  alloc: "first_free (slabs h ! i) \<noteq> 0 \<or> (\<exists>ret p. pmm_alloc_nozero 1 (hpmm h) = Inr (ret, p) \<and> ret \<noteq> 0) \<Longrightarrow>
     alloc_from_slab hh sb i h = Inr (a, h') \<Longrightarrow> slab_step hh sb i (h, A) (h', insert a A)"
| free: "a \<in> A \<Longrightarrow> free_in_slab i a h = Inr h' \<Longrightarrow> slab_step hh sb i (h, A) (h', A - {a})"

inductive slab_steps :: "u64 \<Rightarrow> u64 \<Rightarrow> nat \<Rightarrow> heap \<times> u64 set \<Rightarrow> heap \<times> u64 set \<Rightarrow> bool"
  for hh sb i where
  refl: "slab_steps hh sb i c c"
| step: "slab_steps hh sb i c d \<Longrightarrow> slab_step hh sb i d e \<Longrightarrow> slab_steps hh sb i c e"

lemma slab_entry_nonzero:
  assumes "slab_wf hh i h fl A" and "a \<in> A"
  shows "a \<noteq> 0"
proof -
  let ?e = "ent_size (slabs h ! i)"
  from assms have w: "?e \<in> set slab_sizes" "placed hh (hpmm h) ?e a"
    "unat hh + unat (highest_page_index (hpmm h)) * 4096 \<le> 18446744073709551616"
    unfolding slab_wf_def by blast+
  from w(2) obtain k where k: "k < unat (highest_page_index (hpmm h))" "k * 4096 < off hh a"
    "off hh a + unat ?e \<le> (k + 1) * 4096" by (auto simp: placed_def)
  have "(k + 1) * 4096 \<le> unat (highest_page_index (hpmm h)) * 4096" using k(1) by (intro mult_le_mono1) simp
  with k w(3) slab_size_facts(1) [OF w(1)] show ?thesis by (intro addr_nonzero [of hh]) linarith+
qed

lemma slab_step_inv:
  assumes "slab_step hh sb i c d"
  shows "\<exists>fl. slab_inv hh i (fst c) fl (snd c) \<Longrightarrow> \<exists>fl. slab_inv hh i (fst d) fl (snd d)"
  using assms
proof (induction rule: slab_step.induct)
  case (alloc h a h' A)
  then obtain fl where inv: "slab_inv hh i h fl A" by auto
  show ?case
  proof (cases fl)
    case Nil
    then have "first_free (slabs h ! i) = 0" using inv by (simp add: slab_inv_def slab_wf_def)
    with alloc(1) obtain ret p where "pmm_alloc_nozero 1 (hpmm h) = Inr (ret, p)" "ret \<noteq> 0" by auto
    from alloc_from_slab_refill [OF inv [unfolded Nil] this, of sb] alloc(2) show ?thesis by auto
  next
    case (Cons b bs)
    from alloc_from_slab_take [OF inv [unfolded Cons], of sb] alloc(2) show ?thesis by auto
  qed
next
  case (free a A h h')
  then obtain fl where inv: "slab_inv hh i h fl A" by auto
  then have "a \<noteq> 0" using slab_entry_nonzero free(1) unfolding slab_inv_def by blast
  from free_in_slab_spec [OF inv free(1) this] free(2) show ?case by auto
qed

lemma slab_steps_inv:
  assumes "slab_steps hh sb i c d" and "\<exists>fl. slab_inv hh i (fst c) fl (snd c)"
  shows "\<exists>fl. slab_inv hh i (fst d) fl (snd d)"
  using assms by (induction rule: slab_steps.induct) (auto dest: slab_step_inv)

subsection \<open>Properties\<close>

text \<open>
  C10. Over any sequence of allocations and releases on one slab, with refills from the page allocator,
  the entries held at the same time are non-null and their bytes do not overlap, and the slab is left
  with a well-formed free list that holds none of them.
\<close>

theorem slab_live_entries_disjoint:
  assumes "slab_steps hh sb i (h, {}) (h', A)" and "slab_inv hh i h fl {}"
  shows "(\<exists>fl'. slab_inv hh i h' fl' A \<and> A \<inter> set fl' = {}) \<and> 0 \<notin> A \<and>
    (\<forall>a \<in> A. \<forall>b \<in> A. a \<noteq> b \<longrightarrow> apart hh (ent_size (slabs h' ! i)) a b)"
proof -
  from slab_steps_inv [OF assms(1)] assms(2) obtain fl' where inv: "slab_inv hh i h' fl' A" by auto
  then have wf: "slab_wf hh i h' fl' A" by (simp add: slab_inv_def)
  then have "A \<inter> set fl' = {}" "\<forall>a \<in> A. \<forall>b \<in> A. a \<noteq> b \<longrightarrow> apart hh (ent_size (slabs h' ! i)) a b"
    unfolding slab_wf_def by blast+
  with inv slab_entry_nonzero [OF wf] show ?thesis by blast
qed

definition heap_example :: heap where
  "heap_example = \<lparr>slabs = [\<lparr>slab_lock = SPINLOCK_INIT, first_free = 0, ent_size = 64\<rparr>],
     hmem = (\<lambda>_. 0), hpmm = pmm_example\<rparr>"

lemma heap_example_inv: "slab_inv 0xffff800000000000 0 heap_example [] {}"
  by (simp add: slab_inv_def slab_wf_def heap_example_def slab_sizes_def pmm_example_def pmm_inv_def
      pmm_wf_def pmm_static_def bm_size_def bm_bit_def)

lemma pmm_example_alloc1: "\<exists>p. pmm_alloc_nozero 1 pmm_example = Inr (0x1000, p)"
proof -
  have "pmm_alloc_nozero 1 pmm_example =
      Inr (0x1000, pmm_example\<lparr>bitmap := [0x0b], last_used_index := 2, used_pages := 1\<rparr>)"
    by code_simp
  then show ?thesis ..
qed

theorem slab_live_entries_disjoint_witness:
  "\<exists>h' a. slab_steps 0xffff800000000000 0x1000 0 (heap_example, {}) (h', {a}) \<and> a \<noteq> 0"
proof -
  obtain p where p: "pmm_alloc_nozero 1 (hpmm heap_example) = Inr (0x1000, p)"
    using pmm_example_alloc1 by (auto simp: heap_example_def)
  from alloc_from_slab_refill [OF heap_example_inv p, of "0x1000"] obtain a h' where
    a: "alloc_from_slab 0xffff800000000000 0x1000 0 heap_example = Inr (a, h')" by auto
  have "slab_step 0xffff800000000000 0x1000 0 (heap_example, {}) (h', {a})"
    by (rule slab_step.alloc [OF _ a]) (use p in auto)
  then have steps: "slab_steps 0xffff800000000000 0x1000 0 (heap_example, {}) (h', {a})"
    by (rule slab_steps.step [OF slab_steps.refl])
  from slab_live_entries_disjoint [OF this heap_example_inv] steps show ?thesis by auto
qed

end
