(* ===== verification/Lyre_Vector.thy ===== *)
theory Lyre_Vector
  imports Lyre_Bitmap
begin

text \<open>
  The growable vectors of \<open>lib/vector.k.h\<close>, which hold the timers, the threads of a process, its
  children, the pollers of an event and the network adapters.  A vector is the pointer to its block
  (\<open>None\<close> is \<open>NULL\<close>), the number of elements in use and the capacity it was last grown to.  The block
  is the list of its cells, so that a read or a write outside it is a fault.  The allocator's
  \<open>realloc\<close> is an argument: it takes the old block and a size in bytes and returns the new block or
  \<open>None\<close>; \<open>realloc_ok\<close> is what a vector relies on.
\<close>

subsection \<open>Data and operations\<close>

record 'a vec =
  vdata :: "'a list option"
  vlength :: u64
  vcapacity :: u64

type_synonym 'a realloc = "'a list option \<Rightarrow> u64 \<Rightarrow> 'a list option"

definition VECTOR_INIT :: "'a vec" where
  "VECTOR_INIT = \<lparr>vdata = None, vlength = 0, vcapacity = 0\<rparr>"

text \<open>The cells a pointer refers to; \<open>NULL\<close> cannot be read or written.\<close>

definition cells :: "'a vec \<Rightarrow> 'a list result" where
  "cells v = (case vdata v of None \<Rightarrow> Inl NullDeref | Some d \<Rightarrow> Inr d)"

definition vec_get :: "'a vec \<Rightarrow> u64 \<Rightarrow> 'a result" where
  "vec_get v i = rbind (cells v) (\<lambda>d. arr_get d (unat i))"

definition vec_set :: "'a vec \<Rightarrow> u64 \<Rightarrow> 'a \<Rightarrow> 'a vec result" where
  "vec_set v i x = rbind (cells v) (\<lambda>d. rbind (arr_set d (unat i) x) (\<lambda>d'. Inr (v\<lparr>vdata := Some d'\<rparr>)))"

definition VECTOR_ENSURE_LENGTH :: "'a realloc \<Rightarrow> u64 \<Rightarrow> 'a vec \<Rightarrow> u64 \<Rightarrow> 'a vec" where
  "VECTOR_ENSURE_LENGTH realloc esz v len =
     (if len \<ge> vcapacity v
      then let cap = (if vcapacity v = 0 then 8 else vcapacity v * 2)
           in v\<lparr>vcapacity := cap, vdata := realloc (vdata v) (cap * esz)\<rparr>
      else v)"

definition VECTOR_PUSH_BACK :: "'a realloc \<Rightarrow> u64 \<Rightarrow> 'a vec \<Rightarrow> 'a \<Rightarrow> (u64 \<times> 'a vec) result" where
  "VECTOR_PUSH_BACK realloc esz v x =
     (let v1 = VECTOR_ENSURE_LENGTH realloc esz v (vlength v)
      in rbind (vec_set v1 (vlength v1) x) (\<lambda>v2.
           let v3 = v2\<lparr>vlength := vlength v2 + 1\<rparr> in Inr (vlength v3 - 1, v3)))"

text \<open>The loop of \<open>VECTOR_INSERT\<close>, which moves the elements above the index up by one.\<close>

function shift_up :: "u64 \<Rightarrow> u64 \<Rightarrow> 'a vec \<Rightarrow> 'a vec result" where
  "shift_up idx i v =
     (if i > idx
      then rbind (vec_get v (i - 1)) (\<lambda>x. rbind (vec_set v i x) (shift_up idx (i - 1)))
      else Inr v)"
  by pat_completeness auto
termination
proof (relation "measure (\<lambda>(idx, i, v). unat i)", simp)
  fix idx i :: u64
  assume "idx < i"
  then have "unat i \<noteq> 0" by (auto simp: word_less_nat_alt)
  then show "\<And>v x xa. ((idx, i - 1, xa), idx, i, v) \<in> measure (\<lambda>(idx, i, v). unat i)"
    by (simp add: unat_sub_small)
qed

declare shift_up.simps [simp del]

definition VECTOR_INSERT :: "'a realloc \<Rightarrow> u64 \<Rightarrow> 'a vec \<Rightarrow> u64 \<Rightarrow> 'a \<Rightarrow> 'a vec result" where
  "VECTOR_INSERT realloc esz v idx x =
     (let v1 = VECTOR_ENSURE_LENGTH realloc esz v (vlength v)
      in rbind (shift_up idx (vlength v1) v1) (\<lambda>v2.
           let v3 = v2\<lparr>vlength := vlength v2 + 1\<rparr> in vec_set v3 idx x))"

definition VECTOR_PUSH_FRONT :: "'a realloc \<Rightarrow> u64 \<Rightarrow> 'a vec \<Rightarrow> 'a \<Rightarrow> 'a vec result" where
  "VECTOR_PUSH_FRONT realloc esz v x = VECTOR_INSERT realloc esz v 0 x"

definition VECTOR_REMOVE :: "'a vec \<Rightarrow> u64 \<Rightarrow> 'a vec result" where
  "VECTOR_REMOVE v idx =
     rbind (for_range (\<lambda>i v. rbind (vec_get v (i + 1)) (vec_set v i)) idx (vlength v - 1) v)
       (\<lambda>v'. Inr (v'\<lparr>vlength := vlength v' - 1\<rparr>))"

text \<open>\<open>VECTOR_ITEM\<close> takes the value of the cast \<open>(typeof(*data))-1\<close> as its argument \<open>invalid\<close>.\<close>

definition VECTOR_ITEM :: "'a \<Rightarrow> 'a vec \<Rightarrow> u64 \<Rightarrow> 'a result" where
  "VECTOR_ITEM invalid v idx = (if idx < vlength v then vec_get v idx else Inr invalid)"

function find_from :: "'a vec \<Rightarrow> 'a \<Rightarrow> u64 \<Rightarrow> u64 result" where
  "find_from v x i =
     (if i < vlength v
      then rbind (vec_get v i) (\<lambda>y. if y = x then Inr i else find_from v x (i + 1))
      else Inr (- 1))"
  by pat_completeness auto
termination
  by (relation "measure (\<lambda>(v, x, i). unat (vlength v) - unat i)")
    (auto simp: unat_Suc_less word_less_nat_alt)

declare find_from.simps [simp del]

text \<open>The result, an \<open>ssize_t\<close>, is \<open>-1\<close> when the value is absent.\<close>

definition VECTOR_FIND :: "'a vec \<Rightarrow> 'a \<Rightarrow> u64 result" where
  "VECTOR_FIND v x = find_from v x 0"

definition VECTOR_REMOVE_BY_VALUE :: "'a vec \<Rightarrow> 'a \<Rightarrow> 'a vec result" where
  "VECTOR_REMOVE_BY_VALUE v x = rbind (VECTOR_FIND v x) (VECTOR_REMOVE v)"

text \<open>\<open>VECTOR_FOR_EACH\<close> passes every element's index to its body.\<close>

definition VECTOR_FOR_EACH :: "(u64 \<Rightarrow> 'a \<Rightarrow> 's \<Rightarrow> 's result) \<Rightarrow> 'a vec \<Rightarrow> 's \<Rightarrow> 's result" where
  "VECTOR_FOR_EACH body v = for_range (\<lambda>i s. rbind (vec_get v i) (\<lambda>x. body i x s)) 0 (vlength v)"

subsection \<open>Specification\<close>

text \<open>The sequence a vector stands for, and its well-formedness.\<close>

definition vec_list :: "'a vec \<Rightarrow> 'a list" where
  "vec_list v = (case vdata v of None \<Rightarrow> [] | Some d \<Rightarrow> take (unat (vlength v)) d)"

definition vec_wf :: "'a vec \<Rightarrow> bool" where
  "vec_wf v \<longleftrightarrow> (case vdata v of None \<Rightarrow> vlength v = 0 \<and> vcapacity v = 0
     | Some d \<Rightarrow> length d = unat (vcapacity v)) \<and> vlength v \<le> vcapacity v"

text \<open>
  What \<open>realloc\<close> promises when it returns a block: as many cells of \<open>esz\<close> bytes as asked for, the
  old contents first.
\<close>

definition realloc_ok :: "'a realloc \<Rightarrow> u64 \<Rightarrow> bool" where
  "realloc_ok realloc esz \<longleftrightarrow> esz \<noteq> 0 \<and> (\<forall>d n d'. realloc d n = Some d' \<longrightarrow>
     length d' = unat n div unat esz \<and>
     (case d of None \<Rightarrow> True | Some c \<Rightarrow> length c \<le> length d' \<longrightarrow> take (length c) d' = c))"

text \<open>A vector may still double: its size in bytes stays below \<open>2 ^ 64\<close>, and the allocator delivers.\<close>

definition can_grow :: "'a realloc \<Rightarrow> u64 \<Rightarrow> 'a vec \<Rightarrow> bool" where
  "can_grow realloc esz v \<longleftrightarrow> (vlength v = vcapacity v \<longrightarrow>
     (let cap = (if vcapacity v = 0 then 8 else vcapacity v * 2)
      in max 4 (unat (vcapacity v)) * 2 * unat esz < 18446744073709551616 \<and>
         realloc (vdata v) (cap * esz) \<noteq> None))"

subsection \<open>Growing\<close>

lemma vec_list_Some [simp]: "vdata v = Some d \<Longrightarrow> vec_list v = take (unat (vlength v)) d"
  by (simp add: vec_list_def)

lemma vec_wfD:
  assumes "vec_wf v" and "vdata v = Some d"
  shows "length d = unat (vcapacity v)" and "unat (vlength v) \<le> length d"
  using assms by (auto simp: vec_wf_def word_le_nat_alt)

lemma vec_wf_None: "vec_wf v \<Longrightarrow> vdata v = None \<Longrightarrow> vlength v = 0"
  by (simp add: vec_wf_def)

lemma unat_double: "x \<noteq> 0 \<Longrightarrow> unat (x :: u64) * 2 < 18446744073709551616 \<Longrightarrow> unat (x * 2) = unat x * 2"
  using unat_mult_small [of x 2] by simp

lemma ensure_length_grows:
  assumes ok: "realloc_ok ra esz" and grow: "can_grow ra esz v" and wf: "vec_wf v"
  shows "\<exists>d. vdata (VECTOR_ENSURE_LENGTH ra esz v (vlength v)) = Some d \<and>
    length d = unat (vcapacity (VECTOR_ENSURE_LENGTH ra esz v (vlength v))) \<and>
    unat (vlength v) < length d \<and> take (unat (vlength v)) d = vec_list v \<and>
    vlength (VECTOR_ENSURE_LENGTH ra esz v (vlength v)) = vlength v"
proof (cases "vcapacity v \<le> vlength v")
  case False
  then have lt: "unat (vlength v) < unat (vcapacity v)" by (simp add: word_less_nat_alt not_le)
  then have "vdata v \<noteq> None" using wf by (cases "vdata v") (auto simp: vec_wf_def)
  then obtain d where d: "vdata v = Some d" by auto
  show ?thesis using False lt d vec_wfD [OF wf d] by (simp add: VECTOR_ENSURE_LENGTH_def)
next
  case True
  then have eq: "vlength v = vcapacity v" using wf by (simp add: vec_wf_def)
  define cap where "cap = (if vcapacity v = 0 then 8 else vcapacity v * 2)"
  from grow eq obtain d where d: "ra (vdata v) (cap * esz) = Some d"
    and small: "max 4 (unat (vcapacity v)) * 2 * unat esz < 18446744073709551616"
    by (auto simp: can_grow_def cap_def Let_def)
  have esz: "0 < unat esz" using ok by (simp add: realloc_ok_def unat_gt_0)
  have "max 4 (unat (vcapacity v)) * 2 * 1 \<le> max 4 (unat (vcapacity v)) * 2 * unat esz"
    using esz by (intro mult_le_mono2) simp
  with small have c2: "max 4 (unat (vcapacity v)) * 2 < 18446744073709551616" by linarith
  have cap: "unat cap \<le> max 4 (unat (vcapacity v)) * 2" "unat (vcapacity v) < unat cap"
    "unat (vcapacity v) \<le> unat cap"
    using c2 unat_double [of "vcapacity v"] by (auto simp: cap_def unat_gt_0 max_def split: if_splits)
  have "unat cap * unat esz \<le> max 4 (unat (vcapacity v)) * 2 * unat esz"
    using cap(1) by (rule mult_le_mono1)
  then have mul: "unat (cap * esz) = unat cap * unat esz" using small by (intro unat_mult_small) linarith
  have len: "length d = unat cap" using ok d mul esz by (auto simp: realloc_ok_def)
  have "take (unat (vlength v)) d = vec_list v"
  proof (cases "vdata v")
    case None
    with vec_wf_None [OF wf] show ?thesis by (simp add: vec_list_def)
  next
    case (Some c)
    then have lc: "length c = unat (vcapacity v)" using vec_wfD [OF wf] by simp
    have "take (length c) d = c"
      using ok d Some cap(3) len lc unfolding realloc_ok_def by fastforce
    with Some lc eq show ?thesis by simp
  qed
  with True d len cap eq show ?thesis by (simp add: VECTOR_ENSURE_LENGTH_def cap_def Let_def)
qed

subsection \<open>Every operation on the sequence\<close>

lemma vec_set_Some [simp]:
  "vdata v = Some d \<Longrightarrow> unat i < length d \<Longrightarrow> vec_set v i x = Inr (v\<lparr>vdata := Some (d[unat i := x])\<rparr>)"
  by (simp add: vec_set_def cells_def)

lemma vec_get_Some [simp]: "vdata v = Some d \<Longrightarrow> unat i < length d \<Longrightarrow> vec_get v i = Inr (d ! unat i)"
  by (simp add: vec_get_def cells_def)

lemma unat_length_Suc: "unat (l :: u64) < length d \<Longrightarrow> length d = unat (c :: u64) \<Longrightarrow> unat (l + 1) = Suc (unat l)"
  by (rule unat_Suc_less [of l c]) (simp add: word_less_nat_alt)

lemma vec_wf_empty: "vec_wf VECTOR_INIT \<and> vec_list VECTOR_INIT = []"
  by (simp add: VECTOR_INIT_def vec_wf_def vec_list_def)

lemma push_back_list:
  assumes "realloc_ok ra esz" and "can_grow ra esz v" and "vec_wf v"
  shows "\<exists>v'. VECTOR_PUSH_BACK ra esz v x = Inr (vlength v, v') \<and> vec_wf v' \<and> vec_list v' = vec_list v @ [x]"
proof -
  define v1 where "v1 = VECTOR_ENSURE_LENGTH ra esz v (vlength v)"
  from ensure_length_grows [OF assms] obtain d where d: "vdata v1 = Some d" "length d = unat (vcapacity v1)"
    "unat (vlength v) < length d" "take (unat (vlength v)) d = vec_list v" "vlength v1 = vlength v"
    by (auto simp: v1_def)
  have "unat (vlength v + 1) = Suc (unat (vlength v))" using d by (intro unat_length_Suc)
  with d show ?thesis
    by (simp add: VECTOR_PUSH_BACK_def v1_def [symmetric] vec_wf_def word_le_nat_alt
        take_Suc_conv_app_nth)
qed

lemma vdata_same: "vdata v = Some d \<Longrightarrow> v\<lparr>vdata := Some d\<rparr> = v"
  by (cases v) simp

lemma shift_up_spec:
  assumes "vdata v = Some d" and "unat i < length d" and "idx \<le> i"
  shows "shift_up idx i v = Inr (v\<lparr>vdata := Some (take (Suc (unat idx)) d @
    drop (unat idx) (take (unat i) d) @ drop (Suc (unat i)) d)\<rparr>)"
  using assms
proof (induction idx i v arbitrary: d rule: shift_up.induct)
  case (1 idx i v)
  show ?case
  proof (cases "idx < i")
    case True
    then have i: "unat (i - 1) = unat i - 1" "unat idx \<le> unat i - 1" "0 < unat i"
      using unat_sub_small [of 1 i] by (auto simp: word_less_nat_alt)
    define e where "e = d[unat i := d ! (unat i - 1)]"
    define v' where "v' = v\<lparr>vdata := Some e\<rparr>"
    have "shift_up idx i v = shift_up idx (i - 1) v'"
      using True i "1.prems" by (simp add: shift_up.simps [of idx i] e_def v'_def)
    also have "\<dots> = Inr (v'\<lparr>vdata := Some (take (Suc (unat idx)) e @
      drop (unat idx) (take (unat (i - 1)) e) @ drop (Suc (unat (i - 1))) e)\<rparr>)"
      using "1.prems" i True
      by (intro "1.IH" [of "d ! (unat i - 1)" v']) (simp_all add: v'_def e_def word_le_nat_alt)
    also have "take (Suc (unat idx)) e @ drop (unat idx) (take (unat (i - 1)) e) @ drop (Suc (unat (i - 1))) e
       = take (Suc (unat idx)) d @ drop (unat idx) (take (unat i) d) @ drop (Suc (unat i)) d"
      using i "1.prems"(2)
      by (intro nth_equalityI) (auto simp: e_def nth_append nth_list_update intro!: arg_cong [where f = "nth d"])
    finally show ?thesis by (simp add: v'_def)
  next
    case False
    with "1.prems" have "idx = i" by simp
    with "1.prems" show ?thesis by (simp add: shift_up.simps [of i i] vdata_same)
  qed
qed

lemma insert_cells:
  assumes "i \<le> n" and "n < length d"
  shows "take (Suc n) ((take (Suc i) d @ drop i (take n d) @ drop (Suc n) d)[i := x])
    = take i (take n d) @ x # drop i (take n d)"
proof -
  have "(take (Suc i) d @ drop i (take n d) @ drop (Suc n) d)[i := x]
     = (take i d @ x # drop i (take n d)) @ drop (Suc n) d"
    using assms by (simp add: take_Suc_conv_app_nth list_update_append)
  then show ?thesis using assms by (simp add: min_def Suc_diff_le)
qed

lemma insert_list:
  assumes "realloc_ok ra esz" and "can_grow ra esz v" and "vec_wf v" and le: "idx \<le> vlength v"
  shows "\<exists>v'. VECTOR_INSERT ra esz v idx x = Inr v' \<and> vec_wf v' \<and>
    vec_list v' = take (unat idx) (vec_list v) @ x # drop (unat idx) (vec_list v)"
proof -
  define v1 where "v1 = VECTOR_ENSURE_LENGTH ra esz v (vlength v)"
  from ensure_length_grows [OF assms(1-3)] obtain d where d: "vdata v1 = Some d"
    "length d = unat (vcapacity v1)" "unat (vlength v) < length d"
    "take (unat (vlength v)) d = vec_list v" "vlength v1 = vlength v"
    by (auto simp: v1_def)
  have s: "unat (vlength v + 1) = Suc (unat (vlength v))" using d by (intro unat_length_Suc)
  have i: "unat idx \<le> unat (vlength v)" using le by (simp add: word_le_nat_alt)
  define e where "e = take (Suc (unat idx)) d @ drop (unat idx) (take (unat (vlength v)) d) @
    drop (Suc (unat (vlength v))) d"
  have e: "length e = length d" using d(3) i by (auto simp: e_def min_def)
  define v' where "v' = v1\<lparr>vlength := vlength v + 1, vdata := Some (e[unat idx := x])\<rparr>"
  have "VECTOR_INSERT ra esz v idx x = Inr v'"
    using shift_up_spec [OF d(1), of "vlength v1" idx] d(3,5) i le e
    by (simp add: VECTOR_INSERT_def v1_def [symmetric] Let_def e_def [symmetric] v'_def)
  moreover have "vec_wf v'"
    using d(2,3) e s by (simp add: v'_def vec_wf_def word_le_nat_alt)
  moreover have "vec_list v' = take (unat idx) (vec_list v) @ x # drop (unat idx) (vec_list v)"
    using insert_cells [OF i d(3)] s d(4) by (simp add: v'_def e_def)
  ultimately show ?thesis by blast
qed

lemma remove_list:
  assumes wf: "vec_wf v" and lt: "idx < vlength v"
  shows "\<exists>v'. VECTOR_REMOVE v idx = Inr v' \<and> vec_wf v' \<and>
    vec_list v' = take (unat idx) (vec_list v) @ drop (Suc (unat idx)) (vec_list v)"
proof -
  let ?n = "unat (vlength v)"
  have i: "unat idx < ?n" using lt by (simp add: word_less_nat_alt)
  then have "vdata v \<noteq> None" using vec_wf_None [OF wf] by (cases "vdata v") auto
  then obtain d where d: "vdata v = Some d" by auto
  note len = vec_wfD [OF wf d]
  have n1: "unat (vlength v - 1) = ?n - 1" using i unat_sub_small [of 1 "vlength v"] by simp
  define I where "I = (\<lambda>k w. \<exists>e. w = v\<lparr>vdata := Some e\<rparr> \<and> length e = length d \<and>
    (\<forall>j < length d. e ! j = (if unat idx \<le> j \<and> j < k then d ! Suc j else d ! j)))"
  have step: "\<exists>w'. rbind (vec_get w (k + 1)) (vec_set w k) = Inr w' \<and> I (Suc (unat k)) w'"
    if k: "unat idx \<le> unat k" "k < vlength v - 1" "I (unat k) w" for k w
  proof -
    have lt: "Suc (unat k) < ?n" using k(2) n1 by (simp add: word_less_nat_alt)
    have s: "unat (k + 1) = Suc (unat k)" by (rule unat_Suc_less [OF k(2)])
    from k(3) obtain e where e: "w = v\<lparr>vdata := Some e\<rparr>" "length e = length d"
      "\<forall>j < length d. e ! j = (if unat idx \<le> j \<and> j < unat k then d ! Suc j else d ! j)"
      by (auto simp: I_def)
    show ?thesis
      unfolding I_def using e lt s len k(1)
      by (auto simp: nth_list_update intro!: exI [of _ "e[unat k := e ! Suc (unat k)]"])
  qed
  have "\<exists>w. for_range (\<lambda>i v. rbind (vec_get v (i + 1)) (vec_set v i)) idx (vlength v - 1) v = Inr w
    \<and> I (unat (vlength v - 1)) w"
  proof (rule for_range_rule)
    show "I (unat idx) v" using d by (auto simp: I_def vdata_same intro!: exI [of _ d])
    show "idx \<le> vlength v - 1" using i n1 by (simp add: word_le_nat_alt)
  qed (rule step)
  then obtain e where e: "for_range (\<lambda>i v. rbind (vec_get v (i + 1)) (vec_set v i)) idx (vlength v - 1) v
      = Inr (v\<lparr>vdata := Some e\<rparr>)" "length e = length d"
    "\<forall>j < length d. e ! j = (if unat idx \<le> j \<and> j < ?n - 1 then d ! Suc j else d ! j)"
    unfolding I_def n1 by blast
  have "take (?n - 1) e = take (unat idx) (take ?n d) @ drop (Suc (unat idx)) (take ?n d)"
    using i len(2) e(2,3) by (intro nth_equalityI) (auto simp: nth_append min.absorb1 min.absorb2)
  moreover have "vec_wf (v\<lparr>vdata := Some e, vlength := vlength v - 1\<rparr>)"
    using len e(2) n1 by (simp add: vec_wf_def word_le_nat_alt)
  ultimately show ?thesis using e(1) n1 d by (simp add: VECTOR_REMOVE_def)
qed

lemma nonempty_data: "vec_wf v \<Longrightarrow> i < vlength v \<Longrightarrow> \<exists>d. vdata v = Some d"
  using vec_wf_None [of v] by (cases "vdata v") auto

lemma item_list:
  assumes wf: "vec_wf v" and i: "idx < vlength v"
  shows "VECTOR_ITEM dflt v idx = Inr (vec_list v ! unat idx)"
proof -
  obtain d where d: "vdata v = Some d" using nonempty_data [OF assms] by blast
  with i vec_wfD [OF wf d] show ?thesis by (simp add: VECTOR_ITEM_def word_less_nat_alt)
qed

lemma vec_set_list:
  assumes wf: "vec_wf v" and i: "idx < vlength v"
  shows "\<exists>v'. vec_set v idx x = Inr v' \<and> vec_wf v' \<and> vec_list v' = (vec_list v)[unat idx := x] \<and> vlength v' = vlength v"
proof -
  obtain d where d: "vdata v = Some d" using nonempty_data [OF assms] by blast
  have "unat idx < length d" using i vec_wfD [OF wf d] by (simp add: word_less_nat_alt)
  then show ?thesis using d wf vec_wfD [OF wf d] by (simp add: vec_wf_def take_update_swap)
qed

lemma find_from_spec:
  assumes "vec_wf v" and "vdata v = Some d" and "i \<le> vlength v"
  shows "find_from v x i = Inr (case find (\<lambda>j. d ! j = x) [unat i..<unat (vlength v)] of
    None \<Rightarrow> - 1 | Some j \<Rightarrow> of_nat j)"
  using assms
proof (induction v x i rule: find_from.induct)
  case (1 v x i)
  show ?case
  proof (cases "i < vlength v")
    case True
    then have s: "unat (i + 1) = Suc (unat i)" and lt: "unat i < unat (vlength v)"
      by (auto simp: unat_Suc_less word_less_nat_alt)
    have "i + 1 \<le> vlength v" using s lt by (simp add: word_le_nat_alt)
    with "1.IH" [OF True _ _ "1.prems"(1,2)] True s lt "1.prems" vec_wfD [OF "1.prems"(1,2)]
    show ?thesis by (simp add: find_from.simps [of v x i] upt_conv_Cons)
  next
    case False
    with "1.prems" show ?thesis by (simp add: find_from.simps)
  qed
qed

text \<open>The first position of a value in a list.\<close>

fun index_of :: "'a \<Rightarrow> 'a list \<Rightarrow> nat option" where
  "index_of x [] = None"
| "index_of x (y # ys) = (if y = x then Some 0 else map_option Suc (index_of x ys))"

lemma index_of_None: "index_of x xs = None \<longleftrightarrow> x \<notin> set xs"
  by (induction xs) auto

lemma index_of_Some: "index_of x xs = Some j \<Longrightarrow> j < length xs \<and> xs ! j = x \<and> x \<notin> set (take j xs)"
  by (induction xs arbitrary: j) (auto split: if_splits)

lemma index_of_remove1: "index_of x xs = Some j \<Longrightarrow> take j xs @ drop (Suc j) xs = remove1 x xs"
  by (induction xs arbitrary: j) (auto split: if_splits)

lemma find_upt_index_of:
  assumes "i \<le> n" and "n \<le> length d"
  shows "find (\<lambda>j. d ! j = x) [i..<n] = map_option ((+) i) (index_of x (drop i (take n d)))"
  using assms
proof (induction "n - i" arbitrary: i)
  case 0
  then show ?case by simp
next
  case (Suc k)
  then have "i < n" by simp
  then have "drop i (take n d) = d ! i # drop (Suc i) (take n d)"
    using Suc.prems by (simp add: Cons_nth_drop_Suc [symmetric])
  moreover have "(+) (Suc i) = (\<lambda>x. Suc (i + x))" by (simp add: fun_eq_iff)
  ultimately show ?case using Suc.hyps(1) [of "Suc i"] Suc.hyps(2) Suc.prems \<open>i < n\<close>
    by (auto simp: upt_conv_Cons option.map_comp o_def)
qed

lemma find_list:
  assumes wf: "vec_wf v"
  shows "VECTOR_FIND v x = Inr (case index_of x (vec_list v) of None \<Rightarrow> - 1 | Some j \<Rightarrow> of_nat j)"
proof (cases "vdata v")
  case None
  with vec_wf_None [OF wf] show ?thesis
    by (simp add: VECTOR_FIND_def find_from.simps vec_list_def)
next
  case (Some d)
  have "VECTOR_FIND v x = Inr (case find (\<lambda>j. d ! j = x) [0..<unat (vlength v)] of None \<Rightarrow> - 1 | Some j \<Rightarrow> of_nat j)"
    using find_from_spec [OF wf Some, of 0] by (simp add: VECTOR_FIND_def)
  with find_upt_index_of [of 0 "unat (vlength v)" d x] vec_wfD [OF wf Some] Some show ?thesis
    by (simp add: option.case_eq_if option.map_sel)
qed

lemma length_vec_list: "vec_wf v \<Longrightarrow> length (vec_list v) = unat (vlength v)"
  by (cases "vdata v") (auto simp: vec_list_def vec_wf_def word_le_nat_alt)

lemma remove_by_value_list:
  assumes wf: "vec_wf v" and x: "x \<in> set (vec_list v)"
  shows "\<exists>v'. VECTOR_REMOVE_BY_VALUE v x = Inr v' \<and> vec_wf v' \<and> vec_list v' = remove1 x (vec_list v)"
proof -
  obtain j where j: "index_of x (vec_list v) = Some j"
    using x index_of_None [of x "vec_list v"] by fastforce
  have lt: "j < unat (vlength v)" using index_of_Some [OF j] length_vec_list [OF wf] by simp
  then have u: "unat (of_nat j :: u64) = j" using unat_lt_two_power_64 [of "vlength v"]
    by (intro unat_of_nat_small) linarith
  have "of_nat j < vlength v" using lt by (rule of_nat_less_word)
  with remove_list [OF wf this] index_of_remove1 [OF j] find_list [OF wf, of x] j u show ?thesis
    by (simp add: VECTOR_REMOVE_BY_VALUE_def)
qed

lemma remove_by_value_absent:
  assumes wf: "vec_wf v" and x: "x \<notin> set (vec_list v)"
  shows "VECTOR_REMOVE_BY_VALUE v x = Inr (v\<lparr>vlength := vlength v - 1\<rparr>)"
proof -
  have "VECTOR_FIND v x = Inr (- 1)"
    using find_list [OF wf, of x] x by (simp add: index_of_None [THEN iffD2])
  moreover have "\<not> (- 1 :: u64) < vlength v - 1" by (simp add: not_less)
  ultimately show ?thesis by (simp add: VECTOR_REMOVE_BY_VALUE_def VECTOR_REMOVE_def)
qed

subsection \<open>Vectors as registries\<close>

text \<open>
  Most clients use a vector as a registry: they add an element and later take that element out
  again.  The interface is the sequence of registered elements.
\<close>

locale registry =
  fixes wf :: "'v \<Rightarrow> bool" and items :: "'v \<Rightarrow> 'a list" and room :: "'v \<Rightarrow> bool"
    and add :: "'v \<Rightarrow> 'a \<Rightarrow> 'v result" and take_out :: "'v \<Rightarrow> 'a \<Rightarrow> 'v result"
  assumes add_ok: "wf v \<Longrightarrow> room v \<Longrightarrow> \<exists>v'. add v x = Inr v' \<and> wf v' \<and> items v' = items v @ [x]"
    and take_out_ok: "wf v \<Longrightarrow> x \<in> set (items v) \<Longrightarrow>
      \<exists>v'. take_out v x = Inr v' \<and> wf v' \<and> items v' = remove1 x (items v)"
begin

lemma add_take_out:
  assumes "wf v" and "room v" and "x \<notin> set (items v)"
  shows "\<exists>v' v''. add v x = Inr v' \<and> take_out v' x = Inr v'' \<and> wf v'' \<and> items v'' = items v"
proof -
  from add_ok [OF assms(1,2)] obtain v' where v': "add v x = Inr v'" "wf v'" "items v' = items v @ [x]"
    by blast
  with take_out_ok [of v' x] assms(3) show ?thesis by (auto simp: remove1_append)
qed

lemma add_distinct:
  "wf v \<Longrightarrow> room v \<Longrightarrow> distinct (items v) \<Longrightarrow> x \<notin> set (items v) \<Longrightarrow> add v x = Inr v' \<Longrightarrow>
    distinct (items v')"
  using add_ok [of v x] by auto

lemma take_out_gone:
  "wf v \<Longrightarrow> distinct (items v) \<Longrightarrow> x \<in> set (items v) \<Longrightarrow> take_out v x = Inr v' \<Longrightarrow>
    set (items v') = set (items v) - {x}"
  using take_out_ok [of v x] by (auto simp: set_remove1_eq)

end

definition register :: "'a realloc \<Rightarrow> u64 \<Rightarrow> 'a vec \<Rightarrow> 'a \<Rightarrow> 'a vec result" where
  "register realloc esz v x = rbind (VECTOR_PUSH_BACK realloc esz v x) (\<lambda>(_, v'). Inr v')"

interpretation vec: registry vec_wf vec_list "\<lambda>v. realloc_ok ra esz \<and> can_grow ra esz v"
  "register ra esz" VECTOR_REMOVE_BY_VALUE for ra esz
proof unfold_locales
  fix v :: "'a vec" and x
  assume "vec_wf v" and "realloc_ok ra esz \<and> can_grow ra esz v"
  with push_back_list [of ra esz v x] show
    "\<exists>v'. register ra esz v x = Inr v' \<and> vec_wf v' \<and> vec_list v' = vec_list v @ [x]"
    by (auto simp: register_def)
qed (rule remove_by_value_list)

subsection \<open>Properties\<close>

text \<open>A \<open>realloc\<close> that always finds a block and fills the new cells with one value.\<close>

definition block_realloc :: "u64 \<Rightarrow> 'a \<Rightarrow> 'a realloc" where
  "block_realloc esz z d n =
     (let k = unat n div unat esz; c = (case d of None \<Rightarrow> [] | Some c \<Rightarrow> c)
      in Some (take k c @ replicate (k - length c) z))"

lemma block_realloc_ok: "esz \<noteq> 0 \<Longrightarrow> realloc_ok (block_realloc esz z) esz"
  by (auto simp: realloc_ok_def block_realloc_def Let_def split: option.split)

text \<open>
  C27. Every vector operation does on the sequence of its elements what its name says, without a
  fault: \<open>VECTOR_PUSH_BACK\<close> appends and returns the index of the new element, \<open>VECTOR_INSERT\<close>
  inserts before the index, \<open>VECTOR_REMOVE\<close> deletes at the index, \<open>VECTOR_ITEM\<close> reads, and \<open>VECTOR_FIND\<close>
  returns the first position of a value or \<open>-1\<close>; growth keeps the elements.
\<close>

theorem vector_refines_list:
  assumes "realloc_ok ra esz" and "can_grow ra esz v" and wf: "vec_wf v"
  shows "(\<exists>v'. VECTOR_PUSH_BACK ra esz v x = Inr (vlength v, v') \<and> vec_wf v' \<and>
      vec_list v' = vec_list v @ [x]) \<and>
    (idx \<le> vlength v \<longrightarrow> (\<exists>v'. VECTOR_INSERT ra esz v idx x = Inr v' \<and> vec_wf v' \<and>
      vec_list v' = take (unat idx) (vec_list v) @ x # drop (unat idx) (vec_list v))) \<and>
    (idx < vlength v \<longrightarrow> (\<exists>v'. VECTOR_REMOVE v idx = Inr v' \<and> vec_wf v' \<and>
      vec_list v' = take (unat idx) (vec_list v) @ drop (Suc (unat idx)) (vec_list v)) \<and>
      VECTOR_ITEM dflt v idx = Inr (vec_list v ! unat idx)) \<and>
    VECTOR_FIND v x = Inr (case index_of x (vec_list v) of None \<Rightarrow> - 1 | Some j \<Rightarrow> of_nat j)"
  using push_back_list [OF assms] insert_list [OF assms] remove_list [OF wf] find_list [OF wf]
    item_list [OF wf, of idx dflt] by simp

definition vec_example :: "nat vec" where
  "vec_example = \<lparr>vdata = Some [5, 7, 9, 0, 0, 0, 0, 0], vlength = 3, vcapacity = 8\<rparr>"

lemma vec_example_ok:
  "realloc_ok (block_realloc 8 (0 :: nat)) 8 \<and> can_grow (block_realloc 8 0) 8 vec_example \<and> vec_wf vec_example
    \<and> vec_list vec_example = [5, 7, 9]"
  by (simp add: block_realloc_ok can_grow_def vec_example_def vec_wf_def vec_list_def)

theorem vector_refines_list_witness:
  "(\<exists>v'. VECTOR_PUSH_BACK (block_realloc 8 0) 8 vec_example 4 = Inr (3, v') \<and> vec_list v' = [5, 7, 9, 4]) \<and>
   (\<exists>v'. VECTOR_INSERT (block_realloc 8 0) 8 vec_example 1 4 = Inr v' \<and> vec_list v' = [5, 4, 7, 9]) \<and>
   (\<exists>v'. VECTOR_REMOVE vec_example 1 = Inr v' \<and> vec_list v' = [5, 9])"
proof -
  have l: "vlength vec_example = 3" by (simp add: vec_example_def)
  from vector_refines_list [of "block_realloc 8 0" 8 vec_example 4 1 0] vec_example_ok l show ?thesis by auto
qed

text \<open>
  \<open>VECTOR_REMOVE_BY_VALUE\<close> takes out the first occurrence of a value that is present, but a value
  that is absent makes it drop the last element, and on an empty vector the length wraps around to
  the largest \<open>size_t\<close>.
\<close>

theorem vector_remove_by_value_cases:
  assumes wf: "vec_wf v"
  shows "(x \<in> set (vec_list v) \<longrightarrow> (\<exists>v'. VECTOR_REMOVE_BY_VALUE v x = Inr v' \<and> vec_wf v' \<and>
      vec_list v' = remove1 x (vec_list v))) \<and>
    (x \<notin> set (vec_list v) \<and> vlength v \<noteq> 0 \<longrightarrow> (\<exists>v'. VECTOR_REMOVE_BY_VALUE v x = Inr v' \<and>
      vec_list v' = butlast (vec_list v))) \<and>
    (vlength v = 0 \<longrightarrow> (\<exists>v'. VECTOR_REMOVE_BY_VALUE v x = Inr v' \<and> unat (vlength v') = 18446744073709551615))"
proof (intro conjI impI)
  assume "x \<notin> set (vec_list v) \<and> vlength v \<noteq> 0"
  then have x: "x \<notin> set (vec_list v)" and n: "vlength v \<noteq> 0" by auto
  then obtain d where d: "vdata v = Some d" using vec_wf_None [OF wf] by (cases "vdata v") auto
  have "0 < unat (vlength v)" using n by (simp add: unat_gt_0)
  then have "unat (vlength v - 1) = unat (vlength v) - 1" using unat_sub_small [of 1 "vlength v"] by simp
  with remove_by_value_absent [OF wf x] d vec_wfD [OF wf d] show "\<exists>v'. VECTOR_REMOVE_BY_VALUE v x = Inr v' \<and>
      vec_list v' = butlast (vec_list v)"
    by (simp add: butlast_conv_take min.absorb2)
next
  assume z: "vlength v = 0"
  then have "x \<notin> set (vec_list v)" by (simp add: vec_list_def split: option.split)
  with remove_by_value_absent [OF wf this] z
  show "\<exists>v'. VECTOR_REMOVE_BY_VALUE v x = Inr v' \<and> unat (vlength v') = 18446744073709551615"
    by (simp add: unsigned_minus_1_eq_mask mask_eq_exp_minus_1)
qed (rule remove_by_value_list [OF wf])

theorem vector_remove_by_value_cases_witness:
  "(\<exists>v'. VECTOR_REMOVE_BY_VALUE vec_example 7 = Inr v' \<and> vec_list v' = [5, 9]) \<and>
   (\<exists>v'. VECTOR_REMOVE_BY_VALUE vec_example 8 = Inr v' \<and> vec_list v' = [5, 7])"
proof -
  have l: "vlength vec_example = 3" by (simp add: vec_example_def)
  from vector_remove_by_value_cases [of vec_example 7] vector_remove_by_value_cases [of vec_example 8]
    vec_example_ok l show ?thesis by auto
qed

end
