(* ===== verification/Lyre_Hashmap.thy ===== *)
theory Lyre_Hashmap
  imports Lyre_Vector
begin

text \<open>
  The hash maps of \<open>lib/hashmap.k.h\<close>, which hold the children of a directory, the file systems and
  the bound ports.  A map is an array of buckets, allocated at the first insertion; a bucket is a
  block of items of which the first \<open>filled\<close> are in use; an item holds its key in an array of 256
  bytes.  A key is the list of its bytes.  The allocator is an argument, as for vectors.
\<close>

subsection \<open>Data\<close>

record 'a hitem =
  key_data :: "u8 list"
  key_length :: u64
  item :: 'a

record 'a bucket =
  bcap :: u64
  filled :: u64
  items :: "'a hitem list option"

record 'a hashmap =
  hcap :: u64
  buckets :: "'a bucket list option"

definition HASHMAP_KEY_DATA_MAX :: nat where
  "HASHMAP_KEY_DATA_MAX = 256"

definition HASHMAP_INIT :: "u64 \<Rightarrow> 'a hashmap" where
  "HASHMAP_INIT c = \<lparr>hcap = c, buckets = None\<rparr>"

text \<open>A bucket in freshly zeroed memory.\<close>

definition zero_bucket :: "'a bucket" where
  "zero_bucket = \<lparr>bcap = 0, filled = 0, items = None\<rparr>"

subsection \<open>Operations\<close>

text \<open>The sdbm hash of the key, in 32-bit arithmetic.\<close>

definition hash_step :: "u32 \<Rightarrow> u8 \<Rightarrow> u32" where
  "hash_step h b = (let c = ucast b :: u32 in c + push_bit 6 h + push_bit 16 h - h)"

definition hash :: "u8 list \<Rightarrow> u32" where
  "hash key = foldl hash_step 0 key"

text \<open>The bucket's index: the hash, widened to \<open>size_t\<close>, modulo the capacity.\<close>

definition bucket_index :: "'a hashmap \<Rightarrow> u8 list \<Rightarrow> u64 result" where
  "bucket_index m key =
     (if hcap m = 0 then Inl (Panic ''divide error'') else Inr ((ucast (hash key) :: u64) mod hcap m))"

definition item_matches :: "u8 list \<Rightarrow> 'a hitem \<Rightarrow> bool" where
  "item_matches key it \<longleftrightarrow>
     of_nat (length key) = key_length it \<and> key = take (length key) (key_data it)"

definition item_cells :: "'a bucket \<Rightarrow> 'a hitem list result" where
  "item_cells b = (case items b of None \<Rightarrow> Inl NullDeref | Some c \<Rightarrow> Inr c)"

text \<open>The search loop that \<open>HASHMAP_GET\<close> and \<open>HASHMAP_REMOVE\<close> share.\<close>

function bucket_find :: "u8 list \<Rightarrow> 'a bucket \<Rightarrow> u64 \<Rightarrow> u64 option result" where
  "bucket_find key b i =
     (if i < filled b
      then rbind (item_cells b) (\<lambda>c. rbind (arr_get c (unat i)) (\<lambda>it.
             if item_matches key it then Inr (Some i) else bucket_find key b (i + 1)))
      else Inr None)"
  by pat_completeness auto
termination
  by (relation "measure (\<lambda>(key, b, i). unat (filled b) - unat i)")
    (auto simp: unat_Suc_less word_less_nat_alt)

declare bucket_find.simps [simp del]

definition HASHMAP_GET :: "'a hashmap \<Rightarrow> u8 list \<Rightarrow> 'a option result" where
  "HASHMAP_GET m key =
     (case buckets m of
        None \<Rightarrow> Inr None
      | Some bs \<Rightarrow>
          rbind (bucket_index m key) (\<lambda>index.
          rbind (arr_get bs (unat index)) (\<lambda>b.
          rbind (bucket_find key b 0) (\<lambda>r.
            case r of
              None \<Rightarrow> Inr None
            | Some i \<Rightarrow> rbind (item_cells b) (\<lambda>c. rbind (arr_get c (unat i)) (\<lambda>it. Inr (Some (item it))))))))"

definition remove_item :: "'a bucket \<Rightarrow> u64 \<Rightarrow> 'a bucket result" where
  "remove_item b i =
     (if i \<noteq> filled b - 1
      then rbind (item_cells b) (\<lambda>c. rbind (arr_get c (unat (filled b - 1))) (\<lambda>it.
             rbind (arr_set c (unat i) it) (\<lambda>c'. Inr (b\<lparr>items := Some c', filled := filled b - 1\<rparr>))))
      else Inr (b\<lparr>filled := filled b - 1\<rparr>))"

definition HASHMAP_REMOVE :: "'a hashmap \<Rightarrow> u8 list \<Rightarrow> (bool \<times> 'a hashmap) result" where
  "HASHMAP_REMOVE m key =
     (case buckets m of
        None \<Rightarrow> Inr (False, m)
      | Some bs \<Rightarrow>
          rbind (bucket_index m key) (\<lambda>index.
          rbind (arr_get bs (unat index)) (\<lambda>b.
          rbind (bucket_find key b 0) (\<lambda>r.
            case r of
              None \<Rightarrow> Inr (False, m)
            | Some i \<Rightarrow> rbind (remove_item b i) (\<lambda>b'.
                Inr (True, m\<lparr>buckets := Some (bs[unat index := b'])\<rparr>))))))"

text \<open>Growing a bucket: sixteen items at first, then twice as many.\<close>

definition bucket_room :: "'a hitem realloc \<Rightarrow> u64 \<Rightarrow> 'a bucket \<Rightarrow> 'a bucket" where
  "bucket_room realloc isz b =
     (let b1 = (if bcap b = 0 then b\<lparr>bcap := 16, items := realloc None (16 * isz)\<rparr> else b)
      in if filled b1 = bcap b1
         then b1\<lparr>bcap := bcap b1 * 2, items := realloc (items b1) (bcap b1 * 2 * isz)\<rparr> else b1)"

text \<open>Writing an item; \<open>memcpy\<close> of a key longer than the array leaves the item.\<close>

definition write_item :: "u8 list \<Rightarrow> 'a \<Rightarrow> 'a hitem \<Rightarrow> 'a hitem result" where
  "write_item key x it =
     (if length key \<le> HASHMAP_KEY_DATA_MAX
      then Inr (it\<lparr>key_data := key @ drop (length key) (key_data it),
                   key_length := of_nat (length key), item := x\<rparr>)
      else Inl OutOfBounds)"

definition bucket_append :: "'a hitem realloc \<Rightarrow> u64 \<Rightarrow> 'a bucket \<Rightarrow> u8 list \<Rightarrow> 'a \<Rightarrow> 'a bucket result" where
  "bucket_append realloc isz b key x =
     (let b1 = bucket_room realloc isz b
      in rbind (item_cells b1) (\<lambda>c.
         rbind (arr_get c (unat (filled b1))) (\<lambda>it.
         rbind (write_item key x it) (\<lambda>it'.
           Inr (b1\<lparr>items := Some (c[unat (filled b1) := it']), filled := filled b1 + 1\<rparr>)))))"

definition HASHMAP_INSERT ::
  "(u64 \<Rightarrow> 'a bucket list option) \<Rightarrow> 'a hitem realloc \<Rightarrow> u64 \<Rightarrow> 'a hashmap \<Rightarrow> u8 list \<Rightarrow> 'a \<Rightarrow> 'a hashmap result" where
  "HASHMAP_INSERT alloc realloc isz m key x =
     (let m1 = (if buckets m = None then m\<lparr>buckets := alloc (hcap m * 24)\<rparr> else m)
      in rbind (bucket_index m1 key) (\<lambda>index.
           case buckets m1 of
             None \<Rightarrow> Inl NullDeref
           | Some bs \<Rightarrow>
               rbind (arr_get bs (unat index)) (\<lambda>b.
               rbind (bucket_append realloc isz b key x) (\<lambda>b'.
                 Inr (m1\<lparr>buckets := Some (bs[unat index := b'])\<rparr>)))))"

subsection \<open>Specification\<close>

text \<open>The pairs a bucket holds, in order, and the partial map the whole table stands for.\<close>

definition entry_of :: "'a hitem \<Rightarrow> u8 list \<times> 'a" where
  "entry_of it = (take (unat (key_length it)) (key_data it), item it)"

definition bucket_entries :: "'a bucket \<Rightarrow> (u8 list \<times> 'a) list" where
  "bucket_entries b = (case items b of None \<Rightarrow> [] | Some c \<Rightarrow> map entry_of (take (unat (filled b)) c))"

definition bucket_of :: "'a hashmap \<Rightarrow> u8 list \<Rightarrow> nat" where
  "bucket_of m key = unat ((ucast (hash key) :: u64) mod hcap m)"

definition hm_map :: "'a hashmap \<Rightarrow> u8 list \<Rightarrow> 'a option" where
  "hm_map m key = (case buckets m of None \<Rightarrow> None | Some bs \<Rightarrow> map_of (bucket_entries (bs ! bucket_of m key)) key)"

definition item_wf :: "'a hitem \<Rightarrow> bool" where
  "item_wf it \<longleftrightarrow> length (key_data it) = HASHMAP_KEY_DATA_MAX"

definition bucket_wf :: "'a bucket \<Rightarrow> bool" where
  "bucket_wf b \<longleftrightarrow> (case items b of None \<Rightarrow> filled b = 0 \<and> bcap b = 0
     | Some c \<Rightarrow> bcap b \<noteq> 0 \<and> length c = unat (bcap b) \<and> filled b \<le> bcap b \<and> (\<forall>it\<in>set c. item_wf it) \<and>
         (\<forall>it\<in>set (take (unat (filled b)) c). unat (key_length it) \<le> HASHMAP_KEY_DATA_MAX))"

definition hm_wf :: "'a hashmap \<Rightarrow> bool" where
  "hm_wf m \<longleftrightarrow> hcap m \<noteq> 0 \<and> (case buckets m of None \<Rightarrow> True | Some bs \<Rightarrow> length bs = unat (hcap m) \<and>
     (\<forall>j < length bs. bucket_wf (bs ! j) \<and> distinct (map fst (bucket_entries (bs ! j))) \<and>
        (\<forall>key \<in> fst ` set (bucket_entries (bs ! j)). bucket_of m key = j)))"

text \<open>What a map relies on: zeroed buckets, and items that keep their contents when they move.\<close>

definition halloc_ok :: "(u64 \<Rightarrow> 'a bucket list option) \<Rightarrow> bool" where
  "halloc_ok alloc \<longleftrightarrow> (\<forall>n bs. alloc n = Some bs \<longrightarrow> bs = replicate (unat n div 24) zero_bucket)"

definition items_ok :: "'a hitem realloc \<Rightarrow> u64 \<Rightarrow> bool" where
  "items_ok realloc isz \<longleftrightarrow> realloc_ok realloc isz \<and> (\<forall>d n d'. realloc d n = Some d' \<longrightarrow>
     (case d of None \<Rightarrow> True | Some c \<Rightarrow> \<forall>it\<in>set c. item_wf it) \<longrightarrow> (\<forall>it\<in>set d'. item_wf it))"

definition bucket_can_grow :: "'a hitem realloc \<Rightarrow> u64 \<Rightarrow> 'a bucket \<Rightarrow> bool" where
  "bucket_can_grow realloc isz b \<longleftrightarrow> max 8 (unat (bcap b)) * 2 * unat isz < 18446744073709551616 \<and>
     (if bcap b = 0 then realloc None (16 * isz) \<noteq> None
      else filled b = bcap b \<longrightarrow> realloc (items b) (bcap b * 2 * isz) \<noteq> None)"

definition hm_can_grow ::
  "(u64 \<Rightarrow> 'a bucket list option) \<Rightarrow> 'a hitem realloc \<Rightarrow> u64 \<Rightarrow> 'a hashmap \<Rightarrow> bool" where
  "hm_can_grow alloc realloc isz m \<longleftrightarrow> unat (hcap m) * 24 < 18446744073709551616 \<and>
     (case buckets m of None \<Rightarrow> alloc (hcap m * 24) \<noteq> None \<and> bucket_can_grow realloc isz zero_bucket
      | Some bs \<Rightarrow> \<forall>b \<in> set bs. bucket_can_grow realloc isz b)"

subsection \<open>Searching a bucket\<close>

lemma item_matches_iff:
  assumes "item_wf it" and "unat (key_length it) \<le> HASHMAP_KEY_DATA_MAX" and "length key \<le> HASHMAP_KEY_DATA_MAX"
  shows "item_matches key it \<longleftrightarrow> fst (entry_of it) = key"
proof -
  have "of_nat (length key) = key_length it \<longleftrightarrow> length key = unat (key_length it)"
    using assms(3) unat_of_nat_small [of "length key"] by (auto simp: HASHMAP_KEY_DATA_MAX_def)
  then show ?thesis using assms
    by (auto simp: item_matches_def entry_of_def item_wf_def min.absorb2)
qed

lemma length_bucket_entries: "bucket_wf b \<Longrightarrow> length (bucket_entries b) = unat (filled b)"
  by (auto simp: bucket_wf_def bucket_entries_def word_le_nat_alt split: option.splits)

lemma bucket_item:
  assumes wf: "bucket_wf b" and i: "i < unat (filled b)"
  obtains c where "items b = Some c" and "i < length c" and "item_wf (c ! i)"
    and "unat (key_length (c ! i)) \<le> HASHMAP_KEY_DATA_MAX" and "bucket_entries b ! i = entry_of (c ! i)"
proof -
  obtain c where c: "items b = Some c" using wf i by (cases "items b") (auto simp: bucket_wf_def)
  have lt: "i < length c" using wf c i by (simp add: bucket_wf_def word_le_nat_alt)
  then have "c ! i \<in> set (take (unat (filled b)) c)" using i by (auto simp: in_set_conv_nth)
  with wf c lt i show ?thesis by (intro that [OF c lt]) (auto simp: bucket_wf_def bucket_entries_def)
qed

lemma bucket_find_spec:
  assumes "bucket_wf b" and "i \<le> filled b" and "length key \<le> HASHMAP_KEY_DATA_MAX"
  shows "bucket_find key b i = Inr (map_option of_nat
    (find (\<lambda>j. map fst (bucket_entries b) ! j = key) [unat i..<unat (filled b)]))"
  using assms
proof (induction key b i rule: bucket_find.induct)
  case (1 key b i)
  note len = length_bucket_entries [OF "1.prems"(1)]
  show ?case
  proof (cases "i < filled b")
    case True
    then have s: "unat (i + 1) = Suc (unat i)" and lt: "unat i < unat (filled b)"
      by (auto simp: unat_Suc_less word_less_nat_alt)
    obtain c where c: "items b = Some c" "unat i < length c" "item_wf (c ! unat i)"
      "unat (key_length (c ! unat i)) \<le> HASHMAP_KEY_DATA_MAX" "bucket_entries b ! unat i = entry_of (c ! unat i)"
      by (rule bucket_item [OF "1.prems"(1) lt])
    have m: "item_matches key (c ! unat i) \<longleftrightarrow> map fst (bucket_entries b) ! unat i = key"
      using item_matches_iff [OF c(3,4) "1.prems"(3)] c(5) lt len by simp
    have "i + 1 \<le> filled b" using s lt by (simp add: word_le_nat_alt)
    with "1.IH" [OF True, of c "c ! unat i"] True s lt c(1,2) m "1.prems" show ?thesis
      by (simp add: bucket_find.simps [of key b i] upt_conv_Cons item_cells_def)
  next
    case False
    with "1.prems" show ?thesis by (simp add: bucket_find.simps)
  qed
qed

lemma bucket_find_index:
  assumes wf: "bucket_wf b" and key: "length key \<le> HASHMAP_KEY_DATA_MAX"
  shows "bucket_find key b 0 = Inr (map_option of_nat (index_of key (map fst (bucket_entries b))))"
proof -
  have "unat (filled b) \<le> length (map fst (bucket_entries b))" using length_bucket_entries [OF wf] by simp
  from find_upt_index_of [OF _ this, of 0 key] bucket_find_spec [OF wf _ key, of 0]
    length_bucket_entries [OF wf] show ?thesis by (simp add: option.map_comp o_def)
qed

lemma map_of_index_of:
  "map_of xs k = (case index_of k (map fst xs) of None \<Rightarrow> None | Some j \<Rightarrow> Some (snd (xs ! j)))"
  by (induction xs) (auto split: option.splits)

subsection \<open>Changing a bucket\<close>

lemma bucket_of_less: "hm_wf m \<Longrightarrow> buckets m = Some bs \<Longrightarrow> bucket_of m key < length bs"
  by (simp add: hm_wf_def bucket_of_def unat_mod unat_gt_0)

lemma bucket_index_ok: "hm_wf m \<Longrightarrow> bucket_index m key = Inr ((ucast (hash key) :: u64) mod hcap m)"
  by (simp add: bucket_index_def hm_wf_def)

lemma remove_item_spec:
  assumes wf: "bucket_wf b" and i: "i < unat (filled b)"
  shows "\<exists>b'. remove_item b (of_nat i) = Inr b' \<and> bucket_wf b' \<and>
    bucket_entries b' = butlast ((bucket_entries b)[i := last (bucket_entries b)])"
proof -
  obtain c where c: "items b = Some c" by (rule bucket_item [OF wf i])
  let ?n = "unat (filled b)"
  have n: "?n \<le> length c" "length c = unat (bcap b)" using wf c by (auto simp: bucket_wf_def word_le_nat_alt)
  have n1: "unat (filled b - 1) = ?n - 1" using i unat_sub_small [of 1 "filled b"] by simp
  have ui: "unat (of_nat i :: u64) = i" using i unat_lt_two_power_64 [of "filled b"]
    by (intro unat_of_nat_small) linarith
  define c' where "c' = c[i := c ! (?n - 1)]"
  have same: "of_nat i = filled b - 1 \<Longrightarrow> c' = c"
    using ui n1 by (auto simp: c'_def)
  have up: "b\<lparr>items := Some c, filled := filled b - 1\<rparr> = b\<lparr>filled := filled b - 1\<rparr>"
    using c by (cases b) simp
  have run: "remove_item b (of_nat i) = Inr (b\<lparr>items := Some c', filled := filled b - 1\<rparr>)"
    using c n i n1 ui same up
    by (cases "of_nat i = filled b - 1") (auto simp: remove_item_def item_cells_def c'_def)
  have "last (map entry_of (take ?n c)) = entry_of (c ! (?n - 1))"
    using n(1) i by (subst last_conv_nth) (auto simp: min.absorb2)
  then have ent: "map entry_of (take (?n - 1) c') = butlast ((map entry_of (take ?n c))[i := last (map entry_of (take ?n c))])"
    using n(1) i by (intro nth_equalityI)
      (auto simp: c'_def nth_butlast nth_list_update min.absorb2)
  have "it \<in> set c" if "it \<in> set c'" for it
    using that n(1) i set_update_subset_insert [of c i "c ! (?n - 1)"] by (auto simp: c'_def)
  moreover have "it \<in> set (take ?n c)" if "it \<in> set (take (?n - 1) c')" for it
  proof -
    from that obtain j where "j < ?n - 1" "it = c' ! j" "j < length c" by (auto simp: in_set_conv_nth c'_def)
    then have "it = c ! (if i = j then ?n - 1 else j)" by (simp add: c'_def nth_list_update)
    moreover have "(if i = j then ?n - 1 else j) \<in> {0..<?n}" using \<open>j < ?n - 1\<close> by auto
    ultimately have "it \<in> nth c ` {0..<?n}" by blast
    then show ?thesis by (simp add: nth_image [OF n(1)])
  qed
  ultimately have "bucket_wf (b\<lparr>items := Some c', filled := filled b - 1\<rparr>)"
    using wf c n n1 by (auto simp: bucket_wf_def word_le_nat_alt c'_def)
  with run ent n1 c show ?thesis by (auto simp: bucket_entries_def)
qed

lemma map_of_less_one:
  assumes "add_mset x (mset ys) = mset xs" and "distinct (map fst xs)"
  shows "map_of ys = (map_of xs)(fst x := None)" and "distinct (map fst ys)" and "set ys \<subseteq> set xs"
proof -
  have m: "mset (x # ys) = mset xs" using assms(1) by simp
  then have "mset (map fst (x # ys)) = mset (map fst xs)" by (simp only: mset_map)
  then have d: "distinct (map fst (x # ys))" using assms(2) mset_eq_imp_distinct_iff by blast
  have s: "set (x # ys) = set xs" using m by (rule mset_eq_setD)
  show "distinct (map fst ys)" and "set ys \<subseteq> set xs" using d s by auto
  have xs: "map_of xs = map_of (x # ys)" by (rule map_of_inject_set [THEN iffD2, OF assms(2) d]) (rule s [symmetric])
  have "map_of ys (fst x) = None" using d by (simp add: map_of_eq_None_iff)
  then show "map_of ys = (map_of xs)(fst x := None)" by (auto simp: xs fun_eq_iff)
qed

lemma bucket_room_spec:
  assumes ok: "items_ok ra isz" and wf: "bucket_wf b" and grow: "bucket_can_grow ra isz b"
  shows "\<exists>c. items (bucket_room ra isz b) = Some c \<and> unat (filled b) < length c \<and>
    filled (bucket_room ra isz b) = filled b \<and> bucket_wf (bucket_room ra isz b) \<and>
    bucket_entries (bucket_room ra isz b) = bucket_entries b"
proof -
  have isz: "0 < unat isz" using ok by (simp add: items_ok_def realloc_ok_def unat_gt_0)
  have small: "max 8 (unat (bcap b)) * 2 * unat isz < 18446744073709551616"
    using grow by (simp add: bucket_can_grow_def)
  consider (new) "bcap b = 0" | (full) "bcap b \<noteq> 0" "filled b = bcap b" | (room) "bcap b \<noteq> 0" "filled b \<noteq> bcap b"
    by blast
  then show ?thesis
  proof cases
    case new
    then have none: "items b = None" "filled b = 0" using wf by (auto simp: bucket_wf_def split: option.splits)
    from new grow obtain c where c: "ra None (16 * isz) = Some c" by (auto simp: bucket_can_grow_def)
    have "unat (16 * isz) = 16 * unat isz" using small new by (intro unat_mult_small [of 16, simplified]) simp
    then have len: "length c = 16" using ok c isz by (auto simp: items_ok_def realloc_ok_def)
    have "\<forall>it\<in>set c. item_wf it" using ok c by (force simp: items_ok_def)
    moreover have "c \<noteq> []" using len by auto
    ultimately show ?thesis using c none new len
      by (simp add: bucket_room_def bucket_wf_def bucket_entries_def Let_def)
  next
    case full
    then obtain d where d: "items b = Some d" using wf by (cases "items b") (auto simp: bucket_wf_def)
    from full grow obtain c where c: "ra (Some d) (bcap b * 2 * isz) = Some c"
      by (auto simp: bucket_can_grow_def d)
    have le: "unat (bcap b) * 2 * unat isz \<le> max 8 (unat (bcap b)) * 2 * unat isz" by simp
    have "unat (bcap b) * 2 * 1 \<le> unat (bcap b) * 2 * unat isz" using isz by (intro mult_le_mono2) simp
    then have dbl: "unat (bcap b * 2) = unat (bcap b) * 2" using le small full(1) by (intro unat_double) linarith+
    have "unat (bcap b) * 2 * unat isz < 18446744073709551616" using le small by (rule le_less_trans)
    then have "unat (bcap b * 2 * isz) = unat (bcap b * 2) * unat isz"
      by (intro unat_mult_small) (simp only: dbl)
    then have len: "length c = unat (bcap b) * 2" using ok c isz dbl by (auto simp: items_ok_def realloc_ok_def)
    have dl: "length d = unat (bcap b)" and dw: "\<forall>it\<in>set d. item_wf it" using wf d by (auto simp: bucket_wf_def)
    have pre: "take (length d) c = d"
      using ok c dl len unfolding items_ok_def realloc_ok_def by fastforce
    have cw: "\<forall>it\<in>set c. item_wf it" using ok c dw unfolding items_ok_def by fastforce
    have pos: "0 < unat (bcap b)" using full(1) by (simp add: unat_gt_0)
    then have "bcap b * 2 \<noteq> 0" using dbl by (metis mult_eq_0_iff neq0_conv unat_0 zero_neq_numeral)
    with c d full len pos pre cw dl dbl wf show ?thesis
      by (auto simp: bucket_room_def bucket_wf_def bucket_entries_def Let_def word_le_nat_alt)
  next
    case room
    then obtain d where d: "items b = Some d" using wf by (cases "items b") (auto simp: bucket_wf_def)
    then have "filled b < bcap b" using wf room by (auto simp: bucket_wf_def)
    with room d wf show ?thesis
      by (auto simp: bucket_room_def bucket_wf_def Let_def word_less_nat_alt)
  qed
qed

lemma bucket_append_spec:
  assumes "items_ok ra isz" and "bucket_wf b" and "bucket_can_grow ra isz b"
    and key: "length key \<le> HASHMAP_KEY_DATA_MAX"
  shows "\<exists>b'. bucket_append ra isz b key x = Inr b' \<and> bucket_wf b' \<and>
    bucket_entries b' = bucket_entries b @ [(key, x)]"
proof -
  define b1 where "b1 = bucket_room ra isz b"
  from bucket_room_spec [OF assms(1-3)] obtain c where c: "items b1 = Some c" "unat (filled b) < length c"
    "filled b1 = filled b" "bucket_wf b1" "bucket_entries b1 = bucket_entries b" by (auto simp: b1_def)
  define it where "it = (c ! unat (filled b))\<lparr>key_data := key @ drop (length key) (key_data (c ! unat (filled b))),
    key_length := of_nat (length key), item := x\<rparr>"
  define b' where "b' = b1\<lparr>items := Some (c[unat (filled b) := it]), filled := filled b + 1\<rparr>"
  have "write_item key x (c ! unat (filled b)) = Inr it" using key by (simp add: write_item_def it_def)
  then have run: "bucket_append ra isz b key x = Inr b'"
    using c by (simp add: bucket_append_def Let_def b1_def [symmetric] item_cells_def b'_def)
  have len: "length c = unat (bcap b1)" and iw: "\<forall>it\<in>set c. item_wf it" using c by (auto simp: bucket_wf_def)
  have s: "unat (filled b + 1) = Suc (unat (filled b))" by (rule unat_length_Suc [OF c(2) len])
  have kl: "unat (key_length it) = length key" using key
    by (simp add: it_def HASHMAP_KEY_DATA_MAX_def unat_of_nat_small)
  have "item_wf (c ! unat (filled b))" using iw c(2) by simp
  then have itw: "item_wf it" using key by (simp add: item_wf_def it_def)
  have ent: "entry_of it = (key, x)" using kl by (simp add: entry_of_def) (simp add: it_def)
  have tk: "take (Suc (unat (filled b))) (c[unat (filled b) := it]) = take (unat (filled b)) c @ [it]"
    using c(2) by (simp add: take_Suc_conv_app_nth)
  have "set (c[unat (filled b) := it]) \<subseteq> insert it (set c)" by (rule set_update_subset_insert)
  then have "bucket_wf b'"
    using c len iw itw s tk kl key by (auto simp: bucket_wf_def b'_def word_le_nat_alt)
  moreover have "bucket_entries b' = bucket_entries b @ [(key, x)]"
    using c(1,3,5) s tk ent by (simp add: bucket_entries_def b'_def)
  ultimately show ?thesis using run by blast
qed

subsection \<open>The table as a map\<close>

lemma hm_wfD:
  assumes "hm_wf m" and "buckets m = Some bs"
  shows "bucket_wf (bs ! bucket_of m key)" and "distinct (map fst (bucket_entries (bs ! bucket_of m key)))"
    and "k \<in> fst ` set (bucket_entries (bs ! bucket_of m key)) \<Longrightarrow> bucket_of m k = bucket_of m key"
  using assms bucket_of_less [OF assms, of key] by (auto simp: hm_wf_def)

lemma bucket_of_put [simp]: "bucket_of (m\<lparr>buckets := x\<rparr>) k = bucket_of m k"
  by (simp add: bucket_of_def)

lemma hm_map_Some: "buckets m = Some bs \<Longrightarrow> hm_map m k = map_of (bucket_entries (bs ! bucket_of m k)) k"
  by (simp add: hm_map_def)

lemma hm_map_put:
  "j < length bs \<Longrightarrow> hm_map (m\<lparr>buckets := Some (bs[j := b'])\<rparr>) k =
    (if bucket_of m k = j then map_of (bucket_entries b') k else map_of (bucket_entries (bs ! bucket_of m k)) k)"
  by (simp add: hm_map_def)

lemma put_bucket:
  assumes wf: "hm_wf m" and bs: "buckets m = Some bs" and b': "bucket_wf b'"
    and dist: "distinct (map fst (bucket_entries b'))"
    and keys: "fst ` set (bucket_entries b') \<subseteq> insert key (fst ` set (bucket_entries (bs ! bucket_of m key)))"
    and mp: "map_of (bucket_entries b') = (map_of (bucket_entries (bs ! bucket_of m key)))(key := v)"
    and m': "m' = m\<lparr>buckets := Some (bs[bucket_of m key := b'])\<rparr>"
  shows "hm_wf m' \<and> hm_map m' = (hm_map m)(key := v)"
proof
  note lt = bucket_of_less [OF wf bs]
  have own: "\<forall>k \<in> fst ` set (bucket_entries b'). bucket_of m k = bucket_of m key"
    using keys hm_wfD(3) [OF wf bs] by blast
  show "hm_wf m'"
    using wf bs b' dist own lt [of key]
    by (auto simp: hm_wf_def m' nth_list_update)
  show "hm_map m' = (hm_map m)(key := v)"
  proof
    fix k
    show "hm_map m' k = ((hm_map m)(key := v)) k"
      using mp by (simp add: m' hm_map_put [OF lt] hm_map_Some [OF bs])
  qed
qed

lemma get_map:
  assumes wf: "hm_wf m" and key: "length key \<le> HASHMAP_KEY_DATA_MAX"
  shows "HASHMAP_GET m key = Inr (hm_map m key)"
proof (cases "buckets m")
  case None
  then show ?thesis by (simp add: HASHMAP_GET_def hm_map_def)
next
  case (Some bs)
  define b where "b = bs ! bucket_of m key"
  have b: "bucket_wf b" using hm_wfD(1) [OF wf Some] by (simp add: b_def)
  have idx: "arr_get bs (unat ((ucast (hash key) :: u64) mod hcap m)) = Inr b"
    using bucket_of_less [OF wf Some, of key] by (simp add: b_def bucket_of_def)
  show ?thesis
  proof (cases "index_of key (map fst (bucket_entries b))")
    case None
    with bucket_find_index [OF b key] idx Some bucket_index_ok [OF wf] map_of_index_of [of "bucket_entries b" key]
    show ?thesis by (simp add: HASHMAP_GET_def hm_map_def b_def [symmetric])
  next
    case (Some j)
    then have j: "j < unat (filled b)" using index_of_Some length_bucket_entries [OF b] by fastforce
    then have uj: "unat (of_nat j :: u64) = j" using unat_lt_two_power_64 [of "filled b"]
      by (intro unat_of_nat_small) linarith
    obtain c where c: "items b = Some c" "j < length c" "bucket_entries b ! j = entry_of (c ! j)"
      by (rule bucket_item [OF b j])
    from c Some uj bucket_find_index [OF b key] idx \<open>buckets m = Some bs\<close> bucket_index_ok [OF wf]
      map_of_index_of [of "bucket_entries b" key]
    show ?thesis by (simp add: HASHMAP_GET_def hm_map_def b_def [symmetric] item_cells_def entry_of_def)
  qed
qed

lemma remove_map:
  assumes wf: "hm_wf m" and key: "length key \<le> HASHMAP_KEY_DATA_MAX"
  shows "\<exists>m'. HASHMAP_REMOVE m key = Inr (hm_map m key \<noteq> None, m') \<and> hm_wf m' \<and> hm_map m' = (hm_map m)(key := None)"
proof (cases "buckets m")
  case None
  with wf show ?thesis by (auto simp: HASHMAP_REMOVE_def hm_map_def)
next
  case (Some bs)
  define b where "b = bs ! bucket_of m key"
  have b: "bucket_wf b" "distinct (map fst (bucket_entries b))"
    using hm_wfD(1,2) [OF wf Some] by (auto simp: b_def)
  have idx: "arr_get bs (unat ((ucast (hash key) :: u64) mod hcap m)) = Inr b"
    using bucket_of_less [OF wf Some, of key] by (simp add: b_def bucket_of_def)
  have hm: "hm_map m key = map_of (bucket_entries b) key" using Some by (simp add: hm_map_def b_def)
  show ?thesis
  proof (cases "index_of key (map fst (bucket_entries b))")
    case None
    with bucket_find_index [OF b(1) key] idx Some bucket_index_ok [OF wf] hm wf
      map_of_index_of [of "bucket_entries b" key]
    show ?thesis by (simp add: HASHMAP_REMOVE_def fun_upd_idem)
  next
    case (Some j)
    then have j: "j < length (bucket_entries b)" "fst (bucket_entries b ! j) = key"
      using index_of_Some by fastforce+
    obtain b' where b': "remove_item b (of_nat j) = Inr b'" "bucket_wf b'"
      "bucket_entries b' = butlast ((bucket_entries b)[j := last (bucket_entries b)])"
      using remove_item_spec [OF b(1), of j] j length_bucket_entries [OF b(1)] by auto
    have "add_mset (bucket_entries b ! j) (mset (bucket_entries b')) = mset (bucket_entries b)"
      unfolding b'(3) by (rule mset_swap_last [OF j(1)])
    note one = map_of_less_one [OF this b(2)]
    define m' where "m' = m\<lparr>buckets := Some (bs[bucket_of m key := b'])\<rparr>"
    have "hm_wf m' \<and> hm_map m' = (hm_map m)(key := None)"
      by (rule put_bucket [OF wf \<open>buckets m = Some bs\<close> b'(2) one(2) _ _ m'_def])
        (use one j(2) in \<open>auto simp: b_def\<close>)
    moreover have "HASHMAP_REMOVE m key = Inr (True, m')"
      using Some bucket_find_index [OF b(1) key] idx \<open>buckets m = Some bs\<close> bucket_index_ok [OF wf] b'(1)
      by (simp add: HASHMAP_REMOVE_def m'_def bucket_of_def)
    ultimately show ?thesis using hm Some map_of_index_of [of "bucket_entries b" key] by auto
  qed
qed

lemma zero_bucket_simps [simp]: "bucket_wf zero_bucket" "bucket_entries zero_bucket = []"
  by (simp_all add: zero_bucket_def bucket_wf_def bucket_entries_def)

text \<open>The first insertion allocates the buckets; the map it stands for does not change.\<close>

lemma first_alloc:
  assumes ok: "halloc_ok al" and wf: "hm_wf m" and grow: "hm_can_grow al ra isz m"
  shows "\<exists>m1 bs. (if buckets m = None then m\<lparr>buckets := al (hcap m * 24)\<rparr> else m) = m1 \<and> buckets m1 = Some bs \<and>
    hm_wf m1 \<and> hm_map m1 = hm_map m \<and> (\<forall>b \<in> set bs. bucket_can_grow ra isz b)"
proof (cases "buckets m")
  case (Some bs)
  with wf grow show ?thesis by (auto simp: hm_can_grow_def)
next
  case None
  with grow obtain bs where bs: "al (hcap m * 24) = Some bs" by (auto simp: hm_can_grow_def)
  have "unat (hcap m * 24) = unat (hcap m) * 24"
    using grow unat_mult_small [of "hcap m" 24] by (simp add: hm_can_grow_def)
  then have rep: "bs = replicate (unat (hcap m)) zero_bucket" using ok bs
    by (metis halloc_ok_def nonzero_mult_div_cancel_right zero_neq_numeral)
  have nz: "hcap m \<noteq> 0" using wf by (simp add: hm_wf_def)
  have lt: "unat ((ucast (hash k) :: u64) mod hcap m) < unat (hcap m)" for k
    using nz by (simp add: unat_mod unat_gt_0)
  have "hm_map (m\<lparr>buckets := Some bs\<rparr>) = hm_map m"
    using None lt by (auto simp: hm_map_def rep bucket_of_def fun_eq_iff)
  moreover have "hm_wf (m\<lparr>buckets := Some bs\<rparr>)" using nz by (simp add: hm_wf_def rep)
  ultimately show ?thesis using None bs rep grow by (auto simp: hm_can_grow_def)
qed

lemma insert_entry:
  assumes ok: "halloc_ok al" "items_ok ra isz" and wf: "hm_wf m" and grow: "hm_can_grow al ra isz m"
    and key: "length key \<le> HASHMAP_KEY_DATA_MAX"
  shows "\<exists>m1 bs b'. hm_wf m1 \<and> hm_map m1 = hm_map m \<and> buckets m1 = Some bs \<and> bucket_wf b' \<and>
    bucket_entries b' = bucket_entries (bs ! bucket_of m1 key) @ [(key, x)] \<and>
    HASHMAP_INSERT al ra isz m key x = Inr (m1\<lparr>buckets := Some (bs[bucket_of m1 key := b'])\<rparr>)"
proof -
  from first_alloc [OF ok(1) wf grow] obtain m1 bs where
    m1: "(if buckets m = None then m\<lparr>buckets := al (hcap m * 24)\<rparr> else m) = m1" "buckets m1 = Some bs"
      "hm_wf m1" "hm_map m1 = hm_map m" "\<forall>b \<in> set bs. bucket_can_grow ra isz b" by blast
  note lt = bucket_of_less [OF m1(3,2), of key]
  obtain b' where b': "bucket_append ra isz (bs ! bucket_of m1 key) key x = Inr b'" "bucket_wf b'"
    "bucket_entries b' = bucket_entries (bs ! bucket_of m1 key) @ [(key, x)]"
    using bucket_append_spec [OF ok(2) hm_wfD(1) [OF m1(3,2)] _ key] m1(5) lt by (meson nth_mem)
  have "HASHMAP_INSERT al ra isz m key x = Inr (m1\<lparr>buckets := Some (bs[bucket_of m1 key := b'])\<rparr>)"
    unfolding HASHMAP_INSERT_def m1(1) Let_def
    using m1(2) lt b'(1) bucket_index_ok [OF m1(3), of key] by (simp add: bucket_of_def)
  with m1 b' show ?thesis by blast
qed

lemma insert_map:
  assumes "halloc_ok al" "items_ok ra isz" and "hm_wf m" and "hm_can_grow al ra isz m"
    and "length key \<le> HASHMAP_KEY_DATA_MAX" and new: "hm_map m key = None"
  shows "\<exists>m'. HASHMAP_INSERT al ra isz m key x = Inr m' \<and> hm_wf m' \<and> hm_map m' = (hm_map m)(key \<mapsto> x)"
proof -
  from insert_entry [OF assms(1-5), of x] obtain m1 bs b' where
    m1: "hm_wf m1" "hm_map m1 = hm_map m" "buckets m1 = Some bs" and b': "bucket_wf b'"
      "bucket_entries b' = bucket_entries (bs ! bucket_of m1 key) @ [(key, x)]"
    and run: "HASHMAP_INSERT al ra isz m key x = Inr (m1\<lparr>buckets := Some (bs[bucket_of m1 key := b'])\<rparr>)"
    by blast
  have fresh: "map_of (bucket_entries (bs ! bucket_of m1 key)) key = None"
    using new m1(2,3) by (metis hm_map_def option.simps(5))
  then have "key \<notin> fst ` set (bucket_entries (bs ! bucket_of m1 key))" by (simp add: map_of_eq_None_iff)
  moreover have "map_of (bucket_entries b') = (map_of (bucket_entries (bs ! bucket_of m1 key)))(key \<mapsto> x)"
    using fresh by (auto simp: b'(2) fun_eq_iff map_add_def split: option.splits)
  ultimately have "hm_wf (m1\<lparr>buckets := Some (bs[bucket_of m1 key := b'])\<rparr>) \<and>
    hm_map (m1\<lparr>buckets := Some (bs[bucket_of m1 key := b'])\<rparr>) = (hm_map m1)(key \<mapsto> x)"
    using hm_wfD(2) [OF m1(1,3), of key] by (intro put_bucket [OF m1(1,3) b'(1)]) (auto simp: b'(2))
  with run m1(2) show ?thesis by auto
qed

lemma insert_duplicate:
  assumes "halloc_ok al" "items_ok ra isz" and "hm_wf m" and "hm_can_grow al ra isz m"
    and "length key \<le> HASHMAP_KEY_DATA_MAX" and old: "hm_map m key = Some y"
  shows "\<exists>m'. HASHMAP_INSERT al ra isz m key x = Inr m' \<and> hm_map m' = hm_map m"
proof -
  from insert_entry [OF assms(1-5), of x] obtain m1 bs b' where
    m1: "hm_wf m1" "hm_map m1 = hm_map m" "buckets m1 = Some bs" and b': "bucket_wf b'"
      "bucket_entries b' = bucket_entries (bs ! bucket_of m1 key) @ [(key, x)]"
    and run: "HASHMAP_INSERT al ra isz m key x = Inr (m1\<lparr>buckets := Some (bs[bucket_of m1 key := b'])\<rparr>)"
    by blast
  define m' where "m' = m1\<lparr>buckets := Some (bs[bucket_of m1 key := b'])\<rparr>"
  have here: "map_of (bucket_entries (bs ! bucket_of m1 key)) key = Some y"
    using old m1(2,3) by (metis hm_map_def option.simps(5))
  have "hm_map m' k = hm_map m1 k" for k
    using here bucket_of_less [OF m1(1,3), of key]
    by (auto simp: m'_def hm_map_put hm_map_Some [OF m1(3)] b'(2) map_add_def split: option.splits)
  with run m1(2) show ?thesis by (auto simp: m'_def fun_eq_iff)
qed

subsection \<open>The dictionary interface\<close>

text \<open>
  What the clients of a hash map use: a partial map with lookup, insertion of a new key and removal,
  for the keys the table can store.
\<close>

locale dictionary =
  fixes wf :: "'m \<Rightarrow> bool" and look :: "'m \<Rightarrow> 'k \<Rightarrow> 'v option" and fits :: "'k \<Rightarrow> bool"
    and room :: "'m \<Rightarrow> bool" and get :: "'m \<Rightarrow> 'k \<Rightarrow> 'v option result"
    and ins :: "'m \<Rightarrow> 'k \<Rightarrow> 'v \<Rightarrow> 'm result" and del :: "'m \<Rightarrow> 'k \<Rightarrow> (bool \<times> 'm) result"
  assumes get_ok: "wf m \<Longrightarrow> fits k \<Longrightarrow> get m k = Inr (look m k)"
    and ins_ok: "wf m \<Longrightarrow> fits k \<Longrightarrow> room m \<Longrightarrow> look m k = None \<Longrightarrow>
      \<exists>m'. ins m k x = Inr m' \<and> wf m' \<and> look m' = (look m)(k \<mapsto> x)"
    and del_ok: "wf m \<Longrightarrow> fits k \<Longrightarrow>
      \<exists>m'. del m k = Inr (look m k \<noteq> None, m') \<and> wf m' \<and> look m' = (look m)(k := None)"
begin

lemma get_after_ins:
  assumes "wf m" and "fits k" and "fits k'" and "room m" and "look m k = None"
  shows "\<exists>m'. ins m k x = Inr m' \<and> wf m' \<and> get m' k' = Inr (if k' = k then Some x else look m k')"
  using ins_ok [OF assms(1,2,4,5), of x] get_ok [OF _ assms(3)] by auto

lemma ins_del:
  assumes "wf m" and "fits k" and "room m" and "look m k = None"
  shows "\<exists>m' m''. ins m k x = Inr m' \<and> del m' k = Inr (True, m'') \<and> wf m'' \<and> look m'' = look m"
proof -
  from ins_ok [OF assms, of x] obtain m' where m': "ins m k x = Inr m'" "wf m'" "look m' = (look m)(k \<mapsto> x)"
    by blast
  with del_ok [OF m'(2) assms(2)] assms(4) show ?thesis by (auto simp: fun_upd_idem)
qed

end

interpretation hm: dictionary hm_wf hm_map "\<lambda>key. length key \<le> HASHMAP_KEY_DATA_MAX"
  "\<lambda>m. halloc_ok al \<and> items_ok ra isz \<and> hm_can_grow al ra isz m" HASHMAP_GET
  "HASHMAP_INSERT al ra isz" HASHMAP_REMOVE for al ra isz
  by unfold_locales (blast intro: get_map insert_map remove_map)+

subsection \<open>Properties\<close>

text \<open>
  C26. A hash map implements a partial map from keys of at most 256 bytes: \<open>HASHMAP_GET\<close> returns what
  the map holds, \<open>HASHMAP_INSERT\<close> of a new key adds exactly that key, growing its bucket when it is
  full, and \<open>HASHMAP_REMOVE\<close> takes out exactly that key and reports whether it was there.
\<close>

theorem hashmap_refines_map:
  assumes "hm_wf m" and "length key \<le> HASHMAP_KEY_DATA_MAX"
  shows "HASHMAP_GET m key = Inr (hm_map m key) \<and>
    (halloc_ok al \<and> items_ok ra isz \<and> hm_can_grow al ra isz m \<and> hm_map m key = None \<longrightarrow>
      (\<exists>m'. HASHMAP_INSERT al ra isz m key x = Inr m' \<and> hm_wf m' \<and> hm_map m' = (hm_map m)(key \<mapsto> x))) \<and>
    (\<exists>m'. HASHMAP_REMOVE m key = Inr (hm_map m key \<noteq> None, m') \<and> hm_wf m' \<and> hm_map m' = (hm_map m)(key := None))"
  using hm.get_ok [OF assms] hm.ins_ok [OF assms, of al ra isz x] hm.del_ok [OF assms] by blast

text \<open>An allocator for the examples: zeroed buckets, and items of 8-byte values.\<close>

definition zero_buckets :: "u64 \<Rightarrow> 'a bucket list option" where
  "zero_buckets n = Some (replicate (unat n div 24) zero_bucket)"

definition item_realloc :: "'a :: zero hitem realloc" where
  "item_realloc = block_realloc 272 \<lparr>key_data = replicate 256 0, key_length = 0, item = 0\<rparr>"

lemma item_realloc_ok: "items_ok (item_realloc :: 'a :: zero hitem realloc) 272"
proof -
  have "item_wf \<lparr>key_data = replicate 256 0, key_length = 0, item = 0 :: 'a\<rparr>"
    by (simp add: item_wf_def HASHMAP_KEY_DATA_MAX_def)
  then show ?thesis
    by (auto simp: items_ok_def item_realloc_def block_realloc_ok block_realloc_def Let_def
        split: option.splits dest: in_set_takeD)
qed

lemma hm_example:
  "hm_wf (HASHMAP_INIT 4 :: 'a :: zero hashmap)" "hm_map (HASHMAP_INIT 4 :: 'a hashmap) = Map.empty"
  "halloc_ok (zero_buckets :: u64 \<Rightarrow> 'a bucket list option)" "hm_can_grow zero_buckets item_realloc 272 (HASHMAP_INIT 4 :: 'a hashmap)"
  by (auto simp: hm_wf_def HASHMAP_INIT_def hm_map_def halloc_ok_def zero_buckets_def hm_can_grow_def
      bucket_can_grow_def zero_bucket_def item_realloc_def block_realloc_def)

theorem hashmap_refines_map_witness:
  "HASHMAP_GET (HASHMAP_INIT 4 :: nat hashmap) [0x61] = Inr None \<and>
   (\<exists>m'. HASHMAP_INSERT zero_buckets item_realloc 272 (HASHMAP_INIT 4 :: nat hashmap) [0x61] 5 = Inr m' \<and>
      hm_wf m' \<and> hm_map m' = [[0x61] \<mapsto> 5])"
  using hashmap_refines_map [of "HASHMAP_INIT 4 :: nat hashmap" "[0x61]" zero_buckets item_realloc 272 5]
  by (auto simp: HASHMAP_KEY_DATA_MAX_def hm_example item_realloc_ok)

text \<open>
  \<open>HASHMAP_INSERT\<close> does not look for the key: inserting a key that is already there takes a new
  item but no lookup sees it, for the old item is found first; and a key longer than 256 bytes is
  written past the item's key array.
\<close>

theorem hashmap_insert_unchecked:
  assumes "halloc_ok al" "items_ok ra isz" and "hm_wf m" and "hm_can_grow al ra isz m"
  shows "(length key \<le> HASHMAP_KEY_DATA_MAX \<and> hm_map m key = Some y \<longrightarrow>
      (\<exists>m'. HASHMAP_INSERT al ra isz m key x = Inr m' \<and> hm_map m' = hm_map m)) \<and>
    (length key > HASHMAP_KEY_DATA_MAX \<longrightarrow> HASHMAP_INSERT al ra isz m key x = Inl OutOfBounds)"
proof (intro conjI impI)
  assume "length key \<le> HASHMAP_KEY_DATA_MAX \<and> hm_map m key = Some y"
  then show "\<exists>m'. HASHMAP_INSERT al ra isz m key x = Inr m' \<and> hm_map m' = hm_map m"
    using insert_duplicate [OF assms] by blast
next
  assume long: "length key > HASHMAP_KEY_DATA_MAX"
  from first_alloc [OF assms(1,3,4)] obtain m1 bs where
    m1: "(if buckets m = None then m\<lparr>buckets := al (hcap m * 24)\<rparr> else m) = m1" "buckets m1 = Some bs"
      "hm_wf m1" "\<forall>b \<in> set bs. bucket_can_grow ra isz b" by blast
  define b where "b = bs ! bucket_of m1 key"
  have "b \<in> set bs" using bucket_of_less [OF m1(3,2)] by (simp add: b_def)
  with bucket_room_spec [OF assms(2) hm_wfD(1) [OF m1(3,2), of key]] m1(4) obtain c where
    c: "items (bucket_room ra isz b) = Some c" "unat (filled b) < length c"
      "filled (bucket_room ra isz b) = filled b" by (auto simp: b_def)
  have "bucket_append ra isz b key x = Inl OutOfBounds"
    using c long by (simp add: bucket_append_def Let_def item_cells_def write_item_def)
  then show "HASHMAP_INSERT al ra isz m key x = Inl OutOfBounds"
    unfolding HASHMAP_INSERT_def m1(1) Let_def
    using m1(2) bucket_of_less [OF m1(3,2), of key] bucket_index_ok [OF m1(3), of key]
    by (simp add: bucket_of_def b_def)
qed

theorem hashmap_insert_unchecked_witness:
  "HASHMAP_INSERT zero_buckets item_realloc 272 (HASHMAP_INIT 4 :: nat hashmap) (replicate 257 0x61) 5 = Inl OutOfBounds"
  using hashmap_insert_unchecked [OF hm_example(3) item_realloc_ok hm_example(1,4), of "replicate 257 0x61"]
  by (simp add: HASHMAP_KEY_DATA_MAX_def)

end
