(* ===== verification/Lyre_Random.thy ===== *)
theory Lyre_Random
  imports Lyre_Lock Lyre_Libc
begin

text \<open>
  The pseudo-random generator of \<open>lib/random.c\<close>, a Mersenne Twister.  Its state is the array \<open>mt\<close> of
  312 words, the read index and the lock.  Interrupt masking is not part of the state; the values of
  the instructions \<open>rdtsc\<close>, \<open>rdseed\<close>, \<open>rdrand\<close> and \<open>cpuid\<close> are arguments of \<open>random_init\<close>.
\<close>

unbundle bit_operations_syntax

subsection \<open>State and operations\<close>

record rng =
  rng_lock :: spinlock
  mt :: "u64 list"
  mt_index :: u64

definition MT_N :: nat where "MT_N = 312"
definition MT_M :: nat where "MT_M = 156"
definition MT_A :: u64 where "MT_A = 0xB5026F5AA96619E9"
definition MT_D :: u64 where "MT_D = 0x5555555555555555"
definition MT_B :: u64 where "MT_B = 0x71D67FFFEDA60000"
definition MT_C :: u64 where "MT_C = 0xFFF7EEE000000000"
definition MT_F :: u64 where "MT_F = 0x5851F42D4C957F2D"

text \<open>
  In \<open>(uint64_t)(1 << 31) - 1\<close> the shift is done in the 32-bit type \<open>int\<close>; the cast then extends its
  sign.
\<close>

definition MT_LOWER_MASK :: u64 where
  "MT_LOWER_MASK = (scast (push_bit 31 1 :: u32) :: u64) - 1"

definition MT_UPPER_MASK :: u64 where
  "MT_UPPER_MASK = NOT MT_LOWER_MASK"

text \<open>The static variables before the first call.\<close>

definition rng_static :: rng where
  "rng_static = \<lparr>rng_lock = SPINLOCK_INIT, mt = replicate 312 0, mt_index = 312\<rparr>"

definition twist_word :: "u64 \<Rightarrow> u64 \<Rightarrow> u64 \<Rightarrow> u64" where
  "twist_word a b c =
     (let x = (a AND MT_UPPER_MASK) + (b AND MT_LOWER_MASK);
          xa = drop_bit 1 x
      in c XOR (if x AND 1 \<noteq> 0 then xa XOR MT_A else xa))"

definition twist_step :: "u64 \<Rightarrow> u64 list \<Rightarrow> u64 list result" where
  "twist_step i t =
     rbind (arr_get t (unat i)) (\<lambda>a.
     rbind (arr_get t ((unat i + 1) mod MT_N)) (\<lambda>b.
     rbind (arr_get t ((unat i + MT_M) mod MT_N)) (\<lambda>c.
       arr_set t (unat i) (twist_word a b c))))"

definition twist :: "rng \<Rightarrow> rng result" where
  "twist r = rbind (for_range twist_step 0 (of_nat MT_N - 1) (mt r)) (\<lambda>t. Inr (r\<lparr>mt := t, mt_index := 0\<rparr>))"

definition temper :: "u64 \<Rightarrow> u64" where
  "temper y0 =
     (let y1 = y0 XOR (drop_bit 29 y0 AND MT_D);
          y2 = y1 XOR (drop_bit 17 y1 AND MT_B);
          y3 = y2 XOR (drop_bit 37 y2 AND MT_C)
      in y3 XOR drop_bit 43 y3)"

definition generate :: "rng \<Rightarrow> (u64 \<times> rng) result" where
  "generate r =
     rbind (if mt_index r \<ge> of_nat MT_N then twist r else Inr r) (\<lambda>r1.
     rbind (arr_get (mt r1) (unat (mt_index r1))) (\<lambda>y.
       Inr (temper y, r1\<lparr>mt_index := mt_index r1 + 1\<rparr>)))"

definition seed_step :: "u64 \<Rightarrow> u64 list \<Rightarrow> u64 list result" where
  "seed_step i t =
     rbind (arr_get t (unat (i - 1))) (\<lambda>p. arr_set t (unat i) (MT_F * (p XOR drop_bit 62 p) + i))"

definition random_seed :: "u64 \<Rightarrow> rng \<Rightarrow> rng result" where
  "random_seed seed r =
     rbind (spinlock_acquire ''random_seed'' (rng_lock r)) (\<lambda>l.
     rbind (arr_set (mt r) 0 seed) (\<lambda>t0.
     rbind (for_range seed_step 1 (of_nat MT_N - 1) t0) (\<lambda>t.
       Inr (r\<lparr>mt_index := of_nat MT_N, mt := t, rng_lock := spinlock_release l\<rparr>))))"

definition random_init ::
  "u64 \<Rightarrow> u64 \<Rightarrow> u32 option \<Rightarrow> u32 option \<Rightarrow> u64 \<Rightarrow> u64 \<Rightarrow> rng \<Rightarrow> rng result" where
  "random_init tsc1 tsc2 cpuid7_ebx cpuid1_ecx rdseed rdrand r =
     (let seed = ((0x9cf3ed8e4ebfb137 * tsc1) * 0xafc9f54a2fe9fbdb) XOR (0xfad8da40a3a48b8c * tsc2);
          has = (\<lambda>reg n. case reg of None \<Rightarrow> False | Some w \<Rightarrow> bit w n);
          seed' = (if has cpuid7_ebx 18 then seed * (seed XOR rdseed)
                   else if has cpuid1_ecx 30 then seed * (seed XOR rdrand) else seed)
      in random_seed seed' r)"

text \<open>Filling a buffer: whole words first, then the low bytes of one more word.\<close>

definition put_word :: "u64 \<Rightarrow> u64 \<Rightarrow> mem \<Rightarrow> mem" where
  "put_word buf v m = for_pure (\<lambda>i m. m(buf + i := ucast (drop_bit (8 * unat i) v AND 0xFF))) 0 8 m"

function fill_words :: "u64 \<Rightarrow> u64 \<Rightarrow> rng \<Rightarrow> mem \<Rightarrow> (u64 \<times> u64 \<times> rng \<times> mem) result" where
  "fill_words buf len r m =
     (if len \<ge> 8
      then rbind (generate r) (\<lambda>(v, r'). fill_words (buf + 8) (len - 8) r' (put_word buf v m))
      else Inr (buf, len, r, m))"
  by pat_completeness auto
termination
proof (relation "measure (\<lambda>(buf, len, r, m). unat len)", simp)
  fix buf len :: u64 and r r' :: rng and m :: mem and x xa v
  assume "8 \<le> len"
  then have "unat (len - 8) = unat len - 8" "8 \<le> unat len"
    using unat_sub_small [of 8 len] by (simp_all add: word_le_nat_alt)
  then show "((buf + 8, len - 8, r', put_word buf v m), buf, len, r, m) \<in> measure (\<lambda>(buf, len, r, m). unat len)"
    by simp
qed

declare fill_words.simps [simp del]

definition tail_step :: "u64 \<Rightarrow> u64 \<Rightarrow> u64 \<times> mem \<Rightarrow> u64 \<times> mem" where
  "tail_step buf i = (\<lambda>(v, m). (drop_bit 8 v, m(buf + i := ucast (v AND 0xFF))))"

definition random_fill :: "u64 \<Rightarrow> u64 \<Rightarrow> rng \<Rightarrow> mem \<Rightarrow> (rng \<times> mem) result" where
  "random_fill buf len r m =
     rbind (spinlock_acquire ''random_fill'' (rng_lock r)) (\<lambda>l.
     rbind (fill_words buf len (r\<lparr>rng_lock := l\<rparr>) m) (\<lambda>(buf', len', r1, m1).
     rbind (if len' > 0
            then rbind (generate r1) (\<lambda>(v, r2). Inr (r2, snd (for_pure (tail_step buf') 0 len' (v, m1))))
            else Inr (r1, m1)) (\<lambda>(r3, m3).
       Inr (r3\<lparr>rng_lock := spinlock_release (rng_lock r3)\<rparr>, m3))))"

definition random_generate :: "rng \<Rightarrow> (u64 \<times> rng) result" where
  "random_generate r =
     rbind (spinlock_acquire ''random_generate'' (rng_lock r)) (\<lambda>l.
     rbind (generate (r\<lparr>rng_lock := l\<rparr>)) (\<lambda>(v, r').
       Inr (v, r'\<lparr>rng_lock := spinlock_release (rng_lock r')\<rparr>)))"

subsection \<open>Invariant\<close>

definition rng_wf :: "rng \<Rightarrow> bool" where
  "rng_wf r \<longleftrightarrow> length (mt r) = MT_N \<and> mt_index r \<le> of_nat MT_N"

text \<open>The last word of the array.\<close>

definition last_word :: "rng \<Rightarrow> u64" where
  "last_word r = mt r ! (MT_N - 1)"

lemma twist_array:
  assumes "length t = MT_N"
  shows "\<exists>t'. for_range twist_step 0 (of_nat MT_N - 1) t = Inr t' \<and> length t' = MT_N \<and>
    t' ! (MT_N - 1) = t ! (MT_N - 1)"
  by (rule for_range_rule [where I = "\<lambda>_ t'. length t' = MT_N \<and> t' ! (MT_N - 1) = t ! (MT_N - 1)"])
    (use assms in \<open>auto simp: twist_step_def MT_N_def word_less_nat_alt\<close>)

lemma seed_array:
  assumes "length t = MT_N"
  shows "\<exists>t'. for_range seed_step 1 (of_nat MT_N - 1) t = Inr t' \<and> length t' = MT_N \<and>
    t' ! (MT_N - 1) = t ! (MT_N - 1)"
proof (rule for_range_rule [where I = "\<lambda>_ t'. length t' = MT_N \<and> t' ! (MT_N - 1) = t ! (MT_N - 1)"])
  fix k :: u64 and t'
  assume k: "unat (1 :: u64) \<le> unat k" "k < of_nat MT_N - 1" and t': "length t' = MT_N \<and> t' ! (MT_N - 1) = t ! (MT_N - 1)"
  have "unat k < 311" using k(2) by (simp add: MT_N_def word_less_nat_alt)
  moreover have "unat (k - 1) = unat k - 1" using unat_sub_small [of 1 k] k(1) by simp
  ultimately show "\<exists>s'. seed_step k t' = Inr s' \<and> length s' = MT_N \<and> s' ! (MT_N - 1) = t ! (MT_N - 1)"
    using t' by (simp add: seed_step_def MT_N_def)
qed (use assms in \<open>auto simp: MT_N_def word_le_nat_alt\<close>)

lemma generate_ok:
  assumes wf: "rng_wf r"
  shows "\<exists>v r'. generate r = Inr (v, r') \<and> rng_wf r' \<and> last_word r' = last_word r \<and> rng_lock r' = rng_lock r"
proof -
  obtain r1 where r1: "(if mt_index r \<ge> of_nat MT_N then twist r else Inr r) = Inr r1"
    "length (mt r1) = MT_N" "mt_index r1 < of_nat MT_N" "last_word r1 = last_word r" "rng_lock r1 = rng_lock r"
  proof (cases "mt_index r \<ge> of_nat MT_N")
    case True
    from twist_array [of "mt r"] wf obtain t' where
      "for_range twist_step 0 (of_nat MT_N - 1) (mt r) = Inr t'" "length t' = MT_N"
      "t' ! (MT_N - 1) = mt r ! (MT_N - 1)" by (auto simp: rng_wf_def)
    with True that [of "r\<lparr>mt := t', mt_index := 0\<rparr>"] show ?thesis
      by (simp add: twist_def last_word_def MT_N_def)
  next
    case False
    with wf that [of r] show ?thesis by (simp add: rng_wf_def)
  qed
  have "unat (mt_index r1) < MT_N" using r1(3) by (simp add: word_less_nat_alt MT_N_def)
  moreover have "mt_index r1 + 1 \<le> of_nat MT_N"
    using unat_Suc_less [OF r1(3)] r1(3) by (simp add: word_less_nat_alt word_le_nat_alt MT_N_def)
  ultimately show ?thesis using r1 by (simp add: generate_def rng_wf_def last_word_def)
qed

lemma random_seed_ok:
  assumes "rng_wf r" and "unlocked (rng_lock r)"
  shows "\<exists>r'. random_seed s r = Inr r' \<and> rng_wf r' \<and> unlocked (rng_lock r') \<and> last_word r' = last_word r"
proof -
  have "length ((mt r)[0 := s]) = MT_N" using assms by (simp add: rng_wf_def)
  from seed_array [OF this] assms show ?thesis
    by (auto simp: random_seed_def klock rng_wf_def last_word_def MT_N_def)
qed

subsection \<open>Filling a buffer\<close>

text \<open>The next \<open>n\<close> values of the generator.\<close>

primrec gen_n :: "nat \<Rightarrow> rng \<Rightarrow> (u64 list \<times> rng) result" where
  "gen_n 0 r = Inr ([], r)"
| "gen_n (Suc n) r = rbind (generate r) (\<lambda>(v, r'). rbind (gen_n n r') (\<lambda>(vs, r''). Inr (v # vs, r'')))"

text \<open>Byte \<open>o\<close> of a sequence of words, lowest byte first.\<close>

definition byte_at :: "u64 list \<Rightarrow> nat \<Rightarrow> u8" where
  "byte_at vs i = ucast (drop_bit (8 * (i mod 8)) (vs ! (i div 8)))"

lemma ucast_and_FF: "ucast (w AND 0xFF :: u64) = (ucast w :: u8)"
proof (rule bit_word_eqI)
  fix n
  assume n: "n < LENGTH(8)"
  have ff: "(0xFF :: u64) = mask 8" by (simp add: mask_eq_exp_minus_1)
  show "bit (ucast (w AND 0xFF) :: u8) n = bit (ucast w :: u8) n"
    unfolding ff using n by (simp add: bit_ucast_iff bit_and_iff bit_mask_iff)
qed

lemma gen_n_append:
  "gen_n (m + n) r = rbind (gen_n m r) (\<lambda>(vs, r'). rbind (gen_n n r') (\<lambda>(ws, r''). Inr (vs @ ws, r'')))"
proof (induction m arbitrary: r)
  case 0
  then show ?case by (cases "gen_n n r") auto
next
  case (Suc m)
  then show ?case by (cases "generate r") (auto simp: rbind_assoc split_def)
qed

lemma gen_n_ok:
  "rng_wf r \<Longrightarrow> \<exists>vs r'. gen_n n r = Inr (vs, r') \<and> length vs = n \<and> rng_wf r' \<and> last_word r' = last_word r \<and>
    rng_lock r' = rng_lock r"
proof (induction n arbitrary: r)
  case (Suc n)
  from generate_ok [OF Suc.prems] obtain v r1 where r1: "generate r = Inr (v, r1)" "rng_wf r1"
    "last_word r1 = last_word r" "rng_lock r1 = rng_lock r" by blast
  from Suc.IH [OF r1(2)] r1 show ?case by auto
qed simp

lemma put_word_spec:
  "put_word buf v m = (\<lambda>a. if a - buf < 8 then ucast (drop_bit (8 * unat (a - buf)) v) else m a)"
  unfolding put_word_def
proof (rule for_pure_rule [where I = "\<lambda>k m'. m' = (\<lambda>a. if a - buf < k then ucast (drop_bit (8 * unat (a - buf)) v) else m a)"])
  fix k :: u64 and m' :: mem
  assume "k < 8" and "m' = (\<lambda>a. if a - buf < k then ucast (drop_bit (8 * unat (a - buf)) v) else m a)"
  then show "m'(buf + k := ucast (drop_bit (8 * unat k) v AND 0xFF)) =
    (\<lambda>a. if a - buf < k + 1 then ucast (drop_bit (8 * unat (a - buf)) v) else m a)"
    by (auto simp: less_Suc_word fun_eq_iff ucast_and_FF)
qed simp_all

lemma tail_spec:
  assumes "n < 8"
  shows "snd (for_pure (tail_step buf) 0 n (v, m)) =
    (\<lambda>a. if a - buf < n then ucast (drop_bit (8 * unat (a - buf)) v) else m a)"
proof -
  let ?I = "\<lambda>k s. s = (drop_bit (8 * unat k) v,
    (\<lambda>a. if a - buf < k then ucast (drop_bit (8 * unat (a - buf)) v) else m a))"
  have "?I n (for_pure (tail_step buf) 0 n (v, m))"
  proof (rule for_pure_rule [where I = ?I])
    fix k s
    assume k: "k < n" and "?I k s"
    then have s: "s = (drop_bit (8 * unat k) v, (\<lambda>a. if a - buf < k then ucast (drop_bit (8 * unat (a - buf)) v) else m a))"
      by simp
    have u: "unat (k + 1) = Suc (unat k)" using k by (rule unat_Suc_less)
    show "?I (k + 1) (tail_step buf k s)"
      unfolding s using k by (auto simp: tail_step_def u less_Suc_word fun_eq_iff ucast_and_FF)
  qed simp_all
  then show ?thesis by simp
qed

lemma unat_mod_eight: "unat (len mod 8 :: u64) = unat len mod 8"
  by (simp add: unat_mod)

lemma unat_whole: "unat (len - len mod 8 :: u64) = unat len - unat len mod 8"
  by (subst unat_sub_small) (simp_all add: unat_mod_eight)

lemma whole_step:
  fixes len :: u64
  assumes "8 \<le> len"
  shows "(len - 8) mod 8 = len mod 8" and "unat (len - 8) = unat len - 8"
    and "unat len div 8 = Suc (unat (len - 8) div 8)"
proof -
  have ge: "8 \<le> unat len" using assms by (simp add: word_le_nat_alt)
  then show u: "unat (len - 8) = unat len - 8" using unat_sub_small [of 8 len] by simp
  from ge u show "unat len div 8 = Suc (unat (len - 8) div 8)" by (simp add: le_div_geq)
  from ge u show "(len - 8) mod 8 = len mod 8"
    by (intro unat_eqI) (simp add: unat_mod_eight le_mod_geq)
qed

lemma write_first_word:
  fixes d L :: u64
  assumes L: "8 \<le> L"
  shows "(if d - 8 < L - 8 then byte_at vs (unat (d - 8)) else if d < 8 then ucast (drop_bit (8 * unat d) v) else x)
    = (if d < L then byte_at (v # vs) (unat d) else x)"
proof -
  have L8: "unat (L - 8) = unat L - 8" "8 \<le> unat L"
    using L unat_sub_small [of 8 L] by (simp_all add: word_le_nat_alt)
  show ?thesis
  proof (cases "d < 8")
    case True
    then have lt: "unat d < 8" by (simp add: word_less_nat_alt)
    have "\<not> d - 8 < L - 8"
    proof
      assume "d - 8 < L - 8"
      then have "unat (d - 8) < unat L - 8" using L8 by (simp add: word_less_nat_alt)
      moreover have "unat (d - 8) = 18446744073709551616 + unat d - 8"
        using lt by (simp add: unat_sub_if' word_le_nat_alt)
      ultimately show False using unat_lt_two_power_64 [of L] by linarith
    qed
    moreover have "d < L" using lt L8 by (simp add: word_less_nat_alt)
    ultimately show ?thesis using True lt by (simp add: byte_at_def)
  next
    case False
    then have ge: "8 \<le> unat d" by (simp add: word_less_nat_alt)
    then have u: "unat (d - 8) = unat d - 8" using unat_sub_small [of 8 d] by simp
    have "d - 8 < L - 8 \<longleftrightarrow> d < L" using ge u L8 by (auto simp: word_less_nat_alt)
    moreover have "byte_at vs (unat d - 8) = byte_at (v # vs) (unat d)"
      using ge by (simp add: byte_at_def le_div_geq le_mod_geq)
    ultimately show ?thesis using False u by simp
  qed
qed

lemma fill_words_spec:
  assumes "gen_n (unat len div 8) r = Inr (vs, r1)"
  shows "fill_words buf len r m = Inr (buf + (len - len mod 8), len mod 8, r1,
    (\<lambda>a. if a - buf < len - len mod 8 then byte_at vs (unat (a - buf)) else m a))"
  using assms
proof (induction buf len r m arbitrary: vs rule: fill_words.induct)
  case (1 buf len r m)
  show ?case
  proof (cases "8 \<le> len")
    case True
    note s = whole_step [OF True]
    from "1.prems" obtain v r' vs' where g: "generate r = Inr (v, r')"
      "gen_n (unat (len - 8) div 8) r' = Inr (vs', r1)" "vs = v # vs'"
      by (auto simp: s(3) rbind_eq_Inr split: prod.splits)
    let ?L = "len - len mod 8"
    have L: "len - 8 - len mod 8 = ?L - 8" by simp
    have "8 \<le> unat len" using True by (simp add: word_le_nat_alt)
    moreover have "unat len mod 8 \<le> unat len - 8" using \<open>8 \<le> unat len\<close> by (simp add: le_mod_geq)
    ultimately have L8: "8 \<le> ?L" unfolding word_le_nat_alt unat_whole by simp
    have off: "a - (buf + 8) = (a - buf) - 8" for a by simp
    have "fill_words buf len r m = fill_words (buf + 8) (len - 8) r' (put_word buf v m)"
      using True g(1) by (simp add: fill_words.simps [of buf len])
    also have "\<dots> = Inr (buf + 8 + (?L - 8), len mod 8, r1,
      (\<lambda>a. if a - (buf + 8) < ?L - 8 then byte_at vs' (unat (a - (buf + 8))) else put_word buf v m a))"
      using "1.IH" [OF True g(1) refl g(2)] by (simp only: s(1) L)
    finally show ?thesis
      unfolding off put_word_spec write_first_word [OF L8] g(3) by simp
  next
    case False
    then have "len mod 8 = len" "unat len div 8 = 0"
      by (auto simp: word_le_nat_alt unat_mod_eight intro!: unat_eqI)
    with False "1.prems" show ?thesis by (simp add: fill_words.simps)
  qed
qed

definition value_count :: "u64 \<Rightarrow> nat" where
  "value_count len = unat len div 8 + (if unat len mod 8 = 0 then 0 else 1)"

lemma byte_at_append: "i < 8 * length vs \<Longrightarrow> byte_at (vs @ ws) i = byte_at vs i"
  by (simp add: byte_at_def nth_append less_mult_imp_div_less mult.commute)

lemma write_tail:
  fixes d len :: u64
  assumes "length vs = unat len div 8"
  shows "(if d - (len - len mod 8) < len mod 8 then ucast (drop_bit (8 * unat (d - (len - len mod 8))) v)
      else if d < len - len mod 8 then byte_at vs (unat d) else x)
    = (if d < len then byte_at (vs @ [v]) (unat d) else x)"
proof -
  let ?L = "len - len mod 8"
  have uL: "unat ?L = unat len - unat len mod 8" by (rule unat_whole)
  have L8: "unat len - unat len mod 8 = 8 * length vs" using assms by (simp add: minus_mod_eq_mult_div)
  have m8: "unat (len mod 8) = unat len mod 8" by (rule unat_mod_eight)
  show ?thesis
  proof (cases "d < ?L")
    case True
    then have dl: "unat d < 8 * length vs" using uL L8 by (simp add: word_less_nat_alt)
    have "unat (d - ?L) = 18446744073709551616 + unat d - unat ?L"
      using True by (simp add: unat_sub_if' word_le_nat_alt word_less_nat_alt)
    then have "\<not> d - ?L < len mod 8"
      unfolding word_less_nat_alt m8 uL using unat_lt_two_power_64 [of len] by linarith
    moreover have "d < len" using True uL by (simp add: word_less_nat_alt)
    ultimately show ?thesis using True dl by (simp add: byte_at_append)
  next
    case False
    then have ge: "unat ?L \<le> unat d" by (simp add: word_less_nat_alt)
    then have u: "unat (d - ?L) = unat d - 8 * length vs" using unat_sub_small uL L8 by metis
    have eq: "d - ?L < len mod 8 \<longleftrightarrow> d < len"
      unfolding word_less_nat_alt u m8 using ge uL L8 mod_less_eq_dividend [of "unat len" 8] by linarith
    moreover have "ucast (drop_bit (8 * unat (d - ?L)) v) = byte_at (vs @ [v]) (unat d)" if "d < len"
    proof -
      have "unat d - 8 * length vs < 8" using that eq u m8 by (simp add: word_less_nat_alt)
      then obtain j where "unat d = 8 * length vs + j" "j < 8"
        using ge uL L8 by (metis le_add_diff_inverse)
      then show ?thesis using u by (simp add: byte_at_def)
    qed
    ultimately show ?thesis using False by auto
  qed
qed

lemma random_fill_bytes:
  assumes free: "unlocked (rng_lock r)" and wf: "rng_wf r"
    and gen: "gen_n (value_count len) (r\<lparr>rng_lock := (rng_lock r)\<lparr>lock_word := 1, last_acquirer := ''random_fill''\<rparr>\<rparr>) = Inr (vs, r1)"
  shows "random_fill buf len r m = Inr (r1\<lparr>rng_lock := spinlock_release (rng_lock r1)\<rparr>,
    (\<lambda>a. if a - buf < len then byte_at vs (unat (a - buf)) else m a))"
proof -
  let ?r = "r\<lparr>rng_lock := (rng_lock r)\<lparr>lock_word := 1, last_acquirer := ''random_fill''\<rparr>\<rparr>"
  have "rng_wf ?r" using wf by (simp add: rng_wf_def)
  from gen_n_ok [OF this, of "unat len div 8"] obtain ws r2 where
    w: "gen_n (unat len div 8) ?r = Inr (ws, r2)" "length ws = unat len div 8" by blast
  note fw = fill_words_spec [OF w(1), of buf m]
  show ?thesis
  proof (cases "len mod 8 = 0")
    case True
    then have "unat len mod 8 = 0" using unat_mod_eight [of len] by simp
    with gen w(1) have eq: "vs = ws" "r1 = r2" by (auto simp: value_count_def)
    from fw True free show ?thesis unfolding eq by (simp add: random_fill_def klock)
  next
    case False
    then have nz: "unat len mod 8 \<noteq> 0" using unat_mod_eight [of len] by (metis unat_eq_zero)
    from gen nz w(1) obtain v where v: "generate r2 = Inr (v, r1)" "vs = ws @ [v]"
      by (auto simp: value_count_def gen_n_append [of _ "Suc 0", simplified] rbind_eq_Inr split: prod.splits)
    have lt: "len mod 8 < 8" by (simp add: word_less_nat_alt unat_mod_eight)
    have off: "a - (buf + (len - len mod 8)) = (a - buf) - (len - len mod 8)" for a by simp
    let ?L = "len - len mod 8"
    have "random_fill buf len r m = Inr (r1\<lparr>rng_lock := spinlock_release (rng_lock r1)\<rparr>,
      (\<lambda>a. if a - (buf + ?L) < len mod 8 then ucast (drop_bit (8 * unat (a - (buf + ?L))) v)
           else if a - buf < ?L then byte_at ws (unat (a - buf)) else m a))"
      using fw False free v(1) by (simp add: random_fill_def klock word_gt_0 tail_spec [OF lt])
    then show ?thesis unfolding off write_tail [OF w(2)] v(2) .
  qed
qed

subsection \<open>Properties\<close>

text \<open>
  \<open>random_fill\<close> returns, leaves the lock free and the generator well formed, writes exactly the
  \<open>length\<close> bytes of the buffer and no other, and these are the bytes, lowest first, of the
  generator's next values, one for every eight bytes begun.
\<close>

theorem random_fill_correct:
  assumes "rng_wf r" and "unlocked (rng_lock r)"
  shows "\<exists>vs r1 r' m'.
    gen_n (value_count len) (r\<lparr>rng_lock := (rng_lock r)\<lparr>lock_word := 1, last_acquirer := ''random_fill''\<rparr>\<rparr>) = Inr (vs, r1) \<and>
    random_fill buf len r m = Inr (r', m') \<and> rng_wf r' \<and> unlocked (rng_lock r') \<and>
    (\<forall>a. m' a = (if a - buf < len then byte_at vs (unat (a - buf)) else m a))"
proof -
  let ?r = "r\<lparr>rng_lock := (rng_lock r)\<lparr>lock_word := 1, last_acquirer := ''random_fill''\<rparr>\<rparr>"
  have "rng_wf ?r" using assms by (simp add: rng_wf_def)
  from gen_n_ok [OF this, of "value_count len"] obtain vs r1 where
    g: "gen_n (value_count len) ?r = Inr (vs, r1)" "rng_wf r1" by blast
  from random_fill_bytes [OF assms(2,1) g(1), of buf m] g show ?thesis by (simp add: rng_wf_def)
qed

lemma rng_static_wf: "rng_wf rng_static" "unlocked (rng_lock rng_static)" "last_word rng_static = 0"
  by (simp_all add: rng_wf_def rng_static_def MT_N_def last_word_def)

theorem random_fill_correct_witness:
  "\<exists>r' m'. random_fill 0x1000 13 rng_static (\<lambda>_. 7) = Inr (r', m') \<and> rng_wf r' \<and> m' 0x100d = 7"
proof -
  from random_fill_correct [OF rng_static_wf(1,2), of 13 "0x1000" "\<lambda>_. 7"] obtain vs r' m' where
    f: "random_fill 0x1000 13 rng_static (\<lambda>_. 7) = Inr (r', m')" "rng_wf r'"
      "\<forall>a. m' a = (if a - 0x1000 < 13 then byte_at vs (unat (a - 0x1000)) else 7)" by blast
  have "m' 0x100d = 7" unfolding f(3) [rule_format] by simp
  with f show ?thesis by blast
qed

text \<open>
  The operations of the generator from boot: seeding and drawing values, in any order.
\<close>

inductive rng_reachable :: "rng \<Rightarrow> bool" where
  boot: "rng_reachable rng_static"
| seeded: "rng_reachable r \<Longrightarrow> random_seed s r = Inr r' \<Longrightarrow> rng_reachable r'"
| drawn: "rng_reachable r \<Longrightarrow> random_generate r = Inr (v, r') \<Longrightarrow> rng_reachable r'"
| filled_buf: "rng_reachable r \<Longrightarrow> random_fill buf len r m = Inr (r', m') \<Longrightarrow> rng_reachable r'"

definition rng_inv :: "rng \<Rightarrow> bool" where
  "rng_inv r \<longleftrightarrow> rng_wf r \<and> unlocked (rng_lock r) \<and> last_word r = 0"

lemma rng_wf_lock [simp]: "rng_wf (r\<lparr>rng_lock := l\<rparr>) = rng_wf r" "last_word (r\<lparr>rng_lock := l\<rparr>) = last_word r"
  by (simp_all add: rng_wf_def last_word_def)

lemma random_generate_inv:
  assumes "rng_inv r"
  shows "\<exists>v r'. random_generate r = Inr (v, r') \<and> rng_inv r'"
proof -
  have "rng_wf (r\<lparr>rng_lock := (rng_lock r)\<lparr>lock_word := 1, last_acquirer := ''random_generate''\<rparr>\<rparr>)"
    using assms by (simp add: rng_inv_def)
  from generate_ok [OF this] assms show ?thesis by (auto simp: random_generate_def rng_inv_def klock)
qed

lemma random_fill_inv:
  assumes "rng_inv r"
  shows "\<exists>r' m'. random_fill buf len r m = Inr (r', m') \<and> rng_inv r'"
proof -
  let ?r = "r\<lparr>rng_lock := (rng_lock r)\<lparr>lock_word := 1, last_acquirer := ''random_fill''\<rparr>\<rparr>"
  have wf: "rng_wf r" "unlocked (rng_lock r)" "rng_wf ?r" using assms by (simp_all add: rng_inv_def)
  from gen_n_ok [OF wf(3), of "value_count len"] obtain vs r1 where
    g: "gen_n (value_count len) ?r = Inr (vs, r1)" "rng_wf r1" "last_word r1 = last_word r" by auto
  from random_fill_bytes [OF wf(2,1) g(1), of buf m] g assms show ?thesis by (simp add: rng_inv_def)
qed

lemma rng_reachable_inv: "rng_reachable r \<Longrightarrow> rng_inv r"
proof (induction rule: rng_reachable.induct)
  case boot
  show ?case using rng_static_wf by (simp add: rng_inv_def)
next
  case (seeded r s r')
  with random_seed_ok [of r s] show ?case by (auto simp: rng_inv_def)
next
  case (drawn r v r')
  with random_generate_inv [of r] show ?case by auto
next
  case (filled_buf r buf len m r' m')
  with random_fill_inv [of r buf len m] show ?case by auto
qed

text \<open>
  Seeding and twisting stop one word short of the array: in every state the kernel can reach,
  whatever it was seeded with, the last of the 312 words is still zero, so that the 312th value of
  every round is zero; and the lower mask keeps all the high bits.
\<close>

theorem random_last_word_never_seeded:
  assumes "rng_reachable r"
  shows "last_word r = 0 \<and> (unat (mt_index r) = 311 \<longrightarrow> (\<exists>r'. random_generate r = Inr (0, r'))) \<and>
    MT_LOWER_MASK = 0xFFFFFFFF7FFFFFFF"
proof -
  have inv: "rng_inv r" using assms by (rule rng_reachable_inv)
  have t0: "temper 0 = 0" by (simp add: temper_def)
  have "\<exists>r'. random_generate r = Inr (0, r')" if i: "unat (mt_index r) = 311"
  proof -
    have "\<not> mt_index r \<ge> of_nat MT_N" using i by (simp add: word_le_nat_alt MT_N_def)
    with inv i show ?thesis
      by (simp add: random_generate_def rng_inv_def klock generate_def rng_wf_def MT_N_def last_word_def t0)
  qed
  moreover have "MT_LOWER_MASK = 0xFFFFFFFF7FFFFFFF" by (simp add: MT_LOWER_MASK_def)
  ultimately show ?thesis using inv by (simp add: rng_inv_def)
qed

theorem random_last_word_never_seeded_witness:
  "\<exists>r. random_seed 42 rng_static = Inr r \<and> last_word r = 0"
proof -
  from random_seed_ok [OF rng_static_wf(1,2), of 42] obtain r where r: "random_seed 42 rng_static = Inr r" by blast
  from random_last_word_never_seeded [OF rng_reachable.seeded [OF rng_reachable.boot r]] r show ?thesis by blast
qed

end
