(* ===== verification/Lyre_Sched.thy ===== *)
theory Lyre_Sched
  imports Lyre_Lock Lyre_Libc
begin

text \<open>
  The scheduler of \<open>sched/sched.c\<close>: the running queue, choosing the next thread, and the context
  switch.  Thread pointers are 64-bit addresses, zero is \<open>NULL\<close>.  A CPU's segment bases, \<open>cr3\<close> and
  FPU state are part of its record, as kernel code sees them (\<open>cpu_gs\<close> is the current thread,
  \<open>cpu_kernel_gs\<close> what \<open>swapgs\<close> exchanges it with on the way to user mode); the interrupt sent to
  another CPU and the one-shot timer are recorded.
\<close>

subsection \<open>Data\<close>

definition MAX_RUNNING_THREADS :: nat where
  "MAX_RUNNING_THREADS = 65536"

record cpu_ctx =
  ctx_regs :: "u64 list"
  ctx_cs :: u64

record thread =
  t_lock :: spinlock
  yield_await :: spinlock
  scheduling_off :: bool
  running_on :: int
  enqueued :: bool
  enqueued_by_signal :: bool
  timeslice :: u64
  t_ctx :: cpu_ctx
  gs_base :: u64
  fs_base :: u64
  cr3 :: u64
  fpu_storage :: "u8 list"
  kernel_stack :: u64
  pf_stack :: u64
  which_event :: u64
  attached_events :: "u64 list"

record cpu_local =
  cpu_number :: int
  active :: bool
  last_run_queue_index :: nat
  idle_thread :: u64
  cpu_gs :: u64
  cpu_kernel_gs :: u64
  cpu_fs :: u64
  cpu_cr3 :: u64
  cpu_fpu :: "u8 list"
  syscall_stack :: u64
  ist2 :: u64
  oneshot :: "u64 option"

record sched =
  running_queue :: "u64 list"
  threads :: "u64 \<Rightarrow> thread"
  cpus :: "cpu_local list"
  ipis :: "nat list"

definition put_thread :: "sched \<Rightarrow> u64 \<Rightarrow> (thread \<Rightarrow> thread) \<Rightarrow> sched" where
  "put_thread s t f = s\<lparr>threads := (threads s)(t := f (threads s t))\<rparr>"

definition put_cpu :: "sched \<Rightarrow> nat \<Rightarrow> (cpu_local \<Rightarrow> cpu_local) \<Rightarrow> sched" where
  "put_cpu s c f = s\<lparr>cpus := (cpus s)[c := f (cpus s ! c)]\<rparr>"

subsection \<open>The running queue\<close>

text \<open>The loop that tries \<open>CAS(&running_queue[i], old, new)\<close> on one slot after the other.\<close>

fun cas_slot :: "u64 \<Rightarrow> u64 \<Rightarrow> u64 list \<Rightarrow> u64 list option" where
  "cas_slot old new [] = None"
| "cas_slot old new (x # xs) = (if x = old then Some (new # xs) else map_option ((#) x) (cas_slot old new xs))"

text \<open>The first CPU that is not active gets the scheduler interrupt.\<close>

fun idle_cpu :: "nat \<Rightarrow> cpu_local list \<Rightarrow> nat option" where
  "idle_cpu j [] = None"
| "idle_cpu j (c # cs) = (if active c then idle_cpu (Suc j) cs else Some j)"

definition send_wakeup :: "sched \<Rightarrow> sched" where
  "send_wakeup s = (case idle_cpu 0 (cpus s) of None \<Rightarrow> s | Some j \<Rightarrow> s\<lparr>ipis := ipis s @ [j]\<rparr>)"

definition sched_enqueue_thread :: "u64 \<Rightarrow> bool \<Rightarrow> sched \<Rightarrow> bool \<times> sched" where
  "sched_enqueue_thread t by_signal s =
     (if enqueued (threads s t) then (True, s)
      else let s1 = put_thread s t (\<lambda>r. r\<lparr>enqueued_by_signal := by_signal\<rparr>)
           in case cas_slot 0 t (running_queue s1) of
                None \<Rightarrow> (False, s1)
              | Some q \<Rightarrow> (True, send_wakeup (put_thread (s1\<lparr>running_queue := q\<rparr>) t (\<lambda>r. r\<lparr>enqueued := True\<rparr>))))"

definition sched_dequeue_thread :: "u64 \<Rightarrow> sched \<Rightarrow> bool \<times> sched" where
  "sched_dequeue_thread t s =
     (if \<not> enqueued (threads s t) then (True, s)
      else case cas_slot t 0 (running_queue s) of
             None \<Rightarrow> (False, s)
           | Some q \<Rightarrow> (True, put_thread (s\<lparr>running_queue := q\<rparr>) t (\<lambda>r. r\<lparr>enqueued := False\<rparr>)))"

subsection \<open>Choosing the next thread\<close>

partial_function (option) next_loop :: "sched \<Rightarrow> nat \<Rightarrow> nat \<Rightarrow> (nat \<times> u64) result option" where
  "next_loop s orig_i index =
     (let i = (if index \<ge> MAX_RUNNING_THREADS then 0 else index)
      in case arr_get (running_queue s) i of
           Inl e \<Rightarrow> Some (Inl e)
         | Inr t \<Rightarrow>
             if t \<noteq> 0 \<and> fst (spinlock_test_and_acq (t_lock (threads s t))) then Some (Inr (i, t))
             else if i = orig_i then Some (Inr (i, 0))
             else next_loop s orig_i (i + 1))"

definition get_next_thread :: "nat \<Rightarrow> sched \<Rightarrow> (u64 \<times> sched) result option" where
  "get_next_thread c s =
     (let last_i = last_run_queue_index (cpus s ! c);
          orig_i = (if last_i \<ge> MAX_RUNNING_THREADS then 0 else last_i)
      in map_option (\<lambda>r. rbind r (\<lambda>(i, t).
           let s1 = put_cpu s c (\<lambda>p. p\<lparr>last_run_queue_index := i\<rparr>)
           in Inr (t, if t = 0 then s1
                      else put_thread s1 t (\<lambda>r. r\<lparr>t_lock := snd (spinlock_test_and_acq (t_lock r))\<rparr>))))
         (next_loop s orig_i (orig_i + 1)))"

subsection \<open>The context switch\<close>

text \<open>
  How \<open>sched_entry\<close> leaves: it returns to the interrupted code, waits in the idle loop, or continues
  the chosen thread in its saved context.
\<close>

datatype entry_outcome = Returned | Idled | Continued u64 cpu_ctx

definition timer_oneshot :: "nat \<Rightarrow> u64 \<Rightarrow> sched \<Rightarrow> sched" where
  "timer_oneshot c us s = put_cpu s c (\<lambda>p. p\<lparr>oneshot := Some us\<rparr>)"

definition save_thread :: "cpu_local \<Rightarrow> cpu_ctx \<Rightarrow> thread \<Rightarrow> thread" where
  "save_thread p cx r =
     r\<lparr>t_ctx := cx, gs_base := cpu_kernel_gs p, fs_base := cpu_fs p, cr3 := cpu_cr3 p,
       fpu_storage := cpu_fpu p, running_on := -1, t_lock := spinlock_release (t_lock r)\<rparr>"

definition load_thread :: "u64 \<Rightarrow> thread \<Rightarrow> cpu_local \<Rightarrow> cpu_local" where
  "load_thread t r p =
     p\<lparr>cpu_gs := t, cpu_kernel_gs := (if ctx_cs (t_ctx r) = 0x4b then gs_base r else t),
       cpu_fs := fs_base r, syscall_stack := kernel_stack r, ist2 := pf_stack r, cpu_cr3 := cr3 r,
       cpu_fpu := fpu_storage r, oneshot := Some (timeslice r)\<rparr>"

text \<open>The part after the choice: \<open>kcr3\<close> is the kernel's page map.\<close>

definition sched_continue :: "u64 \<Rightarrow> nat \<Rightarrow> u64 \<Rightarrow> sched \<Rightarrow> sched \<times> entry_outcome" where
  "sched_continue kcr3 c next s =
     (if next = 0
      then (put_cpu s c (\<lambda>p. p\<lparr>cpu_gs := idle_thread p, cpu_kernel_gs := idle_thread p, active := False,
                               cpu_cr3 := kcr3, oneshot := Some 20000\<rparr>), Idled)
      else let r = threads s next
           in (put_thread (put_cpu s c (load_thread next r)) next
                 (\<lambda>r. r\<lparr>running_on := cpu_number (cpus s ! c)\<rparr>), Continued next (t_ctx r)))"

definition sched_entry :: "u64 \<Rightarrow> nat \<Rightarrow> cpu_ctx \<Rightarrow> sched \<Rightarrow> (sched \<times> entry_outcome) result option" where
  "sched_entry kcr3 c cx s0 =
     (let s = put_cpu s0 c (\<lambda>p. p\<lparr>oneshot := None\<rparr>);
          current = cpu_gs (cpus s ! c)
      in if current \<noteq> 0 \<and> scheduling_off (threads s current)
         then Some (Inr (timer_oneshot c (timeslice (threads s current)) s, Returned))
         else map_option (\<lambda>r. rbind r (\<lambda>(next, s1).
                if current = idle_thread (cpus s1 ! c) then Inr (sched_continue kcr3 c next s1)
                else if current = 0 then Inl NullDeref
                else let s2 = put_thread s1 current (\<lambda>r. r\<lparr>yield_await := spinlock_release (yield_await r)\<rparr>)
                     in if next = 0 \<and> enqueued (threads s2 current)
                        then Inr (timer_oneshot c (timeslice (threads s2 current)) s2, Returned)
                        else Inr (sched_continue kcr3 c next (put_thread s2 current (save_thread (cpus s2 ! c) cx)))))
              (get_next_thread c (put_cpu s c (\<lambda>p. p\<lparr>active := True\<rparr>))))"

text \<open>
  \<open>sched_yield\<close> up to the interrupt it sends to its own CPU: the caller that wants to come back takes
  its \<open>yield_await\<close> lock, which \<open>sched_entry\<close> releases; the other one becomes the idle thread.
\<close>

definition sched_yield :: "nat \<Rightarrow> bool \<Rightarrow> sched \<Rightarrow> sched result" where
  "sched_yield c save_ctx s =
     (let s1 = put_cpu s c (\<lambda>p. p\<lparr>oneshot := None\<rparr>);
          t = cpu_gs (cpus s1 ! c)
      in rbind (if save_ctx
                then rbind (spinlock_acquire ''sched_yield'' (yield_await (threads s1 t)))
                       (\<lambda>l. Inr (put_thread s1 t (\<lambda>r. r\<lparr>yield_await := l\<rparr>)))
                else Inr (put_cpu s1 c (\<lambda>p. p\<lparr>cpu_gs := idle_thread p, cpu_kernel_gs := idle_thread p\<rparr>)))
           (\<lambda>s2. Inr (s2\<lparr>ipis := ipis s2 @ [c]\<rparr>)))"

definition sched_dequeue_and_die :: "nat \<Rightarrow> sched \<Rightarrow> sched result" where
  "sched_dequeue_and_die c s = sched_yield c False (snd (sched_dequeue_thread (cpu_gs (cpus s ! c)) s))"

subsection \<open>Lemmas on the queue\<close>

lemma put_simps [simp]:
  "threads (put_cpu s c f) = threads s" "running_queue (put_cpu s c f) = running_queue s"
  "ipis (put_cpu s c f) = ipis s" "length (cpus (put_cpu s c f)) = length (cpus s)"
  "cpus (put_thread s t g) = cpus s" "running_queue (put_thread s t g) = running_queue s"
  "ipis (put_thread s t g) = ipis s"
  "threads (put_thread s t g) u = (if u = t then g (threads s t) else threads s u)"
  "c < length (cpus s) \<Longrightarrow> cpus (put_cpu s c f) ! d = (if d = c then f (cpus s ! c) else cpus s ! d)"
  by (simp_all add: put_cpu_def put_thread_def nth_list_update)

lemma cas_slot_None: "cas_slot old new xs = None \<longleftrightarrow> old \<notin> set xs"
  by (induction xs) auto

lemma cas_slot_Some:
  "cas_slot old new xs = Some ys \<Longrightarrow> \<exists>i < length xs. xs ! i = old \<and> ys = xs[i := new]"
proof (induction xs arbitrary: ys)
  case (Cons x xs)
  show ?case
  proof (cases "x = old")
    case True
    with Cons.prems show ?thesis by (auto intro!: exI [of _ 0])
  next
    case False
    with Cons.prems obtain zs where zs: "cas_slot old new xs = Some zs" "ys = x # zs" by auto
    from Cons.IH [OF zs(1)] obtain i where "i < length xs" "xs ! i = old" "zs = xs[i := new]" by blast
    with zs show ?thesis by (auto intro!: exI [of _ "Suc i"])
  qed
qed simp

lemma cas_slot_mset:
  assumes "cas_slot old new xs = Some ys"
  shows "mset ys = add_mset new (mset xs - {#old#})" and "length ys = length xs" and "old \<in> set xs"
  using cas_slot_Some [OF assms] by (auto simp: mset_update)

text \<open>
  The queue invariant: the array has its full length, and a thread occupies one slot if it is marked
  enqueued and none otherwise.
\<close>

definition queue_inv :: "sched \<Rightarrow> bool" where
  "queue_inv s \<longleftrightarrow> length (running_queue s) = MAX_RUNNING_THREADS \<and>
     (\<forall>t. t \<noteq> 0 \<longrightarrow> count (mset (running_queue s)) t = (if enqueued (threads s t) then 1 else 0))"

lemma send_wakeup_simps [simp]:
  "threads (send_wakeup s) = threads s" "running_queue (send_wakeup s) = running_queue s"
  "cpus (send_wakeup s) = cpus s"
  by (simp_all add: send_wakeup_def split: option.split)

lemma enqueue_inv:
  assumes inv: "queue_inv s" and t: "t \<noteq> 0"
  shows "queue_inv (snd (sched_enqueue_thread t b s)) \<and>
    (fst (sched_enqueue_thread t b s) \<longleftrightarrow> enqueued (threads s t) \<or> 0 \<in> set (running_queue s)) \<and>
    (fst (sched_enqueue_thread t b s) \<longrightarrow> t \<in> set (running_queue (snd (sched_enqueue_thread t b s)))) \<and>
    (\<forall>u. u \<noteq> t \<longrightarrow> threads (snd (sched_enqueue_thread t b s)) u = threads s u)"
proof (cases "enqueued (threads s t)")
  case True
  then have "count (mset (running_queue s)) t = 1" using inv t by (simp add: queue_inv_def)
  then have "t \<in> set (running_queue s)" by (metis count_mset_0_iff zero_neq_one)
  with True inv show ?thesis by (simp add: sched_enqueue_thread_def)
next
  case False
  show ?thesis
  proof (cases "cas_slot 0 t (running_queue s)")
    case None
    then have "0 \<notin> set (running_queue s)" by (simp add: cas_slot_None)
    with None False inv show ?thesis
      by (auto simp: sched_enqueue_thread_def Let_def queue_inv_def)
  next
    case (Some q)
    note q = cas_slot_mset [OF Some]
    have "queue_inv (snd (sched_enqueue_thread t b s))"
      using False inv t Some q by (auto simp: sched_enqueue_thread_def Let_def queue_inv_def)
    moreover have "t \<in> set q" using q(1) by (metis set_mset_mset union_single_eq_member)
    ultimately show ?thesis using False Some q(3) by (simp add: sched_enqueue_thread_def Let_def)
  qed
qed

lemma dequeue_inv:
  assumes inv: "queue_inv s" and t: "t \<noteq> 0"
  shows "queue_inv (snd (sched_dequeue_thread t s)) \<and> fst (sched_dequeue_thread t s) \<and>
    t \<notin> set (running_queue (snd (sched_dequeue_thread t s))) \<and>
    (\<forall>u. u \<noteq> t \<longrightarrow> threads (snd (sched_dequeue_thread t s)) u = threads s u)"
proof (cases "enqueued (threads s t)")
  case False
  then have "count (mset (running_queue s)) t = 0" using inv t by (simp add: queue_inv_def)
  with False inv show ?thesis by (simp add: sched_dequeue_thread_def)
next
  case True
  then have one: "count (mset (running_queue s)) t = 1" using inv t by (simp add: queue_inv_def)
  then have "t \<in> set (running_queue s)" by (metis count_mset_0_iff zero_neq_one)
  then obtain q where q: "cas_slot t 0 (running_queue s) = Some q"
    using cas_slot_None [of t 0 "running_queue s"] by auto
  note m = cas_slot_mset [OF q]
  have "count (mset q) t = 0" using one t by (simp add: m(1))
  then have "t \<notin> set q" by simp
  moreover have "queue_inv (snd (sched_dequeue_thread t s))"
    using True inv t q m by (auto simp: sched_dequeue_thread_def queue_inv_def)
  ultimately show ?thesis using True q by (simp add: sched_dequeue_thread_def)
qed

subsection \<open>Choosing in cyclic order\<close>

definition runnable :: "sched \<Rightarrow> u64 \<Rightarrow> bool" where
  "runnable s t \<longleftrightarrow> t \<noteq> 0 \<and> unlocked (t_lock (threads s t))"

text \<open>What the loop returns when it looks at the slots of a list of indices in turn.\<close>

definition pick :: "sched \<Rightarrow> nat \<Rightarrow> nat list \<Rightarrow> nat \<times> u64" where
  "pick s orig is = (case find (\<lambda>i. runnable s (running_queue s ! i)) is of
     None \<Rightarrow> (orig, 0) | Some i \<Rightarrow> (i, running_queue s ! i))"

lemma pick_Cons:
  "pick s orig (i # is) = (if runnable s (running_queue s ! i) then (i, running_queue s ! i) else pick s orig is)"
  by (simp add: pick_def)

lemma next_loop_slot:
  assumes "length (running_queue s) = MAX_RUNNING_THREADS" and "i < MAX_RUNNING_THREADS"
  shows "next_loop s orig i = (if runnable s (running_queue s ! i) then Some (Inr (i, running_queue s ! i))
    else if i = orig then Some (Inr (i, 0)) else next_loop s orig (i + 1))"
  using assms by (subst next_loop.simps) (simp add: runnable_def spinlock_test_and_acq_def)

lemma next_loop_up:
  assumes len: "length (running_queue s) = MAX_RUNNING_THREADS" and "i \<le> orig" and "orig < MAX_RUNNING_THREADS"
  shows "next_loop s orig i = Some (Inr (pick s orig [i..<Suc orig]))"
  using assms(2,3)
proof (induction "orig - i" arbitrary: i)
  case 0
  then show ?case by (simp add: next_loop_slot [OF len] pick_def)
next
  case (Suc n)
  then have i: "i < orig" by simp
  then have "[i..<Suc orig] = i # [Suc i..<Suc orig]" by (simp add: upt_conv_Cons del: upt_Suc)
  with Suc.hyps(1) [of "Suc i"] Suc.hyps(2) Suc.prems i show ?case
    by (simp add: next_loop_slot [OF len] pick_Cons del: upt_Suc)
qed

lemma next_loop_wrap: "next_loop s orig MAX_RUNNING_THREADS = next_loop s orig 0"
  by (subst (1 2) next_loop.simps) (simp add: MAX_RUNNING_THREADS_def)

lemma next_loop_cyclic:
  assumes len: "length (running_queue s) = MAX_RUNNING_THREADS" and "orig < i" and "i \<le> MAX_RUNNING_THREADS"
  shows "next_loop s orig i = Some (Inr (pick s orig ([i..<MAX_RUNNING_THREADS] @ [0..<Suc orig])))"
  using assms(2,3)
proof (induction "MAX_RUNNING_THREADS - i" arbitrary: i)
  case 0
  then show ?case using next_loop_up [OF len, of 0 orig] by (simp add: next_loop_wrap del: upt_Suc)
next
  case (Suc n)
  then have i: "i < MAX_RUNNING_THREADS" by simp
  then have "[i..<MAX_RUNNING_THREADS] = i # [Suc i..<MAX_RUNNING_THREADS]" by (rule upt_conv_Cons)
  with Suc.hyps(1) [of "Suc i"] Suc.hyps(2) Suc.prems i show ?case
    by (simp add: next_loop_slot [OF len] pick_Cons del: upt_Suc)
qed

text \<open>The index at which the search of CPU \<open>c\<close> ends, and the order in which it looks at the slots.\<close>

definition scan_end :: "nat \<Rightarrow> sched \<Rightarrow> nat" where
  "scan_end c s = (let i = last_run_queue_index (cpus s ! c) in if i \<ge> MAX_RUNNING_THREADS then 0 else i)"

definition scan_order :: "nat \<Rightarrow> sched \<Rightarrow> nat list" where
  "scan_order c s = [Suc (scan_end c s)..<MAX_RUNNING_THREADS] @ [0..<Suc (scan_end c s)]"

lemma scan_end_less: "scan_end c s < MAX_RUNNING_THREADS"
  by (simp add: scan_end_def Let_def MAX_RUNNING_THREADS_def)

lemma scan_order_set: "set (scan_order c s) = {..<MAX_RUNNING_THREADS}"
  using scan_end_less [of c s] by (auto simp: scan_order_def simp del: upt_Suc)

lemma get_next_thread_pick:
  assumes "length (running_queue s) = MAX_RUNNING_THREADS" and "pick s (scan_end c s) (scan_order c s) = (i, t)"
  shows "get_next_thread c s = Some (Inr (t,
    let s1 = put_cpu s c (\<lambda>p. p\<lparr>last_run_queue_index := i\<rparr>)
    in if t = 0 then s1 else put_thread s1 t (\<lambda>r. r\<lparr>t_lock := snd (spinlock_test_and_acq (t_lock r))\<rparr>)))"
proof -
  have e: "(if last_run_queue_index (cpus s ! c) \<ge> MAX_RUNNING_THREADS then 0
      else last_run_queue_index (cpus s ! c)) = scan_end c s"
    by (simp add: scan_end_def Let_def)
  have "next_loop s (scan_end c s) (scan_end c s + 1) = Some (Inr (i, t))"
    using next_loop_cyclic [OF assms(1), of "scan_end c s" "Suc (scan_end c s)"] assms(2) scan_end_less [of c s]
    by (simp add: scan_order_def del: upt_Suc)
  then show ?thesis unfolding get_next_thread_def Let_def e by simp
qed

lemma pick_cases:
  assumes "length (running_queue s) = MAX_RUNNING_THREADS" and "pick s (scan_end c s) (scan_order c s) = (i, t)"
  shows "(t = 0 \<and> i = scan_end c s \<and> (\<forall>u \<in> set (running_queue s). \<not> runnable s u)) \<or>
    (runnable s t \<and> i < MAX_RUNNING_THREADS \<and> running_queue s ! i = t)"
proof (cases "find (\<lambda>i. runnable s (running_queue s ! i)) (scan_order c s)")
  case None
  then have "\<not> runnable s (running_queue s ! i)" if "i < MAX_RUNNING_THREADS" for i
    using that by (auto simp: find_None_iff scan_order_set)
  with None assms show ?thesis by (auto simp: pick_def in_set_conv_nth)
next
  case (Some j)
  then have "runnable s (running_queue s ! j)" "j \<in> set (scan_order c s)"
    by (auto simp: find_Some_iff in_set_conv_nth)
  with Some assms show ?thesis by (auto simp: pick_def scan_order_set)
qed

subsection \<open>No thread on two CPUs\<close>

abbreviation cur :: "sched \<Rightarrow> nat \<Rightarrow> u64" where
  "cur s c \<equiv> cpu_gs (cpus s ! c)"

abbreviation idle_of :: "sched \<Rightarrow> nat \<Rightarrow> u64" where
  "idle_of s c \<equiv> idle_thread (cpus s ! c)"

definition sched_inv :: "sched \<Rightarrow> bool" where
  "sched_inv s \<longleftrightarrow> length (running_queue s) = MAX_RUNNING_THREADS \<and>
     (\<forall>c < length (cpus s). cur s c \<noteq> 0 \<and> idle_of s c \<noteq> 0 \<and> idle_of s c \<notin> set (running_queue s) \<and>
        (cur s c \<noteq> idle_of s c \<longrightarrow> \<not> unlocked (t_lock (threads s (cur s c)))) \<and>
        (\<forall>d < length (cpus s). (cur s c = cur s d \<longrightarrow> c = d) \<and> (cur s c = idle_of s d \<longrightarrow> c = d) \<and>
           (idle_of s c = idle_of s d \<longrightarrow> c = d)))"

lemma sched_invD:
  assumes "sched_inv s" and "c < length (cpus s)"
  shows "cur s c \<noteq> 0" "idle_of s c \<noteq> 0" "idle_of s c \<notin> set (running_queue s)"
    "cur s c \<noteq> idle_of s c \<Longrightarrow> \<not> unlocked (t_lock (threads s (cur s c)))"
    "d < length (cpus s) \<Longrightarrow> cur s c = cur s d \<Longrightarrow> c = d"
    "d < length (cpus s) \<Longrightarrow> cur s c = idle_of s d \<Longrightarrow> c = d"
  using assms unfolding sched_inv_def by blast+

text \<open>A CPU may keep its thread, become idle or take a runnable thread of the queue.\<close>

lemma sched_inv_switch:
  assumes inv: "sched_inv s" and c: "c < length (cpus s)"
    and q: "running_queue s' = running_queue s" and len: "length (cpus s') = length (cpus s)"
    and idle: "\<And>d. d < length (cpus s) \<Longrightarrow> idle_of s' d = idle_of s d"
    and others: "\<And>d. d < length (cpus s) \<Longrightarrow> d \<noteq> c \<Longrightarrow> cur s' d = cur s d"
    and new: "cur s' c = cur s c \<or> cur s' c = idle_of s c \<or> (runnable s (cur s' c) \<and> cur s' c \<in> set (running_queue s))"
    and held: "\<And>d. d < length (cpus s) \<Longrightarrow> cur s' d \<noteq> idle_of s d \<Longrightarrow> \<not> unlocked (t_lock (threads s' (cur s' d)))"
  shows "sched_inv s'"
proof -
  note D = sched_invD [OF inv]
  have fresh: "cur s' c \<noteq> cur s d \<and> cur s' c \<noteq> idle_of s d" if d: "d < length (cpus s)" "d \<noteq> c" for d
  proof (cases "runnable s (cur s' c) \<and> cur s' c \<in> set (running_queue s)")
    case True
    then have "cur s' c \<noteq> idle_of s d" using D(3) [OF d(1)] by auto
    moreover have "cur s' c \<noteq> cur s d"
    proof
      assume e: "cur s' c = cur s d"
      with True D(3) [OF d(1)] have "cur s d \<noteq> idle_of s d" by auto
      with D(4) [OF d(1)] True e show False by (auto simp: runnable_def)
    qed
    ultimately show ?thesis by blast
  next
    case False
    with new have "cur s' c = cur s c \<or> cur s' c = idle_of s c" by blast
    with D(5) [OF c d(1)] D(6) [OF c d(1)] D(6) [OF d(1) c] d(2) inv c d(1) show ?thesis
      unfolding sched_inv_def by metis
  qed
  have nz: "cur s' d \<noteq> 0" if "d < length (cpus s)" for d
    using that others [of d] new D(1,2) [OF c] D(1) [OF that] by (cases "d = c") (auto simp: runnable_def)
  have inj: "cur s' d = cur s' e \<Longrightarrow> d = e" if "d < length (cpus s)" "e < length (cpus s)" for d e
    using that fresh others D(5) by (metis (no_types, lifting))
  have inji: "cur s' d = idle_of s e \<Longrightarrow> d = e" if "d < length (cpus s)" "e < length (cpus s)" for d e
    using that fresh others D(6) by (metis (no_types, lifting))
  show ?thesis
    unfolding sched_inv_def q len using inv nz inj inji held idle
    unfolding sched_inv_def by (metis (no_types, lifting))
qed

lemma locked_after_acq [simp]: "\<not> unlocked (snd (spinlock_test_and_acq l))"
  by (simp add: spinlock_test_and_acq_def)

text \<open>The state in which \<open>sched_entry\<close> chooses, and the one after the choice \<open>(i, t)\<close>.\<close>

definition entered :: "nat \<Rightarrow> sched \<Rightarrow> sched" where
  "entered c s = put_cpu (put_cpu s c (\<lambda>p. p\<lparr>oneshot := None\<rparr>)) c (\<lambda>p. p\<lparr>active := True\<rparr>)"

definition chosen :: "nat \<Rightarrow> nat \<Rightarrow> u64 \<Rightarrow> sched \<Rightarrow> sched" where
  "chosen c i t s = (let s1 = put_cpu (entered c s) c (\<lambda>p. p\<lparr>last_run_queue_index := i\<rparr>)
     in if t = 0 then s1 else put_thread s1 t (\<lambda>r. r\<lparr>t_lock := snd (spinlock_test_and_acq (t_lock r))\<rparr>))"

lemma entered_simps:
  assumes "c < length (cpus s)"
  shows "threads (entered c s) = threads s" "running_queue (entered c s) = running_queue s"
    "length (cpus (entered c s)) = length (cpus s)" "cpu_gs (cpus (entered c s) ! d) = cur s d"
    "idle_thread (cpus (entered c s) ! d) = idle_of s d"
  using assms by (simp_all add: entered_def)

lemma chosen_simps:
  assumes "c < length (cpus s)"
  shows "running_queue (chosen c i t s) = running_queue s" "length (cpus (chosen c i t s)) = length (cpus s)"
    "cpu_gs (cpus (chosen c i t s) ! d) = cur s d" "idle_thread (cpus (chosen c i t s) ! d) = idle_of s d"
    "cpu_kernel_gs (cpus (chosen c i t s) ! d) = cpu_kernel_gs (cpus s ! d)"
    "cpu_fs (cpus (chosen c i t s) ! d) = cpu_fs (cpus s ! d)"
    "cpu_cr3 (cpus (chosen c i t s) ! d) = cpu_cr3 (cpus s ! d)"
    "cpu_fpu (cpus (chosen c i t s) ! d) = cpu_fpu (cpus s ! d)"
    "cpu_number (cpus (chosen c i t s) ! d) = cpu_number (cpus s ! d)"
    "threads (chosen c i t s) u = (if u = t \<and> t \<noteq> 0
       then (threads s u)\<lparr>t_lock := snd (spinlock_test_and_acq (t_lock (threads s u)))\<rparr> else threads s u)"
  using assms by (simp_all add: chosen_def entered_def Let_def)

lemma sched_entry_unfold:
  assumes c: "c < length (cpus s)" and len: "length (running_queue s) = MAX_RUNNING_THREADS"
    and on: "\<not> scheduling_off (threads s (cur s c))"
    and pk: "pick (entered c s) (scan_end c (entered c s)) (scan_order c (entered c s)) = (i, t)"
  shows "sched_entry k c cx s = Some (
    if cur s c = idle_of s c then Inr (sched_continue k c t (chosen c i t s))
    else if cur s c = 0 then Inl NullDeref
    else let s2 = put_thread (chosen c i t s) (cur s c) (\<lambda>r. r\<lparr>yield_await := spinlock_release (yield_await r)\<rparr>)
         in if t = 0 \<and> enqueued (threads s2 (cur s c))
            then Inr (timer_oneshot c (timeslice (threads s2 (cur s c))) s2, Returned)
            else Inr (sched_continue k c t (put_thread s2 (cur s c) (save_thread (cpus s2 ! c) cx))))"
proof -
  have "get_next_thread c (entered c s) = Some (Inr (t, chosen c i t s))"
    using get_next_thread_pick [OF _ pk] len entered_simps [OF c] by (simp add: chosen_def)
  moreover have "put_cpu (put_cpu s c (\<lambda>p. p\<lparr>oneshot := None\<rparr>)) c (\<lambda>p. p\<lparr>active := True\<rparr>) = entered c s"
    by (simp add: entered_def)
  ultimately show ?thesis using on c chosen_simps [OF c, of i t]
    by (simp add: sched_entry_def Let_def)
qed

lemma pick_entered:
  assumes c: "c < length (cpus s)" and len: "length (running_queue s) = MAX_RUNNING_THREADS"
    and pk: "pick (entered c s) (scan_end c (entered c s)) (scan_order c (entered c s)) = (i, t)"
  shows "t = 0 \<or> (runnable s t \<and> t \<in> set (running_queue s))"
proof -
  have "runnable (entered c s) t = runnable s t" using entered_simps [OF c] by (simp add: runnable_def)
  with pick_cases [OF _ pk] len entered_simps [OF c] show ?thesis by auto
qed

lemma sched_entry_inv:
  assumes inv: "sched_inv s" and c: "c < length (cpus s)"
  shows "\<exists>s' out. sched_entry k c cx s = Some (Inr (s', out)) \<and> sched_inv s'"
proof (cases "scheduling_off (threads s (cur s c))")
  case True
  let ?s = "timer_oneshot c (timeslice (threads s (cur s c))) (put_cpu s c (\<lambda>p. p\<lparr>oneshot := None\<rparr>))"
  have "sched_inv ?s"
    by (rule sched_inv_switch [OF inv c]) (use c sched_invD [OF inv] in \<open>auto simp: timer_oneshot_def\<close>)
  then show ?thesis using True c sched_invD(1) [OF inv c] by (simp add: sched_entry_def Let_def)
next
  case False
  have len: "length (running_queue s) = MAX_RUNNING_THREADS" using inv by (simp add: sched_inv_def)
  obtain i t where pk: "pick (entered c s) (scan_end c (entered c s)) (scan_order c (entered c s)) = (i, t)"
    by (cases "pick (entered c s) (scan_end c (entered c s)) (scan_order c (entered c s))")
  note un = sched_entry_unfold [OF c len False pk, of k cx]
  note t = pick_entered [OF c len pk] and ch = chosen_simps [OF c, of i t]
  have D: "cur s d \<noteq> idle_of s d \<Longrightarrow> \<not> unlocked (t_lock (threads s (cur s d)))"
    "d \<noteq> c \<Longrightarrow> cur s d \<noteq> cur s c" if "d < length (cpus s)" for d
    using that sched_invD(4) [OF inv] sched_invD(5) [OF inv that c] by blast+
  have cont: "sched_inv (fst (sched_continue k c t x))"
    if x: "running_queue x = running_queue s" "length (cpus x) = length (cpus s)"
      "\<And>d. cpu_gs (cpus x ! d) = cur s d" "\<And>d. idle_of x d = idle_of s d"
      "\<And>u. u \<noteq> cur s c \<Longrightarrow> unlocked (t_lock (threads x u)) \<longrightarrow> unlocked (t_lock (threads s u))"
      "t \<noteq> 0 \<Longrightarrow> \<not> unlocked (t_lock (threads x t))" for x
  proof (rule sched_inv_switch [OF inv c])
    show "running_queue (fst (sched_continue k c t x)) = running_queue s"
      using x(1) by (simp add: sched_continue_def Let_def)
    show "length (cpus (fst (sched_continue k c t x))) = length (cpus s)"
      using x(2) by (simp add: sched_continue_def Let_def)
    show "idle_of (fst (sched_continue k c t x)) d = idle_of s d" if "d < length (cpus s)" for d
      using that x c by (simp add: sched_continue_def Let_def load_thread_def)
    show "cur (fst (sched_continue k c t x)) d = cur s d" if "d < length (cpus s)" "d \<noteq> c" for d
      using that x c by (simp add: sched_continue_def Let_def)
    show "cur (fst (sched_continue k c t x)) c = cur s c \<or> cur (fst (sched_continue k c t x)) c = idle_of s c \<or>
      runnable s (cur (fst (sched_continue k c t x)) c) \<and> cur (fst (sched_continue k c t x)) c \<in> set (running_queue s)"
      using x c t by (auto simp: sched_continue_def Let_def load_thread_def)
    show "\<not> unlocked (t_lock (threads (fst (sched_continue k c t x)) (cur (fst (sched_continue k c t x)) d)))"
      if d: "d < length (cpus s)" and n: "cur (fst (sched_continue k c t x)) d \<noteq> idle_of s d" for d
      using x c d n D [OF d] by (cases "d = c") (auto simp: sched_continue_def Let_def load_thread_def split: if_splits)
  qed
  consider (idle) "cur s c = idle_of s c" | (busy) "cur s c \<noteq> idle_of s c" by blast
  then show ?thesis
  proof cases
    case idle
    have "sched_inv (fst (sched_continue k c t (chosen c i t s)))"
      by (rule cont) (use ch in auto)
    with un idle show ?thesis by (cases "sched_continue k c t (chosen c i t s)") simp
  next
    case busy
    let ?s2 = "put_thread (chosen c i t s) (cur s c) (\<lambda>r. r\<lparr>yield_await := spinlock_release (yield_await r)\<rparr>)"
    have nz: "cur s c \<noteq> 0" by (rule sched_invD(1) [OF inv c])
    have tc: "t \<noteq> cur s c" using t busy D [OF c] nz by (auto simp: runnable_def)
    show ?thesis
    proof (cases "t = 0 \<and> enqueued (threads ?s2 (cur s c))")
      case True
      have "sched_inv (timer_oneshot c (timeslice (threads ?s2 (cur s c))) ?s2)"
        by (rule sched_inv_switch [OF inv c]) (use c ch True D busy in \<open>auto simp: timer_oneshot_def\<close>)
      with un busy nz True show ?thesis by (auto simp: Let_def)
    next
      case False
      let ?r = "sched_continue k c t (put_thread ?s2 (cur s c) (save_thread (cpus ?s2 ! c) cx))"
      have "sched_inv (fst ?r)"
        by (rule cont) (use ch tc in \<open>auto simp: save_thread_def\<close>)
      moreover have "sched_entry k c cx s = Some (Inr ?r)"
        using un busy nz False by (cases "t = 0") (auto simp: Let_def)
      ultimately show ?thesis by (cases ?r) simp
    qed
  qed
qed

text \<open>What a switch to another thread saves and loads.\<close>

definition saved_from :: "cpu_local \<Rightarrow> cpu_ctx \<Rightarrow> thread \<Rightarrow> bool" where
  "saved_from p cx r \<longleftrightarrow> t_ctx r = cx \<and> gs_base r = cpu_kernel_gs p \<and> fs_base r = cpu_fs p \<and>
     cr3 r = cpu_cr3 p \<and> fpu_storage r = cpu_fpu p \<and> running_on r = -1 \<and> unlocked (t_lock r)"

definition loaded_from :: "thread \<Rightarrow> cpu_local \<Rightarrow> bool" where
  "loaded_from r p \<longleftrightarrow> (ctx_cs (t_ctx r) = 0x4b \<longrightarrow> cpu_kernel_gs p = gs_base r) \<and> cpu_fs p = fs_base r \<and>
     cpu_cr3 p = cr3 r \<and> cpu_fpu p = fpu_storage r \<and> ist2 p = pf_stack r \<and> syscall_stack p = kernel_stack r"

lemma sched_entry_switch:
  assumes inv: "sched_inv s" and c: "c < length (cpus s)"
    and run: "sched_entry k c cx s = Some (Inr (s', Continued t cx'))"
  shows "runnable s t \<and> t \<in> set (running_queue s) \<and> t \<noteq> cur s c \<and> cur s' c = t \<and> cx' = t_ctx (threads s t) \<and>
    loaded_from (threads s t) (cpus s' ! c) \<and>
    (cur s c \<noteq> idle_of s c \<longrightarrow> saved_from (cpus s ! c) cx (threads s' (cur s c)))"
proof (cases "scheduling_off (threads s (cur s c))")
  case True
  with run c sched_invD(1) [OF inv c] show ?thesis by (simp add: sched_entry_def Let_def)
next
  case False
  have len: "length (running_queue s) = MAX_RUNNING_THREADS" using inv by (simp add: sched_inv_def)
  obtain i u where pk: "pick (entered c s) (scan_end c (entered c s)) (scan_order c (entered c s)) = (i, u)"
    by (cases "pick (entered c s) (scan_end c (entered c s)) (scan_order c (entered c s))")
  note un = sched_entry_unfold [OF c len False pk, of k cx]
  note ch = chosen_simps [OF c, of i u]
  have nz: "cur s c \<noteq> 0" by (rule sched_invD(1) [OF inv c])
  from un run have u: "u = t" "t \<noteq> 0"
    by (auto simp: sched_continue_def Let_def split: if_splits)
  have r: "runnable s t" "t \<in> set (running_queue s)" using pick_entered [OF c len pk] u by auto
  have tc: "t \<noteq> cur s c"
  proof
    assume e: "t = cur s c"
    then have "cur s c \<noteq> idle_of s c" using r(2) sched_invD(3) [OF inv c] by auto
    with sched_invD(4) [OF inv c] r(1) e show False by (simp add: runnable_def)
  qed
  show ?thesis
    using un run r tc u nz ch c
    by (cases "cur s c = idle_of s c")
      (auto simp: sched_continue_def Let_def load_thread_def loaded_from_def saved_from_def save_thread_def split: if_splits)
qed

subsection \<open>Properties\<close>

text \<open>One CPU running thread \<open>0x2000\<close>; thread \<open>0x1000\<close> is enqueued and not running.\<close>

definition blank_thread :: thread where
  "blank_thread = \<lparr>t_lock = SPINLOCK_INIT, yield_await = SPINLOCK_INIT, scheduling_off = False, running_on = -1,
     enqueued = False, enqueued_by_signal = False, timeslice = 5000, t_ctx = \<lparr>ctx_regs = [1, 2], ctx_cs = 0x4b\<rparr>,
     gs_base = 7, fs_base = 8, cr3 = 9, fpu_storage = [], kernel_stack = 0, pf_stack = 0, which_event = 0,
     attached_events = []\<rparr>"

definition sched_example :: sched where
  "sched_example = \<lparr>running_queue = 0x1000 # replicate 65535 0,
     threads = (\<lambda>_. blank_thread)(0x1000 := blank_thread\<lparr>enqueued := True\<rparr>,
       0x2000 := blank_thread\<lparr>t_lock := SPINLOCK_INIT\<lparr>lock_word := 1\<rparr>\<rparr>),
     cpus = [\<lparr>cpu_number = 0, active = True, last_run_queue_index = 65535, idle_thread = 0x10, cpu_gs = 0x2000,
       cpu_kernel_gs = 3, cpu_fs = 4, cpu_cr3 = 5, cpu_fpu = [], syscall_stack = 0, ist2 = 0, oneshot = None\<rparr>],
     ipis = []\<rparr>"

lemma sched_example_inv: "sched_inv sched_example" "queue_inv sched_example" "length (cpus sched_example) = 1"
  by (auto simp: sched_inv_def queue_inv_def sched_example_def MAX_RUNNING_THREADS_def blank_thread_def)

lemma sched_example_scan:
  "scan_end 0 (entered 0 sched_example) = 65535" "pick (entered 0 sched_example) 65535 (scan_order 0 (entered 0 sched_example)) = (0, 0x1000)"
proof -
  show e: "scan_end 0 (entered 0 sched_example) = 65535"
    by (simp add: scan_end_def entered_def sched_example_def MAX_RUNNING_THREADS_def)
  have "scan_order 0 (entered 0 sched_example) = 0 # [1..<65536]"
    by (simp add: scan_order_def e MAX_RUNNING_THREADS_def upt_rec [of 0 65536])
  then show "pick (entered 0 sched_example) 65535 (scan_order 0 (entered 0 sched_example)) = (0, 0x1000)"
    by (simp add: pick_Cons runnable_def entered_def sched_example_def put_cpu_def blank_thread_def)
qed

text \<open>
  C15. The running queue holds every thread at most once and exactly the threads marked enqueued:
  enqueueing and dequeueing keep this, enqueueing fails only when the queue is full, and a thread that
  was dequeued is in no slot.
\<close>

theorem running_queue_consistent:
  assumes "queue_inv s" and "t \<noteq> 0"
  shows "queue_inv (snd (sched_enqueue_thread t b s)) \<and> queue_inv (snd (sched_dequeue_thread t s)) \<and>
    (fst (sched_enqueue_thread t b s) \<longleftrightarrow> enqueued (threads s t) \<or> 0 \<in> set (running_queue s)) \<and>
    (fst (sched_enqueue_thread t b s) \<longrightarrow> t \<in> set (running_queue (snd (sched_enqueue_thread t b s)))) \<and>
    fst (sched_dequeue_thread t s) \<and> t \<notin> set (running_queue (snd (sched_dequeue_thread t s)))"
  using enqueue_inv [OF assms] dequeue_inv [OF assms] by blast

theorem running_queue_consistent_witness:
  "fst (sched_enqueue_thread 0x3000 False sched_example) \<and>
   0x1000 \<notin> set (running_queue (snd (sched_dequeue_thread 0x1000 sched_example)))"
proof -
  have "0 \<in> set (running_queue sched_example)" by (simp add: sched_example_def)
  with running_queue_consistent [OF sched_example_inv(2), of "0x3000"]
    running_queue_consistent [OF sched_example_inv(2), of "0x1000"] show ?thesis by auto
qed

text \<open>
  \<open>get_next_thread\<close> returns after looking at every slot at most once, in cyclic order starting
  behind the slot of the CPU's last choice; it returns the first thread in that order whose lock is
  free, with the lock taken, and \<open>NULL\<close> only when no thread of the queue has a free lock.
\<close>

theorem get_next_thread_round_robin:
  assumes "queue_inv s" and "c < length (cpus s)"
  shows "\<exists>t s'. get_next_thread c s = Some (Inr (t, s')) \<and>
    (case find (\<lambda>i. runnable s (running_queue s ! i)) (scan_order c s) of
       None \<Rightarrow> t = 0 \<and> (\<forall>u \<in> set (running_queue s). \<not> runnable s u)
     | Some i \<Rightarrow> t = running_queue s ! i \<and> runnable s t \<and> \<not> runnable s' t \<and>
         last_run_queue_index (cpus s' ! c) = i)"
proof -
  have len: "length (running_queue s) = MAX_RUNNING_THREADS" using assms by (simp add: queue_inv_def)
  obtain i t where pk: "pick s (scan_end c s) (scan_order c s) = (i, t)"
    by (cases "pick s (scan_end c s) (scan_order c s)")
  have n: "t = 0 \<Longrightarrow> \<not> runnable s t" by (simp add: runnable_def)
  show ?thesis
  proof (cases "find (\<lambda>i. runnable s (running_queue s ! i)) (scan_order c s)")
    case None
    with pk have "t = 0" by (simp add: pick_def)
    with get_next_thread_pick [OF len pk] pick_cases [OF len pk] n None show ?thesis by (simp add: Let_def)
  next
    case (Some j)
    with pk have j: "i = j" "t = running_queue s ! j" by (auto simp: pick_def)
    have r: "runnable s t" using Some j(2) by (auto simp: find_Some_iff)
    then have "t \<noteq> 0" by (simp add: runnable_def)
    then show ?thesis
      using get_next_thread_pick [OF len pk] r j Some assms(2)
      by (simp add: Let_def runnable_def [of "put_thread _ _ _"])
  qed
qed

theorem get_next_thread_round_robin_witness:
  "\<exists>s'. get_next_thread 0 (entered 0 sched_example) = Some (Inr (0x1000, s'))"
proof -
  let ?s = "entered 0 sched_example"
  have c: "0 < length (cpus sched_example)" by (simp add: sched_example_inv(3))
  have q: "queue_inv ?s" using sched_example_inv(2) entered_simps [OF c] by (simp add: queue_inv_def)
  have l: "0 < length (cpus ?s)" using entered_simps(3) [OF c] c by simp
  from sched_example_scan(2) have "find (\<lambda>i. runnable ?s (running_queue ?s ! i)) (scan_order 0 ?s) = Some 0"
    by (auto simp: pick_def split: option.splits)
  with get_next_thread_round_robin [OF q l] entered_simps(2) [OF c] show ?thesis
    by (auto simp: sched_example_def)
qed

text \<open>
  C12. The scheduler interrupt always returns, idles or continues a thread, and never puts a thread
  on two CPUs: in every state it leaves, two CPUs run different threads, and the lock of a thread
  that runs is held.
\<close>

theorem no_thread_on_two_cpus:
  assumes "sched_inv s" and "c < length (cpus s)"
  shows "\<exists>s' out. sched_entry k c cx s = Some (Inr (s', out)) \<and> sched_inv s' \<and>
    (\<forall>a b. a < length (cpus s') \<and> b < length (cpus s') \<and> cur s' a = cur s' b \<longrightarrow> a = b)"
proof -
  from sched_entry_inv [OF assms] obtain s' out where s': "sched_entry k c cx s = Some (Inr (s', out))" "sched_inv s'"
    by blast
  moreover have "\<forall>a b. a < length (cpus s') \<and> b < length (cpus s') \<and> cur s' a = cur s' b \<longrightarrow> a = b"
    using s'(2) unfolding sched_inv_def by blast
  ultimately show ?thesis by blast
qed

theorem no_thread_on_two_cpus_witness:
  "\<exists>s' out. sched_entry 0 0 \<lparr>ctx_regs = [], ctx_cs = 0x4b\<rparr> sched_example = Some (Inr (s', out)) \<and> sched_inv s'"
  using no_thread_on_two_cpus [OF sched_example_inv(1), of 0 0 "\<lparr>ctx_regs = [], ctx_cs = 0x4b\<rparr>"]
    sched_example_inv(3) by auto

text \<open>
  C13. A context switch saves and restores everything: the interrupted thread's record holds the
  registers the CPU had, its lock is free again, and the continued thread, which ran on no CPU,
  gets exactly the context it was saved with.
\<close>

theorem context_switch_saves_and_restores:
  assumes "sched_inv s" and "c < length (cpus s)"
    and "sched_entry k c cx s = Some (Inr (s', Continued t cx'))"
  shows "runnable s t \<and> t \<noteq> cur s c \<and> cur s' c = t \<and> cx' = t_ctx (threads s t) \<and>
    loaded_from (threads s t) (cpus s' ! c) \<and>
    (cur s c \<noteq> idle_of s c \<longrightarrow> saved_from (cpus s ! c) cx (threads s' (cur s c)))"
  using sched_entry_switch [OF assms] by blast

lemma sched_example_run:
  "\<exists>s'. sched_entry 0 0 \<lparr>ctx_regs = [6], ctx_cs = 0x4b\<rparr> sched_example =
     Some (Inr (s', Continued 0x1000 \<lparr>ctx_regs = [1, 2], ctx_cs = 0x4b\<rparr>))"
proof -
  have c: "0 < length (cpus sched_example)" by (simp add: sched_example_inv(3))
  have l: "length (running_queue sched_example) = MAX_RUNNING_THREADS"
    using sched_example_inv(1) by (simp add: sched_inv_def)
  have x: "cur sched_example 0 = 0x2000" "idle_of sched_example 0 = 0x10" "threads sched_example 0x2000 =
    blank_thread\<lparr>t_lock := SPINLOCK_INIT\<lparr>lock_word := 1\<rparr>\<rparr>" "threads sched_example 0x1000 = blank_thread\<lparr>enqueued := True\<rparr>"
    by (simp_all add: sched_example_def)
  show ?thesis
    using sched_entry_unfold [OF c l _ sched_example_scan(2) [folded sched_example_scan(1)],
        of 0 "\<lparr>ctx_regs = [6], ctx_cs = 0x4b\<rparr>"] chosen_simps [OF c, of 0 "0x1000"] x
    by (simp add: sched_continue_def Let_def blank_thread_def)
qed

theorem context_switch_saves_and_restores_witness:
  "\<exists>s'. sched_entry 0 0 \<lparr>ctx_regs = [6], ctx_cs = 0x4b\<rparr> sched_example =
     Some (Inr (s', Continued 0x1000 \<lparr>ctx_regs = [1, 2], ctx_cs = 0x4b\<rparr>)) \<and>
     t_ctx (threads s' 0x2000) = \<lparr>ctx_regs = [6], ctx_cs = 0x4b\<rparr> \<and> fs_base (threads s' 0x2000) = 4"
proof -
  have c: "0 < length (cpus sched_example)" by (simp add: sched_example_inv(3))
  have x: "cur sched_example 0 = 0x2000" "idle_of sched_example 0 = 0x10" "cpu_fs (cpus sched_example ! 0) = 4"
    by (simp_all add: sched_example_def)
  from sched_example_run obtain s' where r: "sched_entry 0 0 \<lparr>ctx_regs = [6], ctx_cs = 0x4b\<rparr> sched_example =
     Some (Inr (s', Continued 0x1000 \<lparr>ctx_regs = [1, 2], ctx_cs = 0x4b\<rparr>))" by blast
  from context_switch_saves_and_restores [OF sched_example_inv(1) c r] x r show ?thesis
    by (auto simp: saved_from_def)
qed

end
