(* ===== verification/Lyre_Event.thy ===== *)
theory Lyre_Event
  imports Lyre_Sched
begin

text \<open>
  Events (\<open>lib/event.c\<close>), the kernel's only way to wait: a thread waits for one of several events,
  and whoever triggers an event wakes all its listeners, or counts the trigger as pending when
  nobody listens.  Events are known by their address.  The array of listeners is the list of its
  first \<open>listeners_i\<close> entries, a pair of thread and index; so is the array of a thread's attached
  events.  \<open>event_await\<close> gives up the CPU in the middle: the part before is \<open>event_await_begin\<close>, the
  part after the thread was woken is \<open>event_await_end\<close>.
\<close>

subsection \<open>State and operations\<close>

definition EVENT_MAX_LISTENERS :: nat where
  "EVENT_MAX_LISTENERS = 32"

definition MAX_EVENTS :: nat where
  "MAX_EVENTS = 32"

record event =
  ev_lock :: spinlock
  pending :: u64
  listeners :: "(u64 \<times> u64) list"

record ksys =
  ks_sched :: sched
  events :: "u64 \<Rightarrow> event"

definition put_event :: "ksys \<Rightarrow> u64 \<Rightarrow> (event \<Rightarrow> event) \<Rightarrow> ksys" where
  "put_event s e f = s\<lparr>events := (events s)(e := f (events s e))\<rparr>"

definition thread_of :: "ksys \<Rightarrow> u64 \<Rightarrow> thread" where
  "thread_of s t = threads (ks_sched s) t"

definition on_thread :: "ksys \<Rightarrow> u64 \<Rightarrow> (thread \<Rightarrow> thread) \<Rightarrow> ksys" where
  "on_thread s t f = s\<lparr>ks_sched := put_thread (ks_sched s) t f\<rparr>"

text \<open>The first event with a pending trigger gives it up; its index is the result, or \<open>-1\<close>.\<close>

fun check_for_pending :: "int \<Rightarrow> u64 list \<Rightarrow> ksys \<Rightarrow> int \<times> ksys" where
  "check_for_pending i [] s = (-1, s)"
| "check_for_pending i (e # es) s =
     (if pending (events s e) > 0 then (i, put_event s e (\<lambda>v. v\<lparr>pending := pending v - 1\<rparr>))
      else check_for_pending (i + 1) es s)"

fun attach_loop :: "u64 \<Rightarrow> u64 \<Rightarrow> u64 list \<Rightarrow> ksys \<Rightarrow> ksys result" where
  "attach_loop t i [] s = Inr s"
| "attach_loop t i (e # es) s =
     (if length (listeners (events s e)) = EVENT_MAX_LISTENERS then Inl (Panic ''Event listeners exhausted'')
      else let s1 = put_event s e (\<lambda>v. v\<lparr>listeners := listeners v @ [(t, i)]\<rparr>)
           in if length (attached_events (thread_of s1 t)) = MAX_EVENTS
              then Inl (Panic ''Listening on too many events'')
              else attach_loop t (i + 1) es (on_thread s1 t (\<lambda>r. r\<lparr>attached_events := attached_events r @ [e]\<rparr>)))"

definition attach_listeners :: "u64 list \<Rightarrow> u64 \<Rightarrow> ksys \<Rightarrow> ksys result" where
  "attach_listeners es t s = attach_loop t 0 es (on_thread s t (\<lambda>r. r\<lparr>attached_events := []\<rparr>))"

text \<open>Taking a thread's first entry out of a listener array: the last entry takes its place.\<close>

fun listener_index :: "u64 \<Rightarrow> (u64 \<times> u64) list \<Rightarrow> nat option" where
  "listener_index t [] = None"
| "listener_index t (l # ls) = (if fst l = t then Some 0 else map_option Suc (listener_index t ls))"

definition drop_listener :: "u64 \<Rightarrow> (u64 \<times> u64) list \<Rightarrow> (u64 \<times> u64) list" where
  "drop_listener t ls = (case listener_index t ls of None \<Rightarrow> ls | Some j \<Rightarrow> butlast (ls[j := last ls]))"

fun detach_loop :: "u64 \<Rightarrow> u64 list \<Rightarrow> ksys \<Rightarrow> ksys" where
  "detach_loop t [] s = s"
| "detach_loop t (e # es) s =
     detach_loop t es (put_event s e (\<lambda>v. v\<lparr>listeners := drop_listener t (listeners v)\<rparr>))"

definition detach_listeners :: "u64 \<Rightarrow> ksys \<Rightarrow> ksys" where
  "detach_listeners t s =
     on_thread (detach_loop t (attached_events (thread_of s t)) s) t (\<lambda>r. r\<lparr>attached_events := []\<rparr>)"

fun lock_events :: "u64 list \<Rightarrow> ksys \<Rightarrow> ksys result" where
  "lock_events [] s = Inr s"
| "lock_events (e # es) s =
     rbind (spinlock_acquire ''lock_events'' (ev_lock (events s e)))
       (\<lambda>l. lock_events es (put_event s e (\<lambda>v. v\<lparr>ev_lock := l\<rparr>)))"

fun unlock_events :: "u64 list \<Rightarrow> ksys \<Rightarrow> ksys" where
  "unlock_events [] s = s"
| "unlock_events (e # es) s = unlock_events es (put_event s e (\<lambda>v. v\<lparr>ev_lock := spinlock_release (ev_lock v)\<rparr>))"

datatype await_outcome = Await_done int | Await_blocked

text \<open>\<open>event_await\<close> on CPU \<open>c\<close> up to the switch to another thread.\<close>

definition event_await_begin :: "nat \<Rightarrow> u64 list \<Rightarrow> bool \<Rightarrow> ksys \<Rightarrow> (await_outcome \<times> ksys) result" where
  "event_await_begin c es block s =
     (let t = cpu_gs (cpus (ks_sched s) ! c)
      in rbind (lock_events es s) (\<lambda>s1.
         let (i, s2) = check_for_pending 0 es s1
         in if i \<noteq> -1 then Inr (Await_done i, unlock_events es s2)
            else if \<not> block then Inr (Await_done (-1), unlock_events es s2)
            else rbind (attach_listeners es t s2) (\<lambda>s3.
                 let s4 = s3\<lparr>ks_sched := snd (sched_dequeue_thread t (ks_sched s3))\<rparr>;
                     s5 = unlock_events es s4
                 in rbind (sched_yield c True (ks_sched s5)) (\<lambda>q.
                      Inr (Await_blocked, s5\<lparr>ks_sched := q\<rparr>)))))"

text \<open>The rest, run by thread \<open>t\<close> when it is scheduled again.\<close>

definition event_await_end :: "u64 \<Rightarrow> u64 list \<Rightarrow> ksys \<Rightarrow> (int \<times> ksys) result" where
  "event_await_end t es s =
     (let ret = (if enqueued_by_signal (thread_of s t) then -1 else uint (which_event (thread_of s t)))
      in rbind (lock_events es s) (\<lambda>s1.
           Inr (ret, unlock_events es (detach_listeners t s1))))"

fun wake_listeners :: "(u64 \<times> u64) list \<Rightarrow> sched \<Rightarrow> sched" where
  "wake_listeners [] q = q"
| "wake_listeners ((t, w) # ls) q =
     wake_listeners ls (snd (sched_enqueue_thread t False (put_thread q t (\<lambda>r. r\<lparr>which_event := w\<rparr>))))"

definition event_trigger :: "u64 \<Rightarrow> bool \<Rightarrow> ksys \<Rightarrow> (u64 \<times> ksys) result" where
  "event_trigger e drop_it s =
     rbind (spinlock_acquire ''event_trigger'' (ev_lock (events s e))) (\<lambda>l.
       let s1 = put_event s e (\<lambda>v. v\<lparr>ev_lock := l\<rparr>);
           ls = listeners (events s1 e);
           (ret, s2) =
             (if ls = [] then (0, if drop_it then s1 else put_event s1 e (\<lambda>v. v\<lparr>pending := pending v + 1\<rparr>))
              else (of_nat (length ls),
                    put_event (s1\<lparr>ks_sched := wake_listeners ls (ks_sched s1)\<rparr>) e (\<lambda>v. v\<lparr>listeners := []\<rparr>)))
       in Inr (ret, put_event s2 e (\<lambda>v. v\<lparr>ev_lock := spinlock_release (ev_lock v)\<rparr>)))"

subsection \<open>Locking\<close>

lemma put_event_simps [simp]:
  "ks_sched (put_event s e f) = ks_sched s"
  "events (put_event s e f) d = (if d = e then f (events s e) else events s d)"
  by (simp_all add: put_event_def)

lemma on_thread_simps [simp]:
  "events (on_thread s t f) = events s"
  "thread_of (on_thread s t f) u = (if u = t then f (thread_of s t) else thread_of s u)"
  "thread_of (put_event s e g) u = thread_of s u"
  by (simp_all add: on_thread_def thread_of_def)

definition with_locks :: "u64 list \<Rightarrow> (spinlock \<Rightarrow> spinlock) \<Rightarrow> ksys \<Rightarrow> ksys" where
  "with_locks es f s = s\<lparr>events := (\<lambda>e. if e \<in> set es then (events s e)\<lparr>ev_lock := f (ev_lock (events s e))\<rparr>
     else events s e)\<rparr>"

lemma with_locks_simps [simp]:
  "ks_sched (with_locks es f s) = ks_sched s" "thread_of (with_locks es f s) = thread_of s"
  "pending (events (with_locks es f s) e) = pending (events s e)"
  "listeners (events (with_locks es f s) e) = listeners (events s e)"
  "ev_lock (events (with_locks es f s) e) = (if e \<in> set es then f (ev_lock (events s e)) else ev_lock (events s e))"
  by (simp_all add: with_locks_def thread_of_def fun_eq_iff)

lemma with_locks_Cons:
  "e \<notin> set es \<Longrightarrow> with_locks (e # es) f s = with_locks es f (put_event s e (\<lambda>v. v\<lparr>ev_lock := f (ev_lock v)\<rparr>))"
  by (rule ksys.equality) (auto simp: with_locks_def put_event_def fun_eq_iff)

definition taken :: "spinlock \<Rightarrow> spinlock" where
  "taken l = l\<lparr>lock_word := 1, last_acquirer := ''lock_events''\<rparr>"

lemma lock_events_ok:
  assumes "distinct es" and "\<And>e. e \<in> set es \<Longrightarrow> unlocked (ev_lock (events s e))"
  shows "lock_events es s = Inr (with_locks es taken s)"
  using assms
proof (induction es arbitrary: s)
  case Nil
  then show ?case by (simp add: with_locks_def)
next
  case (Cons e es)
  have "put_event s e (\<lambda>v. v\<lparr>ev_lock := taken (ev_lock (events s e))\<rparr>) = put_event s e (\<lambda>v. v\<lparr>ev_lock := taken (ev_lock v)\<rparr>)"
    by (simp add: put_event_def)
  moreover have "lock_events es (put_event s e (\<lambda>v. v\<lparr>ev_lock := taken (ev_lock v)\<rparr>)) =
    Inr (with_locks es taken (put_event s e (\<lambda>v. v\<lparr>ev_lock := taken (ev_lock v)\<rparr>)))"
    using Cons.prems by (intro Cons.IH) auto
  ultimately show ?case using Cons.prems
    by (simp add: spinlock_acquire_unlocked taken_def [symmetric] with_locks_Cons)
qed

lemma release_idem [simp]: "spinlock_release (spinlock_release l) = spinlock_release l"
  by (simp add: spinlock_release_def)

lemma unlock_events_all: "unlock_events es s = with_locks es spinlock_release s"
proof (induction es arbitrary: s)
  case Nil
  then show ?case by (simp add: with_locks_def)
next
  case (Cons e es)
  then show ?case by (auto simp: with_locks_def put_event_def fun_eq_iff)
qed

subsection \<open>Pending triggers\<close>

lemma no_pending: "(\<And>e. e \<in> set es \<Longrightarrow> pending (events s e) = 0) \<Longrightarrow> check_for_pending i es s = (-1, s)"
  by (induction es arbitrary: i) simp_all

subsection \<open>Attaching and detaching\<close>

lemma attach_loop_ok:
  assumes "distinct es" and "\<And>e. e \<in> set es \<Longrightarrow> length (listeners (events s e)) < EVENT_MAX_LISTENERS"
    and "length (attached_events (thread_of s t)) + length es \<le> MAX_EVENTS"
  shows "\<exists>s'. attach_loop t i es s = Inr s' \<and>
    (\<forall>k < length es. events s' (es ! k) =
       (events s (es ! k))\<lparr>listeners := listeners (events s (es ! k)) @ [(t, i + of_nat k)]\<rparr>) \<and>
    (\<forall>e. e \<notin> set es \<longrightarrow> events s' e = events s e) \<and>
    ks_sched s' = put_thread (ks_sched s) t (\<lambda>r. r\<lparr>attached_events := attached_events r @ es\<rparr>)"
  using assms
proof (induction es arbitrary: s i)
  case Nil
  have "ks_sched s = put_thread (ks_sched s) t (\<lambda>r. r\<lparr>attached_events := attached_events r @ []\<rparr>)"
    by (simp add: put_thread_def)
  then show ?case by auto
next
  case (Cons e es)
  define s1 where "s1 = on_thread (put_event s e (\<lambda>v. v\<lparr>listeners := listeners v @ [(t, i)]\<rparr>)) t
    (\<lambda>r. r\<lparr>attached_events := attached_events r @ [e]\<rparr>)"
  have step: "attach_loop t i (e # es) s = attach_loop t (i + 1) es s1"
    using Cons.prems(2) [of e] Cons.prems(3) by (simp add: s1_def)
  have e: "e \<notin> set es" using Cons.prems(1) by simp
  have "\<exists>s'. attach_loop t (i + 1) es s1 = Inr s' \<and>
    (\<forall>k < length es. events s' (es ! k) =
       (events s1 (es ! k))\<lparr>listeners := listeners (events s1 (es ! k)) @ [(t, i + 1 + of_nat k)]\<rparr>) \<and>
    (\<forall>e. e \<notin> set es \<longrightarrow> events s' e = events s1 e) \<and>
    ks_sched s' = put_thread (ks_sched s1) t (\<lambda>r. r\<lparr>attached_events := attached_events r @ es\<rparr>)"
    using Cons.prems e by (intro Cons.IH) (auto simp: s1_def)
  then obtain s' where s': "attach_loop t (i + 1) es s1 = Inr s'"
    "\<And>k. k < length es \<Longrightarrow> events s' (es ! k) =
       (events s1 (es ! k))\<lparr>listeners := listeners (events s1 (es ! k)) @ [(t, i + 1 + of_nat k)]\<rparr>"
    "\<And>e. e \<notin> set es \<Longrightarrow> events s' e = events s1 e"
    "ks_sched s' = put_thread (ks_sched s1) t (\<lambda>r. r\<lparr>attached_events := attached_events r @ es\<rparr>)" by blast
  have ne: "es ! k \<noteq> e" if "k < length es" for k using that e by (metis nth_mem)
  have "events s' ((e # es) ! k) = (events s ((e # es) ! k))\<lparr>listeners := listeners (events s ((e # es) ! k)) @ [(t, i + of_nat k)]\<rparr>"
    if "k < length (e # es)" for k
    using that s'(2,3) e ne by (cases k) (auto simp: s1_def add.assoc)
  moreover have "ks_sched s' = put_thread (ks_sched s) t (\<lambda>r. r\<lparr>attached_events := attached_events r @ (e # es)\<rparr>)"
    by (simp add: s'(4) s1_def on_thread_def put_thread_def)
  moreover have "\<forall>d. d \<notin> set (e # es) \<longrightarrow> events s' d = events s d" using s'(3) by (simp add: s1_def)
  ultimately show ?case using step s'(1) by auto
qed

lemma listener_index_None: "listener_index t ls = None \<longleftrightarrow> t \<notin> fst ` set ls"
  by (induction ls) auto

lemma listener_index_Some: "listener_index t ls = Some j \<Longrightarrow> j < length ls \<and> fst (ls ! j) = t"
  by (induction ls arbitrary: j) (auto split: if_splits)

text \<open>A thread that listens at most once is gone afterwards; the other listeners stay.\<close>

lemma drop_listener_once:
  assumes "count (mset (map fst ls)) t \<le> 1"
  shows "mset (drop_listener t ls) = filter_mset (\<lambda>l. fst l \<noteq> t) (mset ls)"
proof (cases "listener_index t ls")
  case None
  then have "filter (\<lambda>l. fst l \<noteq> t) ls = ls" by (auto simp: listener_index_None image_iff filter_id_conv)
  with None show ?thesis using mset_filter [of "\<lambda>l. fst l \<noteq> t" ls] by (simp add: drop_listener_def)
next
  case (Some j)
  then have j: "j < length ls" "fst (ls ! j) = t" using listener_index_Some by blast+
  let ?d = "butlast (ls[j := last ls])"
  have m: "add_mset (ls ! j) (mset ?d) = mset ls" by (rule mset_swap_last [OF j(1)])
  have "add_mset t (mset (map fst ?d)) = mset (map fst ls)"
    using arg_cong [OF m, of "image_mset fst"] j(2) by simp
  from arg_cong [OF this, of "\<lambda>M. count M t"] have "count (mset (map fst ?d)) t = 0"
    using assms by simp
  then have "\<forall>l \<in> set ?d. fst l \<noteq> t" by (auto simp: count_eq_zero_iff)
  then have "filter_mset (\<lambda>l. fst l \<noteq> t) (mset ?d) = mset ?d" by (simp add: filter_mset_eq_conv)
  then show ?thesis using Some j(2) m [symmetric] by (simp add: drop_listener_def)
qed

lemma detach_loop_events:
  assumes "distinct es"
  shows "events (detach_loop t es s) e = (if e \<in> set es
    then (events s e)\<lparr>listeners := drop_listener t (listeners (events s e))\<rparr> else events s e) \<and>
    ks_sched (detach_loop t es s) = ks_sched s"
  using assms by (induction es arbitrary: s) auto

subsection \<open>Waking\<close>

lemma enqueue_zeros:
  "count (mset (running_queue (snd (sched_enqueue_thread t b q)))) 0 \<ge> count (mset (running_queue q)) 0 - 1"
proof (cases "cas_slot 0 t (running_queue q)")
  case (Some q')
  then show ?thesis using cas_slot_mset [OF Some] by (simp add: sched_enqueue_thread_def Let_def)
qed (simp add: sched_enqueue_thread_def Let_def)

lemma enqueue_keeps:
  "u \<noteq> 0 \<Longrightarrow> u \<in> set (running_queue q) \<Longrightarrow> u \<in> set (running_queue (snd (sched_enqueue_thread t b q)))"
proof (cases "cas_slot 0 t (running_queue q)")
  case (Some q')
  assume "u \<noteq> 0" "u \<in> set (running_queue q)"
  with cas_slot_mset(1) [OF Some] have "u \<in># mset q'" by (simp add: in_diff_count)
  with Some \<open>u \<in> set (running_queue q)\<close> show ?thesis by (simp add: sched_enqueue_thread_def Let_def)
qed (simp add: sched_enqueue_thread_def Let_def)

lemma enqueue_thread_fields:
  assumes "fst (sched_enqueue_thread t False q)"
  shows "enqueued (threads (snd (sched_enqueue_thread t False q)) t)"
    and "which_event (threads (snd (sched_enqueue_thread t False q)) t) = which_event (threads q t)"
    and "attached_events (threads (snd (sched_enqueue_thread t False q)) u) = attached_events (threads q u)"
    and "\<not> enqueued (threads q t) \<Longrightarrow> \<not> enqueued_by_signal (threads (snd (sched_enqueue_thread t False q)) t)"
  using assms by (auto simp: sched_enqueue_thread_def Let_def split: option.splits if_splits)

lemma queue_inv_put:
  assumes "\<And>r. enqueued (f r) = enqueued r"
  shows "queue_inv (put_thread q t f) = queue_inv q"
proof -
  have "enqueued (threads (put_thread q t f) u) = enqueued (threads q u)" for u by (simp add: assms)
  then show ?thesis unfolding queue_inv_def by (simp only: put_simps)
qed

lemma queue_inv_other [simp]:
  "queue_inv (put_thread q t (\<lambda>r. r\<lparr>which_event := w\<rparr>)) = queue_inv q"
  "queue_inv (put_thread q t (\<lambda>r. r\<lparr>attached_events := g r\<rparr>)) = queue_inv q"
  "queue_inv (put_thread q t (\<lambda>r. r\<lparr>yield_await := l\<rparr>)) = queue_inv q"
  by (rule queue_inv_put, simp)+

lemma queue_inv_cpu [simp]: "queue_inv (put_cpu q c h) = queue_inv q" "queue_inv (q\<lparr>ipis := x\<rparr>) = queue_inv q"
  unfolding queue_inv_def by simp_all

lemma wake_listeners_ok:
  assumes "queue_inv q" and "distinct (map fst ls)" and "0 \<notin> fst ` set ls"
    and "length ls \<le> count (mset (running_queue q)) 0"
  shows "queue_inv (wake_listeners ls q) \<and>
    (\<forall>u. u \<notin> fst ` set ls \<longrightarrow> threads (wake_listeners ls q) u = threads q u) \<and>
    (\<forall>u. u \<noteq> 0 \<and> u \<in> set (running_queue q) \<longrightarrow> u \<in> set (running_queue (wake_listeners ls q))) \<and>
    (\<forall>(t, w) \<in> set ls. t \<in> set (running_queue (wake_listeners ls q)) \<and>
       which_event (threads (wake_listeners ls q) t) = w \<and>
       (\<not> enqueued (threads q t) \<longrightarrow> \<not> enqueued_by_signal (threads (wake_listeners ls q) t)) \<and>
       attached_events (threads (wake_listeners ls q) t) = attached_events (threads q t))"
  using assms
proof (induction ls arbitrary: q)
  case (Cons l ls)
  obtain t w where l: "l = (t, w)" by (cases l)
  let ?p = "put_thread q t (\<lambda>r. r\<lparr>which_event := w\<rparr>)"
  let ?q = "snd (sched_enqueue_thread t False ?p)"
  have t0: "t \<noteq> 0" and tl: "t \<notin> fst ` set ls" using Cons.prems(2,3) l by force+
  have "0 < count (mset (running_queue q)) 0" using Cons.prems(4) by (simp only: list.size)
  then have z: "0 \<in> set (running_queue ?p)" by (simp only: count_greater_zero_iff set_mset_mset put_simps)
  have inv: "queue_inv ?p" using Cons.prems(1) by simp
  note e = enqueue_inv [OF inv t0, of False]
  have f: "fst (sched_enqueue_thread t False ?p)" using e z by blast
  have tq: "t \<in> set (running_queue ?q)" using e f by blast
  have th: "\<And>u. u \<noteq> t \<Longrightarrow> threads ?q u = threads q u" using e by simp
  have IH: "queue_inv (wake_listeners ls ?q) \<and>
    (\<forall>u. u \<notin> fst ` set ls \<longrightarrow> threads (wake_listeners ls ?q) u = threads ?q u) \<and>
    (\<forall>u. u \<noteq> 0 \<and> u \<in> set (running_queue ?q) \<longrightarrow> u \<in> set (running_queue (wake_listeners ls ?q))) \<and>
    (\<forall>(t, w) \<in> set ls. t \<in> set (running_queue (wake_listeners ls ?q)) \<and>
       which_event (threads (wake_listeners ls ?q) t) = w \<and>
       (\<not> enqueued (threads ?q t) \<longrightarrow> \<not> enqueued_by_signal (threads (wake_listeners ls ?q) t)) \<and>
       attached_events (threads (wake_listeners ls ?q) t) = attached_events (threads ?q t))"
    using Cons.prems e enqueue_zeros [of ?p t False] by (intro Cons.IH) auto
  have keep: "u \<in> set (running_queue ?q)" if "u \<noteq> 0" "u \<in> set (running_queue q)" for u
    using enqueue_keeps [of u ?p] that by simp
  note fl = enqueue_thread_fields [OF f]
  have w: "threads (wake_listeners ls ?q) t = threads ?q t" using IH tl by blast
  have "t \<in> set (running_queue (wake_listeners ls ?q)) \<and> which_event (threads (wake_listeners ls ?q) t) = w \<and>
    (\<not> enqueued (threads q t) \<longrightarrow> \<not> enqueued_by_signal (threads (wake_listeners ls ?q) t)) \<and>
    attached_events (threads (wake_listeners ls ?q) t) = attached_events (threads q t)"
    using IH tq t0 fl w by simp
  moreover have "\<forall>(u, v) \<in> set ls. u \<in> set (running_queue (wake_listeners ls ?q)) \<and>
       which_event (threads (wake_listeners ls ?q) u) = v \<and>
       (\<not> enqueued (threads q u) \<longrightarrow> \<not> enqueued_by_signal (threads (wake_listeners ls ?q) u)) \<and>
       attached_events (threads (wake_listeners ls ?q) u) = attached_events (threads q u)"
  proof (clarify)
    fix u v
    assume uv: "(u, v) \<in> set ls"
    then have "u \<noteq> t" using tl by force
    with IH uv th show "u \<in> set (running_queue (wake_listeners ls ?q)) \<and>
       which_event (threads (wake_listeners ls ?q) u) = v \<and>
       (\<not> enqueued (threads q u) \<longrightarrow> \<not> enqueued_by_signal (threads (wake_listeners ls ?q) u)) \<and>
       attached_events (threads (wake_listeners ls ?q) u) = attached_events (threads q u)" by auto
  qed
  ultimately show ?case using IH th keep by (auto simp: l)
qed simp

subsection \<open>Waiting and being woken\<close>

text \<open>Thread \<open>t\<close>, running on CPU \<open>c\<close>, may wait for \<open>es\<close>: nothing is pending and there is room.\<close>

definition can_wait :: "nat \<Rightarrow> u64 list \<Rightarrow> u64 \<Rightarrow> ksys \<Rightarrow> bool" where
  "can_wait c es t s \<longleftrightarrow> distinct es \<and> length es \<le> MAX_EVENTS \<and>
     (\<forall>e \<in> set es. unlocked (ev_lock (events s e)) \<and> pending (events s e) = 0 \<and>
        length (listeners (events s e)) < EVENT_MAX_LISTENERS \<and> t \<notin> fst ` set (listeners (events s e))) \<and>
     queue_inv (ks_sched s) \<and> c < length (cpus (ks_sched s)) \<and> cpu_gs (cpus (ks_sched s) ! c) = t \<and> t \<noteq> 0 \<and>
     unlocked (yield_await (thread_of s t))"

lemma dequeue_fields:
  "yield_await (threads (snd (sched_dequeue_thread t q)) u) = yield_await (threads q u)"
  "attached_events (threads (snd (sched_dequeue_thread t q)) u) = attached_events (threads q u)"
  "cpus (snd (sched_dequeue_thread t q)) = cpus q"
  by (auto simp: sched_dequeue_thread_def split: option.split)

lemma dequeue_enqueued: "queue_inv q \<Longrightarrow> t \<noteq> 0 \<Longrightarrow> \<not> enqueued (threads (snd (sched_dequeue_thread t q)) t)"
  using dequeue_inv [of q t] by (auto simp: sched_dequeue_thread_def split: option.splits if_splits)

lemma dequeue_zeros:
  "count (mset (running_queue q)) 0 \<le> count (mset (running_queue (snd (sched_dequeue_thread t q)))) 0"
proof (cases "cas_slot t 0 (running_queue q)")
  case (Some q')
  then show ?thesis using cas_slot_mset [OF Some] by (auto simp: sched_dequeue_thread_def)
qed (simp add: sched_dequeue_thread_def)

lemma await_blocks:
  assumes w: "can_wait c es t s"
  shows "\<exists>s'. event_await_begin c es True s = Inr (Await_blocked, s') \<and>
    (\<forall>k < length es. listeners (events s' (es ! k)) = listeners (events s (es ! k)) @ [(t, of_nat k)]) \<and>
    (\<forall>e \<in> set es. unlocked (ev_lock (events s' e)) \<and> pending (events s' e) = 0) \<and>
    queue_inv (ks_sched s') \<and> t \<notin> set (running_queue (ks_sched s')) \<and>
    \<not> enqueued (thread_of s' t) \<and> attached_events (thread_of s' t) = es \<and>
    count (mset (running_queue (ks_sched s))) 0 \<le> count (mset (running_queue (ks_sched s'))) 0"
proof -
  have t: "cpu_gs (cpus (ks_sched s) ! c) = t" "t \<noteq> 0" "c < length (cpus (ks_sched s))"
    "unlocked (yield_await (thread_of s t))" and q: "queue_inv (ks_sched s)"
    and es: "distinct es" "length es \<le> MAX_EVENTS" using w by (auto simp: can_wait_def)
  define s1 where "s1 = with_locks es taken s"
  have lock: "lock_events es s = Inr s1" unfolding s1_def
    by (rule lock_events_ok) (use w in \<open>auto simp: can_wait_def\<close>)
  have chk: "check_for_pending 0 es s1 = (-1, s1)"
    by (rule no_pending) (use w in \<open>auto simp: can_wait_def s1_def\<close>)
  let ?a = "on_thread s1 t (\<lambda>r. r\<lparr>attached_events := []\<rparr>)"
  have "\<exists>s'. attach_loop t 0 es ?a = Inr s' \<and>
    (\<forall>k < length es. events s' (es ! k) =
       (events ?a (es ! k))\<lparr>listeners := listeners (events ?a (es ! k)) @ [(t, 0 + of_nat k)]\<rparr>) \<and>
    (\<forall>e. e \<notin> set es \<longrightarrow> events s' e = events ?a e) \<and>
    ks_sched s' = put_thread (ks_sched ?a) t (\<lambda>r. r\<lparr>attached_events := attached_events r @ es\<rparr>)"
    by (rule attach_loop_ok [OF es(1)]) (use w in \<open>auto simp: can_wait_def s1_def\<close>)
  then obtain s3 where s3: "attach_listeners es t s1 = Inr s3"
    "\<And>k. k < length es \<Longrightarrow> events s3 (es ! k) =
       (events s1 (es ! k))\<lparr>listeners := listeners (events s (es ! k)) @ [(t, of_nat k)]\<rparr>"
    "ks_sched s3 = put_thread (put_thread (ks_sched s) t (\<lambda>r. r\<lparr>attached_events := []\<rparr>)) t
       (\<lambda>r. r\<lparr>attached_events := attached_events r @ es\<rparr>)"
    by (auto simp: attach_listeners_def s1_def on_thread_def)
  define d where "d = snd (sched_dequeue_thread t (ks_sched s3))"
  have q3: "queue_inv (ks_sched s3)" using q by (simp add: s3(3))
  note deq = dequeue_inv [OF q3 t(2)]
  have dt: "unlocked (yield_await (threads d t))" "cpu_gs (cpus d ! c) = t" "c < length (cpus d)"
    "attached_events (threads d t) = es" "\<not> enqueued (threads d t)"
    using t s3(3) dequeue_enqueued [OF q3 t(2)] by (simp_all add: d_def dequeue_fields thread_of_def)
  obtain y where y: "sched_yield c True d = Inr y" "queue_inv y" "running_queue y = running_queue d"
    "enqueued (threads y t) = enqueued (threads d t)" "attached_events (threads y t) = attached_events (threads d t)"
    using dt deq by (auto simp: sched_yield_def klock Let_def d_def)
  define s5 where "s5 = unlock_events es (s3\<lparr>ks_sched := d\<rparr>)"
  have ks5: "ks_sched s5 = d" by (simp add: s5_def unlock_events_all)
  have run: "event_await_begin c es True s = Inr (Await_blocked, s5\<lparr>ks_sched := y\<rparr>)"
    using t lock chk s3(1) y(1) ks5
    by (simp add: event_await_begin_def Let_def d_def [symmetric] s5_def [symmetric])
  have ev: "listeners (events s5 (es ! k)) = listeners (events s (es ! k)) @ [(t, of_nat k)]"
    "pending (events s5 (es ! k)) = pending (events s (es ! k))" if "k < length es" for k
    using s3(2) [OF that] by (simp_all add: s5_def unlock_events_all s1_def)
  have all: "unlocked (ev_lock (events s5 e)) \<and> pending (events s5 e) = 0" if e: "e \<in> set es" for e
  proof -
    obtain k where k: "k < length es" "es ! k = e" using e by (auto simp: in_set_conv_nth)
    have "pending (events s e) = 0" using w e by (simp add: can_wait_def)
    with ev(2) [OF k(1)] k(2) e show ?thesis by (simp add: s5_def unlock_events_all)
  qed
  show ?thesis
    using run ev(1) all y dt deq dequeue_zeros [of "ks_sched s3" t] s3(3)
    by (auto simp: d_def thread_of_def)
qed

lemma trigger_wakes:
  assumes "unlocked (ev_lock (events s e))" and "listeners (events s e) \<noteq> []"
  shows "\<exists>s'. event_trigger e b s = Inr (of_nat (length (listeners (events s e))), s') \<and>
    ks_sched s' = wake_listeners (listeners (events s e)) (ks_sched s) \<and>
    listeners (events s' e) = [] \<and> unlocked (ev_lock (events s' e)) \<and> pending (events s' e) = pending (events s e) \<and>
    (\<forall>d. d \<noteq> e \<longrightarrow> events s' d = events s d)"
  using assms by (simp add: event_trigger_def klock Let_def)

lemma await_end_detaches:
  assumes "distinct es" and "attached_events (thread_of s t) = es"
    and "\<And>e. e \<in> set es \<Longrightarrow> unlocked (ev_lock (events s e))"
    and "\<And>e. e \<in> set es \<Longrightarrow> count (mset (map fst (listeners (events s e)))) t \<le> 1"
  shows "\<exists>s'. event_await_end t es s =
      Inr (if enqueued_by_signal (thread_of s t) then -1 else uint (which_event (thread_of s t)), s') \<and>
    (\<forall>e \<in> set es. unlocked (ev_lock (events s' e)) \<and>
       mset (listeners (events s' e)) = filter_mset (\<lambda>l. fst l \<noteq> t) (mset (listeners (events s e))))"
proof -
  have lock: "lock_events es s = Inr (with_locks es taken s)" by (rule lock_events_ok) (use assms in auto)
  show ?thesis
    using lock assms(2) detach_loop_events [OF assms(1)] drop_listener_once [OF assms(4)]
    by (auto simp: event_await_end_def Let_def detach_listeners_def unlock_events_all)
qed

lemma wake_reaches_waiter:
  assumes w: "can_wait c es t s" and k: "k < length es"
    and dist: "distinct (map fst (listeners (events s (es ! k))))" "0 \<notin> fst ` set (listeners (events s (es ! k)))"
    and room: "length (listeners (events s (es ! k))) < count (mset (running_queue (ks_sched s))) 0"
  shows "\<exists>s1 n s2 s3. event_await_begin c es True s = Inr (Await_blocked, s1) \<and>
    t \<notin> set (running_queue (ks_sched s1)) \<and>
    event_trigger (es ! k) False s1 = Inr (n, s2) \<and> t \<in> set (running_queue (ks_sched s2)) \<and>
    event_await_end t es s2 = Inr (int k, s3) \<and>
    (\<forall>e \<in> set es. t \<notin> fst ` set (listeners (events s3 e)) \<and>
       (e \<noteq> es ! k \<longrightarrow> mset (listeners (events s3 e)) = mset (listeners (events s e))))"
proof -
  obtain s1 where s1: "event_await_begin c es True s = Inr (Await_blocked, s1)"
    "\<And>j. j < length es \<Longrightarrow> listeners (events s1 (es ! j)) = listeners (events s (es ! j)) @ [(t, of_nat j)]"
    "\<And>e. e \<in> set es \<Longrightarrow> unlocked (ev_lock (events s1 e))" "queue_inv (ks_sched s1)"
    "t \<notin> set (running_queue (ks_sched s1))" "\<not> enqueued (thread_of s1 t)" "attached_events (thread_of s1 t) = es"
    "count (mset (running_queue (ks_sched s))) 0 \<le> count (mset (running_queue (ks_sched s1))) 0"
    using await_blocks [OF w] by blast
  let ?e = "es ! k" and ?ls = "listeners (events s (es ! k)) @ [(t, of_nat k)]"
  have e: "?e \<in> set es" and t0: "t \<noteq> 0" and de: "distinct es" and me: "length es \<le> 32"
    and once: "\<And>e. e \<in> set es \<Longrightarrow> t \<notin> fst ` set (listeners (events s e))"
    using k w by (auto simp: can_wait_def MAX_EVENTS_def)
  obtain n s2 where s2: "event_trigger ?e False s1 = Inr (n, s2)" "ks_sched s2 = wake_listeners ?ls (ks_sched s1)"
    "listeners (events s2 ?e) = []" "unlocked (ev_lock (events s2 ?e))" "\<And>d. d \<noteq> ?e \<Longrightarrow> events s2 d = events s1 d"
    using trigger_wakes [OF s1(3) [OF e], of False] s1(2) [OF k] by auto
  have "distinct (map fst ?ls)" "0 \<notin> fst ` set ?ls" "length ?ls \<le> count (mset (running_queue (ks_sched s1))) 0"
    using dist once [OF e] t0 room s1(8) by auto
  note wk = wake_listeners_ok [OF s1(4) this]
  have tw: "t \<in> set (running_queue (ks_sched s2))" "which_event (thread_of s2 t) = of_nat k"
    "\<not> enqueued_by_signal (thread_of s2 t)" "attached_events (thread_of s2 t) = es"
    using wk s1(6,7) by (auto simp: s2(2) thread_of_def)
  have ls2: "listeners (events s2 d) = (if d = ?e then [] else listeners (events s1 d))" for d
    using s2(3,5) by auto
  have cnt: "\<exists>i. mset (listeners (events s1 d)) = add_mset (t, i) (mset (listeners (events s d)))"
    if d: "d \<in> set es" for d
  proof -
    obtain j where "j < length es" "es ! j = d" using d by (auto simp: in_set_conv_nth)
    with s1(2) [of j] show ?thesis by auto
  qed
  have c1: "count (mset (map fst (listeners (events s2 d)))) t \<le> 1" if d: "d \<in> set es" for d
    using cnt [OF d] once [OF d] by (auto simp: ls2 count_eq_zero_iff [THEN iffD2])
  have u2: "unlocked (ev_lock (events s2 d))" if "d \<in> set es" for d
    using s1(3) [OF that] s2(4,5) by (cases "d = ?e") auto
  obtain s3 where s3: "event_await_end t es s2 = Inr (uint (of_nat k :: u64), s3)"
    "\<And>d. d \<in> set es \<Longrightarrow> mset (listeners (events s3 d)) = filter_mset (\<lambda>l. fst l \<noteq> t) (mset (listeners (events s2 d)))"
    using await_end_detaches [OF de tw(4) u2 c1] tw(2,3) by auto
  have "uint (of_nat k :: u64) = int k" using k me by (simp add: uint_nat unat_of_nat_small)
  moreover have "t \<notin> fst ` set (listeners (events s3 d))" if "d \<in> set es" for d
    using arg_cong [OF s3(2) [OF that], of set_mset] by auto
  moreover have "mset (listeners (events s3 d)) = mset (listeners (events s d))" if d: "d \<in> set es" "d \<noteq> ?e" for d
  proof -
    have "filter_mset (\<lambda>l. fst l \<noteq> t) (mset (listeners (events s d))) = mset (listeners (events s d))"
      using once [OF d(1)] by (force simp: filter_mset_eq_conv)
    with s3(2) [OF d(1)] cnt [OF d(1)] d(2) show ?thesis by (auto simp: ls2)
  qed
  ultimately show ?thesis using s1(1,5) s2(1) tw(1) s3(1) by auto
qed

subsection \<open>Properties\<close>

text \<open>
  C14. A wake-up reaches the waiting thread: a thread that waits for several events with nothing
  pending leaves the running queue; triggering any one of them puts it back, and when it runs again
  its \<open>event_await\<close> returns the index of that event, with the thread taken off every listener array
  and the other threads' entries kept.
\<close>

theorem event_wakes_waiter:
  assumes w: "can_wait c es t s" and k: "k < length es"
    and dist: "distinct (map fst (listeners (events s (es ! k))))" "0 \<notin> fst ` set (listeners (events s (es ! k)))"
    and room: "length (listeners (events s (es ! k))) < count (mset (running_queue (ks_sched s))) 0"
  shows "\<exists>s1 n s2 s3. event_await_begin c es True s = Inr (Await_blocked, s1) \<and>
    t \<notin> set (running_queue (ks_sched s1)) \<and>
    event_trigger (es ! k) False s1 = Inr (n, s2) \<and> t \<in> set (running_queue (ks_sched s2)) \<and>
    event_await_end t es s2 = Inr (int k, s3) \<and>
    (\<forall>e \<in> set es. t \<notin> fst ` set (listeners (events s3 e)) \<and>
       (e \<noteq> es ! k \<longrightarrow> mset (listeners (events s3 e)) = mset (listeners (events s e))))"
  by (rule wake_reaches_waiter [OF assms])

text \<open>Thread \<open>0x2000\<close> of the scheduler example may wait for the two events \<open>0x100\<close> and \<open>0x200\<close>.\<close>

definition blank_event :: event where
  "blank_event = \<lparr>ev_lock = SPINLOCK_INIT, pending = 0, listeners = []\<rparr>"

definition event_example :: ksys where
  "event_example = \<lparr>ks_sched = sched_example, events = (\<lambda>_. blank_event)\<rparr>"

lemma event_example_can_wait: "can_wait 0 [0x100, 0x200] 0x2000 event_example"
  using sched_example_inv(2)
  by (simp add: can_wait_def event_example_def blank_event_def MAX_EVENTS_def EVENT_MAX_LISTENERS_def
      thread_of_def) (simp add: sched_example_def blank_thread_def)

theorem event_wakes_waiter_witness:
  "\<exists>s1 n s2 s3. event_await_begin 0 [0x100, 0x200] True event_example = Inr (Await_blocked, s1) \<and>
    event_trigger 0x200 False s1 = Inr (n, s2) \<and> event_await_end 0x2000 [0x100, 0x200] s2 = Inr (1, s3) \<and>
    0x2000 \<notin> fst ` set (listeners (events s3 0x100))"
proof -
  have l: "listeners (events event_example e) = []" for e by (simp add: event_example_def blank_event_def)
  have r: "0 < count (mset (running_queue (ks_sched event_example))) 0"
    by (simp add: event_example_def sched_example_def)
  from event_wakes_waiter [OF event_example_can_wait, of 1] l r show ?thesis by simp blast
qed

text \<open>
  No trigger is lost between threads: triggering an event nobody listens to, without dropping it,
  makes the next wait for it return at once and gives the count back, while a dropped one leaves the
  event as it was.
\<close>

theorem event_trigger_not_lost:
  assumes "unlocked (ev_lock (events s e))" and "listeners (events s e) = []" and "pending (events s e) \<noteq> -1"
  shows "\<exists>s1 s2 s3. event_trigger e False s = Inr (0, s1) \<and>
    event_await_begin c [e] block s1 = Inr (Await_done 0, s2) \<and>
    pending (events s2 e) = pending (events s e) \<and>
    event_trigger e True s = Inr (0, s3) \<and> pending (events s3 e) = pending (events s e)"
proof -
  have "pending (events s e) + 1 \<noteq> 0" using assms(3) by (simp add: add_eq_0_iff2)
  with assms show ?thesis
    by (simp add: event_trigger_def event_await_begin_def klock Let_def word_gt_0)
qed

theorem event_trigger_not_lost_witness:
  "\<exists>s1 s2. event_trigger 0x100 False event_example = Inr (0, s1) \<and>
    event_await_begin 0 [0x100] False s1 = Inr (Await_done 0, s2)"
  using event_trigger_not_lost [of event_example "0x100" 0 False]
  by (auto simp: event_example_def blank_event_def)

end
