(* ===== verification/Lyre_Ring.thy ===== *)
theory Lyre_Ring
  imports Lyre_Bitmap
begin

text \<open>
  Ring buffers.  Pipes and sockets keep bytes in a block of fixed capacity with a read index, a write
  index and a fill count, and copy in at most two pieces, before and after the wrap.  This theory
  holds the checked copies out of and into a block, the split into two pieces, and the lemmas that
  relate the pieces to the sequence of bytes in the ring; \<open>byte_queue\<close> is what the users of a ring
  rely on.
\<close>

subsection \<open>Copies and the split at the wrap\<close>

text \<open>\<open>memcpy\<close> out of and into a block.\<close>

definition slice :: "'a list \<Rightarrow> u64 \<Rightarrow> u64 \<Rightarrow> 'a list result" where
  "slice d at n = (if unat at + unat n \<le> length d then Inr (take (unat n) (drop (unat at) d)) else Inl OutOfBounds)"

definition splice :: "'a list \<Rightarrow> u64 \<Rightarrow> 'a list \<Rightarrow> 'a list result" where
  "splice d at bs = (if unat at + length bs \<le> length d
     then Inr (take (unat at) d @ bs @ drop (unat at + length bs) d) else Inl OutOfBounds)"

text \<open>The bytes before the wrap, the bytes after it, and the index behind them.\<close>

definition ring_split :: "u64 \<Rightarrow> u64 \<Rightarrow> u64 \<Rightarrow> u64 \<times> u64 \<times> u64" where
  "ring_split cap ptr cnt =
     (if ptr + cnt > cap
      then let before_wrap = cap - ptr; after_wrap = cnt - before_wrap in (before_wrap, after_wrap, after_wrap)
      else (cnt, 0, if ptr + cnt = cap then 0 else ptr + cnt))"

definition ring_get :: "'a list \<Rightarrow> u64 \<Rightarrow> u64 \<Rightarrow> u64 \<Rightarrow> ('a list \<times> u64) result" where
  "ring_get d cap ptr cnt =
     (let (before_wrap, after_wrap, new_ptr) = ring_split cap ptr cnt
      in rbind (slice d ptr before_wrap) (\<lambda>xs.
         rbind (if after_wrap \<noteq> 0 then slice d 0 after_wrap else Inr []) (\<lambda>ys.
           Inr (xs @ ys, new_ptr))))"

definition ring_put :: "'a list \<Rightarrow> u64 \<Rightarrow> u64 \<Rightarrow> 'a list \<Rightarrow> ('a list \<times> u64) result" where
  "ring_put d cap ptr bs =
     (let (before_wrap, after_wrap, new_ptr) = ring_split cap ptr (of_nat (length bs))
      in rbind (splice d ptr (take (unat before_wrap) bs)) (\<lambda>d1.
         rbind (if after_wrap \<noteq> 0 then splice d1 0 (take (unat after_wrap) (drop (unat before_wrap) bs)) else Inr d1) (\<lambda>d2.
           Inr (d2, new_ptr))))"

subsection \<open>The sequence in a ring\<close>

definition ring_seq :: "'a list \<Rightarrow> nat \<Rightarrow> nat \<Rightarrow> 'a list" where
  "ring_seq d r n = map (\<lambda>i. d ! ((r + i) mod length d)) [0..<n]"

lemma length_ring_seq [simp]: "length (ring_seq d r n) = n"
  by (simp add: ring_seq_def)

lemma mod_once: "a < c \<Longrightarrow> b \<le> c \<Longrightarrow> c \<le> a + b \<Longrightarrow> (a + b) mod c = a + b - (c :: nat)"
  by (simp add: le_mod_geq)

lemma ring_seq_take: "k \<le> n \<Longrightarrow> take k (ring_seq d r n) = ring_seq d r k"
  by (simp add: ring_seq_def take_map)

lemma ring_seq_drop: "k \<le> n \<Longrightarrow> drop k (ring_seq d r n) = ring_seq d ((r + k) mod length d) (n - k)"
  by (intro nth_equalityI) (auto simp: ring_seq_def mod_add_left_eq add.assoc)

lemma ring_seq_append: "ring_seq d r (m + n) = ring_seq d r m @ ring_seq d ((r + m) mod length d) n"
proof -
  have "ring_seq d r (m + n) = take m (ring_seq d r (m + n)) @ drop m (ring_seq d r (m + n))" by simp
  then show ?thesis by (simp only: ring_seq_take [of m "m + n"] ring_seq_drop [of m "m + n"] le_add1 diff_add_inverse)
qed

text \<open>The sequence in the two pieces.\<close>

lemma ring_seq_pieces:
  assumes "r < length d" and "n \<le> length d"
  shows "ring_seq d r n = take (min n (length d - r)) (drop r d) @ take (n - (length d - r)) d"
proof (rule nth_equalityI)
  show "length (ring_seq d r n) = length (take (min n (length d - r)) (drop r d) @ take (n - (length d - r)) d)"
    using assms by auto
  fix i
  assume "i < length (ring_seq d r n)"
  then have i: "i < n" by simp
  show "ring_seq d r n ! i = (take (min n (length d - r)) (drop r d) @ take (n - (length d - r)) d) ! i"
  proof (cases "r + i < length d")
    case True
    then have "i < length d - r" by simp
    with True show ?thesis using i by (simp add: ring_seq_def nth_append)
  next
    case False
    then have "(r + i) mod length d = i - (length d - r)" using assms i mod_once [of r "length d" i] by simp
    moreover have "\<not> i < length d - r" using False by simp
    ultimately show ?thesis using False i assms by (simp add: ring_seq_def nth_append min_def)
  qed
qed

lemma unat_ring_split:
  assumes "unat ptr < unat cap" and "unat cnt \<le> unat cap" and "unat cap < 9223372036854775808"
    and "ring_split cap ptr cnt = (b, a, p)"
  shows "unat b = min (unat cnt) (unat cap - unat ptr)" and "unat a = unat cnt - (unat cap - unat ptr)"
    and "unat p = (unat ptr + unat cnt) mod unat cap"
proof -
  have s: "unat (ptr + cnt) = unat ptr + unat cnt" using assms(1-3) by (intro unat_add_small) linarith
  have d: "unat (cap - ptr) = unat cap - unat ptr" using assms(1) by (intro unat_sub_small) simp
  have "unat b = min (unat cnt) (unat cap - unat ptr) \<and> unat a = unat cnt - (unat cap - unat ptr) \<and>
    unat p = (unat ptr + unat cnt) mod unat cap"
  proof (cases "ptr + cnt > cap")
    case True
    then have g: "unat cap < unat ptr + unat cnt" by (simp add: word_less_nat_alt s)
    then have e: "unat (cnt - (cap - ptr)) = unat cnt - (unat cap - unat ptr)"
      using d assms(1) by (simp add: unat_sub_small)
    have m: "(unat ptr + unat cnt) mod unat cap = unat ptr + unat cnt - unat cap"
      using g assms(1,2) by (intro mod_once) auto
    from True assms(4) have "b = cap - ptr" "a = cnt - (cap - ptr)" "p = cnt - (cap - ptr)"
      by (auto simp: ring_split_def Let_def)
    then show ?thesis using g d e m assms(1) by simp
  next
    case False
    then have l: "unat ptr + unat cnt \<le> unat cap" by (simp add: word_less_nat_alt s)
    from False assms(4) have "b = cnt" "a = 0" "p = (if ptr + cnt = cap then 0 else ptr + cnt)"
      by (auto simp: ring_split_def)
    moreover have "ptr + cnt = cap \<longleftrightarrow> unat ptr + unat cnt = unat cap"
      using s by (metis unat_eqI)
    ultimately show ?thesis using l s by auto
  qed
  then show "unat b = min (unat cnt) (unat cap - unat ptr)" and "unat a = unat cnt - (unat cap - unat ptr)"
    and "unat p = (unat ptr + unat cnt) mod unat cap" by auto
qed

lemma ring_get_seq:
  assumes "length d = unat cap" and "unat ptr < unat cap" and "unat n \<le> unat cap" and "unat cap < 9223372036854775808"
  shows "\<exists>p. ring_get d cap ptr n = Inr (ring_seq d (unat ptr) (unat n), p) \<and> unat p = (unat ptr + unat n) mod unat cap"
proof -
  obtain b a p where sp: "ring_split cap ptr n = (b, a, p)" by (metis prod_cases3)
  note u = unat_ring_split [OF assms(2-4) sp]
  have "slice d ptr b = Inr (take (unat b) (drop (unat ptr) d))"
    using u(1) assms(1,2) by (simp add: slice_def)
  moreover have "(if a \<noteq> 0 then slice d 0 a else Inr []) = Inr (take (unat a) d)"
    using u(2) assms(1,3) by (auto simp: slice_def)
  ultimately show ?thesis
    using sp u ring_seq_pieces [of "unat ptr" d "unat n"] assms(1-3) by (simp add: ring_get_def)
qed

text \<open>Overwriting a run of cells from \<open>w\<close> on, around the end of the block.\<close>

definition ring_write :: "'a list \<Rightarrow> nat \<Rightarrow> 'a list \<Rightarrow> 'a list" where
  "ring_write d w bs = map (\<lambda>j. let i = (j + length d - w) mod length d in if i < length bs then bs ! i else d ! j) [0..<length d]"

lemma length_ring_write [simp]: "length (ring_write d w bs) = length d"
  by (simp add: ring_write_def)

lemma nth_ring_write:
  assumes "w < length d" and "i < length d"
  shows "ring_write d w bs ! ((w + i) mod length d) = (if i < length bs then bs ! i else d ! ((w + i) mod length d))"
proof -
  have "((w + i) mod length d + length d - w) mod length d = i"
    using assms by (cases "w + i < length d") (auto simp: mod_once le_mod_geq)
  moreover have "(w + i) mod length d < length d" using assms(1) by (intro mod_less_divisor) linarith
  ultimately show ?thesis by (simp add: ring_write_def Let_def)
qed

lemma ring_write_pieces:
  assumes w: "w < length d" and n: "length bs \<le> length d"
  shows "ring_write d w bs =
    (let m = min (length bs) (length d - w) in
     take (length bs - (length d - w)) (drop m bs) @
     drop (length bs - (length d - w)) (take w d @ take m bs @ drop (w + m) d))"
proof (rule nth_equalityI)
  show "length (ring_write d w bs) = length (let m = min (length bs) (length d - w) in
     take (length bs - (length d - w)) (drop m bs) @
     drop (length bs - (length d - w)) (take w d @ take m bs @ drop (w + m) d))"
    using assms by (auto simp: Let_def min_def)
  fix j
  assume "j < length (ring_write d w bs)"
  then have j: "j < length d" by simp
  have idx: "(j + length d - w) mod length d = (if w \<le> j then j - w else j + length d - w)"
    using j w by (auto simp: le_mod_geq)
  show "ring_write d w bs ! j = (let m = min (length bs) (length d - w) in
     take (length bs - (length d - w)) (drop m bs) @
     drop (length bs - (length d - w)) (take w d @ take m bs @ drop (w + m) d)) ! j"
  proof (cases "length bs \<le> length d - w")
    case True
    then show ?thesis using j w idx
      by (auto simp: ring_write_def Let_def nth_append min_def)
  next
    case False
    then have m: "min (length bs) (length d - w) = length d - w" by simp
    show ?thesis using False j w n idx
      by (auto simp: ring_write_def Let_def nth_append m intro!: arg_cong [where f = "nth bs"])
  qed
qed

lemma ring_put_write:
  assumes "length d = unat cap" and "unat ptr < unat cap" and "length bs \<le> unat cap" and "unat cap < 9223372036854775808"
  shows "\<exists>p. ring_put d cap ptr bs = Inr (ring_write d (unat ptr) bs, p) \<and>
    unat p = (unat ptr + length bs) mod unat cap"
proof -
  have n: "unat (of_nat (length bs) :: u64) = length bs" using assms(3,4) by (intro unat_of_nat_small) linarith
  obtain b a p where sp: "ring_split cap ptr (of_nat (length bs)) = (b, a, p)" by (metis prod_cases3)
  note u = unat_ring_split [OF assms(2) _ assms(4) sp, unfolded n, OF assms(3)]
  define d1 where "d1 = take (unat ptr) d @ take (unat b) bs @ drop (unat ptr + unat b) d"
  have one: "splice d ptr (take (unat b) bs) = Inr d1"
    using u(1) assms(1,2) by (simp add: splice_def d1_def)
  have len: "length d1 = length d" using u(1) assms(1,2) by (auto simp: d1_def)
  have two: "(if a \<noteq> 0 then splice d1 0 (take (unat a) (drop (unat b) bs)) else Inr d1) =
    Inr (take (unat a) (drop (unat b) bs) @ drop (unat a) d1)"
  proof (cases "a = 0")
    case False
    have "length (take (unat a) (drop (unat b) bs)) = unat a" using u assms(2,3) by auto
    moreover have "unat a \<le> length d1" using u(2) assms(1,3) len by simp
    ultimately show ?thesis using False by (simp add: splice_def)
  qed simp
  have "take (unat a) (drop (unat b) bs) @ drop (unat a) d1 = ring_write d (unat ptr) bs"
    using ring_write_pieces [of "unat ptr" d bs] assms(1-3) u by (simp add: d1_def Let_def)
  with one two sp u(3) show ?thesis by (simp add: ring_put_def)
qed

text \<open>Writing behind the bytes in the ring appends to them.\<close>

lemma ring_seq_write:
  assumes r: "r < length d" and room: "n + length bs \<le> length d" and w: "w = (r + n) mod length d"
  shows "ring_seq (ring_write d w bs) r (n + length bs) = ring_seq d r n @ bs"
proof -
  have pos: "0 < length d" using r by linarith
  have wl: "w < length d" unfolding w using pos by (rule mod_less_divisor)
  have tail: "ring_write d w bs ! ((w + i) mod length d) = bs ! i" if "i < length bs" for i
    using nth_ring_write [OF wl, of i bs] that room by simp
  have head: "ring_write d w bs ! ((r + i) mod length d) = d ! ((r + i) mod length d)" if i: "i < n" for i
  proof -
    define k where "k = i + length d - n"
    have k: "k < length d" "length bs \<le> k" using i room by (auto simp: k_def)
    have "(w + k) mod length d = (r + n + k) mod length d" by (simp add: w mod_add_left_eq)
    also have "r + n + k = (r + i) + length d" using room by (simp add: k_def)
    finally have "(w + k) mod length d = (r + i) mod length d" by simp
    with nth_ring_write [OF wl k(1), of bs] k(2) show ?thesis by simp
  qed
  show ?thesis
  proof (rule nth_equalityI)
    fix i
    assume "i < length (ring_seq (ring_write d w bs) r (n + length bs))"
    then have i: "i < n + length bs" by simp
    show "ring_seq (ring_write d w bs) r (n + length bs) ! i = (ring_seq d r n @ bs) ! i"
    proof (cases "i < n")
      case True
      then show ?thesis using head i by (simp add: ring_seq_def nth_append)
    next
      case False
      have "(w + (i - n)) mod length d = (r + n + (i - n)) mod length d" by (simp add: w mod_add_left_eq)
      with False tail [of "i - n"] i show ?thesis by (simp add: ring_seq_def nth_append)
    qed
  qed simp
qed

subsection \<open>Taking from and adding to a well-formed ring\<close>

definition ring_wf :: "'a list \<Rightarrow> u64 \<Rightarrow> u64 \<Rightarrow> u64 \<Rightarrow> u64 \<Rightarrow> bool" where
  "ring_wf d cap r w u \<longleftrightarrow> 0 < unat cap \<and> unat cap < 9223372036854775808 \<and> length d = unat cap \<and> unat r < unat cap \<and>
     unat u \<le> unat cap \<and> unat w = (unat r + unat u) mod unat cap"

lemma ring_take_step:
  assumes wf: "ring_wf d cap r w u" and k_def: "k = (if u < n then u else n)"
  shows "\<exists>r'. ring_get d cap r k = Inr (take (unat n) (ring_seq d (unat r) (unat u)), r') \<and> ring_wf d cap r' w (u - k) \<and>
    ring_seq d (unat r') (unat (u - k)) = drop (unat n) (ring_seq d (unat r) (unat u)) \<and>
    unat (u - k) = unat u - min (unat n) (unat u)"
proof -
  have k: "unat k = min (unat n) (unat u)" by (auto simp: k_def word_less_nat_alt)
  have W: "length d = unat cap" "unat r < unat cap" "unat cap < 9223372036854775808" "unat u \<le> unat cap"
    "unat w = (unat r + unat u) mod unat cap" using wf by (auto simp: ring_wf_def)
  have kc: "unat k \<le> unat cap" using k W(4) by simp
  obtain r' where r': "ring_get d cap r k = Inr (ring_seq d (unat r) (unat k), r')" "unat r' = (unat r + unat k) mod unat cap"
    using ring_get_seq [OF W(1,2) kc W(3)] by blast
  have uk: "unat (u - k) = unat u - unat k" using k by (intro unat_sub_small) simp
  have "(unat r' + (unat u - unat k)) mod unat cap = unat w"
    unfolding r'(2) W(5) mod_add_left_eq using k by simp
  then have wf': "ring_wf d cap r' w (u - k)" using wf uk r'(2) W by (simp add: ring_wf_def)
  have out: "ring_seq d (unat r) (unat k) = take (unat n) (ring_seq d (unat r) (unat u))"
    using ring_seq_take [of "unat k" "unat u" d "unat r"] k by (simp add: take_all_iff min_def split: if_splits)
  have "ring_seq d (unat r') (unat (u - k)) = drop (unat k) (ring_seq d (unat r) (unat u))"
    using ring_seq_drop [of "unat k" "unat u" d "unat r"] k uk r'(2) W(1) by simp
  then have "ring_seq d (unat r') (unat (u - k)) = drop (unat n) (ring_seq d (unat r) (unat u))"
    using k by (cases "unat n \<le> unat u") auto
  with r'(1) out wf' uk k show ?thesis by simp
qed

lemma ring_give_step:
  assumes wf: "ring_wf d cap r w u" and len: "length bs < 9223372036854775808"
    and k_def: "k = (if u + of_nat (length bs) > cap then cap - u else of_nat (length bs))"
  shows "\<exists>d' w'. ring_put d cap w (take (unat k) bs) = Inr (d', w') \<and> ring_wf d' cap r w' (u + k) \<and>
    ring_seq d' (unat r) (unat (u + k)) = ring_seq d (unat r) (unat u) @ take (unat cap - unat u) bs \<and>
    unat k = min (length bs) (unat cap - unat u) \<and> unat (u + k) = unat u + unat k"
proof -
  have W: "length d = unat cap" "unat r < unat cap" "unat cap < 9223372036854775808" "unat u \<le> unat cap"
    "unat w = (unat r + unat u) mod unat cap" "0 < unat cap" using wf by (auto simp: ring_wf_def)
  have un: "unat (of_nat (length bs) :: u64) = length bs" using len by (intro unat_of_nat_small) linarith
  have us: "unat (u + of_nat (length bs)) = unat u + length bs"
    using W(3,4) len un unat_add_small [of u "of_nat (length bs)"] by simp
  have k: "unat k = min (length bs) (unat cap - unat u)"
    using W(4) us un by (auto simp: k_def word_less_nat_alt unat_sub_small)
  define tb where "tb = take (unat k) bs"
  have tb: "length tb = unat k" "tb = take (unat cap - unat u) bs" by (auto simp: tb_def k min_def)
  have ul: "unat u + length tb \<le> unat cap" using tb k W(4) by simp
  have wl: "unat w < unat cap" using W(5,6) by simp
  obtain w' where w': "ring_put d cap w tb = Inr (ring_write d (unat w) tb, w')" "unat w' = (unat w + length tb) mod unat cap"
    using ring_put_write [OF W(1) wl _ W(3), of tb] ul by auto
  have uk: "unat (u + k) = unat u + unat k" using ul W(3) tb(1) by (intro unat_add_small) linarith
  have "unat w' = (unat r + (unat u + length tb)) mod unat cap" by (simp add: w'(2) W(5) mod_add_left_eq add.assoc)
  then have "ring_wf (ring_write d (unat w) tb) cap r w' (u + k)" using W uk ul tb(1) by (simp add: ring_wf_def)
  moreover have "ring_seq (ring_write d (unat w) tb) (unat r) (unat (u + k)) = ring_seq d (unat r) (unat u) @ tb"
    using ring_seq_write [of "unat r" d "unat u" tb "unat w"] W ul uk tb(1) by simp
  ultimately show ?thesis using w'(1) k uk tb(2) by (auto simp: tb_def)
qed

subsection \<open>The queue interface\<close>

text \<open>
  What a stream of bytes promises: a write accepts a prefix of what it is given, as much as there is
  room for, and a read returns a prefix of what was written and not yet read.
\<close>

locale byte_queue =
  fixes wf :: "'q \<Rightarrow> bool" and bytes :: "'q \<Rightarrow> 'b list" and room :: "'q \<Rightarrow> nat"
    and put :: "'b list \<Rightarrow> 'q \<Rightarrow> (nat \<times> 'q) result" and get :: "u64 \<Rightarrow> 'q \<Rightarrow> ('b list \<times> 'q) result"
  assumes put_ok: "wf q \<Longrightarrow> length bs < 9223372036854775808 \<Longrightarrow>
      \<exists>q'. put bs q = Inr (min (length bs) (room q), q') \<and> wf q' \<and>
        bytes q' = bytes q @ take (room q) bs \<and> room q' = room q - min (length bs) (room q)"
    and get_ok: "wf q \<Longrightarrow> \<exists>q'. get n q = Inr (take (unat n) (bytes q), q') \<and> wf q' \<and>
      bytes q' = drop (unat n) (bytes q) \<and> room q' = room q + min (unat n) (length (bytes q))"
    and bounded: "wf q \<Longrightarrow> length (bytes q) + room q < 9223372036854775808"
begin

lemma put_get_all:
  assumes "wf q" and "bytes q = []" and "length bs \<le> room q"
  shows "\<exists>q' q''. put bs q = Inr (length bs, q') \<and> get (of_nat (length bs)) q' = Inr (bs, q'') \<and> wf q'' \<and> bytes q'' = []"
proof -
  have len: "length bs < 9223372036854775808" using assms bounded [of q] by simp
  then have "unat (of_nat (length bs) :: u64) = length bs" by (intro unat_of_nat_small) simp
  moreover from put_ok [OF assms(1) len] assms obtain q' where "put bs q = Inr (length bs, q')" "wf q'" "bytes q' = bs"
    by auto
  ultimately show ?thesis using get_ok [of q' "of_nat (length bs)"] by auto
qed

lemma fifo:
  assumes "wf q" and "length as + length bs \<le> room q"
  shows "\<exists>q1 q2 q3. put as q = Inr (length as, q1) \<and> put bs q1 = Inr (length bs, q2) \<and>
    get (of_nat (length (bytes q) + length as + length bs)) q2 = Inr (bytes q @ as @ bs, q3) \<and>
    wf q3 \<and> bytes q3 = [] \<and> room q3 = room q + length (bytes q)"
proof -
  have len: "length (bytes q) + length as + length bs < 9223372036854775808"
    using assms(2) bounded [OF assms(1)] by simp
  then have u: "unat (of_nat (length (bytes q) + length as + length bs) :: u64) = length (bytes q) + length as + length bs"
    by (intro unat_of_nat_small) simp
  from put_ok [OF assms(1), of as] assms len obtain q1 where q1: "put as q = Inr (length as, q1)" "wf q1"
    "bytes q1 = bytes q @ as" "room q1 = room q - length as" by auto
  from put_ok [OF q1(2), of bs] q1 assms len obtain q2 where q2: "put bs q1 = Inr (length bs, q2)" "wf q2"
    "bytes q2 = bytes q @ as @ bs" "room q2 = room q - length as - length bs" by auto
  from get_ok [OF q2(2), of "of_nat (length (bytes q) + length as + length bs)"] u q1 q2 assms(2)
  show ?thesis by (auto simp del: of_nat_add)
qed

end

end
