(* ===== verification/Lyre_Abi.thy ===== *)
theory Lyre_Abi
  imports Lyre_Prelude
begin

text \<open>
  Error numbers and flag values.  The kernel takes the numeric constants of its system calls from the
  C library's headers, which are not part of the repository: error numbers are a datatype, since the
  code only stores them, and the flag words whose bits the code tests are a record, an argument of
  the definitions that use them.  \<open>Negated_EADDRNOTAVAIL\<close> is the value \<open>-EADDRNOTAVAIL\<close>, which
  \<open>udp_bind\<close> stores in \<open>errno\<close>.
\<close>

datatype errno =
    EBADF | EINVAL | ENOMEM | EPIPE | EINTR | EAGAIN | ESPIPE | ENOTTY | ENOSYS | ECHILD
  | ENOENT | EEXIST | ENOTDIR | EISDIR | ENOTEMPTY | ELOOP | ENODEV | EACCES | ENXIO | ENOTCONN
  | EADDRINUSE | ECONNREFUSED | EOPNOTSUPP | EISCONN | EDESTADDRREQ | EAFNOSUPPORT | EMFILE | EWOULDBLOCK
  | EBUSY | ERANGE | ENOBUFS | EXDEV | ENETUNREACH | ENOPROTOOPT | EPROTONOSUPPORT | EADDRNOTAVAIL | EMSGSIZE | ENOTSOCK | EPROTOTYPE
  | Negated_EADDRNOTAVAIL | EALREADY | ECONNRESET | ETIMEDOUT

record abi =
  O_WRONLY :: u32
  O_RDWR :: u32
  O_NONBLOCK :: u32
  O_CLOEXEC :: u32
  POLLIN :: u32
  POLLOUT :: u32
  POLLHUP :: u32
  POLLNVAL :: u16
  S_IFMT :: u32
  S_IFCHR :: u32
  S_IFIFO :: u32
  S_IFSOCK :: u32
  S_IFDIR :: u32
  S_IFREG :: u32
  S_IFLNK :: u32
  S_IFBLK :: u32
  FILE_CREATION_FLAGS :: u32
  O_CREAT :: u32
  O_NOFOLLOW :: u32
  O_DIRECTORY :: u32
  O_TRUNC :: u32
  AT_FDCWD :: int
  AT_EMPTY_PATH :: u32
  AT_SYMLINK_NOFOLLOW :: u32
  AT_REMOVEDIR :: u32

text \<open>What the code relies on: the flags it tests are different non-empty sets of bits.\<close>

definition abi_ok :: "abi \<Rightarrow> bool" where
  "abi_ok a \<longleftrightarrow> O_NONBLOCK a \<noteq> 0 \<and> O_CLOEXEC a \<noteq> 0 \<and> O_WRONLY a \<noteq> 0 \<and>
     POLLIN a \<noteq> 0 \<and> POLLOUT a \<noteq> 0 \<and> and (POLLIN a) (POLLOUT a) = 0"

text \<open>Values of these constants on Linux.\<close>

definition linux_abi :: abi where
  "linux_abi = \<lparr>O_WRONLY = 1, O_RDWR = 2, O_NONBLOCK = 0x800, O_CLOEXEC = 0x80000, POLLIN = 1, POLLOUT = 4, POLLHUP = 0x10,
     POLLNVAL = 0x20, S_IFMT = 0xf000, S_IFCHR = 0x2000, S_IFIFO = 0x1000, S_IFSOCK = 0xc000,
     S_IFDIR = 0x4000, S_IFREG = 0x8000, S_IFLNK = 0xa000, S_IFBLK = 0x6000,
     FILE_CREATION_FLAGS = 0x303c0, O_CREAT = 0x40, O_NOFOLLOW = 0x20000, O_DIRECTORY = 0x10000, O_TRUNC = 0x200,
     AT_FDCWD = -100, AT_EMPTY_PATH = 0x1000, AT_SYMLINK_NOFOLLOW = 0x100, AT_REMOVEDIR = 0x200\<rparr>"

lemma linux_abi_ok: "abi_ok linux_abi"
  by (simp add: abi_ok_def linux_abi_def)

text \<open>How a read or a write of a stream ends: done, failed, or the caller has to wait for an event.\<close>

datatype io = Io_done "u8 list" | Io_error errno | Io_wait

text \<open>Setting and clearing flags.\<close>

definition flag_on :: "u32 \<Rightarrow> u32 \<Rightarrow> bool" where
  "flag_on w f \<longleftrightarrow> and w f \<noteq> 0"

lemma flag_on_or [simp]: "f \<noteq> 0 \<Longrightarrow> flag_on (or w f) f"
  by (simp add: flag_on_def and.commute [of _ f] bit.conj_disj_distrib or_eq_0_iff)

lemma flag_on_clear [simp]: "\<not> flag_on (and w (not f)) f"
  by (simp add: flag_on_def and.assoc)

lemma flag_on_other:
  assumes "and f g = 0"
  shows "flag_on (or w f) g = flag_on w g" and "flag_on (and w (not f)) g = flag_on w g"
proof -
  show "flag_on (or w f) g = flag_on w g"
    using assms by (simp add: flag_on_def bit.conj_disj_distrib2)
  have "and (and w (not f)) g = and w g"
  proof (rule bit_word_eqI)
    fix n
    assume "n < LENGTH(32)"
    have "\<not> (bit f n \<and> bit g n)" using assms by (metis bit_and_iff bit_0_eq bot_apply bot_bool_def)
    then show "bit (and (and w (not f)) g) n = bit (and w g) n"
      using \<open>n < LENGTH(32)\<close> by (auto simp: bit_simps)
  qed
  then show "flag_on (and w (not f)) g = flag_on w g" by (simp add: flag_on_def)
qed

end
