(* ===== verification/Lyre_Resource.thy ===== *)
theory Lyre_Resource
  imports Lyre_Abi Lyre_Lock
begin

text \<open>
  File descriptors (\<open>lib/resource.c\<close>).  A process has an array of 256 pointers to descriptors; a
  descriptor points to a description, which counts its references and points to a resource.  All
  pointers are addresses, zero is \<open>NULL\<close>, and the address a successful allocation returns is an
  argument.  A resource carries the state \<open>'s\<close> of its driver and the record of the driver's functions.
  \<open>freed\<close> lists the addresses passed to \<open>free\<close>.  A call that returns \<open>-1\<close> is \<open>Inl\<close> of the error
  number, \<open>None\<close> when \<open>errno\<close> was not set.
\<close>

unbundle bit_operations_syntax

subsection \<open>Data\<close>

definition MAX_FDS :: nat where
  "MAX_FDS = 256"

record 's rops =
  op_read :: "u32 \<Rightarrow> int \<Rightarrow> u64 \<Rightarrow> 's \<Rightarrow> (errno + u8 list) \<times> 's"
  op_write :: "u32 \<Rightarrow> int \<Rightarrow> u8 list \<Rightarrow> 's \<Rightarrow> (errno + u64) \<times> 's"
  op_ioctl :: "u32 \<Rightarrow> u64 \<Rightarrow> u64 \<Rightarrow> 's \<Rightarrow> (errno + int) \<times> 's"
  op_ref :: "u32 \<Rightarrow> u64 \<Rightarrow> 's \<Rightarrow> u64 \<times> 's"
  op_unref :: "u32 \<Rightarrow> u64 \<Rightarrow> 's \<Rightarrow> u64 \<times> 's"
  op_mmap :: "u64 \<Rightarrow> u32 \<Rightarrow> 's \<Rightarrow> (errno + u64) \<times> 's"
  op_msync :: "u64 \<Rightarrow> u64 \<Rightarrow> u32 \<Rightarrow> 's \<Rightarrow> errno option \<times> 's"
  op_truncate :: "u32 \<Rightarrow> u64 \<Rightarrow> 's \<Rightarrow> errno option \<times> 's"
  op_chmod :: "u32 \<Rightarrow> u32 \<Rightarrow> u32"

datatype 's resource = Resource
  (r_refcount: u64) (r_status: u32) (r_mode: u32) (r_size: int) (r_state: 's) (r_ops: "'s rops")

record f_description =
  d_refcount :: u64
  d_offset :: int
  d_flags :: u32
  d_res :: u64

record f_descriptor =
  fd_description :: u64
  fd_flags :: u32

record fd_table =
  fds_lock :: spinlock
  fds :: "u64 list"

record 's files =
  tables :: "u64 \<Rightarrow> fd_table"
  descriptors :: "u64 \<Rightarrow> f_descriptor"
  descriptions :: "u64 \<Rightarrow> f_description"
  resources :: "u64 \<Rightarrow> 's resource"
  freed :: "u64 list"

type_synonym ('s, 'a) fdcall = "((errno option + 'a) \<times> 's files) result"

definition put_table :: "u64 \<Rightarrow> (fd_table \<Rightarrow> fd_table) \<Rightarrow> 's files \<Rightarrow> 's files" where
  "put_table p f s = s\<lparr>tables := (tables s)(p := f (tables s p))\<rparr>"

definition put_desc :: "u64 \<Rightarrow> (f_description \<Rightarrow> f_description) \<Rightarrow> 's files \<Rightarrow> 's files" where
  "put_desc d f s = s\<lparr>descriptions := (descriptions s)(d := f (descriptions s d))\<rparr>"

definition put_fd :: "u64 \<Rightarrow> (f_descriptor \<Rightarrow> f_descriptor) \<Rightarrow> 's files \<Rightarrow> 's files" where
  "put_fd d f s = s\<lparr>descriptors := (descriptors s)(d := f (descriptors s d))\<rparr>"

definition free :: "u64 \<Rightarrow> 's files \<Rightarrow> 's files" where
  "free p s = s\<lparr>freed := freed s @ [p]\<rparr>"

definition unlock_fds :: "u64 \<Rightarrow> 's files \<Rightarrow> 's files" where
  "unlock_fds p s = put_table p (\<lambda>t. t\<lparr>fds_lock := spinlock_release (fds_lock t)\<rparr>) s"

definition lock_fds :: "string \<Rightarrow> u64 \<Rightarrow> 's files \<Rightarrow> 's files result" where
  "lock_fds caller p s = rbind (spinlock_acquire caller (fds_lock (tables s p)))
     (\<lambda>l. Inr (put_table p (\<lambda>t. t\<lparr>fds_lock := l\<rparr>) s))"

subsection \<open>The functions of a resource\<close>

definition set_count :: "u64 \<times> 's \<Rightarrow> 's resource \<Rightarrow> 's resource" where
  "set_count cs r = Resource (fst cs) (r_status r) (r_mode r) (r_size r) (snd cs) (r_ops r)"

definition res_ref :: "u32 \<Rightarrow> 's resource \<Rightarrow> 's resource" where
  "res_ref flags r = set_count (op_ref (r_ops r) flags (r_refcount r) (r_state r)) r"

definition res_unref :: "u32 \<Rightarrow> 's resource \<Rightarrow> 's resource" where
  "res_unref flags r = set_count (op_unref (r_ops r) flags (r_refcount r) (r_state r)) r"

definition with_state :: "'s \<Rightarrow> 's resource \<Rightarrow> 's resource" where
  "with_state st r = Resource (r_refcount r) (r_status r) (r_mode r) (r_size r) st (r_ops r)"

datatype ioctl_request = TCGETS | TCSETS | TIOCSCTTY | TIOCGWINSZ | IOCTL_OTHER u64

fun resource_default_ioctl :: "ioctl_request \<Rightarrow> errno + int" where
  "resource_default_ioctl (IOCTL_OTHER n) = Inl EINVAL"
| "resource_default_ioctl _ = Inl ENOTTY"

definition stub_read :: "u32 \<Rightarrow> int \<Rightarrow> u64 \<Rightarrow> 's \<Rightarrow> (errno + u8 list) \<times> 's" where
  "stub_read flags off cnt st = (Inl ENOSYS, st)"

definition stub_write :: "u32 \<Rightarrow> int \<Rightarrow> u8 list \<Rightarrow> 's \<Rightarrow> (errno + u64) \<times> 's" where
  "stub_write flags off bs st = (Inl ENOSYS, st)"

definition stub_mmap :: "u64 \<Rightarrow> u32 \<Rightarrow> 's \<Rightarrow> (errno + u64) \<times> 's" where
  "stub_mmap file_page flags st = (Inl ENOSYS, st)"

definition stub_msync :: "u64 \<Rightarrow> u64 \<Rightarrow> u32 \<Rightarrow> 's \<Rightarrow> errno option \<times> 's" where
  "stub_msync file_page phys flags st = (Some ENOSYS, st)"

definition stub_truncate :: "u32 \<Rightarrow> u64 \<Rightarrow> 's \<Rightarrow> errno option \<times> 's" where
  "stub_truncate flags len st = (Some ENOSYS, st)"

text \<open>The new value of the mode word.\<close>

definition stub_chmod :: "u32 \<Rightarrow> u32 \<Rightarrow> u32" where
  "stub_chmod st_mode mode = (st_mode AND NOT 0x1ff) OR (mode AND 0x1ff)"

definition stub_ref :: "u32 \<Rightarrow> u64 \<Rightarrow> 's \<Rightarrow> u64 \<times> 's" where
  "stub_ref flags n st = (n + 1, st)"

definition stub_unref :: "u32 \<Rightarrow> u64 \<Rightarrow> 's \<Rightarrow> u64 \<times> 's" where
  "stub_unref flags n st = (n - 1, st)"

text \<open>A new resource; \<open>enc\<close> gives the numbers of the requests the default \<open>ioctl\<close> knows.\<close>

definition resource_create :: "(ioctl_request \<Rightarrow> u64) \<Rightarrow> 's \<Rightarrow> 's resource" where
  "resource_create enc st =
     Resource 0 0 0 0 st \<lparr>op_read = stub_read, op_write = stub_write,
       op_ioctl = (\<lambda>_ req _ st. (if req \<in> enc ` {TCGETS, TCSETS, TIOCSCTTY, TIOCGWINSZ} then resource_default_ioctl TCGETS
                      else resource_default_ioctl (IOCTL_OTHER req), st)),
       op_ref = stub_ref, op_unref = stub_unref, op_mmap = stub_mmap, op_msync = stub_msync,
       op_truncate = stub_truncate, op_chmod = stub_chmod\<rparr>"

text \<open>Device numbers; \<open>dev_id_counter\<close> starts at one.\<close>

definition resource_create_dev_id :: "spinlock \<times> u64 \<Rightarrow> (u64 \<times> spinlock \<times> u64) result" where
  "resource_create_dev_id = (\<lambda>(lock, dev_id_counter).
     rbind (spinlock_acquire ''resource_create_dev_id'' lock) (\<lambda>l. Inr (dev_id_counter, spinlock_release l, dev_id_counter + 1)))"

definition on_resource :: "u64 \<Rightarrow> ('s resource \<Rightarrow> 's resource) \<Rightarrow> 's files \<Rightarrow> 's files" where
  "on_resource p f s = s\<lparr>resources := (resources s)(p := f (resources s p))\<rparr>"

subsection \<open>Descriptors\<close>

text \<open>Closing the descriptor in slot \<open>n\<close>, without the lock.\<close>

definition close_slot :: "u64 \<Rightarrow> int \<Rightarrow> 's files \<Rightarrow> ('s, unit) fdcall" where
  "close_slot p n s =
     (if n < 0 \<or> n \<ge> int MAX_FDS then Inr (Inl (Some EBADF), s)
      else rbind (arr_get (fds (tables s p)) (nat n)) (\<lambda>fd.
        if fd = 0 then Inr (Inl (Some EBADF), s)
        else let d = fd_description (descriptors s fd);
                 s1 = on_resource (d_res (descriptions s d)) (res_unref (d_flags (descriptions s d))) s;
                 s2 = put_desc d (\<lambda>r. r\<lparr>d_refcount := d_refcount r - 1\<rparr>) s1;
                 s3 = (if d_refcount (descriptions s1 d) = 1 then free d s2 else s2);
                 s4 = free fd s3
             in Inr (Inr (), put_table p (\<lambda>t. t\<lparr>fds := (fds t)[nat n := 0]\<rparr>) s4)))"

definition fdnum_close :: "u64 \<Rightarrow> int \<Rightarrow> bool \<Rightarrow> 's files \<Rightarrow> ('s, unit) fdcall" where
  "fdnum_close p n lock s =
     rbind (if lock then lock_fds ''fdnum_close'' p s else Inr s) (\<lambda>s1.
     rbind (close_slot p n s1) (\<lambda>(r, s2). Inr (r, if lock then unlock_fds p s2 else s2)))"

text \<open>The search for a free slot from \<open>i\<close> on.\<close>

fun free_slot :: "nat \<Rightarrow> u64 list \<Rightarrow> nat option" where
  "free_slot i [] = None"
| "free_slot i (x # xs) = (if x = 0 then Some i else free_slot (Suc i) xs)"

definition fdnum_create_from_fd :: "u64 \<Rightarrow> u64 \<Rightarrow> int \<Rightarrow> bool \<Rightarrow> 's files \<Rightarrow> ('s, int) fdcall" where
  "fdnum_create_from_fd p fd old specific s =
     rbind (lock_fds ''fdnum_create_from_fd'' p s) (\<lambda>s1.
       if old < 0 \<or> old \<ge> int MAX_FDS then Inr (Inl (Some EBADF), unlock_fds p s1)
       else if \<not> specific
       then case free_slot (nat old) (drop (nat old) (fds (tables s1 p))) of
              None \<Rightarrow> Inr (Inl None, unlock_fds p s1)
            | Some i \<Rightarrow> Inr (Inr (int i), unlock_fds p (put_table p (\<lambda>t. t\<lparr>fds := (fds t)[i := fd]\<rparr>) s1))
       else rbind (fdnum_close p old False s1) (\<lambda>(_, s2).
              Inr (Inr old, unlock_fds p (put_table p (\<lambda>t. t\<lparr>fds := (fds t)[nat old := fd]\<rparr>) s2))))"

text \<open>\<open>dp\<close> and \<open>fp\<close> are the addresses of the new description and descriptor.\<close>

definition fd_create_from_resource :: "abi \<Rightarrow> u64 \<Rightarrow> u64 \<Rightarrow> u64 \<Rightarrow> u32 \<Rightarrow> 's files \<Rightarrow> u64 \<times> 's files" where
  "fd_create_from_resource a dp fp res flags s =
     (if dp = 0 then (0, s)
      else let s1 = put_desc dp (\<lambda>_. \<lparr>d_refcount = 1, d_offset = 0,
                      d_flags = flags AND NOT (FILE_CREATION_FLAGS a OR O_CLOEXEC a), d_res = res\<rparr>) s
           in if fp = 0 then (0, free dp s1)
              else let s2 = on_resource res (res_ref (d_flags (descriptions s1 dp))) s1
                   in (fp, put_fd fp (\<lambda>_. \<lparr>fd_description = dp, fd_flags = flags AND O_CLOEXEC a\<rparr>) s2))"

definition fdnum_create_from_resource ::
  "abi \<Rightarrow> u64 \<Rightarrow> u64 \<Rightarrow> u64 \<Rightarrow> u64 \<Rightarrow> u32 \<Rightarrow> int \<Rightarrow> bool \<Rightarrow> 's files \<Rightarrow> ('s, int) fdcall" where
  "fdnum_create_from_resource a dp fp p res flags old specific s =
     (let (fd, s1) = fd_create_from_resource a dp fp res flags s
      in if fd = 0 then Inr (Inl None, s1) else fdnum_create_from_fd p fd old specific s1)"

definition fd_from_fdnum :: "u64 \<Rightarrow> int \<Rightarrow> 's files \<Rightarrow> ('s, u64) fdcall" where
  "fd_from_fdnum p n s =
     rbind (lock_fds ''fd_from_fdnum'' p s) (\<lambda>s1.
       if n < 0 \<or> n \<ge> int MAX_FDS then Inr (Inl (Some EBADF), unlock_fds p s1)
       else rbind (arr_get (fds (tables s1 p)) (nat n)) (\<lambda>fd.
         if fd = 0 then Inr (Inl (Some EBADF), unlock_fds p s1)
         else Inr (Inr fd, unlock_fds p (put_desc (fd_description (descriptors s1 fd))
                (\<lambda>d. d\<lparr>d_refcount := d_refcount d + 1\<rparr>) s1))))"

text \<open>Sequencing of calls that may fail: the error ends the function.\<close>

definition fdbind :: "('s, 'a) fdcall \<Rightarrow> ('a \<Rightarrow> 's files \<Rightarrow> ('s, 'b) fdcall) \<Rightarrow> ('s, 'b) fdcall" where
  "fdbind m f = rbind m (\<lambda>(r, s). case r of Inl e \<Rightarrow> Inr (Inl e, s) | Inr x \<Rightarrow> f x s)"

definition fdnum_dup ::
  "abi \<Rightarrow> u64 \<Rightarrow> u64 \<Rightarrow> int \<Rightarrow> u64 \<Rightarrow> int \<Rightarrow> u32 \<Rightarrow> bool \<Rightarrow> bool \<Rightarrow> 's files \<Rightarrow> ('s, int) fdcall" where
  "fdnum_dup a fp old_proc old new_proc new flags specific cloexec s =
     (if specific \<and> old = new \<and> old_proc = new_proc then Inr (Inl (Some EINVAL), s)
      else fdbind (fd_from_fdnum old_proc old s) (\<lambda>ofd s1.
        if fp = 0 then Inr (Inl (Some ENOMEM), s1)
        else let s2 = put_fd fp (\<lambda>_. descriptors s1 ofd) s1
             in rbind (fdnum_create_from_fd new_proc fp new specific s2) (\<lambda>(r, s3).
                  case r of
                    Inl e \<Rightarrow> Inr (Inl e, free fp s3)
                  | Inr n \<Rightarrow>
                      let s4 = put_fd fp (\<lambda>f. f\<lparr>fd_flags := flags AND O_CLOEXEC a\<rparr>) s3;
                          s5 = (if cloexec then put_fd fp (\<lambda>f. f\<lparr>fd_flags := fd_flags f AND O_CLOEXEC a\<rparr>) s4 else s4);
                          d = fd_description (descriptors s5 ofd);
                          s6 = put_desc d (\<lambda>r. r\<lparr>d_refcount := d_refcount r + 1\<rparr>) s5
                      in Inr (Inr n, on_resource (d_res (descriptions s6 d)) (res_ref (d_flags (descriptions s6 d))) s6))))"

subsection \<open>System calls\<close>

definition syscall_close :: "u64 \<Rightarrow> int \<Rightarrow> 's files \<Rightarrow> ('s, unit) fdcall" where
  "syscall_close p n s = fdnum_close p n True s"

definition syscall_read :: "u64 \<Rightarrow> int \<Rightarrow> u64 \<Rightarrow> 's files \<Rightarrow> ('s, u8 list) fdcall" where
  "syscall_read p n cnt s =
     fdbind (fd_from_fdnum p n s) (\<lambda>fd s1.
       let d = fd_description (descriptors s1 fd); desc = descriptions s1 d; res = resources s1 (d_res desc);
           (r, st) = op_read (r_ops res) (d_flags desc) (d_offset desc) cnt (r_state res);
           s2 = on_resource (d_res desc) (with_state st) s1
       in case r of
            Inl e \<Rightarrow> Inr (Inl (Some e), s2)
          | Inr bs \<Rightarrow> Inr (Inr bs, put_desc d (\<lambda>x. x\<lparr>d_offset := d_offset x + int (length bs)\<rparr>) s2))"

definition syscall_write :: "u64 \<Rightarrow> int \<Rightarrow> u8 list \<Rightarrow> 's files \<Rightarrow> ('s, u64) fdcall" where
  "syscall_write p n bs s =
     fdbind (fd_from_fdnum p n s) (\<lambda>fd s1.
       let d = fd_description (descriptors s1 fd); desc = descriptions s1 d; res = resources s1 (d_res desc);
           (r, st) = op_write (r_ops res) (d_flags desc) (d_offset desc) bs (r_state res);
           s2 = on_resource (d_res desc) (with_state st) s1
       in case r of
            Inl e \<Rightarrow> Inr (Inl (Some e), s2)
          | Inr k \<Rightarrow> Inr (Inr k, put_desc d (\<lambda>x. x\<lparr>d_offset := d_offset x + uint k\<rparr>) s2))"

datatype whence = SEEK_CUR | SEEK_END | SEEK_SET | SEEK_OTHER int

definition seek_target :: "f_description \<Rightarrow> 's resource \<Rightarrow> int \<Rightarrow> whence \<Rightarrow> int option" where
  "seek_target desc res off w =
     (case w of SEEK_CUR \<Rightarrow> Some (d_offset desc + off) | SEEK_END \<Rightarrow> Some (off + r_size res) | SEEK_SET \<Rightarrow> Some off
      | SEEK_OTHER _ \<Rightarrow> None)"

definition syscall_seek :: "abi \<Rightarrow> u64 \<Rightarrow> int \<Rightarrow> int \<Rightarrow> whence \<Rightarrow> 's files \<Rightarrow> ('s, int) fdcall" where
  "syscall_seek a p n off w s =
     fdbind (fd_from_fdnum p n s) (\<lambda>fd s1.
       let d = fd_description (descriptors s1 fd); desc = descriptions s1 d; res = resources s1 (d_res desc)
       in if r_mode res AND S_IFMT a \<in> {S_IFCHR a, S_IFIFO a, S_IFSOCK a} then Inr (Inl (Some ESPIPE), s1)
          else case seek_target desc res off w of
                 None \<Rightarrow> Inr (Inl (Some EINVAL), s1)
               | Some new_offset \<Rightarrow>
                   if new_offset < 0 then Inr (Inl (Some EINVAL), s1)
                   else Inr (Inr new_offset, put_desc d (\<lambda>x. x\<lparr>d_offset := new_offset\<rparr>) s1))"

datatype fcntl_request = F_DUPFD | F_DUPFD_CLOEXEC | F_GETFD | F_SETFD | F_GETFL | F_SETFL | F_OTHER u64

definition syscall_fcntl :: "abi \<Rightarrow> u64 \<Rightarrow> u64 \<Rightarrow> int \<Rightarrow> fcntl_request \<Rightarrow> u64 \<Rightarrow> 's files \<Rightarrow> ('s, int) fdcall" where
  "syscall_fcntl a fp p n req arg s =
     fdbind (fd_from_fdnum p n s) (\<lambda>fd s1.
       let iarg = sint (ucast arg :: u32)
       in case req of
            F_DUPFD \<Rightarrow> fdnum_dup a fp p n p iarg 0 False False s1
          | F_DUPFD_CLOEXEC \<Rightarrow> fdnum_dup a fp p n p iarg 0 False True s1
          | F_GETFD \<Rightarrow> Inr (Inr (if fd_flags (descriptors s1 fd) AND O_CLOEXEC a \<noteq> 0 then sint (O_CLOEXEC a) else 0), s1)
          | F_SETFD \<Rightarrow> Inr (Inr 0, put_fd fd (\<lambda>f. f\<lparr>fd_flags := (if arg AND ucast (O_CLOEXEC a) \<noteq> 0 then O_CLOEXEC a else 0)\<rparr>) s1)
          | F_GETFL \<Rightarrow> Inr (Inr (sint (d_flags (descriptions s1 (fd_description (descriptors s1 fd))))), s1)
          | F_SETFL \<Rightarrow> Inr (Inr 0, put_desc (fd_description (descriptors s1 fd)) (\<lambda>d. d\<lparr>d_flags := ucast arg\<rparr>) s1)
          | F_OTHER _ \<Rightarrow> Inr (Inl (Some EINVAL), s1))"

definition syscall_ioctl :: "u64 \<Rightarrow> int \<Rightarrow> u64 \<Rightarrow> u64 \<Rightarrow> 's files \<Rightarrow> ('s, int) fdcall" where
  "syscall_ioctl p n req arg s =
     fdbind (fd_from_fdnum p n s) (\<lambda>fd s1.
       let desc = descriptions s1 (fd_description (descriptors s1 fd)); res = resources s1 (d_res desc);
           (r, st) = op_ioctl (r_ops res) (d_flags desc) req arg (r_state res);
           s2 = on_resource (d_res desc) (with_state st) s1
       in Inr (case r of Inl e \<Rightarrow> Inl (Some e) | Inr v \<Rightarrow> Inr v, s2))"

definition syscall_dup3 :: "abi \<Rightarrow> u64 \<Rightarrow> u64 \<Rightarrow> int \<Rightarrow> int \<Rightarrow> u32 \<Rightarrow> 's files \<Rightarrow> ('s, int) fdcall" where
  "syscall_dup3 a fp p old new flags s = fdnum_dup a fp p old p new flags True False s"

subsection \<open>Polling\<close>

text \<open>
  \<open>syscall_ppoll\<close>: the scan of the descriptors, which collects those that are not ready in three
  arrays of 32 entries, and the entry of the timer's event behind them.
\<close>

record pollfd =
  pfd :: int
  pevents :: u16
  revents :: u16

record poll_scan =
  poll_ret :: nat
  fd_nums :: "nat list"
  fd_list :: "u64 list"
  poll_events :: "u64 list"

definition MAX_PPOLL_FDS :: nat where
  "MAX_PPOLL_FDS = 32"

text \<open>Adding to one of the arrays.\<close>

definition arr_push :: "'a list \<Rightarrow> 'a \<Rightarrow> 'a list result" where
  "arr_push xs x = (if length xs < MAX_PPOLL_FDS then Inr (xs @ [x]) else Inl OutOfBounds)"

definition poll_one :: "abi \<Rightarrow> u64 \<Rightarrow> nat \<Rightarrow> pollfd \<Rightarrow> poll_scan \<times> 's files \<Rightarrow> (pollfd \<times> poll_scan \<times> 's files) result" where
  "poll_one a p i pf0 = (\<lambda>(sc, s).
     (let pf = pf0\<lparr>revents := 0\<rparr>
      in if pfd pf < 0 then Inr (pf, sc, s)
         else rbind (fd_from_fdnum p (pfd pf) s) (\<lambda>(r, s1).
           case r of
             Inl _ \<Rightarrow> Inr (pf\<lparr>revents := POLLNVAL a\<rparr>, sc\<lparr>poll_ret := poll_ret sc + 1\<rparr>, s1)
           | Inr fd \<Rightarrow>
               let d = fd_description (descriptors s1 fd); res = d_res (descriptions s1 d);
                   ready = ucast (r_status (resources s1 res)) AND pevents pf
               in if ready \<noteq> 0 then Inr (pf\<lparr>revents := ready\<rparr>, sc\<lparr>poll_ret := poll_ret sc + 1\<rparr>, s1)
                  else rbind (arr_push (fd_list sc) d) (\<lambda>ds.
                       rbind (arr_push (fd_nums sc) i) (\<lambda>ns.
                       rbind (arr_push (poll_events sc) res) (\<lambda>es.
                         Inr (pf, sc\<lparr>fd_list := ds, fd_nums := ns, poll_events := es\<rparr>, s1)))))))"

fun poll_loop :: "abi \<Rightarrow> u64 \<Rightarrow> nat \<Rightarrow> pollfd list \<Rightarrow> poll_scan \<times> 's files \<Rightarrow> (pollfd list \<times> poll_scan \<times> 's files) result" where
  "poll_loop a p i [] ss = Inr ([], ss)"
| "poll_loop a p i (pf # pfs) ss =
     rbind (poll_one a p i pf ss) (\<lambda>(pf', ss'). rbind (poll_loop a p (Suc i) pfs ss') (\<lambda>(pfs', ss''). Inr (pf' # pfs', ss'')))"

text \<open>The cleanup drops the references of the collected descriptions only.\<close>

definition poll_cleanup :: "poll_scan \<Rightarrow> 's files \<Rightarrow> 's files" where
  "poll_cleanup sc s = foldl (\<lambda>s d. put_desc d (\<lambda>r. r\<lparr>d_refcount := d_refcount r - 1\<rparr>) s) s (fd_list sc)"

datatype poll_begin = Poll_error errno | Poll_ready nat | Poll_wait poll_scan

text \<open>\<open>timer_ev\<close>: no timeout, or the address of the timer's event (zero when it cannot be allocated).\<close>

definition ppoll_begin ::
  "abi \<Rightarrow> u64 \<Rightarrow> u64 option \<Rightarrow> pollfd list \<Rightarrow> 's files \<Rightarrow> (poll_begin \<times> pollfd list \<times> 's files) result" where
  "ppoll_begin a p timer_ev pfs s =
     (if pfs = [] then Inr (Poll_ready 0, pfs, s)
      else if length pfs > MAX_PPOLL_FDS then Inr (Poll_error EINVAL, pfs, s)
      else rbind (poll_loop a p 0 pfs (\<lparr>poll_ret = 0, fd_nums = [], fd_list = [], poll_events = []\<rparr>, s)) (\<lambda>(pfs', sc, s1).
        if poll_ret sc \<noteq> 0 then Inr (Poll_ready (poll_ret sc), pfs', poll_cleanup sc s1)
        else case timer_ev of
               None \<Rightarrow> Inr (Poll_wait sc, pfs', s1)
             | Some ev \<Rightarrow>
                 if ev = 0 then Inr (Poll_error ENOMEM, pfs', poll_cleanup sc s1)
                 else rbind (arr_push (poll_events sc) ev) (\<lambda>es. Inr (Poll_wait (sc\<lparr>poll_events := es\<rparr>), pfs', s1))))"

text \<open>After a wake-up by event \<open>which\<close>: the timer ends the call, a ready descriptor ends it with one.\<close>

definition ppoll_woken :: "bool \<Rightarrow> nat \<Rightarrow> poll_scan \<Rightarrow> pollfd list \<Rightarrow> 's files \<Rightarrow> (nat option \<times> pollfd list) result" where
  "ppoll_woken has_timer which sc pfs s =
     (if has_timer \<and> which = length (poll_events sc) - 1 then Inr (Some 0, pfs)
      else rbind (arr_get (fd_nums sc) which) (\<lambda>i.
           rbind (arr_get pfs i) (\<lambda>pf.
           rbind (arr_get (fd_list sc) which) (\<lambda>d.
             let ready = ucast (r_status (resources s (d_res (descriptions s d)))) AND pevents pf
             in if ready \<noteq> 0 then Inr (Some 1, pfs[i := pf\<lparr>revents := ready\<rparr>]) else Inr (None, pfs)))))"

subsection \<open>Lemmas\<close>

lemma put_files_simps [simp]:
  "tables (put_table p f s) q = (if q = p then f (tables s p) else tables s q)"
  "descriptors (put_table p f s) = descriptors s" "descriptions (put_table p f s) = descriptions s"
  "resources (put_table p f s) = resources s" "freed (put_table p f s) = freed s"
  "tables (put_desc d g s) = tables s" "descriptors (put_desc d g s) = descriptors s"
  "descriptions (put_desc d g s) e = (if e = d then g (descriptions s d) else descriptions s e)"
  "resources (put_desc d g s) = resources s" "freed (put_desc d g s) = freed s"
  "tables (put_fd x h s) = tables s" "descriptions (put_fd x h s) = descriptions s"
  "descriptors (put_fd x h s) y = (if y = x then h (descriptors s x) else descriptors s y)"
  "resources (put_fd x h s) = resources s" "freed (put_fd x h s) = freed s"
  by (simp_all add: put_table_def put_desc_def put_fd_def)

lemma other_files_simps [simp]:
  "tables (free x s) = tables s" "descriptors (free x s) = descriptors s" "descriptions (free x s) = descriptions s"
  "resources (free x s) = resources s" "freed (free x s) = freed s @ [x]"
  "tables (on_resource r k s) = tables s" "descriptors (on_resource r k s) = descriptors s"
  "descriptions (on_resource r k s) = descriptions s" "freed (on_resource r k s) = freed s"
  "resources (on_resource r k s) q = (if q = r then k (resources s r) else resources s q)"
  "descriptors (unlock_fds p s) = descriptors s" "descriptions (unlock_fds p s) = descriptions s"
  "resources (unlock_fds p s) = resources s" "freed (unlock_fds p s) = freed s"
  "fds (tables (unlock_fds p s) q) = fds (tables s q)" "unlocked (fds_lock (tables (unlock_fds p s) p))"
  by (simp_all add: free_def on_resource_def unlock_fds_def)

lemma fdbind_simps [simp]:
  "fdbind (Inr (Inr x, s)) f = f x s" "fdbind (Inr (Inl e, s)) f = Inr (Inl e, s)"
  by (simp_all add: fdbind_def)

text \<open>A usable table: its lock is free and it has all its slots.\<close>

definition table_ok :: "u64 \<Rightarrow> 's files \<Rightarrow> bool" where
  "table_ok p s \<longleftrightarrow> unlocked (fds_lock (tables s p)) \<and> length (fds (tables s p)) = MAX_FDS"

definition in_range :: "int \<Rightarrow> bool" where
  "in_range n \<longleftrightarrow> 0 \<le> n \<and> n < int MAX_FDS"

text \<open>The descriptor in a slot, zero for an empty one.\<close>

abbreviation slot :: "u64 \<Rightarrow> int \<Rightarrow> 's files \<Rightarrow> u64" where
  "slot p n s \<equiv> fds (tables s p) ! nat n"

lemma lock_fds_ok:
  "table_ok p s \<Longrightarrow> lock_fds c p s = Inr (put_table p (\<lambda>t. t\<lparr>fds_lock := (fds_lock t)\<lparr>lock_word := 1, last_acquirer := c\<rparr>\<rparr>) s)"
  by (simp add: lock_fds_def table_ok_def klock put_table_def)

lemma unlock_table_ok: "length (fds (tables s p)) = MAX_FDS \<Longrightarrow> table_ok p (unlock_fds p s)"
  by (simp add: table_ok_def)

lemma fd_from_fdnum_found:
  assumes ok: "table_ok p s" and n: "in_range n" and fd: "slot p n s \<noteq> 0"
  shows "\<exists>s'. fd_from_fdnum p n s = Inr (Inr (slot p n s), s') \<and> table_ok p s' \<and>
    (\<forall>q. fds (tables s' q) = fds (tables s q)) \<and> descriptors s' = descriptors s \<and> resources s' = resources s \<and>
    freed s' = freed s \<and> (\<forall>d. descriptions s' d = (if d = fd_description (descriptors s (slot p n s))
      then (descriptions s d)\<lparr>d_refcount := d_refcount (descriptions s d) + 1\<rparr> else descriptions s d))"
proof -
  have "nat n < length (fds (tables s p))" using ok n by (auto simp: table_ok_def in_range_def nat_less_iff)
  then show ?thesis using n fd ok
    by (auto simp: fd_from_fdnum_def lock_fds_ok [OF ok] in_range_def intro!: unlock_table_ok)
      (simp add: table_ok_def)
qed

lemma free_slot_Some:
  "free_slot i xs = Some j \<Longrightarrow> i \<le> j \<and> j - i < length xs \<and> xs ! (j - i) = 0 \<and> (\<forall>k < j - i. xs ! k \<noteq> 0)"
proof (induction xs arbitrary: i)
  case (Cons x xs)
  show ?case
  proof (cases "x = 0")
    case False
    with Cons.prems Cons.IH [of "Suc i"] have h: "Suc i \<le> j" "j - Suc i < length xs" "xs ! (j - Suc i) = 0"
      "\<forall>k < j - Suc i. xs ! k \<noteq> 0" by auto
    then have "j - i = Suc (j - Suc i)" by simp
    with h False show ?thesis by (auto simp: nth_Cons split: nat.split)
  qed (use Cons.prems in simp)
qed simp

lemma free_slot_None: "free_slot i xs = None \<longleftrightarrow> 0 \<notin> set xs"
  by (induction xs arbitrary: i) auto

lemma create_fd_lowest:
  assumes ok: "table_ok p s" and n: "in_range n"
  shows "\<exists>r s'. fdnum_create_from_fd p fd n False s = Inr (r, s') \<and> table_ok p s' \<and>
    descriptors s' = descriptors s \<and> descriptions s' = descriptions s \<and> resources s' = resources s \<and> freed s' = freed s \<and>
    (case r of
       Inl e \<Rightarrow> e = None \<and> (\<forall>i. n \<le> int i \<and> i < MAX_FDS \<longrightarrow> slot p (int i) s \<noteq> 0) \<and> fds (tables s' p) = fds (tables s p)
     | Inr m \<Rightarrow> n \<le> m \<and> in_range m \<and> slot p m s = 0 \<and> (\<forall>i. n \<le> i \<and> i < m \<longrightarrow> slot p i s \<noteq> 0) \<and>
         fds (tables s' p) = (fds (tables s p))[nat m := fd])"
proof -
  let ?l = "put_table p (\<lambda>t. t\<lparr>fds_lock := (fds_lock t)\<lparr>lock_word := 1, last_acquirer := ''fdnum_create_from_fd''\<rparr>\<rparr>) s"
  have len: "length (fds (tables s p)) = MAX_FDS" using ok by (simp add: table_ok_def)
  have nn: "0 \<le> n" "n < int MAX_FDS" "nat n < MAX_FDS" using n by (auto simp: in_range_def)
  show ?thesis
  proof (cases "free_slot (nat n) (drop (nat n) (fds (tables s p)))")
    case None
    then have "slot p (int i) s \<noteq> 0" if "n \<le> int i" "i < MAX_FDS" for i
    proof -
      have "fds (tables s p) ! i \<in> set (drop (nat n) (fds (tables s p)))"
        using that nn len by (auto simp: in_set_conv_nth intro!: exI [of _ "i - nat n"])
      then show ?thesis using None by (auto simp: free_slot_None)
    qed
    with None nn len show ?thesis
      by (auto simp: fdnum_create_from_fd_def lock_fds_ok [OF ok] intro!: unlock_table_ok)
  next
    case (Some j)
    note f = free_slot_Some [OF Some]
    have j: "n \<le> int j" "j < MAX_FDS" "fds (tables s p) ! j = 0" using f nn len by auto
    have "slot p i s \<noteq> 0" if "n \<le> i" "i < int j" for i
    proof -
      have "nat i - nat n < j - nat n" using that nn by auto
      then have "drop (nat n) (fds (tables s p)) ! (nat i - nat n) \<noteq> 0" using f by blast
      then show ?thesis using that nn len by simp
    qed
    with Some nn len j show ?thesis
      by (auto simp: fdnum_create_from_fd_def lock_fds_ok [OF ok] in_range_def intro!: unlock_table_ok)
  qed
qed


lemma close_slot_found:
  assumes ok: "length (fds (tables s p)) = MAX_FDS" and n: "in_range n" and fd: "slot p n s \<noteq> 0"
  defines "d \<equiv> fd_description (descriptors s (slot p n s))"
  shows "\<exists>s'. close_slot p n s = Inr (Inr (), s') \<and> tables s' = (tables s)(p := (tables s p)\<lparr>fds := (fds (tables s p))[nat n := 0]\<rparr>) \<and>
    descriptors s' = descriptors s \<and>
    descriptions s' = (descriptions s)(d := (descriptions s d)\<lparr>d_refcount := d_refcount (descriptions s d) - 1\<rparr>) \<and>
    resources s' = (resources s)(d_res (descriptions s d) :=
      res_unref (d_flags (descriptions s d)) (resources s (d_res (descriptions s d)))) \<and>
    freed s' = freed s @ (if d_refcount (descriptions s d) = 1 then [d] else []) @ [slot p n s]"
proof -
  have "nat n < length (fds (tables s p))" using ok n by (auto simp: in_range_def nat_less_iff)
  then show ?thesis using n fd
    by (simp add: close_slot_def in_range_def Let_def d_def put_table_def put_desc_def on_resource_def free_def)
qed

lemma close_slot_empty:
  "length (fds (tables s p)) = MAX_FDS \<Longrightarrow> \<not> in_range n \<or> slot p n s = 0 \<Longrightarrow> close_slot p n s = Inr (Inl (Some EBADF), s)"
  by (auto simp: close_slot_def in_range_def nat_less_iff)

lemma fdnum_close_found:
  assumes ok: "table_ok p s" and n: "in_range n" and fd: "slot p n s \<noteq> 0"
  defines "d \<equiv> fd_description (descriptors s (slot p n s))"
  shows "\<exists>s'. fdnum_close p n True s = Inr (Inr (), s') \<and> table_ok p s' \<and>
    fds (tables s' p) = (fds (tables s p))[nat n := 0] \<and> descriptors s' = descriptors s \<and>
    descriptions s' = (descriptions s)(d := (descriptions s d)\<lparr>d_refcount := d_refcount (descriptions s d) - 1\<rparr>) \<and>
    resources s' = (resources s)(d_res (descriptions s d) :=
      res_unref (d_flags (descriptions s d)) (resources s (d_res (descriptions s d)))) \<and>
    freed s' = freed s @ (if d_refcount (descriptions s d) = 1 then [d] else []) @ [slot p n s]"
proof -
  let ?l = "put_table p (\<lambda>t. t\<lparr>fds_lock := (fds_lock t)\<lparr>lock_word := 1, last_acquirer := ''fdnum_close''\<rparr>\<rparr>) s"
  have "length (fds (tables ?l p)) = MAX_FDS" "slot p n ?l \<noteq> 0" using ok fd by (auto simp: table_ok_def)
  from close_slot_found [OF this(1) n this(2)] show ?thesis
    using ok by (auto simp: fdnum_close_def lock_fds_ok [OF ok] d_def table_ok_def intro!: unlock_table_ok)
qed

subsection \<open>Opening\<close>

text \<open>C29. A resource opened in a process gets the lowest free slot at or above the asked number: the slot
  holds the new descriptor, whose description has one reference, offset zero and the status flags, the
  descriptor keeps the close-on-exec flag only, and the resource's \<open>ref\<close> ran once. When no slot is free
  the call returns -1 without setting \<open>errno\<close>, the resource keeps the extra reference and neither the
  description nor the descriptor is freed.\<close>

theorem fdnum_create_from_resource_correct:
  fixes s :: "'s files"
  assumes ok: "table_ok p s" and n: "in_range n" and dp: "dp \<noteq> 0" and fp: "fp \<noteq> 0"
  shows "\<exists>r s'. fdnum_create_from_resource a dp fp p res flags n False s = Inr (r, s') \<and> table_ok p s' \<and> freed s' = freed s \<and>
    descriptors s' fp = \<lparr>fd_description = dp, fd_flags = flags AND O_CLOEXEC a\<rparr> \<and>
    descriptions s' dp = \<lparr>d_refcount = 1, d_offset = 0,
       d_flags = flags AND NOT (FILE_CREATION_FLAGS a OR O_CLOEXEC a), d_res = res\<rparr> \<and>
    resources s' = (resources s)(res := res_ref (flags AND NOT (FILE_CREATION_FLAGS a OR O_CLOEXEC a)) (resources s res)) \<and>
    (case r of
       Inl e \<Rightarrow> e = None \<and> (\<forall>i. n \<le> int i \<and> i < MAX_FDS \<longrightarrow> slot p (int i) s \<noteq> 0) \<and> fds (tables s' p) = fds (tables s p)
     | Inr m \<Rightarrow> n \<le> m \<and> in_range m \<and> slot p m s = 0 \<and> (\<forall>i. n \<le> i \<and> i < m \<longrightarrow> slot p i s \<noteq> 0) \<and>
         fds (tables s' p) = (fds (tables s p))[nat m := fp])"
proof -
  define s1 where "s1 = snd (fd_create_from_resource a dp fp res flags s)"
  have c: "fd_create_from_resource a dp fp res flags s = (fp, s1)"
    using dp fp by (simp add: s1_def fd_create_from_resource_def Let_def)
  have t: "tables s1 = tables s" "freed s1 = freed s"
    "descriptors s1 fp = \<lparr>fd_description = dp, fd_flags = flags AND O_CLOEXEC a\<rparr>"
    "descriptions s1 dp = \<lparr>d_refcount = 1, d_offset = 0, d_flags = flags AND NOT (FILE_CREATION_FLAGS a OR O_CLOEXEC a), d_res = res\<rparr>"
    "resources s1 = (resources s)(res := res_ref (flags AND NOT (FILE_CREATION_FLAGS a OR O_CLOEXEC a)) (resources s res))"
    using dp fp by (auto simp: s1_def fd_create_from_resource_def Let_def)
  have "table_ok p s1" using ok t(1) by (simp add: table_ok_def)
  from create_fd_lowest [OF this n, of fp] show ?thesis
    using fp unfolding fdnum_create_from_resource_def c t(1) by (auto simp: t cong: sum.case_cong)
qed

definition files_example :: "unit files" where
  "files_example = \<lparr>tables = (\<lambda>_. \<lparr>fds_lock = SPINLOCK_INIT, fds = replicate 256 0\<rparr>),
     descriptors = (\<lambda>_. \<lparr>fd_description = 0, fd_flags = 0\<rparr>),
     descriptions = (\<lambda>_. \<lparr>d_refcount = 0, d_offset = 0, d_flags = 0, d_res = 0\<rparr>),
     resources = (\<lambda>_. resource_create (\<lambda>_. 0) ()), freed = []\<rparr>"

lemma files_example_ok: "table_ok p files_example" "slot p n files_example = (replicate 256 0) ! nat n"
  by (auto simp: table_ok_def files_example_def SPINLOCK_INIT_def MAX_FDS_def)

theorem fdnum_create_from_resource_correct_witness:
  "\<exists>r s'. fdnum_create_from_resource linux_abi 0x1000 0x2000 1 0x3000 2 0 False files_example = Inr (r, s') \<and>
     table_ok 1 s'"
  using fdnum_create_from_resource_correct [OF files_example_ok(1) [of 1], of 0 "0x1000" "0x2000" linux_abi "0x3000" 2]
  by (auto simp: in_range_def MAX_FDS_def)


subsection \<open>Closing\<close>

text \<open>Closing an open descriptor number empties its slot and no other, frees the descriptor, runs the
  resource's \<open>unref\<close> once and takes one reference from the description, which is freed exactly when
  that was the only one; the number is then free again, so a second close fails with \<open>EBADF\<close>, as does
  the close of a number out of range, and changes nothing.\<close>

theorem fdnum_close_correct:
  fixes s :: "'s files" and n :: int
  assumes ok: "table_ok p s"
  defines "d \<equiv> fd_description (descriptors s (slot p n s))"
  shows "\<exists>r s'. syscall_close p n s = Inr (r, s') \<and> table_ok p s' \<and>
    (if in_range n \<and> slot p n s \<noteq> 0
     then r = Inr () \<and> fds (tables s' p) = (fds (tables s p))[nat n := 0] \<and>
       d_refcount (descriptions s' d) = d_refcount (descriptions s d) - 1 \<and>
       resources s' = (resources s)(d_res (descriptions s d) :=
          res_unref (d_flags (descriptions s d)) (resources s (d_res (descriptions s d)))) \<and>
       freed s' = freed s @ (if d_refcount (descriptions s d) = 1 then [d] else []) @ [slot p n s] \<and>
       (\<exists>s''. syscall_close p n s' = Inr (Inl (Some EBADF), s''))
     else r = Inl (Some EBADF) \<and> fds (tables s' p) = fds (tables s p) \<and> descriptions s' = descriptions s \<and>
       resources s' = resources s \<and> freed s' = freed s)"
proof (cases "in_range n \<and> slot p n s \<noteq> 0")
  case True
  then obtain s' where s': "fdnum_close p n True s = Inr (Inr (), s')" "table_ok p s'"
      "fds (tables s' p) = (fds (tables s p))[nat n := 0]"
      "descriptions s' = (descriptions s)(d := (descriptions s d)\<lparr>d_refcount := d_refcount (descriptions s d) - 1\<rparr>)"
      "resources s' = (resources s)(d_res (descriptions s d) :=
         res_unref (d_flags (descriptions s d)) (resources s (d_res (descriptions s d))))"
      "freed s' = freed s @ (if d_refcount (descriptions s d) = 1 then [d] else []) @ [slot p n s]"
    using fdnum_close_found [OF ok, of n] unfolding d_def by auto
  have "\<exists>s''. syscall_close p n s' = Inr (Inl (Some EBADF), s'')" using True ok s'(2,3)
    by (auto simp: syscall_close_def fdnum_close_def lock_fds_ok table_ok_def in_range_def nat_less_iff close_slot_empty)
  with True s' show ?thesis by (simp add: syscall_close_def)
next
  case False
  then have "close_slot p n s1 = Inr (Inl (Some EBADF), s1)"
    if "s1 = put_table p (\<lambda>t. t\<lparr>fds_lock := (fds_lock t)\<lparr>lock_word := 1, last_acquirer := ''fdnum_close''\<rparr>\<rparr>) s" for s1
    using ok that by (intro close_slot_empty) (auto simp: table_ok_def)
  with False ok show ?thesis
    by (auto simp: syscall_close_def fdnum_close_def lock_fds_ok [OF ok] intro!: unlock_table_ok) (simp_all add: table_ok_def)
qed

theorem fdnum_close_correct_witness:
  "\<exists>r s'. syscall_close 1 3 files_example = Inr (r, s') \<and> table_ok 1 s' \<and> r = Inl (Some EBADF)"
proof -
  have "slot 1 3 files_example = 0" by (simp add: files_example_def)
  then show ?thesis using fdnum_close_correct [OF files_example_ok(1), of 1 3] by auto
qed

subsection \<open>Reading\<close>

lemma res_state_simps [simp]:
  "r_ops (with_state st r) = r_ops r" "r_state (with_state st r) = st" "r_refcount (with_state st r) = r_refcount r"
  "r_status (with_state st r) = r_status r"
  by (simp_all add: with_state_def)

lemma syscall_read_done:
  assumes ok: "table_ok p s" and n: "in_range n" and fd: "slot p n s \<noteq> 0"
  defines "d \<equiv> fd_description (descriptors s (slot p n s))"
  assumes r: "op_read (r_ops (resources s (d_res (descriptions s d)))) (d_flags (descriptions s d)) (d_offset (descriptions s d))
      cnt (r_state (resources s (d_res (descriptions s d)))) = (Inr bs, st)"
  shows "\<exists>s'. syscall_read p n cnt s = Inr (Inr bs, s') \<and> table_ok p s' \<and> fds (tables s' p) = fds (tables s p) \<and>
    descriptors s' = descriptors s \<and> freed s' = freed s \<and>
    descriptions s' d = (descriptions s d)\<lparr>d_refcount := d_refcount (descriptions s d) + 1,
       d_offset := d_offset (descriptions s d) + int (length bs)\<rparr> \<and>
    resources s' = (resources s)(d_res (descriptions s d) := with_state st (resources s (d_res (descriptions s d))))"
proof -
  obtain s1 where s1: "fd_from_fdnum p n s = Inr (Inr (slot p n s), s1)" "table_ok p s1"
      "fds (tables s1 p) = fds (tables s p)" "descriptors s1 = descriptors s" "resources s1 = resources s" "freed s1 = freed s"
      "descriptions s1 d = (descriptions s d)\<lparr>d_refcount := d_refcount (descriptions s d) + 1\<rparr>"
    using fd_from_fdnum_found [OF ok n fd] unfolding d_def by auto
  show ?thesis
    using s1 r by (simp add: syscall_read_def d_def [symmetric] Let_def) (simp add: table_ok_def fun_eq_iff)
qed

text \<open>Reading through an open descriptor returns what the driver returns for the description's flags
  and offset, and moves the offset by the number of bytes. But the reference that the look-up of the
  descriptor takes is never given back: after one read, closing the only descriptor of a description
  leaves it with one reference and does not free it.\<close>

theorem read_keeps_a_reference:
  fixes s :: "'s files"
  assumes ok: "table_ok p s" and n: "in_range n" and fd: "slot p n s \<noteq> 0"
  defines "d \<equiv> fd_description (descriptors s (slot p n s))"
  assumes one: "d_refcount (descriptions s d) = 1"
    and r: "op_read (r_ops (resources s (d_res (descriptions s d)))) (d_flags (descriptions s d)) (d_offset (descriptions s d))
      cnt (r_state (resources s (d_res (descriptions s d)))) = (Inr bs, st)"
  shows "\<exists>s' s''. syscall_read p n cnt s = Inr (Inr bs, s') \<and>
    d_offset (descriptions s' d) = d_offset (descriptions s d) + int (length bs) \<and>
    r_state (resources s' (d_res (descriptions s d))) = st \<and>
    syscall_close p n s' = Inr (Inr (), s'') \<and>
    freed s'' = freed s @ [slot p n s] \<and> d_refcount (descriptions s'' d) = 1"
proof -
  obtain s' where s': "syscall_read p n cnt s = Inr (Inr bs, s')" "table_ok p s'" "fds (tables s' p) = fds (tables s p)"
      "descriptors s' = descriptors s" "freed s' = freed s"
      "descriptions s' d = (descriptions s d)\<lparr>d_refcount := d_refcount (descriptions s d) + 1,
         d_offset := d_offset (descriptions s d) + int (length bs)\<rparr>"
      "resources s' = (resources s)(d_res (descriptions s d) := with_state st (resources s (d_res (descriptions s d))))"
    using syscall_read_done [OF ok n fd, of cnt bs st] r unfolding d_def by blast
  have "slot p n s' \<noteq> 0" using s'(3) fd by simp
  from fdnum_close_found [OF s'(2) n this] obtain s'' where "fdnum_close p n True s' = Inr (Inr (), s'')"
      "d_refcount (descriptions s'' d) = d_refcount (descriptions s' d) - 1"
      "freed s'' = freed s' @ (if d_refcount (descriptions s' d) = 1 then [d] else []) @ [slot p n s']"
    using s'(3,4) unfolding d_def by auto
  with s' one show ?thesis by (auto simp: syscall_close_def)
qed

text \<open>A process with one open descriptor, number 3, of a driver that returns one byte.\<close>

definition open_example :: "unit files" where
  "open_example = files_example\<lparr>
     tables := (\<lambda>_. \<lparr>fds_lock = SPINLOCK_INIT, fds = (replicate 256 0)[3 := 0x2000]\<rparr>),
     descriptors := (\<lambda>_. \<lparr>fd_description = 0x1000, fd_flags = 0\<rparr>),
     descriptions := (\<lambda>_. \<lparr>d_refcount = 1, d_offset = 0, d_flags = 0, d_res = 0x3000\<rparr>),
     resources := (\<lambda>_. Resource 1 0 0 0 () \<lparr>op_read = (\<lambda>_ _ _ st. (Inr [7], st)), op_write = stub_write,
       op_ioctl = (\<lambda>_ _ _ st. (Inl ENOTTY, st)), op_ref = stub_ref, op_unref = stub_unref, op_mmap = stub_mmap,
       op_msync = stub_msync, op_truncate = stub_truncate, op_chmod = stub_chmod\<rparr>)\<rparr>"

lemma open_example_ok: "table_ok p open_example" "slot p 3 open_example = 0x2000" "slot p 4 open_example = 0"
  "slot p 0 open_example = 0"
  by (auto simp: table_ok_def open_example_def SPINLOCK_INIT_def MAX_FDS_def)

lemma open_example_slots: "fds (tables open_example p) ! 3 = 0x2000" "fds (tables open_example p) ! 0 = 0"
  by (auto simp: open_example_def)

theorem read_keeps_a_reference_witness:
  "\<exists>s' s''. syscall_read 1 3 1 open_example = Inr (Inr [7], s') \<and> syscall_close 1 3 s' = Inr (Inr (), s'') \<and> freed s'' = [0x2000]"
  using read_keeps_a_reference [OF open_example_ok(1) [of 1], of 3 1 "[7]" "()"]
  by (auto simp: in_range_def MAX_FDS_def open_example_ok) (auto simp: open_example_def files_example_def)


subsection \<open>Duplicating\<close>

lemma dup_lowest:
  assumes ok: "table_ok p s" and old: "in_range old" and fd: "slot p old s \<noteq> 0" and n: "in_range n"
    and fp: "fp \<noteq> 0" "fp \<noteq> slot p old s" and free: "\<exists>i. n \<le> i \<and> in_range i \<and> slot p i s = 0"
  defines "d \<equiv> fd_description (descriptors s (slot p old s))"
  shows "\<exists>m s'. fdnum_dup a fp p old p n flags False cloexec s = Inr (Inr m, s') \<and> table_ok p s' \<and>
    n \<le> m \<and> in_range m \<and> slot p m s = 0 \<and> (\<forall>i. n \<le> i \<and> i < m \<longrightarrow> slot p i s \<noteq> 0) \<and>
    fds (tables s' p) = (fds (tables s p))[nat m := fp] \<and>
    descriptors s' fp = \<lparr>fd_description = d, fd_flags = flags AND O_CLOEXEC a\<rparr> \<and>
    descriptions s' d = (descriptions s d)\<lparr>d_refcount := d_refcount (descriptions s d) + 2\<rparr> \<and> freed s' = freed s \<and>
    resources s' = (resources s)(d_res (descriptions s d) := res_ref (d_flags (descriptions s d)) (resources s (d_res (descriptions s d))))"
proof -
  let ?ofd = "slot p old s"
  obtain s1 where s1: "fd_from_fdnum p old s = Inr (Inr ?ofd, s1)" "table_ok p s1" "fds (tables s1 p) = fds (tables s p)"
      "descriptors s1 = descriptors s" "resources s1 = resources s" "freed s1 = freed s"
      "descriptions s1 d = (descriptions s d)\<lparr>d_refcount := d_refcount (descriptions s d) + 1\<rparr>"
    using fd_from_fdnum_found [OF ok old fd] unfolding d_def by auto
  let ?s2 = "put_fd fp (\<lambda>_. descriptors s1 ?ofd) s1"
  have s2: "table_ok p ?s2" using s1(2) by (simp add: table_ok_def)
  obtain r s3 where s3: "fdnum_create_from_fd p fp n False ?s2 = Inr (r, s3)" "table_ok p s3" "descriptors s3 = descriptors ?s2"
      "descriptions s3 = descriptions ?s2" "resources s3 = resources ?s2" "freed s3 = freed ?s2"
      "case r of Inl e \<Rightarrow> e = None \<and> (\<forall>i. n \<le> int i \<and> i < MAX_FDS \<longrightarrow> slot p (int i) ?s2 \<noteq> 0) \<and> fds (tables s3 p) = fds (tables ?s2 p)
       | Inr m \<Rightarrow> n \<le> m \<and> in_range m \<and> slot p m ?s2 = 0 \<and> (\<forall>i. n \<le> i \<and> i < m \<longrightarrow> slot p i ?s2 \<noteq> 0) \<and>
           fds (tables s3 p) = (fds (tables ?s2 p))[nat m := fp]"
    using create_fd_lowest [OF s2 n, of fp] by blast
  obtain i where i: "n \<le> i" "in_range i" "slot p i s = 0" using free by blast
  have "n \<le> int (nat i)" "nat i < MAX_FDS" "slot p (int (nat i)) s = 0" using i by (auto simp: in_range_def nat_less_iff)
  then have "\<exists>m. r = Inr m" using s3(7) s1(3) by (cases r) auto
  then obtain m where m: "r = Inr m" by blast
  have ofd: "descriptors s3 ?ofd = descriptors s ?ofd" "descriptors s3 fp = descriptors s ?ofd" "descriptions s3 = descriptions s1"
      "resources s3 = resources s" "freed s3 = freed s" using s3 s1 fp by auto
  show ?thesis using s3 m s1 fp ofd
    by (simp add: fdnum_dup_def d_def [symmetric] Let_def fun_eq_iff) (simp add: table_ok_def d_def)
qed

text \<open>Duplicating an open descriptor into the lowest free slot at or above a number gives a second
  descriptor of the same description, so the two share offset and status flags, and runs the
  resource's \<open>ref\<close> once. But the description's count grows by two for the one new descriptor, and
  asking for close-on-exec without flags (\<open>F_DUPFD_CLOEXEC\<close>) gives a descriptor whose close-on-exec
  flag is clear.\<close>

theorem dup_shares_description:
  fixes s :: "'s files"
  assumes ok: "table_ok p s" and old: "in_range old" and fd: "slot p old s \<noteq> 0" and n: "in_range n"
    and fp: "fp \<noteq> 0" "fp \<noteq> slot p old s" and free: "\<exists>i. n \<le> i \<and> in_range i \<and> slot p i s = 0"
  defines "d \<equiv> fd_description (descriptors s (slot p old s))"
  shows "\<exists>m s'. fdnum_dup a fp p old p n 0 False True s = Inr (Inr m, s') \<and>
    n \<le> m \<and> slot p m s = 0 \<and> (\<forall>i. n \<le> i \<and> i < m \<longrightarrow> slot p i s \<noteq> 0) \<and>
    fds (tables s' p) = (fds (tables s p))[nat m := fp] \<and>
    fd_description (descriptors s' fp) = d \<and> fd_flags (descriptors s' fp) = 0 \<and>
    d_refcount (descriptions s' d) = d_refcount (descriptions s d) + 2 \<and>
    resources s' = (resources s)(d_res (descriptions s d) := res_ref (d_flags (descriptions s d)) (resources s (d_res (descriptions s d))))"
proof -
  obtain m s' where m: "fdnum_dup a fp p old p n 0 False True s = Inr (Inr m, s')"
    "n \<le> m" "slot p m s = 0" "\<forall>i. n \<le> i \<and> i < m \<longrightarrow> slot p i s \<noteq> 0"
    "fds (tables s' p) = (fds (tables s p))[nat m := fp]"
    "descriptors s' fp = \<lparr>fd_description = d, fd_flags = 0 AND O_CLOEXEC a\<rparr>"
    "descriptions s' d = (descriptions s d)\<lparr>d_refcount := d_refcount (descriptions s d) + 2\<rparr>"
    "resources s' = (resources s)(d_res (descriptions s d) := res_ref (d_flags (descriptions s d)) (resources s (d_res (descriptions s d))))"
    using dup_lowest [OF ok old fd n fp free, of a 0 True] unfolding d_def by blast
  then show ?thesis by simp
qed

theorem dup_shares_description_witness:
  "\<exists>m s'. fdnum_dup linux_abi 0x4000 1 3 1 0 0 False True open_example = Inr (Inr m, s') \<and>
     fd_flags (descriptors s' 0x4000) = 0 \<and> d_refcount (descriptions s' 0x1000) = 3"
proof -
  have d: "fd_description (descriptors open_example 0x2000) = 0x1000" "d_refcount (descriptions open_example 0x1000) = 1"
    by (auto simp: open_example_def)
  show ?thesis
    using dup_shares_description [OF open_example_ok(1) [of 1], of 3 0 "0x4000" linux_abi]
    by (auto simp: in_range_def MAX_FDS_def open_example_slots d dest!: meta_mp intro!: exI [of _ 0])
qed

subsection \<open>Polling\<close>

lemma poll_one_wait:
  assumes ok: "table_ok p s" and n: "in_range (pfd pf)" and fd: "slot p (pfd pf) s \<noteq> 0" and quiet: "\<forall>r. r_status (resources s r) = 0"
    and room: "length (fd_list sc) < MAX_PPOLL_FDS" "length (fd_nums sc) = length (fd_list sc)" "length (poll_events sc) = length (fd_list sc)"
  shows "\<exists>sc' s'. poll_one a p i pf (sc, s) = Inr (pf\<lparr>revents := 0\<rparr>, sc', s') \<and> table_ok p s' \<and>
    fds (tables s' p) = fds (tables s p) \<and> resources s' = resources s \<and> poll_ret sc' = poll_ret sc \<and>
    length (fd_list sc') = Suc (length (fd_list sc)) \<and> length (fd_nums sc') = length (fd_list sc') \<and>
    length (poll_events sc') = length (fd_list sc')"
proof -
  obtain s1 where s1: "fd_from_fdnum p (pfd pf) s = Inr (Inr (slot p (pfd pf) s), s1)" "table_ok p s1"
      "fds (tables s1 p) = fds (tables s p)" "resources s1 = resources s"
    using fd_from_fdnum_found [OF ok n fd] by blast
  show ?thesis using s1 n room quiet
    by (simp add: poll_one_def Let_def in_range_def arr_push_def)
qed

lemma poll_loop_wait:
  assumes "table_ok p s" "\<forall>pf \<in> set pfs. in_range (pfd pf) \<and> slot p (pfd pf) s \<noteq> 0" "\<forall>r. r_status (resources s r) = 0"
    "length (fd_list sc) + length pfs \<le> MAX_PPOLL_FDS" "length (fd_nums sc) = length (fd_list sc)" "length (poll_events sc) = length (fd_list sc)"
  shows "\<exists>pfs' sc' s'. poll_loop a p i pfs (sc, s) = Inr (pfs', sc', s') \<and> poll_ret sc' = poll_ret sc \<and>
    length (poll_events sc') = length (fd_list sc) + length pfs \<and> table_ok p s' \<and> map pfd pfs' = map pfd pfs"
  using assms
proof (induction pfs arbitrary: i sc s)
  case (Cons pf pfs)
  obtain sc1 s1 where h: "poll_one a p i pf (sc, s) = Inr (pf\<lparr>revents := 0\<rparr>, sc1, s1)" "table_ok p s1"
      "fds (tables s1 p) = fds (tables s p)" "resources s1 = resources s" "poll_ret sc1 = poll_ret sc"
      "length (fd_list sc1) = Suc (length (fd_list sc))" "length (fd_nums sc1) = length (fd_list sc1)"
      "length (poll_events sc1) = length (fd_list sc1)"
    using poll_one_wait [of p s pf sc a i] Cons.prems by auto
  have "\<exists>pfs' sc' s'. poll_loop a p (Suc i) pfs (sc1, s1) = Inr (pfs', sc', s') \<and> poll_ret sc' = poll_ret sc1 \<and>
    length (poll_events sc') = length (fd_list sc1) + length pfs \<and> table_ok p s' \<and> map pfd pfs' = map pfd pfs"
    by (rule Cons.IH) (use Cons.prems h in auto)
  then show ?case using h by auto
qed simp

text \<open>Polling between one and 32 open descriptors none of which is ready waits for their events, and
  for that of the timer when a timeout is given. The array of events has 32 entries: with 32
  descriptors and a timeout the timer's event is stored one entry past its end.\<close>

theorem ppoll_waits_or_overflows:
  fixes s :: "'s files"
  assumes ok: "table_ok p s" and quiet: "\<forall>r. r_status (resources s r) = 0"
    and fd: "list_all (\<lambda>pf. in_range (pfd pf) \<and> slot p (pfd pf) s \<noteq> 0) pfs"
    and len: "0 < length pfs" "length pfs \<le> MAX_PPOLL_FDS" and ev: "ev \<noteq> 0"
  shows "(\<exists>sc pfs' s'. ppoll_begin a p None pfs s = Inr (Poll_wait sc, pfs', s') \<and> length (poll_events sc) = length pfs) \<and>
    (if length pfs = MAX_PPOLL_FDS then ppoll_begin a p (Some ev) pfs s = Inl OutOfBounds
     else \<exists>sc pfs' s'. ppoll_begin a p (Some ev) pfs s = Inr (Poll_wait sc, pfs', s') \<and>
            length (poll_events sc) = Suc (length pfs) \<and> last (poll_events sc) = ev)"
proof -
  have "\<forall>pf \<in> set pfs. in_range (pfd pf) \<and> slot p (pfd pf) s \<noteq> 0" using fd by (simp add: list_all_iff)
  from poll_loop_wait [OF ok this quiet, of "\<lparr>poll_ret = 0, fd_nums = [], fd_list = [], poll_events = []\<rparr>" a 0] len
  obtain pfs' sc s' where "poll_loop a p 0 pfs (\<lparr>poll_ret = 0, fd_nums = [], fd_list = [], poll_events = []\<rparr>, s) = Inr (pfs', sc, s')"
      "poll_ret sc = 0" "length (poll_events sc) = length pfs" by auto
  with len ev show ?thesis by (auto simp: ppoll_begin_def arr_push_def)
qed

theorem ppoll_waits_or_overflows_witness:
  "ppoll_begin linux_abi 1 (Some 0x5000) (replicate 32 \<lparr>pfd = 3, pevents = 1, revents = 0\<rparr>) open_example = Inl OutOfBounds"
proof -
  have "r_status (resources open_example r) = 0" for r by (simp add: open_example_def)
  then show ?thesis
    using ppoll_waits_or_overflows [OF open_example_ok(1) [of 1], of "replicate 32 \<lparr>pfd = 3, pevents = 1, revents = 0\<rparr>" "0x5000" linux_abi]
    by (auto simp: in_range_def MAX_FDS_def MAX_PPOLL_FDS_def open_example_slots list_all_iff)
qed

end
