(* ===== verification/Lyre_Pipe.thy ===== *)
theory Lyre_Pipe
  imports Lyre_Ring Lyre_Resource
begin

text \<open>
  Pipes (\<open>ipc/pipe.c\<close>).  A read or write that finds the pipe empty or full releases the lock and waits
  for the pipe's event; when it is woken it starts again at the loop condition, so one call of
  \<open>pipe_read\<close> or \<open>pipe_write_loop\<close> is one turn of the loop and \<open>Io_wait\<close> means that the caller
  waits.  A wait that a signal interrupts continues with \<open>pipe_interrupted\<close>.  The calls of
  \<open>event_trigger\<close> on the pipe's event are counted in \<open>p_triggers\<close>.
\<close>

subsection \<open>State and operations\<close>

record pipe =
  p_lock :: spinlock
  p_status :: u32
  p_refcount :: u64
  p_triggers :: nat
  p_data :: "u8 list"
  capacity :: u64
  read_ptr :: u64
  write_ptr :: u64
  used :: u64
  reader_count :: u64
  writer_count :: u64

definition PIPE_BUF :: u64 where
  "PIPE_BUF = PAGE_SIZE * 16"

definition p_trigger :: "pipe \<Rightarrow> pipe" where
  "p_trigger p = p\<lparr>p_triggers := p_triggers p + 1\<rparr>"

definition pipe_ref :: "abi \<Rightarrow> u32 \<Rightarrow> pipe \<Rightarrow> pipe result" where
  "pipe_ref a flags p =
     (if flag_on flags (O_RDWR a) then Inl (Panic ''pipe with O_RDWR'')
      else let p1 = (if flag_on flags (O_WRONLY a) then p\<lparr>writer_count := writer_count p + 1\<rparr>
                     else p\<lparr>reader_count := reader_count p + 1\<rparr>)
           in Inr (p_trigger (p1\<lparr>p_refcount := p_refcount p1 + 1\<rparr>)))"

definition pipe_unref :: "abi \<Rightarrow> u32 \<Rightarrow> pipe \<Rightarrow> pipe result" where
  "pipe_unref a flags p =
     (if flag_on flags (O_RDWR a) then Inl (Panic ''pipe with O_RDWR'')
      else let p1 = (if flag_on flags (O_WRONLY a) then p\<lparr>writer_count := writer_count p - 1\<rparr>
                     else p\<lparr>reader_count := reader_count p - 1\<rparr>)
           in Inr (p_trigger (p1\<lparr>p_refcount := p_refcount p1 - 1\<rparr>)))"

definition unlock_pipe :: "pipe \<Rightarrow> pipe" where
  "unlock_pipe p = p\<lparr>p_lock := spinlock_release (p_lock p)\<rparr>"

text \<open>The part of \<open>pipe_read\<close> behind the loop.\<close>

definition pipe_take :: "abi \<Rightarrow> u64 \<Rightarrow> pipe \<Rightarrow> (io \<times> pipe) result" where
  "pipe_take a cnt0 p =
     (let cnt = (if used p < cnt0 then used p else cnt0)
      in rbind (ring_get (p_data p) (capacity p) (read_ptr p) cnt) (\<lambda>(bs, new_ptr).
           let p1 = p\<lparr>read_ptr := new_ptr, used := used p - cnt\<rparr>;
               p2 = (if used p1 = 0 then p1\<lparr>p_status := and (p_status p1) (not (POLLIN a))\<rparr> else p1);
               p3 = (if used p2 < capacity p2 then p2\<lparr>p_status := or (p_status p2) (POLLOUT a)\<rparr> else p2)
           in Inr (Io_done bs, unlock_pipe (p_trigger p3))))"

definition pipe_read :: "abi \<Rightarrow> u32 \<Rightarrow> u64 \<Rightarrow> pipe \<Rightarrow> (io \<times> pipe) result" where
  "pipe_read a flags cnt p0 =
     rbind (spinlock_acquire ''pipe_read'' (p_lock p0)) (\<lambda>l.
       let p = p0\<lparr>p_lock := l\<rparr>
       in if used p = 0
          then if writer_count p = 0 then Inr (Io_done [], unlock_pipe p)
               else if flag_on flags (O_NONBLOCK a) then Inr (Io_done [], unlock_pipe p)
               else Inr (Io_wait, unlock_pipe p)
          else pipe_take a cnt p)"

text \<open>The part of \<open>pipe_write\<close> behind the loop; the result is the number of bytes taken.\<close>

definition pipe_give :: "abi \<Rightarrow> u8 list \<Rightarrow> pipe \<Rightarrow> (io \<times> pipe) result" where
  "pipe_give a bs p =
     (let cnt0 = of_nat (length bs);
          cnt = (if used p + cnt0 > capacity p then capacity p - used p else cnt0);
          taken_bytes = take (unat cnt) bs
      in rbind (ring_put (p_data p) (capacity p) (write_ptr p) taken_bytes) (\<lambda>(d, new_ptr).
           let p1 = p\<lparr>p_data := d, write_ptr := new_ptr, used := used p + cnt\<rparr>;
               p2 = (if used p1 = capacity p1 then p1\<lparr>p_status := and (p_status p1) (not (POLLOUT a))\<rparr> else p1);
               p3 = p2\<lparr>p_status := or (p_status p2) (POLLIN a)\<rparr>
           in Inr (Io_done taken_bytes, unlock_pipe (p_trigger p3))))"

definition pipe_write_loop :: "abi \<Rightarrow> u8 list \<Rightarrow> pipe \<Rightarrow> (io \<times> pipe) result" where
  "pipe_write_loop a bs p =
     (if used p = capacity p then Inr (Io_wait, unlock_pipe p) else pipe_give a bs p)"

definition pipe_write :: "abi \<Rightarrow> u8 list \<Rightarrow> pipe \<Rightarrow> (io \<times> pipe) result" where
  "pipe_write a bs p0 =
     rbind (spinlock_acquire ''pipe_write'' (p_lock p0)) (\<lambda>l.
       let p = p0\<lparr>p_lock := l\<rparr>
       in if reader_count p = 0 then Inr (Io_error EPIPE, unlock_pipe p) else pipe_write_loop a bs p)"

text \<open>Resuming a write after the event: the lock is taken again and the loop condition tested.\<close>

definition pipe_write_resume :: "abi \<Rightarrow> u8 list \<Rightarrow> pipe \<Rightarrow> (io \<times> pipe) result" where
  "pipe_write_resume a bs p0 =
     rbind (spinlock_acquire ''pipe_write'' (p_lock p0)) (\<lambda>l. pipe_write_loop a bs (p0\<lparr>p_lock := l\<rparr>))"

text \<open>When the wait is interrupted, both jump to the end of the function, which releases the lock.\<close>

definition pipe_interrupted :: "pipe \<Rightarrow> io \<times> pipe" where
  "pipe_interrupted p = (Io_error EINTR, unlock_pipe p)"

text \<open>\<open>pipe_create\<close> with what \<open>resource_create\<close> and \<open>alloc\<close> return.\<close>

definition pipe_create :: "bool \<Rightarrow> u8 list option \<Rightarrow> pipe option" where
  "pipe_create res_ok block =
     (if \<not> res_ok then None
      else case block of
             None \<Rightarrow> None
           | Some d \<Rightarrow> Some \<lparr>p_lock = SPINLOCK_INIT, p_status = 0, p_refcount = 0, p_triggers = 0, p_data = d,
               capacity = PIPE_BUF, read_ptr = 0, write_ptr = 0, used = 0, reader_count = 0, writer_count = 0\<rparr>)"

text \<open>
  The system call on the descriptors of \<open>Lyre_Resource\<close>: \<open>res\<close> is the resource \<open>pipe_create\<close> put at \<open>pa\<close>, zero when it
  failed; \<open>d1\<close>, \<open>f1\<close>, \<open>d2\<close> and \<open>f2\<close> are the addresses of the two descriptions and descriptors.
\<close>

definition syscall_pipe :: "abi \<Rightarrow> u64 \<Rightarrow> 's resource \<Rightarrow> u64 \<Rightarrow> u64 \<Rightarrow> u64 \<Rightarrow> u64 \<Rightarrow> u64 \<Rightarrow> u32 \<Rightarrow> 's files \<Rightarrow> ('s, int \<times> int) fdcall" where
  "syscall_pipe a pa res d1 f1 d2 f2 proc flags s =
     (if pa = 0 then Inr (Inl None, s)
      else rbind (fdnum_create_from_resource a d1 f1 proc pa flags 0 False (on_resource pa (\<lambda>_. res) s)) (\<lambda>(r, s1).
        case r of
          Inl e \<Rightarrow> Inr (Inl e, free pa s1)
        | Inr read_fd \<Rightarrow>
            rbind (fdnum_create_from_resource a d2 f2 proc pa (or flags (O_WRONLY a)) 0 False s1) (\<lambda>(r', s2).
              case r' of
                Inl e \<Rightarrow> Inr (Inl e, free pa s2)
              | Inr write_fd \<Rightarrow> Inr (Inr (read_fd, write_fd), s2))))"

subsection \<open>Specification\<close>

definition ring_ok :: "pipe \<Rightarrow> bool" where
  "ring_ok p \<longleftrightarrow> 0 < unat (capacity p) \<and> unat (capacity p) < 9223372036854775808 \<and>
     length (p_data p) = unat (capacity p) \<and> unat (read_ptr p) < unat (capacity p) \<and>
     unat (used p) \<le> unat (capacity p) \<and>
     unat (write_ptr p) = (unat (read_ptr p) + unat (used p)) mod unat (capacity p)"

definition pipe_wf :: "pipe \<Rightarrow> bool" where
  "pipe_wf p \<longleftrightarrow> unlocked (p_lock p) \<and> ring_ok p"

definition pipe_bytes :: "pipe \<Rightarrow> u8 list" where
  "pipe_bytes p = ring_seq (p_data p) (unat (read_ptr p)) (unat (used p))"

definition pipe_room :: "pipe \<Rightarrow> nat" where
  "pipe_room p = unat (capacity p) - unat (used p)"

lemma length_pipe_bytes [simp]: "length (pipe_bytes p) = unat (used p)"
  by (simp add: pipe_bytes_def)

lemma unlock_pipe_simps [simp]:
  "p_status (unlock_pipe p) = p_status p" "p_data (unlock_pipe p) = p_data p" "capacity (unlock_pipe p) = capacity p"
  "read_ptr (unlock_pipe p) = read_ptr p" "write_ptr (unlock_pipe p) = write_ptr p" "used (unlock_pipe p) = used p"
  "reader_count (unlock_pipe p) = reader_count p" "writer_count (unlock_pipe p) = writer_count p"
  "unlocked (p_lock (unlock_pipe p))"
  by (simp_all add: unlock_pipe_def)

lemma p_trigger_simps [simp]:
  "p_status (p_trigger p) = p_status p" "p_data (p_trigger p) = p_data p" "capacity (p_trigger p) = capacity p"
  "read_ptr (p_trigger p) = read_ptr p" "write_ptr (p_trigger p) = write_ptr p" "used (p_trigger p) = used p"
  "reader_count (p_trigger p) = reader_count p" "writer_count (p_trigger p) = writer_count p"
  by (simp_all add: p_trigger_def)

text \<open>The poll flags agree with the fill level.\<close>

definition poll_ok :: "abi \<Rightarrow> pipe \<Rightarrow> bool" where
  "poll_ok a p \<longleftrightarrow> (flag_on (p_status p) (POLLIN a) \<longleftrightarrow> used p \<noteq> 0) \<and>
     (flag_on (p_status p) (POLLOUT a) \<longleftrightarrow> used p \<noteq> capacity p)"

subsection \<open>Reading and writing the ring\<close>

lemma ring_ok_lock [simp]: "ring_ok (p\<lparr>p_lock := l\<rparr>) = ring_ok p" "ring_ok (unlock_pipe p) = ring_ok p"
  by (simp_all add: ring_ok_def)

lemma pipe_wf_unlock [simp]: "pipe_wf (unlock_pipe p) = ring_ok p"
  by (simp add: pipe_wf_def)

lemma pipe_bytes_lock [simp]:
  "pipe_bytes (p\<lparr>p_lock := l\<rparr>) = pipe_bytes p" "pipe_bytes (unlock_pipe p) = pipe_bytes p"
  "pipe_room (p\<lparr>p_lock := l\<rparr>) = pipe_room p" "pipe_room (unlock_pipe p) = pipe_room p"
  by (simp_all add: pipe_bytes_def pipe_room_def)

lemma poll_ok_lock [simp]: "poll_ok a (p\<lparr>p_lock := l\<rparr>) = poll_ok a p" "poll_ok a (unlock_pipe p) = poll_ok a p"
  "poll_ok a (p_trigger p) = poll_ok a p"
  by (simp_all add: poll_ok_def)

lemma pipe_take_spec:
  assumes wf: "ring_ok p" and abi: "abi_ok a"
  shows "\<exists>p'. pipe_take a n p = Inr (Io_done (take (unat n) (pipe_bytes p)), p') \<and> pipe_wf p' \<and>
    pipe_bytes p' = drop (unat n) (pipe_bytes p) \<and> capacity p' = capacity p \<and>
    pipe_room p' = pipe_room p + min (unat n) (unat (used p)) \<and>
    reader_count p' = reader_count p \<and> writer_count p' = writer_count p \<and> (used p \<noteq> 0 \<longrightarrow> poll_ok a p \<longrightarrow> poll_ok a p')"
proof -
  define k where "k = (if used p < n then used p else n)"
  have k: "unat k = min (unat n) (unat (used p))" by (auto simp: k_def word_less_nat_alt)
  have W: "length (p_data p) = unat (capacity p)" "unat (read_ptr p) < unat (capacity p)"
    "unat (capacity p) < 9223372036854775808" "unat (used p) \<le> unat (capacity p)"
    "unat (write_ptr p) = (unat (read_ptr p) + unat (used p)) mod unat (capacity p)" "0 < unat (capacity p)"
    using wf by (auto simp: ring_ok_def)
  have kc: "unat k \<le> unat (capacity p)" using k W(4) by simp
  obtain np where np: "ring_get (p_data p) (capacity p) (read_ptr p) k = Inr (ring_seq (p_data p) (unat (read_ptr p)) (unat k), np)"
    "unat np = (unat (read_ptr p) + unat k) mod unat (capacity p)"
    using ring_get_seq [OF W(1,2) kc W(3)] by blast
  define p1 where "p1 = p\<lparr>read_ptr := np, used := used p - k\<rparr>"
  define p2 where "p2 = (if used p1 = 0 then p1\<lparr>p_status := and (p_status p1) (not (POLLIN a))\<rparr> else p1)"
  define p3 where "p3 = (if used p2 < capacity p2 then p2\<lparr>p_status := or (p_status p2) (POLLOUT a)\<rparr> else p2)"
  define p' where "p' = unlock_pipe (p_trigger p3)"
  have run: "pipe_take a n p = Inr (Io_done (ring_seq (p_data p) (unat (read_ptr p)) (unat k)), p')"
    unfolding pipe_take_def Let_def k_def [symmetric] np(1) rbind_Inr prod.case p1_def [symmetric]
      p2_def [symmetric] p3_def [symmetric] p'_def by (rule refl)
  have f: "p_data p' = p_data p" "capacity p' = capacity p" "read_ptr p' = np" "write_ptr p' = write_ptr p"
    "used p' = used p - k" "reader_count p' = reader_count p" "writer_count p' = writer_count p" "unlocked (p_lock p')"
    by (simp_all add: p'_def p3_def p2_def p1_def)
  have uk: "unat (used p - k) = unat (used p) - unat k" using k by (intro unat_sub_small) simp
  have "(unat np + (unat (used p) - unat k)) mod unat (capacity p) = unat (write_ptr p)"
  proof -
    have "unat k \<le> unat (used p)" using k by simp
    then show ?thesis unfolding np(2) W(5) mod_add_left_eq by simp
  qed
  then have wf': "pipe_wf p'" using W f uk np(2) by (simp add: pipe_wf_def ring_ok_def)
  have out: "ring_seq (p_data p) (unat (read_ptr p)) (unat k) = take (unat n) (pipe_bytes p)"
    using ring_seq_take [of "unat k" "unat (used p)" "p_data p" "unat (read_ptr p)"] k
    by (simp add: pipe_bytes_def take_all_iff min_def split: if_splits)
  have "pipe_bytes p' = drop (unat k) (pipe_bytes p)"
    using ring_seq_drop [of "unat k" "unat (used p)" "p_data p" "unat (read_ptr p)"] k uk np(2) W(1)
    by (simp add: pipe_bytes_def f)
  then have rest: "pipe_bytes p' = drop (unat n) (pipe_bytes p)" using k by (cases "unat n \<le> unat (used p)") auto
  have room: "pipe_room p' = pipe_room p + min (unat n) (unat (used p))"
    using k uk W(4) by (simp add: pipe_room_def f)
  have "poll_ok a p'" if "used p \<noteq> 0" and old: "poll_ok a p"
  proof -
    have d: "POLLIN a \<noteq> 0" "POLLOUT a \<noteq> 0" "and (POLLIN a) (POLLOUT a) = 0" "and (POLLOUT a) (POLLIN a) = 0"
      using abi by (auto simp: abi_ok_def and.commute)
    have "used p - k \<noteq> capacity p \<longleftrightarrow> used p - k < capacity p"
      using uk W(4) by (auto simp: word_less_nat_alt word_unat_eq_iff)
    moreover have "used p \<noteq> capacity p \<Longrightarrow> used p - k < capacity p"
      using uk W(4) by (auto simp: word_less_nat_alt word_unat_eq_iff)
    ultimately show ?thesis using old \<open>used p \<noteq> 0\<close> d
      by (auto simp: poll_ok_def p'_def p3_def p2_def p1_def flag_on_other)
  qed
  then show ?thesis using run out wf' rest f room by auto
qed

lemma pipe_give_spec:
  assumes wf: "ring_ok p" and abi: "abi_ok a" and len: "length bs < 9223372036854775808"
  shows "\<exists>p'. pipe_give a bs p = Inr (Io_done (take (pipe_room p) bs), p') \<and> pipe_wf p' \<and>
    pipe_bytes p' = pipe_bytes p @ take (pipe_room p) bs \<and> capacity p' = capacity p \<and>
    pipe_room p' = pipe_room p - min (length bs) (pipe_room p) \<and>
    reader_count p' = reader_count p \<and> writer_count p' = writer_count p \<and>
    (bs \<noteq> [] \<longrightarrow> used p \<noteq> capacity p \<longrightarrow> poll_ok a p \<longrightarrow> poll_ok a p')"
proof -
  have W: "length (p_data p) = unat (capacity p)" "unat (read_ptr p) < unat (capacity p)"
    "unat (capacity p) < 9223372036854775808" "unat (used p) \<le> unat (capacity p)"
    "unat (write_ptr p) = (unat (read_ptr p) + unat (used p)) mod unat (capacity p)" "0 < unat (capacity p)"
    using wf by (auto simp: ring_ok_def)
  have un: "unat (of_nat (length bs) :: u64) = length bs" using len by (intro unat_of_nat_small) linarith
  have us: "unat (used p + of_nat (length bs)) = unat (used p) + length bs"
    using W(3,4) len un unat_add_small [of "used p" "of_nat (length bs)"] by simp
  define k where "k = (if used p + of_nat (length bs) > capacity p then capacity p - used p else of_nat (length bs))"
  have k: "unat k = min (length bs) (pipe_room p)"
    using W(4) us un by (auto simp: k_def pipe_room_def word_less_nat_alt unat_sub_small)
  define tb where "tb = take (unat k) bs"
  have tb: "length tb = min (length bs) (pipe_room p)" "tb = take (pipe_room p) bs"
    by (auto simp: tb_def k min_def)
  have ul: "unat (used p) + length tb \<le> unat (capacity p)" using tb W(4) by (simp add: pipe_room_def)
  have wl: "unat (write_ptr p) < unat (capacity p)" using W(5,6) by simp
  obtain np where np: "ring_put (p_data p) (capacity p) (write_ptr p) tb = Inr (ring_write (p_data p) (unat (write_ptr p)) tb, np)"
    "unat np = (unat (write_ptr p) + length tb) mod unat (capacity p)"
    using ring_put_write [OF W(1) wl _ W(3), of tb] ul by auto
  define p1 where "p1 = p\<lparr>p_data := ring_write (p_data p) (unat (write_ptr p)) tb, write_ptr := np, used := used p + k\<rparr>"
  define p2 where "p2 = (if used p1 = capacity p1 then p1\<lparr>p_status := and (p_status p1) (not (POLLOUT a))\<rparr> else p1)"
  define p3 where "p3 = p2\<lparr>p_status := or (p_status p2) (POLLIN a)\<rparr>"
  define p' where "p' = unlock_pipe (p_trigger p3)"
  have run: "pipe_give a bs p = Inr (Io_done tb, p')"
    unfolding pipe_give_def Let_def k_def [symmetric] tb_def [symmetric] np(1) rbind_Inr prod.case
      p1_def [symmetric] p2_def [symmetric] p3_def [symmetric] p'_def by (rule refl)
  have f: "p_data p' = ring_write (p_data p) (unat (write_ptr p)) tb" "capacity p' = capacity p"
    "read_ptr p' = read_ptr p" "write_ptr p' = np" "used p' = used p + k" "reader_count p' = reader_count p"
    "writer_count p' = writer_count p" "unlocked (p_lock p')"
    by (simp_all add: p'_def p3_def p2_def p1_def)
  have ltb: "length tb = unat k" using k tb by simp
  have uk: "unat (used p + k) = unat (used p) + length tb"
    unfolding ltb using ul W(3) ltb by (intro unat_add_small) linarith
  have "unat np = (unat (read_ptr p) + (unat (used p) + length tb)) mod unat (capacity p)"
    by (simp add: np(2) W(5) mod_add_left_eq add.assoc)
  then have wf': "pipe_wf p'" using W f uk ul by (simp add: pipe_wf_def ring_ok_def)
  have bytes: "pipe_bytes p' = pipe_bytes p @ tb"
    using ring_seq_write [of "unat (read_ptr p)" "p_data p" "unat (used p)" tb] W ul uk
    by (simp add: pipe_bytes_def f)
  have room: "pipe_room p' = pipe_room p - min (length bs) (pipe_room p)"
    using uk tb(1) by (simp add: pipe_room_def f)
  have "poll_ok a p'" if "bs \<noteq> []" "used p \<noteq> capacity p" and old: "poll_ok a p"
  proof -
    have d: "POLLIN a \<noteq> 0" "POLLOUT a \<noteq> 0" "and (POLLIN a) (POLLOUT a) = 0" "and (POLLOUT a) (POLLIN a) = 0"
      using abi by (auto simp: abi_ok_def and.commute)
    have "unat (used p) \<noteq> unat (capacity p)" using that(2) by (simp add: word_unat_eq_iff)
    then have "0 < pipe_room p" using W(4) by (simp add: pipe_room_def)
    then have "0 < length tb" unfolding tb(1) using that(1) by simp
    then have "used p + k \<noteq> 0" using uk by (metis add_is_0 less_numeral_extra(3) unat_0)
    then show ?thesis using old that(2) d
      by (auto simp: poll_ok_def p'_def p3_def p2_def p1_def flag_on_other)
  qed
  then show ?thesis using run tb(2) wf' bytes f room by auto
qed

subsection \<open>A pipe is a queue of bytes\<close>

text \<open>One turn of a reader that does not wait and one turn of a writer with a reader present.\<close>

definition pipe_put :: "abi \<Rightarrow> u8 list \<Rightarrow> pipe \<Rightarrow> (nat \<times> pipe) result" where
  "pipe_put a bs p = rbind (pipe_write_resume a bs p) (\<lambda>(r, p').
     Inr (case r of Io_done cs \<Rightarrow> length cs | _ \<Rightarrow> 0, p'))"

definition pipe_get :: "abi \<Rightarrow> u64 \<Rightarrow> pipe \<Rightarrow> (u8 list \<times> pipe) result" where
  "pipe_get a n p = rbind (pipe_read a (O_NONBLOCK a) n p) (\<lambda>(r, p').
     Inr (case r of Io_done cs \<Rightarrow> cs | _ \<Rightarrow> [], p'))"

lemma pipe_read_spec:
  assumes wf: "pipe_wf p" and abi: "abi_ok a"
  shows "\<exists>r p'. pipe_read a flags n p = Inr (r, p') \<and> pipe_wf p' \<and>
    (if used p \<noteq> 0 then r = Io_done (take (unat n) (pipe_bytes p)) \<and> pipe_bytes p' = drop (unat n) (pipe_bytes p)
     else pipe_bytes p' = [] \<and> r = (if writer_count p = 0 \<or> flag_on flags (O_NONBLOCK a) then Io_done [] else Io_wait)) \<and>
    pipe_room p' = pipe_room p + min (unat n) (unat (used p)) \<and> (poll_ok a p \<longrightarrow> poll_ok a p') \<and>
    reader_count p' = reader_count p \<and> writer_count p' = writer_count p"
proof (cases "used p = 0")
  case True
  then have "pipe_bytes p = []" by (simp add: pipe_bytes_def ring_seq_def)
  with True wf show ?thesis by (auto simp: pipe_read_def klock pipe_wf_def Let_def)
next
  case False
  define q where "q = p\<lparr>p_lock := (p_lock p)\<lparr>lock_word := 1, last_acquirer := ''pipe_read''\<rparr>\<rparr>"
  have q: "ring_ok q" "pipe_bytes q = pipe_bytes p" "used q = used p" "pipe_room q = pipe_room p"
    "poll_ok a q = poll_ok a p" "reader_count q = reader_count p" "writer_count q = writer_count p"
    using wf by (auto simp: q_def pipe_wf_def)
  have "pipe_read a flags n p = pipe_take a n q"
    using wf False by (simp add: pipe_read_def klock pipe_wf_def Let_def q_def)
  with pipe_take_spec [OF q(1) abi, of n] q False show ?thesis by auto
qed

lemma pipe_write_loop_spec:
  assumes wf: "ring_ok p" and abi: "abi_ok a" and len: "length bs < 9223372036854775808"
  shows "\<exists>r p'. pipe_write_loop a bs p = Inr (r, p') \<and> pipe_wf p' \<and>
    (if pipe_room p \<noteq> 0 then r = Io_done (take (pipe_room p) bs) else r = Io_wait) \<and>
    pipe_bytes p' = pipe_bytes p @ take (pipe_room p) bs \<and>
    pipe_room p' = pipe_room p - min (length bs) (pipe_room p) \<and> (bs \<noteq> [] \<longrightarrow> poll_ok a p \<longrightarrow> poll_ok a p') \<and>
    reader_count p' = reader_count p \<and> writer_count p' = writer_count p"
proof (cases "used p = capacity p")
  case True
  then show ?thesis using wf by (auto simp: pipe_write_loop_def pipe_room_def)
next
  case False
  then have "pipe_room p \<noteq> 0"
    using wf by (auto simp: pipe_room_def ring_ok_def word_unat_eq_iff)
  with False pipe_give_spec [OF assms] show ?thesis by (auto simp: pipe_write_loop_def)
qed

interpretation pipe: byte_queue "\<lambda>p. pipe_wf p \<and> abi_ok a" pipe_bytes pipe_room "pipe_put a" "pipe_get a" for a
proof unfold_locales
  fix p :: pipe and bs :: "u8 list"
  assume p: "pipe_wf p \<and> abi_ok a" and len: "length bs < 9223372036854775808"
  define q where "q = p\<lparr>p_lock := (p_lock p)\<lparr>lock_word := 1, last_acquirer := ''pipe_write''\<rparr>\<rparr>"
  have q: "ring_ok q" "pipe_bytes q = pipe_bytes p" "pipe_room q = pipe_room p" using p by (auto simp: q_def pipe_wf_def)
  have "pipe_write_resume a bs p = pipe_write_loop a bs q"
    using p by (simp add: pipe_write_resume_def klock pipe_wf_def q_def)
  with pipe_write_loop_spec [OF q(1) _ len, of a] p q(2,3)
  show "\<exists>p'. pipe_put a bs p = Inr (min (length bs) (pipe_room p), p') \<and> (pipe_wf p' \<and> abi_ok a) \<and>
    pipe_bytes p' = pipe_bytes p @ take (pipe_room p) bs \<and> pipe_room p' = pipe_room p - min (length bs) (pipe_room p)"
    by (auto simp: pipe_put_def split: if_splits)
next
  fix p :: pipe and n
  assume p: "pipe_wf p \<and> abi_ok a"
  have on: "flag_on (O_NONBLOCK a) (O_NONBLOCK a)" using p by (simp add: flag_on_def abi_ok_def)
  have "used p = 0 \<Longrightarrow> pipe_bytes p = []" by (simp add: pipe_bytes_def ring_seq_def)
  with pipe_read_spec [of p a "O_NONBLOCK a" n] p on
  show "\<exists>p'. pipe_get a n p = Inr (take (unat n) (pipe_bytes p), p') \<and> (pipe_wf p' \<and> abi_ok a) \<and>
    pipe_bytes p' = drop (unat n) (pipe_bytes p) \<and> pipe_room p' = pipe_room p + min (unat n) (length (pipe_bytes p))"
    by (auto simp: pipe_get_def split: if_splits)
next
  fix p :: pipe
  assume "pipe_wf p \<and> abi_ok a"
  then show "length (pipe_bytes p) + pipe_room p < 9223372036854775808"
    by (auto simp: pipe_wf_def ring_ok_def pipe_room_def)
qed

subsection \<open>Properties\<close>

lemma pipe_write_spec:
  assumes wf: "pipe_wf p" and abi: "abi_ok a" and len: "length bs < 9223372036854775808"
  shows "\<exists>r p'. pipe_write a bs p = Inr (r, p') \<and> pipe_wf p' \<and>
    (if reader_count p = 0 then r = Io_error EPIPE \<and> pipe_bytes p' = pipe_bytes p
     else r = (if pipe_room p = 0 then Io_wait else Io_done (take (pipe_room p) bs)) \<and>
       pipe_bytes p' = pipe_bytes p @ take (pipe_room p) bs) \<and>
    (bs \<noteq> [] \<longrightarrow> poll_ok a p \<longrightarrow> poll_ok a p')"
proof (cases "reader_count p = 0")
  case True
  then show ?thesis using wf by (auto simp: pipe_write_def klock pipe_wf_def Let_def)
next
  case False
  define q where "q = p\<lparr>p_lock := (p_lock p)\<lparr>lock_word := 1, last_acquirer := ''pipe_write''\<rparr>\<rparr>"
  have q: "ring_ok q" "pipe_bytes q = pipe_bytes p" "pipe_room q = pipe_room p" "poll_ok a q = poll_ok a p"
    using wf by (auto simp: q_def pipe_wf_def)
  have "pipe_write a bs p = pipe_write_loop a bs q"
    using wf False by (simp add: pipe_write_def klock pipe_wf_def q_def Let_def)
  with pipe_write_loop_spec [OF q(1) abi len] q False show ?thesis by auto
qed

lemma pipe_write_resume_spec:
  assumes wf: "pipe_wf p" and abi: "abi_ok a" and len: "length bs < 9223372036854775808"
  shows "\<exists>r p'. pipe_write_resume a bs p = Inr (r, p') \<and> pipe_wf p' \<and>
    r = (if pipe_room p = 0 then Io_wait else Io_done (take (pipe_room p) bs)) \<and>
    pipe_bytes p' = pipe_bytes p @ take (pipe_room p) bs \<and> (bs \<noteq> [] \<longrightarrow> poll_ok a p \<longrightarrow> poll_ok a p')"
proof -
  define q where "q = p\<lparr>p_lock := (p_lock p)\<lparr>lock_word := 1, last_acquirer := ''pipe_write''\<rparr>\<rparr>"
  have q: "ring_ok q" "pipe_bytes q = pipe_bytes p" "pipe_room q = pipe_room p" "poll_ok a q = poll_ok a p"
    using wf by (auto simp: q_def pipe_wf_def)
  have "pipe_write_resume a bs p = pipe_write_loop a bs q"
    using wf by (simp add: pipe_write_resume_def klock pipe_wf_def q_def)
  with pipe_write_loop_spec [OF q(1) abi len] q show ?thesis by auto
qed

lemma pipe_room_zero: "ring_ok p \<Longrightarrow> pipe_room p = 0 \<longleftrightarrow> used p = capacity p"
  by (auto simp: pipe_room_def ring_ok_def word_unat_eq_iff)

text \<open>A write of no bytes still sets the flag for readers.\<close>

lemma pipe_write_nothing:
  assumes wf: "pipe_wf p" and abi: "abi_ok a" and rd: "reader_count p \<noteq> 0" and room: "pipe_room p \<noteq> 0"
    and run: "pipe_write a [] p = Inr (r, p')"
  shows "p_status p' = or (p_status p) (POLLIN a)"
proof -
  have c: "capacity p \<noteq> 0" "unat (write_ptr p) < length (p_data p)"
    "length (p_data p) = unat (capacity p)" "used p \<noteq> capacity p" "used p \<le> capacity p"
    using wf room pipe_room_zero [of p] by (auto simp: pipe_wf_def ring_ok_def unat_gt_0 word_le_nat_alt)
  have "\<not> write_ptr p > capacity p" "write_ptr p \<noteq> capacity p"
    using c(2,3) by (auto simp: word_less_nat_alt)
  then have "ring_put (p_data p) (capacity p) (write_ptr p) [] = Inr (p_data p, write_ptr p)"
    using c by (simp add: ring_put_def ring_split_def splice_def)
  with run wf rd c show ?thesis
    by (auto simp: pipe_write_def klock pipe_wf_def Let_def pipe_write_loop_def pipe_give_def
        unlock_pipe_def p_trigger_def not_less split: if_splits)
qed

text \<open>
  C24. Reading and writing a pipe, turn by turn of their loops, none of which faults.
  A read of a pipe with data returns the oldest bytes and takes them out; of an empty one it returns
  nothing when there is no writer or it must not block, and waits otherwise.
  A write without readers fails with \<open>EPIPE\<close>; otherwise it appends as many bytes as there is room
  for, or waits when there is none. A write that was woken does the same without asking for readers
  again. All of these leave the lock free, and poll flags that agreed with the fill level still do,
  with one exception: a write of no bytes that does not wait marks the pipe readable.
  A wait that a signal interrupts fails with \<open>EINTR\<close> and changes neither data nor flags, but it
  opens the lock, which the thread released before it waited and another one may hold by then.
\<close>

theorem pipe_read_write_correct:
  assumes "pipe_wf p" and "abi_ok a" and "length bs < 9223372036854775808"
  shows "(\<exists>r p'. pipe_read a flags n p = Inr (r, p') \<and> pipe_wf p' \<and>
    (if used p \<noteq> 0 then r = Io_done (take (unat n) (pipe_bytes p)) \<and> pipe_bytes p' = drop (unat n) (pipe_bytes p)
     else pipe_bytes p' = [] \<and> r = (if writer_count p = 0 \<or> flag_on flags (O_NONBLOCK a) then Io_done [] else Io_wait)) \<and>
    (poll_ok a p \<longrightarrow> poll_ok a p')) \<and>
   (\<exists>r p'. pipe_write a bs p = Inr (r, p') \<and> pipe_wf p' \<and>
    (if reader_count p = 0 then r = Io_error EPIPE \<and> pipe_bytes p' = pipe_bytes p
     else r = (if pipe_room p = 0 then Io_wait else Io_done (take (pipe_room p) bs)) \<and>
       pipe_bytes p' = pipe_bytes p @ take (pipe_room p) bs) \<and>
    (bs \<noteq> [] \<longrightarrow> poll_ok a p \<longrightarrow> poll_ok a p') \<and>
    (bs = [] \<longrightarrow> p_status p' = (if reader_count p = 0 \<or> pipe_room p = 0 then p_status p else or (p_status p) (POLLIN a)))) \<and>
   (\<exists>r p'. pipe_write_resume a bs p = Inr (r, p') \<and> pipe_wf p' \<and>
    r = (if pipe_room p = 0 then Io_wait else Io_done (take (pipe_room p) bs)) \<and>
    pipe_bytes p' = pipe_bytes p @ take (pipe_room p) bs \<and> (bs \<noteq> [] \<longrightarrow> poll_ok a p \<longrightarrow> poll_ok a p')) \<and>
   (\<exists>q'. pipe_interrupted q = (Io_error EINTR, q') \<and> q' = q\<lparr>p_lock := p_lock q'\<rparr> \<and> unlocked (p_lock q'))"
proof -
  obtain r p' where w: "pipe_write a bs p = Inr (r, p')" using pipe_write_spec [OF assms] by blast
  have stay: "p_status p' = p_status p" if "reader_count p = 0 \<or> pipe_room p = 0"
    using w assms(1) that pipe_room_zero [of p]
    by (auto simp: pipe_write_def klock pipe_wf_def Let_def pipe_write_loop_def split: if_splits)
  have "bs = [] \<longrightarrow> p_status p' = (if reader_count p = 0 \<or> pipe_room p = 0 then p_status p else or (p_status p) (POLLIN a))"
    using stay pipe_write_nothing [OF assms(1,2)] w by auto
  moreover have "pipe_interrupted q = (Io_error EINTR, unlock_pipe q) \<and>
      unlock_pipe q = q\<lparr>p_lock := p_lock (unlock_pipe q)\<rparr> \<and> unlocked (p_lock (unlock_pipe q))"
    by (simp add: pipe_interrupted_def) (simp add: unlock_pipe_def)
  moreover note pipe_read_spec [OF assms(1,2), of flags n] pipe_write_resume_spec [OF assms]
  moreover have "\<exists>r p''. pipe_write a bs p = Inr (r, p'') \<and> pipe_wf p'' \<and>
    (if reader_count p = 0 then r = Io_error EPIPE \<and> pipe_bytes p'' = pipe_bytes p
     else r = (if pipe_room p = 0 then Io_wait else Io_done (take (pipe_room p) bs)) \<and>
       pipe_bytes p'' = pipe_bytes p @ take (pipe_room p) bs) \<and>
    (bs \<noteq> [] \<longrightarrow> poll_ok a p \<longrightarrow> poll_ok a p'') \<and> p'' = p'"
    using pipe_write_spec [OF assms] w by simp
  ultimately show ?thesis by blast
qed

definition pipe_example :: pipe where
  "pipe_example = \<lparr>p_lock = SPINLOCK_INIT, p_status = 0, p_refcount = 2, p_triggers = 0, p_data = [1, 2, 3, 4],
     capacity = 4, read_ptr = 3, write_ptr = 1, used = 2, reader_count = 1, writer_count = 1\<rparr>"

lemma pipe_example_ok: "pipe_wf pipe_example" "pipe_bytes pipe_example = [4, 1]" "pipe_room pipe_example = 2"
  by (simp_all add: pipe_wf_def ring_ok_def pipe_example_def pipe_bytes_def ring_seq_def pipe_room_def upt_rec)

theorem pipe_read_write_correct_witness:
  "(\<exists>p'. pipe_read linux_abi 0 1 pipe_example = Inr (Io_done [4], p') \<and> pipe_bytes p' = [1]) \<and>
   (\<exists>p'. pipe_write linux_abi [7, 8, 9] pipe_example = Inr (Io_done [7, 8], p') \<and> pipe_bytes p' = [4, 1, 7, 8]) \<and>
   (\<exists>q'. pipe_interrupted (pipe_example\<lparr>p_lock := SPINLOCK_INIT\<lparr>lock_word := 1\<rparr>\<rparr>) = (Io_error EINTR, q') \<and>
     unlocked (p_lock q'))"
proof -
  have f: "used pipe_example = 2" "reader_count pipe_example = 1" by (simp_all add: pipe_example_def)
  from pipe_read_write_correct [OF pipe_example_ok(1) linux_abi_ok, of "[7, 8, 9]" 0 1
      "pipe_example\<lparr>p_lock := SPINLOCK_INIT\<lparr>lock_word := 1\<rparr>\<rparr>"] f pipe_example_ok(2,3)
  show ?thesis by auto
qed

text \<open>
  C25. First in, first out across the wrap-around: what two writers put into a pipe with room for
  both comes out behind what was there, in order, and the pipe is empty with all its room back.
\<close>

theorem pipe_is_fifo:
  assumes "pipe_wf p \<and> abi_ok a" and "length as + length bs \<le> pipe_room p"
  shows "\<exists>p1 p2 p3. pipe_put a as p = Inr (length as, p1) \<and> pipe_put a bs p1 = Inr (length bs, p2) \<and>
    pipe_get a (of_nat (length (pipe_bytes p) + length as + length bs)) p2 = Inr (pipe_bytes p @ as @ bs, p3) \<and>
    (pipe_wf p3 \<and> abi_ok a) \<and> pipe_bytes p3 = [] \<and> pipe_room p3 = pipe_room p + length (pipe_bytes p)"
  by (rule pipe.fifo [OF assms])

theorem pipe_is_fifo_witness:
  "\<exists>p1 p2 p3. pipe_put linux_abi [7] pipe_example = Inr (1, p1) \<and> pipe_put linux_abi [8] p1 = Inr (1, p2) \<and>
    pipe_get linux_abi 4 p2 = Inr ([4, 1, 7, 8], p3) \<and> pipe_bytes p3 = []"
  using pipe_is_fifo [of pipe_example linux_abi "[7]" "[8]"] pipe_example_ok linux_abi_ok by auto

text \<open>
  What the pipe gets wrong: a new pipe is empty and has all its room, but its poll flags say that
  it cannot be written; a write of no bytes to an empty pipe marks it readable; and a wait that is
  interrupted releases the lock it no longer holds, even when another CPU holds it.
\<close>

theorem pipe_flag_and_lock_defects:
  assumes "pipe_create True (Some d) = Some p" and "length d = unat PIPE_BUF" and "abi_ok a" and "reader_count q \<noteq> 0"
    and "pipe_wf q" and "used q = 0"
  shows "pipe_wf p \<and> pipe_room p = 65536 \<and> \<not> flag_on (p_status p) (POLLOUT a) \<and>
    (\<exists>q'. pipe_write a [] q = Inr (Io_done [], q') \<and> used q' = 0 \<and> flag_on (p_status q') (POLLIN a)) \<and>
    unlocked (p_lock (snd (pipe_interrupted (r\<lparr>p_lock := held\<rparr>))))"
proof -
  have p: "p_lock p = SPINLOCK_INIT" "capacity p = 65536" "p_data p = d" "read_ptr p = 0" "write_ptr p = 0" "used p = 0"
    "p_status p = 0"
    using assms(1) by (auto simp: pipe_create_def PIPE_BUF_def PAGE_SIZE_def)
  have "length d = 65536" using assms(2) by (simp add: PIPE_BUF_def PAGE_SIZE_def)
  then have "pipe_wf p \<and> pipe_room p = 65536 \<and> \<not> flag_on (p_status p) (POLLOUT a)"
    by (simp add: p pipe_wf_def ring_ok_def pipe_room_def flag_on_def)
  moreover have "\<exists>q'. pipe_write a [] q = Inr (Io_done [], q') \<and> used q' = 0 \<and> flag_on (p_status q') (POLLIN a)"
  proof -
    have c: "capacity q \<noteq> 0" "unat (write_ptr q) < length (p_data q)" "POLLIN a \<noteq> 0"
      "length (p_data q) = unat (capacity q)"
      using assms(3,5) by (auto simp: pipe_wf_def ring_ok_def unat_gt_0 abi_ok_def)
    have "\<not> write_ptr q > capacity q" "write_ptr q \<noteq> capacity q"
      using c(2,4) by (auto simp: word_less_nat_alt)
    then have "ring_put (p_data q) (capacity q) (write_ptr q) [] = Inr (p_data q, write_ptr q)"
      using c by (simp add: ring_put_def ring_split_def splice_def)
    then show ?thesis using assms(4-6) c
      by (simp add: pipe_write_def klock pipe_wf_def Let_def pipe_write_loop_def pipe_give_def)
  qed
  ultimately show ?thesis by (simp add: pipe_interrupted_def)
qed

theorem pipe_flag_and_lock_defects_witness:
  "\<exists>p. pipe_create True (Some (replicate 65536 0)) = Some p \<and> \<not> flag_on (p_status p) (POLLOUT linux_abi)"
proof -
  obtain p where p: "pipe_create True (Some (replicate 65536 0)) = Some p" by (simp add: pipe_create_def)
  have l: "length (replicate 65536 (0 :: u8)) = unat PIPE_BUF" by (simp add: PIPE_BUF_def PAGE_SIZE_def)
  have q: "pipe_wf (pipe_example\<lparr>used := 0, write_ptr := 3\<rparr>)" by (simp add: pipe_wf_def ring_ok_def pipe_example_def)
  from pipe_flag_and_lock_defects [OF p l linux_abi_ok _ q] p show ?thesis by (simp add: pipe_example_def)
qed

end
