(* ===== verification/Lyre_Time.thy ===== *)
theory Lyre_Time
  imports Lyre_Vector Lyre_Lock Lyre_Abi
begin

text \<open>
  Clocks and timers (\<open>time/time.c\<close>, \<open>time/time.k.h\<close>).  Timers are known by their address; the armed
  ones are in a vector, and every armed timer knows its index there.  The calls of \<open>event_trigger\<close> on
  a timer's event are counted in \<open>tm_triggers\<close>.  The fields of a \<open>timespec\<close> are 64-bit signed numbers
  in the source and unbounded integers here: signed overflow is not modelled.  The clocks and the
  normalised times the properties speak of stay inside the range; a program reaches its end only by
  sleeping for the least number of seconds, from which \<open>timespec_sub\<close> takes one more.
\<close>

subsection \<open>Time values\<close>

record timespec =
  tv_sec :: int
  tv_nsec :: int

definition timespec_add :: "timespec \<Rightarrow> timespec \<Rightarrow> timespec" where
  "timespec_add a b =
     (let a1 = (if tv_nsec a + tv_nsec b > 999999999
                then a\<lparr>tv_nsec := (tv_nsec a + tv_nsec b) - 1000000000, tv_sec := tv_sec a + 1\<rparr>
                else a\<lparr>tv_nsec := tv_nsec a + tv_nsec b\<rparr>)
      in a1\<lparr>tv_sec := tv_sec a1 + tv_sec b\<rparr>)"

definition timespec_sub :: "timespec \<Rightarrow> timespec \<Rightarrow> timespec" where
  "timespec_sub a b =
     (let zero = a\<lparr>tv_sec := 0, tv_nsec := 0\<rparr>;
          finish = (\<lambda>c. if tv_sec b > tv_sec c then zero else c\<lparr>tv_sec := tv_sec c - tv_sec b\<rparr>)
      in if tv_nsec b > tv_nsec a
         then if tv_sec a = 0 then zero
              else finish (a\<lparr>tv_nsec := 999999999 - (tv_nsec b - tv_nsec a), tv_sec := tv_sec a - 1\<rparr>)
         else finish (a\<lparr>tv_nsec := tv_nsec a - tv_nsec b\<rparr>))"

definition TIMER_FREQ :: int where
  "TIMER_FREQ = 1000"

text \<open>The time between two timer interrupts.\<close>

definition interval :: timespec where
  "interval = \<lparr>tv_sec = 0, tv_nsec = 1000000000 div TIMER_FREQ\<rparr>"

subsection \<open>Timers\<close>

record timer =
  tm_index :: int
  fired :: bool
  tm_when :: timespec
  tm_triggers :: nat

record clocks =
  time_monotonic :: timespec
  time_realtime :: timespec
  timers_lock :: spinlock
  armed_timers :: "u64 vec"
  timers :: "u64 \<Rightarrow> timer"

definition put_timer :: "clocks \<Rightarrow> u64 \<Rightarrow> (timer \<Rightarrow> timer) \<Rightarrow> clocks" where
  "put_timer s t f = s\<lparr>timers := (timers s)(t := f (timers s t))\<rparr>"

definition unlock_timers :: "clocks \<Rightarrow> clocks" where
  "unlock_timers s = s\<lparr>timers_lock := spinlock_release (timers_lock s)\<rparr>"

definition timer_arm :: "u64 realloc \<Rightarrow> u64 \<Rightarrow> clocks \<Rightarrow> clocks result" where
  "timer_arm ra t s0 =
     rbind (spinlock_acquire ''timer_arm'' (timers_lock s0)) (\<lambda>l.
       let s1 = s0\<lparr>timers_lock := l\<rparr>;
           s2 = put_timer s1 t (\<lambda>r. r\<lparr>tm_index := uint (vlength (armed_timers s1)), fired := False\<rparr>)
       in rbind (VECTOR_PUSH_BACK ra 8 (armed_timers s2) t) (\<lambda>(_, v).
            Inr (unlock_timers (s2\<lparr>armed_timers := v\<rparr>))))"

text \<open>\<open>timer_new\<close> with the address \<open>ALLOC\<close> returns, zero when there is no memory.\<close>

definition timer_new :: "u64 realloc \<Rightarrow> u64 \<Rightarrow> timespec \<Rightarrow> clocks \<Rightarrow> (u64 \<times> clocks) result" where
  "timer_new ra t due s =
     (if t = 0 then Inr (0, s)
      else let s1 = put_timer s t (\<lambda>_. \<lparr>tm_index = -1, fired = False, tm_when = due, tm_triggers = 0\<rparr>)
           in rbind (timer_arm ra t s1) (\<lambda>s2. Inr (t, s2)))"

definition timer_disarm :: "u64 \<Rightarrow> clocks \<Rightarrow> clocks result" where
  "timer_disarm t s0 =
     rbind (spinlock_acquire ''timer_disarm'' (timers_lock s0)) (\<lambda>l.
       let s = s0\<lparr>timers_lock := l\<rparr>; v = armed_timers s; idx = tm_index (timers s t); i = word_of_int idx :: u64
       in if vlength v = 0 \<or> idx = -1 \<or> i \<ge> vlength v then Inr (unlock_timers s)
          else rbind (VECTOR_ITEM (-1) v (vlength v - 1)) (\<lambda>moved.
               rbind (vec_set v i moved) (\<lambda>v1.
               rbind (VECTOR_ITEM (-1) v1 i) (\<lambda>u.
                 let s1 = put_timer (s\<lparr>armed_timers := v1\<rparr>) u (\<lambda>r. r\<lparr>tm_index := idx\<rparr>)
                 in rbind (VECTOR_REMOVE v1 (vlength v1 - 1)) (\<lambda>v2.
                      Inr (unlock_timers (put_timer (s1\<lparr>armed_timers := v2\<rparr>) t (\<lambda>r. r\<lparr>tm_index := -1\<rparr>))))))))"

text \<open>One timer at a timer interrupt.\<close>

definition tick :: "timer \<Rightarrow> timer" where
  "tick r =
     (if fired r then r
      else let r1 = r\<lparr>tm_when := timespec_sub (tm_when r) interval\<rparr>
           in if tv_sec (tm_when r1) = 0 \<and> tv_nsec (tm_when r1) = 0
              then r1\<lparr>tm_triggers := tm_triggers r1 + 1, fired := True\<rparr> else r1)"

definition tick_step :: "u64 \<Rightarrow> clocks \<Rightarrow> clocks result" where
  "tick_step i s = rbind (VECTOR_ITEM (-1) (armed_timers s) i) (\<lambda>t. Inr (put_timer s t tick))"

definition timer_handler :: "clocks \<Rightarrow> clocks result" where
  "timer_handler s0 =
     (let s = s0\<lparr>time_monotonic := timespec_add (time_monotonic s0) interval,
                 time_realtime := timespec_add (time_realtime s0) interval\<rparr>;
          (ok, l) = spinlock_test_and_acq (timers_lock s)
      in if ok
         then rbind (for_range tick_step 0 (vlength (armed_timers s)) (s\<lparr>timers_lock := l\<rparr>)) (\<lambda>s1. Inr (unlock_timers s1))
         else Inr s)"

text \<open>The boot loader's time is an argument.\<close>

definition time_init :: "int \<Rightarrow> clocks \<Rightarrow> clocks" where
  "time_init boot_time s = s\<lparr>time_realtime := (time_realtime s)\<lparr>tv_sec := boot_time\<rparr>\<rparr>"

subsection \<open>Sleeping and reading the clocks\<close>

definition nsleep_duration :: "u64 \<Rightarrow> timespec" where
  "nsleep_duration ns = \<lparr>tv_sec = uint (ns div 1000000000), tv_nsec = sint ns\<rparr>"

text \<open>
  \<open>time_nsleep\<close> and \<open>syscall_sleep\<close> up to the wait for the timer's event; \<open>Inl\<close> ends the call with
  that error (\<open>None\<close> when \<open>errno\<close> is not set), \<open>Inr None\<close> ends it with success.
\<close>

definition time_nsleep :: "u64 realloc \<Rightarrow> u64 \<Rightarrow> u64 \<Rightarrow> clocks \<Rightarrow> (u64 \<times> clocks) result" where
  "time_nsleep ra t ns s = timer_new ra t (nsleep_duration ns) s"

definition syscall_sleep :: "u64 realloc \<Rightarrow> u64 \<Rightarrow> timespec \<Rightarrow> clocks \<Rightarrow> ((errno option + u64 option) \<times> clocks) result" where
  "syscall_sleep ra t d s =
     (if tv_sec d = 0 \<and> tv_nsec d = 0 then Inr (Inr None, s)
      else if tv_nsec d < 0 \<or> tv_nsec d < 0 \<or> tv_nsec d > 1000000000 then Inr (Inl (Some EINVAL), s)
      else rbind (timer_new ra t d s) (\<lambda>(p, s1).
             Inr (if p = 0 then Inl None else Inr (Some p), s1)))"

text \<open>After the wait: the result, the time that remains, and the timer disarmed.\<close>

definition sleep_end :: "bool \<Rightarrow> u64 \<Rightarrow> clocks \<Rightarrow> ((errno \<times> timespec) option \<times> clocks) result" where
  "sleep_end interrupted t s =
     rbind (timer_disarm t s) (\<lambda>s1. Inr (if interrupted then Some (EINTR, tm_when (timers s t)) else None, s1))"

datatype clockid = CLOCK_REALTIME | CLOCK_REALTIME_COARSE | CLOCK_BOOTTIME | CLOCK_MONOTONIC | CLOCK_MONOTONIC_RAW
  | CLOCK_MONOTONIC_COARSE | CLOCK_PROCESS_CPUTIME_ID | CLOCK_THREAD_CPUTIME_ID | CLOCK_OTHER int

fun syscall_getclock :: "clockid \<Rightarrow> clocks \<Rightarrow> errno + timespec" where
  "syscall_getclock CLOCK_REALTIME s = Inr (time_realtime s)"
| "syscall_getclock CLOCK_REALTIME_COARSE s = Inr (time_realtime s)"
| "syscall_getclock CLOCK_BOOTTIME s = Inr (time_monotonic s)"
| "syscall_getclock CLOCK_MONOTONIC s = Inr (time_monotonic s)"
| "syscall_getclock CLOCK_MONOTONIC_RAW s = Inr (time_monotonic s)"
| "syscall_getclock CLOCK_MONOTONIC_COARSE s = Inr (time_monotonic s)"
| "syscall_getclock CLOCK_PROCESS_CPUTIME_ID s = Inr \<lparr>tv_sec = 0, tv_nsec = 0\<rparr>"
| "syscall_getclock CLOCK_THREAD_CPUTIME_ID s = Inr \<lparr>tv_sec = 0, tv_nsec = 0\<rparr>"
| "syscall_getclock (CLOCK_OTHER n) s = Inl EINVAL"

subsection \<open>Time arithmetic\<close>

definition nanos :: "timespec \<Rightarrow> int" where
  "nanos w = tv_sec w * 1000000000 + tv_nsec w"

definition normal :: "timespec \<Rightarrow> bool" where
  "normal w \<longleftrightarrow> 0 \<le> tv_sec w \<and> 0 \<le> tv_nsec w \<and> tv_nsec w < 1000000000"

lemma timespec_add_nanos:
  "normal a \<Longrightarrow> normal b \<Longrightarrow> normal (timespec_add a b) \<and> nanos (timespec_add a b) = nanos a + nanos b"
  by (auto simp: timespec_add_def normal_def nanos_def Let_def algebra_simps)

lemma timespec_sub_nanos:
  assumes "normal a" and "normal b"
  shows "normal (timespec_sub a b) \<and>
    nanos (timespec_sub a b) = (if nanos b \<le> nanos a
      then nanos a - nanos b - (if tv_nsec b > tv_nsec a then 1 else 0) else 0)"
proof -
  have "normal (timespec_sub a b)" using assms by (auto simp: timespec_sub_def normal_def Let_def)
  moreover have "nanos (timespec_sub a b) = (if nanos b \<le> nanos a
      then nanos a - nanos b - (if tv_nsec b > tv_nsec a then 1 else 0) else 0)"
    using assms by (auto simp: timespec_sub_def nanos_def normal_def Let_def)
  ultimately show ?thesis by blast
qed

subsection \<open>A timer runs out\<close>

lemma interval_simps [simp]: "tv_sec interval = 0" "tv_nsec interval = 1000000" "normal interval"
  by (simp_all add: interval_def TIMER_FREQ_def normal_def)

text \<open>What a tick leaves of a time: a million nanoseconds less, and one more when it borrows a second.\<close>

lemma sub_interval:
  assumes "normal w"
  shows "tv_sec (timespec_sub w interval) = (if tv_nsec w < 1000000 \<and> tv_sec w \<noteq> 0 then tv_sec w - 1 else tv_sec w)"
    and "tv_nsec (timespec_sub w interval) = (if tv_nsec w \<ge> 1000000 then tv_nsec w - 1000000
      else if tv_sec w = 0 then 0 else 998999999 + tv_nsec w)"
  using assms by (auto simp: timespec_sub_def Let_def normal_def)

definition is_zero :: "timespec \<Rightarrow> bool" where
  "is_zero w \<longleftrightarrow> tv_sec w = 0 \<and> tv_nsec w = 0"

abbreviation after :: "nat \<Rightarrow> timespec \<Rightarrow> timespec" where
  "after n w \<equiv> ((\<lambda>x. timespec_sub x interval) ^^ n) w"

lemma runs_out:
  assumes "normal w"
  shows "\<exists>n. is_zero (after (Suc n) w) \<and> (\<forall>m < n. \<not> is_zero (after (Suc m) w)) \<and>
    int n * 1000000 \<le> nanos w \<and> nanos w - tv_sec w \<le> (int n + 1) * 1000000"
  using assms
proof (induction "nat (nanos w)" arbitrary: w rule: less_induct)
  case less
  let ?v = "timespec_sub w interval"
  note s = sub_interval [OF less.prems]
  have w: "0 \<le> tv_sec w" "0 \<le> tv_nsec w" "tv_nsec w < 1000000000" using less.prems by (auto simp: normal_def)
  have nv: "normal ?v" using timespec_sub_nanos [OF less.prems] by simp
  show ?case
  proof (cases "is_zero ?v")
    case True
    then have "tv_sec w = 0 \<and> tv_nsec w \<le> 1000000" using s w by (auto simp: is_zero_def split: if_splits)
    with True w show ?thesis by (auto simp: nanos_def intro!: exI [of _ 0])
  next
    case False
    have d: "nanos ?v \<le> nanos w - 1000000" "nanos ?v - tv_sec ?v = nanos w - tv_sec w - 1000000"
      using False s w by (auto simp: nanos_def is_zero_def split: if_splits)
    have "0 \<le> nanos ?v" using nv by (simp add: normal_def nanos_def)
    with d(1) have "nat (nanos ?v) < nat (nanos w)" by simp
    from less.hyps [OF this nv] obtain n where n: "is_zero (after (Suc n) ?v)" "\<forall>m < n. \<not> is_zero (after (Suc m) ?v)"
      "int n * 1000000 \<le> nanos ?v" "nanos ?v - tv_sec ?v \<le> (int n + 1) * 1000000" by blast
    have sh: "after (Suc (Suc m)) w = after (Suc m) ?v" for m by (simp only: funpow_Suc_right o_apply)
    have "\<not> is_zero (after (Suc m) w)" if "m < Suc n" for m
      using that n(2) False sh by (cases m) auto
    with n sh d show ?thesis by (intro exI [of _ "Suc n"]) (auto simp del: funpow.simps)
  qed
qed

lemma tick_simps:
  "fired r \<Longrightarrow> tick r = r"
  "\<not> fired r \<Longrightarrow> tm_when (tick r) = timespec_sub (tm_when r) interval"
  "\<not> fired r \<Longrightarrow> fired (tick r) = is_zero (timespec_sub (tm_when r) interval)"
  "\<not> fired r \<Longrightarrow> tm_triggers (tick r) = tm_triggers r + (if is_zero (timespec_sub (tm_when r) interval) then 1 else 0)"
  by (auto simp: tick_def Let_def is_zero_def)

lemma ticks_before:
  assumes "\<not> fired r" and "\<forall>m < n. \<not> is_zero (after (Suc m) (tm_when r))" and "k \<le> n"
  shows "\<not> fired ((tick ^^ k) r) \<and> tm_when ((tick ^^ k) r) = after k (tm_when r) \<and>
    tm_triggers ((tick ^^ k) r) = tm_triggers r"
  using assms(3)
proof (induction k)
  case (Suc k)
  then have "\<not> is_zero (after (Suc k) (tm_when r))" using assms(2) by auto
  with Suc show ?case by (simp add: tick_simps)
qed (use assms(1) in simp)

lemma timer_fires:
  assumes "\<not> fired r" and "normal (tm_when r)"
  shows "\<exists>n. (\<forall>k. fired ((tick ^^ k) r) = (n < k)) \<and>
    (\<forall>k. tm_triggers ((tick ^^ k) r) = tm_triggers r + (if n < k then 1 else 0)) \<and>
    int n * 1000000 \<le> nanos (tm_when r) \<and> nanos (tm_when r) - tv_sec (tm_when r) \<le> (int n + 1) * 1000000"
proof -
  from runs_out [OF assms(2)] obtain n where n: "is_zero (after (Suc n) (tm_when r))"
    "\<forall>m < n. \<not> is_zero (after (Suc m) (tm_when r))" "int n * 1000000 \<le> nanos (tm_when r)"
    "nanos (tm_when r) - tv_sec (tm_when r) \<le> (int n + 1) * 1000000" by blast
  note b = ticks_before [OF assms(1) n(2)]
  have at_n: "fired ((tick ^^ Suc n) r)" "tm_triggers ((tick ^^ Suc n) r) = tm_triggers r + 1"
    using b [of n] n(1) by (simp_all add: tick_simps)
  have late: "(tick ^^ (Suc n + j)) r = (tick ^^ Suc n) r" for j
    by (induction j) (use at_n(1) in \<open>simp_all add: tick_simps\<close>)
  have "fired ((tick ^^ k) r) = (n < k) \<and> tm_triggers ((tick ^^ k) r) = tm_triggers r + (if n < k then 1 else 0)" for k
  proof (cases "n < k")
    case True
    then have "(tick ^^ k) r = (tick ^^ Suc n) r" using late [of "k - Suc n"] by simp
    with True at_n show ?thesis by simp
  next
    case False
    then show ?thesis using b [of k] by simp
  qed
  with n show ?thesis by blast
qed

subsection \<open>The armed timers\<close>

abbreviation armed :: "clocks \<Rightarrow> u64 list" where
  "armed s \<equiv> vec_list (armed_timers s)"

definition indexed :: "clocks \<Rightarrow> bool" where
  "indexed s \<longleftrightarrow> (\<forall>i < length (armed s). tm_index (timers s (armed s ! i)) = int i)"

definition timers_wf :: "clocks \<Rightarrow> bool" where
  "timers_wf s \<longleftrightarrow> unlocked (timers_lock s) \<and> vec_wf (armed_timers s) \<and> distinct (armed s) \<and> indexed s"

lemma put_timer_simps [simp]:
  "armed_timers (put_timer s t f) = armed_timers s" "timers_lock (put_timer s t f) = timers_lock s"
  "timers (put_timer s t f) u = (if u = t then f (timers s t) else timers s u)"
  "time_monotonic (put_timer s t f) = time_monotonic s" "time_realtime (put_timer s t f) = time_realtime s"
  by (simp_all add: put_timer_def)

lemma unlock_timers_simps [simp]:
  "armed_timers (unlock_timers s) = armed_timers s" "timers (unlock_timers s) = timers s"
  "unlocked (timers_lock (unlock_timers s))"
  "time_monotonic (unlock_timers s) = time_monotonic s" "time_realtime (unlock_timers s) = time_realtime s"
  by (simp_all add: unlock_timers_def)

lemma tick_index [simp]: "tm_index (tick r) = tm_index r"
  by (simp add: tick_def Let_def)

lemma timer_handler_ticks:
  assumes wf: "timers_wf s"
  shows "\<exists>s'. timer_handler s = Inr s' \<and> timers_wf s' \<and> armed_timers s' = armed_timers s \<and>
    (\<forall>t. timers s' t = (if t \<in> set (armed s) then tick (timers s t) else timers s t)) \<and>
    time_monotonic s' = timespec_add (time_monotonic s) interval \<and>
    time_realtime s' = timespec_add (time_realtime s) interval"
proof -
  define a where "a = s\<lparr>time_monotonic := timespec_add (time_monotonic s) interval,
    time_realtime := timespec_add (time_realtime s) interval, timers_lock := (timers_lock s)\<lparr>lock_word := 1\<rparr>\<rparr>"
  have v: "vec_wf (armed_timers s)" and dist: "distinct (armed s)" using wf by (auto simp: timers_wf_def)
  let ?n = "vlength (armed_timers s)"
  have len: "length (armed s) = unat ?n" using length_vec_list [OF v] .
  let ?I = "\<lambda>k (x :: clocks). armed_timers x = armed_timers s \<and> time_monotonic x = time_monotonic a \<and> time_realtime x = time_realtime a \<and>
    (\<forall>t. timers x t = (if t \<in> set (take k (armed s)) then tick (timers s t) else timers s t))"
  have "\<exists>x. for_range tick_step 0 ?n a = Inr x \<and> ?I (unat ?n) x"
  proof (rule for_range_rule [where I = ?I])
    fix k :: u64 and x
    assume k: "k < ?n" and I: "?I (unat k) x"
    have kl: "unat k < length (armed s)" using k len by (simp add: word_less_nat_alt)
    have "tick_step k x = Inr (put_timer x (armed s ! unat k) tick)"
      using item_list [OF v k, of "- 1"] I by (simp add: tick_step_def)
    moreover have "armed s ! unat k \<notin> set (take (unat k) (armed s))"
      using dist kl by (simp add: in_set_conv_nth nth_eq_iff_index_eq)
    ultimately show "\<exists>x'. tick_step k x = Inr x' \<and> ?I (Suc (unat k)) x'"
      using I kl by (auto simp: take_Suc_conv_app_nth)
  qed (auto simp: a_def)
  then obtain x where x: "for_range tick_step 0 ?n a = Inr x" "?I (unat ?n) x" by blast
  have "timer_handler s = Inr (unlock_timers x)"
    using wf x(1) by (simp add: timer_handler_def Let_def spinlock_test_and_acq_def timers_wf_def a_def)
  moreover have "timers_wf (unlock_timers x)" using wf x(2) len by (auto simp: timers_wf_def indexed_def)
  ultimately show ?thesis using x(2) len by (auto simp: a_def)
qed

lemma timer_arm_spec:
  assumes wf: "timers_wf s" and ra: "realloc_ok ra 8" "can_grow ra 8 (armed_timers s)" and t: "t \<notin> set (armed s)"
  shows "\<exists>s'. timer_arm ra t s = Inr s' \<and> timers_wf s' \<and> armed s' = armed s @ [t] \<and>
    \<not> fired (timers s' t) \<and> tm_when (timers s' t) = tm_when (timers s t) \<and>
    (\<forall>u. u \<noteq> t \<longrightarrow> timers s' u = timers s u)"
proof -
  have v: "vec_wf (armed_timers s)" using wf by (simp add: timers_wf_def)
  from push_back_list [OF ra v, of t] obtain v' where v': "VECTOR_PUSH_BACK ra 8 (armed_timers s) t = Inr (vlength (armed_timers s), v')"
    "vec_wf v'" "vec_list v' = armed s @ [t]" by blast
  have n: "uint (vlength (armed_timers s)) = int (length (armed s))"
    unfolding length_vec_list [OF v] by (rule uint_nat)
  define s1 where "s1 = s\<lparr>timers_lock := (timers_lock s)\<lparr>lock_word := 1, last_acquirer := ''timer_arm''\<rparr>\<rparr>"
  define s2 where "s2 = put_timer s1 t (\<lambda>r. r\<lparr>tm_index := int (length (armed s)), fired := False\<rparr>)"
  define s' where "s' = unlock_timers (s2\<lparr>armed_timers := v'\<rparr>)"
  have run: "timer_arm ra t s = Inr s'"
    using wf v'(1) n by (simp add: timer_arm_def klock timers_wf_def Let_def s'_def s2_def s1_def)
  have f: "armed_timers s' = v'" "timers s' u = (if u = t then (timers s t)\<lparr>tm_index := int (length (armed s)), fired := False\<rparr>
    else timers s u)" for u by (simp_all add: s'_def s2_def s1_def)
  have "indexed s'"
    using wf t by (auto simp: indexed_def timers_wf_def f v'(3) nth_append less_Suc_eq)
  then have "timers_wf s'" using wf t v' by (simp add: timers_wf_def f(1)) (simp add: s'_def)
  then show ?thesis using run f v'(3) by auto
qed

text \<open>Disarming moves the last timer into the gap.\<close>

lemma timer_disarm_spec:
  assumes wf: "timers_wf s" and t: "t \<in> set (armed s)"
  shows "\<exists>s'. timer_disarm t s = Inr s' \<and> timers_wf s' \<and> set (armed s') = set (armed s) - {t} \<and>
    tm_index (timers s' t) = -1 \<and> (\<forall>u. tm_when (timers s' u) = tm_when (timers s u) \<and> fired (timers s' u) = fired (timers s u))"
proof -
  let ?v = "armed_timers s"
  have v: "vec_wf ?v" and dist: "distinct (armed s)" and ix: "indexed s" using wf by (auto simp: timers_wf_def)
  have len: "length (armed s) = unat (vlength ?v)" by (rule length_vec_list [OF v])
  obtain j where j: "j < length (armed s)" "armed s ! j = t" using t by (auto simp: in_set_conv_nth)
  have idx: "tm_index (timers s t) = int j" using ix j by (auto simp: indexed_def)
  define i :: u64 where "i = of_nat j"
  have uj: "unat i = j" using j(1) len unat_lt_two_power_64 [of "vlength ?v"]
    unfolding i_def by (intro unat_of_nat_small) linarith
  have il: "i < vlength ?v" using uj j(1) len by (simp add: word_less_nat_alt)
  have nz: "vlength ?v \<noteq> 0" "armed s \<noteq> []" using il j(1) by auto
  have n1: "unat (vlength ?v - 1) = length (armed s) - 1"
    using unat_sub_small [of 1 "vlength ?v"] len j(1) by simp
  have l1: "vlength ?v - 1 < vlength ?v" using n1 len j(1) by (simp add: word_less_nat_alt)
  have mv: "VECTOR_ITEM (- 1) ?v (vlength ?v - 1) = Inr (last (armed s))"
    using item_list [OF v l1] n1 nz(2) by (simp add: last_conv_nth)
  obtain v1 where v1: "vec_set ?v i (last (armed s)) = Inr v1" "vec_wf v1" "vlength v1 = vlength ?v"
    "vec_list v1 = (armed s)[j := last (armed s)]"
    using vec_set_list [OF v il, of "last (armed s)"] uj by blast
  have u: "VECTOR_ITEM (- 1) v1 i = Inr (last (armed s))" using item_list [OF v1(2)] v1(3,4) il uj j(1) by simp
  obtain v2 where v2: "VECTOR_REMOVE v1 (vlength v1 - 1) = Inr v2" "vec_wf v2"
    "vec_list v2 = butlast ((armed s)[j := last (armed s)])"
    using remove_list [OF v1(2), of "vlength v1 - 1"] v1(3,4) l1 n1 by (auto simp: butlast_conv_take)
  define s' where "s' = unlock_timers (put_timer ((put_timer (s\<lparr>timers_lock := (timers_lock s)\<lparr>lock_word := 1,
    last_acquirer := ''timer_disarm''\<rparr>, armed_timers := v1\<rparr>) (last (armed s)) (\<lambda>r. r\<lparr>tm_index := int j\<rparr>))\<lparr>armed_timers := v2\<rparr>)
    t (\<lambda>r. r\<lparr>tm_index := -1\<rparr>))"
  have wi: "(word_of_int (int j) :: u64) = i" by (simp add: i_def)
  have run: "timer_disarm t s = Inr s'"
    using wf nz(1) il mv v1(1) u v2(1)
    by (simp add: timer_disarm_def klock timers_wf_def Let_def idx wi s'_def del: of_int_of_nat_eq)
  have m: "add_mset t (mset (armed s')) = mset (armed s)"
    using mset_swap_last [OF j(1)] j(2) by (simp add: s'_def v2(3))
  then have dm: "distinct (t # armed s')" using dist mset_eq_imp_distinct_iff [of "t # armed s'" "armed s"] by simp
  have st: "set (armed s') = set (armed s) - {t}" using arg_cong [OF m, of set_mset] dm by auto
  have tm: "timers s' w = (if w = t then (timers s w)\<lparr>tm_index := -1\<rparr>
    else if w = last (armed s) then (timers s w)\<lparr>tm_index := int j\<rparr> else timers s w)" for w
    by (simp add: s'_def)
  have "indexed s'"
    unfolding indexed_def
  proof (intro allI impI)
    fix k
    assume "k < length (armed s')"
    then have k: "Suc k < length (armed s)" and ak: "armed s' ! k = (armed s)[j := last (armed s)] ! k"
      by (auto simp: s'_def v2(3) nth_butlast)
    have kt: "armed s' ! k \<noteq> t" using dm \<open>k < length (armed s')\<close> nth_mem by fastforce
    show "tm_index (timers s' (armed s' ! k)) = int k"
    proof (cases "k = j")
      case True
      with ak k have "armed s' ! k = last (armed s)" by simp
      with kt True show ?thesis by (simp add: tm)
    next
      case False
      with ak k have e: "armed s' ! k = armed s ! k" by simp
      have "armed s ! k \<noteq> last (armed s)" using dist k nz(2) by (simp add: last_conv_nth nth_eq_iff_index_eq)
      with kt e ix k show ?thesis by (simp add: tm indexed_def)
    qed
  qed
  then have "timers_wf s'" using v2(2) dm by (simp add: timers_wf_def) (simp add: s'_def)
  with run st tm show ?thesis by auto
qed

subsection \<open>Properties\<close>

text \<open>
  A run of timer interrupts while nobody arms or disarms a timer.  At some of them another CPU holds
  the lock of the timers, which it releases before the next one.
\<close>

definition interrupt :: "bool \<Rightarrow> clocks \<Rightarrow> clocks result" where
  "interrupt held s =
     (if held then rbind (timer_handler (s\<lparr>timers_lock := (timers_lock s)\<lparr>lock_word := 1\<rparr>\<rparr>)) (\<lambda>s'. Inr (unlock_timers s'))
      else timer_handler s)"

fun interrupts :: "bool list \<Rightarrow> clocks \<Rightarrow> clocks result" where
  "interrupts [] s = Inr s"
| "interrupts (held # hs) s = rbind (interrupt held s) (interrupts hs)"

lemma interrupt_spec:
  assumes wf: "timers_wf s"
  shows "\<exists>s'. interrupt held s = Inr s' \<and> timers_wf s' \<and> armed_timers s' = armed_timers s \<and>
    (\<forall>t. timers s' t = (if \<not> held \<and> t \<in> set (armed s) then tick (timers s t) else timers s t)) \<and>
    time_monotonic s' = timespec_add (time_monotonic s) interval"
proof (cases held)
  case True
  define s' where "s' = unlock_timers (s\<lparr>time_monotonic := timespec_add (time_monotonic s) interval,
    time_realtime := timespec_add (time_realtime s) interval, timers_lock := (timers_lock s)\<lparr>lock_word := 1\<rparr>\<rparr>)"
  have "interrupt held s = Inr s'"
    using True by (simp add: interrupt_def timer_handler_def Let_def spinlock_test_and_acq_def s'_def unlock_timers_def)
  moreover have "timers_wf s'" using wf by (simp add: timers_wf_def s'_def indexed_def)
  ultimately show ?thesis using True by (auto simp: s'_def)
next
  case False
  then show ?thesis using timer_handler_ticks [OF wf] by (auto simp: interrupt_def)
qed

lemma interrupts_spec:
  assumes "timers_wf s" and "normal (time_monotonic s)"
  shows "\<exists>s'. interrupts hs s = Inr s' \<and> timers_wf s' \<and> armed_timers s' = armed_timers s \<and>
    (\<forall>t. timers s' t = (if t \<in> set (armed s) then (tick ^^ count_list hs False) (timers s t) else timers s t)) \<and>
    normal (time_monotonic s') \<and>
    nanos (time_monotonic s') = nanos (time_monotonic s) + int (length hs) * 1000000"
  using assms
proof (induction hs arbitrary: s)
  case Nil
  then show ?case by simp
next
  case (Cons held hs)
  from interrupt_spec [OF Cons.prems(1), of held] obtain s1 where s1: "interrupt held s = Inr s1" "timers_wf s1"
    "armed_timers s1 = armed_timers s"
    "\<forall>t. timers s1 t = (if \<not> held \<and> t \<in> set (armed s) then tick (timers s t) else timers s t)"
    "time_monotonic s1 = timespec_add (time_monotonic s) interval" by blast
  have m: "normal (time_monotonic s1)" "nanos (time_monotonic s1) = nanos (time_monotonic s) + 1000000"
    using timespec_add_nanos [OF Cons.prems(2), of interval] s1(5) by (simp_all add: nanos_def)
  from Cons.IH [OF s1(2) m(1)] obtain s' where s': "interrupts hs s1 = Inr s'" "timers_wf s'" "armed_timers s' = armed_timers s1"
    "\<forall>t. timers s' t = (if t \<in> set (armed s1) then (tick ^^ count_list hs False) (timers s1 t) else timers s1 t)"
    "normal (time_monotonic s')" "nanos (time_monotonic s') = nanos (time_monotonic s1) + int (length hs) * 1000000" by blast
  have "timers s' t = (if t \<in> set (armed s) then (tick ^^ count_list (held # hs) False) (timers s t) else timers s t)" for t
    using s1(3,4) s'(4) by (cases held) (simp_all add: funpow_swap1)
  with s1 s' m show ?case by (simp add: algebra_simps)
qed

text \<open>
  C28. A timer that is armed, has not fired and has a normalised time left fires exactly once over
  any run of timer interrupts, however long.  The number \<open>n\<close> belongs to the timer alone: it has
  fired, and its event has been triggered once, exactly when more than \<open>n\<close> of the interrupts found
  the lock of the timers free.  Interrupts that found it held do not count, so each of them puts
  the timer off by a tick while the clock goes on: with the lock always free it fires at the last
  tick to start before its time is over, up to one nanosecond for every second of that time.  No
  interrupt faults, the armed timers stay armed, no other timer is touched, and the monotonic clock
  advances by the interval at every one.
\<close>

theorem timer_fires_once:
  assumes "timers_wf s" and "t \<in> set (armed s)" and "\<not> fired (timers s t)" and "normal (tm_when (timers s t))"
    and "normal (time_monotonic s)"
  shows "\<exists>n. (\<forall>hs. \<exists>s'. interrupts hs s = Inr s' \<and> timers_wf s' \<and> armed s' = armed s \<and>
      fired (timers s' t) = (n < count_list hs False) \<and>
      tm_triggers (timers s' t) = tm_triggers (timers s t) + (if n < count_list hs False then 1 else 0) \<and>
      (\<forall>u. u \<notin> set (armed s) \<longrightarrow> timers s' u = timers s u) \<and>
      nanos (time_monotonic s') = nanos (time_monotonic s) + int (length hs) * 1000000) \<and>
    int n * 1000000 \<le> nanos (tm_when (timers s t)) \<and>
    nanos (tm_when (timers s t)) - tv_sec (tm_when (timers s t)) \<le> (int n + 1) * 1000000"
proof -
  obtain n where n: "\<forall>k. fired ((tick ^^ k) (timers s t)) = (n < k)"
    "\<forall>k. tm_triggers ((tick ^^ k) (timers s t)) = tm_triggers (timers s t) + (if n < k then 1 else 0)"
    "int n * 1000000 \<le> nanos (tm_when (timers s t))"
    "nanos (tm_when (timers s t)) - tv_sec (tm_when (timers s t)) \<le> (int n + 1) * 1000000"
    using timer_fires [OF assms(3,4)] by blast
  show ?thesis
  proof (intro exI [of _ n] conjI allI)
    fix hs
    obtain s' where s': "interrupts hs s = Inr s'" "timers_wf s'" "armed_timers s' = armed_timers s"
      "\<forall>t. timers s' t = (if t \<in> set (armed s) then (tick ^^ count_list hs False) (timers s t) else timers s t)"
      "nanos (time_monotonic s') = nanos (time_monotonic s) + int (length hs) * 1000000"
      using interrupts_spec [OF assms(1,5)] by blast
    show "\<exists>s'. interrupts hs s = Inr s' \<and> timers_wf s' \<and> armed s' = armed s \<and>
      fired (timers s' t) = (n < count_list hs False) \<and>
      tm_triggers (timers s' t) = tm_triggers (timers s t) + (if n < count_list hs False then 1 else 0) \<and>
      (\<forall>u. u \<notin> set (armed s) \<longrightarrow> timers s' u = timers s u) \<and>
      nanos (time_monotonic s') = nanos (time_monotonic s) + int (length hs) * 1000000"
      using s' n(1,2) assms(2) by (intro exI [of _ s']) simp
  qed (use n in simp_all)
qed

text \<open>
  The timer interrupt advances both clocks by the interval and gives every armed timer, fired or
  not, exactly one tick and no other timer one; arming appends a timer that is not armed, and
  disarming takes out that timer alone, wherever it stands, keeping every armed timer's index right.
\<close>

theorem armed_timers_consistent:
  assumes "timers_wf s"
  shows "(\<exists>s'. timer_handler s = Inr s' \<and> timers_wf s' \<and> armed_timers s' = armed_timers s \<and>
      (\<forall>t. timers s' t = (if t \<in> set (armed s) then tick (timers s t) else timers s t)) \<and>
      time_monotonic s' = timespec_add (time_monotonic s) interval) \<and>
    (realloc_ok ra 8 \<and> can_grow ra 8 (armed_timers s) \<and> t \<notin> set (armed s) \<longrightarrow>
      (\<exists>s'. timer_arm ra t s = Inr s' \<and> timers_wf s' \<and> armed s' = armed s @ [t] \<and> \<not> fired (timers s' t))) \<and>
    (t \<in> set (armed s) \<longrightarrow> (\<exists>s'. timer_disarm t s = Inr s' \<and> timers_wf s' \<and> set (armed s') = set (armed s) - {t}))"
  using timer_handler_ticks [OF assms] timer_arm_spec [OF assms, of ra t] timer_disarm_spec [OF assms, of t] by blast

definition clocks_example :: clocks where
  "clocks_example = \<lparr>time_monotonic = \<lparr>tv_sec = 5, tv_nsec = 999000000\<rparr>, time_realtime = \<lparr>tv_sec = 0, tv_nsec = 0\<rparr>,
     timers_lock = SPINLOCK_INIT, armed_timers = \<lparr>vdata = Some [0x100, 0x200, 0, 0, 0, 0, 0, 0], vlength = 2, vcapacity = 8\<rparr>,
     timers = (\<lambda>t. \<lparr>tm_index = (if t = 0x200 then 1 else 0), fired = False, tm_when = \<lparr>tv_sec = 0, tv_nsec = 1000000\<rparr>, tm_triggers = 0\<rparr>)\<rparr>"

lemma clocks_example_wf: "timers_wf clocks_example" "armed clocks_example = [0x100, 0x200]"
  by (auto simp: timers_wf_def clocks_example_def vec_wf_def indexed_def less_Suc_eq)

theorem timer_fires_once_witness:
  "\<exists>s'. interrupts [True, False, True] (clocks_example\<lparr>timers := (timers clocks_example)(0x200 :=
       \<lparr>tm_index = 1, fired = False, tm_when = \<lparr>tv_sec = 0, tv_nsec = 2500000\<rparr>, tm_triggers = 0\<rparr>)\<rparr>) = Inr s' \<and>
     \<not> fired (timers s' 0x200) \<and> nanos (time_monotonic s') = 6002000000 \<and>
   (\<exists>s'. interrupts [False, False, True, False, False] (clocks_example\<lparr>timers := (timers clocks_example)(0x200 :=
       \<lparr>tm_index = 1, fired = False, tm_when = \<lparr>tv_sec = 0, tv_nsec = 2500000\<rparr>, tm_triggers = 0\<rparr>)\<rparr>) = Inr s' \<and>
     fired (timers s' 0x200) \<and> tm_triggers (timers s' 0x200) = 1)"
proof -
  let ?s = "clocks_example\<lparr>timers := (timers clocks_example)(0x200 :=
       \<lparr>tm_index = 1, fired = False, tm_when = \<lparr>tv_sec = 0, tv_nsec = 2500000\<rparr>, tm_triggers = 0\<rparr>)\<rparr>"
  have wf: "timers_wf ?s" by (auto simp: timers_wf_def clocks_example_def vec_wf_def indexed_def less_Suc_eq)
  have a: "0x200 \<in> set (armed ?s)" "\<not> fired (timers ?s 0x200)" "normal (tm_when (timers ?s 0x200))"
      "normal (time_monotonic ?s)" "nanos (time_monotonic ?s) = 5999000000"
      "nanos (tm_when (timers ?s 0x200)) = 2500000" "tv_sec (tm_when (timers ?s 0x200)) = 0"
      "tm_triggers (timers ?s 0x200) = 0"
    by (simp_all add: clocks_example_def normal_def nanos_def)
  from timer_fires_once [OF wf a(1-4)] obtain n where
    run: "\<And>hs. \<exists>s'. interrupts hs ?s = Inr s' \<and> fired (timers s' 0x200) = (n < count_list hs False) \<and>
      tm_triggers (timers s' 0x200) = (if n < count_list hs False then 1 else 0) \<and>
      nanos (time_monotonic s') = 5999000000 + int (length hs) * 1000000" and
    n: "int n * 1000000 \<le> 2500000" "2500000 \<le> (int n + 1) * 1000000"
    unfolding a(5-8) by fastforce
  have "int n < 3" using n(1) by linarith
  moreover have "int n > 1" using n(2) by (simp add: algebra_simps)
  ultimately have "n = 2" by linarith
  then show ?thesis using run [of "[True, False, True]"] run [of "[False, False, True, False, False]"] by fastforce
qed

theorem armed_timers_consistent_witness:
  "\<exists>s'. timer_disarm 0x100 clocks_example = Inr s' \<and> set (armed s') = {0x200}"
  using armed_timers_consistent [OF clocks_example_wf(1), of undefined "0x100"] clocks_example_wf(2) by auto

text \<open>
  Time arithmetic: the sum of two normalised times is exact and normalised; the difference is
  normalised and stops at zero, but it is one nanosecond too small whenever it borrows a second.
\<close>

theorem timespec_arithmetic:
  assumes "normal a" and "normal b"
  shows "normal (timespec_add a b) \<and> nanos (timespec_add a b) = nanos a + nanos b \<and> normal (timespec_sub a b) \<and>
    nanos (timespec_sub a b) = (if nanos b \<le> nanos a
      then nanos a - nanos b - (if tv_nsec b > tv_nsec a then 1 else 0) else 0)"
  using timespec_add_nanos [OF assms] timespec_sub_nanos [OF assms] by blast

theorem timespec_arithmetic_witness:
  "nanos (timespec_sub \<lparr>tv_sec = 2, tv_nsec = 0\<rparr> \<lparr>tv_sec = 0, tv_nsec = 1\<rparr>) = 1999999998"
  using timespec_arithmetic [of "\<lparr>tv_sec = 2, tv_nsec = 0\<rparr>" "\<lparr>tv_sec = 0, tv_nsec = 1\<rparr>"]
  by (simp add: normal_def nanos_def)

text \<open>
  Sleeping: \<open>time_nsleep\<close> does not reduce the nanoseconds, so a sleep of a second or more waits
  the whole seconds twice; \<open>syscall_sleep\<close> accepts a duration with exactly a thousand million
  nanoseconds and one with negative seconds, and rejects the other malformed ones with \<open>EINVAL\<close>.
\<close>

theorem sleep_durations:
  assumes "ns < 0x7fffffffffffffff" and "tv_nsec d < 0 \<or> tv_nsec d > 1000000000"
  shows "nanos (nsleep_duration ns) = uint ns + uint (ns div 1000000000) * 1000000000 \<and>
    (tv_sec d \<noteq> 0 \<or> tv_nsec d \<noteq> 0 \<longrightarrow> syscall_sleep ra t d s = Inr (Inl (Some EINVAL), s)) \<and>
    syscall_sleep ra 0 \<lparr>tv_sec = - 1, tv_nsec = 1000000000\<rparr> s = Inr (Inl None, s)"
proof -
  have "uint ns < 9223372036854775808" using assms(1) by (simp add: word_less_def)
  moreover have "- 9223372036854775808 \<le> uint ns" by (rule order_trans [of _ 0]) simp_all
  ultimately have "sint ns = uint ns" unfolding sint_uint by (intro signed_take_bit_int_eq_self) simp_all
  then have "nanos (nsleep_duration ns) = uint ns + uint (ns div 1000000000) * 1000000000"
    by (simp add: nanos_def nsleep_duration_def)
  then show ?thesis using assms(2) by (auto simp: syscall_sleep_def timer_new_def)
qed

theorem sleep_durations_witness:
  "nanos (nsleep_duration 1500000000) = 2500000000"
  using sleep_durations [of 1500000000 "\<lparr>tv_sec = 0, tv_nsec = - 1\<rparr>" undefined 0 undefined] by simp

end
