(* ===== verification/Lyre_Process.thy ===== *)
theory Lyre_Process
  imports Lyre_Event Lyre_Resource Lyre_Hashmap
begin

text \<open>
  Processes: the second half of \<open>sched/sched.c\<close> and \<open>sched/proc.c\<close>.  A process is known by its address; the
  state \<open>kern\<close> has the threads and events (\<open>Lyre_Event\<close>), the file descriptors (\<open>Lyre_Resource\<close>), the processes
  and the fields of threads that the scheduler itself does not use.  Vectors are the lists they represent
  (\<open>Lyre_Vector\<close>).  What other components return is an argument: addresses of new objects (zero for a failure),
  stacks, the forked page map, and \<open>cr3_of\<close>, which gives the \<open>cr3\<close> of a page map; \<open>destroyed\<close> lists the page maps
  passed to \<open>vmm_destroy_pagemap\<close>, \<open>released\<close> the pages passed to \<open>pmm_free\<close>.  \<open>kproc\<close> is the kernel's process,
  \<open>kcr3\<close> its \<open>cr3\<close>.  A call that returns \<open>-1\<close> is \<open>Inl\<close> of the error number, \<open>None\<close> when the function itself did not
  set it.
\<close>

unbundle bit_operations_syntax

subsection \<open>Data\<close>

record process =
  p_pid :: int
  p_ppid :: int
  p_status :: u32
  p_pagemap :: u64
  p_mmap_anon_base :: u64
  thread_stack_top :: u64
  p_threads :: "u64 list"
  children :: "u64 list"
  child_events :: "u64 list"
  p_cwd :: u64
  p_umask :: u32
  p_name :: string

record 's kern =
  k_sys :: ksys
  k_files :: "'s files"
  processes :: "u64 list"
  procs :: "u64 \<Rightarrow> process"
  t_process :: "u64 \<Rightarrow> u64"
  t_tid :: "u64 \<Rightarrow> int"
  t_stacks :: "u64 \<Rightarrow> u64 list"
  destroyed :: "u64 list"
  released :: "u64 list"

definition process_zero :: process where
  "process_zero = \<lparr>p_pid = 0, p_ppid = 0, p_status = 0, p_pagemap = 0, p_mmap_anon_base = 0, thread_stack_top = 0,
     p_threads = [], children = [], child_events = [], p_cwd = 0, p_umask = 0, p_name = []\<rparr>"

definition put_proc :: "u64 \<Rightarrow> (process \<Rightarrow> process) \<Rightarrow> 's kern \<Rightarrow> 's kern" where
  "put_proc p f s = s\<lparr>procs := (procs s)(p := f (procs s p))\<rparr>"

text \<open>The address of the \<open>event\<close> field of a process.\<close>

definition proc_event :: "u64 \<Rightarrow> u64" where
  "proc_event p = p + 112"

text \<open>Freshly allocated memory is zero: no open descriptor, no pending event.\<close>

definition fresh_proc :: "u64 \<Rightarrow> 's kern \<Rightarrow> 's kern" where
  "fresh_proc p s = s\<lparr>procs := (procs s)(p := process_zero),
     k_files := put_table p (\<lambda>_. \<lparr>fds_lock = SPINLOCK_INIT, fds = replicate MAX_FDS 0\<rparr>) (k_files s),
     k_sys := put_event (k_sys s) (proc_event p) (\<lambda>_. \<lparr>ev_lock = SPINLOCK_INIT, pending = 0, listeners = []\<rparr>)\<rparr>"

definition free_kern :: "u64 \<Rightarrow> 's kern \<Rightarrow> 's kern" where
  "free_kern p s = s\<lparr>k_files := free p (k_files s)\<rparr>"

text \<open>\<open>VECTOR_ITEM\<close> and its invalid index.\<close>

definition vitem :: "'a list \<Rightarrow> int \<Rightarrow> 'a option" where
  "vitem xs i = (if 0 \<le> i \<and> i < int (length xs) then Some (xs ! nat i) else None)"

subsection \<open>Creating processes\<close>

text \<open>\<open>new\<close> is the new process, \<open>forked\<close> the result of \<open>vmm_fork_pagemap\<close>, \<open>root\<close> is \<open>vfs_root\<close>.\<close>

definition sched_new_process :: "u64 \<Rightarrow> u64 \<Rightarrow> u64 \<Rightarrow> u64 \<Rightarrow> u64 \<Rightarrow> 's kern \<Rightarrow> (errno option + u64) \<times> 's kern" where
  "sched_new_process new old pagemap forked root s0 =
     (if new = 0 then (Inl (Some ENOMEM), s0)
      else let s = fresh_proc new s0
           in if old \<noteq> 0 \<and> forked = 0 then (Inl None, free_kern new (put_proc new (\<lambda>p. p\<lparr>p_name := p_name (procs s old)\<rparr>) s))
              else let o_p = procs s old;
                       s1 = (if old \<noteq> 0
                             then put_proc new (\<lambda>p. p\<lparr>p_name := p_name o_p, p_pagemap := forked, p_ppid := p_pid o_p,
                                    thread_stack_top := thread_stack_top o_p, p_mmap_anon_base := p_mmap_anon_base o_p,
                                    p_cwd := p_cwd o_p, p_umask := p_umask o_p\<rparr>) s
                             else put_proc new (\<lambda>p. p\<lparr>p_ppid := 0, p_pagemap := pagemap, thread_stack_top := 0x70000000000,
                                    p_mmap_anon_base := 0x80000000000, p_cwd := root, p_umask := 0x12\<rparr>) s);
                       pid = int (length (processes s1));
                       s2 = put_proc new (\<lambda>p. p\<lparr>p_pid := pid\<rparr>) (s1\<lparr>processes := processes s1 @ [new]\<rparr>)
                   in (Inr new, if old = 0 then s2
                       else put_proc old (\<lambda>p. p\<lparr>children := children p @ [new], child_events := child_events p @ [proc_event new]\<rparr>) s2))"

subsection \<open>Creating threads\<close>

text \<open>Positions in the saved registers: the order of \<open>struct cpu_ctx\<close> without \<open>cs\<close>.\<close>

definition REG_DS :: nat where "REG_DS = 0"
definition REG_ES :: nat where "REG_ES = 1"
definition REG_RAX :: nat where "REG_RAX = 2"
definition REG_RBX :: nat where "REG_RBX = 3"
definition REG_RDI :: nat where "REG_RDI = 7"
definition REG_RIP :: nat where "REG_RIP = 18"
definition REG_RFLAGS :: nat where "REG_RFLAGS = 19"
definition REG_RSP :: nat where "REG_RSP = 20"
definition REG_SS :: nat where "REG_SS = 21"

definition STACK_SIZE :: u64 where
  "STACK_SIZE = 0x40000"

definition ctx_new :: "u64 \<Rightarrow> u64 \<Rightarrow> u64 \<Rightarrow> u64 \<Rightarrow> u64 \<Rightarrow> cpu_ctx" where
  "ctx_new code data pc arg sp = \<lparr>ctx_regs = (replicate 22 0)[REG_DS := data, REG_ES := data, REG_SS := data,
     REG_RFLAGS := 0x202, REG_RIP := pc, REG_RDI := arg, REG_RSP := sp], ctx_cs = code\<rparr>"

definition thread_zero :: thread where
  "thread_zero = \<lparr>t_lock = SPINLOCK_INIT, yield_await = SPINLOCK_INIT, scheduling_off = False, running_on = 0, enqueued = False,
     enqueued_by_signal = False, timeslice = 0, t_ctx = \<lparr>ctx_regs = replicate 22 0, ctx_cs = 0\<rparr>, gs_base = 0, fs_base = 0, cr3 = 0,
     fpu_storage = [], kernel_stack = 0, pf_stack = 0, which_event = 0, attached_events = []\<rparr>"

definition set_thread :: "u64 \<Rightarrow> thread \<Rightarrow> 's kern \<Rightarrow> 's kern" where
  "set_thread t r s = s\<lparr>k_sys := on_thread (k_sys s) t (\<lambda>_. r)\<rparr>"

definition enqueue_kern :: "u64 \<Rightarrow> 's kern \<Rightarrow> 's kern" where
  "enqueue_kern t s = s\<lparr>k_sys := (k_sys s)\<lparr>ks_sched := snd (sched_enqueue_thread t False (ks_sched (k_sys s)))\<rparr>\<rparr>"

text \<open>\<open>t\<close> is the new thread, \<open>stack_phys\<close> its stack, \<open>fpu\<close> its FPU storage; none of the allocations is checked.\<close>

definition sched_new_kernel_thread :: "u64 \<Rightarrow> u64 \<Rightarrow> u64 \<Rightarrow> u64 \<Rightarrow> u64 \<Rightarrow> u8 list \<Rightarrow> u64 \<Rightarrow> u64 \<Rightarrow> bool \<Rightarrow> 's kern \<Rightarrow> (u64 \<times> 's kern) result" where
  "sched_new_kernel_thread hh kproc kcr3 t stack_phys fpu pc arg enqueue s =
     (if t = 0 then Inl NullDeref
      else let r = thread_zero\<lparr>t_ctx := ctx_new 0x28 0x30 pc arg (stack_phys + STACK_SIZE + hh), cr3 := kcr3, gs_base := t,
                     timeslice := 5000, running_on := -1, fpu_storage := fpu\<rparr>;
               s1 = (set_thread t r s)\<lparr>t_process := (t_process s)(t := kproc), t_tid := (t_tid s)(t := 0), t_stacks := (t_stacks s)(t := [stack_phys])\<rparr>
           in Inr (t, if enqueue then enqueue_kern t s1 else s1))"

subsection \<open>The initial stack of a program\<close>

text \<open>
  The stack is the list of bytes from the stack pointer up to its top.  \<open>memcpy\<close> below the pointer leaves the
  byte behind a string as it was, zero.  \<open>at\<close> gives the numbers of the auxiliary vector's keys.
\<close>

record auxval =
  at_entry :: u64
  at_phdr :: u64
  at_phent :: u64
  at_phnum :: u64

record auxkeys =
  AT_SECURE :: u64
  AT_ENTRY :: u64
  AT_PHDR :: u64
  AT_PHENT :: u64
  AT_PHNUM :: u64

definition word_bytes :: "u64 \<Rightarrow> u8 list" where
  "word_bytes w = map (\<lambda>i. ucast (drop_bit (8 * i) w)) [0 ..< 8]"

fun push_strings :: "u8 list list \<Rightarrow> u8 list \<Rightarrow> u8 list" where
  "push_strings [] bs = bs"
| "push_strings (x # xs) bs = push_strings xs (x @ [0] @ bs)"

definition push_word :: "u64 \<Rightarrow> u8 list \<Rightarrow> u8 list" where
  "push_word w bs = word_bytes w @ bs"

definition push_aux :: "u64 \<Rightarrow> u64 \<Rightarrow> u8 list \<Rightarrow> u8 list" where
  "push_aux key val bs = push_word key (push_word val bs)"

text \<open>The addresses of strings pushed from \<open>old_rsp\<close> on, and the address behind the last.\<close>

fun string_ptrs :: "u64 \<Rightarrow> u8 list list \<Rightarrow> u64 list" where
  "string_ptrs old_rsp [] = []"
| "string_ptrs old_rsp (x # xs) = (let p = old_rsp - (of_nat (length x) + 1) in p # string_ptrs p xs)"

definition last_ptr :: "u64 \<Rightarrow> u8 list list \<Rightarrow> u64" where
  "last_ptr old_rsp xs = last (old_rsp # string_ptrs old_rsp xs)"

definition push_words :: "u64 list \<Rightarrow> u8 list \<Rightarrow> u8 list" where
  "push_words ws bs = concat (map word_bytes ws) @ bs"

definition align_stack :: "u64 \<Rightarrow> u8 list \<Rightarrow> u8 list" where
  "align_stack stack_top bs = replicate (unat ((stack_top - of_nat (length bs)) mod 16)) 0 @ bs"

definition build_stack :: "auxkeys \<Rightarrow> u64 \<Rightarrow> u64 \<Rightarrow> u8 list list \<Rightarrow> u8 list list \<Rightarrow> auxval \<Rightarrow> u8 list" where
  "build_stack at stack_top vma argv envp aux =
     (let b1 = push_strings argv (push_strings envp []);
          b2 = align_stack stack_top b1;
          b3 = (if odd (length argv + length envp + 1) then replicate 8 0 @ b2 else b2);
          b4 = push_aux (AT_PHNUM at) (at_phnum aux) (push_aux (AT_PHENT at) (at_phent aux) (push_aux (AT_PHDR at) (at_phdr aux)
                (push_aux (AT_ENTRY at) (at_entry aux) (push_aux (AT_SECURE at) 0 (push_word 0 (push_word 0 b3))))));
          b5 = push_words (string_ptrs vma envp) (push_word 0 b4);
          b6 = push_words (string_ptrs (last_ptr vma envp) argv) (push_word 0 b5)
      in push_word (of_nat (length argv)) b6)"

text \<open>
  \<open>stack_phys\<close> is the page block for the stack and \<open>mapped\<close> the result of \<open>mmap_range\<close>, both used when \<open>sp\<close> is \<open>NULL\<close>;
  \<open>fpu\<close> is the saved FPU state with the default control words.  The second result is the contents of the stack from
  the new stack pointer on; \<open>args\<close> is \<open>None\<close> for null pointers.
\<close>

definition place_stack :: "u64 \<Rightarrow> bool \<Rightarrow> u64 \<Rightarrow> u64 \<Rightarrow> u64 \<Rightarrow> 's kern \<Rightarrow> (errno option + u64 \<times> u64) \<times> 's kern" where
  "place_stack stack_phys mapped hh proc sp s =
     (if sp \<noteq> 0 then (Inr (sp, sp), s)
      else if stack_phys = 0 then (Inl (Some ENOMEM), s)
      else if \<not> mapped then (Inl None, s\<lparr>released := released s @ [stack_phys]\<rparr>)
      else (Inr (stack_phys + STACK_SIZE + hh, thread_stack_top (procs s proc)),
            put_proc proc (\<lambda>p. p\<lparr>thread_stack_top := thread_stack_top p - (STACK_SIZE - 4096)\<rparr>) s))"

type_synonym program_args = "u8 list list \<times> u8 list list \<times> auxval"

definition initial_stack :: "auxkeys \<Rightarrow> u64 \<Rightarrow> u64 \<Rightarrow> nat \<Rightarrow> program_args option \<Rightarrow> u8 list result" where
  "initial_stack at stack vma nthreads args =
     (if nthreads \<noteq> 0 then Inr []
      else case args of
             None \<Rightarrow> Inl NullDeref
           | Some (argv, envp, aux) \<Rightarrow>
               let bs = build_stack at stack vma argv envp aux
               in if length bs > unat STACK_SIZE then Inl OutOfBounds else Inr bs)"

definition sched_new_user_thread ::
  "u64 \<Rightarrow> (u64 \<Rightarrow> u64) \<Rightarrow> auxkeys \<Rightarrow> u64 \<Rightarrow> u64 \<Rightarrow> bool \<Rightarrow> u64 \<Rightarrow> u64 \<Rightarrow> u8 list \<Rightarrow> u64 \<Rightarrow> u64 \<Rightarrow> u64 \<Rightarrow> u64 \<Rightarrow>
   program_args option \<Rightarrow> bool \<Rightarrow> 's kern \<Rightarrow> ((errno option + u64 \<times> u8 list) \<times> 's kern) result" where
  "sched_new_user_thread hh cr3_of at t stack_phys mapped kstack_phys pfstack_phys fpu proc pc arg sp args enqueue s =
     (if t = 0 then Inr (Inl (Some ENOMEM), s)
      else case place_stack stack_phys mapped hh proc sp s of
             (Inl e, s1) \<Rightarrow> Inr (Inl e, free_kern t s1)
           | (Inr (stack, vma), s1) \<Rightarrow>
               let n = length (p_threads (procs s1 proc))
               in rbind (initial_stack at stack vma n args) (\<lambda>bs.
                    let r = thread_zero\<lparr>kernel_stack := kstack_phys + STACK_SIZE + hh, pf_stack := pfstack_phys + STACK_SIZE + hh,
                              t_ctx := ctx_new 0x4b 0x53 pc arg (vma - of_nat (length bs)), cr3 := cr3_of (p_pagemap (procs s1 proc)),
                              timeslice := 5000, running_on := -1, fpu_storage := fpu\<rparr>;
                        s2 = (set_thread t r s1)\<lparr>t_process := (t_process s1)(t := proc), t_tid := (t_tid s1)(t := int n),
                               t_stacks := (t_stacks s1)(t := [kstack_phys, pfstack_phys])\<rparr>;
                        s3 = put_proc proc (\<lambda>p. p\<lparr>p_threads := p_threads p @ [t]\<rparr>) s2
                    in Inr (Inr (t, bs), if enqueue then enqueue_kern t s3 else s3)))"

subsection \<open>System calls on threads\<close>

definition current_thread :: "nat \<Rightarrow> 's kern \<Rightarrow> u64" where
  "current_thread c s = cpu_gs (cpus (ks_sched (k_sys s)) ! c)"

definition current_process :: "nat \<Rightarrow> 's kern \<Rightarrow> u64" where
  "current_process c s = t_process s (current_thread c s)"

text \<open>The result is used without a test.\<close>

definition syscall_new_thread ::
  "u64 \<Rightarrow> (u64 \<Rightarrow> u64) \<Rightarrow> auxkeys \<Rightarrow> u64 \<Rightarrow> u64 \<Rightarrow> bool \<Rightarrow> u64 \<Rightarrow> u64 \<Rightarrow> u8 list \<Rightarrow> nat \<Rightarrow> u64 \<Rightarrow> u64 \<Rightarrow> 's kern \<Rightarrow> (int \<times> 's kern) result" where
  "syscall_new_thread hh cr3_of at t stack_phys mapped kstack_phys pfstack_phys fpu c entry stack s =
     rbind (sched_new_user_thread hh cr3_of at t stack_phys mapped kstack_phys pfstack_phys fpu (current_process c s) entry 0 stack None True s)
       (\<lambda>(r, s1). case r of Inl _ \<Rightarrow> Inl NullDeref | Inr (new, _) \<Rightarrow> Inr (t_tid s1 new, s1))"

definition die :: "nat \<Rightarrow> 's kern \<Rightarrow> 's kern result" where
  "die c s = rbind (sched_dequeue_and_die c (ks_sched (k_sys s))) (\<lambda>q. Inr (s\<lparr>k_sys := (k_sys s)\<lparr>ks_sched := q\<rparr>\<rparr>))"

definition syscall_exit_thread :: "nat \<Rightarrow> 's kern \<Rightarrow> 's kern result" where
  "syscall_exit_thread c s = die c s"

definition syscall_getpid :: "nat \<Rightarrow> 's kern \<Rightarrow> int" where
  "syscall_getpid c s = p_pid (procs s (current_process c s))"

definition syscall_umask :: "nat \<Rightarrow> u32 \<Rightarrow> 's kern \<Rightarrow> u32 \<times> 's kern" where
  "syscall_umask c new_mask s =
     (p_umask (procs s (current_process c s)), put_proc (current_process c s) (\<lambda>p. p\<lparr>p_umask := new_mask\<rparr>) s)"

text \<open>
  The fields of \<open>struct utsname\<close> that are written, each an array of \<open>n\<close> characters filled by \<open>strncpy\<close>; \<open>build\<close> is the
  date and time of the build.
\<close>

record utsname =
  sysname :: string
  nodename :: string
  release :: string
  version :: string

definition char_array :: "nat \<Rightarrow> string \<Rightarrow> string" where
  "char_array n str = take n (str @ replicate n (CHR 0x00))"

definition syscall_uname :: "nat \<Rightarrow> string \<Rightarrow> utsname" where
  "syscall_uname n build = \<lparr>sysname = char_array n ''Lyre'', nodename = char_array n ''lyre'', release = char_array n ''0.0.1'',
     version = char_array n build\<rparr>"

subsection \<open>fork\<close>

text \<open>\<open>fp i\<close> is the address of the copy of descriptor \<open>i\<close>; \<open>fdnum_dup\<close> takes \<open>NULL\<close> for the calling process.\<close>

fun fork_fds :: "abi \<Rightarrow> (nat \<Rightarrow> u64) \<Rightarrow> u64 \<Rightarrow> u64 \<Rightarrow> nat list \<Rightarrow> 's files \<Rightarrow> ('s, unit) fdcall" where
  "fork_fds a fp proc new [] s = Inr (Inr (), s)"
| "fork_fds a fp proc new (i # is) s =
     rbind (arr_get (fds (tables s proc)) i) (\<lambda>fd.
       if fd = 0 then fork_fds a fp proc new is s
       else rbind (fdnum_dup a (fp i) proc (int i) (if new = 0 then proc else new) (int i) 0 True False s) (\<lambda>(r, s1).
              case r of
                Inl e \<Rightarrow> Inr (Inl e, s1)
              | Inr n \<Rightarrow> if n \<noteq> int i then Inr (Inl None, s1) else fork_fds a fp proc new is s1))"

text \<open>The thread of the child: a copy of the registers with zero as its result.\<close>

definition fork_thread :: "u64 \<Rightarrow> (u64 \<Rightarrow> u64) \<Rightarrow> u64 \<Rightarrow> u64 \<Rightarrow> u64 \<Rightarrow> u64 \<Rightarrow> u64 \<Rightarrow> u64 \<Rightarrow> cpu_ctx \<Rightarrow> u64 \<Rightarrow> 's kern \<Rightarrow> 's kern" where
  "fork_thread hh cr3_of t kstack_phys pfstack_phys gs fs thread ctx new s =
     (let p = thread_of (k_sys s) thread;
          r = thread_zero\<lparr>kernel_stack := kstack_phys + STACK_SIZE + hh, pf_stack := kstack_phys + STACK_SIZE + hh,
                t_ctx := ctx\<lparr>ctx_regs := (ctx_regs ctx)[REG_RAX := 0, REG_RBX := 0]\<rparr>, cr3 := cr3_of (p_pagemap (procs s new)),
                timeslice := timeslice p, gs_base := gs, fs_base := fs, running_on := -1, fpu_storage := fpu_storage p\<rparr>;
          s1 = (set_thread t r s)\<lparr>t_process := (t_process s)(t := new), t_tid := (t_tid s)(t := 0),
                 t_stacks := (t_stacks s)(t := [kstack_phys, pfstack_phys])\<rparr>
      in enqueue_kern t (put_proc new (\<lambda>q. q\<lparr>p_threads := p_threads q @ [t]\<rparr>) s1))"

definition syscall_fork ::
  "u64 \<Rightarrow> (u64 \<Rightarrow> u64) \<Rightarrow> abi \<Rightarrow> u64 \<Rightarrow> u64 \<Rightarrow> (nat \<Rightarrow> u64) \<Rightarrow> u64 \<Rightarrow> u64 \<Rightarrow> u64 \<Rightarrow> u64 \<Rightarrow> u64 \<Rightarrow> nat \<Rightarrow> cpu_ctx \<Rightarrow> 's kern \<Rightarrow>
   ((errno option + int) \<times> 's kern) result" where
  "syscall_fork hh cr3_of a new forked fp t kstack_phys pfstack_phys gs fs c ctx s =
     (let thread = current_thread c s; proc = current_process c s;
          (rp, s1) = sched_new_process new proc 0 forked 0 s;
          new_proc = (case rp of Inl _ \<Rightarrow> 0 | Inr p \<Rightarrow> p)
      in rbind (fork_fds a fp proc new_proc [0 ..< MAX_FDS] (k_files s1)) (\<lambda>(r, fs1).
           let s2 = s1\<lparr>k_files := fs1\<rparr>
           in case r of
                Inl e \<Rightarrow> Inr (Inl e, if new_proc = 0 then s2 else free_kern new_proc s2)
              | Inr _ \<Rightarrow>
                  if t = 0 then Inr (Inl (Some ENOMEM), if new_proc = 0 then s2 else free_kern new_proc s2)
                  else if new_proc = 0 then Inl NullDeref
                  else Inr (Inr (p_pid (procs s2 new_proc)), fork_thread hh cr3_of t kstack_phys pfstack_phys gs fs thread ctx new_proc s2)))"


subsection \<open>exec\<close>

text \<open>
  \<open>load\<close> is what finding and loading the program and its interpreter gave: the entry point, the program's
  auxiliary values and the name \<open>vfs_pathname\<close> writes.  On success the calling thread leaves the process and dies; on a failure after the page map was
  replaced the old one is gone from the process and the thread list is empty.
\<close>

definition exec_image :: "u64 \<Rightarrow> u64 \<Rightarrow> 's kern \<Rightarrow> 's kern" where
  "exec_image new_pagemap proc s = put_proc proc (\<lambda>p. p\<lparr>p_pagemap := new_pagemap, thread_stack_top := 0x70000000000,
     p_mmap_anon_base := 0x80000000000, p_threads := []\<rparr>) s"

definition syscall_exec ::
  "u64 \<Rightarrow> (u64 \<Rightarrow> u64) \<Rightarrow> auxkeys \<Rightarrow> u64 \<Rightarrow> u64 \<Rightarrow> (u64 \<times> auxval \<times> string) option \<Rightarrow> u64 \<Rightarrow> u64 \<Rightarrow> bool \<Rightarrow> u64 \<Rightarrow> u64 \<Rightarrow> u8 list \<Rightarrow> nat \<Rightarrow>
   u8 list list \<Rightarrow> u8 list list \<Rightarrow> 's kern \<Rightarrow> ((errno option + u8 list) \<times> 's kern) result" where
  "syscall_exec hh cr3_of at kproc new_pagemap load t stack_phys mapped kstack_phys pfstack_phys fpu c argv envp s =
     (let thread = current_thread c s; proc = current_process c s; old_pagemap = p_pagemap (procs s proc)
      in case load of
           None \<Rightarrow> Inr (Inl None, s)
         | Some (entry, auxv, path) \<Rightarrow>
             rbind (sched_new_user_thread hh cr3_of at t stack_phys mapped kstack_phys pfstack_phys fpu proc entry 0 0 (Some (argv, envp, auxv)) True
                      (exec_image new_pagemap proc s)) (\<lambda>(r, s1).
               case r of
                 Inl e \<Rightarrow> Inr (Inl e, s1)
               | Inr (_, bs) \<Rightarrow>
                   let s2 = put_proc proc (\<lambda>p. p\<lparr>p_name := path\<rparr>) s1;
                       s3 = s2\<lparr>t_process := (t_process s2)(thread := kproc), destroyed := destroyed s2 @ [old_pagemap]\<rparr>
                   in rbind (die c s3) (\<lambda>s4. Inr (Inr bs, s4))))"

subsection \<open>exit and waitpid\<close>

fun close_all :: "u64 \<Rightarrow> nat list \<Rightarrow> 's files \<Rightarrow> 's files result" where
  "close_all proc [] s = Inr s"
| "close_all proc (i # is) s = rbind (fdnum_close proc (int i) True s) (\<lambda>(_, s1). close_all proc is s1)"

text \<open>The first process inherits the children; the loop looks at the length of the list in every turn.\<close>

partial_function (option) adopt :: "u64 \<Rightarrow> u64 \<Rightarrow> nat \<Rightarrow> 's kern \<Rightarrow> 's kern option" where
  [code]: "adopt proc pid1 i s =
     (if i < length (children (procs s proc))
      then let it = children (procs s proc) ! i
           in adopt proc pid1 (Suc i) (put_proc pid1 (\<lambda>p. p\<lparr>children := children p @ [it], child_events := child_events p @ [proc_event it]\<rparr>) s)
      else Some s)"

definition adopt_children :: "u64 \<Rightarrow> 's kern \<Rightarrow> 's kern result option" where
  "adopt_children proc s =
     (if p_pid (procs s proc) = -1 \<or> children (procs s proc) = [] then Some (Inr s)
      else case vitem (processes s) 1 of
             None \<Rightarrow> Some (Inl OutOfBounds)
           | Some pid1 \<Rightarrow> map_option Inr (adopt proc pid1 0 s))"

text \<open>\<open>exitcode\<close> is \<open>W_EXITCODE(status, 0)\<close>.  The end of a process on CPU \<open>c\<close>, as long as the loop ends.\<close>

definition exit_end :: "u64 \<Rightarrow> u64 \<Rightarrow> u32 \<Rightarrow> nat \<Rightarrow> 's kern \<Rightarrow> 's kern result" where
  "exit_end proc old_pagemap exitcode c s =
     (let s1 = put_proc proc (\<lambda>p. p\<lparr>p_status := exitcode\<rparr>) (s\<lparr>destroyed := destroyed s @ [old_pagemap]\<rparr>)
      in rbind (event_trigger (proc_event proc) False (k_sys s1)) (\<lambda>(_, ks). die c (s1\<lparr>k_sys := ks\<rparr>)))"

definition syscall_exit :: "u64 \<Rightarrow> u32 \<Rightarrow> nat \<Rightarrow> 's kern \<Rightarrow> 's kern result option" where
  "syscall_exit kproc exitcode c s =
     (let thread = current_thread c s; proc = current_process c s; old_pagemap = p_pagemap (procs s proc);
          s1 = s\<lparr>t_process := (t_process s)(thread := kproc)\<rparr>
      in case close_all proc [0 ..< MAX_FDS] (k_files s1) of
           Inl f \<Rightarrow> Some (Inl f)
         | Inr fs \<Rightarrow> map_option (\<lambda>r. rbind r (exit_end proc old_pagemap exitcode c)) (adopt_children proc (s1\<lparr>k_files := fs\<rparr>)))"

datatype wait_target = Wait_any | Wait_child u64

definition wait_select :: "u64 \<Rightarrow> int \<Rightarrow> 's kern \<Rightarrow> errno + wait_target" where
  "wait_select proc pid s =
     (if pid = -1 then if children (procs s proc) = [] then Inl ECHILD else Inr Wait_any
      else if pid < -1 \<or> pid = 0 then Inl EINVAL
      else if children (procs s proc) = [] then Inl ECHILD
      else case vitem (processes s) pid of
             None \<Rightarrow> Inl ECHILD
           | Some child \<Rightarrow> if p_ppid (procs s child) \<noteq> p_pid (procs s proc) then Inl ECHILD else Inr (Wait_child child))"

definition wait_events :: "u64 \<Rightarrow> wait_target \<Rightarrow> 's kern \<Rightarrow> u64 list" where
  "wait_events proc w s = (case w of Wait_any \<Rightarrow> child_events (procs s proc) | Wait_child child \<Rightarrow> [proc_event child])"

text \<open>
  \<open>VECTOR_REMOVE_BY_VALUE\<close>: the last element goes when the value is not there. The length of an empty vector
  wraps around, and its next use leaves the array; a list cannot have that length, so the model stops with
  the fault already at the removal.
\<close>

definition vremove :: "'a \<Rightarrow> 'a list \<Rightarrow> 'a list result" where
  "vremove x xs = (if xs = [] then Inl OutOfBounds else Inr (if x \<in> set xs then remove1 x xs else butlast xs))"

text \<open>The part of \<open>syscall_waitpid\<close> behind the wait; the new value of \<open>*status\<close> is part of the result.\<close>

definition wait_reap :: "u64 \<Rightarrow> bool \<Rightarrow> wait_target \<Rightarrow> int \<Rightarrow> 's kern \<Rightarrow> ((errno + int \<times> u32 option) \<times> 's kern) result" where
  "wait_reap proc block w which s =
     (if which = -1 then Inr (if block then Inr (0, None) else Inl EINTR, s)
      else case (case w of Wait_child child \<Rightarrow> Some child | Wait_any \<Rightarrow> vitem (children (procs s proc)) which) of
             None \<Rightarrow> Inl OutOfBounds
           | Some child \<Rightarrow>
               rbind (vremove (proc_event child) (child_events (procs s proc))) (\<lambda>es.
               rbind (vremove child (children (procs s proc))) (\<lambda>cs.
               rbind (vremove child (processes s)) (\<lambda>ps.
                 Inr (Inr (p_pid (procs s child), Some (p_status (procs s child))),
                      (put_proc proc (\<lambda>p. p\<lparr>child_events := es, children := cs\<rparr>) s)\<lparr>processes := ps\<rparr>)))))"

datatype wait_outcome = Wait_error errno | Wait_ret int "u32 option" | Wait_blocked wait_target

text \<open>\<open>syscall_waitpid\<close> up to the switch to another thread.\<close>

definition syscall_waitpid :: "nat \<Rightarrow> int \<Rightarrow> bool \<Rightarrow> 's kern \<Rightarrow> (wait_outcome \<times> 's kern) result" where
  "syscall_waitpid c pid wnohang s =
     (let proc = current_process c s
      in case wait_select proc pid s of
           Inl e \<Rightarrow> Inr (Wait_error e, s)
         | Inr w \<Rightarrow>
             rbind (event_await_begin c (wait_events proc w s) (\<not> wnohang) (k_sys s)) (\<lambda>(out, ks).
               let s1 = s\<lparr>k_sys := ks\<rparr>
               in case out of
                    Await_blocked \<Rightarrow> Inr (Wait_blocked w, s1)
                  | Await_done which \<Rightarrow> rbind (wait_reap proc (\<not> wnohang) w which s1) (\<lambda>(r, s2).
                      Inr (case r of Inl e \<Rightarrow> Wait_error e | Inr (n, st) \<Rightarrow> Wait_ret n st, s2))))"


subsection \<open>Futexes\<close>

text \<open>
  The events of futexes (\<open>sched/proc.c\<close>), by the physical address \<open>phys\<close> that \<open>vmm_virt2phys\<close> gives for the futex
  word.  That is the address of the word's page, so all futexes of a page share one event.  \<open>word\<close> is the
  futex word's value, \<open>ev\<close> the address of a new event.
\<close>

record futexes =
  futex_lock :: spinlock
  futex_hashmap :: "u64 hashmap"

definition futexes_static :: futexes where
  "futexes_static = \<lparr>futex_lock = SPINLOCK_INIT, futex_hashmap = HASHMAP_INIT 256\<rparr>"

text \<open>The size of an item: 256 bytes of key, its length and the pointer.\<close>

definition FUTEX_ITEM :: u64 where
  "FUTEX_ITEM = 272"

definition proc_init :: "(u64 \<Rightarrow> u64 bucket list option) \<Rightarrow> u64 hitem realloc \<Rightarrow> futexes \<Rightarrow> futexes result" where
  "proc_init alloc realloc f = rbind (HASHMAP_INSERT alloc realloc FUTEX_ITEM (futex_hashmap f) (word_bytes 0) 0)
     (\<lambda>m. Inr (f\<lparr>futex_hashmap := m\<rparr>))"

definition futex_event :: "(u64 \<Rightarrow> u64 bucket list option) \<Rightarrow> u64 hitem realloc \<Rightarrow> u64 \<Rightarrow> u64 \<Rightarrow> futexes \<Rightarrow> (u64 \<times> futexes) result" where
  "futex_event alloc realloc phys ev f =
     rbind (spinlock_acquire ''syscall_futex_wait'' (futex_lock f)) (\<lambda>l.
     rbind (HASHMAP_GET (futex_hashmap f) (word_bytes phys)) (\<lambda>found.
     rbind (case found of
              Some e \<Rightarrow> Inr (e, futex_hashmap f)
            | None \<Rightarrow> rbind (HASHMAP_INSERT alloc realloc FUTEX_ITEM (futex_hashmap f) (word_bytes phys) ev) (\<lambda>m. Inr (ev, m))) (\<lambda>(e, m).
       Inr (e, \<lparr>futex_lock = spinlock_release l, futex_hashmap = m\<rparr>))))"

text \<open>\<open>syscall_futex_wait\<close> up to the switch; the call never succeeds: \<open>ret\<close> stays \<open>-1\<close> even when it was woken.\<close>

datatype futex_outcome = Futex_fails "errno option" | Futex_blocked u64

definition syscall_futex_wait ::
  "(u64 \<Rightarrow> u64 bucket list option) \<Rightarrow> u64 hitem realloc \<Rightarrow> nat \<Rightarrow> u32 \<Rightarrow> u32 \<Rightarrow> u64 \<Rightarrow> u64 \<Rightarrow> futexes \<Rightarrow> ksys \<Rightarrow>
   (futex_outcome \<times> futexes \<times> ksys) result" where
  "syscall_futex_wait alloc realloc c word expected phys ev f s =
     (if word \<noteq> expected then Inr (Futex_fails (Some EAGAIN), f, s)
      else rbind (futex_event alloc realloc phys ev f) (\<lambda>(e, f1).
           if e = 0 then Inl NullDeref
           else rbind (event_await_begin c [e] True s) (\<lambda>(out, s1).
                  Inr (case out of Await_blocked \<Rightarrow> Futex_blocked e
                       | Await_done which \<Rightarrow> Futex_fails (if which = -1 then Some EINTR else None), f1, s1))))"

definition futex_wait_end :: "u64 \<Rightarrow> u64 \<Rightarrow> ksys \<Rightarrow> (errno option \<times> ksys) result" where
  "futex_wait_end t e s = rbind (event_await_end t [e] s) (\<lambda>(which, s1). Inr (if which = -1 then Some EINTR else None, s1))"

definition syscall_futex_wake :: "u64 \<Rightarrow> futexes \<Rightarrow> ksys \<Rightarrow> (futexes \<times> ksys) result" where
  "syscall_futex_wake phys f s =
     rbind (spinlock_acquire ''syscall_futex_wake'' (futex_lock f)) (\<lambda>l.
     rbind (HASHMAP_GET (futex_hashmap f) (word_bytes phys)) (\<lambda>found.
     rbind (case found of
              None \<Rightarrow> Inr s
            | Some e \<Rightarrow> if e = 0 then Inl NullDeref else rbind (event_trigger e False s) (\<lambda>(_, s1). Inr s1)) (\<lambda>s1.
       Inr (f\<lparr>futex_lock := spinlock_release l\<rparr>, s1))))"


subsection \<open>Descriptors of a forked process\<close>

text \<open>Duplicating a descriptor into the same free slot of another process.\<close>

lemma create_fd_specific:
  assumes ok: "table_ok p s" and n: "in_range n" and free: "slot p n s = 0"
  shows "\<exists>s'. fdnum_create_from_fd p fd n True s = Inr (Inr n, s') \<and> table_ok p s' \<and>
    fds (tables s' p) = (fds (tables s p))[nat n := fd] \<and> (\<forall>q. q \<noteq> p \<longrightarrow> tables s' q = tables s q) \<and>
    descriptors s' = descriptors s \<and> descriptions s' = descriptions s \<and> resources s' = resources s \<and> freed s' = freed s"
proof -
  let ?l = "put_table p (\<lambda>t. t\<lparr>fds_lock := (fds_lock t)\<lparr>lock_word := 1, last_acquirer := ''fdnum_create_from_fd''\<rparr>\<rparr>) s"
  have len: "length (fds (tables ?l p)) = MAX_FDS" using ok by (simp add: table_ok_def)
  have "close_slot p n ?l = Inr (Inl (Some EBADF), ?l)" by (rule close_slot_empty [OF len]) (use free in simp)
  then show ?thesis using n ok len
    by (auto simp: fdnum_create_from_fd_def lock_fds_ok [OF ok] fdnum_close_def in_range_def intro!: unlock_table_ok)
      (simp_all add: unlock_fds_def)
qed

lemma dup_across:
  assumes ok: "table_ok p s" "table_ok q s" and ne: "p \<noteq> q" and n: "in_range n" and fd: "slot p n s \<noteq> 0" and free: "slot q n s = 0"
    and fp: "fp \<noteq> 0" "fp \<noteq> slot p n s"
  defines "d \<equiv> fd_description (descriptors s (slot p n s))"
  shows "\<exists>s'. fdnum_dup a fp p n q n 0 True False s = Inr (Inr n, s') \<and> table_ok p s' \<and> table_ok q s' \<and>
    fds (tables s' p) = fds (tables s p) \<and> fds (tables s' q) = (fds (tables s q))[nat n := fp] \<and> freed s' = freed s \<and>
    descriptors s' = (descriptors s)(fp := \<lparr>fd_description = d, fd_flags = 0\<rparr>) \<and>
    descriptions s' = (descriptions s)(d := (descriptions s d)\<lparr>d_refcount := d_refcount (descriptions s d) + 2\<rparr>)"
proof -
  let ?ofd = "slot p n s"
  obtain s1 where s1: "fd_from_fdnum p n s = Inr (Inr ?ofd, s1)" "table_ok p s1" "\<And>q. fds (tables s1 q) = fds (tables s q)"
      "descriptors s1 = descriptors s" "freed s1 = freed s"
      "\<And>e. descriptions s1 e = (if e = d then (descriptions s e)\<lparr>d_refcount := d_refcount (descriptions s e) + 1\<rparr> else descriptions s e)"
    using fd_from_fdnum_found [OF ok(1) n fd] unfolding d_def by auto
  have "tables s1 q = tables s q"
    using s1(1) ne n fd ok(1) by (auto simp: fd_from_fdnum_def lock_fds_ok unlock_fds_def in_range_def rbind_def split: sum.splits if_splits)
  then have s2: "table_ok q (put_fd fp (\<lambda>_. descriptors s1 ?ofd) s1)" using ok(2) by (simp add: table_ok_def)
  obtain s3 where s3: "fdnum_create_from_fd q fp n True (put_fd fp (\<lambda>_. descriptors s1 ?ofd) s1) = Inr (Inr n, s3)" "table_ok q s3"
      "fds (tables s3 q) = (fds (tables s1 q))[nat n := fp]" "\<And>r. r \<noteq> q \<Longrightarrow> tables s3 r = tables s1 r"
      "\<And>x. descriptors s3 x = (if x = fp then descriptors s1 ?ofd else descriptors s1 x)" "descriptions s3 = descriptions s1" "freed s3 = freed s1"
    using create_fd_specific [OF s2 n, of fp] free s1(3) by auto
  show ?thesis using s1 s3 fp ne
    by (auto simp: fdnum_dup_def d_def [symmetric] Let_def fun_eq_iff table_ok_def)
qed

text \<open>How many of the slots refer to a description.\<close>

definition refs_from :: "u64 \<Rightarrow> nat list \<Rightarrow> 's files \<Rightarrow> u64 \<Rightarrow> nat" where
  "refs_from p js s d = length (filter (\<lambda>i. slot p (int i) s \<noteq> 0 \<and> fd_description (descriptors s (slot p (int i) s)) = d) js)"

definition fork_ready :: "(nat \<Rightarrow> u64) \<Rightarrow> u64 \<Rightarrow> u64 \<Rightarrow> 's files \<Rightarrow> bool" where
  "fork_ready fp p q s \<longleftrightarrow> table_ok p s \<and> table_ok q s \<and> p \<noteq> q \<and> q \<noteq> 0 \<and> inj_on fp {..<MAX_FDS} \<and>
     (\<forall>i < MAX_FDS. fp i \<noteq> 0 \<and> fp i \<notin> set (fds (tables s p)))"

lemma fork_fds_copies:
  assumes "fork_ready fp p q s" and "distinct js" and "\<forall>i \<in> set js. i < MAX_FDS \<and> fds (tables s q) ! i = 0"
  shows "\<exists>s'. fork_fds a fp p q js s = Inr (Inr (), s') \<and> fork_ready fp p q s' \<and> fds (tables s' p) = fds (tables s p) \<and> freed s' = freed s \<and>
    (\<forall>i < MAX_FDS. fds (tables s' q) ! i = (if i \<in> set js \<and> fds (tables s p) ! i \<noteq> 0 then fp i else fds (tables s q) ! i)) \<and>
    (\<forall>i \<in> set js. fds (tables s p) ! i \<noteq> 0 \<longrightarrow>
       descriptors s' (fp i) = \<lparr>fd_description = fd_description (descriptors s (fds (tables s p) ! i)), fd_flags = 0\<rparr>) \<and>
    (\<forall>x. x \<notin> fp ` set js \<longrightarrow> descriptors s' x = descriptors s x) \<and>
    (\<forall>d. descriptions s' d = (descriptions s d)\<lparr>d_refcount := d_refcount (descriptions s d) + 2 * of_nat (refs_from p js s d)\<rparr>)"
  using assms
proof (induction js arbitrary: s)
  case Nil
  then show ?case by (simp add: refs_from_def)
next
  case (Cons i js)
  have i: "i < MAX_FDS" "fds (tables s q) ! i = 0" and len: "length (fds (tables s p)) = MAX_FDS" "length (fds (tables s q)) = MAX_FDS"
    using Cons.prems by (auto simp: fork_ready_def table_ok_def)
  show ?case
  proof (cases "fds (tables s p) ! i = 0")
    case True
    then have "refs_from p (i # js) s = refs_from p js s" by (simp add: refs_from_def fun_eq_iff)
    then show ?thesis using Cons.IH [OF Cons.prems(1)] Cons.prems(2,3) True i len by auto
  next
    case False
    define o' where "o' = fds (tables s p) ! i"
    define d where "d = fd_description (descriptors s o')"
    have io: "o' \<in> set (fds (tables s p))" using i len by (simp add: o'_def)
    obtain s1 where s1: "fdnum_dup a (fp i) p (int i) q (int i) 0 True False s = Inr (Inr (int i), s1)" "table_ok p s1" "table_ok q s1"
      "fds (tables s1 p) = fds (tables s p)" "fds (tables s1 q) = (fds (tables s q))[i := fp i]" "freed s1 = freed s"
      "descriptors s1 = (descriptors s)(fp i := \<lparr>fd_description = d, fd_flags = 0\<rparr>)"
      "descriptions s1 = (descriptions s)(d := (descriptions s d)\<lparr>d_refcount := d_refcount (descriptions s d) + 2\<rparr>)"
    proof -
      have "fp i \<noteq> 0" "fp i \<noteq> slot p (int i) s" "in_range (int i)" "table_ok p s" "table_ok q s" "p \<noteq> q"
        using Cons.prems(1) io i by (simp_all add: fork_ready_def in_range_def o'_def) metis
      from dup_across [OF this(4,5,6,3) _ _ this(1,2), of a] False i(2) that show thesis
        unfolding d_def o'_def by auto
    qed
    have r1: "fork_ready fp p q s1" using Cons.prems(1) s1 by (simp add: fork_ready_def)
    have ih: "\<forall>j \<in> set js. j < MAX_FDS \<and> fds (tables s1 q) ! j = 0" using Cons.prems(2,3) s1(5) by (metis distinct.simps(2) list.set_intros(2) nth_list_update_neq)
    from Cons.IH [OF r1 _ ih] Cons.prems(2) obtain s' where s': "fork_fds a fp p q js s1 = Inr (Inr (), s')" "fork_ready fp p q s'"
      "fds (tables s' p) = fds (tables s1 p)" "freed s' = freed s1"
      "\<forall>j < MAX_FDS. fds (tables s' q) ! j = (if j \<in> set js \<and> fds (tables s1 p) ! j \<noteq> 0 then fp j else fds (tables s1 q) ! j)"
      "\<forall>j \<in> set js. fds (tables s1 p) ! j \<noteq> 0 \<longrightarrow>
         descriptors s' (fp j) = \<lparr>fd_description = fd_description (descriptors s1 (fds (tables s1 p) ! j)), fd_flags = 0\<rparr>"
      "\<forall>x. x \<notin> fp ` set js \<longrightarrow> descriptors s' x = descriptors s1 x"
      "\<forall>e. descriptions s' e = (descriptions s1 e)\<lparr>d_refcount := d_refcount (descriptions s1 e) + 2 * of_nat (refs_from p js s1 e)\<rparr>"
      by auto
    have injf: "inj_on fp {..<MAX_FDS}" and fresh: "\<And>j k. j < MAX_FDS \<Longrightarrow> k < MAX_FDS \<Longrightarrow> fds (tables s p) ! j \<noteq> fp k"
      using Cons.prems(1) len by (auto simp: fork_ready_def) (metis nth_mem)
    have old: "descriptors s1 (fds (tables s p) ! j) = descriptors s (fds (tables s p) ! j)" if "j < MAX_FDS" for j
      using fresh [OF that i(1)] s1(7) by simp
    have jr: "j < MAX_FDS" if "j \<in> set js" for j using that Cons.prems(3) by simp
    have refs: "refs_from p (i # js) s e = (if e = d then 1 else 0) + refs_from p js s1 e" for e
    proof -
      have "filter (\<lambda>j. slot p (int j) s1 \<noteq> 0 \<and> fd_description (descriptors s1 (slot p (int j) s1)) = e) js =
        filter (\<lambda>j. slot p (int j) s \<noteq> 0 \<and> fd_description (descriptors s (slot p (int j) s)) = e) js"
        using old jr s1(4) by (intro filter_cong) auto
      then show ?thesis using False by (simp add: refs_from_def d_def o'_def)
    qed
    have "fp i \<notin> fp ` set js" using injf jr i(1) Cons.prems(2) by (auto simp: inj_on_def)
    then have "descriptors s' (fp i) = \<lparr>fd_description = d, fd_flags = 0\<rparr>" using s'(7) s1(7) by simp
    then have "\<forall>j \<in> set (i # js). fds (tables s p) ! j \<noteq> 0 \<longrightarrow>
       descriptors s' (fp j) = \<lparr>fd_description = fd_description (descriptors s (fds (tables s p) ! j)), fd_flags = 0\<rparr>"
      using s'(6) s1(4) old jr by (auto simp: d_def o'_def)
    moreover have "\<forall>x. x \<notin> fp ` set (i # js) \<longrightarrow> descriptors s' x = descriptors s x" using s'(7) s1(7) by auto
    moreover have "fds (tables s' q) ! j = (if j \<in> set (i # js) \<and> fds (tables s p) ! j \<noteq> 0 then fp j else fds (tables s q) ! j)"
      if "j < MAX_FDS" for j
      using s'(5) s1(4,5) that i len False Cons.prems(2) by (auto simp: nth_list_update)
    moreover have "descriptions s' e = (descriptions s e)\<lparr>d_refcount := d_refcount (descriptions s e) + 2 * of_nat (refs_from p (i # js) s e)\<rparr>" for e
      using s'(8) s1(8) by (simp add: refs algebra_simps)
    moreover have "fork_fds a fp p q (i # js) s = Inr (Inr (), s')"
      using s1(1) s'(1) False i len Cons.prems(1)
      by (auto simp: fork_ready_def)
    ultimately show ?thesis using s'(2,3,4) s1(4,6) by auto
  qed
qed


lemma kern_frame [simp]:
  "k_files (put_proc p f s) = k_files s" "k_sys (put_proc p f s) = k_sys s" "processes (put_proc p f s) = processes s"
  "procs (put_proc p f s) q = (if q = p then f (procs s p) else procs s q)" "t_process (put_proc p f s) = t_process s"
  "k_files (set_thread t r s) = k_files s" "processes (set_thread t r s) = processes s" "procs (set_thread t r s) = procs s"
  "k_files (enqueue_kern t s) = k_files s" "processes (enqueue_kern t s) = processes s" "procs (enqueue_kern t s) = procs s"
  "thread_of (k_sys (set_thread t r s)) u = (if u = t then r else thread_of (k_sys s) u)"
  "running_queue (ks_sched (k_sys (set_thread t r s))) = running_queue (ks_sched (k_sys s))"
  "processes (fresh_proc p s) = processes s" "procs (fresh_proc p s) q = (if q = p then process_zero else procs s q)"
  by (simp_all add: put_proc_def set_thread_def enqueue_kern_def fresh_proc_def on_thread_def put_thread_def thread_of_def)

lemma send_wakeup_frame [simp]: "threads (send_wakeup q) = threads q" "running_queue (send_wakeup q) = running_queue q"
  by (simp_all add: send_wakeup_def split: option.split)

lemma cas_slot_mem: "0 \<in> set q \<Longrightarrow> \<exists>q'. cas_slot 0 t q = Some q' \<and> t \<in> set q'"
  by (induction q) auto

lemma enqueue_kern_thread:
  assumes "\<not> enqueued (thread_of (k_sys s) t)"
  shows "t_ctx (thread_of (k_sys (enqueue_kern t s)) t) = t_ctx (thread_of (k_sys s) t)"
    and "cr3 (thread_of (k_sys (enqueue_kern t s)) t) = cr3 (thread_of (k_sys s) t)"
    and "kernel_stack (thread_of (k_sys (enqueue_kern t s)) t) = kernel_stack (thread_of (k_sys s) t)"
    and "pf_stack (thread_of (k_sys (enqueue_kern t s)) t) = pf_stack (thread_of (k_sys s) t)"
    and "0 \<in> set (running_queue (ks_sched (k_sys s))) \<Longrightarrow> t \<in> set (running_queue (ks_sched (k_sys (enqueue_kern t s))))"
  using assms cas_slot_mem [of "running_queue (ks_sched (k_sys s))" t]
  by (auto simp: enqueue_kern_def sched_enqueue_thread_def thread_of_def put_thread_def Let_def split: option.splits)

lemma fresh_proc_files:
  "tables (k_files (fresh_proc p s)) q = (if q = p then \<lparr>fds_lock = SPINLOCK_INIT, fds = replicate MAX_FDS 0\<rparr> else tables (k_files s) q)"
  "descriptors (k_files (fresh_proc p s)) = descriptors (k_files s)" "descriptions (k_files (fresh_proc p s)) = descriptions (k_files s)"
  "freed (k_files (fresh_proc p s)) = freed (k_files s)"
  by (simp_all add: fresh_proc_def)

lemma fresh_table_ok: "table_ok p (k_files (fresh_proc p s))"
  by (simp add: table_ok_def fresh_proc_files)

text \<open>C16. When no allocation fails, \<open>fork\<close> returns the new process's identifier, the number of processes so far, and makes
  the new process a child of the caller with the forked page map; its thread resumes with the caller's registers and
  zero in \<open>rax\<close> and \<open>rbx\<close>, and it is queued when the queue has room. Each open descriptor of the caller has a copy in the
  same slot that refers to the same description, so both processes share offset and status flags. But the copy's flags are
  clear, close-on-exec included; every copy adds two references to its description; and the thread's page fault
  stack is its kernel stack.\<close>

theorem fork_shares_descriptors:
  fixes s :: "'s kern"
  assumes proc: "proc = current_process c s" "proc \<noteq> 0" and new: "new \<noteq> 0" "new \<noteq> proc" and forked: "forked \<noteq> 0" and t: "t \<noteq> 0"
    and ok: "table_ok proc (k_files s)" and fp: "inj_on fp {..<MAX_FDS}" "\<And>i. i < MAX_FDS \<Longrightarrow> fp i \<noteq> 0 \<and> fp i \<notin> set (fds (tables (k_files s) proc))"
    and regs: "length (ctx_regs ctx) = 22" and room: "0 \<in> set (running_queue (ks_sched (k_sys s)))"
  shows "\<exists>s'. syscall_fork hh cr3_of a new forked fp t kst pst gs fs c ctx s = Inr (Inr (int (length (processes s))), s') \<and>
    processes s' = processes s @ [new] \<and> children (procs s' proc) = children (procs s proc) @ [new] \<and>
    p_pid (procs s' new) = int (length (processes s)) \<and> p_ppid (procs s' new) = p_pid (procs s proc) \<and> p_pagemap (procs s' new) = forked \<and>
    t_ctx (thread_of (k_sys s') t) = ctx\<lparr>ctx_regs := (ctx_regs ctx)[REG_RAX := 0, REG_RBX := 0]\<rparr> \<and>
    cr3 (thread_of (k_sys s') t) = cr3_of forked \<and> t \<in> set (running_queue (ks_sched (k_sys s'))) \<and>
    fds (tables (k_files s') proc) = fds (tables (k_files s) proc) \<and>
    (\<forall>i < MAX_FDS. fds (tables (k_files s') new) ! i = (if fds (tables (k_files s) proc) ! i = 0 then 0 else fp i)) \<and>
    (\<forall>i < MAX_FDS. fds (tables (k_files s) proc) ! i \<noteq> 0 \<longrightarrow> descriptors (k_files s') (fp i) =
       \<lparr>fd_description = fd_description (descriptors (k_files s) (fds (tables (k_files s) proc) ! i)), fd_flags = 0\<rparr>) \<and>
    (\<forall>d. d_refcount (descriptions (k_files s') d) =
       d_refcount (descriptions (k_files s) d) + 2 * of_nat (refs_from proc [0 ..< MAX_FDS] (k_files s) d)) \<and>
    pf_stack (thread_of (k_sys s') t) = kernel_stack (thread_of (k_sys s') t)"
proof -
  define s1 where "s1 = snd (sched_new_process new proc 0 forked 0 s)"
  have np: "sched_new_process new proc 0 forked 0 s = (Inr new, s1)"
    using new forked by (simp add: s1_def sched_new_process_def Let_def)
  have f1: "k_files s1 = k_files (fresh_proc new s)" and q1: "running_queue (ks_sched (k_sys s1)) = running_queue (ks_sched (k_sys s))"
    and p1: "processes s1 = processes s @ [new]" "p_pid (procs s1 new) = int (length (processes s))"
      "p_ppid (procs s1 new) = p_pid (procs s proc)" "p_pagemap (procs s1 new) = forked" "children (procs s1 proc) = children (procs s proc) @ [new]"
    using new forked proc(2) unfolding s1_def sched_new_process_def Let_def by (simp_all add: fresh_proc_def)
  have "fork_ready fp proc new (k_files s1)"
    using ok new fp fresh_table_ok [of new s] unfolding f1 fork_ready_def by (simp add: fresh_proc_files table_ok_def)
  moreover have "\<forall>i \<in> set [0 ..< MAX_FDS]. i < MAX_FDS \<and> fds (tables (k_files s1) new) ! i = 0"
    by (simp add: f1 fresh_proc_files)
  ultimately obtain fs1 where fs1: "fork_fds a fp proc new [0 ..< MAX_FDS] (k_files s1) = Inr (Inr (), fs1)"
      "fds (tables fs1 proc) = fds (tables (k_files s1) proc)"
      "\<forall>i < MAX_FDS. fds (tables fs1 new) ! i = (if i \<in> set [0 ..< MAX_FDS] \<and> fds (tables (k_files s1) proc) ! i \<noteq> 0 then fp i
         else fds (tables (k_files s1) new) ! i)"
      "\<forall>i \<in> set [0 ..< MAX_FDS]. fds (tables (k_files s1) proc) ! i \<noteq> 0 \<longrightarrow> descriptors fs1 (fp i) =
         \<lparr>fd_description = fd_description (descriptors (k_files s1) (fds (tables (k_files s1) proc) ! i)), fd_flags = 0\<rparr>"
      "\<forall>d. descriptions fs1 d = (descriptions (k_files s1) d)\<lparr>d_refcount := d_refcount (descriptions (k_files s1) d) +
         2 * of_nat (refs_from proc [0 ..< MAX_FDS] (k_files s1) d)\<rparr>"
    using fork_fds_copies [of fp proc new "k_files s1" "[0 ..< MAX_FDS]" a] by auto
  have refs: "refs_from proc [0 ..< MAX_FDS] (k_files s1) = refs_from proc [0 ..< MAX_FDS] (k_files s)"
    using new(2) by (simp add: f1 fresh_proc_files refs_from_def fun_eq_iff)
  define s2 where "s2 = s1\<lparr>k_files := fs1\<rparr>"
  define s' where "s' = fork_thread hh cr3_of t kst pst gs fs (current_thread c s) ctx new s2"
  have run: "syscall_fork hh cr3_of a new forked fp t kst pst gs fs c ctx s = Inr (Inr (int (length (processes s))), s')"
    using new t np fs1(1) proc(1) p1(2) by (simp add: syscall_fork_def s'_def s2_def Let_def)
  define r where "r = thread_of (k_sys s') t"
  have th: "t_ctx r = ctx\<lparr>ctx_regs := (ctx_regs ctx)[REG_RAX := 0, REG_RBX := 0]\<rparr>" "cr3 r = cr3_of forked" "pf_stack r = kernel_stack r"
    and mem: "t \<in> set (running_queue (ks_sched (k_sys s')))"
    unfolding r_def s'_def fork_thread_def Let_def
    using room q1 p1(4) by (simp_all add: enqueue_kern_thread thread_zero_def s2_def)
  have pr: "processes s' = processes s1" "children (procs s' proc) = children (procs s1 proc)" "p_pid (procs s' new) = p_pid (procs s1 new)"
      "p_ppid (procs s' new) = p_ppid (procs s1 new)" "p_pagemap (procs s' new) = p_pagemap (procs s1 new)" "k_files s' = fs1"
    using new(2) by (simp_all add: s'_def fork_thread_def Let_def s2_def)
  have "descriptors fs1 (fp i) = \<lparr>fd_description = fd_description (descriptors (k_files s) (fds (tables (k_files s) proc) ! i)), fd_flags = 0\<rparr>"
    if "i < MAX_FDS" "fds (tables (k_files s) proc) ! i \<noteq> 0" for i
    using that fs1(4) fp(1) new(2) by (auto simp: f1 fresh_proc_files)
  moreover have "fds (tables fs1 new) ! i = (if fds (tables (k_files s) proc) ! i = 0 then 0 else fp i)" if "i < MAX_FDS" for i
    using that fs1(3) new(2) by (simp add: f1 fresh_proc_files)
  moreover have "d_refcount (descriptions fs1 d) = d_refcount (descriptions (k_files s) d) + 2 * of_nat (refs_from proc [0 ..< MAX_FDS] (k_files s) d)" for d
    using fs1(5) refs by (simp add: f1 fresh_proc_files)
  moreover have "fds (tables fs1 proc) = fds (tables (k_files s) proc)" using fs1(2) new(2) by (simp add: f1 fresh_proc_files)
  ultimately show ?thesis using run th mem pr p1 unfolding r_def by auto
qed


text \<open>The kernel's process \<open>0x7000\<close> and the first process \<open>0x8000\<close> with one open descriptor, on the scheduler example.\<close>

definition kern_example :: "unit kern" where
  "kern_example = \<lparr>k_sys = event_example, k_files = open_example, processes = [0x7000, 0x8000],
     procs = (\<lambda>p. process_zero\<lparr>p_pid := (if p = 0x8000 then 1 else 0)\<rparr>), t_process = (\<lambda>_. 0x8000), t_tid = (\<lambda>_. 0),
     t_stacks = (\<lambda>_. []), destroyed = [], released = []\<rparr>"

definition fork_addrs :: "nat \<Rightarrow> u64" where
  "fork_addrs i = 0x4000 + 16 * of_nat i"

lemma fork_addrs_ok: "inj_on fork_addrs {..<MAX_FDS}" "i < MAX_FDS \<Longrightarrow> fork_addrs i \<noteq> 0 \<and> fork_addrs i \<notin> {0, 0x2000}"
proof -
  have u: "unat (fork_addrs i) = 0x4000 + 16 * i" if "i < MAX_FDS" for i
    using that by (simp add: fork_addrs_def MAX_FDS_def unat_word_ariths unat_of_nat)
  then show "inj_on fork_addrs {..<MAX_FDS}" by (auto simp: inj_on_def) (metis add_left_cancel mult_left_cancel zero_neq_numeral)
  show "fork_addrs i \<noteq> 0 \<and> fork_addrs i \<notin> {0, 0x2000}" if "i < MAX_FDS"
    using u [OF that] by (auto simp: unat_eq_zero)
qed

theorem fork_shares_descriptors_witness:
  "\<exists>s'. syscall_fork 0 id linux_abi 0x9000 0xa000 fork_addrs 0x3000 0xb000 0xc000 0 0 0 \<lparr>ctx_regs = replicate 22 5, ctx_cs = 0x4b\<rparr> kern_example =
       Inr (Inr 2, s') \<and>
     fds (tables (k_files s') 0x9000) ! 3 = 0x4030 \<and> descriptors (k_files s') 0x4030 = \<lparr>fd_description = 0x1000, fd_flags = 0\<rparr>"
proof -
  have c: "0x8000 = current_process 0 kern_example" by (simp add: current_process_def kern_example_def)
  have k: "k_files kern_example = open_example" "length (processes kern_example) = 2" by (simp_all add: kern_example_def)
  have "set (fds (tables open_example p)) \<subseteq> {0, 0x2000}" for p
    using set_update_subset_insert [of "replicate 256 0" 3 "0x2000 :: u64"] by (auto simp: open_example_def)
  then have f: "fork_addrs i \<noteq> 0 \<and> fork_addrs i \<notin> set (fds (tables (k_files kern_example) 0x8000))" if "i < MAX_FDS" for i
    using fork_addrs_ok(2) [OF that] unfolding k by (meson subsetD)
  have q: "0 \<in> set (running_queue (ks_sched (k_sys kern_example)))" by (simp add: kern_example_def event_example_def sched_example_def)
  have d: "fd_description (descriptors open_example x) = 0x1000" for x by (simp add: open_example_def)
  have a: "fork_addrs 3 = 0x4030" by (simp add: fork_addrs_def)
  have m: "3 < MAX_FDS" by (simp add: MAX_FDS_def)
  obtain s' where s': "syscall_fork 0 id linux_abi 0x9000 0xa000 fork_addrs 0x3000 0xb000 0xc000 0 0 0 \<lparr>ctx_regs = replicate 22 5, ctx_cs = 0x4b\<rparr> kern_example =
       Inr (Inr (int (length (processes kern_example))), s')"
    "\<forall>i < MAX_FDS. fds (tables (k_files s') 0x9000) ! i = (if fds (tables (k_files kern_example) 0x8000) ! i = 0 then 0 else fork_addrs i)"
    "\<forall>i < MAX_FDS. fds (tables (k_files kern_example) 0x8000) ! i \<noteq> 0 \<longrightarrow> descriptors (k_files s') (fork_addrs i) =
       \<lparr>fd_description = fd_description (descriptors (k_files kern_example) (fds (tables (k_files kern_example) 0x8000) ! i)), fd_flags = 0\<rparr>"
    using fork_shares_descriptors [OF c _ _ _ _ _ _ fork_addrs_ok(1) f _ q, of "0x9000" "0xa000" "0x3000"
        "\<lparr>ctx_regs = replicate 22 5, ctx_cs = 0x4b\<rparr>" 0 id linux_abi "0xb000" "0xc000" 0 0] open_example_ok(1) k(1)
    by auto
  then show ?thesis using a m by (auto simp: k open_example_slots d)
qed


subsection \<open>Process identifiers\<close>

text \<open>An identifier is the position in \<open>processes\<close>, as long as none was removed.\<close>

definition pids_ok :: "'s kern \<Rightarrow> bool" where
  "pids_ok s \<longleftrightarrow> distinct (processes s) \<and> (\<forall>i < length (processes s). p_pid (procs s (processes s ! i)) = int i)"

lemma remove1_nth: "distinct xs \<Longrightarrow> k < length xs \<Longrightarrow> remove1 (xs ! k) xs = take k xs @ drop (Suc k) xs"
proof (induction xs arbitrary: k)
  case (Cons x xs)
  then show ?case by (cases k) auto
qed simp

lemma new_process_keeps_pids:
  assumes "pids_ok s" and "new \<noteq> 0" and "new \<notin> set (processes s)" and "old = 0 \<or> forked \<noteq> 0"
  shows "pids_ok (snd (sched_new_process new old pm forked root s))"
proof -
  define s' where "s' = snd (sched_new_process new old pm forked root s)"
  have p: "processes s' = processes s @ [new]" "p_pid (procs s' new) = int (length (processes s))"
    "q \<noteq> new \<Longrightarrow> p_pid (procs s' q) = p_pid (procs s q)" for q
    using assms(2,4) by (auto simp: s'_def sched_new_process_def Let_def process_zero_def)
  have "p_pid (procs s' (processes s' ! i)) = int i" if "i < length (processes s')" for i
  proof (cases "i < length (processes s)")
    case True
    then have "processes s ! i \<noteq> new" using assms(3) by (metis nth_mem)
    then show ?thesis using True assms(1) p by (simp add: nth_append pids_ok_def)
  qed (use that p in \<open>simp add: nth_append\<close>)
  then show ?thesis using assms(1,3) p(1) unfolding s'_def [symmetric] pids_ok_def by simp
qed

lemma reap_child:
  assumes "child_events (procs s proc) \<noteq> []" and "children (procs s proc) \<noteq> []" and "child \<in> set (processes s)"
  shows "\<exists>s'. wait_reap proc block (Wait_child child) 0 s = Inr (Inr (p_pid (procs s child), Some (p_status (procs s child))), s') \<and>
    processes s' = remove1 child (processes s) \<and> (\<forall>q. p_pid (procs s' q) = p_pid (procs s q)) \<and>
    (child \<in> set (children (procs s proc)) \<longrightarrow> children (procs s' proc) = remove1 child (children (procs s proc)))"
  using assms by (auto simp: wait_reap_def vremove_def)

text \<open>C18. Identifiers are positions in \<open>processes\<close>, and creating a process keeps that. \<open>waitpid\<close> on a child that has ended
  returns its identifier and status and takes it out of the caller's children and out of \<open>processes\<close>; this moves every later
  process down, so looking up one of their identifiers finds the following process or none, and when any process came after
  the child the next process that is created gets the identifier of the last one. An interrupted call returns zero when
  it blocks and fails with \<open>EINTR\<close> when it was asked not to.\<close>

theorem reaping_breaks_pids:
  fixes s :: "'s kern"
  assumes ok: "pids_ok s" and k: "k < length (processes s)" "child = processes s ! k"
    and mine: "child \<in> set (children (procs s proc))" "child_events (procs s proc) \<noteq> []" and new: "new \<noteq> 0" "new \<notin> set (processes s)"
  shows "pids_ok (snd (sched_new_process new 0 pm 0 root s)) \<and>
    (\<exists>s'. wait_reap proc block (Wait_child child) 0 s = Inr (Inr (int k, Some (p_status (procs s child))), s') \<and>
       children (procs s' proc) = remove1 child (children (procs s proc)) \<and> processes s' = take k (processes s) @ drop (Suc k) (processes s) \<and>
       (\<forall>j. k < j \<and> j < length (processes s) \<longrightarrow> vitem (processes s') (p_pid (procs s' (processes s ! j))) =
          (if j + 1 < length (processes s) then Some (processes s ! (j + 1)) else None)) \<and>
       (k + 1 < length (processes s) \<longrightarrow>
          (let s'' = snd (sched_new_process new 0 pm 0 root s') in p_pid (procs s'' new) = p_pid (procs s'' (last (processes s)))))) \<and>
    wait_reap proc True w (-1) s = Inr (Inr (0, None), s) \<and> wait_reap proc False w (-1) s = Inr (Inl EINTR, s)"
proof (intro conjI)
  show "pids_ok (snd (sched_new_process new 0 pm 0 root s))" using new_process_keeps_pids [OF ok new] by simp
  have cs: "child \<in> set (processes s)" "children (procs s proc) \<noteq> []" using k mine by auto
  have d: "distinct (processes s)" and pid: "\<And>i. i < length (processes s) \<Longrightarrow> p_pid (procs s (processes s ! i)) = int i"
    using ok by (auto simp: pids_ok_def)
  from reap_child [OF mine(2) cs(2,1)] obtain s' where s':
      "wait_reap proc block (Wait_child child) 0 s = Inr (Inr (p_pid (procs s child), Some (p_status (procs s child))), s')"
      "processes s' = remove1 child (processes s)" "\<forall>q. p_pid (procs s' q) = p_pid (procs s q)"
      "children (procs s' proc) = remove1 child (children (procs s proc))" using mine(1) by blast
  have ps: "processes s' = take k (processes s) @ drop (Suc k) (processes s)" using s'(2) remove1_nth [OF d k(1)] k(2) by simp
  have len: "length (processes s') = length (processes s) - 1" using ps k(1) by simp
  have "vitem (processes s') (p_pid (procs s' (processes s ! j))) = (if j + 1 < length (processes s) then Some (processes s ! (j + 1)) else None)"
    if "k < j" "j < length (processes s)" for j
    using that pid [OF that(2)] s'(3) len by (simp add: vitem_def ps nth_append)
  moreover have "p_pid (procs s'' new) = p_pid (procs s'' (last (processes s)))"
    if "k + 1 < length (processes s)" and "s'' = snd (sched_new_process new 0 pm 0 root s')" for s''
  proof -
    have l: "last (processes s) = processes s ! (length (processes s) - 1)" using that(1) by (intro last_conv_nth) auto
    then have "last (processes s) \<noteq> new" "p_pid (procs s (last (processes s))) = int (length (processes s) - 1)"
      using new(2) pid that(1) by auto
    then show ?thesis using that s'(3) len new(1) by (simp add: sched_new_process_def Let_def process_zero_def)
  qed
  ultimately show "\<exists>s'. wait_reap proc block (Wait_child child) 0 s = Inr (Inr (int k, Some (p_status (procs s child))), s') \<and>
       children (procs s' proc) = remove1 child (children (procs s proc)) \<and> processes s' = take k (processes s) @ drop (Suc k) (processes s) \<and>
       (\<forall>j. k < j \<and> j < length (processes s) \<longrightarrow> vitem (processes s') (p_pid (procs s' (processes s ! j))) =
          (if j + 1 < length (processes s) then Some (processes s ! (j + 1)) else None)) \<and>
       (k + 1 < length (processes s) \<longrightarrow>
          (let s'' = snd (sched_new_process new 0 pm 0 root s') in p_pid (procs s'' new) = p_pid (procs s'' (last (processes s)))))"
    using s'(1,4) ps pid [OF k(1)] k(2) unfolding Let_def by auto
qed (simp_all add: wait_reap_def)

text \<open>Two children of the first process, the older one to be reaped.\<close>

definition wait_example :: "unit kern" where
  "wait_example = kern_example\<lparr>processes := [0x7000, 0x8000, 0x9000, 0xa000], procs := (\<lambda>p. process_zero\<lparr>
     p_pid := (if p = 0x8000 then 1 else if p = 0x9000 then 2 else if p = 0xa000 then 3 else 0), p_ppid := 1,
     children := [0x9000, 0xa000], child_events := [proc_event 0x9000, proc_event 0xa000]\<rparr>)\<rparr>"

theorem reaping_breaks_pids_witness:
  "\<exists>s'. wait_reap 0x8000 True (Wait_child 0x9000) 0 wait_example = Inr (Inr (2, Some 0), s') \<and> vitem (processes s') 3 = None"
proof -
  have "p_pid (procs wait_example (processes wait_example ! i)) = int i" if "i < 4" for i
  proof -
    have "i = 0 \<or> i = 1 \<or> i = 2 \<or> i = 3" using that by linarith
    then show ?thesis by (auto simp: wait_example_def process_zero_def)
  qed
  then have p: "pids_ok wait_example" by (simp add: pids_ok_def wait_example_def)
  have "2 < length (processes wait_example)" "0x9000 = processes wait_example ! 2" "p_pid (procs wait_example 0xa000) = 3"
    "0x9000 \<in> set (children (procs wait_example 0x8000))" "child_events (procs wait_example 0x8000) \<noteq> []"
    "0xb000 \<notin> set (processes wait_example)" "length (processes wait_example) = 4" "processes wait_example ! 3 = 0xa000"
    "p_status (procs wait_example 0x9000) = 0"
    by (simp_all add: wait_example_def process_zero_def)
  note e = this
  from reaping_breaks_pids [OF p e(1,2,4,5) _ e(6), of 0 0 True Wait_any] obtain s' where s':
    "wait_reap 0x8000 True (Wait_child 0x9000) 0 wait_example = Inr (Inr (2, Some 0), s')"
    "processes s' = take 2 (processes wait_example) @ drop (Suc 2) (processes wait_example)" using e by auto
  then show ?thesis using e(7) by (auto simp: vitem_def)
qed


subsection \<open>The initial stack\<close>

lemma word_bytes_length [simp]: "length (word_bytes w) = 8"
  by (simp add: word_bytes_def)

lemma words_length [simp]: "length (concat (map word_bytes ws)) = 8 * length ws"
  by (induction ws) simp_all

lemma push_words_one: "push_word w bs = push_words [w] bs" and push_words_app: "push_words us (push_words vs bs) = push_words (us @ vs) bs"
  by (simp_all add: push_word_def push_words_def)

lemma string_ptrs_length [simp]: "length (string_ptrs p xs) = length xs"
  by (induction xs arbitrary: p) (simp_all add: Let_def)

lemma last_ptr_simps [simp]: "last_ptr p [] = p" "last_ptr p (x # xs) = last_ptr (p - (of_nat (length x) + 1)) xs"
  by (simp_all add: last_ptr_def Let_def)

text \<open>Each pointer is the address of its string on the stack that ends at \<open>vma\<close>.\<close>

lemma push_strings_ptrs:
  assumes "old_rsp = vma - of_nat (length bs)"
  shows "last_ptr old_rsp xs = vma - of_nat (length (push_strings xs bs)) \<and> (\<exists>pre. push_strings xs bs = pre @ bs) \<and>
    (\<forall>i < length xs. \<exists>pre rest. push_strings xs bs = pre @ xs ! i @ [0] @ rest \<and>
      string_ptrs old_rsp xs ! i = vma - of_nat (length (xs ! i @ [0] @ rest)))"
  using assms
proof (induction xs arbitrary: bs old_rsp)
  case (Cons x xs)
  define p where "p = old_rsp - (of_nat (length x) + 1)"
  have p: "p = vma - of_nat (length (x @ [0] @ bs))" using Cons.prems by (simp add: p_def)
  note ih = Cons.IH [OF p]
  have s: "push_strings (x # xs) bs = push_strings xs (x @ [0] @ bs)" "last_ptr old_rsp (x # xs) = last_ptr p xs"
    "string_ptrs old_rsp (x # xs) = p # string_ptrs p xs" by (simp_all add: p_def Let_def)
  obtain pre where pre: "push_strings xs (x @ [0] @ bs) = pre @ x @ [0] @ bs" using ih by blast
  have "\<exists>pre rest. push_strings (x # xs) bs = pre @ (x # xs) ! i @ [0] @ rest \<and>
      string_ptrs old_rsp (x # xs) ! i = vma - of_nat (length ((x # xs) ! i @ [0] @ rest))" if "i < length (x # xs)" for i
  proof (cases i)
    case 0
    then show ?thesis unfolding s using pre p by auto
  next
    case (Suc j)
    then show ?thesis unfolding s using ih that by simp
  qed
  moreover have "\<exists>pre. push_strings (x # xs) bs = pre @ bs" unfolding s(1) pre by simp
  ultimately show ?case unfolding s(2) using ih s(1) by simp
qed simp

lemma suffix_at:
  assumes "bs = pre @ post" and "length bs < 2 ^ 64"
  shows "drop (unat ((vma - of_nat (length post)) - (vma - of_nat (length bs) :: u64))) bs = post"
proof -
  have "(vma - of_nat (length post)) - (vma - of_nat (length bs)) = (of_nat (length pre) :: u64)" using assms(1) by simp
  moreover have "unat (of_nat (length pre) :: u64) = length pre"
    using assms by (simp add: unat_of_nat_small)
  ultimately show ?thesis using assms(1) by simp
qed

definition aux_words :: "auxkeys \<Rightarrow> auxval \<Rightarrow> u64 list" where
  "aux_words at aux = [AT_PHNUM at, at_phnum aux, AT_PHENT at, at_phent aux, AT_PHDR at, at_phdr aux, AT_ENTRY at, at_entry aux,
     AT_SECURE at, 0, 0, 0]"

lemma build_stack_words:
  "\<exists>pad. build_stack at stk vma argv envp aux =
     push_words (of_nat (length argv) # string_ptrs (last_ptr vma envp) argv @ [0] @ string_ptrs vma envp @ [0] @ aux_words at aux)
       (pad @ push_strings argv (push_strings envp [])) \<and>
     pad @ push_strings argv (push_strings envp []) = (if odd (length argv + length envp + 1) then replicate 8 0 else []) @
       align_stack stk (push_strings argv (push_strings envp []))"
  unfolding build_stack_def Let_def push_aux_def push_words_one push_words_app aux_words_def align_stack_def by auto

lemma uint_sub_mod_16: "uint ((v - of_nat n) mod 16 :: u64) = (uint v - int n) mod 16"
proof -
  have d: "x mod 18446744073709551616 mod 16 = x mod (16 :: int)" for x by (rule mod_mod_cancel) simp
  have "uint ((v - of_nat n) mod 16) = (uint v - int n mod 18446744073709551616) mod 18446744073709551616 mod 16"
    by (simp add: uint_mod uint_word_ariths unsigned_of_nat take_bit_eq_mod of_nat_mod)
  also have "\<dots> = (uint v - int n) mod 16" by (simp only: d) (metis d mod_diff_right_eq)
  finally show ?thesis .
qed

lemma uint_mod_16_zero: "(v :: u64) mod 16 = 0 \<Longrightarrow> 16 dvd uint v"
  by (drule arg_cong [of _ _ uint]) (simp add: uint_mod dvd_eq_mod_eq_0)

lemma align_stack_16:
  assumes "stk mod 16 = 0"
  shows "16 dvd length (align_stack stk bs)"
proof -
  have "int (unat ((stk - of_nat (length bs)) mod 16)) = (uint stk - int (length bs)) mod 16"
    using uint_sub_mod_16 [of stk "length bs"] by simp
  then have "int (length (align_stack stk bs)) = (uint stk - int (length bs)) mod 16 + int (length bs)"
    by (simp add: align_stack_def)
  moreover have "((uint stk - int (length bs)) mod 16 + int (length bs)) mod 16 = uint stk mod 16" by (simp add: mod_add_left_eq)
  ultimately have "int (length (align_stack stk bs)) mod 16 = 0" using uint_mod_16_zero [OF assms] by (simp add: dvd_eq_mod_eq_0)
  then show ?thesis by (metis dvd_eq_mod_eq_0 int_dvd_int_iff of_nat_numeral)
qed

lemma build_stack_16:
  assumes "stk mod 16 = 0"
  shows "16 dvd length (build_stack at stk vma argv envp aux)"
proof -
  obtain pad where pad: "build_stack at stk vma argv envp aux =
      push_words (of_nat (length argv) # string_ptrs (last_ptr vma envp) argv @ [0] @ string_ptrs vma envp @ [0] @ aux_words at aux)
        (pad @ push_strings argv (push_strings envp []))"
      "pad @ push_strings argv (push_strings envp []) = (if odd (length argv + length envp + 1) then replicate 8 0 else []) @
         align_stack stk (push_strings argv (push_strings envp []))" (is "_ = _ @ ?a")
    using build_stack_words by blast
  have "length (build_stack at stk vma argv envp aux) =
      8 * (length argv + length envp + 15) + (if odd (length argv + length envp + 1) then 8 else 0) + length ?a"
    unfolding pad(1) push_words_def length_append pad(2) words_length by (simp add: aux_words_def pad(2))
  moreover have "16 dvd 8 * (length argv + length envp + 15) + (if odd (length argv + length envp + 1) then 8 else 0)" by (auto elim!: oddE evenE)
  ultimately show ?thesis using align_stack_16 [OF assms] by (metis dvd_add)
qed

text \<open>The string at an address of the stack \<open>bs\<close> whose pointer is \<open>rsp\<close>.\<close>

definition string_at :: "u64 \<Rightarrow> u8 list \<Rightarrow> u64 \<Rightarrow> u8 list \<Rightarrow> bool" where
  "string_at rsp bs p x \<longleftrightarrow> take (length x + 1) (drop (unat (p - rsp)) bs) = x @ [0]"

lemma pushed_strings_at:
  assumes bs: "bs = head @ push_strings xs below" and len: "length bs < 18446744073709551616"
    and old: "old_rsp = vma - of_nat (length below)" and i: "i < length xs"
  shows "string_at (vma - of_nat (length bs)) bs (string_ptrs old_rsp xs ! i) (xs ! i)"
proof -
  obtain pre rest where r: "push_strings xs below = pre @ xs ! i @ [0] @ rest"
      "string_ptrs old_rsp xs ! i = vma - of_nat (length (xs ! i @ [0] @ rest))"
    using push_strings_ptrs [OF old, of xs] i by blast
  have "bs = (head @ pre) @ xs ! i @ [0] @ rest" using bs r(1) by simp
  from suffix_at [OF this, of vma] len r(2) show ?thesis by (simp add: string_at_def)
qed

lemma build_stack_layout:
  assumes len: "length (build_stack at stk vma argv envp aux) < 18446744073709551616"
  defines "bs \<equiv> build_stack at stk vma argv envp aux"
  defines "ap \<equiv> string_ptrs (last_ptr vma envp) argv" and "ep \<equiv> string_ptrs vma envp"
  shows "take (8 * (length argv + length envp + 15)) bs =
      concat (map word_bytes (of_nat (length argv) # ap @ [0] @ ep @ [0] @ aux_words at aux)) \<and>
    (\<forall>i < length argv. string_at (vma - of_nat (length bs)) bs (ap ! i) (argv ! i)) \<and>
    (\<forall>i < length envp. string_at (vma - of_nat (length bs)) bs (ep ! i) (envp ! i))"
proof -
  let ?e = "push_strings envp []"
  obtain pad where pad: "bs = push_words (of_nat (length argv) # ap @ [0] @ ep @ [0] @ aux_words at aux) (pad @ push_strings argv ?e)"
    using build_stack_words unfolding bs_def ap_def ep_def by blast
  define ws where "ws = of_nat (length argv) # ap @ [0] @ ep @ [0] @ aux_words at aux"
  have wl: "length (concat (map word_bytes ws)) = 8 * (length argv + length envp + 15)"
    unfolding words_length by (simp add: ws_def aux_words_def ap_def ep_def)
  have bsw: "bs = concat (map word_bytes ws) @ pad @ push_strings argv ?e" using pad by (simp add: push_words_def ws_def)
  have e: "last_ptr vma envp = vma - of_nat (length ?e)" using push_strings_ptrs [of vma vma "[]" envp] by simp
  obtain pre where pre: "push_strings argv ?e = pre @ ?e" using push_strings_ptrs [OF e, of argv] by blast
  have l: "length bs < 18446744073709551616" using len by (simp add: bs_def)
  have "string_at (vma - of_nat (length bs)) bs (ap ! i) (argv ! i)" if "i < length argv" for i
    unfolding ap_def by (rule pushed_strings_at [OF _ l e that]) (use bsw in simp)
  moreover have "string_at (vma - of_nat (length bs)) bs (ep ! i) (envp ! i)" if "i < length envp" for i
    unfolding ep_def by (rule pushed_strings_at [OF _ l _ that, of _ "[]"]) (use bsw pre in auto)
  moreover have "take (8 * (length argv + length envp + 15)) bs = concat (map word_bytes ws)"
    unfolding wl [symmetric] bsw by simp
  ultimately show ?thesis unfolding ws_def by blast
qed

lemma word_mod_16_sub: "(v :: u64) mod 16 = 0 \<Longrightarrow> 16 dvd n \<Longrightarrow> (v - of_nat n) mod 16 = 0"
proof -
  assume v: "v mod 16 = 0" and n: "16 dvd n"
  have "16 dvd int n" using n by (metis int_dvd_int_iff of_nat_numeral)
  then have "16 dvd uint v - int n" using uint_mod_16_zero [OF v] by simp
  then have "uint ((v - of_nat n) mod 16) = 0" unfolding uint_sub_mod_16 by simp
  then show ?thesis by (simp only: unsigned_eq_0_iff)
qed

text \<open>C17. The first thread of a program starts with the stack the System V ABI describes: the stack pointer is aligned to
  16 bytes and points to the number of arguments, followed by the argument pointers, a null pointer, the environment
  pointers, a null pointer and the auxiliary vector; each pointer is the address, in the process's own
  address space, of its NUL-terminated string. The new thread is the process's first and runs at the entry point.\<close>

theorem new_program_stack:
  fixes s :: "'s kern"
  assumes t: "t \<noteq> 0" and stk: "stack_phys \<noteq> 0" "(stack_phys + STACK_SIZE + hh) mod 16 = 0" and first: "p_threads (procs s proc) = []"
    and vma: "vma = thread_stack_top (procs s proc)" "vma mod 16 = 0"
    and bs: "bs = build_stack at (stack_phys + STACK_SIZE + hh) vma argv envp aux" and fits: "length bs \<le> unat STACK_SIZE"
  shows "\<exists>s' rsp ap ep. sched_new_user_thread hh cr3_of at t stack_phys True kst pst fpu proc pc arg 0 (Some (argv, envp, aux)) enq s =
        Inr (Inr (t, bs), s') \<and>
    p_threads (procs s' proc) = [t] \<and> rsp = vma - of_nat (length bs) \<and> rsp mod 16 = 0 \<and>
    (\<not> enq \<longrightarrow> t_ctx (thread_of (k_sys s') t) = ctx_new 0x4b 0x53 pc arg rsp) \<and>
    length ap = length argv \<and> length ep = length envp \<and>
    take (8 * (length argv + length envp + 15)) bs =
      concat (map word_bytes (of_nat (length argv) # ap @ [0] @ ep @ [0] @ aux_words at aux)) \<and>
    (\<forall>i < length argv. string_at rsp bs (ap ! i) (argv ! i)) \<and> (\<forall>i < length envp. string_at rsp bs (ep ! i) (envp ! i))"
proof -
  have l: "length bs < 18446744073709551616" using fits by (simp add: STACK_SIZE_def)
  note lay = build_stack_layout [OF l [unfolded bs], folded bs]
  have al: "(vma - of_nat (length bs)) mod 16 = 0" using word_mod_16_sub [OF vma(2) build_stack_16 [OF stk(2)]] by (simp add: bs)
  have pl: "place_stack stack_phys True hh proc 0 s = (Inr (stack_phys + STACK_SIZE + hh, vma),
      put_proc proc (\<lambda>p. p\<lparr>thread_stack_top := thread_stack_top p - (STACK_SIZE - 4096)\<rparr>) s)"
    using stk(1) vma(1) by (simp add: place_stack_def)
  have "initial_stack at (stack_phys + STACK_SIZE + hh) vma 0 (Some (argv, envp, aux)) = Inr bs"
    using fits by (simp add: initial_stack_def bs [symmetric] Let_def)
  then obtain s' where s': "sched_new_user_thread hh cr3_of at t stack_phys True kst pst fpu proc pc arg 0 (Some (argv, envp, aux)) enq s =
        Inr (Inr (t, bs), s')" "p_threads (procs s' proc) = [t]"
      "\<not> enq \<longrightarrow> t_ctx (thread_of (k_sys s') t) = ctx_new 0x4b 0x53 pc arg (vma - of_nat (length bs))"
    using t first unfolding sched_new_user_thread_def pl by (simp add: Let_def)
  show ?thesis
    by (intro exI [of _ s'] exI [of _ "vma - of_nat (length bs)"] exI [of _ "string_ptrs (last_ptr vma envp) argv"]
        exI [of _ "string_ptrs vma envp"] conjI s' al lay [THEN conjunct1] lay [THEN conjunct2, THEN conjunct1] lay [THEN conjunct2, THEN conjunct2])
      simp_all
qed


definition exec_example :: "unit kern" where
  "exec_example = put_proc 0x8000 (\<lambda>p. p\<lparr>thread_stack_top := 0x70000000000\<rparr>) kern_example"

definition auxkeys_example :: auxkeys where
  "auxkeys_example = \<lparr>AT_SECURE = 23, AT_ENTRY = 9, AT_PHDR = 3, AT_PHENT = 4, AT_PHNUM = 5\<rparr>"

lemma stack_example_length:
  "length (build_stack auxkeys_example (0x100000 + STACK_SIZE + 0) 0x70000000000 [[97]] [[98]] \<lparr>at_entry = 1, at_phdr = 2, at_phent = 3, at_phnum = 4\<rparr>) = 160"
  by (simp add: build_stack_def push_aux_def push_word_def push_words_def align_stack_def STACK_SIZE_def Let_def last_ptr_def)

theorem new_program_stack_witness:
  "\<exists>bs s' ap. sched_new_user_thread 0 id auxkeys_example 0x3000 0x100000 True 0xb000 0xc000 [] 0x8000 0x400000 0 0
       (Some ([[97]], [[98]], \<lparr>at_entry = 1, at_phdr = 2, at_phent = 3, at_phnum = 4\<rparr>)) False exec_example = Inr (Inr (0x3000, bs), s') \<and>
     length bs = 160 \<and> string_at (0x70000000000 - 160) bs (ap ! 0) [97]"
proof -
  define bs where "bs = build_stack auxkeys_example (0x100000 + STACK_SIZE + 0) 0x70000000000 [[97]] [[98]] \<lparr>at_entry = 1, at_phdr = 2, at_phent = 3, at_phnum = 4\<rparr>"
  have l: "length bs = 160" using stack_example_length by (simp add: bs_def)
  have f: "length bs \<le> unat STACK_SIZE" unfolding l by (simp add: STACK_SIZE_def)
  have e: "p_threads (procs exec_example 0x8000) = []" "0x70000000000 = thread_stack_top (procs exec_example 0x8000)"
    by (simp_all add: exec_example_def kern_example_def process_zero_def)
  have m: "((0x100000 :: u64) + STACK_SIZE + 0) mod 16 = 0" "(0x70000000000 :: u64) mod 16 = 0" by (simp_all add: STACK_SIZE_def)
  from new_program_stack [OF _ _ m(1) e m(2) bs_def f, of "0x3000" id "0xb000" "0xc000" "[]" "0x400000" 0 False]
  obtain s' ap where s': "sched_new_user_thread 0 id auxkeys_example 0x3000 0x100000 True 0xb000 0xc000 [] 0x8000 0x400000 0 0
       (Some ([[97]], [[98]], \<lparr>at_entry = 1, at_phdr = 2, at_phent = 3, at_phnum = 4\<rparr>)) False exec_example = Inr (Inr (0x3000, bs), s')"
    "\<forall>i < length [[97 :: u8]]. string_at (0x70000000000 - of_nat (length bs)) bs (ap ! i) ([[97]] ! i)" by auto
  have "string_at (0x70000000000 - 160) bs (ap ! 0) [97]" using s'(2) [rule_format, of 0] unfolding l by simp
  with s'(1) l show ?thesis by blast
qed


subsection \<open>Futexes, hash map and events together\<close>

lemma word_bytes_key: "length (word_bytes w) \<le> HASHMAP_KEY_DATA_MAX"
  by (simp add: HASHMAP_KEY_DATA_MAX_def)

lemma futex_event_new:
  assumes "unlocked (futex_lock f)" and "hm_wf (futex_hashmap f)" and "hm_map (futex_hashmap f) (word_bytes phys) = None"
    and "halloc_ok al" and "items_ok ra FUTEX_ITEM" and "hm_can_grow al ra FUTEX_ITEM (futex_hashmap f)"
  shows "\<exists>f1. futex_event al ra phys ev f = Inr (ev, f1) \<and> unlocked (futex_lock f1) \<and> hm_wf (futex_hashmap f1) \<and>
    hm_map (futex_hashmap f1) = (hm_map (futex_hashmap f))(word_bytes phys \<mapsto> ev)"
proof -
  obtain m where "HASHMAP_INSERT al ra FUTEX_ITEM (futex_hashmap f) (word_bytes phys) ev = Inr m" "hm_wf m"
      "hm_map m = (hm_map (futex_hashmap f))(word_bytes phys \<mapsto> ev)"
    using insert_map [OF assms(4,5,2,6) word_bytes_key assms(3), of ev] by blast
  with assms get_map [OF assms(2) word_bytes_key, of phys] show ?thesis by (simp add: futex_event_def klock)
qed

lemma futex_event_known:
  assumes "unlocked (futex_lock f)" and "hm_wf (futex_hashmap f)" and "hm_map (futex_hashmap f) (word_bytes phys) = Some e"
  shows "\<exists>f1. futex_event al ra phys ev f = Inr (e, f1) \<and> unlocked (futex_lock f1) \<and> futex_hashmap f1 = futex_hashmap f"
  using assms get_map [OF assms(2) word_bytes_key, of phys] by (auto simp: futex_event_def klock)

text \<open>C19. A thread that waits on a futex word of the expected value leaves the running queue, and a wake on the same
  physical page address brings it back, whether the futex is new, with the event just entered in the table, or known; with any
  other value the call fails at once and changes nothing. But a woken \<open>futex_wait\<close> still returns \<open>-1\<close>, without
  an error number.\<close>

theorem futex_wake_reaches_waiter:
  assumes f: "unlocked (futex_lock f)" "hm_wf (futex_hashmap f)" and key: "hm_map (futex_hashmap f) (word_bytes phys) \<in> {None, Some ev}"
    and mem: "halloc_ok al" "items_ok ra FUTEX_ITEM" "hm_can_grow al ra FUTEX_ITEM (futex_hashmap f)"
    and ev: "ev \<noteq> 0" and w: "can_wait c [ev] t s" and quiet: "listeners (events s ev) = []"
    and room: "0 < count (mset (running_queue (ks_sched s))) 0"
  shows "(\<exists>f1 s1 f2 s2 s3. syscall_futex_wait al ra c v v phys ev f s = Inr (Futex_blocked ev, f1, s1) \<and>
      t \<notin> set (running_queue (ks_sched s1)) \<and> syscall_futex_wake phys f1 s1 = Inr (f2, s2) \<and>
      t \<in> set (running_queue (ks_sched s2)) \<and> futex_wait_end t ev s2 = Inr (None, s3) \<and> unlocked (futex_lock f2)) \<and>
    (v \<noteq> v' \<longrightarrow> syscall_futex_wait al ra c v v' phys ev f s = Inr (Futex_fails (Some EAGAIN), f, s))"
proof -
  obtain f1 where f1: "futex_event al ra phys ev f = Inr (ev, f1)" "unlocked (futex_lock f1)" "hm_wf (futex_hashmap f1)"
      "hm_map (futex_hashmap f1) (word_bytes phys) = Some ev"
  proof (cases "hm_map (futex_hashmap f) (word_bytes phys)")
    case None
    from futex_event_new [OF f None mem, of ev] that show thesis by auto
  next
    case (Some e)
    with key have "e = ev" by simp
    from futex_event_known [OF f Some, of al ra ev] this Some f that show thesis by fastforce
  qed
  obtain s1 n s2 s3 where s: "event_await_begin c [ev] True s = Inr (Await_blocked, s1)" "t \<notin> set (running_queue (ks_sched s1))"
      "event_trigger ev False s1 = Inr (n, s2)" "t \<in> set (running_queue (ks_sched s2))" "event_await_end t [ev] s2 = Inr (0, s3)"
    using wake_reaches_waiter [OF w, of 0] quiet room by auto
  have "syscall_futex_wait al ra c v v phys ev f s = Inr (Futex_blocked ev, f1, s1)"
    using f1(1) ev s(1) by (simp add: syscall_futex_wait_def)
  moreover have "\<exists>f2. syscall_futex_wake phys f1 s1 = Inr (f2, s2) \<and> unlocked (futex_lock f2)"
    using get_map [OF f1(3) word_bytes_key, of phys] f1(2,4) ev s(3) by (simp add: syscall_futex_wake_def klock)
  moreover have "futex_wait_end t ev s2 = Inr (None, s3)" using s(5) by (simp add: futex_wait_end_def)
  ultimately show ?thesis using s(2,4) by (auto simp: syscall_futex_wait_def)
qed

theorem futex_wake_reaches_waiter_witness:
  "\<exists>f1 s1 f2 s2 s3. syscall_futex_wait zero_buckets item_realloc 0 7 7 0x5000 0x100 \<lparr>futex_lock = SPINLOCK_INIT, futex_hashmap = HASHMAP_INIT 4\<rparr> event_example =
      Inr (Futex_blocked 0x100, f1, s1) \<and> syscall_futex_wake 0x5000 f1 s1 = Inr (f2, s2) \<and> futex_wait_end 0x2000 0x100 s2 = Inr (None, s3)"
proof -
  let ?f = "\<lparr>futex_lock = SPINLOCK_INIT, futex_hashmap = HASHMAP_INIT 4\<rparr>"
  have w: "can_wait 0 [0x100] 0x2000 event_example" using event_example_can_wait by (simp add: can_wait_def MAX_EVENTS_def)
  have "unlocked (futex_lock ?f)" "hm_wf (futex_hashmap ?f)" "hm_map (futex_hashmap ?f) (word_bytes 0x5000) \<in> {None, Some 0x100}"
    "items_ok (item_realloc :: u64 hitem realloc) FUTEX_ITEM" "hm_can_grow zero_buckets item_realloc FUTEX_ITEM (futex_hashmap ?f)"
    by (simp_all add: SPINLOCK_INIT_def FUTEX_ITEM_def hm_example item_realloc_ok)
  note h = this
  have e: "listeners (events event_example 0x100) = []" "0 < count (mset (running_queue (ks_sched event_example))) 0"
    by (simp_all add: event_example_def blank_event_def sched_example_def)
  from futex_wake_reaches_waiter [OF h(1-3) hm_example(3) h(4,5) _ w e, of 7 7] show ?thesis by auto
qed


end
