(* ===== verification/Lyre_Vmm.thy ===== *)
theory Lyre_Vmm
  imports Lyre_Abi Lyre_Lock
begin

text \<open>
  The page tables of \<open>mm/vmm.c\<close>.  A table is known by its address in the kernel's direct mapping
  (\<open>hh\<close> is \<open>VMM_HIGHER_HALF\<close>, which the boot loader chooses) and holds 512 entries.  \<open>pages\<close> lists the
  pages the physical allocator is going to hand out, in order, zero or the end of the list for a
  failure; the direct mapping never contains address zero. \<open>returned\<close> lists the pages given back, \<open>shootdowns\<close> the page maps whose translations
  were flushed on all CPUs.  A function that returns \<open>false\<close> or \<open>NULL\<close> gives \<open>Inl\<close> of the error
  number, \<open>None\<close> when it did not set one.
\<close>

unbundle bit_operations_syntax

subsection \<open>Data\<close>

definition PAGE_SIZE_64 :: u64 where
  "PAGE_SIZE_64 = 0x1000"

definition PTE_PRESENT :: u64 where
  "PTE_PRESENT = 1"

definition PTE_WRITABLE :: u64 where
  "PTE_WRITABLE = 2"

definition PTE_USER :: u64 where
  "PTE_USER = 4"

definition PTE_NX :: u64 where
  "PTE_NX = 0x8000000000000000"

definition PTE_ADDR_MASK :: u64 where
  "PTE_ADDR_MASK = 0x000ffffffffff000"

definition PTE_GET_ADDR :: "u64 \<Rightarrow> u64" where
  "PTE_GET_ADDR e = e AND PTE_ADDR_MASK"

definition PTE_GET_FLAGS :: "u64 \<Rightarrow> u64" where
  "PTE_GET_FLAGS e = e AND NOT PTE_ADDR_MASK"

definition INVALID_PHYS :: u64 where
  "INVALID_PHYS = 0xffffffffffffffff"

text \<open>A page map: the lock, the address of the top level table and the ranges mapped by \<open>mmap\<close>.\<close>

record pagemap =
  pm_lock :: spinlock
  top_level :: u64
  mmap_ranges :: "u64 list"

record vm =
  ptes :: "u64 \<Rightarrow> nat \<Rightarrow> u64"
  pages :: "u64 list"
  returned :: "u64 list"
  pagemaps :: "u64 \<Rightarrow> pagemap"
  shootdowns :: "u64 list"

definition set_pte :: "u64 \<Rightarrow> nat \<Rightarrow> u64 \<Rightarrow> ('b) vm_scheme \<Rightarrow> 'b vm_scheme" where
  "set_pte t i e s = s\<lparr>ptes := (ptes s)(t := (ptes s t)(i := e))\<rparr>"

definition zero_table :: "u64 \<Rightarrow> 'b vm_scheme \<Rightarrow> 'b vm_scheme" where
  "zero_table t s = s\<lparr>ptes := (ptes s)(t := (\<lambda>_. 0))\<rparr>"

definition put_pagemap :: "u64 \<Rightarrow> (pagemap \<Rightarrow> pagemap) \<Rightarrow> 'b vm_scheme \<Rightarrow> 'b vm_scheme" where
  "put_pagemap p f s = s\<lparr>pagemaps := (pagemaps s)(p := f (pagemaps s p))\<rparr>"

text \<open>\<open>pmm_alloc(1)\<close>: the page comes cleared.\<close>

definition pmm_alloc_page :: "u64 \<Rightarrow> 'b vm_scheme \<Rightarrow> u64 \<times> 'b vm_scheme" where
  "pmm_alloc_page hh s =
     (case pages s of [] \<Rightarrow> (0, s) | p # ps \<Rightarrow> (p, if p = 0 then s\<lparr>pages := ps\<rparr> else zero_table (p + hh) (s\<lparr>pages := ps\<rparr>)))"

definition pmm_free_page :: "u64 \<Rightarrow> 'b vm_scheme \<Rightarrow> 'b vm_scheme" where
  "pmm_free_page p s = s\<lparr>returned := returned s @ [p]\<rparr>"

subsection \<open>Walking the tables\<close>

definition get_next_level :: "u64 \<Rightarrow> u64 \<Rightarrow> nat \<Rightarrow> bool \<Rightarrow> 'b vm_scheme \<Rightarrow> (errno option + u64) \<times> 'b vm_scheme" where
  "get_next_level hh tbl idx allocate s =
     (if ptes s tbl idx AND PTE_PRESENT \<noteq> 0 then (Inr (PTE_GET_ADDR (ptes s tbl idx) + hh), s)
      else if \<not> allocate then (Inl None, s)
      else let (next_level, s1) = pmm_alloc_page hh s
           in if next_level = 0 then (Inl (Some ENOMEM), s1)
              else (Inr (next_level + hh),
                    set_pte tbl idx (next_level OR PTE_PRESENT OR PTE_WRITABLE OR PTE_USER) s1))"

text \<open>The index of an address in the table of the level whose entries cover \<open>2 ^ n\<close> bytes.\<close>

definition pml_entry :: "nat \<Rightarrow> u64 \<Rightarrow> nat" where
  "pml_entry n virt = unat (drop_bit n (virt AND push_bit n 0x1ff))"

definition vmm_virt2pte ::
  "u64 \<Rightarrow> u64 \<Rightarrow> u64 \<Rightarrow> bool \<Rightarrow> 'b vm_scheme \<Rightarrow> (errno option + u64 \<times> nat) \<times> 'b vm_scheme" where
  "vmm_virt2pte hh pagemap virt allocate s =
     (case get_next_level hh (top_level (pagemaps s pagemap)) (pml_entry 39 virt) allocate s of
        (Inl e, s1) \<Rightarrow> (Inl e, s1)
      | (Inr pml3, s1) \<Rightarrow>
          (case get_next_level hh pml3 (pml_entry 30 virt) allocate s1 of
             (Inl e, s2) \<Rightarrow> (Inl e, s2)
           | (Inr pml2, s2) \<Rightarrow>
               (case get_next_level hh pml2 (pml_entry 21 virt) allocate s2 of
                  (Inl e, s3) \<Rightarrow> (Inl e, s3)
                | (Inr pml1, s3) \<Rightarrow> (Inr (pml1, pml_entry 12 virt), s3))))"

definition vmm_virt2phys :: "u64 \<Rightarrow> u64 \<Rightarrow> u64 \<Rightarrow> 'b vm_scheme \<Rightarrow> u64" where
  "vmm_virt2phys hh pagemap virt s =
     (case fst (vmm_virt2pte hh pagemap virt False s) of
        Inl _ \<Rightarrow> INVALID_PHYS
      | Inr (t, i) \<Rightarrow> if PTE_GET_FLAGS (ptes s t i) AND PTE_PRESENT = 0 then INVALID_PHYS else PTE_GET_ADDR (ptes s t i))"

definition tlb_shootdown :: "u64 \<Rightarrow> 'b vm_scheme \<Rightarrow> 'b vm_scheme" where
  "tlb_shootdown pagemap s = s\<lparr>shootdowns := shootdowns s @ [pagemap]\<rparr>"

definition lock_pagemap :: "string \<Rightarrow> u64 \<Rightarrow> 'b vm_scheme \<Rightarrow> 'b vm_scheme result" where
  "lock_pagemap caller pagemap s =
     rbind (spinlock_acquire caller (pm_lock (pagemaps s pagemap)))
       (\<lambda>l. Inr (put_pagemap pagemap (\<lambda>p. p\<lparr>pm_lock := l\<rparr>) s))"

definition unlock_pagemap :: "u64 \<Rightarrow> 'b vm_scheme \<Rightarrow> 'b vm_scheme" where
  "unlock_pagemap pagemap s = put_pagemap pagemap (\<lambda>p. p\<lparr>pm_lock := spinlock_release (pm_lock p)\<rparr>) s"

subsection \<open>Pages of a page map\<close>

text \<open>The three functions repeat the walk of \<open>vmm_virt2pte\<close>; what follows it is the function \<open>f\<close>.\<close>

definition on_pte ::
  "u64 \<Rightarrow> u64 \<Rightarrow> u64 \<Rightarrow> bool \<Rightarrow> (u64 \<Rightarrow> errno + u64) \<Rightarrow> 'b vm_scheme \<Rightarrow> (errno option + unit) \<times> 'b vm_scheme" where
  "on_pte hh pagemap virt allocate f s =
     (case vmm_virt2pte hh pagemap virt allocate s of
        (Inl e, s1) \<Rightarrow> (Inl e, tlb_shootdown pagemap s1)
      | (Inr (t, i), s1) \<Rightarrow>
          (case f (ptes s1 t i) of
             Inl e \<Rightarrow> (Inl (Some e), tlb_shootdown pagemap s1)
           | Inr e \<Rightarrow> (Inr (), tlb_shootdown pagemap (set_pte t i e s1))))"

definition vmm_map_page ::
  "u64 \<Rightarrow> u64 \<Rightarrow> u64 \<Rightarrow> u64 \<Rightarrow> u64 \<Rightarrow> 'b vm_scheme \<Rightarrow> ((errno option + unit) \<times> 'b vm_scheme) result" where
  "vmm_map_page hh pagemap virt phys flags s =
     rbind (lock_pagemap ''vmm_map_page'' pagemap s) (\<lambda>s1.
       let (r, s2) = on_pte hh pagemap virt True
             (\<lambda>e. if e AND PTE_PRESENT \<noteq> 0 then Inl EINVAL else Inr (phys OR flags)) s1
       in Inr (r, unlock_pagemap pagemap s2))"

definition vmm_flag_page ::
  "u64 \<Rightarrow> u64 \<Rightarrow> bool \<Rightarrow> u64 \<Rightarrow> u64 \<Rightarrow> 'b vm_scheme \<Rightarrow> ((errno option + unit) \<times> 'b vm_scheme) result" where
  "vmm_flag_page hh pagemap lock virt flags s =
     rbind (if lock then lock_pagemap ''vmm_flag_page'' pagemap s else Inr s) (\<lambda>s1.
       let (r, s2) = on_pte hh pagemap virt False
             (\<lambda>e. if e AND PTE_PRESENT = 0 then Inl EINVAL else Inr (PTE_GET_ADDR e OR flags)) s1
       in Inr (r, if lock then unlock_pagemap pagemap s2 else s2))"

definition vmm_unmap_page ::
  "u64 \<Rightarrow> u64 \<Rightarrow> u64 \<Rightarrow> bool \<Rightarrow> 'b vm_scheme \<Rightarrow> ((errno option + unit) \<times> 'b vm_scheme) result" where
  "vmm_unmap_page hh pagemap virt already_locked s =
     rbind (if already_locked then Inr s else lock_pagemap ''vmm_unmap_page'' pagemap s) (\<lambda>s1.
       let (r, s2) = on_pte hh pagemap virt False
             (\<lambda>e. if e AND PTE_PRESENT = 0 then Inl EINVAL else Inr 0) s1
       in Inr (r, if already_locked then s2 else unlock_pagemap pagemap s2))"

text \<open>
  A new page map at address \<open>addr\<close> (zero when it cannot be allocated) shares the kernel's half of the
  top level table; \<open>kpm\<close> is the kernel's page map.
\<close>

definition vmm_new_pagemap :: "u64 \<Rightarrow> u64 \<Rightarrow> u64 \<Rightarrow> 'b vm_scheme \<Rightarrow> (errno option + u64) \<times> 'b vm_scheme" where
  "vmm_new_pagemap hh kpm addr s =
     (if addr = 0 then (Inl (Some ENOMEM), s)
      else let (p, s1) = pmm_alloc_page hh s
           in if p = 0 then (Inl (Some ENOMEM), s1)
              else let ktop = ptes s1 (top_level (pagemaps s1 kpm));
                       s2 = put_pagemap addr (\<lambda>_. \<lparr>pm_lock = SPINLOCK_INIT, top_level = p + hh, mmap_ranges = []\<rparr>) s1
                   in (Inr addr, s2\<lparr>ptes := (ptes s2)(p + hh := (\<lambda>i. if 256 \<le> i \<and> i < 512 then ktop i else ptes s2 (p + hh) i))\<rparr>))"

text \<open>Giving back a table and all tables below it, \<open>level\<close> levels deep; a level's loop is \<open>destroy_entries\<close>.\<close>

fun destroy_level :: "u64 \<Rightarrow> nat \<Rightarrow> u64 \<Rightarrow> nat list \<Rightarrow> 'b vm_scheme \<Rightarrow> 'b vm_scheme" where
  "destroy_level hh 0 pml idxs s = s"
| "destroy_level hh (Suc level) pml [] s = pmm_free_page (pml - hh) s"
| "destroy_level hh (Suc level) pml (i # idxs) s =
     (case get_next_level hh pml i False s of
        (Inl _, s1) \<Rightarrow> destroy_level hh (Suc level) pml idxs s1
      | (Inr next_level, s1) \<Rightarrow>
          destroy_level hh (Suc level) pml idxs (destroy_level hh level next_level [0 ..< 512] s1))"


subsection \<open>Tables reached from a root\<close>

lemma vm_simps [simp]:
  "pages (set_pte t i e s) = pages s" "pagemaps (set_pte t i e s) = pagemaps s" "returned (set_pte t i e s) = returned s"
  "pages (zero_table t s) = pages s" "pagemaps (zero_table t s) = pagemaps s" "returned (zero_table t s) = returned s"
  "ptes (put_pagemap p f s) = ptes s" "pages (put_pagemap p f s) = pages s" "returned (put_pagemap p f s) = returned s"
  "pagemaps (put_pagemap p f s) q = (if q = p then f (pagemaps s p) else pagemaps s q)"
  "ptes (tlb_shootdown p s) = ptes s" "pages (tlb_shootdown p s) = pages s" "pagemaps (tlb_shootdown p s) = pagemaps s"
  "returned (tlb_shootdown p s) = returned s"
  "ptes (set_pte t i e s) u j = (if u = t \<and> j = i then e else ptes s u j)"
  "ptes (zero_table t s) u j = (if u = t then 0 else ptes s u j)"
  by (simp_all add: set_pte_def zero_table_def put_pagemap_def tlb_shootdown_def)

lemma unlock_simps [simp]:
  "ptes (unlock_pagemap p s) = ptes s" "pages (unlock_pagemap p s) = pages s" "returned (unlock_pagemap p s) = returned s"
  "top_level (pagemaps (unlock_pagemap p s) q) = top_level (pagemaps s q)"
  "mmap_ranges (pagemaps (unlock_pagemap p s) q) = mmap_ranges (pagemaps s q)"
  "unlocked (pm_lock (pagemaps (unlock_pagemap p s) p))"
  by (simp_all add: unlock_pagemap_def)

definition present :: "u64 \<Rightarrow> bool" where
  "present e \<longleftrightarrow> e AND PTE_PRESENT \<noteq> 0"

definition next_table :: "u64 \<Rightarrow> 'b vm_scheme \<Rightarrow> u64 \<Rightarrow> nat \<Rightarrow> u64 option" where
  "next_table hh s t i = (if present (ptes s t i) then Some (PTE_GET_ADDR (ptes s t i) + hh) else None)"

text \<open>The table at the end of a path of indices.\<close>

fun walk :: "u64 \<Rightarrow> 'b vm_scheme \<Rightarrow> u64 \<Rightarrow> nat list \<Rightarrow> u64 option" where
  "walk hh s t [] = Some t"
| "walk hh s t (i # p) = (case next_table hh s t i of None \<Rightarrow> None | Some u \<Rightarrow> walk hh s u p)"

declare walk.simps(2) [simp del]

lemma walk_append: "walk hh s t (p @ q) = Option.bind (walk hh s t p) (\<lambda>u. walk hh s u q)"
  by (induction p arbitrary: t) (auto simp: walk.simps split: option.split)

lemma walk_snoc: "walk hh s t (p @ [i]) = Option.bind (walk hh s t p) (\<lambda>u. next_table hh s u i)"
  by (simp add: walk_append walk.simps) (auto split: option.split bind_splits)

text \<open>
  Several page maps share the tables below the top level entries from \<open>K\<close> on.  The tables are well
  formed: a table is reached on one path only, and from one root only unless it is shared; the pages
  still to be allocated are good, different, and none of them is a table.
\<close>

definition is_path :: "nat list \<Rightarrow> bool" where
  "is_path p \<longleftrightarrow> length p \<le> 3"

definition shared :: "nat \<Rightarrow> nat list \<Rightarrow> bool" where
  "shared K p \<longleftrightarrow> p \<noteq> [] \<and> K \<le> hd p"

definition good_page :: "u64 \<Rightarrow> bool" where
  "good_page p \<longleftrightarrow> p \<noteq> 0 \<and> PTE_GET_ADDR p = p"

definition wf_tables :: "u64 \<Rightarrow> nat \<Rightarrow> u64 set \<Rightarrow> 'b vm_scheme \<Rightarrow> bool" where
  "wf_tables hh K R s \<longleftrightarrow>
     (\<forall>r \<in> R. \<forall>r' \<in> R. \<forall>p q t. is_path p \<longrightarrow> is_path q \<longrightarrow> walk hh s r p = Some t \<longrightarrow> walk hh s r' q = Some t \<longrightarrow>
        p = q \<and> (r = r' \<or> shared K p)) \<and>
     distinct (pages s) \<and> list_all good_page (pages s) \<and>
     (\<forall>r \<in> R. \<forall>p. \<forall>pg \<in> set (pages s). is_path p \<longrightarrow> walk hh s r p \<noteq> Some (pg + hh))"

lemma wf_tablesD:
  "wf_tables hh K R s \<Longrightarrow> r \<in> R \<Longrightarrow> r' \<in> R \<Longrightarrow> is_path p \<Longrightarrow> is_path q \<Longrightarrow>
    walk hh s r p = Some t \<Longrightarrow> walk hh s r' q = Some t \<Longrightarrow> p = q \<and> (r = r' \<or> shared K p)"
  by (simp add: wf_tables_def)

lemma shared_append: "p \<noteq> [] \<Longrightarrow> shared K (p @ q) = shared K p"
  by (simp add: shared_def)

lemma good_entry:
  assumes "good_page p"
  shows "present (p OR PTE_PRESENT OR PTE_WRITABLE OR PTE_USER)"
    and "PTE_GET_ADDR (p OR PTE_PRESENT OR PTE_WRITABLE OR PTE_USER) = p"
proof -
  show "present (p OR PTE_PRESENT OR PTE_WRITABLE OR PTE_USER)"
    by (simp add: present_def PTE_PRESENT_def PTE_WRITABLE_def PTE_USER_def bit.conj_disj_distrib2 or_eq_0_iff)
  have "PTE_GET_ADDR (p OR PTE_PRESENT OR PTE_WRITABLE OR PTE_USER) =
      PTE_GET_ADDR p OR ((PTE_PRESENT OR PTE_WRITABLE OR PTE_USER) AND PTE_ADDR_MASK)"
    by (simp only: PTE_GET_ADDR_def bit.conj_disj_distrib2)
  also have "(PTE_PRESENT OR PTE_WRITABLE OR PTE_USER) AND PTE_ADDR_MASK = 0"
    by (simp add: PTE_PRESENT_def PTE_WRITABLE_def PTE_USER_def PTE_ADDR_MASK_def)
  finally show "PTE_GET_ADDR (p OR PTE_PRESENT OR PTE_WRITABLE OR PTE_USER) = p"
    using assms by (simp add: good_page_def)
qed

text \<open>Writing one entry of a table that only \<open>r\<close> reaches changes no path but those through the entry.\<close>

lemma walk_set_pte_other:
  assumes wf: "wf_tables hh K R s" and r: "r \<in> R" and t: "walk hh s r p = Some t" "is_path p"
    and own: "\<not> shared K (p @ [i])" and r': "r' \<in> R"
  shows "is_path q \<Longrightarrow> \<not> (r' = r \<and> (\<exists>z. q = p @ i # z)) \<Longrightarrow> walk hh (set_pte t i e s) r' q = walk hh s r' q"
proof (induction q rule: rev_induct)
  case (snoc j q)
  have q: "is_path q" using snoc.prems(1) by (simp add: is_path_def)
  have nr: "\<not> (r' = r \<and> (\<exists>z. q = p @ i # z))" using snoc.prems(2) by auto
  have IH: "walk hh (set_pte t i e s) r' q = walk hh s r' q" by (rule snoc.IH [OF q nr])
  have "next_table hh (set_pte t i e s) u j = next_table hh s u j" if u: "walk hh s r' q = Some u" for u
  proof (cases "u = t \<and> j = i")
    case True
    then have "walk hh s r' q = Some t" using u by simp
    then have "p = q \<and> (r = r' \<or> shared K p)" by (rule wf_tablesD [OF wf r r' t(2) q t(1)])
    moreover have "\<not> shared K p \<or> p = []" using own by (cases "p = []") (simp_all add: shared_append)
    ultimately have "r' = r \<and> q @ [j] = p @ i # []" using True by (auto simp: shared_def)
    then show ?thesis using snoc.prems(2) by blast
  qed (auto simp: next_table_def)
  then show ?case by (simp add: walk_snoc IH) (auto split: bind_splits)
qed simp

lemma walk_zero_table:
  assumes "\<And>q. is_path q \<Longrightarrow> walk hh s r q \<noteq> Some n"
  shows "is_path q \<Longrightarrow> walk hh (zero_table n s) r q = walk hh s r q"
proof (induction q rule: rev_induct)
  case (snoc j q)
  have q: "is_path q" using snoc.prems by (simp add: is_path_def)
  then have "next_table hh (zero_table n s) u j = next_table hh s u j" if "walk hh s r q = Some u" for u
    using assms [OF q] that by (auto simp: next_table_def)
  with snoc.IH [OF q] show ?case by (simp add: walk_snoc) (auto split: bind_splits)
qed simp


subsection \<open>The mapping a root stands for\<close>

definition pt_path :: "u64 \<Rightarrow> nat list" where
  "pt_path v = [pml_entry 39 v, pml_entry 30 v, pml_entry 21 v]"

definition page_entry :: "u64 \<Rightarrow> 'b vm_scheme \<Rightarrow> u64 \<Rightarrow> u64 \<Rightarrow> u64 option" where
  "page_entry hh s r v =
     (case walk hh s r (pt_path v) of
        None \<Rightarrow> None
      | Some t \<Rightarrow> if present (ptes s t (pml_entry 12 v)) then Some (ptes s t (pml_entry 12 v)) else None)"

text \<open>Two addresses in the same page.\<close>

definition same_page :: "u64 \<Rightarrow> u64 \<Rightarrow> bool" where
  "same_page v w \<longleftrightarrow> pt_path v = pt_path w \<and> pml_entry 12 v = pml_entry 12 w"

lemma walk_cong: "ptes s' = ptes s \<Longrightarrow> walk hh s' r q = walk hh s r q"
  by (induction q arbitrary: r) (auto simp: walk.simps next_table_def split: option.split)

lemma not_present_zero [simp]: "\<not> present 0"
  by (simp add: present_def)

text \<open>What allocating a table does to the paths.\<close>

lemma walk_new_table:
  assumes wf: "wf_tables hh K R s" and r: "r \<in> R" and t: "walk hh s r p = Some t" and p: "length p \<le> 2"
    and own: "\<not> shared K (p @ [i])" and absent: "\<not> present (ptes s t i)"
    and new: "\<And>r' q. r' \<in> R \<Longrightarrow> is_path q \<Longrightarrow> walk hh s r' q \<noteq> Some (pg + hh)" and pg: "good_page pg"
    and s': "ptes s' = ptes (set_pte t i (pg OR PTE_PRESENT OR PTE_WRITABLE OR PTE_USER) (zero_table (pg + hh) s))"
    and r': "r' \<in> R" and q: "is_path q"
  shows "walk hh s' r' q = (if r' = r \<and> q = p @ [i] then Some (pg + hh) else walk hh s r' q)"
    and "page_entry hh s' r' v = page_entry hh s r' v"
proof -
  let ?n = "pg + hh" let ?e = "pg OR PTE_PRESENT OR PTE_WRITABLE OR PTE_USER"
  let ?s0 = "zero_table ?n s" let ?s1 = "set_pte t i ?e ?s0"
  have pp: "is_path p" using p by (simp add: is_path_def)
  have w0: "walk hh ?s0 r'' q = walk hh s r'' q" if "r'' \<in> R" "is_path q" for r'' q
    using walk_zero_table [OF new [OF that(1)]] that(2) by simp
  have wf0: "wf_tables hh K R ?s0" using wf unfolding wf_tables_def by (simp add: w0)
  have tn: "t \<noteq> ?n" using new [OF r pp] t by auto
  have w1: "walk hh s' r'' q = walk hh ?s1 r'' q" for r'' q by (rule walk_cong [OF s'])
  have other: "walk hh s' r'' q = walk hh s r'' q" if "r'' \<in> R" "is_path q" "\<not> (r'' = r \<and> (\<exists>z. q = p @ i # z))" for r'' q
    unfolding w1 using walk_set_pte_other [OF wf0 r _ pp own that(1) that(2,3)] w0 r t pp that by simp
  have wp: "walk hh s' r p = Some t" using other [OF r pp] t by auto
  have at: "walk hh s' r (p @ [i]) = Some ?n"
    using wp good_entry [OF pg] tn by (simp add: walk_snoc next_table_def s')
  have below: "walk hh s' r (p @ i # j # z) = None" for j z
  proof -
    have "walk hh s' ?n (j # z) = None" using tn by (simp add: walk.simps next_table_def s')
    then show ?thesis using walk_append [of hh s' r "p @ [i]" "j # z"] by (simp only: at bind.bind_lunit append.simps append_assoc)
  qed
  have before: "walk hh s r (p @ i # z) = None" for z
    using t absent by (simp add: walk_append walk.simps next_table_def)
  have char: "walk hh s' r' q = (if r' = r \<and> q = p @ [i] then Some ?n else walk hh s r' q)" if "is_path q" for q
  proof (cases "r' = r \<and> (\<exists>z. q = p @ i # z)")
    case True
    then obtain z where "r' = r" "q = p @ i # z" by blast
    with at below before show ?thesis by (cases z) auto
  next
    case False
    with other [OF r' that False] show ?thesis by auto
  qed
  show "walk hh s' r' q = (if r' = r \<and> q = p @ [i] then Some ?n else walk hh s r' q)" by (rule char [OF q])
  have path: "is_path (pt_path v)" by (simp add: is_path_def pt_path_def)
  show "page_entry hh s' r' v = page_entry hh s r' v"
  proof (cases "r' = r \<and> pt_path v = p @ [i]")
    case True
    then show ?thesis using char [OF path] before [of "[]"] tn by (auto simp: page_entry_def s')
  next
    case False
    have "ptes s' u j = ptes s u j" if u: "walk hh s r' (pt_path v) = Some u" for u j
    proof (cases "u = t \<and> j = i")
      case True
      then have "pt_path v = p \<and> (r' = r \<or> shared K (pt_path v))"
        using wf_tablesD [OF wf r' r path pp, of t] u t by auto
      then have "length (pt_path v) \<le> 2" using p by simp
      then show ?thesis by (simp add: pt_path_def)
    next
      case F: False
      have "u \<noteq> ?n" using new [OF r' path] u by auto
      then show ?thesis using F by (auto simp: s')
    qed
    then show ?thesis using char [OF path] False by (auto simp: page_entry_def split: option.split)
  qed
qed


text \<open>What the steps of a walk keep: the mappings of all roots, and everything but tables and pages.\<close>

definition same_maps :: "u64 \<Rightarrow> u64 set \<Rightarrow> 'b vm_scheme \<Rightarrow> 'b vm_scheme \<Rightarrow> bool" where
  "same_maps hh R s s' \<longleftrightarrow> pagemaps s' = pagemaps s \<and> returned s' = returned s \<and>
     (\<forall>r \<in> R. \<forall>v. page_entry hh s' r v = page_entry hh s r v)"

lemma same_maps_refl [simp]: "same_maps hh R s s"
  by (simp add: same_maps_def)

lemma same_maps_trans: "same_maps hh R s s1 \<Longrightarrow> same_maps hh R s1 s2 \<Longrightarrow> same_maps hh R s s2"
  by (simp add: same_maps_def)

lemma wf_new_table:
  assumes wf: "wf_tables hh K R s" and r: "r \<in> R" and p: "length p \<le> 2"
    and pages: "pages s = pg # ps" "pages s' = ps"
    and w: "\<And>r' q. r' \<in> R \<Longrightarrow> is_path q \<Longrightarrow>
       walk hh s' r' q = (if r' = r \<and> q = p @ [i] then Some (pg + hh) else walk hh s r' q)"
  shows "wf_tables hh K R s'"
proof -
  have new: "walk hh s r' q \<noteq> Some (pg + hh)" if "r' \<in> R" "is_path q" for r' q
    using wf that pages(1) unfolding wf_tables_def by simp
  have "p' = q \<and> (r1 = r2 \<or> shared K p')"
    if "r1 \<in> R" "r2 \<in> R" "is_path p'" "is_path q" "walk hh s' r1 p' = Some t" "walk hh s' r2 q = Some t" for r1 r2 p' q t
    using that new wf_tablesD [OF wf that(1-4), of t] by (auto simp: w split: if_splits)
  moreover have "walk hh s' r' q \<noteq> Some (x + hh)" if "r' \<in> R" "is_path q" "x \<in> set ps" for r' q x
    using wf that pages(1) unfolding wf_tables_def by (auto simp: w)
  ultimately show ?thesis using wf pages unfolding wf_tables_def by auto
qed

lemma get_next_level_alloc:
  assumes wf: "wf_tables hh K R s" and r: "r \<in> R" and t: "walk hh s r p = Some t" and p: "length p \<le> 2"
    and own: "\<not> shared K (p @ [i])" and q: "q = p @ [i]"
  shows "\<exists>x s'. get_next_level hh t i True s = (x, s') \<and> wf_tables hh K R s' \<and> same_maps hh R s s' \<and>
    length (pages s) \<le> Suc (length (pages s')) \<and>
    (case x of Inl e \<Rightarrow> e = Some ENOMEM \<and> pages s = [] | Inr u \<Rightarrow> walk hh s' r q = Some u)"
proof (cases "present (ptes s t i)")
  case True
  then have "get_next_level hh t i True s = (Inr (PTE_GET_ADDR (ptes s t i) + hh), s)"
    by (simp add: get_next_level_def present_def)
  then show ?thesis using wf t True by (simp add: q walk_snoc next_table_def)
next
  case False
  show ?thesis
  proof (cases "pages s")
    case Nil
    then show ?thesis using False wf by (simp add: get_next_level_def present_def pmm_alloc_page_def)
  next
    case (Cons pg ps)
    have good: "good_page pg" using wf Cons by (simp add: wf_tables_def)
    let ?s' = "set_pte t i (pg OR PTE_PRESENT OR PTE_WRITABLE OR PTE_USER) (zero_table (pg + hh) (s\<lparr>pages := ps\<rparr>))"
    have g: "get_next_level hh t i True s = (Inr (pg + hh), ?s')"
      using False Cons good by (simp add: get_next_level_def present_def pmm_alloc_page_def good_page_def Let_def)
    have new: "walk hh s r' q \<noteq> Some (pg + hh)" if "r' \<in> R" "is_path q" for r' q
      using wf that Cons unfolding wf_tables_def by simp
    have s': "ptes ?s' = ptes (set_pte t i (pg OR PTE_PRESENT OR PTE_WRITABLE OR PTE_USER) (zero_table (pg + hh) s))"
      by (simp add: set_pte_def zero_table_def)
    have walks: "walk hh ?s' r' q = (if r' = r \<and> q = p @ [i] then Some (pg + hh) else walk hh s r' q)"
      "page_entry hh ?s' r' v = page_entry hh s r' v" if "r' \<in> R" "is_path q" for r' q v
      by (rule walk_new_table [OF wf r t p own False _ good s' that], rule new, assumption+)+
    have "is_path (p @ [i])" using p by (simp add: is_path_def)
    then have at: "walk hh ?s' r (p @ [i]) = Some (pg + hh)" using walks(1) [OF r] by simp
    have "wf_tables hh K R ?s'" by (rule wf_new_table [OF wf r p Cons]) (simp_all add: walks(1))
    moreover have "same_maps hh R s ?s'" by (simp add: same_maps_def walks(2) [where q = "[]"] is_path_def)
    ultimately show ?thesis using g at Cons q by auto
  qed
qed

lemma get_next_level_plain:
  "get_next_level hh t i False s = (case next_table hh s t i of None \<Rightarrow> Inl None | Some u \<Rightarrow> Inr u, s)"
  by (simp add: get_next_level_def next_table_def present_def)

lemma virt2pte_plain:
  "vmm_virt2pte hh pm v False s = (case walk hh s (top_level (pagemaps s pm)) (pt_path v) of
     None \<Rightarrow> Inl None | Some t \<Rightarrow> Inr (t, pml_entry 12 v), s)"
  by (simp add: vmm_virt2pte_def get_next_level_plain pt_path_def walk.simps split: option.split sum.split)

lemma virt2pte_alloc:
  assumes wf: "wf_tables hh K R s" and r: "top_level (pagemaps s pm) = r" "r \<in> R" and own: "pml_entry 39 v < K"
  shows "\<exists>x s'. vmm_virt2pte hh pm v True s = (x, s') \<and> wf_tables hh K R s' \<and> same_maps hh R s s' \<and>
    length (pages s) \<le> length (pages s') + 3 \<and>
    (case x of Inl e \<Rightarrow> e = Some ENOMEM \<and> length (pages s) < 3
     | Inr (t, i) \<Rightarrow> i = pml_entry 12 v \<and> walk hh s' r (pt_path v) = Some t)"
proof -
  let ?a = "pml_entry 39 v" let ?b = "pml_entry 30 v" let ?c = "pml_entry 21 v"
  have own': "\<not> shared K (?a # z)" for z using own by (simp add: shared_def)
  obtain x1 s1 where 1: "get_next_level hh r ?a True s = (x1, s1)" "wf_tables hh K R s1" "same_maps hh R s s1"
      "length (pages s) \<le> Suc (length (pages s1))"
      "case x1 of Inl e \<Rightarrow> e = Some ENOMEM \<and> pages s = [] | Inr u \<Rightarrow> walk hh s1 r [?a] = Some u"
    using get_next_level_alloc [OF wf r(2), of "[]" r ?a "[?a]"] own' by auto
  show ?thesis
  proof (cases x1)
    case (Inl e)
    then show ?thesis using 1 r by (auto simp: vmm_virt2pte_def)
  next
    case x1: (Inr t1)
    have w1: "walk hh s1 r [?a] = Some t1" "length [?a] \<le> 2" "\<not> shared K ([?a] @ [?b])" "[?a, ?b] = [?a] @ [?b]"
      using 1(5) x1 own' by simp_all
    obtain x2 s2 where 2: "get_next_level hh t1 ?b True s1 = (x2, s2)" "wf_tables hh K R s2" "same_maps hh R s1 s2"
        "length (pages s1) \<le> Suc (length (pages s2))"
        "case x2 of Inl e \<Rightarrow> e = Some ENOMEM \<and> pages s1 = [] | Inr u \<Rightarrow> walk hh s2 r [?a, ?b] = Some u"
      using get_next_level_alloc [OF 1(2) r(2) w1] by blast
    show ?thesis
    proof (cases x2)
      case (Inl e)
      then show ?thesis using 1 2 x1 r by (auto simp: vmm_virt2pte_def intro: same_maps_trans)
    next
      case x2: (Inr t2)
      have w2: "walk hh s2 r [?a, ?b] = Some t2" "length [?a, ?b] \<le> 2" "\<not> shared K ([?a, ?b] @ [?c])"
          "[?a, ?b, ?c] = [?a, ?b] @ [?c]"
        using 2(5) x2 own' by simp_all
      obtain x3 s3 where 3: "get_next_level hh t2 ?c True s2 = (x3, s3)" "wf_tables hh K R s3" "same_maps hh R s2 s3"
          "length (pages s2) \<le> Suc (length (pages s3))"
          "case x3 of Inl e \<Rightarrow> e = Some ENOMEM \<and> pages s2 = [] | Inr u \<Rightarrow> walk hh s3 r [?a, ?b, ?c] = Some u"
        using get_next_level_alloc [OF 2(2) r(2) w2] by blast
      have sm: "same_maps hh R s s3" by (rule same_maps_trans [OF same_maps_trans [OF 1(3) 2(3)] 3(3)])
      have few: "length (pages s) < 3" if "pages s2 = []" using 1(4) 2(4) that by simp
      have len: "length (pages s) \<le> length (pages s3) + 3" using 1(4) 2(4) 3(4) by simp
      show ?thesis using 1(1) 2(1) 3 sm few len x1 x2 r
        by (cases x3) (auto simp: vmm_virt2pte_def pt_path_def)
    qed
  qed
qed

text \<open>Writing the last level changes one page of one root.\<close>

lemma set_leaf:
  fixes e :: u64
  assumes wf: "wf_tables hh K R s" and r: "r \<in> R" and own: "pml_entry 39 v < K" and t: "walk hh s r (pt_path v) = Some t"
  defines "s' \<equiv> set_pte t (pml_entry 12 v) e s"
  shows "wf_tables hh K R s'"
    and "r' \<in> R \<Longrightarrow> page_entry hh s' r' w =
      (if r' = r \<and> same_page v w then (if present e then Some e else None) else page_entry hh s r' w)"
proof -
  have path: "is_path (pt_path x)" for x by (simp add: is_path_def pt_path_def)
  have own': "\<not> shared K (pt_path v @ [pml_entry 12 v])" using own by (simp add: shared_def pt_path_def)
  have walks: "walk hh s' r'' q = walk hh s r'' q" if "r'' \<in> R" "is_path q" for r'' q
    unfolding s'_def by (rule walk_set_pte_other [OF wf r t path own' that]) (use that(2) in \<open>auto simp: is_path_def pt_path_def\<close>)
  show "wf_tables hh K R s'" using wf unfolding wf_tables_def by (simp add: walks) (simp add: s'_def)
  show "page_entry hh s' r' w =
      (if r' = r \<and> same_page v w then (if present e then Some e else None) else page_entry hh s r' w)" if r': "r' \<in> R"
  proof (cases "walk hh s r' (pt_path w)")
    case None
    then show ?thesis using walks [OF r' path] t by (auto simp: page_entry_def same_page_def)
  next
    case (Some u)
    have "r' = r \<and> pt_path v = pt_path w" if "u = t"
      using wf_tablesD [OF wf r r' path path t] Some that own by (auto simp: shared_def pt_path_def)
    then show ?thesis using walks [OF r' path] t Some
      by (auto simp: page_entry_def same_page_def s'_def)
  qed
qed


subsection \<open>Operations on pages\<close>

text \<open>
  The page maps \<open>M\<close> in a good state: their tables are well formed, their roots are different and
  nobody holds a lock.
\<close>

definition root_of :: "'b vm_scheme \<Rightarrow> u64 \<Rightarrow> u64" where
  "root_of s m = top_level (pagemaps s m)"

definition vm_ok :: "u64 \<Rightarrow> nat \<Rightarrow> u64 set \<Rightarrow> 'b vm_scheme \<Rightarrow> bool" where
  "vm_ok hh K M s \<longleftrightarrow> wf_tables hh K (root_of s ` M) s \<and> inj_on (root_of s) M \<and> (\<forall>m \<in> M. unlocked (pm_lock (pagemaps s m)))"

definition entry_of :: "u64 \<Rightarrow> 'b vm_scheme \<Rightarrow> u64 \<Rightarrow> u64 \<Rightarrow> u64 option" where
  "entry_of hh s m v = page_entry hh s (root_of s m) v"

lemma wf_tables_cong: "ptes s' = ptes s \<Longrightarrow> pages s' = pages s \<Longrightarrow> wf_tables hh K R s' = wf_tables hh K R s"
  by (simp add: wf_tables_def walk_cong [of s' s])

lemma page_entry_cong: "ptes s' = ptes s \<Longrightarrow> page_entry hh s' r v = page_entry hh s r v"
  by (auto simp: page_entry_def walk_cong [of s' s] split: option.split)

lemma tables_simps [simp]:
  "wf_tables hh K R (tlb_shootdown m s) = wf_tables hh K R s" "page_entry hh (tlb_shootdown m s) r v = page_entry hh s r v"
  "wf_tables hh K R (put_pagemap m f s) = wf_tables hh K R s" "page_entry hh (put_pagemap m f s) r v = page_entry hh s r v"
  "wf_tables hh K R (unlock_pagemap m s) = wf_tables hh K R s" "page_entry hh (unlock_pagemap m s) r v = page_entry hh s r v"
  by (auto intro!: wf_tables_cong page_entry_cong)

lemma lock_pagemap_ok:
  "unlocked (pm_lock (pagemaps s m)) \<Longrightarrow>
   lock_pagemap c m s = Inr (put_pagemap m (\<lambda>p. p\<lparr>pm_lock := (pm_lock p)\<lparr>lock_word := 1, last_acquirer := c\<rparr>\<rparr>) s)"
  by (simp add: lock_pagemap_def klock put_pagemap_def)

lemma on_pte_alloc:
  assumes wf: "wf_tables hh K R s" and r: "root_of s m = r" "r \<in> R" and own: "pml_entry 39 v < K" and e: "present e"
  shows "\<exists>x s'. on_pte hh m v True (\<lambda>x. if x AND PTE_PRESENT \<noteq> 0 then Inl EINVAL else Inr e) s = (x, s') \<and>
    wf_tables hh K R s' \<and> pagemaps s' = pagemaps s \<and> returned s' = returned s \<and> length (pages s) \<le> length (pages s') + 3 \<and>
    (case x of
       Inl err \<Rightarrow> (err = Some ENOMEM \<and> length (pages s) < 3 \<or> err = Some EINVAL \<and> page_entry hh s r v \<noteq> None) \<and>
         (\<forall>r' \<in> R. \<forall>w. page_entry hh s' r' w = page_entry hh s r' w)
     | Inr _ \<Rightarrow> page_entry hh s r v = None \<and>
         (\<forall>r' \<in> R. \<forall>w. page_entry hh s' r' w = (if r' = r \<and> same_page v w then Some e else page_entry hh s r' w)))"
proof -
  obtain x s1 where 1: "vmm_virt2pte hh m v True s = (x, s1)" "wf_tables hh K R s1" "same_maps hh R s s1"
      "length (pages s) \<le> length (pages s1) + 3"
      "case x of Inl e \<Rightarrow> e = Some ENOMEM \<and> length (pages s) < 3
       | Inr (t, i) \<Rightarrow> i = pml_entry 12 v \<and> walk hh s1 r (pt_path v) = Some t"
    using virt2pte_alloc [OF wf r [unfolded root_of_def] own] by blast
  show ?thesis
  proof (cases x)
    case (Inl err)
    then show ?thesis using 1 by (auto simp: on_pte_def same_maps_def)
  next
    case (Inr ti)
    then obtain t where t: "x = Inr (t, pml_entry 12 v)" "walk hh s1 r (pt_path v) = Some t"
      using 1(5) by (cases ti) auto
    have old: "page_entry hh s r v = (if present (ptes s1 t (pml_entry 12 v)) then Some (ptes s1 t (pml_entry 12 v)) else None)"
    proof -
      have "page_entry hh s r v = page_entry hh s1 r v" using 1(3) r by (simp add: same_maps_def)
      then show ?thesis using t by (simp add: page_entry_def)
    qed
    note leaf = set_leaf [OF 1(2) r(2) own t(2), where e = e]
    show ?thesis
    proof (cases "present (ptes s1 t (pml_entry 12 v))")
      case True
      then show ?thesis using 1 t old
        by (auto simp: on_pte_def present_def same_maps_def)
    next
      case False
      then have o: "on_pte hh m v True (\<lambda>x. if x AND PTE_PRESENT \<noteq> 0 then Inl EINVAL else Inr e) s =
          (Inr (), tlb_shootdown m (set_pte t (pml_entry 12 v) e s1))"
        using 1(1) t by (simp add: on_pte_def present_def)
      have "wf_tables hh K R (tlb_shootdown m (set_pte t (pml_entry 12 v) e s1))"
        using leaf(1) by simp
      moreover have "page_entry hh (tlb_shootdown m (set_pte t (pml_entry 12 v) e s1)) r' w =
          (if r' = r \<and> same_page v w then Some e else page_entry hh s r' w)" if "r' \<in> R" for r' w
        using leaf(2) [OF that] e 1(3) that by (simp add: same_maps_def)
      ultimately show ?thesis using o old False 1(3,4) by (auto simp: same_maps_def)
    qed
  qed
qed

lemma on_pte_plain:
  assumes wf: "wf_tables hh K R s" and r: "root_of s m = r" "r \<in> R" and own: "pml_entry 39 v < K"
  shows "\<exists>x s'. on_pte hh m v False (\<lambda>x. if x AND PTE_PRESENT = 0 then Inl EINVAL else Inr (f x)) s = (x, s') \<and>
    wf_tables hh K R s' \<and> pagemaps s' = pagemaps s \<and> pages s' = pages s \<and> returned s' = returned s \<and>
    (case x of
       Inl err \<Rightarrow> page_entry hh s r v = None \<and> (\<forall>r' \<in> R. \<forall>w. page_entry hh s' r' w = page_entry hh s r' w)
     | Inr _ \<Rightarrow> (\<exists>e. page_entry hh s r v = Some e \<and>
         (\<forall>r' \<in> R. \<forall>w. page_entry hh s' r' w = (if r' = r \<and> same_page v w then (if present (f e) then Some (f e) else None)
           else page_entry hh s r' w))))"
proof (cases "walk hh s r (pt_path v)")
  case None
  then show ?thesis using wf r
    by (auto simp: on_pte_def virt2pte_plain root_of_def page_entry_def [of hh s r v])
next
  case (Some t)
  have v: "vmm_virt2pte hh m v False s = (Inr (t, pml_entry 12 v), s)" using Some r by (simp add: virt2pte_plain root_of_def)
  show ?thesis
  proof (cases "present (ptes s t (pml_entry 12 v))")
    case False
    then show ?thesis using v Some wf
      by (auto simp: on_pte_def present_def page_entry_def [of hh s r v])
  next
    case True
    let ?e = "ptes s t (pml_entry 12 v)"
    let ?s' = "tlb_shootdown m (set_pte t (pml_entry 12 v) (f ?e) s)"
    note leaf = set_leaf [OF wf r(2) own Some, where e = "f ?e"]
    have o: "on_pte hh m v False (\<lambda>x. if x AND PTE_PRESENT = 0 then Inl EINVAL else Inr (f x)) s = (Inr (), ?s')"
      using v True by (simp add: on_pte_def present_def)
    have old: "page_entry hh s r v = Some ?e" using Some True by (simp add: page_entry_def)
    have "wf_tables hh K R ?s'" using leaf(1) by simp
    moreover have "page_entry hh ?s' r' w = (if r' = r \<and> same_page v w then (if present (f ?e) then Some (f ?e) else None)
        else page_entry hh s r' w)" if "r' \<in> R" for r' w
      using leaf(2) [OF that] by simp
    ultimately show ?thesis using o old by auto
  qed
qed


text \<open>After an operation that keeps the page maps but for the lock, the state is good again.\<close>

lemma vm_ok_unlock:
  assumes "vm_ok hh K M s" and "wf_tables hh K (root_of s ` M) s'" and "m \<in> M"
    and "pagemaps s' = pagemaps (put_pagemap m (\<lambda>p. p\<lparr>pm_lock := l\<rparr>) s)"
  shows "vm_ok hh K M (unlock_pagemap m s')" and "root_of (unlock_pagemap m s') m' = root_of s m'"
proof -
  show r: "root_of (unlock_pagemap m s') m' = root_of s m'" for m'
    by (simp add: root_of_def unlock_pagemap_def assms(4))
  then have rr: "root_of (unlock_pagemap m s') = root_of s" by blast
  have "unlocked (pm_lock (pagemaps (unlock_pagemap m s') m'))" if "m' \<in> M" for m'
    using assms(1) that by (auto simp: vm_ok_def assms(4) unlock_pagemap_def spinlock_release_def)
  then show "vm_ok hh K M (unlock_pagemap m s')"
    using assms(1,2) unfolding vm_ok_def rr by simp
qed

lemma map_page_law:
  assumes ok: "vm_ok hh K M s" and m: "m \<in> M" and own: "pml_entry 39 v < K" and e: "present (phys OR flags)"
  shows "\<exists>x s'. vmm_map_page hh m v phys flags s = Inr (x, s') \<and> vm_ok hh K M s' \<and> root_of s' = root_of s \<and> length (pages s) \<le> length (pages s') + 3 \<and>
    (case x of
       Inl err \<Rightarrow> (err = Some ENOMEM \<and> length (pages s) < 3 \<or> err = Some EINVAL \<and> entry_of hh s m v \<noteq> None) \<and>
         (\<forall>m' \<in> M. \<forall>w. entry_of hh s' m' w = entry_of hh s m' w)
     | Inr _ \<Rightarrow> entry_of hh s m v = None \<and>
         (\<forall>m' \<in> M. \<forall>w. entry_of hh s' m' w = (if m' = m \<and> same_page v w then Some (phys OR flags) else entry_of hh s m' w)))"
proof -
  define l where "l = (pm_lock (pagemaps s m))\<lparr>lock_word := 1, last_acquirer := ''vmm_map_page''\<rparr>"
  define s1 where "s1 = put_pagemap m (\<lambda>p. p\<lparr>pm_lock := l\<rparr>) s"
  have lock: "lock_pagemap ''vmm_map_page'' m s = Inr s1"
    using ok m by (simp add: lock_pagemap_ok vm_ok_def s1_def l_def put_pagemap_def)
  have r: "root_of s1 m = root_of s m" "root_of s m \<in> root_of s ` M" using m by (auto simp: root_of_def s1_def)
  have wf: "wf_tables hh K (root_of s ` M) s1" using ok by (simp add: vm_ok_def s1_def)
  obtain x s2 where 2: "on_pte hh m v True (\<lambda>x. if x AND PTE_PRESENT \<noteq> 0 then Inl EINVAL else Inr (phys OR flags)) s1 = (x, s2)"
      "wf_tables hh K (root_of s ` M) s2" "pagemaps s2 = pagemaps s1" "length (pages s1) \<le> length (pages s2) + 3"
      "case x of
         Inl err \<Rightarrow> (err = Some ENOMEM \<and> length (pages s1) < 3 \<or> err = Some EINVAL \<and> page_entry hh s1 (root_of s m) v \<noteq> None) \<and>
           (\<forall>r' \<in> root_of s ` M. \<forall>w. page_entry hh s2 r' w = page_entry hh s1 r' w)
       | Inr _ \<Rightarrow> page_entry hh s1 (root_of s m) v = None \<and>
           (\<forall>r' \<in> root_of s ` M. \<forall>w. page_entry hh s2 r' w = (if r' = root_of s m \<and> same_page v w then Some (phys OR flags)
              else page_entry hh s1 r' w))"
    using on_pte_alloc [OF wf r own e] by blast
  note ok' = vm_ok_unlock [OF ok 2(2) m 2(3) [unfolded s1_def]]
  have inj: "root_of s m' = root_of s m \<longleftrightarrow> m' = m" if "m' \<in> M" for m'
    using ok m that by (auto simp: vm_ok_def inj_on_def)
  have "vmm_map_page hh m v phys flags s = Inr (x, unlock_pagemap m s2)"
    by (simp add: vmm_map_page_def lock 2(1))
  moreover have "root_of (unlock_pagemap m s2) = root_of s" using ok'(2) by blast
  ultimately show ?thesis using ok'(1) 2(4,5) inj
    by (cases x) (auto simp: entry_of_def s1_def)
qed

lemma plain_law:
  assumes ok: "vm_ok hh K M s" and m: "m \<in> M" and own: "pml_entry 39 v < K"
    and op: "\<And>s1. op s1 = on_pte hh m v False (\<lambda>x. if x AND PTE_PRESENT = 0 then Inl EINVAL else Inr (f x)) s1"
  shows "\<exists>x s'. rbind (lock_pagemap c m s) (\<lambda>s1. let (r, s2) = op s1 in Inr (r, unlock_pagemap m s2)) = Inr (x, s') \<and>
    vm_ok hh K M s' \<and> root_of s' = root_of s \<and> pages s' = pages s \<and>
    (case x of
       Inl err \<Rightarrow> entry_of hh s m v = None \<and> (\<forall>m' \<in> M. \<forall>w. entry_of hh s' m' w = entry_of hh s m' w)
     | Inr _ \<Rightarrow> (\<exists>e. entry_of hh s m v = Some e \<and>
         (\<forall>m' \<in> M. \<forall>w. entry_of hh s' m' w = (if m' = m \<and> same_page v w then (if present (f e) then Some (f e) else None)
           else entry_of hh s m' w))))"
proof -
  define l where "l = (pm_lock (pagemaps s m))\<lparr>lock_word := 1, last_acquirer := c\<rparr>"
  define s1 where "s1 = put_pagemap m (\<lambda>p. p\<lparr>pm_lock := l\<rparr>) s"
  have lock: "lock_pagemap c m s = Inr s1"
    using ok m by (simp add: lock_pagemap_ok vm_ok_def s1_def l_def put_pagemap_def)
  have r: "root_of s1 m = root_of s m" "root_of s m \<in> root_of s ` M" using m by (auto simp: root_of_def s1_def)
  have wf: "wf_tables hh K (root_of s ` M) s1" using ok by (simp add: vm_ok_def s1_def)
  obtain x s2 where 2: "op s1 = (x, s2)" "wf_tables hh K (root_of s ` M) s2" "pagemaps s2 = pagemaps s1" "pages s2 = pages s1"
      "case x of
         Inl err \<Rightarrow> page_entry hh s1 (root_of s m) v = None \<and> (\<forall>r' \<in> root_of s ` M. \<forall>w. page_entry hh s2 r' w = page_entry hh s1 r' w)
       | Inr _ \<Rightarrow> (\<exists>e. page_entry hh s1 (root_of s m) v = Some e \<and>
           (\<forall>r' \<in> root_of s ` M. \<forall>w. page_entry hh s2 r' w = (if r' = root_of s m \<and> same_page v w
              then (if present (f e) then Some (f e) else None) else page_entry hh s1 r' w)))"
    using on_pte_plain [OF wf r own, of f] unfolding op by blast
  note ok' = vm_ok_unlock [OF ok 2(2) m 2(3) [unfolded s1_def]]
  have inj: "root_of s m' = root_of s m \<longleftrightarrow> m' = m" if "m' \<in> M" for m'
    using ok m that by (auto simp: vm_ok_def inj_on_def)
  have "root_of (unlock_pagemap m s2) = root_of s" using ok'(2) by blast
  then show ?thesis using ok'(1) 2 inj
    by (cases x) (auto simp: entry_of_def s1_def lock)
qed

subsection \<open>Page numbers\<close>

lemma pml_entry_div: "pml_entry n v = unat v div 2 ^ n mod 512"
proof -
  have m: "(0x1ff :: u64) = mask 9" by (simp add: mask_eq_exp_minus_1)
  have "drop_bit n (v AND push_bit n 0x1ff) = take_bit 9 (drop_bit n v)"
    unfolding m by (rule bit_word_eqI) (auto simp: bit_simps dest: bit_imp_le_length)
  then show ?thesis
    by (simp only: pml_entry_def unsigned_take_bit_eq unat_drop_bit_eq) (simp add: take_bit_eq_mod drop_bit_eq_div)
qed

text \<open>The four indices are the digits of the page number.\<close>

definition page_no :: "u64 \<Rightarrow> nat" where
  "page_no v = unat v div 4096 mod 2 ^ 36"

lemma digits: "(x :: nat) mod 68719476736 = x mod 512 + 512 * (x div 512 mod 512 + 512 * (x div 262144 mod 512 + 512 * (x div 134217728 mod 512)))"
proof -
  have "x mod (512 * (512 * (512 * 512))) = 512 * (x div 512 mod (512 * (512 * 512))) + x mod 512" by (rule mod_mult2_eq)
  moreover have "x div 512 mod (512 * (512 * 512)) = 512 * (x div 512 div 512 mod (512 * 512)) + x div 512 mod 512" by (rule mod_mult2_eq)
  moreover have "x div 512 div 512 mod (512 * 512) = 512 * (x div 512 div 512 div 512 mod 512) + x div 512 div 512 mod 512" by (rule mod_mult2_eq)
  ultimately show ?thesis by (simp add: div_mult2_eq [symmetric])
qed

lemma same_page_iff: "same_page v w \<longleftrightarrow> page_no v = page_no w"
proof -
  have d: "unat x div 2097152 = unat x div 4096 div 512" "unat x div 1073741824 = unat x div 4096 div 262144"
    "unat x div 549755813888 = unat x div 4096 div 134217728" for x :: u64
    by (simp_all add: div_mult2_eq [symmetric])
  have e: "page_no x = pml_entry 12 x + 512 * (pml_entry 21 x + 512 * (pml_entry 30 x + 512 * pml_entry 39 x))" for x
    using digits [of "unat x div 4096"] by (simp add: page_no_def pml_entry_div d)
  have lt: "pml_entry n x < 512" for n x by (simp add: pml_entry_div)
  have "a = c \<and> b = d" if eq: "a + 512 * b = c + 512 * d" "a < 512" "c < 512" for a b c d :: nat
  proof -
    have "(a + 512 * b) mod 512 = a" "(a + 512 * b) div 512 = b" "(c + 512 * d) mod 512 = c" "(c + 512 * d) div 512 = d"
      using eq(2,3) by simp_all
    then show ?thesis using eq(1) by simp
  qed
  then have inj: "a + 512 * b = c + 512 * d \<longleftrightarrow> a = c \<and> b = d" if "a < 512" "c < 512" for a b c d :: nat
    using that by blast
  show ?thesis unfolding e inj [OF lt lt] by (auto simp: same_page_def pt_path_def)
qed

subsection \<open>What the operations keep\<close>

lemma more_simps [simp]:
  "vm.more (set_pte t i e s) = vm.more s" "vm.more (zero_table t s) = vm.more s" "vm.more (put_pagemap p f s) = vm.more s"
  "vm.more (tlb_shootdown p s) = vm.more s" "vm.more (unlock_pagemap p s) = vm.more s" "vm.more (snd (pmm_alloc_page hh s)) = vm.more s"
  by (simp_all add: set_pte_def zero_table_def put_pagemap_def tlb_shootdown_def unlock_pagemap_def pmm_alloc_page_def split: list.split)

lemma next_level_more [simp]: "vm.more (snd (get_next_level hh t i al s)) = vm.more s"
proof -
  obtain p s1 where "pmm_alloc_page hh s = (p, s1)" by fastforce
  moreover have "vm.more s1 = vm.more s" using more_simps(6) [of hh s] calculation by simp
  ultimately show ?thesis by (simp add: get_next_level_def)
qed

lemma virt2pte_more: "vm.more (snd (vmm_virt2pte hh pm v al s)) = vm.more s"
proof -
  have n: "vm.more s' = vm.more s0" if "get_next_level hh t i al s0 = (x, s')" for t i x and s0 s' :: "'a vm_scheme"
    using next_level_more [of hh t i al s0] that by simp
  show ?thesis by (auto simp: vmm_virt2pte_def split: prod.splits sum.splits dest!: n)
qed

lemma virt2pte_pagemaps: "pagemaps (snd (vmm_virt2pte hh pm v al s)) = pagemaps s"
proof -
  have "pagemaps (snd (get_next_level hh t i al s0)) = pagemaps s0" for t i and s0 :: "'a vm_scheme"
    by (simp add: get_next_level_def pmm_alloc_page_def split: list.split)
  then have n: "pagemaps s' = pagemaps s0" if "get_next_level hh t i al s0 = (x, s')" for t i x and s0 s' :: "'a vm_scheme"
    using that by (metis snd_conv)
  show ?thesis by (auto simp: vmm_virt2pte_def split: prod.splits sum.splits dest!: n)
qed

lemma on_pte_more: "vm.more (snd (on_pte hh pm v al f s)) = vm.more s"
  using virt2pte_more [of hh pm v al s] by (auto simp: on_pte_def split: prod.splits sum.splits)

lemma map_page_more: "vmm_map_page hh pm v phys fl s = Inr (x, s') \<Longrightarrow> vm.more s' = vm.more s"
proof -
  assume h: "vmm_map_page hh pm v phys fl s = Inr (x, s')"
  then obtain l where l: "lock_pagemap ''vmm_map_page'' pm s = Inr (put_pagemap pm (\<lambda>p. p\<lparr>pm_lock := l\<rparr>) s)"
    by (auto simp: vmm_map_page_def lock_pagemap_def kresult)
  let ?s1 = "put_pagemap pm (\<lambda>p. p\<lparr>pm_lock := l\<rparr>) s"
  let ?f = "\<lambda>e. if e AND PTE_PRESENT \<noteq> 0 then Inl EINVAL else Inr (phys OR fl)"
  have "s' = unlock_pagemap pm (snd (on_pte hh pm v True ?f ?s1))"
    using h by (simp add: vmm_map_page_def l case_prod_beta)
  then show ?thesis by (simp add: on_pte_more)
qed

lemma unmap_locked_more: "vmm_unmap_page hh pm v True s = Inr (x, s') \<Longrightarrow> vm.more s' = vm.more s"
  using on_pte_more [of hh pm v False _ s] by (auto simp: vmm_unmap_page_def case_prod_beta) (metis snd_conv)

subsection \<open>Address spaces\<close>

text \<open>
  What the rest of the kernel relies on: each page map is a mapping from pages to entries, mapping a
  page works exactly on a page that is not mapped and unmapping on one that is, and neither touches
  another page or another page map.
\<close>

locale address_space =
  fixes ok :: "'s \<Rightarrow> bool" and maps :: "'m set" and own :: "u64 \<Rightarrow> bool" and same :: "u64 \<Rightarrow> u64 \<Rightarrow> bool"
    and entry :: "'s \<Rightarrow> 'm \<Rightarrow> u64 \<Rightarrow> u64 option" and good :: "u64 \<Rightarrow> bool"
    and map_page :: "'m \<Rightarrow> u64 \<Rightarrow> u64 \<Rightarrow> 's \<Rightarrow> ((errno option + unit) \<times> 's) result"
    and unmap_page :: "'m \<Rightarrow> u64 \<Rightarrow> 's \<Rightarrow> ((errno option + unit) \<times> 's) result"
  assumes same_entry: "same v w \<Longrightarrow> entry s m v = entry s m w" and same_refl: "same v v"
    and map_ok: "ok s \<Longrightarrow> m \<in> maps \<Longrightarrow> own v \<Longrightarrow> good e \<Longrightarrow> \<exists>x s'. map_page m v e s = Inr (x, s') \<and> ok s' \<and>
      (case x of Inl _ \<Rightarrow> (\<forall>m' \<in> maps. \<forall>w. entry s' m' w = entry s m' w)
       | Inr _ \<Rightarrow> entry s m v = None \<and>
           (\<forall>m' \<in> maps. \<forall>w. entry s' m' w = (if m' = m \<and> same v w then Some e else entry s m' w)))"
    and unmap_ok: "ok s \<Longrightarrow> m \<in> maps \<Longrightarrow> own v \<Longrightarrow> \<exists>x s'. unmap_page m v s = Inr (x, s') \<and> ok s' \<and>
      (case x of Inl _ \<Rightarrow> entry s m v = None \<and> (\<forall>m' \<in> maps. \<forall>w. entry s' m' w = entry s m' w)
       | Inr _ \<Rightarrow> entry s m v \<noteq> None \<and>
           (\<forall>m' \<in> maps. \<forall>w. entry s' m' w = (if m' = m \<and> same v w then None else entry s m' w)))"
begin

lemma map_unmap_restores:
  assumes "ok s" "m \<in> maps" "own v" "good e" "map_page m v e s = Inr (Inr u, s1)"
  shows "\<exists>s2. unmap_page m v s1 = Inr (Inr (), s2) \<and> ok s2 \<and> (\<forall>m' \<in> maps. \<forall>w. entry s2 m' w = entry s m' w)"
proof -
  have 1: "ok s1" "entry s m v = None" "\<And>m' w. m' \<in> maps \<Longrightarrow> entry s1 m' w = (if m' = m \<and> same v w then Some e else entry s m' w)"
    using map_ok [OF assms(1-4)] assms(5) by auto
  have "entry s1 m v = Some e" using 1(3) [OF assms(2), of v] same_refl by simp
  obtain x s2 where u: "unmap_page m v s1 = Inr (x, s2)" "ok s2"
      "case x of Inl _ \<Rightarrow> entry s1 m v = None \<and> (\<forall>m' \<in> maps. \<forall>w. entry s2 m' w = entry s1 m' w)
       | Inr _ \<Rightarrow> entry s1 m v \<noteq> None \<and>
           (\<forall>m' \<in> maps. \<forall>w. entry s2 m' w = (if m' = m \<and> same v w then None else entry s1 m' w))"
    using unmap_ok [OF 1(1) assms(2,3)] by blast
  with \<open>entry s1 m v = Some e\<close> have 2: "unmap_page m v s1 = Inr (Inr (), s2)" "ok s2"
      "\<And>m' w. m' \<in> maps \<Longrightarrow> entry s2 m' w = (if m' = m \<and> same v w then None else entry s1 m' w)"
    by (cases x; simp)+
  have "entry s2 m' w = entry s m' w" if "m' \<in> maps" for m' w
    using 1(2) 1(3) [OF that, of w] 2(3) [OF that, of w] same_entry [of v w s m] by auto
  with 2 show ?thesis by blast
qed

lemma other_maps_kept:
  assumes "ok s" "m \<in> maps" "own v" "m' \<in> maps" "m' \<noteq> m"
  shows "good e \<Longrightarrow> map_page m v e s = Inr (x, s') \<Longrightarrow> entry s' m' w = entry s m' w"
    and "unmap_page m v s = Inr (x, s') \<Longrightarrow> entry s' m' w = entry s m' w"
  using map_ok [OF assms(1-3), of e] unmap_ok [OF assms(1-3)] assms(4,5) by (auto split: sum.splits)

end

lemma same_page_entry: "same_page v w \<Longrightarrow> entry_of hh s m v = entry_of hh s m w"
  by (auto simp: same_page_def entry_of_def page_entry_def split: option.split)

text \<open>A page is mapped with an entry made of its address and flags.\<close>

definition map_entry :: "u64 \<Rightarrow> u64 \<Rightarrow> u64 \<Rightarrow> u64 \<Rightarrow> 'b vm_scheme \<Rightarrow> ((errno option + unit) \<times> 'b vm_scheme) result" where
  "map_entry hh m v e s = vmm_map_page hh m v (PTE_GET_ADDR e) (PTE_GET_FLAGS e) s"

lemma addr_or_flags: "PTE_GET_ADDR e OR PTE_GET_FLAGS e = e"
  by (simp add: PTE_GET_ADDR_def PTE_GET_FLAGS_def bit.conj_disj_distrib [symmetric])

lemma unmap_page_law:
  assumes "vm_ok hh K M s" and "m \<in> M" and "pml_entry 39 v < K"
  shows "\<exists>x s'. vmm_unmap_page hh m v False s = Inr (x, s') \<and> vm_ok hh K M s' \<and> root_of s' = root_of s \<and> pages s' = pages s \<and>
    (case x of
       Inl err \<Rightarrow> entry_of hh s m v = None \<and> (\<forall>m' \<in> M. \<forall>w. entry_of hh s' m' w = entry_of hh s m' w)
     | Inr _ \<Rightarrow> entry_of hh s m v \<noteq> None \<and>
         (\<forall>m' \<in> M. \<forall>w. entry_of hh s' m' w = (if m' = m \<and> same_page v w then None else entry_of hh s m' w)))"
proof -
  let ?op = "on_pte hh m v False (\<lambda>x. if x AND PTE_PRESENT = 0 then Inl EINVAL else Inr 0)"
  obtain x s' where x: "rbind (lock_pagemap ''vmm_unmap_page'' m s) (\<lambda>s1. let (r, s2) = ?op s1 in Inr (r, unlock_pagemap m s2)) = Inr (x, s')"
      "vm_ok hh K M s'" "root_of s' = root_of s" "pages s' = pages s"
      "case x of
         Inl err \<Rightarrow> entry_of hh s m v = None \<and> (\<forall>m' \<in> M. \<forall>w. entry_of hh s' m' w = entry_of hh s m' w)
       | Inr _ \<Rightarrow> (\<exists>e. entry_of hh s m v = Some e \<and>
           (\<forall>m' \<in> M. \<forall>w. entry_of hh s' m' w = (if m' = m \<and> same_page v w then (if present 0 then Some 0 else None)
             else entry_of hh s m' w)))"
    using plain_law [OF assms, of ?op "\<lambda>_. 0" "''vmm_unmap_page''"] by blast
  then have "vmm_unmap_page hh m v False s = Inr (x, s')" by (simp add: vmm_unmap_page_def)
  with x(2-5) show ?thesis by (cases x) auto
qed

lemma map_entry_law:
  assumes "vm_ok hh K M s" "m \<in> M" "pml_entry 39 v < K" "present e"
  shows "\<exists>x s'. map_entry hh m v e s = Inr (x, s') \<and> vm_ok hh K M s' \<and>
      (case x of Inl _ \<Rightarrow> (\<forall>m' \<in> M. \<forall>w. entry_of hh s' m' w = entry_of hh s m' w)
       | Inr _ \<Rightarrow> entry_of hh s m v = None \<and>
           (\<forall>m' \<in> M. \<forall>w. entry_of hh s' m' w = (if m' = m \<and> same_page v w then Some e else entry_of hh s m' w)))"
proof -
  obtain x s' where x: "vmm_map_page hh m v (PTE_GET_ADDR e) (PTE_GET_FLAGS e) s = Inr (x, s')" "vm_ok hh K M s'"
      "case x of
         Inl err \<Rightarrow> (err = Some ENOMEM \<and> length (pages s) < 3 \<or> err = Some EINVAL \<and> entry_of hh s m v \<noteq> None) \<and>
           (\<forall>m' \<in> M. \<forall>w. entry_of hh s' m' w = entry_of hh s m' w)
       | Inr _ \<Rightarrow> entry_of hh s m v = None \<and>
           (\<forall>m' \<in> M. \<forall>w. entry_of hh s' m' w = (if m' = m \<and> same_page v w then Some e else entry_of hh s m' w))"
    using map_page_law [OF assms(1-3), of "PTE_GET_ADDR e" "PTE_GET_FLAGS e"] assms(4) unfolding addr_or_flags by blast
  then show ?thesis by (intro exI [of _ x] exI [of _ s']) (cases x; simp add: map_entry_def)
qed

interpretation vmm: address_space "vm_ok hh K M" M "\<lambda>v. pml_entry 39 v < K" same_page "entry_of hh" present
  "map_entry hh" "\<lambda>m v. vmm_unmap_page hh m v False" for hh K M
proof unfold_locales
  fix s :: "'b vm_scheme" and m v e
  assume "vm_ok hh K M s" "m \<in> M" "pml_entry 39 v < K" "present e"
  then show "\<exists>x s'. map_entry hh m v e s = Inr (x, s') \<and> vm_ok hh K M s' \<and>
      (case x of Inl _ \<Rightarrow> (\<forall>m' \<in> M. \<forall>w. entry_of hh s' m' w = entry_of hh s m' w)
       | Inr _ \<Rightarrow> entry_of hh s m v = None \<and>
           (\<forall>m' \<in> M. \<forall>w. entry_of hh s' m' w = (if m' = m \<and> same_page v w then Some e else entry_of hh s m' w)))"
    by (rule map_entry_law)
next
  fix s :: "'b vm_scheme" and m v
  assume "vm_ok hh K M s" "m \<in> M" "pml_entry 39 v < K"
  then show "\<exists>x s'. vmm_unmap_page hh m v False s = Inr (x, s') \<and> vm_ok hh K M s' \<and>
      (case x of Inl _ \<Rightarrow> entry_of hh s m v = None \<and> (\<forall>m' \<in> M. \<forall>w. entry_of hh s' m' w = entry_of hh s m' w)
       | Inr _ \<Rightarrow> entry_of hh s m v \<noteq> None \<and>
           (\<forall>m' \<in> M. \<forall>w. entry_of hh s' m' w = (if m' = m \<and> same_page v w then None else entry_of hh s m' w)))"
    using unmap_page_law [of hh K M s m v] by blast
next
  show "same_page v w \<Longrightarrow> entry_of hh s m v = entry_of hh s m w" for v w and s :: "'b vm_scheme" and m
    by (rule same_page_entry)
qed (simp add: same_page_def)


subsection \<open>Properties\<close>

lemma flags_present: "PTE_GET_FLAGS e AND PTE_PRESENT = 0 \<longleftrightarrow> \<not> present e"
proof -
  have "NOT PTE_ADDR_MASK AND PTE_PRESENT = PTE_PRESENT" by (simp add: PTE_ADDR_MASK_def PTE_PRESENT_def)
  then show ?thesis by (simp add: PTE_GET_FLAGS_def present_def and.assoc)
qed

lemma virt2phys_entry:
  "vmm_virt2phys hh m v s = (case entry_of hh s m v of None \<Rightarrow> INVALID_PHYS | Some e \<Rightarrow> PTE_GET_ADDR e)"
  by (auto simp: vmm_virt2phys_def virt2pte_plain entry_of_def page_entry_def root_of_def flags_present split: option.split)

text \<open>C1. With at least three free pages, mapping a page of a page map succeeds exactly when the page is not
  mapped and fails with \<open>EINVAL\<close> otherwise. A success gives that page its entry, which
  \<open>vmm_virt2phys\<close> then translates; no other page of this page map and no page of any other page map
  changes, and tables and locks stay in order. Unmapping the page afterwards succeeds and restores
  every page of every page map.\<close>

theorem vmm_map_page_refines_mapping:
  fixes s :: "'b vm_scheme"
  assumes ok: "vm_ok hh K M s" and m: "m \<in> M" and own: "pml_entry 39 v < K" and e: "present e" and pages: "3 \<le> length (pages s)"
  shows "\<exists>s'. vmm_map_page hh m v (PTE_GET_ADDR e) (PTE_GET_FLAGS e) s =
      Inr (if entry_of hh s m v = None then Inr () else Inl (Some EINVAL), s') \<and> vm_ok hh K M s' \<and>
    (if entry_of hh s m v = None
     then (\<forall>m' \<in> M. \<forall>w. entry_of hh s' m' w = (if m' = m \<and> same_page v w then Some e else entry_of hh s m' w)) \<and>
       vmm_virt2phys hh m v s' = PTE_GET_ADDR e \<and>
       (\<exists>s''. vmm_unmap_page hh m v False s' = Inr (Inr (), s'') \<and> vm_ok hh K M s'' \<and>
         (\<forall>m' \<in> M. \<forall>w. entry_of hh s'' m' w = entry_of hh s m' w))
     else (\<forall>m' \<in> M. \<forall>w. entry_of hh s' m' w = entry_of hh s m' w))"
proof -
  obtain x s' where x: "vmm_map_page hh m v (PTE_GET_ADDR e) (PTE_GET_FLAGS e) s = Inr (x, s')" "vm_ok hh K M s'"
      "case x of
         Inl err \<Rightarrow> (err = Some ENOMEM \<and> length (pages s) < 3 \<or> err = Some EINVAL \<and> entry_of hh s m v \<noteq> None) \<and>
           (\<forall>m' \<in> M. \<forall>w. entry_of hh s' m' w = entry_of hh s m' w)
       | Inr _ \<Rightarrow> entry_of hh s m v = None \<and>
           (\<forall>m' \<in> M. \<forall>w. entry_of hh s' m' w = (if m' = m \<and> same_page v w then Some e else entry_of hh s m' w))"
    using map_page_law [OF ok m own, of "PTE_GET_ADDR e" "PTE_GET_FLAGS e"] e unfolding addr_or_flags by blast
  show ?thesis
  proof (cases x)
    case (Inl err)
    then show ?thesis using x pages by auto
  next
    case (Inr u)
    have "entry_of hh s' m v = Some e" using x(3) Inr m by (simp add: same_page_def)
    then have "vmm_virt2phys hh m v s' = PTE_GET_ADDR e" by (simp add: virt2phys_entry)
    moreover have "map_entry hh m v e s = Inr (Inr u, s')" using x(1) Inr by (simp add: map_entry_def)
    note vmm.map_unmap_restores [OF ok m own e this]
    ultimately show ?thesis using x Inr by auto
  qed
qed

text \<open>Two page maps without any mapping, and three pages.\<close>

definition vm_example :: vm where
  "vm_example = \<lparr>ptes = (\<lambda>_ _. 0), pages = [0x3000, 0x4000, 0x5000], returned = [],
     pagemaps = (\<lambda>m. \<lparr>pm_lock = SPINLOCK_INIT, top_level = (if m = 0x10 then 0x1000 else 0x2000), mmap_ranges = []\<rparr>),
     shootdowns = []\<rparr>"

lemma walk_empty: "ptes s = (\<lambda>_ _. 0) \<Longrightarrow> walk hh s r p = (if p = [] then Some r else None)"
  by (cases p) (simp_all add: walk.simps next_table_def)

lemma entry_empty: "ptes s = (\<lambda>_ _. 0) \<Longrightarrow> entry_of hh s m v = None"
  by (simp add: entry_of_def page_entry_def walk_empty pt_path_def)

lemma vm_ok_empty:
  assumes z: "ptes s = (\<lambda>_ _. 0)" and p: "distinct (pages s)" "list_all good_page (pages s)"
    and r: "inj_on (root_of s) M" "\<And>m pg. m \<in> M \<Longrightarrow> pg \<in> set (pages s) \<Longrightarrow> root_of s m \<noteq> pg + hh"
    and l: "\<And>m. m \<in> M \<Longrightarrow> unlocked (pm_lock (pagemaps s m))"
  shows "vm_ok hh K M s"
proof -
  have "wf_tables hh K (root_of s ` M) s" using p r(2) by (auto simp: wf_tables_def walk_empty [OF z])
  with r(1) l show ?thesis by (simp add: vm_ok_def)
qed

lemma vm_example_ok: "vm_ok 0 256 {0x10, 0x20} vm_example"
  by (rule vm_ok_empty)
    (auto simp: vm_example_def root_of_def inj_on_def SPINLOCK_INIT_def good_page_def PTE_GET_ADDR_def PTE_ADDR_MASK_def)

lemma vm_example_entry: "entry_of hh vm_example m v = None"
  by (rule entry_empty) (simp add: vm_example_def)

theorem vmm_map_page_refines_mapping_witness:
  "\<exists>s'. vmm_map_page 0 0x10 0x400000 (PTE_GET_ADDR 0x7007) (PTE_GET_FLAGS 0x7007) vm_example = Inr (Inr (), s') \<and>
     vmm_virt2phys 0 0x10 0x400000 s' = PTE_GET_ADDR 0x7007 \<and> entry_of 0 s' 0x20 0x400000 = None"
proof -
  have p: "present 0x7007" by (simp add: present_def PTE_PRESENT_def)
  have o: "pml_entry 39 0x400000 < 256" by (simp add: pml_entry_def)
  have "3 \<le> length (pages vm_example)" by (simp add: vm_example_def)
  from vmm_map_page_refines_mapping [OF vm_example_ok _ o p this, of "0x10"] show ?thesis
    by (auto simp: vm_example_entry)
qed

end
