(* ===== verification/Lyre_Mmap.thy ===== *)
theory Lyre_Mmap
  imports Lyre_Vmm Lyre_Bitmap
begin

text \<open>
  Memory mappings: \<open>mm/mmap.c\<close>, and the parts of \<open>mm/vmm.c\<close> that work on them.  A mapping is a global
  range with its shadow page map and, for every address space that has it, a local range; both are
  known by their address.  \<open>heap\<close> lists the addresses \<open>ALLOC\<close> is going to return (zero or the end of
  the list for a failure), \<open>unheaped\<close> those passed to \<open>free\<close>, \<open>frames\<close> the bytes of a physical page.
  The vectors of ranges are lists.  Loops over pages may not end (their bound can wrap around):
  \<open>None\<close> says so.
\<close>

unbundle bit_operations_syntax

subsection \<open>Data\<close>

record mmap_flags =
  PROT_WRITE :: u32
  PROT_EXEC :: u32
  MAP_SHARED :: u32
  MAP_FIXED :: u32
  MAP_ANONYMOUS :: u32

record mmap_range_local =
  l_pagemap :: u64
  l_global :: u64
  l_base :: u64
  l_length :: u64
  l_offset :: u64
  l_prot :: u32
  l_flags :: u32

record mmap_range_global =
  shadow_pagemap :: u64
  g_locals :: "u64 list"
  g_res :: u64
  g_base :: u64
  g_length :: u64
  g_offset :: u64

record mm = vm +
  locals :: "u64 \<Rightarrow> mmap_range_local"
  globals :: "u64 \<Rightarrow> mmap_range_global"
  heap :: "u64 list"
  unheaped :: "u64 list"
  frames :: "u64 \<Rightarrow> u8 list"
  res_refcount :: "u64 \<Rightarrow> u64"
  can_mmap :: "u64 \<Rightarrow> bool"
  mmap_anon_base :: u64

type_synonym 'a mmcall = "((errno option + 'a) \<times> mm) result option"

definition local_zero :: mmap_range_local where
  "local_zero = \<lparr>l_pagemap = 0, l_global = 0, l_base = 0, l_length = 0, l_offset = 0, l_prot = 0, l_flags = 0\<rparr>"

definition global_zero :: mmap_range_global where
  "global_zero = \<lparr>shadow_pagemap = 0, g_locals = [], g_res = 0, g_base = 0, g_length = 0, g_offset = 0\<rparr>"

definition put_local :: "u64 \<Rightarrow> (mmap_range_local \<Rightarrow> mmap_range_local) \<Rightarrow> mm \<Rightarrow> mm" where
  "put_local l f s = s\<lparr>locals := (locals s)(l := f (locals s l))\<rparr>"

definition put_global :: "u64 \<Rightarrow> (mmap_range_global \<Rightarrow> mmap_range_global) \<Rightarrow> mm \<Rightarrow> mm" where
  "put_global g f s = s\<lparr>globals := (globals s)(g := f (globals s g))\<rparr>"

definition push_range :: "u64 \<Rightarrow> u64 \<Rightarrow> mm \<Rightarrow> mm" where
  "push_range pm l s = put_pagemap pm (\<lambda>p. p\<lparr>mmap_ranges := mmap_ranges p @ [l]\<rparr>) s"

definition ALLOC :: "mm \<Rightarrow> u64 \<times> mm" where
  "ALLOC s = (case heap s of [] \<Rightarrow> (0, s) | p # ps \<Rightarrow> (p, s\<lparr>heap := ps\<rparr>))"

definition mm_free :: "u64 \<Rightarrow> mm \<Rightarrow> mm" where
  "mm_free p s = s\<lparr>unheaped := unheaped s @ [p]\<rparr>"

text \<open>\<open>pmm_alloc(1)\<close> of a page whose bytes matter, and \<open>pmm_alloc_nozero(1)\<close>.\<close>

definition alloc_frame :: "u64 \<Rightarrow> mm \<Rightarrow> u64 \<times> mm" where
  "alloc_frame hh s =
     (let (p, s1) = pmm_alloc_page hh s
      in (p, if p = 0 then s1 else s1\<lparr>frames := (frames s1)(p := replicate 4096 0)\<rparr>))"

definition pmm_alloc_nozero_page :: "mm \<Rightarrow> u64 \<times> mm" where
  "pmm_alloc_nozero_page s = (case pages s of [] \<Rightarrow> (0, s) | p # ps \<Rightarrow> (p, s\<lparr>pages := ps\<rparr>))"

text \<open>\<open>kpm\<close> is the kernel's page map.\<close>

definition new_pagemap :: "u64 \<Rightarrow> u64 \<Rightarrow> mm \<Rightarrow> (errno option + u64) \<times> mm" where
  "new_pagemap hh kpm s =
     (let (addr, s1) = ALLOC s;
          (r, s2) = vmm_new_pagemap hh kpm addr s1
      in case r of Inl e \<Rightarrow> (Inl e, if addr = 0 then s2 else mm_free addr s2) | Inr p \<Rightarrow> (Inr p, s2))"

text \<open>The loop \<open>for (j = a; j < b; j += PAGE_SIZE)\<close> with a body that may end the function.\<close>

partial_function (option) page_loop ::
  "(u64 \<Rightarrow> 's \<Rightarrow> ((errno option + unit) \<times> 's) result) \<Rightarrow> u64 \<Rightarrow> u64 \<Rightarrow> 's \<Rightarrow> ((errno option + unit) \<times> 's) result option" where
  "page_loop f j b s =
     (if j < b
      then case f j s of
             Inl e \<Rightarrow> Some (Inl e)
           | Inr (Inl e, s1) \<Rightarrow> Some (Inr (Inl e, s1))
           | Inr (Inr _, s1) \<Rightarrow> page_loop f (j + PAGE_SIZE_64) b s1
      else Some (Inr (Inr (), s)))"

text \<open>Sequencing.\<close>

definition kbind :: "((errno option + 'a) \<times> 's) result option \<Rightarrow> ('a \<Rightarrow> 's \<Rightarrow> ((errno option + 'b) \<times> 's) result option) \<Rightarrow>
    ((errno option + 'b) \<times> 's) result option" where
  "kbind m f = Option.bind m (\<lambda>r. case r of Inl e \<Rightarrow> Some (Inl e) | Inr (Inl e, s) \<Rightarrow> Some (Inr (Inl e, s)) | Inr (Inr x, s) \<Rightarrow> f x s)"

definition locked_do :: "string \<Rightarrow> u64 \<Rightarrow> mm \<Rightarrow> (mm \<Rightarrow> 'a mmcall) \<Rightarrow> 'a mmcall" where
  "locked_do c pm s f = (case lock_pagemap c pm s of Inl e \<Rightarrow> Some (Inl e) | Inr s1 \<Rightarrow> f s1)"

subsection \<open>Finding the range of an address\<close>

record range_of_addr =
  a_range :: u64
  memory_page :: u64
  file_page :: u64

definition in_local :: "mm \<Rightarrow> u64 \<Rightarrow> u64 \<Rightarrow> bool" where
  "in_local s virt l \<longleftrightarrow> \<not> (virt < l_base (locals s l) \<or> virt \<ge> l_base (locals s l) + l_length (locals s l))"

text \<open>\<open>offset / PAGE_SIZE\<close> of a signed offset rounds towards zero.\<close>

definition offset_pages :: "u64 \<Rightarrow> u64" where
  "offset_pages off = of_int (sgn (sint off) * (\<bar>sint off\<bar> div 4096))"

definition addr2range :: "mm \<Rightarrow> u64 \<Rightarrow> u64 \<Rightarrow> range_of_addr" where
  "addr2range s pm virt =
     (case find (in_local s virt) (mmap_ranges (pagemaps s pm)) of
        None \<Rightarrow> \<lparr>a_range = 0, memory_page = 0, file_page = 0\<rparr>
      | Some l \<Rightarrow>
          let mpage = virt div PAGE_SIZE_64
          in \<lparr>a_range = l, memory_page = mpage,
              file_page = offset_pages (l_offset (locals s l)) + (mpage - l_base (locals s l) div PAGE_SIZE_64)\<rparr>)"

subsection \<open>Mapping pages of a range\<close>

definition pt_flags_of :: "mmap_flags \<Rightarrow> u32 \<Rightarrow> u64" where
  "pt_flags_of a prot =
     PTE_PRESENT OR PTE_USER OR (if prot AND PROT_WRITE a \<noteq> 0 then PTE_WRITABLE else 0)
       OR (if prot AND PROT_EXEC a = 0 then PTE_NX else 0)"

fun map_locals :: "u64 \<Rightarrow> u64 list \<Rightarrow> u64 \<Rightarrow> u64 \<Rightarrow> u64 \<Rightarrow> mm \<Rightarrow> ((errno option + unit) \<times> mm) result" where
  "map_locals hh [] virt phys fl s = Inr (Inr (), s)"
| "map_locals hh (l # ls) virt phys fl s =
     (if \<not> in_local s virt l then map_locals hh ls virt phys fl s
      else rbind (vmm_map_page hh (l_pagemap (locals s l)) virt phys fl s) (\<lambda>(r, s1).
             case r of Inl e \<Rightarrow> Inr (Inl e, s1) | Inr _ \<Rightarrow> map_locals hh ls virt phys fl s1))"

definition mmap_page_in_range ::
  "u64 \<Rightarrow> mmap_flags \<Rightarrow> u64 \<Rightarrow> u64 \<Rightarrow> u64 \<Rightarrow> u32 \<Rightarrow> mm \<Rightarrow> ((errno option + unit) \<times> mm) result" where
  "mmap_page_in_range hh a g virt phys prot s =
     rbind (vmm_map_page hh (shadow_pagemap (globals s g)) virt phys (pt_flags_of a prot) s) (\<lambda>(r, s1).
       case r of Inl e \<Rightarrow> Inr (Inl e, s1)
       | Inr _ \<Rightarrow> map_locals hh (g_locals (globals s1 g)) virt phys (pt_flags_of a prot) s1)"

text \<open>
  The page fault handler: \<open>err\<close> is the error code of the fault, \<open>cr2\<close> the address, \<open>pm\<close> the page map of the
  current process; \<open>drv\<close> is the resource's \<open>mmap\<close>, zero when it fails.
\<close>

definition mmap_handle_pf ::
  "u64 \<Rightarrow> mmap_flags \<Rightarrow> (u64 \<Rightarrow> u64 \<Rightarrow> u32 \<Rightarrow> mm \<Rightarrow> u64 \<times> mm) \<Rightarrow> u64 \<Rightarrow> u64 \<Rightarrow> u64 \<Rightarrow> mm \<Rightarrow> (bool \<times> mm) result" where
  "mmap_handle_pf hh a drv pm err cr2 s =
     (if err AND 1 \<noteq> 0 then Inr (False, s)
      else rbind (lock_pagemap ''mmap_handle_pf'' pm s) (\<lambda>s1.
        let range = addr2range s1 pm cr2; l = a_range range; s2 = unlock_pagemap pm s1
        in if l = 0 then Inr (False, s2)
           else let (page, s3) =
                      (if l_flags (locals s2 l) AND MAP_ANONYMOUS a \<noteq> 0 then alloc_frame hh s2
                       else drv (g_res (globals s2 (l_global (locals s2 l)))) (file_page range) (l_flags (locals s2 l)) s2)
                in if page = 0 then Inr (False, s3)
                   else rbind (mmap_page_in_range hh a (l_global (locals s3 l)) (memory_page range * PAGE_SIZE_64) page
                                 (l_prot (locals s3 l)) s3)
                          (\<lambda>(r, s4). Inr (isl r = False, s4))))"

subsection \<open>Unmapping\<close>

text \<open>The inner loop that finds the end of the pages to cut out of one range.\<close>

partial_function (option) snip_end :: "u64 \<Rightarrow> u64 \<Rightarrow> u64 \<Rightarrow> u64 option" where
  "snip_end i range_end e =
     (let i' = i + PAGE_SIZE_64 in if i' \<ge> range_end \<or> i' \<ge> e then Some i' else snip_end i' range_end e)"

text \<open>The part of a range behind the snip, when the snip is in the middle.\<close>

definition postsplit :: "u64 \<Rightarrow> mmap_range_local \<Rightarrow> mmap_range_local" where
  "postsplit snip_e r = r\<lparr>l_base := snip_e, l_length := (l_base r + l_length r) - snip_e,
     l_offset := l_offset r + (snip_e - l_base r)\<rparr>"

definition split_range :: "u64 \<Rightarrow> u64 \<Rightarrow> u64 \<Rightarrow> u64 \<Rightarrow> mm \<Rightarrow> (errno option + unit) \<times> mm" where
  "split_range pm l snip_begin snip_e s =
     (if l_base (locals s l) < snip_begin \<and> snip_e < l_base (locals s l) + l_length (locals s l)
      then let (n, s1) = ALLOC s
           in if n = 0 then (Inl (Some ENOMEM), s1)
              else let post = postsplit snip_e (locals s1 l);
                       s2 = push_range pm n (put_local n (\<lambda>_. post) s1)
                   in (Inr (), put_local l (\<lambda>r. r\<lparr>l_length := l_length r - l_length post\<rparr>) s2)
      else (Inr (), s))"

text \<open>Giving back the pages of an anonymous mapping; the shadow page map's lock is not taken.\<close>

definition free_shadow_page :: "u64 \<Rightarrow> u64 \<Rightarrow> u64 \<Rightarrow> mm \<Rightarrow> ((errno option + unit) \<times> mm) result" where
  "free_shadow_page hh shadow j s =
     (let phys = vmm_virt2phys hh shadow j s
      in if phys = INVALID_PHYS then Inr (Inr (), s)
         else rbind (vmm_unmap_page hh shadow j True s) (\<lambda>(r, s1).
                case r of Inl _ \<Rightarrow> Inr (Inl (Some EINVAL), s1) | Inr _ \<Rightarrow> Inr (Inr (), pmm_free_page phys s1)))"

definition unmap_one :: "u64 \<Rightarrow> u64 \<Rightarrow> u64 \<Rightarrow> mm \<Rightarrow> ((errno option + unit) \<times> mm) result" where
  "unmap_one hh pm j s = rbind (vmm_unmap_page hh pm j True s) (\<lambda>(_, s1). Inr (Inr (), s1))"

text \<open>One turn of \<open>munmap\<close>'s loop at \<open>i\<close> that found range \<open>l\<close>: the result is \<open>snip_end\<close>, the new \<open>i\<close>.\<close>

definition munmap_turn :: "u64 \<Rightarrow> mmap_flags \<Rightarrow> u64 \<Rightarrow> u64 \<Rightarrow> u64 \<Rightarrow> u64 \<Rightarrow> mm \<Rightarrow> u64 mmcall" where
  "munmap_turn hh a pm e i l s =
     Option.bind (snip_end i (l_base (locals s l) + l_length (locals s l)) e) (\<lambda>snip_e.
     let g = l_global (locals s l); snip_length = snip_e - i
     in locked_do ''munmap'' pm s (\<lambda>s1.
        case split_range pm l i snip_e s1 of
          (Inl err, s2) \<Rightarrow> Some (Inr (Inl err, unlock_pagemap pm s2))
        | (Inr _, s2) \<Rightarrow>
            kbind (page_loop (unmap_one hh pm) i snip_e s2) (\<lambda>_ s3.
            let whole = (snip_length = l_length (locals s3 l));
                s4 = (if whole then put_pagemap pm (\<lambda>p. p\<lparr>mmap_ranges := remove1 l (mmap_ranges p)\<rparr>) s3 else s3);
                s5 = unlock_pagemap pm s4
            in if whole \<and> length (g_locals (globals s5 g)) = 1
               then kbind (if l_flags (locals s5 l) AND MAP_ANONYMOUS a \<noteq> 0
                           then page_loop (free_shadow_page hh (shadow_pagemap (globals s5 g)))
                                  (g_base (globals s5 g)) (g_base (globals s5 g) + g_length (globals s5 g)) s5
                           else Some (Inr (Inr (), s5)))
                      (\<lambda>_ s6. Some (Inr (Inr snip_e, mm_free l s6)))
               else let s6 = (if i = l_base (locals s5 l)
                              then put_local l (\<lambda>r. r\<lparr>l_offset := l_offset r + snip_length, l_base := snip_e\<rparr>) s5 else s5)
                    in Some (Inr (Inr snip_e, put_local l (\<lambda>r. r\<lparr>l_length := l_length r - snip_length\<rparr>) s6)))))"

partial_function (option) munmap_loop :: "u64 \<Rightarrow> mmap_flags \<Rightarrow> u64 \<Rightarrow> u64 \<Rightarrow> u64 \<Rightarrow> mm \<Rightarrow> unit mmcall" where
  "munmap_loop hh a pm e i s =
     (if i < e
      then if a_range (addr2range s pm i) = 0 then munmap_loop hh a pm e (i + PAGE_SIZE_64) s
           else Option.bind (munmap_turn hh a pm e i (a_range (addr2range s pm i)) s) (\<lambda>r.
                  case r of
                    Inl f \<Rightarrow> Some (Inl f)
                  | Inr (Inl err, s1) \<Rightarrow> Some (Inr (Inl err, s1))
                  | Inr (Inr i', s1) \<Rightarrow> munmap_loop hh a pm e (i' + PAGE_SIZE_64) s1)
      else Some (Inr (Inr (), s)))"

definition munmap :: "u64 \<Rightarrow> mmap_flags \<Rightarrow> u64 \<Rightarrow> u64 \<Rightarrow> u64 \<Rightarrow> mm \<Rightarrow> unit mmcall" where
  "munmap hh a pm addr len s =
     (if len = 0 then Some (Inr (Inl (Some EINVAL), s))
      else munmap_loop hh a pm (addr + ALIGN_UP len PAGE_SIZE_64) addr s)"

subsection \<open>Destroying an address space\<close>

partial_function (option) unmap_ranges :: "u64 \<Rightarrow> mmap_flags \<Rightarrow> u64 \<Rightarrow> mm \<Rightarrow> mm result option" where
  "unmap_ranges hh a pm s =
     (case mmap_ranges (pagemaps s pm) of
        [] \<Rightarrow> Some (Inr s)
      | l # _ \<Rightarrow> Option.bind (munmap hh a pm (l_base (locals s l)) (l_length (locals s l)) s) (\<lambda>r.
                   case r of Inl f \<Rightarrow> Some (Inl f) | Inr (_, s1) \<Rightarrow> unmap_ranges hh a pm s1))"

definition vmm_destroy_pagemap :: "u64 \<Rightarrow> mmap_flags \<Rightarrow> u64 \<Rightarrow> mm \<Rightarrow> mm result option" where
  "vmm_destroy_pagemap hh a pm s =
     Option.bind (unmap_ranges hh a pm s) (\<lambda>r. Some (rbind r (\<lambda>s1.
       rbind (lock_pagemap ''vmm_destroy_pagemap'' pm s1) (\<lambda>s2.
         Inr (mm_free pm (destroy_level hh 4 (top_level (pagemaps s2 pm)) [0 ..< 256] s2))))))"


subsection \<open>Making mappings\<close>

text \<open>The cleanup that \<open>mmap\<close> and \<open>mmap_range\<close> end with when they fail.\<close>

definition mmap_cleanup :: "u64 \<Rightarrow> mmap_flags \<Rightarrow> u64 \<Rightarrow> u64 \<Rightarrow> mm \<Rightarrow> mm result option" where
  "mmap_cleanup hh a l g s =
     (let s1 = (if l = 0 then s else mm_free l s)
      in if g = 0 then Some (Inr s1)
         else Option.bind (if shadow_pagemap (globals s1 g) = 0 then Some (Inr s1)
                           else vmm_destroy_pagemap hh a (shadow_pagemap (globals s1 g)) s1)
                (\<lambda>r. Some (rbind r (\<lambda>s2. Inr (mm_free g s2)))))"

definition fail_with :: "errno option \<Rightarrow> mm result option \<Rightarrow> 'a mmcall" where
  "fail_with e m = Option.bind m (\<lambda>r. Some (rbind r (\<lambda>s. Inr (Inl e, s))))"

definition mmap_range ::
  "u64 \<Rightarrow> mmap_flags \<Rightarrow> u64 \<Rightarrow> u64 \<Rightarrow> u64 \<Rightarrow> u64 \<Rightarrow> u64 \<Rightarrow> u32 \<Rightarrow> u32 \<Rightarrow> mm \<Rightarrow> unit mmcall" where
  "mmap_range hh a kpm pm virt phys len prot flags s =
     (let fl = flags OR MAP_ANONYMOUS a;
          aligned_virt = ALIGN_DOWN virt PAGE_SIZE_64;
          aligned_length = ALIGN_UP (len + (virt - aligned_virt)) PAGE_SIZE_64;
          (g, s1) = ALLOC s
      in if g = 0 then fail_with (Some ENOMEM) (mmap_cleanup hh a 0 0 s1)
         else case new_pagemap hh kpm (put_global g (\<lambda>_. global_zero) s1) of
                (Inl e, s2) \<Rightarrow> fail_with e (mmap_cleanup hh a 0 g s2)
              | (Inr shadow, s2) \<Rightarrow>
                  let s3 = put_global g (\<lambda>r. r\<lparr>shadow_pagemap := shadow, g_base := aligned_virt, g_length := aligned_length\<rparr>) s2;
                      (l, s4) = ALLOC s3
                  in if l = 0 then fail_with (Some ENOMEM) (mmap_cleanup hh a 0 g s4)
                     else let s5 = put_local l (\<lambda>_. \<lparr>l_pagemap = pm, l_global = g, l_base = aligned_virt,
                                     l_length = aligned_length, l_offset = 0, l_prot = prot, l_flags = fl\<rparr>) s4;
                              s6 = put_global g (\<lambda>r. r\<lparr>g_locals := g_locals r @ [l]\<rparr>) s5
                          in locked_do ''mmap_range'' pm s6 (\<lambda>s7.
                             let s8 = unlock_pagemap pm (push_range pm l s7)
                             in Option.bind (page_loop (\<lambda>i. mmap_page_in_range hh a g (aligned_virt + i) (phys + i) prot) 0 aligned_length s8)
                                  (\<lambda>r. case r of
                                         Inl f \<Rightarrow> Some (Inl f)
                                       | Inr (Inl e, s9) \<Rightarrow> fail_with e (mmap_cleanup hh a l g s9)
                                       | Inr (Inr _, s9) \<Rightarrow> Some (Inr (Inr (), s9)))))"

text \<open>\<open>mmap\<close> of resource \<open>res\<close> (zero for none) by the process whose next free address is \<open>mmap_anon_base\<close>.\<close>

definition mmap :: "u64 \<Rightarrow> mmap_flags \<Rightarrow> u64 \<Rightarrow> u64 \<Rightarrow> u64 \<Rightarrow> u64 \<Rightarrow> u32 \<Rightarrow> u32 \<Rightarrow> u64 \<Rightarrow> u64 \<Rightarrow> mm \<Rightarrow> u64 mmcall" where
  "mmap hh a kpm pm addr len prot flags res off s =
     (if len = 0 then Some (Inr (Inl (Some EINVAL), s))
      else let length' = ALIGN_UP len PAGE_SIZE_64
           in if flags AND MAP_ANONYMOUS a = 0 \<and> res \<noteq> 0 \<and> \<not> can_mmap s res then Some (Inr (Inl (Some ENODEV), s))
              else kbind (if flags AND MAP_FIXED a \<noteq> 0
                          then kbind (munmap hh a pm addr length' s) (\<lambda>_ s1. Some (Inr (Inr addr, s1)))
                          else Some (Inr (Inr (mmap_anon_base s), s\<lparr>mmap_anon_base := mmap_anon_base s + (length' + PAGE_SIZE_64)\<rparr>)))
                     (\<lambda>base s1.
                let (g, s2) = ALLOC s1
                in if g = 0 then Some (Inr (Inl (Some ENOMEM), s2))
                   else case new_pagemap hh kpm (put_global g (\<lambda>_. global_zero) s2) of
                          (Inl e, s3) \<Rightarrow> fail_with e (mmap_cleanup hh a 0 g s3)
                        | (Inr shadow, s3) \<Rightarrow>
                            let s4 = put_global g (\<lambda>r. r\<lparr>shadow_pagemap := shadow, g_base := base, g_length := length',
                                       g_res := res, g_offset := off\<rparr>) s3;
                                (l, s5) = ALLOC s4
                            in if l = 0 then fail_with None (mmap_cleanup hh a 0 g s5)
                               else let s6 = put_local l (\<lambda>_. \<lparr>l_pagemap = pm, l_global = g, l_base = base, l_length = length',
                                               l_offset = off, l_prot = prot, l_flags = flags\<rparr>) s5;
                                        s7 = put_global g (\<lambda>r. r\<lparr>g_locals := g_locals r @ [l]\<rparr>) s6
                                    in locked_do ''mmap'' pm s7 (\<lambda>s8.
                                       let s9 = unlock_pagemap pm (push_range pm l s8)
                                       in Some (Inr (Inr base, if res = 0 then s9
                                            else s9\<lparr>res_refcount := (res_refcount s9)(res := res_refcount s9 res + 1)\<rparr>)))))"

text \<open>\<open>syscall_mmap\<close> and \<open>syscall_munmap\<close> after the look-up of the descriptor (\<open>fd\<close>: none given, or its resource).\<close>

definition syscall_mmap :: "u64 \<Rightarrow> mmap_flags \<Rightarrow> u64 \<Rightarrow> u64 \<Rightarrow> u64 \<Rightarrow> u64 \<Rightarrow> u64 \<Rightarrow> (errno option + u64) option \<Rightarrow> u64 \<Rightarrow> mm \<Rightarrow> u64 mmcall" where
  "syscall_mmap hh a kpm pm hint len flags fd off s =
     (case fd of
        Some (Inl e) \<Rightarrow> Some (Inr (Inl e, s))
      | Some (Inr res) \<Rightarrow> mmap hh a kpm pm hint len (ucast (drop_bit 32 flags)) (ucast flags) res off s
      | None \<Rightarrow> if off \<noteq> 0 then Some (Inr (Inl (Some EINVAL), s))
                else mmap hh a kpm pm hint len (ucast (drop_bit 32 flags)) (ucast flags) 0 off s)"

definition syscall_munmap :: "u64 \<Rightarrow> mmap_flags \<Rightarrow> u64 \<Rightarrow> u64 \<Rightarrow> u64 \<Rightarrow> mm \<Rightarrow> unit mmcall" where
  "syscall_munmap hh a pm addr len s = munmap hh a pm addr len s"

subsection \<open>Changing the protection\<close>

definition flag_one :: "u64 \<Rightarrow> mmap_flags \<Rightarrow> u64 \<Rightarrow> u32 \<Rightarrow> u64 \<Rightarrow> mm \<Rightarrow> ((errno option + unit) \<times> mm) result" where
  "flag_one hh a pm prot j s = rbind (vmm_flag_page hh pm False j (pt_flags_of a prot) s) (\<lambda>(_, s1). Inr (Inr (), s1))"

text \<open>One turn of \<open>mprotect\<close>'s loop at \<open>i\<close>, with range \<open>l\<close> of another protection; its allocations are not checked.\<close>

definition mprotect_turn :: "u64 \<Rightarrow> mmap_flags \<Rightarrow> u64 \<Rightarrow> u32 \<Rightarrow> u64 \<Rightarrow> u64 \<Rightarrow> u64 \<Rightarrow> mm \<Rightarrow> u64 mmcall" where
  "mprotect_turn hh a pm prot e i l s =
     Option.bind (snip_end i (l_base (locals s l) + l_length (locals s l)) e) (\<lambda>snip_e.
     let snip_size = snip_e - i
     in locked_do ''mprotect'' pm s (\<lambda>s1.
        case split_range pm l i snip_e s1 of
          (Inl err, s2) \<Rightarrow> Some (Inl NullDeref)
        | (Inr _, s2) \<Rightarrow>
            kbind (page_loop (flag_one hh a pm prot) i snip_e s2) (\<lambda>_ s3.
            let r = locals s3 l;
                new_offset = l_offset r + (i - l_base r);
                s4 = (if i = l_base r then put_local l (\<lambda>r. r\<lparr>l_offset := l_offset r + snip_size, l_base := snip_e\<rparr>) s3 else s3);
                s5 = put_local l (\<lambda>r. r\<lparr>l_length := l_length r - snip_size\<rparr>) s4;
                (n, s6) = ALLOC s5
            in if n = 0 then Some (Inl NullDeref)
               else let s7 = put_local n (\<lambda>_. \<lparr>l_pagemap = l_pagemap r, l_global = l_global r, l_base = i, l_length = snip_size,
                               l_offset = new_offset, l_prot = prot, l_flags = l_flags r\<rparr>) s6
                    in Some (Inr (Inr snip_e, unlock_pagemap pm (push_range pm n s7))))))"

partial_function (option) mprotect_loop :: "u64 \<Rightarrow> mmap_flags \<Rightarrow> u64 \<Rightarrow> u32 \<Rightarrow> u64 \<Rightarrow> u64 \<Rightarrow> mm \<Rightarrow> unit mmcall" where
  "mprotect_loop hh a pm prot e i s =
     (if i < e
      then let l = a_range (addr2range s pm i)
           in if l = 0 then Some (Inl NullDeref)
              else if l_prot (locals s l) = prot then mprotect_loop hh a pm prot e (i + PAGE_SIZE_64) s
              else Option.bind (mprotect_turn hh a pm prot e i l s) (\<lambda>r.
                     case r of
                       Inl f \<Rightarrow> Some (Inl f)
                     | Inr (Inl err, s1) \<Rightarrow> Some (Inr (Inl err, s1))
                     | Inr (Inr i', s1) \<Rightarrow> mprotect_loop hh a pm prot e (i' + PAGE_SIZE_64) s1)
      else Some (Inr (Inr (), s)))"

definition mprotect :: "u64 \<Rightarrow> mmap_flags \<Rightarrow> u64 \<Rightarrow> u64 \<Rightarrow> u64 \<Rightarrow> u32 \<Rightarrow> mm \<Rightarrow> unit mmcall" where
  "mprotect hh a pm addr len prot s =
     (if len = 0 then Some (Inr (Inl (Some EINVAL), s))
      else mprotect_loop hh a pm prot (addr + ALIGN_UP len PAGE_SIZE_64) addr s)"

definition syscall_mprotect :: "u64 \<Rightarrow> mmap_flags \<Rightarrow> u64 \<Rightarrow> u64 \<Rightarrow> u64 \<Rightarrow> u32 \<Rightarrow> mm \<Rightarrow> unit mmcall" where
  "syscall_mprotect hh a pm addr len prot s = mprotect hh a pm addr len prot s"

subsection \<open>Forking an address space\<close>

text \<open>The page at \<open>i\<close> of a shared range: the new entry is the old one, present or not.\<close>

definition share_page :: "u64 \<Rightarrow> u64 \<Rightarrow> u64 \<Rightarrow> u64 \<Rightarrow> mm \<Rightarrow> ((errno option + unit) \<times> mm) result" where
  "share_page hh pm npm i s =
     (case vmm_virt2pte hh pm i False s of
        (Inl _, s1) \<Rightarrow> Inr (Inr (), s1)
      | (Inr (t, j), s1) \<Rightarrow>
          (case vmm_virt2pte hh npm i True s1 of
             (Inl e, s2) \<Rightarrow> Inr (Inl e, s2)
           | (Inr (t', j'), s2) \<Rightarrow> Inr (Inr (), set_pte t' j' (ptes s2 t j) s2)))"

text \<open>The page at \<open>i\<close> of a private anonymous range: a present page is copied.\<close>

definition copy_page :: "u64 \<Rightarrow> u64 \<Rightarrow> u64 \<Rightarrow> u64 \<Rightarrow> u64 \<Rightarrow> mm \<Rightarrow> ((errno option + unit) \<times> mm) result" where
  "copy_page hh pm npm shadow i s =
     (case vmm_virt2pte hh pm i False s of
        (Inl _, s1) \<Rightarrow> Inr (Inr (), s1)
      | (Inr (t, j), s1) \<Rightarrow>
          if PTE_GET_FLAGS (ptes s1 t j) AND PTE_PRESENT = 0 then Inr (Inr (), s1)
          else case vmm_virt2pte hh npm i True s1 of
                 (Inl e, s2) \<Rightarrow> Inr (Inl e, s2)
               | (Inr (t1, j1), s2) \<Rightarrow>
                   (case vmm_virt2pte hh shadow i True s2 of
                      (Inl e, s3) \<Rightarrow> Inr (Inl e, s3)
                    | (Inr (t2, j2), s3) \<Rightarrow>
                        let old_page = PTE_GET_ADDR (ptes s3 t j);
                            (page, s4) = pmm_alloc_nozero_page s3
                        in if page = 0 then Inr (Inl None, s4)
                           else let s5 = s4\<lparr>frames := (frames s4)(page := frames s4 old_page)\<rparr>;
                                    s6 = set_pte t1 j1 (PTE_GET_FLAGS (ptes s5 t j) OR page) s5
                                in Inr (Inr (), set_pte t2 j2 (ptes s6 t1 j1) s6)))"

text \<open>The pages of range \<open>l\<close>, of mapping \<open>g\<close>, for the new range \<open>n\<close>.\<close>

definition fork_pages :: "u64 \<Rightarrow> mmap_flags \<Rightarrow> u64 \<Rightarrow> u64 \<Rightarrow> u64 \<Rightarrow> u64 \<Rightarrow> u64 \<Rightarrow> u64 \<Rightarrow> mm \<Rightarrow> unit mmcall" where
  "fork_pages hh a kpm pm npm l g n s =
     (let base = l_base (locals s l); e = base + l_length (locals s l)
      in if l_flags (locals s l) AND MAP_SHARED a \<noteq> 0
         then page_loop (share_page hh pm npm) base e (put_global g (\<lambda>r. r\<lparr>g_locals := g_locals r @ [n]\<rparr>) s)
         else let (ng, s4) = ALLOC s
              in if ng = 0 then Some (Inr (Inl None, s4))
                 else case new_pagemap hh kpm (put_global ng (\<lambda>_. global_zero) s4) of
                        (Inl err, s5) \<Rightarrow> Some (Inr (Inl err, s5))
                      | (Inr shadow, s5) \<Rightarrow>
                          let s6 = put_global ng (\<lambda>_. \<lparr>shadow_pagemap = shadow, g_locals = [n], g_res = g_res (globals s5 g),
                                     g_base = g_base (globals s5 g), g_length = g_length (globals s5 g),
                                     g_offset = g_offset (globals s5 g)\<rparr>) s5
                          in if l_flags (locals s6 l) AND MAP_ANONYMOUS a \<noteq> 0
                             then page_loop (copy_page hh pm npm shadow) base e s6
                             else Some (Inl (Panic ''Non anon fork'')))"

definition res_addref :: "u64 \<Rightarrow> mm \<Rightarrow> mm" where
  "res_addref res s = (if res = 0 then s else s\<lparr>res_refcount := (res_refcount s)(res := res_refcount s res + 1)\<rparr>)"

text \<open>One turn of the loop over the ranges.\<close>

definition fork_range :: "u64 \<Rightarrow> mmap_flags \<Rightarrow> u64 \<Rightarrow> u64 \<Rightarrow> u64 \<Rightarrow> u64 \<Rightarrow> mm \<Rightarrow> unit mmcall" where
  "fork_range hh a kpm pm npm l s =
     (let g = l_global (locals s l);
          (n, s1) = ALLOC s
      in if n = 0 then Some (Inr (Inl None, s1))
         else let s2 = put_local n (\<lambda>_. (locals s1 l)\<lparr>l_pagemap := npm\<rparr>) s1;
                  s3 = res_addref (g_res (globals s2 g)) s2
              in kbind (fork_pages hh a kpm pm npm l g n s3) (\<lambda>_ s7. Some (Inr (Inr (), push_range npm n s7))))"

fun fork_ranges :: "u64 \<Rightarrow> mmap_flags \<Rightarrow> u64 \<Rightarrow> u64 \<Rightarrow> u64 \<Rightarrow> u64 list \<Rightarrow> mm \<Rightarrow> unit mmcall" where
  "fork_ranges hh a kpm pm npm [] s = Some (Inr (Inr (), s))"
| "fork_ranges hh a kpm pm npm (l # ls) s = kbind (fork_range hh a kpm pm npm l s) (\<lambda>_. fork_ranges hh a kpm pm npm ls)"

definition vmm_fork_pagemap :: "u64 \<Rightarrow> mmap_flags \<Rightarrow> u64 \<Rightarrow> u64 \<Rightarrow> mm \<Rightarrow> u64 mmcall" where
  "vmm_fork_pagemap hh a kpm pm s =
     locked_do ''vmm_fork_pagemap'' pm s (\<lambda>s1.
       case new_pagemap hh kpm s1 of
         (Inl e, s2) \<Rightarrow> Some (Inr (Inl e, unlock_pagemap pm s2))
       | (Inr npm, s2) \<Rightarrow>
           Option.bind (fork_ranges hh a kpm pm npm (mmap_ranges (pagemaps s2 pm)) s2) (\<lambda>r.
             case r of
               Inl f \<Rightarrow> Some (Inl f)
             | Inr (Inl e, s3) \<Rightarrow> fail_with e (vmm_destroy_pagemap hh a npm (unlock_pagemap pm s3))
             | Inr (Inr _, s3) \<Rightarrow> Some (Inr (Inr npm, unlock_pagemap pm s3))))"


subsection \<open>Lemmas on the loops\<close>

lemma kbind_simps [simp]:
  "kbind (Some (Inr (Inr x, s))) f = f x s" "kbind (Some (Inr (Inl e, s))) f = Some (Inr (Inl e, s))"
  "kbind (Some (Inl flt)) f = Some (Inl flt)" "kbind None f = None"
  by (simp_all add: kbind_def)

lemma page_loop_done: "\<not> j < b \<Longrightarrow> page_loop f j b s = Some (Inr (Inr (), s))"
  by (subst page_loop.simps) simp

lemma page_loop_step:
  "j < b \<Longrightarrow> f j s = Inr (Inr (), s1) \<Longrightarrow> page_loop f j b s = page_loop f (j + PAGE_SIZE_64) b s1"
  by (subst page_loop.simps) simp

text \<open>The end of the pages \<open>b\<close>, \<open>b + PAGE_SIZE\<close>, ... of a block of memory that does not wrap around.\<close>

definition page_bytes :: "nat \<Rightarrow> u64" where
  "page_bytes n = of_nat (n * 4096)"

definition page_block :: "u64 \<Rightarrow> nat \<Rightarrow> u64" where
  "page_block b n = b + page_bytes n"

definition fits :: "u64 \<Rightarrow> nat \<Rightarrow> bool" where
  "fits b n \<longleftrightarrow> unat b + n * 4096 + 4096 < 2 ^ 64"

lemma unat_page_block: "fits b n \<Longrightarrow> k \<le> n \<Longrightarrow> unat (page_block b k) = unat b + k * 4096"
proof -
  assume f: "fits b n" "k \<le> n"
  then have "k * 4096 \<le> n * 4096" by simp
  then have k: "unat b + k * 4096 < 18446744073709551616" using f unfolding fits_def by simp
  then have "unat (of_nat (k * 4096) :: u64) = k * 4096" by (intro unat_of_nat_small) simp
  then show ?thesis using k by (simp add: page_block_def page_bytes_def unat_add_small)
qed

lemma page_block_Suc: "page_block b (Suc k) = page_block b k + PAGE_SIZE_64"
  by (simp add: page_block_def page_bytes_def PAGE_SIZE_64_def algebra_simps)

lemma page_block_0 [simp]: "page_block b 0 = b"
  by (simp add: page_block_def page_bytes_def)

lemma page_block_less: "fits b n \<Longrightarrow> i \<le> n \<Longrightarrow> j \<le> n \<Longrightarrow> page_block b i < page_block b j \<longleftrightarrow> i < j"
  by (simp add: word_less_nat_alt unat_page_block)

lemma page_block_le: "fits b n \<Longrightarrow> i \<le> n \<Longrightarrow> j \<le> n \<Longrightarrow> page_block b i \<le> page_block b j \<longleftrightarrow> i \<le> j"
  by (simp add: word_le_nat_alt unat_page_block)

text \<open>The loop rule: a body that keeps \<open>I\<close> and never ends the function.\<close>

lemma page_loop_rule:
  assumes b: "fits b n" and step: "\<And>k s. k < n \<Longrightarrow> I k s \<Longrightarrow> \<exists>s'. f (page_block b k) s = Inr (Inr (), s') \<and> I (Suc k) s'"
    and start: "I k s" and k: "k \<le> n"
  shows "\<exists>s'. page_loop f (page_block b k) (page_block b n) s = Some (Inr (Inr (), s')) \<and> I n s'"
  using start k
proof (induction "n - k" arbitrary: k s)
  case 0
  then show ?case using page_loop_done [of "page_block b k" "page_block b n" f s] by auto
next
  case (Suc d)
  then have kn: "k < n" by simp
  obtain s1 where s1: "f (page_block b k) s = Inr (Inr (), s1)" "I (Suc k) s1" using step [OF kn Suc.prems(1)] by blast
  have "\<exists>s'. page_loop f (page_block b (Suc k)) (page_block b n) s1 = Some (Inr (Inr (), s')) \<and> I n s'"
    by (rule Suc.hyps(1)) (use Suc.hyps(2) s1 kn in auto)
  then show ?case
    using page_loop_step [of "page_block b k" "page_block b n" f s s1] s1(1) kn b by (simp add: page_block_less page_block_Suc)
qed

lemma snip_end_block:
  assumes b: "fits b m" and k: "k < n" "n \<le> m"
  shows "snip_end (page_block b k) (page_block b n) (page_block b m) = Some (page_block b n)"
  using k
proof (induction "n - k" arbitrary: k)
  case (Suc d)
  show ?case
  proof (cases "Suc k = n")
    case True
    then show ?thesis by (subst snip_end.simps) (simp add: page_block_Suc [symmetric])
  next
    case False
    then have "Suc k < n" using Suc.prems by simp
    moreover have "snip_end (page_block b (Suc k)) (page_block b n) (page_block b m) = Some (page_block b n)"
      by (rule Suc.hyps(1)) (use Suc.hyps(2) \<open>Suc k < n\<close> k(2) in auto)
    ultimately show ?thesis using b k(2) by (subst snip_end.simps) (simp add: page_block_Suc [symmetric] page_block_le)
  qed
qed simp

subsection \<open>Unmapping the pages of a block\<close>

lemma mm_fields:
  assumes "vm.more (s' :: mm) = vm.more s"
  shows "locals s' = locals s" "globals s' = globals s" "heap s' = heap s" "unheaped s' = unheaped s" "frames s' = frames s"
  using assms by (cases s; cases s'; simp)+

text \<open>The page maps \<open>M\<close> with their tables in order, whoever holds the locks.\<close>

definition tables_ok :: "u64 \<Rightarrow> nat \<Rightarrow> u64 set \<Rightarrow> 'b vm_scheme \<Rightarrow> bool" where
  "tables_ok hh K M s \<longleftrightarrow> wf_tables hh K (root_of s ` M) s \<and> inj_on (root_of s) M"

lemma vm_ok_tables: "vm_ok hh K M s \<longleftrightarrow> tables_ok hh K M s \<and> (\<forall>m \<in> M. unlocked (pm_lock (pagemaps s m)))"
  by (auto simp: vm_ok_def tables_ok_def)

text \<open>What one operation on the pages of \<open>m\<close> leaves alone.\<close>

definition keeps :: "'b vm_scheme \<Rightarrow> 'b vm_scheme \<Rightarrow> bool" where
  "keeps s s' \<longleftrightarrow> pagemaps s' = pagemaps s \<and> vm.more s' = vm.more s"

lemma pte_locked:
  assumes ok: "tables_ok hh K M s" and m: "m \<in> M" and own: "pml_entry 39 v < K"
  shows "\<exists>x s'. on_pte hh m v False (\<lambda>x. if x AND PTE_PRESENT = 0 then Inl EINVAL else Inr (f x)) s = (x, s') \<and>
    tables_ok hh K M s' \<and> keeps s s' \<and> returned s' = returned s \<and> (x = Inr () \<longleftrightarrow> entry_of hh s m v \<noteq> None) \<and>
    (\<forall>m' \<in> M. \<forall>w. entry_of hh s' m' w = (if m' = m \<and> same_page v w
       then Option.bind (entry_of hh s m w) (\<lambda>e. if present (f e) then Some (f e) else None) else entry_of hh s m' w))"
proof -
  have wf: "wf_tables hh K (root_of s ` M) s" and r: "root_of s m \<in> root_of s ` M" using ok m by (auto simp: tables_ok_def)
  obtain x s' where x: "on_pte hh m v False (\<lambda>x. if x AND PTE_PRESENT = 0 then Inl EINVAL else Inr (f x)) s = (x, s')"
      "wf_tables hh K (root_of s ` M) s'" "pagemaps s' = pagemaps s" "returned s' = returned s"
      "case x of
         Inl err \<Rightarrow> page_entry hh s (root_of s m) v = None \<and> (\<forall>r' \<in> root_of s ` M. \<forall>w. page_entry hh s' r' w = page_entry hh s r' w)
       | Inr _ \<Rightarrow> (\<exists>e. page_entry hh s (root_of s m) v = Some e \<and>
           (\<forall>r' \<in> root_of s ` M. \<forall>w. page_entry hh s' r' w = (if r' = root_of s m \<and> same_page v w
              then (if present (f e) then Some (f e) else None) else page_entry hh s r' w)))"
    using on_pte_plain [OF wf refl r own, of f] by blast
  have rr: "root_of s' = root_of s" using x(3) by (simp add: root_of_def fun_eq_iff)
  have inj: "root_of s m' = root_of s m \<longleftrightarrow> m' = m" if "m' \<in> M" for m' using ok m that by (auto simp: tables_ok_def inj_on_def)
  have "vm.more (snd (on_pte hh m v False (\<lambda>x. if x AND PTE_PRESENT = 0 then Inl EINVAL else Inr (f x)) s)) = vm.more s"
    by (rule on_pte_more)
  then have k: "keeps s s'" using x(3) unfolding x(1) keeps_def by simp
  have t: "tables_ok hh K M s'" using ok x(2) by (simp add: tables_ok_def rr)
  have e: "entry_of hh s' m' w = (if m' = m \<and> same_page v w
       then Option.bind (entry_of hh s m w) (\<lambda>e. if present (f e) then Some (f e) else None) else entry_of hh s m' w)" if "m' \<in> M" for m' w
    using x(5) inj [OF that] that same_page_entry [of v w hh s m]
    by (cases x) (auto simp: entry_of_def rr dest!: sym [of "Some _"])
  have "x = Inr () \<longleftrightarrow> entry_of hh s m v \<noteq> None" using x(5) by (cases x) (auto simp: entry_of_def)
  with t k e x(1,4) show ?thesis by blast
qed

lemma unmap_locked:
  assumes "tables_ok hh K M s" and "m \<in> M" and "pml_entry 39 v < K"
  shows "\<exists>x s'. vmm_unmap_page hh m v True s = Inr (x, s') \<and> tables_ok hh K M s' \<and> keeps s s' \<and> returned s' = returned s \<and>
    (x = Inr () \<longleftrightarrow> entry_of hh s m v \<noteq> None) \<and>
    (\<forall>m' \<in> M. \<forall>w. entry_of hh s' m' w = (if m' = m \<and> same_page v w then None else entry_of hh s m' w))"
proof -
  have z: "Option.bind z (\<lambda>e. if present (0 :: u64) then Some (0 :: u64) else None) = None" for z :: "u64 option" by (cases z) auto
  note p = pte_locked [OF assms, of "\<lambda>_. 0", unfolded z]
  then show ?thesis by (elim exE conjE) (rule exI, rule exI, rule conjI, simp add: vmm_unmap_page_def, intro conjI; assumption)
qed

lemma flag_locked:
  assumes "tables_ok hh K M s" and "m \<in> M" and "pml_entry 39 v < K" and fl: "present fl"
  shows "\<exists>x s'. vmm_flag_page hh m False v fl s = Inr (x, s') \<and> tables_ok hh K M s' \<and> keeps s s' \<and> returned s' = returned s \<and>
    (\<forall>m' \<in> M. \<forall>w. entry_of hh s' m' w = (if m' = m \<and> same_page v w then map_option (\<lambda>e. PTE_GET_ADDR e OR fl) (entry_of hh s m w)
       else entry_of hh s m' w))"
proof -
  have p: "present (PTE_GET_ADDR e OR fl)" for e using fl by (simp add: present_def bit.conj_disj_distrib2 or_eq_0_iff)
  have z: "Option.bind z (\<lambda>e. if present (PTE_GET_ADDR e OR fl) then Some (PTE_GET_ADDR e OR fl) else None) =
      map_option (\<lambda>e. PTE_GET_ADDR e OR fl) z" for z by (cases z) (auto simp: p)
  note p = pte_locked [OF assms(1-3), of "\<lambda>e. PTE_GET_ADDR e OR fl", unfolded z]
  then show ?thesis by (elim exE conjE) (rule exI, rule exI, rule conjI, simp add: vmm_flag_page_def, intro conjI; assumption)
qed

text \<open>Blocks of user memory: their pages are different, and the top level entry is below \<open>K\<close>.\<close>

definition user_block :: "nat \<Rightarrow> u64 \<Rightarrow> nat \<Rightarrow> bool" where
  "user_block K b n \<longleftrightarrow> unat b + n * 4096 + 4096 < 2 ^ 48 \<and> (\<forall>k \<le> n. pml_entry 39 (page_block b k) < K)"

lemma user_block_fits: "user_block K b n \<Longrightarrow> fits b n"
  by (simp add: user_block_def fits_def)

lemma user_block_pages:
  assumes "user_block K b n" "i \<le> n" "j \<le> n"
  shows "same_page (page_block b i) (page_block b j) \<longleftrightarrow> i = j"
proof -
  have "page_no (page_block b k) = unat b div 4096 + k" if "k \<le> n" for k
  proof -
    have "unat b + k * 4096 < 2 ^ 48" using assms(1) that unfolding user_block_def by (meson add_le_mono le_less_trans le_add1 le_refl mult_le_mono1 order_trans)
    then have "unat b div 4096 + k < 2 ^ 36" by (simp add: less_mult_imp_div_less div_mult_self4 [symmetric] del: div_mult_self4)
    then show ?thesis using unat_page_block [OF user_block_fits [OF assms(1)] that] by (simp add: page_no_def)
  qed
  with assms show ?thesis by (simp add: same_page_iff)
qed


lemma keeps_trans: "keeps s s1 \<Longrightarrow> keeps s1 s2 \<Longrightarrow> keeps s s2"
  by (simp add: keeps_def)

lemma keeps_refl [simp]: "keeps s s"
  by (simp add: keeps_def)

lemma unmap_pages:
  assumes ub: "user_block K b n" and m: "m \<in> M" and ok: "tables_ok hh K M s"
  shows "\<exists>s'. page_loop (unmap_one hh m) b (page_block b n) s = Some (Inr (Inr (), s')) \<and> tables_ok hh K M s' \<and> keeps s s' \<and>
    returned s' = returned s \<and>
    (\<forall>m' \<in> M. \<forall>w. entry_of hh s' m' w = (if m' = m \<and> (\<exists>k < n. same_page (page_block b k) w) then None else entry_of hh s m' w))"
proof -
  let ?I = "\<lambda>j s'. tables_ok hh K M s' \<and> keeps s s' \<and> returned s' = returned s \<and>
    (\<forall>m' \<in> M. \<forall>w. entry_of hh s' m' w = (if m' = m \<and> (\<exists>k < j. same_page (page_block b k) w) then None else entry_of hh s m' w))"
  have "\<exists>s'. page_loop (unmap_one hh m) (page_block b 0) (page_block b n) s = Some (Inr (Inr (), s')) \<and> ?I n s'"
  proof (rule page_loop_rule [OF user_block_fits [OF ub], where I = ?I])
    fix k s1
    assume k: "k < n" and I: "?I k s1"
    then have own: "pml_entry 39 (page_block b k) < K" using ub by (simp add: user_block_def)
    obtain x s2 where x: "vmm_unmap_page hh m (page_block b k) True s1 = Inr (x, s2)" "tables_ok hh K M s2" "keeps s1 s2"
        "returned s2 = returned s1"
        "\<forall>m' \<in> M. \<forall>w. entry_of hh s2 m' w = (if m' = m \<and> same_page (page_block b k) w then None else entry_of hh s1 m' w)"
      using unmap_locked [OF _ m own, of hh s1] I by blast
    have "?I (Suc k) s2" using I x by (auto simp: less_Suc_eq intro: keeps_trans)
    then show "\<exists>s'. unmap_one hh m (page_block b k) s1 = Inr (Inr (), s') \<and> ?I (Suc k) s'"
      using x(1) by (simp add: unmap_one_def)
  qed (use ok in auto)
  then show ?thesis by simp
qed

lemma addr_not_invalid: "PTE_GET_ADDR e \<noteq> INVALID_PHYS"
proof
  assume "PTE_GET_ADDR e = INVALID_PHYS"
  then have "bit (PTE_GET_ADDR e) 0" by (simp add: INVALID_PHYS_def)
  then show False by (simp add: PTE_GET_ADDR_def PTE_ADDR_MASK_def bit_simps)
qed

lemma free_page_simps [simp]:
  "root_of (pmm_free_page p s) = root_of s" "wf_tables hh K R (pmm_free_page p s) = wf_tables hh K R s"
  "page_entry hh (pmm_free_page p s) r v = page_entry hh s r v" "pagemaps (pmm_free_page p s) = pagemaps s"
  "vm.more (pmm_free_page p s) = vm.more s" "returned (pmm_free_page p s) = returned s @ [p]"
  by (auto simp: root_of_def fun_eq_iff pmm_free_page_def intro!: wf_tables_cong page_entry_cong)

lemma free_shadow_pages:
  assumes ub: "user_block K b n" and m: "m \<in> M" and ok: "tables_ok hh K M s"
  shows "\<exists>s'. page_loop (free_shadow_page hh m) b (page_block b n) s = Some (Inr (Inr (), s')) \<and> tables_ok hh K M s' \<and> keeps s s' \<and>
    returned s' = returned s @ List.map_filter (\<lambda>k. map_option PTE_GET_ADDR (entry_of hh s m (page_block b k))) [0 ..< n] \<and>
    (\<forall>m' \<in> M. \<forall>w. entry_of hh s' m' w = (if m' = m \<and> (\<exists>k < n. same_page (page_block b k) w) then None else entry_of hh s m' w))"
proof -
  let ?R = "\<lambda>j. List.map_filter (\<lambda>k. map_option PTE_GET_ADDR (entry_of hh s m (page_block b k))) [0 ..< j]"
  let ?I = "\<lambda>j s'. tables_ok hh K M s' \<and> keeps s s' \<and> returned s' = returned s @ ?R j \<and>
    (\<forall>m' \<in> M. \<forall>w. entry_of hh s' m' w = (if m' = m \<and> (\<exists>k < j. same_page (page_block b k) w) then None else entry_of hh s m' w))"
  have "\<exists>s'. page_loop (free_shadow_page hh m) (page_block b 0) (page_block b n) s = Some (Inr (Inr (), s')) \<and> ?I n s'"
  proof (rule page_loop_rule [OF user_block_fits [OF ub], where I = ?I])
    fix k s1
    assume k: "k < n" and I: "?I k s1"
    then have own: "pml_entry 39 (page_block b k) < K" using ub by (simp add: user_block_def)
    have same: "entry_of hh s1 m (page_block b k) = entry_of hh s m (page_block b k)"
      using I m k user_block_pages [OF ub] by auto
    have R: "?R (Suc k) = ?R k @ (case entry_of hh s m (page_block b k) of None \<Rightarrow> [] | Some e \<Rightarrow> [PTE_GET_ADDR e])"
      by (simp add: List.map_filter_def split: option.split)
    show "\<exists>s'. free_shadow_page hh m (page_block b k) s1 = Inr (Inr (), s') \<and> ?I (Suc k) s'"
    proof (cases "entry_of hh s m (page_block b k)")
      case None
      then have "entry_of hh s m' w = None" if "m' = m" "same_page (page_block b k) w" for m' w
        using same_page_entry [OF that(2), of hh s m] that by simp
      with None same I R show ?thesis by (auto simp: free_shadow_page_def virt2phys_entry less_Suc_eq)
    next
      case (Some e)
      obtain x s2 where x: "vmm_unmap_page hh m (page_block b k) True s1 = Inr (x, s2)" "tables_ok hh K M s2" "keeps s1 s2"
          "returned s2 = returned s1" "x = Inr () \<longleftrightarrow> entry_of hh s1 m (page_block b k) \<noteq> None"
          "\<forall>m' \<in> M. \<forall>w. entry_of hh s2 m' w = (if m' = m \<and> same_page (page_block b k) w then None else entry_of hh s1 m' w)"
        using unmap_locked [OF _ m own, of hh s1] I by blast
      let ?s3 = "pmm_free_page (PTE_GET_ADDR e) s2"
      have f: "free_shadow_page hh m (page_block b k) s1 = Inr (Inr (), ?s3)"
        using x(1,5) same Some addr_not_invalid by (simp add: free_shadow_page_def virt2phys_entry)
      have t: "tables_ok hh K M ?s3 = tables_ok hh K M s2" "keeps s1 ?s3 = keeps s1 s2" "entry_of hh ?s3 m' w = entry_of hh s2 m' w" for m' w
        by (simp_all add: tables_ok_def keeps_def entry_of_def)
      have "returned ?s3 = returned s @ ?R (Suc k)" using x(4) I R Some by simp
      then have "?I (Suc k) ?s3" using I x t by (auto simp: less_Suc_eq intro: keeps_trans)
      with f show ?thesis by blast
    qed
  qed (use ok in \<open>auto simp: List.map_filter_def\<close>)
  then show ?thesis by simp
qed


subsection \<open>Unmapping a mapping\<close>

text \<open>The local range \<open>l\<close> of \<open>pm\<close> is a private anonymous mapping of the \<open>n\<close> pages at \<open>b\<close>.\<close>

definition private_anon :: "mmap_flags \<Rightarrow> nat \<Rightarrow> u64 set \<Rightarrow> u64 \<Rightarrow> u64 \<Rightarrow> u64 \<Rightarrow> nat \<Rightarrow> mm \<Rightarrow> bool" where
  "private_anon a K M pm l b n s \<longleftrightarrow>
     l \<noteq> 0 \<and> 0 < n \<and> user_block K b n \<and> pm \<in> M \<and>
     l_base (locals s l) = b \<and> l_length (locals s l) = page_bytes n \<and> l_flags (locals s l) AND MAP_ANONYMOUS a \<noteq> 0 \<and>
     (let g = globals s (l_global (locals s l))
      in g_locals g = [l] \<and> g_base g = b \<and> g_length g = page_bytes n \<and> shadow_pagemap g \<in> M \<and> shadow_pagemap g \<noteq> pm)"

lemma in_block: "user_block K b n \<Longrightarrow> l_base (locals s l) = b \<Longrightarrow> l_length (locals s l) = page_bytes n \<Longrightarrow> k < n \<Longrightarrow>
    in_local s (page_block b k) l"
  using page_block_less [OF user_block_fits, of K b n k n] page_block_le [OF user_block_fits, of K b n 0 k]
  by (simp add: in_local_def page_block_def [of b n, symmetric] not_less [symmetric])

lemma lock_unlock_tables [simp]:
  "tables_ok hh K M (put_pagemap pm (\<lambda>p. p\<lparr>pm_lock := x\<rparr>) s) = tables_ok hh K M s"
  "tables_ok hh K M (unlock_pagemap pm s) = tables_ok hh K M s"
  "tables_ok hh K M (put_pagemap pm (\<lambda>p. p\<lparr>mmap_ranges := f p\<rparr>) s) = tables_ok hh K M s"
  "entry_of hh (put_pagemap pm (\<lambda>p. p\<lparr>pm_lock := x\<rparr>) s) m v = entry_of hh s m v"
  "entry_of hh (unlock_pagemap pm s) m v = entry_of hh s m v"
  "entry_of hh (put_pagemap pm (\<lambda>p. p\<lparr>mmap_ranges := f p\<rparr>) s) m v = entry_of hh s m v"
proof -
  have r: "root_of (put_pagemap pm (\<lambda>p. p\<lparr>pm_lock := x\<rparr>) s) = root_of s" "root_of (unlock_pagemap pm s) = root_of s"
    "root_of (put_pagemap pm (\<lambda>p. p\<lparr>mmap_ranges := f p\<rparr>) s) = root_of s"
    by (simp_all add: root_of_def fun_eq_iff)
  show "tables_ok hh K M (put_pagemap pm (\<lambda>p. p\<lparr>pm_lock := x\<rparr>) s) = tables_ok hh K M s"
    "tables_ok hh K M (unlock_pagemap pm s) = tables_ok hh K M s"
    "tables_ok hh K M (put_pagemap pm (\<lambda>p. p\<lparr>mmap_ranges := f p\<rparr>) s) = tables_ok hh K M s"
    "entry_of hh (put_pagemap pm (\<lambda>p. p\<lparr>pm_lock := x\<rparr>) s) m v = entry_of hh s m v"
    "entry_of hh (unlock_pagemap pm s) m v = entry_of hh s m v"
    "entry_of hh (put_pagemap pm (\<lambda>p. p\<lparr>mmap_ranges := f p\<rparr>) s) m v = entry_of hh s m v"
    by (simp_all add: tables_ok_def entry_of_def r)
qed

text \<open>One turn of \<open>munmap\<close> that covers such a mapping.\<close>

lemma munmap_turn_whole:
  assumes ok: "vm_ok hh K M s" and anon: "private_anon a K M pm l b n s" and e: "fits b e" "n \<le> e"
  defines "sh \<equiv> shadow_pagemap (globals s (l_global (locals s l)))"
  shows "\<exists>s'. munmap_turn hh a pm (page_block b e) b l s = Some (Inr (Inr (page_block b n), s')) \<and> vm_ok hh K M s' \<and>
    mmap_ranges (pagemaps s' pm) = remove1 l (mmap_ranges (pagemaps s pm)) \<and> locals s' = locals s \<and>
    unheaped s' = unheaped s @ [l] \<and>
    returned s' = returned s @ List.map_filter (\<lambda>k. map_option PTE_GET_ADDR (entry_of hh s sh (page_block b k))) [0 ..< n] \<and>
    (\<forall>m \<in> M. \<forall>w. entry_of hh s' m w = (if m \<in> {pm, sh} \<and> (\<exists>k < n. same_page (page_block b k) w) then None else entry_of hh s m w))"
proof -
  let ?g = "l_global (locals s l)"
  have h: "0 < n" "user_block K b n" "pm \<in> M" "l_base (locals s l) = b" "l_length (locals s l) = page_bytes n"
    "l_flags (locals s l) AND MAP_ANONYMOUS a \<noteq> 0" "g_locals (globals s ?g) = [l]" "g_base (globals s ?g) = b"
    "g_length (globals s ?g) = page_bytes n" "sh \<in> M" "sh \<noteq> pm"
    using anon by (auto simp: private_anon_def Let_def sh_def)
  have bn: "b + page_bytes n = page_block b n" "page_block b n - b = page_bytes n" by (simp_all add: page_block_def)
  have sn: "snip_end b (page_block b n) (page_block b e) = Some (page_block b n)" using snip_end_block [OF e(1) h(1) e(2)] by simp
  define lk where "lk = (pm_lock (pagemaps s pm))\<lparr>lock_word := 1, last_acquirer := ''munmap''\<rparr>"
  define s1 where "s1 = put_pagemap pm (\<lambda>p. p\<lparr>pm_lock := lk\<rparr>) s"
  have lock: "lock_pagemap ''munmap'' pm s = Inr s1"
    using ok h(3) by (simp add: lock_pagemap_ok vm_ok_def s1_def lk_def put_pagemap_def)
  have t1: "tables_ok hh K M s1" "vm.more s1 = vm.more s" "returned s1 = returned s" "entry_of hh s1 m w = entry_of hh s m w" for m w
    using ok by (simp_all add: s1_def vm_ok_tables)
  have sp: "split_range pm l b (page_block b n) s1 = (Inr (), s1)"
    using h(4) mm_fields [OF t1(2)] by (simp add: split_range_def)
  obtain s3 where s3: "page_loop (unmap_one hh pm) b (page_block b n) s1 = Some (Inr (Inr (), s3))" "tables_ok hh K M s3" "keeps s1 s3"
      "returned s3 = returned s1"
      "\<forall>m' \<in> M. \<forall>w. entry_of hh s3 m' w = (if m' = pm \<and> (\<exists>k < n. same_page (page_block b k) w) then None else entry_of hh s1 m' w)"
    using unmap_pages [OF h(2,3) t1(1)] by blast
  define s5 where "s5 = unlock_pagemap pm (put_pagemap pm (\<lambda>p. p\<lparr>mmap_ranges := remove1 l (mmap_ranges p)\<rparr>) s3)"
  have m5: "vm.more s5 = vm.more s" using s3(3) t1(2) by (simp add: s5_def keeps_def)
  note f3 = mm_fields [of s3 s] and f5 = mm_fields [OF m5]
  have l3: "locals s3 = locals s" using s3(3) t1(2) mm_fields(1) [of s3 s] by (simp add: keeps_def)
  have t5: "tables_ok hh K M s5" using s3(2) by (simp add: s5_def)
  have e5: "entry_of hh s5 m w = entry_of hh s3 m w" for m w by (simp add: s5_def)
  obtain s6 where s6: "page_loop (free_shadow_page hh sh) b (page_block b n) s5 = Some (Inr (Inr (), s6))" "tables_ok hh K M s6" "keeps s5 s6"
      "returned s6 = returned s5 @ List.map_filter (\<lambda>k. map_option PTE_GET_ADDR (entry_of hh s5 sh (page_block b k))) [0 ..< n]"
      "\<forall>m' \<in> M. \<forall>w. entry_of hh s6 m' w = (if m' = sh \<and> (\<exists>k < n. same_page (page_block b k) w) then None else entry_of hh s5 m' w)"
    using free_shadow_pages [OF h(2,10) t5] by blast
  have m6: "vm.more s6 = vm.more s" using s6(3) m5 by (simp add: keeps_def)
  have turn: "munmap_turn hh a pm (page_block b e) b l s = Some (Inr (Inr (page_block b n), mm_free l s6))"
    using h s3(1) s6(1) l3 f5 unfolding munmap_turn_def
    by (simp add: bn sn Let_def locked_do_def lock sp s5_def [symmetric] sh_def [symmetric])
  have free: "tables_ok hh K M (mm_free l s6) = tables_ok hh K M s6" "entry_of hh (mm_free l s6) m w = entry_of hh s6 m w"
    "pagemaps (mm_free l s6) = pagemaps s6" "returned (mm_free l s6) = returned s6" "locals (mm_free l s6) = locals s6"
    "unheaped (mm_free l s6) = unheaped s6 @ [l]" for m w
    by (auto simp: tables_ok_def entry_of_def mm_free_def root_of_def fun_eq_iff inj_on_def
        wf_tables_cong [of "s6\<lparr>unheaped := unheaped s6 @ [l]\<rparr>" s6] page_entry_cong [of "s6\<lparr>unheaped := unheaped s6 @ [l]\<rparr>" s6])
  have pm6: "pagemaps s6 = pagemaps s5" "pagemaps s3 = pagemaps s1" using s6(3) s3(3) by (auto simp: keeps_def)
  have ranges: "mmap_ranges (pagemaps s6 pm) = remove1 l (mmap_ranges (pagemaps s pm))"
    by (simp add: pm6 s5_def) (simp add: s1_def)
  have "unlocked (pm_lock (pagemaps s6 m))" if "m \<in> M" for m
    using ok that by (auto simp: pm6 s5_def unlock_pagemap_def spinlock_release_def s1_def vm_ok_def)
  then have vm: "vm_ok hh K M (mm_free l s6)" using s6(2) by (simp add: vm_ok_tables free)
  have ent: "entry_of hh s6 m w = (if m \<in> {pm, sh} \<and> (\<exists>k < n. same_page (page_block b k) w) then None else entry_of hh s m w)"
    if "m \<in> M" for m w using s6(5) s3(5) that h(11) by (auto simp: e5 t1(4))
  have "entry_of hh s5 sh w = entry_of hh s sh w" for w using s3(5) h(10,11) by (auto simp: e5 t1(4))
  then have "returned s6 = returned s @ List.map_filter (\<lambda>k. map_option PTE_GET_ADDR (entry_of hh s sh (page_block b k))) [0 ..< n]"
    using s6(4) s3(4) t1(3) by (simp add: s5_def)
  with turn vm ranges ent mm_fields [OF m6] show ?thesis by (simp add: free)
qed


lemma ALIGN_UP_pages: "k * 4096 + 4096 < 2 ^ 64 \<Longrightarrow> ALIGN_UP (page_bytes k) PAGE_SIZE_64 = page_bytes k"
proof (rule unat_eqI)
  assume "k * 4096 + 4096 < 2 ^ 64"
  then have k: "unat (page_bytes k) = k * 4096" "k * 4096 + 4096 \<le> 18446744073709551616"
    by (auto simp: page_bytes_def unat_of_nat_small simp del: of_nat_mult)
  then show "unat (ALIGN_UP (page_bytes k) PAGE_SIZE_64) = unat (page_bytes k)"
    using unat_ALIGN_UP [of PAGE_SIZE_64 "page_bytes k"] by (simp add: PAGE_SIZE_64_def)
qed

lemma page_bytes_nonzero: "0 < k \<Longrightarrow> k * 4096 < 2 ^ 64 \<Longrightarrow> page_bytes k \<noteq> 0"
  using unat_of_nat_small [of "k * 4096"] by (auto simp: page_bytes_def simp del: of_nat_mult)

text \<open>C3. Unmapping a private anonymous mapping together with the page behind it, which belongs to the next
  mapping: the call succeeds, all pages of the first mapping are unmapped, exactly the physical pages
  its shadow page map held are given back, its range is gone, and no page outside it changes. But the
  page behind it, although inside the area to unmap, is skipped: it stays mapped, and its range stays
  in the list.\<close>

theorem munmap_frees_range_and_skips_next_page:
  assumes ok: "vm_ok hh K M s" and anon: "private_anon a K M pm la b n s" and room: "fits b (Suc n)"
    and ranges: "mmap_ranges (pagemaps s pm) = [la, lb]" "la \<noteq> lb"
  defines "sh \<equiv> shadow_pagemap (globals s (l_global (locals s la)))"
  shows "\<exists>s'. munmap hh a pm b (page_bytes (Suc n)) s = Some (Inr (Inr (), s')) \<and> vm_ok hh K M s' \<and>
    mmap_ranges (pagemaps s' pm) = [lb] \<and> locals s' lb = locals s lb \<and>
    entry_of hh s' pm (page_block b n) = entry_of hh s pm (page_block b n) \<and>
    returned s' = returned s @ List.map_filter (\<lambda>k. map_option PTE_GET_ADDR (entry_of hh s sh (page_block b k))) [0 ..< n] \<and>
    (\<forall>m \<in> M. \<forall>w. entry_of hh s' m w = (if m \<in> {pm, sh} \<and> (\<exists>k < n. same_page (page_block b k) w) then None else entry_of hh s m w))"
proof -
  have h: "0 < n" "user_block K b n" "pm \<in> M" "la \<noteq> 0" "l_base (locals s la) = b" "l_length (locals s la) = page_bytes n"
    using anon by (auto simp: private_anon_def Let_def)
  have len: "page_bytes (Suc n) \<noteq> 0" "b + ALIGN_UP (page_bytes (Suc n)) PAGE_SIZE_64 = page_block b (Suc n)"
  proof -
    have u: "Suc n * 4096 + 4096 < 2 ^ 64" "Suc n * 4096 < 2 ^ 64" using room by (auto simp: fits_def)
    show "page_bytes (Suc n) \<noteq> 0" by (rule page_bytes_nonzero) (use u in auto)
    show "b + ALIGN_UP (page_bytes (Suc n)) PAGE_SIZE_64 = page_block b (Suc n)"
      using ALIGN_UP_pages [OF u(1)] by (simp add: page_block_def)
  qed
  have "in_local s b la" using in_block [OF h(2,5,6,1)] by simp
  then have a: "a_range (addr2range s pm b) = la" by (simp add: addr2range_def ranges Let_def)
  obtain s' where s': "munmap_turn hh a pm (page_block b (Suc n)) b la s = Some (Inr (Inr (page_block b n), s'))" "vm_ok hh K M s'"
      "mmap_ranges (pagemaps s' pm) = remove1 la (mmap_ranges (pagemaps s pm))" "locals s' = locals s"
      "returned s' = returned s @ List.map_filter (\<lambda>k. map_option PTE_GET_ADDR (entry_of hh s sh (page_block b k))) [0 ..< n]"
      "\<forall>m \<in> M. \<forall>w. entry_of hh s' m w = (if m \<in> {pm, sh} \<and> (\<exists>k < n. same_page (page_block b k) w) then None else entry_of hh s m w)"
    using munmap_turn_whole [OF ok anon room] unfolding sh_def by auto
  have lt: "b < page_block b (Suc n)" using page_block_less [OF room, of 0 "Suc n"] by simp
  have "munmap hh a pm b (page_bytes (Suc n)) s = munmap_loop hh a pm (page_block b (Suc n)) (page_block b n + PAGE_SIZE_64) s'"
    using len lt a h(4) s'(1) by (simp add: munmap_def munmap_loop.simps [of hh a pm _ b])
  also have "\<dots> = Some (Inr (Inr (), s'))" by (simp add: page_block_Suc [symmetric] munmap_loop.simps)
  finally have m: "munmap hh a pm b (page_bytes (Suc n)) s = Some (Inr (Inr (), s'))" .
  have "entry_of hh s' pm (page_block b n) = entry_of hh s pm (page_block b n)"
    using s'(6) h(3) user_block_pages [OF h(2)] by auto
  with m s' ranges show ?thesis by auto
qed


text \<open>
  A process (page map 0x10) with two adjacent private mappings of one page each, at 0x10000 and 0x11000;
  their shadow page maps are 0x20 and 0x30.  The range 0x300 belongs to page map 0x40.
\<close>

definition linux_mmap_flags :: mmap_flags where
  "linux_mmap_flags = \<lparr>PROT_WRITE = 2, PROT_EXEC = 4, MAP_SHARED = 1, MAP_FIXED = 16, MAP_ANONYMOUS = 32\<rparr>"

definition mm_example :: mm where
  "mm_example = \<lparr>ptes = (\<lambda>_ _. 0), pages = [0x5000, 0x6000, 0x7000, 0x8000, 0x9000, 0xa000, 0xb000], returned = [],
     pagemaps = (\<lambda>m. \<lparr>pm_lock = SPINLOCK_INIT, top_level = 0x1000000 + m, mmap_ranges = (if m = 0x10 then [0x100, 0x200] else [0x300])\<rparr>),
     shootdowns = [],
     locals = (\<lambda>l. \<lparr>l_pagemap = (if l = 0x300 then 0x40 else 0x10), l_global = (if l = 0x200 then 0x2000 else 0x1000),
       l_base = (if l = 0x200 then 0x11000 else 0x10000), l_length = 0x1000, l_offset = 0, l_prot = 3, l_flags = 32\<rparr>),
     globals = (\<lambda>g. if g = 0x1000
       then \<lparr>shadow_pagemap = 0x20, g_locals = [0x100], g_res = 0, g_base = 0x10000, g_length = 0x1000, g_offset = 0\<rparr>
       else \<lparr>shadow_pagemap = 0x30, g_locals = [0x200], g_res = 0, g_base = 0x11000, g_length = 0x1000, g_offset = 0\<rparr>),
     heap = [0x400, 0x500], unheaped = [], frames = (\<lambda>_. []), res_refcount = (\<lambda>_. 0), can_mmap = (\<lambda>_. False), mmap_anon_base = 0\<rparr>"

lemma mm_example_ok: "vm_ok 0 256 {0x10, 0x20, 0x30, 0x40} mm_example"
  by (rule vm_ok_empty)
    (auto simp: mm_example_def root_of_def inj_on_def SPINLOCK_INIT_def good_page_def PTE_GET_ADDR_def PTE_ADDR_MASK_def)

lemma small_block: "user_block 256 0x10000 1"
  by (auto simp: user_block_def page_block_def page_bytes_def pml_entry_def le_Suc_eq)

lemma mm_example_anon: "private_anon linux_mmap_flags 256 {0x10, 0x20, 0x30, 0x40} 0x10 0x100 0x10000 1 mm_example"
  using small_block by (simp add: private_anon_def mm_example_def linux_mmap_flags_def page_bytes_def)

theorem munmap_frees_range_and_skips_next_page_witness:
  "\<exists>s'. munmap 0 linux_mmap_flags 0x10 0x10000 (page_bytes 2) mm_example = Some (Inr (Inr (), s')) \<and>
     mmap_ranges (pagemaps s' 0x10) = [0x200]"
proof -
  have r: "mmap_ranges (pagemaps mm_example 0x10) = [0x100, 0x200]" "(0x100 :: u64) \<noteq> 0x200" by (simp_all add: mm_example_def)
  have f: "fits 0x10000 (Suc 1)" by (simp add: fits_def)
  show ?thesis using munmap_frees_range_and_skips_next_page [OF mm_example_ok mm_example_anon f r] by (auto simp: numeral_2_eq_2)
qed

subsection \<open>Page faults\<close>

lemma pt_flags_present: "present (phys OR pt_flags_of a prot)"
  by (simp add: present_def pt_flags_of_def PTE_PRESENT_def bit.conj_disj_distrib2 or_eq_0_iff)

lemma alloc_frame_ok:
  assumes ok: "vm_ok hh K M s" and p: "pages s = p # ps"
  shows "\<exists>s'. alloc_frame hh s = (p, s') \<and> p \<noteq> 0 \<and> vm_ok hh K M s' \<and> pages s' = ps \<and> pagemaps s' = pagemaps s \<and>
    locals s' = locals s \<and> globals s' = globals s \<and> frames s' p = replicate 4096 0 \<and>
    (\<forall>m \<in> M. \<forall>w. entry_of hh s' m w = entry_of hh s m w)"
proof -
  have good: "good_page p" using ok p by (simp add: vm_ok_def wf_tables_def)
  define s' where "s' = (zero_table (p + hh) (s\<lparr>pages := ps\<rparr>))\<lparr>frames := (frames s)(p := replicate 4096 0)\<rparr>"
  have a: "alloc_frame hh s = (p, s')" "p \<noteq> 0"
    using good p by (simp_all add: alloc_frame_def pmm_alloc_page_def s'_def good_page_def zero_table_def)
  have pt: "ptes s' = ptes (zero_table (p + hh) s)" by (simp add: s'_def zero_table_def)
  have new: "walk hh s r q \<noteq> Some (p + hh)" if "r \<in> root_of s ` M" "is_path q" for r q
    using ok p that unfolding vm_ok_def wf_tables_def by auto
  have w: "walk hh s' r q = walk hh s r q" if "r \<in> root_of s ` M" "is_path q" for r q
    using walk_zero_table [OF new [OF that(1)] that(2)] walk_cong [OF pt] by simp
  have rr: "root_of s' = root_of s" by (simp add: s'_def root_of_def zero_table_def fun_eq_iff)
  have "wf_tables hh K (root_of s ` M) s'"
  proof -
    have "pages s' = ps" by (simp add: s'_def zero_table_def)
    then show ?thesis using ok p unfolding vm_ok_def wf_tables_def by (simp add: w)
  qed
  then have vm: "vm_ok hh K M s'" using ok unfolding vm_ok_def rr by (simp add: s'_def zero_table_def)
  have path: "is_path (pt_path v)" for v by (simp add: is_path_def pt_path_def)
  have "page_entry hh s' r v = page_entry hh s r v" if "r \<in> root_of s ` M" for r v
    using new [OF that path, of v] by (auto simp: page_entry_def w [OF that path] pt split: option.split)
  then have "entry_of hh s' m v = entry_of hh s m v" if "m \<in> M" for m v using that by (simp add: entry_of_def rr)
  with a vm show ?thesis by (auto simp: s'_def zero_table_def)
qed


lemma addr2range_cong:
  assumes "locals s' = locals s" and "mmap_ranges (pagemaps s' c) = mmap_ranges (pagemaps s c)"
  shows "addr2range s' c = addr2range s c"
proof -
  have "in_local s' v = in_local s v" for v using assms(1) by (simp add: in_local_def fun_eq_iff)
  then show ?thesis using assms by (intro ext) (simp add: addr2range_def split: option.split)
qed

lemma relock:
  assumes ok: "vm_ok hh K M s" and c: "c \<in> M"
  shows "\<exists>s1. lock_pagemap nm c s = Inr s1 \<and> tables_ok hh K M s1 \<and> vm.more s1 = vm.more s \<and> pages s1 = pages s \<and>
    addr2range s1 c = addr2range s c \<and> vm_ok hh K M (unlock_pagemap c s1) \<and> (\<forall>m v. entry_of hh s1 m v = entry_of hh s m v) \<and>
    (\<forall>m. mmap_ranges (pagemaps s1 m) = mmap_ranges (pagemaps s m)) \<and> (\<forall>m. m \<noteq> c \<longrightarrow> pagemaps s1 m = pagemaps s m)"
proof -
  define s1 where "s1 = put_pagemap c (\<lambda>p. p\<lparr>pm_lock := (pm_lock (pagemaps s c))\<lparr>lock_word := 1, last_acquirer := nm\<rparr>\<rparr>) s"
  have l: "lock_pagemap nm c s = Inr s1" using ok c by (simp add: lock_pagemap_ok vm_ok_def s1_def put_pagemap_def)
  have m: "vm.more s1 = vm.more s" by (simp add: s1_def)
  have t: "tables_ok hh K M s1" using ok by (simp add: s1_def vm_ok_tables)
  have "unlocked (pm_lock (pagemaps (unlock_pagemap c s1) x))" if "x \<in> M" for x
    using ok that by (auto simp: s1_def unlock_pagemap_def vm_ok_def spinlock_release_def)
  then have "vm_ok hh K M (unlock_pagemap c s1)" using t by (simp add: vm_ok_tables)
  moreover have "addr2range s1 c = addr2range s c"
    by (rule addr2range_cong [OF mm_fields(1) [OF m]]) (simp add: s1_def)
  ultimately show ?thesis using l m t by (auto simp: s1_def)
qed

lemma map_page_fresh:
  assumes "vm_ok hh K M s" and "m \<in> M" and "pml_entry 39 v < K" and "3 \<le> length (pages s)" and "entry_of hh s m v = None"
    and "present (phys OR fl)"
  shows "\<exists>s'. vmm_map_page hh m v phys fl s = Inr (Inr (), s') \<and> vm_ok hh K M s' \<and> vm.more s' = vm.more s \<and>
    length (pages s) \<le> length (pages s') + 3 \<and>
    (\<forall>m' \<in> M. \<forall>w. entry_of hh s' m' w = (if m' = m \<and> same_page v w then Some (phys OR fl) else entry_of hh s m' w))"
proof -
  obtain x s' where x: "vmm_map_page hh m v phys fl s = Inr (x, s')" "vm_ok hh K M s'" "length (pages s) \<le> length (pages s') + 3"
      "case x of
         Inl err \<Rightarrow> (err = Some ENOMEM \<and> length (pages s) < 3 \<or> err = Some EINVAL \<and> entry_of hh s m v \<noteq> None) \<and>
           (\<forall>m' \<in> M. \<forall>w. entry_of hh s' m' w = entry_of hh s m' w)
       | Inr _ \<Rightarrow> entry_of hh s m v = None \<and>
           (\<forall>m' \<in> M. \<forall>w. entry_of hh s' m' w = (if m' = m \<and> same_page v w then Some (phys OR fl) else entry_of hh s m' w))"
    using map_page_law [OF assms(1-3,6)] by blast
  have "x = Inr ()" using x(4) assms(4,5) by (cases x) auto
  then show ?thesis using x map_page_more [OF x(1)] by auto
qed

text \<open>C2. A page fault in an anonymous range whose mapping has one local range: the handler takes a cleared
  page and maps it, with the protection of the faulting range, in the shadow page map and in the page
  map of that local range, and changes no other page of any page map. So a process whose own range is
  the mapping's local range gets its page; a process whose range refers to a mapping of another
  process, as after a fork, gets nothing although the handler reports success.\<close>

theorem page_fault_maps_listed_range:
  assumes ok: "vm_ok hh K M s" and c: "c \<in> M" and err: "err AND 1 = 0"
    and found: "find (in_local s cr2) (mmap_ranges (pagemaps s c)) = Some n" "n \<noteq> 0"
    and anon: "l_flags (locals s n) AND MAP_ANONYMOUS a \<noteq> 0"
    and g: "globals s (l_global (locals s n)) = gr" "g_locals gr = [l]" "shadow_pagemap gr = sh" "l_pagemap (locals s l) = p"
    and M: "sh \<in> M" "p \<in> M" "sh \<noteq> p"
    and v: "cr2 div PAGE_SIZE_64 * PAGE_SIZE_64 = v" "in_local s v l" "pml_entry 39 v < K"
    and fresh: "entry_of hh s sh v = None" "entry_of hh s p v = None"
    and pages: "pages s = pg # rest" "6 \<le> length rest"
  shows "\<exists>s'. mmap_handle_pf hh a drv c err cr2 s = Inr (True, s') \<and> vm_ok hh K M s' \<and> frames s' pg = replicate 4096 0 \<and>
    (\<forall>m \<in> M. \<forall>w. entry_of hh s' m w = (if m \<in> {sh, p} \<and> same_page v w then Some (pg OR pt_flags_of a (l_prot (locals s n)))
       else entry_of hh s m w))"
proof -
  let ?fl = "pt_flags_of a (l_prot (locals s n))"
  obtain s1 where s1: "lock_pagemap ''mmap_handle_pf'' c s = Inr s1" "vm.more s1 = vm.more s" "pages s1 = pages s"
      "addr2range s1 c = addr2range s c" "vm_ok hh K M (unlock_pagemap c s1)" "\<And>m v. entry_of hh s1 m v = entry_of hh s m v"
    using relock [OF ok c] by blast
  let ?s2 = "unlock_pagemap c s1"
  have m2: "vm.more ?s2 = vm.more s" using s1(2) by simp
  obtain s3 where s3: "alloc_frame hh ?s2 = (pg, s3)" "pg \<noteq> 0" "vm_ok hh K M s3" "pages s3 = rest" "locals s3 = locals ?s2"
      "globals s3 = globals ?s2" "frames s3 pg = replicate 4096 0" "\<forall>m \<in> M. \<forall>w. entry_of hh s3 m w = entry_of hh ?s2 m w"
    using alloc_frame_ok [OF s1(5), of pg rest] s1(3) pages by auto
  have l3: "locals s3 = locals s" "globals s3 = globals s" using s3(5,6) mm_fields [OF m2] by simp_all
  have e3: "entry_of hh s3 m w = entry_of hh s m w" if "m \<in> M" for m w using s3(8) that s1(6) by simp
  obtain s4 where s4: "vmm_map_page hh sh v pg ?fl s3 = Inr (Inr (), s4)" "vm_ok hh K M s4" "vm.more s4 = vm.more s3"
      "length (pages s3) \<le> length (pages s4) + 3"
      "\<forall>m' \<in> M. \<forall>w. entry_of hh s4 m' w = (if m' = sh \<and> same_page v w then Some (pg OR ?fl) else entry_of hh s3 m' w)"
    using map_page_fresh [OF s3(3) M(1) v(3) _ _ pt_flags_present, of pg a "l_prot (locals s n)"] s3(4) pages(2) e3 [OF M(1)] fresh by auto
  have p4: "3 \<le> length (pages s4)" "entry_of hh s4 p v = None" using s4(4,5) s3(4) pages(2) M e3 [OF M(2)] fresh by auto
  obtain s5 where s5: "vmm_map_page hh p v pg ?fl s4 = Inr (Inr (), s5)" "vm_ok hh K M s5" "vm.more s5 = vm.more s4"
      "\<forall>m' \<in> M. \<forall>w. entry_of hh s5 m' w = (if m' = p \<and> same_page v w then Some (pg OR ?fl) else entry_of hh s4 m' w)"
    using map_page_fresh [OF s4(2) M(2) v(3) p4 pt_flags_present, of pg a "l_prot (locals s n)"] by auto
  note f4 = mm_fields [OF s4(3)] and f5 = mm_fields [OF s5(3)]
  have inl: "in_local s4 v l" using v(2) f4 l3 by (simp add: in_local_def)
  have pf: "mmap_page_in_range hh a (l_global (locals s n)) v pg (l_prot (locals s n)) s3 = Inr (Inr (), s5)"
    using s4(1) s5(1) f4 l3 g inl by (simp add: mmap_page_in_range_def)
  have r: "a_range (addr2range s c cr2) = n" "memory_page (addr2range s c cr2) * PAGE_SIZE_64 = v"
    using found v(1) by (simp_all add: addr2range_def Let_def)
  have "mmap_handle_pf hh a drv c err cr2 s = Inr (True, s5)"
    using err found(2) anon s3(1,2) pf l3 mm_fields [OF m2]
    by (simp add: mmap_handle_pf_def s1(1,4) r Let_def)
  moreover have "entry_of hh s5 m w = (if m \<in> {sh, p} \<and> same_page v w then Some (pg OR ?fl) else entry_of hh s m w)" if "m \<in> M" for m w
    using s5(4) s4(5) e3 [OF that] that by auto
  ultimately show ?thesis using s5(2) s3(7) f4 f5 by auto
qed

theorem page_fault_maps_listed_range_witness:
  "\<exists>s'. mmap_handle_pf 0 linux_mmap_flags (\<lambda>_ _ _ s. (0, s)) 0x40 4 0x10008 mm_example = Inr (True, s') \<and>
     entry_of 0 s' 0x10 0x10000 = Some (0x5000 OR pt_flags_of linux_mmap_flags 3) \<and> entry_of 0 s' 0x40 0x10000 = None"
proof -
  have e: "entry_of 0 mm_example m v = None" for m v by (rule entry_empty) (simp add: mm_example_def)
  have f: "find (in_local mm_example 0x10008) (mmap_ranges (pagemaps mm_example 0x40)) = Some 0x300"
    "l_flags (locals mm_example 0x300) AND MAP_ANONYMOUS linux_mmap_flags \<noteq> 0"
    "globals mm_example (l_global (locals mm_example 0x300)) =
      \<lparr>shadow_pagemap = 0x20, g_locals = [0x100], g_res = 0, g_base = 0x10000, g_length = 0x1000, g_offset = 0\<rparr>"
    "l_pagemap (locals mm_example 0x100) = 0x10" "in_local mm_example 0x10000 0x100" "l_prot (locals mm_example 0x300) = 3"
    "pages mm_example = 0x5000 # [0x6000, 0x7000, 0x8000, 0x9000, 0xa000, 0xb000]"
    by (simp_all add: mm_example_def in_local_def linux_mmap_flags_def)
  have v: "(0x10008 :: u64) div PAGE_SIZE_64 * PAGE_SIZE_64 = 0x10000" "pml_entry 39 0x10000 < 256"
    by (simp_all add: PAGE_SIZE_64_def pml_entry_def)
  show ?thesis
    using page_fault_maps_listed_range [OF mm_example_ok _ _ f(1) _ f(2,3) _ _ f(4) _ _ _ v(1) f(5) v(2) e e f(7),
        of 4 "0x20" "\<lambda>_ _ _ s. (0, s)"] f(6) e
    by (auto simp: same_page_def)
qed


subsection \<open>Changing the protection of a mapping\<close>

lemma flag_pages:
  assumes ub: "user_block K b n" and m: "m \<in> M" and ok: "tables_ok hh K M s"
  shows "\<exists>s'. page_loop (flag_one hh a m prot) b (page_block b n) s = Some (Inr (Inr (), s')) \<and> tables_ok hh K M s' \<and> keeps s s' \<and>
    (\<forall>k < n. entry_of hh s' m (page_block b k) = map_option (\<lambda>e. PTE_GET_ADDR e OR pt_flags_of a prot) (entry_of hh s m (page_block b k)))"
proof -
  let ?fl = "\<lambda>e. PTE_GET_ADDR e OR pt_flags_of a prot"
  let ?I = "\<lambda>j s'. tables_ok hh K M s' \<and> keeps s s' \<and>
    (\<forall>k < n. entry_of hh s' m (page_block b k) = (if k < j then map_option ?fl else id) (entry_of hh s m (page_block b k)))"
  have fl: "present (pt_flags_of a prot)" using pt_flags_present [of 0 a prot] by simp
  have "\<exists>s'. page_loop (flag_one hh a m prot) (page_block b 0) (page_block b n) s = Some (Inr (Inr (), s')) \<and> ?I n s'"
  proof (rule page_loop_rule [OF user_block_fits [OF ub], where I = ?I])
    fix k s1
    assume k: "k < n" and I: "?I k s1"
    then have own: "pml_entry 39 (page_block b k) < K" using ub by (simp add: user_block_def)
    obtain x s2 where x: "vmm_flag_page hh m False (page_block b k) (pt_flags_of a prot) s1 = Inr (x, s2)" "tables_ok hh K M s2" "keeps s1 s2"
        "\<forall>m' \<in> M. \<forall>w. entry_of hh s2 m' w = (if m' = m \<and> same_page (page_block b k) w then map_option ?fl (entry_of hh s1 m w)
           else entry_of hh s1 m' w)"
      using flag_locked [OF _ m own fl, of hh s1] I by blast
    have "entry_of hh s2 m (page_block b j) = (if j < Suc k then map_option ?fl else id) (entry_of hh s m (page_block b j))" if "j < n" for j
      using x(4) m I that k user_block_pages [OF ub, of k j] by (auto simp: less_Suc_eq)
    then have "?I (Suc k) s2" using I x by (auto intro: keeps_trans)
    then show "\<exists>s'. flag_one hh a m prot (page_block b k) s1 = Inr (Inr (), s') \<and> ?I (Suc k) s'"
      using x(1) by (simp add: flag_one_def)
  qed (use ok in auto)
  then show ?thesis by auto
qed

text \<open>A list of ranges that starts with an empty one is never used up.\<close>

definition stuck :: "u64 \<Rightarrow> mm \<Rightarrow> bool" where
  "stuck pm s \<longleftrightarrow> (\<exists>l ls. mmap_ranges (pagemaps s pm) = l # ls \<and> l_length (locals s l) = 0)"

lemma unmap_ranges_stuck: "unmap_ranges hh a pm s = Some y \<Longrightarrow> \<not> stuck pm s"
proof -
  assume h: "unmap_ranges hh a pm s = Some y"
  have step: "\<not> stuck pm s"
    if IH: "\<And>hh a pm s y. f hh a pm s = Some y \<Longrightarrow> \<not> stuck pm s"
      and body: "(case mmap_ranges (pagemaps s pm) of [] \<Rightarrow> Some (Inr s)
        | l # _ \<Rightarrow> Option.bind (munmap hh a pm (l_base (locals s l)) (l_length (locals s l)) s) (\<lambda>r.
            case r of Inl f \<Rightarrow> Some (Inl f) | Inr (_, s1) \<Rightarrow> f hh a pm s1)) = Some y"
    for f :: "u64 \<Rightarrow> mmap_flags \<Rightarrow> u64 \<Rightarrow> mm \<Rightarrow> mm result option" and hh a pm s y
  proof
    assume "stuck pm s"
    then obtain l ls where l: "mmap_ranges (pagemaps s pm) = l # ls" "l_length (locals s l) = 0" unfolding stuck_def by blast
    then have "f hh a pm s = Some y" using body by (simp add: munmap_def)
    from IH [OF this] \<open>stuck pm s\<close> show False by blast
  qed
  show ?thesis
    by (rule unmap_ranges.raw_induct [of "\<lambda>hh a pm s y. \<not> stuck pm s", OF _ h]) (rule step)
qed

lemma destroy_stuck: "stuck pm s \<Longrightarrow> vmm_destroy_pagemap hh a pm s = None"
  using unmap_ranges_stuck by (cases "unmap_ranges hh a pm s") (auto simp: vmm_destroy_pagemap_def)

text \<open>C4. Changing the protection of a whole mapping succeeds: every mapped page of it gets the new flags and
  the mapping appears as a new range with the new protection. But the old range stays in the list
  with length zero, and since \<open>munmap\<close> refuses a length of zero, destroying the address space, as exit and
  exec do, never ends.\<close>

theorem mprotect_leaves_empty_range_and_destroy_hangs:
  assumes ok: "vm_ok hh K M s" and anon: "private_anon a K M pm l b n s"
    and ranges: "mmap_ranges (pagemaps s pm) = l # ls" and prot: "l_prot (locals s l) \<noteq> prot"
    and heap: "heap s = h # hs" "h \<noteq> 0" "h \<noteq> l"
  shows "\<exists>s'. mprotect hh a pm b (page_bytes n) prot s = Some (Inr (Inr (), s')) \<and>
    mmap_ranges (pagemaps s' pm) = l # ls @ [h] \<and> locals s' h = (locals s l)\<lparr>l_prot := prot\<rparr> \<and>
    (\<forall>k < n. entry_of hh s' pm (page_block b k) = map_option (\<lambda>e. PTE_GET_ADDR e OR pt_flags_of a prot) (entry_of hh s pm (page_block b k))) \<and>
    l_length (locals s' l) = 0 \<and> vmm_destroy_pagemap hh a pm s' = None"
proof -
  have h: "0 < n" "user_block K b n" "pm \<in> M" "l \<noteq> 0" "l_base (locals s l) = b" "l_length (locals s l) = page_bytes n"
    using anon by (auto simp: private_anon_def Let_def)
  have fit: "fits b (Suc n)" using h(2) by (simp add: user_block_def fits_def)
  have fit': "fits b n" by (rule user_block_fits [OF h(2)])
  have len: "page_bytes n \<noteq> 0" "b + ALIGN_UP (page_bytes n) PAGE_SIZE_64 = page_block b n"
  proof -
    have u: "n * 4096 + 4096 < 2 ^ 64" "n * 4096 < 2 ^ 64" using fit by (auto simp: fits_def)
    show "page_bytes n \<noteq> 0" by (rule page_bytes_nonzero) (use u h in auto)
    show "b + ALIGN_UP (page_bytes n) PAGE_SIZE_64 = page_block b n" using ALIGN_UP_pages [OF u(1)] by (simp add: page_block_def)
  qed
  have "in_local s b l" using in_block [OF h(2,5,6,1)] by simp
  then have ar: "a_range (addr2range s pm b) = l" by (simp add: addr2range_def ranges Let_def)
  have bn: "b + page_bytes n = page_block b n" "page_block b n - b = page_bytes n" by (simp_all add: page_block_def)
  have sn: "snip_end b (page_block b n) (page_block b n) = Some (page_block b n)" using snip_end_block [OF fit' h(1)] by simp
  obtain s1 where s1: "lock_pagemap ''mprotect'' pm s = Inr s1" "tables_ok hh K M s1" "vm.more s1 = vm.more s"
      "\<And>m v. entry_of hh s1 m v = entry_of hh s m v" "\<And>m. mmap_ranges (pagemaps s1 m) = mmap_ranges (pagemaps s m)"
    using relock [OF ok h(3)] by blast
  have sp: "split_range pm l b (page_block b n) s1 = (Inr (), s1)"
    using h(5) mm_fields [OF s1(3)] by (simp add: split_range_def)
  obtain s3 where s3: "page_loop (flag_one hh a pm prot) b (page_block b n) s1 = Some (Inr (Inr (), s3))" "keeps s1 s3"
      "\<forall>k < n. entry_of hh s3 pm (page_block b k) = map_option (\<lambda>e. PTE_GET_ADDR e OR pt_flags_of a prot) (entry_of hh s1 pm (page_block b k))"
    using flag_pages [OF h(2,3) s1(2)] by blast
  have m3: "vm.more s3 = vm.more s" using s3(2) s1(3) by (simp add: keeps_def)
  note f3 = mm_fields [OF m3]
  define s' where "s' = unlock_pagemap pm (push_range pm h (put_local h (\<lambda>_. (locals s l)\<lparr>l_prot := prot\<rparr>)
    ((put_local l (\<lambda>r. r\<lparr>l_offset := l_offset r + page_bytes n, l_base := page_block b n, l_length := 0\<rparr>) s3)\<lparr>heap := hs\<rparr>)))"
  have nr: "\<lparr>l_pagemap = l_pagemap (locals s l), l_global = l_global (locals s l), l_base = b, l_length = page_bytes n,
      l_offset = l_offset (locals s l), l_prot = prot, l_flags = l_flags (locals s l)\<rparr> = (locals s l)\<lparr>l_prot := prot\<rparr>"
    using h(5,6) by (cases "locals s l") simp
  have turn: "mprotect_turn hh a pm prot (page_block b n) b l s = Some (Inr (Inr (page_block b n), s'))"
    using s3(1) f3 h(5,6) heap unfolding mprotect_turn_def
    by (simp add: bn sn Let_def locked_do_def s1(1) sp ALLOC_def put_local_def s'_def nr)
  have lt: "b < page_block b n" using page_block_less [OF fit', of 0 n] h(1) by simp
  have "mprotect hh a pm b (page_bytes n) prot s = mprotect_loop hh a pm prot (page_block b n) (page_block b n + PAGE_SIZE_64) s'"
    using len lt ar h(4) prot turn by (simp add: mprotect_def mprotect_loop.simps [of hh a pm prot _ b])
  also have "\<dots> = Some (Inr (Inr (), s'))"
    using page_block_less [OF fit, of "Suc n" n] by (simp add: page_block_Suc [symmetric] mprotect_loop.simps)
  finally have m: "mprotect hh a pm b (page_bytes n) prot s = Some (Inr (Inr (), s'))" .
  have r: "mmap_ranges (pagemaps s' pm) = l # ls @ [h]" "locals s' h = (locals s l)\<lparr>l_prot := prot\<rparr>" "l_length (locals s' l) = 0"
    using s3(2) s1(5) ranges heap(3) f3
    by (simp_all add: s'_def push_range_def put_local_def keeps_def unlock_pagemap_def put_pagemap_def)
  have e: "entry_of hh s' pm v = entry_of hh s3 pm v" for v
    by (auto simp: s'_def push_range_def entry_of_def root_of_def put_local_def intro!: page_entry_cong)
  have "vmm_destroy_pagemap hh a pm s' = None" by (rule destroy_stuck) (use r in \<open>auto simp: stuck_def\<close>)
  with m r e s3(3) s1(4) show ?thesis by auto
qed

theorem mprotect_leaves_empty_range_and_destroy_hangs_witness:
  "\<exists>s'. mprotect 0 linux_mmap_flags 0x10 0x10000 (page_bytes 1) 1 mm_example = Some (Inr (Inr (), s')) \<and>
     vmm_destroy_pagemap 0 linux_mmap_flags 0x10 s' = None"
proof -
  have r: "mmap_ranges (pagemaps mm_example 0x10) = [0x100, 0x200]" "l_prot (locals mm_example 0x100) \<noteq> 1"
    "heap mm_example = [0x400, 0x500]" "(0x400 :: u64) \<noteq> 0" "(0x400 :: u64) \<noteq> 0x100" by (simp_all add: mm_example_def)
  show ?thesis using mprotect_leaves_empty_range_and_destroy_hangs [OF mm_example_ok mm_example_anon r(1,2,3,4,5)] by auto
qed


subsection \<open>What a fork leaves behind\<close>

lemma page_loop_keeps:
  fixes f :: "u64 \<Rightarrow> 's \<Rightarrow> ((errno option + unit) \<times> 's) result"
  assumes refl: "\<And>s. P s s" and trans: "\<And>s s1 s2. P s s1 \<Longrightarrow> P s1 s2 \<Longrightarrow> P s s2"
    and body: "\<And>j s x s'. f j s = Inr (x, s') \<Longrightarrow> P s s'"
  shows "page_loop f j b s = Some (Inr (x, s')) \<Longrightarrow> P s s'"
proof -
  assume h: "page_loop f j b s = Some (Inr (x, s'))"
  define Q where "Q f' j b s y \<longleftrightarrow> (f' = f \<longrightarrow> (\<forall>x s'. y = Inr (x, s') \<longrightarrow> P s s'))"
    for f' and j b :: u64 and s and y :: "((errno option + unit) \<times> 's) result"
  have "Q f j b s (Inr (x, s'))"
  proof (rule page_loop.raw_induct [where P = Q, OF _ h])
    fix pl :: "(u64 \<Rightarrow> 's \<Rightarrow> ((errno option + unit) \<times> 's) result) \<Rightarrow> u64 \<Rightarrow> u64 \<Rightarrow> 's \<Rightarrow> ((errno option + unit) \<times> 's) result option"
    fix g j b s y
    assume IH: "\<And>f j b s y. pl f j b s = Some y \<Longrightarrow> Q f j b s y"
      and r: "(if j < b then case g j s of Inl e \<Rightarrow> Some (Inl e) | Inr (Inl e, s1) \<Rightarrow> Some (Inr (Inl e, s1))
         | Inr (Inr _, s1) \<Rightarrow> pl g (j + PAGE_SIZE_64) b s1 else Some (Inr (Inr (), s))) = Some y"
    show "Q g j b s y" unfolding Q_def
    proof (intro impI allI)
      fix x s'
      assume g: "g = f" and y: "y = Inr (x, s')"
      show "P s s'"
      proof (cases "j < b")
        case True
        then obtain z s1 where z: "f j s = Inr (z, s1)" using r y g by (auto split: sum.splits)
        show ?thesis
        proof (cases z)
          case (Inr u)
          then have "P s1 s'" using IH [of f "j + PAGE_SIZE_64" b s1 y] True r z g y by (simp add: Q_def)
          with body [OF z] show ?thesis by (rule trans)
        qed (use True r z g y body in auto)
      qed (use r y refl in auto)
    qed
  qed
  then show ?thesis by (simp add: Q_def)
qed

definition same_objects :: "mm \<Rightarrow> mm \<Rightarrow> bool" where
  "same_objects s s' \<longleftrightarrow> locals s' = locals s \<and> heap s' = heap s \<and> pagemaps s' = pagemaps s"

lemma virt2pte_objects: "vmm_virt2pte hh pm v al s = (x, s') \<Longrightarrow> same_objects s s'"
  using virt2pte_pagemaps [of hh pm v al s] mm_fields [OF virt2pte_more [of hh pm v al s]] by (simp add: same_objects_def)

lemma objects_simps [simp]:
  "same_objects s (set_pte t i e s') = same_objects s s'" "same_objects s (s'\<lparr>frames := fr\<rparr>) = same_objects s s'"
  by (simp_all add: same_objects_def set_pte_def)

lemma objects_trans: "same_objects s s1 \<Longrightarrow> same_objects s1 s2 \<Longrightarrow> same_objects s s2"
  by (simp add: same_objects_def)

lemma nozero_objects: "pmm_alloc_nozero_page s = (p, s') \<Longrightarrow> same_objects s s'"
  by (auto simp: pmm_alloc_nozero_page_def same_objects_def split: list.splits)

lemma share_page_objects: "share_page hh pm npm i s = Inr (x, s') \<Longrightarrow> same_objects s s'"
  by (auto simp: share_page_def split: prod.splits sum.splits dest!: virt2pte_objects intro: objects_trans)

lemma copy_page_objects: "copy_page hh pm npm sh i s = Inr (x, s') \<Longrightarrow> same_objects s s'"
  by (auto simp: copy_page_def Let_def split: prod.splits sum.splits if_splits dest!: virt2pte_objects nozero_objects
      intro: objects_trans objects_trans [OF objects_trans [OF objects_trans]])

lemma objects_refl: "same_objects s s"
  by (simp add: same_objects_def)

lemma share_loop_objects: "page_loop (share_page hh pm npm) j b s = Some (Inr (x, s')) \<Longrightarrow> same_objects s s'"
  by (erule page_loop_keeps [where P = same_objects, rotated 3]) (auto intro: objects_refl objects_trans share_page_objects)

lemma copy_loop_objects: "page_loop (copy_page hh pm npm sh) j b s = Some (Inr (x, s')) \<Longrightarrow> same_objects s s'"
  by (erule page_loop_keeps [where P = same_objects, rotated 3]) (auto intro: objects_refl objects_trans copy_page_objects)

lemma kbind_Some: "kbind m f = Some (Inr (Inr y, s')) \<longleftrightarrow> (\<exists>x s. m = Some (Inr (Inr x, s)) \<and> f x s = Some (Inr (Inr y, s')))"
  by (cases m) (auto simp: kbind_def split: sum.splits)

text \<open>What a new page map takes from the heap, and the page map it writes.\<close>

lemma new_pagemap_objects:
  assumes "new_pagemap hh kpm s = (Inr p, s')"
  shows "\<exists>hs. heap s = p # hs \<and> heap s' = hs \<and> locals s' = locals s \<and> (\<forall>m. m \<noteq> p \<longrightarrow> pagemaps s' m = pagemaps s m) \<and>
    mmap_ranges (pagemaps s' p) = []"
proof -
  obtain addr hs where h: "ALLOC s = (addr, s\<lparr>heap := hs\<rparr>)" "addr \<noteq> 0" "heap s = addr # hs"
    using assms by (auto simp: new_pagemap_def ALLOC_def vmm_new_pagemap_def split: list.splits prod.splits if_splits)
  then have "vmm_new_pagemap hh kpm addr (s\<lparr>heap := hs\<rparr>) = (Inr p, s')"
    using assms by (auto simp: new_pagemap_def split: prod.splits sum.splits)
  then have "p = addr" "vm.more s' = vm.more (s\<lparr>heap := hs\<rparr>)" "\<forall>m. m \<noteq> p \<longrightarrow> pagemaps s' m = pagemaps s m"
      "mmap_ranges (pagemaps s' p) = []"
    using more_simps(6) [of hh "s\<lparr>heap := hs\<rparr>"]
    by (auto simp: vmm_new_pagemap_def Let_def h(2) pmm_alloc_page_def split: prod.splits if_splits list.splits)
  with h mm_fields [of s' "s\<lparr>heap := hs\<rparr>"] show ?thesis by simp
qed

lemma fork_pages_objects:
  assumes run: "fork_pages hh a kpm pm npm l g n s = Some (Inr (Inr u, s'))" and npm: "npm \<notin> set (heap s)"
  shows "locals s' = locals s \<and> (\<exists>us. heap s = us @ heap s') \<and> pagemaps s' npm = pagemaps s npm"
proof (cases "l_flags (locals s l) AND MAP_SHARED a \<noteq> 0")
  case True
  then have "same_objects (put_global g (\<lambda>r. r\<lparr>g_locals := g_locals r @ [n]\<rparr>) s) s'"
    using run by (auto simp: fork_pages_def Let_def dest!: share_loop_objects)
  then show ?thesis by (auto simp: same_objects_def put_global_def)
next
  case False
  obtain ng hs where h: "ALLOC s = (ng, s\<lparr>heap := hs\<rparr>)" "heap s = ng # hs" "ng \<noteq> 0"
    using run False by (cases "heap s") (auto simp: fork_pages_def ALLOC_def Let_def split: if_splits)
  let ?s4 = "put_global ng (\<lambda>_. global_zero) (s\<lparr>heap := hs\<rparr>)"
  obtain sh s5 where n5: "new_pagemap hh kpm ?s4 = (Inr sh, s5)"
    using run False h by (auto simp: fork_pages_def Let_def split: prod.splits sum.splits)
  let ?s6 = "put_global ng (\<lambda>_. \<lparr>shadow_pagemap = sh, g_locals = [n], g_res = g_res (globals s5 g),
     g_base = g_base (globals s5 g), g_length = g_length (globals s5 g), g_offset = g_offset (globals s5 g)\<rparr>) s5"
  have "page_loop (copy_page hh pm npm sh) (l_base (locals s l)) (l_base (locals s l) + l_length (locals s l)) ?s6 = Some (Inr (Inr u, s'))"
    using run False h n5 by (auto simp: fork_pages_def Let_def split: if_splits)
  then have o: "same_objects ?s6 s'" by (rule copy_loop_objects)
  obtain hs' where "heap ?s4 = sh # hs'" "heap s5 = hs'" "locals s5 = locals ?s4" "\<forall>m. m \<noteq> sh \<longrightarrow> pagemaps s5 m = pagemaps ?s4 m"
    using new_pagemap_objects [OF n5] by blast
  then show ?thesis using o h npm by (auto simp: same_objects_def put_global_def)
qed

lemma fork_range_links:
  assumes run: "fork_range hh a kpm pm npm l s = Some (Inr (Inr u, s'))" and npm: "npm \<notin> set (heap s)"
  shows "\<exists>n us. heap s = n # us @ heap s' \<and> locals s' = (locals s)(n := (locals s l)\<lparr>l_pagemap := npm\<rparr>) \<and>
    mmap_ranges (pagemaps s' npm) = mmap_ranges (pagemaps s npm) @ [n]"
proof -
  obtain n hs where n: "ALLOC s = (n, s\<lparr>heap := hs\<rparr>)" "n \<noteq> 0" "heap s = n # hs"
    using run by (cases "heap s") (auto simp: fork_range_def ALLOC_def Let_def split: if_splits)
  let ?s2 = "put_local n (\<lambda>_. (locals s l)\<lparr>l_pagemap := npm\<rparr>) (s\<lparr>heap := hs\<rparr>)"
  let ?s3 = "res_addref (g_res (globals ?s2 (l_global (locals s l)))) ?s2"
  have f3: "locals ?s3 = (locals s)(n := (locals s l)\<lparr>l_pagemap := npm\<rparr>)" "heap ?s3 = hs" "pagemaps ?s3 = pagemaps s"
    by (simp_all add: res_addref_def put_local_def)
  obtain v s7 where s7: "fork_pages hh a kpm pm npm l (l_global (locals s l)) n ?s3 = Some (Inr (Inr v, s7))" "s' = push_range npm n s7"
    using run n by (auto simp: fork_range_def Let_def kbind_Some)
  have "npm \<notin> set (heap ?s3)" using npm n f3 by simp
  from fork_pages_objects [OF s7(1) this] f3 n s7(2) show ?thesis
    by (auto simp: push_range_def put_pagemap_def)
qed

lemma fork_ranges_links:
  assumes "fork_ranges hh a kpm pm npm ls s = Some (Inr (Inr u, s'))" and "npm \<notin> set (heap s)" and "distinct (heap s)"
    and "set ls \<inter> set (heap s) = {}"
  shows "\<exists>cs. mmap_ranges (pagemaps s' npm) = mmap_ranges (pagemaps s npm) @ cs \<and> set cs \<subseteq> set (heap s) \<and>
    list_all2 (\<lambda>c l. locals s' c = (locals s l)\<lparr>l_pagemap := npm\<rparr>) cs ls \<and> (\<forall>x. x \<notin> set (heap s) \<longrightarrow> locals s' x = locals s x)"
  using assms
proof (induction ls arbitrary: s)
  case Nil
  then show ?case by auto
next
  case (Cons l ls)
  obtain v s1 where s1: "fork_range hh a kpm pm npm l s = Some (Inr (Inr v, s1))" "fork_ranges hh a kpm pm npm ls s1 = Some (Inr (Inr u, s'))"
    using Cons.prems(1) by (auto simp: kbind_Some)
  obtain n us where n: "heap s = n # us @ heap s1" "locals s1 = (locals s)(n := (locals s l)\<lparr>l_pagemap := npm\<rparr>)"
      "mmap_ranges (pagemaps s1 npm) = mmap_ranges (pagemaps s npm) @ [n]"
    using fork_range_links [OF s1(1) Cons.prems(2)] by blast
  obtain cs where cs: "mmap_ranges (pagemaps s' npm) = mmap_ranges (pagemaps s1 npm) @ cs" "set cs \<subseteq> set (heap s1)"
      "list_all2 (\<lambda>c l. locals s' c = (locals s1 l)\<lparr>l_pagemap := npm\<rparr>) cs ls" "\<forall>x. x \<notin> set (heap s1) \<longrightarrow> locals s' x = locals s1 x"
    using Cons.IH [OF s1(2)] Cons.prems n(1) by auto
  have "locals s1 x = locals s x" if "x \<in> set ls" for x using that Cons.prems(4) n(1,2) by auto
  then have "list_all2 (\<lambda>c l. locals s' c = (locals s l)\<lparr>l_pagemap := npm\<rparr>) cs ls"
    using cs(3) by (auto simp: list_all2_conv_all_nth)
  moreover have "locals s' n = (locals s l)\<lparr>l_pagemap := npm\<rparr>" using cs(4) n(1,2) Cons.prems(3) by auto
  ultimately show ?case using cs n by (intro exI [of _ "n # cs"]) auto
qed


text \<open>C5. After a successful fork the new address space has a range for every range of the old one, equal to it
  but for the page map. So each of them, also those of private mappings, refers to the mapping of the
  parent: the mapping that the fork creates for a private range is used by nobody, and page faults and
  unmappings of the child work on the parent's mapping.\<close>

theorem fork_ranges_refer_to_parent:
  assumes run: "vmm_fork_pagemap hh a kpm pm s = Some (Inr (Inr npm, s'))"
    and heap: "distinct (heap s)" "set (mmap_ranges (pagemaps s pm)) \<inter> set (heap s) = {}" "pm \<notin> set (heap s)"
  shows "list_all2 (\<lambda>c l. locals s' c = (locals s l)\<lparr>l_pagemap := npm\<rparr>) (mmap_ranges (pagemaps s' npm)) (mmap_ranges (pagemaps s pm)) \<and>
    map (\<lambda>c. l_global (locals s' c)) (mmap_ranges (pagemaps s' npm)) = map (\<lambda>l. l_global (locals s l)) (mmap_ranges (pagemaps s pm))"
proof -
  obtain lk where l: "lock_pagemap ''vmm_fork_pagemap'' pm s = Inr (put_pagemap pm (\<lambda>p. p\<lparr>pm_lock := lk\<rparr>) s)" (is "_ = Inr ?s1")
    using run by (auto simp: vmm_fork_pagemap_def locked_do_def lock_pagemap_def rbind_def split: sum.splits)
  obtain q s2 where q: "new_pagemap hh kpm ?s1 = (Inr q, s2)"
    using run by (auto simp: vmm_fork_pagemap_def locked_do_def l split: prod.splits sum.splits)
  obtain u s3 where s3: "fork_ranges hh a kpm pm q (mmap_ranges (pagemaps s2 pm)) s2 = Some (Inr (Inr u, s3))"
      "q = npm" "s' = unlock_pagemap pm s3"
    using run q by (cases "fork_ranges hh a kpm pm q (mmap_ranges (pagemaps s2 pm)) s2")
      (auto simp: vmm_fork_pagemap_def locked_do_def l fail_with_def rbind_def split: prod.splits sum.splits bind_splits)
  have m1: "locals ?s1 = locals s" "heap ?s1 = heap s" by (simp_all add: put_pagemap_def)
  obtain hs where hs: "heap s = npm # hs" "heap s2 = hs" "locals s2 = locals s" "\<forall>m. m \<noteq> npm \<longrightarrow> pagemaps s2 m = pagemaps ?s1 m"
      "mmap_ranges (pagemaps s2 npm) = []"
    using new_pagemap_objects [OF q] m1 s3(2) by auto
  have pm: "mmap_ranges (pagemaps s2 pm) = mmap_ranges (pagemaps s pm)" using hs heap(3) by (simp add: put_pagemap_def)
  obtain cs where cs: "mmap_ranges (pagemaps s3 npm) = cs" "list_all2 (\<lambda>c l. locals s3 c = (locals s2 l)\<lparr>l_pagemap := npm\<rparr>) cs (mmap_ranges (pagemaps s pm))"
    using fork_ranges_links [OF s3(1)] s3(2) hs heap pm by auto
  have f: "locals s' = locals s3" "mmap_ranges (pagemaps s' npm) = mmap_ranges (pagemaps s3 npm)"
    by (simp_all add: s3(3)) (simp add: unlock_pagemap_def put_pagemap_def)
  have "list_all2 (\<lambda>c l. locals s' c = (locals s l)\<lparr>l_pagemap := npm\<rparr>) (mmap_ranges (pagemaps s' npm)) (mmap_ranges (pagemaps s pm))"
    using cs hs(3) f by simp
  moreover then have "map (\<lambda>c. l_global (locals s' c)) (mmap_ranges (pagemaps s' npm)) = map (\<lambda>l. l_global (locals s l)) (mmap_ranges (pagemaps s pm))"
    by (auto simp: list_all2_conv_all_nth intro!: nth_equalityI)
  ultimately show ?thesis by blast
qed

lemma fork_example_runs:
  "\<exists>s'. vmm_fork_pagemap 0 linux_mmap_flags 0x10 0x40 (mm_example\<lparr>heap := [0x400, 0x500, 0x600, 0x700]\<rparr>) = Some (Inr (Inr 0x400, s'))"
  by (simp add: vmm_fork_pagemap_def locked_do_def lock_pagemap_def spinlock_acquire_def spinlock_test_and_acq_def new_pagemap_def ALLOC_def
      vmm_new_pagemap_def pmm_alloc_page_def Let_def fork_range_def fork_pages_def put_pagemap_def put_local_def put_global_def
      zero_table_def res_addref_def push_range_def copy_page_def virt2pte_plain pt_path_def walk.simps next_table_def
      page_loop.simps linux_mmap_flags_def SPINLOCK_INIT_def PAGE_SIZE_64_def global_zero_def mm_example_def pml_entry_def)

theorem fork_ranges_refer_to_parent_witness:
  "\<exists>s'. vmm_fork_pagemap 0 linux_mmap_flags 0x10 0x40 (mm_example\<lparr>heap := [0x400, 0x500, 0x600, 0x700]\<rparr>) = Some (Inr (Inr 0x400, s')) \<and>
     map (\<lambda>c. l_global (locals s' c)) (mmap_ranges (pagemaps s' 0x400)) = [0x1000]"
proof -
  obtain s' where s': "vmm_fork_pagemap 0 linux_mmap_flags 0x10 0x40 (mm_example\<lparr>heap := [0x400, 0x500, 0x600, 0x700]\<rparr>) = Some (Inr (Inr 0x400, s'))"
    using fork_example_runs by blast
  have "mmap_ranges (pagemaps mm_example 0x40) = [0x300]" "l_global (locals mm_example 0x300) = 0x1000" by (simp_all add: mm_example_def)
  with fork_ranges_refer_to_parent [OF s'] s' show ?thesis by auto
qed

end
