(* ===== verification/Lyre_Vfs.thy ===== *)
theory Lyre_Vfs
  imports Lyre_Resource
begin

text \<open>
  The virtual file system (\<open>fs/vfs/vfs.c\<close>).  A node is known by its address; its children are the items of
  its hash map as an association list, oldest first, where a lookup finds the first item with the name and
  inserting a name again adds an item (\<open>Lyre_Hashmap\<close>); a node that is not a directory has no table.  The
  functions of a file system are the argument \<open>ops\<close>, by the address of the file system, and work on the whole
  state.  \<open>v_fresh\<close> lists the addresses the allocator is going to return.  Following links may not end: such a
  run is \<open>None\<close>.  \<open>desc_node\<close> is the field \<open>node\<close> of open descriptions; names and paths are strings without a
  NUL character.
\<close>

unbundle bit_operations_syntax

subsection \<open>Data\<close>

record vnode =
  mountpoint :: u64
  redir :: u64
  vn_resource :: u64
  filesystem :: u64
  vn_name :: string
  vn_parent :: u64
  vn_children :: "(string \<times> u64) list option"
  symlink_target :: "string option"
  populated :: bool

record 's vfs =
  v_files :: "'s files"
  nodes :: "u64 \<Rightarrow> vnode"
  vfs_root :: u64
  vfs_lock :: spinlock
  filesystems :: "(string \<times> u64) list"
  desc_node :: "u64 \<Rightarrow> u64"
  v_fresh :: "u64 list"

record 'v fsops =
  fs_populate :: "(u64 \<Rightarrow> 'v \<Rightarrow> 'v) option"
  fs_create :: "u64 \<Rightarrow> string \<Rightarrow> u32 \<Rightarrow> 'v \<Rightarrow> (u64 \<times> 'v) result"
  fs_symlink :: "u64 \<Rightarrow> string \<Rightarrow> string \<Rightarrow> 'v \<Rightarrow> (u64 \<times> 'v) result"
  fs_link :: "u64 \<Rightarrow> string \<Rightarrow> u64 \<Rightarrow> 'v \<Rightarrow> ((errno option + u64) \<times> 'v) result"

definition vnode_zero :: vnode where
  "vnode_zero = \<lparr>mountpoint = 0, redir = 0, vn_resource = 0, filesystem = 0, vn_name = [], vn_parent = 0, vn_children = None,
     symlink_target = None, populated = False\<rparr>"

definition put_node :: "u64 \<Rightarrow> (vnode \<Rightarrow> vnode) \<Rightarrow> ('s, 'm) vfs_scheme \<Rightarrow> ('s, 'm) vfs_scheme" where
  "put_node n f s = s\<lparr>nodes := (nodes s)(n := f (nodes s n))\<rparr>"

definition vfs_alloc :: "('s, 'm) vfs_scheme \<Rightarrow> u64 \<times> ('s, 'm) vfs_scheme" where
  "vfs_alloc s = (case v_fresh s of [] \<Rightarrow> (0, s) | a # as \<Rightarrow> (a, s\<lparr>v_fresh := as\<rparr>))"

text \<open>\<open>resource->stat.st_mode\<close> of a node, and the tests of its type.\<close>

definition node_mode :: "u64 \<Rightarrow> ('s, 'm) vfs_scheme \<Rightarrow> u32 result" where
  "node_mode n s = (if n = 0 \<or> vn_resource (nodes s n) = 0 then Inl NullDeref
     else Inr (r_mode (resources (v_files s) (vn_resource (nodes s n)))))"

definition is_type :: "abi \<Rightarrow> u32 \<Rightarrow> u32 \<Rightarrow> bool" where
  "is_type a ty mode \<longleftrightarrow> mode AND S_IFMT a = ty"

subsection \<open>Nodes\<close>

text \<open>Inserting into the table of a directory: the key array has 256 bytes, and a table without buckets divides by zero.\<close>

definition child_insert :: "u64 \<Rightarrow> string \<Rightarrow> u64 \<Rightarrow> ('s, 'm) vfs_scheme \<Rightarrow> ('s, 'm) vfs_scheme result" where
  "child_insert n name c s =
     (if n = 0 then Inl NullDeref
      else case vn_children (nodes s n) of
             None \<Rightarrow> Inl (Panic ''divide error'')
           | Some cs \<Rightarrow> if length name > 256 then Inl OutOfBounds
               else Inr (put_node n (\<lambda>v. v\<lparr>vn_children := Some (cs @ [(name, c)])\<rparr>) s))"

definition child_get :: "u64 \<Rightarrow> string \<Rightarrow> ('s, 'm) vfs_scheme \<Rightarrow> u64 option" where
  "child_get n name s = (case vn_children (nodes s n) of None \<Rightarrow> None | Some cs \<Rightarrow> map_of cs name)"

fun remove_first :: "string \<Rightarrow> (string \<times> u64) list \<Rightarrow> (string \<times> u64) list" where
  "remove_first name [] = []"
| "remove_first name (x # xs) = (if fst x = name then xs else x # remove_first name xs)"

definition child_remove :: "u64 \<Rightarrow> string \<Rightarrow> ('s, 'm) vfs_scheme \<Rightarrow> bool \<times> ('s, 'm) vfs_scheme" where
  "child_remove n name s = (case child_get n name s of None \<Rightarrow> (False, s)
     | Some _ \<Rightarrow> (True, put_node n (\<lambda>v. v\<lparr>vn_children := map_option (remove_first name) (vn_children v)\<rparr>) s))"

definition vfs_create_node :: "u64 \<Rightarrow> u64 \<Rightarrow> string \<Rightarrow> bool \<Rightarrow> ('s, 'm) vfs_scheme \<Rightarrow> (u64 \<times> ('s, 'm) vfs_scheme) result" where
  "vfs_create_node fs parent name dir s =
     (let (n, s1) = vfs_alloc s
      in if n = 0 then Inl NullDeref
         else Inr (n, put_node n (\<lambda>_. vnode_zero\<lparr>vn_name := name, vn_parent := parent, filesystem := fs,
                vn_children := (if dir then Some [] else None)\<rparr>) s1))"

definition vfs_create_dotentries :: "u64 \<Rightarrow> u64 \<Rightarrow> ('s, 'm) vfs_scheme \<Rightarrow> ('s, 'm) vfs_scheme result" where
  "vfs_create_dotentries n parent s =
     rbind (vfs_create_node (filesystem (nodes s n)) n ''.'' False s) (\<lambda>(dot, s1).
     rbind (vfs_create_node (filesystem (nodes s1 n)) n ''..'' False s1) (\<lambda>(dotdot, s2).
       let s3 = put_node dotdot (\<lambda>v. v\<lparr>redir := parent\<rparr>) (put_node dot (\<lambda>v. v\<lparr>redir := n\<rparr>) s2)
       in rbind (child_insert n ''.'' dot s3) (\<lambda>s4. child_insert n ''..'' dotdot s4)))"

definition vfs_add_filesystem :: "u64 \<Rightarrow> string \<Rightarrow> ('s, 'm) vfs_scheme \<Rightarrow> ('s, 'm) vfs_scheme result" where
  "vfs_add_filesystem fs_mount identifier s =
     rbind (spinlock_acquire ''vfs_add_filesystem'' (vfs_lock s)) (\<lambda>l.
       if length identifier > 256 then Inl OutOfBounds
       else Inr (s\<lparr>filesystems := filesystems s @ [(identifier, fs_mount)], vfs_lock := spinlock_release l\<rparr>))"

definition vfs_init :: "('s, 'm) vfs_scheme \<Rightarrow> ('s, 'm) vfs_scheme result" where
  "vfs_init s = rbind (vfs_create_node 0 0 [] False s) (\<lambda>(n, s1). Inr (s1\<lparr>vfs_root := n, filesystems := []\<rparr>))"

subsection \<open>Looking up paths\<close>

definition populate :: "abi \<Rightarrow> (u64 \<Rightarrow> ('s, 'm) vfs_scheme fsops) \<Rightarrow> u64 \<Rightarrow> ('s, 'm) vfs_scheme \<Rightarrow> bool \<times> ('s, 'm) vfs_scheme" where
  "populate a ops n s =
     (let v = nodes s n
      in case fs_populate (ops (filesystem v)) of
           None \<Rightarrow> (True, s)
         | Some f \<Rightarrow>
             if filesystem v \<noteq> 0 \<and> \<not> populated v \<and> vn_resource v \<noteq> 0 \<and>
                is_type a (S_IFDIR a) (r_mode (resources (v_files s) (vn_resource v)))
             then let s' = f n s in (populated (nodes s' n), s') else (True, s))"

text \<open>\<open>reduce_node\<close> without following links.\<close>

partial_function (option) reduce_plain :: "u64 \<Rightarrow> ('s, 'm) vfs_scheme \<Rightarrow> u64 result option" where
  [code]: "reduce_plain n s =
     (if n = 0 then Some (Inl NullDeref)
      else if redir (nodes s n) \<noteq> 0 then reduce_plain (redir (nodes s n)) s
      else if mountpoint (nodes s n) \<noteq> 0 then reduce_plain (mountpoint (nodes s n)) s
      else Some (Inr n))"

text \<open>The result of \<open>path2node\<close>, the error number it has set, and the new state.\<close>

record path2node_res =
  target_parent :: u64
  target :: u64
  basename :: "string option"

abbreviation no_node :: path2node_res where
  "no_node \<equiv> \<lparr>target_parent = 0, target = 0, basename = None\<rparr>"

type_synonym 'v lookup = "(path2node_res \<times> errno option \<times> 'v) result option"


text \<open>The part of \<open>path2node\<close> before its loop: done, or a node, whether a directory is asked for, and the rest of the path.\<close>

datatype 'v path_begin = Path_done path2node_res "errno option" 'v | Path_walk u64 bool string 'v

definition path_start ::
  "abi \<Rightarrow> (u64 \<Rightarrow> ('s, 'm) vfs_scheme fsops) \<Rightarrow> u64 \<Rightarrow> string option \<Rightarrow> ('s, 'm) vfs_scheme \<Rightarrow> ('s, 'm) vfs_scheme path_begin result option" where
  "path_start a ops parent path0 s =
     (case path0 of
        None \<Rightarrow> Some (Inr (Path_done no_node (Some ENOENT) s))
      | Some path \<Rightarrow>
          if path = [] then Some (Inr (Path_done no_node (Some ENOENT) s))
          else obind (reduce_plain parent s) (\<lambda>cur.
            case populate a ops cur s of
              (False, s1) \<Rightarrow> Some (Inr (Path_done no_node None s1))
            | (True, s1) \<Rightarrow>
                let ask_for_dir = (last path = CHR ''/'')
                in if hd path = CHR ''/''
                   then obind (reduce_plain (vfs_root s1) s1) (\<lambda>root.
                     let rest = dropWhile (\<lambda>c. c = CHR ''/'') path
                     in if rest = [] then Some (Inr (Path_done \<lparr>target_parent = root, target = root, basename = Some ''/''\<rparr> None s1))
                        else Some (Inr (Path_walk root ask_for_dir rest s1)))
                   else Some (Inr (Path_walk cur ask_for_dir path s1))))"

text \<open>
  One turn of the loop at \<open>cur0\<close>: finished, on to a directory with the rest of the path, or a symbolic link to be looked
  up first.
\<close>

datatype 'v path_turn = Turn_done path2node_res "errno option" 'v | Turn_dir u64 string 'v | Turn_link "'v path_begin" string

definition enter_node :: "abi \<Rightarrow> u64 \<Rightarrow> string \<Rightarrow> ('s, 'm) vfs_scheme \<Rightarrow> ('s, 'm) vfs_scheme path_turn result" where
  "enter_node a n rest s = rbind (node_mode n s) (\<lambda>mode.
     Inr (if is_type a (S_IFDIR a) mode then Turn_dir n rest s else Turn_done no_node (Some ENOTDIR) s))"

definition found_node ::
  "abi \<Rightarrow> (u64 \<Rightarrow> ('s, 'm) vfs_scheme fsops) \<Rightarrow> u64 \<Rightarrow> u64 \<Rightarrow> bool \<Rightarrow> string \<Rightarrow> string \<Rightarrow> ('s, 'm) vfs_scheme \<Rightarrow> ('s, 'm) vfs_scheme path_turn result option" where
  "found_node a ops cur new_node ask_for_dir elem_str rest s =
     (let found = Turn_done \<lparr>target_parent = cur, target = new_node, basename = Some elem_str\<rparr> None s
      in if rest = [] \<and> \<not> ask_for_dir then Some (Inr found)
         else obind (Some (node_mode new_node s)) (\<lambda>mode.
           if rest = [] then Some (Inr (if is_type a (S_IFDIR a) mode then found
             else Turn_done \<lparr>target_parent = cur, target = 0, basename = Some elem_str\<rparr> (Some ENOTDIR) s))
           else if is_type a (S_IFLNK a) mode
           then obind (path_start a ops (vn_parent (nodes s new_node)) (symlink_target (nodes s new_node)) s) (\<lambda>pb. Some (Inr (Turn_link pb rest)))
           else Some (enter_node a new_node rest s)))"

definition path_turn ::
  "abi \<Rightarrow> (u64 \<Rightarrow> ('s, 'm) vfs_scheme fsops) \<Rightarrow> u64 \<Rightarrow> bool \<Rightarrow> string \<Rightarrow> ('s, 'm) vfs_scheme \<Rightarrow> ('s, 'm) vfs_scheme path_turn result option" where
  "path_turn a ops cur0 ask_for_dir path s =
     (let elem_str = takeWhile (\<lambda>c. c \<noteq> CHR ''/'') path;
          rest = dropWhile (\<lambda>c. c = CHR ''/'') (dropWhile (\<lambda>c. c \<noteq> CHR ''/'') path)
      in obind (reduce_plain cur0 s) (\<lambda>cur.
         case child_get cur elem_str s of
           None \<Rightarrow> Some (Inr (Turn_done (if rest = [] then \<lparr>target_parent = cur, target = 0, basename = Some elem_str\<rparr> else no_node) (Some ENOENT) s))
         | Some child \<Rightarrow>
             obind (reduce_plain child s) (\<lambda>new_node.
               case populate a ops new_node s of
                 (False, s1) \<Rightarrow> Some (Inr (Turn_done no_node None s1))
               | (True, s1) \<Rightarrow> found_node a ops cur new_node ask_for_dir elem_str rest s1)))"

text \<open>What follows the lookup of a link's target in the middle of a path; never another \<open>Turn_link\<close>.\<close>

definition after_link :: "abi \<Rightarrow> path2node_res \<Rightarrow> errno option \<Rightarrow> string \<Rightarrow> ('s, 'm) vfs_scheme \<Rightarrow> ('s, 'm) vfs_scheme path_turn result" where
  "after_link a r e rest s = (if target r = 0 then Inr (Turn_done no_node e s) else enter_node a (target r) rest s)"

partial_function (option) path_loop ::
  "abi \<Rightarrow> (u64 \<Rightarrow> ('s, 'm) vfs_scheme fsops) \<Rightarrow> u64 \<Rightarrow> bool \<Rightarrow> string \<Rightarrow> ('s, 'm) vfs_scheme \<Rightarrow> ('s, 'm) vfs_scheme lookup" where
  [code]: "path_loop a ops cur0 ask_for_dir path s =
     Option.bind (path_turn a ops cur0 ask_for_dir path s) (\<lambda>turn.
       case turn of
         Inl f \<Rightarrow> Some (Inl f)
       | Inr t \<Rightarrow>
           Option.bind
             (case t of
                Turn_done r e s1 \<Rightarrow> Some (Inr (Turn_done r e s1))
              | Turn_dir n rest s1 \<Rightarrow> Some (Inr (Turn_dir n rest s1))
              | Turn_link pb rest \<Rightarrow>
                  Option.bind (case pb of Path_done r e s1 \<Rightarrow> Some (Inr (r, e, s1)) | Path_walk c q p s1 \<Rightarrow> path_loop a ops c q p s1) (\<lambda>link.
                    case link of Inl f \<Rightarrow> Some (Inl f) | Inr res \<Rightarrow> Some (after_link a (fst res) (fst (snd res)) rest (snd (snd res)))))
             (\<lambda>next.
                case next of
                  Inl f \<Rightarrow> Some (Inl f)
                | Inr t' \<Rightarrow>
                    (case t' of
                       Turn_done r e s1 \<Rightarrow> Some (Inr (r, e, s1))
                     | Turn_dir n rest s1 \<Rightarrow> path_loop a ops n ask_for_dir rest s1
                     | Turn_link pb rest \<Rightarrow> Some (Inr (no_node, None, s)))))"

definition path2node ::
  "abi \<Rightarrow> (u64 \<Rightarrow> ('s, 'm) vfs_scheme fsops) \<Rightarrow> u64 \<Rightarrow> string option \<Rightarrow> ('s, 'm) vfs_scheme \<Rightarrow> ('s, 'm) vfs_scheme lookup" where
  "path2node a ops parent path s = obind (path_start a ops parent path s) (\<lambda>pb.
     case pb of Path_done r e s1 \<Rightarrow> Some (Inr (r, e, s1)) | Path_walk c q p s1 \<Rightarrow> path_loop a ops c q p s1)"

text \<open>\<open>reduce_node\<close> that follows links; zero for \<open>NULL\<close>.\<close>

partial_function (option) reduce_follow ::
  "abi \<Rightarrow> (u64 \<Rightarrow> ('s, 'm) vfs_scheme fsops) \<Rightarrow> u64 \<Rightarrow> ('s, 'm) vfs_scheme \<Rightarrow> (u64 \<times> errno option \<times> ('s, 'm) vfs_scheme) result option" where
  [code]: "reduce_follow a ops n s =
     (if n = 0 then Some (Inl NullDeref)
      else if redir (nodes s n) \<noteq> 0 then reduce_follow a ops (redir (nodes s n)) s
      else if mountpoint (nodes s n) \<noteq> 0 then reduce_follow a ops (mountpoint (nodes s n)) s
      else if symlink_target (nodes s n) \<noteq> None
      then Option.bind (path2node a ops (vn_parent (nodes s n)) (symlink_target (nodes s n)) s) (\<lambda>rr.
        case rr of Inl e \<Rightarrow> Some (Inl e) | Inr (r, e, s1) \<Rightarrow>
        if target r = 0 then Some (Inr (0, e, s1)) else reduce_follow a ops (target r) s1)
      else Some (Inr (n, None, s)))"

subsection \<open>Operations\<close>

type_synonym ('v, 'a) vcall = "((errno option + 'a) \<times> 'v) result option"

definition lock_vfs :: "string \<Rightarrow> ('s, 'm) vfs_scheme \<Rightarrow> (('s, 'm) vfs_scheme \<Rightarrow> 'b result option) \<Rightarrow> 'b result option" where
  "lock_vfs caller s f = obind (Some (spinlock_acquire caller (vfs_lock s))) (\<lambda>l. f (s\<lparr>vfs_lock := l\<rparr>))"

definition unlock_vfs :: "('s, 'm) vfs_scheme \<Rightarrow> ('s, 'm) vfs_scheme" where
  "unlock_vfs s = s\<lparr>vfs_lock := spinlock_release (vfs_lock s)\<rparr>"

text \<open>Leaving a function through its cleanup.\<close>

definition leave :: "errno option + 'a \<Rightarrow> ('s, 'm) vfs_scheme \<Rightarrow> (('s, 'm) vfs_scheme, 'a) vcall" where
  "leave r s = Some (Inr (r, unlock_vfs s))"

definition vfs_get_node ::
  "abi \<Rightarrow> (u64 \<Rightarrow> ('s, 'm) vfs_scheme fsops) \<Rightarrow> u64 \<Rightarrow> string option \<Rightarrow> bool \<Rightarrow> ('s, 'm) vfs_scheme \<Rightarrow> (('s, 'm) vfs_scheme, u64) vcall" where
  "vfs_get_node a ops parent path follow_links s =
     lock_vfs ''vfs_get_node'' s (\<lambda>s0. obind (path2node a ops parent path s0) (\<lambda>(r, e, s1).
       if target r = 0 then leave (Inl e) s1
       else if follow_links
       then obind (reduce_follow a ops (target r) s1) (\<lambda>(n, e', s2). leave (if n = 0 then Inl e' else Inr n) s2)
       else leave (Inr (target r)) s1))"

text \<open>\<open>mounts\<close> gives the mount function for the address in \<open>filesystems\<close>; it returns zero for a failure.\<close>

definition mount_source ::
  "abi \<Rightarrow> (u64 \<Rightarrow> ('s, 'm) vfs_scheme fsops) \<Rightarrow> u64 \<Rightarrow> string option \<Rightarrow> ('s, 'm) vfs_scheme \<Rightarrow> (('s, 'm) vfs_scheme, u64) vcall" where
  "mount_source a ops parent source s =
     (if source = None \<or> source = Some [] then Some (Inr (Inr 0, s))
      else obind (path2node a ops parent source s) (\<lambda>(r, e, s1).
        if target r = 0 then Some (Inr (Inl e, s1))
        else obind (Some (node_mode (target r) s1)) (\<lambda>mode.
          Some (Inr (if is_type a (S_IFDIR a) mode then Inl (Some EISDIR) else Inr (target r), s1)))))"

definition mount_at ::
  "(u64 \<Rightarrow> string \<Rightarrow> u64 \<Rightarrow> ('s, 'm) vfs_scheme \<Rightarrow> (u64 \<times> ('s, 'm) vfs_scheme) result) \<Rightarrow> path2node_res \<Rightarrow> u64 \<Rightarrow> ('s, 'm) vfs_scheme \<Rightarrow>
   (('s, 'm) vfs_scheme, unit) vcall" where
  "mount_at fs_mount r source_node s =
     obind (Some (fs_mount (target_parent r) (case basename r of None \<Rightarrow> [] | Some b \<Rightarrow> b) source_node s)) (\<lambda>(mount_node, s1).
       if mount_node = 0 then leave (Inl None) s1
       else let s2 = put_node (target r) (\<lambda>v. v\<lparr>mountpoint := mount_node\<rparr>) s1
            in obind (Some (vfs_create_dotentries mount_node (target_parent r) s2)) (\<lambda>s3. leave (Inr ()) s3))"

definition vfs_mount ::
  "abi \<Rightarrow> (u64 \<Rightarrow> ('s, 'm) vfs_scheme fsops) \<Rightarrow> (u64 \<Rightarrow> u64 \<Rightarrow> string \<Rightarrow> u64 \<Rightarrow> ('s, 'm) vfs_scheme \<Rightarrow> (u64 \<times> ('s, 'm) vfs_scheme) result) \<Rightarrow>
   u64 \<Rightarrow> string option \<Rightarrow> string \<Rightarrow> string \<Rightarrow> ('s, 'm) vfs_scheme \<Rightarrow> (('s, 'm) vfs_scheme, unit) vcall" where
  "vfs_mount a ops mounts parent source path fs_name s =
     lock_vfs ''vfs_mount'' s (\<lambda>s0.
       case map_of (filesystems s0) fs_name of
         None \<Rightarrow> leave (Inl (Some ENODEV)) s0
       | Some fs_mount \<Rightarrow>
           obind (mount_source a ops parent source s0) (\<lambda>(rs, s1).
             case rs of
               Inl e \<Rightarrow> leave (Inl e) s1
             | Inr source_node \<Rightarrow>
                 obind (path2node a ops parent (Some path) s1) (\<lambda>(r, e, s2).
                   if target r = 0 then leave (Inl e) s2
                   else if target r = vfs_root s2 then mount_at (mounts fs_mount) r source_node s2
                   else obind (Some (node_mode (target r) s2)) (\<lambda>mode.
                     if \<not> is_type a (S_IFDIR a) mode then leave (Inl (Some EISDIR)) s2
                     else mount_at (mounts fs_mount) r source_node s2))))"

text \<open>The common part of the functions that add a node: the directory and the new node \<open>mk\<close> makes in it.\<close>

definition new_entry ::
  "abi \<Rightarrow> (u64 \<Rightarrow> ('s, 'm) vfs_scheme fsops) \<Rightarrow> u64 \<Rightarrow> string option \<Rightarrow>
   (u64 \<Rightarrow> string \<Rightarrow> ('s, 'm) vfs_scheme fsops \<Rightarrow> ('s, 'm) vfs_scheme \<Rightarrow> (u64 \<times> ('s, 'm) vfs_scheme) result) \<Rightarrow>
   ('s, 'm) vfs_scheme \<Rightarrow> (('s, 'm) vfs_scheme, u64 \<times> u64) vcall" where
  "new_entry a ops parent path mk s =
     obind (path2node a ops parent path s) (\<lambda>(r, e, s1).
       if target_parent r = 0 then leave (Inl e) s1
       else if target r \<noteq> 0 then leave (Inl (Some EEXIST)) s1
       else let d = target_parent r; name = (case basename r of None \<Rightarrow> [] | Some b \<Rightarrow> b)
            in if filesystem (nodes s1 d) = 0 then Some (Inl NullDeref)
               else obind (Some (mk d name (ops (filesystem (nodes s1 d))) s1)) (\<lambda>(n, s2).
                    obind (Some (child_insert d name n s2)) (\<lambda>s3. Some (Inr (Inr (d, n), s3)))))"

definition vfs_symlink ::
  "abi \<Rightarrow> (u64 \<Rightarrow> ('s, 'm) vfs_scheme fsops) \<Rightarrow> u64 \<Rightarrow> string \<Rightarrow> string option \<Rightarrow> ('s, 'm) vfs_scheme \<Rightarrow> (('s, 'm) vfs_scheme, u64) vcall" where
  "vfs_symlink a ops parent dest path s =
     lock_vfs ''vfs_symlink'' s (\<lambda>s0.
       obind (new_entry a ops parent path (\<lambda>d name fs s. fs_symlink fs d name dest s) s0) (\<lambda>(r, s1).
         case r of Inl e \<Rightarrow> Some (Inr (Inl e, s1)) | Inr (_, n) \<Rightarrow> leave (if n = 0 then Inl None else Inr n) s1))"

definition vfs_create ::
  "abi \<Rightarrow> (u64 \<Rightarrow> ('s, 'm) vfs_scheme fsops) \<Rightarrow> u64 \<Rightarrow> string option \<Rightarrow> u32 \<Rightarrow> ('s, 'm) vfs_scheme \<Rightarrow> (('s, 'm) vfs_scheme, u64) vcall" where
  "vfs_create a ops parent path mode s =
     lock_vfs ''vfs_create'' s (\<lambda>s0.
       obind (new_entry a ops parent path (\<lambda>d name fs s. fs_create fs d name mode s) s0) (\<lambda>(r, s1).
         case r of
           Inl e \<Rightarrow> Some (Inr (Inl e, s1))
         | Inr (d, n) \<Rightarrow>
             obind (Some (node_mode n s1)) (\<lambda>st_mode.
               if is_type a (S_IFDIR a) st_mode
               then obind (Some (vfs_create_dotentries n d s1)) (\<lambda>s2. leave (Inr n) s2)
               else leave (Inr n) s1)))"

text \<open>The names are freed as well; \<open>unref\<close> of every driver reports success.\<close>

definition vfs_unlink ::
  "abi \<Rightarrow> (u64 \<Rightarrow> ('s, 'm) vfs_scheme fsops) \<Rightarrow> u64 \<Rightarrow> string option \<Rightarrow> ('s, 'm) vfs_scheme \<Rightarrow> (('s, 'm) vfs_scheme, unit) vcall" where
  "vfs_unlink a ops parent path s =
     lock_vfs ''vfs_unlink'' s (\<lambda>s0. obind (path2node a ops parent path s0) (\<lambda>(r, e, s1).
       if target_parent r = 0 \<or> target r = 0 then leave (Inl e) s1
       else if mountpoint (nodes s1 (target r)) \<noteq> 0 then leave (Inl (Some EBUSY)) s1
       else case child_remove (target_parent r) (case basename r of None \<Rightarrow> [] | Some b \<Rightarrow> b) s1 of
              (False, s2) \<Rightarrow> leave (Inl None) s2
            | (True, s2) \<Rightarrow>
                let res = vn_resource (nodes s2 (target r))
                in if res = 0 then Some (Inl NullDeref)
                   else leave (Inr ()) (s2\<lparr>v_files := on_resource res (res_unref 0) (v_files s2)\<rparr>)))"

text \<open>The length of a path name and the characters written; a length beyond the buffer wraps the next one around.\<close>

partial_function (option) vfs_pathname :: "u64 \<Rightarrow> nat \<Rightarrow> ('s, 'm) vfs_scheme \<Rightarrow> (nat \<times> string) result option" where
  [code]: "vfs_pathname n len s =
     Option.bind
       (if vn_parent (nodes s n) = vfs_root s \<or> vn_parent (nodes s n) = 0 then Some (Inr [])
        else Option.bind (reduce_plain (vn_parent (nodes s n)) s) (\<lambda>rp.
          case rp of Inl f \<Rightarrow> Some (Inl f) | Inr parent \<Rightarrow>
          if parent = vfs_root s then Some (Inr [])
          else Option.bind (vfs_pathname parent (len - 1) s) (\<lambda>rq.
            case rq of Inl f \<Rightarrow> Some (Inl f) | Inr q \<Rightarrow>
            if fst q \<ge> len then Some (Inl OutOfBounds) else Some (Inr (snd q @ ''/''))))) (\<lambda>rb.
       case rb of Inl f \<Rightarrow> Some (Inl f) | Inr buffer \<Rightarrow>
       if vn_name (nodes s n) \<noteq> ''/''
       then Some (Inr (length buffer + length (vn_name (nodes s n)), buffer @ take (len - length buffer) (vn_name (nodes s n))))
       else Some (Inr (length buffer, buffer)))"


subsection \<open>System calls\<close>

text \<open>\<open>proc\<close> is the calling process and \<open>cwd\<close> its working directory.  The directory for relative paths, zero on failure.\<close>

definition get_parent_dir ::
  "abi \<Rightarrow> u64 \<Rightarrow> u64 \<Rightarrow> int \<Rightarrow> string option \<Rightarrow> ('s, 'm) vfs_scheme \<Rightarrow> ((errno option + u64) \<times> ('s, 'm) vfs_scheme) result" where
  "get_parent_dir a proc cwd dir_fdnum path s =
     (if (case path of Some (c # _) \<Rightarrow> c = CHR ''/'' | _ \<Rightarrow> False) then Inr (Inr (vfs_root s), s)
      else if dir_fdnum = AT_FDCWD a then Inr (Inr cwd, s)
      else rbind (fd_from_fdnum proc dir_fdnum (v_files s)) (\<lambda>(r, fs).
        let s1 = s\<lparr>v_files := fs\<rparr>
        in case r of
             Inl e \<Rightarrow> Inr (Inl e, s1)
           | Inr fd \<Rightarrow>
               let d = fd_description (descriptors fs fd)
               in if \<not> is_type a (S_IFDIR a) (r_mode (resources fs (d_res (descriptions fs d)))) then Inr (Inl (Some ENOTDIR), s1)
                  else Inr (Inr (desc_node s d), s1)))"

definition dir_or_null :: "errno option + u64 \<Rightarrow> u64" where
  "dir_or_null r = (case r of Inl _ \<Rightarrow> 0 | Inr d \<Rightarrow> d)"

text \<open>
  \<open>vfs_fdnum_path_to_node\<close>: it tests its argument \<open>parent\<close>, never \<open>NULL\<close>, instead of the directory.  A failure of
  \<open>populate\<close> leaves another error number than \<open>ENOENT\<close>.
\<close>

definition vfs_fdnum_path_to_node ::
  "abi \<Rightarrow> (u64 \<Rightarrow> ('s, 'm) vfs_scheme fsops) \<Rightarrow> u64 \<Rightarrow> u64 \<Rightarrow> int \<Rightarrow> string option \<Rightarrow> bool \<Rightarrow> bool \<Rightarrow> ('s, 'm) vfs_scheme \<Rightarrow>
   (('s, 'm) vfs_scheme, path2node_res) vcall" where
  "vfs_fdnum_path_to_node a ops proc cwd dir_fdnum path empty_path enoent_error s =
     (if \<not> empty_path \<and> (path = None \<or> path = Some []) then Some (Inr (Inl (Some ENOENT), s))
      else obind (Some (get_parent_dir a proc cwd dir_fdnum path s)) (\<lambda>(rd, s1).
        obind (path2node a ops (dir_or_null rd) path s1) (\<lambda>(r, e, s2).
          if target r = 0 \<and> e = Some ENOENT \<and> enoent_error then Some (Inr (Inl e, s2)) else Some (Inr (Inr r, s2)))))"

text \<open>Sequencing of calls that may fail: the error ends the function.\<close>

definition vbind :: "('v, 'a) vcall \<Rightarrow> ('a \<Rightarrow> 'v \<Rightarrow> ('v, 'b) vcall) \<Rightarrow> ('v, 'b) vcall" where
  "vbind m f = obind m (\<lambda>(r, s). case r of Inl e \<Rightarrow> Some (Inr (Inl e, s)) | Inr x \<Rightarrow> f x s)"

definition open_node ::
  "abi \<Rightarrow> (u64 \<Rightarrow> ('s, 'm) vfs_scheme fsops) \<Rightarrow> path2node_res \<Rightarrow> u32 \<Rightarrow> u32 \<Rightarrow> u32 \<Rightarrow> ('s, 'm) vfs_scheme \<Rightarrow> (('s, 'm) vfs_scheme, u64) vcall" where
  "open_node a ops r flags mode cmask s =
     obind (vfs_get_node a ops (target_parent r) (basename r) (flags AND O_NOFOLLOW a = 0) s) (\<lambda>(rn, s1).
       case rn of
         Inr n \<Rightarrow> Some (Inr (Inr n, s1))
       | Inl _ \<Rightarrow>
           if (flags AND FILE_CREATION_FLAGS a) AND O_CREAT a \<noteq> 0
           then vfs_create a ops (target_parent r) (basename r) ((mode AND NOT cmask) OR S_IFREG a) s1
           else Some (Inr (Inl (Some ENOENT), s1)))"

definition open_descriptor :: "abi \<Rightarrow> u64 \<Rightarrow> u64 \<Rightarrow> u32 \<Rightarrow> u32 \<Rightarrow> ('s, 'm) vfs_scheme \<Rightarrow> (('s, 'm) vfs_scheme, int) vcall" where
  "open_descriptor a proc n flags mode s =
     (let (dp, s1) = vfs_alloc s;
          (fp, s2) = (if dp = 0 then (0, s1) else vfs_alloc s1);
          res = vn_resource (nodes s n);
          (fd, fs) = fd_create_from_resource a dp fp res flags (v_files s2)
      in if fd = 0 then Some (Inr (Inl None, s2\<lparr>v_files := fs\<rparr>))
         else let rs = resources fs res;
                  fs1 = (if flags AND O_TRUNC a \<noteq> 0 \<and> is_type a (S_IFREG a) mode
                         then on_resource res (with_state (snd (op_truncate (r_ops rs) (d_flags (descriptions fs dp)) 0 (r_state rs)))) fs else fs)
              in obind (Some (fdnum_create_from_fd proc fd 0 False fs1)) (\<lambda>(r, fs2).
                   Some (Inr (r, s2\<lparr>v_files := fs2, desc_node := (desc_node s2)(dp := n)\<rparr>))))"

definition syscall_openat ::
  "abi \<Rightarrow> (u64 \<Rightarrow> ('s, 'm) vfs_scheme fsops) \<Rightarrow> u64 \<Rightarrow> u64 \<Rightarrow> u32 \<Rightarrow> int \<Rightarrow> string option \<Rightarrow> u32 \<Rightarrow> u32 \<Rightarrow> ('s, 'm) vfs_scheme \<Rightarrow> (('s, 'm) vfs_scheme, int) vcall" where
  "syscall_openat a ops proc cwd cmask dir_fdnum path flags mode s =
     vbind (vfs_fdnum_path_to_node a ops proc cwd dir_fdnum path False False s) (\<lambda>r s1.
       if target_parent r = 0 then Some (Inr (Inl (Some ENOENT), s1))
       else vbind (open_node a ops r flags mode cmask s1) (\<lambda>n s2.
         obind (Some (node_mode n s2)) (\<lambda>m.
           if is_type a (S_IFLNK a) m then Some (Inr (Inl (Some ELOOP), s2))
           else obind (reduce_follow a ops n s2) (\<lambda>(n', e, s3).
             if n' = 0 then Some (Inr (Inl e, s3))
             else obind (Some (node_mode n' s3)) (\<lambda>m'.
               if \<not> is_type a (S_IFDIR a) m' \<and> flags AND O_DIRECTORY a \<noteq> 0 then Some (Inr (Inl (Some ENOTDIR), s3))
               else open_descriptor a proc n' flags m' s3)))))"

text \<open>The resource whose \<open>stat\<close> is copied; a missing one is read through a null pointer.\<close>

definition stat_of :: "u64 \<Rightarrow> ('s, 'm) vfs_scheme \<Rightarrow> (('s, 'm) vfs_scheme, u64) vcall" where
  "stat_of n s = (if n = 0 \<or> vn_resource (nodes s n) = 0 then Some (Inl NullDeref) else Some (Inr (Inr (vn_resource (nodes s n)), s)))"

definition syscall_stat ::
  "abi \<Rightarrow> (u64 \<Rightarrow> ('s, 'm) vfs_scheme fsops) \<Rightarrow> u64 \<Rightarrow> u64 \<Rightarrow> int \<Rightarrow> string \<Rightarrow> u32 \<Rightarrow> bool \<Rightarrow> ('s, 'm) vfs_scheme \<Rightarrow> (('s, 'm) vfs_scheme, u64) vcall" where
  "syscall_stat a ops proc cwd dir_fdnum path flags has_buf s =
     (if \<not> has_buf then Some (Inr (Inl (Some EINVAL), s))
      else if path = [] then
        (if flags AND AT_EMPTY_PATH a = 0 then Some (Inr (Inl (Some ENOENT), s))
         else if dir_fdnum = AT_FDCWD a then stat_of cwd s
         else obind (Some (fd_from_fdnum proc dir_fdnum (v_files s))) (\<lambda>(r, fs).
           Some (Inr (case r of Inl e \<Rightarrow> Inl e | Inr fd \<Rightarrow> Inr (d_res (descriptions fs (fd_description (descriptors fs fd)))), s\<lparr>v_files := fs\<rparr>))))
      else obind (Some (get_parent_dir a proc cwd dir_fdnum (Some path) s)) (\<lambda>(rd, s1).
        case rd of
          Inl e \<Rightarrow> Some (Inr (Inl e, s1))
        | Inr parent \<Rightarrow>
            if parent = 0 then Some (Inr (Inl None, s1))
            else vbind (vfs_get_node a ops parent (Some path) (flags AND AT_SYMLINK_NOFOLLOW a = 0) s1) stat_of))"

definition syscall_getcwd :: "u64 \<Rightarrow> nat \<Rightarrow> ('s, 'm) vfs_scheme \<Rightarrow> (('s, 'm) vfs_scheme, string) vcall" where
  "syscall_getcwd cwd len s = obind (vfs_pathname cwd 4096 s) (\<lambda>(n, path).
     Some (Inr (if n \<ge> len then Inl (Some ERANGE) else Inr path, s)))"

text \<open>The new working directory.\<close>

definition syscall_chdir ::
  "abi \<Rightarrow> (u64 \<Rightarrow> ('s, 'm) vfs_scheme fsops) \<Rightarrow> u64 \<Rightarrow> string option \<Rightarrow> ('s, 'm) vfs_scheme \<Rightarrow> (('s, 'm) vfs_scheme, u64) vcall" where
  "syscall_chdir a ops cwd path s =
     (if path = None then Some (Inr (Inl (Some EINVAL), s))
      else if path = Some [] then Some (Inr (Inl (Some ENOENT), s))
      else obind (vfs_get_node a ops cwd path True s) (\<lambda>(r, s1).
        case r of
          Inl _ \<Rightarrow> Some (Inr (Inl (Some ENOENT), s1))
        | Inr n \<Rightarrow> obind (Some (node_mode n s1)) (\<lambda>mode.
            Some (Inr (if is_type a (S_IFDIR a) mode then Inr n else Inl (Some ENOTDIR), s1)))))"

datatype dirent_type = DT_BLK | DT_CHR | DT_FIFO | DT_REG | DT_DIR | DT_LNK | DT_SOCK

record dirent =
  d_ino_of :: u64
  d_reclen :: nat
  d_type :: "dirent_type option"
  d_name :: string

definition dirent_type_of :: "abi \<Rightarrow> u32 \<Rightarrow> dirent_type option" where
  "dirent_type_of a mode =
     (if is_type a (S_IFBLK a) mode then Some DT_BLK else if is_type a (S_IFCHR a) mode then Some DT_CHR
      else if is_type a (S_IFIFO a) mode then Some DT_FIFO else if is_type a (S_IFREG a) mode then Some DT_REG
      else if is_type a (S_IFDIR a) mode then Some DT_DIR else if is_type a (S_IFLNK a) mode then Some DT_LNK
      else if is_type a (S_IFSOCK a) mode then Some DT_SOCK else None)"

text \<open>
  \<open>hdr\<close> is the size of \<open>struct dirent\<close> without its name; \<open>d_type\<close> is \<open>None\<close> where the field is not written.  The entries
  come in the order of the association list.
\<close>

fun list_entries :: "abi \<Rightarrow> nat \<Rightarrow> (string \<times> u64) list \<Rightarrow> ('s, 'm) vfs_scheme \<Rightarrow> dirent list result option" where
  "list_entries a hdr [] s = Some (Inr [])"
| "list_entries a hdr (x # xs) s =
     obind (reduce_plain (snd x) s) (\<lambda>n. obind (Some (node_mode n s)) (\<lambda>mode.
       obind (list_entries a hdr xs s) (\<lambda>es.
         let name = vn_name (nodes s (snd x))
         in Some (Inr (\<lparr>d_ino_of = vn_resource (nodes s n), d_reclen = hdr + length name + 1, d_type = dirent_type_of a mode, d_name = name\<rparr> # es)))))"

definition dir_size :: "nat \<Rightarrow> (string \<times> u64) list \<Rightarrow> ('s, 'm) vfs_scheme \<Rightarrow> nat" where
  "dir_size hdr cs s = sum_list (map (\<lambda>x. hdr + length (vn_name (nodes s (snd x))) + 1) cs) + hdr"

datatype readdir_out = Too_small nat | Entries "dirent list"

definition syscall_readdir ::
  "abi \<Rightarrow> nat \<Rightarrow> u64 \<Rightarrow> int \<Rightarrow> nat \<Rightarrow> ('s, 'm) vfs_scheme \<Rightarrow> (('s, 'm) vfs_scheme, readdir_out) vcall" where
  "syscall_readdir a hdr proc dir_fdnum bufsize s =
     lock_vfs ''syscall_readdir'' s (\<lambda>s0. obind (Some (fd_from_fdnum proc dir_fdnum (v_files s0))) (\<lambda>(r, fs).
       let s1 = s0\<lparr>v_files := fs\<rparr>
       in case r of
            Inl _ \<Rightarrow> leave (Inl (Some EBADF)) s1
          | Inr fd \<Rightarrow>
              let d = fd_description (descriptors fs fd)
              in if \<not> is_type a (S_IFDIR a) (r_mode (resources fs (d_res (descriptions fs d)))) then leave (Inl (Some ENOTDIR)) s1
                 else let cs = (case vn_children (nodes s1 (desc_node s1 d)) of None \<Rightarrow> [] | Some cs \<Rightarrow> cs)
                      in if dir_size hdr cs s1 > bufsize then leave (Inr (Too_small (dir_size hdr cs s1))) s1
                         else obind (list_entries a hdr cs s1) (\<lambda>es. leave (Inr (Entries es)) s1)))"

text \<open>The bytes copied, with the NUL when there is room for it.\<close>

definition syscall_readlinkat ::
  "abi \<Rightarrow> (u64 \<Rightarrow> ('s, 'm) vfs_scheme fsops) \<Rightarrow> u64 \<Rightarrow> u64 \<Rightarrow> int \<Rightarrow> string option \<Rightarrow> nat \<Rightarrow> ('s, 'm) vfs_scheme \<Rightarrow> (('s, 'm) vfs_scheme, string) vcall" where
  "syscall_readlinkat a ops proc cwd dir_fdnum path limit s =
     vbind (vfs_fdnum_path_to_node a ops proc cwd dir_fdnum path False False s) (\<lambda>r s1.
       if target_parent r = 0 then Some (Inr (Inl (Some ENOENT), s1))
       else vbind (vfs_get_node a ops (target_parent r) (basename r) False s1) (\<lambda>n s2.
         obind (Some (node_mode n s2)) (\<lambda>mode.
           if \<not> is_type a (S_IFLNK a) mode then Some (Inr (Inl (Some EINVAL), s2))
           else case symlink_target (nodes s2 n) of
                  None \<Rightarrow> Some (Inl NullDeref)
                | Some t \<Rightarrow> Some (Inr (Inr (take limit (t @ [CHR 0x00])), s2)))))"

definition syscall_linkat ::
  "abi \<Rightarrow> (u64 \<Rightarrow> ('s, 'm) vfs_scheme fsops) \<Rightarrow> u64 \<Rightarrow> u64 \<Rightarrow> int \<Rightarrow> string option \<Rightarrow> int \<Rightarrow> string option \<Rightarrow> u32 \<Rightarrow> ('s, 'm) vfs_scheme \<Rightarrow>
   (('s, 'm) vfs_scheme, unit) vcall" where
  "syscall_linkat a ops proc cwd old_fd old_path new_fd new_path flags s =
     (if old_path = None \<or> old_path = Some [] then Some (Inr (Inl (Some ENOENT), s))
      else vbind (Some (get_parent_dir a proc cwd old_fd old_path s)) (\<lambda>old_parent s1.
           if old_parent = 0 then Some (Inr (Inl None, s1))
           else vbind (Some (get_parent_dir a proc cwd new_fd new_path s1)) (\<lambda>new_parent s2.
           if new_parent = 0 then Some (Inr (Inl None, s2))
           else obind (path2node a ops old_parent old_path s2) (\<lambda>(old_res, _, s3).
                obind (path2node a ops new_parent new_path s3) (\<lambda>(new_res, _, s4).
                if target_parent old_res = 0 \<or> target_parent new_res = 0 then Some (Inl NullDeref)
                else if filesystem (nodes s4 (target_parent old_res)) \<noteq> filesystem (nodes s4 (target_parent new_res))
                then Some (Inr (Inl (Some EXDEV), s4))
                else vbind (vfs_get_node a ops old_parent old_path (flags AND AT_SYMLINK_NOFOLLOW a = 0) s4) (\<lambda>old_node s5.
                     let d = target_parent new_res; name = (case basename new_res of None \<Rightarrow> [] | Some b \<Rightarrow> b);
                         fs = filesystem (nodes s5 d)
                     in if fs = 0 then Some (Inl NullDeref)
                        else vbind (Some (fs_link (ops fs) d name old_node s5)) (\<lambda>n s6.
                          obind (Some (child_insert d name n s6)) (\<lambda>s7. Some (Inr (Inr (), s7))))))))))"

text \<open>The result of \<open>vfs_unlink\<close> is ignored.\<close>

definition syscall_unlinkat ::
  "abi \<Rightarrow> (u64 \<Rightarrow> ('s, 'm) vfs_scheme fsops) \<Rightarrow> u64 \<Rightarrow> u64 \<Rightarrow> int \<Rightarrow> string option \<Rightarrow> u32 \<Rightarrow> ('s, 'm) vfs_scheme \<Rightarrow> (('s, 'm) vfs_scheme, unit) vcall" where
  "syscall_unlinkat a ops proc cwd dir_fdnum path flags s =
     vbind (vfs_fdnum_path_to_node a ops proc cwd dir_fdnum path False True s) (\<lambda>r s1.
       obind (Some (node_mode (target r) s1)) (\<lambda>mode.
         if is_type a (S_IFDIR a) mode \<and> flags AND AT_REMOVEDIR a = 0 then Some (Inr (Inl (Some EISDIR), s1))
         else obind (vfs_unlink a ops (target_parent r) (basename r) s1) (\<lambda>(_, s2). Some (Inr (Inr (), s2)))))"

definition syscall_mkdirat ::
  "abi \<Rightarrow> (u64 \<Rightarrow> ('s, 'm) vfs_scheme fsops) \<Rightarrow> u64 \<Rightarrow> u64 \<Rightarrow> u32 \<Rightarrow> int \<Rightarrow> string option \<Rightarrow> u32 \<Rightarrow> ('s, 'm) vfs_scheme \<Rightarrow> (('s, 'm) vfs_scheme, unit) vcall" where
  "syscall_mkdirat a ops proc cwd cmask dir_fdnum path mode s =
     (if path = None \<or> path = Some [] then Some (Inr (Inl (Some ENOENT), s))
      else vbind (vfs_fdnum_path_to_node a ops proc cwd dir_fdnum path False False s) (\<lambda>r s1.
        if target_parent r = 0 then Some (Inr (Inl (Some ENOENT), s1))
        else vbind (vfs_create a ops (target_parent r) (basename r) ((mode AND NOT cmask) OR S_IFDIR a) s1) (\<lambda>_ s2. Some (Inr (Inr (), s2)))))"

text \<open>\<open>syscall_fchmodat\<close> of \<open>lib/resource.c\<close>: the node, or its directory when there is none.\<close>

definition with_mode :: "u32 \<Rightarrow> 's resource \<Rightarrow> 's resource" where
  "with_mode m r = Resource (r_refcount r) (r_status r) m (r_size r) (r_state r) (r_ops r)"

definition syscall_fchmodat ::
  "abi \<Rightarrow> (u64 \<Rightarrow> ('s, 'm) vfs_scheme fsops) \<Rightarrow> u64 \<Rightarrow> u64 \<Rightarrow> int \<Rightarrow> string option \<Rightarrow> u32 \<Rightarrow> ('s, 'm) vfs_scheme \<Rightarrow> (('s, 'm) vfs_scheme, unit) vcall" where
  "syscall_fchmodat a ops proc cwd dir_fdnum path mode s =
     vbind (vfs_fdnum_path_to_node a ops proc cwd dir_fdnum path True True s) (\<lambda>r s1.
       let n = (if target r = 0 then target_parent r else target r); res = vn_resource (nodes s1 n)
       in if n = 0 \<or> res = 0 then Some (Inl NullDeref)
          else Some (Inr (Inr (), s1\<lparr>v_files := on_resource res (\<lambda>x. with_mode (op_chmod (r_ops x) (r_mode x) mode) x) (v_files s1)\<rparr>)))"

subsection \<open>Names of a path\<close>

text \<open>The names between the slashes.\<close>

fun comps :: "string \<Rightarrow> string list" where
  "comps [] = []"
| "comps (c # cs) =
     (if c = CHR ''/'' then comps cs
      else case cs of
             [] \<Rightarrow> [[c]]
           | d # _ \<Rightarrow> if d = CHR ''/'' then [c] # comps cs else (c # hd (comps cs)) # tl (comps cs))"

lemma comps_slashes: "comps (dropWhile (\<lambda>c. c = CHR ''/'') path) = comps path"
  by (induction path) auto

lemma comps_Nil: "comps path = [] \<longleftrightarrow> dropWhile (\<lambda>c. c = CHR ''/'') path = []"
  by (induction path) (auto split: list.splits)

lemma comps_step:
  assumes "path \<noteq> []" and "hd path \<noteq> CHR ''/''"
  shows "comps path = takeWhile (\<lambda>c. c \<noteq> CHR ''/'') path #
    comps (dropWhile (\<lambda>c. c = CHR ''/'') (dropWhile (\<lambda>c. c \<noteq> CHR ''/'') path))"
  using assms
proof (induction path)
  case (Cons c cs)
  show ?case
  proof (cases cs)
    case (Cons d ds)
    with Cons.IH Cons.prems show ?thesis by (cases "d = CHR ''/''") (auto simp: comps_slashes)
  qed (use Cons.prems in auto)
qed simp

lemma hd_drop_slashes: "dropWhile (\<lambda>c. c = CHR ''/'') path \<noteq> [] \<Longrightarrow> hd (dropWhile (\<lambda>c. c = CHR ''/'') path) \<noteq> CHR ''/''"
  by (rule hd_dropWhile)

subsection \<open>Walking directories\<close>


lemma reduce_plain_result:
  assumes "reduce_plain n s = Some (Inr m)"
  shows "m \<noteq> 0 \<and> redir (nodes s m) = 0 \<and> mountpoint (nodes s m) = 0"
proof -
  have "(\<lambda>n s r. \<forall>m. r = Inr m \<longrightarrow> m \<noteq> 0 \<and> redir (nodes s m) = 0 \<and> mountpoint (nodes s m) = 0) n s (Inr m :: u64 result)"
    by (rule reduce_plain.raw_induct [OF _ assms]) (auto split: if_splits)
  then show ?thesis by simp
qed

lemma reduce_plain_idem: "reduce_plain n s = Some (Inr m) \<Longrightarrow> reduce_plain m s = Some (Inr m)"
  using reduce_plain_result [of n s m] by (subst reduce_plain.simps) simp

text \<open>A tree without links in which every entry leads to a node with a resource, on file systems that need no populating.\<close>

definition plain_tree :: "abi \<Rightarrow> (u64 \<Rightarrow> ('s, 'm) vfs_scheme fsops) \<Rightarrow> ('s, 'm) vfs_scheme \<Rightarrow> bool" where
  "plain_tree a ops s \<longleftrightarrow> S_IFLNK a \<noteq> S_IFDIR a \<and> (\<forall>f. fs_populate (ops f) = None) \<and>
     (\<forall>n e c. child_get n e s = Some c \<longrightarrow> (\<exists>m. reduce_plain c s = Some (Inr m) \<and> vn_resource (nodes s m) \<noteq> 0 \<and>
        \<not> is_type a (S_IFLNK a) (r_mode (resources (v_files s) (vn_resource (nodes s m))))))"

definition is_dir :: "abi \<Rightarrow> u64 \<Rightarrow> ('s, 'm) vfs_scheme \<Rightarrow> bool" where
  "is_dir a n s \<longleftrightarrow> is_type a (S_IFDIR a) (r_mode (resources (v_files s) (vn_resource (nodes s n))))"

text \<open>Where an entry leads, and the directory a list of names leads to.\<close>

definition entry :: "u64 \<Rightarrow> string \<Rightarrow> ('s, 'm) vfs_scheme \<Rightarrow> u64 option" where
  "entry n e s = (case child_get n e s of None \<Rightarrow> None
     | Some c \<Rightarrow> (case reduce_plain c s of Some (Inr m) \<Rightarrow> Some m | _ \<Rightarrow> None))"

fun walk :: "abi \<Rightarrow> u64 \<Rightarrow> string list \<Rightarrow> ('s, 'm) vfs_scheme \<Rightarrow> u64 option" where
  "walk a n [] s = Some n"
| "walk a n (e # es) s = (case entry n e s of None \<Rightarrow> None | Some m \<Rightarrow> if is_dir a m s then walk a m es s else None)"

text \<open>What a lookup of the names \<open>es\<close> from directory \<open>n\<close> should return.\<close>

definition lookup_spec :: "abi \<Rightarrow> u64 \<Rightarrow> bool \<Rightarrow> string list \<Rightarrow> ('s, 'm) vfs_scheme \<Rightarrow> path2node_res" where
  "lookup_spec a n ask_for_dir es s =
     (case walk a n (butlast es) s of
        None \<Rightarrow> no_node
      | Some d \<Rightarrow>
          (case entry d (last es) s of
             None \<Rightarrow> \<lparr>target_parent = d, target = 0, basename = Some (last es)\<rparr>
           | Some m \<Rightarrow> \<lparr>target_parent = d, target = (if ask_for_dir \<and> \<not> is_dir a m s then 0 else m), basename = Some (last es)\<rparr>))"

text \<open>
  The error a lookup should set: a name that is not there gives \<open>ENOENT\<close>, one that should be a directory and is
  something else \<open>ENOTDIR\<close>; a lookup that finds its target sets none.
\<close>

fun lookup_error :: "abi \<Rightarrow> u64 \<Rightarrow> bool \<Rightarrow> string list \<Rightarrow> ('s, 'm) vfs_scheme \<Rightarrow> errno option" where
  "lookup_error a n ask_for_dir [] s = None"
| "lookup_error a n ask_for_dir (e # es) s =
     (case entry n e s of
        None \<Rightarrow> Some ENOENT
      | Some m \<Rightarrow>
          if es \<noteq> [] \<and> is_dir a m s then lookup_error a m ask_for_dir es s
          else if es \<noteq> [] \<or> ask_for_dir \<and> \<not> is_dir a m s then Some ENOTDIR
          else None)"

lemma plain_entry:
  assumes "plain_tree a ops s"
  shows "child_get n e s = None \<longleftrightarrow> entry n e s = None"
    and "child_get n e s = Some c \<Longrightarrow> \<exists>m. entry n e s = Some m \<and> reduce_plain c s = Some (Inr m) \<and> m \<noteq> 0 \<and>
      node_mode m s = Inr (r_mode (resources (v_files s) (vn_resource (nodes s m)))) \<and>
      \<not> is_type a (S_IFLNK a) (r_mode (resources (v_files s) (vn_resource (nodes s m)))) \<and> reduce_plain m s = Some (Inr m)"
proof -
  have c: "child_get n e s = Some c \<Longrightarrow> \<exists>m. entry n e s = Some m \<and> reduce_plain c s = Some (Inr m) \<and> m \<noteq> 0 \<and>
      node_mode m s = Inr (r_mode (resources (v_files s) (vn_resource (nodes s m)))) \<and>
      \<not> is_type a (S_IFLNK a) (r_mode (resources (v_files s) (vn_resource (nodes s m)))) \<and> reduce_plain m s = Some (Inr m)" for c
  proof -
    assume g: "child_get n e s = Some c"
    then obtain m where m: "reduce_plain c s = Some (Inr m)" "vn_resource (nodes s m) \<noteq> 0"
        "\<not> is_type a (S_IFLNK a) (r_mode (resources (v_files s) (vn_resource (nodes s m))))"
      using assms unfolding plain_tree_def by blast
    then show ?thesis using g reduce_plain_result [OF m(1)] reduce_plain_idem [OF m(1)]
      by (intro exI [of _ m]) (simp add: entry_def node_mode_def)
  qed
  show "child_get n e s = Some c \<Longrightarrow> \<exists>m. entry n e s = Some m \<and> reduce_plain c s = Some (Inr m) \<and> m \<noteq> 0 \<and>
      node_mode m s = Inr (r_mode (resources (v_files s) (vn_resource (nodes s m)))) \<and>
      \<not> is_type a (S_IFLNK a) (r_mode (resources (v_files s) (vn_resource (nodes s m)))) \<and> reduce_plain m s = Some (Inr m)" by (rule c)
  show "child_get n e s = None \<longleftrightarrow> entry n e s = None"
    using c by (cases "child_get n e s") (auto simp: entry_def)
qed

lemma populate_plain: "plain_tree a ops s \<Longrightarrow> populate a ops n s = (True, s)"
  by (simp add: populate_def plain_tree_def Let_def)

lemma path_loop_walks:
  assumes tree: "plain_tree a ops s"
  shows "path \<noteq> [] \<Longrightarrow> hd path \<noteq> CHR ''/'' \<Longrightarrow> reduce_plain cur s = Some (Inr cur) \<Longrightarrow>
    path_loop a ops cur ask path s = Some (Inr (lookup_spec a cur ask (comps path) s, lookup_error a cur ask (comps path) s, s))"
proof (induction "length path" arbitrary: path cur rule: less_induct)
  case less
  define el where "el = takeWhile (\<lambda>c. c \<noteq> CHR ''/'') path"
  define rest where "rest = dropWhile (\<lambda>c. c = CHR ''/'') (dropWhile (\<lambda>c. c \<noteq> CHR ''/'') path)"
  have c: "comps path = el # comps rest" using comps_step [OF less.prems(1,2)] by (simp add: el_def rest_def)
  have cr: "comps rest = [] \<longleftrightarrow> rest = []" unfolding comps_Nil by (simp add: rest_def dropWhile_idem)
  have len: "length rest < length path"
  proof -
    have "el \<noteq> []" using less.prems(1,2) by (cases path) (auto simp: el_def)
    moreover have "length el + length (dropWhile (\<lambda>c. c \<noteq> CHR ''/'') path) = length path"
      by (metis el_def length_append takeWhile_dropWhile_id)
    ultimately show ?thesis using length_dropWhile_le [of "\<lambda>c. c = CHR ''/''" "dropWhile (\<lambda>c. c \<noteq> CHR ''/'') path"]
      by (cases el) (auto simp: rest_def)
  qed
  note unf = path_loop.simps [of a ops cur ask path s] path_turn_def [of a ops cur ask path s, folded el_def rest_def, unfolded Let_def]
  show ?case
  proof (cases "child_get cur el s")
    case None
    then have "entry cur el s = None" using plain_entry(1) [OF tree] by blast
    then have "lookup_spec a cur ask (comps path) s = (if rest = [] then \<lparr>target_parent = cur, target = 0, basename = Some el\<rparr> else no_node)"
        "lookup_error a cur ask (comps path) s = Some ENOENT"
      using cr by (simp_all add: lookup_spec_def c)
    then show ?thesis unfolding unf using None less.prems(3) by simp
  next
    case (Some ch)
    from plain_entry(2) [OF tree Some] obtain m where m: "entry cur el s = Some m" "reduce_plain ch s = Some (Inr m)" "m \<noteq> 0"
        "node_mode m s = Inr (r_mode (resources (v_files s) (vn_resource (nodes s m))))"
        "\<not> is_type a (S_IFLNK a) (r_mode (resources (v_files s) (vn_resource (nodes s m))))" "reduce_plain m s = Some (Inr m)" by blast
    have turn: "path_turn a ops cur ask path s = found_node a ops cur m ask el rest s"
      unfolding unf(2) using Some m(2) less.prems(3) by (simp add: populate_plain [OF tree])
    show ?thesis
    proof (cases "rest = []")
      case True
      then have "comps path = [el]" using c cr by simp
      then have "lookup_spec a cur ask (comps path) s = \<lparr>target_parent = cur, target = (if ask \<and> \<not> is_dir a m s then 0 else m), basename = Some el\<rparr>"
          "lookup_error a cur ask (comps path) s = (if ask \<and> \<not> is_dir a m s then Some ENOTDIR else None)"
        using m(1) by (simp_all add: lookup_spec_def)
      then show ?thesis unfolding unf(1) turn using True m(3,4)
        by (auto simp: found_node_def Let_def is_dir_def)
    next
      case False
      have fn: "found_node a ops cur m ask el rest s = Some (Inr (if is_dir a m s then Turn_dir m rest s else Turn_done no_node (Some ENOTDIR) s))"
        using False m(4,5) by (simp add: found_node_def Let_def enter_node_def is_dir_def)
      have "last (comps path) = last (comps rest)" "butlast (comps path) = el # butlast (comps rest)" using False cr by (simp_all add: c)
      note lb = this
      have sp: "lookup_spec a cur ask (comps path) s = (if is_dir a m s then lookup_spec a m ask (comps rest) s else no_node)"
        unfolding lookup_spec_def lb using m(1) by simp
      have er: "lookup_error a cur ask (comps path) s = (if is_dir a m s then lookup_error a m ask (comps rest) s else Some ENOTDIR)"
        unfolding c using m(1) False cr by simp
      show ?thesis
      proof (cases "is_dir a m s")
        case True
        have h: "hd rest \<noteq> CHR ''/''" using False hd_drop_slashes unfolding rest_def by blast
        have "path_loop a ops cur ask path s = path_loop a ops m ask rest s"
          unfolding unf(1) [of] turn fn using True by simp
        with less.hyps [OF len False h m(6)] True sp er show ?thesis by simp
      qed (unfold unf(1) turn fn, simp add: sp er)
    qed
  qed
qed


text \<open>The whole of \<open>path2node\<close> on such a tree.\<close>

lemma path2node_plain:
  assumes tree: "plain_tree a ops s" and parent: "reduce_plain parent s = Some (Inr p)" and root: "reduce_plain (vfs_root s) s = Some (Inr rt)"
    and path: "path \<noteq> []"
  defines "start \<equiv> if hd path = CHR ''/'' then rt else p" and "es \<equiv> comps path"
  shows "path2node a ops parent (Some path) s = Some (Inr (if es = [] then \<lparr>target_parent = rt, target = rt, basename = Some ''/''\<rparr>
      else lookup_spec a start (last path = CHR ''/'') es s, lookup_error a start (last path = CHR ''/'') es s, s))"
proof (cases "hd path = CHR ''/''")
  case True
  define rest where "rest = dropWhile (\<lambda>c. c = CHR ''/'') path"
  have es: "es = comps rest" "es = [] \<longleftrightarrow> rest = []" using comps_slashes comps_Nil by (simp_all add: es_def rest_def)
  have run: "path2node a ops parent (Some path) s = (if rest = [] then Some (Inr (\<lparr>target_parent = rt, target = rt, basename = Some ''/''\<rparr>, None, s))
      else path_loop a ops rt (last path = CHR ''/'') rest s)"
    using path True parent root by (simp add: path2node_def path_start_def populate_plain [OF tree] rest_def Let_def)
  show ?thesis
  proof (cases "rest = []")
    case False
    then have "hd rest \<noteq> CHR ''/''" using hd_drop_slashes unfolding rest_def by blast
    from path_loop_walks [OF tree False this reduce_plain_idem [OF root]] False True es show ?thesis
      unfolding run start_def by simp
  qed (use run es in simp)
next
  case False
  have "es \<noteq> []" using comps_step [OF path False] by (simp add: es_def)
  moreover have "path2node a ops parent (Some path) s = path_loop a ops p (last path = CHR ''/'') path s"
    using path False parent by (simp add: path2node_def path_start_def populate_plain [OF tree] Let_def)
  ultimately show ?thesis using path_loop_walks [OF tree path False reduce_plain_idem [OF parent]] False
    unfolding start_def es_def by simp
qed

text \<open>C20. On a tree without symbolic links, in which every entry leads to a node with a resource, and on file systems without
  a \<open>populate\<close> operation, looking up a path always ends, and it finds what walking from directory to directory finds:
  the path is split at its slashes, however many; an absolute path starts at the root and a relative one at the given
  directory, through mounts and dot entries; all but the last name must lead to directories, otherwise there is no result; the
  last name gives the entry, or a null pointer with its directory when there is none, or when a trailing slash asks for a
  directory and it is something else. The error set is \<open>ENOENT\<close> when a name on the way is missing, \<open>ENOTDIR\<close> when one
  that must be a directory is something else, and none when the target is found; the empty and the null path give \<open>ENOENT\<close>.
  The state stays as it was.\<close>

theorem path2node_walks_directories:
  fixes s :: "('s, 'm) vfs_scheme"
  assumes "plain_tree a ops s" and "reduce_plain parent s = Some (Inr p)" and "reduce_plain (vfs_root s) s = Some (Inr rt)"
    and "path \<noteq> []"
  shows "path2node a ops parent (Some path) s = Some (Inr (
      if comps path = [] then \<lparr>target_parent = rt, target = rt, basename = Some ''/''\<rparr>
      else lookup_spec a (if hd path = CHR ''/'' then rt else p) (last path = CHR ''/'') (comps path) s,
      lookup_error a (if hd path = CHR ''/'' then rt else p) (last path = CHR ''/'') (comps path) s, s)) \<and>
    path2node a ops parent (Some []) s = Some (Inr (no_node, Some ENOENT, s)) \<and>
    path2node a ops parent None s = Some (Inr (no_node, Some ENOENT, s))"
  using path2node_plain [OF assms] by (simp add: path2node_def path_start_def)


subsection \<open>Following links\<close>

lemma reduce_follow_cycle:
  assumes link: "n \<noteq> 0" "redir (nodes s n) = 0" "mountpoint (nodes s n) = 0" "symlink_target (nodes s n) = Some t"
    and self: "path2node a ops (vn_parent (nodes s n)) (Some t) s = Some (Inr (r, e, s))" "target r = n"
  shows "reduce_follow a ops n s = None"
proof (rule ccontr)
  assume "reduce_follow a ops n s \<noteq> None"
  then obtain y where y: "reduce_follow a ops n s = Some y" by blast
  have "(\<lambda>a' ops' n' s' y. (a', ops', n', s') \<noteq> (a, ops, n, s)) a ops n s y"
  proof (rule reduce_follow.raw_induct [of "\<lambda>a' ops' n' s' y. (a', ops', n', s') \<noteq> (a, ops, n, s)", OF _ y], goal_cases)
    case (1 f a' ops' n' s' y')
    have False if "(a', ops', n', s') = (a, ops, n, s)"
    proof -
      have "f a ops n s = Some y'" using 1(2) that link self by simp
      from 1(1) [OF this] show False by simp
    qed
    then show ?case by blast
  qed
  then show False by simp
qed

text \<open>C23. A symbolic link that leads to itself, as \<open>symlink("x", "x")\<close> makes it, hangs every lookup that follows it: \<open>reduce_node\<close> has
  no limit on the links it follows and never returns, with the lock of the whole file system held.\<close>

theorem self_link_hangs_lookup:
  fixes s :: "('s, 'm) vfs_scheme"
  assumes lock: "unlocked (vfs_lock s)" and s': "s' = s\<lparr>vfs_lock := (vfs_lock s)\<lparr>lock_word := 1, last_acquirer := ''vfs_get_node''\<rparr>\<rparr>"
    and found: "path2node a ops parent path s' = Some (Inr (r, e, s'))" "target r = n"
    and link: "n \<noteq> 0" "redir (nodes s n) = 0" "mountpoint (nodes s n) = 0" "symlink_target (nodes s n) = Some t"
    and self: "path2node a ops (vn_parent (nodes s n)) (Some t) s' = Some (Inr (r', e', s'))" "target r' = n"
  shows "vfs_get_node a ops parent path True s = None"
proof -
  have "reduce_follow a ops n s' = None"
    by (rule reduce_follow_cycle [of _ _ t a ops r' e']) (use link self s' in simp_all)
  then show ?thesis using spinlock_acquire_unlocked [OF lock, of "''vfs_get_node''"] found link(1)
    by (simp add: vfs_get_node_def lock_vfs_def s')
qed


subsection \<open>What a file system promises\<close>

text \<open>An address where no node is and to which nothing leads, and one that is no node's resource.\<close>

definition node_fresh :: "u64 \<Rightarrow> ('s, 'm) vfs_scheme \<Rightarrow> bool" where
  "node_fresh n s \<longleftrightarrow> n \<noteq> 0 \<and> n \<noteq> vfs_root s \<and> nodes s n = vnode_zero \<and> (\<forall>k e. child_get k e s \<noteq> Some n) \<and>
     (\<forall>k. redir (nodes s k) \<noteq> n \<and> mountpoint (nodes s k) \<noteq> n)"

definition res_fresh :: "u64 \<Rightarrow> ('s, 'm) vfs_scheme \<Rightarrow> bool" where
  "res_fresh r s \<longleftrightarrow> r \<noteq> 0 \<and> (\<forall>k. vn_resource (nodes s k) \<noteq> r)"

text \<open>A state with one more node, at \<open>n\<close>, that nothing leads to yet.\<close>

definition node_added :: "abi \<Rightarrow> u64 \<Rightarrow> u64 \<Rightarrow> string \<Rightarrow> u32 \<Rightarrow> u64 \<Rightarrow> ('s, 'm) vfs_scheme \<Rightarrow> ('s, 'm) vfs_scheme \<Rightarrow> bool" where
  "node_added a fs d name mode n s s' \<longleftrightarrow> node_fresh n s \<and> vfs_root s' = vfs_root s \<and> vfs_lock s' = vfs_lock s \<and>
     (\<exists>r. res_fresh r s \<and> nodes s' = (nodes s)(n := vnode_zero\<lparr>vn_name := name, vn_parent := d, filesystem := fs,
        vn_children := (if is_type a (S_IFDIR a) mode then Some [] else None), vn_resource := r\<rparr>) \<and>
      r_mode (resources (v_files s') r) = mode \<and> (\<forall>q. q \<noteq> r \<longrightarrow> resources (v_files s') q = resources (v_files s) q))"

lemma reduce_plain_frame:
  assumes "reduce_plain m s = Some r" and "m \<noteq> n" and "\<And>k. k \<noteq> n \<Longrightarrow> redir (nodes s' k) = redir (nodes s k) \<and> mountpoint (nodes s' k) = mountpoint (nodes s k)"
    and "\<And>k. redir (nodes s k) \<noteq> n \<and> mountpoint (nodes s k) \<noteq> n"
  shows "reduce_plain m s' = Some r"
proof -
  have "(\<lambda>m t r. t = s \<longrightarrow> m \<noteq> n \<longrightarrow> reduce_plain m s' = Some r) m s r"
  proof (rule reduce_plain.raw_induct [of "\<lambda>m t r. t = s \<longrightarrow> m \<noteq> n \<longrightarrow> reduce_plain m s' = Some r", OF _ assms(1)], goal_cases)
    case (1 f m t r)
    show ?case
    proof (intro impI)
      assume t: "t = s" and m: "m \<noteq> n"
      show "reduce_plain m s' = Some r"
        using 1(2) 1(1) [of "redir (nodes s m)" s r] 1(1) [of "mountpoint (nodes s m)" s r] assms(3) [OF m] assms(4) [of m] t
        by (subst reduce_plain.simps) (auto split: if_splits)
    qed
  qed
  with assms(2) show ?thesis by simp
qed

text \<open>Adding the entry of a new node to a directory.\<close>

definition entry_added :: "u64 \<Rightarrow> string \<Rightarrow> u64 \<Rightarrow> (string \<times> u64) list \<Rightarrow> ('s, 'm) vfs_scheme \<Rightarrow> ('s, 'm) vfs_scheme" where
  "entry_added d name n cs s = put_node d (\<lambda>v. v\<lparr>vn_children := Some (cs @ [(name, n)])\<rparr>) s"

lemma put_node_simps [simp]:
  "nodes (put_node n f s) k = (if k = n then f (nodes s n) else nodes s k)" "v_files (put_node n f s) = v_files s"
  "vfs_root (put_node n f s) = vfs_root s" "vfs_lock (put_node n f s) = vfs_lock s" "desc_node (put_node n f s) = desc_node s"
  by (simp_all add: put_node_def)

lemma added_node:
  assumes add: "node_added a fs d name mode n s s1" and cs: "vn_children (nodes s d) = Some cs" and new: "map_of cs name = None"
    and tree: "plain_tree a ops s" and ty: "\<not> is_type a (S_IFDIR a) mode" "\<not> is_type a (S_IFLNK a) mode" and dn: "d \<noteq> n"
  defines "s2 \<equiv> entry_added d name n cs s1"
  shows "plain_tree a ops s2" and "entry d name s2 = Some n" and "(k, e) \<noteq> (d, name) \<Longrightarrow> k \<noteq> n \<Longrightarrow> entry k e s2 = entry k e s"
    and "node_mode n s2 = Inr mode" and "m \<noteq> n \<Longrightarrow> reduce_plain m s = Some (Inr k) \<Longrightarrow> reduce_plain m s2 = Some (Inr k)"
    and "reduce_plain m s = Some (Inr k) \<Longrightarrow> m \<noteq> n \<Longrightarrow> k \<noteq> n" and "k \<noteq> n \<Longrightarrow> is_dir a k s2 = is_dir a k s"
proof -
  obtain r where r: "res_fresh r s" "nodes s1 = (nodes s)(n := vnode_zero\<lparr>vn_name := name, vn_parent := d, filesystem := fs,
        vn_children := None, vn_resource := r\<rparr>)" "r_mode (resources (v_files s1) r) = mode"
      "\<And>q. q \<noteq> r \<Longrightarrow> resources (v_files s1) q = resources (v_files s) q" and fr: "node_fresh n s"
    using add ty(1) unfolding node_added_def by auto
  have n0: "n \<noteq> 0" using fr by (simp add: node_fresh_def)
  have nn: "nodes s2 n = vnode_zero\<lparr>vn_name := name, vn_parent := d, filesystem := fs, vn_children := None, vn_resource := r\<rparr>"
    and nd: "nodes s2 d = (nodes s d)\<lparr>vn_children := Some (cs @ [(name, n)])\<rparr>" and nk: "\<And>k. k \<noteq> n \<Longrightarrow> k \<noteq> d \<Longrightarrow> nodes s2 k = nodes s k"
    and fl: "v_files s2 = v_files s1"
    using dn by (simp_all add: s2_def entry_added_def r(2))
  have rn: "reduce_plain n s2 = Some (Inr n)" using n0 nn by (subst reduce_plain.simps) (simp add: vnode_zero_def)
  have keep: "redir (nodes s2 k) = redir (nodes s k) \<and> mountpoint (nodes s2 k) = mountpoint (nodes s k) \<and> vn_resource (nodes s2 k) = vn_resource (nodes s k)"
    if "k \<noteq> n" for k
    by (cases "k = d") (use nd nk [OF that] in simp_all)
  have frame: "reduce_plain m s2 = Some r'" if "m \<noteq> n" "reduce_plain m s = Some r'" for m r'
    by (rule reduce_plain_frame [OF that(2,1)]) (use keep fr in \<open>auto simp: node_fresh_def\<close>)
  then show "m \<noteq> n \<Longrightarrow> reduce_plain m s = Some (Inr k) \<Longrightarrow> reduce_plain m s2 = Some (Inr k)" for m k by blast
  have old: "k \<noteq> n" if "reduce_plain m s = Some (Inr k)" "m \<noteq> n" for m k
  proof -
    have "s = s \<longrightarrow> m \<noteq> n \<longrightarrow> (Inr k :: u64 result) \<noteq> Inr n"
      by (rule reduce_plain.raw_induct [of "\<lambda>m t r. t = s \<longrightarrow> m \<noteq> n \<longrightarrow> r \<noteq> Inr n", OF _ that(1)])
        (use fr in \<open>auto simp: node_fresh_def split: if_splits\<close>)
    then show ?thesis using that(2) by simp
  qed
  then show "reduce_plain m s = Some (Inr k) \<Longrightarrow> m \<noteq> n \<Longrightarrow> k \<noteq> n" for m k by blast
  have md: "r_mode (resources (v_files s2) (vn_resource (nodes s2 k))) = r_mode (resources (v_files s) (vn_resource (nodes s k)))" if "k \<noteq> n" for k
  proof -
    have "vn_resource (nodes s k) \<noteq> r" using r(1) by (simp add: res_fresh_def)
    then show ?thesis using keep [OF that] r(4) fl by simp
  qed
  then show "k \<noteq> n \<Longrightarrow> is_dir a k s2 = is_dir a k s" for k by (simp add: is_dir_def)
  have gd: "child_get d e s2 = (if e = name then Some n else child_get d e s)" for e
    using nd cs new by (auto simp: child_get_def map_add_def split: option.splits)
  have gk: "child_get k e s2 = (if k = n then None else child_get k e s)" if "k \<noteq> d" for k e
    using nn nk that by (auto simp: child_get_def)
  show "entry d name s2 = Some n" by (simp add: entry_def gd rn)
  have ck: "c \<noteq> n" if "child_get k e s = Some c" for k e c using that fr by (auto simp: node_fresh_def)
  show "entry k e s2 = entry k e s" if "(k, e) \<noteq> (d, name)" "k \<noteq> n" for k e
  proof -
    have g: "child_get k e s2 = child_get k e s" using that gd gk by (cases "k = d") auto
    show ?thesis
    proof (cases "child_get k e s")
      case (Some c)
      from plain_entry(2) [OF tree Some] obtain m where "reduce_plain c s = Some (Inr m)" by blast
      with frame [OF ck [OF Some]] g Some show ?thesis by (simp add: entry_def)
    qed (simp add: entry_def g)
  qed
  show "node_mode n s2 = Inr mode" using n0 nn r(1,3) fl by (simp add: node_mode_def res_fresh_def)
  have "\<exists>m. reduce_plain c s2 = Some (Inr m) \<and> vn_resource (nodes s2 m) \<noteq> 0 \<and> \<not> is_type a (S_IFLNK a) (r_mode (resources (v_files s2) (vn_resource (nodes s2 m))))"
    if c: "child_get k e s2 = Some c" for k e c
  proof (cases "c = n")
    case True
    then show ?thesis using rn nn r(1,3) fl ty(2) by (auto simp: res_fresh_def)
  next
    case False
    then have "child_get k e s = Some c" using c gd gk by (cases "k = d") (auto split: if_splits)
    then obtain m where m: "reduce_plain c s = Some (Inr m)" "vn_resource (nodes s m) \<noteq> 0"
        "\<not> is_type a (S_IFLNK a) (r_mode (resources (v_files s) (vn_resource (nodes s m))))"
      using tree unfolding plain_tree_def by blast
    have "m \<noteq> n" using old [OF m(1) False] .
    then show ?thesis using frame [OF False m(1)] m(2,3) keep [of m] md [of m] by (intro exI [of _ m]) simp
  qed
  then show "plain_tree a ops s2" using tree unfolding plain_tree_def by blast
qed


lemma reduce_plain_step: "reduce_plain n s = Some r \<Longrightarrow> nodes t = nodes s \<Longrightarrow> reduce_plain n t = Some r"
proof -
  assume r: "reduce_plain n s = Some r" and t: "nodes t = nodes s"
  have "s = s \<longrightarrow> reduce_plain n t = Some r"
  proof (rule reduce_plain.raw_induct [of "\<lambda>n u r. u = s \<longrightarrow> reduce_plain n t = Some r", OF _ r], goal_cases)
    case (1 f n u r)
    show ?case
    proof
      assume u: "u = s"
      show "reduce_plain n t = Some r"
        using 1(2) 1(1) [of "redir (nodes s n)" u r] 1(1) [of "mountpoint (nodes s n)" u r] u t
        by (subst reduce_plain.simps) (simp split: if_splits)
    qed
  qed
  then show ?thesis by simp
qed

lemma reduce_plain_nodes: "nodes t = nodes s \<Longrightarrow> reduce_plain n t = reduce_plain n s"
  using reduce_plain_step [of n s _ t] reduce_plain_step [of n t _ s] by (metis option.exhaust)

lemma reduce_plain_lock [simp]: "reduce_plain n (s\<lparr>vfs_lock := l\<rparr>) = reduce_plain n s"
  by (rule reduce_plain_nodes) simp

lemma lock_frame [simp]:
  "child_get n e (s\<lparr>vfs_lock := l\<rparr>) = child_get n e s" "is_dir a n (s\<lparr>vfs_lock := l\<rparr>) = is_dir a n s"
  "node_mode n (s\<lparr>vfs_lock := l\<rparr>) = node_mode n s"
  by (simp_all add: child_get_def is_dir_def node_mode_def)

lemma lock_frame_tree [simp]:
  "entry n e (s\<lparr>vfs_lock := l\<rparr>) = entry n e s" "plain_tree a ops (s\<lparr>vfs_lock := l\<rparr>) = plain_tree a ops s"
  unfolding entry_def plain_tree_def lock_frame reduce_plain_lock by simp_all

lemma walk_lock [simp]: "walk a n es (s\<lparr>vfs_lock := l\<rparr>) = walk a n es s"
  by (induction es arbitrary: n) (simp_all split: option.split)

lemma unlock_frame [simp]:
  "reduce_plain n (unlock_vfs s) = reduce_plain n s" "entry n e (unlock_vfs s) = entry n e s" "walk a n es (unlock_vfs s) = walk a n es s"
  "node_mode n (unlock_vfs s) = node_mode n s" "plain_tree a ops (unlock_vfs s) = plain_tree a ops s" "vfs_root (unlock_vfs s) = vfs_root s"
  "nodes (unlock_vfs s) = nodes s" "unlocked (vfs_lock (unlock_vfs s))"
  by (simp_all add: unlock_vfs_def)

text \<open>A path whose directory and last name are known, looked up in any state of the lock.\<close>

lemma path2node_at:
  assumes "plain_tree a ops s" and "reduce_plain parent s = Some (Inr p)" and "reduce_plain (vfs_root s) s = Some (Inr rt)"
    and "path \<noteq> []" "comps path \<noteq> []" "last path \<noteq> CHR ''/''"
    and "walk a (if hd path = CHR ''/'' then rt else p) (butlast (comps path)) s = Some d"
  shows "\<exists>e. path2node a ops parent (Some path) s = Some (Inr (\<lparr>target_parent = d,
      target = (case entry d (last (comps path)) s of None \<Rightarrow> 0 | Some m \<Rightarrow> m), basename = Some (last (comps path))\<rparr>, e, s))"
  using path2node_plain [OF assms(1-4)] assms(5-7) by (auto simp: lookup_spec_def split: option.splits)

text \<open>Walking over an added node: what was reachable stays reachable.\<close>

lemma walk_added:
  assumes add: "node_added a fs d name mode n s s1" and cs: "vn_children (nodes s d) = Some cs" and new: "entry d name s = None"
    and tree: "plain_tree a ops s" and ty: "\<not> is_type a (S_IFDIR a) mode" "\<not> is_type a (S_IFLNK a) mode" and dn: "d \<noteq> n"
    and w: "walk a k es s = Some m"
  shows "walk a k es (entry_added d name n cs s1) = Some m"
  using w
proof (induction es arbitrary: k)
  case (Cons e es)
  have nm: "map_of cs name = None" using plain_entry(1) [OF tree] cs new by (metis child_get_def option.simps(5))
  note ad = added_node [OF add cs nm tree ty dn]
  have fr: "node_fresh n s" using add by (simp add: node_added_def)
  from Cons.prems obtain x where x: "entry k e s = Some x" "is_dir a x s" "walk a x es s = Some m" by (auto split: option.splits if_splits)
  then obtain c where c: "child_get k e s = Some c" using plain_entry(1) [OF tree, of k e] by (cases "child_get k e s") auto
  have "(k, e) \<noteq> (d, name)" using x(1) new by auto
  moreover have "k \<noteq> n" using c fr by (auto simp: node_fresh_def child_get_def vnode_zero_def)
  moreover have "x \<noteq> n"
    using plain_entry(2) [OF tree c] x(1) ad(6) [of c x] c fr by (auto simp: node_fresh_def)
  ultimately show ?case using x ad(3) ad(7) Cons.IH [OF x(3)] by simp
qed simp

locale file_system =
  fixes a :: abi and ops :: "u64 \<Rightarrow> ('s, 'm) vfs_scheme fsops" and fs :: u64 and ready :: "('s, 'm) vfs_scheme \<Rightarrow> bool"
  assumes create_law: "ready s \<Longrightarrow> \<exists>n s1. fs_create (ops fs) d name mode s = Inr (n, s1) \<and> node_added a fs d name mode n s s1"
    and ready_lock: "ready s \<Longrightarrow> ready (s\<lparr>vfs_lock := l\<rparr>)"
begin

lemma create_adds_entry:
  assumes ok: "ready s" "fs \<noteq> 0" "unlocked (vfs_lock s)" and tree: "plain_tree a ops s"
    and at: "reduce_plain parent s = Some (Inr p)" "reduce_plain (vfs_root s) s = Some (Inr rt)"
    and path: "path \<noteq> []" "comps path \<noteq> []" "last path \<noteq> CHR ''/''"
      "walk a (if hd path = CHR ''/'' then rt else p) (butlast (comps path)) s = Some d" "d \<noteq> 0"
    and dir: "entry d (last (comps path)) s = None" "vn_children (nodes s d) = Some cs" "filesystem (nodes s d) = fs" "length (last (comps path)) \<le> 256"
    and ty: "\<not> is_type a (S_IFDIR a) mode" "\<not> is_type a (S_IFLNK a) mode"
  shows "\<exists>n s1. vfs_create a ops parent (Some path) mode s = Some (Inr (Inr n, unlock_vfs (entry_added d (last (comps path)) n cs s1))) \<and>
    node_added a fs d (last (comps path)) mode n (s\<lparr>vfs_lock := (vfs_lock s)\<lparr>lock_word := 1, last_acquirer := ''vfs_create''\<rparr>\<rparr>) s1 \<and> d \<noteq> n"
proof -
  define name where "name = last (comps path)"
  define s0 where "s0 = s\<lparr>vfs_lock := (vfs_lock s)\<lparr>lock_word := 1, last_acquirer := ''vfs_create''\<rparr>\<rparr>"
  have e0: "plain_tree a ops s0" "reduce_plain parent s0 = Some (Inr p)" "reduce_plain (vfs_root s0) s0 = Some (Inr rt)"
      "walk a (if hd path = CHR ''/'' then rt else p) (butlast (comps path)) s0 = Some d" "entry d name s0 = None"
      "vn_children (nodes s0 d) = Some cs" "filesystem (nodes s0 d) = fs"
    using tree at path(4) dir by (simp_all add: s0_def name_def)
  obtain e where p: "path2node a ops parent (Some path) s0 = Some (Inr (\<lparr>target_parent = d, target = 0, basename = Some name\<rparr>, e, s0))"
    using path2node_at [OF e0(1-3) path(1-3) e0(4)] e0(5) by (auto simp: name_def)
  obtain n s1 where c: "fs_create (ops fs) d name mode s0 = Inr (n, s1)" "node_added a fs d name mode n s0 s1"
    using create_law [OF ready_lock [OF ok(1)]] unfolding s0_def by blast
  have dn: "d \<noteq> n" using c(2) e0(6) by (auto simp: node_added_def node_fresh_def vnode_zero_def)
  have "map_of cs name = None" using plain_entry(1) [OF e0(1)] e0(5,6) by (metis child_get_def option.simps(5))
  note ad = added_node [OF c(2) e0(6) this e0(1) ty dn]
  have cd: "vn_children (nodes s1 d) = Some cs" using c(2) dn e0(6) by (auto simp: node_added_def)
  have ins: "child_insert d name n s1 = Inr (entry_added d name n cs s1)"
    using cd path(5) dir(4) by (simp add: child_insert_def entry_added_def name_def)
  have "vfs_create a ops parent (Some path) mode s = Some (Inr (Inr n, unlock_vfs (entry_added d name n cs s1)))"
    using spinlock_acquire_unlocked [OF ok(3), of "''vfs_create''"] p path(5) e0(7) ok(2) c(1) ins ad(4) ty(1)
    by (simp add: vfs_create_def lock_vfs_def s0_def [symmetric] new_entry_def Let_def leave_def)
  with c(2) dn show ?thesis unfolding name_def s0_def by blast
qed

lemma create_then_lookup:
  assumes ok: "ready s" "fs \<noteq> 0" "unlocked (vfs_lock s)" and tree: "plain_tree a ops s"
    and at: "reduce_plain parent s = Some (Inr p)" "reduce_plain (vfs_root s) s = Some (Inr rt)"
    and path: "path \<noteq> []" "comps path \<noteq> []" "last path \<noteq> CHR ''/''"
      "walk a (if hd path = CHR ''/'' then rt else p) (butlast (comps path)) s = Some d" "d \<noteq> 0"
    and dir: "entry d (last (comps path)) s = None" "vn_children (nodes s d) = Some cs" "filesystem (nodes s d) = fs" "length (last (comps path)) \<le> 256"
    and ty: "\<not> is_type a (S_IFDIR a) mode" "\<not> is_type a (S_IFLNK a) mode"
  shows "\<exists>n s2 s3 s4. vfs_create a ops parent (Some path) mode s = Some (Inr (Inr n, s2)) \<and> node_mode n s2 = Inr mode \<and>
    vfs_get_node a ops parent (Some path) follow s2 = Some (Inr (Inr n, s3)) \<and>
    vfs_create a ops parent (Some path) mode' s2 = Some (Inr (Inl (Some EEXIST), s4)) \<and>
    (\<forall>k e. (k, e) \<noteq> (d, last (comps path)) \<and> k \<noteq> n \<longrightarrow> entry k e s2 = entry k e s) \<and> plain_tree a ops s2 \<and> unlocked (vfs_lock s2)"
proof -
  define name where "name = last (comps path)"
  define s0 where "s0 = s\<lparr>vfs_lock := (vfs_lock s)\<lparr>lock_word := 1, last_acquirer := ''vfs_create''\<rparr>\<rparr>"
  obtain n s1 where c: "vfs_create a ops parent (Some path) mode s = Some (Inr (Inr n, unlock_vfs (entry_added d name n cs s1)))"
      "node_added a fs d name mode n s0 s1" "d \<noteq> n"
    using create_adds_entry [OF ok tree at path dir ty] unfolding name_def s0_def by blast
  define s2 where "s2 = unlock_vfs (entry_added d name n cs s1)"
  have e0: "plain_tree a ops s0" "entry d name s0 = None" "vn_children (nodes s0 d) = Some cs"
      "walk a (if hd path = CHR ''/'' then rt else p) (butlast (comps path)) s0 = Some d"
    using tree dir path(4) by (simp_all add: s0_def name_def)
  have fr: "node_fresh n s0" and root: "vfs_root s1 = vfs_root s0" using c(2) by (simp_all add: node_added_def)
  have nm: "map_of cs name = None" using plain_entry(1) [OF e0(1)] e0(2,3) by (metis child_get_def option.simps(5))
  note ad = added_node [OF c(2) e0(3) nm e0(1) ty c(3)]
  have n2: "n \<noteq> 0" "redir (nodes s2 n) = 0" "mountpoint (nodes s2 n) = 0" "symlink_target (nodes s2 n) = None"
    using c(2,3) fr by (auto simp: s2_def entry_added_def node_added_def node_fresh_def vnode_zero_def)
  have "reduce_plain parent s2 = Some (Inr p)"
  proof (cases "parent = n")
    case True
    then have "p = n" using at(1) fr by (subst (asm) reduce_plain.simps) (simp add: node_fresh_def s0_def vnode_zero_def)
    then show ?thesis using True n2 by (subst reduce_plain.simps) simp
  next
    case False
    then show ?thesis using ad(5) [OF False, of p] at by (simp add: s2_def s0_def)
  qed
  then have r2: "reduce_plain parent s2 = Some (Inr p)" "reduce_plain (vfs_root s2) s2 = Some (Inr rt)"
    using ad(5) [of "vfs_root s0" rt] at fr root by (auto simp: s2_def s0_def node_fresh_def entry_added_def)
  have w2: "walk a (if hd path = CHR ''/'' then rt else p) (butlast (comps path)) s2 = Some d"
    using walk_added [OF c(2) e0(3,2,1) ty c(3) e0(4)] by (simp add: s2_def)
  have t2: "plain_tree a ops s2" "entry d name s2 = Some n" "node_mode n s2 = Inr mode" "unlocked (vfs_lock s2)" using ad by (simp_all add: s2_def)
  have at2: "\<exists>e. path2node a ops parent (Some path) (s2\<lparr>vfs_lock := l\<rparr>) =
      Some (Inr (\<lparr>target_parent = d, target = n, basename = Some name\<rparr>, e, s2\<lparr>vfs_lock := l\<rparr>))" for l
    using path2node_at [of a ops "s2\<lparr>vfs_lock := l\<rparr>" parent p rt path d] t2 r2 w2 path by (simp add: name_def)
  have follow: "reduce_follow a ops n (s2\<lparr>vfs_lock := l\<rparr>) = Some (Inr (n, None, s2\<lparr>vfs_lock := l\<rparr>))" for l
    using n2 by (subst reduce_follow.simps) simp
  have "\<exists>s3. vfs_get_node a ops parent (Some path) follow s2 = Some (Inr (Inr n, s3))"
    using at2 [of "(vfs_lock s2)\<lparr>lock_word := 1, last_acquirer := ''vfs_get_node''\<rparr>"] follow n2(1)
      spinlock_acquire_unlocked [OF t2(4), of "''vfs_get_node''"]
    by (auto simp: vfs_get_node_def lock_vfs_def leave_def)
  moreover have "\<exists>s4. vfs_create a ops parent (Some path) mode' s2 = Some (Inr (Inl (Some EEXIST), s4))"
    using at2 [of "(vfs_lock s2)\<lparr>lock_word := 1, last_acquirer := ''vfs_create''\<rparr>"] n2(1) path(5)
      spinlock_acquire_unlocked [OF t2(4), of "''vfs_create''"]
    by (auto simp: vfs_create_def new_entry_def lock_vfs_def leave_def)
  moreover have "entry k e s2 = entry k e s" if "(k, e) \<noteq> (d, name)" "k \<noteq> n" for k e
    using ad(3) [OF that] by (simp add: s2_def s0_def)
  ultimately show ?thesis using c(1) t2 unfolding s2_def [symmetric] name_def [symmetric] by blast
qed

end


subsection \<open>Examples\<close>

text \<open>
  The root \<open>0x100\<close> with a file system mounted on it: its root directory \<open>0x200\<close> has a directory \<open>d\<close> with a file \<open>f\<close>, and
  a link \<open>l\<close> to itself when asked for.
\<close>

definition dir_node :: "(string \<times> u64) list \<Rightarrow> vnode" where
  "dir_node cs = vnode_zero\<lparr>filesystem := 0x50, vn_resource := 0x300, vn_children := Some cs\<rparr>"

definition example_nodes :: "bool \<Rightarrow> u64 \<Rightarrow> vnode" where
  "example_nodes link = (\<lambda>_. vnode_zero)(0x100 := vnode_zero\<lparr>mountpoint := 0x200\<rparr>,
     0x200 := dir_node ((''d'', 0x210) # (if link then [(''l'', 0x230)] else [])), 0x210 := dir_node [(''f'', 0x220)],
     0x220 := vnode_zero\<lparr>vn_resource := 0x310\<rparr>, 0x230 := vnode_zero\<lparr>vn_resource := 0x320, vn_parent := 0x200, symlink_target := Some ''l''\<rparr>)"

definition example_files :: "unit files" where
  "example_files = files_example\<lparr>resources := (\<lambda>r. Resource 1 0 (if r = 0x300 then 0x41ed else if r = 0x320 then 0xa1ff else 0x81a4) 0 ()
     (r_ops (resource_create (\<lambda>_. 0) ())))\<rparr>"

definition vfs_example :: "bool \<Rightarrow> unit vfs" where
  "vfs_example link = \<lparr>v_files = example_files, nodes = example_nodes link, vfs_root = 0x100, vfs_lock = SPINLOCK_INIT, filesystems = [],
     desc_node = (\<lambda>_. 0), v_fresh = [0x400, 0x500]\<rparr>"

definition no_ops :: "u64 \<Rightarrow> 'v fsops" where
  "no_ops = (\<lambda>_. \<lparr>fs_populate = None, fs_create = (\<lambda>_ _ _ s. Inr (0, s)), fs_symlink = (\<lambda>_ _ _ s. Inr (0, s)), fs_link = (\<lambda>_ _ _ s. Inr (Inl None, s))\<rparr>)"

lemma example_reduce:
  assumes "nodes s = example_nodes link"
  shows "reduce_plain 0x100 s = Some (Inr 0x200)" "reduce_plain 0x200 s = Some (Inr 0x200)" "reduce_plain 0x210 s = Some (Inr 0x210)"
    "reduce_plain 0x220 s = Some (Inr 0x220)" "reduce_plain 0x230 s = Some (Inr 0x230)"
  using assms by (subst reduce_plain.simps, simp add: example_nodes_def dir_node_def vnode_zero_def)+


lemma example_children:
  assumes "nodes s = example_nodes link"
  shows "child_get k e s = (if k = 0x200 then if e = ''d'' then Some 0x210 else if link \<and> e = ''l'' then Some 0x230 else None
    else if k = 0x210 \<and> e = ''f'' then Some 0x220 else None)"
  by (auto simp: child_get_def assms example_nodes_def dir_node_def vnode_zero_def)

lemma example_resource:
  assumes "nodes s = example_nodes link"
  shows "vn_resource (nodes s 0x210) = 0x300" "vn_resource (nodes s 0x220) = 0x310" "vn_resource (nodes s 0x230) = 0x320"
  by (simp_all add: assms example_nodes_def dir_node_def)

lemma example_tree:
  assumes n: "nodes s = example_nodes False" and f: "v_files s = example_files" and p: "\<And>f. fs_populate (ops f) = None"
  shows "plain_tree linux_abi ops s"
proof -
  have "\<exists>m. reduce_plain c s = Some (Inr m) \<and> vn_resource (nodes s m) \<noteq> 0 \<and>
      \<not> is_type linux_abi (S_IFLNK linux_abi) (r_mode (resources (v_files s) (vn_resource (nodes s m))))"
    if "child_get k e s = Some c" for k e c
  proof -
    have "c = 0x210 \<or> c = 0x220" using that by (auto simp: example_children [OF n] split: if_splits)
    then show ?thesis
      by (intro exI [of _ c]) (auto simp: example_reduce [OF n] example_resource [OF n] f example_files_def is_type_def linux_abi_def)
  qed
  then show ?thesis using p by (simp add: plain_tree_def linux_abi_def)
qed

theorem path2node_walks_directories_witness:
  "path2node linux_abi no_ops 0x100 (Some ''/d//f'') (vfs_example False) =
     Some (Inr (\<lparr>target_parent = 0x210, target = 0x220, basename = Some ''f''\<rparr>, None, vfs_example False)) \<and>
   path2node linux_abi no_ops 0x100 (Some ''d/f/'') (vfs_example False) =
     Some (Inr (\<lparr>target_parent = 0x210, target = 0, basename = Some ''f''\<rparr>, Some ENOTDIR, vfs_example False)) \<and>
   path2node linux_abi no_ops 0x100 (Some ''d/f/x'') (vfs_example False) =
     Some (Inr (no_node, Some ENOTDIR, vfs_example False)) \<and>
   path2node linux_abi no_ops 0x100 (Some ''f/x'') (vfs_example False) =
     Some (Inr (no_node, Some ENOENT, vfs_example False))"
proof -
  let ?s = "vfs_example False"
  have n: "nodes ?s = example_nodes False" "v_files ?s = example_files" "vfs_root ?s = 0x100" by (simp_all add: vfs_example_def)
  have t: "plain_tree linux_abi no_ops ?s" by (rule example_tree [OF n(1,2)]) (simp add: no_ops_def)
  have e: "entry 0x200 ''d'' ?s = Some 0x210" "entry 0x210 ''f'' ?s = Some 0x220" "entry 0x200 ''f'' ?s = None"
    by (simp_all add: entry_def example_children [OF n(1)] example_reduce [OF n(1)])
  have d: "is_dir linux_abi 0x210 ?s" "\<not> is_dir linux_abi 0x220 ?s"
    by (simp_all add: is_dir_def example_resource [OF n(1)] n(2) example_files_def is_type_def linux_abi_def)
  note walk = path2node_walks_directories [OF t example_reduce(1) [OF n(1)], of "0x200"]
  from walk [of "''/d//f''"] walk [of "''d/f/''"] walk [of "''d/f/x''"] walk [of "''f/x''"]
    example_reduce(1) [OF n(1)] n(3) e d
  show ?thesis by (simp add: lookup_spec_def)
qed

lemma link_found:
  assumes "nodes s = example_nodes True" and "populate linux_abi no_ops 0x230 s = (True, s)" and "populate linux_abi no_ops 0x200 s = (True, s)"
  shows "path2node linux_abi no_ops 0x200 (Some ''l'') s = Some (Inr (\<lparr>target_parent = 0x200, target = 0x230, basename = Some ''l''\<rparr>, None, s))"
  using assms(2,3)
  by (simp add: path2node_def path_start_def example_reduce [OF assms(1)] Let_def path_loop.simps path_turn_def found_node_def
      example_children [OF assms(1)])

theorem self_link_hangs_lookup_witness:
  "vfs_get_node linux_abi no_ops 0x200 (Some ''l'') True (vfs_example True) = None"
proof -
  let ?s = "vfs_example True"
  have p: "populate linux_abi no_ops n s = (True, s)" for n and s :: "unit vfs" by (simp add: populate_def no_ops_def Let_def)
  have "unlocked (vfs_lock ?s)" and l: "redir (nodes ?s 0x230) = 0" "mountpoint (nodes ?s 0x230) = 0"
    "symlink_target (nodes ?s 0x230) = Some ''l''" "vn_parent (nodes ?s 0x230) = 0x200"
    by (simp_all add: vfs_example_def SPINLOCK_INIT_def example_nodes_def vnode_zero_def)
  then show ?thesis
    by (intro self_link_hangs_lookup [OF _ refl, of ?s linux_abi no_ops "0x200" "Some ''l''"
          "\<lparr>target_parent = 0x200, target = 0x230, basename = Some ''l''\<rparr>" None "0x230" "''l''"
          "\<lparr>target_parent = 0x200, target = 0x230, basename = Some ''l''\<rparr>" None])
      (simp_all add: link_found p vfs_example_def)
qed


end
