(* ===== verification/Lyre_Tmpfs.thy ===== *)
theory Lyre_Tmpfs
  imports Lyre_Vfs Lyre_Bitmap
begin

text \<open>
  Files in memory: \<open>fs/tmpfs.c\<close>, and \<open>fs/devtmpfs.c\<close>, whose functions on files have the same bodies.  A file has an
  array of \<open>capacity\<close> bytes, of which the first \<open>st_size\<close> are its contents; offsets and sizes are 64-bit words that
  the code also compares as signed numbers.  \<open>realloc\<close> and \<open>alloc\<close> give the bytes of the new block.  The second part
  has the file system's functions on nodes.
\<close>

unbundle bit_operations_syntax

subsection \<open>Files\<close>

record tmpfs_file =
  tf_lock :: spinlock
  tf_addr :: u64
  tf_data :: "u8 list"
  tf_capacity :: u64
  tf_size :: u64
  tf_blocks :: u64
  tf_blksize :: u64

text \<open>\<open>memcpy\<close> from and to the array of a file.\<close>

definition load_bytes :: "u8 list \<Rightarrow> u64 \<Rightarrow> u64 \<Rightarrow> u8 list result" where
  "load_bytes d off n = (if unat off + unat n \<le> length d then Inr (take (unat n) (drop (unat off) d)) else Inl OutOfBounds)"

definition store_bytes :: "u8 list \<Rightarrow> u64 \<Rightarrow> u8 list \<Rightarrow> u8 list result" where
  "store_bytes d off bs = (if unat off + length bs \<le> length d
     then Inr (take (unat off) d @ bs @ drop (unat off + length bs) d) else Inl OutOfBounds)"

definition tmpfs_resource_read :: "u64 \<Rightarrow> u64 \<Rightarrow> tmpfs_file \<Rightarrow> (u8 list \<times> tmpfs_file) result" where
  "tmpfs_resource_read off cnt f =
     rbind (spinlock_acquire ''tmpfs_resource_read'' (tf_lock f)) (\<lambda>l.
       let actual_count = (if sint (tf_size f) \<le> sint (off + cnt) then cnt - ((off + cnt) - tf_size f) else cnt)
       in rbind (load_bytes (tf_data f) off actual_count) (\<lambda>bs. Inr (bs, f\<lparr>tf_lock := spinlock_release l\<rparr>)))"

text \<open>The loop that doubles the capacity; it does not end for a capacity that is or becomes zero.\<close>

partial_function (option) grow :: "u64 \<Rightarrow> u64 \<Rightarrow> u64 option" where
  [code]: "grow need new_capacity = (if need \<ge> new_capacity then grow need (new_capacity * 2) else Some new_capacity)"

definition write_size :: "u64 \<Rightarrow> tmpfs_file \<Rightarrow> tmpfs_file" where
  "write_size need f = (if sint (tf_size f) \<le> sint need
     then f\<lparr>tf_size := need, tf_blocks := DIV_ROUNDUP need (tf_blksize f)\<rparr> else f)"

definition write_data :: "u64 \<Rightarrow> u8 list \<Rightarrow> tmpfs_file \<Rightarrow> ((errno + u64) \<times> tmpfs_file) result" where
  "write_data off bs f = rbind (store_bytes (tf_data f) off bs) (\<lambda>d.
     Inr (Inr (of_nat (length bs)), write_size (off + of_nat (length bs)) (f\<lparr>tf_data := d\<rparr>)))"

definition unlock_file :: "(errno + 'a) \<times> tmpfs_file \<Rightarrow> (errno + 'a) \<times> tmpfs_file" where
  "unlock_file = (\<lambda>(r, f). (r, f\<lparr>tf_lock := spinlock_release (tf_lock f)\<rparr>))"

text \<open>\<open>realloc\<close> gives the address and the bytes of the new block; at most \<open>2^64 - 1\<close> bytes are written.\<close>

definition tmpfs_resource_write ::
  "(u8 list \<Rightarrow> u64 \<Rightarrow> (u64 \<times> u8 list) option) \<Rightarrow> u64 \<Rightarrow> u8 list \<Rightarrow> tmpfs_file \<Rightarrow> ((errno + u64) \<times> tmpfs_file) result option" where
  "tmpfs_resource_write realloc off bs f =
     obind (Some (spinlock_acquire ''tmpfs_resource_write'' (tf_lock f))) (\<lambda>l.
       let f0 = f\<lparr>tf_lock := l\<rparr>; need = off + of_nat (length bs)
       in if need \<ge> tf_capacity f0
          then Option.bind (grow need (tf_capacity f0)) (\<lambda>new_capacity.
            case realloc (tf_data f0) new_capacity of
              None \<Rightarrow> Some (Inr (unlock_file (Inl ENOMEM, f0)))
            | Some (addr, d) \<Rightarrow>
                obind (Some (write_data off bs (f0\<lparr>tf_addr := addr, tf_data := d, tf_capacity := new_capacity\<rparr>))) (\<lambda>r. Some (Inr (unlock_file r))))
          else obind (Some (write_data off bs f0)) (\<lambda>r. Some (Inr (unlock_file r))))"

text \<open>
  A page of the file: its address, or that of the page \<open>phys\<close> from the page allocator (zero for none) with the bytes
  copied there.
\<close>

definition tmpfs_resource_mmap :: "u64 \<Rightarrow> u64 \<Rightarrow> u64 \<Rightarrow> bool \<Rightarrow> tmpfs_file \<Rightarrow> (u64 \<times> u8 list option \<times> tmpfs_file) result" where
  "tmpfs_resource_mmap hh phys file_page shared f =
     rbind (spinlock_acquire ''tmpfs_resource_mmap'' (tf_lock f)) (\<lambda>l.
       let f1 = f\<lparr>tf_lock := spinlock_release l\<rparr>
       in if shared then Inr (tf_addr f + file_page * 4096 - hh, None, f1)
          else if phys = 0 then Inr (0, None, f1)
          else rbind (load_bytes (tf_data f) (file_page * 4096) 4096) (\<lambda>bs. Inr (phys, Some bs, f1)))"

definition tmpfs_resource_msync :: "u64 \<Rightarrow> u8 list \<Rightarrow> bool \<Rightarrow> tmpfs_file \<Rightarrow> tmpfs_file result" where
  "tmpfs_resource_msync file_page page shared f =
     (if shared then Inr f
      else rbind (spinlock_acquire ''tmpfs_resource_msync'' (tf_lock f)) (\<lambda>l.
        rbind (store_bytes (tf_data f) (file_page * 4096) page) (\<lambda>d. Inr (f\<lparr>tf_data := d, tf_lock := spinlock_release l\<rparr>))))"

partial_function (option) grow_to :: "u64 \<Rightarrow> u64 \<Rightarrow> u64 option" where
  [code]: "grow_to len new_capacity = (if new_capacity < len then grow_to len (new_capacity * 2) else Some new_capacity)"

text \<open>\<open>block\<close> is the address and the zeroed bytes of a new block.\<close>

definition set_size :: "u64 \<Rightarrow> tmpfs_file \<Rightarrow> tmpfs_file" where
  "set_size len f = f\<lparr>tf_size := len, tf_blocks := DIV_ROUNDUP len (tf_blksize f)\<rparr>"

definition tmpfs_truncate :: "(u64 \<Rightarrow> (u64 \<times> u8 list) option) \<Rightarrow> u64 \<Rightarrow> tmpfs_file \<Rightarrow> (errno option \<times> tmpfs_file) result option" where
  "tmpfs_truncate alloc len f =
     (if len > tf_capacity f
      then Option.bind (grow_to len (tf_capacity f)) (\<lambda>new_capacity.
        case alloc new_capacity of
          None \<Rightarrow> Some (Inr (Some ENOMEM, f))
        | Some (addr, blk) \<Rightarrow>
            obind (Some (rbind (load_bytes (tf_data f) 0 (tf_capacity f)) (store_bytes blk 0))) (\<lambda>d.
              Some (Inr (None, set_size len (f\<lparr>tf_addr := addr, tf_data := d, tf_capacity := new_capacity\<rparr>)))))
      else Some (Inr (None, set_size len f)))"

definition tmpfs_file_new :: "abi \<Rightarrow> u32 \<Rightarrow> u64 \<Rightarrow> tmpfs_file" where
  "tmpfs_file_new a mode addr = (let reg = is_type a (S_IFREG a) mode
     in \<lparr>tf_lock = SPINLOCK_INIT, tf_addr = (if reg then addr else 0), tf_data = (if reg then replicate 4096 0 else []),
         tf_capacity = (if reg then 4096 else 0), tf_size = 0, tf_blocks = 0, tf_blksize = 512\<rparr>)"

subsection \<open>A file is a sequence of bytes\<close>

definition contents :: "tmpfs_file \<Rightarrow> u8 list" where
  "contents f = take (unat (tf_size f)) (tf_data f)"

text \<open>A file within the sizes for which the code's arithmetic does not wrap around.\<close>

definition file_ok :: "tmpfs_file \<Rightarrow> bool" where
  "file_ok f \<longleftrightarrow> unlocked (tf_lock f) \<and> length (tf_data f) = unat (tf_capacity f) \<and> unat (tf_size f) \<le> unat (tf_capacity f) \<and>
     0 < unat (tf_capacity f) \<and> unat (tf_capacity f) \<le> 9223372036854775807 div 2 + 1"

lemma sint_small: "unat (x :: u64) \<le> 9223372036854775807 \<Longrightarrow> sint x = int (unat x)"
proof -
  assume "unat x \<le> 9223372036854775807"
  then have "uint x < 2 ^ 63" by (simp add: uint_nat del: of_nat_unat)
  then have "signed_take_bit 63 (uint x) = uint x" by (intro signed_take_bit_int_eq_self) (auto intro: order_trans [OF _ uint_ge_0])
  then show ?thesis by (simp add: sint_uint)
qed

lemma sint_le_iff: "unat (x :: u64) \<le> 9223372036854775807 \<Longrightarrow> unat (y :: u64) \<le> 9223372036854775807 \<Longrightarrow> sint x \<le> sint y \<longleftrightarrow> unat x \<le> unat y"
  by (simp only: sint_small of_nat_le_iff)

lemma grow_done:
  assumes "unat need < 4611686018427387904" and "0 < unat cap" and "unat cap \<le> 4611686018427387904"
  shows "\<exists>c. grow need cap = Some c \<and> unat need < unat c \<and> unat cap \<le> unat c \<and> unat c \<le> 4611686018427387904 * 2"
  using assms
proof (induction "4611686018427387904 - unat cap" arbitrary: cap rule: less_induct)
  case less
  show ?case
  proof (cases "need \<ge> cap")
    case True
    then have lt: "unat cap \<le> unat need" by (simp add: word_le_nat_alt)
    have d: "unat (cap * 2) = unat cap * 2" using lt less.prems(1) unat_mult_small [of cap 2] by simp
    have g: "grow need cap = grow need (cap * 2)" by (subst grow.simps) (use True in simp)
    show ?thesis
    proof (cases "unat (cap * 2) \<le> 4611686018427387904")
      case True
      have "4611686018427387904 - unat (cap * 2) < 4611686018427387904 - unat cap" using d lt less.prems(1,2) by linarith
      from less.hyps [OF this less.prems(1) _ True] less.prems(2) d g show ?thesis by auto
    next
      case False
      have "grow need (cap * 2) = Some (cap * 2)"
        by (subst grow.simps) (use False less.prems(1) in \<open>simp add: word_le_nat_alt\<close>)
      with g d False less.prems show ?thesis by simp
    qed
  qed (use less.prems in \<open>simp add: grow.simps [of need cap] word_le_nat_alt\<close>)
qed

text \<open>What \<open>realloc\<close> promises: a block of the size asked for that starts with the old bytes.\<close>

definition bytes_realloc_ok :: "(u8 list \<Rightarrow> u64 \<Rightarrow> (u64 \<times> u8 list) option) \<Rightarrow> bool" where
  "bytes_realloc_ok realloc \<longleftrightarrow> (\<forall>d n addr d'. realloc d n = Some (addr, d') \<longrightarrow>
     length d' = unat n \<and> take (min (length d) (unat n)) d' = take (min (length d) (unat n)) d)"

lemma take_splice:
  assumes "n \<le> length d" and "m \<le> n"
  shows "take (max n (m + length bs)) (take m d @ bs @ drop (m + length bs) d) = take m (take n d) @ bs @ drop (m + length bs) (take n d)"
proof (cases "m + length bs \<le> n")
  case True
  then have "drop (m + length bs) (take n d) = take (n - (m + length bs)) (drop (m + length bs) d)" by (simp add: drop_take)
  then show ?thesis using True assms by (simp add: min.absorb1 min.absorb2 max.absorb1)
qed (use assms in \<open>simp add: min.absorb1 min.absorb2 max.absorb2\<close>)

lemma write_data_contents:
  assumes len: "length (tf_data f) = unat (tf_capacity f)" "unat (tf_size f) \<le> unat (tf_capacity f)"
    and small: "unat (tf_size f) \<le> 9223372036854775807" and off: "unat off \<le> unat (tf_size f)"
    and fits: "unat off + length bs \<le> unat (tf_capacity f)" "unat off + length bs \<le> 9223372036854775807"
  shows "\<exists>f'. write_data off bs f = Inr (Inr (of_nat (length bs)), f') \<and> tf_lock f' = tf_lock f \<and> tf_capacity f' = tf_capacity f \<and>
    length (tf_data f') = unat (tf_capacity f) \<and> unat (tf_size f') = max (unat (tf_size f)) (unat off + length bs) \<and>
    contents f' = take (unat off) (contents f) @ bs @ drop (unat off + length bs) (contents f)"
proof -
  define need where "need = off + of_nat (length bs)"
  define d where "d = take (unat off) (tf_data f) @ bs @ drop (unat off + length bs) (tf_data f)"
  have ob: "unat (of_nat (length bs) :: u64) = length bs" using fits(2) by (simp add: unat_of_nat_small)
  have n: "unat need = unat off + length bs" unfolding need_def using unat_add_small [of off "of_nat (length bs)"] fits(2) ob by simp
  have st: "store_bytes (tf_data f) off bs = Inr d" using fits(1) len(1) by (simp add: store_bytes_def d_def)
  have sz: "unat (tf_size (write_size need (f\<lparr>tf_data := d\<rparr>))) = max (unat (tf_size f)) (unat off + length bs)"
  proof -
    have "unat need \<le> 9223372036854775807" using n fits(2) by simp
    then have "sint (tf_size f) \<le> sint need \<longleftrightarrow> unat (tf_size f) \<le> unat off + length bs"
      using sint_le_iff [OF small] n by simp
    then show ?thesis using n by (auto simp: write_size_def)
  qed
  have dl: "length d = unat (tf_capacity f)" using len fits off by (simp add: d_def)
  have td: "tf_data (write_size need (f\<lparr>tf_data := d\<rparr>)) = d" by (simp add: write_size_def)
  have "contents (write_size need (f\<lparr>tf_data := d\<rparr>)) = take (unat off) (contents f) @ bs @ drop (unat off + length bs) (contents f)"
    unfolding contents_def sz td unfolding d_def by (rule take_splice) (use len off in simp_all)
  moreover have "tf_lock (write_size need (f\<lparr>tf_data := d\<rparr>)) = tf_lock f" "tf_capacity (write_size need (f\<lparr>tf_data := d\<rparr>)) = tf_capacity f"
    by (simp_all add: write_size_def)
  ultimately show ?thesis using st sz td dl by (simp add: write_data_def need_def)
qed


lemma tmpfs_write_contents:
  assumes ok: "file_ok f" and re: "bytes_realloc_ok realloc" "\<And>d n. realloc d n \<noteq> None" and off: "unat off \<le> unat (tf_size f)"
    and fits: "unat off + length bs < 4611686018427387904"
  shows "\<exists>f'. tmpfs_resource_write realloc off bs f = Some (Inr (Inr (of_nat (length bs)), f')) \<and>
    unlocked (tf_lock f') \<and> length (tf_data f') = unat (tf_capacity f') \<and> unat (tf_size f') \<le> unat (tf_capacity f') \<and> 0 < unat (tf_capacity f') \<and>
    contents f' = take (unat off) (contents f) @ bs @ drop (unat off + length bs) (contents f)"
proof -
  define l where "l = (tf_lock f)\<lparr>lock_word := 1, last_acquirer := ''tmpfs_resource_write''\<rparr>"
  define need where "need = off + of_nat (length bs)"
  define f0 where "f0 = f\<lparr>tf_lock := l\<rparr>"
  have n: "unat need = unat off + length bs"
    unfolding need_def using unat_add_small [of off "of_nat (length bs)"] fits by (simp add: unat_of_nat_small)
  have f: "length (tf_data f) = unat (tf_capacity f)" "unat (tf_size f) \<le> unat (tf_capacity f)" "0 < unat (tf_capacity f)"
    "unat (tf_capacity f) \<le> 4611686018427387904" and ul: "unlocked (tf_lock f)" using ok by (simp_all add: file_ok_def)
  have run: "tmpfs_resource_write realloc off bs f = (if need \<ge> tf_capacity f
      then Option.bind (grow need (tf_capacity f)) (\<lambda>c. case realloc (tf_data f) c of None \<Rightarrow> Some (Inr (unlock_file (Inl ENOMEM, f0)))
        | Some (addr, d) \<Rightarrow> obind (Some (write_data off bs (f0\<lparr>tf_addr := addr, tf_data := d, tf_capacity := c\<rparr>))) (\<lambda>r. Some (Inr (unlock_file r))))
      else obind (Some (write_data off bs f0)) (\<lambda>r. Some (Inr (unlock_file r))))"
    unfolding tmpfs_resource_write_def Let_def f0_def l_def need_def
    using spinlock_acquire_unlocked [OF ul, of "''tmpfs_resource_write''"] by (simp only: obind_simps) simp
  show ?thesis
  proof (cases "need \<ge> tf_capacity f")
    case True
    obtain c where c: "grow need (tf_capacity f) = Some c" "unat need < unat c" "unat (tf_capacity f) \<le> unat c" "unat c \<le> 9223372036854775808"
      using grow_done [of need "tf_capacity f"] f n fits by auto
    obtain addr d where d: "realloc (tf_data f) c = Some (addr, d)" using re(2) by (metis not_None_eq surj_pair)
    then have dd: "length d = unat c" "take (length (tf_data f)) d = tf_data f"
      using re(1) f(1) c(3) by (simp_all add: bytes_realloc_ok_def min.absorb1) (metis min.absorb1 order_refl take_all)
    let ?f1 = "f0\<lparr>tf_addr := addr, tf_data := d, tf_capacity := c\<rparr>"
    have ct: "contents ?f1 = contents f"
      using f(1,2) arg_cong [OF dd(2), of "take (unat (tf_size f))"] by (simp add: contents_def f0_def min.absorb1)
    obtain f' where "write_data off bs ?f1 = Inr (Inr (of_nat (length bs)), f')" "tf_lock f' = l" "tf_capacity f' = c"
        "length (tf_data f') = unat c" "unat (tf_size f') = max (unat (tf_size f)) (unat off + length bs)"
        "contents f' = take (unat off) (contents ?f1) @ bs @ drop (unat off + length bs) (contents ?f1)"
      using write_data_contents [of ?f1 off bs] dd(1) f c off n fits by (auto simp: f0_def)
    with True c d ct f n show ?thesis unfolding run by (auto simp: unlock_file_def contents_def)
  next
    case False
    then have lt: "unat off + length bs < unat (tf_capacity f)" using n by (simp add: word_le_nat_alt)
    have ct: "contents f0 = contents f" by (simp add: contents_def f0_def)
    obtain f' where "write_data off bs f0 = Inr (Inr (of_nat (length bs)), f')" "tf_lock f' = l" "tf_capacity f' = tf_capacity f"
        "length (tf_data f') = unat (tf_capacity f)" "unat (tf_size f') = max (unat (tf_size f)) (unat off + length bs)"
        "contents f' = take (unat off) (contents f0) @ bs @ drop (unat off + length bs) (contents f0)"
      using write_data_contents [of f0 off bs] f off fits lt by (auto simp: f0_def)
    with False ct f lt show ?thesis unfolding run by (auto simp: unlock_file_def contents_def)
  qed
qed

lemma tmpfs_read_contents:
  assumes ok: "unlocked (tf_lock f)" "length (tf_data f) = unat (tf_capacity f)" "unat (tf_size f) \<le> unat (tf_capacity f)"
    and small: "unat (tf_size f) \<le> 9223372036854775807" and cnt: "unat off + unat cnt \<le> 9223372036854775807"
  shows "unat off \<le> unat (tf_size f) \<Longrightarrow> \<exists>f'. tmpfs_resource_read off cnt f = Inr (take (unat cnt) (drop (unat off) (contents f)), f') \<and> contents f' = contents f"
    and "unat off > unat (tf_size f) \<Longrightarrow> unat (tf_capacity f) \<le> 9223372036854775807 \<Longrightarrow> tmpfs_resource_read off cnt f = Inl OutOfBounds"
proof -
  define act where "act = (if sint (tf_size f) \<le> sint (off + cnt) then cnt - ((off + cnt) - tf_size f) else cnt)"
  have oc: "unat (off + cnt) = unat off + unat cnt" using unat_add_small [of off cnt] cnt by simp
  have sl: "sint (tf_size f) \<le> sint (off + cnt) \<longleftrightarrow> unat (tf_size f) \<le> unat off + unat cnt" using sint_le_iff [OF small] oc cnt by simp
  have run: "tmpfs_resource_read off cnt f = rbind (load_bytes (tf_data f) off act)
     (\<lambda>bs. Inr (bs, f\<lparr>tf_lock := spinlock_release ((tf_lock f)\<lparr>lock_word := 1, last_acquirer := ''tmpfs_resource_read''\<rparr>)\<rparr>))"
    using ok(1) by (simp add: tmpfs_resource_read_def klock act_def Let_def)
  have eq: "cnt - ((off + cnt) - tf_size f) = tf_size f - off" by simp
  show "\<exists>f'. tmpfs_resource_read off cnt f = Inr (take (unat cnt) (drop (unat off) (contents f)), f') \<and> contents f' = contents f"
    if le: "unat off \<le> unat (tf_size f)"
  proof -
    have "unat act = min (unat cnt) (unat (tf_size f) - unat off)"
      using sl eq le unat_sub_small [of off "tf_size f"] by (auto simp: act_def word_le_nat_alt)
    moreover have "take (min (unat cnt) (unat (tf_size f) - unat off)) (drop (unat off) (tf_data f)) = take (unat cnt) (drop (unat off) (contents f))"
      by (simp add: contents_def drop_take min.commute)
    ultimately show ?thesis unfolding run using ok(2,3) le by (simp add: load_bytes_def contents_def)
  qed
  show "tmpfs_resource_read off cnt f = Inl OutOfBounds" if gt: "unat off > unat (tf_size f)" and cap: "unat (tf_capacity f) \<le> 9223372036854775807"
  proof -
    have "act = tf_size f - off" using sl eq gt by (simp add: act_def)
    moreover have "unat (tf_size f - off) = 18446744073709551616 - (unat off - unat (tf_size f))"
      using gt unat_sub_if' [of "tf_size f" off] by (simp add: word_le_nat_alt)
    ultimately show ?thesis unfolding run using ok(2) cap gt cnt by (simp add: load_bytes_def)
  qed
qed


lemma truncate_within:
  "\<not> len > tf_capacity f \<Longrightarrow> tmpfs_truncate alloc len f = Some (Inr (None, set_size len f))"
  by (simp add: tmpfs_truncate_def)

text \<open>C22. A file of the memory file system is a sequence of bytes: writing at an offset within it replaces the bytes there and
  extends it, growing the block when needed, and reading what was written gives it back; reading within the file returns
  its bytes up to the end. But reading at an offset behind the end copies almost \<open>2^64\<close> bytes, and truncating to zero and
  extending again brings the old contents back.\<close>

theorem tmpfs_file_is_byte_sequence:
  assumes ok: "file_ok f" and re: "bytes_realloc_ok realloc" "\<And>d n. realloc d n \<noteq> None"
    and off: "unat off \<le> unat (tf_size f)" and fits: "unat off + length bs < 4611686018427387904"
    and cnt: "unat off + unat cnt \<le> 9223372036854775807"
    and far: "unat (tf_size f) < unat far" "unat far + unat cnt \<le> 9223372036854775807" and n: "unat n \<le> unat (tf_size f)"
  shows "(\<exists>f' f''. tmpfs_resource_write realloc off bs f = Some (Inr (Inr (of_nat (length bs)), f')) \<and>
      contents f' = take (unat off) (contents f) @ bs @ drop (unat off + length bs) (contents f) \<and>
      tmpfs_resource_read off (of_nat (length bs)) f' = Inr (bs, f'')) \<and>
    (\<exists>f'. tmpfs_resource_read off cnt f = Inr (take (unat cnt) (drop (unat off) (contents f)), f')) \<and>
    tmpfs_resource_read far cnt f = Inl OutOfBounds \<and>
    (\<exists>f1 f2. tmpfs_truncate alloc 0 f = Some (Inr (None, f1)) \<and> contents f1 = [] \<and>
      tmpfs_truncate alloc n f1 = Some (Inr (None, f2)) \<and> contents f2 = take (unat n) (contents f))"
proof (intro conjI)
  have f: "unlocked (tf_lock f)" "length (tf_data f) = unat (tf_capacity f)" "unat (tf_size f) \<le> unat (tf_capacity f)"
    "unat (tf_size f) \<le> 9223372036854775807" "unat (tf_capacity f) \<le> 9223372036854775807" using ok by (simp_all add: file_ok_def)
  obtain f' where f': "tmpfs_resource_write realloc off bs f = Some (Inr (Inr (of_nat (length bs)), f'))"
      "unlocked (tf_lock f')" "length (tf_data f') = unat (tf_capacity f')" "unat (tf_size f') \<le> unat (tf_capacity f')"
      "contents f' = take (unat off) (contents f) @ bs @ drop (unat off + length bs) (contents f)"
    using tmpfs_write_contents [OF ok re off fits] by blast
  have lc: "length (contents g) = unat (tf_size g)" if "length (tf_data g) = unat (tf_capacity g)" "unat (tf_size g) \<le> unat (tf_capacity g)" for g
    using that by (simp add: contents_def)
  have "unat (tf_size f') = max (unat (tf_size f)) (unat off + length bs)"
    using arg_cong [OF f'(5), of length] lc [OF f'(3,4)] lc [OF f(2,3)] off by simp
  then have s': "unat (tf_size f') \<le> 9223372036854775807" "unat off \<le> unat (tf_size f')" using fits f(4) by simp_all
  have ob: "unat (of_nat (length bs) :: u64) = length bs" using fits by (simp add: unat_of_nat_small)
  then have "unat off + unat (of_nat (length bs) :: u64) \<le> 9223372036854775807" using fits by simp
  from tmpfs_read_contents(1) [OF f'(2,3,4) s'(1) this s'(2)] obtain f'' where
    "tmpfs_resource_read off (of_nat (length bs)) f' = Inr (take (length bs) (drop (unat off) (contents f')), f'')" unfolding ob by blast
  moreover have "take (length bs) (drop (unat off) (contents f')) = bs" unfolding f'(5) using lc [OF f(2,3)] off by simp
  ultimately show "\<exists>f' f''. tmpfs_resource_write realloc off bs f = Some (Inr (Inr (of_nat (length bs)), f')) \<and>
      contents f' = take (unat off) (contents f) @ bs @ drop (unat off + length bs) (contents f) \<and>
      tmpfs_resource_read off (of_nat (length bs)) f' = Inr (bs, f'')" using f'(1,5) by auto
  show "\<exists>f'. tmpfs_resource_read off cnt f = Inr (take (unat cnt) (drop (unat off) (contents f)), f')"
    using tmpfs_read_contents(1) [OF f(1-4) cnt off] by blast
  show "tmpfs_resource_read far cnt f = Inl OutOfBounds" by (rule tmpfs_read_contents(2) [OF f(1-4) far(2,1) f(5)])
  have "\<not> n > tf_capacity f" using n f(3) by (simp add: word_less_nat_alt)
  then show "\<exists>f1 f2. tmpfs_truncate alloc 0 f = Some (Inr (None, f1)) \<and> contents f1 = [] \<and>
      tmpfs_truncate alloc n f1 = Some (Inr (None, f2)) \<and> contents f2 = take (unat n) (contents f)"
    using n by (simp add: truncate_within set_size_def contents_def min.absorb1)
qed

definition bytes_realloc :: "u8 list \<Rightarrow> u64 \<Rightarrow> (u64 \<times> u8 list) option" where
  "bytes_realloc d n = Some (0x9000, take (unat n) d @ replicate (unat n - length d) 0)"

lemma bytes_realloc_works: "bytes_realloc_ok bytes_realloc" "bytes_realloc d n \<noteq> None"
  by (auto simp: bytes_realloc_ok_def bytes_realloc_def min_def)

definition file_example :: tmpfs_file where
  "file_example = (tmpfs_file_new linux_abi 0x81a4 0x8000)\<lparr>tf_data := [1, 2, 3] @ replicate 4093 0, tf_size := 3\<rparr>"

lemma file_example_ok: "file_ok file_example" "tf_size file_example = 3" "contents file_example = [1, 2, 3]"
  by (simp_all add: file_ok_def file_example_def tmpfs_file_new_def linux_abi_def is_type_def contents_def Let_def SPINLOCK_INIT_def)

theorem tmpfs_file_is_byte_sequence_witness:
  "\<exists>f'. tmpfs_resource_write bytes_realloc 2 [7, 8] file_example = Some (Inr (Inr 2, f')) \<and> contents f' = [1, 2, 7, 8] \<and>
     tmpfs_resource_read 4 1 file_example = Inl OutOfBounds"
  using tmpfs_file_is_byte_sequence [OF file_example_ok(1) bytes_realloc_works, of 2 "[7, 8]" 1 4 1]
  by (auto simp: file_example_ok)

subsection \<open>The file system\<close>

text \<open>
  \<open>inode_counter\<close> and \<open>fs_dev\<close> are fields of the instance at an address, \<open>st_ino\<close> and \<open>st_dev\<close> of a resource.  \<open>init\<close> is
  the driver state of a new resource and \<open>rops\<close> the record of the functions above.
\<close>

record 's tvfs = "'s vfs" +
  fs_dev :: "u64 \<Rightarrow> u64"
  inode_counter :: "u64 \<Rightarrow> u64"
  st_ino :: "u64 \<Rightarrow> u64"
  st_dev :: "u64 \<Rightarrow> u64"

definition create_tmpfs_resource :: "(u32 \<Rightarrow> 's) \<Rightarrow> 's rops \<Rightarrow> u64 \<Rightarrow> u32 \<Rightarrow> ('s, 'm) tvfs_scheme \<Rightarrow> u64 \<times> ('s, 'm) tvfs_scheme" where
  "create_tmpfs_resource init rops fs mode s =
     (let (r, s1) = vfs_alloc s
      in if r = 0 then (0, s1)
         else (r, s1\<lparr>v_files := on_resource r (\<lambda>_. Resource 0 0 mode 0 (init mode) rops) (v_files s1), st_dev := (st_dev s1)(r := fs_dev s1 fs),
                st_ino := (st_ino s1)(r := inode_counter s1 fs), inode_counter := (inode_counter s1)(fs := inode_counter s1 fs + 1)\<rparr>))"

text \<open>A node with a new resource; a resource that cannot be allocated frees the node again.\<close>

definition tmpfs_node ::
  "(u32 \<Rightarrow> 's) \<Rightarrow> 's rops \<Rightarrow> u64 \<Rightarrow> u64 \<Rightarrow> string \<Rightarrow> bool \<Rightarrow> u32 \<Rightarrow> ('s, 'm) tvfs_scheme \<Rightarrow> (u64 \<times> ('s, 'm) tvfs_scheme) result" where
  "tmpfs_node init rops fs parent name dir mode s =
     rbind (vfs_create_node fs parent name dir s) (\<lambda>(n, s1).
       let (r, s2) = create_tmpfs_resource init rops fs mode s1
       in if r = 0 then Inr (0, s2\<lparr>v_files := free n (v_files s2)\<rparr>)
          else Inr (n, put_node n (\<lambda>v. v\<lparr>vn_resource := r\<rparr>) s2))"

definition tmpfs_create ::
  "abi \<Rightarrow> (u32 \<Rightarrow> 's) \<Rightarrow> 's rops \<Rightarrow> u64 \<Rightarrow> u64 \<Rightarrow> string \<Rightarrow> u32 \<Rightarrow> ('s, 'm) tvfs_scheme \<Rightarrow> (u64 \<times> ('s, 'm) tvfs_scheme) result" where
  "tmpfs_create a init rops fs parent name mode s = tmpfs_node init rops fs parent name (is_type a (S_IFDIR a) mode) mode s"

definition tmpfs_symlink ::
  "abi \<Rightarrow> (u32 \<Rightarrow> 's) \<Rightarrow> 's rops \<Rightarrow> u64 \<Rightarrow> u64 \<Rightarrow> string \<Rightarrow> string \<Rightarrow> ('s, 'm) tvfs_scheme \<Rightarrow> (u64 \<times> ('s, 'm) tvfs_scheme) result" where
  "tmpfs_symlink a init rops fs parent name dest s =
     rbind (tmpfs_node init rops fs parent name False (0x1ff OR S_IFLNK a) s) (\<lambda>(n, s1).
       Inr (n, if n = 0 then s1 else put_node n (\<lambda>v. v\<lparr>symlink_target := Some dest\<rparr>) s1))"

definition tmpfs_link :: "abi \<Rightarrow> u64 \<Rightarrow> u64 \<Rightarrow> string \<Rightarrow> u64 \<Rightarrow> ('s, 'm) tvfs_scheme \<Rightarrow> ((errno option + u64) \<times> ('s, 'm) tvfs_scheme) result" where
  "tmpfs_link a fs parent name n s =
     rbind (node_mode n s) (\<lambda>mode.
       if is_type a (S_IFDIR a) mode then Inr (Inl (Some EISDIR), s)
       else rbind (vfs_create_node fs parent name False s) (\<lambda>(k, s1).
         Inr (Inr k, put_node k (\<lambda>v. v\<lparr>vn_resource := vn_resource (nodes s1 n)\<rparr>) s1)))"

definition tmpfs_instantiate :: "abi \<Rightarrow> (u32 \<Rightarrow> 's) \<Rightarrow> 's rops \<Rightarrow> u64 \<Rightarrow> ('s, 'm) tvfs_scheme fsops" where
  "tmpfs_instantiate a init rops fs = \<lparr>fs_populate = None, fs_create = tmpfs_create a init rops fs, fs_symlink = tmpfs_symlink a init rops fs,
     fs_link = tmpfs_link a fs\<rparr>"

text \<open>Mounting makes a new instance, at the next address; a failed allocation is not tested.\<close>

definition tmpfs_mount :: "abi \<Rightarrow> (u32 \<Rightarrow> 's) \<Rightarrow> 's rops \<Rightarrow> u64 \<Rightarrow> string \<Rightarrow> u64 \<Rightarrow> ('s, 'm) tvfs_scheme \<Rightarrow> (u64 \<times> ('s, 'm) tvfs_scheme) result" where
  "tmpfs_mount a init rops parent name source s =
     (let (fs, s1) = vfs_alloc s
      in if fs = 0 then Inl NullDeref
         else tmpfs_create a init rops fs parent name (0x1a4 OR S_IFDIR a) (s1\<lparr>fs_dev := (fs_dev s1)(fs := 0), inode_counter := (inode_counter s1)(fs := 0)\<rparr>))"

definition tmpfs_init :: "u64 \<Rightarrow> ('s, 'm) vfs_scheme \<Rightarrow> ('s, 'm) vfs_scheme result" where
  "tmpfs_init mount_fn s = vfs_add_filesystem mount_fn ''tmpfs'' s"

subsection \<open>Devices\<close>

text \<open>
  \<open>fs/devtmpfs.c\<close>: the functions on files and nodes repeat those above; there is one instance, at \<open>dfs\<close>, with the root
  node \<open>root\<close> that every mount returns, and drivers add their resources to it by name.
\<close>

definition devtmpfs_resource_read :: "u64 \<Rightarrow> u64 \<Rightarrow> tmpfs_file \<Rightarrow> (u8 list \<times> tmpfs_file) result" where
  "devtmpfs_resource_read = tmpfs_resource_read"

definition devtmpfs_resource_write ::
  "(u8 list \<Rightarrow> u64 \<Rightarrow> (u64 \<times> u8 list) option) \<Rightarrow> u64 \<Rightarrow> u8 list \<Rightarrow> tmpfs_file \<Rightarrow> ((errno + u64) \<times> tmpfs_file) result option" where
  "devtmpfs_resource_write = tmpfs_resource_write"

definition devtmpfs_resource_mmap :: "u64 \<Rightarrow> u64 \<Rightarrow> u64 \<Rightarrow> bool \<Rightarrow> tmpfs_file \<Rightarrow> (u64 \<times> u8 list option \<times> tmpfs_file) result" where
  "devtmpfs_resource_mmap = tmpfs_resource_mmap"

definition devtmpfs_resource_msync :: "u64 \<Rightarrow> u8 list \<Rightarrow> bool \<Rightarrow> tmpfs_file \<Rightarrow> tmpfs_file result" where
  "devtmpfs_resource_msync = tmpfs_resource_msync"

definition devtmpfs_truncate :: "(u64 \<Rightarrow> (u64 \<times> u8 list) option) \<Rightarrow> u64 \<Rightarrow> tmpfs_file \<Rightarrow> (errno option \<times> tmpfs_file) result option" where
  "devtmpfs_truncate = tmpfs_truncate"

definition create_devtmpfs_resource :: "(u32 \<Rightarrow> 's) \<Rightarrow> 's rops \<Rightarrow> u64 \<Rightarrow> u32 \<Rightarrow> ('s, 'm) tvfs_scheme \<Rightarrow> u64 \<times> ('s, 'm) tvfs_scheme" where
  "create_devtmpfs_resource = create_tmpfs_resource"

definition devtmpfs_create ::
  "abi \<Rightarrow> (u32 \<Rightarrow> 's) \<Rightarrow> 's rops \<Rightarrow> u64 \<Rightarrow> u64 \<Rightarrow> string \<Rightarrow> u32 \<Rightarrow> ('s, 'm) tvfs_scheme \<Rightarrow> (u64 \<times> ('s, 'm) tvfs_scheme) result" where
  "devtmpfs_create = tmpfs_create"

definition devtmpfs_symlink ::
  "abi \<Rightarrow> (u32 \<Rightarrow> 's) \<Rightarrow> 's rops \<Rightarrow> u64 \<Rightarrow> u64 \<Rightarrow> string \<Rightarrow> string \<Rightarrow> ('s, 'm) tvfs_scheme \<Rightarrow> (u64 \<times> ('s, 'm) tvfs_scheme) result" where
  "devtmpfs_symlink = tmpfs_symlink"

definition devtmpfs_link :: "abi \<Rightarrow> u64 \<Rightarrow> u64 \<Rightarrow> string \<Rightarrow> u64 \<Rightarrow> ('s, 'm) tvfs_scheme \<Rightarrow> ((errno option + u64) \<times> ('s, 'm) tvfs_scheme) result" where
  "devtmpfs_link = tmpfs_link"

definition devtmpfs_instantiate :: "abi \<Rightarrow> (u32 \<Rightarrow> 's) \<Rightarrow> 's rops \<Rightarrow> u64 \<Rightarrow> ('s, 'm) tvfs_scheme fsops" where
  "devtmpfs_instantiate a init rops fs = \<lparr>fs_populate = None, fs_create = devtmpfs_create a init rops fs, fs_symlink = devtmpfs_symlink a init rops fs,
     fs_link = devtmpfs_link a fs\<rparr>"

definition devtmpfs_mount :: "u64 \<Rightarrow> u64 \<Rightarrow> string \<Rightarrow> u64 \<Rightarrow> ('s, 'm) tvfs_scheme \<Rightarrow> (u64 \<times> ('s, 'm) tvfs_scheme) result" where
  "devtmpfs_mount root parent name source s = Inr (root, s)"

text \<open>The new instance and its root.\<close>

definition devtmpfs_init :: "abi \<Rightarrow> (u32 \<Rightarrow> 's) \<Rightarrow> 's rops \<Rightarrow> u64 \<Rightarrow> ('s, 'm) tvfs_scheme \<Rightarrow> (u64 \<times> u64 \<times> ('s, 'm) tvfs_scheme) result" where
  "devtmpfs_init a init rops mount_fn s =
     (let (dfs, s1) = vfs_alloc s
      in if dfs = 0 then Inl (Panic ''Failed to instantiate devtmpfs'')
         else rbind (devtmpfs_create a init rops dfs 0 [] (0x1ed OR S_IFDIR a) (s1\<lparr>fs_dev := (fs_dev s1)(dfs := 0), inode_counter := (inode_counter s1)(dfs := 0)\<rparr>)) (\<lambda>(root, s2).
           if root = 0 then Inl (Panic ''Failed to create root devtmpfs node'')
           else rbind (vfs_add_filesystem mount_fn ''devtmpfs'' s2) (\<lambda>s3. Inr (dfs, root, s3))))"

definition devtmpfs_add_device ::
  "abi \<Rightarrow> (u64 \<Rightarrow> ('s, 'm) tvfs_scheme fsops) \<Rightarrow> u64 \<Rightarrow> u64 \<Rightarrow> u64 \<Rightarrow> string \<Rightarrow> ('s, 'm) tvfs_scheme \<Rightarrow> (('s, 'm) tvfs_scheme, unit) vcall" where
  "devtmpfs_add_device a ops dfs root device name s =
     obind (vfs_get_node a ops root (Some name) False s) (\<lambda>(r, s1).
       case r of
         Inr _ \<Rightarrow> Some (Inr (Inl (Some EEXIST), s1))
       | Inl _ \<Rightarrow>
           obind (Some (vfs_create_node dfs root name False s1)) (\<lambda>(n, s2).
             let s3 = put_node n (\<lambda>v. v\<lparr>vn_resource := device\<rparr>) s2;
                 s4 = s3\<lparr>st_dev := (st_dev s3)(device := fs_dev s3 dfs), st_ino := (st_ino s3)(device := inode_counter s3 dfs),
                        inode_counter := (inode_counter s3)(dfs := inode_counter s3 dfs + 1)\<rparr>
             in lock_vfs ''devtmpfs_add_device'' s4 (\<lambda>s5. obind (Some (child_insert root name n s5)) (\<lambda>s6. leave (Inr ()) s6))))"

subsection \<open>Creating files\<close>

text \<open>The next two addresses are those of a new node and a new resource.\<close>

definition tmpfs_ready :: "('s, 'm) tvfs_scheme \<Rightarrow> bool" where
  "tmpfs_ready s \<longleftrightarrow> (case v_fresh s of n # r # _ \<Rightarrow> node_fresh n s \<and> res_fresh r s | _ \<Rightarrow> False)"

lemma tmpfs_create_adds:
  assumes "tmpfs_ready s"
  shows "\<exists>n s1. tmpfs_create a init rops fs d name mode s = Inr (n, s1) \<and> node_added a fs d name mode n s s1"
proof -
  obtain n r rest where f: "v_fresh s = n # r # rest" "node_fresh n s" "res_fresh r s"
    using assms unfolding tmpfs_ready_def by (auto split: list.splits)
  have nz: "n \<noteq> 0" "r \<noteq> 0" using f(2,3) by (simp_all add: node_fresh_def res_fresh_def)
  then show ?thesis using f
    by (simp add: tmpfs_create_def tmpfs_node_def vfs_create_node_def vfs_alloc_def create_tmpfs_resource_def node_added_def Let_def put_node_def fun_eq_iff)
      (auto intro!: exI [of _ r])
qed

interpretation tmpfs: file_system a "tmpfs_instantiate a init rops" fs tmpfs_ready for a init rops fs
proof
  show "\<exists>n s1. fs_create (tmpfs_instantiate a init rops fs) d name mode s = Inr (n, s1) \<and> node_added a fs d name mode n s s1"
    if "tmpfs_ready s" for s d name mode
    using tmpfs_create_adds [OF that] by (simp add: tmpfs_instantiate_def)
  show "tmpfs_ready (s\<lparr>vfs_lock := l\<rparr>)" if "tmpfs_ready s" for s l
    using that by (simp add: tmpfs_ready_def node_fresh_def res_fresh_def split: list.splits)
qed

text \<open>C21. Creating a file through the virtual file system on the memory file system: when the path's directory exists and has no such
  entry, \<open>vfs_create\<close> returns a new node of the given mode, looking the path up afterwards finds that node, creating it again fails
  with \<open>EEXIST\<close>, every other entry of every directory stays as it was, and the lock is released.\<close>

theorem created_file_is_found:
  fixes s :: "('s, 'm) tvfs_scheme"
  assumes "tmpfs_ready s" "fs \<noteq> 0" "unlocked (vfs_lock s)" and "plain_tree a (tmpfs_instantiate a init rops) s"
    and "reduce_plain parent s = Some (Inr p)" "reduce_plain (vfs_root s) s = Some (Inr rt)"
    and "path \<noteq> []" "comps path \<noteq> []" "last path \<noteq> CHR ''/''"
      "walk a (if hd path = CHR ''/'' then rt else p) (butlast (comps path)) s = Some d" "d \<noteq> 0"
    and "entry d (last (comps path)) s = None" "vn_children (nodes s d) = Some cs" "filesystem (nodes s d) = fs" "length (last (comps path)) \<le> 256"
    and "\<not> is_type a (S_IFDIR a) mode" "\<not> is_type a (S_IFLNK a) mode"
  shows "\<exists>n s2 s3 s4. vfs_create a (tmpfs_instantiate a init rops) parent (Some path) mode s = Some (Inr (Inr n, s2)) \<and> node_mode n s2 = Inr mode \<and>
    vfs_get_node a (tmpfs_instantiate a init rops) parent (Some path) follow s2 = Some (Inr (Inr n, s3)) \<and>
    vfs_create a (tmpfs_instantiate a init rops) parent (Some path) mode' s2 = Some (Inr (Inl (Some EEXIST), s4)) \<and>
    (\<forall>k e. (k, e) \<noteq> (d, last (comps path)) \<and> k \<noteq> n \<longrightarrow> entry k e s2 = entry k e s) \<and> unlocked (vfs_lock s2)"
  using tmpfs.create_then_lookup [OF assms, of follow mode'] by blast


definition tvfs_example :: "unit tvfs" where
  "tvfs_example = vfs.extend (vfs_example False) (tvfs.fields (\<lambda>_. 0) (\<lambda>_. 0) (\<lambda>_. 0) (\<lambda>_. 0))"

lemma tvfs_example_simps:
  "nodes tvfs_example = example_nodes False" "v_files tvfs_example = example_files" "vfs_root tvfs_example = 0x100"
  "vfs_lock tvfs_example = SPINLOCK_INIT" "v_fresh tvfs_example = [0x400, 0x500]"
  by (simp_all add: tvfs_example_def vfs_example_def vfs.extend_def tvfs.fields_def)

theorem created_file_is_found_witness:
  "\<exists>n s2 s3. vfs_create linux_abi (tmpfs_instantiate linux_abi (\<lambda>_. ()) (r_ops (resource_create (\<lambda>_. 0) ()))) 0x100 (Some ''d/g'') 0x81a4 tvfs_example =
       Some (Inr (Inr n, s2)) \<and>
     vfs_get_node linux_abi (tmpfs_instantiate linux_abi (\<lambda>_. ()) (r_ops (resource_create (\<lambda>_. 0) ()))) 0x100 (Some ''d/g'') True s2 = Some (Inr (Inr n, s3))"
proof -
  let ?ops = "tmpfs_instantiate linux_abi (\<lambda>_. ()) (r_ops (resource_create (\<lambda>_. 0) ()))" and ?s = tvfs_example
  note ex = tvfs_example_simps
  have t: "plain_tree linux_abi ?ops ?s" by (rule example_tree [OF ex(1,2)]) (simp add: tmpfs_instantiate_def)
  have c: "comps ''d/g'' = [''d'', ''g'']" by simp
  have e: "entry 0x200 ''d'' ?s = Some 0x210" "entry 0x210 ''g'' ?s = None"
    by (simp_all add: entry_def example_children [OF ex(1)] example_reduce [OF ex(1)])
  have d: "is_dir linux_abi 0x210 ?s" by (simp add: is_dir_def example_resource [OF ex(1)] ex(2) example_files_def is_type_def linux_abi_def)
  have fr: "tmpfs_ready ?s"
    by (auto simp: tmpfs_ready_def ex node_fresh_def res_fresh_def example_children [OF ex(1)] example_nodes_def dir_node_def vnode_zero_def)
  have "unlocked (vfs_lock ?s)" "vn_children (nodes ?s 0x210) = Some [(''f'', 0x220)]" "filesystem (nodes ?s 0x210) = 0x50"
    "walk linux_abi 0x200 [''d''] ?s = Some 0x210" "\<not> is_type linux_abi (S_IFDIR linux_abi) 0x81a4" "\<not> is_type linux_abi (S_IFLNK linux_abi) 0x81a4"
    using e d by (simp_all add: ex SPINLOCK_INIT_def example_nodes_def dir_node_def is_type_def linux_abi_def)
  note h = this
  show ?thesis
    using created_file_is_found [OF fr _ h(1) t, of "0x50" "0x100" "0x200" "0x200" "''d/g''" "0x210" "[(''f'', 0x220)]" "0x81a4" True 0]
      example_reduce(1) [OF ex(1)] ex(3) h e c by auto
qed


end
