(* ===== verification/Lyre_Packet.thy ===== *)
theory Lyre_Packet
  imports Lyre_Bitmap
begin

section \<open>Internet packets (dev/net/net.k.h, dev/net/net.c)\<close>

text \<open>
  The packet formats of \<open>dev/net/net.k.h\<close>, the checksum, fragmentation and reassembly.  A header is a
  record with the value every field holds in memory, so that fields in network order go through
  \<open>bswap16\<close> as in the code; \<open>inetheader_bytes\<close> and \<open>inetheader_of\<close> are the layout of the packed
  struct.  Packets are lists of bytes; reading past the end of one is a fault.
\<close>

subsection \<open>Words in memory\<close>

definition bswap16 :: "u16 \<Rightarrow> u16" where
  "bswap16 w = or (push_bit 8 w) (drop_bit 8 w)"

definition le16 :: "u16 \<Rightarrow> u8 list" where
  "le16 w = [ucast w, ucast (drop_bit 8 w)]"

definition le32 :: "u32 \<Rightarrow> u8 list" where
  "le32 w = [ucast w, ucast (drop_bit 8 w), ucast (drop_bit 16 w), ucast (drop_bit 24 w)]"

definition get16 :: "u8 list \<Rightarrow> nat \<Rightarrow> u16" where
  "get16 bs i = or (ucast (bs ! i)) (push_bit 8 (ucast (bs ! Suc i)))"

definition get32 :: "u8 list \<Rightarrow> nat \<Rightarrow> u32" where
  "get32 bs i = or (or (ucast (bs ! i)) (push_bit 8 (ucast (bs ! (i + 1)))))
     (or (push_bit 16 (ucast (bs ! (i + 2)))) (push_bit 24 (ucast (bs ! (i + 3)))))"

text \<open>A copy of \<open>n\<close> bytes out of a buffer.\<close>

definition copy_from :: "u8 list \<Rightarrow> nat \<Rightarrow> nat \<Rightarrow> u8 list result" where
  "copy_from bs off n = (if off + n \<le> length bs then Inr (take n (drop off bs)) else Inl OutOfBounds)"

subsection \<open>The checksum\<close>

fun csum_loop :: "u32 \<Rightarrow> u8 list \<Rightarrow> u32" where
  "csum_loop csum (a # b # bs) = csum_loop (csum + (ucast a + 256 * ucast b)) bs"
| "csum_loop csum _ = csum"

definition net_checksum :: "u8 list \<Rightarrow> u16" where
  "net_checksum data =
     (let csum = csum_loop 0 data;
          csum1 = and csum 0xFFFF + drop_bit 16 csum;
          csum2 = (if csum1 > 0xFFFF then csum1 + 1 else csum1)
      in ucast (not csum2))"

subsection \<open>Headers\<close>

record net_inetheader =
  ip_ihl :: u8
  ip_version :: u8
  ip_ecn :: u8
  ip_dscp :: u8
  ip_len :: u16
  ip_id :: u16
  ip_fragoff :: u16
  ip_ttl :: u8
  ip_protocol :: u8
  ip_csum :: u16
  ip_src :: u32
  ip_dest :: u32

definition inetheader_bytes :: "net_inetheader \<Rightarrow> u8 list" where
  "inetheader_bytes h =
     [or (and (ip_ihl h) 15) (push_bit 4 (ip_version h)), or (and (ip_ecn h) 3) (push_bit 2 (ip_dscp h))] @
     le16 (ip_len h) @ le16 (ip_id h) @ le16 (ip_fragoff h) @ [ip_ttl h, ip_protocol h] @
     le16 (ip_csum h) @ le32 (ip_src h) @ le32 (ip_dest h)"

definition inetheader_of :: "u8 list \<Rightarrow> net_inetheader" where
  "inetheader_of bs =
     \<lparr>ip_ihl = and (bs ! 0) 15, ip_version = drop_bit 4 (bs ! 0), ip_ecn = and (bs ! 1) 3,
      ip_dscp = drop_bit 2 (bs ! 1), ip_len = get16 bs 2, ip_id = get16 bs 4, ip_fragoff = get16 bs 6,
      ip_ttl = bs ! 8, ip_protocol = bs ! 9, ip_csum = get16 bs 10, ip_src = get32 bs 12, ip_dest = get32 bs 16\<rparr>"

text \<open>\<open>sizeof(struct net_inetheader)\<close>, and the flags and the offset of a fragment.\<close>

definition INETHEADER_SIZE :: nat where
  "INETHEADER_SIZE = 20"

definition NET_IPFLAGMF :: u16 where
  "NET_IPFLAGMF = 0x2000"

definition NET_IPOFFMASK :: u16 where
  "NET_IPOFFMASK = 0x1fff"

text \<open>Storing the checksum of a header in the header.\<close>

definition set_csum :: "net_inetheader \<Rightarrow> net_inetheader" where
  "set_csum h = h\<lparr>ip_csum := net_checksum (inetheader_bytes (h\<lparr>ip_csum := 0\<rparr>))\<rparr>"

subsection \<open>Fragmentation\<close>

text \<open>
  One turn of the loop of \<open>net_fragment\<close>.  \<open>h\<close> is the header \<open>inetheader\<close> points to: at first the one in
  \<open>buffer\<close>, then the one in the fragment of the turn before, which has been freed.  \<open>freed\<close> says what that
  memory reads as once the next fragment has been allocated.  The result is the frame handed to the
  driver and the values for the next turn.
\<close>

record frag_state =
  fr_header :: net_inetheader
  fr_poff :: u16
  fr_fragoff :: u16
  fr_left :: u16

definition frag_turn :: "u64 \<Rightarrow> nat \<Rightarrow> u8 list \<Rightarrow> u16 \<Rightarrow> u16 \<Rightarrow> frag_state \<Rightarrow> (u8 list \<times> frag_state) result" where
  "frag_turn mtu L buffer mf nfb s =
     (let last_one = ucast (fr_left s) \<le> mtu - 20 - of_nat L;
          tmp = or mf (and NET_IPOFFMASK (fr_fragoff s));
          tmp1 = (if last_one then tmp else or tmp NET_IPFLAGMF);
          cop = (if last_one then fr_left s else nfb * 8)
      in rbind (copy_from buffer (unat (fr_poff s)) (unat cop)) (\<lambda>payload.
           let h = set_csum ((fr_header s)\<lparr>ip_fragoff := bswap16 tmp1, ip_len := bswap16 (cop + 20)\<rparr>)
           in Inr (take L buffer @ inetheader_bytes h @ payload,
                s\<lparr>fr_header := h, fr_poff := fr_poff s + cop, fr_fragoff := fr_fragoff s + nfb, fr_left := fr_left s - cop\<rparr>)))"

partial_function (option) frag_loop ::
  "(net_inetheader \<Rightarrow> net_inetheader) \<Rightarrow> u64 \<Rightarrow> nat \<Rightarrow> u8 list \<Rightarrow> u16 \<Rightarrow> u16 \<Rightarrow> frag_state \<Rightarrow> u8 list list result option" where
  "frag_loop freed mtu L buffer mf nfb s =
     (if fr_left s = 0 then Some (Inr [])
      else case frag_turn mtu L buffer mf nfb s of
             Inl e \<Rightarrow> Some (Inl e)
           | Inr r \<Rightarrow> Option.bind (frag_loop freed mtu L buffer mf nfb ((snd r)\<lparr>fr_header := freed (fr_header (snd r))\<rparr>))
               (\<lambda>rest. case rest of Inl e \<Rightarrow> Some (Inl e) | Inr fs \<Rightarrow> Some (Inr (fst r # fs))))"

text \<open>The frames \<open>net_fragment\<close> hands to the driver, for a link layer frame of \<open>L\<close> bytes.\<close>

definition net_fragment :: "(net_inetheader \<Rightarrow> net_inetheader) \<Rightarrow> u64 \<Rightarrow> nat \<Rightarrow> u8 list \<Rightarrow> u8 list list result option" where
  "net_fragment freed mtu L buffer =
     (let h = inetheader_of (drop L buffer);
          tmp = bswap16 (ip_fragoff h)
      in frag_loop freed mtu L buffer (and tmp NET_IPFLAGMF) (ucast ((mtu - 20 - of_nat L) div 8))
           \<lparr>fr_header = h, fr_poff = of_nat L + 20, fr_fragoff = and tmp NET_IPOFFMASK,
            fr_left = of_nat (length buffer) - 20 - of_nat L\<rparr>)"

subsection \<open>Reassembly\<close>

record net_reassmetadata =
  rm_timer :: u8
  rm_data :: "u8 list"
  rm_len :: u16
  rm_header :: net_inetheader

definition same_datagram :: "net_inetheader \<Rightarrow> net_reassmetadata \<Rightarrow> bool" where
  "same_datagram h m \<longleftrightarrow> ip_id (rm_header m) = ip_id h \<and> ip_src (rm_header m) = ip_src h \<and> ip_dest (rm_header m) = ip_dest h"

text \<open>The loop over the vector keeps the last entry that matches.\<close>

fun find_last :: "('a \<Rightarrow> bool) \<Rightarrow> 'a list \<Rightarrow> nat option" where
  "find_last P [] = None"
| "find_last P (x # xs) = (case find_last P xs of Some i \<Rightarrow> Some (Suc i) | None \<Rightarrow> if P x then Some 0 else None)"

text \<open>
  \<open>slab_realloc\<close>: the bytes a larger size adds read as zero, as those of a new block do.  A block that
  was made smaller before could uncover its old bytes; the datagram would have to be longer than
  65535 bytes for that.
\<close>

definition resize :: "u8 list \<Rightarrow> nat \<Rightarrow> u8 list" where
  "resize bs n = take n bs @ replicate (n - length bs) 0"

definition copy_into :: "u8 list \<Rightarrow> nat \<Rightarrow> u8 list \<Rightarrow> u8 list result" where
  "copy_into bs off src =
     (if off + length src \<le> length bs then Inr (take off bs @ src @ drop (off + length src) bs) else Inl OutOfBounds)"

text \<open>
  A fragment with header \<open>h\<close> and \<open>body\<close>, the bytes received behind the header, is added to the entry at
  \<open>i\<close>; with the last fragment the entry is removed and the datagram returned.
\<close>

definition add_fragment ::
  "nat \<Rightarrow> net_inetheader \<Rightarrow> u8 list \<Rightarrow> net_reassmetadata list \<Rightarrow> ((net_inetheader \<times> u8 list) option \<times> net_reassmetadata list) result" where
  "add_fragment i h body metas =
     (let m = metas ! i;
          fragoff = and (bswap16 (ip_fragoff h)) NET_IPOFFMASK * 8;
          n = bswap16 (ip_len h) - 20;
          total = rm_len m + n
      in rbind (copy_from body 0 (unat n)) (\<lambda>src.
         rbind (copy_into (resize (rm_data m) (unat total)) (unat fragoff) src) (\<lambda>d.
           if and (ip_fragoff h) (bswap16 NET_IPFLAGMF) = 0
           then Inr (Some (set_csum ((rm_header m)\<lparr>ip_fragoff := 0, ip_len := bswap16 (20 + total)\<rparr>), d),
                  take i metas @ drop (Suc i) metas)
           else Inr (None, metas[i := m\<lparr>rm_data := d, rm_len := total\<rparr>]))))"

definition net_reassemble ::
  "net_inetheader \<Rightarrow> u8 list \<Rightarrow> net_reassmetadata list \<Rightarrow> ((net_inetheader \<times> u8 list) option \<times> net_reassmetadata list) result" where
  "net_reassemble h body metas =
     (if unat (ip_ihl h) * 4 > INETHEADER_SIZE then Inr (None, metas)
      else case find_last (same_datagram h) metas of
             Some i \<Rightarrow> add_fragment i h body metas
           | None \<Rightarrow>
               if and (bswap16 (ip_fragoff h)) NET_IPOFFMASK * 8 \<noteq> 0 then Inr (None, metas)
               else add_fragment (length metas) h body
                      (metas @ [\<lparr>rm_timer = 3, rm_data = replicate (unat (bswap16 (ip_len h))) 0, rm_len = 0, rm_header = h\<rparr>]))"

text \<open>
  One round of \<open>net_fraghandler\<close>: the loop goes on with the next index after it has removed the entry
  at the current one, so the entry that moved there is passed over.
\<close>

fun fraghandler_round :: "net_reassmetadata list \<Rightarrow> net_reassmetadata list" where
  "fraghandler_round [] = []"
| "fraghandler_round (m # ms) =
     (let m' = m\<lparr>rm_timer := rm_timer m - 1\<rparr>
      in if rm_timer m' = 0 then (case ms of [] \<Rightarrow> [] | m2 # rest \<Rightarrow> m2 # fraghandler_round rest)
         else m' # fraghandler_round ms)"

text \<open>
  The part of \<open>net_oninet\<close> that decides what is delivered: the checks on the header and the reassembly.
  The result is the header and the bytes behind it.
\<close>

definition inet_accept ::
  "u8 list \<Rightarrow> net_reassmetadata list \<Rightarrow> ((net_inetheader \<times> u8 list) option \<times> net_reassmetadata list) result" where
  "inet_accept packet metas =
     (if length packet < INETHEADER_SIZE then Inr (None, metas)
      else let h = inetheader_of packet; body = drop INETHEADER_SIZE packet; h0 = h\<lparr>ip_csum := 0\<rparr>
           in if ip_version h \<noteq> 4 then Inr (None, metas)
              else if ip_csum h \<noteq> net_checksum (inetheader_bytes h0) then Inr (None, metas)
              else if and (ip_fragoff h) (bswap16 (or NET_IPFLAGMF NET_IPOFFMASK)) \<noteq> 0 then net_reassemble h0 body metas
              else Inr (Some (h0, body), metas))"


subsection \<open>Layout of words and headers\<close>

named_theorems kpacket \<open>words and headers stored in memory and read back\<close>

lemma unat_ucast_word: "unat (ucast (w :: 'a::len word) :: 'b::len word) = take_bit LENGTH('b) (unat w)"
  by (simp add: unsigned_ucast_eq)

lemma unat_less_256: "unat (w :: u8) < 256" and unat_less_65536: "unat (v :: u16) < 65536"
proof -
  show "unat w < 256" using unsigned_less [of w] by simp
  show "unat v < 65536" using unsigned_less [of v] by simp
qed

lemma unat_ucast_up [simp]: "unat (ucast (w :: u8) :: u32) = unat w" "unat (ucast (v :: u16) :: u64) = unat v"
  using unat_less_256 [of w] unat_less_65536 [of v] by (simp_all add: unat_ucast_word take_bit_nat_eq_self_iff)

lemma bswap16_bswap16 [simp]: "bswap16 (bswap16 w) = w"
  by (rule bit_word_eqI) (auto simp: bswap16_def bit_simps)

lemma bswap16_inj [simp]: "bswap16 v = bswap16 w \<longleftrightarrow> v = w"
  by (metis bswap16_bswap16)

lemma bswap16_and: "and (bswap16 v) (bswap16 w) = bswap16 (and v w)"
  by (rule bit_word_eqI) (auto simp: bswap16_def bit_simps dest: bit_imp_le_length)

lemma bswap16_0 [simp]: "bswap16 0 = 0" "bswap16 w = 0 \<longleftrightarrow> w = 0"
proof -
  show 0: "bswap16 0 = 0" by (simp add: bswap16_def)
  show "bswap16 w = 0 \<longleftrightarrow> w = 0" using bswap16_inj [of w 0] by (simp add: 0 del: bswap16_inj)
qed

lemma length_le [simp]: "length (le16 w) = 2" "length (le32 v) = 4"
  by (simp_all add: le16_def le32_def)

lemma join16: "or (ucast (ucast w :: u8)) (push_bit 8 (ucast (ucast (drop_bit 8 w) :: u8))) = (w :: u16)"
  by (rule bit_word_eqI) (auto simp: bit_simps)

lemma join32:
  "or (or (ucast (ucast w :: u8)) (push_bit 8 (ucast (ucast (drop_bit 8 w) :: u8))))
     (or (push_bit 16 (ucast (ucast (drop_bit 16 w) :: u8))) (push_bit 24 (ucast (ucast (drop_bit 24 w) :: u8)))) = (w :: u32)"
proof (rule bit_word_eqI, goal_cases)
  case (1 n)
  consider "n < 8" | "8 \<le> n" "n < 16" | "16 \<le> n" "n < 24" | "24 \<le> n" "n < 32" using 1 by fastforce
  then show ?case by cases (auto simp: bit_simps)
qed

lemma get16_le16 [kpacket]: "length xs = i \<Longrightarrow> get16 (xs @ le16 w @ ys) i = w"
  by (simp add: get16_def le16_def nth_append join16)

lemma get32_le32 [kpacket]: "length xs = i \<Longrightarrow> get32 (xs @ le32 w @ ys) i = w"
  by (simp add: get32_def le32_def nth_append join32)

lemma length_inetheader_bytes [simp]: "length (inetheader_bytes h) = 20"
  by (simp add: inetheader_bytes_def)

text \<open>The bit fields of a header have the widths of the struct.\<close>

definition inetheader_ok :: "net_inetheader \<Rightarrow> bool" where
  "inetheader_ok h \<longleftrightarrow> ip_ihl h < 16 \<and> ip_version h < 16 \<and> ip_ecn h < 4 \<and> ip_dscp h < 64"

lemma bits_above:
  fixes w :: u8
  assumes "w < 2 ^ k" and "k \<le> i"
  shows "\<not> bit w i"
proof -
  have "k < 8"
  proof (rule ccontr)
    assume "\<not> k < 8"
    then have "(2 :: u8) ^ k = 0" by simp
    with assms(1) show False by simp
  qed
  then have "(2 :: nat) ^ k < 2 ^ 8" by (rule power_strict_increasing) simp
  then have "unat (of_nat (2 ^ k) :: u8) = 2 ^ k" by (simp only: unat_of_nat) simp
  then have "unat (2 ^ k :: u8) = 2 ^ k" by simp
  with assms(1) have "unat w < 2 ^ k" by (simp only: word_less_nat_alt)
  also have "(2 :: nat) ^ k \<le> 2 ^ i" using assms(2) by simp
  finally have "\<not> bit (unat w) i" by (simp add: bit_iff_odd)
  then show ?thesis by (simp add: bit_unsigned_iff)
qed

lemma low_field: "w < 2 ^ k \<Longrightarrow> and (or (and w (mask k)) (push_bit k v)) (mask k) = (w :: u8)"
  by (rule bit_word_eqI) (auto simp: bit_simps intro: ccontr dest: bits_above leI)

lemma high_field: "v < 2 ^ (8 - k) \<Longrightarrow> k \<le> 8 \<Longrightarrow> drop_bit k (or (and w (mask k)) (push_bit k v)) = (v :: u8)"
proof (rule bit_word_eqI, goal_cases)
  case (1 n)
  then show ?case using bits_above [of v "8 - k" n] by (cases "k + n < 8") (auto simp: bit_simps)
qed


lemma inetheader_bytes_nth:
  "inetheader_bytes h ! 0 = or (and (ip_ihl h) 15) (push_bit 4 (ip_version h))"
  "inetheader_bytes h ! 1 = or (and (ip_ecn h) 3) (push_bit 2 (ip_dscp h))"
  "inetheader_bytes h ! 8 = ip_ttl h" "inetheader_bytes h ! 9 = ip_protocol h"
  by (simp_all add: inetheader_bytes_def le16_def)

lemma inetheader_bytes_fields:
  "get16 (inetheader_bytes h @ r) 2 = ip_len h" "get16 (inetheader_bytes h @ r) 4 = ip_id h"
  "get16 (inetheader_bytes h @ r) 6 = ip_fragoff h" "get16 (inetheader_bytes h @ r) 10 = ip_csum h"
  "get32 (inetheader_bytes h @ r) 12 = ip_src h" "get32 (inetheader_bytes h @ r) 16 = ip_dest h"
  by (simp_all add: inetheader_bytes_def get16_def get32_def le16_def le32_def join16 join32)

lemma inetheader_of_bytes [kpacket]:
  assumes "inetheader_ok h"
  shows "inetheader_of (inetheader_bytes h @ r) = h"
proof -
  have m: "(15 :: u8) = mask 4" "(3 :: u8) = mask 2" by (simp_all add: mask_eq_exp_minus_1)
  have f: "and (or (and (ip_ihl h) 15) (push_bit 4 (ip_version h))) 15 = ip_ihl h"
    "and (or (and (ip_ecn h) 3) (push_bit 2 (ip_dscp h))) 3 = ip_ecn h"
    "drop_bit 4 (or (and (ip_ihl h) 15) (push_bit 4 (ip_version h))) = ip_version h"
    "drop_bit 2 (or (and (ip_ecn h) 3) (push_bit 2 (ip_dscp h))) = ip_dscp h"
    using assms low_field [of "ip_ihl h" 4] low_field [of "ip_ecn h" 2] high_field [of "ip_version h" 4]
      high_field [of "ip_dscp h" 2] unfolding inetheader_ok_def m by simp_all
  show ?thesis
    by (simp add: inetheader_of_def inetheader_bytes_fields nth_append inetheader_bytes_nth
        inetheader_bytes_nth(2) [simplified] f [simplified])
qed


lemma inetheader_of_ok: "inetheader_ok (inetheader_of bs)"
proof -
  have "and w 15 < 16" "and w 3 < 4" "drop_bit 4 w < 16" "drop_bit 2 w < 64" for w :: u8
  proof -
    have "uint (and w 15) < 16" "uint (and w 3) < 4"
      using AND_upper2 [of 15 "uint w"] AND_upper2 [of 3 "uint w"] by (simp_all add: uint_and)
    moreover have "unat w < 256" using unsigned_less [of w] by simp
    then have d: "unat (drop_bit 4 w) < 16" "unat (drop_bit 2 w) < 64" by (simp_all add: drop_bit_eq_div unat_div less_mult_imp_div_less)
    ultimately show "and w 15 < 16" "and w 3 < 4" by (simp_all add: word_less_def)
    from d show "drop_bit 4 w < 16" "drop_bit 2 w < 64" by (simp_all add: word_less_nat_alt)
  qed
  then show ?thesis by (simp add: inetheader_ok_def inetheader_of_def)
qed


subsection \<open>The checksum is that of RFC 1071\<close>

text \<open>
  The reference: the 16-bit words of the data, with a zero byte behind an odd last byte, are added with
  the carry going around the end, and the sum is complemented.
\<close>

fun words16 :: "u8 list \<Rightarrow> nat list" where
  "words16 (a # b # bs) = (unat a + 256 * unat b) # words16 bs"
| "words16 _ = []"

definition add_carry :: "nat \<Rightarrow> nat \<Rightarrow> nat" where
  "add_carry a b = (if a + b < 65536 then a + b else a + b - 65535)"

definition rfc1071 :: "u8 list \<Rightarrow> nat" where
  "rfc1071 bs = 65535 - fold add_carry (words16 (if even (length bs) then bs else bs @ [0])) 0"

text \<open>Both sums are the representative of the sum modulo 65535 that is zero only for zero.\<close>

definition carry_norm :: "nat \<Rightarrow> nat" where
  "carry_norm n = (if n = 0 then 0 else (n - 1) mod 65535 + 1)"

lemma carry_norm_le: "carry_norm n \<le> 65535"
  by (simp add: carry_norm_def Suc_le_eq)

lemma carry_norm_eq:
  assumes "v mod 65535 = n mod 65535" and "0 < v" and "v \<le> 65535" and "0 < n"
  shows "carry_norm n = v"
proof -
  have "v \<le> n"
  proof (rule ccontr)
    assume "\<not> v \<le> n"
    with assms show False by (cases "v = 65535") auto
  qed
  with assms(1) have "65535 dvd n - v" by (metis mod_eq_dvd_iff_nat)
  then obtain s where "n - v = 65535 * s" ..
  with \<open>v \<le> n\<close> assms(2) have "n - 1 = 65535 * s + (v - 1)" by linarith
  then have "(n - 1) mod 65535 = (v - 1) mod 65535" by simp
  then show ?thesis using assms(2,3,4) by (simp add: carry_norm_def)
qed

lemma words16_small: "w \<in> set (words16 bs) \<Longrightarrow> w < 65536"
proof (induction bs rule: words16.induct)
  case (1 a b bs)
  have "unat a < 256" "unat b < 256" using unsigned_less [of a] unsigned_less [of b] by simp_all
  then have "unat a + 256 * unat b < 65536" by linarith
  with 1 show ?case by auto
qed simp_all

lemma length_words16 [simp]: "length (words16 bs) = length bs div 2"
  by (induction bs rule: words16.induct) simp_all


lemma carry_norm_small [simp]: "n < 65536 \<Longrightarrow> carry_norm n = n"
  by (simp add: carry_norm_def)

lemma carry_norm_mod: "carry_norm n mod 65535 = n mod 65535"
proof (cases "n = 0")
  case False
  then have "carry_norm n mod 65535 = ((n - 1) + 1) mod 65535"
    unfolding carry_norm_def by (simp only: mod_add_left_eq if_False)
  with False show ?thesis by simp
qed simp

lemma add_carry_norm:
  assumes "w < 65536"
  shows "add_carry (carry_norm n) w = carry_norm (n + w)"
proof (cases "n + w = 0")
  case False
  note m = carry_norm_mod [of n]
  have pos: "0 < carry_norm n + w" using False by (auto simp: carry_norm_def)
  have "add_carry (carry_norm n) w mod 65535 = (carry_norm n + w) mod 65535"
    by (simp add: add_carry_def mod_if [of "carry_norm n + w"] le_mod_geq)
  also have "\<dots> = (n + w) mod 65535" using m by (metis mod_add_left_eq)
  finally have "carry_norm (n + w) = add_carry (carry_norm n) w"
    by (rule carry_norm_eq) (use pos False assms carry_norm_le [of n] in \<open>auto simp: add_carry_def\<close>)
  then show ?thesis by simp
qed (simp add: carry_norm_def add_carry_def)

lemma add_carry_commute: "add_carry a b = add_carry b a"
  by (simp add: add_carry_def add.commute)

lemma carry_norm_complement: "carry_norm (n + (65535 - carry_norm n)) = 65535"
proof (rule carry_norm_eq)
  have "65535 dvd n + 65535 - carry_norm n"
    using carry_norm_le [of n] carry_norm_mod [of n] mod_eq_dvd_iff_nat [of "carry_norm n" "n + 65535" 65535] by simp
  then show "65535 mod 65535 = (n + (65535 - carry_norm n)) mod 65535"
    using carry_norm_le [of n] by simp
qed (use carry_norm_le [of n] in \<open>auto simp: carry_norm_def\<close>)

lemma fold_add_carry:
  "\<forall>w \<in> set ws. w < 65536 \<Longrightarrow> fold add_carry ws (carry_norm n) = carry_norm (n + sum_list ws)"
proof (induction ws arbitrary: n)
  case (Cons w ws)
  then have "add_carry w (carry_norm n) = carry_norm (n + w)" by (subst add_carry_commute) (simp add: add_carry_norm)
  with Cons show ?case by (simp add: add.assoc)
qed simp

lemma rfc1071_norm: "even (length bs) \<Longrightarrow> rfc1071 bs = 65535 - carry_norm (sum_list (words16 bs))"
proof -
  assume "even (length bs)"
  have "\<forall>w \<in> set (words16 bs). w < 65536" using words16_small by blast
  from fold_add_carry [OF this, of 0] \<open>even (length bs)\<close> show ?thesis by (simp add: rfc1071_def carry_norm_def)
qed

lemma csum_loop_odd: "odd (length bs) \<Longrightarrow> csum_loop csum bs = csum_loop csum (butlast bs)"
proof (induction csum bs rule: csum_loop.induct)
  case (1 csum a b bs)
  then show ?case by (cases bs) auto
qed auto

lemma words16_append: "even (length xs) \<Longrightarrow> words16 (xs @ ys) = words16 xs @ words16 ys"
  by (induction xs rule: words16.induct) auto

lemma sum_words16_le: "sum_list (words16 bs) \<le> 65535 * (length bs div 2)"
proof -
  have "sum_list ws \<le> 65535 * length ws" if "\<forall>w \<in> set ws. w < 65536" for ws
    using that by (induction ws) auto
  from this [of "words16 bs"] show ?thesis using words16_small by auto
qed

lemma unat_csum_loop:
  "unat csum + sum_list (words16 bs) < 4294967296 \<Longrightarrow> unat (csum_loop csum bs) = unat csum + sum_list (words16 bs)"
proof (induction csum bs rule: csum_loop.induct)
  case (1 csum a b bs)
  have u: "unat a < 256" "unat b < 256" using unsigned_less [of a] unsigned_less [of b] by simp_all
  have "unat (256 * ucast b :: u32) = 256 * unat b" using u by (simp add: unat_word_ariths)
  then have "unat (ucast a + 256 * ucast b :: u32) = unat a + 256 * unat b"
    using u by (simp add: unat_word_ariths)
  then have "unat (csum + (ucast a + 256 * ucast b)) = unat csum + (unat a + 256 * unat b)"
    using "1.prems" by (simp add: unat_word_ariths)
  with 1 show ?case by simp
qed simp_all


text \<open>The two additions of the code fold a 32-bit sum to 16 bits.\<close>

definition fold16 :: "nat \<Rightarrow> nat" where
  "fold16 n = (let s = n mod 65536 + n div 65536 in if s > 65535 then s - 65535 else s)"

lemma fold16_norm:
  assumes "n < 4294967296"
  shows "fold16 n = carry_norm n"
proof (cases "n = 0")
  case False
  let ?s = "n mod 65536 + n div 65536"
  have n: "n = 65535 * (n div 65536) + ?s" by simp
  have s: "?s \<le> 131070" using assms by (simp add: div_le_mono [of n 4294967295 65536, simplified])
  have "0 < ?s" using False by (metis add_is_0 div_mult_mod_eq gr0I mult_is_0)
  have "(if s > 65535 then s - 65535 else s) mod 65535 = s mod (65535 :: nat)" for s by (simp add: le_mod_geq)
  then have "fold16 n mod 65535 = ?s mod 65535" unfolding fold16_def Let_def .
  also have "\<dots> = n mod 65535" by (subst (3) n) (simp only: mod_mult_self4)
  finally have "carry_norm n = fold16 n"
    by (rule carry_norm_eq) (use \<open>0 < ?s\<close> s False in \<open>auto simp: fold16_def Let_def\<close>)
  then show ?thesis by simp
qed (simp add: fold16_def carry_norm_def)

lemma unat_not_u16: "unat (not w :: u16) = 65535 - unat w"
proof -
  have "unat (- 1 :: u16) = 65535" by (simp add: unsigned_minus_1_eq_mask mask_eq_exp_minus_1)
  moreover have "not w = - 1 - w" by (simp add: not_eq_complement)
  moreover have "unat (- 1 - w) = unat (- 1 :: u16) - unat w" by (rule unat_sub) simp
  ultimately show ?thesis by simp
qed

lemma unat_fold_word:
  "unat (and c 0xFFFF + drop_bit 16 c :: u32) = unat c mod 65536 + unat c div 65536"
  "unat c mod 65536 + unat c div 65536 < 131071"
proof -
  have n: "unat c < 4294967296" using unsigned_less [of c] by simp
  have "and c 0xFFFF = take_bit 16 c" by (simp add: take_bit_eq_mask mask_eq_exp_minus_1)
  then have lo: "unat (and c 0xFFFF) = unat c mod 65536" by (simp only: unsigned_take_bit_eq) (simp add: take_bit_eq_mod)
  have "take_bit 32 (unat c) = unat c" using n by (simp add: take_bit_nat_eq_self_iff)
  then have hi: "unat (drop_bit 16 c) = unat c div 65536"
    by (simp only: unsigned_drop_bit_eq) (simp add: drop_bit_eq_div)
  have "unat c div 65536 \<le> 65535" using n by (simp add: div_le_mono [of "unat c" 4294967295 65536, simplified])
  then show "unat (and c 0xFFFF + drop_bit 16 c :: u32) = unat c mod 65536 + unat c div 65536"
      "unat c mod 65536 + unat c div 65536 < 131071"
    by (simp_all add: unat_word_ariths lo hi del: drop_bit_numeral_bit0 drop_bit_Suc)
qed

lemma unat_net_checksum:
  assumes "length data \<le> 131075"
  shows "unat (net_checksum data) = 65535 - carry_norm (sum_list (words16 data))"
proof -
  let ?n = "sum_list (words16 data)"
  let ?c = "csum_loop 0 data"
  have "length data div 2 \<le> 65537" using assms by linarith
  then have "65535 * (length data div 2) \<le> 4294967295" by simp
  then have n: "?n < 4294967296" using sum_words16_le [of data] by linarith
  then have c: "unat ?c = ?n" using unat_csum_loop [of 0 data] by simp
  define s where "s = and ?c 0xFFFF + drop_bit 16 ?c"
  have s: "unat s = ?n mod 65536 + ?n div 65536" "unat s < 131071"
    using unat_fold_word [of ?c] unfolding s_def c by simp_all
  define t where "t = (if s > 0xFFFF then s + 1 else s)"
  have "unat (ucast t :: u16) = fold16 ?n"
  proof (cases "s > 0xFFFF")
    case True
    then have "65535 < unat s" by (simp add: word_less_nat_alt)
    moreover have "unat (s + 1) = unat s + 1" using s(2) by (simp add: unat_word_ariths)
    ultimately have "unat (ucast t :: u16) = unat s - 65535"
      using True s(2) by (simp add: t_def unat_ucast_word take_bit_eq_mod le_mod_geq)
    with \<open>65535 < unat s\<close> show ?thesis unfolding fold16_def Let_def s(1) [symmetric] by simp
  next
    case False
    then have "unat s \<le> 65535" by (simp add: word_less_nat_alt)
    then show ?thesis using False s by (simp add: t_def unat_ucast_word take_bit_eq_mod fold16_def)
  qed
  moreover have "net_checksum data = not (ucast t :: u16)"
    unfolding net_checksum_def Let_def s_def [symmetric] t_def [symmetric] by (rule bit_word_eqI) (auto simp: bit_simps)
  ultimately show ?thesis
    by (simp add: unat_not_u16 fold16_norm [OF n])
qed


text \<open>
  C31.  For data of an even length \<open>net_checksum\<close> is the Internet checksum of RFC 1071; of data of an odd
  length it leaves out the last byte, where the RFC adds it with a zero byte behind it.
\<close>

theorem net_checksum_rfc1071:
  assumes "length data \<le> 131075"
  shows "(even (length data) \<longrightarrow> unat (net_checksum data) = rfc1071 data) \<and>
    (odd (length data) \<longrightarrow> net_checksum data = net_checksum (butlast data))"
  using unat_net_checksum [OF assms] by (simp add: rfc1071_norm net_checksum_def csum_loop_odd)

theorem net_checksum_rfc1071_witness:
  "unat (net_checksum [0x45, 0, 0, 0x54, 0x12, 0x34]) = rfc1071 [0x45, 0, 0, 0x54, 0x12, 0x34] \<and>
   net_checksum [0x45, 0, 7] = net_checksum [0x45, 0] \<and> rfc1071 [0x45, 0, 7] \<noteq> rfc1071 [0x45, 0]"
  using net_checksum_rfc1071 [of "[0x45, 0, 0, 0x54, 0x12, 0x34]"] net_checksum_rfc1071 [of "[0x45, 0, 7]"]
  by (simp add: rfc1071_def add_carry_def)

text \<open>
  A checksum taken with zero in its place and stored there: a receiver that sums over all of it, the
  stored checksum included, finds zero.
\<close>

lemma words16_le16: "words16 (le16 c) = [unat c]"
proof -
  have "unat (ucast c :: u8) + 256 * unat (ucast (drop_bit 8 c) :: u8) = unat c mod 256 + 256 * (unat c div 256 mod 256)"
    using unat_less_65536 [of c]
    by (simp only: unat_ucast_word unsigned_drop_bit_eq) (simp add: take_bit_eq_mod drop_bit_eq_div)
  also have "\<dots> = unat c" using unat_less_65536 [of c] by simp
  finally show ?thesis by (simp add: le16_def)
qed

lemma stored_checksum:
  assumes "even (length x)" "even (length y)" "length x + length y \<le> 131072"
  shows "rfc1071 (x @ le16 (net_checksum (x @ le16 0 @ y)) @ y) = 0"
proof -
  let ?S = "sum_list (words16 x) + sum_list (words16 y)"
  have w: "sum_list (words16 (x @ le16 c @ y)) = ?S + unat c" for c
    using assms(1) by (simp add: words16_append words16_le16)
  have "unat (net_checksum (x @ le16 0 @ y)) = 65535 - carry_norm ?S"
    using assms(3) w [of 0] by (simp add: unat_net_checksum)
  with w [of "net_checksum (x @ le16 0 @ y)"] carry_norm_complement [of ?S] assms(1,2)
  show ?thesis by (simp add: rfc1071_norm)
qed

lemma set_csum_rfc1071: "rfc1071 (inetheader_bytes (set_csum h)) = 0"
proof -
  let ?x = "[or (and (ip_ihl h) 15) (push_bit 4 (ip_version h)), or (and (ip_ecn h) 3) (push_bit 2 (ip_dscp h))] @
    le16 (ip_len h) @ le16 (ip_id h) @ le16 (ip_fragoff h) @ [ip_ttl h, ip_protocol h]"
  let ?y = "le32 (ip_src h) @ le32 (ip_dest h)"
  have "inetheader_bytes (h\<lparr>ip_csum := c\<rparr>) = ?x @ le16 c @ ?y" for c by (simp add: inetheader_bytes_def)
  then show ?thesis using stored_checksum [of ?x ?y] by (simp add: set_csum_def)
qed

lemma set_csum_verifies: "net_checksum (inetheader_bytes (set_csum h)) = 0"
  using unat_net_checksum [of "inetheader_bytes (set_csum h)"] rfc1071_norm [of "inetheader_bytes (set_csum h)"]
    set_csum_rfc1071 [of h] by (simp add: unat_eq_zero)

subsection \<open>Fragments\<close>

text \<open>
  What fragmentation should do: all fragments but the last carry the largest multiple of eight bytes
  that fits, the offset counts in units of eight bytes, and every fragment but the last is marked.
\<close>

definition frag_word :: "nat \<Rightarrow> bool \<Rightarrow> u16" where
  "frag_word k marked = (if marked then or (of_nat k) NET_IPFLAGMF else of_nat k)"

definition frag_header :: "net_inetheader \<Rightarrow> nat \<Rightarrow> bool \<Rightarrow> nat \<Rightarrow> net_inetheader" where
  "frag_header h k marked n = set_csum (h\<lparr>ip_fragoff := bswap16 (frag_word k marked), ip_len := bswap16 (of_nat (20 + n))\<rparr>)"

function fragments :: "nat \<Rightarrow> net_inetheader \<Rightarrow> nat \<Rightarrow> u8 list \<Rightarrow> (net_inetheader \<times> u8 list) list" where
  "fragments M h k data =
     (if data = [] then []
      else if length data \<le> M \<or> M < 8 then [(frag_header h k False (length data), data)]
      else (frag_header h k True (M div 8 * 8), take (M div 8 * 8) data) # fragments M h (k + M div 8) (drop (M div 8 * 8) data))"
  by pat_completeness auto
termination
  by (relation "measure (\<lambda>(M, h, k, data). length data)") auto

declare fragments.simps [simp del]

lemma set_csum_simps [simp]:
  "ip_ihl (set_csum h) = ip_ihl h" "ip_version (set_csum h) = ip_version h" "ip_fragoff (set_csum h) = ip_fragoff h"
  "ip_len (set_csum h) = ip_len h" "ip_id (set_csum h) = ip_id h" "ip_src (set_csum h) = ip_src h"
  "ip_dest (set_csum h) = ip_dest h" "inetheader_ok (set_csum h) = inetheader_ok h"
  by (simp_all add: set_csum_def inetheader_ok_def)

lemma set_csum_csum: "ip_csum (set_csum h) = net_checksum (inetheader_bytes ((set_csum h)\<lparr>ip_csum := 0\<rparr>))"
  by (simp add: set_csum_def)

lemma frag_header_simps [simp]:
  "ip_ihl (frag_header h k marked n) = ip_ihl h" "ip_version (frag_header h k marked n) = ip_version h"
  "ip_id (frag_header h k marked n) = ip_id h" "ip_src (frag_header h k marked n) = ip_src h"
  "ip_dest (frag_header h k marked n) = ip_dest h" "ip_fragoff (frag_header h k marked n) = bswap16 (frag_word k marked)"
  "ip_len (frag_header h k marked n) = bswap16 (of_nat (20 + n))" "inetheader_ok (frag_header h k marked n) = inetheader_ok h"
  by (simp_all add: frag_header_def inetheader_ok_def set_csum_def)

lemma frag_header_again [simp]: "frag_header (frag_header h k marked n) k' marked2 n' = frag_header h k' marked2 n'"
  by (simp add: frag_header_def set_csum_def)

lemma fragments_again [simp]: "fragments M (frag_header h k' marked n) k data = fragments M h k data"
  by (induction M h k data rule: fragments.induct) (simp add: fragments.simps [of _ _ _ "_ :: u8 list"])

lemma off_bits:
  assumes "k < 8192"
  shows "and (frag_word k marked) NET_IPOFFMASK = of_nat k"
    and "and (frag_word k marked) NET_IPFLAGMF = (if marked then NET_IPFLAGMF else 0)"
proof -
  have m: "NET_IPOFFMASK = mask 13" by (simp add: NET_IPOFFMASK_def mask_eq_exp_minus_1)
  have f: "bit NET_IPFLAGMF n \<longleftrightarrow> n = 13" for n
  proof -
    have "NET_IPFLAGMF = 2 ^ 13" by (simp add: NET_IPFLAGMF_def)
    moreover have "bit (2 ^ 13 :: u16) n \<longleftrightarrow> n = 13" by (simp only: bit_exp_iff) auto
    ultimately show ?thesis by (simp only:)
  qed
  have k: "\<not> bit k n" if "13 \<le> n" for n
  proof -
    have "k < 2 ^ 13" using assms by simp
    also have "(2 :: nat) ^ 13 \<le> 2 ^ n" using that by (rule power_increasing) simp
    finally show ?thesis by (simp add: bit_iff_odd)
  qed
  show "and (frag_word k marked) NET_IPOFFMASK = of_nat k"
    by (rule bit_word_eqI) (use k in \<open>auto simp: m f frag_word_def bit_simps not_less intro: leI\<close>)
  show "and (frag_word k marked) NET_IPFLAGMF = (if marked then NET_IPFLAGMF else 0)"
    by (rule bit_word_eqI) (use k in \<open>auto simp: f frag_word_def bit_simps\<close>)
qed


lemma frag_turn_ok:
  assumes mtu: "unat mtu = M + 20 + L" "8 \<le> M" "M < 65536" and nfb: "nfb = of_nat (M div 8)"
    and h: "fr_header s = h" and p: "fr_poff s = of_nat p" "p \<le> length buffer" "length buffer < 65536"
    and off: "fr_fragoff s = of_nat k" "k < 8192"
    and d: "drop p buffer = data" "fr_left s = of_nat (length data)" "data \<noteq> []"
  defines "n \<equiv> if length data \<le> M then length data else M div 8 * 8"
  shows "frag_turn mtu L buffer 0 nfb s =
    Inr (take L buffer @ inetheader_bytes (frag_header h k (M < length data) n) @ take n data,
         s\<lparr>fr_header := frag_header h k (M < length data) n, fr_poff := of_nat (p + n),
           fr_fragoff := of_nat (k + M div 8), fr_left := of_nat (length (drop n data))\<rparr>)"
proof -
  have len: "length data = length buffer - p" using d(1) by auto
  then have l16: "length data < 65536" using p by simp
  have n: "n \<le> length data" "n < 65536" using mtu(2,3) l16 by (auto simp: n_def)
  have "unat (mtu - 20 - of_nat L) = M"
  proof -
    have "mtu = of_nat (M + 20 + L)" using mtu(1) by (metis of_nat_unat_u64)
    then have "mtu - 20 - of_nat L = of_nat M" by simp
    then show ?thesis using mtu(3) by (simp add: unat_of_nat_small)
  qed
  then have l: "ucast (fr_left s) \<le> mtu - 20 - of_nat L \<longleftrightarrow> length data \<le> M"
    using l16 by (simp add: word_le_nat_alt d(2) unat_of_nat)
  have o: "and NET_IPOFFMASK (fr_fragoff s) = of_nat k"
    using off_bits(1) [OF off(2), of False] by (simp add: off(1) frag_word_def and.commute)
  have cop: "(if length data \<le> M then fr_left s else nfb * 8) = of_nat n"
    by (simp add: n_def d(2) nfb)
  have u: "unat (fr_poff s) = p" using p by (cases "p = length buffer") (simp_all add: unat_of_nat)
  have un: "unat (of_nat n :: u16) = n" using n(2) by (simp add: unat_of_nat)
  have cp: "copy_from buffer p n = Inr (take n data)"
    using n(1) len p(2) by (simp add: copy_from_def d(1))
  show ?thesis
    unfolding frag_turn_def Let_def l cop o u un cp rbind_Inr
    by (simp add: h frag_header_def frag_word_def p(1) off(1) nfb d(2) n(1) of_nat_diff not_le add.commute)
qed


definition frame_of :: "u8 list \<Rightarrow> net_inetheader \<times> u8 list \<Rightarrow> u8 list" where
  "frame_of link f = link @ inetheader_bytes (fst f) @ snd f"

text \<open>Headers that give the same fragments.\<close>

definition frag_like :: "net_inetheader \<Rightarrow> net_inetheader \<Rightarrow> bool" where
  "frag_like g h \<longleftrightarrow> (\<forall>k m n. frag_header g k m n = frag_header h k m n)"

lemma frag_like_refl [simp]: "frag_like h h" "frag_like (frag_header h k m n) h"
  by (simp_all add: frag_like_def)

text \<open>
  The frames of the whole loop, when the memory a fragment was freed from still gives the same
  fragments after the next allocation.
\<close>

lemma frag_loop_ok:
  assumes "unat mtu = M + 20 + L" "8 \<le> M" "M < 65536" "nfb = of_nat (M div 8)" "length buffer < 65536"
    and "frag_like (fr_header s) h" "fr_poff s = of_nat p" "p \<le> length buffer"
      "fr_fragoff s = of_nat k" "drop p buffer = data" "fr_left s = of_nat (length data)" "8 * k + length data < 65536"
    and "\<And>g. frag_like g h \<Longrightarrow> frag_like (freed g) h"
  shows "frag_loop freed mtu L buffer 0 nfb s = Some (Inr (map (frame_of (take L buffer)) (fragments M h k data)))"
  using assms
proof (induction M h k data arbitrary: s p rule: fragments.induct)
  case (1 M h k data)
  show ?case
  proof (cases "data = []")
    case True
    with "1.prems" show ?thesis by (subst frag_loop.simps) (simp add: fragments.simps)
  next
    case False
    let ?c = "M div 8 * 8"
    define n where "n = (if length data \<le> M then length data else ?c)"
    define s1 where "s1 = s\<lparr>fr_header := frag_header h k (M < length data) n, fr_poff := of_nat (p + n),
      fr_fragoff := of_nat (k + M div 8), fr_left := of_nat (length (drop n data))\<rparr>"
    define s' where "s' = s1\<lparr>fr_header := freed (fr_header s1)\<rparr>"
    have t: "frag_turn mtu L buffer 0 nfb s =
        Inr (frame_of (take L buffer) (frag_header h k (M < length data) n, take n data), s1)"
      using frag_turn_ok [of mtu M L nfb s "fr_header s" p buffer k data] False "1.prems"
      by (simp add: frame_of_def n_def s1_def frag_like_def)
    have l: "fr_left s \<noteq> 0"
    proof -
      have "unat (fr_left s) = length data" using "1.prems"(11,12) by (simp add: unat_of_nat)
      with False show ?thesis by auto
    qed
    have step: "frag_loop freed mtu L buffer 0 nfb s =
        Option.bind (frag_loop freed mtu L buffer 0 nfb s')
          (\<lambda>rest. case rest of Inl e \<Rightarrow> Some (Inl e)
             | Inr fs \<Rightarrow> Some (Inr (frame_of (take L buffer) (frag_header h k (M < length data) n, take n data) # fs)))"
      by (subst frag_loop.simps) (simp add: l t s'_def)
    show ?thesis
    proof (cases "length data \<le> M")
      case True
      then have "fr_left s' = 0" by (simp add: s'_def s1_def n_def)
      then have "frag_loop freed mtu L buffer 0 nfb s' = Some (Inr [])" by (subst frag_loop.simps) simp
      with True False show ?thesis by (simp add: step n_def fragments.simps [of M h k data])
    next
      case big: False
      then have n: "n = ?c" "n \<le> length data" using n_def by auto
      have b: "p + length data = length buffer" using "1.prems"(8,10) by auto
      have "frag_loop freed mtu L buffer 0 nfb s' =
          Some (Inr (map (frame_of (take L buffer)) (fragments M h (k + M div 8) (drop ?c data))))"
      proof (rule "1.IH" [of s' "p + n"])
        show "drop (p + n) buffer = drop ?c data" using "1.prems"(10) n(1) by (auto simp: add.commute)
        have "8 * (M div 8) \<le> length data" using n by simp
        then show "8 * (k + M div 8) + length (drop ?c data) < 65536" using "1.prems"(12) by simp
      qed (use "1.prems" False big n b in \<open>simp_all add: s'_def s1_def\<close>)
      with False big "1.prems"(2) show ?thesis by (simp add: step n fragments.simps [of M h k data])
    qed
  qed
qed


subsection \<open>Reassembly of the fragments\<close>

text \<open>Packets delivered from a sequence of received packets.\<close>

fun inet_accept_all ::
  "u8 list list \<Rightarrow> net_reassmetadata list \<Rightarrow> ((net_inetheader \<times> u8 list) list \<times> net_reassmetadata list) result" where
  "inet_accept_all [] metas = Inr ([], metas)"
| "inet_accept_all (p # ps) metas =
     rbind (inet_accept p metas) (\<lambda>(r, metas1).
     rbind (inet_accept_all ps metas1) (\<lambda>(rs, metas2).
       Inr (case r of None \<Rightarrow> rs | Some d \<Rightarrow> d # rs, metas2)))"

lemma find_last_None [simp]: "find_last P xs = None \<longleftrightarrow> (\<forall>x \<in> set xs. \<not> P x)"
  by (induction xs) (auto split: option.splits)

lemma find_last_snoc: "find_last P (xs @ [x]) = (if P x then Some (length xs) else find_last P xs)"
  by (induction xs) (auto split: option.splits)


lemma resize_grow: "resize got (length got + n) = got @ replicate n 0"
  by (simp add: resize_def)

lemma copy_into_end: "length src = n \<Longrightarrow> copy_into (got @ replicate n 0) (length got) src = Inr (got @ src)"
  by (simp add: copy_into_def)

lemma add_fragment_ok:
  assumes m: "metas ! i = m" "rm_len m = of_nat (length got)" and k: "length got = 8 * k" "8 * k + length d + 20 < 65536"
    and r: "resize (rm_data m) (length got + length d) = got @ replicate (length d) 0"
  shows "add_fragment i (frag_header h k marked (length d)) d metas =
    (if marked then Inr (None, metas[i := m\<lparr>rm_data := got @ d, rm_len := of_nat (length (got @ d))\<rparr>])
     else Inr (Some (set_csum ((rm_header m)\<lparr>ip_fragoff := 0, ip_len := bswap16 (of_nat (20 + length (got @ d)))\<rparr>), got @ d),
            take i metas @ drop (Suc i) metas))"
proof -
  have k8: "k < 8192" using k by linarith
  have off: "unat (and (frag_word k marked) NET_IPOFFMASK * 8) = length got"
    using k8 k(1) by (simp add: off_bits(1) unat_word_ariths unat_of_nat)
  have n: "unat (of_nat (20 + length d) - 20 :: u16) = length d" using k by (simp add: unat_of_nat)
  have t: "of_nat (length got) + (of_nat (20 + length d) - 20) = (of_nat (length got + length d) :: u16)" by simp
  have ut: "unat (of_nat (length got + length d) :: u16) = length got + length d"
    using k by (simp only: unat_of_nat) simp
  have mf: "and (bswap16 (frag_word k marked)) (bswap16 NET_IPFLAGMF) = 0 \<longleftrightarrow> \<not> marked"
    using off_bits(2) [OF k8, of marked] by (simp add: bswap16_and) (simp add: NET_IPFLAGMF_def)
  show ?thesis
    unfolding add_fragment_def Let_def m frag_header_simps bswap16_bswap16 n off mf t ut r
    by (simp add: copy_from_def copy_into_end add.commute)
qed


lemma inet_accept_fragment:
  assumes "inetheader_ok h" "ip_version h = 4" "ip_ihl h = 5" and "k < 8192" "marked \<or> 0 < k"
  shows "inet_accept (inetheader_bytes (frag_header h k marked n) @ d) metas =
    net_reassemble ((frag_header h k marked n)\<lparr>ip_csum := 0\<rparr>) d metas"
proof -
  let ?f = "frag_header h k marked n"
  have i: "inetheader_of (inetheader_bytes ?f @ d) = ?f" using assms(1) by (simp add: inetheader_of_bytes)
  have c: "ip_csum ?f = net_checksum (inetheader_bytes (?f\<lparr>ip_csum := 0\<rparr>))"
    unfolding frag_header_def by (rule set_csum_csum)
  have "(of_nat k :: u16) \<noteq> 0 \<or> marked"
    using assms(4,5) by (auto simp: unat_eq_zero [symmetric] unat_of_nat)
  moreover have "(0x2000 :: u16) \<noteq> 0" by simp
  ultimately have "and (frag_word k marked) (or NET_IPFLAGMF NET_IPOFFMASK) \<noteq> 0"
    using off_bits [OF assms(4), of marked] by (auto simp: bit.conj_disj_distrib or_eq_0_iff NET_IPFLAGMF_def)
  then have "and (ip_fragoff ?f) (bswap16 (or NET_IPFLAGMF NET_IPOFFMASK)) \<noteq> 0" by (simp add: bswap16_and)
  with assms(2) show ?thesis
    unfolding inet_accept_def Let_def i by (simp add: INETHEADER_SIZE_def flip: c)
qed


lemma add_fragment_csum [simp]: "add_fragment i (h\<lparr>ip_csum := c\<rparr>) = add_fragment i h"
  by (simp add: add_fragment_def fun_eq_iff)

lemma accept_later_fragments:
  assumes h: "inetheader_ok h" "ip_version h = 4" "ip_ihl h = 5"
    and "8 \<le> M" "0 < k" "length got = 8 * k" "length got + length data + 20 < 65536" "data \<noteq> []"
    and "same_datagram h e" "rm_data e = got" "rm_len e = of_nat (length got)" "rm_header e = hd0"
  shows "inet_accept_all (map (frame_of []) (fragments M h k data)) (metas @ [e]) =
    Inr ([(set_csum (hd0\<lparr>ip_fragoff := 0, ip_len := bswap16 (of_nat (20 + length (got @ data)))\<rparr>), got @ data)], metas)"
  using assms
proof (induction M h k data arbitrary: got e rule: fragments.induct)
  case (1 M h k data)
  note P = "1.prems"
  define last_one where "last_one = (length data \<le> M)"
  define n where "n = (if last_one then length data else M div 8 * 8)"
  let ?f = "frag_header h k (\<not> last_one) n"
  have n: "n \<le> length data" using P(4) by (auto simp: n_def last_one_def)
  have k: "k < 8192" using P(6,7) by linarith
  have "inet_accept (frame_of [] (?f, take n data)) (metas @ [e]) = net_reassemble (?f\<lparr>ip_csum := 0\<rparr>) (take n data) (metas @ [e])"
    using inet_accept_fragment [OF P(1-3) k, of "\<not> last_one"] P(5) by (simp add: frame_of_def)
  also have "\<dots> = add_fragment (length metas) ?f (take n data) (metas @ [e])"
    using P(3,9) by (simp add: net_reassemble_def INETHEADER_SIZE_def find_last_snoc same_datagram_def)
  also have "\<dots> = (if \<not> last_one
      then Inr (None, metas @ [e\<lparr>rm_data := got @ take n data, rm_len := of_nat (length got + n)\<rparr>])
      else Inr (Some (set_csum (hd0\<lparr>ip_fragoff := 0, ip_len := bswap16 (of_nat (20 + (length got + n)))\<rparr>), got @ take n data), metas))"
  proof -
    have r: "resize (rm_data e) (length got + length (take n data)) = got @ replicate (length (take n data)) 0"
      using P(10) by (simp only: resize_grow)
    have "(metas @ [e]) ! length metas = e" "8 * k + length (take n data) + 20 < 65536" using P(6,7) by simp_all
    from add_fragment_ok [OF this(1) P(11,6) this(2) r] show ?thesis using n P(12) by auto
  qed
  finally have step: "inet_accept (frame_of [] (?f, take n data)) (metas @ [e]) = \<dots>" .
  show ?case
  proof (cases last_one)
    case True
    then have "fragments M h k data = [(?f, take n data)]"
      using P(8) by (simp add: fragments.simps [of M h k data] n_def last_one_def)
    with True step show ?thesis by (simp add: n_def)
  next
    case False
    let ?e = "e\<lparr>rm_data := got @ take n data, rm_len := of_nat (length got + n)\<rparr>"
    have big: "\<not> length data \<le> M" "n = M div 8 * 8" using False by (simp_all add: last_one_def n_def)
    then have "fragments M h k data = (?f, take n data) # fragments M h (k + M div 8) (drop n data)"
      using P(4,8) False by (simp add: fragments.simps [of M h k data])
    moreover have "inet_accept_all (map (frame_of []) (fragments M h (k + M div 8) (drop n data))) (metas @ [?e]) =
        Inr ([(set_csum (hd0\<lparr>ip_fragoff := 0, ip_len := bswap16 (of_nat (20 + length ((got @ take n data) @ drop n data)))\<rparr>),
          (got @ take n data) @ drop n data)], metas)"
      unfolding big(2)
    proof (rule "1.IH")
      show "same_datagram h (e\<lparr>rm_data := got @ take (M div 8 * 8) data, rm_len := of_nat (length got + M div 8 * 8)\<rparr>)"
        using P(9) by (simp add: same_datagram_def)
      show "drop (M div 8 * 8) data \<noteq> []" using big by simp
    qed (use P big n in \<open>simp_all\<close>)
    ultimately show ?thesis using step False by simp
  qed
qed


lemma fragments_bound: "8 \<le> M \<Longrightarrow> f \<in> set (fragments M h k data) \<Longrightarrow> length (snd f) \<le> M"
proof (induction M h k data rule: fragments.induct)
  case (1 M h k data)
  from "1.prems"(2) show ?case
    by (subst (asm) fragments.simps) (use 1 in \<open>auto split: if_splits\<close>)
qed

lemma accept_first_fragment:
  assumes h: "inetheader_ok h" "ip_version h = 4" "ip_ihl h = 5" and n: "length d + 20 < 65536"
    and fresh: "\<forall>m \<in> set metas. \<not> same_datagram h m"
  shows "inet_accept (frame_of [] (frag_header h 0 True (length d), d)) metas =
    Inr (None, metas @ [\<lparr>rm_timer = 3, rm_data = d, rm_len = of_nat (length d),
      rm_header = (frag_header h 0 True (length d))\<lparr>ip_csum := 0\<rparr>\<rparr>])"
proof -
  let ?f = "frag_header h 0 True (length d)"
  let ?m = "\<lparr>rm_timer = 3, rm_data = replicate (20 + length d) 0, rm_len = 0, rm_header = ?f\<lparr>ip_csum := 0\<rparr>\<rparr>"
  have none: "find_last (same_datagram (?f\<lparr>ip_csum := 0\<rparr>)) metas = None"
    using fresh by (simp add: same_datagram_def)
  have off: "and (frag_word 0 True) NET_IPOFFMASK * 8 = 0" using off_bits(1) [of 0 True] by simp
  have len: "unat (of_nat (20 + length d) :: u16) = 20 + length d" using n by (simp only: unat_of_nat) simp
  have r: "resize (rm_data ?m) (length [] + length d) = [] @ replicate (length d) 0" by (simp add: resize_def)
  have "inet_accept (frame_of [] (?f, d)) metas = net_reassemble (?f\<lparr>ip_csum := 0\<rparr>) d metas"
    using inet_accept_fragment [OF h, of 0 True] by (simp add: frame_of_def)
  also have "\<dots> = add_fragment (length metas) ?f d (metas @ [?m])"
    using h(3) unfolding net_reassemble_def none by (simp add: INETHEADER_SIZE_def off len [simplified])
  also have "\<dots> = Inr (None, metas @ [?m\<lparr>rm_data := d, rm_len := of_nat (length d)\<rparr>])"
    using add_fragment_ok [where metas = "metas @ [?m]" and i = "length metas" and m = ?m and got = "[]" and k = 0
        and d = d and h = h and marked = True] r n by simp
  finally show ?thesis by simp
qed

lemma length_fragments: "length (fragments M h k data) = length (fragments M g k data)"
proof (induction M h k data rule: fragments.induct)
  case (1 M h k data)
  then show ?case by (simp add: fragments.simps [of M h k data] fragments.simps [of M g k data])
qed

lemma mtu_room: "unat mtu = M + 20 + L \<Longrightarrow> mtu - 20 - of_nat L = of_nat M"
proof -
  assume m: "unat mtu = M + 20 + L"
  have "mtu = of_nat (M + 20 + L)" unfolding m [symmetric] by simp
  then show ?thesis by simp
qed

lemma net_fragment_frames:
  assumes "inetheader_ok h" "ip_fragoff h = 0" "length link + 20 + length data < 65536"
    and mtu: "unat mtu = M + 20 + length link" "8 \<le> M" "M < 65536"
  shows "net_fragment (\<lambda>h. h) mtu (length link) (link @ inetheader_bytes h @ data) =
    Some (Inr (map (frame_of link) (fragments M h 0 data)))"
proof -
  let ?b = "link @ inetheader_bytes h @ data"
  have i: "inetheader_of (drop (length link) ?b) = h" using assms(1) by (simp add: inetheader_of_bytes)
  have u: "unat (of_nat M div 8 :: u64) = M div 8" using mtu(3) by (simp add: unat_div unat_of_nat_small)
  have nfb: "ucast (of_nat M div 8 :: u64) = (of_nat (M div 8) :: u16)"
    by (rule word_unat_eq_iff [THEN iffD2]) (simp only: unat_ucast_word u unsigned_of_nat of_nat_id)
  have "frag_loop (\<lambda>h. h) mtu (length link) ?b 0 (of_nat (M div 8))
      \<lparr>fr_header = h, fr_poff = of_nat (length link) + 20, fr_fragoff = 0, fr_left = of_nat (length data)\<rparr> =
    Some (Inr (map (frame_of (take (length link) ?b)) (fragments M h 0 data)))"
    by (rule frag_loop_ok [where p = "length link + 20"]) (use assms in simp_all)
  then show ?thesis
    unfolding net_fragment_def Let_def i mtu_room [OF mtu(1)] nfb by (simp add: assms(2))
qed

text \<open>
  The same when the block of a freed fragment is handed out again and cleared for the next one, as
  \<open>alloc_from_slab\<close> does with blocks of one size: all fragments but the first are built from an
  empty header.
\<close>

abbreviation cleared_header :: net_inetheader where
  "cleared_header \<equiv> inetheader_of (replicate 20 0)"

lemma cleared_header_ok: "inetheader_ok cleared_header" "ip_version cleared_header = 0"
  by (simp_all add: inetheader_of_ok) (simp add: inetheader_of_def)

lemma net_fragment_cleared:
  assumes "inetheader_ok h" "ip_fragoff h = 0" "length link + 20 + length data < 65536"
    and mtu: "unat mtu = M + 20 + length link" "8 \<le> M" "M < length data"
  shows "net_fragment (\<lambda>_. cleared_header) mtu (length link) (link @ inetheader_bytes h @ data) =
    Some (Inr (map (frame_of link) ((frag_header h 0 True (M div 8 * 8), take (M div 8 * 8) data) #
      fragments M cleared_header (M div 8) (drop (M div 8 * 8) data))))"
proof -
  let ?b = "link @ inetheader_bytes h @ data" and ?c = "M div 8 * 8" and ?z = cleared_header
  let ?n = "of_nat (M div 8) :: u16"
  define s where "s = \<lparr>fr_header = h, fr_poff = of_nat (length link) + 20, fr_fragoff = 0, fr_left = of_nat (length data)\<rparr>"
  define s' where "s' = s\<lparr>fr_header := ?z, fr_poff := of_nat (length link + 20 + ?c), fr_fragoff := of_nat (M div 8),
    fr_left := of_nat (length (drop ?c data))\<rparr>"
  have M: "M < 65536" using mtu(3) assms(3) by linarith
  have i: "inetheader_of (drop (length link) ?b) = h" using assms(1) by (simp add: inetheader_of_bytes)
  have u: "unat (of_nat M div 8 :: u64) = M div 8" using M by (simp add: unat_div unat_of_nat_small)
  have nfb: "ucast (of_nat M div 8 :: u64) = ?n"
    by (rule word_unat_eq_iff [THEN iffD2]) (simp only: unat_ucast_word u unsigned_of_nat of_nat_id)
  have l: "fr_left s \<noteq> 0"
  proof -
    have "unat (fr_left s) = length data" using assms(3) by (simp add: s_def unat_of_nat)
    with mtu(3) show ?thesis by auto
  qed
  have t: "frag_turn mtu (length link) ?b 0 ?n s = Inr (frame_of link (frag_header h 0 True ?c, take ?c data),
      s'\<lparr>fr_header := frag_header h 0 True ?c\<rparr>)"
    using frag_turn_ok [of mtu M "length link" ?n s h "length link + 20" ?b 0 data] mtu M assms(3)
    by (cases "data = []") (auto simp: s_def s'_def frame_of_def not_le)
  have again: "s'\<lparr>fr_header := ?z\<rparr> = s'" by (simp add: s'_def s_def)
  have "frag_loop (\<lambda>_. ?z) mtu (length link) ?b 0 ?n s' =
      Some (Inr (map (frame_of (take (length link) ?b)) (fragments M ?z (M div 8) (drop ?c data))))"
    by (rule frag_loop_ok [where p = "length link + 20 + ?c"]) (use mtu M assms(3) in \<open>simp_all add: s'_def\<close>)
  then have "frag_loop (\<lambda>_. ?z) mtu (length link) ?b 0 ?n s = Some (Inr (map (frame_of link)
      ((frag_header h 0 True ?c, take ?c data) # fragments M ?z (M div 8) (drop ?c data))))"
    using again by (subst frag_loop.simps) (simp add: l t)
  then show ?thesis
    unfolding net_fragment_def Let_def i mtu_room [OF mtu(1)] nfb s_def by (simp add: assms(2))
qed

lemma wrong_version_dropped:
  "inetheader_ok h \<Longrightarrow> ip_version h \<noteq> 4 \<Longrightarrow> inet_accept (inetheader_bytes h @ d) metas = Inr (None, metas)"
  by (simp add: inet_accept_def Let_def inetheader_of_bytes INETHEADER_SIZE_def)

lemma fragments_headers: "f \<in> set (fragments M h k data) \<Longrightarrow> \<exists>k m n. fst f = frag_header h k m n"
proof (induction M h k data rule: fragments.induct)
  case (1 M h k data)
  from "1.prems" show ?case
    by (subst (asm) fragments.simps) (use "1.IH" in \<open>fastforce split: if_splits\<close>)
qed

lemma cleared_fragments_dropped:
  "inet_accept_all (map (frame_of []) (fragments M cleared_header k data)) metas = Inr ([], metas)"
proof -
  have "inet_accept_all (map (frame_of []) fs) metas = Inr ([], metas)"
    if "\<forall>f \<in> set fs. inetheader_ok (fst f) \<and> ip_version (fst f) \<noteq> 4" for fs
    using that by (induction fs) (simp_all add: frame_of_def wrong_version_dropped)
  moreover have "\<forall>f \<in> set (fragments M cleared_header k data). inetheader_ok (fst f) \<and> ip_version (fst f) \<noteq> 4"
    using fragments_headers [of _ M cleared_header k data] cleared_header_ok by fastforce
  ultimately show ?thesis by blast
qed

text \<open>
  C30.  A datagram that does not fit the adapter's unit of transmission, which has room for at least
  eight bytes behind the headers, is split into frames that do.  The loop copies the header of every
  fragment but the first out of the fragment before, which it has freed.  If that memory keeps the
  header until then, a receiver that gets the frames in order puts exactly the datagram's data
  together again and keeps nothing of it.  If the block has been handed out again and cleared, which
  the slab allocator does when fragments of one size class follow each other, the receiver drops
  every frame but the first: nothing is delivered, and the piece of the first stays in its list.
\<close>

theorem fragments_reassemble:
  assumes "inetheader_ok h" "ip_version h = 4" "ip_ihl h = 5" "ip_fragoff h = 0"
    and "length link + 20 + length data < 65536" "length link + 28 \<le> unat mtu" "unat mtu < length link + 20 + length data"
    and "\<forall>m \<in> set metas. \<not> same_datagram h m"
  shows "\<exists>frames. net_fragment (\<lambda>h. h) mtu (length link) (link @ inetheader_bytes h @ data) = Some (Inr frames) \<and>
    (\<forall>f \<in> set frames. length f \<le> unat mtu) \<and>
    inet_accept_all (map (drop (length link)) frames) metas =
      Inr ([(set_csum (h\<lparr>ip_fragoff := 0, ip_len := bswap16 (of_nat (20 + length data))\<rparr>), data)], metas) \<and>
    (\<exists>frames' m. net_fragment (\<lambda>_. inetheader_of (replicate 20 0)) mtu (length link) (link @ inetheader_bytes h @ data) =
        Some (Inr frames') \<and> length frames' = length frames \<and>
      inet_accept_all (map (drop (length link)) frames') metas = Inr ([], metas @ [m]) \<and> same_datagram h m)"
proof -
  define M where "M = unat mtu - 20 - length link"
  have mtu: "unat mtu = M + 20 + length link" "8 \<le> M" "M < 65536" "M < length data"
    using assms(5,6,7) by (simp_all add: M_def)
  let ?f = "frag_header h 0 True (M div 8 * 8)"
  let ?d = "take (M div 8 * 8) data"
  let ?e = "\<lparr>rm_timer = 3, rm_data = ?d, rm_len = of_nat (length ?d), rm_header = ?f\<lparr>ip_csum := 0\<rparr>\<rparr>"
  have d: "length ?d = M div 8 * 8" using mtu(4) by simp
  have fs: "fragments M h 0 data = (?f, ?d) # fragments M h (M div 8) (drop (M div 8 * 8) data)"
    using mtu by (cases "data = []") (simp_all add: fragments.simps [of M h 0 data])
  have first: "inet_accept (frame_of [] (?f, ?d)) metas = Inr (None, metas @ [?e])"
    using accept_first_fragment [OF assms(1-3) _ assms(8), of ?d] assms(5) d by simp
  have later: "inet_accept_all (map (frame_of []) (fragments M h (M div 8) (drop (M div 8 * 8) data))) (metas @ [?e]) =
      Inr ([(set_csum ((?f\<lparr>ip_csum := 0\<rparr>)\<lparr>ip_fragoff := 0, ip_len := bswap16 (of_nat (20 + length (?d @ drop (M div 8 * 8) data)))\<rparr>),
        ?d @ drop (M div 8 * 8) data)], metas)"
    by (rule accept_later_fragments [OF assms(1-3) mtu(2)])
      (use mtu d assms(5) in \<open>simp_all add: same_datagram_def div_greater_zero_iff\<close>)
  have drop_link: "map (drop (length link)) (map (frame_of link) xs) = map (frame_of []) xs" for xs
    by (simp add: frame_of_def)
  show ?thesis
  proof (intro exI conjI)
    show "net_fragment (\<lambda>h. h) mtu (length link) (link @ inetheader_bytes h @ data) =
        Some (Inr (map (frame_of link) (fragments M h 0 data)))"
      using net_fragment_frames [OF assms(1,4,5) mtu(1-3)] .
    show "\<forall>f \<in> set (map (frame_of link) (fragments M h 0 data)). length f \<le> unat mtu"
      using fragments_bound [OF mtu(2)] mtu(1) by (fastforce simp: frame_of_def)
    show "inet_accept_all (map (drop (length link)) (map (frame_of link) (fragments M h 0 data))) metas =
        Inr ([(set_csum (h\<lparr>ip_fragoff := 0, ip_len := bswap16 (of_nat (20 + length data))\<rparr>), data)], metas)"
      unfolding drop_link fs using first later by (simp add: frag_header_def set_csum_def)
    let ?fs' = "(?f, ?d) # fragments M cleared_header (M div 8) (drop (M div 8 * 8) data)"
    show "net_fragment (\<lambda>_. cleared_header) mtu (length link) (link @ inetheader_bytes h @ data) =
        Some (Inr (map (frame_of link) ?fs'))"
      by (rule net_fragment_cleared [OF assms(1,4,5) mtu(1,2,4)])
    show "length (map (frame_of link) ?fs') = length (map (frame_of link) (fragments M h 0 data))"
      by (simp add: fs length_fragments [of M cleared_header _ _ h])
    show "inet_accept_all (map (drop (length link)) (map (frame_of link) ?fs')) metas = Inr ([], metas @ [?e])"
      unfolding drop_link using first by (simp add: cleared_fragments_dropped)
    show "same_datagram h ?e" by (simp add: same_datagram_def)
  qed
qed


definition packet_example :: net_inetheader where
  "packet_example = \<lparr>ip_ihl = 5, ip_version = 4, ip_ecn = 0, ip_dscp = 0, ip_len = bswap16 60, ip_id = 1, ip_fragoff = 0,
     ip_ttl = 64, ip_protocol = 17, ip_csum = 0, ip_src = 0x0100007f, ip_dest = 0x0200000a\<rparr>"

theorem fragments_reassemble_witness:
  "\<exists>frames. net_fragment (\<lambda>h. h) 50 14 (replicate 14 7 @ inetheader_bytes packet_example @ replicate 40 9) = Some (Inr frames) \<and>
    inet_accept_all (map (drop 14) frames) [] =
      Inr ([(set_csum (packet_example\<lparr>ip_fragoff := 0, ip_len := bswap16 60\<rparr>), replicate 40 9)], []) \<and>
    (\<exists>frames' m. net_fragment (\<lambda>_. inetheader_of (replicate 20 0)) 50 14
        (replicate 14 7 @ inetheader_bytes packet_example @ replicate 40 9) = Some (Inr frames') \<and>
      inet_accept_all (map (drop 14) frames') [] = Inr ([], [m]))"
proof -
  have h: "inetheader_ok packet_example" "ip_version packet_example = 4" "ip_ihl packet_example = 5" "ip_fragoff packet_example = 0"
    by (simp_all add: packet_example_def inetheader_ok_def)
  from fragments_reassemble [OF h, of "replicate 14 7" "replicate 40 9" 50 "[]"]
  show ?thesis by simp blast
qed


subsection \<open>Where fragmentation goes wrong\<close>

text \<open>
  The header of every fragment but the first is copied out of the fragment before, after that has
  been freed.  The next allocation of the same size takes the same block and clears it; then the
  header is empty but for the fields the loop sets, and the receiver drops the fragment.
\<close>

lemma frag_turn_frame:
  assumes "frag_turn mtu L buffer mf nfb s = Inr r" "inetheader_ok (fr_header s)" "L \<le> length buffer"
  shows "\<exists>h d. fst r = take L buffer @ inetheader_bytes h @ d \<and> inetheader_ok h \<and> ip_version h = ip_version (fr_header s)"
proof -
  have "inetheader_ok ((fr_header s)\<lparr>ip_fragoff := a, ip_len := b\<rparr>)" for a b
    using assms(2) by (simp add: inetheader_ok_def)
  then show ?thesis using assms(1) by (auto simp: frag_turn_def Let_def kresult) 
qed

lemma case_sum_Some_Inr: "(case r of Inl e \<Rightarrow> Some (Inl e) | Inr x \<Rightarrow> Some (Inr (g x))) = Some (Inr y) \<longleftrightarrow> (\<exists>x. r = Inr x \<and> g x = y)"
  by (cases r) auto

lemma frag_loop_lost:
  assumes z: "inetheader_ok z" "ip_version z \<noteq> 4" and "L \<le> length buffer"
    and "frag_loop (\<lambda>_. z) mtu L buffer mf nfb s = Some (Inr frames)" "fr_header s = z" "f \<in> set frames"
  shows "inet_accept (drop L f) metas = Inr (None, metas)"
proof -
  let ?P = "\<lambda>(freed :: net_inetheader \<Rightarrow> net_inetheader) (mtu :: u64) L (buffer :: u8 list) (mf :: u16) (nfb :: u16) (s :: frag_state) (r :: u8 list list result). freed = (\<lambda>_. z) \<longrightarrow> fr_header s = z \<longrightarrow> L \<le> length buffer \<longrightarrow>
    (\<forall>fs. r = Inr fs \<longrightarrow> (\<forall>f \<in> set fs. inet_accept (drop L f) metas = Inr (None, metas)))"
  have "?P (\<lambda>_. z) mtu L buffer mf nfb s (Inr frames)"
  proof (rule frag_loop.raw_induct [of ?P, OF _ assms(4)], goal_cases)
    case (1 g freed mtu L buffer mf nfb s r)
    show ?case
    proof (intro impI allI)
      fix fs
      assume A: "freed = (\<lambda>_. z)" "fr_header s = z" "L \<le> length buffer" "r = Inr fs"
      show "\<forall>f \<in> set fs. inet_accept (drop L f) metas = Inr (None, metas)"
      proof (cases "fr_left s = 0")
        case False
        with 1(2) A obtain x fs' where x: "frag_turn mtu L buffer mf nfb s = Inr x"
          and g: "g freed mtu L buffer mf nfb ((snd x)\<lparr>fr_header := z\<rparr>) = Some (Inr fs')" and fs: "fs = fst x # fs'"
          by (auto split: sum.splits simp: bind_eq_Some_conv case_sum_Some_Inr)
        from frag_turn_frame [OF x] z A obtain h d where
          h: "fst x = take L buffer @ inetheader_bytes h @ d" "inetheader_ok h" "ip_version h \<noteq> 4" by auto
        have "inet_accept (drop L (fst x)) metas = Inr (None, metas)"
          using wrong_version_dropped [OF h(2,3)] A(3) by (simp add: h(1))
        with 1(1) [OF g] A fs show ?thesis by simp
      qed (use 1(2) A in simp)
    qed
  qed
  with assms show ?thesis by blast
qed

lemma freed_header_loses_fragments:
  assumes "inetheader_ok z" "ip_version z \<noteq> 4" "L \<le> length buffer"
    and "net_fragment (\<lambda>_. z) mtu L buffer = Some (Inr (f1 # frames))" "f \<in> set frames"
  shows "inet_accept (drop L f) metas = Inr (None, metas)"
proof -
  from assms(4) obtain mf nfb s where "frag_loop (\<lambda>_. z) mtu L buffer mf nfb s = Some (Inr (f1 # frames))"
    unfolding net_fragment_def Let_def by blast
  then obtain s' where "frag_loop (\<lambda>_. z) mtu L buffer mf nfb (s'\<lparr>fr_header := z\<rparr>) = Some (Inr frames)"
    unfolding frag_loop.simps [of "\<lambda>_. z" mtu L buffer mf nfb s]
    by (auto split: if_splits sum.splits simp: bind_eq_Some_conv case_sum_Some_Inr)
  from frag_loop_lost [OF assms(1-3) this _ assms(5)] show ?thesis by simp
qed


text \<open>
  With room for less than eight bytes behind the headers, fragments that are not the last carry no
  data and the loop never ends.
\<close>

lemma fragment_small_mtu_hangs:
  assumes mtu: "unat mtu = M + 20 + L" "M < 8" "M < length data" and data: "length data < 65536"
    and buffer: "buffer = link @ inetheader_bytes h @ data" "L = length link" "length buffer < 65536"
  shows "net_fragment freed mtu L buffer = None"
proof (rule ccontr)
  let ?P = "\<lambda>freed mtu' L' buffer' mf (nfb :: u16) (s :: frag_state) (r :: u8 list list result). \<not> (mtu' = mtu \<and> L' = L \<and> buffer' = buffer \<and> nfb = 0 \<and>
    fr_left s = of_nat (length data) \<and> fr_poff s = of_nat (L + 20))"
  assume "net_fragment freed mtu L buffer \<noteq> None"
  then obtain y where y: "net_fragment freed mtu L buffer = Some y" by blast
  define s where "s = \<lparr>fr_header = inetheader_of (drop L buffer), fr_poff = of_nat L + 20,
    fr_fragoff = and (bswap16 (ip_fragoff (inetheader_of (drop L buffer)))) NET_IPOFFMASK, fr_left = of_nat (length data)\<rparr>"
  have nfb: "(of_nat M :: u64) div 8 = 0"
  proof -
    have "unat ((of_nat M :: u64) div 8) = 0" using mtu(2) by (simp add: unat_div unat_of_nat_small)
    then show ?thesis by (simp only: unat_eq_zero)
  qed
  have last: "\<not> ucast (of_nat (length data) :: u16) \<le> mtu - 20 - of_nat L"
    using mtu(2,3) data unfolding mtu_room [OF mtu(1)] by (simp add: word_le_nat_alt unat_of_nat)
  have run: "frag_loop freed mtu L buffer (and (bswap16 (ip_fragoff (inetheader_of (drop L buffer)))) NET_IPFLAGMF) 0 s = Some y"
    using y unfolding net_fragment_def Let_def mtu_room [OF mtu(1)] nfb s_def by (simp add: buffer(1,2))
  have "?P freed mtu L buffer (and (bswap16 (ip_fragoff (inetheader_of (drop L buffer)))) NET_IPFLAGMF) 0 s y"
  proof (rule frag_loop.raw_induct [of ?P, OF _ run], goal_cases)
    case (1 f freed' mtu' L' buffer' mf nfb' t r)
    show ?case
    proof
      assume A: "mtu' = mtu \<and> L' = L \<and> buffer' = buffer \<and> nfb' = 0 \<and> fr_left t = of_nat (length data) \<and> fr_poff t = of_nat (L + 20)"
      have nz: "(of_nat (length data) :: u16) \<noteq> 0"
        using data mtu(3) by (auto simp: unat_eq_zero [symmetric] unat_of_nat)
      have "\<not> ucast (fr_left t) \<le> mtu - 20 - of_nat L" using A last by simp
      moreover have "unat (of_nat (L + 20) :: u16) = L + 20" using buffer by (simp only: unat_of_nat) simp
      then have "copy_from buffer (unat (fr_poff t)) 0 = Inr []" using A buffer by (simp add: copy_from_def)
      ultimately have "\<exists>x. frag_turn mtu L buffer mf 0 t = Inr x \<and> fr_left (snd x) = fr_left t \<and> fr_poff (snd x) = fr_poff t"
        by (simp add: frag_turn_def Let_def)
      then obtain x where "frag_turn mtu L buffer mf 0 t = Inr x" and
        "fr_left (snd x) = fr_left t" "fr_poff (snd x) = fr_poff t" by blast
      moreover note 1(1) [of freed' mtu L buffer mf 0 "(snd x)\<lparr>fr_header := freed' (fr_header (snd x))\<rparr>"]
      ultimately show False using 1(2) A nz by (auto simp: bind_eq_Some_conv)
    qed
  qed
  then show False by (simp add: s_def)
qed


text \<open>
  A fragment that arrives before the ones it follows is written behind the end of the block: the block
  is as long as the bytes received, wherever they belong.
\<close>

lemma fragment_gap_overflows:
  assumes "find_last (same_datagram h) metas = Some i" "ip_ihl h \<le> 5"
    and "unat (bswap16 (ip_len h) - 20) \<le> length body"
    and "unat (and (bswap16 (ip_fragoff h)) NET_IPOFFMASK * 8) > unat (rm_len (metas ! i))"
  shows "net_reassemble h body metas = Inl OutOfBounds"
proof -
  let ?n = "bswap16 (ip_len h) - 20"
  let ?o = "and (bswap16 (ip_fragoff h)) NET_IPOFFMASK * 8"
  have "unat (rm_len (metas ! i) + ?n) \<le> unat (rm_len (metas ! i)) + unat ?n"
    by (metis unat_word_ariths(1) mod_less_eq_dividend)
  then have "copy_into (resize (rm_data (metas ! i)) (unat (rm_len (metas ! i) + ?n))) (unat ?o) (take (unat ?n) body) = Inl OutOfBounds"
    using assms(3,4) by (auto simp: copy_into_def resize_def)
  moreover have "\<not> unat (ip_ihl h) * 4 > INETHEADER_SIZE"
    using assms(2) by (simp add: word_le_nat_alt INETHEADER_SIZE_def)
  ultimately show ?thesis
    using assms(3) by (simp add: net_reassemble_def assms(1) add_fragment_def Let_def copy_from_def)
qed

text \<open>An entry whose fragments stop coming is removed: every round takes at least one from the timers.\<close>

definition timers :: "net_reassmetadata list \<Rightarrow> nat" where
  "timers ms = (\<Sum>m \<leftarrow> ms. unat (rm_timer m))"

definition timers_ok :: "net_reassmetadata list \<Rightarrow> bool" where
  "timers_ok ms \<longleftrightarrow> (\<forall>m \<in> set ms. 0 < rm_timer m)"

lemma fraghandler_round_timers:
  "timers_ok ms \<Longrightarrow> timers_ok (fraghandler_round ms) \<and> timers (fraghandler_round ms) \<le> timers ms \<and>
    (ms \<noteq> [] \<longrightarrow> timers (fraghandler_round ms) < timers ms)"
proof (induction ms rule: fraghandler_round.induct)
  case (2 m ms)
  have t: "unat (rm_timer m - 1) = unat (rm_timer m) - 1" "0 < unat (rm_timer m)"
    using 2(3) by (simp_all add: timers_ok_def unat_minus_one word_neq_0_conv word_less_nat_alt)
  show ?case
  proof (cases "rm_timer m - 1 = 0")
    case True
    show ?thesis
    proof (cases ms)
      case (Cons m2 rest)
      have "timers_ok rest" using 2(3) Cons by (simp add: timers_ok_def)
      then have "timers_ok (fraghandler_round rest)" "timers (fraghandler_round rest) \<le> timers rest"
        using 2(1) [OF refl _ Cons] True by simp_all
      with True Cons 2(3) t show ?thesis by (simp add: timers_def timers_ok_def)
    qed (use True t in \<open>simp add: timers_def timers_ok_def\<close>)
  next
    case False
    have "timers_ok ms" using 2(3) by (simp add: timers_ok_def)
    then have "timers_ok (fraghandler_round ms)" "timers (fraghandler_round ms) \<le> timers ms"
      using 2(2) [OF refl] False by simp_all
    moreover have "0 < rm_timer m - 1" using False by (simp only: flip: word_neq_0_conv) simp
    ultimately show ?thesis using False t by (simp add: timers_def timers_ok_def) linarith
  qed
qed (simp add: timers_def)

lemma fragments_age_out: "timers_ok ms \<Longrightarrow> timers ms \<le> n \<Longrightarrow> (fraghandler_round ^^ n) ms = []"
proof (induction n arbitrary: ms)
  case 0
  then show ?case by (cases ms) (auto simp: timers_def timers_ok_def unat_eq_zero)
next
  case (Suc n)
  then show ?case
    using fraghandler_round_timers [of ms] Suc.IH [of "fraghandler_round ms"]
    by (cases "ms = []") (auto simp: funpow_Suc_right timers_def simp del: funpow.simps)
qed

end
