(* ===== verification/Lyre_Segment.thy ===== *)
theory Lyre_Segment
  imports Lyre_Packet
begin

section \<open>TCP segments and streams (ipc/socket/tcp.c)\<close>

text \<open>
  The parts of the TCP code without connections: the receive buffer, the layout of a segment, its
  checksum and its options.  The fields of a header are kept as they are in memory, with the bytes of
  the network's order; \<open>bswap16\<close> and \<open>bswap32\<close> are applied where the code does.
\<close>

unbundle bit_operations_syntax

subsection \<open>The receive buffer\<close>

record tcp_stream =
  st_size :: u64
  st_pos :: u64
  st_buf :: "u8 list"

definition TCP_BUFFERSIZE :: nat where
  "TCP_BUFFERSIZE = 0xffff"

definition tcp_streamread :: "tcp_stream \<Rightarrow> u64 \<Rightarrow> (u8 list \<times> tcp_stream) result" where
  "tcp_streamread s len0 =
     (let len = (if len0 > st_pos s then st_pos s else len0)
      in if len = 0 then Inr ([], s)
         else rbind (copy_from (st_buf s) 0 (unat len)) (\<lambda>out.
              rbind (copy_from (st_buf s) (unat len) (unat (st_pos s - len))) (\<lambda>rest.
              rbind (copy_into (st_buf s) 0 rest) (\<lambda>buf.
                Inr (out, s\<lparr>st_buf := buf, st_pos := st_pos s - len\<rparr>)))))"

text \<open>\<open>None\<close> for the result \<open>-1\<close>.\<close>

definition tcp_streamwrite :: "tcp_stream \<Rightarrow> u8 list \<Rightarrow> tcp_stream option result" where
  "tcp_streamwrite s data =
     (if st_pos s + of_nat (length data) > st_size s then Inr None
      else rbind (copy_into (st_buf s) (unat (st_pos s)) data) (\<lambda>buf.
        Inr (Some (s\<lparr>st_buf := buf, st_pos := st_pos s + of_nat (length data)\<rparr>))))"

subsection \<open>Headers\<close>

definition bswap32 :: "u32 \<Rightarrow> u32" where
  "bswap32 w = push_bit 16 (ucast (bswap16 (ucast w))) OR ucast (bswap16 (ucast (drop_bit 16 w)))"

text \<open>The bits of the second byte of the flags; the first holds the offset of the data.\<close>

definition F_FIN :: u8 where "F_FIN = 1"
definition F_SYN :: u8 where "F_SYN = 2"
definition F_RST :: u8 where "F_RST = 4"
definition F_PSH :: u8 where "F_PSH = 8"
definition F_ACK :: u8 where "F_ACK = 16"

record tcp_header =
  th_srcport :: u16
  th_destport :: u16
  th_sequence :: u32
  th_acknumber :: u32
  th_doff :: u8
  th_flags :: u8
  th_winsize :: u16

definition TCPHEADER_SIZE :: nat where
  "TCPHEADER_SIZE = 20"

definition tcpheader_bytes :: "tcp_header \<Rightarrow> u16 \<Rightarrow> u8 list" where
  "tcpheader_bytes h csum = le16 (th_srcport h) @ le16 (th_destport h) @ le32 (th_sequence h) @ le32 (th_acknumber h) @
     [push_bit 4 (th_doff h), th_flags h] @ le16 (th_winsize h) @ le16 csum @ le16 0"

definition tcpheader_of :: "u8 list \<Rightarrow> tcp_header" where
  "tcpheader_of bs = \<lparr>th_srcport = get16 bs 0, th_destport = get16 bs 2, th_sequence = get32 bs 4, th_acknumber = get32 bs 8,
     th_doff = drop_bit 4 (bs ! 12), th_flags = bs ! 13, th_winsize = get16 bs 14\<rparr>"

definition has :: "u8 \<Rightarrow> tcp_header \<Rightarrow> bool" where
  "has f h \<longleftrightarrow> th_flags h AND f \<noteq> 0"

text \<open>Numbers as the code compares them.\<close>

definition seq_of :: "tcp_header \<Rightarrow> u32" where "seq_of h = bswap32 (th_sequence h)"
definition ack_of :: "tcp_header \<Rightarrow> u32" where "ack_of h = bswap32 (th_acknumber h)"

text \<open>The window: \<open>__builtin_bswap32\<close> is applied to the sixteen bits of the field.\<close>

definition window_of :: "tcp_header \<Rightarrow> u32" where
  "window_of h = bswap32 (ucast (th_winsize h))"

subsection \<open>The checksum\<close>

text \<open>One pass of \<open>tcp_checksum\<close> over a block, with the odd byte at its end, and the fold behind it.\<close>

definition tcp_sum :: "u32 \<Rightarrow> u8 list \<Rightarrow> u32" where
  "tcp_sum csum bs =
     (let c = csum_loop csum bs; c1 = (if odd (length bs) then c + ucast (last bs) else c)
      in (c1 AND 0xFFFF) + drop_bit 16 c1)"

definition tcp_pseudo :: "u32 \<Rightarrow> u32 \<Rightarrow> u16 \<Rightarrow> u8 list" where
  "tcp_pseudo src dest len = le32 src @ le32 dest @ [0, 6] @ le16 (bswap16 len)"

definition tcp_checksum :: "u32 \<Rightarrow> u32 \<Rightarrow> u8 list \<Rightarrow> u16 \<Rightarrow> u16" where
  "tcp_checksum src dest data len = ucast (NOT (tcp_sum (tcp_sum 0 (tcp_pseudo src dest len)) (take (unat len) data)))"

subsection \<open>Options\<close>

definition TCP_OPTEOL :: u8 where "TCP_OPTEOL = 0"
definition TCP_OPTNOP :: u8 where "TCP_OPTNOP = 1"
definition TCP_OPTMSS :: u8 where "TCP_OPTMSS = 2"
definition TCP_OPTTIMESTAMPS :: u8 where "TCP_OPTTIMESTAMPS = 8"

text \<open>
  What \<open>tcp_parseoptions\<close> sets.  It is given a copy of the header in a \<open>struct tcp_packet\<close>, where the
  twenty bytes of the header are followed by the length of the data and the pointer to them and not by
  the options: \<open>opts\<close> are these twelve bytes, behind which the block ends.
\<close>

record tcp_opts =
  op_maxseg :: u16
  op_recent :: u32
  op_ts :: bool

definition behind_header :: "u32 \<Rightarrow> u64 \<Rightarrow> u8 list" where
  "behind_header len dptr = le32 len @ le32 (ucast dptr) @ le32 (ucast (drop_bit 32 dptr))"

definition opt_word :: "u8 list \<Rightarrow> nat \<Rightarrow> u32 result" where
  "opt_word opts i =
     rbind (arr_get opts i) (\<lambda>a. rbind (arr_get opts (i + 1)) (\<lambda>b. rbind (arr_get opts (i + 2)) (\<lambda>c. rbind (arr_get opts (i + 3)) (\<lambda>d.
       Inr (ucast a OR push_bit 8 (ucast b) OR push_bit 16 (ucast c) OR push_bit 24 (ucast d))))))"

text \<open>
  The loop at offset \<open>i\<close> of \<open>max\<close> bytes; \<open>syn\<close> and \<open>lastack\<close> decide what happens to a time stamp.
\<close>

definition stamp_current :: "u32 \<Rightarrow> u32 \<Rightarrow> u32 \<Rightarrow> bool" where
  "stamp_current lastack seq len \<longleftrightarrow> sint (lastack - seq) \<ge> 0 \<and> sint (lastack - seq + len) \<le> 0"

function opts_loop :: "u8 list \<Rightarrow> nat \<Rightarrow> bool \<Rightarrow> bool \<Rightarrow> nat \<Rightarrow> tcp_opts \<Rightarrow> tcp_opts result" where
  "opts_loop opts m syn current i t =
     (if i \<ge> m then Inr t
      else case arr_get opts i of
        Inl e \<Rightarrow> Inl e
      | Inr opt \<Rightarrow>
          if opt = TCP_OPTEOL then Inr t
          else if opt = TCP_OPTNOP then opts_loop opts m syn current (i + 1) t
          else case arr_get opts (i + 1) of
            Inl e \<Rightarrow> Inl e
          | Inr n \<Rightarrow>
              if opt = TCP_OPTMSS then
                if n \<noteq> 4 \<or> i + 4 > m then Inr t
                else rbind (arr_get opts (i + 2)) (\<lambda>hi. rbind (arr_get opts (i + 3)) (\<lambda>lo.
                  opts_loop opts m syn current (i + 4) (t\<lparr>op_maxseg := push_bit 8 (ucast hi) OR ucast lo\<rparr>)))
              else if opt = TCP_OPTTIMESTAMPS then
                if n \<noteq> 10 \<or> i + 10 > m then Inr t
                else rbind (opt_word opts (i + 2)) (\<lambda>ts.
                  opts_loop opts m syn current (i + 10)
                    (if syn then t\<lparr>op_recent := bswap32 ts, op_ts := True\<rparr>
                     else if current then t\<lparr>op_recent := bswap32 ts\<rparr> else t))
              else if n = 0 then Inr t
              else opts_loop opts m syn current (i + unat n) t)"
  by pat_completeness auto
termination
  by (relation "measure (\<lambda>(opts, m, syn, current, i, t). m - i)") (auto simp: unat_gt_0 intro!: diff_less_mono2)

declare opts_loop.simps [simp del]

definition parse_options :: "tcp_header \<Rightarrow> u32 \<Rightarrow> u64 \<Rightarrow> u32 \<Rightarrow> tcp_opts \<Rightarrow> tcp_opts result" where
  "parse_options h len dptr lastack t =
     (let d = 4 * unat (th_doff h)
      in if d > TCPHEADER_SIZE
         then opts_loop (behind_header len dptr) (d - TCPHEADER_SIZE) (has F_SYN h) (stamp_current lastack (seq_of h) len) 0 t
         else Inr t)"

subsection \<open>The buffer is a queue of bytes\<close>

definition stream_wf :: "tcp_stream \<Rightarrow> bool" where
  "stream_wf s \<longleftrightarrow> length (st_buf s) = unat (st_size s) \<and> st_pos s \<le> st_size s \<and> unat (st_size s) < 4294967296"

definition stream_bytes :: "tcp_stream \<Rightarrow> u8 list" where
  "stream_bytes s = take (unat (st_pos s)) (st_buf s)"

lemma stream_write_spec:
  assumes "stream_wf s" "length data < 4294967296"
  shows "if length (stream_bytes s) + length data \<le> unat (st_size s)
    then \<exists>s'. tcp_streamwrite s data = Inr (Some s') \<and> stream_wf s' \<and> stream_bytes s' = stream_bytes s @ data \<and> st_size s' = st_size s
    else tcp_streamwrite s data = Inr None"
proof -
  have p: "unat (st_pos s) \<le> length (st_buf s)" "length (st_buf s) = unat (st_size s)" "unat (st_size s) < 4294967296"
    using assms(1) by (auto simp: stream_wf_def word_le_nat_alt)
  have d: "unat (of_nat (length data) :: u64) = length data" using assms(2) by (intro unat_of_nat_small) simp
  have sum: "unat (st_pos s + of_nat (length data)) = unat (st_pos s) + length data"
    using p d assms(2) by (subst unat_add_small) auto
  have len: "length (stream_bytes s) = unat (st_pos s)" using p by (simp add: stream_bytes_def)
  show ?thesis
  proof (cases "length (stream_bytes s) + length data \<le> unat (st_size s)")
    case True
    then have "\<not> st_pos s + of_nat (length data) > st_size s" by (simp add: word_less_nat_alt sum len)
    then show ?thesis
      using True p sum len by (simp add: tcp_streamwrite_def copy_into_def stream_wf_def stream_bytes_def word_le_nat_alt)
  next
    case False
    then show ?thesis by (simp add: tcp_streamwrite_def word_less_nat_alt sum len)
  qed
qed

lemma stream_read_spec:
  assumes "stream_wf s"
  shows "\<exists>s'. tcp_streamread s n = Inr (take (unat n) (stream_bytes s), s') \<and> stream_wf s' \<and>
    stream_bytes s' = drop (unat n) (stream_bytes s) \<and> st_size s' = st_size s"
proof -
  define m where "m = (if n > st_pos s then st_pos s else n)"
  have p: "unat (st_pos s) \<le> length (st_buf s)" "length (st_buf s) = unat (st_size s)" using assms by (auto simp: stream_wf_def word_le_nat_alt)
  have m: "unat m = min (unat n) (unat (st_pos s))" by (simp add: m_def word_less_nat_alt)
  then have left: "unat (st_pos s - m) = unat (st_pos s) - unat m" by (intro unat_sub_small) simp
  have len: "length (stream_bytes s) = unat (st_pos s)" using p by (simp add: stream_bytes_def)
  have out: "take (unat n) (stream_bytes s) = take (unat m) (stream_bytes s)" "drop (unat n) (stream_bytes s) = drop (unat m) (stream_bytes s)"
    using len by (auto simp: m min_def)
  have le: "unat m \<le> unat (st_pos s)" by (simp add: m)
  show ?thesis
  proof (cases "m = 0")
    case True
    have "tcp_streamread s n = Inr ([], s)" unfolding tcp_streamread_def Let_def m_def [symmetric] using True by simp
    with True out assms show ?thesis by simp
  next
    case False
    let ?rest = "drop (unat m) (stream_bytes s)"
    let ?buf = "?rest @ drop (unat (st_pos s) - unat m) (st_buf s)"
    have "copy_from (st_buf s) 0 (unat m) = Inr (take (unat m) (stream_bytes s))"
      using p le by (simp add: copy_from_def stream_bytes_def min_absorb1)
    moreover have "copy_from (st_buf s) (unat m) (unat (st_pos s - m)) = Inr ?rest"
      using p le by (simp add: left copy_from_def stream_bytes_def drop_take)
    moreover have l: "length ?rest = unat (st_pos s) - unat m" by (simp add: len)
    then have "copy_into (st_buf s) 0 ?rest = Inr ?buf" using p by (simp add: copy_into_def)
    ultimately have "tcp_streamread s n = Inr (take (unat m) (stream_bytes s), s\<lparr>st_buf := ?buf, st_pos := st_pos s - m\<rparr>)"
      unfolding tcp_streamread_def Let_def m_def [symmetric] using False by simp
    moreover have "st_pos s - m \<le> st_size s" using left p by (simp add: word_le_nat_alt)
    moreover have "stream_bytes (s\<lparr>st_buf := ?buf, st_pos := st_pos s - m\<rparr>) = ?rest"
      using l left unfolding stream_bytes_def [of "s\<lparr>st_buf := ?buf, st_pos := st_pos s - m\<rparr>"] by simp
    ultimately show ?thesis unfolding out using l p assms by (simp add: stream_wf_def)
  qed
qed

subsection \<open>Byte order\<close>

lemma bswap32_bswap32 [simp]: "bswap32 (bswap32 w) = w"
proof -
  have lo: "ucast (bswap32 w) = bswap16 (ucast (drop_bit 16 w))" for w
    unfolding bswap32_def by (rule bit_word_eqI) (auto simp: bit_simps)
  have hi: "ucast (drop_bit 16 (bswap32 w)) = bswap16 (ucast w)" for w
    unfolding bswap32_def by (rule bit_word_eqI) (auto simp: bit_simps dest: bit_imp_le_length)
  show ?thesis by (subst bswap32_def) (simp add: lo hi, rule bit_word_eqI, auto simp: bit_simps)
qed

text \<open>The window the code uses is the one in the header times 65536.\<close>

lemma window_scaled: "window_of h = push_bit 16 (ucast (bswap16 (th_winsize h)))"
proof -
  have "drop_bit 16 (ucast (v :: u16) :: u32) = 0" for v by (rule bit_word_eqI) (auto simp: bit_simps dest: bit_imp_le_length)
  moreover have "ucast (ucast (v :: u16) :: u32) = v" for v by (rule bit_word_eqI) (auto simp: bit_simps)
  ultimately show ?thesis by (simp add: window_of_def bswap32_def)
qed


subsection \<open>The checksum\<close>

lemma words16_odd:
  "odd (length bs) \<Longrightarrow> sum_list (words16 (bs @ [0])) = sum_list (words16 bs) + unat (last bs)"
proof (induction bs rule: words16.induct)
  case (1 a b bs)
  then show ?case by (cases bs) auto
qed auto

text \<open>The number a pass adds up to, and what the fold makes of it.\<close>

definition even_up :: "u8 list \<Rightarrow> u8 list" where
  "even_up bs = (if even (length bs) then bs else bs @ [0])"

definition fold_once :: "nat \<Rightarrow> nat" where
  "fold_once n = n mod 65536 + n div 65536"

lemma unat_tcp_sum:
  assumes "unat csum < 131071" "length bs \<le> 131066"
  shows "unat (tcp_sum csum bs) = fold_once (unat csum + sum_list (words16 (even_up bs)))"
proof -
  let ?c = "csum_loop csum bs"
  let ?c1 = "if odd (length bs) then ?c + ucast (last bs) else ?c"
  have "length bs div 2 \<le> 65533" using assms(2) by linarith
  then have "65535 * (length bs div 2) \<le> 4294705155" by simp
  then have b: "unat csum + sum_list (words16 bs) < 4294836226" using sum_words16_le [of bs] assms(1) by linarith
  then have c: "unat ?c = unat csum + sum_list (words16 bs)" by (intro unat_csum_loop) simp
  have "unat ?c1 = unat csum + sum_list (words16 (even_up bs))"
  proof (cases "odd (length bs)")
    case True
    have "unat (?c + ucast (last bs)) = unat ?c + unat (last bs)"
      using b c unat_less_256 [of "last bs"] by (simp add: unat_word_ariths)
    with True show ?thesis by (simp add: even_up_def words16_odd c)
  qed (simp add: even_up_def c)
  then show ?thesis unfolding tcp_sum_def Let_def fold_once_def using unat_fold_word(1) [of ?c1] by simp
qed

lemma length_even_up: "even (length (even_up bs))" "length (even_up bs) \<le> length bs + 1"
  by (auto simp: even_up_def)

lemma fold_once_props:
  "0 < n \<Longrightarrow> 0 < fold_once n" "fold_once n mod 65535 = n mod 65535" "n < 4294967296 \<Longrightarrow> fold_once n < 131071"
proof -
  have f: "n = fold_once n + 65535 * (n div 65536)" by (simp add: fold_once_def)
  have "n mod 65535 = (fold_once n + 65535 * (n div 65536)) mod 65535" by (subst f) (rule refl)
  then show "fold_once n mod 65535 = n mod 65535" by (simp only: mod_mult_self2)
  show "0 < fold_once n" if "0 < n"
  proof (rule ccontr)
    assume "\<not> 0 < fold_once n"
    then have "n mod 65536 = 0" "n div 65536 = 0" by (simp_all add: fold_once_def)
    with that show False using div_mult_mod_eq [of n 65536] by simp
  qed
  show "fold_once n < 131071" if "n < 4294967296"
    using that unat_fold_word(2) [of "of_nat n"] by (simp add: fold_once_def unat_of_nat)
qed

lemma rfc1071_two_blocks:
  assumes "even (length p)" "0 < sum_list (words16 p)"
  shows "rfc1071 (p @ data) = 65535 - carry_norm (fold_once (sum_list (words16 p)) + sum_list (words16 (even_up data)))"
proof -
  let ?a = "sum_list (words16 p)"
  let ?b = "sum_list (words16 (even_up data))"
  have "rfc1071 (p @ data) = rfc1071 (p @ even_up data)" using assms(1) by (simp add: rfc1071_def even_up_def)
  also have "\<dots> = 65535 - carry_norm (?a + ?b)"
    using assms(1) length_even_up(1) [of data] by (subst rfc1071_norm) (simp_all add: words16_append)
  also have "carry_norm (?a + ?b) = carry_norm (fold_once ?a + ?b)"
  proof (rule carry_norm_eq)
    show "carry_norm (fold_once ?a + ?b) mod 65535 = (?a + ?b) mod 65535"
      unfolding carry_norm_mod by (rule mod_add_cong [OF fold_once_props(2) refl])
    show "0 < carry_norm (fold_once ?a + ?b)" using fold_once_props(1) [OF assms(2)] by (simp add: carry_norm_def)
  qed (use assms(2) carry_norm_le in auto)
  finally show ?thesis .
qed

text \<open>
  C37.  \<open>tcp_checksum\<close> is the Internet checksum of the pseudo header and the segment, but the carry of the
  last addition is dropped: when the sum of both passes folds to more than sixteen bits, the result is
  one too large.
\<close>

theorem tcp_checksum_rfc1071:
  assumes "unat len = length data" "pseudo = tcp_pseudo src dest len"
    and "n = fold_once (sum_list (words16 pseudo)) + sum_list (words16 (even_up data))"
  shows "unat (tcp_checksum src dest data len) =
    (if fold_once n < 65536 then rfc1071 (pseudo @ data) else rfc1071 (pseudo @ data) + 1)"
proof -
  have len: "length data < 65536" using assms(1) unat_less_65536 [of len] by simp
  have p: "length pseudo = 12" "even_up pseudo = pseudo" by (simp_all add: assms(2) tcp_pseudo_def even_up_def)
  have psum: "sum_list (words16 pseudo) \<le> 393210" using sum_words16_le [of pseudo] p by simp
  let ?s1 = "tcp_sum 0 pseudo"
  have s1: "unat ?s1 = fold_once (sum_list (words16 pseudo))" using unat_tcp_sum [of 0 pseudo] p by simp
  have s1_small: "unat ?s1 < 131071"
  proof -
    have "sum_list (words16 pseudo) div 65536 \<le> 5" using psum div_le_mono [OF psum, of 65536] by simp
    then show ?thesis unfolding s1 fold_once_def using mod_less_divisor [of 65536 "sum_list (words16 pseudo)"] by linarith
  qed
  let ?s2 = "tcp_sum ?s1 data"
  have s2: "unat ?s2 = fold_once n" using unat_tcp_sum [OF s1_small, of data] len s1 by (simp add: assms(3))
  have n: "n < 4294967296"
  proof -
    have "length (even_up data) div 2 \<le> 32768" using length_even_up(2) [of data] len by linarith
    then have "65535 * (length (even_up data) div 2) \<le> 2147450880" by simp
    then show ?thesis using sum_words16_le [of "even_up data"] s1_small unfolding assms(3) s1 [symmetric] by linarith
  qed
  have "0 < sum_list (words16 pseudo)" by (simp add: assms(2) tcp_pseudo_def le32_def)
  then have whole: "rfc1071 (pseudo @ data) = 65535 - carry_norm n" using p assms(3) by (simp add: rfc1071_two_blocks)
  have tc: "tcp_checksum src dest data len = NOT (ucast ?s2 :: u16)"
    unfolding tcp_checksum_def assms(1) assms(2) [symmetric] take_all [OF order.refl] by (rule bit_word_eqI) (auto simp: bit_simps)
  have "unat (ucast ?s2 :: u16) = fold_once n mod 65536" by (simp only: unat_ucast_word s2) (simp add: take_bit_eq_mod)
  then have r: "unat (tcp_checksum src dest data len) = 65535 - fold_once n mod 65536" by (simp add: tc unat_not_u16)
  have small: "fold_once n < 131071" by (rule fold_once_props(3) [OF n])
  have "carry_norm n = (if fold_once n > 65535 then fold_once n - 65535 else fold_once n)"
    unfolding fold_once_def fold16_norm [OF n, symmetric] fold16_def Let_def ..
  then show ?thesis unfolding r whole using small by (cases "fold_once n < 65536") (auto simp: le_mod_geq)
qed


text \<open>Data for which the last addition has a carry, and data for which it has none.\<close>

theorem tcp_checksum_rfc1071_witness:
  "unat (tcp_checksum 0 0 [0xff, 0xff, 0, 0xf5] 4) = rfc1071 (tcp_pseudo 0 0 4 @ [0xff, 0xff, 0, 0xf5]) \<and>
   unat (tcp_checksum 0 0 [0xff, 0xff, 0, 0xf6] 4) = rfc1071 (tcp_pseudo 0 0 4 @ [0xff, 0xff, 0, 0xf6]) + 1"
proof -
  have p: "words16 (tcp_pseudo 0 0 4) = [0, 0, 0, 0, 1536, 1024]"
    by (simp add: tcp_pseudo_def le32_def le16_def bswap16_def)
  show ?thesis
    using tcp_checksum_rfc1071 [of 4 "[0xff, 0xff, 0, 0xf5]" "tcp_pseudo 0 0 4" 0 0, OF _ refl refl]
      tcp_checksum_rfc1071 [of 4 "[0xff, 0xff, 0, 0xf6]" "tcp_pseudo 0 0 4" 0 0, OF _ refl refl]
    by (simp add: p fold_once_def even_up_def)
qed

subsection \<open>Options\<close>

text \<open>
  Of a segment without data no option is ever read: the length, which is where the options are looked
  for, is zero and ends the list.  So the maximum segment size and the time stamps a peer announces
  with its \<open>SYN\<close> are ignored.
\<close>

lemma options_without_data_ignored: "parse_options h 0 dptr lastack t = Inr t"
  by (simp add: parse_options_def behind_header_def le32_def opts_loop.simps [of _ _ _ _ 0] TCP_OPTEOL_def Let_def)

end
