(* ===== verification/Lyre_Net.thy ===== *)
theory Lyre_Net
  imports Lyre_Packet Lyre_Abi Lyre_Lock
begin

section \<open>Network adapters (dev/net/net.c, dev/net/loopback.c)\<close>

text \<open>
  The adapters, the cache of hardware addresses, the ports, routing, sending, and what an adapter's
  thread does with a packet.  Adapters have addresses (zero for \<open>NULL\<close>); their drivers are arguments:
  \<open>txpacket\<close> is the driver's function, \<open>net_sleep\<close> what other threads do to the state while the caller
  sleeps, \<open>freed_header\<close> what a header in freed memory reads as (see \<open>frag_turn\<close>).  Calls of
  \<open>event_trigger\<close> on an adapter's event are counted.  The handlers of TCP and UDP are arguments of
  \<open>net_oninet\<close>.  Starting the threads and the entry in \<open>/dev\<close> are left out.
\<close>

subsection \<open>State\<close>

type_synonym macaddr = "u8 list"

record net_adapter =
  na_mac :: macaddr
  permmac :: macaddr
  na_ip :: u32
  gateway :: u32
  subnetmask :: u32
  ipframe :: u16
  na_flags :: u16
  na_index :: int
  hwmtu :: u64
  mtu :: u64
  addrcache :: "(u32 \<times> macaddr) list"
  addrcachelock :: spinlock
  na_cache :: "u8 list list"
  cachelock :: spinlock
  ifname :: string
  na_type :: u8
  packet_triggers :: nat
  socklock :: spinlock
  boundsocks :: "u64 list"

text \<open>\<open>sock_adapter\<close> is the \<open>adapter\<close> field of the sockets.\<close>

record net =
  net_adapters :: "u64 list"
  adapter_at :: "u64 \<Rightarrow> net_adapter"
  net_ethcount :: int
  net_portbitmap :: "u8 list"
  net_portbitmaplock :: spinlock
  net_reassemblemeta :: "net_reassmetadata list"
  sock_adapter :: "u64 \<Rightarrow> u64"

record 'n netenv =
  txpacket :: "u64 \<Rightarrow> u8 list \<Rightarrow> 'n \<Rightarrow> 'n result"
  net_sleep :: "nat \<Rightarrow> 'n \<Rightarrow> 'n"
  freed_header :: "net_inetheader \<Rightarrow> net_inetheader"

definition put_adapter :: "u64 \<Rightarrow> (net_adapter \<Rightarrow> net_adapter) \<Rightarrow> 'm net_scheme \<Rightarrow> 'm net_scheme" where
  "put_adapter a f n = n\<lparr>adapter_at := (adapter_at n)(a := f (adapter_at n a))\<rparr>"

definition NET_ADAPTERETH :: u8 where "NET_ADAPTERETH = 1"
definition NET_ADAPTERLO :: u8 where "NET_ADAPTERLO = 2"
definition NET_ETHPROTOIPV4 :: u16 where "NET_ETHPROTOIPV4 = 0x800"
definition NET_ETHPROTOARP :: u16 where "NET_ETHPROTOARP = 0x806"

definition is_eth :: "u64 \<Rightarrow> 'm net_scheme \<Rightarrow> bool" where
  "is_eth a n \<longleftrightarrow> and (na_type (adapter_at n a)) NET_ADAPTERETH \<noteq> 0"

definition NET_LINKLAYERFRAMESIZE :: "u64 \<Rightarrow> 'm net_scheme \<Rightarrow> nat" where
  "NET_LINKLAYERFRAMESIZE a n = (if is_eth a n then 14 else 0)"

text \<open>Protocol numbers and special addresses, the same in every byte order.\<close>

definition IPPROTO_ICMP :: u8 where "IPPROTO_ICMP = 1"
definition IPPROTO_TCP :: u8 where "IPPROTO_TCP = 6"
definition IPPROTO_UDP :: u8 where "IPPROTO_UDP = 17"
definition INADDR_ANY :: u32 where "INADDR_ANY = 0"
definition INADDR_BROADCAST :: u32 where "INADDR_BROADCAST = 0xFFFFFFFF"

definition MAC_BROADCAST :: macaddr where
  "MAC_BROADCAST = replicate 6 0xff"

subsection \<open>Frames\<close>

definition etherframe_bytes :: "macaddr \<Rightarrow> macaddr \<Rightarrow> u16 \<Rightarrow> u8 list" where
  "etherframe_bytes dest src ty = dest @ src @ le16 ty"

record net_arpheader =
  hwtype :: u16
  prtype :: u16
  hwlen :: u8
  plen :: u8
  opcode :: u16
  srchw :: macaddr
  srcpr :: u32
  desthw :: macaddr
  destpr :: u32

definition arpheader_bytes :: "net_arpheader \<Rightarrow> u8 list" where
  "arpheader_bytes h = le16 (hwtype h) @ le16 (prtype h) @ [hwlen h, plen h] @ le16 (opcode h) @
     srchw h @ le32 (srcpr h) @ desthw h @ le32 (destpr h)"

definition arpheader_of :: "u8 list \<Rightarrow> net_arpheader" where
  "arpheader_of bs = \<lparr>hwtype = get16 bs 0, prtype = get16 bs 2, hwlen = bs ! 4, plen = bs ! 5, opcode = get16 bs 6,
     srchw = take 6 (drop 8 bs), srcpr = get32 bs 14, desthw = take 6 (drop 18 bs), destpr = get32 bs 24\<rparr>"

definition ARPHEADER_SIZE :: nat where
  "ARPHEADER_SIZE = 28"

subsection \<open>Adapters and the cache of addresses\<close>

definition net_findadapterbyip :: "u32 \<Rightarrow> 'm net_scheme \<Rightarrow> u64" where
  "net_findadapterbyip addr n =
     (case find (\<lambda>a. na_ip (adapter_at n a) = addr) (net_adapters n) of Some a \<Rightarrow> a | None \<Rightarrow> 0)"

definition net_grabcache :: "u64 \<Rightarrow> u32 \<Rightarrow> 'm net_scheme \<Rightarrow> (macaddr option \<times> 'm net_scheme) result" where
  "net_grabcache a ip n =
     rbind (spinlock_acquire ''net_grabcache'' (addrcachelock (adapter_at n a))) (\<lambda>l.
       Inr (map_of (addrcache (adapter_at n a)) ip, put_adapter a (\<lambda>d. d\<lparr>addrcachelock := spinlock_release l\<rparr>) n))"

definition net_findcache :: "u64 \<Rightarrow> u32 \<Rightarrow> 'm net_scheme \<Rightarrow> (bool \<times> 'm net_scheme) result" where
  "net_findcache a ip n =
     rbind (spinlock_acquire ''net_findcache'' (addrcachelock (adapter_at n a))) (\<lambda>l.
       Inr (map_of (addrcache (adapter_at n a)) ip \<noteq> None, put_adapter a (\<lambda>d. d\<lparr>addrcachelock := spinlock_release l\<rparr>) n))"

subsection \<open>Ports\<close>

definition NET_PORTRANGESTART :: nat where "NET_PORTRANGESTART = 49152"
definition NET_PORTRANGEEND :: nat where "NET_PORTRANGEEND = 65535"

text \<open>The two loops of \<open>net_allocport\<close>; the first argument counts the turns that are left.\<close>

fun port_bits :: "nat \<Rightarrow> u64 \<Rightarrow> u8 list \<Rightarrow> u64 option result" where
  "port_bits 0 i bm = Inr None"
| "port_bits (Suc r) i bm =
     (let k = of_nat (8 - Suc r) + i * 8
      in rbind (bitmap_test bm k) (\<lambda>b. if \<not> b then Inr (Some k) else port_bits r i bm))"

fun port_bytes :: "nat \<Rightarrow> u8 list \<Rightarrow> u64 option result" where
  "port_bytes 0 bm = Inr None"
| "port_bytes (Suc r) bm =
     (let i = NET_PORTRANGEEND - NET_PORTRANGESTART - Suc r
      in rbind (arr_get bm i) (\<lambda>b.
           if b = 0xff then port_bytes r bm
           else rbind (port_bits 8 (of_nat i) bm) (\<lambda>f. case f of Some k \<Rightarrow> Inr (Some k) | None \<Rightarrow> port_bytes r bm)))"

definition net_allocport :: "'m net_scheme \<Rightarrow> (u16 \<times> 'm net_scheme) result" where
  "net_allocport n =
     rbind (spinlock_acquire ''net_allocport'' (net_portbitmaplock n)) (\<lambda>l.
     rbind (port_bytes (NET_PORTRANGEEND - NET_PORTRANGESTART) (net_portbitmap n)) (\<lambda>f.
       case f of
         None \<Rightarrow> Inr (0, n\<lparr>net_portbitmaplock := spinlock_release l\<rparr>)
       | Some k \<Rightarrow> rbind (bitmap_set (net_portbitmap n) k) (\<lambda>bm.
           Inr (ucast (k + of_nat NET_PORTRANGESTART),
                n\<lparr>net_portbitmap := bm, net_portbitmaplock := spinlock_release l\<rparr>))))"

definition net_releaseport :: "u16 \<Rightarrow> 'm net_scheme \<Rightarrow> 'm net_scheme result" where
  "net_releaseport port n =
     rbind (bitmap_reset (net_portbitmap n) (ucast port)) (\<lambda>bm. Inr (n\<lparr>net_portbitmap := bm\<rparr>))"

subsection \<open>Sockets of an adapter\<close>

definition net_bindsocket :: "u64 \<Rightarrow> u64 \<Rightarrow> 'm net_scheme \<Rightarrow> 'm net_scheme result" where
  "net_bindsocket a sock n =
     rbind (spinlock_acquire ''net_bindsocket'' (socklock (adapter_at n a))) (\<lambda>l.
       Inr (put_adapter a (\<lambda>d. d\<lparr>boundsocks := boundsocks d @ [sock], socklock := spinlock_release l\<rparr>)
              (n\<lparr>sock_adapter := (sock_adapter n)(sock := a)\<rparr>)))"

text \<open>
  \<open>VECTOR_REMOVE_BY_VALUE\<close> on the list of a vector: a value that is not there takes the last element
  with it.  The length of an empty vector wraps around, and its next use leaves the memory; a list
  cannot have that length, so the model stops with the fault already at the removal.
\<close>

definition vec_remove_value :: "'a \<Rightarrow> 'a list \<Rightarrow> 'a list result" where
  "vec_remove_value x xs = (if xs = [] then Inl OutOfBounds else if x \<in> set xs then Inr (remove1 x xs) else Inr (butlast xs))"

definition net_unbindsocket :: "u64 \<Rightarrow> u64 \<Rightarrow> 'm net_scheme \<Rightarrow> 'm net_scheme result" where
  "net_unbindsocket a sock n =
     rbind (spinlock_acquire ''net_unbindsocket'' (socklock (adapter_at n a))) (\<lambda>l.
     rbind (vec_remove_value sock (boundsocks (adapter_at n a))) (\<lambda>socks.
       Inr (put_adapter a (\<lambda>d. d\<lparr>boundsocks := socks, socklock := spinlock_release l\<rparr>)
              (n\<lparr>sock_adapter := (sock_adapter n)(sock := 0)\<rparr>))))"

definition net_unbindall :: "u64 \<Rightarrow> 'm net_scheme \<Rightarrow> 'm net_scheme result" where
  "net_unbindall a n =
     rbind (spinlock_acquire ''net_unbindall'' (socklock (adapter_at n a))) (\<lambda>l.
       Inr (put_adapter a (\<lambda>d. d\<lparr>boundsocks := [], socklock := spinlock_release l\<rparr>)
              (n\<lparr>sock_adapter := foldr (\<lambda>sock f. f(sock := 0)) (boundsocks (adapter_at n a)) (sock_adapter n)\<rparr>)))"


subsection \<open>Address resolution and routing\<close>

text \<open>The loop of \<open>net_lookup\<close> that waits for an answer; the counter is \<open>timeout\<close>.\<close>

fun arp_wait :: "'m net_scheme netenv \<Rightarrow> nat \<Rightarrow> u64 \<Rightarrow> u32 \<Rightarrow> 'm net_scheme \<Rightarrow> 'm net_scheme result" where
  "arp_wait env 0 a ip n = Inr n"
| "arp_wait env (Suc timeout) a ip n =
     rbind (net_findcache a ip n) (\<lambda>(found, n1).
       if found then Inr n1 else arp_wait env timeout a ip (net_sleep env timeout n1))"

definition arp_request :: "u64 \<Rightarrow> u32 \<Rightarrow> 'm net_scheme \<Rightarrow> u8 list" where
  "arp_request a ip n =
     (let d = adapter_at n a
      in etherframe_bytes MAC_BROADCAST (na_mac d) (bswap16 NET_ETHPROTOARP) @
         arpheader_bytes \<lparr>hwtype = bswap16 (ucast (na_type d)), prtype = bswap16 NET_ETHPROTOIPV4, hwlen = 6, plen = 4,
           opcode = bswap16 1, srchw = na_mac d, srcpr = na_ip d, desthw = MAC_BROADCAST, destpr = ip\<rparr>)"

definition net_lookup :: "'m net_scheme netenv \<Rightarrow> u64 \<Rightarrow> u32 \<Rightarrow> 'm net_scheme \<Rightarrow> ((errno + macaddr) \<times> 'm net_scheme) result" where
  "net_lookup env a ip n =
     (let own = net_findadapterbyip ip n
      in if own \<noteq> 0 then Inr (Inr (na_mac (adapter_at n own)), n)
         else rbind (net_grabcache a ip n) (\<lambda>(cached, n1).
           case cached of
             Some mac \<Rightarrow> Inr (Inr mac, n1)
           | None \<Rightarrow>
               if \<not> is_eth a n1 then Inl NullDeref
               else rbind (txpacket env a (arp_request a ip n1) n1) (\<lambda>n2.
                    rbind (net_findcache a ip n2) (\<lambda>(now, n3).
                    rbind (if now then Inr n3 else arp_wait env 500 a ip n3) (\<lambda>n4.
                    rbind (net_findcache a ip n4) (\<lambda>(found, n5).
                      if \<not> found then Inr (Inl ENETUNREACH, n5)
                      else rbind (net_grabcache a ip n5) (\<lambda>(r, n6).
                        case r of Some mac \<Rightarrow> Inr (Inr mac, n6) | None \<Rightarrow> Inl (Panic ''net: ARP reply broken''))))))))"

text \<open>The loop of \<open>net_route\<close> over the adapters: the adapter chosen so far and whether it is on the remote's network.\<close>

definition on_link :: "net_adapter \<Rightarrow> u32 \<Rightarrow> bool" where
  "on_link d remote \<longleftrightarrow> and remote (subnetmask d) = and (na_ip d) (subnetmask d)"

fun route_scan :: "u32 \<Rightarrow> u32 \<Rightarrow> 'm net_scheme \<Rightarrow> u64 list \<Rightarrow> u64 \<times> bool \<Rightarrow> u64 \<times> bool" where
  "route_scan local remote n [] best = best"
| "route_scan local remote n (a # as) best =
     (let d = adapter_at n a
      in route_scan local remote n as
           (if local \<noteq> INADDR_ANY \<and> na_ip d \<noteq> local then best
            else if on_link d remote then (a, True)
            else if \<not> snd best \<and> gateway d \<noteq> 0 then (a, snd best)
            else best))"

text \<open>\<open>net_route\<close> returns the adapter it leaves in its argument with the hardware address.\<close>

definition net_route ::
  "'m net_scheme netenv \<Rightarrow> u64 \<Rightarrow> u32 \<Rightarrow> u32 \<Rightarrow> 'm net_scheme \<Rightarrow> ((errno + u64 \<times> macaddr) \<times> 'm net_scheme) result" where
  "net_route env a local remote n =
     (if a \<noteq> 0 \<and> local \<noteq> INADDR_ANY \<and> local \<noteq> na_ip (adapter_at n a) then Inr (Inl ENETUNREACH, n)
      else let (best, islocal) = (if a \<noteq> 0 then (a, on_link (adapter_at n a) remote)
                                  else route_scan local remote n (net_adapters n) (0, False))
           in if best = 0 then Inr (Inl ENETUNREACH, n)
              else rbind (net_lookup env best (if islocal then remote else gateway (adapter_at n best)) n) (\<lambda>(r, n1).
                case r of Inl e \<Rightarrow> Inr (Inl e, n1) | Inr mac \<Rightarrow> Inr (Inr (best, mac), n1)))"

subsection \<open>Sending\<close>

fun tx_all :: "'m net_scheme netenv \<Rightarrow> u64 \<Rightarrow> u8 list list \<Rightarrow> 'm net_scheme \<Rightarrow> 'm net_scheme result" where
  "tx_all env a [] n = Inr n"
| "tx_all env a (f # fs) n = rbind (txpacket env a f n) (tx_all env a fs)"

text \<open>Putting a packet into the queue of an adapter, as \<open>net_sendinet\<close> and the loopback driver do.\<close>

definition push_packet :: "string \<Rightarrow> u64 \<Rightarrow> u8 list \<Rightarrow> 'm net_scheme \<Rightarrow> 'm net_scheme result" where
  "push_packet caller a packet n =
     rbind (spinlock_acquire caller (cachelock (adapter_at n a))) (\<lambda>l.
       Inr (put_adapter a (\<lambda>d. d\<lparr>na_cache := na_cache d @ [packet], cachelock := spinlock_release l,
              packet_triggers := packet_triggers d + 1\<rparr>) n))"

definition inet_packet :: "u64 \<Rightarrow> u32 \<Rightarrow> u8 \<Rightarrow> u8 list \<Rightarrow> 'm net_scheme \<Rightarrow> u8 list" where
  "inet_packet a dest protocol data n =
     inetheader_bytes (set_csum \<lparr>ip_ihl = 5, ip_version = 4, ip_ecn = 0, ip_dscp = 0,
       ip_len = bswap16 (of_nat (20 + length data)), ip_id = bswap16 (ipframe (adapter_at n a)), ip_fragoff = 0, ip_ttl = 64,
       ip_protocol = protocol, ip_csum = 0, ip_src = na_ip (adapter_at n a), ip_dest = dest\<rparr>) @ data"

text \<open>The part of \<open>net_sendinet\<close> behind the choice of the hardware address.\<close>

definition send_frame ::
  "'m net_scheme netenv \<Rightarrow> u64 \<Rightarrow> macaddr \<Rightarrow> macaddr \<Rightarrow> u32 \<Rightarrow> u8 \<Rightarrow> u8 list \<Rightarrow> 'm net_scheme \<Rightarrow> ((errno + unit) \<times> 'm net_scheme) result option" where
  "send_frame env a mac own_mac dest protocol data n =
     (let buffer = etherframe_bytes mac own_mac (bswap16 NET_ETHPROTOIPV4) @ inet_packet a dest protocol data n;
          n1 = put_adapter a (\<lambda>d. d\<lparr>ipframe := ipframe d + 1\<rparr>) n;
          m = mtu (adapter_at n1 a);
          own = net_findadapterbyip dest n1
      in obind (if own \<noteq> 0 then Some (push_packet ''net_sendinet'' own buffer n1)
                else if m \<noteq> 0 \<and> of_nat (length buffer) > m
                then obind (net_fragment (freed_header env) m (NET_LINKLAYERFRAMESIZE a n1) buffer) (\<lambda>fs. Some (tx_all env a fs n1))
                else Some (txpacket env a buffer n1))
           (\<lambda>n2. Some (Inr (Inr (), n2))))"

definition net_sendinet ::
  "'m net_scheme netenv \<Rightarrow> u64 \<Rightarrow> u32 \<Rightarrow> u32 \<Rightarrow> u8 \<Rightarrow> u8 list \<Rightarrow> 'm net_scheme \<Rightarrow> ((errno + unit) \<times> 'm net_scheme) result option" where
  "net_sendinet env a src dest protocol data n =
     (if \<not> is_eth a n then Some (Inl NullDeref)
      else if dest = INADDR_BROADCAST then send_frame env a MAC_BROADCAST (na_mac (adapter_at n a)) dest protocol data n
      else obind (Some (net_route env a src dest n)) (\<lambda>(r, n1).
        case r of
          Inl e \<Rightarrow> Some (Inr (Inl e, n1))
        | Inr (a', mac) \<Rightarrow> send_frame env a' mac (na_mac (adapter_at n a)) dest protocol data n1))"


subsection \<open>Receiving\<close>

text \<open>
  An ICMP message: \<open>len\<close> is its length by the Internet header, \<open>body\<close> the bytes received behind that
  header.  The result of the reply is not looked at.
\<close>

definition icmp_bytes :: "u8 \<Rightarrow> u8 \<Rightarrow> u8 list \<Rightarrow> u8 list" where
  "icmp_bytes ty code data = [ty, code] @ le16 (net_checksum ([ty, code, 0, 0] @ data)) @ data"

definition net_onicmp ::
  "'m net_scheme netenv \<Rightarrow> u64 \<Rightarrow> net_inetheader \<Rightarrow> u8 list \<Rightarrow> u64 \<Rightarrow> 'm net_scheme \<Rightarrow> 'm net_scheme result option" where
  "net_onicmp env a h body len n =
     (if len < 4 then Some (Inr n)
      else obind (Some (arr_get body 0)) (\<lambda>ty.
        if ty \<noteq> 8 then Some (Inr n)
        else obind (Some (copy_from body 4 (unat len - 4))) (\<lambda>data.
          obind (net_sendinet env a (na_ip (adapter_at n a)) (ip_src h) IPPROTO_ICMP (icmp_bytes 0 0 data) n) (\<lambda>(_, n1). Some (Inr n1)))))"

type_synonym 'n inet_handler = "u64 \<Rightarrow> net_inetheader \<Rightarrow> u8 list \<Rightarrow> u64 \<Rightarrow> 'n \<Rightarrow> 'n result option"

text \<open>
  The answer to an unknown protocol: the header and as many bytes behind it as the length field of the
  header says, which counts the header too; of the message, that many bytes are sent.
\<close>

definition protocol_unreachable ::
  "'m net_scheme netenv \<Rightarrow> u64 \<Rightarrow> net_inetheader \<Rightarrow> u8 list \<Rightarrow> 'm net_scheme \<Rightarrow> 'm net_scheme result option" where
  "protocol_unreachable env a h body n =
     (let len = unat (bswap16 (ip_len h))
      in obind (Some (copy_from body 0 len)) (\<lambda>data.
         let message = icmp_bytes 3 2 (inetheader_bytes h @ data)
         in obind (net_sendinet env a (na_ip (adapter_at n a)) (ip_src h) IPPROTO_ICMP (take len message) n) (\<lambda>(_, n1). Some (Inr n1))))"

definition net_oninet ::
  "'m net_scheme netenv \<Rightarrow> 'm net_scheme inet_handler \<Rightarrow> 'm net_scheme inet_handler \<Rightarrow> u64 \<Rightarrow> u8 list \<Rightarrow> 'm net_scheme \<Rightarrow> 'm net_scheme result option" where
  "net_oninet env tcp_ontcp udp_onudp a packet n =
     obind (Some (inet_accept packet (net_reassemblemeta n))) (\<lambda>(r, metas).
       let n1 = n\<lparr>net_reassemblemeta := metas\<rparr>
       in case r of
            None \<Rightarrow> Some (Inr n1)
          | Some (h, body) \<Rightarrow>
              let len = ucast (bswap16 (ip_len h)) - 20
              in if ip_protocol h = IPPROTO_ICMP then net_onicmp env a h body len n1
                 else if ip_protocol h = IPPROTO_TCP then tcp_ontcp a h body len n1
                 else if ip_protocol h = IPPROTO_UDP then udp_onudp a h body len n1
                 else protocol_unreachable env a h body n1)"

definition arp_reply :: "u64 \<Rightarrow> net_arpheader \<Rightarrow> 'm net_scheme \<Rightarrow> u8 list" where
  "arp_reply b h n =
     (let d = adapter_at n b
      in etherframe_bytes (srchw h) (na_mac d) (bswap16 NET_ETHPROTOARP) @
         arpheader_bytes \<lparr>hwtype = bswap16 (ucast (na_type d)), prtype = bswap16 NET_ETHPROTOIPV4, hwlen = 6, plen = 4,
           opcode = bswap16 2, srchw = na_mac d, srcpr = na_ip d, desthw = srchw h, destpr = srcpr h\<rparr>)"

definition net_onarp :: "'m net_scheme netenv \<Rightarrow> u64 \<Rightarrow> u8 list \<Rightarrow> 'm net_scheme \<Rightarrow> 'm net_scheme result" where
  "net_onarp env a packet n =
     (if length packet < ARPHEADER_SIZE then Inr n
      else let h = arpheader_of packet; b = net_findadapterbyip (destpr h) n
           in rbind (if bswap16 (opcode h) = 1 \<and> b \<noteq> 0
                     then if is_eth a n then txpacket env b (arp_reply b h n) n else Inl NullDeref
                     else Inr n) (\<lambda>n1.
              rbind (spinlock_acquire ''net_onarp'' (addrcachelock (adapter_at n1 a))) (\<lambda>l.
                Inr (put_adapter a (\<lambda>d. d\<lparr>addrcache := addrcache d @ [(srcpr h, srchw h)],
                       addrcachelock := spinlock_release l\<rparr>) n1))))"

text \<open>
  One packet handled by \<open>net_ifhandler\<close>; with an empty queue the thread waits for the adapter's event.
  At the end the source frees the packet and then reads \<open>packet->data\<close> from the freed block to free
  that.  The slab allocator's link covers the other field of the block, so the pointer is still there
  unless another CPU gets the block in between; neither release changes the state of the network,
  and the model leaves both out.
\<close>

definition net_ifhandler ::
  "'m net_scheme netenv \<Rightarrow> 'm net_scheme inet_handler \<Rightarrow> 'm net_scheme inet_handler \<Rightarrow> u64 \<Rightarrow> 'm net_scheme \<Rightarrow> 'm net_scheme result option" where
  "net_ifhandler env tcp_ontcp udp_onudp a n =
     (case na_cache (adapter_at n a) of
        [] \<Rightarrow> Some (Inr n)
      | packet # packets \<Rightarrow>
          obind (Some (spinlock_acquire ''net_ifhandler'' (cachelock (adapter_at n a)))) (\<lambda>l.
            let n1 = put_adapter a (\<lambda>d. d\<lparr>na_cache := packets, cachelock := spinlock_release l\<rparr>) n
            in if \<not> is_eth a n then Some (Inr n1)
               else if length packet < 14 then Some (Inl OutOfBounds)
               else let ty = bswap16 (get16 packet 12)
                    in if ty = NET_ETHPROTOIPV4 then net_oninet env tcp_ontcp udp_onudp a (drop 14 packet) n1
                       else if ty = NET_ETHPROTOARP then Some (net_onarp env a (drop 14 packet) n1)
                       else Some (Inr n1)))"

subsection \<open>Registering adapters; the loopback adapter\<close>

fun decimal :: "nat \<Rightarrow> string" where
  "decimal k = (if k < 10 then [char_of (48 + k)] else decimal (k div 10) @ [char_of (48 + k mod 10)])"

declare decimal.simps [simp del]

definition net_register :: "u64 \<Rightarrow> 'm net_scheme \<Rightarrow> 'm net_scheme" where
  "net_register a n =
     (let ty = na_type (adapter_at n a);
          (named, count_up) =
            (if and ty NET_ADAPTERLO \<noteq> 0 then ((\<lambda>d. d\<lparr>mtu := 0, ifname := ''lo''\<rparr>), 0)
             else if and ty NET_ADAPTERETH \<noteq> 0
             then ((\<lambda>d. d\<lparr>mtu := 1500, ifname := take 15 (''eth'' @ decimal (nat (net_ethcount n)))\<rparr>), 1)
             else ((\<lambda>d. d), 0))
      in put_adapter a (\<lambda>d. (named d)\<lparr>na_index := int (length (net_adapters n) + 1), addrcache := [], na_cache := [],
              cachelock := SPINLOCK_INIT, addrcachelock := SPINLOCK_INIT\<rparr>)
           (n\<lparr>net_adapters := net_adapters n @ [a], net_ethcount := net_ethcount n + count_up\<rparr>))"

definition loopback_transmitpacket :: "u64 \<Rightarrow> u8 list \<Rightarrow> 'm net_scheme \<Rightarrow> 'm net_scheme result" where
  "loopback_transmitpacket a data n = push_packet ''loopback_transmitpacket'' a data n"

text \<open>The flags are constants of the C library.\<close>

definition loopback_updateflags :: "u16 \<Rightarrow> u64 \<Rightarrow> 'm net_scheme \<Rightarrow> 'm net_scheme" where
  "loopback_updateflags IFF_RUNNING a n = put_adapter a (\<lambda>d. d\<lparr>na_flags := or (na_flags d) IFF_RUNNING\<rparr>) n"

definition NET_IP :: "u8 \<Rightarrow> u8 \<Rightarrow> u8 \<Rightarrow> u8 \<Rightarrow> u32" where
  "NET_IP a b c d = or (or (push_bit 24 (ucast d)) (push_bit 16 (ucast c))) (or (push_bit 8 (ucast b)) (ucast a))"

definition adapter_zero :: net_adapter where
  "adapter_zero = \<lparr>na_mac = replicate 6 0, permmac = replicate 6 0, na_ip = 0, gateway = 0, subnetmask = 0, ipframe = 0,
     na_flags = 0, na_index = 0, hwmtu = 0, mtu = 0, addrcache = [], addrcachelock = SPINLOCK_INIT, na_cache = [],
     cachelock = SPINLOCK_INIT, ifname = [], na_type = 0, packet_triggers = 0, socklock = SPINLOCK_INIT, boundsocks = []\<rparr>"

text \<open>\<open>dev\<close> is the address \<open>resource_create\<close> returns.\<close>

definition loopback_init :: "u16 \<Rightarrow> u16 \<Rightarrow> u64 \<Rightarrow> 'm net_scheme \<Rightarrow> 'm net_scheme" where
  "loopback_init IFF_LOOPBACK IFF_RUNNING dev n =
     (let n1 = put_adapter dev (\<lambda>_. adapter_zero\<lparr>na_flags := or IFF_LOOPBACK IFF_RUNNING,
                 na_type := or NET_ADAPTERETH NET_ADAPTERLO\<rparr>) n
      in put_adapter dev (\<lambda>d. d\<lparr>cachelock := SPINLOCK_INIT, na_ip := NET_IP 127 0 0 1, subnetmask := NET_IP 255 0 0 0\<rparr>)
           (net_register dev n1))"

definition net_init :: "u16 \<Rightarrow> u16 \<Rightarrow> u64 \<Rightarrow> 'm net_scheme \<Rightarrow> 'm net_scheme" where
  "net_init IFF_LOOPBACK IFF_RUNNING dev n =
     loopback_init IFF_LOOPBACK IFF_RUNNING dev
       (n\<lparr>net_portbitmap := replicate (NET_PORTRANGEEND - NET_PORTRANGESTART) 0\<rparr>)"


subsection \<open>Ports: the first free bit\<close>

lemma bitmap_test_ok: "i < bm_size bm \<Longrightarrow> i < 18446744073709551616 \<Longrightarrow> bitmap_test bm (of_nat i) = Inr (bm_bit bm i)"
  using bitmap.tst_ok [of "of_nat i" bm] by (simp add: unat_of_nat_small)

lemma find_append: "find P (xs @ ys) = (case find P xs of None \<Rightarrow> find P ys | Some x \<Rightarrow> Some x)"
  by (induction xs) simp_all

lemma port_bits_find:
  assumes "i < length bm" "length bm \<le> 16383"
  shows "r \<le> 8 \<Longrightarrow> port_bits r (of_nat i) bm =
    Inr (map_option of_nat (find (\<lambda>k. \<not> bm_bit bm k) [8 * i + 8 - r..<8 * i + 8]))"
proof (induction r)
  case (Suc r)
  let ?k = "8 * i + 8 - Suc r"
  have k: "of_nat (8 - Suc r) + of_nat i * 8 = (of_nat ?k :: u64)"
  proof -
    have "?k = (8 - Suc r) + i * 8" using Suc.prems by simp
    then show ?thesis by (simp only: of_nat_add of_nat_mult of_nat_numeral)
  qed
  have "?k < bm_size bm" using assms Suc.prems by (simp add: bm_size_def)
  then have t: "bitmap_test bm (of_nat ?k) = Inr (bm_bit bm ?k)" using assms Suc.prems by (intro bitmap_test_ok) simp_all
  have l: "[?k..<8 * i + 8] = ?k # [8 * i + 8 - r..<8 * i + 8]"
  proof -
    have "Suc ?k = 8 * i + 8 - r" using Suc.prems by simp
    then show ?thesis using upt_conv_Cons [of ?k "8 * i + 8"] Suc.prems by simp
  qed
  show ?case unfolding port_bits.simps Let_def k t l using Suc by simp
qed simp

lemma byte_full: "b = (0xff :: u8) \<longleftrightarrow> (\<forall>j < 8. bit b j)"
proof -
  have "(0xff :: u8) = - 1" by simp
  then show ?thesis by (simp only: bit_eq_iff [of b]) (auto simp: bit_minus_1_iff dest: bit_imp_le_length)
qed

lemma byte_free:
  "bm ! i = 0xff \<longleftrightarrow> find (\<lambda>k. \<not> bm_bit bm k) [8 * i..<8 * i + 8] = None"
proof -
  have "(\<forall>j < 8. bit (bm ! i) j) \<longleftrightarrow> (\<forall>k \<in> set [8 * i..<8 * i + 8]. bm_bit bm k)"
  proof (intro iffI ballI allI impI)
    fix k assume A: "\<forall>j < 8. bit (bm ! i) j" "k \<in> set [8 * i..<8 * i + 8]"
    then have "k div 8 = i" by auto
    with A show "bm_bit bm k" by (simp add: bm_bit_def)
  next
    fix j :: nat assume A: "\<forall>k \<in> set [8 * i..<8 * i + 8]. bm_bit bm k" "j < 8"
    then have "bm_bit bm (8 * i + j)" by simp
    with A(2) show "bit (bm ! i) j" by (simp add: bm_bit_def)
  qed
  then show ?thesis by (auto simp: byte_full find_None_iff)
qed

lemma port_bytes_find:
  assumes "length bm = 16383"
  shows "r \<le> 16383 \<Longrightarrow> port_bytes r bm =
    Inr (map_option of_nat (find (\<lambda>k. \<not> bm_bit bm k) [8 * (16383 - r)..<8 * 16383]))"
proof (induction r)
  case (Suc r)
  let ?i = "16383 - Suc r"
  let ?free = "\<lambda>k. \<not> bm_bit bm k"
  have i: "NET_PORTRANGEEND - NET_PORTRANGESTART - Suc r = ?i" by (simp add: NET_PORTRANGEEND_def NET_PORTRANGESTART_def)
  have l: "[8 * ?i..<8 * 16383] = [8 * ?i..<8 * ?i + 8] @ [8 * (16383 - r)..<8 * 16383]"
  proof -
    have "8 * (16383 - r) = 8 * ?i + 8" using Suc.prems by simp
    then show ?thesis using upt_add_eq_append [of "8 * ?i" "8 * ?i + 8" "8 * 16383 - (8 * ?i + 8)"] Suc.prems by simp
  qed
  have bits: "port_bits 8 (of_nat ?i) bm = Inr (map_option of_nat (find ?free [8 * ?i..<8 * ?i + 8]))"
    using port_bits_find [of ?i bm 8] assms Suc.prems by simp
  have get: "arr_get bm ?i = Inr (bm ! ?i)" using assms Suc.prems by simp
  show ?case
    unfolding port_bytes.simps Let_def i l get rbind_Inr bits find_append
    using byte_free [of bm ?i] Suc by (auto split: option.splits)
qed simp


lemma find_upt_least:
  "k < m \<Longrightarrow> P k \<Longrightarrow> (\<And>j. j < k \<Longrightarrow> \<not> P j) \<Longrightarrow> find P [0..<m] = Some k"
  by (auto simp: find_Some_iff)

lemma allocport_lowest:
  assumes "length (net_portbitmap n) = 16383" "unlocked (net_portbitmaplock n)"
    and "k < 131064" "\<not> bm_bit (net_portbitmap n) k" "\<And>j. j < k \<Longrightarrow> bm_bit (net_portbitmap n) j"
  shows "\<exists>p bm l. net_allocport n = Inr (p, n\<lparr>net_portbitmap := bm, net_portbitmaplock := l\<rparr>) \<and> unlocked l \<and> bm_size bm = 131064 \<and>
    unat p = (if k < 16384 then 49152 + k else (k - 16384) mod 65536) \<and>
    (\<forall>j < 131064. bm_bit bm j = (j = k \<or> bm_bit (net_portbitmap n) j))"
proof -
  let ?bm = "net_portbitmap n"
  let ?p = "ucast (of_nat k + of_nat NET_PORTRANGESTART :: u64) :: u16"
  have size: "bm_size ?bm = 131064" using assms(1) by (simp add: bm_size_def)
  have scan: "port_bytes (NET_PORTRANGEEND - NET_PORTRANGESTART) ?bm = Inr (Some (of_nat k))"
    using port_bytes_find [OF assms(1), of 16383] find_upt_least [of k 131064 "\<lambda>k. \<not> bm_bit ?bm k"] assms(3-5)
    by (simp add: NET_PORTRANGEEND_def NET_PORTRANGESTART_def)
  obtain bm where bm: "bitmap_set ?bm (of_nat k) = Inr bm" "bm_size bm = 131064"
      "\<forall>j < 131064. bm_bit bm j = (j = k \<or> bm_bit ?bm j)"
    using bitmap.st_ok [of "of_nat k" ?bm] assms(3) size by (auto simp: unat_of_nat_small)
  have p: "unat ?p = (if k < 16384 then 49152 + k else (k - 16384) mod 65536)"
  proof -
    have "unat (of_nat k + of_nat NET_PORTRANGESTART :: u64) = k + 49152"
      using assms(3) by (simp add: NET_PORTRANGESTART_def unat_add_small unat_of_nat_small)
    then have "unat ?p = (k + 49152) mod 65536" by (simp only: unat_ucast_word take_bit_eq_mod) simp
    then show ?thesis using assms(3) by (cases "k < 16384") (auto simp: le_mod_geq)
  qed
  show ?thesis
    using p bm scan assms(2) by (simp add: net_allocport_def spinlock_acquire_unlocked) (intro exI conjI, rule refl, simp_all)
qed

lemma releaseport_ok:
  assumes "bm_size (net_portbitmap n) = 131064"
  shows "\<exists>bm. net_releaseport p n = Inr (n\<lparr>net_portbitmap := bm\<rparr>) \<and> bm_size bm = 131064 \<and> (\<forall>j < 131064. bm_bit bm j = (j \<noteq> unat p \<and> bm_bit (net_portbitmap n) j))"
proof -
  have "unat p < 131064" using unat_less_65536 [of p] by linarith
  then show ?thesis using bitmap.rst_ok [of "ucast p" "net_portbitmap n"] assms by (auto simp: net_releaseport_def)
qed

text \<open>A program that takes an ephemeral port and gives it back, again and again.\<close>

fun port_cycles :: "nat \<Rightarrow> 'm net_scheme \<Rightarrow> 'm net_scheme result" where
  "port_cycles 0 n = Inr n"
| "port_cycles (Suc m) n = rbind (port_cycles m n) (\<lambda>n1. rbind (net_allocport n1) (\<lambda>(p, n2). net_releaseport p n2))"

lemma port_cycles_leak:
  assumes "length (net_portbitmap n) = 16383" "unlocked (net_portbitmaplock n)" "\<forall>j < 131064. \<not> bm_bit (net_portbitmap n) j"
  shows "m \<le> 16384 \<Longrightarrow> \<exists>n'. port_cycles m n = Inr n' \<and> length (net_portbitmap n') = 16383 \<and>
    unlocked (net_portbitmaplock n') \<and> (\<forall>j < 131064. bm_bit (net_portbitmap n') j = (j < m))"
proof (induction m)
  case 0
  then show ?case using assms by simp
next
  case (Suc m)
  then obtain n1 where n1: "port_cycles m n = Inr n1" "length (net_portbitmap n1) = 16383"
    "unlocked (net_portbitmaplock n1)" "\<forall>j < 131064. bm_bit (net_portbitmap n1) j = (j < m)" by auto
  have m: "m < 16384" using Suc.prems by simp
  obtain p bm l where alloc: "net_allocport n1 = Inr (p, n1\<lparr>net_portbitmap := bm, net_portbitmaplock := l\<rparr>)" "unlocked l"
      "bm_size bm = 131064" "unat p = 49152 + m" "\<forall>j < 131064. bm_bit bm j = (j = m \<or> bm_bit (net_portbitmap n1) j)"
    using allocport_lowest [OF n1(2,3), of m] n1(4) m by auto
  obtain bm' where bm': "net_releaseport p (n1\<lparr>net_portbitmap := bm, net_portbitmaplock := l\<rparr>) =
      Inr (n1\<lparr>net_portbitmaplock := l, net_portbitmap := bm'\<rparr>)" "bm_size bm' = 131064"
      "\<forall>j < 131064. bm_bit bm' j = (j \<noteq> unat p \<and> bm_bit bm j)"
    using releaseport_ok [of "n1\<lparr>net_portbitmap := bm, net_portbitmaplock := l\<rparr>" p] alloc(3) by auto
  have "bm_bit bm' j = (j < Suc m)" if "j < 131064" for j
    using bm'(3) alloc(4,5) n1(4) m that by (auto simp: less_Suc_eq)
  moreover have "length bm' = 16383" using bm'(2) by (simp add: bm_size_def)
  ultimately show ?case using n1(1) alloc(1,2) bm'(1) by simp
qed

text \<open>
  C36.  Ephemeral ports leak.  \<open>net_allocport\<close> takes the lowest free bit \<open>k\<close> of the bitmap and returns
  \<open>49152 + k\<close>, but \<open>net_releaseport\<close> clears the bit numbered by the port itself.  From the empty bitmap
  of \<open>net_init\<close>, a program that takes a port and gives it back \<open>m\<close> times gets a new port every time, and
  afterwards the first \<open>m\<close> bits are set: the next port is \<open>49152 + m\<close>.  After 16384 such rounds, with no
  port in use, the range is used up and \<open>net_allocport\<close> returns port 0.
\<close>

theorem released_ports_run_out:
  assumes "length (net_portbitmap n) = 16383" "unlocked (net_portbitmaplock n)"
    and "\<forall>j < 131064. \<not> bm_bit (net_portbitmap n) j" and "m \<le> 16384"
  shows "\<exists>n' p n''. port_cycles m n = Inr n' \<and> (\<forall>j < 131064. bm_bit (net_portbitmap n') j = (j < m)) \<and>
    net_allocport n' = Inr (p, n'') \<and> unat p = (if m < 16384 then 49152 + m else 0) \<and>
    (\<forall>j < 131064. bm_bit (net_portbitmap n'') j = (j \<le> m)) \<and> unlocked (net_portbitmaplock n'')"
proof -
  obtain n' where n': "port_cycles m n = Inr n'" "length (net_portbitmap n') = 16383"
    "unlocked (net_portbitmaplock n')" "\<forall>j < 131064. bm_bit (net_portbitmap n') j = (j < m)"
    using port_cycles_leak [OF assms(1-3,4)] by blast
  obtain p bm l where "net_allocport n' = Inr (p, n'\<lparr>net_portbitmap := bm, net_portbitmaplock := l\<rparr>)" "unlocked l"
      "unat p = (if m < 16384 then 49152 + m else 0)" "\<forall>j < 131064. bm_bit bm j = (j = m \<or> bm_bit (net_portbitmap n') j)"
    using allocport_lowest [OF n'(2,3), of m] n'(4) assms(4) by auto
  with n' show ?thesis by (auto simp: le_less)
qed

definition net_example :: net where
  "net_example = \<lparr>net_adapters = [1], adapter_at = (\<lambda>_. adapter_zero\<lparr>na_ip := 0x0100007f, subnetmask := 0xff, na_type := 3,
       na_cache := [etherframe_bytes (replicate 6 0) (replicate 6 0) (bswap16 NET_ETHPROTOIPV4) @
         inetheader_bytes (set_csum \<lparr>ip_ihl = 5, ip_version = 4, ip_ecn = 0, ip_dscp = 0, ip_len = bswap16 26, ip_id = 0,
           ip_fragoff = 0, ip_ttl = 64, ip_protocol = 1, ip_csum = 0, ip_src = 0x0100007f, ip_dest = 0x0100007f\<rparr>) @
         icmp_bytes 8 0 [5, 6]]\<rparr>),
     net_ethcount = 0, net_portbitmap = replicate 16383 0, net_portbitmaplock = SPINLOCK_INIT, net_reassemblemeta = [],
     sock_adapter = (\<lambda>_. 0)\<rparr>"

theorem released_ports_run_out_witness:
  "\<exists>n' p n''. port_cycles 16384 net_example = Inr n' \<and> net_allocport n' = Inr (p, n'') \<and> unat p = 0"
proof -
  have "\<forall>j < 131064. \<not> bm_bit (net_portbitmap net_example) j" by (simp add: net_example_def bm_bit_def)
  from released_ports_run_out [OF _ _ this, of 16384] show ?thesis by (auto simp: net_example_def)
qed

subsection \<open>Address resolution\<close>

lemma put_adapter_simps [simp]:
  "adapter_at (put_adapter a f n) b = (if b = a then f (adapter_at n a) else adapter_at n b)"
  "net_adapters (put_adapter a f n) = net_adapters n" "net_reassemblemeta (put_adapter a f n) = net_reassemblemeta n"
  by (simp_all add: put_adapter_def)

lemma findadapterbyip_cong:
  "net_adapters m = net_adapters n \<Longrightarrow> (\<And>b. na_ip (adapter_at m b) = na_ip (adapter_at n b)) \<Longrightarrow>
    net_findadapterbyip ip m = net_findadapterbyip ip n"
  by (simp add: net_findadapterbyip_def)

lemma arpheader_of_bytes:
  assumes "length (srchw h) = 6" "length (desthw h) = 6"
  shows "arpheader_of (arpheader_bytes h) = h"
proof -
  have g: "get16 (arpheader_bytes h) 0 = hwtype h" "get16 (arpheader_bytes h) 2 = prtype h"
    "get16 (arpheader_bytes h) 6 = opcode h" "arpheader_bytes h ! 4 = hwlen h" "arpheader_bytes h ! 5 = plen h"
    by (simp_all add: arpheader_bytes_def get16_def le16_def join16)
  have e: "arpheader_bytes h = (le16 (hwtype h) @ le16 (prtype h) @ [hwlen h, plen h] @ le16 (opcode h) @ srchw h) @
      le32 (srcpr h) @ (desthw h @ le32 (destpr h))"
    "arpheader_bytes h = (le16 (hwtype h) @ le16 (prtype h) @ [hwlen h, plen h] @ le16 (opcode h) @ srchw h @ le32 (srcpr h) @ desthw h) @
      le32 (destpr h) @ []"
    by (simp_all add: arpheader_bytes_def)
  have "get32 (arpheader_bytes h) 14 = srcpr h" unfolding e(1) by (rule get32_le32) (simp add: assms)
  moreover have "get32 (arpheader_bytes h) 24 = destpr h" unfolding e(2) by (rule get32_le32) (simp add: assms)
  moreover have "take 6 (drop 8 (arpheader_bytes h)) = srchw h" "take 6 (drop 18 (arpheader_bytes h)) = desthw h"
    using assms by (simp_all add: arpheader_bytes_def)
  ultimately show ?thesis by (simp add: arpheader_of_def g)
qed

lemma net_onarp_reply:
  assumes "length (srchw h) = 6" "length (desthw h) = 6" "bswap16 (opcode h) \<noteq> 1" "unlocked (addrcachelock (adapter_at n a))"
  shows "\<exists>l. unlocked l \<and> net_onarp env a (arpheader_bytes h) n =
    Inr (put_adapter a (\<lambda>d. d\<lparr>addrcache := addrcache d @ [(srcpr h, srchw h)], addrcachelock := l\<rparr>) n)"
proof -
  have "length (arpheader_bytes h) = 28" using assms(1,2) by (simp add: arpheader_bytes_def)
  then show ?thesis
    using assms
    by (intro exI [of _ "spinlock_release ((addrcachelock (adapter_at n a))\<lparr>lock_word := 1, last_acquirer := ''net_onarp''\<rparr>)"])
      (simp add: net_onarp_def ARPHEADER_SIZE_def arpheader_of_bytes Let_def spinlock_acquire_unlocked)
qed

text \<open>
  What an adapter learns about a host is what it uses: once an answer for an address has arrived,
  looking the address up returns its hardware address without asking again.  A later answer with
  another hardware address is added behind the first and never used.
\<close>

theorem arp_first_answer_stays:
  assumes "unlocked (addrcachelock (adapter_at n a))" "net_findadapterbyip ip n = 0" "map_of (addrcache (adapter_at n a)) ip = None"
    and "length (srchw h) = 6" "length (desthw h) = 6" "bswap16 (opcode h) \<noteq> 1" "srcpr h = ip"
    and "length (srchw h') = 6" "length (desthw h') = 6" "bswap16 (opcode h') \<noteq> 1" "srcpr h' = ip"
  shows "\<exists>n1 n2 n3 n4. net_onarp env a (arpheader_bytes h) n = Inr n1 \<and> net_lookup env a ip n1 = Inr (Inr (srchw h), n2) \<and>
    net_onarp env a (arpheader_bytes h') n1 = Inr n3 \<and> net_lookup env a ip n3 = Inr (Inr (srchw h), n4)"
proof -
  have lookup: "\<exists>n'. net_lookup env a ip m = Inr (Inr mac, n')"
    if "unlocked (addrcachelock (adapter_at m a))" "net_findadapterbyip ip m = 0" "map_of (addrcache (adapter_at m a)) ip = Some mac" for m mac
    using that by (simp add: net_lookup_def net_grabcache_def spinlock_acquire_unlocked)
  from net_onarp_reply [OF assms(4-6,1)] obtain l where l: "unlocked l" "net_onarp env a (arpheader_bytes h) n =
      Inr (put_adapter a (\<lambda>d. d\<lparr>addrcache := addrcache d @ [(srcpr h, srchw h)], addrcachelock := l\<rparr>) n)" (is "_ = Inr ?n1") by blast
  from l(1) have u: "unlocked (addrcachelock (adapter_at ?n1 a))" by simp
  from net_onarp_reply [OF assms(8-10) u] obtain l' where l': "unlocked l'" "net_onarp env a (arpheader_bytes h') ?n1 =
      Inr (put_adapter a (\<lambda>d. d\<lparr>addrcache := addrcache d @ [(srcpr h', srchw h')], addrcachelock := l'\<rparr>) ?n1)" (is "_ = Inr ?n3") by blast
  have "net_findadapterbyip ip ?n1 = 0" "net_findadapterbyip ip ?n3 = 0"
    using assms(2) findadapterbyip_cong [of ?n1 n] findadapterbyip_cong [of ?n3 n] by simp_all
  moreover have "map_of (addrcache (adapter_at ?n1 a)) ip = Some (srchw h)" "map_of (addrcache (adapter_at ?n3 a)) ip = Some (srchw h)"
    using assms(3,7,11) by (simp_all add: map_add_def)
  ultimately show ?thesis using l l' lookup [of ?n1] lookup [of ?n3] by auto
qed


definition arp_example :: "u8 \<Rightarrow> net_arpheader" where
  "arp_example x = \<lparr>hwtype = bswap16 1, prtype = bswap16 NET_ETHPROTOIPV4, hwlen = 6, plen = 4, opcode = bswap16 2,
     srchw = replicate 6 x, srcpr = 0x0200000a, desthw = replicate 6 0, destpr = 0x0100007f\<rparr>"

definition silent_driver :: "net netenv" where
  "silent_driver = \<lparr>txpacket = (\<lambda>a f n. Inr n), net_sleep = (\<lambda>_ n. n), freed_header = (\<lambda>h. h)\<rparr>"

theorem arp_first_answer_stays_witness:
  "\<exists>n1 n2 n3 n4. net_onarp silent_driver 1 (arpheader_bytes (arp_example 7)) net_example = Inr n1 \<and>
    net_lookup silent_driver 1 0x0200000a n1 = Inr (Inr (replicate 6 7), n2) \<and>
    net_onarp silent_driver 1 (arpheader_bytes (arp_example 9)) n1 = Inr n3 \<and>
    net_lookup silent_driver 1 0x0200000a n3 = Inr (Inr (replicate 6 7), n4)"
  using arp_first_answer_stays [where n = net_example and a = 1 and ip = "0x0200000a" and h = "arp_example 7"
      and h' = "arp_example 9" and env = silent_driver]
  by (simp add: net_example_def arp_example_def net_findadapterbyip_def adapter_zero_def SPINLOCK_INIT_def bswap16_bswap16)

subsection \<open>Which adapter a packet takes\<close>

text \<open>The last adapter on the remote's network, and if there is none the last one with a gateway.\<close>

definition usable :: "u32 \<Rightarrow> 'm net_scheme \<Rightarrow> u64 \<Rightarrow> bool" where
  "usable local n a \<longleftrightarrow> local = INADDR_ANY \<or> na_ip (adapter_at n a) = local"

lemma route_scan_choice:
  "route_scan local remote n as best =
    (case find (\<lambda>a. usable local n a \<and> on_link (adapter_at n a) remote) (rev as) of
       Some a \<Rightarrow> (a, True)
     | None \<Rightarrow> if snd best then best
               else case find (\<lambda>a. usable local n a \<and> gateway (adapter_at n a) \<noteq> 0) (rev as) of
                 Some a \<Rightarrow> (a, False) | None \<Rightarrow> best)"
  by (induction local remote n as best rule: route_scan.induct)
    (auto simp: find_append usable_def Let_def split: option.splits prod.splits)


subsection \<open>An echo request is answered\<close>

lemma le16_bytes [simp]: "get16 (xs @ le16 w @ ys) (length xs) = w"
  by (rule get16_le16) simp

lemma inet_accept_whole:
  assumes "inetheader_ok h" "ip_version h = 4" "ip_fragoff h = 0"
  shows "inet_accept (inetheader_bytes (set_csum h) @ body) metas = Inr (Some (h\<lparr>ip_csum := 0\<rparr>, body), metas)"
proof -
  have i: "inetheader_of (inetheader_bytes (set_csum h) @ body) = set_csum h" using assms(1) by (simp add: inetheader_of_bytes)
  show ?thesis
    unfolding inet_accept_def Let_def i set_csum_csum [of h, symmetric]
    using assms(2,3) by (simp add: INETHEADER_SIZE_def) (simp add: set_csum_def)
qed

lemma send_to_own_adapter_state:
  assumes "is_eth a n" "a \<noteq> 0" "dest \<noteq> INADDR_BROADCAST" "on_link (adapter_at n a) dest"
    and "net_findadapterbyip dest n = b" "b \<noteq> 0" "unlocked (cachelock (adapter_at n b))"
  shows "\<exists>l. unlocked l \<and> net_sendinet env a (na_ip (adapter_at n a)) dest protocol data n =
    Some (Inr (Inr (), put_adapter b (\<lambda>d. d\<lparr>na_cache := na_cache d @
       [etherframe_bytes (na_mac (adapter_at n b)) (na_mac (adapter_at n a)) (bswap16 NET_ETHPROTOIPV4) @ inet_packet a dest protocol data n],
       cachelock := l, packet_triggers := packet_triggers d + 1\<rparr>) (put_adapter a (\<lambda>d. d\<lparr>ipframe := ipframe d + 1\<rparr>) n)))"
proof -
  let ?n1 = "put_adapter a (\<lambda>d. d\<lparr>ipframe := ipframe d + 1\<rparr>) n"
  have "net_findadapterbyip dest ?n1 = b" using findadapterbyip_cong [of ?n1 n] assms(5) by simp
  moreover have "net_route env a (na_ip (adapter_at n a)) dest n = Inr (Inr (a, na_mac (adapter_at n b)), n)"
    using assms by (simp add: net_route_def net_lookup_def Let_def)
  moreover have "unlocked (cachelock (adapter_at ?n1 b))" using assms(7) by auto
  ultimately have "net_sendinet env a (na_ip (adapter_at n a)) dest protocol data n =
    Some (Inr (Inr (), put_adapter b (\<lambda>d. d\<lparr>na_cache := na_cache d @
       [etherframe_bytes (na_mac (adapter_at n b)) (na_mac (adapter_at n a)) (bswap16 NET_ETHPROTOIPV4) @ inet_packet a dest protocol data n],
       cachelock := spinlock_release ((cachelock (adapter_at ?n1 b))\<lparr>lock_word := 1, last_acquirer := ''net_sendinet''\<rparr>),
       packet_triggers := packet_triggers d + 1\<rparr>) ?n1))"
    using assms by (simp add: net_sendinet_def send_frame_def push_packet_def spinlock_acquire_unlocked)
  then show ?thesis by (intro exI [of _ "spinlock_release ((cachelock (adapter_at ?n1 b))\<lparr>lock_word := 1, last_acquirer := ''net_sendinet''\<rparr>)"]) simp
qed

lemma send_to_own_adapter:
  assumes "is_eth a n" "a \<noteq> 0" "dest \<noteq> INADDR_BROADCAST" "on_link (adapter_at n a) dest"
    and "net_findadapterbyip dest n = b" "b \<noteq> 0" "unlocked (cachelock (adapter_at n b))"
  shows "\<exists>n'. net_sendinet env a (na_ip (adapter_at n a)) dest protocol data n = Some (Inr (Inr (), n')) \<and>
    (\<forall>c. na_cache (adapter_at n' c) = na_cache (adapter_at n c) @
       (if c = b then [etherframe_bytes (na_mac (adapter_at n b)) (na_mac (adapter_at n a)) (bswap16 NET_ETHPROTOIPV4) @
          inet_packet a dest protocol data n] else []))"
  using send_to_own_adapter_state [OF assms, of env protocol data] by auto

text \<open>A whole packet at the head of an adapter's queue reaches the handler of its protocol.\<close>

lemma ifhandler_whole_packet:
  assumes "is_eth a n" "unlocked (cachelock (adapter_at n a))" "inetheader_ok h" "ip_version h = 4" "ip_fragoff h = 0"
    and "length dmac = 6" "length smac = 6"
    and "na_cache (adapter_at n a) = (etherframe_bytes dmac smac (bswap16 NET_ETHPROTOIPV4) @ inetheader_bytes (set_csum h) @ body) # packets"
  shows "\<exists>l. unlocked l \<and> (let n1 = put_adapter a (\<lambda>d. d\<lparr>na_cache := packets, cachelock := l\<rparr>) n;
      h0 = h\<lparr>ip_csum := 0\<rparr>; len = ucast (bswap16 (ip_len h)) - 20
    in net_ifhandler env tcp udp a n =
      (if ip_protocol h = IPPROTO_ICMP then net_onicmp env a h0 body len n1
       else if ip_protocol h = IPPROTO_TCP then tcp a h0 body len n1
       else if ip_protocol h = IPPROTO_UDP then udp a h0 body len n1
       else protocol_unreachable env a h0 body n1))"
proof -
  let ?link = "etherframe_bytes dmac smac (bswap16 NET_ETHPROTOIPV4)"
  let ?rest = "inetheader_bytes (set_csum h) @ body"
  let ?l = "spinlock_release ((cachelock (adapter_at n a))\<lparr>lock_word := 1, last_acquirer := ''net_ifhandler''\<rparr>)"
  define n1 where "n1 = put_adapter a (\<lambda>d. d\<lparr>na_cache := packets, cachelock := ?l\<rparr>) n"
  have ty: "get16 (?link @ ?rest) 12 = bswap16 NET_ETHPROTOIPV4"
    using le16_bytes [of "dmac @ smac"] assms(6,7) by (simp add: etherframe_bytes_def)
  have len: "length ?link = 14" using assms(6,7) by (simp add: etherframe_bytes_def)
  have step: "net_ifhandler env tcp udp a n = net_oninet env tcp udp a ?rest n1"
    using assms(1,2,8) ty len by (simp add: net_ifhandler_def spinlock_acquire_unlocked n1_def)
  have m: "n1\<lparr>net_reassemblemeta := net_reassemblemeta n1\<rparr> = n1" by simp
  show ?thesis
    unfolding step net_oninet_def inet_accept_whole [OF assms(3-5)] Let_def
    by (rule exI [of _ ?l]) (simp add: m n1_def [symmetric])
qed

lemma inet_length:
  assumes "ip_len h = bswap16 (of_nat (20 + n))" "n < 65516"
  shows "unat (ucast (bswap16 (ip_len h)) - 20 :: u64) = n" and "unat (bswap16 (ip_len h)) = 20 + n"
proof -
  have u: "unat (of_nat (20 + n) :: u16) = 20 + n" using assms(2) by (simp only: unat_of_nat) simp
  then show "unat (bswap16 (ip_len h)) = 20 + n" by (simp only: assms(1) bswap16_bswap16)
  then have "unat (ucast (bswap16 (ip_len h)) :: u64) = 20 + n" by (simp only: unat_ucast_up)
  then show "unat (ucast (bswap16 (ip_len h)) - 20 :: u64) = n" by (simp add: unat_sub_small)
qed

text \<open>A packet that \<open>net_sendinet\<close> has put into the queue of an adapter reaches its handler with its data.\<close>

lemma sent_packet_handled:
  assumes "is_eth b n" "unlocked (cachelock (adapter_at n b))" "length dmac = 6" "length smac = 6" "length data < 65516"
    and "na_cache (adapter_at n b) = (etherframe_bytes dmac smac (bswap16 NET_ETHPROTOIPV4) @ inet_packet a dest protocol data u) # packets"
  shows "\<exists>l h. unlocked l \<and> ip_src h = na_ip (adapter_at u a) \<and> ip_dest h = dest \<and> unat (bswap16 (ip_len h)) = 20 + length data \<and>
    (let n1 = put_adapter b (\<lambda>d. d\<lparr>na_cache := packets, cachelock := l\<rparr>) n; len = of_nat (length data)
     in net_ifhandler env tcp udp b n =
      (if protocol = IPPROTO_ICMP then net_onicmp env b h data len n1
       else if protocol = IPPROTO_TCP then tcp b h data len n1
       else if protocol = IPPROTO_UDP then udp b h data len n1
       else protocol_unreachable env b h data n1))"
proof -
  let ?h = "\<lparr>ip_ihl = 5, ip_version = 4, ip_ecn = 0, ip_dscp = 0, ip_len = bswap16 (of_nat (20 + length data)),
    ip_id = bswap16 (ipframe (adapter_at u a)), ip_fragoff = 0, ip_ttl = 64, ip_protocol = protocol, ip_csum = 0,
    ip_src = na_ip (adapter_at u a), ip_dest = dest\<rparr>"
  have q: "na_cache (adapter_at n b) = (etherframe_bytes dmac smac (bswap16 NET_ETHPROTOIPV4) @ inetheader_bytes (set_csum ?h) @ data) # packets"
    using assms(6) by (simp add: inet_packet_def)
  have ok: "inetheader_ok ?h" "ip_version ?h = 4" "ip_fragoff ?h = 0" by (simp_all add: inetheader_ok_def)
  have len: "unat (ucast (bswap16 (ip_len ?h)) - 20 :: u64) = length data" "unat (bswap16 (ip_len ?h)) = 20 + length data"
    using inet_length [of ?h "length data"] assms(5) by simp_all
  then have l: "ucast (bswap16 (ip_len ?h)) - 20 = (of_nat (length data) :: u64)"
    using assms(5) by (metis of_nat_unat ucast_id)
  have h: "?h\<lparr>ip_csum := 0\<rparr> = ?h" "ip_protocol ?h = protocol" by simp_all
  obtain k where k: "unlocked k" and run: "net_ifhandler env tcp udp b n =
      (let n1 = put_adapter b (\<lambda>d. d\<lparr>na_cache := packets, cachelock := k\<rparr>) n; len = of_nat (length data)
       in if protocol = IPPROTO_ICMP then net_onicmp env b ?h data len n1
          else if protocol = IPPROTO_TCP then tcp b ?h data len n1
          else if protocol = IPPROTO_UDP then udp b ?h data len n1
          else protocol_unreachable env b ?h data n1)"
    using ifhandler_whole_packet [OF assms(1,2) ok assms(3,4) q, of env tcp udp] unfolding l h Let_def by blast
  have "ip_src ?h = na_ip (adapter_at u a)" "ip_dest ?h = dest" by simp_all
  with k len(2) run show ?thesis by (intro exI [of _ k] exI [of _ ?h] conjI) (simp_all only: Let_def)
qed

text \<open>
  What a reply should be, byte by byte: the hardware addresses and the type of an Ethernet frame; an
  Internet header without options, with the length of the rest of the frame, no fragment, the time to
  live, the protocol number of ICMP and the two addresses; an echo reply with the data.  A receiver
  that sums over the header finds zero, and so does one that sums over the message, when its length is
  even (see \<open>net_checksum_rfc1071\<close> for the other case).
\<close>

definition echo_reply_frame :: "macaddr \<Rightarrow> macaddr \<Rightarrow> u32 \<Rightarrow> u32 \<Rightarrow> u8 list \<Rightarrow> u8 list \<Rightarrow> bool" where
  "echo_reply_frame dest_mac src_mac src dest data f \<longleftrightarrow>
     take 6 f = dest_mac \<and> take 6 (drop 6 f) = src_mac \<and> take 2 (drop 12 f) = [0x08, 0x00] \<and>
     take 2 (drop 14 f) = [0x45, 0] \<and> 256 * unat (f ! 16) + unat (f ! 17) = length f - 14 \<and>
     take 4 (drop 20 f) = [0, 0, 64, 1] \<and> take 4 (drop 26 f) = le32 src \<and> take 4 (drop 30 f) = le32 dest \<and>
     rfc1071 (take 20 (drop 14 f)) = 0 \<and>
     take 2 (drop 34 f) = [0, 0] \<and> drop 38 f = data \<and> length f = 38 + length data \<and>
     (even (length data) \<longrightarrow> rfc1071 (drop 34 f) = 0)"

lemma le16_bswap16:
  "n < 65536 \<Longrightarrow> \<exists>x y. le16 (bswap16 (of_nat n)) = [x, y] \<and> 256 * unat x + unat y = n"
proof -
  assume n: "n < 65536"
  let ?w = "of_nat n :: u16"
  have "le16 (bswap16 ?w) = [ucast (drop_bit 8 ?w), ucast ?w]"
    unfolding le16_def bswap16_def by (auto intro!: bit_word_eqI simp: bit_simps)
  moreover have w: "unat ?w = n" using n by (simp add: unat_of_nat)
  then have "unat (ucast ?w :: u8) = n mod 256" by (simp only: unat_ucast_word) (simp add: take_bit_eq_mod)
  moreover have "unat (ucast (drop_bit 8 ?w) :: u8) = n div 256"
    using n w by (simp only: unat_ucast_word unsigned_drop_bit_eq) (simp add: take_bit_eq_mod drop_bit_eq_div)
  ultimately show ?thesis by simp
qed

lemma icmp_frame_fields:
  assumes "length dmac = 6" "length smac = 6" "length data < 65512"
  shows "echo_reply_frame dmac smac (na_ip (adapter_at n a)) dest data
    (etherframe_bytes dmac smac (bswap16 NET_ETHPROTOIPV4) @ inet_packet a dest IPPROTO_ICMP (icmp_bytes 0 0 data) n)"
proof -
  let ?icmp = "icmp_bytes 0 0 data"
  let ?h = "set_csum \<lparr>ip_ihl = 5, ip_version = 4, ip_ecn = 0, ip_dscp = 0, ip_len = bswap16 (of_nat (20 + length ?icmp)),
       ip_id = bswap16 (ipframe (adapter_at n a)), ip_fragoff = 0, ip_ttl = 64, ip_protocol = 1, ip_csum = 0,
       ip_src = na_ip (adapter_at n a), ip_dest = dest\<rparr>"
  have len: "length ?icmp = 4 + length data" by (simp add: icmp_bytes_def)
  obtain x y where xy: "le16 (bswap16 (of_nat (24 + length data))) = [x, y]" "256 * unat x + unat y = 24 + length data"
    using le16_bswap16 [of "24 + length data"] assms(3) by auto
  obtain i j where ij: "le16 (bswap16 (ipframe (adapter_at n a))) = [i, j]" by (simp add: le16_def)
  obtain c d where cd: "le16 (ip_csum ?h) = [c, d]" by (simp add: le16_def)
  have ip: "inetheader_bytes ?h = [0x45, 0, x, y, i, j, 0, 0, 64, 1, c, d] @ le32 (na_ip (adapter_at n a)) @ le32 dest"
  proof -
    have l: "le16 (ip_len ?h) = [x, y]" using xy(1) len by (simp add: add.commute)
    have "le16 (0 :: u16) = [0, 0]" by (simp add: le16_def)
    moreover have "le16 (ip_id ?h) = [i, j]" using ij by simp
    ultimately show ?thesis unfolding inetheader_bytes_def l cd by (simp add: set_csum_def)
  qed
  have link: "etherframe_bytes dmac smac (bswap16 NET_ETHPROTOIPV4) = dmac @ smac @ [0x08, 0x00]"
    by (simp add: etherframe_bytes_def le16_def bswap16_def NET_ETHPROTOIPV4_def)
  let ?f = "(dmac @ smac @ [0x08, 0x00]) @ inetheader_bytes ?h @ ?icmp"
  have head: "take 20 (drop 14 ?f) = inetheader_bytes ?h" "drop 34 ?f = ?icmp" "length ?f = 38 + length data"
    using assms(1,2) len by simp_all
  have sum: "even (length data) \<Longrightarrow> rfc1071 ?icmp = 0"
    using stored_checksum [of "[0, 0]" data] assms(3) by (simp add: icmp_bytes_def le16_def)
  have fields: "take 6 ?f = dmac" "take 6 (drop 6 ?f) = smac" "take 2 (drop 12 ?f) = [0x08, 0x00]"
    "take 2 (drop 14 ?f) = [0x45, 0]" "?f ! 16 = x" "?f ! 17 = y" "take 4 (drop 20 ?f) = [0, 0, 64, 1]"
    "take 4 (drop 26 ?f) = le32 (na_ip (adapter_at n a))" "take 4 (drop 30 ?f) = le32 dest"
    "take 2 (drop 34 ?f) = [0, 0]" "drop 38 ?f = data"
    using assms(1,2) unfolding ip by (simp_all add: nth_append icmp_bytes_def)
  have e: "etherframe_bytes dmac smac (bswap16 NET_ETHPROTOIPV4) @ inet_packet a dest IPPROTO_ICMP ?icmp n = ?f"
    unfolding link inet_packet_def IPPROTO_ICMP_def by simp
  have "take 2 ?icmp = [0, 0]" by (simp add: icmp_bytes_def)
  then show ?thesis unfolding echo_reply_frame_def e fields head using sum xy(2) by (simp add: set_csum_rfc1071)
qed

text \<open>
  C33.  An echo request at the head of an Ethernet adapter's queue, whose sender has the address of one of
  the machine's own adapters and is on the network of the adapter that received it, is answered.  The
  adapter's thread takes the request out of the queue, and one frame is put into the queue of the
  adapter with the sender's address, whose thread is woken: an echo reply with the request's data,
  from the receiving adapter to the sender, with right lengths, a right header checksum and, for data of an
  even length, a right ICMP checksum (\<open>net_checksum\<close> leaves out an odd last byte).  No other queue changes.
\<close>

theorem echo_request_answered:
  assumes "is_eth a n" "a \<noteq> 0" "net_findadapterbyip (ip_src h) n = b" "b \<noteq> 0" "on_link (adapter_at n a) (ip_src h)"
    and "ip_src h \<noteq> INADDR_BROADCAST" "unlocked (cachelock (adapter_at n a))" "unlocked (cachelock (adapter_at n b))"
    and "inetheader_ok h" "ip_version h = 4" "ip_fragoff h = 0" "ip_protocol h = IPPROTO_ICMP"
    and "ip_len h = bswap16 (of_nat (24 + length data))" "length data < 65512"
    and "length dmac = 6" "length smac = 6"
    and "na_cache (adapter_at n a) = (etherframe_bytes dmac smac (bswap16 NET_ETHPROTOIPV4) @
        inetheader_bytes (set_csum h) @ [8, code, ck, cl] @ data) # packets"
    and "length (na_mac (adapter_at n a)) = 6" "length (na_mac (adapter_at n b)) = 6"
  shows "\<exists>n' f. net_ifhandler env tcp udp a n = Some (Inr n') \<and>
    echo_reply_frame (na_mac (adapter_at n b)) (na_mac (adapter_at n a)) (na_ip (adapter_at n a)) (ip_src h) data f \<and>
    (\<forall>c. na_cache (adapter_at n' c) = (if c = a then packets else na_cache (adapter_at n c)) @ (if c = b then [f] else [])) \<and>
    packet_triggers (adapter_at n' b) = packet_triggers (adapter_at n b) + 1"
proof -
  let ?h = "h\<lparr>ip_csum := 0\<rparr>" and ?body = "[8, code, ck, cl] @ data"
  let ?len = "ucast (bswap16 (ip_len h)) - 20 :: u64"
  let ?f = "etherframe_bytes (na_mac (adapter_at n b)) (na_mac (adapter_at n a)) (bswap16 NET_ETHPROTOIPV4) @
    inet_packet a (ip_src h) IPPROTO_ICMP (icmp_bytes 0 0 data) n"
  obtain l where l: "unlocked l" and step: "net_ifhandler env tcp udp a n =
      net_onicmp env a ?h ?body ?len (put_adapter a (\<lambda>d. d\<lparr>na_cache := packets, cachelock := l\<rparr>) n)"
    using ifhandler_whole_packet [OF assms(1,7,9-11,15-17), of env tcp udp] assms(12) by (auto simp: Let_def)
  define n1 where "n1 = put_adapter a (\<lambda>d. d\<lparr>na_cache := packets, cachelock := l\<rparr>) n"
  have ulen: "unat ?len = 4 + length data" using inet_length(1) [of h "4 + length data"] assms(13,14) by simp
  have icmp: "net_onicmp env a ?h ?body ?len n1 =
      obind (net_sendinet env a (na_ip (adapter_at n1 a)) (ip_src h) IPPROTO_ICMP (icmp_bytes 0 0 data) n1) (\<lambda>(_, n2). Some (Inr n2))"
  proof -
    have "\<not> ?len < 4" using ulen by (simp add: word_less_nat_alt)
    then show ?thesis by (simp add: net_onicmp_def ulen copy_from_def)
  qed
  have f: "net_findadapterbyip (ip_src h) n1 = b" using findadapterbyip_cong [of n1 n] assms(3) by (simp add: n1_def)
  have e: "is_eth a n1" "on_link (adapter_at n1 a) (ip_src h)" "unlocked (cachelock (adapter_at n1 b))"
    using assms(1,5,8) l by (auto simp: n1_def is_eth_def on_link_def)
  have p: "inet_packet a (ip_src h) q d n1 = inet_packet a (ip_src h) q d n" "na_mac (adapter_at n1 c) = na_mac (adapter_at n c)"
    for q d c by (simp_all add: inet_packet_def n1_def)
  obtain k where "net_sendinet env a (na_ip (adapter_at n1 a)) (ip_src h) IPPROTO_ICMP (icmp_bytes 0 0 data) n1 =
      Some (Inr (Inr (), put_adapter b (\<lambda>d. d\<lparr>na_cache := na_cache d @ [?f], cachelock := k, packet_triggers := packet_triggers d + 1\<rparr>)
        (put_adapter a (\<lambda>d. d\<lparr>ipframe := ipframe d + 1\<rparr>) n1)))"
    using send_to_own_adapter_state [OF e(1) assms(2,6) e(2) f assms(4) e(3), of env] unfolding p by blast
  then show ?thesis
    unfolding step n1_def [symmetric] icmp
    using icmp_frame_fields [OF assms(19,18,14), of n a "ip_src h"]
    by (intro exI [of _ ?f] exI conjI) (auto simp: n1_def)
qed

theorem echo_request_answered_witness:
  "\<exists>n' f. net_ifhandler silent_driver (\<lambda>_ _ _ _ n. Some (Inr n)) (\<lambda>_ _ _ _ n. Some (Inr n)) 1 net_example = Some (Inr n') \<and>
    na_cache (adapter_at n' 1) = [f] \<and> drop 38 f = [5, 6] \<and> take 2 (drop 34 f) = [0, 0] \<and> rfc1071 (take 20 (drop 14 f)) = 0"
proof -
  let ?h = "\<lparr>ip_ihl = 5, ip_version = 4, ip_ecn = 0, ip_dscp = 0, ip_len = bswap16 26, ip_id = 0, ip_fragoff = 0,
    ip_ttl = 64, ip_protocol = 1, ip_csum = 0, ip_src = 0x0100007f, ip_dest = 0x0100007f\<rparr>"
  obtain ck cl where c: "icmp_bytes 8 0 [5, 6] = [8, 0, ck, cl] @ [5, 6]" by (simp add: icmp_bytes_def le16_def)
  have "\<exists>n' f. net_ifhandler silent_driver (\<lambda>_ _ _ _ n. Some (Inr n)) (\<lambda>_ _ _ _ n. Some (Inr n)) 1 net_example = Some (Inr n') \<and>
    echo_reply_frame (na_mac (adapter_at net_example 1)) (na_mac (adapter_at net_example 1)) (na_ip (adapter_at net_example 1))
      (ip_src ?h) [5, 6] f \<and>
    (\<forall>c. na_cache (adapter_at n' c) = (if c = 1 then [] else na_cache (adapter_at net_example c)) @ (if c = 1 then [f] else [])) \<and>
    packet_triggers (adapter_at n' 1) = packet_triggers (adapter_at net_example 1) + 1"
    by (rule echo_request_answered [where h = ?h and dmac = "replicate 6 0" and smac = "replicate 6 0" and code = 0 and ck = ck and cl = cl])
      (use c in \<open>simp_all add: net_example_def adapter_zero_def is_eth_def NET_ADAPTERETH_def net_findadapterbyip_def on_link_def
        INADDR_BROADCAST_def SPINLOCK_INIT_def inetheader_ok_def IPPROTO_ICMP_def\<close>)
  then show ?thesis by (auto simp: echo_reply_frame_def)
qed

text \<open>
  The lengths are taken from the header of the packet and not compared with what was received: an echo
  request whose header claims more is answered with the bytes behind the packet, and the answer to an
  unknown protocol always reads twenty bytes too many.
\<close>

lemma echo_overread:
  "body ! 0 = 8 \<Longrightarrow> body \<noteq> [] \<Longrightarrow> 4 \<le> unat len \<Longrightarrow> length body < unat len \<Longrightarrow> net_onicmp env a h body len n = Some (Inl OutOfBounds)"
  by (simp add: net_onicmp_def word_less_nat_alt copy_from_def arr_get_def)

lemma unknown_protocol_overread:
  "unat (bswap16 (ip_len h)) = 20 + length body \<Longrightarrow> protocol_unreachable env a h body n = Some (Inl OutOfBounds)"
  by (simp add: protocol_unreachable_def copy_from_def)

end
