(* ===== verification/Lyre_Ifioctl.thy ===== *)
theory Lyre_Ifioctl
  imports Lyre_Net
begin

section \<open>Configuring adapters (net_ifioctl of dev/net/net.c)\<close>

text \<open>
  The caller's \<open>struct ifreq\<close> is a name of sixteen bytes and a union, here its bytes: a number is at its
  start, a \<open>struct sockaddr_in\<close> has its family at 0 and its address at 4, a hardware address is at 2.
  The address family \<open>AF_INET\<close> and the flags are constants of the C library, \<open>updateflags\<close> is the
  driver's.  A call ends with a return value, or goes on with \<open>resource_default_ioctl\<close>; renaming an
  adapter names the path that is unlinked and the device that is added.
\<close>

subsection \<open>Requests\<close>

record ifreq =
  ifr_name :: "u8 list"
  ifr_ifru :: "u8 list"

record rtentry =
  rt_gateway_family :: u16
  rt_gateway_addr :: u32
  rt_flags :: u16
  rt_dev :: "u8 list"

datatype if_request =
    SIOCGIFNAME | SIOCADDRT rtentry | SIOCGIFFLAGS | SIOCSIFFLAGS | SIOCSIFNAME | SIOCGIFMTU | SIOCSIFMTU | SIOCGIFADDR
  | SIOCSIFADDR | SIOCGIFNETMASK | SIOCSIFNETMASK | SIOCGIFHWADDR | SIOCGIFINDEX | If_other u64

datatype if_result = If_done | If_error errno | If_default | If_renamed string string

definition ifru_ivalue :: "ifreq \<Rightarrow> u32" where
  "ifru_ivalue r = get32 (ifr_ifru r) 0"

definition put_ifru :: "nat \<Rightarrow> u8 list \<Rightarrow> ifreq \<Rightarrow> ifreq" where
  "put_ifru off bs r = r\<lparr>ifr_ifru := take off (ifr_ifru r) @ bs @ drop (off + length bs) (ifr_ifru r)\<rparr>"

definition IFNAMSIZ :: nat where
  "IFNAMSIZ = 16"

text \<open>The bytes \<open>strncpy\<close> writes, and \<open>strncmp\<close> of a name with bytes that end at a zero or with the list.\<close>

definition strncpy_bytes :: "string \<Rightarrow> nat \<Rightarrow> u8 list" where
  "strncpy_bytes s n = take n (map (\<lambda>c. of_char c) s @ replicate n 0)"

definition ifname_matches :: "u8 list \<Rightarrow> string \<Rightarrow> bool" where
  "ifname_matches val name =
     (let n = length val; mine = take n (map (\<lambda>c. of_char c) name @ [0]); other = takeWhile (\<lambda>b. b \<noteq> 0) val
      in mine = take n (other @ [0]))"

text \<open>The loops over the adapters keep the last one that matches.\<close>

definition adapter_by_index :: "u32 \<Rightarrow> 'm net_scheme \<Rightarrow> u64" where
  "adapter_by_index i n = (case find (\<lambda>a. na_index (adapter_at n a) = sint i) (rev (net_adapters n)) of Some a \<Rightarrow> a | None \<Rightarrow> 0)"

definition adapter_by_name :: "u8 list \<Rightarrow> 'm net_scheme \<Rightarrow> u64" where
  "adapter_by_name name n =
     (case find (\<lambda>a. ifname_matches (take IFNAMSIZ name) (ifname (adapter_at n a))) (rev (net_adapters n)) of Some a \<Rightarrow> a | None \<Rightarrow> 0)"

definition find_interface :: "u8 list \<Rightarrow> u32 \<Rightarrow> 'm net_scheme \<Rightarrow> u64" where
  "find_interface name i n = (let a = adapter_by_name name n in if a = 0 then adapter_by_index i n else a)"

subsection \<open>The requests on an adapter\<close>

definition sockaddr_of :: "ifreq \<Rightarrow> u16 \<times> u32" where
  "sockaddr_of r = (get16 (ifr_ifru r) 0, get32 (ifr_ifru r) 4)"

definition put_sockaddr :: "u16 \<Rightarrow> u32 \<Rightarrow> ifreq \<Rightarrow> ifreq" where
  "put_sockaddr AF_INET ip r = put_ifru 4 (le32 ip) (put_ifru 0 (le16 AF_INET) r)"

definition set_mtu :: "u64 \<Rightarrow> u32 \<Rightarrow> 'm net_scheme \<Rightarrow> if_result \<times> 'm net_scheme" where
  "set_mtu this m n =
     (let d = adapter_at n this; n1 = put_adapter this (\<lambda>d. d\<lparr>mtu := scast m\<rparr>) n
      in if hwmtu d \<noteq> 0
         then if mtu d > hwmtu d then (If_error EINVAL, n) else if m \<noteq> 0 then (If_done, n1) else (If_error EINVAL, n)
         else (If_done, n1))"

definition add_route ::
  "u16 \<Rightarrow> 'm net_scheme netenv \<Rightarrow> u64 \<Rightarrow> rtentry \<Rightarrow> 'm net_scheme \<Rightarrow> (if_result \<times> 'm net_scheme) result" where
  "add_route AF_INET env this rt n =
     (if rt_gateway_family rt \<noteq> AF_INET then Inr (If_error ENOPROTOOPT, n)
      else let n1 = put_adapter this (\<lambda>d. d\<lparr>gateway := rt_gateway_addr rt\<rparr>) n
           in rbind (net_lookup env this (gateway (adapter_at n1 this)) n1) (\<lambda>(_, n2). Inr (If_done, n2)))"

text \<open>\<open>RTF_GATEWAY\<close> and \<open>RTF_UP\<close> are the third and fourth argument.\<close>

definition net_ifioctl ::
  "(u64 \<Rightarrow> u16 \<Rightarrow> 'm net_scheme \<Rightarrow> 'm net_scheme) \<Rightarrow> u16 \<Rightarrow> u16 \<Rightarrow> u16 \<Rightarrow> 'm net_scheme netenv \<Rightarrow>
   if_request \<Rightarrow> ifreq \<Rightarrow> 'm net_scheme \<Rightarrow> (if_result \<times> ifreq \<times> 'm net_scheme) result" where
  "net_ifioctl updateflags AF_INET RTF_GATEWAY RTF_UP env request req n =
     (if ifru_ivalue req \<noteq> 0 \<and> request = SIOCGIFNAME
      then let this = adapter_by_index (ifru_ivalue req) n
           in if this = 0 then Inr (If_error ENODEV, req, n)
              else Inr (If_done, req\<lparr>ifr_name := strncpy_bytes (ifname (adapter_at n this)) IFNAMSIZ\<rparr>, n)
      else let this = find_interface (case request of SIOCADDRT rt \<Rightarrow> rt_dev rt | _ \<Rightarrow> ifr_name req) (ifru_ivalue req) n;
               d = adapter_at n this
           in if this = 0 then Inr (If_error ENODEV, req, n)
              else case request of
                SIOCADDRT rt \<Rightarrow>
                  if and (rt_flags rt) RTF_GATEWAY \<noteq> 0 \<and> and (rt_flags rt) RTF_UP \<noteq> 0
                  then rbind (add_route AF_INET env this rt n) (\<lambda>(r, n1). Inr (r, req, n1))
                  else Inr (If_error EINVAL, req, n)
              | SIOCGIFFLAGS \<Rightarrow> Inr (If_done, put_ifru 0 (le16 (na_flags d)) req, n)
              | SIOCSIFFLAGS \<Rightarrow>
                  Inr (If_done, req, updateflags this (na_flags d) (put_adapter this (\<lambda>d. d\<lparr>na_flags := get16 (ifr_ifru req) 0\<rparr>) n))
              | SIOCSIFNAME \<Rightarrow>
                  let newname = map (\<lambda>b. char_of (unat b)) (takeWhile (\<lambda>b. b \<noteq> 0) (take IFNAMSIZ (ifr_ifru req)))
                  in Inr (If_renamed (take 31 (''/dev/'' @ ifname d)) newname, req, put_adapter this (\<lambda>d. d\<lparr>ifname := newname\<rparr>) n)
              | SIOCGIFMTU \<Rightarrow> Inr (If_done, put_ifru 0 (le32 (ucast (mtu d))) req, n)
              | SIOCSIFMTU \<Rightarrow> (case set_mtu this (ifru_ivalue req) n of (r, n1) \<Rightarrow> Inr (r, req, n1))
              | SIOCGIFADDR \<Rightarrow> Inr (If_done, put_sockaddr AF_INET (na_ip d) req, n)
              | SIOCSIFADDR \<Rightarrow>
                  (case sockaddr_of req of (family, ip) \<Rightarrow>
                     if family \<noteq> AF_INET then Inr (If_error EPROTONOSUPPORT, req, n)
                     else Inr (If_done, req, put_adapter this (\<lambda>d. d\<lparr>na_ip := ip\<rparr>) n))
              | SIOCGIFNETMASK \<Rightarrow> Inr (If_done, put_sockaddr AF_INET (subnetmask d) req, n)
              | SIOCSIFNETMASK \<Rightarrow>
                  (case sockaddr_of req of (family, ip) \<Rightarrow>
                     if family \<noteq> AF_INET then Inr (If_error EPROTONOSUPPORT, req, n)
                     else Inr (If_done, req, put_adapter this (\<lambda>d. d\<lparr>subnetmask := ip\<rparr>) n))
              | SIOCGIFHWADDR \<Rightarrow> Inr (If_done, put_ifru 2 (na_mac d) req, n)
              | SIOCGIFINDEX \<Rightarrow> Inr (If_done, put_ifru 0 (le32 (of_int (na_index d))) req, n)
              | _ \<Rightarrow> Inr (If_default, req, n))"

subsection \<open>The transmission unit\<close>

lemma ifru_ivalue_put [simp]: "ifru_ivalue (put_ifru 0 (le32 w) r) = w"
  using get32_le32 [of "[]" 0 w] by (simp add: ifru_ivalue_def put_ifru_def)

lemma ifioctl_set_mtu:
  assumes "find_interface (ifr_name req) (ifru_ivalue req) n = this" "this \<noteq> 0"
  shows "net_ifioctl updateflags AF_INET RTF_GATEWAY RTF_UP env SIOCSIFMTU req n =
    Inr (fst (set_mtu this (ifru_ivalue req) n), req, snd (set_mtu this (ifru_ivalue req) n))"
  using assms by (simp add: net_ifioctl_def split: prod.splits)

lemma broadcast_hangs:
  assumes "is_eth this n" "unat (m :: u32) = M + 34" "M < 8" "M < length data" "length data < 65500"
    and "net_findadapterbyip INADDR_BROADCAST n = 0" "length (na_mac (adapter_at n this)) = 6"
  shows "net_sendinet env this src INADDR_BROADCAST protocol data (put_adapter this (\<lambda>d. d\<lparr>mtu := scast m\<rparr>) n) = None"
proof -
  let ?n' = "put_adapter this (\<lambda>d. d\<lparr>mtu := scast m\<rparr>) n"
  have small: "unat (scast m :: u64) = M + 34"
  proof -
    have "m = of_nat (M + 34)" using assms(2) by (simp flip: assms(2))
    moreover have "M = 0 \<or> M = 1 \<or> M = 2 \<or> M = 3 \<or> M = 4 \<or> M = 5 \<or> M = 6 \<or> M = 7" using assms(3) by auto
    ultimately show ?thesis by auto
  qed
  let ?n1 = "put_adapter this (\<lambda>d. d\<lparr>ipframe := ipframe d + 1\<rparr>) ?n'"
  let ?link = "etherframe_bytes MAC_BROADCAST (na_mac (adapter_at n this)) (bswap16 NET_ETHPROTOIPV4)"
  let ?buffer = "?link @ inet_packet this INADDR_BROADCAST protocol data ?n'"
  have own: "net_findadapterbyip INADDR_BROADCAST ?n1 = 0" using findadapterbyip_cong [of ?n1 n] assms(6) by simp
  have m: "mtu (adapter_at ?n1 this) = scast m" "is_eth this ?n1" "is_eth this ?n'"
    using assms(1) by (simp_all add: is_eth_def)
  have l: "length ?link = 14" using assms(7) by (simp add: etherframe_bytes_def MAC_BROADCAST_def)
  then have len: "length ?buffer = 34 + length data" by (simp add: inet_packet_def)
  have hang: "net_fragment (freed_header env) (scast m) 14 ?buffer = None"
    by (rule fragment_small_mtu_hangs [of _ M 14 data _ ?link])
      (use small assms(3-5) l in \<open>simp_all add: inet_packet_def\<close>)
  have "unat (of_nat (length ?buffer) :: u64) = 34 + length data" unfolding len using assms(5) by (simp only: unat_of_nat) simp
  then have big: "(of_nat (length ?buffer) :: u64) > scast m" "(scast m :: u64) \<noteq> 0"
    using small assms(4) by (auto simp: word_less_nat_alt)
  show ?thesis
    using m own big hang unfolding net_sendinet_def send_frame_def Let_def NET_LINKLAYERFRAMESIZE_def by simp
qed

text \<open>
  C35.  Setting the transmission unit of an adapter whose hardware has a limit.  The test compares the
  old unit with the limit and not the new one: while the old one is within it, every new unit but
  zero is accepted and stored.  If the new one was above the limit, every later request to change
  it is refused with \<open>EINVAL\<close>.  If it is between 34 and 41 on an Ethernet adapter, so that there is
  room for zero to seven bytes behind the headers, broadcasting data that do not fit never returns.
\<close>

theorem small_mtu_hangs_sender:
  assumes "find_interface (ifr_name req) (ifru_ivalue req) n = this" "this \<noteq> 0" "ifru_ivalue req \<noteq> 0"
    and "hwmtu (adapter_at n this) \<noteq> 0" "mtu (adapter_at n this) \<le> hwmtu (adapter_at n this)"
  shows "\<exists>n'. net_ifioctl updateflags AF_INET RTF_GATEWAY RTF_UP env SIOCSIFMTU req n = Inr (If_done, req, n') \<and>
    n' = put_adapter this (\<lambda>d. d\<lparr>mtu := scast (ifru_ivalue req)\<rparr>) n \<and>
    (\<forall>req'. find_interface (ifr_name req') (ifru_ivalue req') n' = this \<and> hwmtu (adapter_at n this) < scast (ifru_ivalue req) \<longrightarrow>
      net_ifioctl updateflags AF_INET RTF_GATEWAY RTF_UP env SIOCSIFMTU req' n' = Inr (If_error EINVAL, req', n')) \<and>
    (\<forall>M src protocol data. is_eth this n \<and> unat (ifru_ivalue req) = M + 34 \<and> M < 8 \<and> M < length data \<and> length data < 65500 \<and>
      net_findadapterbyip INADDR_BROADCAST n = 0 \<and> length (na_mac (adapter_at n this)) = 6 \<longrightarrow>
      net_sendinet env this src INADDR_BROADCAST protocol data n' = None)"
proof -
  let ?n' = "put_adapter this (\<lambda>d. d\<lparr>mtu := scast (ifru_ivalue req)\<rparr>) n"
  have "set_mtu this (ifru_ivalue req) n = (If_done, ?n')" using assms(3-5) by (auto simp: set_mtu_def Let_def)
  then have "net_ifioctl updateflags AF_INET RTF_GATEWAY RTF_UP env SIOCSIFMTU req n = Inr (If_done, req, ?n')"
    using ifioctl_set_mtu [OF assms(1,2)] by simp
  moreover have "net_ifioctl updateflags AF_INET RTF_GATEWAY RTF_UP env SIOCSIFMTU req' ?n' = Inr (If_error EINVAL, req', ?n')"
    if "find_interface (ifr_name req') (ifru_ivalue req') ?n' = this" "hwmtu (adapter_at n this) < scast (ifru_ivalue req)" for req'
  proof -
    have "set_mtu this (ifru_ivalue req') ?n' = (If_error EINVAL, ?n')" using that(2) assms(4) by (auto simp: set_mtu_def Let_def)
    then show ?thesis using ifioctl_set_mtu [OF that(1) assms(2)] by simp
  qed
  ultimately show ?thesis by (intro exI [of _ ?n'] conjI allI impI) (auto intro: broadcast_hangs)
qed

definition mtu_example :: net where
  "mtu_example = \<lparr>net_adapters = [1],
     adapter_at = (\<lambda>_. adapter_zero\<lparr>na_type := 1, hwmtu := 1522, mtu := 1500, ifname := ''eth0''\<rparr>),
     net_ethcount = 1, net_portbitmap = [], net_portbitmaplock = SPINLOCK_INIT, net_reassemblemeta = [], sock_adapter = (\<lambda>_. 0)\<rparr>"

definition mtu_request :: ifreq where
  "mtu_request = \<lparr>ifr_name = [101, 116, 104, 48, 0], ifr_ifru = [34, 0, 0, 0]\<rparr>"

theorem small_mtu_hangs_sender_witness:
  "\<exists>n'. net_ifioctl (\<lambda>_ _ n. n) 2 2 1 silent_driver SIOCSIFMTU mtu_request mtu_example = Inr (If_done, mtu_request, n') \<and>
    net_sendinet silent_driver 1 0 INADDR_BROADCAST IPPROTO_UDP [5] n' = None"
proof -
  have i: "ifru_ivalue mtu_request = 34" by (simp add: mtu_request_def ifru_ivalue_def get32_def)
  have f: "find_interface (ifr_name mtu_request) (ifru_ivalue mtu_request) mtu_example = 1"
    by (simp add: mtu_request_def mtu_example_def find_interface_def adapter_by_name_def ifname_matches_def IFNAMSIZ_def Let_def)
  have h: "hwmtu (adapter_at mtu_example 1) \<noteq> 0" "mtu (adapter_at mtu_example 1) \<le> hwmtu (adapter_at mtu_example 1)"
    "is_eth 1 mtu_example" "net_findadapterbyip INADDR_BROADCAST mtu_example = 0" "length (na_mac (adapter_at mtu_example 1)) = 6"
    by (simp_all add: mtu_example_def is_eth_def adapter_zero_def NET_ADAPTERETH_def net_findadapterbyip_def INADDR_BROADCAST_def)
  from small_mtu_hangs_sender [OF f, of "\<lambda>_ _ n. n" 2 2 1 silent_driver] h i show ?thesis by fastforce
qed

end
