(* ===== verification/Lyre_Socket.thy ===== *)
theory Lyre_Socket
  imports Lyre_Ring Lyre_Vfs
begin

section \<open>Sockets and Unix domain sockets (ipc/socket.c, ipc/socket/unix.c)\<close>

text \<open>
  A socket is a resource; \<open>sockets\<close> holds the fields that \<open>struct socket\<close> and \<open>struct unix_socket\<close> add, by
  the address of the resource.  The functions of a socket are the argument \<open>ops\<close>, by the socket's
  address.  A call that has to wait for an event ends with \<open>Op_wait\<close> and is continued by a second
  definition: \<open>unix_connect\<close> by \<open>unix_connect_end\<close>, the loops of reading, writing and accepting by
  themselves.  Calls of \<open>event_trigger\<close> are counted.  Addresses are the values of the structures; the
  numeric constants come from the C library.
\<close>

unbundle bit_operations_syntax

subsection \<open>Data\<close>

datatype socket_state = SOCKET_CREATED | SOCKET_BOUND | SOCKET_LISTENING | SOCKET_CONNECTED | SOCKET_CLOSED

datatype sockaddr = No_addr | Sockaddr_un (sun_family: int) (sun_path: string) | Sockaddr_in (sin_family: int) (sin_port: u16) (sin_addr: u32)

record socket =
  sk_lock :: spinlock
  sk_status :: u32
  sk_refcount :: u64
  sk_triggers :: nat
  localaddr :: sockaddr
  peeraddr :: sockaddr
  backlog :: "u64 list"
  backlog_max :: u64
  backlog_i :: u64
  connect_triggers :: nat
  sk_state :: socket_state
  sk_peer :: u64
  bound :: bool
  sk_family :: int
  sk_type :: u32
  sk_protocol :: int
  sk_data :: "u8 list"
  sk_capacity :: u64
  sk_read_ptr :: u64
  sk_write_ptr :: u64
  sk_used :: u64

record 's socks = "'s vfs" +
  sockets :: "u64 \<Rightarrow> socket"

record sock_abi =
  AF_UNIX :: int
  AF_INET :: int
  SOCK_STREAM :: u32
  SOCK_DGRAM :: u32
  SOCK_CLOEXEC :: u32
  SOCK_NONBLOCK :: u32
  sizeof_sockaddr_un :: nat

definition socket_zero :: socket where
  "socket_zero = \<lparr>sk_lock = SPINLOCK_INIT, sk_status = 0, sk_refcount = 0, sk_triggers = 0, localaddr = No_addr, peeraddr = No_addr,
     backlog = [], backlog_max = 0, backlog_i = 0, connect_triggers = 0, sk_state = SOCKET_CREATED, sk_peer = 0, bound = False,
     sk_family = 0, sk_type = 0, sk_protocol = 0, sk_data = [], sk_capacity = 0, sk_read_ptr = 0, sk_write_ptr = 0, sk_used = 0\<rparr>"

definition put_sock :: "u64 \<Rightarrow> (socket \<Rightarrow> socket) \<Rightarrow> ('s, 'm) socks_scheme \<Rightarrow> ('s, 'm) socks_scheme" where
  "put_sock p f s = s\<lparr>sockets := (sockets s)(p := f (sockets s p))\<rparr>"

definition sk_trigger :: "socket \<Rightarrow> socket" where
  "sk_trigger k = k\<lparr>sk_triggers := sk_triggers k + 1\<rparr>"

definition unlock_sock :: "u64 \<Rightarrow> ('s, 'm) socks_scheme \<Rightarrow> ('s, 'm) socks_scheme" where
  "unlock_sock p s = put_sock p (\<lambda>k. k\<lparr>sk_lock := spinlock_release (sk_lock k)\<rparr>) s"

text \<open>How an operation ends: with a result, with an error (\<open>errno\<close> may be left alone), or it waits for an event.\<close>

datatype 'a op = Op_done 'a | Op_error "errno option" | Op_wait

type_synonym ('v, 'a) scall = "('a op \<times> 'v) result option"

definition lock_sock :: "string \<Rightarrow> u64 \<Rightarrow> ('s, 'm) socks_scheme \<Rightarrow> (('s, 'm) socks_scheme \<Rightarrow> 'b result option) \<Rightarrow> 'b result option" where
  "lock_sock caller p s f = obind (Some (spinlock_acquire caller (sk_lock (sockets s p)))) (\<lambda>l. f (put_sock p (\<lambda>k. k\<lparr>sk_lock := l\<rparr>) s))"

text \<open>The functions of a socket: the second argument of most is the flags of the description.\<close>

record 'v sockops =
  so_bind :: "u64 \<Rightarrow> sockaddr \<Rightarrow> 'v \<Rightarrow> ('v, unit) scall"
  so_connect :: "u64 \<Rightarrow> sockaddr \<Rightarrow> 'v \<Rightarrow> ('v, unit) scall"
  so_getpeername :: "u64 \<Rightarrow> nat \<Rightarrow> 'v \<Rightarrow> ('v, sockaddr \<times> nat) scall"
  so_getsockname :: "u64 \<Rightarrow> nat \<Rightarrow> 'v \<Rightarrow> ('v, (sockaddr \<times> nat) option) scall"
  so_listen :: "u64 \<Rightarrow> int \<Rightarrow> 'v \<Rightarrow> ('v, unit) scall"
  so_accept :: "u64 \<Rightarrow> u64 \<Rightarrow> 'v \<Rightarrow> ('v, u64 \<times> sockaddr) scall"
  so_recvmsg :: "u64 \<Rightarrow> u32 \<Rightarrow> u64 list \<Rightarrow> u32 \<Rightarrow> 'v \<Rightarrow> ('v, u8 list list) scall"
  so_sendmsg :: "u64 \<Rightarrow> u32 \<Rightarrow> sockaddr option \<Rightarrow> u8 list list \<Rightarrow> u32 \<Rightarrow> 'v \<Rightarrow> ('v, u64) scall"
  so_getsockopt :: "u64 \<Rightarrow> int \<Rightarrow> int \<Rightarrow> nat \<Rightarrow> 'v \<Rightarrow> ('v, u8 list) scall"
  so_setsockopt :: "u64 \<Rightarrow> int \<Rightarrow> int \<Rightarrow> u8 list \<Rightarrow> 'v \<Rightarrow> ('v, int) scall"

definition op_stub :: "'v \<Rightarrow> ('v, 'a) scall" where
  "op_stub s = Some (Inr (Op_error (Some ENOSYS), s))"

text \<open>The functions \<open>socket_create\<close> installs.\<close>

definition stub_ops :: "'v sockops" where
  "stub_ops = \<lparr>so_bind = (\<lambda>_ _. op_stub), so_connect = (\<lambda>_ _. op_stub), so_getpeername = (\<lambda>_ _. op_stub),
     so_getsockname = (\<lambda>_ _. op_stub), so_listen = (\<lambda>_ _. op_stub), so_accept = (\<lambda>_ _. op_stub),
     so_recvmsg = (\<lambda>_ _ _ _. op_stub), so_sendmsg = (\<lambda>_ _ _ _ _. op_stub), so_getsockopt = (\<lambda>_ _ _ _. op_stub),
     so_setsockopt = (\<lambda>_ _ _ _. op_stub)\<rparr>"

text \<open>
  \<open>socket_create\<close>: \<open>res\<close> is what \<open>resource_create\<close> makes of a block, its address the next the allocator
  returns.
\<close>

definition socket_create ::
  "abi \<Rightarrow> 's resource \<Rightarrow> int \<Rightarrow> u32 \<Rightarrow> int \<Rightarrow> ('s, 'm) socks_scheme \<Rightarrow> u64 \<times> ('s, 'm) socks_scheme" where
  "socket_create a res family ty protocol s =
     (let (p, s1) = vfs_alloc s
      in if p = 0 then (0, s1)
         else (p, put_sock p (\<lambda>_. socket_zero\<lparr>sk_family := family, sk_type := ty, sk_protocol := protocol\<rparr>)
                (s1\<lparr>v_files := on_resource p (\<lambda>_. with_mode (S_IFSOCK a) res) (v_files s1)\<rparr>)))"

subsection \<open>Unix domain sockets\<close>

definition SOCK_BUFFER_SIZE :: nat where
  "SOCK_BUFFER_SIZE = 0x4000"

text \<open>The part of \<open>unix_read\<close> behind its loop.\<close>

definition unix_take :: "abi \<Rightarrow> u64 \<Rightarrow> u64 \<Rightarrow> ('s, 'm) socks_scheme \<Rightarrow> (('s, 'm) socks_scheme, u8 list) scall" where
  "unix_take a this cnt0 s =
     (let k = sockets s this; cnt = (if sk_used k < cnt0 then sk_used k else cnt0)
      in obind (Some (ring_get (sk_data k) (sk_capacity k) (sk_read_ptr k) cnt)) (\<lambda>(bs, new_ptr).
           let s1 = put_sock this (\<lambda>k. k\<lparr>sk_read_ptr := new_ptr, sk_used := sk_used k - cnt\<rparr>) s
           in if sk_peer k = 0 then Some (Inl NullDeref)
              else let s2 = put_sock (sk_peer k) (\<lambda>k. sk_trigger (k\<lparr>sk_status := sk_status k OR POLLOUT a\<rparr>)) s1;
                       s3 = put_sock this (\<lambda>k. k\<lparr>sk_status := sk_status k AND NOT (POLLIN a)\<rparr>) s2
                   in Some (Inr (Op_done bs, unlock_sock this s3))))"

definition unix_read :: "abi \<Rightarrow> u64 \<Rightarrow> u32 \<Rightarrow> u64 \<Rightarrow> ('s, 'm) socks_scheme \<Rightarrow> (('s, 'm) socks_scheme, u8 list) scall" where
  "unix_read a this flags cnt s =
     lock_sock ''unix_read'' this s (\<lambda>s1.
       if sk_used (sockets s1 this) = 0
       then Some (Inr (if flag_on flags (O_NONBLOCK a) then Op_error (Some EWOULDBLOCK) else Op_wait, unlock_sock this s1))
       else unix_take a this cnt s1)"

text \<open>The part of \<open>unix_write\<close> behind its loop; the result is the number of bytes taken.\<close>

definition unix_give :: "abi \<Rightarrow> u64 \<Rightarrow> u8 list \<Rightarrow> ('s, 'm) socks_scheme \<Rightarrow> (('s, 'm) socks_scheme, u64) scall" where
  "unix_give a peer bs s =
     (let k = sockets s peer; cnt0 = of_nat (length bs);
          cnt = (if sk_used k + cnt0 > sk_capacity k then sk_capacity k - sk_used k else cnt0)
      in obind (Some (ring_put (sk_data k) (sk_capacity k) (sk_write_ptr k) (take (unat cnt) bs))) (\<lambda>(d, new_ptr).
           Some (Inr (Op_done cnt, unlock_sock peer (put_sock peer (\<lambda>k. sk_trigger (k\<lparr>sk_data := d, sk_write_ptr := new_ptr,
             sk_used := sk_used k + cnt, sk_status := sk_status k OR POLLIN a\<rparr>)) s)))))"

definition unix_write :: "abi \<Rightarrow> u64 \<Rightarrow> u32 \<Rightarrow> u8 list \<Rightarrow> ('s, 'm) socks_scheme \<Rightarrow> (('s, 'm) socks_scheme, u64) scall" where
  "unix_write a this flags bs s =
     (let peer = sk_peer (sockets s this)
      in if peer = 0 then Some (Inl NullDeref)
         else lock_sock ''unix_write'' peer s (\<lambda>s1.
           if sk_used (sockets s1 peer) = sk_capacity (sockets s1 peer)
           then Some (Inr (if flag_on flags (O_NONBLOCK a) then Op_error (Some EWOULDBLOCK) else Op_wait, unlock_sock peer s1))
           else unix_give a peer bs s1))"

text \<open>When a wait is interrupted the functions leave through their cleanup, which releases the lock.\<close>

definition unix_interrupted :: "u64 \<Rightarrow> ('s, 'm) socks_scheme \<Rightarrow> (('s, 'm) socks_scheme, 'a) scall" where
  "unix_interrupted p s = Some (Inr (Op_error (Some EINTR), unlock_sock p s))"

definition unix_bind ::
  "abi \<Rightarrow> sock_abi \<Rightarrow> (u64 \<Rightarrow> ('s, 'm) socks_scheme fsops) \<Rightarrow> u64 \<Rightarrow> u64 \<Rightarrow> sockaddr \<Rightarrow> ('s, 'm) socks_scheme \<Rightarrow> (('s, 'm) socks_scheme, unit) scall" where
  "unix_bind a sa fops cwd this addr s =
     (case addr of
        Sockaddr_un family path \<Rightarrow>
          if family \<noteq> AF_UNIX sa then Some (Inr (Op_error (Some EINVAL), s))
          else obind (vfs_create a fops cwd (Some path) (S_IFSOCK a) s) (\<lambda>(r, s1).
            case r of
              Inl e \<Rightarrow> Some (Inr (Op_error e, s1))
            | Inr n \<Rightarrow>
                let st_mode = r_mode (resources (v_files s1) (vn_resource (nodes s1 n)));
                    s2 = s1\<lparr>v_files := on_resource this (with_mode st_mode) (v_files s1)\<rparr>;
                    s3 = put_node n (\<lambda>v. v\<lparr>vn_resource := this\<rparr>) s2
                in Some (Inr (Op_done (), put_sock this (\<lambda>k. k\<lparr>localaddr := addr, bound := True\<rparr>) s3)))
      | _ \<Rightarrow> Some (Inr (Op_error (Some EINVAL), s)))"

definition socket_add_to_backlog :: "abi \<Rightarrow> u64 \<Rightarrow> u64 \<Rightarrow> ('s, 'm) socks_scheme \<Rightarrow> (bool \<times> ('s, 'm) socks_scheme) result" where
  "socket_add_to_backlog a sock other s =
     (let k = sockets s sock
      in if backlog_i k = backlog_max k then Inr (False, s)
         else rbind (arr_set (backlog k) (unat (backlog_i k)) other) (\<lambda>bl.
           Inr (True, put_sock sock (\<lambda>k. k\<lparr>sk_status := sk_status k OR POLLIN a, backlog := bl, backlog_i := backlog_i k + 1\<rparr>) s)))"

text \<open>\<open>unix_connect\<close> up to its wait for \<open>connect_event\<close>, and behind it.\<close>

definition unix_connect ::
  "abi \<Rightarrow> sock_abi \<Rightarrow> (u64 \<Rightarrow> ('s, 'm) socks_scheme fsops) \<Rightarrow> u64 \<Rightarrow> u64 \<Rightarrow> sockaddr \<Rightarrow> ('s, 'm) socks_scheme \<Rightarrow> (('s, 'm) socks_scheme, unit) scall" where
  "unix_connect a sa fops cwd this addr s =
     (case addr of
        Sockaddr_un family path \<Rightarrow>
          if family \<noteq> AF_UNIX sa then Some (Inr (Op_error (Some EINVAL), s))
          else obind (vfs_get_node a fops cwd (Some path) True s) (\<lambda>(r, s1).
            case r of
              Inl e \<Rightarrow> Some (Inr (Op_error e, s1))
            | Inr n \<Rightarrow>
                let s2 = put_sock this (\<lambda>k. k\<lparr>localaddr := addr\<rparr>) s1; sock = vn_resource (nodes s2 n)
                in obind (Some (node_mode n s2)) (\<lambda>mode.
                   if \<not> is_type a (S_IFSOCK a) mode then Some (Inr (Op_error (Some ENOTSOCK), s2))
                   else if sk_family (sockets s2 sock) \<noteq> AF_UNIX sa then Some (Inr (Op_error (Some EINVAL), s2))
                   else if sk_state (sockets s2 sock) \<noteq> SOCKET_LISTENING then Some (Inr (Op_error (Some ECONNREFUSED), s2))
                   else lock_sock ''unix_connect'' sock s2 (\<lambda>s3.
                     obind (Some (socket_add_to_backlog a sock this s3)) (\<lambda>(ok, s4).
                       if \<not> ok then Some (Inr (Op_error (Some EAGAIN), unlock_sock sock s4))
                       else Some (Inr (Op_wait, unlock_sock sock (put_sock sock sk_trigger s4)))))))
      | _ \<Rightarrow> Some (Inr (Op_error (Some EINVAL), s)))"

definition unix_connect_end :: "abi \<Rightarrow> u64 \<Rightarrow> u64 \<Rightarrow> ('s, 'm) socks_scheme \<Rightarrow> ('s, 'm) socks_scheme" where
  "unix_connect_end a this sock s =
     put_sock this (\<lambda>k. sk_trigger (k\<lparr>sk_status := sk_status k OR POLLOUT a\<rparr>))
       (put_sock sock (\<lambda>k. k\<lparr>connect_triggers := connect_triggers k + 1\<rparr>) s)"

text \<open>
  Names: the number of bytes written to the caller's buffer of \<open>len\<close> bytes is \<open>len\<close>, or the size of the
  structure when that is larger.  An unbound socket writes nothing.
\<close>

definition name_len :: "sock_abi \<Rightarrow> nat \<Rightarrow> nat" where
  "name_len sa len = (if len < sizeof_sockaddr_un sa then sizeof_sockaddr_un sa else len)"

definition unix_getpeername :: "sock_abi \<Rightarrow> u64 \<Rightarrow> nat \<Rightarrow> ('s, 'm) socks_scheme \<Rightarrow> (('s, 'm) socks_scheme, sockaddr \<times> nat) scall" where
  "unix_getpeername sa this len s = Some (Inr (Op_done (peeraddr (sockets s this), name_len sa len), s))"

definition unix_getsockname :: "sock_abi \<Rightarrow> u64 \<Rightarrow> nat \<Rightarrow> ('s, 'm) socks_scheme \<Rightarrow> (('s, 'm) socks_scheme, (sockaddr \<times> nat) option) scall" where
  "unix_getsockname sa this len s =
     Some (Inr (Op_done (if bound (sockets s this) then Some (localaddr (sockets s this), name_len sa len) else None), s))"

definition unix_listen :: "u64 \<Rightarrow> int \<Rightarrow> ('s, 'm) socks_scheme \<Rightarrow> (('s, 'm) socks_scheme, unit) scall" where
  "unix_listen this n s = Some (Inr (Op_done (), s))"

definition socket_create_unix ::
  "abi \<Rightarrow> sock_abi \<Rightarrow> 's resource \<Rightarrow> u32 \<Rightarrow> int \<Rightarrow> ('s, 'm) socks_scheme \<Rightarrow> (errno option + u64) \<times> ('s, 'm) socks_scheme" where
  "socket_create_unix a sa res ty protocol s =
     (if ty \<noteq> SOCK_STREAM sa then (Inl (Some EINVAL), s)
      else let (p, s1) = socket_create a res (AF_UNIX sa) ty protocol s
           in if p = 0 then (Inl None, s1)
              else (Inr p, put_sock p (\<lambda>k. k\<lparr>sk_data := replicate SOCK_BUFFER_SIZE 0, sk_capacity := of_nat SOCK_BUFFER_SIZE\<rparr>) s1))"

text \<open>
  The name of the new peer is stored where the caller asks for it, which is part of the result here.  The
  source stores it without testing the pointer: a call with a null address, which the interface allows,
  is a null dereference there and no case of this model.
\<close>

definition unix_accept ::
  "abi \<Rightarrow> sock_abi \<Rightarrow> 's resource \<Rightarrow> u64 \<Rightarrow> u64 \<Rightarrow> ('s, 'm) socks_scheme \<Rightarrow> (('s, 'm) socks_scheme, u64 \<times> sockaddr) scall" where
  "unix_accept a sa res this other s =
     (let (r, s1) = socket_create_unix a sa res (sk_type (sockets s this)) (sk_protocol (sockets s this)) s
      in case r of
           Inl e \<Rightarrow> Some (Inr (Op_error e, s1))
         | Inr p \<Rightarrow> Some (Inr (Op_done (p, localaddr (sockets s1 other)),
             put_sock p (\<lambda>k. k\<lparr>sk_peer := other, sk_state := SOCKET_CONNECTED, peeraddr := localaddr (sockets s1 other)\<rparr>) s1)))"


text \<open>Scattering the bytes over the vector of buffers, of the given lengths.\<close>

fun scatter :: "u64 list \<Rightarrow> u8 list \<Rightarrow> u8 list list" where
  "scatter [] bs = []"
| "scatter (n # ns) bs = take (unat n) bs # scatter ns (drop (unat n) bs)"

definition unix_recv_take :: "abi \<Rightarrow> u64 \<Rightarrow> u64 list \<Rightarrow> ('s, 'm) socks_scheme \<Rightarrow> (('s, 'm) socks_scheme, u8 list list) scall" where
  "unix_recv_take a this iov s =
     (let k = sockets s this; cnt0 = sum_list iov; cnt = (if sk_used k < cnt0 then sk_used k else cnt0)
      in obind (Some (ring_get (sk_data k) (sk_capacity k) (sk_read_ptr k) cnt)) (\<lambda>(bs, new_ptr).
           let chunks = scatter iov bs;
               s1 = put_sock this (\<lambda>k. k\<lparr>sk_read_ptr := new_ptr, sk_used := sk_used k - of_nat (length (concat chunks))\<rparr>) s
           in if sk_peer k = 0 then Some (Inl NullDeref)
              else let s2 = put_sock (sk_peer k) (\<lambda>k. sk_trigger (k\<lparr>sk_status := sk_status k OR POLLOUT a\<rparr>)) s1;
                       s3 = put_sock this (\<lambda>k. k\<lparr>sk_status := sk_status k AND NOT (POLLIN a)\<rparr>) s2
                   in Some (Inr (Op_done chunks, unlock_sock this s3))))"

text \<open>The name of the peer is stored as well when the caller asks for it; it is \<open>localaddr\<close> of the peer.\<close>

definition unix_recvmsg ::
  "abi \<Rightarrow> u64 \<Rightarrow> u32 \<Rightarrow> u64 list \<Rightarrow> u32 \<Rightarrow> ('s, 'm) socks_scheme \<Rightarrow> (('s, 'm) socks_scheme, u8 list list) scall" where
  "unix_recvmsg a this dflags iov flags s =
     (if flags \<noteq> 0 then Some (Inl (Panic ''Unix domain sockets don't support flags''))
      else lock_sock ''unix_recvmsg'' this s (\<lambda>s1.
        if sk_used (sockets s1 this) \<noteq> 0 then unix_recv_take a this iov s1
        else if sk_peer (sockets s1 this) = 0 then Some (Inl NullDeref)
        else let s2 = put_sock (sk_peer (sockets s1 this)) (\<lambda>k. sk_trigger (k\<lparr>sk_status := sk_status k OR POLLOUT a\<rparr>)) s1
             in Some (Inr (if flag_on dflags (O_NONBLOCK a) then Op_error (Some EWOULDBLOCK) else Op_wait, unlock_sock this s2))))"

text \<open>The functions \<open>socket_create_unix\<close> installs; the others stay those of \<open>socket_create\<close>.\<close>

definition unix_ops ::
  "abi \<Rightarrow> sock_abi \<Rightarrow> (u64 \<Rightarrow> ('s, 'm) socks_scheme fsops) \<Rightarrow> u64 \<Rightarrow> 's resource \<Rightarrow> ('s, 'm) socks_scheme sockops" where
  "unix_ops a sa fops cwd res = stub_ops\<lparr>so_bind := unix_bind a sa fops cwd, so_connect := unix_connect a sa fops cwd,
     so_getpeername := unix_getpeername sa, so_getsockname := unix_getsockname sa, so_listen := unix_listen,
     so_accept := unix_accept a sa res, so_recvmsg := unix_recvmsg a\<rparr>"

subsection \<open>System calls\<close>

text \<open>
  The calls on a descriptor: \<open>fd_from_fdnum\<close> takes a reference on the description, which is dropped at the
  end of the call; a call that waits keeps it until it is continued.
\<close>

definition drop_desc :: "u64 \<Rightarrow> ('s, 'm) socks_scheme \<Rightarrow> ('s, 'm) socks_scheme" where
  "drop_desc d s = s\<lparr>v_files := put_desc d (\<lambda>d. d\<lparr>d_refcount := d_refcount d - 1\<rparr>) (v_files s)\<rparr>"

definition on_socket ::
  "abi \<Rightarrow> u64 \<Rightarrow> int \<Rightarrow> (u64 \<Rightarrow> u32 \<Rightarrow> ('s, 'm) socks_scheme \<Rightarrow> (('s, 'm) socks_scheme, 'a) scall) \<Rightarrow> ('s, 'm) socks_scheme \<Rightarrow> (('s, 'm) socks_scheme, 'a) scall" where
  "on_socket a proc fdnum body s =
     obind (Some (fd_from_fdnum proc fdnum (v_files s))) (\<lambda>(r, fs).
       let s1 = s\<lparr>v_files := fs\<rparr>
       in case r of
            Inl e \<Rightarrow> Some (Inr (Op_error e, s1))
          | Inr fd \<Rightarrow>
              let d = fd_description (descriptors fs fd); desc = descriptions fs d
              in if \<not> is_type a (S_IFSOCK a) (r_mode (resources fs (d_res desc)))
                 then Some (Inr (Op_error (Some ENOTSOCK), drop_desc d s1))
                 else obind (body (d_res desc) (d_flags desc) s1) (\<lambda>(x, s2).
                   Some (Inr (x, case x of Op_wait \<Rightarrow> s2 | _ \<Rightarrow> drop_desc d s2))))"

text \<open>\<open>then_done\<close> runs its function on the state when the operation has succeeded.\<close>

definition then_done :: "('v, 'a) scall \<Rightarrow> ('a \<Rightarrow> 'v \<Rightarrow> ('v, 'b) scall) \<Rightarrow> ('v, 'b) scall" where
  "then_done m f = obind m (\<lambda>(r, s). case r of Op_done x \<Rightarrow> f x s | Op_error e \<Rightarrow> Some (Inr (Op_error e, s)) | Op_wait \<Rightarrow> Some (Inr (Op_wait, s)))"

definition syscall_bind ::
  "abi \<Rightarrow> (u64 \<Rightarrow> ('s, 'm) socks_scheme sockops) \<Rightarrow> u64 \<Rightarrow> int \<Rightarrow> sockaddr \<Rightarrow> ('s, 'm) socks_scheme \<Rightarrow> (('s, 'm) socks_scheme, unit) scall" where
  "syscall_bind a ops proc fdnum addr s = on_socket a proc fdnum (\<lambda>sock flags s1.
     if sk_state (sockets s1 sock) \<noteq> SOCKET_CREATED then Some (Inr (Op_error (Some EINVAL), s1))
     else then_done (so_bind (ops sock) sock addr s1) (\<lambda>_ s2. Some (Inr (Op_done (), put_sock sock (\<lambda>k. k\<lparr>sk_state := SOCKET_BOUND\<rparr>) s2)))) s"

definition syscall_connect ::
  "abi \<Rightarrow> (u64 \<Rightarrow> ('s, 'm) socks_scheme sockops) \<Rightarrow> u64 \<Rightarrow> int \<Rightarrow> sockaddr \<Rightarrow> ('s, 'm) socks_scheme \<Rightarrow> (('s, 'm) socks_scheme, unit) scall" where
  "syscall_connect a ops proc fdnum addr s = on_socket a proc fdnum (\<lambda>sock flags s1.
     if sk_state (sockets s1 sock) = SOCKET_CONNECTED then Some (Inr (Op_error (Some EISCONN), s1))
     else if sk_state (sockets s1 sock) \<noteq> SOCKET_CREATED then Some (Inr (Op_error (Some EINVAL), s1))
     else then_done (so_connect (ops sock) sock addr s1) (\<lambda>_ s2. Some (Inr (Op_done (), put_sock sock (\<lambda>k. k\<lparr>sk_state := SOCKET_CONNECTED\<rparr>) s2)))) s"

text \<open>The rest of \<open>connect\<close> on a Unix socket when \<open>connect_event\<close> has woken it; \<open>d\<close> is the description.\<close>

definition syscall_connect_end :: "abi \<Rightarrow> u64 \<Rightarrow> u64 \<Rightarrow> u64 \<Rightarrow> ('s, 'm) socks_scheme \<Rightarrow> ('s, 'm) socks_scheme" where
  "syscall_connect_end a d this sock s =
     drop_desc d (put_sock this (\<lambda>k. k\<lparr>sk_state := SOCKET_CONNECTED\<rparr>) (unix_connect_end a this sock s))"

text \<open>The block of the backlog: a negative number asks for more than there is, and the result is not tested.\<close>

definition syscall_listen ::
  "abi \<Rightarrow> (u64 \<Rightarrow> ('s, 'm) socks_scheme sockops) \<Rightarrow> u64 \<Rightarrow> int \<Rightarrow> int \<Rightarrow> ('s, 'm) socks_scheme \<Rightarrow> (('s, 'm) socks_scheme, unit) scall" where
  "syscall_listen a ops proc fdnum n s = on_socket a proc fdnum (\<lambda>sock flags s1.
     if sk_state (sockets s1 sock) \<noteq> SOCKET_BOUND then Some (Inr (Op_error (Some EINVAL), s1))
     else then_done (so_listen (ops sock) sock n s1) (\<lambda>_ s2. Some (Inr (Op_done (), put_sock sock (\<lambda>k. k\<lparr>backlog_max := of_int n,
            backlog := replicate (nat n) 0, sk_state := SOCKET_LISTENING\<rparr>) s2)))) s"

text \<open>Shifting the backlog down by one.\<close>

definition backlog_shift :: "u64 \<Rightarrow> u64 list \<Rightarrow> u64 list result" where
  "backlog_shift n bl = for_range (\<lambda>i bl. rbind (arr_get bl (unat i)) (arr_set bl (unat (i - 1)))) 1 n bl"

text \<open>
  One turn of \<open>accept\<close> on a Unix socket with the socket's lock: \<open>Op_wait\<close> without a connection waits for
  the socket's event; with one, the new socket is returned, and the caller waits for \<open>connect_event\<close>
  with the lock held.
\<close>

definition unix_accept_turn ::
  "abi \<Rightarrow> (u64 \<Rightarrow> ('s, 'm) socks_scheme sockops) \<Rightarrow> u64 \<Rightarrow> u32 \<Rightarrow> ('s, 'm) socks_scheme \<Rightarrow> (('s, 'm) socks_scheme, u64 \<times> sockaddr) scall" where
  "unix_accept_turn a ops sock flags s =
     lock_sock ''syscall_accept'' sock s (\<lambda>s1.
       let k = sockets s1 sock
       in if backlog_i k = 0
          then let s2 = put_sock sock (\<lambda>k. k\<lparr>sk_status := sk_status k AND NOT (POLLIN a)\<rparr>) s1
               in Some (Inr (if flag_on flags (O_NONBLOCK a) then Op_error (Some EWOULDBLOCK) else Op_wait, unlock_sock sock s2))
          else obind (Some (arr_get (backlog k) 0)) (\<lambda>peer.
               obind (Some (backlog_shift (backlog_i k) (backlog k))) (\<lambda>bl.
               let s2 = put_sock sock (\<lambda>k. k\<lparr>backlog := bl, backlog_i := backlog_i k - 1\<rparr>) s1
               in obind (so_accept (ops sock) sock peer s2) (\<lambda>(r, s3).
                  case r of
                    Op_done (conn, addr) \<Rightarrow>
                      let s4 = put_sock peer (\<lambda>k. k\<lparr>sk_refcount := sk_refcount k + 1, sk_peer := conn, sk_state := SOCKET_CONNECTED\<rparr>) s3;
                          s5 = (if backlog_i (sockets s4 sock) = 0 then put_sock sock (\<lambda>k. k\<lparr>sk_status := sk_status k AND NOT (POLLIN a)\<rparr>) s4 else s4)
                      in Some (Inr (Op_done (conn, addr), put_sock peer (\<lambda>k. k\<lparr>connect_triggers := connect_triggers k + 1\<rparr>) s5))
                  | _ \<Rightarrow> Some (Inr (Op_error None, unlock_sock sock s3))))))"

text \<open>The end of \<open>accept\<close>, behind the wait for \<open>connect_event\<close>: a descriptor for the new socket.\<close>

definition unix_accept_end ::
  "abi \<Rightarrow> u64 \<Rightarrow> u64 \<Rightarrow> u64 \<Rightarrow> u64 \<Rightarrow> u64 \<Rightarrow> u64 \<Rightarrow> ('s, 'm) socks_scheme \<Rightarrow> (('s, 'm) socks_scheme, int) scall" where
  "unix_accept_end a dp fp proc d sock conn s =
     obind (Some (fdnum_create_from_resource a dp fp proc conn 0 0 False (v_files s))) (\<lambda>(r, fs).
       let s1 = drop_desc d (unlock_sock sock (s\<lparr>v_files := fs\<rparr>))
       in Some (Inr (case r of Inl e \<Rightarrow> Op_error e | Inr n \<Rightarrow> Op_done n, s1)))"


definition inet_accept_call ::
  "abi \<Rightarrow> (u64 \<Rightarrow> ('s, 'm) socks_scheme sockops) \<Rightarrow> u64 \<Rightarrow> u64 \<Rightarrow> u64 \<Rightarrow> u64 \<Rightarrow> ('s, 'm) socks_scheme \<Rightarrow> (('s, 'm) socks_scheme, int) scall" where
  "inet_accept_call a ops dp fp proc sock s =
     lock_sock ''syscall_accept'' sock s (\<lambda>s1.
       obind (so_accept (ops sock) sock 0 s1) (\<lambda>(r, s2).
         case r of
           Op_done (conn, addr) \<Rightarrow>
             obind (Some (fdnum_create_from_resource a dp fp proc conn 0 0 False (v_files s2))) (\<lambda>(r', fs).
               Some (Inr (case r' of Inl e \<Rightarrow> Op_error e | Inr n \<Rightarrow> Op_done n, unlock_sock sock (s2\<lparr>v_files := fs\<rparr>))))
         | Op_error e \<Rightarrow> Some (Inr (Op_error e, unlock_sock sock s2))
         | Op_wait \<Rightarrow> Some (Inr (Op_wait, s2))))"

text \<open>
  \<open>accept\<close>: a connection on a Unix socket is left waiting as \<open>Inl\<close> of the new socket and the peer's name,
  to be continued by \<open>unix_accept_end\<close>.  A socket of another family does nothing.
\<close>

definition syscall_accept ::
  "abi \<Rightarrow> sock_abi \<Rightarrow> (u64 \<Rightarrow> ('s, 'm) socks_scheme sockops) \<Rightarrow> u64 \<Rightarrow> u64 \<Rightarrow> u64 \<Rightarrow> int \<Rightarrow> ('s, 'm) socks_scheme
    \<Rightarrow> (('s, 'm) socks_scheme, (u64 \<times> sockaddr) + int) scall" where
  "syscall_accept a sa ops dp fp proc fdnum s =
     obind (Some (fd_from_fdnum proc fdnum (v_files s))) (\<lambda>(r, fs).
       let s1 = s\<lparr>v_files := fs\<rparr>
       in case r of
            Inl e \<Rightarrow> Some (Inr (Op_error e, s1))
          | Inr fd \<Rightarrow>
              let d = fd_description (descriptors fs fd); desc = descriptions fs d; sock = d_res desc
              in if \<not> is_type a (S_IFSOCK a) (r_mode (resources fs sock)) then Some (Inr (Op_error (Some ENOTSOCK), drop_desc d s1))
                 else if sk_state (sockets s1 sock) \<noteq> SOCKET_LISTENING then Some (Inr (Op_error (Some EINVAL), drop_desc d s1))
                 else if sk_family (sockets s1 sock) = AF_UNIX sa
                 then obind (unix_accept_turn a ops sock (d_flags desc) s1) (\<lambda>(x, s2).
                        case x of
                          Op_done c \<Rightarrow> Some (Inr (Op_done (Inl c), s2))
                        | Op_error e \<Rightarrow> Some (Inr (Op_error e, drop_desc d s2))
                        | Op_wait \<Rightarrow> Some (Inr (Op_wait, s2)))
                 else if sk_family (sockets s1 sock) = AF_INET sa
                 then obind (inet_accept_call a ops dp fp proc sock s1) (\<lambda>(x, s2).
                        case x of
                          Op_done n \<Rightarrow> Some (Inr (Op_done (Inr n), drop_desc d s2))
                        | Op_error e \<Rightarrow> Some (Inr (Op_error e, drop_desc d s2))
                        | Op_wait \<Rightarrow> Some (Inr (Op_wait, s2)))
                 else Some (Inr (Op_error None, drop_desc d s1)))"

definition syscall_getpeername ::
  "abi \<Rightarrow> (u64 \<Rightarrow> ('s, 'm) socks_scheme sockops) \<Rightarrow> u64 \<Rightarrow> int \<Rightarrow> nat \<Rightarrow> ('s, 'm) socks_scheme \<Rightarrow> (('s, 'm) socks_scheme, sockaddr \<times> nat) scall" where
  "syscall_getpeername a ops proc fdnum len s = on_socket a proc fdnum (\<lambda>sock flags s1.
     if sk_state (sockets s1 sock) \<noteq> SOCKET_CONNECTED then Some (Inr (Op_error (Some ENOTCONN), s1))
     else so_getpeername (ops sock) sock len s1) s"

definition syscall_getsockname ::
  "abi \<Rightarrow> (u64 \<Rightarrow> ('s, 'm) socks_scheme sockops) \<Rightarrow> u64 \<Rightarrow> int \<Rightarrow> nat \<Rightarrow> ('s, 'm) socks_scheme \<Rightarrow> (('s, 'm) socks_scheme, (sockaddr \<times> nat) option) scall" where
  "syscall_getsockname a ops proc fdnum len s = on_socket a proc fdnum (\<lambda>sock flags s1. so_getsockname (ops sock) sock len s1) s"

text \<open>\<open>bufs\<close> are the contents of the caller's vector of buffers, \<open>iov\<close> the lengths of its buffers.\<close>

definition syscall_sendmsg ::
  "abi \<Rightarrow> sock_abi \<Rightarrow> (u64 \<Rightarrow> ('s, 'm) socks_scheme sockops) \<Rightarrow> u64 \<Rightarrow> int \<Rightarrow> sockaddr option \<Rightarrow> u8 list list \<Rightarrow> u32 \<Rightarrow> ('s, 'm) socks_scheme \<Rightarrow> (('s, 'm) socks_scheme, u64) scall" where
  "syscall_sendmsg a sa ops proc fdnum name bufs flags s = on_socket a proc fdnum (\<lambda>sock dflags s1.
     if sk_state (sockets s1 sock) \<noteq> SOCKET_CONNECTED \<and> sk_type (sockets s1 sock) \<noteq> SOCK_DGRAM sa then Some (Inr (Op_error (Some ENOTCONN), s1))
     else so_sendmsg (ops sock) sock dflags name bufs flags s1) s"

definition syscall_recvmsg ::
  "abi \<Rightarrow> sock_abi \<Rightarrow> (u64 \<Rightarrow> ('s, 'm) socks_scheme sockops) \<Rightarrow> u64 \<Rightarrow> int \<Rightarrow> u64 list \<Rightarrow> u32 \<Rightarrow> ('s, 'm) socks_scheme \<Rightarrow> (('s, 'm) socks_scheme, u8 list list) scall" where
  "syscall_recvmsg a sa ops proc fdnum iov flags s = on_socket a proc fdnum (\<lambda>sock dflags s1.
     if sk_state (sockets s1 sock) \<noteq> SOCKET_CONNECTED \<and> sk_type (sockets s1 sock) \<noteq> SOCK_DGRAM sa then Some (Inr (Op_error (Some ENOTCONN), s1))
     else so_recvmsg (ops sock) sock dflags iov flags s1) s"

definition syscall_setsockopt ::
  "abi \<Rightarrow> (u64 \<Rightarrow> ('s, 'm) socks_scheme sockops) \<Rightarrow> u64 \<Rightarrow> int \<Rightarrow> int \<Rightarrow> int \<Rightarrow> u8 list \<Rightarrow> ('s, 'm) socks_scheme \<Rightarrow> (('s, 'm) socks_scheme, int) scall" where
  "syscall_setsockopt a ops proc fdnum level optname optval s = on_socket a proc fdnum (\<lambda>sock flags s1.
     if sk_state (sockets s1 sock) \<noteq> SOCKET_CREATED then Some (Inr (Op_error (Some EINVAL), s1))
     else so_setsockopt (ops sock) sock level optname optval s1) s"

definition syscall_getsockopt ::
  "abi \<Rightarrow> (u64 \<Rightarrow> ('s, 'm) socks_scheme sockops) \<Rightarrow> u64 \<Rightarrow> int \<Rightarrow> int \<Rightarrow> int \<Rightarrow> nat \<Rightarrow> ('s, 'm) socks_scheme \<Rightarrow> (('s, 'm) socks_scheme, u8 list) scall" where
  "syscall_getsockopt a ops proc fdnum level optname optlen s = on_socket a proc fdnum (\<lambda>sock flags s1.
     if sk_state (sockets s1 sock) \<noteq> SOCKET_CREATED then Some (Inr (Op_error (Some EINVAL), s1))
     else so_getsockopt (ops sock) sock level optname optlen s1) s"

definition fd_flags_of :: "abi \<Rightarrow> sock_abi \<Rightarrow> u32 \<Rightarrow> u32" where
  "fd_flags_of a sa ty = (if flag_on ty (SOCK_CLOEXEC sa) then O_CLOEXEC a else 0) OR (if flag_on ty (SOCK_NONBLOCK sa) then O_NONBLOCK a else 0)"

text \<open>\<open>create_tcp\<close> and \<open>create_udp\<close> stand for the functions of the Internet protocols; protocol numbers 6 and 17.\<close>

definition syscall_socket ::
  "abi \<Rightarrow> sock_abi \<Rightarrow> 's resource \<Rightarrow> (u32 \<Rightarrow> int \<Rightarrow> ('s, 'm) socks_scheme \<Rightarrow> (errno option + u64) \<times> ('s, 'm) socks_scheme)
    \<Rightarrow> (u32 \<Rightarrow> int \<Rightarrow> ('s, 'm) socks_scheme \<Rightarrow> (errno option + u64) \<times> ('s, 'm) socks_scheme)
    \<Rightarrow> u64 \<Rightarrow> u64 \<Rightarrow> u64 \<Rightarrow> int \<Rightarrow> u32 \<Rightarrow> int \<Rightarrow> ('s, 'm) socks_scheme \<Rightarrow> (('s, 'm) socks_scheme, int) scall" where
  "syscall_socket a sa res create_tcp create_udp dp fp proc family ty protocol s =
     (let t1 = (if flag_on ty (SOCK_CLOEXEC sa) then ty - SOCK_CLOEXEC sa else ty);
          socktype = (if flag_on ty (SOCK_NONBLOCK sa) then t1 - SOCK_NONBLOCK sa else t1);
          (r, s1) = (if family = AF_UNIX sa then socket_create_unix a sa res socktype protocol s
                     else if family = AF_INET sa
                     then if socktype = SOCK_STREAM sa then create_tcp socktype (if protocol = 0 then 6 else protocol) s
                          else if socktype = SOCK_DGRAM sa then create_udp socktype (if protocol = 0 then 17 else protocol) s
                          else (Inl (Some EINVAL), s)
                     else (Inl (Some EINVAL), s))
      in case r of
           Inl e \<Rightarrow> Some (Inr (Op_error e, s1))
         | Inr sock \<Rightarrow>
             obind (Some (fdnum_create_from_resource a dp fp proc sock (fd_flags_of a sa ty) 0 False (v_files s1))) (\<lambda>(r', fs).
               Some (Inr (case r' of
                            Inl e \<Rightarrow> (Op_error e, s1\<lparr>v_files := free sock fs\<rparr>)
                          | Inr n \<Rightarrow> (Op_done n, s1\<lparr>v_files := fs\<rparr>)))))"

text \<open>\<open>socketpair\<close> uses what \<open>socket_create_unix\<close> returns without testing it, and stores both results of \<open>fdnum_create_from_resource\<close>.\<close>

definition fd_or_minus_one :: "errno option + int \<Rightarrow> int" where
  "fd_or_minus_one r = (case r of Inl _ \<Rightarrow> - 1 | Inr n \<Rightarrow> n)"

definition connect_pair :: "abi \<Rightarrow> u64 \<Rightarrow> u64 \<Rightarrow> ('s, 'm) socks_scheme \<Rightarrow> ('s, 'm) socks_scheme" where
  "connect_pair a p q s =
     put_sock q (\<lambda>k. k\<lparr>sk_peer := p, sk_state := SOCKET_CONNECTED, sk_status := sk_status k OR POLLOUT a\<rparr>)
       (put_sock p (\<lambda>k. k\<lparr>sk_peer := q, sk_state := SOCKET_CONNECTED, sk_status := sk_status k OR POLLOUT a\<rparr>) s)"

definition syscall_socketpair ::
  "abi \<Rightarrow> sock_abi \<Rightarrow> 's resource \<Rightarrow> u64 \<Rightarrow> u64 \<Rightarrow> u64 \<Rightarrow> u64 \<Rightarrow> u64 \<Rightarrow> int \<Rightarrow> u32 \<Rightarrow> int \<Rightarrow> ('s, 'm) socks_scheme
    \<Rightarrow> (('s, 'm) socks_scheme, int \<times> int) scall" where
  "syscall_socketpair a sa res d1 f1 d2 f2 proc domain ty protocol s =
     (if domain \<noteq> AF_UNIX sa then Some (Inr (Op_error (Some EINVAL), s))
      else let (r0, s1) = socket_create_unix a sa res ty protocol s; (r1, s2) = socket_create_unix a sa res ty protocol s1
           in case (r0, r1) of
                (Inr p, Inr q) \<Rightarrow>
                  let s3 = connect_pair a p q s2
                  in obind (Some (fdnum_create_from_resource a d1 f1 proc p (fd_flags_of a sa ty) 0 False (v_files s3))) (\<lambda>(x, fs).
                     obind (Some (fdnum_create_from_resource a d2 f2 proc q (fd_flags_of a sa ty) 0 False fs)) (\<lambda>(y, fs').
                       Some (Inr (Op_done (fd_or_minus_one x, fd_or_minus_one y), s3\<lparr>v_files := fs'\<rparr>))))
              | _ \<Rightarrow> Some (Inl NullDeref))"


subsection \<open>A connection carries a queue of bytes\<close>

definition sock_ring_wf :: "socket \<Rightarrow> bool" where
  "sock_ring_wf k \<longleftrightarrow> ring_wf (sk_data k) (sk_capacity k) (sk_read_ptr k) (sk_write_ptr k) (sk_used k)"

definition sock_bytes :: "socket \<Rightarrow> u8 list" where
  "sock_bytes k = ring_seq (sk_data k) (unat (sk_read_ptr k)) (unat (sk_used k))"

definition sock_room :: "socket \<Rightarrow> nat" where
  "sock_room k = unat (sk_capacity k) - unat (sk_used k)"

text \<open>Two sockets that are each other's peer, with the receiver's lock free.\<close>

definition connected :: "u64 \<Rightarrow> u64 \<Rightarrow> ('s, 'm) socks_scheme \<Rightarrow> bool" where
  "connected x y s \<longleftrightarrow> x \<noteq> 0 \<and> y \<noteq> 0 \<and> x \<noteq> y \<and> sk_peer (sockets s x) = y \<and> sk_peer (sockets s y) = x \<and>
     unlocked (sk_lock (sockets s y)) \<and> sock_ring_wf (sockets s y)"

lemma put_sock_simps [simp]:
  "sockets (put_sock p f s) q = (if q = p then f (sockets s p) else sockets s q)"
  "v_files (put_sock p f s) = v_files s" "nodes (put_sock p f s) = nodes s" "v_fresh (put_sock p f s) = v_fresh s"
  by (simp_all add: put_sock_def)

lemma unlock_sock_simps [simp]:
  "sockets (unlock_sock p s) q = (if q = p then (sockets s p)\<lparr>sk_lock := spinlock_release (sk_lock (sockets s p))\<rparr> else sockets s q)"
  "v_files (unlock_sock p s) = v_files s" "v_fresh (unlock_sock p s) = v_fresh s"
  by (simp_all add: unlock_sock_def)

lemma sk_trigger_simps [simp]:
  "sk_peer (sk_trigger k) = sk_peer k" "sk_lock (sk_trigger k) = sk_lock k" "sk_data (sk_trigger k) = sk_data k"
  "sk_capacity (sk_trigger k) = sk_capacity k" "sk_read_ptr (sk_trigger k) = sk_read_ptr k" "sk_write_ptr (sk_trigger k) = sk_write_ptr k"
  "sk_used (sk_trigger k) = sk_used k" "sk_status (sk_trigger k) = sk_status k" "sk_state (sk_trigger k) = sk_state k"
  by (simp_all add: sk_trigger_def)

lemma lock_sock_unlocked:
  "unlocked (sk_lock (sockets s p)) \<Longrightarrow>
    lock_sock c p s f = f (put_sock p (\<lambda>k. k\<lparr>sk_lock := (sk_lock (sockets s p))\<lparr>lock_word := 1, last_acquirer := c\<rparr>\<rparr>) s)"
  by (simp add: lock_sock_def spinlock_acquire_unlocked)

lemma unix_read_spec:
  assumes "connected x y s"
  shows "\<exists>s'. unix_read a y flags n s = Some (Inr (if sk_used (sockets s y) \<noteq> 0 then Op_done (take (unat n) (sock_bytes (sockets s y)))
      else if flag_on flags (O_NONBLOCK a) then Op_error (Some EWOULDBLOCK) else Op_wait, s')) \<and> connected x y s' \<and>
    sock_bytes (sockets s' y) = drop (unat n) (sock_bytes (sockets s y)) \<and>
    sock_room (sockets s' y) = sock_room (sockets s y) + min (unat n) (length (sock_bytes (sockets s y))) \<and>
    (sk_used (sockets s y) \<noteq> 0 \<longrightarrow> sk_status (sockets s' x) = sk_status (sockets s x) OR POLLOUT a \<and>
       sk_status (sockets s' y) = sk_status (sockets s y) AND NOT (POLLIN a))"
proof -
  let ?k = "sockets s y"
  let ?l = "(sk_lock ?k)\<lparr>lock_word := 1, last_acquirer := ''unix_read''\<rparr>"
  define s0 where "s0 = put_sock y (\<lambda>k. k\<lparr>sk_lock := ?l\<rparr>) s"
  have c: "unlocked (sk_lock ?k)" "sk_peer ?k = x" "x \<noteq> 0" "x \<noteq> y" "sk_peer (sockets s x) = y" "y \<noteq> 0"
    and wf: "ring_wf (sk_data ?k) (sk_capacity ?k) (sk_read_ptr ?k) (sk_write_ptr ?k) (sk_used ?k)"
    using assms by (auto simp: connected_def sock_ring_wf_def)
  have k0: "sockets s0 y = ?k\<lparr>sk_lock := ?l\<rparr>" by (simp add: s0_def)
  then have f: "sk_used (sockets s0 y) = sk_used ?k" "sk_data (sockets s0 y) = sk_data ?k" "sk_capacity (sockets s0 y) = sk_capacity ?k"
    "sk_read_ptr (sockets s0 y) = sk_read_ptr ?k" "sk_peer (sockets s0 y) = sk_peer ?k" by simp_all
  show ?thesis
  proof (cases "sk_used ?k = 0")
    case True
    then have "sock_bytes ?k = []" by (simp add: sock_bytes_def ring_seq_def)
    with True c wf show ?thesis
      by (auto simp: unix_read_def lock_sock_unlocked connected_def sock_ring_wf_def sock_bytes_def sock_room_def ring_seq_def)
  next
    case False
    define cnt where "cnt = (if sk_used ?k < n then sk_used ?k else n)"
    obtain r' where r': "ring_get (sk_data ?k) (sk_capacity ?k) (sk_read_ptr ?k) cnt = Inr (take (unat n) (sock_bytes ?k), r')"
      "ring_wf (sk_data ?k) (sk_capacity ?k) r' (sk_write_ptr ?k) (sk_used ?k - cnt)"
      "ring_seq (sk_data ?k) (unat r') (unat (sk_used ?k - cnt)) = drop (unat n) (sock_bytes ?k)"
      "unat (sk_used ?k - cnt) = unat (sk_used ?k) - min (unat n) (unat (sk_used ?k))"
      using ring_take_step [OF wf cnt_def] by (auto simp: sock_bytes_def)
    define s1 where "s1 = put_sock y (\<lambda>k. k\<lparr>sk_status := sk_status k AND NOT (POLLIN a)\<rparr>)
      (put_sock x (\<lambda>k. sk_trigger (k\<lparr>sk_status := sk_status k OR POLLOUT a\<rparr>))
        (put_sock y (\<lambda>k. k\<lparr>sk_read_ptr := r', sk_used := sk_used k - cnt\<rparr>) s0))"
    have "unix_read a y flags n s = unix_take a y n s0"
      using c(1) False by (simp add: unix_read_def lock_sock_unlocked s0_def)
    also have "\<dots> = Some (Inr (Op_done (take (unat n) (sock_bytes ?k)), unlock_sock y s1))"
      unfolding unix_take_def Let_def f cnt_def [symmetric] r'(1) using c(2,3) by (simp add: s1_def)
    finally show ?thesis
      using False c r' wf
      by (auto simp: s1_def k0 s0_def connected_def sock_ring_wf_def sock_bytes_def sock_room_def ring_wf_def)
  qed
qed


lemma unix_write_spec:
  assumes "connected x y s" "length bs < 9223372036854775808"
  shows "\<exists>s'. unix_write a x flags bs s = Some (Inr (if sock_room (sockets s y) \<noteq> 0
      then Op_done (of_nat (min (length bs) (sock_room (sockets s y))))
      else if flag_on flags (O_NONBLOCK a) then Op_error (Some EWOULDBLOCK) else Op_wait, s')) \<and> connected x y s' \<and>
    sock_bytes (sockets s' y) = sock_bytes (sockets s y) @ take (sock_room (sockets s y)) bs \<and>
    sock_room (sockets s' y) = sock_room (sockets s y) - min (length bs) (sock_room (sockets s y)) \<and>
    (sock_room (sockets s y) \<noteq> 0 \<longrightarrow> sk_status (sockets s' y) = sk_status (sockets s y) OR POLLIN a)"
proof -
  let ?k = "sockets s y"
  let ?l = "(sk_lock ?k)\<lparr>lock_word := 1, last_acquirer := ''unix_write''\<rparr>"
  define s0 where "s0 = put_sock y (\<lambda>k. k\<lparr>sk_lock := ?l\<rparr>) s"
  have c: "unlocked (sk_lock ?k)" "sk_peer ?k = x" "x \<noteq> 0" "x \<noteq> y" "sk_peer (sockets s x) = y" "y \<noteq> 0"
    and wf: "ring_wf (sk_data ?k) (sk_capacity ?k) (sk_read_ptr ?k) (sk_write_ptr ?k) (sk_used ?k)"
    using assms(1) by (auto simp: connected_def sock_ring_wf_def)
  have full: "sk_used ?k = sk_capacity ?k \<longleftrightarrow> sock_room ?k = 0"
    using wf by (auto simp: ring_wf_def sock_room_def word_unat_eq_iff)
  have k0: "sockets s0 y = ?k\<lparr>sk_lock := ?l\<rparr>" by (simp add: s0_def)
  then have f: "sk_used (sockets s0 y) = sk_used ?k" "sk_data (sockets s0 y) = sk_data ?k" "sk_capacity (sockets s0 y) = sk_capacity ?k"
    "sk_write_ptr (sockets s0 y) = sk_write_ptr ?k" by simp_all
  show ?thesis
  proof (cases "sock_room ?k = 0")
    case True
    with full c wf show ?thesis
      by (auto simp: unix_write_def lock_sock_unlocked connected_def sock_ring_wf_def sock_bytes_def sock_room_def)
  next
    case False
    define cnt where "cnt = (if sk_used ?k + of_nat (length bs) > sk_capacity ?k then sk_capacity ?k - sk_used ?k else of_nat (length bs))"
    obtain d' w' where r: "ring_put (sk_data ?k) (sk_capacity ?k) (sk_write_ptr ?k) (take (unat cnt) bs) = Inr (d', w')"
      "ring_wf d' (sk_capacity ?k) (sk_read_ptr ?k) w' (sk_used ?k + cnt)"
      "ring_seq d' (unat (sk_read_ptr ?k)) (unat (sk_used ?k + cnt)) = sock_bytes ?k @ take (sock_room ?k) bs"
      "unat cnt = min (length bs) (sock_room ?k)" "unat (sk_used ?k + cnt) = unat (sk_used ?k) + unat cnt"
      using ring_give_step [OF wf assms(2) cnt_def] by (auto simp: sock_bytes_def sock_room_def)
    define s1 where "s1 = unlock_sock y (put_sock y (\<lambda>k. sk_trigger (k\<lparr>sk_data := d', sk_write_ptr := w',
             sk_used := sk_used k + cnt, sk_status := sk_status k OR POLLIN a\<rparr>)) s0)"
    have "unix_write a x flags bs s = unix_give a y bs s0"
      using c False full by (simp add: unix_write_def lock_sock_unlocked s0_def)
    also have "\<dots> = Some (Inr (Op_done cnt, s1))"
      unfolding unix_give_def Let_def f cnt_def [symmetric] r(1) by (simp add: s1_def)
    finally have run: "unix_write a x flags bs s = Some (Inr (Op_done cnt, s1))" .
    have "cnt = of_nat (min (length bs) (sock_room ?k))" unfolding r(4) [symmetric] by simp
    with run show ?thesis
      using False c r wf by (auto simp: s1_def k0 s0_def connected_def sock_ring_wf_def sock_bytes_def sock_room_def)
  qed
qed


text \<open>A write and a read that do not wait, as the operations of a queue.\<close>

definition conn_put :: "abi \<Rightarrow> u64 \<Rightarrow> u8 list \<Rightarrow> ('s, 'm) socks_scheme \<Rightarrow> (nat \<times> ('s, 'm) socks_scheme) result" where
  "conn_put a x bs s =
     (case unix_write a x (O_NONBLOCK a) bs s of
        None \<Rightarrow> Inl Deadlock
      | Some r \<Rightarrow> rbind r (\<lambda>(x, s'). Inr (case x of Op_done n \<Rightarrow> unat n | _ \<Rightarrow> 0, s')))"

definition conn_get :: "abi \<Rightarrow> u64 \<Rightarrow> u64 \<Rightarrow> ('s, 'm) socks_scheme \<Rightarrow> (u8 list \<times> ('s, 'm) socks_scheme) result" where
  "conn_get a y n s =
     (case unix_read a y (O_NONBLOCK a) n s of
        None \<Rightarrow> Inl Deadlock
      | Some r \<Rightarrow> rbind r (\<lambda>(x, s'). Inr (case x of Op_done bs \<Rightarrow> bs | _ \<Rightarrow> [], s')))"

interpretation unix: byte_queue "connected x y" "\<lambda>s. sock_bytes (sockets s y)" "\<lambda>s. sock_room (sockets s y)" "conn_put a x" "conn_get a y"
  for a x y
proof unfold_locales
  fix s :: "('s, 'm) socks_scheme" and bs :: "u8 list"
  assume c: "connected x y s" and len: "length bs < 9223372036854775808"
  have u: "unat (of_nat (min (length bs) r) :: u64) = min (length bs) r" for r
    using len by (intro unat_of_nat_small) linarith
  show "\<exists>s'. conn_put a x bs s = Inr (min (length bs) (sock_room (sockets s y)), s') \<and> connected x y s' \<and>
    sock_bytes (sockets s' y) = sock_bytes (sockets s y) @ take (sock_room (sockets s y)) bs \<and>
    sock_room (sockets s' y) = sock_room (sockets s y) - min (length bs) (sock_room (sockets s y))"
    using unix_write_spec [OF c len, of a "O_NONBLOCK a"] by (auto simp: conn_put_def u split: if_splits)
next
  fix s :: "('s, 'm) socks_scheme" and n
  assume c: "connected x y s"
  have "sk_used (sockets s y) = 0 \<Longrightarrow> sock_bytes (sockets s y) = []" by (simp add: sock_bytes_def ring_seq_def)
  then show "\<exists>s'. conn_get a y n s = Inr (take (unat n) (sock_bytes (sockets s y)), s') \<and> connected x y s' \<and>
    sock_bytes (sockets s' y) = drop (unat n) (sock_bytes (sockets s y)) \<and>
    sock_room (sockets s' y) = sock_room (sockets s y) + min (unat n) (length (sock_bytes (sockets s y)))"
    using unix_read_spec [OF c, of a "O_NONBLOCK a" n] by (auto simp: conn_get_def split: if_splits)
next
  fix s :: "('s, 'm) socks_scheme"
  assume "connected x y s"
  then show "length (sock_bytes (sockets s y)) + sock_room (sockets s y) < 9223372036854775808"
    by (auto simp: connected_def sock_ring_wf_def ring_wf_def sock_bytes_def sock_room_def)
qed

subsection \<open>From \<open>listen\<close> to a connection\<close>

lemma fresh_ring: "sk_data k = replicate SOCK_BUFFER_SIZE 0 \<Longrightarrow> sk_capacity k = of_nat SOCK_BUFFER_SIZE \<Longrightarrow> sk_read_ptr k = 0 \<Longrightarrow>
    sk_write_ptr k = 0 \<Longrightarrow> sk_used k = 0 \<Longrightarrow> sock_ring_wf k \<and> sock_bytes k = [] \<and> sock_room k = 16384"
  by (simp add: sock_ring_wf_def ring_wf_def sock_bytes_def sock_room_def ring_seq_def SOCK_BUFFER_SIZE_def)

lemma connect_queues:
  assumes "vfs_get_node a fops cwd (Some path) True s = Some (Inr (Inr n, s))" "n \<noteq> 0" "vn_resource (nodes s n) = sock" "sock \<noteq> 0"
    and "is_type a (S_IFSOCK a) (r_mode (resources (v_files s) sock))" "c \<noteq> sock"
    and "sk_family (sockets s sock) = AF_UNIX sa" "sk_state (sockets s sock) = SOCKET_LISTENING" "unlocked (sk_lock (sockets s sock))"
    and "backlog_i (sockets s sock) = 0" "backlog_max (sockets s sock) \<noteq> 0" "length (backlog (sockets s sock)) = unat (backlog_max (sockets s sock))"
  shows "\<exists>l. unlocked l \<and> unix_connect a sa fops cwd c (Sockaddr_un (AF_UNIX sa) path) s = Some (Inr (Op_wait,
      put_sock sock (\<lambda>k. k\<lparr>sk_status := sk_status k OR POLLIN a, backlog := (backlog k)[0 := c], backlog_i := 1,
        sk_triggers := sk_triggers k + 1, sk_lock := l\<rparr>)
      (put_sock c (\<lambda>k. k\<lparr>localaddr := Sockaddr_un (AF_UNIX sa) path\<rparr>) s)))"
proof -
  let ?s2 = "put_sock c (\<lambda>k. k\<lparr>localaddr := Sockaddr_un (AF_UNIX sa) path\<rparr>) s"
  let ?l = "(sk_lock (sockets s sock))\<lparr>lock_word := 1, last_acquirer := ''unix_connect''\<rparr>"
  have "0 < length (backlog (sockets s sock))" using assms(11,12) by (simp add: unat_gt_0)
  then have "unix_connect a sa fops cwd c (Sockaddr_un (AF_UNIX sa) path) s = Some (Inr (Op_wait,
      unlock_sock sock (put_sock sock sk_trigger (put_sock sock (\<lambda>k. k\<lparr>sk_status := sk_status k OR POLLIN a,
        backlog := (backlog (sockets s sock))[0 := c], backlog_i := backlog_i k + 1\<rparr>) (put_sock sock (\<lambda>k. k\<lparr>sk_lock := ?l\<rparr>) ?s2)))))"
    using assms by (simp add: unix_connect_def node_mode_def lock_sock_unlocked socket_add_to_backlog_def Let_def)
  then show ?thesis
    using assms(6,10)
    by (intro exI [of _ "spinlock_release ?l"]) (simp add: put_sock_def unlock_sock_def sk_trigger_def)
qed


lemma backlog_shift_one: "backlog_shift 1 bl = Inr bl"
  by (simp add: backlog_shift_def)

lemma accept_connects:
  assumes "unlocked (sk_lock (sockets s sock))" "backlog_i (sockets s sock) = 1" "0 < length (backlog (sockets s sock))"
    and "backlog (sockets s sock) ! 0 = c" "sk_type (sockets s sock) = SOCK_STREAM sa" "v_fresh s = p # ps" "p \<noteq> 0" "p \<noteq> c" "p \<noteq> sock" "c \<noteq> sock"
    and "so_accept (ops sock) = unix_accept a sa res"
  shows "\<exists>s2. unix_accept_turn a ops sock flags s = Some (Inr (Op_done (p, localaddr (sockets s c)), s2)) \<and>
    sockets s2 p = socket_zero\<lparr>sk_family := AF_UNIX sa, sk_type := SOCK_STREAM sa, sk_protocol := sk_protocol (sockets s sock),
      sk_data := replicate SOCK_BUFFER_SIZE 0, sk_capacity := of_nat SOCK_BUFFER_SIZE, sk_peer := c, sk_state := SOCKET_CONNECTED,
      peeraddr := localaddr (sockets s c)\<rparr> \<and>
    sockets s2 c = (sockets s c)\<lparr>sk_refcount := sk_refcount (sockets s c) + 1, sk_peer := p, sk_state := SOCKET_CONNECTED,
      connect_triggers := connect_triggers (sockets s c) + 1\<rparr> \<and> v_fresh s2 = ps"
proof -
  let ?s1 = "put_sock sock (\<lambda>k. k\<lparr>sk_lock := (sk_lock (sockets s sock))\<lparr>lock_word := 1, last_acquirer := ''syscall_accept''\<rparr>\<rparr>) s"
  let ?s2 = "put_sock sock (\<lambda>k. k\<lparr>backlog := backlog (sockets s sock), backlog_i := backlog_i k - 1\<rparr>) ?s1"
  have create: "socket_create_unix a sa res (SOCK_STREAM sa) protocol ?s2 = (Inr p,
      put_sock p (\<lambda>k. k\<lparr>sk_data := replicate SOCK_BUFFER_SIZE 0, sk_capacity := of_nat SOCK_BUFFER_SIZE\<rparr>)
        (put_sock p (\<lambda>_. socket_zero\<lparr>sk_family := AF_UNIX sa, sk_type := SOCK_STREAM sa, sk_protocol := protocol\<rparr>)
          ((?s2\<lparr>v_fresh := ps\<rparr>)\<lparr>v_files := on_resource p (\<lambda>_. with_mode (S_IFSOCK a) res) (v_files s)\<rparr>)))" for protocol
    using assms(6,7) by (simp add: socket_create_unix_def socket_create_def vfs_alloc_def)
  show ?thesis
    using assms by (simp add: unix_accept_turn_def lock_sock_unlocked Let_def backlog_shift_one unix_accept_def create)
qed


text \<open>
  C32.  A client that connects to the path of a listening Unix socket is put into its backlog and waits;
  \<open>accept\<close> then takes it out, makes a new socket, and connects the two to each other in both directions,
  and what the client writes from then on is what is read, in order, from the new socket.  The name
  \<open>accept\<close> reports is the path the client connected to, which \<open>unix_connect\<close> has stored as the client's
  own name; the client's \<open>peeraddr\<close> is never set.
\<close>

theorem connect_accept_connection:
  assumes "vfs_get_node a fops cwd (Some path) True s = Some (Inr (Inr n, s))" "n \<noteq> 0" "vn_resource (nodes s n) = sock" "sock \<noteq> 0"
    and "is_type a (S_IFSOCK a) (r_mode (resources (v_files s) sock))"
    and "sk_family (sockets s sock) = AF_UNIX sa" "sk_state (sockets s sock) = SOCKET_LISTENING" "unlocked (sk_lock (sockets s sock))"
    and "backlog_i (sockets s sock) = 0" "backlog_max (sockets s sock) \<noteq> 0" "length (backlog (sockets s sock)) = unat (backlog_max (sockets s sock))"
    and "sk_type (sockets s sock) = SOCK_STREAM sa" "so_accept (ops sock) = unix_accept a sa res"
    and "c \<noteq> 0" "c \<noteq> sock" "unlocked (sk_lock (sockets s c))" "sock_ring_wf (sockets s c)"
    and "v_fresh s = p # ps" "p \<noteq> 0" "p \<noteq> c" "p \<noteq> sock" "length bs \<le> 16384"
  shows "\<exists>s1 s2 s3. unix_connect a sa fops cwd c (Sockaddr_un (AF_UNIX sa) path) s = Some (Inr (Op_wait, s1)) \<and>
    unix_accept_turn a ops sock flags s1 = Some (Inr (Op_done (p, Sockaddr_un (AF_UNIX sa) path), s2)) \<and>
    s3 = unix_connect_end a c sock s2 \<and> connected c p s3 \<and> connected p c s3 \<and>
    sk_state (sockets s3 c) = SOCKET_CONNECTED \<and> sk_state (sockets s3 p) = SOCKET_CONNECTED \<and>
    peeraddr (sockets s3 c) = peeraddr (sockets s c) \<and>
    (\<exists>s4 s5. conn_put a c bs s3 = Inr (length bs, s4) \<and> conn_get a p (of_nat (length bs)) s4 = Inr (bs, s5))"
proof -
  from connect_queues [OF assms(1-5) assms(15,6-11)] obtain l where l: "unlocked l"
    and s1: "unix_connect a sa fops cwd c (Sockaddr_un (AF_UNIX sa) path) s = Some (Inr (Op_wait,
      put_sock sock (\<lambda>k. k\<lparr>sk_status := sk_status k OR POLLIN a, backlog := (backlog k)[0 := c], backlog_i := 1,
        sk_triggers := sk_triggers k + 1, sk_lock := l\<rparr>)
      (put_sock c (\<lambda>k. k\<lparr>localaddr := Sockaddr_un (AF_UNIX sa) path\<rparr>) s)))" (is "_ = Some (Inr (_, ?s1))") by blast
  have bl: "0 < length (backlog (sockets s sock))" using assms(10,11) by (simp add: unat_gt_0)
  obtain s2 where s2: "unix_accept_turn a ops sock flags ?s1 = Some (Inr (Op_done (p, localaddr (sockets ?s1 c)), s2))"
    "sockets s2 p = socket_zero\<lparr>sk_family := AF_UNIX sa, sk_type := SOCK_STREAM sa, sk_protocol := sk_protocol (sockets ?s1 sock),
      sk_data := replicate SOCK_BUFFER_SIZE 0, sk_capacity := of_nat SOCK_BUFFER_SIZE, sk_peer := c, sk_state := SOCKET_CONNECTED,
      peeraddr := localaddr (sockets ?s1 c)\<rparr>"
    "sockets s2 c = (sockets ?s1 c)\<lparr>sk_refcount := sk_refcount (sockets ?s1 c) + 1, sk_peer := p, sk_state := SOCKET_CONNECTED,
      connect_triggers := connect_triggers (sockets ?s1 c) + 1\<rparr>"
    using accept_connects [of ?s1 sock c sa p ps ops a res flags] assms l bl by (auto simp: nth_list_update)
  define s3 where "s3 = unix_connect_end a c sock s2"
  have k3: "sockets s3 p = sockets s2 p" "sockets s3 c = sk_trigger ((sockets s2 c)\<lparr>sk_status := sk_status (sockets s2 c) OR POLLOUT a\<rparr>)"
    using assms(15,20,21) by (simp_all add: s3_def unix_connect_end_def)
  have fresh: "sock_ring_wf (sockets s3 p)" "sock_bytes (sockets s3 p) = []" "sock_room (sockets s3 p) = 16384"
    using fresh_ring [of "sockets s3 p"] by (simp_all add: k3(1) s2(2) socket_zero_def)
  have c3: "connected c p s3" using fresh(1) assms(14,15,19,20) by (simp add: connected_def k3 s2 socket_zero_def)
  moreover have "connected p c s3"
    using assms(14-17,19,20) by (auto simp: connected_def k3 s2 socket_zero_def sock_ring_wf_def sk_trigger_def)
  moreover have "sk_state (sockets s3 c) = SOCKET_CONNECTED" "sk_state (sockets s3 p) = SOCKET_CONNECTED"
    "peeraddr (sockets s3 c) = peeraddr (sockets s c)"
    using assms(15) by (simp_all add: k3 s2 sk_trigger_def)
  moreover have "\<exists>s4 s5. conn_put a c bs s3 = Inr (length bs, s4) \<and> conn_get a p (of_nat (length bs)) s4 = Inr (bs, s5)"
    using unix.put_get_all [OF c3 fresh(2), of bs a] fresh(3) assms(22) by auto
  moreover have "localaddr (sockets ?s1 c) = Sockaddr_un (AF_UNIX sa) path" using assms(15) by simp
  ultimately show ?thesis using s1 s2(1) s3_def by auto
qed


definition linux_sock_abi :: sock_abi where
  "linux_sock_abi = \<lparr>AF_UNIX = 1, AF_INET = 2, SOCK_STREAM = 1, SOCK_DGRAM = 2, SOCK_CLOEXEC = 0x80000, SOCK_NONBLOCK = 0x800,
     sizeof_sockaddr_un = 110\<rparr>"

text \<open>A listening socket \<open>0x310\<close> at \<open>f\<close> in the directory \<open>0x210\<close>, and a client \<open>0x330\<close>.\<close>

definition sock_example :: "unit socks" where
  "sock_example = \<lparr>v_files = example_files\<lparr>resources := (\<lambda>r. Resource 1 0 (if r = 0x310 then 0xc000 else 0x41ed) 0 ()
       (r_ops (resource_create (\<lambda>_. 0) ())))\<rparr>,
     nodes = example_nodes False, vfs_root = 0x100, vfs_lock = SPINLOCK_INIT, filesystems = [], desc_node = (\<lambda>_. 0), v_fresh = [0x400],
     sockets = (\<lambda>_. socket_zero\<lparr>sk_family := 1, sk_type := 1, sk_data := replicate SOCK_BUFFER_SIZE 0, sk_capacity := of_nat SOCK_BUFFER_SIZE\<rparr>)
       (0x310 := socket_zero\<lparr>sk_family := 1, sk_type := 1, sk_state := SOCKET_LISTENING, backlog := [0, 0], backlog_max := 2\<rparr>)\<rparr>"

lemma sock_example_lookup:
  "vfs_get_node linux_abi no_ops 0x210 (Some ''f'') True sock_example = Some (Inr (Inr 0x220, sock_example))"
proof -
  define s where "s = sock_example\<lparr>vfs_lock := \<lparr>lock_word = 1, last_acquirer = ''vfs_get_node''\<rparr>\<rparr>"
  have n: "nodes s = example_nodes False" by (simp add: s_def sock_example_def)
  have p: "populate linux_abi no_ops k t = (True, t)" for k and t :: "unit socks" by (simp add: populate_def no_ops_def Let_def)
  have r: "vn_resource (nodes s 0x220) = 0x310" "symlink_target (nodes s 0x220) = None" "redir (nodes s 0x220) = 0" "mountpoint (nodes s 0x220) = 0"
    by (simp_all add: n example_nodes_def vnode_zero_def)
  have "path2node linux_abi no_ops 0x210 (Some ''f'') s = Some (Inr (\<lparr>target_parent = 0x210, target = 0x220, basename = Some ''f''\<rparr>, None, s))"
    using p by (simp add: path2node_def path_start_def example_reduce [OF n] Let_def path_loop.simps path_turn_def found_node_def
      example_children [OF n])
  moreover have "reduce_follow linux_abi no_ops 0x220 s = Some (Inr (0x220, None, s))"
    by (subst reduce_follow.simps) (simp add: r)
  moreover have "spinlock_acquire ''vfs_get_node'' (vfs_lock sock_example) = Inr \<lparr>lock_word = 1, last_acquirer = ''vfs_get_node''\<rparr>"
    by (simp add: sock_example_def SPINLOCK_INIT_def spinlock_acquire_def spinlock_test_and_acq_def)
  ultimately show ?thesis
    by (simp add: vfs_get_node_def lock_vfs_def s_def [symmetric] leave_def unlock_vfs_def)
      (simp add: s_def sock_example_def spinlock_release_def SPINLOCK_INIT_def)
qed


theorem connect_accept_connection_witness:
  "\<exists>s1 s2 s3 s4 s5. unix_connect linux_abi linux_sock_abi no_ops 0x210 0x330 (Sockaddr_un 1 ''f'') sock_example = Some (Inr (Op_wait, s1)) \<and>
    unix_accept_turn linux_abi (\<lambda>_. unix_ops linux_abi linux_sock_abi no_ops 0 (resource_create (\<lambda>_. 0) ())) 0x310 0 s1 =
      Some (Inr (Op_done (0x400, Sockaddr_un 1 ''f''), s2)) \<and>
    s3 = unix_connect_end linux_abi 0x330 0x310 s2 \<and> connected 0x330 0x400 s3 \<and>
    conn_put linux_abi 0x330 [7, 8] s3 = Inr (2, s4) \<and> conn_get linux_abi 0x400 2 s4 = Inr ([7, 8], s5)"
proof -
  let ?ops = "\<lambda>_ :: u64. unix_ops linux_abi linux_sock_abi no_ops 0 (resource_create (\<lambda>_. 0) ()) :: unit socks sockops"
  have "AF_UNIX linux_sock_abi = 1" by (simp add: linux_sock_abi_def)
  note t = connect_accept_connection [OF sock_example_lookup, where sock = "0x310" and c = "0x330" and p = "0x400" and ps = "[]"
      and sa = linux_sock_abi and ops = ?ops and res = "resource_create (\<lambda>_. 0) ()" and bs = "[7, 8]" and flags = 0, unfolded this]
  have "sock_ring_wf (sockets sock_example 0x330)"
    using fresh_ring [of "sockets sock_example 0x330"] by (simp add: sock_example_def socket_zero_def)
  then have "\<exists>s1 s2 s3. unix_connect linux_abi linux_sock_abi no_ops 0x210 0x330 (Sockaddr_un 1 ''f'') sock_example = Some (Inr (Op_wait, s1)) \<and>
    unix_accept_turn linux_abi ?ops 0x310 0 s1 = Some (Inr (Op_done (0x400, Sockaddr_un 1 ''f''), s2)) \<and>
    s3 = unix_connect_end linux_abi 0x330 0x310 s2 \<and> connected 0x330 0x400 s3 \<and> connected 0x400 0x330 s3 \<and>
    sk_state (sockets s3 0x330) = SOCKET_CONNECTED \<and> sk_state (sockets s3 0x400) = SOCKET_CONNECTED \<and>
    peeraddr (sockets s3 0x330) = peeraddr (sockets sock_example 0x330) \<and>
    (\<exists>s4 s5. conn_put linux_abi 0x330 [7, 8] s3 = Inr (length [7, 8 :: u8], s4) \<and>
      conn_get linux_abi 0x400 (of_nat (length [7, 8 :: u8])) s4 = Inr ([7, 8], s5))"
    by (intro t) (simp_all add: sock_example_def socket_zero_def example_nodes_def vnode_zero_def is_type_def linux_abi_def
        linux_sock_abi_def SPINLOCK_INIT_def unix_ops_def)
  then show ?thesis by auto
qed

subsection \<open>Defects\<close>

text \<open>Reading a part of what is there clears the poll flag although bytes remain, so that a poll waits for bytes that are there.\<close>

lemma partial_read_hides_bytes:
  assumes "connected x y s" "unat n < length (sock_bytes (sockets s y))"
  shows "\<exists>bs s'. unix_read a y flags n s = Some (Inr (Op_done bs, s')) \<and> sock_bytes (sockets s' y) \<noteq> [] \<and>
    \<not> flag_on (sk_status (sockets s' y)) (POLLIN a)"
proof -
  have "sk_used (sockets s y) \<noteq> 0" using assms(2) by (auto simp: sock_bytes_def)
  then show ?thesis using unix_read_spec [OF assms(1), of a flags n] assms(2) by auto
qed

text \<open>\<open>socketpair\<close> passes the flags on to \<open>socket_create_unix\<close>, which refuses them, and then uses the null pointer.\<close>

lemma socketpair_with_flags_faults:
  "ty \<noteq> SOCK_STREAM sa \<Longrightarrow> syscall_socketpair a sa res d1 f1 d2 f2 proc (AF_UNIX sa) ty protocol s = Some (Inl NullDeref)"
  by (simp add: syscall_socketpair_def socket_create_unix_def)

text \<open>The names of Unix sockets are written in full into a buffer that is too short for them.\<close>

lemma name_overflows: "len < sizeof_sockaddr_un sa \<Longrightarrow> name_len sa len > len"
  by (simp add: name_len_def)

end
