(* ===== verification/Lyre_Udp.thy ===== *)
theory Lyre_Udp
  imports Lyre_Ifioctl Lyre_Socket
begin

section \<open>UDP sockets (ipc/socket/udp.c)\<close>

text \<open>
  The state of the network with the UDP sockets added: \<open>udp_at\<close> holds a socket's fields by its address,
  \<open>udp_sockets\<close> the vector of sockets that have a port.  A call that waits for the socket's event ends
  with \<open>Op_wait\<close> and is continued by the definition with \<open>_woken\<close> in its name.  A return of \<open>-1\<close> that
  leaves \<open>errno\<close> alone is \<open>Op_error None\<close>.
\<close>

unbundle bit_operations_syntax

subsection \<open>Data\<close>

record udp_packet =
  up_srcip :: u32
  up_srcport :: u16
  up_data :: "u8 list"

record udp_socket =
  us_lock :: spinlock
  us_status :: u32
  us_refcount :: u64
  us_triggers :: nat
  us_localaddr :: sockaddr
  us_peeraddr :: sockaddr
  us_state :: socket_state
  us_bound :: bool
  us_family :: int
  us_type :: u32
  us_protocol :: int
  us_port :: u16
  canbroadcast :: bool
  canroute :: bool
  recenttimestamp :: u32
  us_packets :: "udp_packet list"

record udp = net +
  udp_sockets :: "u64 list"
  udp_socketslock :: spinlock
  udp_at :: "u64 \<Rightarrow> udp_socket"

definition put_udp :: "u64 \<Rightarrow> (udp_socket \<Rightarrow> udp_socket) \<Rightarrow> 'm udp_scheme \<Rightarrow> 'm udp_scheme" where
  "put_udp p f u = u\<lparr>udp_at := (udp_at u)(p := f (udp_at u p))\<rparr>"

definition lock_udp :: "string \<Rightarrow> u64 \<Rightarrow> 'm udp_scheme \<Rightarrow> ('m udp_scheme \<Rightarrow> 'b result option) \<Rightarrow> 'b result option" where
  "lock_udp caller p u f = obind (Some (spinlock_acquire caller (us_lock (udp_at u p)))) (\<lambda>l. f (put_udp p (\<lambda>k. k\<lparr>us_lock := l\<rparr>) u))"

definition unlock_udp :: "u64 \<Rightarrow> 'm udp_scheme \<Rightarrow> 'm udp_scheme" where
  "unlock_udp p u = put_udp p (\<lambda>k. k\<lparr>us_lock := spinlock_release (us_lock k)\<rparr>) u"

definition udp_bytes :: "u16 \<Rightarrow> u16 \<Rightarrow> u16 \<Rightarrow> u8 list \<Rightarrow> u8 list" where
  "udp_bytes srcport destport len data = le16 srcport @ le16 destport @ le16 len @ le16 0 @ data"

subsection \<open>Ports\<close>

definition udp_grabsocket :: "u16 \<Rightarrow> 'm udp_scheme \<Rightarrow> (u64 option \<times> 'm udp_scheme) result" where
  "udp_grabsocket port u =
     rbind (spinlock_acquire ''udp_grabsocket'' (udp_socketslock u)) (\<lambda>l.
       Inr (find (\<lambda>p. us_port (udp_at u p) = port) (udp_sockets u), u\<lparr>udp_socketslock := spinlock_release l\<rparr>))"

definition udp_acquireport :: "u64 \<Rightarrow> u16 \<Rightarrow> 'm udp_scheme \<Rightarrow> (bool \<times> 'm udp_scheme) result" where
  "udp_acquireport this port u =
     (if port = 0 then Inr (False, u)
      else rbind (spinlock_acquire ''udp_acquireport'' (udp_socketslock u)) (\<lambda>l.
        Inr (True, u\<lparr>udp_sockets := udp_sockets u @ [this], udp_socketslock := spinlock_release l\<rparr>)))"

subsection \<open>Reading\<close>

text \<open>The end of \<open>udp_read\<close>, from its second \<open>spinlock_acquire\<close> on.\<close>

definition udp_read_take :: "abi \<Rightarrow> u64 \<Rightarrow> u64 \<Rightarrow> 'm udp_scheme \<Rightarrow> ('m udp_scheme, u8 list) scall" where
  "udp_read_take a this cnt u =
     lock_udp ''udp_read'' this u (\<lambda>u1.
       case us_packets (udp_at u1 this) of
         [] \<Rightarrow> Some (Inl OutOfBounds)
       | packet # packets \<Rightarrow>
           let u2 = put_udp this (\<lambda>k. k\<lparr>us_packets := packets,
                      us_status := (if packets = [] then us_status k AND NOT (POLLIN a) else us_status k)\<rparr>) u1
           in Some (Inr (Op_done (take (unat cnt) (up_data packet)), unlock_udp this u2)))"

definition udp_read :: "abi \<Rightarrow> u64 \<Rightarrow> u32 \<Rightarrow> u64 \<Rightarrow> 'm udp_scheme \<Rightarrow> ('m udp_scheme, u8 list) scall" where
  "udp_read a this flags cnt u =
     lock_udp ''udp_read'' this u (\<lambda>u1.
       if us_packets (udp_at u1 this) = []
       then let u2 = unlock_udp this u1
            in if flag_on flags (O_NONBLOCK a) then Some (Inr (Op_error (Some EWOULDBLOCK), unlock_udp this u2))
               else Some (Inr (Op_wait, u2))
       else udp_read_take a this cnt u1)"

definition udp_read_woken :: "abi \<Rightarrow> u64 \<Rightarrow> u64 \<Rightarrow> 'm udp_scheme \<Rightarrow> ('m udp_scheme, u8 list) scall" where
  "udp_read_woken a this cnt u =
     (if us_packets (udp_at u this) = [] then Some (Inr (Op_wait, u)) else udp_read_take a this cnt u)"

text \<open>The end of \<open>udp_recvmsg\<close>, with the lock held; the result is the data in the caller's buffers and the sender.\<close>

definition udp_recv_take :: "abi \<Rightarrow> u64 \<Rightarrow> u64 list \<Rightarrow> 'm udp_scheme \<Rightarrow> ('m udp_scheme, u8 list list \<times> u32 \<times> u16) scall" where
  "udp_recv_take a this iov u =
     (case us_packets (udp_at u this) of
        [] \<Rightarrow> Some (Inl OutOfBounds)
      | packet # packets \<Rightarrow>
          let cnt0 = sum_list iov;
              cnt = (if of_nat (length (up_data packet)) < cnt0 then of_nat (length (up_data packet)) else cnt0);
              u1 = put_udp this (\<lambda>k. k\<lparr>us_packets := packets,
                     us_status := (if packets = [] then us_status k AND NOT (POLLIN a) else us_status k)\<rparr>) u
          in Some (Inr (Op_done (scatter iov (take (unat cnt) (up_data packet)), up_srcip packet, up_srcport packet), unlock_udp this u1)))"

text \<open>\<open>MSG_DONTWAIT\<close> is a constant of the C library.\<close>

definition udp_recvmsg ::
  "abi \<Rightarrow> u32 \<Rightarrow> u64 \<Rightarrow> u32 \<Rightarrow> u64 list \<Rightarrow> u32 \<Rightarrow> 'm udp_scheme \<Rightarrow> ('m udp_scheme, u8 list list \<times> u32 \<times> u16) scall" where
  "udp_recvmsg a MSG_DONTWAIT this dflags iov flags u =
     lock_udp ''udp_recvmsg'' this u (\<lambda>u1.
       if us_packets (udp_at u1 this) = []
       then let u2 = unlock_udp this u1
            in if flag_on flags MSG_DONTWAIT then Some (Inr (Op_error (Some EAGAIN), u2))
               else if flag_on dflags (O_NONBLOCK a) then Some (Inr (Op_error (Some EWOULDBLOCK), unlock_udp this u2))
               else Some (Inr (Op_wait, u2))
       else udp_recv_take a this iov u1)"

definition udp_recvmsg_woken :: "abi \<Rightarrow> u64 \<Rightarrow> u64 list \<Rightarrow> 'm udp_scheme \<Rightarrow> ('m udp_scheme, u8 list list \<times> u32 \<times> u16) scall" where
  "udp_recvmsg_woken a this iov u =
     (if us_packets (udp_at u this) = [] then Some (Inr (Op_wait, u))
      else lock_udp ''udp_recvmsg'' this u (udp_recv_take a this iov))"

subsection \<open>Writing\<close>

text \<open>As many bytes are sent as the header's length field says.\<close>

definition udp_sendpacket ::
  "'m udp_scheme netenv \<Rightarrow> u64 \<Rightarrow> u32 \<Rightarrow> u32 \<Rightarrow> u16 \<Rightarrow> u16 \<Rightarrow> u8 list \<Rightarrow> 'm udp_scheme \<Rightarrow> ((errno + unit) \<times> 'm udp_scheme) result option" where
  "udp_sendpacket env ad src dest srcport destport buf u =
     (let len = of_nat (8 + length buf) :: u16
      in net_sendinet env ad src dest IPPROTO_UDP (take (unat len) (udp_bytes srcport destport (bswap16 len) buf)) u)"

text \<open>A port for a socket that has none yet.\<close>

definition udp_ensure_port :: "u64 \<Rightarrow> 'm udp_scheme \<Rightarrow> ((errno option + unit) \<times> 'm udp_scheme) result" where
  "udp_ensure_port this u =
     (if us_port (udp_at u this) \<noteq> 0 then Inr (Inr (), u)
      else rbind (net_allocport u) (\<lambda>(p, u1).
        let u2 = put_udp this (\<lambda>k. k\<lparr>us_port := bswap16 p\<rparr>) u1
        in if us_port (udp_at u2 this) = 0 then Inr (Inl (Some EINTR), u2)
           else rbind (udp_acquireport this (bswap16 (us_port (udp_at u2 this))) u2) (\<lambda>(ok, u3).
             Inr (if ok then Inr () else Inl (Some EADDRINUSE), u3))))"

text \<open>
  The common part of \<open>udp_write\<close> and \<open>udp_sendmsg\<close> behind the tests of the address: \<open>Inl (Inl e)\<close> leaves
  through the function's cleanup, \<open>Inl (Inr e)\<close> returns at once.
\<close>

definition local_ip :: "udp_socket \<Rightarrow> u32" where
  "local_ip k = (case us_localaddr k of Sockaddr_in _ _ ip \<Rightarrow> ip | _ \<Rightarrow> 0)"

definition udp_transmit ::
  "'m udp_scheme netenv \<Rightarrow> u64 \<Rightarrow> u32 \<Rightarrow> u16 \<Rightarrow> u8 list \<Rightarrow> 'm udp_scheme \<Rightarrow> (((errno option + errno) + unit) \<times> 'm udp_scheme) result option" where
  "udp_transmit env this dest destport buf u =
     obind (Some (udp_ensure_port this u)) (\<lambda>(r, u1).
       case r of
         Inl e \<Rightarrow> Some (Inr (Inl (Inl e), u1))
       | Inr _ \<Rightarrow>
           let port = us_port (udp_at u1 this)
           in obind (if sock_adapter u1 this = 0
                     then obind (Some (net_route env 0 INADDR_ANY dest u1)) (\<lambda>(r, u2).
                       case r of
                         Inl e \<Rightarrow> Some (Inr (Inl e, u2))
                       | Inr (ad, mac) \<Rightarrow> udp_sendpacket env ad INADDR_ANY dest port destport buf u2)
                     else udp_sendpacket env (sock_adapter u1 this) (local_ip (udp_at u1 this)) dest port destport buf u1) (\<lambda>(r, u3).
                case r of Inl e \<Rightarrow> Some (Inr (Inl (Inr e), u3)) | Inr _ \<Rightarrow> Some (Inr (Inr (), u3))))"

text \<open>The tests of the destination.\<close>

definition udp_dest :: "sock_abi \<Rightarrow> bool \<Rightarrow> sockaddr \<Rightarrow> errno + u32 \<times> u16" where
  "udp_dest sa can_broadcast addr =
     (case addr of
        Sockaddr_in family port ip \<Rightarrow>
          if family \<noteq> AF_INET sa then Inl EINVAL
          else if ip = INADDR_BROADCAST \<and> \<not> can_broadcast then Inl EOPNOTSUPP
          else Inr (ip, port)
      | _ \<Rightarrow> Inl EINVAL)"

text \<open>\<open>ret\<close> is never set in \<open>udp_write\<close>: also a datagram that was sent makes it return \<open>-1\<close>.\<close>

definition udp_write ::
  "abi \<Rightarrow> sock_abi \<Rightarrow> 'm udp_scheme netenv \<Rightarrow> u64 \<Rightarrow> u8 list \<Rightarrow> 'm udp_scheme \<Rightarrow> ('m udp_scheme, u64) scall" where
  "udp_write a sa env this buf u =
     (if us_state (udp_at u this) \<noteq> SOCKET_CONNECTED then Some (Inr (Op_error (Some ENOTCONN), u))
      else case udp_dest sa (canbroadcast (udp_at u this)) (us_peeraddr (udp_at u this)) of
             Inl e \<Rightarrow> Some (Inr (Op_error (Some e), u))
           | Inr (ip, port) \<Rightarrow> obind (udp_transmit env this ip port buf u) (\<lambda>(r, u1).
               case r of
                 Inl (Inl e) \<Rightarrow> Some (Inr (Op_error e, u1))
               | Inl (Inr e) \<Rightarrow> Some (Inr (Op_error (Some e), u1))
               | Inr _ \<Rightarrow> Some (Inr (Op_error None, put_udp this (\<lambda>k. k\<lparr>us_status := us_status k OR POLLOUT a\<rparr>) u1))))"

text \<open>\<open>udp_sendmsg\<close> holds the socket's lock; the returns behind \<open>net_route\<close> and \<open>udp_sendpacket\<close> keep it.\<close>

definition udp_sendmsg ::
  "abi \<Rightarrow> sock_abi \<Rightarrow> 'm udp_scheme netenv \<Rightarrow> u64 \<Rightarrow> sockaddr option \<Rightarrow> u8 list list \<Rightarrow> 'm udp_scheme \<Rightarrow> ('m udp_scheme, u64) scall" where
  "udp_sendmsg a sa env this name bufs u =
     lock_udp ''udp_sendmsg'' this u (\<lambda>u1.
       let k = udp_at u1 this
       in if us_state k \<noteq> SOCKET_CONNECTED \<and> name = None then Some (Inr (Op_error (Some EDESTADDRREQ), unlock_udp this u1))
          else case udp_dest sa (canbroadcast k) (if us_state k = SOCKET_CONNECTED then us_peeraddr k else the name) of
                 Inl e \<Rightarrow> Some (Inr (Op_error (Some e), unlock_udp this u1))
               | Inr (ip, port) \<Rightarrow> obind (udp_transmit env this ip port (concat bufs) u1) (\<lambda>(r, u2).
                   case r of
                     Inl (Inl e) \<Rightarrow> Some (Inr (Op_error e, unlock_udp this u2))
                   | Inl (Inr e) \<Rightarrow> Some (Inr (Op_error (Some e), u2))
                   | Inr _ \<Rightarrow> Some (Inr (Op_done (of_nat (length (concat bufs))),
                       unlock_udp this (put_udp this (\<lambda>k. k\<lparr>us_status := us_status k OR POLLOUT a\<rparr>) u2)))))"

subsection \<open>Addresses\<close>

definition udp_connect :: "abi \<Rightarrow> u64 \<Rightarrow> sockaddr \<Rightarrow> 'm udp_scheme \<Rightarrow> ('m udp_scheme, unit) scall" where
  "udp_connect a this addr u =
     lock_udp ''udp_connect'' this u (\<lambda>u1.
       let u2 = put_udp this (\<lambda>k. k\<lparr>us_peeraddr := addr, us_state := SOCKET_CONNECTED, us_status := us_status k OR POLLIN a OR POLLOUT a\<rparr>) u1
       in Some (Inr (Op_done (), put_udp this (\<lambda>k. k\<lparr>us_triggers := us_triggers k + 1\<rparr>) (unlock_udp this u2))))"

text \<open>\<open>udp_bind\<close> stores \<open>-EADDRNOTAVAIL\<close> in \<open>errno\<close> for an address no adapter has.\<close>

definition udp_bind :: "sock_abi \<Rightarrow> u64 \<Rightarrow> sockaddr \<Rightarrow> 'm udp_scheme \<Rightarrow> ('m udp_scheme, unit) scall" where
  "udp_bind sa this addr u =
     (case addr of
        Sockaddr_in family port ip \<Rightarrow>
          if family \<noteq> AF_INET sa then Some (Inr (Op_error (Some EINVAL), u))
          else if ip \<noteq> INADDR_ANY \<and> net_findadapterbyip ip u = 0 then Some (Inr (Op_error (Some Negated_EADDRNOTAVAIL), u))
          else obind (Some (if ip = INADDR_ANY
                            then if sock_adapter u this \<noteq> 0 then net_unbindsocket (sock_adapter u this) this u else Inr u
                            else net_bindsocket (net_findadapterbyip ip u) this u)) (\<lambda>u1.
               let u2 = put_udp this (\<lambda>k. k\<lparr>us_localaddr := addr, us_port := port\<rparr>) u1
               in obind (Some (if port \<noteq> 0 then Inr u2
                               else rbind (net_allocport u2) (\<lambda>(p, u3). Inr (put_udp this (\<lambda>k. k\<lparr>us_port := bswap16 p\<rparr>) u3)))) (\<lambda>u4.
                  obind (Some (udp_acquireport this (bswap16 (us_port (udp_at u4 this))) u4)) (\<lambda>(ok, u5).
                    if ok then Some (Inr (Op_done (), put_udp this (\<lambda>k. k\<lparr>us_bound := True\<rparr>) u5))
                    else obind (Some (if sock_adapter u5 this \<noteq> 0 then net_unbindsocket (sock_adapter u5 this) this u5 else Inr u5))
                           (\<lambda>u6. Some (Inr (Op_error (Some EINVAL), u6))))))
      | _ \<Rightarrow> Some (Inr (Op_error (Some EINVAL), u)))"

text \<open>The bytes written to the caller's buffer of \<open>len\<close> bytes, as in \<open>unix_getpeername\<close>; \<open>struct sockaddr_in\<close> has 16.\<close>

definition in_name_len :: "nat \<Rightarrow> nat" where
  "in_name_len len = (if len < 16 then 16 else len)"

definition udp_getpeername :: "u64 \<Rightarrow> nat \<Rightarrow> 'm udp_scheme \<Rightarrow> ('m udp_scheme, sockaddr \<times> nat) scall" where
  "udp_getpeername this len u =
     (if us_state (udp_at u this) \<noteq> SOCKET_CONNECTED then Some (Inr (Op_error (Some ENOTCONN), u))
      else Some (Inr (Op_done (us_peeraddr (udp_at u this), in_name_len len), u)))"

definition udp_getsockname :: "u64 \<Rightarrow> nat \<Rightarrow> 'm udp_scheme \<Rightarrow> ('m udp_scheme, (sockaddr \<times> nat) option) scall" where
  "udp_getsockname this len u =
     Some (Inr (Op_done (if us_bound (udp_at u this) then Some (us_localaddr (udp_at u this), in_name_len len) else None), u))"

subsection \<open>Datagrams from the network\<close>

text \<open>\<open>now\<close> is \<open>time_monotonic.tv_sec\<close>.  The data of a packet of \<open>length\<close> bytes are copied from \<open>buf\<close>.\<close>

definition udp_netpacket :: "abi \<Rightarrow> u32 \<Rightarrow> u64 \<Rightarrow> u32 \<Rightarrow> u16 \<Rightarrow> u8 list \<Rightarrow> nat \<Rightarrow> 'm udp_scheme \<Rightarrow> 'm udp_scheme result option" where
  "udp_netpacket a now this src srcport buf len u =
     obind (Some (copy_from buf 0 len)) (\<lambda>data.
     lock_udp ''udp_netpacket'' this u (\<lambda>u1.
       let u2 = unlock_udp this (put_udp this (\<lambda>k. k\<lparr>us_packets := us_packets k @ [\<lparr>up_srcip = src, up_srcport = srcport, up_data = data\<rparr>]\<rparr>) u1)
       in Some (Inr (put_udp this (\<lambda>k. k\<lparr>us_status := us_status k OR POLLIN a, us_triggers := us_triggers k + 1, recenttimestamp := now\<rparr>) u2))))"

text \<open>
  The answer of \<open>udp_onudp\<close> to a datagram for a port nobody has: a block of \<open>len + 20\<close> bytes gets four
  bytes of ICMP header, twenty bytes from the stack (\<open>&inetheader\<close> is the address of the variable) and
  as many bytes of the packet as the Internet header's length says.
\<close>

definition port_unreachable ::
  "'m udp_scheme netenv \<Rightarrow> u8 list \<Rightarrow> u64 \<Rightarrow> net_inetheader \<Rightarrow> u8 list \<Rightarrow> u64 \<Rightarrow> 'm udp_scheme \<Rightarrow> 'm udp_scheme result option" where
  "port_unreachable env stack ad h body len u =
     (let iplen = unat (bswap16 (ip_len h))
      in obind (Some (copy_into (replicate (unat len + 20) 0) 0 [3, 3, 0, 0])) (\<lambda>b1.
         obind (Some (copy_into b1 4 (take 20 stack))) (\<lambda>b2.
         obind (Some (copy_from body 0 iplen)) (\<lambda>data.
         obind (Some (copy_into b2 24 data)) (\<lambda>b3.
         obind (Some (copy_into b3 2 (le16 (net_checksum (take (24 + iplen) b3))))) (\<lambda>b4.
           obind (net_sendinet env ad (na_ip (adapter_at u ad)) (ip_src h) IPPROTO_ICMP (take (unat len) b4) u) (\<lambda>(_, u1). Some (Inr u1))))))))"

text \<open>\<open>len\<close> is the length by the Internet header, \<open>body\<close> the bytes received behind that header.\<close>

definition udp_onudp :: "abi \<Rightarrow> 'm udp_scheme netenv \<Rightarrow> u32 \<Rightarrow> u8 list \<Rightarrow> 'm udp_scheme inet_handler" where
  "udp_onudp a env now stack ad h body len u =
     (if len < 8 then Some (Inr u)
      else if length body < 8 then Some (Inl OutOfBounds)
      else let srcport = get16 body 0; destport = get16 body 2; hlen = bswap16 (get16 body 4)
           in if ucast hlen > len then Some (Inr u)
              else obind (Some (udp_grabsocket destport u)) (\<lambda>(sock, u1).
                case sock of
                  Some p \<Rightarrow> udp_netpacket a now p (ip_src h) srcport (drop 8 body) (unat hlen) u1
                | None \<Rightarrow> port_unreachable env stack ad h body len u1))"

subsection \<open>Closing, options, creation\<close>

definition udp_unref :: "u64 \<Rightarrow> 'm udp_scheme \<Rightarrow> 'm udp_scheme result option" where
  "udp_unref this u =
     (let u1 = put_udp this (\<lambda>k. k\<lparr>us_refcount := us_refcount k - 1\<rparr>) u
      in if us_refcount (udp_at u1 this) \<noteq> 0 then Some (Inr u1)
         else obind (if sock_adapter u1 this = 0 then Some (Inr u1)
                     else lock_udp ''udp_unref'' this u1 (\<lambda>u2.
                            obind (Some (net_unbindsocket (sock_adapter u2 this) this u2)) (\<lambda>u3. Some (Inr (unlock_udp this u3))))) (\<lambda>u4.
              obind (Some (spinlock_acquire ''udp_unref'' (udp_socketslock u4))) (\<lambda>l.
                let u5 = u4\<lparr>udp_sockets := (if this \<in> set (udp_sockets u4) then remove1 this (udp_sockets u4) else udp_sockets u4),
                            udp_socketslock := spinlock_release l\<rparr>
                in Some (net_releaseport (bswap16 (us_port (udp_at u5 this))) u5))))"

text \<open>
  Options of Internet sockets (\<open>net_getsockopt\<close> and \<open>net_setsockopt\<close> of \<open>dev/net/net.c\<close>).  The option
  names are constants of the C library.  A value is written to the caller's buffer; \<open>strncpy\<close> fills it
  up to the length given.  A pair of a value and an error stands for a call that returns that value and
  sets \<open>errno\<close>.
\<close>

datatype sockopt = SO_ACCEPTCONN | SO_BINDTODEVICE | SO_BROADCAST | SO_DONTROUTE | SO_other int

definition bool_byte :: "bool \<Rightarrow> u8" where
  "bool_byte b = (if b then 1 else 0)"

text \<open>The fields of an Internet socket (\<open>struct inetsocket\<close>) these functions look at.\<close>

record inetsocket =
  in_family :: int
  in_protocol :: int
  in_state :: socket_state
  in_canbroadcast :: bool
  in_canroute :: bool

definition net_getsockopt :: "sock_abi \<Rightarrow> u64 \<Rightarrow> sockopt \<Rightarrow> nat \<Rightarrow> inetsocket \<Rightarrow> 'm net_scheme \<Rightarrow> (errno + u8 list) result" where
  "net_getsockopt sa this optname optlen k u =
     (if in_family k \<noteq> AF_INET sa then Inr (Inl EINVAL)
      else case optname of
             SO_ACCEPTCONN \<Rightarrow>
               if in_protocol k \<noteq> uint IPPROTO_TCP then Inr (Inl EINVAL)
               else Inr (Inr [bool_byte (in_state k = SOCKET_LISTENING)])
           | SO_BINDTODEVICE \<Rightarrow>
               if sock_adapter u this = 0 then Inl NullDeref
               else Inr (Inr (strncpy_bytes (ifname (adapter_at u (sock_adapter u this))) optlen))
           | SO_BROADCAST \<Rightarrow> Inr (Inr [bool_byte (in_canbroadcast k)])
           | _ \<Rightarrow> Inr (Inl EINVAL))"

definition net_setsockopt ::
  "sock_abi \<Rightarrow> u64 \<Rightarrow> sockopt \<Rightarrow> u8 list \<Rightarrow> inetsocket \<Rightarrow> 'm net_scheme \<Rightarrow> ((int \<times> errno option) \<times> inetsocket \<times> 'm net_scheme) result" where
  "net_setsockopt sa this optname optval k u =
     (if in_family k \<noteq> AF_INET sa then Inr ((- 1, Some EINVAL), k, u)
      else case optname of
             SO_BROADCAST \<Rightarrow> rbind (arr_get optval 0) (\<lambda>b. Inr ((0, Some EINVAL), k\<lparr>in_canbroadcast := b \<noteq> 0\<rparr>, u))
           | SO_BINDTODEVICE \<Rightarrow>
               (case find (\<lambda>ad. ifname_matches optval (ifname (adapter_at u ad))) (net_adapters u) of
                  Some ad \<Rightarrow> rbind (net_bindsocket ad this u) (\<lambda>u1. Inr ((0, None), k, u1))
                | None \<Rightarrow> Inr ((0, Some EINVAL), k, u))
           | SO_DONTROUTE \<Rightarrow> rbind (arr_get optval 0) (\<lambda>b. Inr ((0, None), k\<lparr>in_canroute := b \<noteq> 0\<rparr>, u))
           | _ \<Rightarrow> Inr ((0, Some EINVAL), k, u))"

text \<open>The results of these two are not looked at: with \<open>SOL_SOCKET\<close> (the first argument) the calls return 0.\<close>

definition udp_inet :: "udp_socket \<Rightarrow> inetsocket" where
  "udp_inet k = \<lparr>in_family = us_family k, in_protocol = us_protocol k, in_state = us_state k,
     in_canbroadcast = canbroadcast k, in_canroute = canroute k\<rparr>"

definition udp_getsockopt :: "int \<Rightarrow> sock_abi \<Rightarrow> u64 \<Rightarrow> int \<Rightarrow> sockopt \<Rightarrow> nat \<Rightarrow> 'm udp_scheme \<Rightarrow> ('m udp_scheme, u8 list) scall" where
  "udp_getsockopt SOL_SOCKET sa this level optname optlen u =
     (if level \<noteq> SOL_SOCKET then Some (Inr (Op_error (Some EINVAL), u))
      else obind (Some (net_getsockopt sa this optname optlen (udp_inet (udp_at u this)) u)) (\<lambda>r.
        Some (Inr (Op_done (case r of Inl _ \<Rightarrow> [] | Inr val \<Rightarrow> val), u))))"

definition udp_setsockopt :: "int \<Rightarrow> sock_abi \<Rightarrow> u64 \<Rightarrow> int \<Rightarrow> sockopt \<Rightarrow> u8 list \<Rightarrow> 'm udp_scheme \<Rightarrow> ('m udp_scheme, int) scall" where
  "udp_setsockopt SOL_SOCKET sa this level optname optval u =
     (if level \<noteq> SOL_SOCKET then Some (Inr (Op_error (Some EINVAL), u))
      else obind (Some (net_setsockopt sa this optname optval (udp_inet (udp_at u this)) u)) (\<lambda>(_, k', u1).
        Some (Inr (Op_done 0, put_udp this (\<lambda>k. k\<lparr>canbroadcast := in_canbroadcast k', canroute := in_canroute k'\<rparr>) u1))))"

text \<open>\<open>p\<close> is the address \<open>socket_create\<close> returns; the block is cleared, \<open>SOCKET_CREATED\<close> is 0.\<close>

definition udp_zero :: udp_socket where
  "udp_zero = \<lparr>us_lock = SPINLOCK_INIT, us_status = 0, us_refcount = 0, us_triggers = 0, us_localaddr = No_addr, us_peeraddr = No_addr,
     us_state = SOCKET_CREATED, us_bound = False, us_family = 0, us_type = 0, us_protocol = 0, us_port = 0, canbroadcast = False,
     canroute = False, recenttimestamp = 0, us_packets = []\<rparr>"

definition socket_create_udp :: "sock_abi \<Rightarrow> u64 \<Rightarrow> u32 \<Rightarrow> int \<Rightarrow> 'm udp_scheme \<Rightarrow> (errno option + u64) \<times> 'm udp_scheme" where
  "socket_create_udp sa p ty protocol u =
     (if protocol \<noteq> uint IPPROTO_UDP then (Inl (Some EPROTOTYPE), u)
      else if p = 0 then (Inl None, u)
      else (Inr p, put_udp p (\<lambda>_. udp_zero\<lparr>us_status := 0, us_family := AF_INET sa, us_type := ty, us_protocol := protocol, us_packets := []\<rparr>)
              (u\<lparr>sock_adapter := (sock_adapter u)(p := 0)\<rparr>)))"


subsection \<open>A datagram from the network\<close>

lemma put_udp_simps [simp]:
  "udp_at (put_udp p f u) q = (if q = p then f (udp_at u p) else udp_at u q)"
  "udp_sockets (put_udp p f u) = udp_sockets u" "udp_socketslock (put_udp p f u) = udp_socketslock u"
  by (simp_all add: put_udp_def)

lemma unlock_udp_simps [simp]:
  "udp_at (unlock_udp p u) q = (if q = p then (udp_at u p)\<lparr>us_lock := spinlock_release (us_lock (udp_at u p))\<rparr> else udp_at u q)"
  by (simp add: unlock_udp_def)

lemma put_adapter_udp [simp]:
  "udp_at (put_adapter ad f u) = udp_at u" "udp_sockets (put_adapter ad f u) = udp_sockets u"
  "udp_socketslock (put_adapter ad f u) = udp_socketslock u"
  by (simp_all add: put_adapter_def)

lemma lock_udp_unlocked:
  "unlocked (us_lock (udp_at u p)) \<Longrightarrow>
   lock_udp caller p u f = f (put_udp p (\<lambda>k. k\<lparr>us_lock := (us_lock k)\<lparr>lock_word := 1, last_acquirer := caller\<rparr>\<rparr>) u)"
  by (simp add: lock_udp_def put_udp_def spinlock_acquire_unlocked)

lemma udp_bytes_fields:
  "get16 (udp_bytes sp dp len data @ padding) 0 = sp" "get16 (udp_bytes sp dp len data @ padding) 2 = dp"
  "get16 (udp_bytes sp dp len data @ padding) 4 = len" "drop 8 (udp_bytes sp dp len data @ padding) = data @ padding"
  "length (udp_bytes sp dp len data) = 8 + length data"
  using get16_le16 [of "[]" 0 sp "le16 dp @ le16 len @ le16 0 @ data @ padding"]
    get16_le16 [of "le16 sp" 2 dp "le16 len @ le16 0 @ data @ padding"]
    get16_le16 [of "le16 sp @ le16 dp" 4 len "le16 0 @ data @ padding"]
  by (simp_all add: udp_bytes_def)

text \<open>What \<open>udp_onudp\<close> does with a datagram whose length field is right.\<close>

lemma onudp_datagram:
  assumes "length data < 65528" "8 + length data \<le> unat len" "unlocked (udp_socketslock u)"
    and "body = udp_bytes sp dp (bswap16 (of_nat (8 + length data))) data @ padding"
  shows "\<exists>l. unlocked l \<and> udp_onudp a env now stack ad h body len u =
    (case find (\<lambda>p. us_port (udp_at u p) = dp) (udp_sockets u) of
       Some p \<Rightarrow> udp_netpacket a now p (ip_src h) sp (data @ padding) (8 + length data) (u\<lparr>udp_socketslock := l\<rparr>)
     | None \<Rightarrow> port_unreachable env stack ad h body len (u\<lparr>udp_socketslock := l\<rparr>))"
proof -
  let ?l = "spinlock_release ((udp_socketslock u)\<lparr>lock_word := 1, last_acquirer := ''udp_grabsocket''\<rparr>)"
  let ?hlen = "of_nat (8 + length data) :: u16"
  have n: "unat ?hlen = 8 + length data" using assms(1) by (simp only: unat_of_nat) simp
  then have "unat (ucast ?hlen :: u64) = 8 + length data" by (simp only: unat_ucast_up)
  then have c: "\<not> len < 8" "\<not> ucast ?hlen > len" "\<not> length body < 8"
    using assms(2) by (simp_all add: word_less_nat_alt assms(4) udp_bytes_fields(5) del: of_nat_add)
  show ?thesis
    unfolding udp_onudp_def Let_def assms(4) udp_bytes_fields(1-4) bswap16_bswap16 n
    using c assms(3) by (intro exI [of _ ?l])
      (simp add: assms(4) udp_grabsocket_def spinlock_acquire_unlocked del: of_nat_add)
qed

text \<open>
  A datagram with \<open>data\<close> for a bound port arrives in the socket's queue and wakes its waiters, but
  eight bytes too many are copied, since the length field counts the header: the bytes that happen to
  follow the datagram in memory go to the receiver as data, and when fewer than eight follow, the copy
  leaves the packet's memory.
\<close>

theorem udp_datagram_trailing_bytes:
  assumes "length data < 65528" "8 + length data \<le> unat len" "unlocked (udp_socketslock u)"
    and "find (\<lambda>p. us_port (udp_at u p) = dp) (udp_sockets u) = Some p" "unlocked (us_lock (udp_at u p))"
    and "us_packets (udp_at u p) = []" "iov = of_nat (8 + length data)"
    and "body = udp_bytes sp dp (bswap16 (of_nat (8 + length data))) data @ padding"
  shows "if length padding < 8 then udp_onudp a env now stack ad h body len u = Some (Inl OutOfBounds)
    else \<exists>u' u''. udp_onudp a env now stack ad h body len u = Some (Inr u') \<and>
      us_triggers (udp_at u' p) = us_triggers (udp_at u p) + 1 \<and>
      udp_recvmsg a dontwait p dflags [iov] flags u' = Some (Inr (Op_done ([data @ take 8 padding], ip_src h, sp), u''))"
proof -
  obtain l where "unlocked l" and step: "udp_onudp a env now stack ad h body len u =
      udp_netpacket a now p (ip_src h) sp (data @ padding) (8 + length data) (u\<lparr>udp_socketslock := l\<rparr>)"
    using onudp_datagram [OF assms(1-3,8), of a env now stack ad h] assms(4) by auto
  have n: "unat iov = 8 + length data" unfolding assms(7) using assms(1) by (simp only: unat_of_nat) simp
  show ?thesis
  proof (cases "length padding < 8")
    case True
    then show ?thesis by (simp add: step udp_netpacket_def copy_from_def)
  next
    case False
    then have "copy_from (data @ padding) 0 (8 + length data) = Inr (data @ take 8 padding)" by (simp add: copy_from_def)
    with False n show ?thesis
      by (simp add: step udp_netpacket_def lock_udp_unlocked assms(5,6) udp_recvmsg_def udp_recv_take_def Let_def
        assms(7) [symmetric] add.commute [of "length data"] del: of_nat_add)
  qed
qed


definition udp_example :: udp where
  "udp_example = \<lparr>net_adapters = [1],
     adapter_at = (\<lambda>_. adapter_zero\<lparr>na_ip := 0x0100007f, subnetmask := 0xff, na_type := 3, ifname := ''lo''\<rparr>),
     net_ethcount = 0, net_portbitmap = [], net_portbitmaplock = SPINLOCK_INIT, net_reassemblemeta = [], sock_adapter = (\<lambda>_. 0),
     udp_sockets = [7], udp_socketslock = SPINLOCK_INIT, udp_at = (\<lambda>_. udp_zero\<lparr>us_port := 5\<rparr>)\<rparr>"

definition udp_silent :: "udp netenv" where
  "udp_silent = \<lparr>txpacket = (\<lambda>_ _ n. Inr n), net_sleep = (\<lambda>_ n. n), freed_header = (\<lambda>h. h)\<rparr>"

theorem udp_datagram_trailing_bytes_witness:
  "\<exists>u' u''. udp_onudp linux_abi udp_silent 0 [] 1 packet_example
      (udp_bytes 9 5 (bswap16 10) [1, 2] @ [11, 12, 13, 14, 15, 16, 17, 18, 19]) 10 udp_example = Some (Inr u') \<and>
    us_triggers (udp_at u' 7) = us_triggers (udp_at udp_example 7) + 1 \<and>
    udp_recvmsg linux_abi 64 7 0 [10] 0 u' =
      Some (Inr (Op_done ([[1, 2, 11, 12, 13, 14, 15, 16, 17, 18]], ip_src packet_example, 9), u''))"
proof -
  let ?body = "udp_bytes 9 5 (bswap16 (of_nat (8 + length [1, 2 :: u8]))) [1, 2] @ [11, 12, 13, 14, 15, 16, 17, 18, 19]"
  have "if length [11, 12, 13, 14, 15, 16, 17, 18, 19 :: u8] < 8
      then udp_onudp linux_abi udp_silent 0 [] 1 packet_example ?body 10 udp_example = Some (Inl OutOfBounds)
      else \<exists>u' u''. udp_onudp linux_abi udp_silent 0 [] 1 packet_example ?body 10 udp_example = Some (Inr u') \<and>
        us_triggers (udp_at u' 7) = us_triggers (udp_at udp_example 7) + 1 \<and>
        udp_recvmsg linux_abi 64 7 0 [10] 0 u' =
          Some (Inr (Op_done ([[1, 2] @ take 8 [11, 12, 13, 14, 15, 16, 17, 18, 19]], ip_src packet_example, 9), u''))"
    by (rule udp_datagram_trailing_bytes [where p = 7]) (simp_all add: udp_example_def udp_zero_def)
  then show ?thesis by simp
qed

text \<open>A datagram with nothing behind it is never handled, bound port or not.\<close>

lemma onudp_exact:
  assumes "length data < 65508" "unat len = 8 + length data" "unlocked (udp_socketslock u)" "length stack = 20"
    and "unat (bswap16 (ip_len h)) = 28 + length data" "body = udp_bytes sp dp (bswap16 (of_nat (8 + length data))) data"
  shows "udp_onudp a env now stack ad h body len u = Some (Inl OutOfBounds)"
  using onudp_datagram [of data len u body sp dp "[]" a env now stack ad h] assms
  by (auto simp: udp_netpacket_def port_unreachable_def copy_from_def copy_into_def Let_def udp_bytes_fields(5)
    simp del: of_nat_add split: option.splits)

text \<open>
  C34.  No datagram can be sent to an address of the machine itself: it is put into the queue of the
  adapter with that address, and when that adapter's thread takes it out, the kernel reads beyond the
  packet's memory, whether the port is bound or not and whatever is sent.
\<close>

theorem udp_to_self_overreads:
  assumes "is_eth ad u" "ad \<noteq> 0" "dest \<noteq> INADDR_BROADCAST" "on_link (adapter_at u ad) dest"
    and "net_findadapterbyip dest u = b" "b \<noteq> 0" "is_eth b u" "na_cache (adapter_at u b) = []" "unlocked (cachelock (adapter_at u b))"
    and "length (na_mac (adapter_at u ad)) = 6" "length (na_mac (adapter_at u b)) = 6"
    and "unlocked (udp_socketslock u)" "length data < 65508" "length stack = 20"
  shows "\<exists>u'. udp_sendpacket env ad (na_ip (adapter_at u ad)) dest sp dp data u = Some (Inr (Inr (), u')) \<and>
    length (na_cache (adapter_at u' b)) = 1 \<and>
    net_ifhandler env tcp (udp_onudp a env now stack) b u' = Some (Inl OutOfBounds)"
proof -
  let ?hlen = "of_nat (8 + length data) :: u16"
  let ?body = "udp_bytes sp dp (bswap16 ?hlen) data"
  have n: "unat ?hlen = 8 + length data" using assms(13) by (simp only: unat_of_nat) simp
  have whole: "take (unat ?hlen) ?body = ?body" unfolding n by (simp add: udp_bytes_fields(5))
  define u' where "u' l = put_adapter b (\<lambda>d. d\<lparr>na_cache := na_cache d @
       [etherframe_bytes (na_mac (adapter_at u b)) (na_mac (adapter_at u ad)) (bswap16 NET_ETHPROTOIPV4) @ inet_packet ad dest IPPROTO_UDP ?body u],
       cachelock := l, packet_triggers := packet_triggers d + 1\<rparr>) (put_adapter ad (\<lambda>d. d\<lparr>ipframe := ipframe d + 1\<rparr>) u)" for l
  obtain l where l: "unlocked l" and sent: "udp_sendpacket env ad (na_ip (adapter_at u ad)) dest sp dp data u = Some (Inr (Inr (), u' l))"
    unfolding udp_sendpacket_def Let_def whole u'_def using send_to_own_adapter_state [OF assms(1-6,9)] by blast
  have eth: "is_eth b (u' l)" "unlocked (cachelock (adapter_at (u' l) b))" using assms(7) l by (auto simp: u'_def is_eth_def)
  have q: "na_cache (adapter_at (u' l) b) = [etherframe_bytes (na_mac (adapter_at u b)) (na_mac (adapter_at u ad)) (bswap16 NET_ETHPROTOIPV4) @
      inet_packet ad dest IPPROTO_UDP ?body u]"
    using assms(8) by (auto simp: u'_def)
  have small: "length ?body < 65516" using assms(13) by (simp add: udp_bytes_fields(5))
  obtain l2 h where h: "unat (bswap16 (ip_len h)) = 20 + length ?body" and e: "net_ifhandler env tcp (udp_onudp a env now stack) b (u' l) =
      udp_onudp a env now stack b h ?body (of_nat (length ?body)) (put_adapter b (\<lambda>d. d\<lparr>na_cache := [], cachelock := l2\<rparr>) (u' l))"
    using sent_packet_handled [OF eth assms(11,10) small q, of env tcp "udp_onudp a env now stack"]
    by (auto simp: Let_def IPPROTO_UDP_def IPPROTO_ICMP_def IPPROTO_TCP_def)
  have len: "unat (of_nat (length ?body) :: u64) = 8 + length data"
    using small unfolding udp_bytes_fields(5) by (intro unat_of_nat_small) simp
  have unl: "unlocked (udp_socketslock (put_adapter b (\<lambda>d. d\<lparr>na_cache := [], cachelock := l2\<rparr>) (u' l)))"
    using assms(12) by (simp add: u'_def)
  have "net_ifhandler env tcp (udp_onudp a env now stack) b (u' l) = Some (Inl OutOfBounds)"
    unfolding e by (rule onudp_exact [OF assms(13) len unl assms(14) _ refl]) (use h in \<open>simp add: udp_bytes_fields(5)\<close>)
  with sent q show ?thesis by auto
qed

theorem udp_to_self_overreads_witness:
  "\<exists>u'. udp_sendpacket udp_silent 1 0x0100007f 0x0100007f 9 5 [1, 2] udp_example = Some (Inr (Inr (), u')) \<and>
    length (na_cache (adapter_at u' 1)) = 1 \<and>
    net_ifhandler udp_silent (\<lambda>_ _ _ _ n. Some (Inr n)) (udp_onudp linux_abi udp_silent 0 (replicate 20 0)) 1 u' = Some (Inl OutOfBounds)"
proof -
  have ip: "na_ip (adapter_at udp_example 1) = 0x0100007f" by (simp add: udp_example_def)
  show ?thesis
    by (rule udp_to_self_overreads [where ad = 1 and u = udp_example, unfolded ip])
      (simp_all add: udp_example_def adapter_zero_def is_eth_def NET_ADAPTERETH_def net_findadapterbyip_def on_link_def INADDR_BROADCAST_def)
qed

subsection \<open>Reading and writing\<close>

text \<open>\<open>udp_read\<close> takes the lock it already holds when there is a datagram.\<close>

lemma udp_read_deadlocks:
  "us_packets (udp_at u this) \<noteq> [] \<Longrightarrow> udp_read a this flags cnt u = Some (Inl Deadlock)"
  by (cases "unlocked (us_lock (udp_at u this))")
    (simp_all add: udp_read_def udp_read_take_def lock_udp_def spinlock_acquire_locked spinlock_acquire_unlocked)

text \<open>A caller that waits gets the datagram: behind its loop the lock is free.\<close>

lemma udp_read_woken_takes:
  assumes "us_packets (udp_at u this) = packet # packets" "unlocked (us_lock (udp_at u this))"
  shows "\<exists>u'. udp_read_woken a this cnt u = Some (Inr (Op_done (take (unat cnt) (up_data packet)), u')) \<and>
    us_packets (udp_at u' this) = packets"
  using assms by (simp add: udp_read_woken_def udp_read_take_def lock_udp_unlocked Let_def)

text \<open>\<open>udp_write\<close> reports a failure for every datagram, also for one that was sent.\<close>

lemma udp_write_never_done: "udp_write a sa env this buf u \<noteq> Some (Inr (Op_done n, u'))"
  by (auto simp: udp_write_def obind_Inr split: sum.splits)

text \<open>After an error in routing, \<open>udp_sendmsg\<close> returns with the lock held: the next call on the socket waits for ever.\<close>

lemma udp_sendmsg_error_keeps_lock:
  assumes "unlocked (us_lock (udp_at u this))" "us_state (udp_at u this) = SOCKET_CONNECTED" "us_port (udp_at u this) \<noteq> 0"
    and "us_peeraddr (udp_at u this) = Sockaddr_in (AF_INET sa) port ip" "ip \<noteq> INADDR_BROADCAST"
    and "sock_adapter u this = 0" "net_adapters u = []"
  shows "\<exists>u'. udp_sendmsg a sa env this name bufs u = Some (Inr (Op_error (Some ENETUNREACH), u')) \<and>
    udp_sendmsg a sa env this name bufs u' = Some (Inl Deadlock)"
  using assms by (simp add: udp_sendmsg_def lock_udp_unlocked udp_dest_def udp_transmit_def udp_ensure_port_def net_route_def
    Let_def lock_udp_def spinlock_acquire_locked spinlock_acquire_unlocked put_udp_def)

end
