(* ===== verification/Lyre_Tcp.thy ===== *)
theory Lyre_Tcp
  imports Lyre_Segment Lyre_Udp Lyre_Time
begin

section \<open>TCP sockets (ipc/socket/tcp.c)\<close>

text \<open>
  The state of the network with the TCP sockets added, by their addresses.  \<open>ts_freed\<close> says that a socket
  has been given back to the allocator, \<open>rq_block\<close> what has become of the memory of its retransmission
  queue: a run that uses either then ends with \<open>UseAfterFree\<close>.  The locks \<open>busyon\<close> and \<open>lock\<close> of a socket
  are modelled; \<open>statelock\<close>, \<open>retransmitlock\<close>, the lock of the receive buffer and \<open>tcp_socketslock\<close> are left
  out, since no path takes one of them twice.  What the rest of the system provides is the record
  \<open>tcpenv\<close>: the clock, a random number, the address \<open>socket_create\<close> returns and the one \<open>alloc\<close> returns for
  the data of a packet.  A call that waits ends with \<open>Op_wait\<close>.
\<close>

unbundle bit_operations_syntax

subsection \<open>Data\<close>

datatype tcp_state =
    TCP_STATECLOSED | TCP_STATELISTEN | TCP_STATESYNSENT | TCP_STATESYNRECV | TCP_STATEESTABLISHED | TCP_STATECLOSEWAIT
  | TCP_STATEFINWAIT1 | TCP_STATECLOSING | TCP_STATELASTACK | TCP_STATEFINWAIT2 | TCP_STATETIMEWAIT

datatype tcp_eventstate = TCP_EVENTSTATEDATA | TCP_EVENTSTATERESET | TCP_EVENTSTATECLOSED

record tcp_connection =
  tc_local :: u32
  tc_remote :: u32
  tc_localport :: u16
  tc_remoteport :: u16

record tcp_retransmitentry =
  re_first :: timespec
  re_last :: timespec
  re_rto :: int
  re_seq :: u32
  re_flags :: u8
  re_data :: "u8 list"

datatype block = Block_null | Block_live | Block_freed

record tcp_socket =
  ts_lock :: spinlock
  busyon :: spinlock
  ts_status :: u32
  ts_refcount :: u64
  ts_triggers :: nat
  ts_connect_triggers :: nat
  ts_localaddr :: sockaddr
  ts_peeraddr :: sockaddr
  ts_backlog :: "u64 list"
  ts_backlog_max :: u64
  ts_backlog_i :: u64
  ts_state :: socket_state
  ts_bound :: bool
  ts_family :: int
  ts_type :: u32
  ts_protocol :: int
  ts_port :: u16
  ts_canbroadcast :: bool
  ts_canroute :: bool
  ts_conn :: tcp_connection
  ts_parent :: u64
  tcpstate :: tcp_state
  timewaittimer :: timespec
  connecttimeout :: timespec
  retransmitqueue :: "tcp_retransmitentry list"
  rq_block :: block
  eventstate :: tcp_eventstate
  ts_opts :: tcp_opts
  snduna :: u32
  sndnxt :: u32
  sndwl1 :: u32
  sndwl2 :: u32
  sndis :: u32
  sndwnd :: u32
  rcvwnd :: u32
  rcvnxt :: u32
  rcvis :: u32
  lastack :: u32
  rcvbuf :: tcp_stream
  ts_freed :: bool

record tcp = udp +
  tcp_sockets :: "u64 list"
  tcp_at :: "u64 \<Rightarrow> tcp_socket"

record tcpenv =
  te_now :: timespec
  te_random :: u32
  te_fresh :: u64
  te_dptr :: u64

type_synonym 'u tstep = "(bool \<times> 'u) result option"

definition put_tcp :: "u64 \<Rightarrow> (tcp_socket \<Rightarrow> tcp_socket) \<Rightarrow> 'm tcp_scheme \<Rightarrow> 'm tcp_scheme" where
  "put_tcp p f u = u\<lparr>tcp_at := (tcp_at u)(p := f (tcp_at u p))\<rparr>"

definition lock_busy :: "string \<Rightarrow> u64 \<Rightarrow> 'm tcp_scheme \<Rightarrow> ('m tcp_scheme \<Rightarrow> 'b result option) \<Rightarrow> 'b result option" where
  "lock_busy caller p u f =
     (if ts_freed (tcp_at u p) then Some (Inl UseAfterFree)
      else obind (Some (spinlock_acquire caller (busyon (tcp_at u p)))) (\<lambda>l. f (put_tcp p (\<lambda>k. k\<lparr>busyon := l\<rparr>) u)))"

definition unlock_busy :: "u64 \<Rightarrow> 'm tcp_scheme \<Rightarrow> 'm tcp_scheme" where
  "unlock_busy p u = put_tcp p (\<lambda>k. k\<lparr>busyon := spinlock_release (busyon k)\<rparr>) u"

definition tcp_setstate :: "u64 \<Rightarrow> tcp_state \<Rightarrow> 'm tcp_scheme \<Rightarrow> 'm tcp_scheme" where
  "tcp_setstate p st u = put_tcp p (\<lambda>k. k\<lparr>tcpstate := st\<rparr>) u"

definition tcp_getstate :: "u64 \<Rightarrow> 'm tcp_scheme \<Rightarrow> tcp_state" where
  "tcp_getstate p u = tcpstate (tcp_at u p)"

definition ts_trigger :: "u64 \<Rightarrow> 'm tcp_scheme \<Rightarrow> 'm tcp_scheme" where
  "ts_trigger p u = put_tcp p (\<lambda>k. k\<lparr>ts_triggers := ts_triggers k + 1\<rparr>) u"

definition ts_connect_trigger :: "u64 \<Rightarrow> 'm tcp_scheme \<Rightarrow> 'm tcp_scheme" where
  "ts_connect_trigger p u = put_tcp p (\<lambda>k. k\<lparr>ts_connect_triggers := ts_connect_triggers k + 1\<rparr>) u"

subsection \<open>Finding sockets\<close>

fun grab_scan :: "tcp_connection \<Rightarrow> 'm tcp_scheme \<Rightarrow> u64 list \<Rightarrow> u64 option result" where
  "grab_scan conn u [] = Inr None"
| "grab_scan conn u (p # ps) =
     (if ts_freed (tcp_at u p) then Inl UseAfterFree else if ts_conn (tcp_at u p) = conn then Inr (Some p) else grab_scan conn u ps)"

definition tcp_grabsocket :: "tcp_connection \<Rightarrow> 'm tcp_scheme \<Rightarrow> u64 option result" where
  "tcp_grabsocket conn u = grab_scan conn u (tcp_sockets u)"

definition tcp_tryfindsocket :: "tcp_connection \<Rightarrow> 'm tcp_scheme \<Rightarrow> u64 option result" where
  "tcp_tryfindsocket conn u =
     rbind (tcp_grabsocket conn u) (\<lambda>r1.
       case r1 of Some p \<Rightarrow> Inr (Some p)
       | None \<Rightarrow>
           let conn2 = conn\<lparr>tc_remote := INADDR_ANY, tc_remoteport := 0\<rparr>
           in rbind (tcp_grabsocket conn2 u) (\<lambda>r2.
                case r2 of Some p \<Rightarrow> Inr (Some p)
                | None \<Rightarrow> tcp_grabsocket (conn2\<lparr>tc_local := INADDR_ANY\<rparr>) u))"

text \<open>The port and the address a \<open>struct sockaddr_in\<close> reads in an address of any family.\<close>

definition addr_fields :: "sockaddr \<Rightarrow> u16 \<times> u32" where
  "addr_fields addr =
     (case addr of
        No_addr \<Rightarrow> (0, 0)
      | Sockaddr_in _ port ip \<Rightarrow> (port, ip)
      | Sockaddr_un _ path \<Rightarrow> let bs = map (\<lambda>c. of_char c) path @ replicate 6 0 in (get16 bs 0, get32 bs 2))"

definition tcp_acquireport :: "u64 \<Rightarrow> u16 \<Rightarrow> 'm tcp_scheme \<Rightarrow> bool \<times> 'm tcp_scheme" where
  "tcp_acquireport sock port u =
     (if port = 0 then (False, u)
      else let conn = \<lparr>tc_local = snd (addr_fields (ts_localaddr (tcp_at u sock))), tc_remote = INADDR_ANY,
                       tc_localport = bswap16 port, tc_remoteport = 0\<rparr>
           in (True, (put_tcp sock (\<lambda>k. k\<lparr>ts_conn := conn\<rparr>) u)\<lparr>tcp_sockets := tcp_sockets u @ [sock]\<rparr>))"

subsection \<open>Sending\<close>

definition tcp_queueforretransmit :: "tcpenv \<Rightarrow> u64 \<Rightarrow> u32 \<Rightarrow> u8 \<Rightarrow> u8 list \<Rightarrow> 'm tcp_scheme \<Rightarrow> 'm tcp_scheme result" where
  "tcp_queueforretransmit te this seq flags data u =
     (if rq_block (tcp_at u this) = Block_freed then Inl UseAfterFree
      else Inr (put_tcp this (\<lambda>k. k\<lparr>rq_block := Block_live, retransmitqueue := retransmitqueue k @
        [\<lparr>re_first = te_now te, re_last = te_now te, re_rto = 200000, re_seq = seq, re_flags = flags, re_data = data\<rparr>]\<rparr>) u))"

text \<open>
  The loop of \<open>tcp_queuecleanup\<close> at index \<open>i\<close>: an entry that is removed moves the next one to its index,
  which is then passed over.
\<close>

function clean_loop :: "u32 \<Rightarrow> nat \<Rightarrow> tcp_retransmitentry list \<Rightarrow> tcp_retransmitentry list" where
  "clean_loop una i q =
     (if i \<ge> length q \<or> re_seq (q ! i) \<ge> una then q else clean_loop una (i + 1) (take i q @ drop (i + 1) q))"
  by pat_completeness auto
termination
  by (relation "measure (\<lambda>(una, i, q). length q - i)") auto

declare clean_loop.simps [simp del]

text \<open>Behind the loop the memory of the vector is freed and the vector goes on using it; freeing it a second time is a fault.\<close>

definition tcp_queuecleanup :: "u64 \<Rightarrow> 'm tcp_scheme \<Rightarrow> 'm tcp_scheme result" where
  "tcp_queuecleanup this u =
     (case rq_block (tcp_at u this) of
        Block_freed \<Rightarrow> Inl UseAfterFree
      | Block_null \<Rightarrow> Inr u
      | Block_live \<Rightarrow> Inr (put_tcp this (\<lambda>k. k\<lparr>retransmitqueue := clean_loop (snduna k) 0 (retransmitqueue k), rq_block := Block_freed\<rparr>) u))"

definition tcp_settimewait :: "tcpenv \<Rightarrow> u64 \<Rightarrow> 'm tcp_scheme \<Rightarrow> 'm tcp_scheme" where
  "tcp_settimewait te this u = put_tcp this (\<lambda>k. k\<lparr>timewaittimer := timespec_add (te_now te) \<lparr>tv_sec = 12, tv_nsec = 0\<rparr>\<rparr>) u"

text \<open>The options of a segment: time stamps when the socket has agreed on them, the segment size with a \<open>SYN\<close>.\<close>

definition segment_options :: "tcpenv \<Rightarrow> u64 \<Rightarrow> u8 \<Rightarrow> tcp_opts option \<Rightarrow> 'm tcp_scheme \<Rightarrow> u8 list" where
  "segment_options te ad flags opts u =
     (case opts of
        Some t \<Rightarrow> if op_ts t then le32 (bswap32 0x0101080a) @ le32 (bswap32 (of_int (tv_sec (te_now te)))) @ le32 (bswap32 (op_recent t)) else []
      | None \<Rightarrow> []) @
     (if flags AND F_SYN \<noteq> 0
      then [TCP_OPTMSS, 4] @ le16 (bswap16 (ucast (mtu (adapter_at u ad) - of_nat (NET_LINKLAYERFRAMESIZE ad u + 80)))) else [])"

definition segment_bytes :: "u32 \<Rightarrow> tcp_connection \<Rightarrow> u32 \<Rightarrow> u32 \<Rightarrow> u8 \<Rightarrow> u16 \<Rightarrow> u8 list \<Rightarrow> u8 list \<Rightarrow> u8 list" where
  "segment_bytes ip conn seq ack flags window opts data =
     (let h = \<lparr>th_srcport = tc_localport conn, th_destport = tc_remoteport conn, th_sequence = bswap32 seq, th_acknumber = bswap32 ack,
               th_doff = of_nat ((TCPHEADER_SIZE + length opts) div 4), th_flags = flags, th_winsize = bswap16 window\<rparr>;
          bytes = (\<lambda>csum. tcpheader_bytes h csum @ opts @ data)
      in bytes (tcp_checksum ip (tc_remote conn) (bytes 0) (of_nat (length (bytes 0)))))"

definition tcp_sendsegment ::
  "'m tcp_scheme netenv \<Rightarrow> tcpenv \<Rightarrow> u64 \<Rightarrow> u32 \<Rightarrow> u32 \<Rightarrow> u8 \<Rightarrow> u16 \<Rightarrow> u8 list \<Rightarrow> tcp_connection \<Rightarrow> tcp_opts option \<Rightarrow> 'm tcp_scheme
    \<Rightarrow> ((errno + unit) \<times> 'm tcp_scheme) result option" where
  "tcp_sendsegment env te ad seq ack flags window data conn opts u =
     (if ad = 0 then Some (Inl NullDeref)
      else net_sendinet env ad (na_ip (adapter_at u ad)) (tc_remote conn) IPPROTO_TCP
             (segment_bytes (na_ip (adapter_at u ad)) conn seq ack flags window (segment_options te ad flags opts u) data) u)"

definition tcp_send ::
  "'m tcp_scheme netenv \<Rightarrow> tcpenv \<Rightarrow> u64 \<Rightarrow> u8 \<Rightarrow> u8 list \<Rightarrow> 'm tcp_scheme \<Rightarrow> ((errno + unit) \<times> 'm tcp_scheme) result option" where
  "tcp_send env te this flags data u =
     (let k = tcp_at u this;
          seq = (if flags AND F_SYN \<noteq> 0 then sndis k else sndnxt k)
      in obind (Some (if flags AND F_SYN \<noteq> 0 \<or> flags AND F_FIN \<noteq> 0 \<or> data \<noteq> []
                      then tcp_queueforretransmit te this seq flags data u else Inr u)) (\<lambda>u1.
           tcp_sendsegment env te (sock_adapter u1 this) seq (rcvnxt k) flags (ucast (rcvwnd k)) data (ts_conn k) (Some (ts_opts k)) u1))"

text \<open>Sending where the result is not looked at.\<close>

definition send_only ::
  "'m tcp_scheme netenv \<Rightarrow> tcpenv \<Rightarrow> u64 \<Rightarrow> u8 \<Rightarrow> 'm tcp_scheme \<Rightarrow> 'm tcp_scheme result option" where
  "send_only env te this flags u = obind (tcp_send env te this flags [] u) (\<lambda>(_, u1). Some (Inr u1))"

definition send_reset ::
  "'m tcp_scheme netenv \<Rightarrow> tcpenv \<Rightarrow> u64 \<Rightarrow> u32 \<Rightarrow> tcp_connection \<Rightarrow> 'm tcp_scheme \<Rightarrow> 'm tcp_scheme result option" where
  "send_reset env te ad seq conn u = obind (tcp_sendsegment env te ad seq 0 F_RST 0 [] conn None u) (\<lambda>(_, u1). Some (Inr u1))"


subsection \<open>Closing\<close>

text \<open>The end of \<open>tcp_close\<close> for a socket whose state is closed.\<close>

definition tcp_release :: "u64 \<Rightarrow> 'm tcp_scheme \<Rightarrow> 'm tcp_scheme tstep" where
  "tcp_release this u =
     obind (if sock_adapter u this = 0 then Some (Inr u)
            else obind (Some (spinlock_acquire ''tcp_close'' (ts_lock (tcp_at u this)))) (\<lambda>l.
                 obind (Some (net_unbindsocket (sock_adapter u this) this (put_tcp this (\<lambda>k. k\<lparr>ts_lock := l\<rparr>) u))) (\<lambda>u1.
                   Some (Inr (put_tcp this (\<lambda>k. k\<lparr>ts_lock := spinlock_release (ts_lock k)\<rparr>) u1))))) (\<lambda>u2.
     obind (Some (tcp_queuecleanup this u2)) (\<lambda>u3.
       let u4 = u3\<lparr>tcp_sockets := (if this \<in> set (tcp_sockets u3) then remove1 this (tcp_sockets u3) else tcp_sockets u3)\<rparr>
       in obind (Some (if ts_parent (tcp_at u4 this) = 0 then net_releaseport (bswap16 (ts_port (tcp_at u4 this))) u4 else Inr u4)) (\<lambda>u5.
            Some (Inr (True, put_tcp this (\<lambda>k. k\<lparr>ts_freed := True\<rparr>) u5)))))"

definition tcp_close :: "'m tcp_scheme netenv \<Rightarrow> tcpenv \<Rightarrow> u64 \<Rightarrow> 'm tcp_scheme \<Rightarrow> 'm tcp_scheme tstep" where
  "tcp_close env te this u =
     lock_busy ''tcp_close'' this u (\<lambda>u1.
       let finish = (\<lambda>u2. let u3 = unlock_busy this u2
                          in if tcp_getstate this u3 = TCP_STATECLOSED then tcp_release this u3 else Some (Inr (True, u3)));
           fin = (\<lambda>st. obind (send_only env te this (F_FIN OR F_ACK) u1) (\<lambda>u2.
                   finish (tcp_setstate this st (put_tcp this (\<lambda>k. k\<lparr>sndnxt := sndnxt k + 1\<rparr>) u2))))
       in case tcp_getstate this u1 of
            TCP_STATECLOSED \<Rightarrow> finish u1
          | TCP_STATELISTEN \<Rightarrow> finish (tcp_setstate this TCP_STATECLOSED u1)
          | TCP_STATESYNSENT \<Rightarrow> finish (tcp_setstate this TCP_STATECLOSED u1)
          | TCP_STATEESTABLISHED \<Rightarrow> fin TCP_STATEFINWAIT1
          | TCP_STATESYNRECV \<Rightarrow> fin TCP_STATEFINWAIT1
          | TCP_STATECLOSEWAIT \<Rightarrow> fin TCP_STATELASTACK
          | _ \<Rightarrow> Some (Inr (False, unlock_busy this u1)))"

definition tcp_unref :: "'m tcp_scheme netenv \<Rightarrow> tcpenv \<Rightarrow> u64 \<Rightarrow> 'm tcp_scheme \<Rightarrow> 'm tcp_scheme tstep" where
  "tcp_unref env te this u =
     (let u1 = put_tcp this (\<lambda>k. k\<lparr>ts_refcount := ts_refcount k - 1\<rparr>) u
      in if ts_refcount (tcp_at u1 this) = 0 then tcp_close env te this u1 else Some (Inr (True, u1)))"

subsection \<open>Retransmission\<close>

definition later :: "timespec \<Rightarrow> timespec \<Rightarrow> bool" where
  "later now t \<longleftrightarrow> (if tv_sec now = tv_sec t then tv_nsec now > tv_nsec t else tv_sec now > tv_sec t)"

definition tcp_queueemit ::
  "'m tcp_scheme netenv \<Rightarrow> tcpenv \<Rightarrow> u64 \<Rightarrow> tcp_retransmitentry \<Rightarrow> 'm tcp_scheme \<Rightarrow> (tcp_retransmitentry \<times> 'm tcp_scheme) result option" where
  "tcp_queueemit env te this ent u =
     (if tcp_getstate this u = TCP_STATECLOSED then Some (Inr (ent, u))
      else obind (if sock_adapter u this \<noteq> 0 then Some (Inr (Some (sock_adapter u this), u))
                  else obind (Some (net_route env 0 INADDR_ANY (tc_remote (ts_conn (tcp_at u this))) u)) (\<lambda>(r, u1).
                    Some (Inr (case r of Inl _ \<Rightarrow> None | Inr (ad, mac) \<Rightarrow> Some ad, u1)))) (\<lambda>(rxt, u2).
        case rxt of
          None \<Rightarrow> Some (Inr (ent, u2))
        | Some ad \<Rightarrow>
            let now = te_now te; k = tcp_at u2 this
            in if tv_sec (timespec_sub now (re_first ent)) \<ge> 5
               then Some (Inr (ent, tcp_setstate this TCP_STATECLOSED u2))
               else if later now (timespec_add (re_last ent) \<lparr>tv_sec = 0, tv_nsec = re_rto ent\<rparr>)
               then obind (tcp_sendsegment env te ad (re_seq ent) (rcvnxt k) (re_flags ent) (ucast (rcvwnd k)) (re_data ent)
                             (ts_conn k) (Some (ts_opts k)) u2) (\<lambda>(_, u3).
                      Some (Inr (ent\<lparr>re_last := now, re_rto := re_rto ent * 2\<rparr>, u3)))
               else Some (Inr (ent, u2))))"

fun emit_all ::
  "'m tcp_scheme netenv \<Rightarrow> tcpenv \<Rightarrow> u64 \<Rightarrow> tcp_retransmitentry list \<Rightarrow> 'm tcp_scheme \<Rightarrow> (tcp_retransmitentry list \<times> 'm tcp_scheme) result option" where
  "emit_all env te this [] u = Some (Inr ([], u))"
| "emit_all env te this (e # es) u =
     obind (tcp_queueemit env te this e u) (\<lambda>(e', u1). obind (emit_all env te this es u1) (\<lambda>(es', u2). Some (Inr (e' # es', u2))))"

definition tcp_retransmitall :: "'m tcp_scheme netenv \<Rightarrow> tcpenv \<Rightarrow> u64 \<Rightarrow> 'm tcp_scheme \<Rightarrow> 'm tcp_scheme result option" where
  "tcp_retransmitall env te this u =
     (if tcp_getstate this u = TCP_STATECLOSED then Some (Inr u)
      else if retransmitqueue (tcp_at u this) \<noteq> [] \<and> rq_block (tcp_at u this) = Block_freed then Some (Inl UseAfterFree)
      else obind (emit_all env te this (retransmitqueue (tcp_at u this)) u) (\<lambda>(q, u1).
        Some (Inr (put_tcp this (\<lambda>k. k\<lparr>retransmitqueue := q\<rparr>) u1))))"

text \<open>
  One round of \<open>tcp_timer\<close> from index \<open>i\<close> of the vector of sockets on, which only gets shorter meanwhile:
  the first argument is the number of turns there can still be.
\<close>

fun timer_round :: "nat \<Rightarrow> 'm tcp_scheme netenv \<Rightarrow> tcpenv \<Rightarrow> nat \<Rightarrow> 'm tcp_scheme \<Rightarrow> 'm tcp_scheme result option" where
  "timer_round 0 env te i u = Some (Inr u)"
| "timer_round (Suc n) env te i u =
     (if i \<ge> length (tcp_sockets u) then Some (Inr u)
      else let sock = tcp_sockets u ! i; k = tcp_at u sock; now = te_now te
           in if ts_freed k then Some (Inl UseAfterFree)
              else if tcpstate k = TCP_STATETIMEWAIT \<and> later now (timewaittimer k)
              then obind (tcp_close env te sock (tcp_setstate sock TCP_STATECLOSED u)) (\<lambda>(_, u1). timer_round n env te (i + 1) u1)
              else if tcpstate k = TCP_STATESYNSENT \<and> later now (connecttimeout k)
              then timer_round n env te (i + 1) (ts_connect_trigger sock u)
              else obind (tcp_retransmitall env te sock u) (timer_round n env te (i + 1)))"

definition tcp_timer :: "'m tcp_scheme netenv \<Rightarrow> tcpenv \<Rightarrow> 'm tcp_scheme \<Rightarrow> 'm tcp_scheme result option" where
  "tcp_timer env te u = timer_round (length (tcp_sockets u)) env te 0 u"

subsection \<open>Creating sockets\<close>

definition no_time :: timespec where
  "no_time = \<lparr>tv_sec = 0, tv_nsec = 0\<rparr>"

definition tcp_zero :: tcp_socket where
  "tcp_zero = \<lparr>ts_lock = SPINLOCK_INIT, busyon = SPINLOCK_INIT, ts_status = 0, ts_refcount = 0, ts_triggers = 0, ts_connect_triggers = 0,
     ts_localaddr = No_addr, ts_peeraddr = No_addr, ts_backlog = [], ts_backlog_max = 0, ts_backlog_i = 0, ts_state = SOCKET_CREATED,
     ts_bound = False, ts_family = 0, ts_type = 0, ts_protocol = 0, ts_port = 0, ts_canbroadcast = False, ts_canroute = False,
     ts_conn = \<lparr>tc_local = 0, tc_remote = 0, tc_localport = 0, tc_remoteport = 0\<rparr>, ts_parent = 0, tcpstate = TCP_STATECLOSED,
     timewaittimer = no_time, connecttimeout = no_time, retransmitqueue = [], rq_block = Block_null, eventstate = TCP_EVENTSTATEDATA,
     ts_opts = \<lparr>op_maxseg = 0, op_recent = 0, op_ts = False\<rparr>, snduna = 0, sndnxt = 0, sndwl1 = 0, sndwl2 = 0, sndis = 0, sndwnd = 0,
     rcvwnd = 0, rcvnxt = 0, rcvis = 0, lastack = 0, rcvbuf = \<lparr>st_size = 0, st_pos = 0, st_buf = []\<rparr>, ts_freed = False\<rparr>"

definition socket_create_tcp :: "sock_abi \<Rightarrow> u64 \<Rightarrow> u32 \<Rightarrow> int \<Rightarrow> 'm tcp_scheme \<Rightarrow> (errno option + u64) \<times> 'm tcp_scheme" where
  "socket_create_tcp sa p ty protocol u =
     (if protocol \<noteq> uint IPPROTO_TCP then (Inl (Some EPROTOTYPE), u)
      else if p = 0 then (Inl None, u)
      else (Inr p, put_tcp p (\<lambda>_. tcp_zero\<lparr>ts_family := AF_INET sa, ts_type := ty, ts_protocol := protocol,
                rcvbuf := \<lparr>st_size = of_nat TCP_BUFFERSIZE, st_pos = 0, st_buf = replicate TCP_BUFFERSIZE 0\<rparr>\<rparr>)
              (u\<lparr>sock_adapter := (sock_adapter u)(p := 0)\<rparr>)))"

definition tcp_parseoptions :: "tcpenv \<Rightarrow> u64 \<Rightarrow> tcp_header \<Rightarrow> u32 \<Rightarrow> 'm tcp_scheme \<Rightarrow> 'm tcp_scheme result" where
  "tcp_parseoptions te this h len u =
     rbind (parse_options h len (if len = 0 then 0 else te_dptr te) (lastack (tcp_at u this)) (ts_opts (tcp_at u this))) (\<lambda>t.
       Inr (put_tcp this (\<lambda>k. k\<lparr>ts_opts := t\<rparr>) u))"


subsection \<open>Segments from the network\<close>

text \<open>
  A packet as \<open>tcp_netpacket\<close> takes it apart.  The parts of that function return whether it goes on behind
  them (\<open>False\<close> is the jump to \<open>dropsegment\<close>), those for the states without a connection always leave it.
\<close>

record tcp_packet =
  pk_header :: tcp_header
  pk_len :: u32
  pk_data :: "u8 list"
  pk_seglen :: u64

definition packet_of :: "u8 list \<Rightarrow> u64 \<Rightarrow> tcp_packet result" where
  "packet_of buf len =
     (if length buf < TCPHEADER_SIZE then Inl OutOfBounds
      else let h = tcpheader_of buf;
               d = 4 * unat (th_doff h);
               n = ucast (len - (of_nat d - 20)) :: u32;
               b2u = (\<lambda>b. if b then 1 else 0 :: u64)
           in rbind (copy_from buf d (unat n)) (\<lambda>data.
                Inr \<lparr>pk_header = h, pk_len = n, pk_data = data, pk_seglen = ucast n + b2u (has F_SYN h) + b2u (has F_FIN h)\<rparr>))"

text \<open>Closing the socket in the middle of \<open>tcp_netpacket\<close>: \<open>busyon\<close> is released and taken again.\<close>

definition close_within :: "'m tcp_scheme netenv \<Rightarrow> tcpenv \<Rightarrow> u64 \<Rightarrow> 'm tcp_scheme \<Rightarrow> 'm tcp_scheme result option" where
  "close_within env te this u =
     obind (tcp_close env te this (unlock_busy this u)) (\<lambda>(_, u1). lock_busy ''tcp_netpacket'' this u1 (\<lambda>u2. Some (Inr u2)))"

definition on_listen ::
  "sock_abi \<Rightarrow> 'm tcp_scheme netenv \<Rightarrow> tcpenv \<Rightarrow> u64 \<Rightarrow> u64 \<Rightarrow> tcp_connection \<Rightarrow> tcp_packet \<Rightarrow> 'm tcp_scheme \<Rightarrow> 'm tcp_scheme result option" where
  "on_listen sa env te this ad conn pk u =
     (let h = pk_header pk
      in if has F_RST h then Some (Inr u)
         else if has F_ACK h then send_reset env te ad (ack_of h) conn u
         else if has F_SYN h
         then case socket_create_tcp sa (te_fresh te) (SOCK_STREAM sa) (uint IPPROTO_TCP) u of
                (Inl _, u1) \<Rightarrow> Some (Inl NullDeref)
              | (Inr p, u1) \<Rightarrow>
                  obind (Some (net_bindsocket ad p (put_tcp p (\<lambda>k. k\<lparr>ts_parent := this\<rparr>) u1))) (\<lambda>u2.
                    let u3 = put_tcp p (\<lambda>k. k\<lparr>ts_conn := conn, rcvwnd := ucast (st_size (rcvbuf k)), rcvnxt := seq_of h + 1,
                               rcvis := seq_of h, sndis := te_random te\<rparr>) u2;
                        u4 = u3\<lparr>tcp_sockets := tcp_sockets u3 @ [p]\<rparr>
                    in obind (Some (tcp_parseoptions te p h (pk_len pk) u4)) (\<lambda>u5.
                       obind (send_only env te p (F_SYN OR F_ACK) u5) (\<lambda>u6.
                         Some (Inr (tcp_setstate p TCP_STATESYNRECV (put_tcp p (\<lambda>k. k\<lparr>sndnxt := sndis k + 1, snduna := sndis k\<rparr>) u6))))))
         else Some (Inr u))"

definition on_synsent ::
  "abi \<Rightarrow> 'm tcp_scheme netenv \<Rightarrow> tcpenv \<Rightarrow> u64 \<Rightarrow> u64 \<Rightarrow> tcp_connection \<Rightarrow> tcp_packet \<Rightarrow> 'm tcp_scheme \<Rightarrow> 'm tcp_scheme result option" where
  "on_synsent a env te this ad conn pk u =
     (let h = pk_header pk; k = tcp_at u this; ackn = ack_of h;
          acceptable = (has F_ACK h \<and> snduna k \<le> ackn \<and> ackn \<le> sndnxt k)
      in if has F_ACK h \<and> (ackn \<le> sndis k \<or> ackn > sndnxt k) then send_reset env te ad ackn conn u
         else if has F_RST h
         then if \<not> acceptable then Some (Inr u)
              else obind (close_within env te this (put_tcp this (\<lambda>k. k\<lparr>eventstate := TCP_EVENTSTATEDATA, tcpstate := TCP_STATECLOSED,
                            ts_status := ts_status k OR POLLHUP a\<rparr>) u)) (\<lambda>u1. Some (Inr (ts_connect_trigger this u1)))
         else if has F_SYN h \<and> has F_ACK h
         then let u1 = put_tcp this (\<lambda>k. k\<lparr>rcvnxt := seq_of h + 1, rcvis := seq_of h\<rparr>) u
              in obind (Some (if acceptable then tcp_queuecleanup this (put_tcp this (\<lambda>k. k\<lparr>snduna := ackn\<rparr>) u1) else Inr u1)) (\<lambda>u2.
                 if snduna (tcp_at u2 this) > sndis (tcp_at u2 this)
                 then obind (Some (tcp_parseoptions te this h (pk_len pk) u2)) (\<lambda>u3.
                      obind (send_only env te this F_ACK (put_tcp this (\<lambda>k. k\<lparr>tcpstate := TCP_STATEESTABLISHED, ts_state := SOCKET_CONNECTED,
                               ts_status := ts_status k OR POLLIN a\<rparr>) u3)) (\<lambda>u4.
                        Some (Inr (ts_connect_trigger this
                          (put_tcp this (\<lambda>k. k\<lparr>sndwnd := window_of h, sndwl1 := seq_of h, sndwl2 := ackn\<rparr>) u4)))))
                 else send_only env te this (F_SYN OR F_ACK) (tcp_setstate this TCP_STATESYNRECV u2))
         else if has F_ACK h then send_reset env te ad ackn conn u
         else Some (Inr u))"

definition synchronized :: "tcp_state \<Rightarrow> bool" where
  "synchronized st \<longleftrightarrow> st \<noteq> TCP_STATECLOSED \<and> st \<noteq> TCP_STATELISTEN \<and> st \<noteq> TCP_STATESYNSENT"

text \<open>The test of the sequence number: \<open>seglen\<close> has 64 bits, the sums without it wrap around at 32.\<close>

definition seg_acceptable :: "u32 \<Rightarrow> u32 \<Rightarrow> u32 \<Rightarrow> u64 \<Rightarrow> bool" where
  "seg_acceptable nxt wnd seq seglen =
     (if seglen = 0
      then if wnd = 0 then seq = nxt else nxt \<le> seq \<and> seq < nxt + wnd
      else if wnd = 0 then False
      else (nxt \<le> seq \<and> seq < nxt + wnd) \<or>
           (let e = ucast seq + seglen - 1 in (ucast nxt :: u64) \<le> e \<and> e < ucast (nxt + wnd)))"

definition check_sequence ::
  "'m tcp_scheme netenv \<Rightarrow> tcpenv \<Rightarrow> u64 \<Rightarrow> tcp_packet \<Rightarrow> 'm tcp_scheme \<Rightarrow> 'm tcp_scheme tstep" where
  "check_sequence env te this pk u =
     (let k = tcp_at u this; h = pk_header pk
      in if \<not> synchronized (tcpstate k) \<or> seg_acceptable (rcvnxt k) (rcvwnd k) (seq_of h) (pk_seglen pk) then Some (Inr (True, u))
         else if has F_RST h then Some (Inr (False, u))
         else obind (send_only env te this F_ACK u) (\<lambda>u1. Some (Inr (False, u1))))"

definition check_reset ::
  "abi \<Rightarrow> 'm tcp_scheme netenv \<Rightarrow> tcpenv \<Rightarrow> u64 \<Rightarrow> tcp_packet \<Rightarrow> 'm tcp_scheme \<Rightarrow> 'm tcp_scheme tstep" where
  "check_reset a env te this pk u =
     (let st = tcp_getstate this u
      in if \<not> synchronized st \<or> \<not> has F_RST (pk_header pk) then Some (Inr (True, u))
         else let u1 = put_tcp this (\<lambda>k. k\<lparr>tcpstate := TCP_STATECLOSED, ts_status := ts_status k OR POLLHUP a\<rparr>) u;
                  u2 = (if st = TCP_STATESYNRECV then u1 else ts_trigger this (put_tcp this (\<lambda>k. k\<lparr>eventstate := TCP_EVENTSTATERESET\<rparr>) u1))
              in obind (close_within env te this u2) (\<lambda>u3. Some (Inr (False, u3))))"

definition check_syn ::
  "abi \<Rightarrow> 'm tcp_scheme netenv \<Rightarrow> tcpenv \<Rightarrow> u64 \<Rightarrow> tcp_packet \<Rightarrow> 'm tcp_scheme \<Rightarrow> 'm tcp_scheme tstep" where
  "check_syn a env te this pk u =
     (if \<not> synchronized (tcp_getstate this u) \<or> \<not> has F_SYN (pk_header pk) then Some (Inr (True, u))
      else obind (send_only env te this F_RST u) (\<lambda>u1.
           obind (close_within env te this (ts_trigger this (put_tcp this (\<lambda>k. k\<lparr>ts_status := ts_status k OR POLLHUP a,
                    tcpstate := TCP_STATECLOSED, eventstate := TCP_EVENTSTATERESET\<rparr>) u1))) (\<lambda>u2. Some (Inr (False, u2)))))"

text \<open>\<open>socket_add_to_backlog\<close> on the parent of a socket; its result is not looked at.\<close>

definition add_to_parent :: "abi \<Rightarrow> u64 \<Rightarrow> u64 \<Rightarrow> 'm tcp_scheme \<Rightarrow> 'm tcp_scheme result" where
  "add_to_parent a parent this u =
     (let k = tcp_at u parent
      in if parent = 0 then Inl NullDeref
         else if ts_freed k then Inl UseAfterFree
         else rbind (if ts_backlog_i k = ts_backlog_max k then Inr u
                     else rbind (arr_set (ts_backlog k) (unat (ts_backlog_i k)) this) (\<lambda>bl.
                       Inr (put_tcp parent (\<lambda>k. k\<lparr>ts_status := ts_status k OR POLLIN a, ts_backlog := bl, ts_backlog_i := ts_backlog_i k + 1\<rparr>) u)))
              (\<lambda>u1. Inr (ts_connect_trigger parent u1)))"

text \<open>The acknowledgement in the states from \<open>ESTABLISHED\<close> to \<open>CLOSING\<close>.\<close>

definition on_ack_data ::
  "'m tcp_scheme netenv \<Rightarrow> tcpenv \<Rightarrow> u64 \<Rightarrow> tcp_packet \<Rightarrow> 'm tcp_scheme \<Rightarrow> 'm tcp_scheme tstep" where
  "on_ack_data env te this pk u =
     (let h = pk_header pk; k = tcp_at u this; ackn = ack_of h; seq = seq_of h
      in obind (if snduna k < ackn \<and> ackn \<le> sndnxt k
                then obind (Some (tcp_queuecleanup this (put_tcp this (\<lambda>k. k\<lparr>snduna := ackn\<rparr>) u))) (\<lambda>u1.
                  Some (Inr (True, if sndwl1 k < seq \<or> (sndwl1 k = seq \<and> sndwl2 k \<le> ackn)
                                   then put_tcp this (\<lambda>k. k\<lparr>sndwnd := window_of h, sndwl1 := seq, sndwl2 := ackn\<rparr>) u1 else u1)))
                else if ackn > sndnxt k then obind (send_only env te this F_ACK u) (\<lambda>u1. Some (Inr (False, u1)))
                else Some (Inr (True, u))) (\<lambda>(go, u2).
         Some (Inr (go,
           if go \<and> ackn = sndnxt (tcp_at u2 this) \<and> tcp_getstate this u2 = TCP_STATEFINWAIT1 then tcp_setstate this TCP_STATEFINWAIT2 u2
           else if go \<and> ackn = sndnxt (tcp_at u2 this) \<and> tcp_getstate this u2 = TCP_STATECLOSING
           then ts_trigger this (tcp_settimewait te this (tcp_setstate this TCP_STATETIMEWAIT u2)) else u2))))"

text \<open>The sequence number of the reset is the swapped acknowledgement flag.\<close>

definition on_ack ::
  "abi \<Rightarrow> 'm tcp_scheme netenv \<Rightarrow> tcpenv \<Rightarrow> u64 \<Rightarrow> u64 \<Rightarrow> tcp_packet \<Rightarrow> 'm tcp_scheme \<Rightarrow> 'm tcp_scheme tstep" where
  "on_ack a env te this ad pk u =
     (let h = pk_header pk; k = tcp_at u this; ackn = ack_of h
      in case tcpstate k of
           TCP_STATESYNRECV \<Rightarrow>
             if snduna k \<le> ackn \<and> ackn \<le> sndnxt k
             then obind (Some (add_to_parent a (ts_parent k) this (put_tcp this (\<lambda>k. k\<lparr>tcpstate := TCP_STATEESTABLISHED,
                           ts_state := SOCKET_CONNECTED, ts_status := ts_status k OR POLLIN a\<rparr>) u))) (\<lambda>u1. on_ack_data env te this pk u1)
             else obind (send_reset env te ad (bswap32 1) (ts_conn k) u) (\<lambda>u1. Some (Inr (False, u1)))
         | TCP_STATELASTACK \<Rightarrow>
             if ackn = sndnxt k then obind (close_within env te this (tcp_setstate this TCP_STATECLOSED u)) (\<lambda>u1. Some (Inr (False, u1)))
             else Some (Inr (False, u))
         | TCP_STATETIMEWAIT \<Rightarrow> Some (Inr (True, if has F_FIN h then tcp_settimewait te this u else u))
         | TCP_STATECLOSED \<Rightarrow> Some (Inr (True, u))
         | TCP_STATELISTEN \<Rightarrow> Some (Inr (True, u))
         | TCP_STATESYNSENT \<Rightarrow> Some (Inr (True, u))
         | _ \<Rightarrow> on_ack_data env te this pk u)"

definition on_data ::
  "abi \<Rightarrow> 'm tcp_scheme netenv \<Rightarrow> tcpenv \<Rightarrow> u64 \<Rightarrow> tcp_packet \<Rightarrow> 'm tcp_scheme \<Rightarrow> 'm tcp_scheme tstep" where
  "on_data a env te this pk u =
     (let st = tcp_getstate this u
      in if (st = TCP_STATEESTABLISHED \<or> st = TCP_STATEFINWAIT1 \<or> st = TCP_STATEFINWAIT2) \<and> pk_len pk \<noteq> 0
         then obind (Some (tcp_streamwrite (rcvbuf (tcp_at u this)) (pk_data pk))) (\<lambda>r.
           case r of
             None \<Rightarrow> Some (Inr (False, u))
           | Some buf \<Rightarrow>
               obind (send_only env te this F_ACK (put_tcp this (\<lambda>k. k\<lparr>rcvbuf := buf,
                        rcvnxt := ucast (ucast (seq_of (pk_header pk)) + pk_seglen pk), rcvwnd := rcvwnd k - pk_len pk\<rparr>) u)) (\<lambda>u1.
                 Some (Inr (True, ts_trigger this (put_tcp this (\<lambda>k. k\<lparr>eventstate := TCP_EVENTSTATEDATA,
                   ts_status := ts_status k OR POLLIN a\<rparr>) u1)))))
         else Some (Inr (True, u)))"

definition fin_state :: "abi \<Rightarrow> tcpenv \<Rightarrow> u64 \<Rightarrow> u32 \<Rightarrow> 'm tcp_scheme \<Rightarrow> 'm tcp_scheme" where
  "fin_state a te this ackn u =
     (let k = tcp_at u this; timewait = tcp_settimewait te this (tcp_setstate this TCP_STATETIMEWAIT u)
      in case tcpstate k of
           TCP_STATEFINWAIT1 \<Rightarrow> if ackn = sndnxt k then timewait else tcp_setstate this TCP_STATECLOSING u
         | TCP_STATEFINWAIT2 \<Rightarrow> timewait
         | TCP_STATETIMEWAIT \<Rightarrow> tcp_settimewait te this u
         | TCP_STATESYNRECV \<Rightarrow> ts_trigger this (put_tcp this (\<lambda>k. k\<lparr>tcpstate := TCP_STATECLOSEWAIT,
             ts_status := (if st_pos (rcvbuf k) = 0 then ts_status k AND NOT (POLLIN a OR POLLOUT a) else ts_status k OR POLLIN a)\<rparr>) u)
         | TCP_STATEESTABLISHED \<Rightarrow> ts_trigger this (put_tcp this (\<lambda>k. k\<lparr>tcpstate := TCP_STATECLOSEWAIT,
             ts_status := (if st_pos (rcvbuf k) = 0 then ts_status k AND NOT (POLLIN a OR POLLOUT a) else ts_status k OR POLLIN a)\<rparr>) u)
         | _ \<Rightarrow> u)"

definition on_fin ::
  "abi \<Rightarrow> 'm tcp_scheme netenv \<Rightarrow> tcpenv \<Rightarrow> u64 \<Rightarrow> tcp_packet \<Rightarrow> 'm tcp_scheme \<Rightarrow> 'm tcp_scheme tstep" where
  "on_fin a env te this pk u =
     (let h = pk_header pk
      in if \<not> has F_FIN h then Some (Inr (True, u))
         else if \<not> synchronized (tcp_getstate this u) then Some (Inr (False, u))
         else obind (send_only env te this F_ACK (put_tcp this (\<lambda>k. k\<lparr>rcvnxt := seq_of h + 1\<rparr>) (fin_state a te this (ack_of h) u)))
                (\<lambda>u1. Some (Inr (True, u1))))"

text \<open>The parts one after the other.\<close>

definition go_on :: "'u tstep \<Rightarrow> ('u \<Rightarrow> 'u tstep) \<Rightarrow> 'u tstep" where
  "go_on m f = obind m (\<lambda>(go, u). if go then f u else Some (Inr (False, u)))"

definition on_segment ::
  "abi \<Rightarrow> 'm tcp_scheme netenv \<Rightarrow> tcpenv \<Rightarrow> u64 \<Rightarrow> u64 \<Rightarrow> tcp_packet \<Rightarrow> 'm tcp_scheme \<Rightarrow> 'm tcp_scheme tstep" where
  "on_segment a env te this ad pk u =
     go_on (go_on (go_on (check_sequence env te this pk u) (check_reset a env te this pk)) (check_syn a env te this pk)) (\<lambda>u1.
       if \<not> has F_ACK (pk_header pk) then Some (Inr (False, u1))
       else go_on (go_on (on_ack a env te this ad pk u1) (on_data a env te this pk)) (on_fin a env te this pk))"

definition tcp_netpacket ::
  "abi \<Rightarrow> sock_abi \<Rightarrow> 'm tcp_scheme netenv \<Rightarrow> tcpenv \<Rightarrow> u64 \<Rightarrow> u32 \<Rightarrow> u32 \<Rightarrow> u8 list \<Rightarrow> u64 \<Rightarrow> 'm tcp_scheme \<Rightarrow> 'm tcp_scheme result option" where
  "tcp_netpacket a sa env te this src dest buf len u =
     lock_busy ''tcp_netpacket'' this u (\<lambda>u1.
       obind (Some (packet_of buf len)) (\<lambda>pk.
         let h = pk_header pk;
             conn = \<lparr>tc_local = dest, tc_remote = src, tc_localport = th_destport h, tc_remoteport = th_srcport h\<rparr>
         in obind (if sock_adapter u1 this \<noteq> 0 then Some (Inr (Some (sock_adapter u1 this), u1))
                   else obind (Some (net_route env 0 INADDR_ANY src u1)) (\<lambda>(r, u2).
                     Some (Inr (case r of Inl _ \<Rightarrow> None | Inr (ad, mac) \<Rightarrow> Some ad, u2)))) (\<lambda>(choice, u3).
            obind (case choice of
                     None \<Rightarrow> Some (Inr u3)
                   | Some ad \<Rightarrow>
                       obind (Some (tcp_parseoptions te this h (pk_len pk) u3)) (\<lambda>u4.
                         case tcp_getstate this u4 of
                           TCP_STATELISTEN \<Rightarrow> on_listen sa env te this ad conn pk u4
                         | TCP_STATESYNSENT \<Rightarrow> on_synsent a env te this ad conn pk u4
                         | _ \<Rightarrow> obind (on_segment a env te this ad pk u4) (\<lambda>(_, u5). Some (Inr u5)))) (\<lambda>u6.
              Some (Inr (unlock_busy this u6))))))"

text \<open>\<open>len\<close> is the length by the Internet header, \<open>body\<close> the bytes received behind that header.\<close>

definition tcp_ontcp :: "abi \<Rightarrow> sock_abi \<Rightarrow> 'm tcp_scheme netenv \<Rightarrow> tcpenv \<Rightarrow> 'm tcp_scheme inet_handler" where
  "tcp_ontcp a sa env te ad h body len u =
     (if length body < TCPHEADER_SIZE then Some (Inl OutOfBounds)
      else let t = tcpheader_of body
           in if 4 * unat (th_doff t) < TCPHEADER_SIZE then Some (Inr u)
              else let conn = \<lparr>tc_local = ip_dest h, tc_remote = ip_src h, tc_localport = th_destport t, tc_remoteport = th_srcport t\<rparr>;
                       refuse = (if has F_RST t then Some (Inr u)
                                 else if \<not> has F_ACK t
                                 then obind (tcp_sendsegment env te ad 0 (seq_of t + 1) (F_RST OR F_ACK) 0 [] conn None u) (\<lambda>(_, u1). Some (Inr u1))
                                 else send_reset env te ad (ack_of t) conn u)
                   in obind (Some (tcp_tryfindsocket conn u)) (\<lambda>sock.
                      case sock of
                        Some p \<Rightarrow>
                          if tcp_getstate p u = TCP_STATECLOSED then refuse
                          else tcp_netpacket a sa env te p (ip_src h) (ip_dest h) body (len - 20) u
                      | None \<Rightarrow> refuse))"


subsection \<open>Connecting\<close>

text \<open>
  \<open>tcp_connect\<close> up to its wait, and what it does when \<open>connect_event\<close> has woken it.  \<open>net_route\<close> works on
  the socket's own \<open>adapter\<close> field, which keeps the adapter chosen also when the address lookup fails.
\<close>

definition set_adapter :: "u64 \<Rightarrow> u64 \<Rightarrow> 'm tcp_scheme \<Rightarrow> 'm tcp_scheme" where
  "set_adapter p ad u = u\<lparr>sock_adapter := (sock_adapter u)(p := ad)\<rparr>"

definition tcp_connect ::
  "'m tcp_scheme netenv \<Rightarrow> tcpenv \<Rightarrow> u64 \<Rightarrow> sockaddr \<Rightarrow> 'm tcp_scheme \<Rightarrow> ('m tcp_scheme, unit) scall" where
  "tcp_connect env te this addr u =
     (let k = tcp_at u this
      in if ts_state k = SOCKET_CONNECTED \<and> tcpstate k = TCP_STATEESTABLISHED then Some (Inr (Op_error (Some EISCONN), u))
         else if tcpstate k = TCP_STATESYNSENT then Some (Inr (Op_error (Some EALREADY), u))
         else let (port, ip) = addr_fields addr;
                  old = sock_adapter u this;
                  best = (if old \<noteq> 0 then old else fst (route_scan INADDR_ANY ip u (net_adapters u) (0, False)))
              in obind (Some (net_route env old INADDR_ANY ip (put_tcp this (\<lambda>k. k\<lparr>ts_peeraddr := addr\<rparr>) u))) (\<lambda>(r, u1).
                 case r of
                   Inl e \<Rightarrow> Some (Inr (Op_error (Some e), set_adapter this best u1))
                 | Inr (ad, mac) \<Rightarrow>
                     obind (Some (if ts_port (tcp_at u1 this) \<noteq> 0 then Inr (True, set_adapter this ad u1)
                                  else rbind (net_allocport (set_adapter this ad u1)) (\<lambda>(p, u2).
                                    let u3 = put_tcp this (\<lambda>k. k\<lparr>ts_port := bswap16 p\<rparr>) u2
                                    in if ts_port (tcp_at u3 this) = 0 then Inr (False, u3)
                                       else Inr (True, snd (tcp_acquireport this (bswap16 (ts_port (tcp_at u3 this))) u3))))) (\<lambda>(ok, u4).
                     if \<not> ok then Some (Inr (Op_error (Some EINTR), u4))
                     else obind (Some (net_bindsocket ad this (put_tcp this (\<lambda>k. k\<lparr>rcvwnd := ucast (st_size (rcvbuf k)), sndis := te_random te\<rparr>) u4))) (\<lambda>u5.
                       let conn = \<lparr>tc_local = na_ip (adapter_at u5 ad), tc_remote = ip, tc_localport = ts_port (tcp_at u5 this), tc_remoteport = port\<rparr>;
                           u6 = put_tcp this (\<lambda>k. k\<lparr>ts_conn := conn, tcpstate := TCP_STATESYNSENT,
                                  connecttimeout := timespec_add (te_now te) \<lparr>tv_sec = 5, tv_nsec = 0\<rparr>\<rparr>) (u5\<lparr>tcp_sockets := tcp_sockets u5 @ [this]\<rparr>)
                       in obind (tcp_send env te this F_SYN [] u6) (\<lambda>(r, u7).
                          case r of
                            Inl _ \<Rightarrow> obind (tcp_close env te this (tcp_setstate this TCP_STATECLOSED u7)) (\<lambda>(_, u8). Some (Inr (Op_error (Some ECONNRESET), u8)))
                          | Inr _ \<Rightarrow> Some (Inr (Op_wait, put_tcp this (\<lambda>k. k\<lparr>snduna := sndis k, sndnxt := sndis k + 1\<rparr>) u7)))))))"

definition tcp_connect_woken ::
  "abi \<Rightarrow> 'm tcp_scheme netenv \<Rightarrow> tcpenv \<Rightarrow> u64 \<Rightarrow> 'm tcp_scheme \<Rightarrow> ('m tcp_scheme, unit) scall" where
  "tcp_connect_woken a env te this u =
     (let k = tcp_at u this
      in if ts_freed k then Some (Inl UseAfterFree)
         else if tcpstate k = TCP_STATEESTABLISHED
         then Some (Inr (Op_done (), ts_trigger this (put_tcp this (\<lambda>k. k\<lparr>ts_status := ts_status k OR POLLOUT a OR POLLIN a\<rparr>) u)))
         else if tcpstate k = TCP_STATESYNRECV then Some (Inr (Op_wait, u))
         else obind (tcp_close env te this (tcp_setstate this TCP_STATECLOSED u)) (\<lambda>(_, u1). Some (Inr (Op_error (Some ETIMEDOUT), u1))))"

subsection \<open>Reading\<close>

text \<open>Both locks are released at the end of \<open>tcp_read\<close> and \<open>tcp_recvmsg\<close>, also where they were not taken.\<close>

definition read_cleanup :: "u64 \<Rightarrow> 'm tcp_scheme \<Rightarrow> 'm tcp_scheme" where
  "read_cleanup this u = put_tcp this (\<lambda>k. k\<lparr>ts_lock := spinlock_release (ts_lock k), busyon := spinlock_release (busyon k)\<rparr>) u"

definition read_take :: "abi \<Rightarrow> u64 \<Rightarrow> u64 \<Rightarrow> 'm tcp_scheme \<Rightarrow> ('m tcp_scheme, u8 list) scall" where
  "read_take a this cnt u =
     (let k = tcp_at u this; n = (if st_pos (rcvbuf k) < cnt then st_pos (rcvbuf k) else cnt)
      in if eventstate k \<noteq> TCP_EVENTSTATEDATA then Some (Inr (Op_error (Some ECONNRESET), read_cleanup this u))
         else obind (Some (spinlock_acquire ''tcp_read'' (ts_lock k))) (\<lambda>l.
              obind (Some (tcp_streamread (rcvbuf k) n)) (\<lambda>(bs, buf).
                Some (Inr (Op_done bs, read_cleanup this (put_tcp this (\<lambda>k. k\<lparr>ts_lock := l, rcvwnd := rcvwnd k + ucast n, rcvbuf := buf,
                  ts_status := (if st_pos buf = 0 then ts_status k AND NOT (POLLIN a) else ts_status k)\<rparr>) u))))))"

text \<open>From the label \<open>retry\<close> on; \<open>nothing\<close> is the error for a call that must not wait.\<close>

definition read_retry :: "abi \<Rightarrow> errno option \<Rightarrow> u64 \<Rightarrow> u64 \<Rightarrow> 'm tcp_scheme \<Rightarrow> ('m tcp_scheme, u8 list) scall" where
  "read_retry a nothing this cnt u =
     lock_busy ''tcp_read'' this u (\<lambda>u1.
       let k = tcp_at u1 this; none = (st_pos (rcvbuf k) = 0);
           data = (if \<not> none then read_take a this cnt u1
                   else case nothing of Some e \<Rightarrow> Some (Inr (Op_error (Some e), read_cleanup this u1)) | None \<Rightarrow> Some (Inr (Op_wait, unlock_busy this u1)))
       in case tcpstate k of
            TCP_STATECLOSED \<Rightarrow> Some (Inr (Op_error (Some ENOTCONN), read_cleanup this u1))
          | TCP_STATELISTEN \<Rightarrow> Some (Inr (Op_error (Some ENOBUFS), read_cleanup this u1))
          | TCP_STATESYNSENT \<Rightarrow> Some (Inr (Op_error (Some ENOBUFS), read_cleanup this u1))
          | TCP_STATESYNRECV \<Rightarrow> Some (Inr (Op_error (Some ENOBUFS), read_cleanup this u1))
          | TCP_STATEESTABLISHED \<Rightarrow> data
          | TCP_STATEFINWAIT1 \<Rightarrow> data
          | TCP_STATEFINWAIT2 \<Rightarrow> data
          | TCP_STATECLOSEWAIT \<Rightarrow> if none then Some (Inr (Op_done [], read_cleanup this u1)) else read_take a this cnt u1
          | _ \<Rightarrow> Some (Inr (Op_done [], read_cleanup this u1)))"

definition tcp_read :: "abi \<Rightarrow> u64 \<Rightarrow> u32 \<Rightarrow> u64 \<Rightarrow> 'm tcp_scheme \<Rightarrow> ('m tcp_scheme, u8 list) scall" where
  "tcp_read a this dflags cnt u =
     (if ts_state (tcp_at u this) \<noteq> SOCKET_CONNECTED then Some (Inr (Op_error (Some ENOTCONN), read_cleanup this u))
      else read_retry a (if flag_on dflags (O_NONBLOCK a) then Some EWOULDBLOCK else None) this cnt u)"

definition tcp_recvmsg ::
  "abi \<Rightarrow> u32 \<Rightarrow> u64 \<Rightarrow> u32 \<Rightarrow> bool \<Rightarrow> u64 list \<Rightarrow> u32 \<Rightarrow> 'm tcp_scheme \<Rightarrow> ('m tcp_scheme, u8 list list) scall" where
  "tcp_recvmsg a MSG_DONTWAIT this dflags named iov flags u =
     (if ts_state (tcp_at u this) \<noteq> SOCKET_CONNECTED \<or> named then Some (Inr (Op_error (Some ENOTCONN), read_cleanup this u))
      else then_done (read_retry a (if flag_on flags MSG_DONTWAIT then Some EAGAIN else if flag_on dflags (O_NONBLOCK a) then Some EWOULDBLOCK else None)
                       this (sum_list iov) u) (\<lambda>bs u1. Some (Inr (Op_done (scatter iov bs), u1))))"


subsection \<open>Writing\<close>

text \<open>
  The loop over the segments of a write: it ends with all data sent, with an error, or with a full window,
  where \<open>busyon\<close> is released and the caller waits to start again at the label \<open>retry\<close>.
\<close>

datatype write_end = Write_done | Write_failed | Write_full

partial_function (option) write_loop ::
  "'m tcp_scheme netenv \<Rightarrow> tcpenv \<Rightarrow> u64 \<Rightarrow> u64 \<Rightarrow> u8 list \<Rightarrow> u64 \<Rightarrow> 'm tcp_scheme \<Rightarrow> (write_end \<times> 'm tcp_scheme) result option" where
  "write_loop env te this mss buf progress u =
     (if progress \<ge> of_nat (length buf) then Some (Inr (Write_done, u))
      else let k = tcp_at u this;
               cap = ucast (sndwnd k - (sndnxt k - snduna k)) :: u64;
               mssmin = min mss (of_nat (length buf) - progress);
               seglen = min mssmin cap
           in if cap = 0 then Some (Inr (Write_full, unlock_busy this u))
              else Option.bind (tcp_send env te this (F_PSH OR F_ACK) (take (unat seglen) (drop (unat progress) buf)) u) (\<lambda>r.
                case r of
                  Inl e \<Rightarrow> Some (Inl e)
                | Inr ru \<Rightarrow>
                    (case fst ru of
                       Inl _ \<Rightarrow> Some (Inr (Write_failed, snd ru))
                     | Inr _ \<Rightarrow> write_loop env te this mss buf (progress + seglen)
                         (put_tcp this (\<lambda>k. k\<lparr>sndnxt := sndnxt k + ucast seglen\<rparr>) (snd ru)))))"

definition segment_size :: "u64 \<Rightarrow> 'm tcp_scheme \<Rightarrow> u64 result" where
  "segment_size this u =
     (let m = op_maxseg (ts_opts (tcp_at u this)); ad = sock_adapter u this
      in if m \<noteq> 0 then Inr (ucast m)
         else if ad = 0 then Inl NullDeref
         else Inr (mtu (adapter_at u ad) - of_nat (NET_LINKLAYERFRAMESIZE ad u + 80)))"

text \<open>From the label \<open>retry\<close> on; \<open>failed\<close> is what happens to the socket when a segment cannot be sent.\<close>

definition write_retry ::
  "'m tcp_scheme netenv \<Rightarrow> tcpenv \<Rightarrow> ('m tcp_scheme \<Rightarrow> 'm tcp_scheme tstep) \<Rightarrow> u64 \<Rightarrow> u8 list \<Rightarrow> 'm tcp_scheme \<Rightarrow> ('m tcp_scheme, u64) scall" where
  "write_retry env te failed this buf u =
     lock_busy ''tcp_write'' this u (\<lambda>u1.
       let st = tcp_getstate this u1
       in if st = TCP_STATEESTABLISHED \<or> st = TCP_STATECLOSEWAIT
          then obind (Some (segment_size this u1)) (\<lambda>mss.
               obind (write_loop env te this mss buf 0 u1) (\<lambda>(r, u2).
                 case r of
                   Write_done \<Rightarrow> Some (Inr (Op_done (of_nat (length buf)), unlock_busy this u2))
                 | Write_full \<Rightarrow> Some (Inr (Op_wait, u2))
                 | Write_failed \<Rightarrow> obind (failed (tcp_setstate this TCP_STATECLOSED u2)) (\<lambda>(_, u3).
                     Some (Inr (Op_error (Some ECONNRESET), unlock_busy this u3)))))
          else Some (Inr (if st = TCP_STATECLOSED then Op_error (Some ENOTCONN)
                          else if st = TCP_STATELISTEN \<or> st = TCP_STATESYNSENT \<or> st = TCP_STATESYNRECV then Op_error (Some ENOBUFS)
                          else if st = TCP_STATEFINWAIT1 \<or> st = TCP_STATEFINWAIT2 then Op_error (Some EINVAL)
                          else Op_done 0, unlock_busy this u1)))"

definition tcp_write ::
  "'m tcp_scheme netenv \<Rightarrow> tcpenv \<Rightarrow> u64 \<Rightarrow> u8 list \<Rightarrow> 'm tcp_scheme \<Rightarrow> ('m tcp_scheme, u64) scall" where
  "tcp_write env te this buf u =
     (if ts_state (tcp_at u this) \<noteq> SOCKET_CONNECTED then Some (Inr (Op_error (Some ENOTCONN), unlock_busy this u))
      else write_retry env te (tcp_close env te this) this buf u)"

definition tcp_sendmsg ::
  "'m tcp_scheme netenv \<Rightarrow> tcpenv \<Rightarrow> u64 \<Rightarrow> bool \<Rightarrow> u8 list list \<Rightarrow> 'm tcp_scheme \<Rightarrow> ('m tcp_scheme, u64) scall" where
  "tcp_sendmsg env te this named bufs u =
     (if ts_state (tcp_at u this) \<noteq> SOCKET_CONNECTED \<or> named then Some (Inr (Op_error (Some ENOTCONN), unlock_busy this u))
      else write_retry env te (tcp_unref env te this) this (concat bufs) u)"

subsection \<open>Listening\<close>

text \<open>One turn of \<open>tcp_accept\<close>: without a connection it waits for \<open>connect_event\<close>.\<close>

definition tcp_accept :: "abi \<Rightarrow> sock_abi \<Rightarrow> u64 \<Rightarrow> u32 \<Rightarrow> 'm tcp_scheme \<Rightarrow> ('m tcp_scheme, u64 \<times> sockaddr) scall" where
  "tcp_accept a sa this dflags u =
     (let k = tcp_at u this
      in if ts_backlog_i k = 0 then Some (Inr (if flag_on dflags (O_NONBLOCK a) then Op_error (Some EWOULDBLOCK) else Op_wait, u))
         else obind (Some (arr_get (ts_backlog k) 0)) (\<lambda>connection.
              obind (Some (backlog_shift (ts_backlog_i k) (ts_backlog k))) (\<lambda>bl.
                let u1 = put_tcp this (\<lambda>k. k\<lparr>ts_backlog := bl, ts_backlog_i := ts_backlog_i k - 1\<rparr>) u;
                    c = tcp_at u1 connection
                in if ts_freed c then Some (Inl UseAfterFree)
                   else Some (Inr (Op_done (connection, Sockaddr_in (AF_INET sa) (tc_remoteport (ts_conn c)) (tc_remote (ts_conn c))), u1)))))"

definition tcp_listen :: "u64 \<Rightarrow> 'm tcp_scheme \<Rightarrow> ('m tcp_scheme, unit) scall" where
  "tcp_listen this u =
     (if ts_state (tcp_at u this) = SOCKET_CONNECTED then Some (Inr (Op_error (Some EISCONN), u))
      else if ts_state (tcp_at u this) \<noteq> SOCKET_BOUND then Some (Inr (Op_error (Some EDESTADDRREQ), u))
      else Some (Inr (Op_done (), tcp_setstate this TCP_STATELISTEN u)))"

definition tcp_bind :: "sock_abi \<Rightarrow> u64 \<Rightarrow> sockaddr \<Rightarrow> 'm tcp_scheme \<Rightarrow> ('m tcp_scheme, unit) scall" where
  "tcp_bind sa this addr u =
     (case addr of
        Sockaddr_in family port ip \<Rightarrow>
          if family \<noteq> AF_INET sa then Some (Inr (Op_error (Some EINVAL), u))
          else if ip \<noteq> INADDR_ANY \<and> net_findadapterbyip ip u = 0 then Some (Inr (Op_error (Some EADDRNOTAVAIL), u))
          else obind (Some (if ip = INADDR_ANY
                            then if sock_adapter u this \<noteq> 0 then net_unbindsocket (sock_adapter u this) this u else Inr u
                            else net_bindsocket (net_findadapterbyip ip u) this u)) (\<lambda>u1.
               let (ok, u2) = tcp_acquireport this (bswap16 (ts_port (tcp_at u1 this))) (put_tcp this (\<lambda>k. k\<lparr>ts_localaddr := addr\<rparr>) u1)
               in if ok then Some (Inr (Op_done (), put_tcp this (\<lambda>k. k\<lparr>ts_bound := True\<rparr>) u2))
                  else obind (Some (if sock_adapter u2 this \<noteq> 0 then net_unbindsocket (sock_adapter u2 this) this u2 else Inr u2))
                         (\<lambda>u3. Some (Inr (Op_error (Some EINVAL), u3))))
      | _ \<Rightarrow> Some (Inr (Op_error (Some EINVAL), u)))"

subsection \<open>Options and names\<close>

definition tcp_inet :: "tcp_socket \<Rightarrow> inetsocket" where
  "tcp_inet k = \<lparr>in_family = ts_family k, in_protocol = ts_protocol k, in_state = ts_state k,
     in_canbroadcast = ts_canbroadcast k, in_canroute = ts_canroute k\<rparr>"

text \<open>The option \<open>TCP_MAXSEG\<close> is a constant of the C library; \<open>opt\<close> says what an option of level \<open>SOL_SOCKET\<close> is called.\<close>

definition tcp_getsockopt ::
  "int \<Rightarrow> int \<Rightarrow> (int \<Rightarrow> sockopt) \<Rightarrow> sock_abi \<Rightarrow> u64 \<Rightarrow> int \<Rightarrow> int \<Rightarrow> nat \<Rightarrow> 'm tcp_scheme \<Rightarrow> ('m tcp_scheme, u8 list) scall" where
  "tcp_getsockopt SOL_SOCKET TCP_MAXSEG opt sa this level optname optlen u =
     (if level = SOL_SOCKET
      then obind (Some (net_getsockopt sa this (opt optname) optlen (tcp_inet (tcp_at u this)) u)) (\<lambda>r.
        Some (Inr (Op_done (case r of Inl _ \<Rightarrow> [] | Inr val \<Rightarrow> val), u)))
      else if level = uint IPPROTO_TCP \<and> optname = TCP_MAXSEG \<and> optlen \<ge> 4
      then Some (Inr (Op_done (le32 (ucast (op_maxseg (ts_opts (tcp_at u this))))), u))
      else Some (Inr (Op_error (Some EINVAL), u)))"

definition tcp_setsockopt ::
  "int \<Rightarrow> int \<Rightarrow> (int \<Rightarrow> sockopt) \<Rightarrow> sock_abi \<Rightarrow> u64 \<Rightarrow> int \<Rightarrow> int \<Rightarrow> u8 list \<Rightarrow> 'm tcp_scheme \<Rightarrow> ('m tcp_scheme, int) scall" where
  "tcp_setsockopt SOL_SOCKET TCP_MAXSEG opt sa this level optname optval u =
     (if level = SOL_SOCKET
      then obind (Some (net_setsockopt sa this (opt optname) optval (tcp_inet (tcp_at u this)) u)) (\<lambda>(_, k', u1).
        Some (Inr (Op_done 0, put_tcp this (\<lambda>k. k\<lparr>ts_canbroadcast := in_canbroadcast k', ts_canroute := in_canroute k'\<rparr>) u1)))
      else if level = uint IPPROTO_TCP \<and> optname = TCP_MAXSEG \<and> length optval \<ge> 4
      then Some (Inr (Op_done 0, put_tcp this (\<lambda>k. k\<lparr>ts_opts := (ts_opts k)\<lparr>op_maxseg := ucast (get32 optval 0)\<rparr>\<rparr>) u))
      else Some (Inr (Op_error (Some EINVAL), u)))"

definition tcp_getpeername :: "u64 \<Rightarrow> nat \<Rightarrow> 'm tcp_scheme \<Rightarrow> ('m tcp_scheme, sockaddr \<times> nat) scall" where
  "tcp_getpeername this len u =
     (if ts_state (tcp_at u this) \<noteq> SOCKET_CONNECTED then Some (Inr (Op_error (Some ENOTCONN), u))
      else Some (Inr (Op_done (ts_peeraddr (tcp_at u this), in_name_len len), u)))"

definition tcp_getsockname :: "u64 \<Rightarrow> nat \<Rightarrow> 'm tcp_scheme \<Rightarrow> ('m tcp_scheme, (sockaddr \<times> nat) option) scall" where
  "tcp_getsockname this len u =
     (let k = tcp_at u this
      in if \<not> ts_bound k \<and> (tcpstate k = TCP_STATECLOSED \<or> tcpstate k = TCP_STATESYNSENT \<or> tcpstate k = TCP_STATESYNRECV)
         then Some (Inr (Op_done None, u))
         else Some (Inr (Op_done (Some (ts_localaddr k, in_name_len len)), u)))"

end
