(* ===== verification/Lyre_Handshake.thy ===== *)
theory Lyre_Handshake
  imports Lyre_Tcp
begin

section \<open>Connections\<close>

text \<open>
  What the TCP code does with connections between sockets of the machine itself: the segments go
  through the queue of the adapter with the address, which is the way every packet to an own address
  takes.
\<close>

unbundle bit_operations_syntax

subsection \<open>The state of the sockets\<close>

lemma put_tcp_simps [simp]:
  "tcp_at (put_tcp p f u) q = (if q = p then f (tcp_at u p) else tcp_at u q)"
  "tcp_sockets (put_tcp p f u) = tcp_sockets u" "sock_adapter (put_tcp p f u) = sock_adapter u"
  "adapter_at (put_tcp p f u) = adapter_at u" "net_adapters (put_tcp p f u) = net_adapters u"
  "net_portbitmap (put_tcp p f u) = net_portbitmap u" "net_portbitmaplock (put_tcp p f u) = net_portbitmaplock u"
  by (simp_all add: put_tcp_def)

lemma put_adapter_tcp [simp]:
  "tcp_at (put_adapter ad f u) = tcp_at u" "tcp_sockets (put_adapter ad f u) = tcp_sockets u"
  "sock_adapter (put_adapter ad f u) = sock_adapter u" "net_portbitmap (put_adapter ad f u) = net_portbitmap u"
  "net_portbitmaplock (put_adapter ad f u) = net_portbitmaplock u"
  by (simp_all add: put_adapter_def)

lemma set_adapter_simps [simp]:
  "tcp_at (set_adapter p ad u) = tcp_at u" "tcp_sockets (set_adapter p ad u) = tcp_sockets u"
  "sock_adapter (set_adapter p ad u) = (sock_adapter u)(p := ad)" "adapter_at (set_adapter p ad u) = adapter_at u"
  "net_adapters (set_adapter p ad u) = net_adapters u" "net_portbitmap (set_adapter p ad u) = net_portbitmap u"
  "net_portbitmaplock (set_adapter p ad u) = net_portbitmaplock u"
  by (simp_all add: set_adapter_def)

lemmas tcp_state_defs = tcp_setstate_def tcp_getstate_def ts_trigger_def ts_connect_trigger_def unlock_busy_def

lemma lock_busy_unlocked:
  "\<not> ts_freed (tcp_at u p) \<Longrightarrow> unlocked (busyon (tcp_at u p)) \<Longrightarrow>
   lock_busy caller p u f = f (put_tcp p (\<lambda>k. k\<lparr>busyon := (busyon k)\<lparr>lock_word := 1, last_acquirer := caller\<rparr>\<rparr>) u)"
  by (simp add: lock_busy_def put_tcp_def spinlock_acquire_unlocked)

lemma lock_busy_freed: "ts_freed (tcp_at u p) \<Longrightarrow> lock_busy caller p u f = Some (Inl UseAfterFree)"
  by (simp add: lock_busy_def)

subsection \<open>Segments\<close>

lemma length_tcpheader [simp]: "length (tcpheader_bytes h c) = 20"
  by (simp add: tcpheader_bytes_def)

lemma tcpheader_of_bytes:
  assumes "th_doff h < 16"
  shows "tcpheader_of (tcpheader_bytes h c @ rest) = h"
proof -
  have n: "(tcpheader_bytes h c @ rest) ! 12 = push_bit 4 (th_doff h)" "(tcpheader_bytes h c @ rest) ! 13 = th_flags h"
    by (simp_all add: tcpheader_bytes_def nth_append)
  have d: "drop_bit 4 (push_bit 4 (th_doff h)) = th_doff h"
    using high_field [of "th_doff h" 4 0] assms by simp
  let ?ports = "le16 (th_srcport h) @ le16 (th_destport h)"
  let ?nums = "le32 (th_sequence h) @ le32 (th_acknumber h)"
  show ?thesis
    using get16_le16 [of "[]" 0 "th_srcport h"] get16_le16 [of "le16 (th_srcport h)" 2 "th_destport h"]
      get32_le32 [of ?ports 4 "th_sequence h"] get32_le32 [of "?ports @ le32 (th_sequence h)" 8 "th_acknumber h"]
      get16_le16 [of "?ports @ ?nums @ [push_bit 4 (th_doff h), th_flags h]" 14 "th_winsize h"]
    by (simp add: tcpheader_of_def n d) (simp add: tcpheader_bytes_def)
qed


text \<open>A segment as its receiver reads it.\<close>

definition seg_header :: "tcp_connection \<Rightarrow> u32 \<Rightarrow> u32 \<Rightarrow> u8 \<Rightarrow> u16 \<Rightarrow> nat \<Rightarrow> tcp_header" where
  "seg_header conn seq ack flags window optlen = \<lparr>th_srcport = tc_localport conn, th_destport = tc_remoteport conn,
     th_sequence = bswap32 seq, th_acknumber = bswap32 ack, th_doff = of_nat ((TCPHEADER_SIZE + optlen) div 4), th_flags = flags,
     th_winsize = bswap16 window\<rparr>"

lemma seg_header_simps [simp]:
  "seq_of (seg_header conn seq ack flags window n) = seq" "ack_of (seg_header conn seq ack flags window n) = ack"
  "has f (seg_header conn seq ack flags window n) \<longleftrightarrow> flags AND f \<noteq> 0"
  "th_srcport (seg_header conn seq ack flags window n) = tc_localport conn"
  "th_destport (seg_header conn seq ack flags window n) = tc_remoteport conn"
  by (simp_all add: seg_header_def seq_of_def ack_of_def has_def)

lemma seg_header_doff: "4 dvd n \<Longrightarrow> n \<le> 40 \<Longrightarrow> 4 * unat (th_doff (seg_header conn seq ack flags window n)) = 20 + n"
proof -
  assume "4 dvd n" "n \<le> 40"
  then obtain k where k: "n = 4 * k" "k \<le> 10" by (auto simp: dvd_def)
  have "unat (of_nat (5 + k) :: u8) = 5 + k" using k(2) by (simp only: unat_of_nat) simp
  with k show ?thesis by (simp add: seg_header_def TCPHEADER_SIZE_def)
qed

lemma segment_bytes_header:
  assumes "4 dvd length opts" "length opts \<le> 40"
  shows "tcpheader_of (segment_bytes ip conn seq ack flags window opts data) = seg_header conn seq ack flags window (length opts)"
    and "length (segment_bytes ip conn seq ack flags window opts data) = 20 + length opts + length data"
    and "drop (20 + length opts) (segment_bytes ip conn seq ack flags window opts data) = data"
proof -
  have "4 * unat (th_doff (seg_header conn seq ack flags window (length opts))) \<le> 60" using seg_header_doff [OF assms] assms(2) by simp
  then have "th_doff (seg_header conn seq ack flags window (length opts)) < 16" by (simp add: word_less_nat_alt)
  then show "tcpheader_of (segment_bytes ip conn seq ack flags window opts data) = seg_header conn seq ack flags window (length opts)"
    unfolding segment_bytes_def Let_def seg_header_def [symmetric] by (rule tcpheader_of_bytes)
qed (simp_all add: segment_bytes_def Let_def)

lemma segment_options_length:
  "4 dvd length (segment_options te ad flags opts u)" "length (segment_options te ad flags opts u) \<le> 40"
  by (auto simp: segment_options_def split: option.splits)

lemmas sent_segment = segment_bytes_header [OF segment_options_length]

text \<open>A packet without data, taken apart: \<open>SYN\<close> and \<open>FIN\<close> count in its length.\<close>

lemma packet_of_segment:
  assumes "4 dvd length opts" "length opts \<le> 40" "length data < 65000"
    and "seg = segment_bytes ip conn seq ack flags window opts data"
  shows "packet_of seg (of_nat (length seg) - 20) = Inr \<lparr>pk_header = seg_header conn seq ack flags window (length opts),
    pk_len = of_nat (length data), pk_data = data,
    pk_seglen = of_nat (length data) + (if flags AND F_SYN \<noteq> 0 then 1 else 0) + (if flags AND F_FIN \<noteq> 0 then 1 else 0)\<rparr>"
proof -
  note b = segment_bytes_header [OF assms(1,2), of ip conn seq ack flags window data, folded assms(4)]
  have n: "(of_nat (length seg) - 20 - (of_nat (20 + length opts) - 20) :: u64) = of_nat (length data)" by (simp add: b(2))
  have "unat (of_nat (length data) :: u64) = length data" using assms(3) by (intro unat_of_nat_small) simp
  then have n32: "ucast (of_nat (length data) :: u64) = (of_nat (length data) :: u32)" using of_nat_unat [of "of_nat (length data) :: u64", where 'a = "u32"] by (simp add: of_nat_unat)
  have u32: "unat (of_nat (length data) :: u32) = length data" using assms(3) by (simp add: unat_of_nat)
  have u64: "ucast (of_nat (length data) :: u32) = (of_nat (length data) :: u64)"
    using assms(3) by (simp add: unsigned_of_nat take_bit_nat_eq_self)
  have "copy_from seg (20 + length opts) (length data) = Inr data" unfolding copy_from_def b(2,3) by simp
  then show ?thesis
    unfolding packet_of_def Let_def b(1) seg_header_doff [OF assms(1,2)] n n32 u32 u64 by (simp add: b(2) TCPHEADER_SIZE_def)
qed


subsection \<open>Packets to the machine itself\<close>

definition own_net :: "u64 \<Rightarrow> u32 \<Rightarrow> 'm tcp_scheme \<Rightarrow> bool" where
  "own_net ad ip u \<longleftrightarrow> ad \<noteq> 0 \<and> is_eth ad u \<and> na_ip (adapter_at u ad) = ip \<and> net_findadapterbyip ip u = ad \<and>
     ip \<noteq> INADDR_ANY \<and> ip \<noteq> INADDR_BROADCAST \<and> length (na_mac (adapter_at u ad)) = 6 \<and> unlocked (cachelock (adapter_at u ad))"

text \<open>What sending and receiving leave alone.\<close>

definition kept :: "'m tcp_scheme \<Rightarrow> 'm tcp_scheme \<Rightarrow> bool" where
  "kept u u' \<longleftrightarrow> tcp_at u' = tcp_at u \<and> tcp_sockets u' = tcp_sockets u \<and> sock_adapter u' = sock_adapter u \<and>
     net_portbitmap u' = net_portbitmap u \<and>
     (\<forall>c. boundsocks (adapter_at u' c) = boundsocks (adapter_at u c) \<and> socklock (adapter_at u' c) = socklock (adapter_at u c))"

definition own_frame :: "u64 \<Rightarrow> u32 \<Rightarrow> u8 list \<Rightarrow> 'm tcp_scheme \<Rightarrow> u8 list" where
  "own_frame ad ip seg u = etherframe_bytes (na_mac (adapter_at u ad)) (na_mac (adapter_at u ad)) (bswap16 NET_ETHPROTOIPV4) @
     inet_packet ad ip IPPROTO_TCP seg u"

lemma own_net_adapter:
  assumes "own_net ad ip u" "unlocked (cachelock (f (adapter_at u ad)))"
    and "\<And>d. na_ip (f d) = na_ip d" "\<And>d. na_type (f d) = na_type d" "\<And>d. na_mac (f d) = na_mac d"
  shows "own_net ad ip (put_adapter ad f u)"
  using assms findadapterbyip_cong [of "put_adapter ad f u" u] by (simp add: own_net_def is_eth_def)

lemma own_net_cong:
  "adapter_at u' = adapter_at u \<Longrightarrow> net_adapters u' = net_adapters u \<Longrightarrow> own_net ad ip u' = own_net ad ip u"
  using findadapterbyip_cong [of u' u] by (simp add: own_net_def is_eth_def)

lemma own_net_put [simp]: "own_net ad ip (put_tcp p f u) = own_net ad ip u" "own_net ad ip (set_adapter p a u) = own_net ad ip u"
  by (rule own_net_cong; simp)+

lemma sendsegment_own:
  assumes "own_net ad ip u" "tc_remote conn = ip"
  shows "\<exists>u'. tcp_sendsegment env te ad seq ack flags window data conn opts u = Some (Inr (Inr (), u')) \<and> own_net ad ip u' \<and> kept u u' \<and>
    na_cache (adapter_at u' ad) = na_cache (adapter_at u ad) @
      [own_frame ad ip (segment_bytes ip conn seq ack flags window (segment_options te ad flags opts u) data) u]"
proof -
  have l: "on_link (adapter_at u ad) ip" using assms(1) by (simp add: own_net_def on_link_def)
  let ?u1 = "put_adapter ad (\<lambda>d. d\<lparr>ipframe := ipframe d + 1\<rparr>) u"
  have o1: "own_net ad ip ?u1" by (rule own_net_adapter [OF assms(1)]) (use assms(1) in \<open>simp_all add: own_net_def\<close>)
  obtain k where k: "unlocked k" and sent: "net_sendinet env ad (na_ip (adapter_at u ad)) ip IPPROTO_TCP
      (segment_bytes ip conn seq ack flags window (segment_options te ad flags opts u) data) u =
    Some (Inr (Inr (), put_adapter ad (\<lambda>d. d\<lparr>na_cache := na_cache d @
       [own_frame ad ip (segment_bytes ip conn seq ack flags window (segment_options te ad flags opts u) data) u],
       cachelock := k, packet_triggers := packet_triggers d + 1\<rparr>) ?u1))"
    using send_to_own_adapter_state [of ad u ip ad env IPPROTO_TCP
        "segment_bytes ip conn seq ack flags window (segment_options te ad flags opts u) data"] assms l
    by (auto simp: own_net_def own_frame_def)
  have "own_net ad ip (put_adapter ad (\<lambda>d. d\<lparr>na_cache := na_cache d @
       [own_frame ad ip (segment_bytes ip conn seq ack flags window (segment_options te ad flags opts u) data) u],
       cachelock := k, packet_triggers := packet_triggers d + 1\<rparr>) ?u1)"
    by (rule own_net_adapter [OF o1]) (simp_all add: k)
  moreover have "ad \<noteq> 0" "na_ip (adapter_at u ad) = ip" using assms(1) by (simp_all add: own_net_def)
  ultimately show ?thesis
    using sent assms(2) by (simp add: tcp_sendsegment_def kept_def)
qed

lemma ifhandler_own:
  assumes "own_net ad ip u" "length seg < 65516" "na_cache (adapter_at u ad) = own_frame ad ip seg v # packets" "own_net ad ip v"
  shows "\<exists>u' h. net_ifhandler env tcp udp ad u = tcp ad h seg (of_nat (length seg)) u' \<and> ip_src h = ip \<and> ip_dest h = ip \<and>
    own_net ad ip u' \<and> kept u u' \<and> na_cache (adapter_at u' ad) = packets"
proof -
  have e: "is_eth ad u" "unlocked (cachelock (adapter_at u ad))" "length (na_mac (adapter_at v ad)) = 6" "na_ip (adapter_at v ad) = ip"
    using assms(1,4) by (simp_all add: own_net_def)
  obtain l h where l: "unlocked l" and "ip_src h = ip" "ip_dest h = ip"
      "net_ifhandler env tcp udp ad u = tcp ad h seg (of_nat (length seg)) (put_adapter ad (\<lambda>d. d\<lparr>na_cache := packets, cachelock := l\<rparr>) u)"
    using sent_packet_handled [OF e(1,2,3,3) assms(2,3) [unfolded own_frame_def], of env tcp udp] e(4)
    by (auto simp: Let_def IPPROTO_ICMP_def IPPROTO_TCP_def)
  moreover have "own_net ad ip (put_adapter ad (\<lambda>d. d\<lparr>na_cache := packets, cachelock := l\<rparr>) u)"
    by (rule own_net_adapter [OF assms(1)]) (simp_all add: l)
  ultimately show ?thesis by (auto simp: kept_def intro!: exI [of _ "put_adapter ad (\<lambda>d. d\<lparr>na_cache := packets, cachelock := l\<rparr>) u"])
qed


subsection \<open>Connecting\<close>

lemma route_to_self:
  assumes "own_net ad ip u" "net_adapters u = [ad]"
  shows "net_route env 0 INADDR_ANY ip u = Inr (Inr (ad, na_mac (adapter_at u ad)), u)"
  using assms by (simp add: net_route_def net_lookup_def own_net_def on_link_def Let_def)

lemma bindsocket_ok:
  assumes "unlocked (socklock (adapter_at u ad))"
  shows "\<exists>l. unlocked l \<and> net_bindsocket ad p u =
    Inr (put_adapter ad (\<lambda>d. d\<lparr>boundsocks := boundsocks d @ [p], socklock := l\<rparr>) (u\<lparr>sock_adapter := (sock_adapter u)(p := ad)\<rparr>))"
  using assms by (simp add: net_bindsocket_def spinlock_acquire_unlocked) (intro exI conjI, rule unlocked_release, rule refl)

text \<open>\<open>tcp_connect\<close> up to where it sends the SYN.\<close>

lemma connect_prepares:
  fixes u :: "'m tcp_scheme"
  assumes "own_net ad ip u" "net_adapters u = [ad]" "sock_adapter u p = 0" "unlocked (socklock (adapter_at u ad))"
    and "length (net_portbitmap u) = 16383" "unlocked (net_portbitmaplock u)" "\<not> bm_bit (net_portbitmap u) 0"
    and "tcpstate (tcp_at u p) = TCP_STATECLOSED" "ts_port (tcp_at u p) = 0"
    and "conn = \<lparr>tc_local = ip, tc_remote = ip, tc_localport = bswap16 49152, tc_remoteport = dport\<rparr>"
  shows "\<exists>w k. tcp_connect env te p (Sockaddr_in fam dport ip) u = obind (tcp_send env te p F_SYN [] w) (\<lambda>(r, u7).
      case r of
        Inl _ \<Rightarrow> obind (tcp_close env te p (tcp_setstate p TCP_STATECLOSED u7)) (\<lambda>(_, u8). Some (Inr (Op_error (Some ECONNRESET), u8)))
      | Inr _ \<Rightarrow> Some (Inr (Op_wait, put_tcp p (\<lambda>k. k\<lparr>snduna := sndis k, sndnxt := sndis k + 1\<rparr>) u7))) \<and>
    own_net ad ip w \<and> tcp_at w = (tcp_at u)(p := k) \<and> tcp_sockets w = tcp_sockets u @ [p, p] \<and> sock_adapter w p = ad \<and>
    bm_size (net_portbitmap w) = 131064 \<and> boundsocks (adapter_at w ad) = boundsocks (adapter_at u ad) @ [p] \<and>
    unlocked (socklock (adapter_at w ad)) \<and> na_cache (adapter_at w ad) = na_cache (adapter_at u ad) \<and> ts_conn k = conn \<and>
    tcpstate k = TCP_STATESYNSENT \<and> sndis k = te_random te \<and> rq_block k = rq_block (tcp_at u p) \<and> ts_freed k = ts_freed (tcp_at u p) \<and>
    busyon k = busyon (tcp_at u p) \<and> ts_lock k = ts_lock (tcp_at u p)"
proof -
  define w where "w = set_adapter p ad (put_tcp p (\<lambda>k. k\<lparr>ts_peeraddr := Sockaddr_in fam dport ip\<rparr>) u)"
  have route: "net_route env 0 INADDR_ANY ip (put_tcp p (\<lambda>k. k\<lparr>ts_peeraddr := Sockaddr_in fam dport ip\<rparr>) u) =
      Inr (Inr (ad, na_mac (adapter_at u ad)), put_tcp p (\<lambda>k. k\<lparr>ts_peeraddr := Sockaddr_in fam dport ip\<rparr>) u)"
    using route_to_self [of ad ip "put_tcp p (\<lambda>k. k\<lparr>ts_peeraddr := Sockaddr_in fam dport ip\<rparr>) u" env] assms(1,2) by simp
  obtain q bm l where alloc: "net_allocport w = Inr (q, w\<lparr>net_portbitmap := bm, net_portbitmaplock := l\<rparr>)" "bm_size bm = 131064" "unat q = 49152"
    using allocport_lowest [of w 0] assms(5-7) by (auto simp: w_def)
  have q: "q = 49152" using alloc(3) by (simp add: word_unat_eq_iff)
  define w3 where "w3 = put_tcp p (\<lambda>k. k\<lparr>ts_port := bswap16 q\<rparr>) (w\<lparr>net_portbitmap := bm, net_portbitmaplock := l\<rparr>)"
  define w4 where "w4 = snd (tcp_acquireport p q w3)"
  define w5 where "w5 = put_tcp p (\<lambda>k. k\<lparr>rcvwnd := ucast (st_size (rcvbuf k)), sndis := te_random te\<rparr>) w4"
  have at: "adapter_at w5 = adapter_at u" "net_adapters w5 = net_adapters u" "tcp_sockets w5 = tcp_sockets u @ [p]" "net_portbitmap w5 = bm"
    "sock_adapter w5 = (sock_adapter u)(p := ad)"
    by (simp_all add: w5_def w4_def w3_def w_def tcp_acquireport_def q Let_def)
  obtain k where k: "tcp_at w5 = (tcp_at u)(p := k)" "ts_freed k = ts_freed (tcp_at u p)" "busyon k = busyon (tcp_at u p)"
    "ts_lock k = ts_lock (tcp_at u p)" "rq_block k = rq_block (tcp_at u p)" "sndis k = te_random te" "ts_port k = bswap16 49152"
    by (auto simp: w5_def w4_def w3_def w_def tcp_acquireport_def q Let_def put_tcp_def)
  obtain m where m: "unlocked m" and bind: "net_bindsocket ad p w5 =
      Inr (put_adapter ad (\<lambda>d. d\<lparr>boundsocks := boundsocks d @ [p], socklock := m\<rparr>) (w5\<lparr>sock_adapter := (sock_adapter w5)(p := ad)\<rparr>))"
    using bindsocket_ok [of w5 ad p] assms(4) at(1) by auto
  define w6 where "w6 = put_adapter ad (\<lambda>d. d\<lparr>boundsocks := boundsocks d @ [p], socklock := m\<rparr>) (w5\<lparr>sock_adapter := (sock_adapter w5)(p := ad)\<rparr>)"
  define w7 where "w7 = put_tcp p (\<lambda>k. k\<lparr>ts_conn := conn, tcpstate := TCP_STATESYNSENT,
      connecttimeout := timespec_add (te_now te) \<lparr>tv_sec = 5, tv_nsec = 0\<rparr>\<rparr>) (w6\<lparr>tcp_sockets := tcp_sockets w6 @ [p]\<rparr>)"
  have ip: "na_ip (adapter_at u ad) = ip" using assms(1) by (simp add: own_net_def)
  have conn: "\<lparr>tc_local = na_ip (adapter_at w6 ad), tc_remote = ip, tc_localport = ts_port (tcp_at w6 p), tc_remoteport = dport\<rparr> = conn"
    using ip at(1) k(7) by (simp add: w6_def k(1) assms(10))
  have "bswap16 49152 \<noteq> 0" by simp
  then have run: "tcp_connect env te p (Sockaddr_in fam dport ip) u = obind (tcp_send env te p F_SYN [] w7) (\<lambda>(r, u7).
      case r of
        Inl _ \<Rightarrow> obind (tcp_close env te p (tcp_setstate p TCP_STATECLOSED u7)) (\<lambda>(_, u8). Some (Inr (Op_error (Some ECONNRESET), u8)))
      | Inr _ \<Rightarrow> Some (Inr (Op_wait, put_tcp p (\<lambda>k. k\<lparr>snduna := sndis k, sndnxt := sndis k + 1\<rparr>) u7)))"
    unfolding tcp_connect_def Let_def addr_fields_def w7_def conn [symmetric] w6_def
    using assms(3,8,9) route alloc(1) bind w_def w3_def w4_def w5_def q by (simp add: Let_def)
  have "own_net ad ip w5" using assms(1) own_net_cong [OF at(1,2)] by simp
  then have "own_net ad ip w6" unfolding w6_def
    by (intro own_net_adapter) (simp_all add: own_net_cong [of "w5\<lparr>sock_adapter := (sock_adapter w5)(p := ad)\<rparr>" w5], simp add: own_net_def)
  then have "own_net ad ip w7" by (simp add: w7_def own_net_cong [of "w6\<lparr>tcp_sockets := tcp_sockets w6 @ [p]\<rparr>" w6])
  moreover have "tcp_at w7 = (tcp_at u)(p := tcp_at w7 p)" by (simp add: w7_def w6_def k(1) put_tcp_def)
  ultimately show ?thesis
    by (intro exI [of _ w7] exI [of _ "tcp_at w7 p"]) (use at k m alloc(2) run in \<open>simp add: w7_def w6_def\<close>)
qed

text \<open>Sending the SYN to the machine itself.\<close>

lemma send_syn_own:
  fixes w :: "'m tcp_scheme"
  assumes "own_net ad ip w" "sock_adapter w p = ad" "k = tcp_at w p" "rq_block k \<noteq> Block_freed" "tc_remote (ts_conn k) = ip" "sndis k = r"
  shows "\<exists>u' (v :: 'm tcp_scheme) opts e. tcp_send env te p F_SYN [] w = Some (Inr (Inr (), u')) \<and>
    kept (put_tcp p (\<lambda>k. k\<lparr>rq_block := Block_live, retransmitqueue := retransmitqueue k @ [e]\<rparr>) w) u' \<and>
    own_net ad ip u' \<and> own_net ad ip v \<and> 4 dvd length opts \<and> length opts \<le> 40 \<and>
    na_cache (adapter_at u' ad) = na_cache (adapter_at w ad) @
      [own_frame ad ip (segment_bytes ip (ts_conn k) r (rcvnxt k) F_SYN (ucast (rcvwnd k)) opts []) v]"
proof -
  define e where "e = \<lparr>re_first = te_now te, re_last = te_now te, re_rto = 200000, re_seq = r, re_flags = F_SYN, re_data = []\<rparr>"
  define v where "v = put_tcp p (\<lambda>k. k\<lparr>rq_block := Block_live, retransmitqueue := retransmitqueue k @ [e]\<rparr>) w"
  let ?opts = "segment_options te ad F_SYN (Some (ts_opts k)) v"
  have own: "own_net ad ip v" using assms(1) by (simp add: v_def)
  have send: "tcp_send env te p F_SYN [] w = tcp_sendsegment env te ad r (rcvnxt k) F_SYN (ucast (rcvwnd k)) [] (ts_conn k) (Some (ts_opts k)) v"
    using assms(2,3,4,6) unfolding tcp_send_def Let_def tcp_queueforretransmit_def by (simp add: F_SYN_def v_def e_def)
  obtain u' where u': "tcp_send env te p F_SYN [] w = Some (Inr (Inr (), u'))" "own_net ad ip u'" "kept v u'"
      "na_cache (adapter_at u' ad) = na_cache (adapter_at v ad) @ [own_frame ad ip (segment_bytes ip (ts_conn k) r (rcvnxt k) F_SYN (ucast (rcvwnd k)) ?opts []) v]"
    unfolding send using sendsegment_own [OF own assms(5)] by blast
  have nc: "na_cache (adapter_at v ad) = na_cache (adapter_at w ad)" by (simp add: v_def)
  show ?thesis by (intro exI conjI, rule u'(1), rule u'(3) [unfolded v_def], rule u'(2), rule own)
    (rule segment_options_length u'(4) [unfolded nc])+
qed

lemma connect_own:
  fixes u :: "'m tcp_scheme"
  assumes "own_net ad ip u" "net_adapters u = [ad]" "sock_adapter u p = 0" "unlocked (socklock (adapter_at u ad))"
    and "length (net_portbitmap u) = 16383" "unlocked (net_portbitmaplock u)" "\<not> bm_bit (net_portbitmap u) 0"
    and "tcpstate (tcp_at u p) = TCP_STATECLOSED" "ts_port (tcp_at u p) = 0" "rq_block (tcp_at u p) \<noteq> Block_freed"
    and "conn = \<lparr>tc_local = ip, tc_remote = ip, tc_localport = bswap16 49152, tc_remoteport = dport\<rparr>"
  shows "\<exists>u' (v :: 'm tcp_scheme) ack window opts k. tcp_connect env te p (Sockaddr_in fam dport ip) u = Some (Inr (Op_wait, u')) \<and> own_net ad ip u' \<and>
    tcp_at u' = (tcp_at u)(p := k) \<and> ts_conn k = conn \<and> tcpstate k = TCP_STATESYNSENT \<and> rq_block k = Block_live \<and>
    sndis k = te_random te \<and> snduna k = te_random te \<and> sndnxt k = te_random te + 1 \<and> ts_freed k = ts_freed (tcp_at u p) \<and>
    busyon k = busyon (tcp_at u p) \<and> ts_lock k = ts_lock (tcp_at u p) \<and>
    tcp_sockets u' = tcp_sockets u @ [p, p] \<and> sock_adapter u' p = ad \<and> bm_size (net_portbitmap u') = 131064 \<and>
    boundsocks (adapter_at u' ad) = boundsocks (adapter_at u ad) @ [p] \<and> unlocked (socklock (adapter_at u' ad)) \<and>
    4 dvd length opts \<and> length opts \<le> 40 \<and> own_net ad ip v \<and>
    na_cache (adapter_at u' ad) = na_cache (adapter_at u ad) @
      [own_frame ad ip (segment_bytes ip conn (te_random te) ack F_SYN window opts []) v]"
proof -
  obtain w k where run: "tcp_connect env te p (Sockaddr_in fam dport ip) u = obind (tcp_send env te p F_SYN [] w) (\<lambda>(r, u7).
      case r of
        Inl _ \<Rightarrow> obind (tcp_close env te p (tcp_setstate p TCP_STATECLOSED u7)) (\<lambda>(_, u8). Some (Inr (Op_error (Some ECONNRESET), u8)))
      | Inr _ \<Rightarrow> Some (Inr (Op_wait, put_tcp p (\<lambda>k. k\<lparr>snduna := sndis k, sndnxt := sndis k + 1\<rparr>) u7)))"
    and w: "own_net ad ip w" "tcp_at w = (tcp_at u)(p := k)" "tcp_sockets w = tcp_sockets u @ [p, p]" "sock_adapter w p = ad"
      "bm_size (net_portbitmap w) = 131064" "boundsocks (adapter_at w ad) = boundsocks (adapter_at u ad) @ [p]"
      "unlocked (socklock (adapter_at w ad))" "na_cache (adapter_at w ad) = na_cache (adapter_at u ad)"
    and k: "ts_conn k = conn" "tcpstate k = TCP_STATESYNSENT" "sndis k = te_random te" "rq_block k = rq_block (tcp_at u p)"
      "ts_freed k = ts_freed (tcp_at u p)" "busyon k = busyon (tcp_at u p)" "ts_lock k = ts_lock (tcp_at u p)"
    using connect_prepares [OF assms(1-9,11)] by blast
  have at: "k = tcp_at w p" "rq_block k \<noteq> Block_freed" "tc_remote (ts_conn k) = ip" using w(2) k(1,4) assms(10,11) by simp_all
  obtain u' v opts e where u': "tcp_send env te p F_SYN [] w = Some (Inr (Inr (), u'))"
      "kept (put_tcp p (\<lambda>k. k\<lparr>rq_block := Block_live, retransmitqueue := retransmitqueue k @ [e]\<rparr>) w) u'"
      "own_net ad ip u'" "own_net ad ip v" "4 dvd length opts" "length opts \<le> 40"
      "na_cache (adapter_at u' ad) = na_cache (adapter_at w ad) @
        [own_frame ad ip (segment_bytes ip (ts_conn k) (te_random te) (rcvnxt k) F_SYN (ucast (rcvwnd k)) opts []) (v :: 'm tcp_scheme)]"
    using send_syn_own [OF w(1,4) at k(3)] by blast
  let ?k = "k\<lparr>rq_block := Block_live, retransmitqueue := retransmitqueue k @ [e], snduna := te_random te, sndnxt := te_random te + 1\<rparr>"
  let ?u = "put_tcp p (\<lambda>k. k\<lparr>snduna := sndis k, sndnxt := sndis k + 1\<rparr>) u'"
  have tcp: "tcp_at ?u = (tcp_at u)(p := ?k)" using u'(2) w(2) k(3) by (simp add: kept_def put_tcp_def)
  have "tcp_connect env te p (Sockaddr_in fam dport ip) u = Some (Inr (Op_wait, ?u))" by (simp add: run u'(1))
  then show ?thesis
    by (intro exI [of _ ?u] exI [of _ v] exI [of _ "rcvnxt k"] exI [of _ "ucast (rcvwnd k)"] exI [of _ opts] exI [of _ ?k])
      (use u' w k in \<open>simp add: tcp kept_def\<close>)
qed

subsection \<open>A refused connection\<close>

lemma syn_refused:
  assumes "own_net ad ip u" "ip_src h = ip" "ip_dest h = ip" "4 dvd length opts" "length opts \<le> 40"
    and "seg = segment_bytes ip conn seq ack F_SYN window opts []"
    and "reply = \<lparr>tc_local = ip, tc_remote = ip, tc_localport = tc_remoteport conn, tc_remoteport = tc_localport conn\<rparr>"
    and "tcp_tryfindsocket reply u = Inr None"
  shows "\<exists>u'. tcp_ontcp a sa env te ad h seg len u = Some (Inr u') \<and> own_net ad ip u' \<and> kept u u' \<and>
    na_cache (adapter_at u' ad) = na_cache (adapter_at u ad) @
      [own_frame ad ip (segment_bytes ip reply 0 (seq + 1) (F_RST OR F_ACK) 0 [] []) u]"
proof -
  note b = segment_bytes_header [OF assms(4,5), of ip conn seq ack F_SYN window "[]", folded assms(6)]
  have d: "4 * unat (th_doff (seg_header conn seq ack F_SYN window (length opts))) = 20 + length opts" by (rule seg_header_doff [OF assms(4,5)])
  have noopts: "segment_options te ad (F_RST OR F_ACK) None u = []" by (simp add: segment_options_def F_RST_def F_ACK_def F_SYN_def)
  obtain u' where u': "tcp_sendsegment env te ad 0 (seq + 1) (F_RST OR F_ACK) 0 [] reply None u = Some (Inr (Inr (), u'))" "own_net ad ip u'" "kept u u'"
      "na_cache (adapter_at u' ad) = na_cache (adapter_at u ad) @ [own_frame ad ip (segment_bytes ip reply 0 (seq + 1) (F_RST OR F_ACK) 0 [] []) u]"
    using sendsegment_own [OF assms(1), of reply env te 0 "seq + 1" "F_RST OR F_ACK" 0 "[]" None] noopts assms(7) by auto
  have "tcp_ontcp a sa env te ad h seg len u = Some (Inr u')"
    unfolding tcp_ontcp_def Let_def b(1) d using assms(2,3,7,8) u'(1) b(2) by (simp add: TCPHEADER_SIZE_def F_RST_def F_ACK_def F_SYN_def)
  with u' show ?thesis by blast
qed

lemma vec_remove_value_member: "x \<in> set xs \<Longrightarrow> vec_remove_value x xs = Inr (remove1 x xs)"
  by (auto simp: vec_remove_value_def)

lemma tcp_release_frees:
  assumes "sock_adapter u p \<noteq> 0" "unlocked (ts_lock (tcp_at u p))" "unlocked (socklock (adapter_at u (sock_adapter u p)))"
    and "p \<in> set (boundsocks (adapter_at u (sock_adapter u p)))" "rq_block (tcp_at u p) \<noteq> Block_freed" "bm_size (net_portbitmap u) = 131064"
  shows "\<exists>u'. tcp_release p u = Some (Inr (True, u')) \<and> ts_freed (tcp_at u' p)"
proof -
  let ?ad = "sock_adapter u p"
  obtain l where l: "spinlock_acquire ''tcp_close'' (ts_lock (tcp_at u p)) = Inr l"
    using assms(2) by (simp add: spinlock_acquire_unlocked)
  let ?u0 = "put_tcp p (\<lambda>k. k\<lparr>ts_lock := l\<rparr>) u"
  obtain socks m where un: "net_unbindsocket ?ad p ?u0 =
      Inr (put_adapter ?ad (\<lambda>d. d\<lparr>boundsocks := socks, socklock := m\<rparr>) (?u0\<lparr>sock_adapter := (sock_adapter u)(p := 0)\<rparr>))"
    using assms(3,4) vec_remove_value_member [OF assms(4)] by (simp add: net_unbindsocket_def spinlock_acquire_unlocked)
  define u2 where "u2 = put_tcp p (\<lambda>k. k\<lparr>ts_lock := spinlock_release (ts_lock k)\<rparr>)
    (put_adapter ?ad (\<lambda>d. d\<lparr>boundsocks := socks, socklock := m\<rparr>) (?u0\<lparr>sock_adapter := (sock_adapter u)(p := 0)\<rparr>))"
  obtain u3 where u3: "tcp_queuecleanup p u2 = Inr u3" "net_portbitmap u3 = net_portbitmap u"
    using assms(5) by (cases "rq_block (tcp_at u p)") (simp_all add: tcp_queuecleanup_def u2_def)
  define u4 where "u4 = u3\<lparr>tcp_sockets := (if p \<in> set (tcp_sockets u3) then remove1 p (tcp_sockets u3) else tcp_sockets u3)\<rparr>"
  obtain u5 where u5: "(if ts_parent (tcp_at u4 p) = 0 then net_releaseport (bswap16 (ts_port (tcp_at u4 p))) u4 else Inr u4) = Inr u5"
    using releaseport_ok [of u4 "bswap16 (ts_port (tcp_at u4 p))"] assms(6) u3(2) by (cases "ts_parent (tcp_at u4 p) = 0") (auto simp: u4_def)
  have "tcp_release p u = Some (Inr (True, put_tcp p (\<lambda>k. k\<lparr>ts_freed := True\<rparr>) u5))"
    unfolding tcp_release_def using assms(1) l un u3(1) [unfolded u2_def] u5 [unfolded u4_def] by (simp add: Let_def)
  then show ?thesis by simp
qed


text \<open>
  Closing a socket that has nothing more to send frees it, and \<open>tcp_netpacket\<close>, which has just let go of its lock for
  that, takes the lock of the freed socket again.
\<close>

lemma close_within_closed:
  assumes "tcpstate (tcp_at u p) = TCP_STATECLOSED" "\<not> ts_freed (tcp_at u p)"
    and "sock_adapter u p \<noteq> 0" "unlocked (ts_lock (tcp_at u p))" "unlocked (socklock (adapter_at u (sock_adapter u p)))"
    and "p \<in> set (boundsocks (adapter_at u (sock_adapter u p)))" "rq_block (tcp_at u p) \<noteq> Block_freed" "bm_size (net_portbitmap u) = 131064"
  shows "close_within env te p u = Some (Inl UseAfterFree)"
proof -
  define v where "v = unlock_busy p u"
  have fr: "\<not> ts_freed (tcp_at v p)" and b: "unlocked (busyon (tcp_at v p))" using assms(2) by (simp_all add: v_def unlock_busy_def)
  define w where "w = unlock_busy p (put_tcp p (\<lambda>k. k\<lparr>busyon := (busyon k)\<lparr>lock_word := 1, last_acquirer := ''tcp_close''\<rparr>\<rparr>) v)"
  have "tcp_close env te p v = tcp_release p w"
    unfolding tcp_close_def lock_busy_unlocked [OF fr b] Let_def w_def [symmetric] using assms(1)
    by (simp add: w_def v_def tcp_getstate_def unlock_busy_def)
  moreover obtain u' where "tcp_release p w = Some (Inr (True, u'))" "ts_freed (tcp_at u' p)"
    using tcp_release_frees [of w p] assms(3-8) by (auto simp: w_def v_def unlock_busy_def)
  ultimately show ?thesis by (simp add: close_within_def v_def [symmetric] lock_busy_freed)
qed

lemma unat_next: "r \<noteq> - 1 \<Longrightarrow> unat (r + 1) = Suc (unat (r :: u32))"
  using unatSuc [of r] eq_neg_iff_add_eq_0 [of r 1] by (simp only: add.commute [of 1 r]) blast

lemma reset_in_synsent:
  assumes "tcpstate (tcp_at u p) = TCP_STATESYNSENT" "\<not> ts_freed (tcp_at u p)" "unlocked (busyon (tcp_at u p))"
    and "sock_adapter u p \<noteq> 0" "unlocked (ts_lock (tcp_at u p))" "unlocked (socklock (adapter_at u (sock_adapter u p)))"
    and "p \<in> set (boundsocks (adapter_at u (sock_adapter u p)))" "rq_block (tcp_at u p) \<noteq> Block_freed" "bm_size (net_portbitmap u) = 131064"
    and "sndis (tcp_at u p) = r" "snduna (tcp_at u p) = r" "sndnxt (tcp_at u p) = r + 1" "r \<noteq> - 1"
    and "seg = segment_bytes ip conn seq (r + 1) (F_RST OR F_ACK) window [] []"
  shows "tcp_netpacket a sa env te p src dest seg (of_nat (length seg) - 20) u = Some (Inl UseAfterFree)"
proof -
  define v where "v = put_tcp p (\<lambda>k. k\<lparr>busyon := (busyon k)\<lparr>lock_word := 1, last_acquirer := ''tcp_netpacket''\<rparr>\<rparr>) u"
  have pk: "packet_of seg (of_nat (length seg) - 20) = Inr \<lparr>pk_header = seg_header conn seq (r + 1) (F_RST OR F_ACK) window 0,
      pk_len = 0, pk_data = [], pk_seglen = 0\<rparr>"
    using packet_of_segment [of "[]" "[]" seg ip conn seq "r + 1" "F_RST OR F_ACK" window] assms(14)
    by (simp add: F_RST_def F_ACK_def F_SYN_def F_FIN_def)
  have opts: "tcp_parseoptions te p h 0 v = Inr (put_tcp p (\<lambda>k. k\<lparr>ts_opts := ts_opts (tcp_at v p)\<rparr>) v)" for h
    by (simp add: tcp_parseoptions_def options_without_data_ignored)
  have "unat (r + 1) = Suc (unat r)" using assms(13) by (rule unat_next)
  then have r: "\<not> r + 1 \<le> r" "r \<le> r + 1" by (simp_all add: word_le_nat_alt)
  let ?v = "put_tcp p (\<lambda>k. k\<lparr>ts_opts := ts_opts (tcp_at v p)\<rparr>) v"
  let ?w = "put_tcp p (\<lambda>k. k\<lparr>eventstate := TCP_EVENTSTATEDATA, tcpstate := TCP_STATECLOSED, ts_status := ts_status k OR POLLHUP a\<rparr>) ?v"
  have "close_within env te p ?w = Some (Inl UseAfterFree)"
    by (rule close_within_closed) (use assms(2,4-9) in \<open>simp_all add: v_def\<close>)
  then have "on_synsent a env te p (sock_adapter v p) c \<lparr>pk_header = seg_header conn seq (r + 1) (F_RST OR F_ACK) window 0,
      pk_len = 0, pk_data = [], pk_seglen = 0\<rparr> ?v = Some (Inl UseAfterFree)" for c
    using assms(10-12) r by (simp add: on_synsent_def Let_def v_def F_RST_def F_ACK_def)
  moreover have "tcp_getstate p ?v = TCP_STATESYNSENT" "sock_adapter v p \<noteq> 0" using assms(1,4) by (simp_all add: tcp_getstate_def v_def)
  ultimately show ?thesis
    unfolding tcp_netpacket_def lock_busy_unlocked [OF assms(2,3)] v_def [symmetric] pk Let_def by (simp add: opts)
qed


text \<open>A socket whose SYN is on its way, the only one of the machine.\<close>

definition connecting :: "u64 \<Rightarrow> u32 \<Rightarrow> u64 \<Rightarrow> tcp_connection \<Rightarrow> u32 \<Rightarrow> 'm tcp_scheme \<Rightarrow> bool" where
  "connecting ad ip p conn r u \<longleftrightarrow> own_net ad ip u \<and> tcp_sockets u = [p, p] \<and> sock_adapter u p = ad \<and> bm_size (net_portbitmap u) = 131064 \<and>
     p \<in> set (boundsocks (adapter_at u ad)) \<and> unlocked (socklock (adapter_at u ad)) \<and> ts_conn (tcp_at u p) = conn \<and>
     tcpstate (tcp_at u p) = TCP_STATESYNSENT \<and> rq_block (tcp_at u p) \<noteq> Block_freed \<and> sndis (tcp_at u p) = r \<and> snduna (tcp_at u p) = r \<and>
     sndnxt (tcp_at u p) = r + 1 \<and> \<not> ts_freed (tcp_at u p) \<and> unlocked (busyon (tcp_at u p)) \<and> unlocked (ts_lock (tcp_at u p))"

lemma connecting_kept: "connecting ad ip p conn r u \<Longrightarrow> kept u u' \<Longrightarrow> own_net ad ip u' \<Longrightarrow> connecting ad ip p conn r u'"
  by (simp add: connecting_def kept_def)

lemma tryfind_connecting:
  assumes "connecting ad ip p conn r u" "tc_remote conn \<noteq> INADDR_ANY"
  shows "tcp_tryfindsocket c u = Inr (if c = conn then Some p else None)"
proof -
  have "tc_remote (c\<lparr>tc_remote := INADDR_ANY, tc_remoteport := 0\<rparr>) \<noteq> tc_remote conn" "tc_remote (c\<lparr>tc_remote := INADDR_ANY, tc_remoteport := 0, tc_local := INADDR_ANY\<rparr>) \<noteq> tc_remote conn"
    using assms(2) by simp_all
  then have "conn \<noteq> c\<lparr>tc_remote := INADDR_ANY, tc_remoteport := 0\<rparr>" "conn \<noteq> c\<lparr>tc_remote := INADDR_ANY, tc_remoteport := 0, tc_local := INADDR_ANY\<rparr>" by metis+
  then show ?thesis using assms(1) by (simp add: connecting_def tcp_tryfindsocket_def tcp_grabsocket_def Let_def)
qed

text \<open>The receiver of a segment without options, up to \<open>tcp_netpacket\<close>.\<close>

lemma ontcp_found:
  assumes "tcp_tryfindsocket \<lparr>tc_local = ip_dest h, tc_remote = ip_src h, tc_localport = tc_remoteport conn, tc_remoteport = tc_localport conn\<rparr> u = Inr (Some p)"
    and "tcpstate (tcp_at u p) \<noteq> TCP_STATECLOSED" "seg = segment_bytes ip conn seq ack flags window [] []"
  shows "tcp_ontcp a sa env te ad h seg len u = tcp_netpacket a sa env te p (ip_src h) (ip_dest h) seg (len - 20) u"
proof -
  note b = segment_bytes_header [of "[]" ip conn seq ack flags window "[]", folded assms(3)]
  have "4 * unat (th_doff (seg_header conn seq ack flags window 0)) = 20" using seg_header_doff [of 0] by simp
  then show ?thesis
    using assms(1,2) b by (simp add: tcp_ontcp_def TCPHEADER_SIZE_def Let_def tcp_getstate_def)
qed

text \<open>The three steps: the SYN is queued, the reset is queued, the reset is handled.\<close>

lemma connect_sends_syn:
  fixes u0 :: "'m tcp_scheme"
  assumes "socket_create_tcp sa p ty 6 u0 = (Inr p, u)" "own_net ad ip u0" "net_adapters u0 = [ad]" "na_cache (adapter_at u0 ad) = []"
    and "unlocked (socklock (adapter_at u0 ad))" "length (net_portbitmap u0) = 16383" "\<not> bm_bit (net_portbitmap u0) 0"
    and "unlocked (net_portbitmaplock u0)" "tcp_sockets u0 = []"
    and "conn = \<lparr>tc_local = ip, tc_remote = ip, tc_localport = bswap16 49152, tc_remoteport = dport\<rparr>"
  shows "\<exists>u1 (v :: 'm tcp_scheme) ack window opts. tcp_connect env te p (Sockaddr_in fam dport ip) u = Some (Inr (Op_wait, u1)) \<and>
    na_cache (adapter_at u1 ad) = [own_frame ad ip (segment_bytes ip conn (te_random te) ack F_SYN window opts []) v] \<and>
    connecting ad ip p conn (te_random te) u1 \<and> 4 dvd length opts \<and> length opts \<le> 40 \<and> own_net ad ip v"
proof -
  have u: "u = put_tcp p (\<lambda>_. tcp_zero\<lparr>ts_family := AF_INET sa, ts_type := ty, ts_protocol := 6,
      rcvbuf := \<lparr>st_size = of_nat TCP_BUFFERSIZE, st_pos = 0, st_buf = replicate TCP_BUFFERSIZE 0\<rparr>\<rparr>) (u0\<lparr>sock_adapter := (sock_adapter u0)(p := 0)\<rparr>)"
    using assms(1) by (simp add: socket_create_tcp_def split: if_splits)
  have k0: "tcpstate (tcp_at u p) = TCP_STATECLOSED" "ts_port (tcp_at u p) = 0" "rq_block (tcp_at u p) \<noteq> Block_freed"
    "\<not> ts_freed (tcp_at u p)" "unlocked (busyon (tcp_at u p))" "unlocked (ts_lock (tcp_at u p))"
    by (simp_all add: u tcp_zero_def)
  have n: "adapter_at u = adapter_at u0" "net_adapters u = [ad]" "net_portbitmap u = net_portbitmap u0" "net_portbitmaplock u = net_portbitmaplock u0"
    "tcp_sockets u = []" "sock_adapter u p = 0" using assms(3,9) by (simp_all add: u)
  have own: "own_net ad ip u" using own_net_cong [of u u0 ad ip] n(1,2) assms(2,3) by simp
  have cond: "unlocked (socklock (adapter_at u ad))" "length (net_portbitmap u) = 16383" "unlocked (net_portbitmaplock u)" "\<not> bm_bit (net_portbitmap u) 0"
    using assms(5-8) n by simp_all
  have nil: "na_cache (adapter_at u ad) @ xs = xs" "tcp_sockets u @ ps = ps" for xs ps using assms(4) n(1,5) by simp_all
  have sock: "connecting ad ip p conn (te_random te) u1"
    if "own_net ad ip u1" "tcp_at u1 = (tcp_at u)(p := k)" "ts_conn k = conn" "tcpstate k = TCP_STATESYNSENT" "rq_block k = Block_live"
      "sndis k = te_random te" "snduna k = te_random te" "sndnxt k = te_random te + 1" "ts_freed k = ts_freed (tcp_at u p)"
      "busyon k = busyon (tcp_at u p)" "ts_lock k = ts_lock (tcp_at u p)" "tcp_sockets u1 = [p, p]" "sock_adapter u1 p = ad"
      "bm_size (net_portbitmap u1) = 131064" "boundsocks (adapter_at u1 ad) = boundsocks (adapter_at u ad) @ [p]"
      "unlocked (socklock (adapter_at u1 ad))" for u1 :: "'m tcp_scheme" and k
    using that k0(4-6) by (simp add: connecting_def)
  show ?thesis
    using connect_own [OF own n(2,6) cond k0(1-3) assms(10), of env te fam, unfolded nil]
    by (elim exE conjE, intro exI conjI) (assumption | rule sock; assumption)+
qed

lemma syn_gets_reset:
  fixes u v :: "'m tcp_scheme"
  assumes "connecting ad ip p conn r u" "conn = \<lparr>tc_local = ip, tc_remote = ip, tc_localport = lport, tc_remoteport = dport\<rparr>" "lport \<noteq> dport"
    and "reply = \<lparr>tc_local = ip, tc_remote = ip, tc_localport = dport, tc_remoteport = lport\<rparr>"
    and "4 dvd length opts" "length opts \<le> 40" "own_net ad ip v"
    and "na_cache (adapter_at u ad) = [own_frame ad ip (segment_bytes ip conn r ack F_SYN window opts []) v]"
  shows "\<exists>u' (w :: 'm tcp_scheme). net_ifhandler env (tcp_ontcp a sa env te) udp ad u = Some (Inr u') \<and>
    na_cache (adapter_at u' ad) = [own_frame ad ip (segment_bytes ip reply 0 (r + 1) (F_RST OR F_ACK) 0 [] []) w] \<and>
    own_net ad ip w \<and> connecting ad ip p conn r u'"
proof -
  let ?syn = "segment_bytes ip conn r ack F_SYN window opts []"
  have u: "own_net ad ip u" "ip \<noteq> INADDR_ANY" using assms(1) by (simp_all add: connecting_def own_net_def)
  have syn: "length ?syn < 65516" using segment_bytes_header(2) [OF assms(5,6), of ip conn r ack F_SYN window "[]"] assms(6) by simp
  obtain w h where w: "net_ifhandler env (tcp_ontcp a sa env te) udp ad u = tcp_ontcp a sa env te ad h ?syn (of_nat (length ?syn)) w"
      "ip_src h = ip" "ip_dest h = ip" "own_net ad ip w" "kept u w" "na_cache (adapter_at w ad) = []"
    using ifhandler_own [OF u(1) syn assms(8,7), of env "tcp_ontcp a sa env te" udp] by blast
  have c: "connecting ad ip p conn r w" by (rule connecting_kept [OF assms(1) w(5,4)])
  have ne: "reply \<noteq> conn" "tc_remote conn \<noteq> INADDR_ANY" using assms(2-4) u(2) by simp_all
  have none: "tcp_tryfindsocket reply w = Inr None" using tryfind_connecting [OF c ne(2), of reply] ne(1) by simp
  have reply: "reply = \<lparr>tc_local = ip, tc_remote = ip, tc_localport = tc_remoteport conn, tc_remoteport = tc_localport conn\<rparr>" by (simp add: assms(2,4))
  obtain u' where u': "tcp_ontcp a sa env te ad h ?syn (of_nat (length ?syn)) w = Some (Inr u')" "own_net ad ip u'" "kept w u'"
      "na_cache (adapter_at u' ad) = na_cache (adapter_at w ad) @ [own_frame ad ip (segment_bytes ip reply 0 (r + 1) (F_RST OR F_ACK) 0 [] []) w]"
    using syn_refused [OF w(4,2,3) assms(5,6) refl reply none, of a sa env te] by blast
  from connecting_kept [OF c u'(3,2)] show ?thesis using w(1,4,6) u'(1,4) by auto
qed

lemma reset_uses_freed_socket:
  assumes "connecting ad ip p conn r u" "conn = \<lparr>tc_local = ip, tc_remote = ip, tc_localport = lport, tc_remoteport = dport\<rparr>" "r \<noteq> - 1"
    and "reply = \<lparr>tc_local = ip, tc_remote = ip, tc_localport = dport, tc_remoteport = lport\<rparr>" "own_net ad ip w"
    and "na_cache (adapter_at u ad) = [own_frame ad ip (segment_bytes ip reply 0 (r + 1) (F_RST OR F_ACK) 0 [] []) w]"
  shows "net_ifhandler env (tcp_ontcp a sa env te) udp ad u = Some (Inl UseAfterFree)"
proof -
  let ?rst = "segment_bytes ip reply 0 (r + 1) (F_RST OR F_ACK) 0 [] []"
  have u: "own_net ad ip u" "tc_remote conn \<noteq> INADDR_ANY" "ad \<noteq> 0" using assms(1,2) by (simp_all add: connecting_def own_net_def)
  have rst: "length ?rst < 65516" using segment_bytes_header(2) [of "[]" ip reply 0 "r + 1" "F_RST OR F_ACK" 0 "[]"] by simp
  obtain x g where x: "net_ifhandler env (tcp_ontcp a sa env te) udp ad u = tcp_ontcp a sa env te ad g ?rst (of_nat (length ?rst)) x"
      "ip_src g = ip" "ip_dest g = ip" "kept u x" "own_net ad ip x"
    using ifhandler_own [OF u(1) rst assms(6,5), of env "tcp_ontcp a sa env te" udp] by blast
  have c: "connecting ad ip p conn r x" by (rule connecting_kept [OF assms(1) x(4,5)])
  have k: "tcpstate (tcp_at x p) = TCP_STATESYNSENT" "\<not> ts_freed (tcp_at x p)" "unlocked (busyon (tcp_at x p))" "sock_adapter x p \<noteq> 0"
    "unlocked (ts_lock (tcp_at x p))" "unlocked (socklock (adapter_at x (sock_adapter x p)))" "p \<in> set (boundsocks (adapter_at x (sock_adapter x p)))"
    "rq_block (tcp_at x p) \<noteq> Block_freed" "bm_size (net_portbitmap x) = 131064" "sndis (tcp_at x p) = r" "snduna (tcp_at x p) = r" "sndnxt (tcp_at x p) = r + 1"
    using c u(3) by (simp_all add: connecting_def)
  have "\<lparr>tc_local = ip_dest g, tc_remote = ip_src g, tc_localport = tc_remoteport reply, tc_remoteport = tc_localport reply\<rparr> = conn"
    using x(2,3) by (simp add: assms(2,4))
  then have "tcp_ontcp a sa env te ad g ?rst (of_nat (length ?rst)) x = tcp_netpacket a sa env te p (ip_src g) (ip_dest g) ?rst (of_nat (length ?rst) - 20) x"
    using tryfind_connecting [OF c u(2)] k(1) by (intro ontcp_found [OF _ _ refl]) simp_all
  with x(1) show ?thesis using reset_in_synsent [OF k assms(3) refl] by simp
qed

text \<open>
  C38.  A program connects a new TCP socket to an address of the machine itself and a port nobody listens
  at.  \<open>tcp_connect\<close> queues the SYN at the adapter and waits; the network thread handles it, finds no socket
  and queues the reset; handling that one, \<open>tcp_netpacket\<close> closes the socket, which frees it, and then takes the
  lock of the freed socket: a refused connection makes the kernel use memory it has given back.
\<close>

theorem refused_connection_uses_freed_socket:
  fixes u0 :: "'m tcp_scheme"
  assumes "socket_create_tcp sa p ty 6 u0 = (Inr p, u)" "own_net ad ip u0" "net_adapters u0 = [ad]" "na_cache (adapter_at u0 ad) = []"
    and "unlocked (socklock (adapter_at u0 ad))" "length (net_portbitmap u0) = 16383" "\<not> bm_bit (net_portbitmap u0) 0"
    and "unlocked (net_portbitmaplock u0)" "tcp_sockets u0 = []" "dport \<noteq> bswap16 49152" "te_random te \<noteq> - 1"
  shows "\<exists>u1 u2. tcp_connect env te p (Sockaddr_in fam dport ip) u = Some (Inr (Op_wait, u1)) \<and>
    net_ifhandler env (tcp_ontcp a sa env te) udp ad u1 = Some (Inr u2) \<and>
    net_ifhandler env (tcp_ontcp a sa env te) udp ad u2 = Some (Inl UseAfterFree)"
proof -
  define conn where "conn = \<lparr>tc_local = ip, tc_remote = ip, tc_localport = bswap16 (49152 :: u16), tc_remoteport = dport\<rparr>"
  obtain u1 ack window opts and v :: "'m tcp_scheme" where u1: "tcp_connect env te p (Sockaddr_in fam dport ip) u = Some (Inr (Op_wait, u1))"
      "na_cache (adapter_at u1 ad) = [own_frame ad ip (segment_bytes ip conn (te_random te) ack F_SYN window opts []) v]"
      "connecting ad ip p conn (te_random te) u1" "4 dvd length opts" "length opts \<le> 40" "own_net ad ip v"
    using connect_sends_syn [OF assms(1-9) conn_def, of env te fam] by blast
  obtain u2 and w :: "'m tcp_scheme" where "net_ifhandler env (tcp_ontcp a sa env te) udp ad u1 = Some (Inr u2)" "connecting ad ip p conn (te_random te) u2" "own_net ad ip w"
      "na_cache (adapter_at u2 ad) = [own_frame ad ip (segment_bytes ip
        \<lparr>tc_local = ip, tc_remote = ip, tc_localport = dport, tc_remoteport = bswap16 49152\<rparr> 0 (te_random te + 1) (F_RST OR F_ACK) 0 [] []) w]"
    using syn_gets_reset [OF u1(3) conn_def assms(10) [symmetric] refl u1(4-6,2), of env a sa te udp] by blast
  then show ?thesis using u1(1) reset_uses_freed_socket [OF _ conn_def assms(11) refl] by blast
qed

definition tcp_example :: tcp where
  "tcp_example = udp.extend (udp_example\<lparr>net_portbitmap := replicate 16383 0\<rparr>) (tcp.fields [] (\<lambda>_. tcp_zero))"

definition tcp_silent :: "tcp netenv" where
  "tcp_silent = \<lparr>txpacket = (\<lambda>_ _ n. Inr n), net_sleep = (\<lambda>_ n. n), freed_header = (\<lambda>h. h)\<rparr>"

definition tcpenv_example :: tcpenv where
  "tcpenv_example = \<lparr>te_now = \<lparr>tv_sec = 10, tv_nsec = 0\<rparr>, te_random = 77, te_fresh = 0x5000, te_dptr = 0x6000\<rparr>"

lemmas tcp_example_simps = tcp_example_def udp_example_def udp.defs tcp.defs

theorem refused_connection_uses_freed_socket_witness:
  "\<exists>u1 u2. tcp_connect tcp_silent tcpenv_example 0x4000 (Sockaddr_in 2 (bswap16 80) 0x0100007f)
      (snd (socket_create_tcp linux_sock_abi 0x4000 1 6 tcp_example)) = Some (Inr (Op_wait, u1)) \<and>
    net_ifhandler tcp_silent (tcp_ontcp linux_abi linux_sock_abi tcp_silent tcpenv_example) (\<lambda>_ _ _ _ n. Some (Inr n)) 1 u1 = Some (Inr u2) \<and>
    net_ifhandler tcp_silent (tcp_ontcp linux_abi linux_sock_abi tcp_silent tcpenv_example) (\<lambda>_ _ _ _ n. Some (Inr n)) 1 u2 = Some (Inl UseAfterFree)"
proof (rule refused_connection_uses_freed_socket [where ?u0.0 = tcp_example and sa = linux_sock_abi and ty = 1])
  show "socket_create_tcp linux_sock_abi 0x4000 1 6 tcp_example = (Inr 0x4000, snd (socket_create_tcp linux_sock_abi 0x4000 1 6 tcp_example))"
    by (simp add: socket_create_tcp_def IPPROTO_TCP_def)
  show "own_net 1 0x0100007f tcp_example"
    by (simp add: own_net_def tcp_example_simps adapter_zero_def is_eth_def NET_ADAPTERETH_def net_findadapterbyip_def INADDR_ANY_def INADDR_BROADCAST_def)
  show "\<not> bm_bit (net_portbitmap tcp_example) 0" by (simp add: tcp_example_simps bm_bit_def)
  show "bswap16 80 \<noteq> bswap16 49152" by simp
qed (simp_all add: tcp_example_simps adapter_zero_def tcpenv_example_def)

subsection \<open>Servers\<close>

text \<open>
  C40.  A TCP socket cannot be bound to an address: \<open>tcp_bind\<close> acquires the port in the socket, which nothing
  sets to the port of the address, and a new socket has the port 0 that \<open>tcp_acquireport\<close> rejects.  The call
  fails for every port, also with an address of the machine, and \<open>tcp_listen\<close> fails behind it: no program
  gets a new TCP socket to listen.
\<close>

theorem new_socket_cannot_be_bound:
  assumes "socket_create_tcp sa p ty protocol u0 = (Inr p, u)" "unlocked (socklock (adapter_at u0 (net_findadapterbyip ip u0)))"
  shows "\<exists>u'. tcp_bind sa p (Sockaddr_in (AF_INET sa) port ip) u =
      Some (Inr (Op_error (Some (if ip = INADDR_ANY \<or> net_findadapterbyip ip u0 \<noteq> 0 then EINVAL else EADDRNOTAVAIL)), u')) \<and>
    tcp_listen p u' = Some (Inr (Op_error (Some EDESTADDRREQ), u'))"
proof -
  have u: "ts_port (tcp_at u p) = 0" "ts_state (tcp_at u p) = SOCKET_CREATED" "sock_adapter u p = 0" "adapter_at u = adapter_at u0" "net_adapters u = net_adapters u0"
    using assms(1) by (auto simp: socket_create_tcp_def tcp_zero_def split: if_splits)
  let ?ad = "net_findadapterbyip ip u"
  have ad: "?ad = net_findadapterbyip ip u0" using findadapterbyip_cong [of u u0] u(4,5) by simp
  consider "ip = INADDR_ANY" | "ip \<noteq> INADDR_ANY" "?ad = 0" | "ip \<noteq> INADDR_ANY" "?ad \<noteq> 0" by blast
  then show ?thesis
  proof cases
    case 3
    obtain l where l: "unlocked l" and b: "net_bindsocket ?ad p u =
        Inr (put_adapter ?ad (\<lambda>d. d\<lparr>boundsocks := boundsocks d @ [p], socklock := l\<rparr>) (u\<lparr>sock_adapter := (sock_adapter u)(p := ?ad)\<rparr>))"
      using bindsocket_ok [of u ?ad p] assms(2) u(4) ad by auto
    let ?u = "put_tcp p (\<lambda>k. k\<lparr>ts_localaddr := Sockaddr_in (AF_INET sa) port ip\<rparr>)
      (put_adapter ?ad (\<lambda>d. d\<lparr>boundsocks := boundsocks d @ [p], socklock := l\<rparr>) (u\<lparr>sock_adapter := (sock_adapter u)(p := ?ad)\<rparr>))"
    have "p \<in> set (boundsocks (adapter_at ?u ?ad))" "unlocked (socklock (adapter_at ?u ?ad))" using l by simp_all
    then obtain v where "net_unbindsocket ?ad p ?u = Inr v" "tcp_at v = tcp_at ?u"
      by (simp add: net_unbindsocket_def spinlock_acquire_unlocked vec_remove_value_member)
    then show ?thesis using 3 b u(1,2) ad by (simp add: tcp_bind_def tcp_acquireport_def Let_def tcp_listen_def)
  qed (use u ad in \<open>simp_all add: tcp_bind_def tcp_acquireport_def Let_def tcp_listen_def\<close>)
qed

theorem new_socket_cannot_be_bound_witness:
  "\<exists>u'. tcp_bind linux_sock_abi 0x4000 (Sockaddr_in 2 (bswap16 80) 0x0100007f) (snd (socket_create_tcp linux_sock_abi 0x4000 1 6 tcp_example)) =
      Some (Inr (Op_error (Some EINVAL), u')) \<and>
    tcp_listen 0x4000 u' = Some (Inr (Op_error (Some EDESTADDRREQ), u'))"
proof -
  have "socket_create_tcp linux_sock_abi 0x4000 1 6 tcp_example = (Inr 0x4000, snd (socket_create_tcp linux_sock_abi 0x4000 1 6 tcp_example))"
    by (simp add: socket_create_tcp_def IPPROTO_TCP_def)
  from new_socket_cannot_be_bound [OF this, of "0x0100007f" "bswap16 80"] show ?thesis
    by (simp add: tcp_example_simps adapter_zero_def net_findadapterbyip_def linux_sock_abi_def)
qed

end
