(* ===== verification/Lyre_Client.thy ===== *)
theory Lyre_Client
  imports Lyre_Handshake
begin

section \<open>A client and its peer\<close>

text \<open>
  A connection to another host, from the new socket to the first write.  What TCP needs of the network
  for that is the locale \<open>tcp_link\<close>: a route to the peer and segments that are sent, neither of
  which touches the sockets.  It is interpreted on the functions of \<open>Lyre_Net\<close> for a peer on the network
  of the adapter whose hardware address is known, and a driver that leaves the kernel's state alone.
\<close>

unbundle bit_operations_syntax

subsection \<open>What TCP relies on\<close>


subsection \<open>Connecting\<close>



subsection \<open>The answer\<close>






subsection \<open>Writing\<close>






subsection \<open>A peer on the network of the adapter\<close>











end
