(* ===== verification/Lyre_Block.thy ===== *)
theory Lyre_Block
  imports Lyre_Packet Lyre_Abi
begin

section \<open>Block devices and partitions (dev/storage/partition.c)\<close>

text \<open>
  A block device is a resource that reads and writes ranges of bytes.  Its two functions are fields of
  \<open>devops\<close>; the state of the device is their last argument.  A call gives \<open>None\<close> (a list of bytes) for the
  return value \<open>-1\<close>.  The locale \<open>block_device\<close> is what the users of a device rely on, a partition of a device is such a
  device again.
\<close>

unbundle bit_operations_syntax

subsection \<open>Bytes\<close>

definition bytes_at :: "nat \<Rightarrow> nat \<Rightarrow> 'a list \<Rightarrow> 'a list" where
  "bytes_at i n xs = take n (drop i xs)"

definition put_at :: "nat \<Rightarrow> 'a list \<Rightarrow> 'a list \<Rightarrow> 'a list" where
  "put_at i bs xs = take i xs @ bs @ drop (i + length bs) xs"

lemma length_put_at [simp]: "i + length bs \<le> length xs \<Longrightarrow> length (put_at i bs xs) = length xs"
  by (simp add: put_at_def)

lemma length_bytes_at [simp]: "i + n \<le> length xs \<Longrightarrow> length (bytes_at i n xs) = n"
  by (simp add: bytes_at_def)

lemma nth_put_at: "i + length bs \<le> length xs \<Longrightarrow> j < length xs \<Longrightarrow>
    put_at i bs xs ! j = (if i \<le> j \<and> j < i + length bs then bs ! (j - i) else xs ! j)"
  by (auto simp: put_at_def nth_append min_def)

lemma nth_bytes_at: "i + n \<le> length xs \<Longrightarrow> j < n \<Longrightarrow> bytes_at i n xs ! j = xs ! (i + j)"
  by (simp add: bytes_at_def)

lemma bytes_at_put_at_same [simp]: "i + length bs \<le> length xs \<Longrightarrow> bytes_at i (length bs) (put_at i bs xs) = bs"
  by (simp add: bytes_at_def put_at_def)

lemma bytes_at_put_at_other:
  assumes "i + length bs \<le> length xs" "j + n \<le> length xs" "j + n \<le> i \<or> i + length bs \<le> j"
  shows "bytes_at j n (put_at i bs xs) = bytes_at j n xs"
proof (rule nth_equalityI)
  fix k assume "k < length (bytes_at j n (put_at i bs xs))"
  then have "k < n" using assms by simp
  then show "bytes_at j n (put_at i bs xs) ! k = bytes_at j n xs ! k" using assms by (auto simp: nth_bytes_at nth_put_at)
qed (use assms in simp)

lemma bytes_at_append: "i + m + n \<le> length xs \<Longrightarrow> bytes_at i m xs @ bytes_at (i + m) n xs = bytes_at i (m + n) xs"
  by (simp add: bytes_at_def take_add add.commute)

lemma put_at_append:
  assumes "i + length as + length bs \<le> length xs"
  shows "put_at (i + length as) bs (put_at i as xs) = put_at i (as @ bs) xs"
proof (rule nth_equalityI)
  fix k assume "k < length (put_at (i + length as) bs (put_at i as xs))"
  then show "put_at (i + length as) bs (put_at i as xs) ! k = put_at i (as @ bs) xs ! k"
    using assms by (auto simp: nth_put_at nth_append)
qed (use assms in simp)

lemma put_at_Nil [simp]: "put_at i [] xs = xs"
  by (simp add: put_at_def)

lemma bytes_at_bytes_at: "i + n \<le> m \<Longrightarrow> k + m \<le> length xs \<Longrightarrow> bytes_at i n (bytes_at k m xs) = bytes_at (k + i) n xs"
  by (rule nth_equalityI) (simp_all add: nth_bytes_at add.assoc)

lemma bytes_at_put_inside:
  "i + length bs \<le> m \<Longrightarrow> k + m \<le> length xs \<Longrightarrow> bytes_at k m (put_at (k + i) bs xs) = put_at i bs (bytes_at k m xs)"
  by (rule nth_equalityI) (auto simp: nth_bytes_at nth_put_at)

lemma bytes_at_0 [simp]: "bytes_at i 0 xs = []"
  by (simp add: bytes_at_def)

subsection \<open>The interface\<close>

record 's devops =
  dev_read :: "u64 \<Rightarrow> u64 \<Rightarrow> 's \<Rightarrow> (u8 list option \<times> 's) result"
  dev_write :: "u64 \<Rightarrow> u8 list \<Rightarrow> 's \<Rightarrow> (u64 option \<times> 's) result"
  dev_blksize :: u64
  dev_size :: u64

text \<open>A buffer of the caller behind a read: what was read in front, what it held before behind that.\<close>

definition read_into :: "u8 list option \<Rightarrow> u8 list \<Rightarrow> u8 list" where
  "read_into r buf = (case r of None \<Rightarrow> buf | Some bs \<Rightarrow> bs @ drop (length bs) buf)"

locale block_device =
  fixes dev :: "'s devops" and content :: "'s \<Rightarrow> u8 list" and ok :: "'s \<Rightarrow> bool"
  assumes dsize: "ok s \<Longrightarrow> length (content s) < 2 ^ 63"
    and dread: "ok s \<Longrightarrow> n \<noteq> 0 \<Longrightarrow> unat loc + unat n \<le> length (content s) \<Longrightarrow>
      \<exists>s'. dev_read dev loc n s = Inr (Some (bytes_at (unat loc) (unat n) (content s)), s') \<and> ok s' \<and> content s' = content s"
    and dwrite: "ok s \<Longrightarrow> bs \<noteq> [] \<Longrightarrow> unat loc + length bs \<le> length (content s) \<Longrightarrow>
      \<exists>s'. dev_write dev loc bs s = Inr (Some (of_nat (length bs)), s') \<and> ok s' \<and> content s' = put_at (unat loc) bs (content s)"
begin

lemma read_nat:
  assumes "ok s" "i + n \<le> length (content s)" "0 < n"
  shows "\<exists>s'. dev_read dev (of_nat i) (of_nat n) s = Inr (Some (bytes_at i n (content s)), s') \<and> ok s' \<and> content s' = content s"
proof -
  have "unat (of_nat i :: u64) = i" "unat (of_nat n :: u64) = n" using dsize [OF assms(1)] assms(2) by (simp_all add: unat_of_nat_small)
  then show ?thesis using dread [OF assms(1), of "of_nat n" "of_nat i"] assms(2,3) by (simp add: word_unat_eq_iff)
qed

lemma write_nat:
  assumes "ok s" "i + length bs \<le> length (content s)" "bs \<noteq> []"
  shows "\<exists>s'. dev_write dev (of_nat i) bs s = Inr (Some (of_nat (length bs)), s') \<and> ok s' \<and> content s' = put_at i bs (content s)"
proof -
  have "unat (of_nat i :: u64) = i" using dsize [OF assms(1)] assms(2) by (simp add: unat_of_nat_small)
  then show ?thesis using dwrite [OF assms(1,3), of "of_nat i"] assms(2) by simp
qed

text \<open>What is written is read, and nothing else changes.\<close>

lemma write_read:
  assumes "ok s" "i + length bs \<le> length (content s)" "bs \<noteq> []" "j + n \<le> length (content s)" "0 < n"
  shows "\<exists>s' s''. dev_write dev (of_nat i) bs s = Inr (Some (of_nat (length bs)), s') \<and>
    dev_read dev (of_nat j) (of_nat n) s' = Inr (Some (bytes_at j n (put_at i bs (content s))), s'') \<and> ok s''"
proof -
  obtain s' where s': "dev_write dev (of_nat i) bs s = Inr (Some (of_nat (length bs)), s')" "ok s'" "content s' = put_at i bs (content s)"
    using write_nat [OF assms(1-3)] by blast
  with read_nat [of s' j n] assms show ?thesis by auto
qed

end

subsection \<open>Partitions\<close>

record partition_device =
  pt_start :: u64
  pt_sectors :: u64
  pt_blksize :: u16
  pt_st_size :: u64
  pt_st_blocks :: u64

definition pt_limit :: "partition_device \<Rightarrow> u64" where
  "pt_limit p = pt_sectors p * ucast (pt_blksize p)"

definition readpart :: "'s devops \<Rightarrow> partition_device \<Rightarrow> u64 \<Rightarrow> u64 \<Rightarrow> 's \<Rightarrow> (u8 list option \<times> 's) result" where
  "readpart root p loc cnt s =
     (if loc \<ge> pt_limit p then Inr (None, s) else dev_read root (loc + pt_start p * ucast (pt_blksize p)) cnt s)"

definition writepart :: "'s devops \<Rightarrow> partition_device \<Rightarrow> u64 \<Rightarrow> u8 list \<Rightarrow> 's \<Rightarrow> (u64 option \<times> 's) result" where
  "writepart root p loc buf s =
     (if loc \<ge> pt_limit p then Inr (None, s) else dev_write root (loc + pt_start p * ucast (pt_blksize p)) buf s)"

definition part_ops :: "'s devops \<Rightarrow> partition_device \<Rightarrow> 's devops" where
  "part_ops root p = \<lparr>dev_read = readpart root p, dev_write = writepart root p, dev_blksize = ucast (pt_blksize p), dev_size = pt_st_size p\<rparr>"

subsection \<open>Partition tables\<close>

text \<open>
  The structures of the disk, as the code lays them over the bytes.  \<open>struct gpt_header\<close> has 96 bytes with the
  padding at its end, \<open>struct gpt_entry\<close> 128, \<open>struct mbr_entry\<close> 16.
\<close>

definition get64 :: "u8 list \<Rightarrow> nat \<Rightarrow> u64" where
  "get64 bs i = or (ucast (get32 bs i)) (push_bit 32 (ucast (get32 bs (i + 4))))"

record gpt_header =
  gh_sig :: "u8 list"
  gh_len :: u32
  gh_lba :: u64
  gh_first :: u64
  gh_last :: u64
  gh_partlba :: u64
  gh_entries :: u32

definition gpt_header_of :: "u8 list \<Rightarrow> gpt_header" where
  "gpt_header_of bs = \<lparr>gh_sig = take 8 bs, gh_len = get32 bs 12, gh_lba = get64 bs 24, gh_first = get64 bs 40, gh_last = get64 bs 48,
     gh_partlba = get64 bs 72, gh_entries = get32 bs 80\<rparr>"

record gpt_entry =
  ge_unilow :: u64
  ge_unihi :: u64
  ge_start :: u64
  ge_end :: u64
  ge_attr :: u64

definition gpt_entry_of :: "u8 list \<Rightarrow> gpt_entry" where
  "gpt_entry_of bs = \<lparr>ge_unilow = get64 bs 16, ge_unihi = get64 bs 24, ge_start = get64 bs 32, ge_end = get64 bs 40, ge_attr = get64 bs 48\<rparr>"

record mbr_entry =
  mb_type :: u8
  mb_startsect :: u32
  mb_sectors :: u32

definition mbr_entry_of :: "u8 list \<Rightarrow> mbr_entry" where
  "mbr_entry_of bs = \<lparr>mb_type = bs ! 4, mb_startsect = get32 bs 8, mb_sectors = get32 bs 12\<rparr>"

definition GPT_DONTMOUNT :: u64 where "GPT_DONTMOUNT = 2"
definition GPT_LEGACY :: u64 where "GPT_LEGACY = 4"

definition efi_part :: "u8 list" where
  "efi_part = map (\<lambda>c. of_char c) ''EFI PART''"

definition gpt_valid :: "gpt_header \<Rightarrow> u64 \<Rightarrow> bool" where
  "gpt_valid h dsz \<longleftrightarrow> gh_sig h = efi_part \<and> gh_len h \<ge> 92 \<and> \<not> uint (gh_len h) > sint dsz \<and> gh_lba h = 1 \<and> gh_first h \<le> gh_last h"

definition gpt_partition :: "u16 \<Rightarrow> gpt_entry \<Rightarrow> partition_device" where
  "gpt_partition blocksize e = \<lparr>pt_start = ge_start e, pt_sectors = (ge_end e - ge_start e) div ucast blocksize, pt_blksize = blocksize,
     pt_st_size = ge_end e - ge_start e, pt_st_blocks = (ge_end e - ge_start e) div ucast blocksize\<rparr>"

definition mbr_partition :: "u16 \<Rightarrow> mbr_entry \<Rightarrow> partition_device" where
  "mbr_partition blocksize e = \<lparr>pt_start = ucast (mb_startsect e), pt_sectors = ucast (mb_sectors e), pt_blksize = blocksize,
     pt_st_size = ucast (mb_sectors e * ucast blocksize), pt_st_blocks = ucast (mb_sectors e)\<rparr>"

text \<open>
  The loop over the entries of a table: the number of a partition is its index plus one.  The buffer is the one
  of the entry before, also when an entry cannot be read.
\<close>

fun gpt_loop :: "'s devops \<Rightarrow> u16 \<Rightarrow> nat \<Rightarrow> nat \<Rightarrow> u64 \<Rightarrow> u8 list \<Rightarrow> 's \<Rightarrow> ((nat \<times> partition_device) list \<times> 's) result" where
  "gpt_loop root blocksize i 0 loc buf s = Inr ([], s)"
| "gpt_loop root blocksize i (Suc n) loc buf s =
     rbind (dev_read root loc 128 s) (\<lambda>(r, s1).
       let buf1 = read_into r buf; e = gpt_entry_of buf1
       in if (ge_unilow e = 0 \<and> ge_unihi e = 0) \<or> ge_attr e AND (GPT_DONTMOUNT OR GPT_LEGACY) \<noteq> 0
          then gpt_loop root blocksize (Suc i) n (loc + 128) buf1 s1
          else if blocksize = 0 then Inl (Panic ''division by zero'')
          else rbind (gpt_loop root blocksize (Suc i) n (loc + 128) buf1 s1) (\<lambda>(ps, s2). Inr ((Suc i, gpt_partition blocksize e) # ps, s2)))"

definition mbr_table :: "u16 \<Rightarrow> u8 list \<Rightarrow> (nat \<times> partition_device) list" where
  "mbr_table blocksize buf =
     map (\<lambda>i. (Suc i, mbr_partition blocksize (mbr_entry_of (drop (16 * i) buf)))) (filter (\<lambda>i. mb_type (mbr_entry_of (drop (16 * i) buf)) \<noteq> 0) [0..<4])"

text \<open>
  \<open>partition_enum\<close> returns the partitions with their numbers, in the order in which the code adds them as
  devices.  \<open>junk\<close> is what the buffers without an initial value hold.
\<close>

definition partition_enum :: "'s devops \<Rightarrow> u16 \<Rightarrow> u8 list \<Rightarrow> 's \<Rightarrow> ((nat \<times> partition_device) list \<times> 's) result" where
  "partition_enum root blocksize junk s =
     rbind (dev_read root 512 96 s) (\<lambda>(r, s1).
       let h = gpt_header_of (read_into r (replicate 96 0))
       in if gpt_valid h (dev_size root)
          then gpt_loop root blocksize 0 (unat (gh_entries h)) (gh_partlba h * 512) (replicate 128 0) s1
          else rbind (dev_read root 444 2 s1) (\<lambda>(r2, s2).
                 let hint = get16 (read_into r2 (take 2 junk)) 0
                 in if hint \<noteq> 0 \<and> hint \<noteq> 0x5a5a then Inr ([], s2)
                    else rbind (dev_read root 446 64 s2) (\<lambda>(r3, s3). Inr (mbr_table blocksize (read_into r3 (take 64 (drop 2 junk))), s3))))"


subsection \<open>A partition is a device\<close>

text \<open>The bytes of a partition that its limit lets through, and what it does not reach.\<close>

definition pt_offset :: "partition_device \<Rightarrow> nat" where
  "pt_offset p = unat (pt_start p) * unat (pt_blksize p)"

definition pt_length :: "partition_device \<Rightarrow> nat" where
  "pt_length p = unat (pt_sectors p) * unat (pt_blksize p)"

definition pt_content :: "partition_device \<Rightarrow> u8 list \<Rightarrow> u8 list" where
  "pt_content p bs = bytes_at (pt_offset p) (pt_length p) bs"

lemma pt_limit_nat: "pt_length p < 2 ^ 64 \<Longrightarrow> unat (pt_limit p) = pt_length p"
  by (simp add: pt_limit_def pt_length_def unat_mult_small)

lemma pt_place: "unat loc + pt_offset p < 2 ^ 64 \<Longrightarrow> unat (loc + pt_start p * ucast (pt_blksize p)) = unat loc + pt_offset p"
proof -
  assume a: "unat loc + pt_offset p < 2 ^ 64"
  then have "unat (pt_start p * ucast (pt_blksize p) :: u64) = pt_offset p"
    by (simp add: pt_offset_def unat_mult_small)
  with a show ?thesis by (simp add: unat_add_small)
qed

locale partitioned = block_device +
  fixes p :: partition_device
  assumes inside: "ok s \<Longrightarrow> pt_offset p + pt_length p \<le> length (content s)"
begin

lemma place:
  assumes "ok s" "unat loc + n \<le> pt_length p" "0 < n"
  shows "\<not> loc \<ge> pt_limit p" "unat (loc + pt_start p * ucast (pt_blksize p)) = pt_offset p + unat loc"
proof -
  have l: "pt_offset p + pt_length p < 2 ^ 63" using inside [OF assms(1)] dsize [OF assms(1)] by simp
  then have "unat (pt_limit p) = pt_length p" using pt_limit_nat [of p] by simp
  then show "\<not> loc \<ge> pt_limit p" using assms(2,3) by (simp add: word_le_nat_alt)
  show "unat (loc + pt_start p * ucast (pt_blksize p)) = pt_offset p + unat loc" using pt_place [of loc p] l assms(2) by simp
qed

end

text \<open>A partition inside the device behaves like a device of its own.\<close>

sublocale partitioned \<subseteq> part: block_device "part_ops dev p" "\<lambda>s. pt_content p (content s)" ok
proof unfold_locales
  fix s assume s: "ok s"
  note l = inside [OF s] dsize [OF s]
  show "length (pt_content p (content s)) < 2 ^ 63" using l by (simp add: pt_content_def)
  have len: "length (pt_content p (content s)) = pt_length p" using l by (simp add: pt_content_def)
  show "\<exists>s'. dev_read (part_ops dev p) loc n s = Inr (Some (bytes_at (unat loc) (unat n) (pt_content p (content s))), s') \<and> ok s' \<and>
      pt_content p (content s') = pt_content p (content s)" if "n \<noteq> 0" "unat loc + unat n \<le> length (pt_content p (content s))" for loc n
  proof -
    have n: "0 < unat n" using that(1) by (simp add: unat_gt_0)
    note pl = place [OF s that(2) [unfolded len] n]
    have "bytes_at (unat loc) (unat n) (pt_content p (content s)) = bytes_at (pt_offset p + unat loc) (unat n) (content s)"
      using that(2) l(1) len unfolding pt_content_def by (intro bytes_at_bytes_at) simp_all
    then show ?thesis using dread [OF s that(1), of "loc + pt_start p * ucast (pt_blksize p)"] pl l that(2) len
      by (auto simp: part_ops_def readpart_def)
  qed
  show "\<exists>s'. dev_write (part_ops dev p) loc bs s = Inr (Some (of_nat (length bs)), s') \<and> ok s' \<and>
      pt_content p (content s') = put_at (unat loc) bs (pt_content p (content s))" if "bs \<noteq> []" "unat loc + length bs \<le> length (pt_content p (content s))" for loc bs
  proof -
    have n: "0 < length bs" using that(1) by simp
    note pl = place [OF s that(2) [unfolded len] n]
    have "pt_content p (put_at (pt_offset p + unat loc) bs (content s)) = put_at (unat loc) bs (pt_content p (content s))"
      using that(2) l(1) len unfolding pt_content_def by (intro bytes_at_put_inside) simp_all
    then show ?thesis using dwrite [OF s that(1), of "loc + pt_start p * ucast (pt_blksize p)"] pl l that(2) len
      by (auto simp: part_ops_def writepart_def)
  qed
qed

end
