(* ===== verification/Lyre_Nvme.thy ===== *)
theory Lyre_Nvme
  imports Lyre_Block Lyre_Lock Lyre_Pmm
begin

section \<open>The NVMe driver (dev/storage/nvme/nvme.c)\<close>

text \<open>
  Reading and writing a namespace through its cache, down to the commands given to the controller.  The
  controller is a parameter: \<open>ctl_rw\<close> executes a read or write command, given the pages listed for it, the
  physical address and the bytes of the buffer.  \<open>good_controller\<close> is what the NVMe specification promises of
  commands whose pointers describe the buffer.  \<open>alloc\<close> is a parameter as well: the address it returns for
  the buffer of a cache slot, and \<open>ctl_hhdm\<close> is \<open>VMM_HIGHER_HALF\<close>.
\<close>

unbundle bit_operations_syntax

subsection \<open>Data\<close>

definition NVME_OPWRITE :: u8 where "NVME_OPWRITE = 1"
definition NVME_OPREAD :: u8 where "NVME_OPREAD = 2"

record nvme_rw =
  rw_opcode :: u8
  rw_cid :: u16
  rw_nsid :: u32
  rw_prp1 :: u64
  rw_prp2 :: u64
  rw_slba :: u64
  rw_len :: u16

record nvme_queue =
  q_elements :: u16
  q_submitdb :: u32
  q_completedb :: u32
  q_sqtail :: u16
  q_cqhead :: u16
  q_cqphase :: u8
  q_cmdid :: u32
  q_physaddr :: u64
  q_physregpgs :: "u64 list"

record cachedblock =
  cb_addr :: u64
  cb_cache :: "u8 list"
  cb_block :: u64
  cb_status :: int

definition NVME_READYCACHE :: int where "NVME_READYCACHE = 1"

record 'd nvme_ns =
  ns_lock :: spinlock
  ns_queue :: nvme_queue
  ns_id :: u64
  lbasize :: u64
  lbacount :: u64
  maxphysrpgs :: u64
  overwritten :: u64
  cacheblocksize :: u64
  ns_cache :: "cachedblock list"
  ns_dev :: 'd

record 'd controller =
  ctl_rw :: "nvme_rw \<Rightarrow> u64 list \<Rightarrow> u64 \<Rightarrow> u8 list \<Rightarrow> 'd \<Rightarrow> u16 \<times> u8 list \<times> 'd"
  ctl_bytes :: "'d \<Rightarrow> u8 list"
  ctl_alloc :: "nat \<Rightarrow> u64"
  ctl_hhdm :: u64

subsection \<open>Commands\<close>

text \<open>
  \<open>nvme_submitcmd\<close> and \<open>nvme_awaitsubmitcmd\<close> on the pointers of a queue.  The wait for the completion entry with the
  right phase ends when the controller has written it; \<open>status\<close> is the status it has there, without the phase.
\<close>

definition nvme_submitcmd :: "nvme_queue \<Rightarrow> nvme_queue" where
  "nvme_submitcmd q =
     (let tail = q_sqtail q + 1; tail = (if tail = q_elements q then 0 else tail)
      in q\<lparr>q_submitdb := ucast tail, q_sqtail := tail\<rparr>)"

definition nvme_awaitsubmitcmd :: "u16 \<Rightarrow> nvme_queue \<Rightarrow> nvme_queue result" where
  "nvme_awaitsubmitcmd status q =
     (let q1 = nvme_submitcmd (q\<lparr>q_cmdid := q_cmdid q + 1\<rparr>);
          head = q_cqhead q + 1
      in if status \<noteq> 0 then Inl (Panic ''nvme: cmd error'')
         else Inr (if head = q_elements q then q1\<lparr>q_cqphase := (if q_cqphase q = 0 then 1 else 0), q_completedb := 0, q_cqhead := 0\<rparr>
                   else q1\<lparr>q_completedb := ucast head, q_cqhead := head\<rparr>))"

text \<open>The list of pages of a transfer is stored from entry \<open>cid * maxphysrpgs\<close> of \<open>physregpgs\<close> on.\<close>

definition fill_prps :: "u64 \<Rightarrow> u64 \<Rightarrow> u64 \<Rightarrow> u64 list \<Rightarrow> u64 list result" where
  "fill_prps first page n ps = for_range (\<lambda>i ps. arr_set ps (unat (i + first)) (page + PAGE_SIZE + i * PAGE_SIZE)) 0 n ps"

definition nvme_rwlba ::
  "'d controller \<Rightarrow> u64 \<Rightarrow> u8 list \<Rightarrow> u64 \<Rightarrow> u64 \<Rightarrow> bool \<Rightarrow> 'd nvme_ns \<Rightarrow> (u8 list \<times> 'd nvme_ns) result" where
  "nvme_rwlba ctl addr buf start cnt write ns =
     (let n = (if start + cnt \<ge> lbacount ns then cnt - ((start + cnt) - lbacount ns) else cnt);
          pageoff = addr AND (PAGE_SIZE - 1);
          phys = addr - ctl_hhdm ctl;
          cid = ucast (q_cmdid (ns_queue ns)) :: u64;
          len = n * lbasize ns;
          uselist = len > PAGE_SIZE * 2;
          useprp = (len > PAGE_SIZE \<and> \<not> uselist);
          prpcount = ((n - 1) * lbasize ns) div PAGE_SIZE;
          prps = (if uselist
                  then if prpcount > maxphysrpgs ns then Inl (Panic ''nvme: exceeded phyiscal region pages'')
                       else fill_prps (cid * maxphysrpgs ns) (phys - pageoff) prpcount (q_physregpgs (ns_queue ns))
                  else Inr (q_physregpgs (ns_queue ns)))
      in rbind prps (\<lambda>pages.
           let cmd = \<lparr>rw_opcode = (if write then NVME_OPWRITE else NVME_OPREAD), rw_cid = ucast (q_cmdid (ns_queue ns)), rw_nsid = ucast (ns_id ns),
                      rw_prp1 = (if useprp then 0 else phys),
                      rw_prp2 = (if uselist then q_physaddr (ns_queue ns) + 8 * (cid * maxphysrpgs ns) - ctl_hhdm ctl
                                 else if useprp then addr + PAGE_SIZE - ctl_hhdm ctl else 0),
                      rw_slba = start, rw_len = ucast (n - 1)\<rparr>;
               (status, buf', dev') = ctl_rw ctl cmd (drop (unat (cid * maxphysrpgs ns)) pages) phys buf (ns_dev ns)
           in rbind (nvme_awaitsubmitcmd status ((ns_queue ns)\<lparr>q_physregpgs := pages\<rparr>)) (\<lambda>q.
                Inr (buf', ns\<lparr>ns_queue := q, ns_dev := dev'\<rparr>))))"

subsection \<open>The cache\<close>

definition nvme_findblock :: "u64 \<Rightarrow> 'd nvme_ns \<Rightarrow> nat option" where
  "nvme_findblock block ns = find (\<lambda>i. cb_block (ns_cache ns ! i) = block \<and> cb_status (ns_cache ns ! i) \<noteq> 0) [0..<512]"

text \<open>
  A free slot, or else the next one to overwrite: its buffer is kept.  \<open>alloc\<close> returns memory filled with zeros.
\<close>

definition nvme_cacheblock :: "'d controller \<Rightarrow> u64 \<Rightarrow> 'd nvme_ns \<Rightarrow> (nat \<times> 'd nvme_ns) result" where
  "nvme_cacheblock ctl block ns =
     (let (target, ns1) =
            (case find (\<lambda>i. cb_status (ns_cache ns ! i) = 0) [0..<512] of
               Some i \<Rightarrow> (i, ns\<lparr>ns_cache := (ns_cache ns)[i := (ns_cache ns ! i)\<lparr>cb_addr := ctl_alloc ctl i,
                            cb_cache := replicate (unat (cacheblocksize ns)) 0\<rparr>]\<rparr>)
             | None \<Rightarrow> if overwritten ns = 512 then (0, ns\<lparr>overwritten := 0\<rparr>)
                       else (unat (overwritten ns), ns\<lparr>overwritten := overwritten ns + 1\<rparr>));
          per = cacheblocksize ns div lbasize ns
      in rbind (arr_get (ns_cache ns1) target) (\<lambda>slot.
         rbind (nvme_rwlba ctl (cb_addr slot) (cb_cache slot) (per * block) per False ns1) (\<lambda>(buf, ns2).
           Inr (target, ns2\<lparr>ns_cache := (ns_cache ns2)[target := slot\<lparr>cb_cache := buf, cb_block := block, cb_status := NVME_READYCACHE\<rparr>]\<rparr>))))"

definition nvme_slot :: "'d controller \<Rightarrow> u64 \<Rightarrow> 'd nvme_ns \<Rightarrow> (nat \<times> 'd nvme_ns) result" where
  "nvme_slot ctl sector ns = (case nvme_findblock sector ns of Some i \<Rightarrow> Inr (i, ns) | None \<Rightarrow> nvme_cacheblock ctl sector ns)"

subsection \<open>Reading and writing\<close>

definition chunk_of :: "'d nvme_ns \<Rightarrow> u64 \<Rightarrow> u64 \<Rightarrow> u64" where
  "chunk_of ns pos left = (let off = pos mod cacheblocksize ns in if left > cacheblocksize ns - off then cacheblocksize ns - off else left)"

text \<open>One turn of the loops for the bytes from position \<open>pos\<close> on, of which \<open>left\<close> are left.\<close>

definition read_chunk :: "'d controller \<Rightarrow> u64 \<Rightarrow> u64 \<Rightarrow> 'd nvme_ns \<Rightarrow> (u8 list \<times> 'd nvme_ns) result" where
  "read_chunk ctl pos left ns =
     rbind (nvme_slot ctl (pos div cacheblocksize ns) ns) (\<lambda>(slot, ns1).
       let off = unat (pos mod cacheblocksize ns); chunk = unat (chunk_of ns pos left)
       in rbind (arr_get (ns_cache ns1) slot) (\<lambda>cb.
            if off + chunk \<le> length (cb_cache cb) then Inr (bytes_at off chunk (cb_cache cb), ns1) else Inl OutOfBounds))"

definition write_chunk :: "'d controller \<Rightarrow> u64 \<Rightarrow> u8 list \<Rightarrow> 'd nvme_ns \<Rightarrow> 'd nvme_ns result" where
  "write_chunk ctl pos buf ns =
     rbind (nvme_slot ctl (pos div cacheblocksize ns) ns) (\<lambda>(slot, ns1).
       let off = unat (pos mod cacheblocksize ns); per = cacheblocksize ns div lbasize ns
       in rbind (arr_get (ns_cache ns1) slot) (\<lambda>cb.
            if off + length buf \<le> length (cb_cache cb)
            then let cb1 = cb\<lparr>cb_cache := put_at off buf (cb_cache cb), cb_status := NVME_READYCACHE\<rparr>
                 in rbind (nvme_rwlba ctl (cb_addr cb1) (cb_cache cb1) (per * cb_block cb1) per True
                             (ns1\<lparr>ns_cache := (ns_cache ns1)[slot := cb1]\<rparr>)) (\<lambda>(buf', ns2).
                      Inr (ns2\<lparr>ns_cache := (ns_cache ns2)[slot := cb1\<lparr>cb_cache := buf'\<rparr>]\<rparr>))
            else Inl OutOfBounds))"

lemma chunk_le: "chunk_of ns pos left \<le> left"
  by (auto simp: chunk_of_def Let_def)

lemma chunk_pos: "cacheblocksize ns \<noteq> 0 \<Longrightarrow> left \<noteq> 0 \<Longrightarrow> 0 < unat (chunk_of ns pos left)"
proof -
  assume "cacheblocksize ns \<noteq> 0" and l: "left \<noteq> 0"
  then have "pos mod cacheblocksize ns < cacheblocksize ns" by (simp add: word_less_nat_alt unat_mod unat_gt_0)
  then have "cacheblocksize ns - pos mod cacheblocksize ns \<noteq> 0" by auto
  with l show ?thesis by (simp add: chunk_of_def Let_def unat_gt_0)
qed

lemma unat_rest: "c \<le> left \<Longrightarrow> unat (left - c) = unat left - unat (c :: u64)"
  by (simp add: word_le_nat_alt unat_sub_small)

text \<open>The loops, with the number of bytes still to go.\<close>

function read_loop :: "'d controller \<Rightarrow> u64 \<Rightarrow> u64 \<Rightarrow> 'd nvme_ns \<Rightarrow> (u8 list \<times> 'd nvme_ns) result" where
  "read_loop ctl pos left ns =
     (if left = 0 then Inr ([], ns)
      else if cacheblocksize ns = 0 then Inl (Panic ''division by zero'')
      else rbind (read_chunk ctl pos left ns) (\<lambda>r.
           rbind (read_loop ctl (pos + chunk_of ns pos left) (left - chunk_of ns pos left) (snd r)) (\<lambda>(bs', ns2). Inr (fst r @ bs', ns2))))"
  by pat_completeness auto
termination
proof (relation "measure (\<lambda>(ctl, pos, left, ns). unat left)", goal_cases)
  case (2 ctl pos left ns x)
  then show ?case using chunk_le [of ns pos left] chunk_pos [of ns left pos] by (simp add: unat_rest word_le_nat_alt)
qed simp

declare read_loop.simps [simp del]

function write_loop_nvme :: "'d controller \<Rightarrow> u64 \<Rightarrow> u64 \<Rightarrow> u8 list \<Rightarrow> 'd nvme_ns \<Rightarrow> 'd nvme_ns result" where
  "write_loop_nvme ctl pos left buf ns =
     (if left = 0 then Inr ns
      else if cacheblocksize ns = 0 then Inl (Panic ''division by zero'')
      else rbind (write_chunk ctl pos (take (unat (chunk_of ns pos left)) buf) ns)
             (write_loop_nvme ctl (pos + chunk_of ns pos left) (left - chunk_of ns pos left) (drop (unat (chunk_of ns pos left)) buf)))"
  by pat_completeness auto
termination
proof (relation "measure (\<lambda>(ctl, pos, left, buf, ns). unat left)", goal_cases)
  case (2 ctl pos left buf ns x)
  then show ?case using chunk_le [of ns pos left] chunk_pos [of ns left pos] by (simp add: unat_rest word_le_nat_alt)
qed simp

declare write_loop_nvme.simps [simp del]

definition nvme_read :: "'d controller \<Rightarrow> u64 \<Rightarrow> u64 \<Rightarrow> 'd nvme_ns \<Rightarrow> (u8 list option \<times> 'd nvme_ns) result" where
  "nvme_read ctl loc cnt ns =
     rbind (spinlock_acquire ''nvme_read'' (ns_lock ns)) (\<lambda>l.
     rbind (read_loop ctl loc cnt (ns\<lparr>ns_lock := l\<rparr>)) (\<lambda>(bs, ns1). Inr (Some bs, ns1\<lparr>ns_lock := spinlock_release (ns_lock ns1)\<rparr>)))"

definition nvme_write :: "'d controller \<Rightarrow> u64 \<Rightarrow> u8 list \<Rightarrow> 'd nvme_ns \<Rightarrow> (u64 option \<times> 'd nvme_ns) result" where
  "nvme_write ctl loc buf ns =
     rbind (spinlock_acquire ''nvme_write'' (ns_lock ns)) (\<lambda>l.
     rbind (write_loop_nvme ctl loc (of_nat (length buf)) buf (ns\<lparr>ns_lock := l\<rparr>)) (\<lambda>ns1. Inr (Some (of_nat (length buf)), ns1\<lparr>ns_lock := spinlock_release (ns_lock ns1)\<rparr>)))"

definition nvme_ops :: "'d controller \<Rightarrow> u64 \<Rightarrow> u64 \<Rightarrow> 'd nvme_ns devops" where
  "nvme_ops ctl blksize dsz = \<lparr>dev_read = nvme_read ctl, dev_write = nvme_write ctl, dev_blksize = blksize, dev_size = dsz\<rparr>"


subsection \<open>Setting up a namespace\<close>

text \<open>
  What the code uses of the controller's answer to an identify command: the size in blocks, the number of the
  format and the exponents of the block sizes.  \<open>elements\<close> is \<open>queueslots\<close> cut to 16 bits; \<open>physaddr\<close> is the memory \<open>alloc\<close>
  returns for the page lists, filled with zeros.
\<close>

record nvme_nsid =
  nsid_size :: u64
  nsid_flbas :: u8
  nsid_lbads :: "u8 list"

definition nvme_createqueue :: "u64 \<Rightarrow> u64 \<Rightarrow> u64 \<Rightarrow> nvme_queue" where
  "nvme_createqueue physaddr maxpages slots = \<lparr>q_elements = ucast slots, q_submitdb = 0, q_completedb = 0, q_sqtail = 0, q_cqhead = 0,
     q_cqphase = 1, q_cmdid = 0, q_physaddr = physaddr, q_physregpgs = replicate (unat (maxpages * slots)) 0\<rparr>"

text \<open>The shifts of the constant 1 are done with 32 bits.\<close>

definition shifted :: "u64 \<Rightarrow> u64" where
  "shifted n = scast (push_bit (unat n) (1 :: u32))"

definition nvme_initnamespace :: "u64 \<Rightarrow> u64 \<Rightarrow> u64 \<Rightarrow> u64 \<Rightarrow> nvme_nsid \<Rightarrow> 'd \<Rightarrow> 'd nvme_ns result" where
  "nvme_initnamespace physaddr maxtransshift slots nid info d =
     rbind (arr_get (nsid_lbads info) (unat (nsid_flbas info AND 0x0f))) (\<lambda>ds.
       let lbashift = ucast ds; maxlbas = shifted (maxtransshift - lbashift); maxpages = (maxlbas * shifted lbashift) div PAGE_SIZE
       in Inr \<lparr>ns_lock = SPINLOCK_INIT, ns_queue = nvme_createqueue physaddr maxpages slots, ns_id = nid, lbasize = shifted lbashift,
               lbacount = nsid_size info, maxphysrpgs = maxpages, overwritten = 0, cacheblocksize = shifted lbashift * 4,
               ns_cache = replicate 512 \<lparr>cb_addr = 0, cb_cache = [], cb_block = 0, cb_status = 0\<rparr>, ns_dev = d\<rparr>)"

subsection \<open>What the controller promises\<close>

text \<open>
  The pointers of a command describe a buffer of \<open>n\<close> bytes at a physical address: the first pointer is the
  address, the second the next page if the buffer ends there, or a list of all the pages that follow.
\<close>

definition prps_describe :: "nvme_rw \<Rightarrow> u64 list \<Rightarrow> u64 \<Rightarrow> nat \<Rightarrow> bool" where
  "prps_describe cmd pages phys n \<longleftrightarrow>
     (let off = unat phys mod 4096; page = phys - of_nat off
      in rw_prp1 cmd = phys \<and>
         (off + n \<le> 4096 \<or>
          (off + n \<le> 8192 \<and> rw_prp2 cmd = page + 4096) \<or>
          (8192 < off + n \<and> (\<forall>i < off + n. 4096 * (i + 1) < off + n \<longrightarrow> i < length pages \<and> pages ! i = page + 4096 * of_nat (i + 1)))))"

definition good_controller :: "'d controller \<Rightarrow> nat \<Rightarrow> bool" where
  "good_controller ctl lba \<longleftrightarrow>
     (\<forall>cmd pages phys buf d. \<forall>n at. n = (unat (rw_len cmd) + 1) * lba \<and> at = unat (rw_slba cmd) * lba \<and>
        prps_describe cmd pages phys n \<and> n \<le> length buf \<and> at + n \<le> length (ctl_bytes ctl d) \<longrightarrow>
        (rw_opcode cmd = NVME_OPREAD \<longrightarrow> ctl_rw ctl cmd pages phys buf d = (0, bytes_at at n (ctl_bytes ctl d) @ drop n buf, d)) \<and>
        (rw_opcode cmd = NVME_OPWRITE \<longrightarrow> (\<exists>d'. ctl_rw ctl cmd pages phys buf d = (0, buf, d') \<and>
           ctl_bytes ctl d' = put_at at (take n buf) (ctl_bytes ctl d))))"

subsection \<open>The invariant of the cache\<close>

abbreviation ns_bytes :: "'d controller \<Rightarrow> 'd nvme_ns \<Rightarrow> u8 list" where
  "ns_bytes ctl ns \<equiv> ctl_bytes ctl (ns_dev ns)"

abbreviation cb_size :: "'d nvme_ns \<Rightarrow> nat" where
  "cb_size ns \<equiv> unat (cacheblocksize ns)"

text \<open>The address and the number of the bytes of a cached block; the last block of a device may be shorter.\<close>

definition blk_at :: "'d nvme_ns \<Rightarrow> u64 \<Rightarrow> nat" where
  "blk_at ns b = unat b * cb_size ns"

definition blk_len :: "'d controller \<Rightarrow> 'd nvme_ns \<Rightarrow> u64 \<Rightarrow> nat" where
  "blk_len ctl ns b = min (cb_size ns) (length (ns_bytes ctl ns) - blk_at ns b)"

definition page_fits :: "'d controller \<Rightarrow> nat \<Rightarrow> u64 \<Rightarrow> bool" where
  "page_fits ctl n addr \<longleftrightarrow> unat (addr - ctl_hhdm ctl) mod 4096 + n \<le> 4096"

text \<open>
  The geometry: four blocks of the device make a block of the cache, which is not larger than a page and whose
  buffers do not cross a page.
\<close>

definition nvme_geom :: "'d controller \<Rightarrow> 'd nvme_ns \<Rightarrow> bool" where
  "nvme_geom ctl ns \<longleftrightarrow> lbasize ns \<noteq> 0 \<and> 4 * unat (lbasize ns) \<le> 4096 \<and> cacheblocksize ns = 4 * lbasize ns \<and>
     good_controller ctl (unat (lbasize ns)) \<and> length (ns_bytes ctl ns) = unat (lbacount ns) * unat (lbasize ns) \<and>
     length (ns_bytes ctl ns) < 2 ^ 63 \<and> length (ns_cache ns) = 512 \<and> unat (overwritten ns) \<le> 512 \<and>
     (\<forall>i. page_fits ctl (cb_size ns) (ctl_alloc ctl i))"

definition slot_ok :: "'d controller \<Rightarrow> 'd nvme_ns \<Rightarrow> cachedblock \<Rightarrow> bool" where
  "slot_ok ctl ns cb \<longleftrightarrow> length (cb_cache cb) = cb_size ns \<and> page_fits ctl (cb_size ns) (cb_addr cb) \<and>
     blk_at ns (cb_block cb) < length (ns_bytes ctl ns) \<and>
     take (blk_len ctl ns (cb_block cb)) (cb_cache cb) = bytes_at (blk_at ns (cb_block cb)) (blk_len ctl ns (cb_block cb)) (ns_bytes ctl ns)"

definition cache_ok :: "'d controller \<Rightarrow> 'd nvme_ns \<Rightarrow> bool" where
  "cache_ok ctl ns \<longleftrightarrow>
     (\<forall>i < 512. cb_status (ns_cache ns ! i) \<noteq> 0 \<longrightarrow> slot_ok ctl ns (ns_cache ns ! i)) \<and>
     (\<forall>i < 512. \<forall>j < 512. cb_status (ns_cache ns ! i) \<noteq> 0 \<longrightarrow> cb_status (ns_cache ns ! j) \<noteq> 0 \<longrightarrow>
        cb_block (ns_cache ns ! i) = cb_block (ns_cache ns ! j) \<longrightarrow> i = j)"

lemma geom_size:
  assumes "nvme_geom ctl ns"
  shows "cb_size ns = 4 * unat (lbasize ns)" "0 < cb_size ns" "cacheblocksize ns div lbasize ns = 4"
proof -
  have l: "0 < unat (lbasize ns)" "4 * unat (lbasize ns) \<le> 4096" using assms by (auto simp: nvme_geom_def unat_gt_0)
  show b: "cb_size ns = 4 * unat (lbasize ns)" using assms l(2) by (simp add: nvme_geom_def unat_mult_small)
  then show "0 < cb_size ns" using l(1) by simp
  have "unat (cacheblocksize ns div lbasize ns) = 4" using l(1) b by (simp add: unat_div)
  then show "cacheblocksize ns div lbasize ns = 4" by (simp add: word_unat_eq_iff)
qed

text \<open>How many blocks of the device a transfer of a block of the cache moves.\<close>

definition blk_count :: "'d nvme_ns \<Rightarrow> u64 \<Rightarrow> u64" where
  "blk_count ns b = (if 4 * b + 4 \<ge> lbacount ns then 4 - ((4 * b + 4) - lbacount ns) else 4)"

lemma blk_count_nat:
  assumes "nvme_geom ctl ns" "blk_at ns b < length (ns_bytes ctl ns)"
  shows "unat (blk_count ns b) * unat (lbasize ns) = blk_len ctl ns b" "1 \<le> unat (blk_count ns b)" "unat (blk_count ns b) \<le> 4"
    "unat (4 * b) * unat (lbasize ns) = blk_at ns b" "blk_at ns b + blk_len ctl ns b \<le> length (ns_bytes ctl ns)"
proof -
  let ?l = "unat (lbasize ns)" let ?n = "unat (lbacount ns)"
  have g: "0 < ?l" "length (ns_bytes ctl ns) = ?n * ?l" "?n * ?l < 2 ^ 63" using assms(1) by (auto simp: nvme_geom_def unat_gt_0)
  note cb = geom_size(1) [OF assms(1)]
  have "unat b * 4 * ?l < ?n * ?l" using assms(2) g(2) by (simp add: blk_at_def cb mult.assoc)
  then have lt: "unat b * 4 < ?n" using g(1) by simp
  have n63: "?n < 2 ^ 63" using g(1,3) by (metis le_less_trans mult.commute mult_le_mono1 nat_mult_1 One_nat_def Suc_leI)
  have b4: "unat (4 * b) = 4 * unat b" "unat (4 * b + 4) = 4 * unat b + 4"
    using lt n63 by (simp_all add: unat_mult_small unat_add_small)
  show at: "unat (4 * b) * ?l = blk_at ns b" by (simp add: b4 blk_at_def cb)
  have c: "unat (blk_count ns b) = (if 4 * unat b + 4 \<ge> ?n then ?n - 4 * unat b else 4)"
    using lt b4 by (simp add: blk_count_def word_le_nat_alt unat_sub_small)
  then show "1 \<le> unat (blk_count ns b)" "unat (blk_count ns b) \<le> 4" using lt by (simp_all split: if_splits)
  have "min (4 * ?l) (?n * ?l - 4 * unat b * ?l) = (if 4 * unat b + 4 \<ge> ?n then ?n - 4 * unat b else 4) * ?l"
    using lt by (auto simp: min_def diff_mult_distrib [symmetric])
  then show "unat (blk_count ns b) * ?l = blk_len ctl ns b" unfolding c blk_len_def blk_at_def cb g(2) by (simp add: ac_simps)
  show "blk_at ns b + blk_len ctl ns b \<le> length (ns_bytes ctl ns)" using assms(2) by (simp add: blk_len_def)
qed


text \<open>A transfer of a block of the cache needs one pointer only.\<close>

definition rw_cmd :: "'d controller \<Rightarrow> u64 \<Rightarrow> u64 \<Rightarrow> bool \<Rightarrow> 'd nvme_ns \<Rightarrow> nvme_rw" where
  "rw_cmd ctl addr b write ns = \<lparr>rw_opcode = (if write then NVME_OPWRITE else NVME_OPREAD), rw_cid = ucast (q_cmdid (ns_queue ns)),
     rw_nsid = ucast (ns_id ns), rw_prp1 = addr - ctl_hhdm ctl, rw_prp2 = 0, rw_slba = 4 * b, rw_len = ucast (blk_count ns b - 1)\<rparr>"

lemma rwlba_command:
  assumes "nvme_geom ctl ns" "blk_at ns b < length (ns_bytes ctl ns)"
  shows "\<exists>pages. nvme_rwlba ctl addr buf (4 * b) 4 write ns =
    (case ctl_rw ctl (rw_cmd ctl addr b write ns) pages (addr - ctl_hhdm ctl) buf (ns_dev ns) of (status, buf', dev') \<Rightarrow>
       rbind (nvme_awaitsubmitcmd status (ns_queue ns)) (\<lambda>q. Inr (buf', ns\<lparr>ns_queue := q, ns_dev := dev'\<rparr>)))"
proof -
  note c = blk_count_nat [OF assms]
  have "cb_size ns \<le> 4096" using geom_size(1) [OF assms(1)] assms(1) by (simp add: nvme_geom_def)
  then have le: "blk_len ctl ns b \<le> 4096" unfolding blk_len_def by linarith
  then have "unat (blk_count ns b * lbasize ns) = blk_len ctl ns b" using c(1) unat_mult_small [of "blk_count ns b" "lbasize ns"] by simp
  with le have s: "\<not> blk_count ns b * lbasize ns > PAGE_SIZE * 2" "\<not> blk_count ns b * lbasize ns > PAGE_SIZE"
    by (simp_all add: PAGE_SIZE_def word_less_nat_alt)
  show ?thesis
    unfolding nvme_rwlba_def Let_def blk_count_def [symmetric] if_not_P [OF s(1)] if_not_P [OF s(2)] rw_cmd_def
    by (intro exI) (simp add: s split: prod.split)
qed

lemma await_ok: "\<exists>q'. nvme_awaitsubmitcmd 0 q = Inr q'"
  by (simp add: nvme_awaitsubmitcmd_def Let_def)

lemma rw_cmd_good:
  assumes "nvme_geom ctl ns" "blk_at ns b < length (ns_bytes ctl ns)" "page_fits ctl (cb_size ns) addr"
  shows "(unat (rw_len (rw_cmd ctl addr b write ns)) + 1) * unat (lbasize ns) = blk_len ctl ns b"
    "unat (rw_slba (rw_cmd ctl addr b write ns)) * unat (lbasize ns) = blk_at ns b"
    "prps_describe (rw_cmd ctl addr b write ns) pages (addr - ctl_hhdm ctl) (blk_len ctl ns b)"
proof -
  note c = blk_count_nat [OF assms(1,2)]
  have "unat (blk_count ns b - 1) = unat (blk_count ns b) - 1" using c(2) by (simp add: unat_sub_small)
  then have "unat (ucast (blk_count ns b - 1) :: u16) = unat (blk_count ns b) - 1"
    using c(3) by (simp add: unat_ucast_word take_bit_nat_eq_self)
  then have "unat (rw_len (rw_cmd ctl addr b write ns)) + 1 = unat (blk_count ns b)" using c(2) by (simp add: rw_cmd_def)
  then show "(unat (rw_len (rw_cmd ctl addr b write ns)) + 1) * unat (lbasize ns) = blk_len ctl ns b" using c(1) by simp
  show "unat (rw_slba (rw_cmd ctl addr b write ns)) * unat (lbasize ns) = blk_at ns b" using c(4) by (simp add: rw_cmd_def)
  have "blk_len ctl ns b \<le> cb_size ns" by (simp add: blk_len_def)
  then show "prps_describe (rw_cmd ctl addr b write ns) pages (addr - ctl_hhdm ctl) (blk_len ctl ns b)"
    using assms(3) by (simp add: prps_describe_def Let_def page_fits_def rw_cmd_def)
qed

lemma rwlba_read:
  assumes "nvme_geom ctl ns" "blk_at ns b < length (ns_bytes ctl ns)" "page_fits ctl (cb_size ns) addr" "length buf = cb_size ns"
  shows "\<exists>q. nvme_rwlba ctl addr buf (4 * b) 4 False ns =
    Inr (bytes_at (blk_at ns b) (blk_len ctl ns b) (ns_bytes ctl ns) @ drop (blk_len ctl ns b) buf, ns\<lparr>ns_queue := q\<rparr>)"
proof -
  obtain pages where run: "nvme_rwlba ctl addr buf (4 * b) 4 False ns =
      (case ctl_rw ctl (rw_cmd ctl addr b False ns) pages (addr - ctl_hhdm ctl) buf (ns_dev ns) of (status, buf', dev') \<Rightarrow>
       rbind (nvme_awaitsubmitcmd status (ns_queue ns)) (\<lambda>q. Inr (buf', ns\<lparr>ns_queue := q, ns_dev := dev'\<rparr>)))"
    using rwlba_command [OF assms(1,2)] by blast
  note g = rw_cmd_good [OF assms(1-3), of False]
  have "good_controller ctl (unat (lbasize ns))" using assms(1) by (simp add: nvme_geom_def)
  moreover have "blk_len ctl ns b \<le> length buf" using assms(4) by (simp add: blk_len_def)
  moreover have "rw_opcode (rw_cmd ctl addr b False ns) = NVME_OPREAD" by (simp add: rw_cmd_def)
  ultimately have "ctl_rw ctl (rw_cmd ctl addr b False ns) pages (addr - ctl_hhdm ctl) buf (ns_dev ns) =
      (0, bytes_at (blk_at ns b) (blk_len ctl ns b) (ns_bytes ctl ns) @ drop (blk_len ctl ns b) buf, ns_dev ns)"
    using g blk_count_nat(5) [OF assms(1,2)] unfolding good_controller_def by metis
  moreover obtain q where "nvme_awaitsubmitcmd 0 (ns_queue ns) = Inr q" using await_ok by blast
  ultimately show ?thesis unfolding run by (intro exI [of _ q]) simp
qed

lemma rwlba_write:
  assumes "nvme_geom ctl ns" "blk_at ns b < length (ns_bytes ctl ns)" "page_fits ctl (cb_size ns) addr" "length buf = cb_size ns"
  shows "\<exists>q d. nvme_rwlba ctl addr buf (4 * b) 4 True ns = Inr (buf, ns\<lparr>ns_queue := q, ns_dev := d\<rparr>) \<and>
    ctl_bytes ctl d = put_at (blk_at ns b) (take (blk_len ctl ns b) buf) (ns_bytes ctl ns)"
proof -
  obtain pages where run: "nvme_rwlba ctl addr buf (4 * b) 4 True ns =
      (case ctl_rw ctl (rw_cmd ctl addr b True ns) pages (addr - ctl_hhdm ctl) buf (ns_dev ns) of (status, buf', dev') \<Rightarrow>
       rbind (nvme_awaitsubmitcmd status (ns_queue ns)) (\<lambda>q. Inr (buf', ns\<lparr>ns_queue := q, ns_dev := dev'\<rparr>)))"
    using rwlba_command [OF assms(1,2)] by blast
  note g = rw_cmd_good [OF assms(1-3), of True]
  have "good_controller ctl (unat (lbasize ns))" using assms(1) by (simp add: nvme_geom_def)
  moreover have "blk_len ctl ns b \<le> length buf" using assms(4) by (simp add: blk_len_def)
  moreover have "rw_opcode (rw_cmd ctl addr b True ns) = NVME_OPWRITE" by (simp add: rw_cmd_def)
  ultimately obtain d where d: "ctl_rw ctl (rw_cmd ctl addr b True ns) pages (addr - ctl_hhdm ctl) buf (ns_dev ns) = (0, buf, d)"
      "ctl_bytes ctl d = put_at (blk_at ns b) (take (blk_len ctl ns b) buf) (ns_bytes ctl ns)"
    using g blk_count_nat(5) [OF assms(1,2)] unfolding good_controller_def by metis
  moreover obtain q where "nvme_awaitsubmitcmd 0 (ns_queue ns) = Inr q" using await_ok by blast
  ultimately show ?thesis unfolding run by (intro exI [of _ q] exI [of _ d]) simp
qed


subsection \<open>Slots\<close>

text \<open>Two states with the same device behind them and the same sizes.\<close>

definition same_ns :: "'d controller \<Rightarrow> 'd nvme_ns \<Rightarrow> 'd nvme_ns \<Rightarrow> bool" where
  "same_ns ctl ns ns' \<longleftrightarrow> ns_bytes ctl ns' = ns_bytes ctl ns \<and> lbasize ns' = lbasize ns \<and> lbacount ns' = lbacount ns \<and>
     cacheblocksize ns' = cacheblocksize ns \<and> ns_lock ns' = ns_lock ns"

lemma same_ns_refl [simp]: "same_ns ctl ns ns"
  by (simp add: same_ns_def)

lemma slot_ok_cong:
  "cacheblocksize ns' = cacheblocksize ns \<Longrightarrow> ns_bytes ctl ns' = ns_bytes ctl ns \<Longrightarrow> slot_ok ctl ns' cb = slot_ok ctl ns cb"
  by (simp add: slot_ok_def blk_at_def blk_len_def)

lemma geom_cong:
  "same_ns ctl ns ns' \<Longrightarrow> length (ns_cache ns') = length (ns_cache ns) \<Longrightarrow> unat (overwritten ns') \<le> 512 \<Longrightarrow> nvme_geom ctl ns \<Longrightarrow> nvme_geom ctl ns'"
  by (auto simp: nvme_geom_def same_ns_def)

lemma geom_D:
  assumes "nvme_geom ctl ns"
  shows "length (ns_cache ns) = 512" "unat (overwritten ns) \<le> 512" "page_fits ctl (cb_size ns) (ctl_alloc ctl i)"
  using assms by (auto simp: nvme_geom_def)

lemma cache_okD:
  assumes "cache_ok ctl ns" "i < 512" "cb_status (ns_cache ns ! i) \<noteq> 0"
  shows "slot_ok ctl ns (ns_cache ns ! i)"
    and "j < 512 \<Longrightarrow> cb_status (ns_cache ns ! j) \<noteq> 0 \<Longrightarrow> cb_block (ns_cache ns ! i) = cb_block (ns_cache ns ! j) \<Longrightarrow> i = j"
  using assms by (auto simp: cache_ok_def)

lemma cache_okI:
  assumes "\<And>i. i < 512 \<Longrightarrow> cb_status (ns_cache ns ! i) \<noteq> 0 \<Longrightarrow> slot_ok ctl ns (ns_cache ns ! i)"
    and "\<And>i j. i < 512 \<Longrightarrow> j < 512 \<Longrightarrow> cb_status (ns_cache ns ! i) \<noteq> 0 \<Longrightarrow> cb_status (ns_cache ns ! j) \<noteq> 0 \<Longrightarrow>
      cb_block (ns_cache ns ! i) = cb_block (ns_cache ns ! j) \<Longrightarrow> i = j"
  shows "cache_ok ctl ns"
  using assms by (simp add: cache_ok_def)

lemma findblock_Some: "nvme_findblock b ns = Some i \<Longrightarrow> i < 512 \<and> cb_block (ns_cache ns ! i) = b \<and> cb_status (ns_cache ns ! i) \<noteq> 0"
  by (auto simp: nvme_findblock_def find_Some_iff)

lemma findblock_None: "nvme_findblock b ns = None \<Longrightarrow> i < 512 \<Longrightarrow> cb_status (ns_cache ns ! i) \<noteq> 0 \<Longrightarrow> cb_block (ns_cache ns ! i) \<noteq> b"
  by (auto simp: nvme_findblock_def find_None_iff)

lemma install_ok:
  assumes "nvme_geom ctl ns" "cache_ok ctl ns" "nvme_findblock b ns = None" "i < 512" "slot_ok ctl ns cb" "cb_block cb = b"
    and "ns_cache ns' = (ns_cache ns)[i := cb]" "cacheblocksize ns' = cacheblocksize ns" "ns_bytes ctl ns' = ns_bytes ctl ns"
  shows "cache_ok ctl ns'"
proof -
  have nth: "ns_cache ns' ! j = (if j = i then cb else ns_cache ns ! j)" if "j < 512" for j
    using that geom_D(1) [OF assms(1)] assms(7) by simp
  have ok: "slot_ok ctl ns' c = slot_ok ctl ns c" for c by (rule slot_ok_cong [OF assms(8,9)])
  show ?thesis
  proof (rule cache_okI)
    fix j assume "j < 512" "cb_status (ns_cache ns' ! j) \<noteq> 0"
    then show "slot_ok ctl ns' (ns_cache ns' ! j)" using cache_okD(1) [OF assms(2), of j] assms(5) by (cases "j = i") (simp_all add: ok nth)
  next
    fix j k assume jk: "j < 512" "k < 512" "cb_status (ns_cache ns' ! j) \<noteq> 0" "cb_status (ns_cache ns' ! k) \<noteq> 0"
      "cb_block (ns_cache ns' ! j) = cb_block (ns_cache ns' ! k)"
    consider "j = i" "k = i" | "j = i" "k \<noteq> i" | "j \<noteq> i" "k = i" | "j \<noteq> i" "k \<noteq> i" by blast
    then show "j = k"
    proof cases
      case 2 then show ?thesis using jk assms(6) findblock_None [OF assms(3) jk(2)] by (simp add: nth)
    next
      case 3 then show ?thesis using jk assms(6) findblock_None [OF assms(3) jk(1)] by (simp add: nth)
    next
      case 4 then show ?thesis using jk cache_okD(2) [OF assms(2) jk(1), of k] by (simp add: nth)
    qed simp
  qed
qed

text \<open>The slot that a block without one gets.\<close>

lemma target_slot:
  assumes "nvme_geom ctl ns" "cache_ok ctl ns"
  shows "\<exists>i cb ov. (case find (\<lambda>i. cb_status (ns_cache ns ! i) = 0) [0..<512] of
       Some i \<Rightarrow> (i, ns\<lparr>ns_cache := (ns_cache ns)[i := (ns_cache ns ! i)\<lparr>cb_addr := ctl_alloc ctl i, cb_cache := replicate (cb_size ns) 0\<rparr>]\<rparr>)
     | None \<Rightarrow> if overwritten ns = 512 then (0, ns\<lparr>overwritten := 0\<rparr>) else (unat (overwritten ns), ns\<lparr>overwritten := overwritten ns + 1\<rparr>)) =
       (i, ns\<lparr>ns_cache := (ns_cache ns)[i := cb], overwritten := ov\<rparr>) \<and>
     i < 512 \<and> length (cb_cache cb) = cb_size ns \<and> page_fits ctl (cb_size ns) (cb_addr cb) \<and> unat ov \<le> 512"
proof (cases "find (\<lambda>i. cb_status (ns_cache ns ! i) = 0) [0..<512]")
  case (Some i)
  then have i: "i < 512" by (auto simp: find_Some_iff)
  let ?cb = "(ns_cache ns ! i)\<lparr>cb_addr := ctl_alloc ctl i, cb_cache := replicate (cb_size ns) 0\<rparr>"
  have "ns\<lparr>ns_cache := (ns_cache ns)[i := ?cb]\<rparr> = ns\<lparr>ns_cache := (ns_cache ns)[i := ?cb], overwritten := overwritten ns\<rparr>" by simp
  with Some i show ?thesis using geom_D(2,3) [OF assms(1)]
    by (intro exI [of _ i] exI [of _ ?cb] exI [of _ "overwritten ns"]) simp
next
  case None
  then have busy: "cb_status (ns_cache ns ! i) \<noteq> 0" if "i < 512" for i using that by (auto simp: find_None_iff)
  then have slot: "length (cb_cache (ns_cache ns ! i)) = cb_size ns" "page_fits ctl (cb_size ns) (cb_addr (ns_cache ns ! i))" if "i < 512" for i
    using cache_okD(1) [OF assms(2) that busy [OF that]] by (simp_all add: slot_ok_def)
  have keep: "ns\<lparr>overwritten := ov\<rparr> = ns\<lparr>ns_cache := (ns_cache ns)[i := ns_cache ns ! i], overwritten := ov\<rparr>" for i ov by simp
  show ?thesis
  proof (cases "overwritten ns = 512")
    case True
    with None slot [of 0] show ?thesis by (intro exI [of _ 0] exI [of _ "ns_cache ns ! 0"] exI [of _ 0]) simp
  next
    case False
    then have "unat (overwritten ns) \<noteq> 512" by (simp add: word_unat_eq_iff)
    then have lt: "unat (overwritten ns) < 512" using geom_D(2) [OF assms(1)] by simp
    then have "unat (overwritten ns + 1) \<le> 512" by (simp add: unat_add_small)
    with False None lt slot [OF lt] show ?thesis
      by (intro exI [of _ "unat (overwritten ns)"] exI [of _ "ns_cache ns ! unat (overwritten ns)"] exI [of _ "overwritten ns + 1"]) simp
  qed
qed

lemma cacheblock_ok:
  assumes "nvme_geom ctl ns" "cache_ok ctl ns" "nvme_findblock b ns = None" "blk_at ns b < length (ns_bytes ctl ns)"
  shows "\<exists>i ns'. nvme_cacheblock ctl b ns = Inr (i, ns') \<and> nvme_geom ctl ns' \<and> cache_ok ctl ns' \<and> same_ns ctl ns ns' \<and>
    i < 512 \<and> cb_block (ns_cache ns' ! i) = b \<and> cb_status (ns_cache ns' ! i) \<noteq> 0"
proof -
  obtain i cb ov where t: "(case find (\<lambda>i. cb_status (ns_cache ns ! i) = 0) [0..<512] of
       Some i \<Rightarrow> (i, ns\<lparr>ns_cache := (ns_cache ns)[i := (ns_cache ns ! i)\<lparr>cb_addr := ctl_alloc ctl i, cb_cache := replicate (cb_size ns) 0\<rparr>]\<rparr>)
     | None \<Rightarrow> if overwritten ns = 512 then (0, ns\<lparr>overwritten := 0\<rparr>) else (unat (overwritten ns), ns\<lparr>overwritten := overwritten ns + 1\<rparr>)) =
       (i, ns\<lparr>ns_cache := (ns_cache ns)[i := cb], overwritten := ov\<rparr>)"
     and i: "i < 512" "length (cb_cache cb) = cb_size ns" "page_fits ctl (cb_size ns) (cb_addr cb)" "unat ov \<le> 512"
    using target_slot [OF assms(1,2)] by blast
  let ?n = "ns\<lparr>ns_cache := (ns_cache ns)[i := cb], overwritten := ov\<rparr>"
  have len: "length (ns_cache ns) = 512" by (rule geom_D(1) [OF assms(1)])
  have g: "nvme_geom ctl ?n" using geom_cong [OF _ _ _ assms(1), of ?n] i(4) by (simp add: same_ns_def)
  let ?m = "blk_len ctl ns b"
  let ?data = "bytes_at (blk_at ns b) ?m (ns_bytes ctl ns) @ drop ?m (cb_cache cb)"
  have "blk_at ?n b = blk_at ns b" "blk_len ctl ?n b = ?m" by (simp_all add: blk_at_def blk_len_def)
  then obtain q where q: "nvme_rwlba ctl (cb_addr cb) (cb_cache cb) (4 * b) 4 False ?n = Inr (?data, ?n\<lparr>ns_queue := q\<rparr>)"
    using rwlba_read [OF g, of b "cb_addr cb" "cb_cache cb"] i assms(4) by auto
  let ?cb = "cb\<lparr>cb_cache := ?data, cb_block := b, cb_status := NVME_READYCACHE\<rparr>"
  let ?n2 = "?n\<lparr>ns_queue := q, ns_cache := (ns_cache ns)[i := ?cb]\<rparr>"
  have run: "nvme_cacheblock ctl b ns = Inr (i, ?n2)"
    unfolding nvme_cacheblock_def t geom_size(3) [OF assms(1)] Let_def using i(1) len q by simp
  have l: "length (bytes_at (blk_at ns b) ?m (ns_bytes ctl ns)) = ?m" using blk_count_nat(5) [OF assms(1,4)] by simp
  have "?m \<le> cb_size ns" by (simp add: blk_len_def)
  then have so: "slot_ok ctl ns ?cb" using l i(2,3) assms(4) by (simp add: slot_ok_def)
  have ok: "cache_ok ctl ?n2" by (rule install_ok [OF assms(1-3) i(1) so]) simp_all
  have same: "same_ns ctl ns ?n2" by (simp add: same_ns_def)
  have "nvme_geom ctl ?n2" by (rule geom_cong [OF same _ _ assms(1)]) (use i(4) in simp_all)
  then show ?thesis using run ok same i(1) len by (intro exI [of _ i] exI [of _ ?n2]) (simp add: NVME_READYCACHE_def)
qed

lemma slot_found:
  assumes "nvme_geom ctl ns" "cache_ok ctl ns" "blk_at ns b < length (ns_bytes ctl ns)"
  shows "\<exists>i ns'. nvme_slot ctl b ns = Inr (i, ns') \<and> nvme_geom ctl ns' \<and> cache_ok ctl ns' \<and> same_ns ctl ns ns' \<and>
    i < 512 \<and> cb_block (ns_cache ns' ! i) = b \<and> slot_ok ctl ns' (ns_cache ns' ! i) \<and> cb_status (ns_cache ns' ! i) \<noteq> 0"
proof (cases "nvme_findblock b ns")
  case None
  then show ?thesis using cacheblock_ok [OF assms(1,2) None assms(3)] cache_okD(1) by (fastforce simp: nvme_slot_def)
next
  case (Some i)
  then show ?thesis using findblock_Some [OF Some] assms by (intro exI [of _ i] exI [of _ ns]) (simp add: nvme_slot_def cache_okD(1))
qed


subsection \<open>Reading and writing through the cache\<close>

lemma bytes_at_take: "off + c \<le> m \<Longrightarrow> bytes_at off c (take m xs) = bytes_at off c xs"
  by (simp add: bytes_at_def drop_take min_absorb1)

lemma chunk_nat: "cacheblocksize ns \<noteq> 0 \<Longrightarrow> unat (chunk_of ns pos left) = min (unat left) (cb_size ns - unat pos mod cb_size ns)"
proof -
  assume "cacheblocksize ns \<noteq> 0"
  then have "0 < cb_size ns" by (simp add: unat_gt_0)
  then have "unat (cacheblocksize ns - pos mod cacheblocksize ns) = cb_size ns - unat pos mod cb_size ns"
    by (simp add: unat_sub_small unat_mod less_imp_le)
  then show ?thesis by (auto simp: chunk_of_def Let_def word_less_nat_alt min_def)
qed

text \<open>Where the bytes from a position on lie in the cached block.\<close>

lemma position:
  assumes "nvme_geom ctl ns" "unat pos < length (ns_bytes ctl ns)" "b = pos div cacheblocksize ns" "off = unat (pos mod cacheblocksize ns)"
  shows "blk_at ns b + off = unat pos" "off < cb_size ns" "blk_at ns b < length (ns_bytes ctl ns)"
    "c \<le> cb_size ns - off \<Longrightarrow> unat pos + c \<le> length (ns_bytes ctl ns) \<Longrightarrow> off + c \<le> blk_len ctl ns b"
proof -
  have B: "0 < cb_size ns" by (rule geom_size(2) [OF assms(1)])
  show at: "blk_at ns b + off = unat pos" using assms(3,4) by (simp add: blk_at_def unat_div unat_mod)
  show "off < cb_size ns" using B assms(4) by (simp add: unat_mod)
  then show "blk_at ns b < length (ns_bytes ctl ns)" using at assms(2) by linarith
  show "off + c \<le> blk_len ctl ns b" if "c \<le> cb_size ns - off" "unat pos + c \<le> length (ns_bytes ctl ns)"
    using that at \<open>off < cb_size ns\<close> unfolding blk_len_def by linarith
qed

lemma read_chunk_ok:
  assumes "nvme_geom ctl ns" "cache_ok ctl ns" "unat pos + unat left \<le> length (ns_bytes ctl ns)" "left \<noteq> 0"
  shows "\<exists>ns'. read_chunk ctl pos left ns = Inr (bytes_at (unat pos) (unat (chunk_of ns pos left)) (ns_bytes ctl ns), ns') \<and>
    nvme_geom ctl ns' \<and> cache_ok ctl ns' \<and> same_ns ctl ns ns'"
proof -
  define b where "b = pos div cacheblocksize ns"
  define off where "off = unat (pos mod cacheblocksize ns)"
  define c where "c = unat (chunk_of ns pos left)"
  have B: "cacheblocksize ns \<noteq> 0" using geom_size(2) [OF assms(1)] by auto
  have left: "0 < unat left" using assms(4) by (simp add: unat_gt_0)
  then have lt: "unat pos < length (ns_bytes ctl ns)" using assms(3) by simp
  note p = position [OF assms(1) lt b_def off_def]
  have c: "c \<le> cb_size ns - off" "unat pos + c \<le> length (ns_bytes ctl ns)"
    using assms(3) by (auto simp: c_def chunk_nat [OF B] off_def unat_mod)
  note fits = p(4) [OF c]
  obtain i ns' where s: "nvme_slot ctl b ns = Inr (i, ns')" "nvme_geom ctl ns'" "cache_ok ctl ns'" "same_ns ctl ns ns'" "i < 512"
      "cb_block (ns_cache ns' ! i) = b" "slot_ok ctl ns' (ns_cache ns' ! i)"
    using slot_found [OF assms(1,2) p(3)] by blast
  have same: "blk_len ctl ns' b = blk_len ctl ns b" "blk_at ns' b = blk_at ns b" "ns_bytes ctl ns' = ns_bytes ctl ns" "cb_size ns' = cb_size ns"
    using s(4) by (simp_all add: same_ns_def blk_len_def blk_at_def)
  let ?cb = "ns_cache ns' ! i"
  have cb: "length (cb_cache ?cb) = cb_size ns" "take (blk_len ctl ns b) (cb_cache ?cb) = bytes_at (blk_at ns b) (blk_len ctl ns b) (ns_bytes ctl ns)"
    using s(6,7) same by (simp_all add: slot_ok_def)
  have "bytes_at off c (cb_cache ?cb) = bytes_at off c (bytes_at (blk_at ns b) (blk_len ctl ns b) (ns_bytes ctl ns))"
    using bytes_at_take [OF fits, of "cb_cache ?cb"] cb(2) by simp
  also have "\<dots> = bytes_at (unat pos) c (ns_bytes ctl ns)"
    using bytes_at_bytes_at [OF fits blk_count_nat(5) [OF assms(1) p(3)]] p(1) by simp
  finally have data: "bytes_at off c (cb_cache ?cb) = bytes_at (unat pos) c (ns_bytes ctl ns)" .
  have le: "off + c \<le> cb_size ns" using c(1) p(2) by linarith
  have "read_chunk ctl pos left ns = Inr (bytes_at (unat pos) c (ns_bytes ctl ns), ns')"
    unfolding read_chunk_def b_def [symmetric] off_def [symmetric] c_def [symmetric] Let_def
    using s(1,5) geom_D(1) [OF s(2)] cb(1) le data by simp
  with s(2-4) show ?thesis unfolding c_def by blast
qed

lemma read_loop_ok:
  "nvme_geom ctl ns \<Longrightarrow> cache_ok ctl ns \<Longrightarrow> unat pos + unat left \<le> length (ns_bytes ctl ns) \<Longrightarrow>
   \<exists>ns'. read_loop ctl pos left ns = Inr (bytes_at (unat pos) (unat left) (ns_bytes ctl ns), ns') \<and>
     nvme_geom ctl ns' \<and> cache_ok ctl ns' \<and> same_ns ctl ns ns'"
proof (induction ctl pos left ns rule: read_loop.induct)
  case (1 ctl pos left ns)
  show ?case
  proof (cases "left = 0")
    case True
    then show ?thesis using "1.prems" by (simp add: read_loop.simps [of ctl pos 0 ns])
  next
    case False
    have B: "cacheblocksize ns \<noteq> 0" using geom_size(2) [OF "1.prems"(1)] by auto
    let ?c = "chunk_of ns pos left"
    obtain ns1 where r: "read_chunk ctl pos left ns = Inr (bytes_at (unat pos) (unat ?c) (ns_bytes ctl ns), ns1)"
        "nvme_geom ctl ns1" "cache_ok ctl ns1" "same_ns ctl ns ns1"
      using read_chunk_ok [OF "1.prems" False] by blast
    have c: "unat ?c \<le> unat left" "unat (left - ?c) = unat left - unat ?c" using chunk_le [of ns pos left] by (simp_all add: word_le_nat_alt unat_rest)
    have "length (ns_bytes ctl ns) < 2 ^ 63" using "1.prems"(1) by (simp add: nvme_geom_def)
    then have pos: "unat (pos + ?c) = unat pos + unat ?c" using c(1) "1.prems"(3) by (intro unat_add_small) simp
    have same: "ns_bytes ctl ns1 = ns_bytes ctl ns" using r(4) by (simp add: same_ns_def)
    obtain ns2 where ns2: "read_loop ctl (pos + ?c) (left - ?c) ns1 = Inr (bytes_at (unat (pos + ?c)) (unat (left - ?c)) (ns_bytes ctl ns1), ns2)"
        "nvme_geom ctl ns2" "cache_ok ctl ns2" "same_ns ctl ns1 ns2"
      using "1.IH" [OF False B r(1)] r(2,3) "1.prems"(3) c pos same by auto
    have "bytes_at (unat pos) (unat ?c) (ns_bytes ctl ns) @ bytes_at (unat (pos + ?c)) (unat (left - ?c)) (ns_bytes ctl ns) =
        bytes_at (unat pos) (unat left) (ns_bytes ctl ns)"
      using bytes_at_append [of "unat pos" "unat ?c" "unat left - unat ?c" "ns_bytes ctl ns"] c pos "1.prems"(3) by simp
    then have "read_loop ctl pos left ns = Inr (bytes_at (unat pos) (unat left) (ns_bytes ctl ns), ns2)"
      using False B r(1) ns2(1) same by (subst read_loop.simps) simp
    then show ?thesis using ns2 r(4) by (auto simp: same_ns_def)
  qed
qed


text \<open>Writing into a cached block and the block to the device writes the bytes to the device.\<close>

lemma put_block:
  assumes "off + length buf \<le> m" "m \<le> length cache" "at + m \<le> length d" "take m cache = bytes_at at m d"
  shows "put_at at (take m (put_at off buf cache)) d = put_at (at + off) buf d"
proof (rule nth_equalityI)
  have len: "length (take m (put_at off buf cache)) = m" using assms(1,2) by simp
  show "length (put_at at (take m (put_at off buf cache)) d) = length (put_at (at + off) buf d)" using assms(1,3) len by simp
  fix k assume "k < length (put_at at (take m (put_at off buf cache)) d)"
  then have k: "k < length d" using assms(3) len by simp
  have c: "cache ! i = d ! (at + i)" if "i < m" for i
  proof -
    have "take m cache ! i = bytes_at at m d ! i" using assms(4) by simp
    then show ?thesis using that assms(3) by (simp add: nth_bytes_at)
  qed
  show "put_at at (take m (put_at off buf cache)) d ! k = put_at (at + off) buf d ! k"
    using k assms(1-3) len c [of "k - at"] by (auto simp: nth_put_at)
qed

lemma blocks_apart:
  assumes "nvme_geom ctl ns" "b \<noteq> b'" "blk_at ns b < length (ns_bytes ctl ns)" "blk_at ns b' < length (ns_bytes ctl ns)"
  shows "blk_at ns b + blk_len ctl ns b \<le> blk_at ns b' \<or> blk_at ns b' + blk_len ctl ns b' \<le> blk_at ns b"
proof -
  have le: "blk_at ns x + cb_size ns \<le> blk_at ns y" if "unat x < unat y" for x y
  proof -
    have "(unat x + 1) * cb_size ns \<le> unat y * cb_size ns" using that by (intro mult_le_mono1) simp
    then show ?thesis by (simp add: blk_at_def)
  qed
  have "unat b \<noteq> unat b'" using assms(2) by (simp add: word_unat_eq_iff)
  then consider "unat b < unat b'" | "unat b' < unat b" by linarith
  then show ?thesis using le [of b b'] le [of b' b] by cases (auto simp: blk_len_def)
qed

lemma write_chunk_ok:
  assumes "nvme_geom ctl ns" "cache_ok ctl ns" "unat pos + length buf \<le> length (ns_bytes ctl ns)" "buf \<noteq> []"
    and "length buf \<le> cb_size ns - unat pos mod cb_size ns"
  shows "\<exists>ns'. write_chunk ctl pos buf ns = Inr ns' \<and> nvme_geom ctl ns' \<and> cache_ok ctl ns' \<and>
    ns_bytes ctl ns' = put_at (unat pos) buf (ns_bytes ctl ns) \<and> cacheblocksize ns' = cacheblocksize ns \<and> ns_lock ns' = ns_lock ns"
proof -
  define b where "b = pos div cacheblocksize ns"
  define off where "off = unat (pos mod cacheblocksize ns)"
  have lt: "unat pos < length (ns_bytes ctl ns)" using assms(3,4) by (cases buf) simp_all
  note p = position [OF assms(1) lt b_def off_def]
  have c: "length buf \<le> cb_size ns - off" using assms(5) by (simp add: off_def unat_mod)
  note fits = p(4) [OF c assms(3)]
  obtain i ns1 where s: "nvme_slot ctl b ns = Inr (i, ns1)" "nvme_geom ctl ns1" "cache_ok ctl ns1" "same_ns ctl ns ns1" "i < 512"
      "cb_block (ns_cache ns1 ! i) = b" "slot_ok ctl ns1 (ns_cache ns1 ! i)" "cb_status (ns_cache ns1 ! i) \<noteq> 0"
    using slot_found [OF assms(1,2) p(3)] by blast
  have same: "ns_bytes ctl ns1 = ns_bytes ctl ns" "cacheblocksize ns1 = cacheblocksize ns" "ns_lock ns1 = ns_lock ns"
      "blk_len ctl ns1 x = blk_len ctl ns x" "blk_at ns1 x = blk_at ns x" for x
    using s(4) by (simp_all add: same_ns_def blk_len_def blk_at_def)
  let ?cb = "ns_cache ns1 ! i" let ?m = "blk_len ctl ns b" let ?D = "ns_bytes ctl ns"
  have cb: "length (cb_cache ?cb) = cb_size ns" "page_fits ctl (cb_size ns) (cb_addr ?cb)" "take ?m (cb_cache ?cb) = bytes_at (blk_at ns b) ?m ?D"
    using s(6,7) same by (simp_all add: slot_ok_def)
  have m: "?m \<le> cb_size ns" "blk_at ns b + ?m \<le> length ?D" using blk_count_nat(5) [OF assms(1) p(3)] by (simp_all add: blk_len_def)
  define data where "data = put_at off buf (cb_cache ?cb)"
  have dl: "length data = cb_size ns" using cb(1) fits m(1) by (simp add: data_def)
  have put: "put_at (blk_at ns b) (take ?m data) ?D = put_at (unat pos) buf ?D"
    using put_block [OF fits _ m(2) cb(3)] m(1) cb(1) p(1) by (simp add: data_def)
  let ?cb1 = "?cb\<lparr>cb_cache := data, cb_status := NVME_READYCACHE\<rparr>"
  let ?n = "ns1\<lparr>ns_cache := (ns_cache ns1)[i := ?cb1]\<rparr>"
  have g: "nvme_geom ctl ?n" by (rule geom_cong [OF _ _ _ s(2)]) (use geom_D(2) [OF s(2)] in \<open>simp_all add: same_ns_def\<close>)
  have "blk_at ?n b = blk_at ns b" "blk_len ctl ?n b = ?m" "cb_size ?n = cb_size ns" using same by (simp_all add: blk_at_def blk_len_def)
  then obtain q d where w: "nvme_rwlba ctl (cb_addr ?cb) data (4 * b) 4 True ?n = Inr (data, ?n\<lparr>ns_queue := q, ns_dev := d\<rparr>)"
      "ctl_bytes ctl d = put_at (unat pos) buf ?D"
    using rwlba_write [OF g, of b "cb_addr ?cb" data] p(3) cb(2) dl same(1) put by auto
  let ?n2 = "ns1\<lparr>ns_queue := q, ns_dev := d, ns_cache := (ns_cache ns1)[i := ?cb1]\<rparr>"
  have len: "length (ns_cache ns1) = 512" by (rule geom_D(1) [OF s(2)])
  have le: "off + length buf \<le> length (cb_cache ?cb)" using fits m(1) cb(1) by linarith
  have swap: "cb\<lparr>cb_status := t, cb_cache := x\<rparr> = cb\<lparr>cb_cache := x, cb_status := t\<rparr>" for cb :: cachedblock and t x by (cases cb) simp
  have run: "write_chunk ctl pos buf ns = Inr ?n2"
    unfolding write_chunk_def b_def [symmetric] off_def [symmetric] Let_def geom_size(3) [OF assms(1)]
    using s(1,5,6) len le w(1) by (simp add: data_def [symmetric] swap)
  have "length (ctl_bytes ctl d) = length ?D" using w(2) assms(3) by simp
  then have g2: "nvme_geom ctl ?n2" using s(2) same(1) len by (auto simp: nvme_geom_def)
  have lens: "blk_at ?n2 x = blk_at ns x" "blk_len ctl ?n2 x = blk_len ctl ns x" for x
    using same \<open>length (ctl_bytes ctl d) = length ?D\<close> by (simp_all add: blk_at_def blk_len_def)
  have D: "bytes_at (blk_at ns b) ?m (ctl_bytes ctl d) = take ?m data"
    using m(2) dl m(1) put w(2) bytes_at_put_at_same [of "blk_at ns b" "take ?m data" ?D] by simp
  have ok: "cache_ok ctl ?n2"
  proof (rule cache_okI)
    fix j assume j: "j < 512" "cb_status (ns_cache ?n2 ! j) \<noteq> 0"
    show "slot_ok ctl ?n2 (ns_cache ?n2 ! j)"
    proof (cases "j = i")
      case True
      then show ?thesis using s(5,6) len dl cb(2) p(3) D same \<open>length (ctl_bytes ctl d) = length ?D\<close> by (simp add: slot_ok_def lens)
    next
      case False
      let ?x = "cb_block (ns_cache ns1 ! j)"
      have st: "cb_status (ns_cache ns1 ! j) \<noteq> 0" using j(2) False by simp
      note sj = cache_okD(1) [OF s(3) j(1) st, unfolded slot_ok_def same]
      have ne: "?x \<noteq> b" using cache_okD(2) [OF s(3) j(1) st s(5) s(8)] s(6) False by auto
      have xl: "blk_at ns ?x + blk_len ctl ns ?x \<le> length ?D" by (rule blk_count_nat(5) [OF assms(1)]) (use sj in blast)
      have "bytes_at (blk_at ns ?x) (blk_len ctl ns ?x) (ctl_bytes ctl d) = bytes_at (blk_at ns ?x) (blk_len ctl ns ?x) ?D"
        unfolding w(2) put [symmetric] using blocks_apart [OF assms(1) ne _ p(3)] sj m xl dl by (intro bytes_at_put_at_other) auto
      then show ?thesis using sj False same \<open>length (ctl_bytes ctl d) = length ?D\<close> by (simp add: slot_ok_def lens)
    qed
  next
    fix j k assume jk: "j < 512" "k < 512" "cb_status (ns_cache ?n2 ! j) \<noteq> 0" "cb_status (ns_cache ?n2 ! k) \<noteq> 0"
      "cb_block (ns_cache ?n2 ! j) = cb_block (ns_cache ?n2 ! k)"
    have "cb_status (ns_cache ns1 ! x) \<noteq> 0" "cb_block (ns_cache ?n2 ! x) = cb_block (ns_cache ns1 ! x)"
      if "x < 512" "cb_status (ns_cache ?n2 ! x) \<noteq> 0" for x
      using that s(8) len by (cases "x = i"; simp)+
    then show "j = k" using cache_okD(2) [OF s(3) jk(1) _ jk(2)] jk by metis
  qed
  show ?thesis using run g2 ok w(2) same by (intro exI [of _ ?n2]) simp
qed


lemma write_loop_ok:
  "nvme_geom ctl ns \<Longrightarrow> cache_ok ctl ns \<Longrightarrow> unat left = length buf \<Longrightarrow> unat pos + length buf \<le> length (ns_bytes ctl ns) \<Longrightarrow>
   \<exists>ns'. write_loop_nvme ctl pos left buf ns = Inr ns' \<and> nvme_geom ctl ns' \<and> cache_ok ctl ns' \<and>
     ns_bytes ctl ns' = put_at (unat pos) buf (ns_bytes ctl ns) \<and> ns_lock ns' = ns_lock ns"
proof (induction ctl pos left buf ns rule: write_loop_nvme.induct)
  case (1 ctl pos left buf ns)
  show ?case
  proof (cases "left = 0")
    case True
    then show ?thesis using "1.prems" by (simp add: write_loop_nvme.simps [of ctl pos 0 "[]" ns])
  next
    case False
    have B: "cacheblocksize ns \<noteq> 0" using geom_size(2) [OF "1.prems"(1)] by auto
    let ?c = "chunk_of ns pos left" let ?h = "take (unat ?c) buf" let ?t = "drop (unat ?c) buf"
    have c: "unat ?c \<le> length buf" "unat (left - ?c) = length ?t" "0 < unat ?c" "unat ?c \<le> cb_size ns - unat pos mod cb_size ns"
      using chunk_le [of ns pos left] chunk_pos [OF B False, of pos] "1.prems"(3) by (simp_all add: word_le_nat_alt unat_rest chunk_nat [OF B])
    have h: "length ?h = unat ?c" "?h \<noteq> []" using c(1,3) by auto
    obtain ns1 where r: "write_chunk ctl pos ?h ns = Inr ns1" "nvme_geom ctl ns1" "cache_ok ctl ns1"
        "ns_bytes ctl ns1 = put_at (unat pos) ?h (ns_bytes ctl ns)" "ns_lock ns1 = ns_lock ns"
      using write_chunk_ok [OF "1.prems"(1,2), of pos ?h] "1.prems"(4) c(1,4) h by auto
    have "length (ns_bytes ctl ns) < 2 ^ 63" using "1.prems"(1) by (simp add: nvme_geom_def)
    then have pos: "unat (pos + ?c) = unat pos + unat ?c" using c(1) "1.prems"(4) by (intro unat_add_small) simp
    have len: "length (ns_bytes ctl ns1) = length (ns_bytes ctl ns)" using r(4) h(1) c(1) "1.prems"(4) by simp
    obtain ns2 where ns2: "write_loop_nvme ctl (pos + ?c) (left - ?c) ?t ns1 = Inr ns2" "nvme_geom ctl ns2" "cache_ok ctl ns2"
        "ns_bytes ctl ns2 = put_at (unat (pos + ?c)) ?t (ns_bytes ctl ns1)" "ns_lock ns2 = ns_lock ns1"
      using "1.IH" [OF False B r(1,2,3) c(2)] "1.prems"(4) c(1) pos len by auto
    have "put_at (unat (pos + ?c)) ?t (ns_bytes ctl ns1) = put_at (unat pos) buf (ns_bytes ctl ns)"
      using put_at_append [of "unat pos" ?h ?t "ns_bytes ctl ns"] r(4) pos h(1) c(1) "1.prems"(4) by simp
    moreover have "write_loop_nvme ctl pos left buf ns = Inr ns2" using False B r(1) ns2(1) by (subst write_loop_nvme.simps) simp
    ultimately show ?thesis using ns2 r(5) by auto
  qed
qed

subsection \<open>The driver is a block device\<close>

definition nvme_ok :: "'d controller \<Rightarrow> 'd nvme_ns \<Rightarrow> bool" where
  "nvme_ok ctl ns \<longleftrightarrow> nvme_geom ctl ns \<and> cache_ok ctl ns \<and> unlocked (ns_lock ns)"

lemma ok_lock: "nvme_geom ctl (ns\<lparr>ns_lock := l\<rparr>) = nvme_geom ctl ns" "cache_ok ctl (ns\<lparr>ns_lock := l\<rparr>) = cache_ok ctl ns"
  by (simp_all add: nvme_geom_def cache_ok_def slot_ok_def blk_at_def blk_len_def)

interpretation nvme: block_device "nvme_ops ctl blksize dsz" "ns_bytes ctl" "nvme_ok ctl" for ctl :: "'d controller" and blksize dsz
proof unfold_locales
  fix ns :: "'d nvme_ns" assume s: "nvme_ok ctl ns"
  then show "length (ns_bytes ctl ns) < 2 ^ 63" by (simp add: nvme_ok_def nvme_geom_def)
  have u: "unlocked (ns_lock ns)" and g: "nvme_geom ctl (ns\<lparr>ns_lock := l\<rparr>)" "cache_ok ctl (ns\<lparr>ns_lock := l\<rparr>)" for l
    using s by (simp_all add: nvme_ok_def ok_lock)
  show "\<exists>s'. dev_read (nvme_ops ctl blksize dsz) loc n ns = Inr (Some (bytes_at (unat loc) (unat n) (ns_bytes ctl ns)), s') \<and>
      nvme_ok ctl s' \<and> ns_bytes ctl s' = ns_bytes ctl ns" if nz: "n \<noteq> 0" and le: "unat loc + unat n \<le> length (ns_bytes ctl ns)" for loc n
  proof -
    let ?l = "(ns_lock ns)\<lparr>lock_word := 1, last_acquirer := ''nvme_read''\<rparr>"
    obtain ns' where "read_loop ctl loc n (ns\<lparr>ns_lock := ?l\<rparr>) = Inr (bytes_at (unat loc) (unat n) (ns_bytes ctl ns), ns')"
        "nvme_geom ctl ns'" "cache_ok ctl ns'" "same_ns ctl (ns\<lparr>ns_lock := ?l\<rparr>) ns'"
      using read_loop_ok [OF g, of loc n ?l] le by auto
    then show ?thesis using u by (simp add: nvme_ops_def nvme_read_def spinlock_acquire_unlocked nvme_ok_def ok_lock same_ns_def)
  qed
  show "\<exists>s'. dev_write (nvme_ops ctl blksize dsz) loc bs ns = Inr (Some (of_nat (length bs)), s') \<and>
      nvme_ok ctl s' \<and> ns_bytes ctl s' = put_at (unat loc) bs (ns_bytes ctl ns)" if nz: "bs \<noteq> []" and le: "unat loc + length bs \<le> length (ns_bytes ctl ns)" for loc bs
  proof -
    let ?l = "(ns_lock ns)\<lparr>lock_word := 1, last_acquirer := ''nvme_write''\<rparr>"
    have "length (ns_bytes ctl ns) < 2 ^ 63" using s by (simp add: nvme_ok_def nvme_geom_def)
    then have "unat (of_nat (length bs) :: u64) = length bs" using le by (intro unat_of_nat_small) simp
    then obtain ns' where "write_loop_nvme ctl loc (of_nat (length bs)) bs (ns\<lparr>ns_lock := ?l\<rparr>) = Inr ns'"
        "nvme_geom ctl ns'" "cache_ok ctl ns'" "ns_bytes ctl ns' = put_at (unat loc) bs (ns_bytes ctl ns)"
      using write_loop_ok [OF g, of "of_nat (length bs)" bs loc ?l] le by auto
    then show ?thesis using u by (simp add: nvme_ops_def nvme_write_def spinlock_acquire_unlocked nvme_ok_def ok_lock)
  qed
qed

text \<open>A partition inside the namespace.\<close>

definition part_ok :: "'d controller \<Rightarrow> partition_device \<Rightarrow> 'd nvme_ns \<Rightarrow> bool" where
  "part_ok ctl p ns \<longleftrightarrow> nvme_ok ctl ns \<and> pt_offset p + pt_length p \<le> length (ns_bytes ctl ns)"

interpretation nvmepart: partitioned "nvme_ops ctl blksize dsz" "ns_bytes ctl" "part_ok ctl p" p for ctl :: "'d controller" and blksize dsz p
proof unfold_locales
  fix ns :: "'d nvme_ns" assume "part_ok ctl p ns"
  then have ok: "nvme_ok ctl ns" and le: "pt_offset p + pt_length p \<le> length (ns_bytes ctl ns)" by (simp_all add: part_ok_def)
  show "length (ns_bytes ctl ns) < 2 ^ 63" by (rule nvme.dsize [OF ok])
  show "pt_offset p + pt_length p \<le> length (ns_bytes ctl ns)" by (rule le)
  show "\<exists>s'. dev_read (nvme_ops ctl blksize dsz) loc n ns = Inr (Some (bytes_at (unat loc) (unat n) (ns_bytes ctl ns)), s') \<and>
      part_ok ctl p s' \<and> ns_bytes ctl s' = ns_bytes ctl ns" if "n \<noteq> 0" "unat loc + unat n \<le> length (ns_bytes ctl ns)" for loc n
    using nvme.dread [OF ok that, of blksize dsz] le by (auto simp: part_ok_def)
  show "\<exists>s'. dev_write (nvme_ops ctl blksize dsz) loc bs ns = Inr (Some (of_nat (length bs)), s') \<and>
      part_ok ctl p s' \<and> ns_bytes ctl s' = put_at (unat loc) bs (ns_bytes ctl ns)" if "bs \<noteq> []" "unat loc + length bs \<le> length (ns_bytes ctl ns)" for loc bs
    using nvme.dwrite [OF ok that, of blksize dsz] le that(2) by (auto simp: part_ok_def)
qed


lemma new_namespace_ok:
  assumes "nvme_initnamespace physaddr maxtransshift slots nid info d = Inr ns" "good_controller ctl 512"
    and "nsid_lbads info ! unat (nsid_flbas info AND 0x0f) = 9" "length (ctl_bytes ctl d) = unat (nsid_size info) * 512"
    and "length (ctl_bytes ctl d) < 2 ^ 63" "\<And>i. page_fits ctl 2048 (ctl_alloc ctl i)"
  shows "nvme_ok ctl ns"
proof -
  have nine: "shifted 9 = 512" by (simp add: shifted_def)
  from assms(1,3) have "ns_lock ns = SPINLOCK_INIT" "lbasize ns = 512" "cacheblocksize ns = 2048" "lbacount ns = nsid_size info" "ns_dev ns = d"
      "ns_cache ns = replicate 512 \<lparr>cb_addr = 0, cb_cache = [], cb_block = 0, cb_status = 0\<rparr>" "overwritten ns = 0"
    by (auto simp: nvme_initnamespace_def Let_def kresult nine)
  then show ?thesis using assms(2,4-6) by (simp add: nvme_ok_def nvme_geom_def cache_ok_def)
qed

text \<open>
  The cache of the NVMe driver is invisible: from every state that satisfies the cache's invariant, a write
  of any bytes at any place of the namespace changes exactly these bytes of the device, every read
  behind it returns the device's bytes, whichever blocks were cached or had to be replaced, and the invariant
  holds again.
\<close>

theorem nvme_cache_refines_disk:
  assumes "nvme_ok ctl ns" "buf \<noteq> []" "unat loc + length buf \<le> length (ns_bytes ctl ns)" "n \<noteq> 0" "unat pos + unat n \<le> length (ns_bytes ctl ns)"
  shows "\<exists>ns1 ns2. nvme_write ctl loc buf ns = Inr (Some (of_nat (length buf)), ns1) \<and>
    ns_bytes ctl ns1 = put_at (unat loc) buf (ns_bytes ctl ns) \<and> nvme_ok ctl ns1 \<and>
    nvme_read ctl pos n ns1 = Inr (Some (bytes_at (unat pos) (unat n) (put_at (unat loc) buf (ns_bytes ctl ns))), ns2) \<and>
    ns_bytes ctl ns2 = ns_bytes ctl ns1 \<and> nvme_ok ctl ns2"
proof -
  obtain ns1 where w: "nvme_write ctl loc buf ns = Inr (Some (of_nat (length buf)), ns1)" "nvme_ok ctl ns1"
      "ns_bytes ctl ns1 = put_at (unat loc) buf (ns_bytes ctl ns)"
    using nvme.dwrite [OF assms(1-3)] by (auto simp: nvme_ops_def)
  then have "unat pos + unat n \<le> length (ns_bytes ctl ns1)" using assms(3,5) by simp
  then show ?thesis using nvme.dread [OF w(2) assms(4)] w by (fastforce simp: nvme_ops_def)
qed

text \<open>A controller with the device in memory.\<close>

definition example_rw :: "nvme_rw \<Rightarrow> u64 list \<Rightarrow> u64 \<Rightarrow> u8 list \<Rightarrow> u8 list \<Rightarrow> u16 \<times> u8 list \<times> u8 list" where
  "example_rw cmd pages phys buf d =
     (let n = (unat (rw_len cmd) + 1) * 512; at = unat (rw_slba cmd) * 512
      in if rw_opcode cmd = NVME_OPREAD then (0, bytes_at at n d @ drop n buf, d) else (0, buf, put_at at (take n buf) d))"

definition example_ctl :: "u8 list controller" where
  "example_ctl = \<lparr>ctl_rw = example_rw, ctl_bytes = (\<lambda>d. d), ctl_alloc = (\<lambda>i. of_nat i * 4096), ctl_hhdm = 0\<rparr>"

definition example_ns :: "u8 list nvme_ns" where
  "example_ns = projr (nvme_initnamespace 0x9000 20 64 1 \<lparr>nsid_size = 16, nsid_flbas = 0, nsid_lbads = [9]\<rparr> (replicate 8192 0))"

lemma example_good: "good_controller example_ctl 512"
  by (simp add: good_controller_def example_ctl_def example_rw_def NVME_OPREAD_def NVME_OPWRITE_def Let_def)

lemma example_fits: "page_fits example_ctl 2048 (ctl_alloc example_ctl i)"
proof -
  have "unat (of_nat i * 4096 :: u64) mod 4096 = 0" by (simp add: unat_word_ariths unat_of_nat mod_mod_cancel)
  then show ?thesis by (simp add: page_fits_def example_ctl_def)
qed

lemma example_ns_ok: "nvme_ok example_ctl example_ns" "ns_bytes example_ctl example_ns = replicate 8192 0"
proof -
  have init: "nvme_initnamespace 0x9000 20 64 1 \<lparr>nsid_size = 16, nsid_flbas = 0, nsid_lbads = [9]\<rparr> (replicate 8192 0) = Inr example_ns"
    by (simp add: example_ns_def nvme_initnamespace_def Let_def)
  show "nvme_ok example_ctl example_ns"
    by (rule new_namespace_ok [OF init example_good]) (simp_all add: example_fits, simp_all add: example_ctl_def)
  show "ns_bytes example_ctl example_ns = replicate 8192 0" by (simp add: example_ns_def nvme_initnamespace_def Let_def example_ctl_def)
qed

theorem nvme_cache_refines_disk_witness:
  "\<exists>ns1 ns2. nvme_write example_ctl 2000 (replicate 100 7) example_ns = Inr (Some 100, ns1) \<and>
    nvme_read example_ctl 2040 20 ns1 = Inr (Some (replicate 20 7), ns2)"
proof -
  have "\<exists>ns1 ns2. nvme_write example_ctl 2000 (replicate 100 7) example_ns = Inr (Some (of_nat (length (replicate 100 (7 :: u8)))), ns1) \<and>
    ns_bytes example_ctl ns1 = put_at (unat (2000 :: u64)) (replicate 100 7) (ns_bytes example_ctl example_ns) \<and> nvme_ok example_ctl ns1 \<and>
    nvme_read example_ctl 2040 20 ns1 =
      Inr (Some (bytes_at (unat (2040 :: u64)) (unat (20 :: u64)) (put_at (unat (2000 :: u64)) (replicate 100 7) (ns_bytes example_ctl example_ns))), ns2) \<and>
    ns_bytes example_ctl ns2 = ns_bytes example_ctl ns1 \<and> nvme_ok example_ctl ns2"
    by (rule nvme_cache_refines_disk [OF example_ns_ok(1)]) (simp_all add: example_ns_ok(2))
  moreover have "bytes_at 2040 20 (put_at 2000 (replicate 100 7) (replicate 8192 0)) = (replicate 20 7 :: u8 list)"
    by (rule nth_equalityI) (simp_all add: nth_bytes_at nth_put_at)
  ultimately show ?thesis by (auto simp: example_ns_ok(2))
qed

subsection \<open>Larger blocks\<close>

text \<open>A transfer of more than one and at most two pages is given to the controller without its first pointer.\<close>

lemma two_page_transfer_without_address:
  assumes "start + 4 < lbacount ns" "lbasize ns = 2048" "ctl_rw ctl = (\<lambda>cmd pages phys buf d. (if rw_prp1 cmd = 0 then 1 else 0, buf, d))"
  shows "nvme_rwlba ctl addr buf start 4 write ns = Inl (Panic ''nvme: cmd error'')"
proof -
  have "\<not> start + 4 \<ge> lbacount ns" using assms(1) by simp
  then show ?thesis using assms(2,3) by (simp add: nvme_rwlba_def Let_def PAGE_SIZE_def nvme_awaitsubmitcmd_def)
qed

text \<open>
  The page lists of a queue have room for one list per slot of the queue, but the place of a list is
  computed from the number of the command, which only ever grows: with blocks of 4096 bytes, where every
  transfer needs a list, the driver writes behind the lists as soon as it has sent as many commands as the
  queue has slots.
\<close>

theorem nvme_page_lists_overflow:
  assumes "lbasize ns = 4096" "start + 4 < lbacount ns" "3 \<le> maxphysrpgs ns" "ns_queue ns = q\<lparr>q_cmdid := cid\<rparr>"
    and "q_physregpgs q = replicate (unat (maxphysrpgs ns) * slots) 0" "slots \<le> unat cid" "unat (maxphysrpgs ns) < 2 ^ 32"
  shows "nvme_rwlba ctl addr buf start 4 write ns = Inl OutOfBounds"
proof -
  have nc: "\<not> start + 4 \<ge> lbacount ns" using assms(2) by simp
  have len: "\<not> (4 :: u64) * 4096 \<le> PAGE_SIZE * 2" "(4 - 1) * 4096 div PAGE_SIZE = (3 :: u64)" by (simp_all add: PAGE_SIZE_def)
  let ?first = "ucast cid * maxphysrpgs ns :: u64"
  have c: "unat cid < 2 ^ 32" using unsigned_less [of cid] by simp
  then have "unat (ucast cid :: u64) = unat cid" by (simp add: unat_ucast_word take_bit_nat_eq_self)
  moreover have "unat cid * unat (maxphysrpgs ns) < 2 ^ 32 * 2 ^ 32" using assms(7) c by (intro mult_strict_mono) simp_all
  ultimately have "unat ?first = unat cid * unat (maxphysrpgs ns)" by (simp add: unat_mult_small)
  then have "length (q_physregpgs q) \<le> unat (0 + ?first)" using assms(5,6) by (simp add: mult.commute)
  then have "fill_prps ?first page 3 (q_physregpgs q) = Inl OutOfBounds" for page
    by (simp add: fill_prps_def for_range.simps [of _ 0 3] arr_set_def)
  then show ?thesis using nc len assms(1,3,4) by (simp add: nvme_rwlba_def Let_def PAGE_SIZE_def not_less)
qed


theorem nvme_page_lists_overflow_witness:
  "nvme_rwlba example_ctl 0x8000 (replicate 16384 0) 0 4 False
     (example_ns\<lparr>lbasize := 4096, maxphysrpgs := 256, ns_queue := (nvme_createqueue 0x9000 256 64)\<lparr>q_cmdid := 64\<rparr>\<rparr>) = Inl OutOfBounds"
  by (rule nvme_page_lists_overflow [where q = "nvme_createqueue 0x9000 256 64" and cid = 64 and slots = 64])
    (simp_all add: nvme_createqueue_def example_ns_def nvme_initnamespace_def Let_def)

subsection \<open>Partitions of a namespace\<close>

text \<open>
  A write through a partition of the namespace that ends inside the partition changes its bytes there and
  leaves every other partition that does not overlap it as it was, through the cache of the driver.
\<close>

theorem partition_write_isolated:
  assumes "part_ok ctl p ns" "part_ok ctl q ns" "buf \<noteq> []" "unat loc + length buf \<le> pt_length p"
    and "pt_offset p + pt_length p \<le> pt_offset q \<or> pt_offset q + pt_length q \<le> pt_offset p"
  shows "\<exists>ns'. writepart (nvme_ops ctl blksize dsz) p loc buf ns = Inr (Some (of_nat (length buf)), ns') \<and>
    pt_content p (ns_bytes ctl ns') = put_at (unat loc) buf (pt_content p (ns_bytes ctl ns)) \<and>
    pt_content q (ns_bytes ctl ns') = pt_content q (ns_bytes ctl ns) \<and> part_ok ctl p ns' \<and> part_ok ctl q ns'"
proof -
  have nv: "nvme_ok ctl ns" and p: "pt_offset p + pt_length p \<le> length (ns_bytes ctl ns)" and q: "pt_offset q + pt_length q \<le> length (ns_bytes ctl ns)"
    using assms(1,2) by (simp_all add: part_ok_def)
  note pl = nvmepart.place [OF assms(1,4)]
  have pos: "0 < length buf" using assms(3) by simp
  obtain ns' where w: "dev_write (nvme_ops ctl blksize dsz) (loc + pt_start p * ucast (pt_blksize p)) buf ns = Inr (Some (of_nat (length buf)), ns')"
      "nvme_ok ctl ns'" "ns_bytes ctl ns' = put_at (pt_offset p + unat loc) buf (ns_bytes ctl ns)"
    using nvme.dwrite [OF nv assms(3), of "loc + pt_start p * ucast (pt_blksize p)" blksize dsz] pl(2) [OF pos] p assms(4) by auto
  have len: "length (ns_bytes ctl ns') = length (ns_bytes ctl ns)" using w(3) p assms(4) by simp
  have "pt_content p (ns_bytes ctl ns') = put_at (unat loc) buf (pt_content p (ns_bytes ctl ns))"
    unfolding w(3) pt_content_def by (rule bytes_at_put_inside [OF assms(4) p])
  moreover have "pt_content q (ns_bytes ctl ns') = pt_content q (ns_bytes ctl ns)"
    unfolding w(3) pt_content_def by (rule bytes_at_put_at_other) (use assms(4,5) p q in auto)
  ultimately show ?thesis using w(1,2) pl(1) [OF pos] p q len by (simp add: writepart_def part_ok_def)
qed

definition example_part :: "u64 \<Rightarrow> partition_device" where
  "example_part start = \<lparr>pt_start = start, pt_sectors = 4, pt_blksize = 512, pt_st_size = 2048, pt_st_blocks = 4\<rparr>"

theorem partition_write_isolated_witness:
  "\<exists>ns'. writepart (nvme_ops example_ctl 512 8192) (example_part 2) 2000 (replicate 48 7) example_ns = Inr (Some 48, ns') \<and>
    pt_content (example_part 6) (ns_bytes example_ctl ns') = replicate 2048 0"
proof -
  have "\<exists>ns'. writepart (nvme_ops example_ctl 512 8192) (example_part 2) 2000 (replicate 48 7) example_ns =
      Inr (Some (of_nat (length (replicate 48 (7 :: u8)))), ns') \<and>
    pt_content (example_part 2) (ns_bytes example_ctl ns') = put_at (unat (2000 :: u64)) (replicate 48 7) (pt_content (example_part 2) (ns_bytes example_ctl example_ns)) \<and>
    pt_content (example_part 6) (ns_bytes example_ctl ns') = pt_content (example_part 6) (ns_bytes example_ctl example_ns) \<and>
    part_ok example_ctl (example_part 2) ns' \<and> part_ok example_ctl (example_part 6) ns'"
    by (rule partition_write_isolated) (simp_all add: part_ok_def example_ns_ok pt_offset_def pt_length_def example_part_def)
  moreover have "pt_content (example_part 6) (replicate 8192 0) = replicate 2048 0"
    by (simp add: pt_content_def pt_offset_def pt_length_def example_part_def bytes_at_def)
  ultimately show ?thesis by (auto simp: example_ns_ok(2))
qed

text \<open>The bound is tested for the first byte of a call only: what lies behind the partition is read and written as well.\<close>

lemma partition_read_leaves:
  assumes "nvme_ok ctl ns" "loc < pt_limit p" "n \<noteq> 0" "unat loc + pt_offset p + unat n \<le> length (ns_bytes ctl ns)"
  shows "\<exists>ns'. readpart (nvme_ops ctl blksize dsz) p loc n ns = Inr (Some (bytes_at (pt_offset p + unat loc) (unat n) (ns_bytes ctl ns)), ns')"
proof -
  have "unat (loc + pt_start p * ucast (pt_blksize p)) = pt_offset p + unat loc"
    using pt_place [of loc p] assms(4) nvme.dsize [OF assms(1)] by simp
  then show ?thesis using nvme.dread [OF assms(1,3), of "loc + pt_start p * ucast (pt_blksize p)" blksize dsz] assms(2,4)
    by (auto simp: readpart_def add.commute)
qed

text \<open>
  The number of sectors of a partition in a GPT is divided by the size of a block although it is not a
  number of bytes: of a partition whose last sector is \<open>k\<close> sectors behind its first only \<open>k\<close> bytes, rounded
  down to blocks, can be read or written.
\<close>

theorem gpt_partition_cut_off:
  assumes "p = gpt_partition blocksize e" "ge_start e \<le> ge_end e" "blocksize \<noteq> 0" "loc \<ge> ge_end e - ge_start e"
  shows "readpart root p loc n s = Inr (None, s) \<and> writepart root p loc buf s = Inr (None, s) \<and>
    pt_length p \<le> unat (ge_end e) - unat (ge_start e)"
proof -
  let ?d = "ge_end e - ge_start e"
  have d: "unat ?d = unat (ge_end e) - unat (ge_start e)" using assms(2) by (simp add: word_le_nat_alt unat_sub_small)
  have "unat (pt_sectors p) * unat (pt_blksize p) = (unat ?d div unat blocksize) * unat blocksize"
    by (simp add: assms(1) gpt_partition_def unat_div)
  also have "\<dots> \<le> unat ?d" by simp
  finally have le: "pt_length p \<le> unat ?d" by (simp add: pt_length_def)
  moreover have "unat ?d < 2 ^ 64" by simp
  ultimately have "pt_length p < 2 ^ 64" by (rule le_less_trans)
  then have "unat (pt_limit p) \<le> unat loc" using pt_limit_nat [of p] le assms(4) by (simp add: word_le_nat_alt)
  then have "pt_limit p \<le> loc" by (simp add: word_le_nat_alt)
  then show ?thesis using le d by (simp add: readpart_def writepart_def)
qed

theorem gpt_partition_cut_off_witness:
  "readpart (nvme_ops example_ctl 512 8192) (gpt_partition 512 \<lparr>ge_unilow = 1, ge_unihi = 1, ge_start = 2048, ge_end = 4095, ge_attr = 0\<rparr>) 4096 1 example_ns =
     Inr (None, example_ns)"
  using gpt_partition_cut_off [OF HOL.refl, of "\<lparr>ge_unilow = 1, ge_unihi = 1, ge_start = 2048, ge_end = 4095, ge_attr = 0\<rparr>" 512 4096
      "nvme_ops example_ctl 512 8192" 1 example_ns "[]"] by simp

end
