(* ===== verification/Spec2Isabelle.thy ===== *)
theory Spec2Isabelle
  imports Lyre_Slab Lyre_Hashmap Lyre_Random Lyre_Event Lyre_Pipe Lyre_Time Lyre_Process Lyre_Mmap Lyre_Tmpfs Lyre_Client
    Lyre_Nvme
begin

text \<open>
  Verification of the Lyre kernel (\<open>src/kernel\<close>), a Unix-like kernel for x86-64 written in C.

  \<^bold>\<open>Parts of the program and of this development.\<close>  Memory is handed out in pages by the physical allocator
  (\<open>mm/pmm.c\<close>, \<open>Lyre_Pmm\<close>, over the bitmaps of \<open>lib/bitmap.k.h\<close>, \<open>Lyre_Bitmap\<close>) and in small blocks by the slab
  allocator (\<open>mm/slab.c\<close>, \<open>Lyre_Slab\<close>).  Page tables (\<open>mm/vmm.c\<close>, \<open>Lyre_Vmm\<close>) and the mappings of processes
  (\<open>mm/mmap.c\<close>, \<open>Lyre_Mmap\<close>) are built from pages.  Shared structures are protected by spinlocks (\<open>lib/lock.c\<close>,
  \<open>Lyre_Lock\<close>) and kept in vectors and hash maps (\<open>lib/vector.k.h\<close>, \<open>lib/hashmap.k.h\<close>: \<open>Lyre_Vector\<close>,
  \<open>Lyre_Hashmap\<close>).  The scheduler (\<open>sched/sched.c\<close>, \<open>Lyre_Sched\<close>) runs threads on several CPUs; threads wait for
  events (\<open>lib/event.c\<close>, \<open>Lyre_Event\<close>), which timers (\<open>time/time.c\<close>, \<open>Lyre_Time\<close>) and drivers trigger.
  Processes (\<open>sched/proc.c\<close> and the rest of \<open>sched/sched.c\<close>, \<open>Lyre_Process\<close>) fork, execute, exit and are waited for.

  They reach resources through file descriptors (\<open>lib/resource.c\<close>, \<open>Lyre_Resource\<close>).  Resources are pipes
  (\<open>ipc/pipe.c\<close>, \<open>Lyre_Pipe\<close>, over the ring buffer lemmas of \<open>Lyre_Ring\<close>), files, and sockets.  The virtual file
  system (\<open>fs/vfs/vfs.c\<close>, \<open>Lyre_Vfs\<close>) finds nodes by their paths; the memory file systems (\<open>fs/tmpfs.c\<close>,
  \<open>fs/devtmpfs.c\<close>, \<open>Lyre_Tmpfs\<close>) provide the functions it calls.  Sockets (\<open>ipc/socket.c\<close>, \<open>ipc/socket/unix.c\<close>:
  \<open>Lyre_Socket\<close>) connect processes through paths, and through the network: packets, checksums, fragments and
  reassembly are in \<open>Lyre_Packet\<close>, adapters, ARP, routing, ports, ICMP and the loopback adapter in \<open>Lyre_Net\<close>, the
  configuration of adapters in \<open>Lyre_Ifioctl\<close> (all of \<open>dev/net/net.c\<close> and \<open>dev/net/loopback.c\<close>), UDP
  (\<open>ipc/socket/udp.c\<close>) in \<open>Lyre_Udp\<close>.  TCP (\<open>ipc/socket/tcp.c\<close>) is in \<open>Lyre_Segment\<close> (buffers, headers, checksum,
  options), \<open>Lyre_Tcp\<close> (the sockets, the handling of segments, the calls), \<open>Lyre_Handshake\<close> (connections between
  sockets of the machine itself) and \<open>Lyre_Client\<close> (a connection to another host).

  Block devices hold the disks: \<open>Lyre_Block\<close> is the interface of one and the partitions on it
  (\<open>dev/storage/partition.c\<close>), \<open>Lyre_Nvme\<close> the NVMe driver (\<open>dev/storage/nvme/nvme.c\<close>) from the calls through its
  cache down to the commands for the controller, which is an argument.

  \<open>Lyre_Libc\<close> models \<open>lib/libc.c\<close>, \<open>Lyre_Random\<close> the random numbers of \<open>lib/random.c\<close>, \<open>Lyre_Abi\<close> the error
  numbers and flags, which come from the C library and are arguments.  \<open>Lyre_Prelude\<close> holds the machine
  words, the faults and the loop rules.

  \<^bold>\<open>How the code is modelled.\<close>  A struct is a record with the names of its fields, a pointer is a 64-bit
  word with zero for \<open>NULL\<close>, a function is a definition of the same name on explicit states.  Integers keep
  their width.  A run that stops the kernel (an access out of bounds, a null pointer, a panic, a lock that is
  never released) gives \<open>Inl\<close> of a fault; an error return is a value with the error number.  Memory that an
  allocator returns is an argument or a list of the addresses it is going to return.  A function that gives up
  the CPU is split there: the first part ends with a value that says so, another definition is what happens
  after it is woken.  Functions that the code calls through pointers (of drivers, file systems, sockets) are
  arguments, instantiated with the models of the functions the code installs.  Loops are recursive; loops that
  may not end or whose counters can wrap around (\<open>next_loop\<close>, \<open>page_loop\<close>, \<open>snip_end\<close>, \<open>munmap_loop\<close>,
  \<open>mprotect_loop\<close>, \<open>unmap_ranges\<close>, \<open>adopt\<close>, \<open>reduce_plain\<close>, \<open>reduce_follow\<close>, \<open>path_loop\<close>, \<open>vfs_pathname\<close>, \<open>grow\<close>, \<open>grow_to\<close>,
  \<open>frag_loop\<close>, \<open>write_loop\<close>, and the loops over strings of \<open>Lyre_Libc\<close>) are partial functions with \<open>None\<close> for a run that does not end, and what they return is proved
  for the inputs of each theorem.

  \<^bold>\<open>What is shown.\<close>  Allocators: an allocation takes free memory nobody else has, freeing gives it back, the
  bitmap is set up from the memory map.  Page tables: a page map is a mapping from pages to entries, and no
  operation touches another page or another page map (locale \<open>address_space\<close>).  Mappings: what a page fault, an
  unmapping, a change of protection and a fork do to every page, and where they go wrong.  Locks: mutual
  exclusion of any number of CPUs.  Scheduler: the running queue agrees with the threads' flags, the choice is
  round robin, no thread runs on two CPUs, a context switch saves and restores.  Events: a waiter is woken with
  the right index, a trigger without a waiter is not lost.  Containers refine lists and maps (locales
  \<open>registry\<close>, \<open>dictionary\<close>, \<open>bit_store\<close>).  Pipes and connected Unix sockets are queues of bytes (locale
  \<open>byte_queue\<close>, with an interpretation for each).  Processes: what a fork shares, what a new program finds on its
  stack, what reaping does to the table of processes, that a futex wakes its waiter.  File systems: a path
  lookup is a walk through the directories, a created file is found, a file is a growing sequence of bytes
  (locale \<open>file_system\<close>, interpreted for \<open>tmpfs\<close>).  File descriptors: which slot and which
  reference every call takes and drops.  Sockets: connecting and accepting makes a connection.  Network: the
  checksum is the one of RFC 1071, a fragmented datagram is reassembled to itself or lost, depending on what becomes
  of the memory of a freed fragment, an echo request from the machine itself is answered, which adapter a route takes,
  that port numbers given back run out.  TCP: the receive buffer is a queue of bytes, the checksum
  is compared with RFC 1071, a refused connection and an accepted one are followed through \<open>tcp_connect\<close>, the
  network and \<open>tcp_netpacket\<close> to the memory they use after it was freed (locale \<open>tcp_link\<close> for what TCP needs of the
  network).  Timers: over a run of timer interrupts an armed timer fires once, and when.  Disks: the cache of the NVMe
  driver is invisible, a partition is a block device of its own (locales \<open>block_device\<close> and \<open>partitioned\<close>, interpreted
  for a namespace and a partition on it).  The theorems about defects of the code are listed
  with the findings of the manifest.

  \<^bold>\<open>Not modelled.\<close>  Code that only talks to hardware or to the boot loader (\<open>acpi\<close>, \<open>dev\<close> apart from what is
  named above, \<open>sys\<close>, \<open>kernel.c\<close>), printing and tracing (\<open>lib/print.c\<close>, \<open>lib/debug.c\<close>, \<open>lib/trace.c\<close>,
  \<open>lib/panic.c\<close>), the user land and the build.  The other CPUs' part of \<open>tlb_shootdown\<close> is recorded, not run.
  Releasing memory is modelled where the code uses it afterwards in a way that can matter (\<open>rq_block\<close>, \<open>ts_freed\<close>,
  \<open>freed_header\<close>); \<open>net_ifhandler\<close> reads one pointer from a freed block to free it as well, which is left out there.

  \<^bold>\<open>Plan.\<close>  The disk file systems over \<open>Lyre_Block\<close>, starting with \<open>fs/ext2fs.c\<close>, loading of programs
  (\<open>lib/elf.c\<close>), the initial file system (\<open>fs/initramfs.c\<close>), the stream devices and the console.
\<close>

end
